(* ===== verification/Prelude.thy ===== *)
theory Prelude
  imports Main "HOL-Library.Word"
begin

text \<open>
  Shared vocabulary of the development: names for the machine types, the sentinel handles of the
  compiler's index-based data structures, decimal and hexadecimal printing as \<^verbatim>\<open>std::format\<close> does
  it, little-endian byte sequences, and the generic facts on lists the component theories use.
\<close>

unbundle bit_operations_syntax

named_theorems codec "decoding facts of the byte-level formats"
named_theorems bounds "range facts of indices, lengths and machine integers"

type_synonym byte = "8 word"
type_synonym u16 = "16 word"
type_synonym u32 = "32 word"
type_synonym u64 = "64 word"
type_synonym bytes = "byte list"

text \<open>
  Handles (\<^verbatim>\<open>ValueId\<close>, \<^verbatim>\<open>BlockId\<close>, slot, function and signature indices) are \<^verbatim>\<open>uint32_t\<close> in the
  sources and are only compared, copied and used as vector indices. They are natural numbers here;
  \<open>UINT32_MAX\<close> is the absent marker.
\<close>

definition UINT32_MAX :: nat where
  "UINT32_MAX = 4294967295"

subsection \<open>Printing numbers\<close>

definition digit_char :: "nat \<Rightarrow> char" where
  "digit_char d = (if d < 10 then char_of (48 + d) else char_of (87 + d))"

fun show_base :: "nat \<Rightarrow> nat \<Rightarrow> string" where
  "show_base b n =
     (if b < 2 then [] else if n < b then [digit_char n]
      else show_base b (n div b) @ [digit_char (n mod b)])"

declare show_base.simps [simp del]

definition show_nat :: "nat \<Rightarrow> string" where
  "show_nat n = show_base 10 n"

definition show_int :: "int \<Rightarrow> string" where
  "show_int i = (if i < 0 then ''-'' @ show_nat (nat (- i)) else show_nat (nat i))"

lemma digit_char_code: "d < 10 \<Longrightarrow> of_char (digit_char d) = 48 + d"
  by (simp add: digit_char_def)

lemma show_nat_digits: "c \<in> set (show_nat n) \<Longrightarrow> 48 \<le> (of_char c :: nat) \<and> (of_char c :: nat) < 58"
  unfolding show_nat_def
proof (induction n rule: less_induct)
  case (less n)
  have "n div 10 < n" if "10 \<le> n" using that by simp
  with less show ?case
    by (subst (asm) (2) show_base.simps)
      (auto simp: digit_char_code not_less split: if_splits dest!: less.IH [rotated])
qed

definition decimal_value :: "string \<Rightarrow> nat" where
  "decimal_value s = foldl (\<lambda>a c. 10 * a + (of_char c - 48)) 0 s"

lemma decimal_value_show_nat [simp]: "decimal_value (show_nat n) = n"
  unfolding show_nat_def decimal_value_def
proof (induction n rule: less_induct)
  case (less n)
  then show ?case
    by (subst show_base.simps) (simp add: digit_char_code)
qed

lemma show_nat_inject [simp]: "show_nat m = show_nat n \<longleftrightarrow> m = n"
  by (metis decimal_value_show_nat)

definition pad_left :: "nat \<Rightarrow> char \<Rightarrow> string \<Rightarrow> string" where
  "pad_left w c s = replicate (w - length s) c @ s"

text \<open>The joined rendering of a list with a separator, as the printing loops build it.\<close>

fun join :: "string \<Rightarrow> string list \<Rightarrow> string" where
  "join sep [] = []"
| "join sep [s] = s"
| "join sep (s # t # ss) = s @ sep @ join sep (t # ss)"

definition quoted :: "string \<Rightarrow> string" where
  "quoted s = CHR 0x27 # s @ [CHR 0x27]"

text \<open>A conditional diagnostic: the message when the condition holds, nothing otherwise.\<close>

definition fails :: "bool \<Rightarrow> string \<Rightarrow> string list" where
  "fails c msg = (if c then [msg] else [])"

lemma fails_Nil [simp]: "fails c msg = [] \<longleftrightarrow> \<not> c"
  by (simp add: fails_def)

subsection \<open>Searching and updating lists by index\<close>

fun find_index :: "('a \<Rightarrow> bool) \<Rightarrow> 'a list \<Rightarrow> nat option" where
  "find_index P [] = None"
| "find_index P (x # xs) = (if P x then Some 0 else map_option Suc (find_index P xs))"

lemma find_index_Some:
  "find_index P xs = Some i \<Longrightarrow> i < length xs \<and> P (xs ! i) \<and> (\<forall>j < i. \<not> P (xs ! j))"
proof (induction xs arbitrary: i)
  case (Cons x xs)
  then show ?case
    by (auto simp: nth_Cons less_Suc_eq_0_disj split: if_splits nat.splits)
qed simp

lemma find_index_None: "find_index P xs = None \<longleftrightarrow> (\<forall>x \<in> set xs. \<not> P x)"
  by (induction xs) auto

lemma concat_map_Nil: "concat (map f xs) = [] \<longleftrightarrow> (\<forall>x \<in> set xs. f x = [])"
  by simp

lemma concat_map_upt_Nil: "concat (map f [0..<n]) = [] \<longleftrightarrow> (\<forall>k < n. f k = [])"
  by auto

lemma if_Nil_iff: "(if c then xs else ys) = [] \<longleftrightarrow> (if c then xs = [] else ys = [])"
  by simp

text \<open>Deleting the element at an index: \<^verbatim>\<open>v.erase(v.begin() + k)\<close>.\<close>

definition erase_at :: "nat \<Rightarrow> 'a list \<Rightarrow> 'a list" where
  "erase_at k xs = take k xs @ drop (Suc k) xs"

lemma length_erase_at [simp]: "k < length xs \<Longrightarrow> length (erase_at k xs) = length xs - 1"
  by (auto simp: erase_at_def)

lemma set_erase_at: "set (erase_at k xs) \<subseteq> set xs"
  by (auto simp: erase_at_def dest: in_set_takeD in_set_dropD)

text \<open>The elements at the odd positions: the block half of a switch's (value, block) pairs.\<close>

fun odds :: "'a list \<Rightarrow> 'a list" where
  "odds [] = []"
| "odds [x] = []"
| "odds (x # y # zs) = y # odds zs"

lemma set_odds: "set (odds xs) \<subseteq> set xs"
  by (induction xs rule: odds.induct) auto

subsection \<open>Little-endian byte sequences\<close>

text \<open>
  The loop \<^verbatim>\<open>for (i = 0; i < n; ++i) byte(static_cast<uint8_t>(v >> (8 * i)))\<close> of the encoders and
  writers, and the reader that inverts it.
\<close>

definition le_bytes :: "nat \<Rightarrow> 'a::len word \<Rightarrow> bytes" where
  "le_bytes n v = map (\<lambda>i. ucast (drop_bit (8 * i) v)) [0..<n]"

fun le_nat :: "bytes \<Rightarrow> nat" where
  "le_nat [] = 0"
| "le_nat (b # bs) = unat b + 256 * le_nat bs"

lemma length_le_bytes [simp]: "length (le_bytes n v) = n"
  by (simp add: le_bytes_def)

lemma le_bytes_0 [simp]: "le_bytes 0 v = []"
  by (simp add: le_bytes_def)

lemma le_bytes_Suc: "le_bytes (Suc n) v = ucast v # le_bytes n (drop_bit 8 v)"
proof -
  have "[0..<Suc n] = 0 # map Suc [0..<n]"
    by (metis map_Suc_upt upt_conv_Cons zero_less_Suc)
  then show ?thesis
    by (simp add: le_bytes_def comp_def drop_bit_drop_bit add.commute)
qed

lemma le_nat_le_bytes [codec]:
  fixes v :: "'a::len word"
  assumes "8 \<le> LENGTH('a)"
  shows "le_nat (le_bytes n v) = unat v mod 256 ^ n"
proof (induction n arbitrary: v)
  case (Suc n)
  have b: "unat (ucast v :: byte) = unat v mod 256"
    by (simp add: unsigned_ucast_eq take_bit_eq_mod)
  have d: "unat (drop_bit 8 v) = unat v div 256"
    by (simp add: unat_drop_bit_eq drop_bit_eq_div [of 8 "unat v"])
  show ?case
    by (simp add: le_bytes_Suc Suc.IH b d mod_mult2_eq)
qed simp

lemma le_nat_word:
  "8 * n = LENGTH('a) \<Longrightarrow> 0 < n \<Longrightarrow> le_nat (le_bytes n (w :: 'a::len word)) = unat w"
proof -
  assume n: "8 * n = LENGTH('a)" "0 < n"
  have "(256::nat) ^ n = 2 ^ LENGTH('a)"
    by (simp flip: n(1) add: power_mult)
  moreover have "8 \<le> LENGTH('a)" using n by linarith
  ultimately show ?thesis by (simp add: le_nat_le_bytes unsigned_less)
qed

lemmas le_nat_words [codec] =
  le_nat_word [of 4, where 'a = 32, simplified] le_nat_word [of 8, where 'a = 64, simplified]

end
