(* ===== verification/Interfaces.thy ===== *)
theory Interfaces
  imports Prelude "HOL-Library.Monad_Syntax"
begin

text \<open>
  The interfaces several components share, as locales: interning tables, step systems with an
  invariant, and byte codecs. Each is interpreted on the model's own operations in the theory of the
  component that provides them.
\<close>

subsection \<open>Interning tables\<close>

text \<open>
  A table that hands out one index per key: MIR signatures and WebAssembly function types are
  interned by a linear search that appends on a miss.
\<close>

locale interner =
  fixes table :: "'s \<Rightarrow> 'k list" and intern :: "'s \<Rightarrow> 'k \<Rightarrow> 's \<times> nat"
  assumes intern_hit: "k \<in> set (table s) \<Longrightarrow> fst (intern s k) = s"
    and intern_miss: "k \<notin> set (table s) \<Longrightarrow> table (fst (intern s k)) = table s @ [k]"
    and intern_index: "snd (intern s k) < length (table (fst (intern s k))) \<and>
      table (fst (intern s k)) ! snd (intern s k) = k"
begin

lemma table_cases: "table (fst (intern s k)) = table s \<or> table (fst (intern s k)) = table s @ [k]"
  using intern_hit intern_miss by metis

lemma table_distinct: "distinct (table s) \<Longrightarrow> distinct (table (fst (intern s k)))"
  using intern_hit [of k s] intern_miss [of k s] by (cases "k \<in> set (table s)") auto

lemma index_stable: "i < length (table s) \<Longrightarrow> table (fst (intern s k)) ! i = table s ! i"
  using table_cases [of s k] by (auto simp: nth_append)

lemma known_index:
  assumes "distinct (table s)" "i < length (table s)"
  shows "intern s (table s ! i) = (s, i)"
proof -
  have "fst (intern s (table s ! i)) = s"
    using assms(2) by (intro intern_hit) simp
  moreover from this have "snd (intern s (table s ! i)) = i"
    using intern_index [of s "table s ! i"] assms nth_eq_iff_index_eq by metis
  ultimately show ?thesis by (metis prod.collapse)
qed

text \<open>Interning a key again returns the index it has and leaves the table alone.\<close>

lemma intern_again:
  assumes "distinct (table s)" "intern s k = (s1, i)"
  shows "intern s1 k = (s1, i)"
proof -
  have "i < length (table s1)" "table s1 ! i = k" "distinct (table s1)"
    using intern_index [of s k] table_distinct [of s k] assms by simp_all
  then show ?thesis using known_index [of s1 i] by simp
qed

lemma intern_injective:
  assumes "distinct (table s)" "intern s k = (s1, i)" "intern s1 k' = (s2, j)"
  shows "i = j \<longleftrightarrow> k = k'"
proof
  assume "i = j"
  have "i < length (table s1)" "table s1 ! i = k"
    using intern_index [of s k] assms(2) by simp_all
  then have "table s2 ! i = k"
    using index_stable [of i s1 k'] assms(3) by simp
  then show "k = k'"
    using intern_index [of s1 k'] assms(3) \<open>i = j\<close> by simp
next
  assume "k = k'"
  then show "i = j"
    using intern_again [OF assms(1,2)] assms(3) by simp
qed

end

subsection \<open>Step systems with an invariant\<close>

locale invariant_system =
  fixes step :: "'s \<Rightarrow> 's \<Rightarrow> bool" and inv :: "'s \<Rightarrow> bool"
  assumes step_inv: "step a b \<Longrightarrow> inv a \<Longrightarrow> inv b"
begin

lemma run_inv: "step\<^sup>*\<^sup>* a b \<Longrightarrow> inv a \<Longrightarrow> inv b"
  by (induction rule: rtranclp_induct) (auto intro: step_inv)

end

subsection \<open>Byte codecs\<close>

text \<open>One given byte, and a given number of bytes, off the front.\<close>

definition dec_byte :: "byte \<Rightarrow> bytes \<Rightarrow> bytes option" where
  "dec_byte b bs = (case bs of [] \<Rightarrow> None | c # r \<Rightarrow> if c = b then Some r else None)"

definition dec_bytes :: "nat \<Rightarrow> bytes \<Rightarrow> (bytes \<times> bytes) option" where
  "dec_bytes n bs = (if length bs < n then None else Some (take n bs, drop n bs))"

lemma dec_byte_Cons [codec]: "dec_byte b (b # r) = Some r"
  by (simp add: dec_byte_def)

lemma dec_bytes_append [codec]: "n = length bs \<Longrightarrow> dec_bytes n (bs @ r) = Some (bs, r)"
  by (simp add: dec_bytes_def)

text \<open>A decoder run a given number of times.\<close>

fun dec_list :: "(bytes \<Rightarrow> ('a \<times> bytes) option) \<Rightarrow> nat \<Rightarrow> bytes \<Rightarrow> ('a list \<times> bytes) option" where
  "dec_list dec 0 bs = Some ([], bs)"
| "dec_list dec (Suc n) bs =
     (case dec bs of None \<Rightarrow> None
      | Some (x, bs') \<Rightarrow> map_option (\<lambda>(xs, bs''). (x # xs, bs'')) (dec_list dec n bs'))"

text \<open>
  An encoder with a decoder that reads one value off the front of a byte string. On the values the
  encoder is used for, decoding inverts encoding whatever follows.
\<close>

locale codec =
  fixes enc :: "'a \<Rightarrow> bytes" and dec :: "bytes \<Rightarrow> ('a \<times> bytes) option" and valid :: "'a \<Rightarrow> bool"
  assumes dec_enc: "valid x \<Longrightarrow> dec (enc x @ rest) = Some (x, rest)"
begin

lemma prefix_free:
  assumes "valid x" "valid y" "enc x @ r = enc y @ r'"
  shows "x = y \<and> r = r'"
  by (metis assms dec_enc option.inject prod.inject)

lemma enc_inj: "valid x \<Longrightarrow> valid y \<Longrightarrow> enc x = enc y \<Longrightarrow> x = y"
  by (metis prefix_free)

lemma dec_list_enc:
  "\<forall>x \<in> set xs. valid x \<Longrightarrow> dec_list dec (length xs) (concat (map enc xs) @ rest) = Some (xs, rest)"
  by (induction xs) (simp_all add: dec_enc)

end

end
