(* ===== verification/Diagnostics.thy ===== *)
theory Diagnostics
  imports Interfaces
begin

text \<open>
  Source files and diagnostics: \<^verbatim>\<open>source_location.hpp\<close>, \<^verbatim>\<open>source_manager\<close> and \<^verbatim>\<open>diagnostic_engine\<close>.
  The engine's reference to the source manager is a field of the engine (there is one manager per
  compilation and both are only reached through the engine here), the standard error stream is the
  text written so far, and the file system is a parameter of \<open>load_source\<close>.
\<close>

section \<open>Locations, files and reports\<close>

record source_location =
  filename :: string
  line :: nat
  column :: nat
  offset :: nat
  len :: nat

definition default_location :: source_location where
  "default_location = \<lparr>filename = [], line = 1, column = 1, offset = 0, len = 1\<rparr>"

datatype diagnostic_level = Error | Warning

datatype diagnostic_stage = LexerStage | ParserStage | SemaStage | CodegenStage

record diagnostic =
  level :: diagnostic_level
  stage :: diagnostic_stage
  location :: source_location
  message :: string

type_synonym source_manager = "string \<rightharpoonup> string"

record source_file =
  file_name :: string
  file_text :: string

record diagnostic_engine =
  source_manager :: source_manager
  diagnostics :: "diagnostic list"
  reported :: "string list"
  error_count :: nat
  cerr :: string
  color_enabled :: bool

definition MAX_ERRORS :: nat where
  "MAX_ERRORS = 20"

definition DiagnosticEngine :: "source_manager \<Rightarrow> bool \<Rightarrow> diagnostic_engine" where
  "DiagnosticEngine sm color = \<lparr>source_manager = sm, diagnostics = [], reported = [], error_count = 0,
     cerr = [], color_enabled = color\<rparr>"

section \<open>The source manager\<close>

abbreviation newline :: char where
  "newline \<equiv> CHR 0x0A"

abbreviation carriage_return :: char where
  "carriage_return \<equiv> CHR 0x0D"

function end_of_line :: "string \<Rightarrow> nat \<Rightarrow> nat" where
  "end_of_line source i =
     (if i < length source \<and> source ! i \<noteq> newline then end_of_line source (Suc i) else i)"
  by pat_completeness auto
termination
  by (relation "measure (\<lambda>(source, i). length source - i)") auto

declare end_of_line.simps [simp del]

definition substr :: "string \<Rightarrow> nat \<Rightarrow> nat \<Rightarrow> string" where
  "substr s i n = take n (drop i s)"

function source_line_from :: "string \<Rightarrow> nat \<Rightarrow> u32 \<Rightarrow> nat \<Rightarrow> string" where
  "source_line_from source ln current_line i =
     (if i < length source then
        if unat current_line = ln then
          let e = end_of_line source i;
              e' = (if e > i \<and> source ! (e - 1) = carriage_return then e - 1 else e)
          in substr source i (e' - i)
        else source_line_from source ln
          (if source ! i = newline then current_line + 1 else current_line) (Suc i)
      else [])"
  by pat_completeness auto
termination
  by (relation "measure (\<lambda>(source, ln, current_line, i). length source - i)") auto

declare source_line_from.simps [simp del]

definition get_source_line :: "source_manager \<Rightarrow> string \<Rightarrow> nat \<Rightarrow> string" where
  "get_source_line sm fname ln =
     (if ln = 0 then [] else
      case sm fname of None \<Rightarrow> []
      | Some source \<Rightarrow> source_line_from source ln 1 0)"

definition set_source :: "source_manager \<Rightarrow> string \<Rightarrow> string \<Rightarrow> source_manager \<times> source_file" where
  "set_source sm path text = (sm(path \<mapsto> text), \<lparr>file_name = path, file_text = text\<rparr>)"

section \<open>The diagnostic engine\<close>

fun show_level :: "diagnostic_level \<Rightarrow> string" where
  "show_level Error = ''0''"
| "show_level Warning = ''1''"

fun show_stage :: "diagnostic_stage \<Rightarrow> string" where
  "show_stage LexerStage = ''0''"
| "show_stage ParserStage = ''1''"
| "show_stage SemaStage = ''2''"
| "show_stage CodegenStage = ''3''"

definition report_key :: "diagnostic_level \<Rightarrow> diagnostic_stage \<Rightarrow> source_location \<Rightarrow> string \<Rightarrow> string" where
  "report_key lv st loc msg =
     show_level lv @ ''|'' @ show_stage st @ ''|'' @ filename loc @ '':'' @ show_nat (line loc)
     @ '':'' @ show_nat (column loc) @ ''|'' @ msg"

definition escape :: "string \<Rightarrow> string" where
  "escape s = CHR 0x1B # s"

definition caret_padding :: "string \<Rightarrow> nat \<Rightarrow> nat" where
  "caret_padding source_line col = (if col > 0 then min (col - 1) (length source_line) else 0)"

definition caret_count :: "string \<Rightarrow> nat \<Rightarrow> nat \<Rightarrow> nat" where
  "caret_count source_line col n =
     (let max_length = (if col > 0 \<and> col \<le> length source_line then length source_line - col + 1 else 1)
      in max (min n max_length) 1)"

definition source_excerpt :: "bool \<Rightarrow> string \<Rightarrow> source_location \<Rightarrow> string" where
  "source_excerpt color source_line loc =
     (if source_line = [] then [] else
        ''  '' @ source_line @ [newline] @ ''  ''
        @ map (\<lambda>i. if source_line ! i = CHR 0x09 then CHR 0x09 else CHR '' '')
            [0..<caret_padding source_line (column loc)]
        @ (if color then escape ''[1;32m'' else [])
        @ replicate (caret_count source_line (column loc) (len loc)) (CHR ''^'')
        @ (if color then escape ''[0m'' else []) @ [newline])"

definition print_diagnostic :: "diagnostic_engine \<Rightarrow> diagnostic \<Rightarrow> string" where
  "print_diagnostic e d =
     (let loc = location d; color = color_enabled e; reset = (if color then escape ''[0m'' else []) in
      filename loc @ '':'' @ show_nat (line loc) @ '':'' @ show_nat (column loc) @ '': ''
      @ (case level d of
           Error \<Rightarrow> (if color then escape ''[1;31m'' else []) @ ''error'' @ reset @ '': ''
         | Warning \<Rightarrow> (if color then escape ''[1;33m'' else []) @ ''warning'' @ reset @ '': '')
      @ message d @ [newline]
      @ source_excerpt color (get_source_line (source_manager e) (filename loc) (line loc)) loc)"

definition report ::
  "diagnostic_engine \<Rightarrow> diagnostic_level \<Rightarrow> diagnostic_stage \<Rightarrow> source_location \<Rightarrow> string \<Rightarrow> diagnostic_engine" where
  "report e lv st loc msg =
     (if error_count e \<ge> MAX_ERRORS then e else
      let key = report_key lv st loc msg in
      if key \<in> set (reported e) then e else
      let d = \<lparr>level = lv, stage = st, location = loc, message = msg\<rparr>;
          e1 = e\<lparr>reported := reported e @ [key], diagnostics := diagnostics e @ [d]\<rparr>;
          e2 = (if lv = Error then e1\<lparr>error_count := error_count e1 + 1\<rparr> else e1);
          e3 = e2\<lparr>cerr := cerr e2 @ print_diagnostic e2 d\<rparr>
      in if lv = Error \<and> error_count e2 = MAX_ERRORS
         then e3\<lparr>cerr := cerr e3 @ ''mirage: too many errors emitted, stopping.'' @ [newline]\<rparr>
         else e3)"

definition report_error ::
  "diagnostic_engine \<Rightarrow> diagnostic_stage \<Rightarrow> source_location \<Rightarrow> string \<Rightarrow> diagnostic_engine" where
  "report_error e st loc msg = report e Error st loc msg"

definition warn ::
  "diagnostic_engine \<Rightarrow> diagnostic_stage \<Rightarrow> source_location \<Rightarrow> string \<Rightarrow> diagnostic_engine" where
  "warn e st loc msg = report e Warning st loc msg"

definition has_errors :: "diagnostic_engine \<Rightarrow> bool" where
  "has_errors e = (error_count e > 0)"

definition has_reached_max_errors :: "diagnostic_engine \<Rightarrow> bool" where
  "has_reached_max_errors e = (error_count e \<ge> MAX_ERRORS)"

text \<open>
  \<open>load_source\<close> reads the file through \<open>read_file\<close>, which gives the contents of a file that can be opened.
\<close>

definition load_source ::
  "(string \<Rightarrow> string option) \<Rightarrow> diagnostic_engine \<Rightarrow> string \<Rightarrow> diagnostic_engine \<times> source_file" where
  "load_source read_file e path =
     (case source_manager e path of
        Some text \<Rightarrow> (e, \<lparr>file_name = path, file_text = text\<rparr>)
      | None \<Rightarrow>
          (case read_file path of
             None \<Rightarrow> (report_error e ParserStage default_location
                        (''cannot open module file '' @ quoted path), \<lparr>file_name = [], file_text = []\<rparr>)
           | Some text \<Rightarrow> (e\<lparr>source_manager := (source_manager e)(path \<mapsto> text)\<rparr>,
                            \<lparr>file_name = path, file_text = text\<rparr>)))"

section \<open>Source lines\<close>

text \<open>The lines of a text, split at each newline, and a line without the \<^verbatim>\<open>CR\<close> of a CRLF pair.\<close>

fun split_lines :: "string \<Rightarrow> string list" where
  "split_lines [] = [[]]"
| "split_lines (c # cs) =
     (if c = newline then [] # split_lines cs
      else case split_lines cs of [] \<Rightarrow> [[c]] | l # ls \<Rightarrow> (c # l) # ls)"

definition strip_cr :: "string \<Rightarrow> string" where
  "strip_cr s = (if s \<noteq> [] \<and> last s = carriage_return then butlast s else s)"

lemma split_lines_not_Nil [simp]: "split_lines s \<noteq> []"
  by (cases s) (auto split: list.splits)

lemma split_lines_hd: "split_lines s ! 0 = takeWhile (\<lambda>c. c \<noteq> newline) s"
  by (induction s) (auto split: list.splits)

lemma split_lines_step:
  "split_lines (c # cs) ! Suc k = (if c = newline then split_lines cs ! k else split_lines cs ! Suc k)"
  by (auto split: list.splits)

lemma end_of_line_takeWhile:
  "i \<le> length s \<Longrightarrow> end_of_line s i = i + length (takeWhile (\<lambda>c. c \<noteq> newline) (drop i s))"
proof (induction s i rule: end_of_line.induct)
  case (1 s i)
  show ?case
  proof (cases "i < length s \<and> s ! i \<noteq> newline")
    case True
    then show ?thesis
      using 1 by (subst end_of_line.simps) (simp add: Cons_nth_drop_Suc [symmetric])
  next
    case False
    then show ?thesis
      using 1 by (subst end_of_line.simps)
        (cases "i < length s", auto simp: Cons_nth_drop_Suc [symmetric])
  qed
qed

lemma stripped_line:
  assumes "e = i + length (takeWhile P (drop i s))" "i \<le> length s"
  shows "substr s i ((if e > i \<and> s ! (e - 1) = carriage_return then e - 1 else e) - i)
    = strip_cr (takeWhile P (drop i s))"
proof -
  define t where "t = takeWhile P (drop i s)"
  have t: "t = take (length t) (drop i s)"
    unfolding t_def by (metis takeWhile_eq_take)
  have "last t = s ! (e - 1)" if "t \<noteq> []"
  proof -
    have "last t = t ! (length t - 1)" using that by (rule last_conv_nth)
    also have "\<dots> = drop i s ! (length t - 1)"
      using that by (subst t) (simp add: t_def)
    finally show ?thesis
      using that assms by (cases "length t") (simp_all add: t_def [symmetric])
  qed
  moreover have "butlast t = take (length t - 1) (drop i s)"
    using length_takeWhile_le [of P "drop i s"]
    by (subst t) (metis One_nat_def butlast_take t_def)
  ultimately show ?thesis
    using t assms(1) by (auto simp: substr_def strip_cr_def t_def [symmetric])
qed

lemma source_line_from_split:
  assumes "unat cur \<le> ln" "unat cur + length (drop i s) < 2 ^ 32" "i \<le> length s"
  shows "source_line_from s ln cur i =
    (if ln - unat cur < length (split_lines (drop i s))
     then strip_cr (split_lines (drop i s) ! (ln - unat cur)) else [])"
  using assms
proof (induction s ln cur i rule: source_line_from.induct)
  case (1 s ln cur i)
  show ?case
  proof (cases "i < length s")
    case False
    then show ?thesis using 1 by (subst source_line_from.simps) (auto simp: strip_cr_def)
  next
    case i: True
    show ?thesis
    proof (cases "unat cur = ln")
      case True
      then show ?thesis
        using i stripped_line [OF end_of_line_takeWhile [of i s]]
        by (subst source_line_from.simps) (simp add: split_lines_hd Let_def)
    next
      case False
      define cur' where "cur' = (if s ! i = newline then cur + 1 else cur)"
      have d: "drop i s = s ! i # drop (Suc i) s"
        using i by (simp add: Cons_nth_drop_Suc)
      have "unat (cur + 1) = Suc (unat cur)"
        using "1.prems"(2) i by (simp add: unat_word_ariths)
      then have c: "unat cur' = (if s ! i = newline then Suc (unat cur) else unat cur)"
        by (simp add: cur'_def)
      have "source_line_from s ln cur i = source_line_from s ln cur' (Suc i)"
        using i False by (subst source_line_from.simps) (simp add: cur'_def)
      also have "\<dots> = (if ln - unat cur' < length (split_lines (drop (Suc i) s))
          then strip_cr (split_lines (drop (Suc i) s) ! (ln - unat cur')) else [])"
        unfolding cur'_def
        by (rule "1.IH") (use i False "1.prems" c in \<open>auto simp: cur'_def\<close>)
      also have "\<dots> = (if ln - unat cur < length (split_lines (drop i s))
          then strip_cr (split_lines (drop i s) ! (ln - unat cur)) else [])"
      proof -
        obtain k where k: "ln - unat cur = Suc k"
          using False "1.prems"(1) by (metis Suc_diff_le diff_is_0_eq le_antisym not0_implies_Suc)
        then have "ln - unat cur' = (if s ! i = newline then k else Suc k)"
          using c by auto
        moreover have "length (split_lines (drop i s)) = (if s ! i = newline then 1 else 0) +
            length (split_lines (drop (Suc i) s))"
          unfolding d by (auto split: list.splits)
        ultimately show ?thesis
          unfolding k d split_lines_step by auto
      qed
      finally show ?thesis .
    qed
  qed
qed

text \<open>
  \<open>get_source_line\<close> gives the line with that number, counted from one and split at newlines, without
  the carriage return of a CRLF ending; nothing for a line past the last. (The line counter is 32
  bits wide, so this is stated for sources below four gigabytes.)
\<close>

theorem get_source_line_is_line:
  assumes "sm fname = Some source" "0 < ln" "length source < 2 ^ 32 - 1"
  shows "get_source_line sm fname ln =
    (if ln \<le> length (split_lines source) then strip_cr (split_lines source ! (ln - 1)) else [])"
  using assms source_line_from_split [of 1 ln 0 source]
  by (auto simp: get_source_line_def)

definition two_lines :: string where
  "two_lines = ''ab'' @ [carriage_return, newline] @ ''cd''"

theorem get_source_line_is_line_witness:
  "get_source_line [''f'' \<mapsto> two_lines] ''f'' 1 = ''ab''"
  using get_source_line_is_line [of "[''f'' \<mapsto> two_lines]" "''f''" two_lines 1]
  by (simp add: two_lines_def strip_cr_def)

section \<open>The engine's bookkeeping\<close>

definition diagnostic_key :: "diagnostic \<Rightarrow> string" where
  "diagnostic_key d = report_key (level d) (stage d) (location d) (message d)"

definition engine_ok :: "diagnostic_engine \<Rightarrow> bool" where
  "engine_ok e \<longleftrightarrow>
     reported e = map diagnostic_key (diagnostics e) \<and> distinct (reported e)
     \<and> error_count e = length (filter (\<lambda>d. level d = Error) (diagnostics e))
     \<and> error_count e \<le> MAX_ERRORS
     \<and> (error_count e = MAX_ERRORS \<longrightarrow> diagnostics e \<noteq> [] \<and> level (last (diagnostics e)) = Error)"

inductive report_step :: "diagnostic_engine \<Rightarrow> diagnostic_engine \<Rightarrow> bool" where
  "report_step e (report e lv st loc msg)"

inductive_cases report_stepE: "report_step e e'"

text \<open>The bookkeeping fields after a report that is neither capped nor a repeat.\<close>

lemma report_fields:
  assumes "error_count e < MAX_ERRORS" "report_key lv st loc msg \<notin> set (reported e)"
  shows "diagnostics (report e lv st loc msg) =
      diagnostics e @ [\<lparr>level = lv, stage = st, location = loc, message = msg\<rparr>]"
    and "reported (report e lv st loc msg) = reported e @ [report_key lv st loc msg]"
    and "error_count (report e lv st loc msg) = (if lv = Error then Suc (error_count e) else error_count e)"
    and "source_manager (report e lv st loc msg) = source_manager e"
  using assms by (simp_all add: report_def Let_def)

lemma report_ignored:
  assumes "\<not> error_count e < MAX_ERRORS \<or> report_key lv st loc msg \<in> set (reported e)"
  shows "report e lv st loc msg = e"
  using assms by (auto simp: report_def Let_def)

lemma report_sources [simp]: "source_manager (report e lv st loc msg) = source_manager e"
  by (simp add: report_def Let_def)

lemma report_error_sources [simp]: "source_manager (report_error e st loc msg) = source_manager e"
  by (simp add: report_error_def)

lemma report_engine_ok:
  assumes "engine_ok e"
  shows "engine_ok (report e lv st loc msg)"
proof (cases "error_count e < MAX_ERRORS \<and> report_key lv st loc msg \<notin> set (reported e)")
  case True
  then show ?thesis
    using assms by (auto simp: engine_ok_def report_fields diagnostic_key_def)
next
  case False
  then show ?thesis using assms report_ignored [of e lv st loc msg] by simp
qed

interpretation engines: invariant_system report_step engine_ok
  by unfold_locales (auto elim!: report_stepE intro: report_engine_ok)

lemma DiagnosticEngine_ok [simp]: "engine_ok (DiagnosticEngine sm color)"
  by (simp add: engine_ok_def DiagnosticEngine_def MAX_ERRORS_def)

text \<open>
  C37: Whatever is reported, and in whatever order, the engine holds at most twenty errors, counts exactly
  the errors it holds, holds no two diagnostics with the same key, and once the cap is reached the
  last diagnostic it holds is the error that reached it, so nothing is recorded after it.
\<close>

theorem engine_bookkeeping:
  assumes "report_step\<^sup>*\<^sup>* (DiagnosticEngine sm color) e"
  shows "error_count e \<le> MAX_ERRORS \<and> error_count e = length (filter (\<lambda>d. level d = Error) (diagnostics e))
    \<and> distinct (map diagnostic_key (diagnostics e))
    \<and> (has_reached_max_errors e \<longrightarrow> level (last (diagnostics e)) = Error)"
proof -
  have "engine_ok e"
    using engines.run_inv [OF assms] by simp
  then show ?thesis
    by (auto simp: engine_ok_def has_reached_max_errors_def)
qed

theorem engine_bookkeeping_witness:
  "error_count (report (DiagnosticEngine Map.empty False) Error LexerStage default_location ''x'') = 1"
proof -
  have "report_step\<^sup>*\<^sup>* (DiagnosticEngine Map.empty False)
      (report (DiagnosticEngine Map.empty False) Error LexerStage default_location ''x'')"
    by (simp add: report_step.intros r_into_rtranclp)
  from engine_bookkeeping [OF this] show ?thesis
    by (simp add: report_fields DiagnosticEngine_def MAX_ERRORS_def)
qed

text \<open>The duplicate key identifies a diagnostic, provided the file name has no colon.\<close>

lemma split_at_separator:
  assumes "xs @ c # r = ys @ c # r'" "c \<notin> set xs" "c \<notin> set ys"
  shows "xs = ys \<and> r = r'"
  using assms
proof (induction xs arbitrary: ys)
  case Nil
  then show ?case by (cases ys) auto
next
  case (Cons x xs)
  then show ?case by (cases ys) auto
qed

lemma show_nat_no_separator: "CHR '':'' \<notin> set (show_nat n)" "CHR ''|'' \<notin> set (show_nat n)"
  using show_nat_digits by fastforce+

lemma show_level_inject: "show_level a @ r = show_level b @ r' \<longleftrightarrow> a = b \<and> r = r'"
  by (cases a; cases b) simp_all

lemma show_stage_inject: "show_stage a @ r = show_stage b @ r' \<longleftrightarrow> a = b \<and> r = r'"
  by (cases a; cases b) simp_all

lemma report_key_inject:
  assumes "CHR '':'' \<notin> set (filename loc)" "CHR '':'' \<notin> set (filename loc')"
    and "report_key lv st loc msg = report_key lv' st' loc' msg'"
  shows "lv = lv' \<and> st = st' \<and> filename loc = filename loc' \<and> line loc = line loc'
    \<and> column loc = column loc' \<and> msg = msg'"
proof -
  from assms(3) have "lv = lv'" "st = st'"
    and f: "filename loc @ CHR '':'' # show_nat (line loc) @ CHR '':'' # show_nat (column loc) @ CHR ''|'' # msg =
      filename loc' @ CHR '':'' # show_nat (line loc') @ CHR '':'' # show_nat (column loc') @ CHR ''|'' # msg'"
    by (simp_all add: report_key_def show_level_inject show_stage_inject)
  note f = split_at_separator [OF f assms(1,2)]
  note l = split_at_separator [OF conjunct2 [OF f] show_nat_no_separator(1) show_nat_no_separator(1)]
  note c = split_at_separator [OF conjunct2 [OF l] show_nat_no_separator(2) show_nat_no_separator(2)]
  show ?thesis
    using f l c \<open>lv = lv'\<close> \<open>st = st'\<close> by simp
qed

text \<open>
  Below the error cap, and for file names without a colon, \<open>report\<close> drops a diagnostic exactly when
  one with the same level, stage, file, line, column and text was recorded before; every other one is
  appended as given.
\<close>

theorem report_records_new_diagnostics:
  assumes "engine_ok e" "error_count e < MAX_ERRORS" "CHR '':'' \<notin> set (filename loc)"
    and "\<forall>d \<in> set (diagnostics e). CHR '':'' \<notin> set (filename (location d))"
  shows "diagnostics (report e lv st loc msg) =
    (if \<exists>d \<in> set (diagnostics e). level d = lv \<and> stage d = st \<and> message d = msg
          \<and> filename (location d) = filename loc \<and> line (location d) = line loc
          \<and> column (location d) = column loc
     then diagnostics e
     else diagnostics e @ [\<lparr>level = lv, stage = st, location = loc, message = msg\<rparr>])"
proof -
  have keys: "report_key lv st loc msg \<in> set (reported e) \<longleftrightarrow>
      (\<exists>d \<in> set (diagnostics e). level d = lv \<and> stage d = st \<and> message d = msg
          \<and> filename (location d) = filename loc \<and> line (location d) = line loc
          \<and> column (location d) = column loc)"
  proof -
    have "report_key lv st loc msg = diagnostic_key d \<longleftrightarrow>
        level d = lv \<and> stage d = st \<and> message d = msg \<and> filename (location d) = filename loc
        \<and> line (location d) = line loc \<and> column (location d) = column loc"
      if "d \<in> set (diagnostics e)" for d
      using report_key_inject [of loc "location d" lv st msg "level d" "stage d" "message d"]
        assms(3,4) that by (auto simp: diagnostic_key_def report_key_def)
    then show ?thesis
      using assms(1) by (auto simp: engine_ok_def image_iff)
  qed
  then show ?thesis
    using report_fields(1) [OF assms(2)] report_ignored [of e lv st loc msg] by auto
qed

theorem report_records_new_diagnostics_witness:
  "length (diagnostics (report (report (DiagnosticEngine Map.empty False) Error LexerStage default_location ''x'')
     Error LexerStage default_location ''x'')) = 1"
  using report_records_new_diagnostics
    [of "report (DiagnosticEngine Map.empty False) Error LexerStage default_location ''x''"
      default_location Error LexerStage "''x''"]
  by (simp add: report_engine_ok report_fields DiagnosticEngine_def default_location_def MAX_ERRORS_def
      DiagnosticEngine_ok [unfolded DiagnosticEngine_def])

text \<open>
  The excerpt under a diagnostic marks columns of the printed line only: the padding stays within the
  line whatever the column, at least one caret is printed, and for a column inside the line the
  carets end at or before its end.
\<close>

theorem carets_stay_in_line:
  "caret_padding source_line col \<le> length source_line \<and> 1 \<le> caret_count source_line col n
   \<and> caret_padding source_line col + caret_count source_line col n \<le> length source_line + 1
   \<and> (0 < col \<and> col \<le> length source_line \<longrightarrow>
        caret_padding source_line col = col - 1
        \<and> caret_padding source_line col + caret_count source_line col n \<le> length source_line)"
  by (auto simp: caret_padding_def caret_count_def Let_def)

theorem carets_stay_in_line_witness: "caret_padding ''abc'' 2 + caret_count ''abc'' 2 9 \<le> length ''abc''"
  using carets_stay_in_line [of "''abc''" 2 9] by simp

end
