(* ===== verification/Token.thy ===== *)
theory Token
  imports Diagnostics
begin

text \<open>
  Tokens (\<^verbatim>\<open>token.hpp\<close>, \<^verbatim>\<open>token.cpp\<close>): the token kinds, grouped as the enumeration groups them, their
  names, and the lexer's keyword table. The spellings of keywords and symbols are given as functions
  too, for the statements about the lexer.
\<close>

section \<open>Token kinds\<close>

datatype (plugins only: code size) keyword =
  KwConst | KwMut | KwFn | KwType | KwTrait | KwStruct | KwImpl | KwFor | KwPub | KwContinue
  | KwBreak | KwReturn | KwReturnErr | KwReturnOk | KwIf | KwElse | KwWhile | KwIn | KwImport
  | KwImportBin | KwNamespace | KwAsm | KwMacro | KwTry | KwWhen | KwNil | KwTrue | KwFalse
  | KwSizeOf | KwAlignOf | KwTypeOf | KwTypeInfoOf | KwOffsetOf | KwStackAlloc | KwCast | KwEnum
  | KwBitset | KwIota | KwDefault | KwUndefined | KwLen | KwMatch | KwUnion | KwSwitch | KwDefer

datatype (plugins only: code size) prim_keyword =
  KwU8 | KwU16 | KwU32 | KwU64 | KwI8 | KwI16 | KwI32 | KwI64 | KwF32 | KwF64 | KwUSize | KwBool
  | KwByte | KwError | KwAnyptr | KwAny

datatype (plugins only: code size) operator =
  Plus | Minus | Star | Slash | Percent | Ampersand | Pipe | Caret | Tilde | TildeEqual | ShiftLeft
  | ShiftRight | EqualEqual | BangEqual | Less | Greater | LessEqual | GreaterEqual | AmpAmp
  | PipePipe | Bang | Equal | PlusEqual | MinusEqual | StarEqual | SlashEqual | AmpEqual
  | PipeEqual | CaretEqual | ShiftLeftEqual | ShiftRightEqual | PlusPlus | MinusMinus | ColonEqual
  | Arrow | DotDot | DotDotDot | Question | Colon

datatype (plugins only: code size) punctuation =
  LParen | RParen | LBrace | RBrace | LBracket | RBracket | Comma | Dot | Semicolon | At | Hash
  | Dollar

datatype (plugins only: code size) token_kind =
  IntLiteral | FloatLiteral | StringLiteral | CharLiteral | Identifier
| Kw keyword | Prim prim_keyword | Op operator | Punct punctuation
| AsmBlock | Eof

record token =
  kind :: token_kind
  lexeme :: string
  tloc :: source_location

section \<open>Names\<close>

fun keyword_name :: "keyword \<Rightarrow> string" where
  "keyword_name KwConst = ''KW_CONST''"
| "keyword_name KwMut = ''KW_MUT''"
| "keyword_name KwFn = ''KW_FN''"
| "keyword_name KwType = ''KW_TYPE''"
| "keyword_name KwTrait = ''KW_TRAIT''"
| "keyword_name KwStruct = ''KW_STRUCT''"
| "keyword_name KwImpl = ''KW_IMPL''"
| "keyword_name KwFor = ''KW_FOR''"
| "keyword_name KwPub = ''KW_PUB''"
| "keyword_name KwContinue = ''KW_CONTINUE''"
| "keyword_name KwBreak = ''KW_BREAK''"
| "keyword_name KwReturn = ''KW_RETURN''"
| "keyword_name KwReturnErr = ''KW_RETURN_ERR''"
| "keyword_name KwReturnOk = ''KW_RETURN_OK''"
| "keyword_name KwIf = ''KW_IF''"
| "keyword_name KwElse = ''KW_ELSE''"
| "keyword_name KwWhile = ''KW_WHILE''"
| "keyword_name KwIn = ''KW_IN''"
| "keyword_name KwImport = ''KW_IMPORT''"
| "keyword_name KwImportBin = ''KW_IMPORT_BIN''"
| "keyword_name KwNamespace = ''KW_NAMESPACE''"
| "keyword_name KwAsm = ''KW_ASM''"
| "keyword_name KwMacro = ''KW_MACRO''"
| "keyword_name KwTry = ''KW_TRY''"
| "keyword_name KwWhen = ''KW_WHEN''"
| "keyword_name KwNil = ''KW_NIL''"
| "keyword_name KwTrue = ''KW_TRUE''"
| "keyword_name KwFalse = ''KW_FALSE''"
| "keyword_name KwSizeOf = ''KW_SIZE_OF''"
| "keyword_name KwAlignOf = ''KW_ALIGN_OF''"
| "keyword_name KwTypeOf = ''KW_TYPEOF''"
| "keyword_name KwTypeInfoOf = ''KW_TYPEINFOOF''"
| "keyword_name KwOffsetOf = ''KW_OFFSETOF''"
| "keyword_name KwStackAlloc = ''KW_STACKALLOC''"
| "keyword_name KwCast = ''KW_CAST''"
| "keyword_name KwEnum = ''KW_ENUM''"
| "keyword_name KwBitset = ''KW_BITSET''"
| "keyword_name KwIota = ''KW_IOTA''"
| "keyword_name KwDefault = ''KW_DEFAULT''"
| "keyword_name KwUndefined = ''KW_UNDEFINED''"
| "keyword_name KwLen = ''KW_LEN''"
| "keyword_name KwMatch = ''KW_MATCH''"
| "keyword_name KwUnion = ''KW_UNION''"
| "keyword_name KwSwitch = ''KW_SWITCH''"
| "keyword_name KwDefer = ''KW_DEFER''"

fun prim_keyword_name :: "prim_keyword \<Rightarrow> string" where
  "prim_keyword_name KwU8 = ''KW_U8''"
| "prim_keyword_name KwU16 = ''KW_U16''"
| "prim_keyword_name KwU32 = ''KW_U32''"
| "prim_keyword_name KwU64 = ''KW_U64''"
| "prim_keyword_name KwI8 = ''KW_I8''"
| "prim_keyword_name KwI16 = ''KW_I16''"
| "prim_keyword_name KwI32 = ''KW_I32''"
| "prim_keyword_name KwI64 = ''KW_I64''"
| "prim_keyword_name KwF32 = ''KW_F32''"
| "prim_keyword_name KwF64 = ''KW_F64''"
| "prim_keyword_name KwUSize = ''KW_USIZE''"
| "prim_keyword_name KwBool = ''KW_BOOL''"
| "prim_keyword_name KwByte = ''KW_BYTE''"
| "prim_keyword_name KwError = ''KW_ERROR''"
| "prim_keyword_name KwAnyptr = ''KW_ANYPTR''"
| "prim_keyword_name KwAny = ''KW_ANY''"

fun operator_name :: "operator \<Rightarrow> string" where
  "operator_name Plus = ''PLUS''"
| "operator_name Minus = ''MINUS''"
| "operator_name Star = ''STAR''"
| "operator_name Slash = ''SLASH''"
| "operator_name Percent = ''PERCENT''"
| "operator_name Ampersand = ''AMP''"
| "operator_name Pipe = ''PIPE''"
| "operator_name Caret = ''CARET''"
| "operator_name Tilde = ''TILDE''"
| "operator_name TildeEqual = ''TILDE_EQ''"
| "operator_name ShiftLeft = ''SHL''"
| "operator_name ShiftRight = ''SHR''"
| "operator_name EqualEqual = ''EQ_EQ''"
| "operator_name BangEqual = ''BANG_EQ''"
| "operator_name Less = ''LESS''"
| "operator_name Greater = ''GREATER''"
| "operator_name LessEqual = ''LESS_EQ''"
| "operator_name GreaterEqual = ''GREATER_EQ''"
| "operator_name AmpAmp = ''AMP_AMP''"
| "operator_name PipePipe = ''PIPE_PIPE''"
| "operator_name Bang = ''BANG''"
| "operator_name Equal = ''EQ''"
| "operator_name PlusEqual = ''PLUS_EQ''"
| "operator_name MinusEqual = ''MINUS_EQ''"
| "operator_name StarEqual = ''STAR_EQ''"
| "operator_name SlashEqual = ''SLASH_EQ''"
| "operator_name AmpEqual = ''AMP_EQ''"
| "operator_name PipeEqual = ''PIPE_EQ''"
| "operator_name CaretEqual = ''CARET_EQ''"
| "operator_name ShiftLeftEqual = ''SHL_EQ''"
| "operator_name ShiftRightEqual = ''SHR_EQ''"
| "operator_name PlusPlus = ''PLUS_PLUS''"
| "operator_name MinusMinus = ''MINUS_MINUS''"
| "operator_name ColonEqual = ''COLON_EQ''"
| "operator_name Arrow = ''ARROW''"
| "operator_name DotDot = ''DOT_DOT''"
| "operator_name DotDotDot = ''DOT_DOT_DOT''"
| "operator_name Question = ''QUESTION''"
| "operator_name Colon = ''COLON''"

fun punctuation_name :: "punctuation \<Rightarrow> string" where
  "punctuation_name LParen = ''LPAREN''"
| "punctuation_name RParen = ''RPAREN''"
| "punctuation_name LBrace = ''LBRACE''"
| "punctuation_name RBrace = ''RBRACE''"
| "punctuation_name LBracket = ''LBRACKET''"
| "punctuation_name RBracket = ''RBRACKET''"
| "punctuation_name Comma = ''COMMA''"
| "punctuation_name Dot = ''DOT''"
| "punctuation_name Semicolon = ''SEMICOLON''"
| "punctuation_name At = ''AT''"
| "punctuation_name Hash = ''HASH''"
| "punctuation_name Dollar = ''DOLLAR''"

fun token_kind_name :: "token_kind \<Rightarrow> string" where
  "token_kind_name IntLiteral = ''INT''"
| "token_kind_name FloatLiteral = ''FLOAT''"
| "token_kind_name StringLiteral = ''STRING''"
| "token_kind_name CharLiteral = ''CHAR''"
| "token_kind_name Identifier = ''IDENT''"
| "token_kind_name (Kw k) = keyword_name k"
| "token_kind_name (Prim k) = prim_keyword_name k"
| "token_kind_name (Op k) = operator_name k"
| "token_kind_name (Punct k) = punctuation_name k"
| "token_kind_name AsmBlock = ''ASM_BLOCK''"
| "token_kind_name Eof = ''EOF''"

section \<open>Spellings\<close>

definition keyword_table :: "(string \<times> token_kind) list" where
  "keyword_table = [
    (''const'', Kw KwConst),
    (''mut'', Kw KwMut),
    (''fn'', Kw KwFn),
    (''type'', Kw KwType),
    (''trait'', Kw KwTrait),
    (''struct'', Kw KwStruct),
    (''impl'', Kw KwImpl),
    (''for'', Kw KwFor),
    (''pub'', Kw KwPub),
    (''continue'', Kw KwContinue),
    (''break'', Kw KwBreak),
    (''return'', Kw KwReturn),
    (''return_err'', Kw KwReturnErr),
    (''return_ok'', Kw KwReturnOk),
    (''if'', Kw KwIf),
    (''else'', Kw KwElse),
    (''while'', Kw KwWhile),
    (''in'', Kw KwIn),
    (''import'', Kw KwImport),
    (''import_bin'', Kw KwImportBin),
    (''namespace'', Kw KwNamespace),
    (''asm'', Kw KwAsm),
    (''macro'', Kw KwMacro),
    (''try'', Kw KwTry),
    (''when'', Kw KwWhen),
    (''nil'', Kw KwNil),
    (''true'', Kw KwTrue),
    (''false'', Kw KwFalse),
    (''size_of'', Kw KwSizeOf),
    (''align_of'', Kw KwAlignOf),
    (''type_of'', Kw KwTypeOf),
    (''type_info_of'', Kw KwTypeInfoOf),
    (''offsetof'', Kw KwOffsetOf),
    (''stackalloc'', Kw KwStackAlloc),
    (''cast'', Kw KwCast),
    (''enum'', Kw KwEnum),
    (''bitset'', Kw KwBitset),
    (''iota'', Kw KwIota),
    (''default'', Kw KwDefault),
    (''undefined'', Kw KwUndefined),
    (''len'', Kw KwLen),
    (''match'', Kw KwMatch),
    (''union'', Kw KwUnion),
    (''switch'', Kw KwSwitch),
    (''defer'', Kw KwDefer),
    (''u8'', Prim KwU8),
    (''u16'', Prim KwU16),
    (''u32'', Prim KwU32),
    (''u64'', Prim KwU64),
    (''i8'', Prim KwI8),
    (''i16'', Prim KwI16),
    (''i32'', Prim KwI32),
    (''i64'', Prim KwI64),
    (''f32'', Prim KwF32),
    (''f64'', Prim KwF64),
    (''usize'', Prim KwUSize),
    (''bool'', Prim KwBool),
    (''byte'', Prim KwByte),
    (''error'', Prim KwError),
    (''anyptr'', Prim KwAnyptr),
    (''any'', Prim KwAny)]"

fun keyword_spelling :: "keyword \<Rightarrow> string" where
  "keyword_spelling KwConst = ''const''"
| "keyword_spelling KwMut = ''mut''"
| "keyword_spelling KwFn = ''fn''"
| "keyword_spelling KwType = ''type''"
| "keyword_spelling KwTrait = ''trait''"
| "keyword_spelling KwStruct = ''struct''"
| "keyword_spelling KwImpl = ''impl''"
| "keyword_spelling KwFor = ''for''"
| "keyword_spelling KwPub = ''pub''"
| "keyword_spelling KwContinue = ''continue''"
| "keyword_spelling KwBreak = ''break''"
| "keyword_spelling KwReturn = ''return''"
| "keyword_spelling KwReturnErr = ''return_err''"
| "keyword_spelling KwReturnOk = ''return_ok''"
| "keyword_spelling KwIf = ''if''"
| "keyword_spelling KwElse = ''else''"
| "keyword_spelling KwWhile = ''while''"
| "keyword_spelling KwIn = ''in''"
| "keyword_spelling KwImport = ''import''"
| "keyword_spelling KwImportBin = ''import_bin''"
| "keyword_spelling KwNamespace = ''namespace''"
| "keyword_spelling KwAsm = ''asm''"
| "keyword_spelling KwMacro = ''macro''"
| "keyword_spelling KwTry = ''try''"
| "keyword_spelling KwWhen = ''when''"
| "keyword_spelling KwNil = ''nil''"
| "keyword_spelling KwTrue = ''true''"
| "keyword_spelling KwFalse = ''false''"
| "keyword_spelling KwSizeOf = ''size_of''"
| "keyword_spelling KwAlignOf = ''align_of''"
| "keyword_spelling KwTypeOf = ''type_of''"
| "keyword_spelling KwTypeInfoOf = ''type_info_of''"
| "keyword_spelling KwOffsetOf = ''offsetof''"
| "keyword_spelling KwStackAlloc = ''stackalloc''"
| "keyword_spelling KwCast = ''cast''"
| "keyword_spelling KwEnum = ''enum''"
| "keyword_spelling KwBitset = ''bitset''"
| "keyword_spelling KwIota = ''iota''"
| "keyword_spelling KwDefault = ''default''"
| "keyword_spelling KwUndefined = ''undefined''"
| "keyword_spelling KwLen = ''len''"
| "keyword_spelling KwMatch = ''match''"
| "keyword_spelling KwUnion = ''union''"
| "keyword_spelling KwSwitch = ''switch''"
| "keyword_spelling KwDefer = ''defer''"

fun prim_spelling :: "prim_keyword \<Rightarrow> string" where
  "prim_spelling KwU8 = ''u8''"
| "prim_spelling KwU16 = ''u16''"
| "prim_spelling KwU32 = ''u32''"
| "prim_spelling KwU64 = ''u64''"
| "prim_spelling KwI8 = ''i8''"
| "prim_spelling KwI16 = ''i16''"
| "prim_spelling KwI32 = ''i32''"
| "prim_spelling KwI64 = ''i64''"
| "prim_spelling KwF32 = ''f32''"
| "prim_spelling KwF64 = ''f64''"
| "prim_spelling KwUSize = ''usize''"
| "prim_spelling KwBool = ''bool''"
| "prim_spelling KwByte = ''byte''"
| "prim_spelling KwError = ''error''"
| "prim_spelling KwAnyptr = ''anyptr''"
| "prim_spelling KwAny = ''any''"

fun operator_spelling :: "operator \<Rightarrow> string" where
  "operator_spelling Plus = ''+''"
| "operator_spelling Minus = ''-''"
| "operator_spelling Star = ''*''"
| "operator_spelling Slash = ''/''"
| "operator_spelling Percent = ''%''"
| "operator_spelling Ampersand = ''&''"
| "operator_spelling Pipe = ''|''"
| "operator_spelling Caret = ''^''"
| "operator_spelling Tilde = ''~''"
| "operator_spelling TildeEqual = ''~=''"
| "operator_spelling ShiftLeft = ''<<''"
| "operator_spelling ShiftRight = ''>>''"
| "operator_spelling EqualEqual = ''==''"
| "operator_spelling BangEqual = ''!=''"
| "operator_spelling Less = ''<''"
| "operator_spelling Greater = ''>''"
| "operator_spelling LessEqual = ''<=''"
| "operator_spelling GreaterEqual = ''>=''"
| "operator_spelling AmpAmp = ''&&''"
| "operator_spelling PipePipe = ''||''"
| "operator_spelling Bang = ''!''"
| "operator_spelling Equal = ''=''"
| "operator_spelling PlusEqual = ''+=''"
| "operator_spelling MinusEqual = ''-=''"
| "operator_spelling StarEqual = ''*=''"
| "operator_spelling SlashEqual = ''/=''"
| "operator_spelling AmpEqual = ''&=''"
| "operator_spelling PipeEqual = ''|=''"
| "operator_spelling CaretEqual = ''^=''"
| "operator_spelling ShiftLeftEqual = ''<<=''"
| "operator_spelling ShiftRightEqual = ''>>=''"
| "operator_spelling PlusPlus = ''++''"
| "operator_spelling MinusMinus = ''--''"
| "operator_spelling ColonEqual = '':=''"
| "operator_spelling Arrow = ''->''"
| "operator_spelling DotDot = ''..''"
| "operator_spelling DotDotDot = ''...''"
| "operator_spelling Question = ''?''"
| "operator_spelling Colon = '':''"

fun punctuation_spelling :: "punctuation \<Rightarrow> string" where
  "punctuation_spelling LParen = ''(''"
| "punctuation_spelling RParen = '')''"
| "punctuation_spelling LBrace = ''{''"
| "punctuation_spelling RBrace = ''}''"
| "punctuation_spelling LBracket = ''[''"
| "punctuation_spelling RBracket = '']''"
| "punctuation_spelling Comma = '',''"
| "punctuation_spelling Dot = ''.''"
| "punctuation_spelling Semicolon = '';''"
| "punctuation_spelling At = ''@''"
| "punctuation_spelling Hash = ''#''"
| "punctuation_spelling Dollar = ''$''"

definition keyword_spellings :: "(string \<times> token_kind) list" where
  "keyword_spellings = keyword_table"

end
