(* ===== verification/Lexer.thy ===== *)
theory Lexer
  imports Token
begin

text \<open>
  The lexer (\<^verbatim>\<open>lexer.cpp\<close>): a cursor over the source text with its line and column, the automatic
  semicolon insertion state, and the raw capture of assembly bodies. Every scanning loop is a total
  function; \<open>tokenize\<close> is the main loop, one iteration per call of \<open>tokenize_iteration\<close>.
\<close>

section \<open>Character classes\<close>

text \<open>The classifiers of the C locale on an unsigned character.\<close>

definition is_digit :: "char \<Rightarrow> bool" where
  "is_digit c = (48 \<le> (of_char c :: nat) \<and> (of_char c :: nat) \<le> 57)"

definition is_octal_digit :: "char \<Rightarrow> bool" where
  "is_octal_digit c = (48 \<le> (of_char c :: nat) \<and> (of_char c :: nat) \<le> 55)"

definition is_hex_digit :: "char \<Rightarrow> bool" where
  "is_hex_digit c = (is_digit c \<or> (65 \<le> (of_char c :: nat) \<and> (of_char c :: nat) \<le> 70)
     \<or> (97 \<le> (of_char c :: nat) \<and> (of_char c :: nat) \<le> 102))"

definition is_alpha :: "char \<Rightarrow> bool" where
  "is_alpha c = ((65 \<le> (of_char c :: nat) \<and> (of_char c :: nat) \<le> 90)
     \<or> (97 \<le> (of_char c :: nat) \<and> (of_char c :: nat) \<le> 122))"

definition is_alpha_numeric :: "char \<Rightarrow> bool" where
  "is_alpha_numeric c = (is_alpha c \<or> is_digit c)"

abbreviation underscore :: char where
  "underscore \<equiv> CHR ''_''"

abbreviation quote :: char where
  "quote \<equiv> CHR 0x22"

abbreviation apostrophe :: char where
  "apostrophe \<equiv> CHR 0x27"

abbreviation backslash :: char where
  "backslash \<equiv> CHR 0x5C"

fun is_asi_trigger :: "token_kind \<Rightarrow> bool" where
  "is_asi_trigger Identifier = True"
| "is_asi_trigger IntLiteral = True"
| "is_asi_trigger FloatLiteral = True"
| "is_asi_trigger StringLiteral = True"
| "is_asi_trigger CharLiteral = True"
| "is_asi_trigger (Kw k) = (k \<in> {KwTrue, KwFalse, KwNil, KwDefault, KwUndefined, KwReturn, KwReturnOk,
     KwBreak, KwContinue})"
| "is_asi_trigger (Punct p) = (p \<in> {RParen, RBrace, RBracket})"
| "is_asi_trigger (Op p) = (p \<in> {PlusPlus, MinusMinus})"
| "is_asi_trigger (Prim p) = False"
| "is_asi_trigger AsmBlock = True"
| "is_asi_trigger Eof = False"

section \<open>The cursor\<close>

record lexer =
  source :: string
  fname :: string
  engine :: diagnostic_engine
  pos :: nat
  line_no :: nat
  col_no :: nat
  last_real_kind :: "token_kind option"
  awaiting_asm_expr_body :: bool
  asm_header_budget :: int
  last_token_is_asi_trigger :: bool
  last_token_end :: source_location
  token_start_line :: nat
  token_start_col :: nat

definition asm_header_token_budget :: int where
  "asm_header_token_budget = 16"

definition LexerImpl :: "string \<Rightarrow> string \<Rightarrow> diagnostic_engine \<Rightarrow> lexer" where
  "LexerImpl src fn e = \<lparr>source = src, fname = fn, engine = e, pos = 0, line_no = 1, col_no = 1,
     last_real_kind = None, awaiting_asm_expr_body = False, asm_header_budget = 0,
     last_token_is_asi_trigger = False, last_token_end = default_location,
     token_start_line = 1, token_start_col = 1\<rparr>"

definition make_location :: "lexer \<Rightarrow> source_location" where
  "make_location l = \<lparr>filename = fname l, line = line_no l, column = col_no l, offset = pos l, len = 1\<rparr>"

definition start_location :: "lexer \<Rightarrow> nat \<Rightarrow> nat \<Rightarrow> source_location" where
  "start_location l start n = \<lparr>filename = fname l, line = token_start_line l,
     column = token_start_col l, offset = start, len = n\<rparr>"

definition make_token :: "lexer \<Rightarrow> token_kind \<Rightarrow> nat \<Rightarrow> token" where
  "make_token l k start = \<lparr>kind = k, lexeme = substr (source l) start (pos l - start),
     tloc = start_location l start (pos l - start)\<rparr>"

definition make_eof :: "lexer \<Rightarrow> token" where
  "make_eof l = \<lparr>kind = Eof, lexeme = [], tloc = make_location l\<rparr>"

definition virtual_semicolon :: "lexer \<Rightarrow> token" where
  "virtual_semicolon l = \<lparr>kind = Punct Semicolon, lexeme = [], tloc = last_token_end l\<rparr>"

definition at_end :: "lexer \<Rightarrow> bool" where
  "at_end l = (pos l \<ge> length (source l))"

definition peek :: "lexer \<Rightarrow> char" where
  "peek l = (if at_end l then newline else source l ! pos l)"

definition peek_next :: "lexer \<Rightarrow> char" where
  "peek_next l = (if pos l + 1 \<ge> length (source l) then CHR 0x00 else source l ! (pos l + 1))"

definition advance :: "lexer \<Rightarrow> lexer" where
  "advance l =
     (if source l ! pos l = newline then l\<lparr>pos := pos l + 1, line_no := line_no l + 1, col_no := 1\<rparr>
      else l\<lparr>pos := pos l + 1, col_no := col_no l + 1\<rparr>)"

definition match_char :: "char \<Rightarrow> lexer \<Rightarrow> lexer \<times> bool" where
  "match_char c l = (if at_end l \<or> source l ! pos l \<noteq> c then (l, False) else (advance l, True))"

definition lex_error :: "source_location \<Rightarrow> string \<Rightarrow> lexer \<Rightarrow> lexer" where
  "lex_error loc msg l = l\<lparr>engine := report_error (engine l) LexerStage loc msg\<rparr>"

lemma advance_fields [simp]:
  "source (advance l) = source l" "fname (advance l) = fname l" "engine (advance l) = engine l"
  "pos (advance l) = Suc (pos l)" "last_real_kind (advance l) = last_real_kind l"
  "awaiting_asm_expr_body (advance l) = awaiting_asm_expr_body l"
  "asm_header_budget (advance l) = asm_header_budget l"
  "last_token_is_asi_trigger (advance l) = last_token_is_asi_trigger l"
  "last_token_end (advance l) = last_token_end l" "token_start_line (advance l) = token_start_line l"
  "token_start_col (advance l) = token_start_col l"
  by (simp_all add: advance_def)

text \<open>The scanning loops \<^verbatim>\<open>while (!at_end() && P(peek())) advance();\<close>.\<close>

function advance_while :: "(char \<Rightarrow> bool) \<Rightarrow> lexer \<Rightarrow> lexer" where
  "advance_while P l = (if \<not> at_end l \<and> P (peek l) then advance_while P (advance l) else l)"
  by pat_completeness auto
termination
  by (relation "measure (\<lambda>(P, l). length (source l) - pos l)") (auto simp: at_end_def)

declare advance_while.simps [simp del]

text \<open>The digits after a base prefix, with whether one that is not an underscore was seen.\<close>

function scan_digits :: "(char \<Rightarrow> bool) \<Rightarrow> bool \<Rightarrow> lexer \<Rightarrow> lexer \<times> bool" where
  "scan_digits P saw_digit l =
     (if \<not> at_end l \<and> (P (peek l) \<or> peek l = underscore)
      then scan_digits P (saw_digit \<or> peek l \<noteq> underscore) (advance l) else (l, saw_digit))"
  by pat_completeness auto
termination
  by (relation "measure (\<lambda>(P, s, l). length (source l) - pos l)") (auto simp: at_end_def)

declare scan_digits.simps [simp del]

fun advance_upto :: "nat \<Rightarrow> (char \<Rightarrow> bool) \<Rightarrow> lexer \<Rightarrow> lexer" where
  "advance_upto 0 P l = l"
| "advance_upto (Suc n) P l = (if \<not> at_end l \<and> P (peek l) then advance_upto n P (advance l) else l)"

section \<open>Trivia\<close>

function skip_block_comment :: "lexer \<Rightarrow> bool \<Rightarrow> lexer \<times> bool" where
  "skip_block_comment l crossed =
     (if \<not> at_end l \<and> \<not> (peek l = CHR ''*'' \<and> peek_next l = CHR ''/'')
      then skip_block_comment (advance l) (crossed \<or> peek l = newline) else (l, crossed))"
  by pat_completeness auto
termination
  by (relation "measure (\<lambda>(l, c). length (source l) - pos l)") (auto simp: at_end_def)

declare skip_block_comment.simps [simp del]

text \<open>
  One round of \<^verbatim>\<open>skip_whitespace_and_comments\<close>: the cursor after it, whether it crossed a newline, and
  whether the loop goes on.
\<close>

definition skip_one :: "lexer \<Rightarrow> lexer \<times> bool \<times> bool" where
  "skip_one l =
     (let ch = peek l in
      if ch \<in> {CHR '' '', CHR 0x09, carriage_return} then (advance l, False, True)
      else if ch = newline then (advance l, True, True)
      else if ch = CHR ''/'' \<and> peek_next l = CHR ''/''
      then (advance_while (\<lambda>c. c \<noteq> newline) l, False, True)
      else if ch = CHR ''/'' \<and> peek_next l = CHR ''*'' then
        let (l1, crossed) = skip_block_comment (advance (advance l)) False
        in (if at_end l1 then lex_error (make_location l1) ''unterminated block comment'' l1
            else advance (advance l1), crossed, True)
      else (l, False, False))"

lemma lex_error_fields [simp]:
  "source (lex_error loc m l) = source l" "pos (lex_error loc m l) = pos l"
  "fname (lex_error loc m l) = fname l" "line_no (lex_error loc m l) = line_no l"
  "col_no (lex_error loc m l) = col_no l" "last_real_kind (lex_error loc m l) = last_real_kind l"
  "awaiting_asm_expr_body (lex_error loc m l) = awaiting_asm_expr_body l"
  "asm_header_budget (lex_error loc m l) = asm_header_budget l"
  "last_token_is_asi_trigger (lex_error loc m l) = last_token_is_asi_trigger l"
  "last_token_end (lex_error loc m l) = last_token_end l"
  "token_start_line (lex_error loc m l) = token_start_line l"
  "token_start_col (lex_error loc m l) = token_start_col l"
  by (simp_all add: lex_error_def)

lemma advance_while_mono: "pos l \<le> pos (advance_while P l) \<and> source (advance_while P l) = source l"
proof (induction P l rule: advance_while.induct)
  case (1 P l)
  then show ?case by (subst (1 2) advance_while.simps) (auto dest!: Suc_leD)
qed

lemma skip_block_comment_mono:
  "pos l \<le> pos (fst (skip_block_comment l c)) \<and> source (fst (skip_block_comment l c)) = source l"
proof (induction l c rule: skip_block_comment.induct)
  case (1 l c)
  then show ?case by (subst (1 2) skip_block_comment.simps) (auto dest!: Suc_leD)
qed

lemma skip_one_progress:
  assumes "skip_one l = (l', c, True)" "\<not> at_end l"
  shows "pos l < pos l' \<and> source l' = source l"
proof -
  have "pos l < pos (advance_while (\<lambda>c. c \<noteq> newline) l)" if "peek l \<noteq> newline"
    using that assms(2) advance_while_mono [of "advance l" "\<lambda>c. c \<noteq> newline"]
    by (subst advance_while.simps) (simp add: Suc_le_eq)
  then show ?thesis
    using assms advance_while_mono [of l "\<lambda>c. c \<noteq> newline"]
      skip_block_comment_mono [of "advance (advance l)" False]
    by (auto simp: skip_one_def Let_def split: if_splits prod.splits)
qed

lemma skip_one_less:
  "skip_one l = (l', c, True) \<Longrightarrow> \<not> at_end l \<Longrightarrow>
   length (source l') - pos l' < length (source l) - pos l"
  using skip_one_progress [of l l' c] by (auto simp: at_end_def)

function skip_trivia :: "lexer \<Rightarrow> bool \<Rightarrow> lexer \<times> bool" where
  "skip_trivia l crossed =
     (if at_end l then (l, crossed) else
      case skip_one l of (l1, c, goes_on) \<Rightarrow>
        if goes_on then skip_trivia l1 (crossed \<or> c) else (l, crossed))"
  by pat_completeness auto
termination
  by (relation "measure (\<lambda>(l, c). length (source l) - pos l)")
    (simp, simp, metis (full_types) skip_one_less)

declare skip_trivia.simps [simp del]

definition skip_whitespace_and_comments :: "lexer \<Rightarrow> lexer \<times> bool" where
  "skip_whitespace_and_comments l = skip_trivia l False"

definition skip_digits :: "lexer \<Rightarrow> lexer" where
  "skip_digits l = advance_while (\<lambda>c. is_digit c \<or> c = underscore) l"

section \<open>Numbers, identifiers, strings and characters\<close>

text \<open>The exponent of a floating-point literal, from its \<^verbatim>\<open>e\<close> on.\<close>

definition lex_exponent :: "lexer \<Rightarrow> lexer" where
  "lex_exponent l =
     (let l1 = advance l;
          l2 = (if \<not> at_end l1 \<and> (peek l1 = CHR ''+'' \<or> peek l1 = CHR ''-'') then advance l1 else l1);
          l3 = skip_digits l2
      in if pos l3 = pos l2 then lex_error (make_location l3) ''missing digits in float exponent'' l3 else l3)"

definition at_exponent :: "lexer \<Rightarrow> bool" where
  "at_exponent l = (\<not> at_end l \<and> (peek l = CHR ''e'' \<or> peek l = CHR ''E''))"

definition lex_based_number :: "(char \<Rightarrow> bool) \<Rightarrow> nat \<Rightarrow> lexer \<Rightarrow> lexer \<times> token" where
  "lex_based_number P start l =
     (let (l1, saw_digit) = scan_digits P False (advance l);
          l2 = (if saw_digit then l1
                else lex_error (make_location l1) ''missing digits after integer base prefix'' l1)
      in (l2, make_token l2 IntLiteral start))"

definition lex_hex_number :: "nat \<Rightarrow> lexer \<Rightarrow> lexer \<times> token" where
  "lex_hex_number start l = lex_based_number is_hex_digit start l"

definition lex_binary_number :: "nat \<Rightarrow> lexer \<Rightarrow> lexer \<times> token" where
  "lex_binary_number start l = lex_based_number (\<lambda>c. c = CHR ''0'' \<or> c = CHR ''1'') start l"

definition lex_octal_number :: "nat \<Rightarrow> lexer \<Rightarrow> lexer \<times> token" where
  "lex_octal_number start l = lex_based_number is_octal_digit start l"

definition lex_decimal_number :: "nat \<Rightarrow> lexer \<Rightarrow> lexer \<times> token" where
  "lex_decimal_number start l =
     (let l1 = skip_digits l;
          fraction = (\<not> at_end l1 \<and> peek l1 = CHR ''.'' \<and> is_digit (peek_next l1));
          l2 = (if fraction then skip_digits (advance l1) else l1);
          expo = at_exponent l2;
          l3 = (if expo then lex_exponent l2 else l2)
      in (l3, make_token l3 (if fraction \<or> expo then FloatLiteral else IntLiteral) start))"

definition lex_number :: "nat \<Rightarrow> lexer \<Rightarrow> lexer \<times> token" where
  "lex_number start l =
     (let zero_prefix = (source l ! start = CHR ''0'' \<and> pos l < length (source l)); next = peek l in
      if zero_prefix \<and> (next = CHR ''x'' \<or> next = CHR ''X'') then lex_hex_number start l
      else if zero_prefix \<and> (next = CHR ''b'' \<or> next = CHR ''B'') then lex_binary_number start l
      else if zero_prefix \<and> (next = CHR ''o'' \<or> next = CHR ''O'') then lex_octal_number start l
      else lex_decimal_number start l)"

definition lex_fractional_number :: "nat \<Rightarrow> lexer \<Rightarrow> lexer \<times> token" where
  "lex_fractional_number start l =
     (let l1 = skip_digits l; l2 = (if at_exponent l1 then lex_exponent l1 else l1)
      in (l2, make_token l2 FloatLiteral start))"

definition lex_identifier_or_keyword :: "nat \<Rightarrow> lexer \<Rightarrow> lexer \<times> token" where
  "lex_identifier_or_keyword start l =
     (let l1 = advance_while (\<lambda>c. is_alpha_numeric c \<or> c = underscore) l;
          text = substr (source l1) start (pos l1 - start)
      in case map_of keyword_table text of
           Some k \<Rightarrow> (l1, make_token l1 k start)
         | None \<Rightarrow> (l1, make_token l1 Identifier start))"

function string_body :: "lexer \<Rightarrow> lexer" where
  "string_body l =
     (if \<not> at_end l \<and> peek l \<noteq> quote \<and> peek l \<noteq> newline then
        if peek l = backslash then
          if at_end (advance l) \<or> peek (advance l) = newline then advance l
          else string_body (advance (advance l))
        else string_body (advance l)
      else l)"
  by pat_completeness auto
termination
  by (relation "measure (\<lambda>l. length (source l) - pos l)") (auto simp: at_end_def)

declare string_body.simps [simp del]

definition lex_string :: "nat \<Rightarrow> lexer \<Rightarrow> lexer \<times> token" where
  "lex_string start l =
     (let l1 = string_body l in
      if at_end l1 \<or> peek l1 = newline then
        let l2 = lex_error (start_location l1 start (pos l1 - start)) ''unterminated string literal'' l1
        in (l2, make_token l2 StringLiteral start)
      else (advance l1, make_token (advance l1) StringLiteral start))"

definition is_continuation_byte :: "char \<Rightarrow> bool" where
  "is_continuation_byte c = ((of_char c :: nat) div 64 = 2)"

text \<open>The escape sequence after the backslash of a character literal.\<close>

definition char_escape :: "lexer \<Rightarrow> lexer" where
  "char_escape l =
     (if at_end l \<or> peek l = newline then l
      else if peek l = CHR ''x'' then advance_upto 2 is_hex_digit (advance l)
      else if is_octal_digit (peek l) then advance_upto 2 is_octal_digit (advance l)
      else advance l)"

definition unterminated_char :: "nat \<Rightarrow> lexer \<Rightarrow> lexer \<times> token" where
  "unterminated_char start l =
     (let l1 = lex_error (start_location l start (pos l - start)) ''unterminated character literal'' l
      in (l1, make_token l1 CharLiteral start))"

definition close_char :: "nat \<Rightarrow> lexer \<Rightarrow> lexer \<times> token" where
  "close_char start l =
     (if at_end l \<or> peek l \<noteq> apostrophe then unterminated_char start l
      else (advance l, make_token (advance l) CharLiteral start))"

definition multi_byte_char :: "nat \<Rightarrow> lexer \<Rightarrow> lexer \<times> token" where
  "multi_byte_char start l =
     (let l1 = advance_while is_continuation_byte (advance l);
          l2 = (if \<not> at_end l1 \<and> peek l1 = apostrophe then advance l1 else l1);
          l3 = lex_error (start_location l2 start (pos l2 - start))
                 ''multi-byte character literals are not supported'' l2
      in (l3, make_token l3 CharLiteral start))"

definition lex_char :: "nat \<Rightarrow> lexer \<Rightarrow> lexer \<times> token" where
  "lex_char start l =
     (if at_end l \<or> peek l = apostrophe then
        let l1 = lex_error (make_location l) ''empty character literal'' l;
            l2 = (if \<not> at_end l1 then advance l1 else l1)
        in (l2, make_token l2 CharLiteral start)
      else if peek l = newline then unterminated_char start l
      else if peek l = backslash then close_char start (char_escape (advance l))
      else if 128 \<le> (of_char (peek l) :: nat) then multi_byte_char start l
      else close_char start (advance l))"

section \<open>Symbols\<close>

definition match_double :: "char \<Rightarrow> token_kind \<Rightarrow> token_kind \<Rightarrow> lexer \<Rightarrow> lexer \<times> token_kind" where
  "match_double c double_token single_token l =
     (let (l1, b) = match_char c l in (l1, if b then double_token else single_token))"

text \<open>The first alternative whose character comes next, or the fallback.\<close>

fun match_first :: "(char \<times> operator) list \<Rightarrow> token_kind \<Rightarrow> lexer \<Rightarrow> lexer \<times> token_kind" where
  "match_first [] k l = (l, k)"
| "match_first ((c, p) # alts) k l =
     (let (l1, b) = match_char c l in if b then (l1, Op p) else match_first alts k l)"

definition lex_dots :: "lexer \<Rightarrow> lexer \<times> token_kind" where
  "lex_dots l =
     (let (l1, b) = match_char (CHR ''.'') l in
      if b then match_double (CHR ''.'') (Op DotDotDot) (Op DotDot) l1 else (l, Punct Dot))"

definition lex_angle :: "char \<Rightarrow> operator \<Rightarrow> operator \<Rightarrow> operator \<Rightarrow> operator \<Rightarrow> lexer \<Rightarrow> lexer \<times> token_kind" where
  "lex_angle c shift_equal shift equal_kind plain l =
     (let (l1, b) = match_char c l in
      if b then match_double (CHR ''='') (Op shift_equal) (Op shift) l1
      else match_double (CHR ''='') (Op equal_kind) (Op plain) l1)"

definition symbol_kind :: "char \<Rightarrow> lexer \<Rightarrow> (lexer \<times> token_kind) option" where
  "symbol_kind ch l =
     (if ch = CHR ''('' then Some (l, Punct LParen)
      else if ch = CHR '')'' then Some (l, Punct RParen)
      else if ch = CHR ''{'' then Some (l, Punct LBrace)
      else if ch = CHR ''}'' then Some (l, Punct RBrace)
      else if ch = CHR ''['' then Some (l, Punct LBracket)
      else if ch = CHR '']'' then Some (l, Punct RBracket)
      else if ch = CHR '','' then Some (l, Punct Comma)
      else if ch = CHR ''~'' then Some (match_double (CHR ''='') (Op TildeEqual) (Op Tilde) l)
      else if ch = CHR ''?'' then Some (l, Op Question)
      else if ch = CHR '';'' then Some (l, Punct Semicolon)
      else if ch = CHR ''@'' then Some (l, Punct At)
      else if ch = CHR ''#'' then Some (l, Punct Hash)
      else if ch = CHR ''$'' then Some (l, Punct Dollar)
      else if ch = CHR ''.'' then Some (lex_dots l)
      else if ch = CHR ''+'' then
        Some (match_first [(CHR ''+'', PlusPlus), (CHR ''='', PlusEqual)] (Op Plus) l)
      else if ch = CHR ''-'' then
        Some (match_first [(CHR ''-'', MinusMinus), (CHR ''='', MinusEqual), (CHR ''>'', Arrow)] (Op Minus) l)
      else if ch = CHR ''*'' then Some (match_double (CHR ''='') (Op StarEqual) (Op Star) l)
      else if ch = CHR ''/'' then Some (match_double (CHR ''='') (Op SlashEqual) (Op Slash) l)
      else if ch = CHR ''%'' then Some (l, Op Percent)
      else if ch = CHR ''&'' then
        Some (match_first [(CHR ''&'', AmpAmp), (CHR ''='', AmpEqual)] (Op Ampersand) l)
      else if ch = CHR ''|'' then
        Some (match_first [(CHR ''|'', PipePipe), (CHR ''='', PipeEqual)] (Op Pipe) l)
      else if ch = CHR ''^'' then Some (match_double (CHR ''='') (Op CaretEqual) (Op Caret) l)
      else if ch = CHR ''='' then Some (match_double (CHR ''='') (Op EqualEqual) (Op Equal) l)
      else if ch = CHR ''!'' then Some (match_double (CHR ''='') (Op BangEqual) (Op Bang) l)
      else if ch = CHR ''<'' then Some (lex_angle (CHR ''<'') ShiftLeftEqual ShiftLeft LessEqual Less l)
      else if ch = CHR ''>'' then
        Some (lex_angle (CHR ''>'') ShiftRightEqual ShiftRight GreaterEqual Greater l)
      else if ch = CHR '':'' then Some (match_double (CHR ''='') (Op ColonEqual) (Op Colon) l)
      else None)"

definition lex_symbol :: "nat \<Rightarrow> char \<Rightarrow> lexer \<Rightarrow> lexer \<times> token option" where
  "lex_symbol start ch l =
     (case symbol_kind ch l of
        Some (l1, k) \<Rightarrow> (l1, Some (make_token l1 k start))
      | None \<Rightarrow> (lex_error (start_location l start 1)
                    (''unexpected character '' @ [apostrophe, ch, apostrophe]) l, None))"

section \<open>Raw assembly bodies\<close>

function asm_body :: "int \<Rightarrow> lexer \<Rightarrow> lexer \<times> int" where
  "asm_body depth l =
     (if \<not> at_end l \<and> depth > 0 then
        let depth' = (if peek l = CHR ''{'' then depth + 1 else if peek l = CHR ''}'' then depth - 1 else depth)
        in if depth' > 0 then asm_body depth' (advance l) else (l, depth')
      else (l, depth))"
  by pat_completeness auto
termination
  by (relation "measure (\<lambda>(d, l). length (source l) - pos l)") (auto simp: at_end_def)

declare asm_body.simps [simp del]

definition lex_asm_block :: "lexer \<Rightarrow> lexer \<times> token option" where
  "lex_asm_block l =
     (let (l1, _) = skip_whitespace_and_comments l in
      if at_end l1 \<or> peek l1 \<noteq> CHR ''{'' then (l1, None)
      else
        let (l2, depth) = asm_body 1 (advance l1);
            loc = (make_location l1)\<lparr>len := pos l2 - pos l1\<rparr>
        in if depth > 0 then (lex_error loc ''unterminated asm block'' l2, None)
           else (advance l2,
             Some \<lparr>kind = AsmBlock, lexeme = substr (source l1) (pos l1 + 1) (pos l2 - pos l1 - 1),
                   tloc = loc\<rparr>))"

section \<open>Tokens\<close>

text \<open>The token that starts with the character just consumed.\<close>

definition lex_from :: "nat \<Rightarrow> char \<Rightarrow> lexer \<Rightarrow> lexer \<times> token option" where
  "lex_from start ch l =
     (if is_digit ch then map_prod id Some (lex_number start l)
      else if is_alpha ch \<or> ch = underscore then map_prod id Some (lex_identifier_or_keyword start l)
      else if ch = CHR ''.'' \<and> is_digit (peek l) then map_prod id Some (lex_fractional_number start l)
      else if ch = quote then map_prod id Some (lex_string start l)
      else if ch = apostrophe then map_prod id Some (lex_char start l)
      else lex_symbol start ch l)"

definition note_token :: "token \<Rightarrow> lexer \<Rightarrow> lexer" where
  "note_token t l =
     l\<lparr>last_token_is_asi_trigger := is_asi_trigger (kind t)
         \<or> (kind t = Op Star \<and> last_real_kind l = Some (Punct Dot)),
       last_real_kind := Some (kind t), last_token_end := make_location l\<rparr>"

definition lex_token :: "lexer \<Rightarrow> lexer \<times> token option" where
  "lex_token l =
     (let (l1, crossed_newline) = skip_whitespace_and_comments l in
      if crossed_newline \<and> last_token_is_asi_trigger l1 then
        (l1\<lparr>last_real_kind := Some (Punct Semicolon), last_token_is_asi_trigger := False\<rparr>,
         Some (virtual_semicolon l1))
      else if at_end l1 then (l1, Some (make_eof l1))
      else
        let l2 = advance (l1\<lparr>token_start_line := line_no l1, token_start_col := col_no l1\<rparr>);
            (l3, t) = lex_from (pos l1) (source l1 ! pos l1) l2
        in case t of None \<Rightarrow> (l3, None) | Some t \<Rightarrow> (note_token t l3, Some t))"

section \<open>The main loop\<close>

definition note_asm_block :: "lexer \<Rightarrow> lexer" where
  "note_asm_block l =
     l\<lparr>last_real_kind := Some AsmBlock, last_token_is_asi_trigger := True, last_token_end := make_location l\<rparr>"

text \<open>What \<^verbatim>\<open>tokenize\<close> does after an \<^verbatim>\<open>asm\<close> keyword: capture a body that follows, or arm the retry.\<close>

definition after_asm_keyword :: "lexer \<Rightarrow> token list \<Rightarrow> lexer \<times> token list" where
  "after_asm_keyword l tokens =
     (case lex_asm_block l of
        (l1, Some t) \<Rightarrow> (note_asm_block l1, tokens @ [t])
      | (l1, None) \<Rightarrow>
          (if peek l1 = CHR ''-'' \<and> peek_next l1 = CHR ''>''
           then l1\<lparr>awaiting_asm_expr_body := True, asm_header_budget := asm_header_token_budget\<rparr>
           else l1, tokens))"

text \<open>The part of an iteration from the call of \<^verbatim>\<open>lex_token\<close> on; the flag says whether the loop ends.\<close>

definition tokenize_next :: "lexer \<Rightarrow> token list \<Rightarrow> lexer \<times> token list \<times> bool" where
  "tokenize_next l tokens =
     (case lex_token l of
        (l1, None) \<Rightarrow> (l1, tokens, False)
      | (l1, Some t) \<Rightarrow>
          let (l2, tokens2) =
                (if kind t = Eof \<and> last_token_is_asi_trigger l1
                 then (l1\<lparr>last_real_kind := Some (Punct Semicolon), last_token_is_asi_trigger := False\<rparr>,
                       tokens @ [virtual_semicolon l1])
                 else (l1, tokens));
              tokens3 = tokens2 @ [t];
              (l4, tokens4) = (if kind t = Kw KwAsm then after_asm_keyword l2 tokens3 else (l2, tokens3))
          in (l4, tokens4, kind t = Eof))"

definition tokenize_iteration :: "lexer \<Rightarrow> token list \<Rightarrow> lexer \<times> token list \<times> bool" where
  "tokenize_iteration l tokens =
     (if awaiting_asm_expr_body l then
        case lex_asm_block l of
          (l1, Some t) \<Rightarrow> (note_asm_block (l1\<lparr>awaiting_asm_expr_body := False\<rparr>), tokens @ [t], False)
        | (l1, None) \<Rightarrow>
            let budget = asm_header_budget l1 - 1;
                l2 = l1\<lparr>asm_header_budget := budget\<rparr>
            in tokenize_next (if budget \<le> 0 then l2\<lparr>awaiting_asm_expr_body := False\<rparr> else l2) tokens
      else tokenize_next l tokens)"

end
