(* ===== verification/Lexer_Scan.thy ===== *)
theory Lexer_Scan
  imports Lexer
begin

text \<open>
  What every scanning routine of the lexer does to the cursor: it consumes characters of the source one
  by one and may report. The relation \<open>scans P\<close> says so, with \<open>P\<close> true of each character consumed;
  the facts about positions, lines and columns are proved once, by rule induction. The main loop is
  defined here, with its termination.
\<close>

section \<open>Scanning\<close>

inductive scans :: "(char \<Rightarrow> bool) \<Rightarrow> lexer \<Rightarrow> lexer \<Rightarrow> bool" for P where
  scans_refl: "scans P l l"
| scans_advance: "\<not> at_end l \<Longrightarrow> P (source l ! pos l) \<Longrightarrow> scans P (advance l) l' \<Longrightarrow> scans P l l'"
| scans_report: "scans P (lex_error loc m l) l' \<Longrightarrow> scans P l l'"

named_theorems scanning "routines that only scan"

declare scans_refl [scanning]

lemma scans_trans: "scans P l l' \<Longrightarrow> scans P l' l'' \<Longrightarrow> scans P l l''"
  by (induction rule: scans.induct) (auto intro: scans.intros)

lemma scans_mono: "scans P l l' \<Longrightarrow> (\<And>c. P c \<Longrightarrow> Q c) \<Longrightarrow> scans Q l l'"
  by (induction rule: scans.induct) (auto intro: scans.intros)

lemma scans_advance1: "\<not> at_end l \<Longrightarrow> P (peek l) \<Longrightarrow> scans P l (advance l)"
  by (auto intro: scans.intros simp: peek_def)

lemma scans_step: "\<not> at_end l \<Longrightarrow> P (peek l) \<Longrightarrow> scans P (advance l) l' \<Longrightarrow> scans P l l'"
  by (auto intro: scans.intros simp: peek_def)

lemma scans_lex_error: "scans P l (lex_error loc m l)"
  by (rule scans_report [OF scans_refl])

lemma scans_then_advance: "scans P l l' \<Longrightarrow> \<not> at_end l' \<Longrightarrow> P (peek l') \<Longrightarrow> scans P l (advance l')"
  using scans_trans scans_advance1 by blast

lemma scans_then_error: "scans P l l' \<Longrightarrow> scans P l (lex_error loc m l')"
  using scans_trans scans_lex_error by blast

lemma scans_fields:
  assumes "scans P l l'"
  shows "source l' = source l" "fname l' = fname l" "last_real_kind l' = last_real_kind l"
    "awaiting_asm_expr_body l' = awaiting_asm_expr_body l" "asm_header_budget l' = asm_header_budget l"
    "last_token_is_asi_trigger l' = last_token_is_asi_trigger l" "last_token_end l' = last_token_end l"
    "token_start_line l' = token_start_line l" "token_start_col l' = token_start_col l"
    "pos l \<le> pos l'"
  using assms by (induction rule: scans.induct) simp_all

lemma scans_pos_bound: "scans P l l' \<Longrightarrow> pos l' = pos l \<or> pos l' \<le> length (source l)"
proof (induction rule: scans.induct)
  case (scans_advance l l')
  then show ?case using scans_fields(10) [of P "advance l" l'] by (auto simp: at_end_def)
qed auto

lemma scans_chars: "scans P l l' \<Longrightarrow> pos l \<le> i \<Longrightarrow> i < pos l' \<Longrightarrow> P (source l ! i)"
proof (induction rule: scans.induct)
  case (scans_advance l l')
  then show ?case by (cases "i = pos l") auto
qed auto

lemma scans_same_pos: "scans P l l' \<Longrightarrow> pos l' = pos l \<Longrightarrow> line_no l' = line_no l \<and> col_no l' = col_no l"
proof (induction rule: scans.induct)
  case (scans_advance l l')
  then show ?case using scans_fields(10) [of P "advance l" l'] by simp
qed auto

text \<open>The line and column are those of the position: newlines before it, characters since the last.\<close>

definition line_of :: "string \<Rightarrow> nat \<Rightarrow> nat" where
  "line_of s i = 1 + length (filter (\<lambda>c. c = newline) (take i s))"

definition column_of :: "string \<Rightarrow> nat \<Rightarrow> nat" where
  "column_of s i = 1 + length (takeWhile (\<lambda>c. c \<noteq> newline) (rev (take i s)))"

definition synced :: "lexer \<Rightarrow> bool" where
  "synced l \<longleftrightarrow> pos l \<le> length (source l) \<and> line_no l = line_of (source l) (pos l)
     \<and> col_no l = column_of (source l) (pos l)"

lemma synced_advance: "synced l \<Longrightarrow> \<not> at_end l \<Longrightarrow> synced (advance l)"
  by (auto simp: synced_def at_end_def advance_def line_of_def column_of_def take_Suc_conv_app_nth)

lemma synced_error [simp]: "synced (lex_error loc m l) = synced l"
  by (simp add: synced_def)

lemma scans_synced: "scans P l l' \<Longrightarrow> synced l \<Longrightarrow> synced l'"
  by (induction rule: scans.induct) (auto intro: synced_advance)

text \<open>Positions in terms of \<open>line_of\<close>: a stretch without newlines stays on its line.\<close>

lemma line_of_same:
  assumes "i \<le> j" "j \<le> length s" "\<And>k. i \<le> k \<Longrightarrow> k < j \<Longrightarrow> s ! k \<noteq> newline"
  shows "line_of s j = line_of s i"
proof -
  have t: "take j s = take i s @ take (j - i) (drop i s)"
    using assms(1) by (metis le_add_diff_inverse take_add)
  have "filter (\<lambda>c. c = newline) (take (j - i) (drop i s)) = []"
    using assms by (auto simp: filter_empty_conv in_set_conv_nth)
  then show ?thesis
    by (simp add: line_of_def t)
qed

section \<open>The routines scan\<close>

lemma scans_advance_while [scanning]: "(\<And>c. Q c \<Longrightarrow> P c) \<Longrightarrow> scans P l (advance_while Q l)"
proof (induction Q l rule: advance_while.induct)
  case (1 Q l)
  then show ?case
    by (subst advance_while.simps) (auto intro: scans.intros simp: peek_def split: if_splits)
qed

lemma scans_scan_digits [scanning]:
  "(\<And>c. Q c \<or> c = underscore \<Longrightarrow> P c) \<Longrightarrow> scans P l (fst (scan_digits Q b l))"
proof (induction Q b l rule: scan_digits.induct)
  case (1 Q b l)
  show ?case
    by (subst scan_digits.simps) (use 1 in \<open>auto intro: scans_refl scans_step\<close>)
qed

lemma scans_advance_upto [scanning]: "(\<And>c. Q c \<Longrightarrow> P c) \<Longrightarrow> scans P l (advance_upto n Q l)"
  by (induction n Q l rule: advance_upto.induct) (auto intro: scans.intros simp: peek_def split: if_splits)

lemma scans_skip_block_comment: "scans (\<lambda>_. True) l (fst (skip_block_comment l c))"
proof (induction l c rule: skip_block_comment.induct)
  case (1 l c)
  then show ?case by (subst skip_block_comment.simps) (auto intro: scans.intros)
qed

lemma scans_skip_digits [scanning]:
  "(\<And>c. is_digit c \<or> c = underscore \<Longrightarrow> P c) \<Longrightarrow> scans P l (skip_digits l)"
  unfolding skip_digits_def by (rule scans_advance_while)

lemma scans_step2:
  "\<not> at_end l \<Longrightarrow> P (peek l) \<Longrightarrow> \<not> at_end (advance l) \<Longrightarrow> P (peek (advance l)) \<Longrightarrow>
   scans P (advance (advance l)) l' \<Longrightarrow> scans P l l'"
  by (simp add: scans_step)

lemma string_body_cases:
  obtains (stop) "string_body l = l"
  | (one) "\<not> at_end l" "peek l \<noteq> newline" "string_body l = advance l"
  | (plain) "\<not> at_end l" "peek l \<noteq> newline" "peek l \<noteq> quote" "peek l \<noteq> backslash"
    "string_body l = string_body (advance l)"
  | (escaped) "\<not> at_end l" "peek l = backslash" "\<not> at_end (advance l)" "peek (advance l) \<noteq> newline"
    "string_body l = string_body (advance (advance l))"
proof (cases "at_end l \<or> peek l = quote \<or> peek l = newline")
  case True
  then show thesis by (intro stop) (subst string_body.simps, rule if_not_P, blast)
next
  case False
  then have eq: "string_body l = (if peek l = backslash then
      if at_end (advance l) \<or> peek (advance l) = newline then advance l
      else string_body (advance (advance l)) else string_body (advance l))"
    by (subst string_body.simps) simp
  show thesis
  proof (cases "peek l = backslash")
    case True
    then show thesis using False eq one escaped by (cases "at_end (advance l) \<or> peek (advance l) = newline") auto
  next
    case b: False
    with False eq show thesis by (intro plain) simp_all
  qed
qed

lemma scans_string_body [scanning]: "(\<And>c. c \<noteq> newline \<Longrightarrow> P c) \<Longrightarrow> scans P l (string_body l)"
proof (induction l rule: string_body.induct)
  case (1 l)
  show ?case
  proof (cases rule: string_body_cases [of l])
    case stop
    then show ?thesis by (simp add: scans_refl)
  next
    case one
    then show ?thesis using "1.prems" by (simp add: scans_advance1)
  next
    case plain
    have "scans P (advance l) (string_body (advance l))"
      using 1(2) [OF _ plain(4) "1.prems"] plain by blast
    then show ?thesis
      unfolding plain(5) using plain "1.prems" by (intro scans_step [of l]) blast+
  next
    case escaped
    have "scans P (advance (advance l)) (string_body (advance (advance l)))"
      using 1(1) [OF _ escaped(2) _ "1.prems"] escaped by auto
    then show ?thesis
      unfolding escaped(5) using escaped "1.prems" by (intro scans_step2 [of l]) auto
  qed
qed

lemma scans_asm_body: "scans (\<lambda>_. True) l (fst (asm_body d l))"
proof (induction d l rule: asm_body.induct)
  case (1 d l)
  then show ?case
    by (subst asm_body.simps) (auto simp: Let_def intro: scans.intros)
qed

lemma scans_line_mono: "scans P l l' \<Longrightarrow> line_no l \<le> line_no l'"
  by (induction rule: scans.induct) (auto simp: advance_def split: if_splits)

lemma line_no_advance: "\<not> at_end l \<Longrightarrow> line_no (advance l) = (if peek l = newline then Suc (line_no l) else line_no l)"
  by (simp add: advance_def peek_def)

lemma line_no_lex_from: "scans (\<lambda>c. c \<noteq> newline) l l' \<Longrightarrow> line_no l' = line_no l"
  by (induction rule: scans.induct) (auto simp: advance_def)

lemma skip_block_comment_crossed:
  "snd (skip_block_comment l c) \<longleftrightarrow> c \<or> line_no l < line_no (fst (skip_block_comment l c))"
proof (induction l c rule: skip_block_comment.induct)
  case (1 l c)
  have "line_no (advance l) \<le> line_no (fst (skip_block_comment (advance l) (c \<or> peek l = newline)))"
    by (rule scans_line_mono [OF scans_skip_block_comment])
  then show ?case
    using 1 by (subst (1 2) skip_block_comment.simps) (auto simp: line_no_advance)
qed

text \<open>One round of trivia scans, and reports a crossed newline exactly when the line advanced.\<close>

lemma block_comment_end:
  assumes "skip_block_comment l c = (l', c')" "\<not> at_end l'"
  shows "peek l' = CHR ''*'' \<and> peek_next l' = CHR ''/''"
  using assms
proof (induction l c rule: skip_block_comment.induct)
  case (1 l c)
  then show ?case by (subst (asm) (2) skip_block_comment.simps) (auto split: if_splits)
qed

lemma peek_next_advance: "peek_next l \<noteq> CHR 0x00 \<Longrightarrow> \<not> at_end (advance l) \<and> peek (advance l) = peek_next l"
  by (auto simp: peek_next_def at_end_def peek_def split: if_splits)

lemma skip_one_scans:
  assumes "\<not> at_end l" "skip_one l = (l', c, b)"
  shows "scans (\<lambda>_. True) l l' \<and> (c \<longleftrightarrow> line_no l < line_no l')"
proof -
  let ?n = "\<lambda>c. c \<noteq> newline"
  consider (space) "l' = advance l" "c \<longleftrightarrow> peek l = newline" | (stay) "l' = l" "\<not> c"
    | (comment) "l' = advance_while ?n l" "\<not> c"
    | (block) l1 where "skip_block_comment (advance (advance l)) False = (l1, c)"
      "peek l = CHR ''/''" "peek_next l = CHR ''*''"
      "l' = (if at_end l1 then lex_error (make_location l1) ''unterminated block comment'' l1
        else advance (advance l1))"
    using assms by (auto simp: skip_one_def Let_def split: if_splits prod.splits)
  then show ?thesis
  proof cases
    case space
    then show ?thesis using assms(1) by (auto simp: line_no_advance intro: scans_advance1)
  next
    case stay
    then show ?thesis by (simp add: scans_refl)
  next
    case comment
    have "scans ?n l l'" unfolding comment by (rule scans_advance_while)
    then show ?thesis
      using comment line_no_lex_from scans_mono by fastforce
  next
    case block
    note nx = peek_next_advance [of l]
    have s1: "scans (\<lambda>_. True) l (advance (advance l))"
      using assms(1) block nx by (auto intro!: scans_step [of l] scans_step [of "advance l"] scans_refl)
    have s2: "scans (\<lambda>_. True) (advance (advance l)) l1"
      using scans_skip_block_comment [of "advance (advance l)" False] block(1) by simp
    have ln: "line_no (advance (advance l)) = line_no l"
      using assms(1) block nx by (simp add: line_no_advance)
    have c: "c \<longleftrightarrow> line_no l < line_no l1"
      using skip_block_comment_crossed [of "advance (advance l)" False] block(1) ln by simp
    show ?thesis
    proof (cases "at_end l1")
      case True
      then show ?thesis
        using block(4) c scans_then_error [OF scans_trans [OF s1 s2]] by simp
    next
      case False
      note e = block_comment_end [OF block(1) False]
      note nx = peek_next_advance [of l1]
      have "scans (\<lambda>_. True) l1 (advance (advance l1))" "line_no (advance (advance l1)) = line_no l1"
        using False e nx
        by (auto intro!: scans_step [of l1] scans_step [of "advance l1"] scans_refl
            simp: line_no_advance)
      then show ?thesis
        using block(4) c False scans_trans [OF scans_trans [OF s1 s2]] by auto
    qed
  qed
qed

lemma skip_trivia_scans:
  "scans (\<lambda>_. True) l (fst (skip_trivia l c))
   \<and> (snd (skip_trivia l c) \<longleftrightarrow> c \<or> line_no l < line_no (fst (skip_trivia l c)))"
proof (induction l c rule: skip_trivia.induct)
  case (1 l c)
  obtain l1 d b where o: "skip_one l = (l1, d, b)" by (cases "skip_one l") auto
  show ?case
  proof (cases "at_end l \<or> \<not> b")
    case True
    then show ?thesis using o by (subst (1 2 3) skip_trivia.simps) (auto intro: scans_refl)
  next
    case False
    then have eq: "skip_trivia l c = skip_trivia l1 (c \<or> d)"
      using o by (subst skip_trivia.simps) simp
    have s: "scans (\<lambda>_. True) l l1" "d \<longleftrightarrow> line_no l < line_no l1"
      using skip_one_scans [OF _ o] False by auto
    have IH: "scans (\<lambda>_. True) l1 (fst (skip_trivia l1 (c \<or> d)))"
      "snd (skip_trivia l1 (c \<or> d)) \<longleftrightarrow> (c \<or> d) \<or> line_no l1 < line_no (fst (skip_trivia l1 (c \<or> d)))"
      using 1 [OF _ o [symmetric] refl] False by auto
    show ?thesis
      unfolding eq using IH s scans_trans [OF s(1) IH(1)] scans_line_mono [OF s(1)]
        scans_line_mono [OF IH(1)] by auto
  qed
qed

lemma skip_whitespace_scans:
  assumes "skip_whitespace_and_comments l = (l', c)"
  shows "scans (\<lambda>_. True) l l'" "c \<longleftrightarrow> line_no l < line_no l'"
  using skip_trivia_scans [of l False] assms by (simp_all add: skip_whitespace_and_comments_def)

lemma skip_trivia_stop:
  "skip_trivia l c = (l', c') \<Longrightarrow> \<not> at_end l' \<Longrightarrow> \<not> snd (snd (skip_one l'))"
proof (induction l c rule: skip_trivia.induct)
  case (1 l c)
  then show ?case
    by (subst (asm) (2) skip_trivia.simps) (auto split: if_splits prod.splits)
qed

lemma skip_whitespace_not_newline:
  assumes "skip_whitespace_and_comments l = (l', c)" "\<not> at_end l'"
  shows "source l' ! pos l' \<noteq> newline"
  using skip_trivia_stop [of l False l' c] assms
  by (auto simp: skip_whitespace_and_comments_def skip_one_def Let_def peek_def)

section \<open>Lexing one token\<close>

text \<open>
  The routines that lex a token starting at \<open>start\<close> scan without crossing a newline and build the token
  from what lies between \<open>start\<close> and the cursor.
\<close>

abbreviation not_newline :: "char \<Rightarrow> bool" where
  "not_newline c \<equiv> c \<noteq> newline"

definition lexes :: "nat \<Rightarrow> lexer \<Rightarrow> lexer \<times> token \<Rightarrow> bool" where
  "lexes start l r \<longleftrightarrow> scans not_newline l (fst r)
     \<and> (\<exists>k. snd r = make_token (fst r) k start \<and> k \<noteq> Eof \<and> k \<noteq> AsmBlock)"

lemma lexesI: "scans not_newline l l' \<Longrightarrow> k \<noteq> Eof \<Longrightarrow> k \<noteq> AsmBlock \<Longrightarrow> lexes start l (l', make_token l' k start)"
  by (auto simp: lexes_def)

lemma char_classes [simp]:
  "\<not> is_digit newline" "\<not> is_hex_digit newline" "\<not> is_octal_digit newline"
  "\<not> is_alpha_numeric newline" "\<not> is_continuation_byte newline" "\<not> is_octal_digit (CHR ''x'')"
  by (auto simp: is_digit_def is_hex_digit_def is_octal_digit_def is_alpha_numeric_def is_alpha_def
      is_continuation_byte_def)

lemma scans_lex_exponent [scanning]:
  assumes "at_exponent l"
  shows "scans not_newline l (lex_exponent l)"
proof -
  have 1: "scans not_newline l (advance l)"
    using assms by (auto simp: at_exponent_def intro: scans_advance1)
  define l2 where "l2 = (if \<not> at_end (advance l) \<and> (peek (advance l) = CHR ''+'' \<or> peek (advance l) = CHR ''-'')
    then advance (advance l) else advance l)"
  have 2: "scans not_newline l l2"
    using 1 by (auto simp: l2_def intro: scans_then_advance)
  have "scans not_newline l (skip_digits l2)"
    by (rule scans_trans [OF 2 scans_skip_digits]) auto
  then show ?thesis
    by (auto simp: lex_exponent_def Let_def l2_def [symmetric] intro: scans_then_error)
qed

lemma lexes_based_number:
  assumes "\<not> at_end l" "peek l \<noteq> newline" "\<And>c. P c \<Longrightarrow> c \<noteq> newline"
  shows "lexes start l (lex_based_number P start l)"
proof -
  obtain l1 b where s: "scan_digits P False (advance l) = (l1, b)" by fastforce
  have "scans not_newline (advance l) l1"
    using scans_scan_digits [of P not_newline "advance l" False] assms(3) [of newline] s by auto
  then have "scans not_newline l l1"
    using assms by (auto intro: scans_step)
  then show ?thesis
    by (auto simp: lex_based_number_def s Let_def intro: lexesI scans_then_error)
qed

lemma lexes_decimal_number: "lexes start l (lex_decimal_number start l)"
proof -
  define l1 where "l1 = skip_digits l"
  define f where "f \<longleftrightarrow> \<not> at_end l1 \<and> peek l1 = CHR ''.'' \<and> is_digit (peek_next l1)"
  define l2 where "l2 = (if f then skip_digits (advance l1) else l1)"
  have 1: "scans not_newline l l1" unfolding l1_def by (rule scans_skip_digits) auto
  have "scans not_newline (advance l1) (skip_digits (advance l1))" by (rule scans_skip_digits) auto
  then have 2: "scans not_newline l l2"
    using 1 by (auto simp: l2_def f_def intro: scans_trans [OF scans_then_advance])
  have "scans not_newline l (if at_exponent l2 then lex_exponent l2 else l2)"
    using 2 by (auto intro: scans_trans scans_lex_exponent)
  then show ?thesis
    by (auto simp: lex_decimal_number_def Let_def l1_def [symmetric] f_def [symmetric] l2_def [symmetric]
        intro!: lexesI)
qed

lemma lexes_number: "lexes start l (lex_number start l)"
proof -
  have "\<not> at_end l" "peek l \<noteq> newline" if "pos l < length (source l)" "peek l \<in> set ''xXbBoO''"
    using that by (auto simp: at_end_def)
  then show ?thesis
    by (auto simp: lex_number_def Let_def lex_hex_number_def lex_binary_number_def lex_octal_number_def
 intro!: lexes_based_number lexes_decimal_number)
qed

lemma lexes_fractional_number: "lexes start l (lex_fractional_number start l)"
proof -
  have "scans not_newline l (skip_digits l)" by (rule scans_skip_digits) auto
  then show ?thesis
    by (auto simp: lex_fractional_number_def Let_def intro!: lexesI intro: scans_trans scans_lex_exponent)
qed

lemma keyword_table_kinds: "(w, k) \<in> set keyword_table \<Longrightarrow> k \<noteq> Eof \<and> k \<noteq> AsmBlock"
  by (auto simp: keyword_table_def)

lemma lexes_identifier: "lexes start l (lex_identifier_or_keyword start l)"
proof -
  have "scans not_newline l (advance_while (\<lambda>c. is_alpha_numeric c \<or> c = underscore) l)"
    by (rule scans_advance_while) auto
  then show ?thesis
    by (auto simp: lex_identifier_or_keyword_def Let_def intro!: lexesI split: option.splits
        dest!: map_of_SomeD keyword_table_kinds)
qed

lemma lexes_string: "lexes start l (lex_string start l)"
proof -
  have "scans not_newline l (string_body l)" by (rule scans_string_body) auto
  then show ?thesis
    by (auto simp: lex_string_def Let_def intro!: lexesI intro: scans_then_error scans_then_advance)
qed

lemma scans_char_escape:
  assumes "scans not_newline l l'"
  shows "scans not_newline l (char_escape l')"
proof -
  have "scans not_newline (advance l') (advance_upto 2 is_hex_digit (advance l'))"
    "scans not_newline (advance l') (advance_upto 2 is_octal_digit (advance l'))"
    by (auto intro!: scans_advance_upto)
  then show ?thesis
    using assms by (auto simp: char_escape_def intro: scans_then_advance scans_trans [OF scans_then_advance])
qed

lemma lexes_close_char: "scans not_newline l l' \<Longrightarrow> lexes start l (close_char start l')"
  by (auto simp: close_char_def unterminated_char_def Let_def intro!: lexesI
      intro: scans_then_error scans_then_advance)

lemma lexes_char: "lexes start l (lex_char start l)"
proof -
  have "scans not_newline l (advance (lex_error loc m l))"
    if "\<not> at_end l" "peek l = apostrophe" for loc m
    using that by (auto intro!: scans_then_advance scans_lex_error simp: at_end_def peek_def)
  then have empty: "lexes start l (lex_char start l)" if "at_end l \<or> peek l = apostrophe"
    using that by (auto simp: lex_char_def Let_def at_end_def intro!: lexesI intro: scans_lex_error scans_trans)
  have multi: "lexes start l (multi_byte_char start l)" if "\<not> at_end l" "peek l \<noteq> newline"
  proof -
    define l1 where "l1 = advance_while is_continuation_byte (advance l)"
    have "scans not_newline (advance l) l1"
      unfolding l1_def by (rule scans_advance_while) auto
    then have "scans not_newline l l1"
      using that by (auto intro: scans_step)
    then show ?thesis
      by (auto simp: multi_byte_char_def Let_def l1_def [symmetric] intro!: lexesI scans_then_error
          intro: scans_then_advance)
  qed
  show ?thesis
  proof (cases "at_end l \<or> peek l = apostrophe")
    case False
    have "scans not_newline l (advance l)" if "peek l \<noteq> newline"
      using that False by (auto intro: scans_advance1)
    then show ?thesis
      using False multi
      by (auto simp: lex_char_def unterminated_char_def Let_def intro!: lexesI lexes_close_char scans_char_escape
          intro: scans_lex_error)
  qed (rule empty)
qed

lemma match_char_scans: "c \<noteq> newline \<Longrightarrow> match_char c l = (l', b) \<Longrightarrow> scans not_newline l l'"
  by (auto simp: match_char_def peek_def split: if_splits intro: scans_refl scans_advance1)

lemma match_double_scans: "c \<noteq> newline \<Longrightarrow> scans not_newline l (fst (match_double c d s l))"
  by (auto simp: match_double_def split: prod.splits dest: match_char_scans)

lemma match_first_scans:
  "newline \<notin> fst ` set alts \<Longrightarrow> scans not_newline l (fst (match_first alts k l))"
  by (induction alts k l rule: match_first.induct)
    (auto intro: scans_refl match_char_scans [rotated] split: prod.splits)

definition symbol_token :: "token_kind \<Rightarrow> bool" where
  "symbol_token k = (case k of Op _ \<Rightarrow> True | Punct _ \<Rightarrow> True | _ \<Rightarrow> False)"

lemma symbol_token_simps [simp]: "symbol_token (Op p)" "symbol_token (Punct q)" "\<not> symbol_token Eof"
  "\<not> symbol_token AsmBlock" "\<not> symbol_token (Kw w)"
  by (simp_all add: symbol_token_def)

lemma match_first_symbol: "symbol_token k \<Longrightarrow> symbol_token (snd (match_first alts k l))"
  by (induction alts k l rule: match_first.induct) (auto split: prod.splits)

lemma match_double_symbol: "symbol_token d \<Longrightarrow> symbol_token s \<Longrightarrow> symbol_token (snd (match_double c d s l))"
  by (auto simp: match_double_def split: prod.splits)

lemma lex_dots_scans: "scans not_newline l (fst (lex_dots l)) \<and> symbol_token (snd (lex_dots l))"
proof -
  obtain l1 b where m: "match_char (CHR ''.'') l = (l1, b)" by fastforce
  have "scans not_newline l l1" using match_char_scans [OF _ m] by simp
  then show ?thesis
    using scans_trans [OF _ match_double_scans]
    by (auto simp: lex_dots_def m intro: scans_refl match_double_symbol)
qed

lemma lex_angle_scans:
  assumes "c \<noteq> newline"
  shows "scans not_newline l (fst (lex_angle c a1 a2 a3 a4 l)) \<and> symbol_token (snd (lex_angle c a1 a2 a3 a4 l))"
proof -
  obtain l1 b where m: "match_char c l = (l1, b)" by fastforce
  have "scans not_newline l l1" using match_char_scans [OF assms m] .
  then show ?thesis
    using scans_trans [OF _ match_double_scans]
    by (auto simp: lex_angle_def m intro: match_double_symbol)
qed

lemma symbol_kind_scans:
  assumes "symbol_kind ch l = Some (l', k)"
  shows "scans not_newline l l' \<and> symbol_token k"
proof -
  let ?ok = "\<lambda>r. scans not_newline l (fst r) \<and> symbol_token (snd r)"
  have plain: "?ok (l, Punct p)" "?ok (l, Op q)" for p q
    by (auto intro: scans_refl)
  have double: "?ok (match_double c (Op p) (Op q) l)" if "c \<noteq> newline" for c p q
    using that by (auto intro!: match_double_scans match_double_symbol)
  have alts: "?ok (match_first as (Op p) l)" if "newline \<notin> fst ` set as" for as p
    using that by (auto intro!: match_first_scans match_first_symbol)
  have "pred_option ?ok (symbol_kind ch l)"
    by (simp add: symbol_kind_def plain double alts lex_dots_scans lex_angle_scans scans_refl del: match_first.simps)
  then show ?thesis using assms by simp
qed

lemma lex_from_lexes:
  assumes "lex_from start ch l = (l', t)"
  shows "scans not_newline l l' \<and>
    (case t of None \<Rightarrow> True | Some t \<Rightarrow> \<exists>k. t = make_token l' k start \<and> k \<noteq> Eof \<and> k \<noteq> AsmBlock)"
proof -
  have wrap: ?thesis if "map_prod id Some r = (l', t)" "lexes start l r" for r
    using that by (cases r) (auto simp: lexes_def)
  have sym: ?thesis if "lex_symbol start ch l = (l', t)"
    using that symbol_kind_scans [of ch l]
    by (auto simp: lex_symbol_def split: option.splits prod.splits intro: scans_lex_error)
  show ?thesis
    using assms sym
    by (auto simp: lex_from_def split: if_splits
        dest!: wrap [OF _ lexes_number] wrap [OF _ lexes_identifier] wrap [OF _ lexes_fractional_number]
          wrap [OF _ lexes_string] wrap [OF _ lexes_char])
qed

end
