(* ===== verification/Lexer_Loop.thy ===== *)
theory Lexer_Loop
  imports Lexer_Scan
begin

text \<open>
  The main loop of the lexer. Case rules for \<open>lex_asm_block\<close> and \<open>lex_token\<close> give the shape of their
  results; every iteration that does not end the loop moves the cursor, which makes \<open>tokenize_loop\<close> a
  total function.
\<close>

section \<open>Results of one call\<close>

lemma asm_body_end:
  assumes "asm_body d l = (l', d')" "\<not> d' > 0" "d > 0"
  shows "\<not> at_end l' \<and> peek l' = CHR ''}''"
  using assms
proof (induction d l rule: asm_body.induct)
  case (1 d l)
  then show ?case
    by (subst (asm) (2) asm_body.simps) (auto simp: Let_def split: if_splits)
qed

lemma lex_asm_block_cases:
  assumes "lex_asm_block l = (l', r)"
  obtains (none) "r = None" "scans (\<lambda>_. True) l l'"
  | (block) l1 l2 d where "scans (\<lambda>_. True) l l1" "\<not> at_end l1" "peek l1 = CHR ''{''"
      "asm_body 1 (advance l1) = (l2, d)" "\<not> d > 0" "scans (\<lambda>_. True) (advance l1) l2" "\<not> at_end l2"
      "peek l2 = CHR ''}''" "l' = advance l2"
      "r = Some \<lparr>kind = AsmBlock, lexeme = substr (source l1) (pos l1 + 1) (pos l2 - pos l1 - 1),
        tloc = (make_location l1)\<lparr>len := pos l2 - pos l1\<rparr>\<rparr>"
proof -
  obtain l1 c where s: "skip_whitespace_and_comments l = (l1, c)" by fastforce
  note s1 = skip_whitespace_scans(1) [OF s]
  show thesis
  proof (cases "at_end l1 \<or> peek l1 \<noteq> CHR ''{''")
    case True
    then show thesis using assms s s1 by (intro none) (auto simp: lex_asm_block_def)
  next
    case False
    obtain l2 d where b: "asm_body 1 (advance l1) = (l2, d)" by fastforce
    have s2: "scans (\<lambda>_. True) (advance l1) l2"
      using scans_asm_body [of "advance l1" 1] b by simp
    show thesis
    proof (cases "d > 0")
      case True
      have "scans (\<lambda>_. True) l l2"
        using scans_trans [OF s1 scans_step [OF _ _ s2]] False by simp
      then show thesis
        using assms s False b True by (intro none) (auto simp: lex_asm_block_def Let_def intro: scans_then_error)
    next
      case d: False
      show thesis
        by (rule block [OF s1 _ _ b d s2])
          (use assms s False b d asm_body_end [OF b d] in \<open>auto simp: lex_asm_block_def Let_def\<close>)
    qed
  qed
qed

definition mark_start :: "lexer \<Rightarrow> lexer" where
  "mark_start l = l\<lparr>token_start_line := line_no l, token_start_col := col_no l\<rparr>"

lemma mark_start_fields [simp]:
  "source (mark_start l) = source l" "pos (mark_start l) = pos l" "fname (mark_start l) = fname l"
  "line_no (mark_start l) = line_no l" "col_no (mark_start l) = col_no l"
  "at_end (mark_start l) = at_end l" "peek (mark_start l) = peek l" "synced (mark_start l) = synced l"
  "token_start_line (mark_start l) = line_no l" "token_start_col (mark_start l) = col_no l"
  "last_real_kind (mark_start l) = last_real_kind l"
  "awaiting_asm_expr_body (mark_start l) = awaiting_asm_expr_body l"
  "asm_header_budget (mark_start l) = asm_header_budget l"
  "last_token_is_asi_trigger (mark_start l) = last_token_is_asi_trigger l"
  "last_token_end (mark_start l) = last_token_end l"
  by (simp_all add: mark_start_def at_end_def peek_def synced_def)

text \<open>The result of \<open>lex_token\<close> after \<open>l1\<close>, the cursor past the trivia.\<close>

lemma lex_token_cases:
  assumes "lex_token l = (l', r)"
  obtains (semicolon) l1 where "scans (\<lambda>_. True) l l1" "line_no l < line_no l1" "last_token_is_asi_trigger l"
      "l' = l1\<lparr>last_real_kind := Some (Punct Semicolon), last_token_is_asi_trigger := False\<rparr>"
      "r = Some (virtual_semicolon l)"
  | (eof) "scans (\<lambda>_. True) l l'" "at_end l'" "r = Some (make_eof l')"
      "last_token_is_asi_trigger l \<longrightarrow> line_no l = line_no l'"
  | (token) l1 l3 k where "scans (\<lambda>_. True) l l1" "last_token_is_asi_trigger l \<longrightarrow> line_no l = line_no l1"
      "\<not> at_end l1" "source l1 ! pos l1 \<noteq> newline" "scans not_newline (advance (mark_start l1)) l3"
      "lex_from (pos l1) (source l1 ! pos l1) (advance (mark_start l1)) = (l3, Some (make_token l3 k (pos l1)))"
      "r = Some (make_token l3 k (pos l1))" "k \<noteq> Eof" "k \<noteq> AsmBlock"
      "l' = note_token (make_token l3 k (pos l1)) l3"
  | (unknown) l1 where "scans (\<lambda>_. True) l l1" "last_token_is_asi_trigger l \<longrightarrow> line_no l = line_no l1"
      "\<not> at_end l1" "source l1 ! pos l1 \<noteq> newline" "scans not_newline (advance (mark_start l1)) l'" "r = None"
proof -
  obtain l1 c where s: "skip_whitespace_and_comments l = (l1, c)" by fastforce
  note s1 = skip_whitespace_scans [OF s]
  have trig: "last_token_is_asi_trigger l1 = last_token_is_asi_trigger l" "last_token_end l1 = last_token_end l"
    using scans_fields [OF s1(1)] by simp_all
  show thesis
  proof (cases "c \<and> last_token_is_asi_trigger l1")
    case True
    then show thesis
      using assms s s1 trig by (intro semicolon) (auto simp: lex_token_def virtual_semicolon_def)
  next
    case False
    then have same: "last_token_is_asi_trigger l \<longrightarrow> line_no l = line_no l1"
      using s1 trig scans_line_mono [OF s1(1)] by auto
    show thesis
    proof (cases "at_end l1")
      case True
      then show thesis
        using assms s s1 False same by (intro eof) (auto simp: lex_token_def)
    next
      case e: False
      obtain l3 t where f: "lex_from (pos l1) (source l1 ! pos l1) (advance (mark_start l1)) = (l3, t)"
        by fastforce
      note sc = lex_from_lexes [OF f]
      have lt: "(l', r) = (case t of None \<Rightarrow> (l3, None) | Some t \<Rightarrow> (note_token t l3, Some t))"
        using assms s False e f by (cases t) (auto simp: lex_token_def mark_start_def Let_def)
      have nl: "source l1 ! pos l1 \<noteq> newline"
        using skip_whitespace_not_newline [OF s e] .
      show thesis
      proof (cases t)
        case None
        then show thesis using lt sc s1 same e nl by (intro unknown) auto
      next
        case (Some t')
        then obtain k where "t' = make_token l3 k (pos l1)" "k \<noteq> Eof" "k \<noteq> AsmBlock"
          using sc by auto
        then show thesis
          using lt sc s1 same e nl Some f by (intro token [of l1 l3 k]) auto
      qed
    qed
  qed
qed

section \<open>Progress\<close>

text \<open>The cursor moved: past at least one character, and not past the end.\<close>

definition moved :: "lexer \<Rightarrow> lexer \<Rightarrow> bool" where
  "moved l l' \<longleftrightarrow> source l' = source l \<and> pos l < pos l' \<and> pos l' \<le> length (source l)"

definition kept :: "lexer \<Rightarrow> lexer \<Rightarrow> bool" where
  "kept l l' \<longleftrightarrow> source l' = source l \<and> pos l \<le> pos l' \<and> (pos l' = pos l \<or> pos l' \<le> length (source l))"

lemma scans_kept: "scans P l l' \<Longrightarrow> kept l l'"
  using scans_fields(1,10) scans_pos_bound by (auto simp: kept_def)

lemma kept_moved: "kept l l' \<Longrightarrow> moved l' l'' \<Longrightarrow> moved l l''"
  by (auto simp: kept_def moved_def)

lemma moved_kept: "moved l l' \<Longrightarrow> kept l' l'' \<Longrightarrow> moved l l''"
  by (auto simp: kept_def moved_def)

lemma advance_moved: "\<not> at_end l \<Longrightarrow> moved l (advance l)"
  by (simp add: moved_def at_end_def)

lemma note_fields [simp]:
  "source (note_token t l) = source l" "pos (note_token t l) = pos l"
  "source (note_asm_block l) = source l" "pos (note_asm_block l) = pos l"
  "fname (note_token t l) = fname l" "fname (note_asm_block l) = fname l"
  by (simp_all add: note_token_def note_asm_block_def)

lemma scanned_moved:
  assumes "scans P l l1" "\<not> at_end l1" "scans Q (advance (mark_start l1)) l3"
  shows "moved l l3"
proof -
  have "moved l1 (advance (mark_start l1))"
    using assms(2) by (simp add: moved_def at_end_def)
  then show ?thesis
    using kept_moved [OF scans_kept [OF assms(1)]] moved_kept scans_kept [OF assms(3)] by blast
qed

lemma lex_token_progress:
  assumes "lex_token l = (l', r)"
  shows "moved l l' \<or> (kept l l' \<and> (\<exists>t. r = Some t \<and> kind t = Eof))"
  using assms
proof (cases rule: lex_token_cases)
  case (semicolon l1)
  have "pos l < pos l1"
    using semicolon(1,2) by (metis scans_same_pos less_irrefl scans_fields(10) le_neq_implies_less)
  then show ?thesis
    using semicolon scans_kept [OF semicolon(1)] by (auto simp: moved_def kept_def)
next
  case eof
  then show ?thesis using scans_kept by (auto simp: make_eof_def)
next
  case (token l1 l3 k)
  then show ?thesis
    using scanned_moved [OF token(1,3,5)] by (simp add: moved_def)
next
  case (unknown l1)
  then show ?thesis using scanned_moved [OF unknown(1,3,5)] by simp
qed

lemma lex_token_awaiting:
  assumes "lex_token l = (l', r)"
  shows "awaiting_asm_expr_body l' = awaiting_asm_expr_body l"
  using assms
  by (cases rule: lex_token_cases) (auto dest!: scans_fields(4) simp: note_token_def)

lemma lex_asm_block_progress:
  assumes "lex_asm_block l = (l', r)"
  shows "if r = None then kept l l' else moved l l'"
  using assms
proof (cases rule: lex_asm_block_cases)
  case none
  then show ?thesis by (simp add: scans_kept)
next
  case (block l1 l2 d)
  have "moved l (advance l1)"
    using kept_moved [OF scans_kept [OF block(1)] advance_moved [OF block(2)]] .
  then have "moved l l2" using moved_kept scans_kept [OF block(6)] by blast
  then show ?thesis
    using block advance_moved [OF block(7)] by (auto simp: moved_def)
qed

lemma after_asm_keyword_kept:
  assumes "after_asm_keyword l ts = (l', ts')"
  shows "kept l l'"
proof -
  obtain l1 r where a: "lex_asm_block l = (l1, r)" by fastforce
  have "kept l l1" using lex_asm_block_progress [OF a] by (auto simp: kept_def moved_def split: if_splits)
  then show ?thesis
    using assms a by (auto simp: after_asm_keyword_def kept_def split: option.splits if_splits)
qed

lemma tokenize_next_moved:
  assumes "tokenize_next l ts = (l', ts', False)"
  shows "moved l l'"
proof -
  obtain l1 r where t: "lex_token l = (l1, r)" by fastforce
  note p = lex_token_progress [OF t]
  show ?thesis
  proof (cases r)
    case None
    then show ?thesis using assms t p by (auto simp: tokenize_next_def)
  next
    case (Some t')
    have k: "kind t' \<noteq> Eof" using assms t Some by (auto simp: tokenize_next_def Let_def split: prod.splits)
    then have "moved l l1" using p Some by auto
    moreover have "kept l1 l'"
      using assms t Some k after_asm_keyword_kept [of l1 "ts @ [t']" l' ts']
      by (auto simp: tokenize_next_def Let_def kept_def split: if_splits prod.splits)
    ultimately show ?thesis by (rule moved_kept)
  qed
qed

lemma tokenize_iteration_moved:
  assumes "tokenize_iteration l ts = (l', ts', False)"
  shows "moved l l'"
proof (cases "awaiting_asm_expr_body l")
  case False
  then show ?thesis using assms tokenize_next_moved by (simp add: tokenize_iteration_def)
next
  case True
  obtain l1 r where a: "lex_asm_block l = (l1, r)" by fastforce
  note p = lex_asm_block_progress [OF a]
  show ?thesis
  proof (cases r)
    case (Some t)
    then show ?thesis using assms True a p by (auto simp: tokenize_iteration_def moved_def)
  next
    case None
    define l2 where "l2 = (let b = asm_header_budget l1 - 1; l2 = l1\<lparr>asm_header_budget := b\<rparr>
      in if b \<le> 0 then l2\<lparr>awaiting_asm_expr_body := False\<rparr> else l2)"
    have "tokenize_next l2 ts = (l', ts', False)"
      using assms True a None by (simp add: tokenize_iteration_def l2_def Let_def)
    from tokenize_next_moved [OF this] have "moved l2 l'" .
    moreover have "kept l l2" using p None by (auto simp: l2_def Let_def kept_def)
    ultimately show ?thesis by (simp add: kept_moved)
  qed
qed

lemma tokenize_iteration_less:
  "tokenize_iteration l ts = (l', ts', False) \<Longrightarrow> length (source l') - pos l' < length (source l) - pos l"
  using tokenize_iteration_moved [of l ts l' ts'] by (auto simp: moved_def)

section \<open>The loop\<close>

function tokenize_loop :: "lexer \<Rightarrow> token list \<Rightarrow> lexer \<times> token list" where
  "tokenize_loop l tokens =
     (case tokenize_iteration l tokens of (l', tokens', ended) \<Rightarrow>
        if ended then (l', tokens') else tokenize_loop l' tokens')"
  by pat_completeness auto
termination
  by (relation "measure (\<lambda>(l, ts). length (source l) - pos l)")
    (simp, simp, metis (full_types) tokenize_iteration_less)

declare tokenize_loop.simps [simp del]

definition tokenize :: "string \<Rightarrow> string \<Rightarrow> diagnostic_engine \<Rightarrow> diagnostic_engine \<times> token list" where
  "tokenize src fn e = (let (l, tokens) = tokenize_loop (LexerImpl src fn e) [] in (engine l, tokens))"

text \<open>A property of the cursor and the tokens that every iteration keeps holds at the end.\<close>

lemma tokenize_loop_invariant:
  assumes "tokenize_loop l ts = (l', ts')" "I l ts"
    and "\<And>l ts l' ts'. I l ts \<Longrightarrow> tokenize_iteration l ts = (l', ts', False) \<Longrightarrow> I l' ts'"
    and "\<And>l ts l' ts'. I l ts \<Longrightarrow> tokenize_iteration l ts = (l', ts', True) \<Longrightarrow> J l' ts'"
  shows "J l' ts'"
  using assms(1,2)
proof (induction l ts rule: tokenize_loop.induct)
  case (1 l ts)
  obtain l1 ts1 b where i: "tokenize_iteration l ts = (l1, ts1, b)" by (cases "tokenize_iteration l ts")
  show ?case
    using 1 i assms(3) [OF 1(3)] assms(4) [OF 1(3)]
    by (cases b) (auto simp: tokenize_loop.simps [of l])
qed

end
