(* ===== verification/Lexer_Tokens.thy ===== *)
theory Lexer_Tokens
  imports Lexer_Loop
begin

text \<open>
  What the lexer promises of the token stream: where each token lies in the source, their order, the one
  end-of-file token, and where semicolons are inserted. All of it is an invariant of the main loop.
\<close>

section \<open>Tokens in their source\<close>

definition located :: "string \<Rightarrow> string \<Rightarrow> source_location \<Rightarrow> bool" where
  "located src fn loc \<longleftrightarrow> filename loc = fn \<and> offset loc \<le> length src
     \<and> line loc = line_of src (offset loc) \<and> column loc = column_of src (offset loc)"

definition virtual :: "token \<Rightarrow> bool" where
  "virtual t \<longleftrightarrow> kind t = Punct Semicolon \<and> lexeme t = []"

text \<open>The position just past a token; the length of an assembly block leaves its closing brace out.\<close>

definition token_end :: "token \<Rightarrow> nat" where
  "token_end t = (if kind t = Eof \<or> virtual t then offset (tloc t)
     else if kind t = AsmBlock then offset (tloc t) + len (tloc t) + 1
     else offset (tloc t) + len (tloc t))"

definition asm_token_ok :: "string \<Rightarrow> token \<Rightarrow> bool" where
  "asm_token_ok src t \<longleftrightarrow>
     (let i = offset (tloc t); n = len (tloc t) in
      0 < n \<and> i + n < length src \<and> src ! i = CHR ''{'' \<and> src ! (i + n) = CHR ''}''
      \<and> lexeme t = substr src (i + 1) (n - 1))"

definition plain_token_ok :: "string \<Rightarrow> token \<Rightarrow> bool" where
  "plain_token_ok src t \<longleftrightarrow>
     (let i = offset (tloc t); n = len (tloc t) in
      0 < n \<and> i + n \<le> length src \<and> lexeme t = substr src i n \<and> newline \<notin> set (lexeme t))"

definition token_ok :: "string \<Rightarrow> string \<Rightarrow> token \<Rightarrow> bool" where
  "token_ok src fn t \<longleftrightarrow> located src fn (tloc t) \<and>
     (if kind t = Eof then lexeme t = [] \<and> offset (tloc t) = length src
      else if kind t = AsmBlock then asm_token_ok src t
      else virtual t \<or> plain_token_ok src t)"

text \<open>Whether the tokens so far can end a statement: by the last one, or by a postfix \<^verbatim>\<open>.*\<close>.\<close>

definition ends_statement :: "token list \<Rightarrow> bool" where
  "ends_statement ts \<longleftrightarrow> ts \<noteq> [] \<and> (is_asi_trigger (kind (last ts))
     \<or> kind (last ts) = Op Star \<and> butlast ts \<noteq> [] \<and> kind (last (butlast ts)) = Punct Dot)"

text \<open>
  How a token may follow the tokens before it: at or after their end; and if it is an inserted semicolon,
  exactly at their end, after tokens that can end a statement. A token that follows an inserted semicolon
  is the end of file or starts on a later line.
\<close>

definition follows :: "token list \<Rightarrow> token \<Rightarrow> bool" where
  "follows ts t \<longleftrightarrow>
     (ts \<noteq> [] \<longrightarrow> token_end (last ts) \<le> offset (tloc t))
     \<and> (virtual t \<longrightarrow> ends_statement ts \<and> offset (tloc t) = token_end (last ts))
     \<and> (ts \<noteq> [] \<and> virtual (last ts) \<longrightarrow> kind t = Eof \<or> line (tloc (last ts)) < line (tloc t))"

fun stream_ok :: "token list \<Rightarrow> token list \<Rightarrow> bool" where
  "stream_ok before [] = True"
| "stream_ok before (t # ts) = (follows before t \<and> stream_ok (before @ [t]) ts)"

lemma stream_ok_append [simp]:
  "stream_ok before (ts @ us) \<longleftrightarrow> stream_ok before ts \<and> stream_ok (before @ ts) us"
  by (induction ts arbitrary: before) auto

section \<open>The invariant\<close>

definition lexer_inv :: "string \<Rightarrow> string \<Rightarrow> lexer \<Rightarrow> token list \<Rightarrow> bool" where
  "lexer_inv src fn l ts \<longleftrightarrow>
     source l = src \<and> fname l = fn \<and> synced l
     \<and> (\<forall>t \<in> set ts. token_ok src fn t \<and> kind t \<noteq> Eof) \<and> stream_ok [] ts
     \<and> (ts \<noteq> [] \<longrightarrow> token_end (last ts) \<le> pos l)
     \<and> last_real_kind l = (if ts = [] then None else Some (kind (last ts)))
     \<and> (last_token_is_asi_trigger l \<longleftrightarrow> ends_statement ts)
     \<and> (ends_statement ts \<longrightarrow> located src fn (last_token_end l) \<and> offset (last_token_end l) = token_end (last ts))
     \<and> (ts \<noteq> [] \<and> virtual (last ts) \<longrightarrow> line (tloc (last ts)) < line_no l)"

text \<open>The cursor may move on, and report, between tokens.\<close>

lemma lexer_inv_scans:
  assumes "lexer_inv src fn l ts" "scans P l l'"
  shows "lexer_inv src fn l' ts"
  using assms(1) scans_fields [OF assms(2)] scans_synced [OF assms(2)] scans_line_mono [OF assms(2)]
  by (auto simp: lexer_inv_def)

lemma lexer_inv_fields:
  assumes "lexer_inv src fn l ts"
  shows "lexer_inv src fn (l\<lparr>awaiting_asm_expr_body := b, asm_header_budget := n\<rparr>) ts"
    "lexer_inv src fn (l\<lparr>asm_header_budget := n\<rparr>) ts" "lexer_inv src fn (l\<lparr>awaiting_asm_expr_body := b\<rparr>) ts"
    "lexer_inv src fn (mark_start l) ts"
  using assms by (auto simp: lexer_inv_def synced_def)

lemma lexer_inv_start: "lexer_inv src fn (LexerImpl src fn e) []"
  by (simp add: lexer_inv_def LexerImpl_def synced_def line_of_def column_of_def ends_statement_def)

lemma located_make_location: "synced l \<Longrightarrow> located (source l) (fname l) (make_location l)"
  by (simp add: located_def make_location_def synced_def)

lemma line_of_mono: "i \<le> j \<Longrightarrow> line_of s i \<le> line_of s j"
  unfolding line_of_def by (metis le_add_diff_inverse take_add filter_append length_append nat_add_left_cancel_le le_add1)

lemma lexer_inv_follows:
  assumes "lexer_inv src fn l ts" "located src fn (tloc t)" "pos l \<le> offset (tloc t)" "\<not> virtual t"
  shows "follows ts t"
proof -
  have "line_no l \<le> line (tloc t)"
    using assms line_of_mono [of "pos l" "offset (tloc t)" src] by (simp add: lexer_inv_def synced_def located_def)
  then show ?thesis using assms by (auto simp: lexer_inv_def follows_def)
qed

lemma ends_statement_snoc:
  "ends_statement (ts @ [t]) \<longleftrightarrow> is_asi_trigger (kind t) \<or> (kind t = Op Star \<and> ts \<noteq> [] \<and> kind (last ts) = Punct Dot)"
  by (auto simp: ends_statement_def)

lemma virtual_semicolon_follows:
  assumes "lexer_inv src fn l ts" "ends_statement ts"
  shows "token_ok src fn (virtual_semicolon l) \<and> follows ts (virtual_semicolon l)"
proof -
  have "\<not> virtual (last ts)" "ts \<noteq> []" using assms(2) by (auto simp: ends_statement_def virtual_def)
  then show ?thesis
    using assms by (auto simp: lexer_inv_def token_ok_def follows_def virtual_semicolon_def virtual_def)
qed

section \<open>Every iteration keeps it\<close>

lemma lexer_inv_semicolon:
  assumes inv: "lexer_inv src fn l ts" and "ends_statement ts"
    and s: "scans P l l1" and "line_no l < line_no l1"
  shows "lexer_inv src fn (l1\<lparr>last_real_kind := Some (Punct Semicolon), last_token_is_asi_trigger := False\<rparr>)
    (ts @ [virtual_semicolon l])"
proof -
  note f = virtual_semicolon_follows [OF assms(1,2)]
  have inv1: "lexer_inv src fn l1 ts" by (rule lexer_inv_scans [OF inv s])
  have "line (tloc (virtual_semicolon l)) \<le> line_no l"
  proof -
    have "offset (last_token_end l) \<le> pos l" "located src fn (last_token_end l)"
      using inv assms(2) by (auto simp: lexer_inv_def ends_statement_def)
    then show ?thesis
      using inv line_of_mono [of "offset (last_token_end l)" "pos l" src]
      by (simp add: virtual_semicolon_def lexer_inv_def located_def synced_def)
  qed
  moreover have "token_end (virtual_semicolon l) \<le> pos l1"
    using inv assms(2) scans_fields(10) [OF s]
    by (auto simp: lexer_inv_def token_end_def virtual_def virtual_semicolon_def ends_statement_def)
  ultimately show ?thesis
    using f inv1 assms(4)
    by (auto simp: lexer_inv_def synced_def ends_statement_snoc virtual_semicolon_def virtual_def)
qed

lemma make_token_ok:
  assumes "synced l1" "source l1 = src" "fname l1 = fn" "\<not> at_end l1" "src ! pos l1 \<noteq> newline"
    and s: "scans not_newline (advance (mark_start l1)) l3" and "k \<noteq> Eof" "k \<noteq> AsmBlock"
  shows "token_ok src fn (make_token l3 k (pos l1)) \<and> \<not> virtual (make_token l3 k (pos l1))
    \<and> token_end (make_token l3 k (pos l1)) = pos l3"
proof -
  note f = scans_fields [OF s]
  have n: "pos l1 < pos l3" "pos l3 \<le> length src"
    using f(10) scans_pos_bound [OF s] assms(1-4) by (auto simp: at_end_def)
  let ?t = "make_token l3 k (pos l1)"
  have loc: "located src fn (tloc ?t)"
    using assms(1-3) f by (simp add: make_token_def start_location_def located_def synced_def)
  have nl: "newline \<notin> set (substr src (pos l1) (pos l3 - pos l1))"
  proof
    assume "newline \<in> set (substr src (pos l1) (pos l3 - pos l1))"
    then obtain i where i: "i < pos l3 - pos l1" "src ! (pos l1 + i) = newline"
      using n by (auto simp: substr_def in_set_conv_nth)
    then show False
      using scans_chars [OF s, of "pos l1 + i"] assms(2,5) less_diff_conv [of i "pos l3" "pos l1"]
      by (cases i) (auto simp: add.commute)
  qed
  have ne: "substr src (pos l1) (pos l3 - pos l1) \<noteq> []" using n by (simp add: substr_def)
  have "plain_token_ok src ?t"
    using n nl f(1) assms(2) by (simp add: plain_token_ok_def make_token_def start_location_def)
  moreover have "\<not> virtual ?t" using ne f(1) assms(2) by (simp add: virtual_def make_token_def)
  ultimately show ?thesis
    using loc n assms(7,8) by (simp add: token_ok_def token_end_def make_token_def start_location_def)
qed

lemma lexer_inv_token:
  assumes inv: "lexer_inv src fn l ts" and s: "scans P l l1" and "\<not> at_end l1" "source l1 ! pos l1 \<noteq> newline"
    and s3: "scans not_newline (advance (mark_start l1)) l3" and k: "k \<noteq> Eof" "k \<noteq> AsmBlock"
  shows "lexer_inv src fn (note_token (make_token l3 k (pos l1)) l3) (ts @ [make_token l3 k (pos l1)])"
proof -
  let ?t = "make_token l3 k (pos l1)"
  have inv1: "lexer_inv src fn l1 ts" by (rule lexer_inv_scans [OF inv s])
  have ok: "token_ok src fn ?t" "\<not> virtual ?t" "token_end ?t = pos l3"
    using make_token_ok [of l1 src fn l3 k] inv1 assms by (auto simp: lexer_inv_def)
  have fol: "follows ts ?t"
    using lexer_inv_follows [OF inv1] ok by (simp add: token_ok_def make_token_def start_location_def)
  have inv3: "lexer_inv src fn l3 ts"
    by (rule lexer_inv_scans [OF lexer_inv_scans [OF lexer_inv_fields(4) [OF inv1] scans_advance1] s3])
      (use assms in \<open>simp_all add: peek_def\<close>)
  have "kind ?t = k" by (simp add: make_token_def)
  then show ?thesis
    using inv3 ok fol k located_make_location [of l3]
    by (auto simp: lexer_inv_def note_token_def synced_def ends_statement_snoc make_location_def)
qed

lemma lexer_inv_asm:
  assumes inv: "lexer_inv src fn l ts" and a: "lex_asm_block l = (l', Some t)"
  shows "lexer_inv src fn (note_asm_block (l'\<lparr>awaiting_asm_expr_body := b\<rparr>)) (ts @ [t]) \<and> kind t = AsmBlock"
  using a
proof (cases rule: lex_asm_block_cases)
  case (block l1 l2 d)
  have inv1: "lexer_inv src fn l1 ts" by (rule lexer_inv_scans [OF inv block(1)])
  have inv2: "lexer_inv src fn l2 ts"
    by (rule lexer_inv_scans [OF lexer_inv_scans [OF inv1 scans_advance1] block(6)]) (use block in auto)
  then have inv': "lexer_inv src fn l' ts"
    unfolding block(9) by (rule lexer_inv_scans [OF _ scans_advance1]) (use block in auto)
  note f = scans_fields [OF block(6)]
  have src: "source l1 = src" "source l2 = src" using inv1 inv2 by (simp_all add: lexer_inv_def)
  have n: "pos l1 < pos l2" "pos l2 < length src" using f(10) block(7) src by (auto simp: at_end_def)
  have t: "kind t = AsmBlock" "tloc t = (make_location l1)\<lparr>len := pos l2 - pos l1\<rparr>"
    "lexeme t = substr src (pos l1 + 1) (pos l2 - pos l1 - 1)"
    using block(10) src by simp_all
  have "asm_token_ok src t"
    using n block(2,3,7,8) src t by (simp add: asm_token_ok_def make_location_def peek_def Let_def)
  moreover have loc: "located src fn (tloc t)"
    using inv1 t located_make_location [of l1] by (simp add: lexer_inv_def located_def make_location_def)
  ultimately have ok: "token_ok src fn t" "\<not> virtual t" "token_end t = pos l'"
    using t n block(9) by (simp_all add: token_ok_def virtual_def token_end_def make_location_def)
  have "follows ts t"
    by (rule lexer_inv_follows [OF inv1 loc]) (use t ok in \<open>simp_all add: make_location_def\<close>)
  then show ?thesis
    using inv' ok t located_make_location [of l']
    by (auto simp: lexer_inv_def note_asm_block_def synced_def ends_statement_snoc make_location_def)
qed simp

lemma after_asm_keyword_inv:
  assumes "lexer_inv src fn l ts" "after_asm_keyword l ts = (l', ts')"
  shows "lexer_inv src fn l' ts'"
proof -
  obtain l1 r where a: "lex_asm_block l = (l1, r)" by fastforce
  show ?thesis
  proof (cases r)
    case None
    then have "lexer_inv src fn l1 ts"
      using a assms(1) by (cases rule: lex_asm_block_cases [OF a]) (auto intro: lexer_inv_scans)
    then show ?thesis
      using assms(2) a None
      by (auto simp: after_asm_keyword_def lexer_inv_fields split: if_splits)
  next
    case (Some t)
    then show ?thesis
      using lexer_inv_asm [OF assms(1), of l1 t "awaiting_asm_expr_body l1"] assms(2) a
      by (auto simp: after_asm_keyword_def)
  qed
qed

text \<open>The invariant of the finished stream.\<close>

definition finished :: "string \<Rightarrow> string \<Rightarrow> token list \<Rightarrow> bool" where
  "finished src fn ts \<longleftrightarrow> ts \<noteq> [] \<and> kind (last ts) = Eof \<and> (\<forall>t \<in> set (butlast ts). kind t \<noteq> Eof)
     \<and> (\<forall>t \<in> set ts. token_ok src fn t) \<and> stream_ok [] ts"

lemma tokenize_next_eof:
  assumes inv: "lexer_inv src fn l ts" and t: "tokenize_next l ts = (l', ts', True)"
  shows "finished src fn ts'"
proof -
  obtain l1 r where lt: "lex_token l = (l1, r)" by fastforce
  with t obtain x where x: "r = Some x" "kind x = Eof"
    by (auto simp: tokenize_next_def Let_def split: option.splits prod.splits)
  from lt x have e: "scans (\<lambda>_. True) l l1" "at_end l1" "x = make_eof l1"
    by (cases rule: lex_token_cases [OF lt];
        auto simp: virtual_semicolon_def make_token_def)+
  have inv1: "lexer_inv src fn l1 ts" by (rule lexer_inv_scans [OF inv e(1)])
  have ok: "token_ok src fn x" "pos l1 = length src" "\<not> virtual x" "tloc x = make_location l1"
    using inv1 e located_make_location [of l1]
    by (auto simp: token_ok_def make_eof_def lexer_inv_def at_end_def synced_def make_location_def virtual_def)
  have ts': "ts' = (if ends_statement ts then ts @ [virtual_semicolon l1] else ts) @ [x]"
    using t lt x inv1 by (auto simp: tokenize_next_def lexer_inv_def)
  show ?thesis
  proof (cases "ends_statement ts")
    case True
    note v = virtual_semicolon_follows [OF inv1 True]
    have "follows (ts @ [virtual_semicolon l1]) x"
      using True inv1 ok x v
      by (auto simp: follows_def token_end_def virtual_semicolon_def virtual_def make_location_def
          lexer_inv_def ends_statement_def)
    then show ?thesis
      using ts' True v inv1 ok x
      by (auto simp: finished_def lexer_inv_def virtual_semicolon_def butlast_append)
  next
    case False
    have "follows ts x"
      by (rule lexer_inv_follows [OF inv1]) (use ok in \<open>auto simp: token_ok_def make_location_def\<close>)
    then show ?thesis
      using ts' False inv1 ok x by (auto simp: finished_def lexer_inv_def)
  qed
qed

lemma tokenize_next_inv:
  assumes inv: "lexer_inv src fn l ts" and t: "tokenize_next l ts = (l', ts', False)"
  shows "lexer_inv src fn l' ts'"
proof -
  obtain l1 r where lt: "lex_token l = (l1, r)" by fastforce
  have asm: "lexer_inv src fn l' ts'"
    if "lexer_inv src fn l1 (ts @ [x])" "r = Some x" "kind x \<noteq> Eof" for x
    using that t lt after_asm_keyword_inv [OF that(1)]
    by (auto simp: tokenize_next_def Let_def split: if_splits prod.splits)
  from lt show ?thesis
  proof (cases rule: lex_token_cases)
    case (semicolon l1')
    have "ends_statement ts" using inv semicolon(3) by (simp add: lexer_inv_def)
    from lexer_inv_semicolon [OF inv this semicolon(1,2)] show ?thesis
      using semicolon by (intro asm) (auto simp: virtual_semicolon_def)
  next
    case eof
    then show ?thesis using t lt by (auto simp: tokenize_next_def make_eof_def Let_def split: prod.splits)
  next
    case (token la l3 k)
    from lexer_inv_token [OF inv token(1,3,4,5,8,9)] show ?thesis
      using token by (intro asm) (auto simp: make_token_def)
  next
    case (unknown la)
    have "lexer_inv src fn (advance (mark_start la)) ts"
      by (rule lexer_inv_scans [OF lexer_inv_fields(4) [OF lexer_inv_scans [OF inv unknown(1)]] scans_advance1])
        (use unknown in \<open>auto simp: peek_def\<close>)
    then show ?thesis
      using unknown t lt lexer_inv_scans [OF _ unknown(5)] by (auto simp: tokenize_next_def)
  qed
qed

lemma tokenize_iteration_cases:
  assumes i: "tokenize_iteration l ts = (l', ts', b)" and inv: "lexer_inv src fn l ts"
  obtains (asm) "lexer_inv src fn l' ts'" "\<not> b"
  | (step) l2 where "lexer_inv src fn l2 ts" "tokenize_next l2 ts = (l', ts', b)"
proof (cases "awaiting_asm_expr_body l")
  case False
  then show thesis using i inv step by (simp add: tokenize_iteration_def)
next
  case True
  obtain l1 r where a: "lex_asm_block l = (l1, r)" by fastforce
  show thesis
  proof (cases r)
    case (Some t)
    then show thesis
      using i inv True a lexer_inv_asm [OF inv, of l1 t] by (intro asm) (auto simp: tokenize_iteration_def)
  next
    case None
    then have "lexer_inv src fn l1 ts"
      by (cases rule: lex_asm_block_cases [OF a]) (auto intro: lexer_inv_scans [OF inv])
    note inv' = lexer_inv_fields(2) [OF this] lexer_inv_fields(3) [OF lexer_inv_fields(2) [OF this]]
    show thesis
      by (rule step [of "let l2 = l1\<lparr>asm_header_budget := asm_header_budget l1 - 1\<rparr>
          in if asm_header_budget l1 \<le> 1 then l2\<lparr>awaiting_asm_expr_body := False\<rparr> else l2"])
        (use i True a None inv' in \<open>auto simp: tokenize_iteration_def Let_def split: if_splits\<close>)
  qed
qed

lemma tokenize_finished: "finished src fn (snd (tokenize src fn e))"
proof -
  obtain l ts where t: "tokenize_loop (LexerImpl src fn e) [] = (l, ts)" by fastforce
  have "finished src fn ts"
    by (rule tokenize_loop_invariant [OF t, where I = "lexer_inv src fn" and J = "\<lambda>_. finished src fn"])
      (auto intro: lexer_inv_start tokenize_next_inv tokenize_next_eof elim: tokenize_iteration_cases)
  then show ?thesis by (simp add: tokenize_def t)
qed

lemma stream_ok_nth: "stream_ok before ts \<Longrightarrow> i < length ts \<Longrightarrow> follows (before @ take i ts) (ts ! i)"
proof (induction ts arbitrary: before i)
  case (Cons t ts)
  then show ?case by (cases i) (auto dest: Cons.IH)
qed simp

section \<open>The promises\<close>

text \<open>A source of two lines and its tokens, for the instances below.\<close>

definition at_location :: "nat \<Rightarrow> nat \<Rightarrow> nat \<Rightarrow> nat \<Rightarrow> source_location" where
  "at_location ln col off n = \<lparr>filename = ''f'', line = ln, column = col, offset = off, len = n\<rparr>"

definition sample_source :: string where
  "sample_source = ''x := 1'' @ [newline] @ ''return x''"

definition sample_tokens :: "token list" where
  "sample_tokens = [
     \<lparr>kind = Identifier, lexeme = ''x'', tloc = at_location 1 1 0 1\<rparr>,
     \<lparr>kind = Op ColonEqual, lexeme = '':='', tloc = at_location 1 3 2 2\<rparr>,
     \<lparr>kind = IntLiteral, lexeme = ''1'', tloc = at_location 1 6 5 1\<rparr>,
     \<lparr>kind = Punct Semicolon, lexeme = [], tloc = at_location 1 7 6 1\<rparr>,
     \<lparr>kind = Kw KwReturn, lexeme = ''return'', tloc = at_location 2 1 7 6\<rparr>,
     \<lparr>kind = Identifier, lexeme = ''x'', tloc = at_location 2 8 14 1\<rparr>,
     \<lparr>kind = Punct Semicolon, lexeme = [], tloc = at_location 2 9 15 1\<rparr>,
     \<lparr>kind = Eof, lexeme = [], tloc = at_location 2 9 15 1\<rparr>]"

lemma sample_run: "snd (tokenize sample_source ''f'' (DiagnosticEngine Map.empty False)) = sample_tokens"
  by code_simp

lemma tokenize_sample:
  "tokenize sample_source ''f'' (DiagnosticEngine Map.empty False) =
   (fst (tokenize sample_source ''f'' (DiagnosticEngine Map.empty False)), sample_tokens)"
  using sample_run by (metis prod.collapse)

text \<open>
  C36: The lexer returns on every input, and its tokens end with the one end-of-file token, which lies at
  the end of the source: no input byte makes it loop or cuts the file short.
\<close>

theorem tokenize_reaches_eof:
  assumes "tokenize src fn e = (e', ts)"
  shows "\<exists>us x. ts = us @ [x] \<and> kind x = Eof \<and> offset (tloc x) = length src \<and> (\<forall>t \<in> set us. kind t \<noteq> Eof)"
proof -
  have "finished src fn ts" using tokenize_finished [of src fn e] assms by simp
  then show ?thesis
    by (intro exI [of _ "butlast ts"] exI [of _ "last ts"])
      (auto simp: finished_def token_ok_def)
qed

theorem tokenize_reaches_eof_witness: "kind (last sample_tokens) = Eof \<and> offset (tloc (last sample_tokens)) = length sample_source"
  using tokenize_reaches_eof [OF tokenize_sample] by (metis last_snoc)

text \<open>
  Every token carries the file name and the offset, line and column at which it starts; the lexeme of
  an ordinary token is the stretch of source at its offset and length and contains no newline; an
  assembly block lies between an opening brace at its offset and a closing brace at its end, and its
  lexeme is the text between them.
\<close>

theorem tokens_are_located:
  assumes "tokenize src fn e = (e', ts)" "t \<in> set ts"
  shows "located src fn (tloc t) \<and>
    (kind t = Eof \<or> virtual t \<or> (if kind t = AsmBlock then asm_token_ok src t else plain_token_ok src t))"
proof -
  have "finished src fn ts" using tokenize_finished [of src fn e] assms by simp
  then have "token_ok src fn t" using assms(2) by (simp add: finished_def)
  then show ?thesis by (auto simp: token_ok_def split: if_splits)
qed

theorem tokens_are_located_witness: "lexeme (sample_tokens ! 4) = substr sample_source 7 6"
  using tokens_are_located [OF tokenize_sample, of "sample_tokens ! 4"]
  by (simp add: sample_tokens_def plain_token_ok_def at_location_def virtual_def)

text \<open>
  C34: Tokens come in source order without overlap. A semicolon is inserted only after a token that can end
  a statement (or a postfix \<^verbatim>\<open>.*\<close>), it is located exactly at that token's end, and what follows it is the
  end of file or a token on a later line.
\<close>

theorem tokens_are_ordered:
  assumes "tokenize src fn e = (e', ts)" "Suc i < length ts"
  shows "token_end (ts ! i) \<le> offset (tloc (ts ! Suc i))
    \<and> (virtual (ts ! Suc i) \<longrightarrow> ends_statement (take (Suc i) ts) \<and> offset (tloc (ts ! Suc i)) = token_end (ts ! i))
    \<and> (virtual (ts ! i) \<longrightarrow> kind (ts ! Suc i) = Eof \<or> line (tloc (ts ! i)) < line (tloc (ts ! Suc i)))"
proof -
  have "stream_ok [] ts" using tokenize_finished [of src fn e] assms by (simp add: finished_def)
  from stream_ok_nth [OF this assms(2)] have "follows (take (Suc i) ts) (ts ! Suc i)" by simp
  moreover have "last (take (Suc i) ts) = ts ! i" "take (Suc i) ts \<noteq> []"
    using assms(2) by (simp_all add: take_Suc_conv_app_nth)
  ultimately show ?thesis by (simp add: follows_def)
qed

theorem tokens_are_ordered_witness: "offset (tloc (sample_tokens ! 3)) = token_end (sample_tokens ! 2)"
  using tokens_are_ordered [OF tokenize_sample, of 2]
  by (simp add: sample_tokens_def virtual_def numeral_nat)

end
