(* ===== verification/Lexer_Asi.thy ===== *)
theory Lexer_Asi
  imports Lexer_Tokens
begin

text \<open>
  Completeness of the automatic semicolon insertion, for sources without inline assembly (the header of an
  assembly expression suspends it).
\<close>

definition asi_follows :: "string \<Rightarrow> token list \<Rightarrow> token \<Rightarrow> bool" where
  "asi_follows src ts t \<longleftrightarrow>
     (ends_statement ts \<longrightarrow> virtual t \<or> kind t \<noteq> Eof \<and> line (tloc t) = line_of src (token_end (last ts)))"

definition asi_stream :: "string \<Rightarrow> token list \<Rightarrow> bool" where
  "asi_stream src ts \<longleftrightarrow> (\<forall>i < length ts. asi_follows src (take i ts) (ts ! i))"

lemma asi_stream_snoc [simp]: "asi_stream src (ts @ [t]) \<longleftrightarrow> asi_stream src ts \<and> asi_follows src ts t"
  by (auto simp: asi_stream_def nth_append less_Suc_eq)

definition no_asm :: "token list \<Rightarrow> bool" where
  "no_asm ts \<longleftrightarrow> (\<forall>t \<in> set ts. kind t \<noteq> Kw KwAsm)"

definition asi_inv :: "string \<Rightarrow> string \<Rightarrow> lexer \<Rightarrow> token list \<Rightarrow> bool" where
  "asi_inv src fn l ts \<longleftrightarrow> lexer_inv src fn l ts \<and>
     (no_asm ts \<longrightarrow> \<not> awaiting_asm_expr_body l \<and> asi_stream src ts
        \<and> (ends_statement ts \<longrightarrow> line_no l = line_of src (token_end (last ts))))"

lemma asm_kept:
  assumes "tokenize_iteration l ts = (l', ts', b)"
  shows "\<exists>us. ts' = ts @ us"
  using assms
  by (auto simp: tokenize_iteration_def tokenize_next_def after_asm_keyword_def Let_def
      split: prod.splits option.splits if_splits)

lemma tokenize_iteration_no_asm:
  assumes i: "tokenize_iteration l ts = (l', ts', b)" and inv: "asi_inv src fn l ts" and na: "no_asm ts'"
  shows "\<not> awaiting_asm_expr_body l' \<and> asi_stream src ts'
    \<and> (\<not> b \<longrightarrow> ends_statement ts' \<longrightarrow> line_no l' = line_of src (token_end (last ts')))"
proof -
  have nat: "no_asm ts" using asm_kept [OF i] na by (auto simp: no_asm_def)
  with inv have li: "lexer_inv src fn l ts" and aw: "\<not> awaiting_asm_expr_body l"
    and st: "asi_stream src ts" and ln: "ends_statement ts \<Longrightarrow> line_no l = line_of src (token_end (last ts))"
    by (auto simp: asi_inv_def)
  have trig: "last_token_is_asi_trigger l = ends_statement ts" using li by (simp add: lexer_inv_def)
  have n: "tokenize_next l ts = (l', ts', b)" using i aw by (simp add: tokenize_iteration_def)
  obtain l1 r where lt: "lex_token l = (l1, r)" by fastforce
  note aw1 = lex_token_awaiting [OF lt]
  have plain: "l' = l1 \<and> ts' = ts @ [t] \<and> \<not> b" if "r = Some t" "kind t \<noteq> Eof" for t
  proof -
    have "kind t \<noteq> Kw KwAsm"
    proof
      assume "kind t = Kw KwAsm"
      then have "t \<in> set ts'"
        using n lt that by (auto simp: tokenize_next_def after_asm_keyword_def Let_def split: prod.splits option.splits if_splits)
      then show False using na \<open>kind t = Kw KwAsm\<close> by (auto simp: no_asm_def)
    qed
    then show ?thesis using n lt that by (auto simp: tokenize_next_def)
  qed
  from lt show ?thesis
  proof (cases rule: lex_token_cases)
    case (semicolon la)
    have "virtual (virtual_semicolon l)" by (simp add: virtual_def virtual_semicolon_def)
    then show ?thesis
      using plain [of "virtual_semicolon l"] semicolon st aw aw1
      by (auto simp: asi_follows_def ends_statement_snoc virtual_semicolon_def)
  next
    case eof
    have v: "virtual (virtual_semicolon l1)" by (simp add: virtual_def virtual_semicolon_def)
    have "last_token_is_asi_trigger l1 = ends_statement ts" using trig scans_fields(6) [OF eof(1)] by simp
    then have "ts' = (if ends_statement ts then ts @ [virtual_semicolon l1] else ts) @ [make_eof l1]"
      "awaiting_asm_expr_body l' = awaiting_asm_expr_body l1" "b"
      using n lt eof by (auto simp: tokenize_next_def make_eof_def split: if_splits)
    then show ?thesis
      using st v aw aw1
      by (auto simp: asi_follows_def ends_statement_snoc virtual_semicolon_def)
  next
    case (token la l3 k)
    let ?t = "make_token l3 k (pos la)"
    have inv1: "lexer_inv src fn la ts" by (rule lexer_inv_scans [OF li token(1)])
    have ok: "token_ok src fn ?t" "\<not> virtual ?t" "token_end ?t = pos l3"
      using make_token_ok [of la src fn l3 k] inv1 token by (auto simp: lexer_inv_def)
    have inv3: "lexer_inv src fn l3 ts"
      by (rule lexer_inv_scans [OF lexer_inv_scans [OF lexer_inv_fields(4) [OF inv1] scans_advance1] token(5)])
        (use token in \<open>simp_all add: peek_def\<close>)
    have l': "l' = note_token ?t l3" "ts' = ts @ [?t]"
      using plain [of ?t] token by (simp_all add: make_token_def)
    have line: "line (tloc ?t) = line_no la"
      using scans_fields(8) [OF token(5)] by (simp add: make_token_def start_location_def)
    have "asi_follows src ts ?t"
      using ln trig token(2,8) line by (auto simp: asi_follows_def make_token_def)
    moreover have "line_no l' = line_of src (token_end ?t)"
      using ok(3) inv3 l' by (simp add: note_token_def lexer_inv_def synced_def)
    ultimately show ?thesis
      using l' st aw aw1 token by simp
  next
    case (unknown la)
    have "l' = l1" "ts' = ts" using n lt unknown by (simp_all add: tokenize_next_def)
    moreover have "line_no l1 = line_no la"
      using line_no_lex_from [OF unknown(5)] unknown(3,4) by (simp add: advance_def)
    ultimately show ?thesis
      using ln trig unknown(2) st aw aw1 by auto
  qed
qed

lemma tokenize_iteration_inv:
  assumes "lexer_inv src fn l ts" "tokenize_iteration l ts = (l', ts', False)"
  shows "lexer_inv src fn l' ts'"
  using assms by (auto elim: tokenize_iteration_cases intro: tokenize_next_inv)

lemma asi_inv_step:
  assumes "asi_inv src fn l ts" "tokenize_iteration l ts = (l', ts', False)"
  shows "asi_inv src fn l' ts'"
  using tokenize_iteration_no_asm [OF assms(2,1)] tokenize_iteration_inv [of src fn l ts l' ts'] assms
  by (simp add: asi_inv_def)

lemma asi_inv_end:
  assumes "asi_inv src fn l ts" "tokenize_iteration l ts = (l', ts', True)"
  shows "no_asm ts' \<longrightarrow> asi_stream src ts'"
  using tokenize_iteration_no_asm [OF assms(2,1)] by simp

lemma tokenize_asi_stream:
  assumes "tokenize src fn e = (e', ts)"
  shows "no_asm ts \<longrightarrow> asi_stream src ts"
proof -
  obtain l where t: "tokenize_loop (LexerImpl src fn e) [] = (l, ts)"
    using assms by (auto simp: tokenize_def split: prod.splits)
  have start: "asi_inv src fn (LexerImpl src fn e) []"
    using lexer_inv_start by (simp add: asi_inv_def asi_stream_def ends_statement_def LexerImpl_def)
  show ?thesis
    by (rule tokenize_loop_invariant [where I = "asi_inv src fn"
          and J = "\<lambda>_ ts. no_asm ts \<longrightarrow> asi_stream src ts", OF t start])
      (fact asi_inv_step asi_inv_end)+
qed

text \<open>
  C33: In a source without inline assembly, semicolon insertion is complete: after a token that can end a
  statement the next token is the inserted semicolon, unless it is an ordinary token on the line where
  the former ended. Together with the ordering theorem this fixes where semicolons are inserted.
\<close>

theorem semicolons_are_inserted:
  assumes "tokenize src fn e = (e', ts)" "\<forall>t \<in> set ts. kind t \<noteq> Kw KwAsm" "Suc i < length ts"
    and "ends_statement (take (Suc i) ts)"
  shows "virtual (ts ! Suc i) \<or> (kind (ts ! Suc i) \<noteq> Eof \<and> line (tloc (ts ! Suc i)) = line_of src (token_end (ts ! i)))"
proof -
  have "asi_follows src (take (Suc i) ts) (ts ! Suc i)"
    using tokenize_asi_stream [OF assms(1)] assms(2,3) by (simp add: no_asm_def asi_stream_def)
  moreover have "last (take (Suc i) ts) = ts ! i"
    using assms(3) by (simp add: take_Suc_conv_app_nth)
  ultimately show ?thesis using assms(4) by (simp add: asi_follows_def)
qed

theorem semicolons_are_inserted_witness:
  "virtual (sample_tokens ! 3)"
  using semicolons_are_inserted [OF tokenize_sample, of 2]
  by (simp add: sample_tokens_def ends_statement_def line_of_def sample_source_def token_end_def virtual_def
      at_location_def numeral_nat)

end
