(* ===== verification/Lexer_Spelling.thy ===== *)
theory Lexer_Spelling
  imports Lexer_Tokens
begin

text \<open>
  Kinds against spellings: what the lexeme of a token of each kind looks like, and the converse, that a
  text of well-spelled lexemes separated by blanks lexes back to them.
\<close>

section \<open>The text ahead\<close>

definition ahead :: "lexer \<Rightarrow> string" where
  "ahead l = drop (pos l) (source l)"

lemma ahead_Cons:
  assumes "ahead l = c # r"
  shows "\<not> at_end l" "peek l = c" "source l ! pos l = c" "ahead (advance l) = r"
    "peek_next l = (case r of [] \<Rightarrow> CHR 0x00 | d # _ \<Rightarrow> d)"
proof -
  have p: "pos l < length (source l)"
    using assms by (metis ahead_def drop_eq_Nil leI list.distinct(1))
  then show "\<not> at_end l" by (simp add: at_end_def)
  have c: "c # r = source l ! pos l # drop (Suc (pos l)) (source l)"
    using assms p by (simp add: ahead_def Cons_nth_drop_Suc)
  then show "peek l = c" "source l ! pos l = c" "ahead (advance l) = r"
    using p by (simp_all add: peek_def at_end_def ahead_def)
  have "r = drop (Suc (pos l)) (source l)" using c by simp
  then show "peek_next l = (case r of [] \<Rightarrow> CHR 0x00 | d # _ \<Rightarrow> d)"
    by (auto simp: peek_next_def Cons_nth_drop_Suc [symmetric] split: list.splits)
qed

lemma ahead_Nil: "ahead l = [] \<longleftrightarrow> at_end l"
  by (simp add: ahead_def at_end_def)

lemma ahead_mark_start [simp]: "ahead (mark_start l) = ahead l"
  by (simp add: ahead_def)

text \<open>The text between two positions of the cursor.\<close>

definition between :: "lexer \<Rightarrow> lexer \<Rightarrow> string" where
  "between l l' = substr (source l) (pos l) (pos l' - pos l)"

lemma between_same [simp]: "between l l = []"
  by (simp add: between_def substr_def)

lemma between_advance:
  assumes "\<not> at_end l" "pos l < pos l'"
  shows "between l l' = source l ! pos l # between (advance l) l'"
  using assms by (simp add: between_def substr_def at_end_def Cons_nth_drop_Suc [symmetric] take_Cons'
      Suc_diff_Suc [symmetric])

lemma between_scans:
  assumes "scans P l l'" "c \<in> set (between l l')"
  shows "P c"
proof -
  obtain i where i: "i < pos l' - pos l" "i < length (source l) - pos l" "c = source l ! (pos l + i)"
    using assms(2) by (auto simp: between_def substr_def in_set_conv_nth)
  then show ?thesis
    using scans_chars [OF assms(1), of "pos l + i"] by (simp add: less_diff_conv add.commute)
qed

lemma match_char_between:
  "match_char c l = (l', b) \<Longrightarrow> source l' = source l \<and> pos l \<le> pos l' \<and> between l l' = (if b then [c] else [])"
  by (auto simp: match_char_def between_advance split: if_splits)

section \<open>Errors stay reported\<close>

text \<open>A repeat is only suppressed when an error with its key is held, so every report leaves the engine with an error.\<close>

lemma report_error_has_errors:
  assumes "engine_ok e"
  shows "has_errors (report_error e st loc m)"
proof (cases "error_count e < MAX_ERRORS \<and> report_key Error st loc m \<notin> set (reported e)")
  case True
  then show ?thesis by (simp add: has_errors_def report_error_def report_fields)
next
  case False
  then have same: "report_error e st loc m = e" unfolding report_error_def by (intro report_ignored) blast
  show ?thesis
  proof (cases "error_count e < MAX_ERRORS")
    case True
    then have "report_key Error st loc m \<in> set (map diagnostic_key (diagnostics e))" using False assms by (simp add: engine_ok_def)
    then obtain d where d: "d \<in> set (diagnostics e)" "diagnostic_key d = report_key Error st loc m" by auto
    then have "level d = Error" by (cases "level d") (simp_all add: diagnostic_key_def report_key_def)
    then have "filter (\<lambda>d. level d = Error) (diagnostics e) \<noteq> []" using d(1) by (auto simp: filter_empty_conv)
    then show ?thesis using assms same by (simp add: has_errors_def engine_ok_def)
  qed (use same in \<open>simp add: has_errors_def MAX_ERRORS_def\<close>)
qed

definition keeps_errors :: "lexer \<Rightarrow> lexer \<Rightarrow> bool" where
  "keeps_errors l l' \<longleftrightarrow> (engine_ok (engine l) \<longrightarrow> engine_ok (engine l') \<and> (has_errors (engine l) \<longrightarrow> has_errors (engine l')))"

lemma keeps_errors_refl: "engine l' = engine l \<Longrightarrow> keeps_errors l l'"
  by (simp add: keeps_errors_def)

lemma keeps_errors_trans: "keeps_errors a b \<Longrightarrow> keeps_errors b c \<Longrightarrow> keeps_errors a c"
  by (auto simp: keeps_errors_def)

lemma lex_error_keeps: "keeps_errors l (lex_error loc m l)"
  using report_error_has_errors [of "engine l"] report_engine_ok [of "engine l"]
  by (simp add: keeps_errors_def lex_error_def report_error_def)

lemma scans_keeps_errors: "scans P l l' \<Longrightarrow> keeps_errors l l'"
proof (induction rule: scans.induct)
  case (scans_advance l l')
  then show ?case by (simp add: keeps_errors_def)
next
  case (scans_report loc m l l')
  then show ?case using keeps_errors_trans [OF lex_error_keeps] by blast
qed (rule keeps_errors_refl, rule refl)

lemma engine_mark_start: "engine (mark_start l) = engine l"
  by (simp add: mark_start_def)

section \<open>Spellings\<close>

definition ident_char :: "char \<Rightarrow> bool" where
  "ident_char c \<longleftrightarrow> is_alpha_numeric c \<or> c = underscore"

definition identifier_text :: "string \<Rightarrow> bool" where
  "identifier_text w \<longleftrightarrow> w \<noteq> [] \<and> (is_alpha (hd w) \<or> hd w = underscore) \<and> list_all ident_char w"

definition base_digit :: "char \<Rightarrow> char \<Rightarrow> bool" where
  "base_digit b c \<longleftrightarrow> c = underscore
     \<or> (if b = CHR ''x'' \<or> b = CHR ''X'' then is_hex_digit c
        else if b = CHR ''b'' \<or> b = CHR ''B'' then c = CHR ''0'' \<or> c = CHR ''1''
        else is_octal_digit c)"

definition decimal_text :: "string \<Rightarrow> bool" where
  "decimal_text w \<longleftrightarrow> w \<noteq> [] \<and> is_digit (hd w) \<and> list_all (\<lambda>c. is_digit c \<or> c = underscore) w"

definition based_text :: "string \<Rightarrow> bool" where
  "based_text w \<longleftrightarrow> (case w of z # b # ds \<Rightarrow> z = CHR ''0'' \<and> b \<in> set ''xXbBoO'' \<and> list_all (base_digit b) ds \<and> (\<exists>c \<in> set ds. c \<noteq> underscore)
     | _ \<Rightarrow> False)"

text \<open>A base prefix without a digit, which \<^verbatim>\<open>lex_hex_number\<close> and its siblings report.\<close>

definition bare_prefix :: "string \<Rightarrow> bool" where
  "bare_prefix w \<longleftrightarrow> (case w of z # b # ds \<Rightarrow> z = CHR ''0'' \<and> b \<in> set ''xXbBoO'' \<and> list_all (\<lambda>c. c = underscore) ds
     | _ \<Rightarrow> False)"

fun spelled :: "token_kind \<Rightarrow> string \<Rightarrow> bool" where
  "spelled (Kw k) w = (w = keyword_spelling k)"
| "spelled (Prim k) w = (w = prim_spelling k)"
| "spelled (Op k) w = (w = operator_spelling k)"
| "spelled (Punct k) w = (w = punctuation_spelling k)"
| "spelled Identifier w = (identifier_text w \<and> w \<notin> fst ` set keyword_table)"
| "spelled IntLiteral w = (decimal_text w \<or> based_text w)"
| "spelled FloatLiteral w = (w \<noteq> [] \<and> (is_digit (hd w) \<or> hd w = CHR ''.''))"
| "spelled StringLiteral w = (w \<noteq> [] \<and> hd w = quote)"
| "spelled CharLiteral w = (w \<noteq> [] \<and> hd w = apostrophe)"
| "spelled AsmBlock w = False"
| "spelled Eof w = False"

lemma keyword_table_spelled: "(w, k) \<in> set keyword_table \<Longrightarrow> spelled k w"
  by (auto simp: keyword_table_def)

lemma match_double_between:
  "match_double c d s l = (l', k) \<Longrightarrow> source l' = source l \<and> pos l \<le> pos l' \<and>
   (k = d \<and> between l l' = [c] \<or> k = s \<and> between l l' = [])"
  by (auto simp: match_double_def split: prod.splits if_splits dest!: match_char_between)

lemma match_first_between:
  "match_first alts k l = (l', k') \<Longrightarrow> source l' = source l \<and> pos l \<le> pos l' \<and>
   ((\<exists>(c, p) \<in> set alts. k' = Op p \<and> between l l' = [c]) \<or> k' = k \<and> between l l' = [])"
proof (induction alts k l rule: match_first.induct)
  case (2 c p alts k l)
  obtain l1 b where m: "match_char c l = (l1, b)" by fastforce
  show ?case
    using 2 match_char_between [OF m] m by (cases b) auto
qed simp

lemma between_append:
  assumes "source l1 = source l" "pos l \<le> pos l1" "pos l1 \<le> pos l2"
  shows "between l l2 = between l l1 @ between l1 l2"
proof -
  have "pos l2 - pos l = (pos l1 - pos l) + (pos l2 - pos l1)" using assms by simp
  then have "between l l2 = take (pos l1 - pos l) (ahead l) @ take (pos l2 - pos l1) (drop (pos l1 - pos l) (ahead l))"
    by (simp add: between_def substr_def ahead_def take_add)
  then show ?thesis
    using assms by (simp add: between_def substr_def ahead_def)
qed

lemma symbol_kind_spelled:
  assumes "symbol_kind ch l = Some (l', k)"
  shows "spelled k (ch # between l l')"
proof -
  let ?ok = "\<lambda>x r. spelled (snd r) (x # between l (fst r))"
  have dots: "?ok (CHR ''.'') (lex_dots l)"
  proof -
    obtain l1 b where m: "match_char (CHR ''.'') l = (l1, b)" by fastforce
    obtain l2 k2 where d: "match_double (CHR ''.'') (Op DotDotDot) (Op DotDot) l1 = (l2, k2)" by fastforce
    show ?thesis
      using match_char_between [OF m] match_double_between [OF d] between_append [of l1 l l2]
      by (auto simp: lex_dots_def m d)
  qed
  have angle: "?ok x (lex_angle c p1 p2 p3 p4 l)"
    if "spelled (Op p1) (x # c # ''='')" "spelled (Op p2) [x, c]" "spelled (Op p3) (x # ''='')"
      "spelled (Op p4) [x]" for x c p1 p2 p3 p4
  proof -
    obtain l1 b where m: "match_char c l = (l1, b)" by fastforce
    obtain l2 k2 where d: "match_double (CHR ''='') (Op (if b then p1 else p3)) (Op (if b then p2 else p4)) l1 = (l2, k2)"
      by fastforce
    show ?thesis
      using that match_char_between [OF m] match_double_between [OF d] between_append [of l1 l l2] d
      by (auto simp: lex_angle_def m split: if_splits)
  qed
  have double: "?ok x (match_double c d s l)" if "spelled d [x, c]" "spelled s [x]" for x c d s
    using that match_double_between [of c d s l] by (cases "match_double c d s l") auto
  have alts: "?ok x (match_first as p l)" if "list_all (\<lambda>(c, p). spelled (Op p) [x, c]) as" "spelled p [x]" for x as p
    using that match_first_between [of as p l] by (cases "match_first as p l") (auto simp: list_all_iff)
  have "pred_option (?ok ch) (symbol_kind ch l)"
    by (simp add: symbol_kind_def dots angle double alts del: match_first.simps)
  then show ?thesis using assms by simp
qed

text \<open>A lexeme of its kind, or a base prefix without digits, reported.\<close>

definition lexed :: "lexer \<Rightarrow> token_kind \<Rightarrow> string \<Rightarrow> bool" where
  "lexed l k w \<longleftrightarrow> spelled k w \<or> (k = IntLiteral \<and> bare_prefix w \<and> has_errors (engine l))"

lemma scan_digits_saw:
  "scan_digits P b l = (l1, b') \<Longrightarrow> b' \<longleftrightarrow> b \<or> (\<exists>c \<in> set (between l l1). c \<noteq> underscore)"
proof (induction P b l rule: scan_digits.induct)
  case (1 P b l)
  show ?case
  proof (cases "\<not> at_end l \<and> (P (peek l) \<or> peek l = underscore)")
    case True
    then have s: "scan_digits P (b \<or> peek l \<noteq> underscore) (advance l) = (l1, b')"
      using 1(2) scan_digits.simps [of P b l] by simp
    have "pos l < pos l1" using scans_fields(10) [OF scans_scan_digits [of P "\<lambda>_. True" "advance l" "b \<or> peek l \<noteq> underscore"]] s by simp
    then have "between l l1 = peek l # between (advance l) l1"
      using True between_advance [of l l1] by (simp add: peek_def)
    then show ?thesis using 1(1) [OF True s] by auto
  next
    case False
    then have "scan_digits P b l = (l, b)" unfolding scan_digits.simps [of P b l] by (rule if_not_P)
    then show ?thesis using 1(2) by simp
  qed
qed

lemma based_number_between:
  assumes "lex_based_number P start l = (l', t)" "\<not> at_end l" "\<And>c. P c \<Longrightarrow> base_digit (peek l) c" "engine_ok (engine l)"
  shows "kind t = IntLiteral \<and> (\<exists>ds. between l l' = peek l # ds \<and> list_all (base_digit (peek l)) ds \<and>
    (list_all (\<lambda>c. c = underscore) ds \<longrightarrow> has_errors (engine l')))"
proof -
  obtain l1 b where s: "scan_digits P False (advance l) = (l1, b)" by fastforce
  have sc: "scans (base_digit (peek l)) (advance l) l1"
    using scans_scan_digits [of P "base_digit (peek l)" "advance l" False] s assms(3)
    by (auto simp: base_digit_def)
  have l': "l' = (if b then l1 else lex_error (make_location l1) ''missing digits after integer base prefix'' l1)"
    and k: "kind t = IntLiteral"
    using assms(1) s by (auto simp: lex_based_number_def Let_def make_token_def split: if_splits)
  have "between l l' = peek l # between (advance l) l1"
  proof -
    have "pos l' = pos l1" using l' by auto
    moreover have "pos l < pos l1" using scans_fields(10) [OF sc] by simp
    ultimately show ?thesis
      using assms(2) between_advance [of l l'] by (simp add: peek_def between_def)
  qed
  moreover have "engine_ok (engine l1)" using scans_keeps_errors [OF sc] assms(4) by (simp add: keeps_errors_def)
  then have "has_errors (engine l')" if "\<not> b"
    using that report_error_has_errors by (simp add: l' lex_error_def)
  then have "list_all (\<lambda>c. c = underscore) (between (advance l) l1) \<longrightarrow> has_errors (engine l')"
    using scan_digits_saw [OF s] by (auto simp: list_all_iff)
  ultimately show ?thesis
    using k between_scans [OF sc] by (auto simp: list_all_iff)
qed

lemma number_spelled:
  assumes "lex_number start l = (l', t)" "is_digit ch" "source l ! start = ch" "engine_ok (engine l)"
  shows "lexed l' (kind t) (ch # between l l')"
proof -
  have digits: "between l (skip_digits l) = w \<Longrightarrow> list_all (\<lambda>c. is_digit c \<or> c = underscore) w" for w
    using between_scans [OF scans_skip_digits [of "\<lambda>c. is_digit c \<or> c = underscore" l]]
    by (auto simp: list_all_iff)
  have decimal: "lexed l' (kind t) (ch # between l l')" if "lex_decimal_number start l = (l', t)"
    using that assms(2) digits
    by (auto simp: lexed_def lex_decimal_number_def Let_def make_token_def decimal_text_def split: if_splits)
  have based: "lexed l' (kind t) (ch # between l l')"
    if "lex_based_number P start l = (l', t)" "pos l < length (source l)" "peek l \<in> set ''xXbBoO''" "ch = CHR ''0''"
      "\<And>c. P c \<Longrightarrow> base_digit (peek l) c" for P
    using based_number_between [OF that(1) _ that(5) assms(4)] that(2,3,4)
    by (auto simp: lexed_def at_end_def based_text_def bare_prefix_def list_all_iff)
  show ?thesis
    using assms(1,3) decimal
      based [of is_hex_digit] based [of "\<lambda>c. c = CHR ''0'' \<or> c = CHR ''1''"] based [of is_octal_digit]
    by (auto simp: lex_number_def Let_def lex_hex_number_def lex_binary_number_def lex_octal_number_def
        base_digit_def split: if_splits)
qed

lemma map_of_keyword_None: "map_of keyword_table w = None \<Longrightarrow> w \<notin> fst ` set keyword_table"
  by (simp add: map_of_eq_None_iff)

lemma identifier_spelled:
  assumes "lex_identifier_or_keyword start l = (l', t)" "is_alpha ch \<or> ch = underscore"
    "\<And>l'. pos l \<le> pos l' \<Longrightarrow> substr (source l) start (pos l' - start) = ch # between l l'"
  shows "spelled (kind t) (ch # between l l')"
proof -
  let ?P = "\<lambda>c. is_alpha_numeric c \<or> c = underscore"
  have l': "l' = advance_while ?P l"
    using assms(1) by (auto simp: lex_identifier_or_keyword_def Let_def split: option.splits)
  have "scans ?P l l'" unfolding l' by (rule scans_advance_while)
  note b = between_scans [OF this] and f = scans_fields [OF this]
  have "identifier_text (ch # between l l')"
    using b assms(2) by (auto simp: identifier_text_def ident_char_def list_all_iff is_alpha_numeric_def)
  then show ?thesis
    using assms(1) assms(3) [OF f(10)] f(1) l' keyword_table_spelled map_of_keyword_None
    by (auto simp: lex_identifier_or_keyword_def Let_def make_token_def split: option.splits
        dest!: map_of_SomeD)
qed

lemma map_prod_Some: "map_prod id Some r = (l', Some t) \<longleftrightarrow> r = (l', t)"
  by (cases r) simp

lemma lex_from_spelled:
  assumes f: "lex_from start ch l = (l', Some t)" and "source l ! start = ch"
    "\<And>l'. pos l \<le> pos l' \<Longrightarrow> substr (source l) start (pos l' - start) = ch # between l l'" "engine_ok (engine l)"
  shows "lexed l' (kind t) (ch # between l l')"
proof -
  have kinds: "kind (snd (lex_fractional_number start l)) = FloatLiteral"
    "kind (snd (lex_string start l)) = StringLiteral" "kind (snd (lex_char start l)) = CharLiteral"
    by (simp_all add: lex_fractional_number_def lex_string_def lex_char_def Let_def unterminated_char_def
        close_char_def multi_byte_char_def make_token_def)
  have sym: "spelled (kind t) (ch # between l l')" if "lex_symbol start ch l = (l', Some t)"
    using that symbol_kind_spelled [of ch l]
    by (auto simp: lex_symbol_def make_token_def split: option.splits)
  show ?thesis
    using f kinds sym number_spelled [of start l _ _ ch] identifier_spelled [of start l _ _ ch] assms(2,3,4)
    by (auto simp: lex_from_def map_prod_Some lexed_def split: if_splits)
qed

lemma make_token_spelled:
  assumes "\<not> at_end l1" "scans not_newline (advance (mark_start l1)) l3"
    "lex_from (pos l1) (source l1 ! pos l1) (advance (mark_start l1)) = (l3, Some (make_token l3 k (pos l1)))"
    "engine_ok (engine l1)"
  shows "lexed l3 k (lexeme (make_token l3 k (pos l1)))"
proof -
  let ?l = "advance (mark_start l1)"
  have cut: "substr (source ?l) (pos l1) (pos l' - pos l1) = source l1 ! pos l1 # between ?l l'"
    if "pos ?l \<le> pos l'" for l'
    using between_advance [of "mark_start l1" l'] assms(1) that by (simp add: between_def)
  have "lexed l3 k (source l1 ! pos l1 # between ?l l3)"
    using lex_from_spelled [OF assms(3) _ cut] assms(4) by (simp add: make_token_def engine_mark_start)
  moreover have "lexeme (make_token l3 k (pos l1)) = source l1 ! pos l1 # between ?l l3"
    using cut [OF scans_fields(10) [OF assms(2)]] scans_fields(1) [OF assms(2)] by (simp add: make_token_def)
  ultimately show ?thesis by simp
qed

definition well_spelled :: "lexer \<Rightarrow> token \<Rightarrow> bool" where
  "well_spelled l t \<longleftrightarrow> kind t = Eof \<or> kind t = AsmBlock \<or> virtual t \<or> lexed l (kind t) (lexeme t)"

lemma well_spelled_virtual [simp]: "well_spelled l (virtual_semicolon m)"
  by (simp add: well_spelled_def virtual_def virtual_semicolon_def)


text \<open>The invariant of the loop, and how it passes along.\<close>

definition spelling_ok :: "lexer \<Rightarrow> token list \<Rightarrow> bool" where
  "spelling_ok l ts \<longleftrightarrow> engine_ok (engine l) \<and> (\<forall>t \<in> set ts. well_spelled l t)"

lemma spelling_ok_same: "spelling_ok l ts \<Longrightarrow> engine l' = engine l \<Longrightarrow> spelling_ok l' ts"
  by (simp add: spelling_ok_def well_spelled_def lexed_def)

lemma spelling_ok_snoc: "spelling_ok l ts \<Longrightarrow> well_spelled l t \<Longrightarrow> spelling_ok l (ts @ [t])"
  by (simp add: spelling_ok_def)

lemma spelling_ok_keeps: "spelling_ok l ts \<Longrightarrow> keeps_errors l l' \<Longrightarrow> spelling_ok l' ts"
  by (auto simp: spelling_ok_def keeps_errors_def well_spelled_def lexed_def)

lemma lex_token_spelled:
  assumes "lex_token l = (l', r)" "engine_ok (engine l)"
  shows "keeps_errors l l'" "r = Some t \<Longrightarrow> well_spelled l' t"
proof -
  have m: "keeps_errors l l3" if "scans (\<lambda>_. True) l l1" "scans not_newline (advance (mark_start l1)) l3" for l1 l3
    using scans_keeps_errors [OF that(1)] scans_keeps_errors [OF that(2)] by (simp add: keeps_errors_def engine_mark_start)
  have "keeps_errors l l' \<and> (r = Some t \<longrightarrow> well_spelled l' t)"
    using assms(1)
  proof (cases rule: lex_token_cases)
    case (semicolon l1)
    then show ?thesis using scans_keeps_errors [OF semicolon(1)] by (auto simp: keeps_errors_def)
  next
    case eof
    then show ?thesis using scans_keeps_errors [OF eof(1)] by (auto simp: well_spelled_def make_eof_def)
  next
    case (token l1 l3 k)
    have "engine_ok (engine l1)" using scans_keeps_errors [OF token(1)] assms(2) by (simp add: keeps_errors_def)
    then have "lexed l3 k (lexeme (make_token l3 k (pos l1)))" by (rule make_token_spelled [OF token(3,5,6)])
    then show ?thesis
      using m [OF token(1,5)] token(7,10) by (auto simp: well_spelled_def lexed_def make_token_def note_token_def keeps_errors_def)
  next
    case (unknown l1)
    then show ?thesis using m [OF unknown(1,5)] by simp
  qed
  then show "keeps_errors l l'" "r = Some t \<Longrightarrow> well_spelled l' t" by simp_all
qed

lemma lex_asm_block_spelled:
  assumes "lex_asm_block l = (l', r)"
  shows "keeps_errors l l'" "r = Some t \<Longrightarrow> well_spelled l'' t"
proof -
  have "keeps_errors l l' \<and> (r = Some t \<longrightarrow> kind t = AsmBlock)"
    using assms
  proof (cases rule: lex_asm_block_cases)
    case none
    then show ?thesis using scans_keeps_errors by simp
  next
    case (block l1 l2 d)
    then show ?thesis using scans_keeps_errors [OF block(1)] scans_keeps_errors [OF block(6)] by (auto simp: keeps_errors_def)
  qed
  then show "keeps_errors l l'" "r = Some t \<Longrightarrow> well_spelled l'' t" by (simp_all add: well_spelled_def)
qed

lemma after_asm_keyword_spelled:
  assumes "after_asm_keyword l ts = (l', ts')" "spelling_ok l ts"
  shows "spelling_ok l' ts'"
proof -
  obtain l1 r where a: "lex_asm_block l = (l1, r)" by fastforce
  have ok: "spelling_ok l1 ts" using spelling_ok_keeps [OF assms(2) lex_asm_block_spelled(1) [OF a]] .
  show ?thesis
  proof (cases r)
    case None
    then have "engine l' = engine l1" "ts' = ts" using assms(1) a by (auto simp: after_asm_keyword_def split: if_splits)
    then show ?thesis using spelling_ok_same [OF ok] by simp
  next
    case (Some t)
    then have "engine l' = engine l1" "ts' = ts @ [t]" using assms(1) a by (auto simp: after_asm_keyword_def note_asm_block_def)
    then show ?thesis
      using spelling_ok_same [OF spelling_ok_snoc [OF ok lex_asm_block_spelled(2) [OF a Some]]] by simp
  qed
qed

lemma tokenize_next_spelled:
  assumes "tokenize_next l ts = (l', ts', b)" "spelling_ok l ts"
  shows "spelling_ok l' ts'"
proof -
  obtain l1 r where t: "lex_token l = (l1, r)" by fastforce
  have e: "engine_ok (engine l)" using assms(2) by (simp add: spelling_ok_def)
  have ok: "spelling_ok l1 ts" by (rule spelling_ok_keeps [OF assms(2) lex_token_spelled(1) [OF t e]])
  show ?thesis
  proof (cases r)
    case None
    then show ?thesis using assms(1) ok t by (simp add: tokenize_next_def)
  next
    case (Some u)
    have u: "well_spelled l1 u" by (rule lex_token_spelled(2) [OF t e Some])
    define s2 where "s2 = (if kind u = Eof \<and> last_token_is_asi_trigger l1
         then (l1\<lparr>last_real_kind := Some (Punct Semicolon), last_token_is_asi_trigger := False\<rparr>, ts @ [virtual_semicolon l1])
         else (l1, ts))"
    obtain l2 ts2 where s2: "s2 = (l2, ts2)" by fastforce
    have "engine l2 = engine l1" "spelling_ok l1 (ts2 @ [u])"
      using s2 ok spelling_ok_snoc [OF _ u] spelling_ok_snoc [OF ok well_spelled_virtual] by (auto simp: s2_def split: if_splits)
    then have "spelling_ok l2 (ts2 @ [u])" using spelling_ok_same by blast
    moreover have "(l', ts') = (if kind u = Kw KwAsm then after_asm_keyword l2 (ts2 @ [u]) else (l2, ts2 @ [u]))"
      using assms(1) t Some s2 by (simp add: tokenize_next_def s2_def [symmetric] Let_def split: prod.splits if_splits)
    ultimately show ?thesis using after_asm_keyword_spelled [of l2 "ts2 @ [u]" l' ts'] by (cases "kind u = Kw KwAsm") simp_all
  qed
qed

lemma tokenize_iteration_spelled:
  assumes "tokenize_iteration l ts = (l', ts', b)" "spelling_ok l ts"
  shows "spelling_ok l' ts'"
proof (cases "awaiting_asm_expr_body l")
  case False
  then show ?thesis using assms tokenize_next_spelled by (simp add: tokenize_iteration_def)
next
  case True
  obtain l1 r where a: "lex_asm_block l = (l1, r)" by fastforce
  have ok: "spelling_ok l1 ts" using spelling_ok_keeps [OF assms(2) lex_asm_block_spelled(1) [OF a]] .
  show ?thesis
  proof (cases r)
    case None
    define l2 where "l2 = (let budget = asm_header_budget l1 - 1; l2 = l1\<lparr>asm_header_budget := budget\<rparr>
      in if budget \<le> 0 then l2\<lparr>awaiting_asm_expr_body := False\<rparr> else l2)"
    have "engine l2 = engine l1" by (simp add: l2_def Let_def)
    moreover have "tokenize_next l2 ts = (l', ts', b)" using assms(1) True a None by (simp add: tokenize_iteration_def l2_def Let_def)
    ultimately show ?thesis using tokenize_next_spelled spelling_ok_same [OF ok] by blast
  next
    case (Some t)
    then have "engine l' = engine l1" "ts' = ts @ [t]" using assms(1) True a by (auto simp: tokenize_iteration_def note_asm_block_def)
    then show ?thesis
      using spelling_ok_same [OF spelling_ok_snoc [OF ok lex_asm_block_spelled(2) [OF a Some]]] by simp
  qed
qed

text \<open>
  C35: The kind of a token agrees with its lexeme: a keyword, operator or punctuation token has exactly its
  spelling, an identifier is a letter or underscore followed by letters, digits and underscores and is
  no keyword, an integer literal is a digit followed by digits and underscores, or a base prefix with digits of that
  base and underscores among which there is a digit, and the other literals start with their marker. The one exception
  is a base prefix without a digit, and then the engine ends with an error.
\<close>

theorem tokens_are_spelled:
  assumes "tokenize src fn e = (e', ts)" "t \<in> set ts" "engine_ok e"
  shows "kind t = Eof \<or> kind t = AsmBlock \<or> virtual t \<or> spelled (kind t) (lexeme t) \<or>
    (kind t = IntLiteral \<and> bare_prefix (lexeme t) \<and> has_errors e')"
proof -
  obtain l where t: "tokenize_loop (LexerImpl src fn e) [] = (l, ts)" and e': "e' = engine l"
    using assms(1) by (auto simp: tokenize_def split: prod.splits)
  have "spelling_ok (LexerImpl src fn e) []" using assms(3) by (simp add: spelling_ok_def LexerImpl_def)
  then have "spelling_ok l ts"
    by (rule tokenize_loop_invariant [OF t]) (use tokenize_iteration_spelled in blast)+
  then show ?thesis using assms(2) e' by (auto simp: spelling_ok_def well_spelled_def lexed_def)
qed

theorem tokens_are_spelled_witness: "spelled (Kw KwReturn) (lexeme (sample_tokens ! 4))"
  using tokens_are_spelled [OF tokenize_sample, of "sample_tokens ! 4"]
  by (simp add: sample_tokens_def virtual_def)

end
