(* ===== verification/Lexer_Roundtrip.thy ===== *)
theory Lexer_Roundtrip
  imports Lexer_Spelling
begin

text \<open>
  The converse of the spelling facts: words of known kinds, printed with a blank before each, lex back to
  exactly those kinds and words, without a diagnostic.
\<close>

section \<open>Scanning a known text\<close>

lemma advance_while_ahead:
  assumes "ahead l = u @ c # r" "list_all P u" "\<not> P c"
  shows "ahead (advance_while P l) = c # r \<and> engine (advance_while P l) = engine l"
  using assms
proof (induction u arbitrary: l)
  case Nil
  then show ?case using ahead_Cons [of l c r] by (subst (1 2) advance_while.simps) simp
next
  case (Cons a u)
  then show ?case
    using ahead_Cons [of l a "u @ c # r"] by (subst (1 2) advance_while.simps) simp
qed

lemma string_body_ahead:
  assumes "ahead l = u @ quote # r" "list_all (\<lambda>c. c \<noteq> quote \<and> c \<noteq> newline \<and> c \<noteq> backslash) u"
  shows "ahead (string_body l) = quote # r \<and> engine (string_body l) = engine l"
  using assms
proof (induction u arbitrary: l)
  case Nil
  then show ?case using ahead_Cons [of l quote r] by (subst (1 2) string_body.simps) simp
next
  case (Cons a u)
  then show ?case
    using ahead_Cons [of l a "u @ quote # r"] by (subst (1 2) string_body.simps) simp
qed

lemma match_char_ahead:
  "ahead l = x # r \<Longrightarrow> match_char c l = (if x = c then (advance l, True) else (l, False))"
  using ahead_Cons [of l x r] by (simp add: match_char_def)

text \<open>What is cut out between two cursors, from the text ahead of them.\<close>

lemma cut_ahead:
  assumes "scans P l l'" "ahead l = w @ ahead l'" "pos l \<le> length (source l)"
  shows "substr (source l) (pos l) (pos l' - pos l) = w"
proof -
  have "pos l' \<le> length (source l)" "pos l \<le> pos l'" "source l' = source l"
    using scans_pos_bound [OF assms(1)] scans_fields [OF assms(1)] assms(3) by auto
  moreover have "length (ahead l) = length w + length (ahead l')" using assms(2) by simp
  ultimately have "pos l' - pos l = length w" by (simp add: ahead_def)
  then show ?thesis using assms(2) by (simp add: substr_def ahead_def [symmetric])
qed

section \<open>Words\<close>

definition string_text :: "string \<Rightarrow> bool" where
  "string_text w \<longleftrightarrow> (\<exists>u. w = quote # u @ [quote]
     \<and> list_all (\<lambda>c. c \<noteq> quote \<and> c \<noteq> newline \<and> c \<noteq> backslash) u)"

text \<open>The words the statement is about: all symbols, keywords but \<^verbatim>\<open>asm\<close>, identifiers, decimal integers and plain strings.\<close>

fun printable :: "token_kind \<Rightarrow> string \<Rightarrow> bool" where
  "printable IntLiteral w = decimal_text w"
| "printable StringLiteral w = string_text w"
| "printable FloatLiteral w = False"
| "printable CharLiteral w = False"
| "printable k w = (spelled k w \<and> k \<noteq> Kw KwAsm)"

lemma keyword_lookup: "map_of keyword_table (keyword_spelling k) = Some (Kw k)"
  by (cases k) (simp_all add: keyword_table_def)

lemma prim_lookup: "map_of keyword_table (prim_spelling k) = Some (Prim k)"
  by (cases k) (simp_all add: keyword_table_def)

lemma table_identifier_text: "list_all (\<lambda>(w, k). identifier_text w) keyword_table"
  by (simp add: keyword_table_def identifier_text_def ident_char_def is_alpha_numeric_def is_alpha_def is_digit_def)

lemma lookup_identifier_text: "map_of keyword_table w = Some k \<Longrightarrow> identifier_text w"
  using table_identifier_text by (auto simp: list_all_iff dest!: map_of_SomeD)

lemma blank_classes [simp]: "\<not> is_digit (CHR '' '')" "\<not> is_alpha_numeric (CHR '' '')"
  by (simp_all add: is_digit_def is_alpha_numeric_def is_alpha_def)

text \<open>The kind that a word-shaped lexeme gets.\<close>

lemma word_lexes:
  assumes a: "ahead l = w @ CHR '' '' # r" and "identifier_text w"
    and k: "k = (case map_of keyword_table w of Some k \<Rightarrow> k | None \<Rightarrow> Identifier)"
  obtains l3 where "lex_from (pos l) (hd w) (advance (mark_start l)) = (l3, Some (make_token l3 k (pos l)))"
    "ahead l3 = CHR '' '' # r" "engine l3 = engine l"
proof -
  obtain c u where w: "w = c # u" using assms(2) by (cases w) (auto simp: identifier_text_def)
  let ?P = "\<lambda>c. is_alpha_numeric c \<or> c = underscore" and ?l = "advance (mark_start l)"
  have c: "is_alpha c \<or> c = underscore" "list_all ?P u"
    using assms(2) w by (auto simp: identifier_text_def ident_char_def list_all_iff)
  define l3 where "l3 = advance_while ?P ?l"
  have "ahead ?l = u @ CHR '' '' # r" using ahead_Cons(4) [of "mark_start l"] a w by simp
  from advance_while_ahead [OF this c(2)] have l3: "ahead l3 = CHR '' '' # r" "engine l3 = engine l"
    by (simp_all add: l3_def mark_start_def)
  have sc: "scans ?P ?l l3" unfolding l3_def by (rule scans_advance_while)
  have ne: "\<not> at_end l" using ahead_Cons(1) a w by simp
  have "scans (\<lambda>_. True) ?l l3" by (rule scans_mono [OF sc]) simp
  then have "scans (\<lambda>_. True) (mark_start l) l3" using ne scans_step [of "mark_start l"] by simp
  from cut_ahead [OF this] have "substr (source l) (pos l) (pos l3 - pos l) = w"
    using a l3 ne by (simp add: at_end_def)
  moreover have "source l3 = source l" using scans_fields(1) [OF sc] by simp
  moreover have "\<not> is_digit c" using c(1) by (auto simp: is_digit_def is_alpha_def)
  ultimately have "lex_from (pos l) (hd w) ?l = (l3, Some (make_token l3 k (pos l)))"
    using c w k by (auto simp: lex_from_def lex_identifier_or_keyword_def l3_def [symmetric] Let_def
        split: option.splits)
  then show thesis using l3 that by blast
qed

lemma decimal_lexes:
  assumes a: "ahead l = w @ CHR '' '' # r" and "decimal_text w"
  obtains l3 where "lex_from (pos l) (hd w) (advance (mark_start l)) = (l3, Some (make_token l3 IntLiteral (pos l)))"
    "ahead l3 = CHR '' '' # r" "engine l3 = engine l"
proof -
  obtain c u where w: "w = c # u" using assms(2) by (cases w) (auto simp: decimal_text_def)
  let ?P = "\<lambda>c. is_digit c \<or> c = underscore" and ?l = "advance (mark_start l)"
  have c: "is_digit c" "list_all ?P u" using assms(2) w by (auto simp: decimal_text_def)
  define l3 where "l3 = skip_digits ?l"
  have al: "ahead ?l = u @ CHR '' '' # r" using ahead_Cons(4) [of "mark_start l"] a w by simp
  from advance_while_ahead [OF this c(2)] have l3: "ahead l3 = CHR '' '' # r" "engine l3 = engine l"
    by (simp_all add: l3_def mark_start_def skip_digits_def)
  have "peek ?l \<notin> set ''xXbBoO''"
    using al c(2) ahead_Cons(2) [of ?l] by (cases u) (auto simp: is_digit_def)
  then have "lex_number (pos l) ?l = lex_decimal_number (pos l) ?l"
    by (auto simp: lex_number_def Let_def)
  moreover have "lex_decimal_number (pos l) ?l = (l3, make_token l3 IntLiteral (pos l))"
    using ahead_Cons(1,2) [OF l3(1)]
    by (simp add: lex_decimal_number_def l3_def [symmetric] at_exponent_def Let_def)
  ultimately show thesis
    using that [of l3] l3 c w by (simp add: lex_from_def)
qed

lemma string_lexes:
  assumes a: "ahead l = w @ CHR '' '' # r" and "string_text w"
  obtains l3 where "lex_from (pos l) (hd w) (advance (mark_start l)) = (l3, Some (make_token l3 StringLiteral (pos l)))"
    "ahead l3 = CHR '' '' # r" "engine l3 = engine l"
proof -
  obtain u where w: "w = quote # u @ [quote]" "list_all (\<lambda>c. c \<noteq> quote \<and> c \<noteq> newline \<and> c \<noteq> backslash) u"
    using assms(2) by (auto simp: string_text_def)
  let ?l = "advance (mark_start l)"
  have "ahead ?l = u @ quote # CHR '' '' # r" using ahead_Cons(4) [of "mark_start l"] a w by simp
  from string_body_ahead [OF this w(2)]
  have b: "ahead (string_body ?l) = quote # CHR '' '' # r" "engine (string_body ?l) = engine l"
    by (simp_all add: mark_start_def)
  have "lex_from (pos l) (hd w) ?l =
      (advance (string_body ?l), Some (make_token (advance (string_body ?l)) StringLiteral (pos l)))"
    using w ahead_Cons [OF b(1)]
    by (simp add: lex_from_def lex_string_def Let_def is_digit_def is_alpha_def)
  then show thesis using that ahead_Cons(4) [OF b(1)] b(2) by simp
qed

lemma symbol_kind_ahead:
  "ahead l = tl (operator_spelling p) @ CHR '' '' # r \<Longrightarrow>
   \<exists>l3. symbol_kind (hd (operator_spelling p)) l = Some (l3, Op p) \<and> ahead l3 = CHR '' '' # r \<and> engine l3 = engine l"
  "ahead l = tl (punctuation_spelling q) @ CHR '' '' # r \<Longrightarrow>
   \<exists>l3. symbol_kind (hd (punctuation_spelling q)) l = Some (l3, Punct q) \<and> ahead l3 = CHR '' '' # r \<and> engine l3 = engine l"
proof -
  note defs = symbol_kind_def match_double_def lex_dots_def lex_angle_def match_char_ahead ahead_Cons Let_def
  show "\<exists>l3. symbol_kind (hd (operator_spelling p)) l = Some (l3, Op p) \<and> ahead l3 = CHR '' '' # r \<and> engine l3 = engine l"
    if "ahead l = tl (operator_spelling p) @ CHR '' '' # r"
    using that by (cases p) (simp_all add: defs)
  show "\<exists>l3. symbol_kind (hd (punctuation_spelling q)) l = Some (l3, Punct q) \<and> ahead l3 = CHR '' '' # r \<and> engine l3 = engine l"
    if "ahead l = tl (punctuation_spelling q) @ CHR '' '' # r"
    using that by (cases q) (simp_all add: defs)
qed

lemma symbol_starts:
  "\<not> is_digit (hd (operator_spelling p)) \<and> \<not> is_alpha (hd (operator_spelling p))
   \<and> hd (operator_spelling p) \<notin> {underscore, quote, apostrophe} \<and> operator_spelling p \<noteq> []
   \<and> (hd (operator_spelling p) = CHR ''.'' \<longrightarrow> \<not> is_digit (hd (tl (operator_spelling p) @ CHR '' '' # r)))"
  "\<not> is_digit (hd (punctuation_spelling q)) \<and> \<not> is_alpha (hd (punctuation_spelling q))
   \<and> hd (punctuation_spelling q) \<notin> {underscore, quote, apostrophe} \<and> punctuation_spelling q \<noteq> []
   \<and> (hd (punctuation_spelling q) = CHR ''.'' \<longrightarrow> \<not> is_digit (hd (tl (punctuation_spelling q) @ CHR '' '' # r)))"
proof -
  show "\<not> is_digit (hd (operator_spelling p)) \<and> \<not> is_alpha (hd (operator_spelling p))
     \<and> hd (operator_spelling p) \<notin> {underscore, quote, apostrophe} \<and> operator_spelling p \<noteq> []
     \<and> (hd (operator_spelling p) = CHR ''.'' \<longrightarrow> \<not> is_digit (hd (tl (operator_spelling p) @ CHR '' '' # r)))"
    by (cases p) (simp_all add: is_digit_def is_alpha_def)
  show "\<not> is_digit (hd (punctuation_spelling q)) \<and> \<not> is_alpha (hd (punctuation_spelling q))
     \<and> hd (punctuation_spelling q) \<notin> {underscore, quote, apostrophe} \<and> punctuation_spelling q \<noteq> []
     \<and> (hd (punctuation_spelling q) = CHR ''.'' \<longrightarrow> \<not> is_digit (hd (tl (punctuation_spelling q) @ CHR '' '' # r)))"
    by (cases q) (simp_all add: is_digit_def is_alpha_def)
qed

lemma symbol_lexes:
  assumes a: "ahead l = w @ CHR '' '' # r" and w: "w = c # u"
    and c: "\<not> is_digit c" "\<not> is_alpha c" "c \<notin> {underscore, quote, apostrophe}"
      "c = CHR ''.'' \<longrightarrow> \<not> is_digit (hd (u @ CHR '' '' # r))"
    and sk: "\<And>m. ahead m = u @ CHR '' '' # r \<Longrightarrow>
      \<exists>l3. symbol_kind c m = Some (l3, k) \<and> ahead l3 = CHR '' '' # r \<and> engine l3 = engine m"
  obtains l3 where "lex_from (pos l) (hd w) (advance (mark_start l)) = (l3, Some (make_token l3 k (pos l)))"
    "ahead l3 = CHR '' '' # r" "engine l3 = engine l"
proof -
  let ?l = "advance (mark_start l)"
  have al: "ahead ?l = u @ CHR '' '' # r" using ahead_Cons(4) [of "mark_start l"] a w by simp
  from sk [OF this] obtain l3 where l3: "symbol_kind c ?l = Some (l3, k)" "ahead l3 = CHR '' '' # r"
    "engine l3 = engine l" by (auto simp: mark_start_def)
  have "peek ?l = hd (u @ CHR '' '' # r)"
    using al ahead_Cons(2) [of ?l] by (cases u) auto
  then have "lex_from (pos l) (hd w) ?l = (l3, Some (make_token l3 k (pos l)))"
    using c w l3(1) by (auto simp: lex_from_def lex_symbol_def)
  then show thesis using l3 that by blast
qed

lemma printable_lexes:
  assumes a: "ahead l = w @ CHR '' '' # r" and p: "printable k w"
  obtains l3 where "lex_from (pos l) (hd w) (advance (mark_start l)) = (l3, Some (make_token l3 k (pos l)))"
    "ahead l3 = CHR '' '' # r" "engine l3 = engine l"
proof (cases k)
  case IntLiteral
  then show thesis using p decimal_lexes [OF a] that by (metis printable.simps(1))
next
  case StringLiteral
  then show thesis using p string_lexes [OF a] that by (metis printable.simps(2))
next
  case Identifier
  then have "identifier_text w" "k = (case map_of keyword_table w of Some k \<Rightarrow> k | None \<Rightarrow> Identifier)"
    using p by (auto split: option.splits dest!: map_of_SomeD intro: rev_image_eqI)
  then show thesis using word_lexes [OF a] that by blast
next
  case (Kw x)
  then have "map_of keyword_table w = Some k" using p keyword_lookup by simp
  then show thesis using word_lexes [OF a lookup_identifier_text, of k k] that by fastforce
next
  case (Prim x)
  then have "map_of keyword_table w = Some k" using p prim_lookup by simp
  then show thesis using word_lexes [OF a lookup_identifier_text, of k k] that by fastforce
next
  case (Op x)
  then have w: "w = hd (operator_spelling x) # tl (operator_spelling x)" using p symbol_starts(1) [of x] by simp
  show thesis
    by (rule symbol_lexes [OF a w, of k]) (use symbol_starts(1) [of x r] symbol_kind_ahead(1) [of _ x r] Op that in simp_all)
next
  case (Punct x)
  then have w: "w = hd (punctuation_spelling x) # tl (punctuation_spelling x)" using p symbol_starts(2) [of x] by simp
  show thesis
    by (rule symbol_lexes [OF a w, of k]) (use symbol_starts(2) [of x r] symbol_kind_ahead(2) [of _ x r] Punct that in simp_all)
qed (use p in simp_all)

section \<open>Blanks between words\<close>

definition starts_word :: "string \<Rightarrow> bool" where
  "starts_word s \<longleftrightarrow> s \<noteq> [] \<and> hd s \<notin> {CHR '' '', CHR 0x09, carriage_return, newline}
     \<and> (hd s = CHR ''/'' \<longrightarrow> tl s \<noteq> [] \<and> hd (tl s) \<notin> {CHR ''/'', CHR ''*''})"

lemma printable_starts_word: "printable k w \<Longrightarrow> starts_word (w @ CHR '' '' # r)"
proof -
  have ident: "starts_word (w @ CHR '' '' # r)" if "identifier_text w"
    using that by (cases w) (auto simp: starts_word_def identifier_text_def is_alpha_def)
  assume p: "printable k w"
  show ?thesis
  proof (cases k)
    case IntLiteral
    then show ?thesis using p by (cases w) (auto simp: starts_word_def decimal_text_def is_digit_def)
  next
    case (Op x)
    then show ?thesis using p by (cases x) (simp_all add: starts_word_def)
  next
    case (Punct x)
    then show ?thesis using p by (cases x) (simp_all add: starts_word_def)
  next
    case (Kw x)
    then show ?thesis using p ident lookup_identifier_text [OF keyword_lookup] by simp
  next
    case (Prim x)
    then show ?thesis using p ident lookup_identifier_text [OF prim_lookup] by simp
  qed (use p ident in \<open>auto simp: starts_word_def string_text_def\<close>)
qed

lemma starts_word_stops:
  assumes "starts_word (ahead m)"
  shows "\<not> at_end m \<and> skip_one m = (m, False, False)"
proof -
  obtain c t where a: "ahead m = c # t" using assms by (cases "ahead m") (auto simp: starts_word_def)
  note ac = ahead_Cons [OF a]
  have "c \<noteq> CHR ''/'' \<or> peek_next m \<notin> {CHR ''/'', CHR ''*''}"
    using assms a ac(5) by (auto simp: starts_word_def split: list.splits)
  then show ?thesis
    using assms a ac by (auto simp: starts_word_def skip_one_def)
qed

lemma skip_blank:
  assumes a: "ahead l = CHR '' '' # s" and s: "s = [] \<or> starts_word s"
  shows "skip_whitespace_and_comments l = (advance l, False)"
proof -
  have "skip_trivia (advance l) False = (advance l, False)"
    using s ahead_Cons(4) [OF a] ahead_Nil [of "advance l"] starts_word_stops [of "advance l"]
    by (subst skip_trivia.simps) auto
  moreover have "skip_trivia l False = skip_trivia (advance l) False"
    using ahead_Cons [OF a] by (subst skip_trivia.simps) (simp add: skip_one_def)
  ultimately show ?thesis by (simp add: skip_whitespace_and_comments_def)
qed

definition kind_and_lexeme :: "token \<Rightarrow> token_kind \<times> string" where
  "kind_and_lexeme t = (kind t, lexeme t)"

lemma kind_and_lexeme_simps [simp]:
  "kind_and_lexeme (virtual_semicolon l) = (Punct Semicolon, [])" "kind_and_lexeme (make_eof l) = (Eof, [])"
  by (simp_all add: kind_and_lexeme_def virtual_semicolon_def make_eof_def)

lemma lex_token_word:
  assumes a: "ahead l = CHR '' '' # w @ CHR '' '' # r" and p: "printable k w" and "pos l \<le> length (source l)"
  obtains l' t where "lex_token l = (l', Some t)" "kind_and_lexeme t = (k, w)" "ahead l' = CHR '' '' # r"
    "engine l' = engine l"
proof -
  let ?l = "advance l"
  have al: "ahead ?l = w @ CHR '' '' # r" by (rule ahead_Cons(4) [OF a])
  have sk: "skip_whitespace_and_comments l = (?l, False)"
    using skip_blank [OF a] printable_starts_word [OF p] by blast
  obtain l3 where l3: "lex_from (pos ?l) (hd w) (advance (mark_start ?l)) = (l3, Some (make_token l3 k (pos ?l)))"
    "ahead l3 = CHR '' '' # r" "engine l3 = engine ?l"
    using printable_lexes [OF al p] by metis
  have "w \<noteq> []" using printable_starts_word [OF p, of "''x''"] p by (cases k) (auto simp: starts_word_def)
  then have h: "ahead ?l = hd w # tl w @ CHR '' '' # r" using al by simp
  note hc = ahead_Cons [OF h]
  have "scans not_newline (advance (mark_start ?l)) l3" using lex_from_lexes [OF l3(1)] by simp
  then have sc: "scans (\<lambda>_. True) (mark_start ?l) l3"
    using scans_step [of "mark_start ?l" "\<lambda>_. True" l3] hc(1) scans_mono by fastforce
  have lexm: "lexeme (make_token l3 k (pos ?l)) = w"
    using cut_ahead [OF sc, of w] al l3(2) hc(1) scans_fields(1) [OF sc] by (simp add: make_token_def at_end_def)
  have "lex_token l = (note_token (make_token l3 k (pos ?l)) l3, Some (make_token l3 k (pos ?l)))"
    using sk l3(1) hc by (simp add: lex_token_def mark_start_def [symmetric] Let_def)
  then show thesis
    using that l3 lexm by (auto simp: kind_and_lexeme_def make_token_def note_token_def ahead_def)
qed

section \<open>The round trip\<close>

definition spaced :: "string list \<Rightarrow> string" where
  "spaced ws = concat (map (\<lambda>w. CHR '' '' # w) ws) @ '' ''"

definition ends_kinds :: "token_kind list \<Rightarrow> bool" where
  "ends_kinds ks \<longleftrightarrow> ks \<noteq> [] \<and> (is_asi_trigger (last ks)
     \<or> last ks = Op Star \<and> butlast ks \<noteq> [] \<and> last (butlast ks) = Punct Dot)"

lemma ends_statement_kinds: "ends_statement ts = ends_kinds (map fst (map kind_and_lexeme ts))"
proof -
  have k: "map fst (map kind_and_lexeme ts) = map kind ts" by (simp add: kind_and_lexeme_def)
  have "ts \<noteq> [] \<Longrightarrow> last (map kind ts) = kind (last ts)" "butlast (map kind ts) = map kind (butlast ts)"
    "butlast ts \<noteq> [] \<Longrightarrow> last (map kind (butlast ts)) = kind (last (butlast ts))"
    by (simp_all add: last_map map_butlast [symmetric])
  then show ?thesis unfolding k by (auto simp: ends_statement_def ends_kinds_def)
qed

definition closing :: "token_kind list \<Rightarrow> (token_kind \<times> string) list" where
  "closing ks = (if ends_kinds ks then [(Punct Semicolon, [])] else []) @ [(Eof, [])]"

lemma tokenize_loop_words:
  assumes "lexer_inv src fn l ts" "\<not> awaiting_asm_expr_body l" "ahead l = spaced (map snd ws)"
    and "list_all (\<lambda>(k, w). printable k w) ws" "tokenize_loop l ts = (l', ts')"
  shows "map kind_and_lexeme ts' = map kind_and_lexeme ts @ ws @
      closing (map fst (map kind_and_lexeme ts @ ws)) \<and> engine l' = engine l"
  using assms
proof (induction ws arbitrary: l ts)
  case Nil
  let ?l = "advance l"
  have a: "ahead l = CHR '' '' # []" using Nil(3) by (simp add: spaced_def)
  have sk: "skip_whitespace_and_comments l = (?l, False)" using skip_blank [OF a] by simp
  have "at_end ?l" using ahead_Cons(4) [OF a] ahead_Nil by blast
  then have lt: "lex_token l = (?l, Some (make_eof ?l))" using sk by (simp add: lex_token_def)
  have trig: "last_token_is_asi_trigger ?l = ends_kinds (map fst (map kind_and_lexeme ts))"
    using Nil(1) ends_statement_kinds [of ts] by (simp add: lexer_inv_def)
  have "ts' = ts @ (if last_token_is_asi_trigger ?l then [virtual_semicolon ?l] else []) @ [make_eof ?l]"
    "engine l' = engine l"
    using Nil(5) Nil(2) lt
    by (auto simp: tokenize_loop.simps [of l] tokenize_iteration_def tokenize_next_def Let_def make_eof_def
        split: if_splits)
  then show ?case
    using trig by (simp add: closing_def)
next
  case (Cons kw ws)
  obtain k w where kw: "kw = (k, w)" by fastforce
  have p: "printable k w" using Cons.prems(4) kw by simp
  have a: "ahead l = CHR '' '' # w @ CHR '' '' # tl (spaced (map snd ws))"
    using Cons.prems(3) kw by (cases ws) (simp_all add: spaced_def)
  obtain l1 t where t: "lex_token l = (l1, Some t)" "kind_and_lexeme t = (k, w)"
    "ahead l1 = CHR '' '' # tl (spaced (map snd ws))" "engine l1 = engine l"
    using lex_token_word [OF a p] Cons.prems(1) by (auto simp: lexer_inv_def synced_def)
  have k: "kind t \<noteq> Eof" "kind t \<noteq> Kw KwAsm" using t(2) p by (auto simp: kind_and_lexeme_def)
  then have n: "tokenize_next l ts = (l1, ts @ [t], False)"
    using t(1) by (simp add: tokenize_next_def)
  have i: "tokenize_iteration l ts = (l1, ts @ [t], False)"
    using n Cons.prems(2) by (simp add: tokenize_iteration_def)
  have aw: "\<not> awaiting_asm_expr_body l1"
    using Cons.prems(2) lex_token_awaiting [OF t(1)] by simp
  have "ahead l1 = spaced (map snd ws)"
    using t(3) by (cases ws) (simp_all add: spaced_def)
  moreover have "tokenize_loop l1 (ts @ [t]) = (l', ts')"
    using Cons.prems(5) i by (simp add: tokenize_loop.simps [of l])
  ultimately show ?case
    using Cons.IH [OF tokenize_next_inv [OF Cons.prems(1) n] aw] Cons.prems(4) t(2,4) kw by simp
qed

text \<open>
  C32: Lexing inverts printing. Keywords (except \<^verbatim>\<open>asm\<close>), operators, punctuation, identifiers, decimal
  integers and plain string literals, written with a blank before each, lex to exactly those kinds and
  lexemes, followed by the inserted semicolon if the last can end a statement and the end of file; and
  nothing is reported.
\<close>

theorem tokenize_inverts_printing:
  assumes "list_all (\<lambda>(k, w). printable k w) ws"
  shows "map kind_and_lexeme (snd (tokenize (spaced (map snd ws)) fn e)) = ws @ closing (map fst ws)
    \<and> fst (tokenize (spaced (map snd ws)) fn e) = e"
proof -
  let ?src = "spaced (map snd ws)"
  obtain l ts where t: "tokenize_loop (LexerImpl ?src fn e) [] = (l, ts)" by fastforce
  have "\<not> awaiting_asm_expr_body (LexerImpl ?src fn e)" "ahead (LexerImpl ?src fn e) = ?src"
    "engine (LexerImpl ?src fn e) = e"
    by (simp_all add: LexerImpl_def ahead_def)
  with tokenize_loop_words [OF lexer_inv_start _ _ assms t] show ?thesis
    by (simp add: tokenize_def t)
qed

theorem tokenize_inverts_printing_witness:
  "map kind_and_lexeme (snd (tokenize (spaced [''x'', '':='', ''12'']) ''f'' (DiagnosticEngine Map.empty False))) =
   [(Identifier, ''x''), (Op ColonEqual, '':=''), (IntLiteral, ''12''), (Punct Semicolon, []), (Eof, [])]"
  using tokenize_inverts_printing
    [of "[(Identifier, ''x''), (Op ColonEqual, '':=''), (IntLiteral, ''12'')]" "''f''" "DiagnosticEngine Map.empty False"]
  by (simp add: decimal_text_def identifier_text_def ident_char_def is_alpha_def is_digit_def is_alpha_numeric_def
      keyword_table_def closing_def ends_kinds_def)

end
