(* ===== verification/Asm_Lexer.thy ===== *)
theory Asm_Lexer
  imports Lexer
begin

text \<open>
  Inline assembly, part one: the register tables (\<^verbatim>\<open>asm_registers.hpp\<close>) and the lexer of raw assembly
  bodies (\<^verbatim>\<open>asm_lexer.hpp\<close>, \<^verbatim>\<open>asm_lexer.cpp\<close>).
\<close>

section \<open>Registers\<close>

text \<open>Name, family (the 64-bit root) and width of every supported register.\<close>

definition registers :: "(string \<times> string \<times> nat) list" where
  "registers = [
     (''rax'', ''rax'', 64), (''rbx'', ''rbx'', 64), (''rcx'', ''rcx'', 64), (''rdx'', ''rdx'', 64),
     (''rdi'', ''rdi'', 64), (''rsi'', ''rsi'', 64), (''rsp'', ''rsp'', 64), (''rbp'', ''rbp'', 64),
     (''r8'', ''r8'', 64), (''r9'', ''r9'', 64), (''r10'', ''r10'', 64), (''r11'', ''r11'', 64),
     (''r12'', ''r12'', 64), (''r13'', ''r13'', 64), (''r14'', ''r14'', 64), (''r15'', ''r15'', 64),
     (''eax'', ''rax'', 32), (''ebx'', ''rbx'', 32), (''ecx'', ''rcx'', 32), (''edx'', ''rdx'', 32),
     (''edi'', ''rdi'', 32), (''esi'', ''rsi'', 32), (''esp'', ''rsp'', 32), (''ebp'', ''rbp'', 32),
     (''r8d'', ''r8'', 32), (''r9d'', ''r9'', 32), (''r10d'', ''r10'', 32), (''r11d'', ''r11'', 32),
     (''r12d'', ''r12'', 32), (''r13d'', ''r13'', 32), (''r14d'', ''r14'', 32), (''r15d'', ''r15'', 32),
     (''ax'', ''rax'', 16), (''bx'', ''rbx'', 16), (''cx'', ''rcx'', 16), (''dx'', ''rdx'', 16),
     (''di'', ''rdi'', 16), (''si'', ''rsi'', 16), (''sp'', ''rsp'', 16), (''bp'', ''rbp'', 16),
     (''r8w'', ''r8'', 16), (''r9w'', ''r9'', 16), (''r10w'', ''r10'', 16), (''r11w'', ''r11'', 16),
     (''r12w'', ''r12'', 16), (''r13w'', ''r13'', 16), (''r14w'', ''r14'', 16), (''r15w'', ''r15'', 16),
     (''al'', ''rax'', 8), (''bl'', ''rbx'', 8), (''cl'', ''rcx'', 8), (''dl'', ''rdx'', 8),
     (''dil'', ''rdi'', 8), (''sil'', ''rsi'', 8), (''spl'', ''rsp'', 8), (''bpl'', ''rbp'', 8),
     (''r8b'', ''r8'', 8), (''r9b'', ''r9'', 8), (''r10b'', ''r10'', 8), (''r11b'', ''r11'', 8),
     (''r12b'', ''r12'', 8), (''r13b'', ''r13'', 8), (''r14b'', ''r14'', 8), (''r15b'', ''r15'', 8)]"

definition unsupported_registers :: "string list" where
  "unsupported_registers = [
     ''ah'', ''bh'', ''ch'', ''dh'', ''xmm0'', ''xmm1'', ''xmm2'', ''xmm3'',
     ''xmm4'', ''xmm5'', ''xmm6'', ''xmm7'', ''xmm8'', ''xmm9'', ''xmm10'', ''xmm11'',
     ''xmm12'', ''xmm13'', ''xmm14'', ''xmm15'', ''ymm0'', ''ymm1'', ''ymm2'', ''ymm3'',
     ''ymm4'', ''ymm5'', ''ymm6'', ''ymm7'', ''ymm8'', ''ymm9'', ''ymm10'', ''ymm11'',
     ''ymm12'', ''ymm13'', ''ymm14'', ''ymm15'', ''zmm0'', ''zmm1'', ''zmm2'', ''zmm3'',
     ''zmm4'', ''zmm5'', ''zmm6'', ''zmm7'', ''zmm8'', ''zmm9'', ''zmm10'', ''zmm11'',
     ''zmm12'', ''zmm13'', ''zmm14'', ''zmm15'', ''zmm16'', ''zmm17'', ''zmm18'', ''zmm19'',
     ''zmm20'', ''zmm21'', ''zmm22'', ''zmm23'', ''zmm24'', ''zmm25'', ''zmm26'', ''zmm27'',
     ''zmm28'', ''zmm29'', ''zmm30'', ''zmm31'', ''st0'', ''st1'', ''st2'', ''st3'',
     ''st4'', ''st5'', ''st6'', ''st7'', ''cs'', ''ds'', ''ss'', ''es'',
     ''fs'', ''gs'', ''cr0'', ''cr2'', ''cr3'', ''cr4'', ''cr8'', ''dr0'',
     ''dr1'', ''dr2'', ''dr3'', ''dr6'', ''dr7'']"

definition lookup_register :: "string \<Rightarrow> (string \<times> string \<times> nat) option" where
  "lookup_register name = find (\<lambda>r. fst r = name) registers"

definition is_unsupported_register :: "string \<Rightarrow> bool" where
  "is_unsupported_register name = (name \<in> set unsupported_registers)"

definition lookup_register_by_family_and_width :: "string \<Rightarrow> nat \<Rightarrow> (string \<times> string \<times> nat) option" where
  "lookup_register_by_family_and_width family width =
     find (\<lambda>r. fst (snd r) = family \<and> snd (snd r) = width) registers"

definition lower_char :: "char \<Rightarrow> char" where
  "lower_char c = (if 65 \<le> (of_char c :: nat) \<and> (of_char c :: nat) \<le> 90 then char_of ((of_char c :: nat) + 32) else c)"

definition to_lower :: "string \<Rightarrow> string" where
  "to_lower s = map lower_char s"

section \<open>Tokens\<close>

datatype asm_token_kind =
  AsmIdentifier | AsmRegister | AsmImmediate | AsmAddressOf | AsmComma | AsmColon | AsmNewline
| AsmLBracket | AsmRBracket | AsmEof

record asm_token =
  asm_kind :: asm_token_kind
  asm_text :: string
  int_value :: int
  width_bits :: nat
  asm_location :: source_location

definition plain_asm_token :: "asm_token_kind \<Rightarrow> source_location \<Rightarrow> asm_token" where
  "plain_asm_token k loc = \<lparr>asm_kind = k, asm_text = [], int_value = 0, width_bits = 0, asm_location = loc\<rparr>"

section \<open>The cursor\<close>

record asm_lexer =
  atext :: string
  afilename :: string
  aengine :: diagnostic_engine
  apos :: nat
  aline :: nat
  acol :: nat

definition AsmLexer :: "string \<Rightarrow> source_location \<Rightarrow> diagnostic_engine \<Rightarrow> asm_lexer" where
  "AsmLexer text block_location e = \<lparr>atext = text, afilename = filename block_location, aengine = e, apos = 0,
     aline = line block_location, acol = column block_location + 1\<rparr>"

definition is_ident_start :: "char \<Rightarrow> bool" where
  "is_ident_start c = (is_alpha c \<or> c = underscore)"

definition is_ident_continue :: "char \<Rightarrow> bool" where
  "is_ident_continue c = (is_alpha_numeric c \<or> c = underscore)"

definition asm_at_end :: "asm_lexer \<Rightarrow> bool" where
  "asm_at_end l = (apos l \<ge> length (atext l))"

definition asm_peek :: "asm_lexer \<Rightarrow> char" where
  "asm_peek l = (if asm_at_end l then CHR 0x00 else atext l ! apos l)"

definition asm_peek_next :: "asm_lexer \<Rightarrow> char" where
  "asm_peek_next l = (if apos l + 1 \<ge> length (atext l) then CHR 0x00 else atext l ! (apos l + 1))"

definition current_location :: "asm_lexer \<Rightarrow> source_location" where
  "current_location l = \<lparr>filename = afilename l, line = aline l, column = acol l, offset = apos l, len = 1\<rparr>"

definition asm_advance :: "asm_lexer \<Rightarrow> asm_lexer" where
  "asm_advance l =
     (if atext l ! apos l = newline then l\<lparr>apos := apos l + 1, aline := aline l + 1, acol := 1\<rparr>
      else l\<lparr>apos := apos l + 1, acol := acol l + 1\<rparr>)"

definition asm_error :: "source_location \<Rightarrow> string \<Rightarrow> asm_lexer \<Rightarrow> asm_lexer" where
  "asm_error loc msg l = l\<lparr>aengine := report_error (aengine l) LexerStage loc msg\<rparr>"

lemma asm_advance_fields [simp]:
  "atext (asm_advance l) = atext l" "afilename (asm_advance l) = afilename l"
  "aengine (asm_advance l) = aengine l" "apos (asm_advance l) = Suc (apos l)"
  by (simp_all add: asm_advance_def)

lemma asm_error_fields [simp]:
  "atext (asm_error loc m l) = atext l" "apos (asm_error loc m l) = apos l"
  by (simp_all add: asm_error_def)

function asm_advance_while :: "(char \<Rightarrow> bool) \<Rightarrow> asm_lexer \<Rightarrow> asm_lexer" where
  "asm_advance_while P l =
     (if \<not> asm_at_end l \<and> P (asm_peek l) then asm_advance_while P (asm_advance l) else l)"
  by pat_completeness auto
termination
  by (relation "measure (\<lambda>(P, l). length (atext l) - apos l)") (auto simp: asm_at_end_def)

declare asm_advance_while.simps [simp del]

text \<open>The cursor past at least as much, within the same text.\<close>

definition asm_kept :: "asm_lexer \<Rightarrow> asm_lexer \<Rightarrow> bool" where
  "asm_kept l l' \<longleftrightarrow> atext l' = atext l \<and> apos l \<le> apos l'"

definition asm_moved :: "asm_lexer \<Rightarrow> asm_lexer \<Rightarrow> bool" where
  "asm_moved l l' \<longleftrightarrow> atext l' = atext l \<and> apos l < apos l'"

lemma asm_advance_while_kept: "asm_kept l (asm_advance_while P l)"
proof (induction P l rule: asm_advance_while.induct)
  case (1 P l)
  then show ?case by (subst asm_advance_while.simps) (auto simp: asm_kept_def)
qed

function skip_horizontal_ws_and_comment :: "asm_lexer \<Rightarrow> asm_lexer" where
  "skip_horizontal_ws_and_comment l =
     (if asm_at_end l then l
      else if asm_peek l \<in> {CHR '' '', CHR 0x09, carriage_return}
      then skip_horizontal_ws_and_comment (asm_advance l)
      else if asm_peek l = CHR '';'' \<or> asm_peek l = CHR ''#''
      then skip_horizontal_ws_and_comment (asm_advance_while (\<lambda>c. c \<noteq> newline) l)
      else l)"
  by pat_completeness auto
termination
proof (relation "measure (\<lambda>l. length (atext l) - apos l)")
  fix l
  assume a: "\<not> asm_at_end l" "asm_peek l = CHR '';'' \<or> asm_peek l = CHR ''#''"
  have "asm_advance_while (\<lambda>c. c \<noteq> newline) l = asm_advance_while (\<lambda>c. c \<noteq> newline) (asm_advance l)"
    using a by (subst asm_advance_while.simps) auto
  then show "(asm_advance_while (\<lambda>c. c \<noteq> newline) l, l) \<in> measure (\<lambda>l. length (atext l) - apos l)"
    using asm_advance_while_kept [of "asm_advance l" "\<lambda>c. c \<noteq> newline"] a(1)
    by (auto simp: asm_kept_def asm_at_end_def)
qed (auto simp: asm_at_end_def)

declare skip_horizontal_ws_and_comment.simps [simp del]

section \<open>Tokens of one kind\<close>

definition lex_word :: "asm_lexer \<Rightarrow> asm_token list \<Rightarrow> asm_lexer \<times> asm_token list" where
  "lex_word l tokens =
     (let loc = current_location l;
          l1 = asm_advance_while is_ident_continue l;
          raw = substr (atext l) (apos l) (apos l1 - apos l);
          lowered = to_lower raw
      in case lookup_register lowered of
           Some reg \<Rightarrow> (l1, tokens @ [(plain_asm_token AsmRegister loc)
             \<lparr>asm_text := lowered, width_bits := snd (snd reg)\<rparr>])
         | None \<Rightarrow> (l1, tokens @ [(plain_asm_token AsmIdentifier loc)\<lparr>asm_text := raw\<rparr>]))"

definition digit_value :: "char \<Rightarrow> nat" where
  "digit_value c =
     (if is_digit c then of_char c - 48 else if 97 \<le> (of_char c :: nat) then of_char c - 87 else of_char c - 55)"

text \<open>
  \<^verbatim>\<open>std::from_chars\<close> on a run of digits of the base into an \<^verbatim>\<open>int64_t\<close>: the value, or out of range, or
  nothing to convert.
\<close>

datatype conversion = Converted int | OutOfRange | NoDigits

definition from_chars :: "string \<Rightarrow> nat \<Rightarrow> conversion" where
  "from_chars digits base =
     (if digits = [] then NoDigits
      else let v = foldl (\<lambda>a c. base * a + digit_value c) 0 digits
           in if v \<ge> 2 ^ 63 then OutOfRange else Converted (int v))"

definition asm_lex_number :: "asm_lexer \<Rightarrow> asm_token list \<Rightarrow> asm_lexer \<times> asm_token list" where
  "asm_lex_number l tokens =
     (let loc = current_location l;
          negative = (asm_peek l = CHR ''-'');
          l1 = (if negative then asm_advance l else l);
          is_hex = (asm_peek l1 = CHR ''0'' \<and> (asm_peek_next l1 = CHR ''x'' \<or> asm_peek_next l1 = CHR ''X''));
          l2 = (if is_hex then asm_advance (asm_advance l1) else l1);
          l3 = asm_advance_while (if is_hex then is_hex_digit else is_digit) l2
      in if \<not> is_hex \<and> asm_peek l3 = CHR ''.'' \<and> is_digit (asm_peek_next l3) then
           let l4 = asm_advance_while is_digit (asm_advance l3)
           in (asm_error loc ''float immediates are not supported in inline asm (v1)'' l4, tokens)
         else
           case from_chars (substr (atext l) (apos l2) (apos l3 - apos l2)) (if is_hex then 16 else 10) of
             OutOfRange \<Rightarrow> (asm_error loc ''integer immediate does not fit in 64 bits'' l3, tokens)
           | NoDigits \<Rightarrow> (asm_error loc ''malformed integer immediate in asm block'' l3, tokens)
           | Converted v \<Rightarrow> (l3, tokens @ [(plain_asm_token AsmImmediate loc)
               \<lparr>asm_text := substr (atext l) (apos l) (apos l3 - apos l),
                int_value := if negative then - v else v\<rparr>]))"

definition lex_address_of :: "asm_lexer \<Rightarrow> asm_token list \<Rightarrow> asm_lexer \<times> asm_token list" where
  "lex_address_of l tokens =
     (let loc = current_location l; l1 = asm_advance l in
      if asm_at_end l1 \<or> \<not> is_ident_start (asm_peek l1) then
        (asm_error loc (''expected identifier after '' @ quoted ''&'' @ '' in asm operand'') l1, tokens)
      else
        let l2 = asm_advance_while is_ident_continue l1
        in (l2, tokens @ [(plain_asm_token AsmAddressOf loc)
             \<lparr>asm_text := substr (atext l) (apos l1) (apos l2 - apos l1)\<rparr>]))"

section \<open>Progress\<close>

lemma asm_kept_refl [simp]: "asm_kept l l"
  by (simp add: asm_kept_def)

lemma asm_kept_trans: "asm_kept l l' \<Longrightarrow> asm_kept l' l'' \<Longrightarrow> asm_kept l l''"
  by (auto simp: asm_kept_def)

lemma asm_kept_moved: "asm_kept l l' \<Longrightarrow> asm_moved l' l'' \<Longrightarrow> asm_moved l l''"
  by (auto simp: asm_kept_def asm_moved_def)

lemma asm_moved_kept: "asm_moved l l' \<Longrightarrow> asm_kept l' l'' \<Longrightarrow> asm_moved l l''"
  by (auto simp: asm_kept_def asm_moved_def)

lemma asm_moved_advance [simp]: "asm_moved l (asm_advance l)"
  by (simp add: asm_moved_def)

lemma asm_error_kept: "asm_kept l l' \<Longrightarrow> asm_kept l (asm_error loc m l')"
  "asm_moved l l' \<Longrightarrow> asm_moved l (asm_error loc m l')"
  by (simp_all add: asm_kept_def asm_moved_def)

lemma asm_advance_while_moved:
  "\<not> asm_at_end l \<Longrightarrow> P (asm_peek l) \<Longrightarrow> asm_moved l (asm_advance_while P l)"
  using asm_moved_kept [OF asm_moved_advance asm_advance_while_kept, of l P]
  by (subst asm_advance_while.simps) simp

lemma skip_horizontal_kept: "asm_kept l (skip_horizontal_ws_and_comment l)"
proof (induction l rule: skip_horizontal_ws_and_comment.induct)
  case (1 l)
  show ?case
    using 1 asm_advance_while_kept [of l "\<lambda>c. c \<noteq> newline"] unfolding asm_kept_def
    by (subst (1 2) skip_horizontal_ws_and_comment.simps) auto
qed

function newline_run :: "asm_lexer \<Rightarrow> asm_lexer" where
  "newline_run l =
     (if asm_at_end l then l
      else if \<not> asm_at_end (skip_horizontal_ws_and_comment l)
             \<and> asm_peek (skip_horizontal_ws_and_comment l) = newline
      then newline_run (asm_advance (skip_horizontal_ws_and_comment l))
      else skip_horizontal_ws_and_comment l)"
  by pat_completeness auto
termination
proof (relation "measure (\<lambda>l. length (atext l) - apos l)")
  fix l
  assume "\<not> asm_at_end l"
  then show "(asm_advance (skip_horizontal_ws_and_comment l), l) \<in> measure (\<lambda>l. length (atext l) - apos l)"
    using skip_horizontal_kept [of l] by (auto simp: asm_kept_def asm_at_end_def)
qed simp

declare newline_run.simps [simp del]

lemma newline_run_kept: "asm_kept l (newline_run l)"
proof (induction l rule: newline_run.induct)
  case (1 l)
  then show ?case
    using skip_horizontal_kept [of l] by (subst newline_run.simps) (auto simp: asm_kept_def)
qed

section \<open>The loop\<close>

definition asm_single :: "asm_token_kind \<Rightarrow> asm_lexer \<Rightarrow> asm_token list \<Rightarrow> asm_lexer \<times> asm_token list" where
  "asm_single k l tokens = (asm_advance l, tokens @ [plain_asm_token k (current_location l)])"

text \<open>The token at a cursor that is neither at the end nor at a blank or a newline.\<close>

definition asm_lex_token :: "asm_lexer \<Rightarrow> asm_token list \<Rightarrow> asm_lexer \<times> asm_token list" where
  "asm_lex_token l tokens =
     (let ch = asm_peek l in
      if is_ident_start ch then lex_word l tokens
      else if is_digit ch \<or> (ch = CHR ''-'' \<and> is_digit (asm_peek_next l)) then asm_lex_number l tokens
      else if ch = CHR ''&'' then lex_address_of l tokens
      else if ch = CHR '','' then asm_single AsmComma l tokens
      else if ch = CHR '':'' then asm_single AsmColon l tokens
      else if ch = CHR ''['' then asm_single AsmLBracket l tokens
      else if ch = CHR '']'' then asm_single AsmRBracket l tokens
      else (asm_advance (asm_error (current_location l)
              (''unexpected character '' @ quoted [ch] @ '' in asm block'') l), tokens))"

definition asm_iteration :: "asm_lexer \<Rightarrow> asm_token list \<Rightarrow> asm_lexer \<times> asm_token list \<times> bool" where
  "asm_iteration l0 tokens =
     (let l = skip_horizontal_ws_and_comment l0 in
      if asm_at_end l then (l, tokens @ [plain_asm_token AsmEof (current_location l)], True)
      else if asm_peek l = newline
      then (newline_run l, tokens @ [plain_asm_token AsmNewline (current_location l)], False)
      else case asm_lex_token l tokens of (l1, tokens1) \<Rightarrow> (l1, tokens1, False))"

lemma asm_lex_token_moved:
  assumes "\<not> asm_at_end l"
  shows "asm_moved l (fst (asm_lex_token l tokens))"
proof -
  have word: "asm_moved l (fst (lex_word l tokens))" if "is_ident_start (asm_peek l)"
    using that assms
    by (auto simp: lex_word_def Let_def is_ident_start_def is_ident_continue_def is_alpha_numeric_def
        split: option.splits intro!: asm_advance_while_moved)
  have addr: "asm_moved l (fst (lex_address_of l tokens))"
    using asm_moved_kept [OF asm_moved_advance asm_advance_while_kept, of l is_ident_continue]
    by (simp add: lex_address_of_def Let_def asm_error_kept(2))
  have number: "asm_moved l (fst (asm_lex_number l tokens))"
    if "is_digit (asm_peek l) \<or> asm_peek l = CHR ''-''"
  proof -
    define l1 where "l1 = (if asm_peek l = CHR ''-'' then asm_advance l else l)"
    define hex where "hex \<longleftrightarrow> asm_peek l1 = CHR ''0'' \<and> (asm_peek_next l1 = CHR ''x'' \<or> asm_peek_next l1 = CHR ''X'')"
    define l2 where "l2 = (if hex then asm_advance (asm_advance l1) else l1)"
    define l3 where "l3 = asm_advance_while (if hex then is_hex_digit else is_digit) l2"
    have m3: "asm_moved l l3"
    proof (cases "asm_peek l = CHR ''-'' \<or> hex")
      case True
      then have "asm_moved l l2" by (auto simp: l2_def l1_def asm_moved_def)
      then show ?thesis unfolding l3_def by (rule asm_moved_kept) (rule asm_advance_while_kept)
    next
      case False
      then show ?thesis
        using that assms by (auto simp: l3_def l2_def l1_def intro!: asm_advance_while_moved)
    qed
    have m4: "asm_moved l (asm_advance_while is_digit (asm_advance l3))"
      using asm_moved_kept [OF asm_moved_kept [OF m3, of "asm_advance l3"] asm_advance_while_kept]
      by (simp add: asm_kept_def)
    show ?thesis
      unfolding asm_lex_number_def Let_def
      unfolding l1_def [symmetric]
      unfolding hex_def [symmetric]
      unfolding l2_def [symmetric]
      unfolding l3_def [symmetric]
      using m3 m4 by (simp add: asm_error_kept(2) split: conversion.split)
  qed
  have "asm_moved l (asm_advance (asm_error loc m l))" for loc m by (simp add: asm_moved_def)
  then show ?thesis
    using word addr number by (simp add: asm_lex_token_def Let_def asm_single_def)
qed

lemma asm_iteration_less:
  assumes "asm_iteration l ts = (l', ts', False)"
  shows "length (atext l') - apos l' < length (atext l) - apos l"
proof -
  define l1 where "l1 = skip_horizontal_ws_and_comment l"
  have k: "asm_kept l l1" unfolding l1_def by (rule skip_horizontal_kept)
  have e: "\<not> asm_at_end l1" using assms by (auto simp: asm_iteration_def l1_def Let_def split: if_splits)
  have "asm_moved l1 l'"
  proof (cases "asm_peek l1 = newline")
    case True
    have s: "skip_horizontal_ws_and_comment l1 = l1"
      using True e by (subst skip_horizontal_ws_and_comment.simps) simp
    have "l' = newline_run l1"
      using assms e True by (auto simp: asm_iteration_def l1_def [symmetric] Let_def)
    also have "\<dots> = newline_run (asm_advance l1)" using True e s by (subst newline_run.simps) simp
    finally show ?thesis
      using asm_moved_kept [OF asm_moved_advance newline_run_kept] by simp
  next
    case False
    then have "l' = fst (asm_lex_token l1 ts)"
      using assms e by (auto simp: asm_iteration_def l1_def [symmetric] Let_def split: prod.splits)
    then show ?thesis using asm_lex_token_moved [OF e] by simp
  qed
  then show ?thesis using k e by (auto simp: asm_moved_def asm_kept_def asm_at_end_def)
qed

function asm_loop :: "asm_lexer \<Rightarrow> asm_token list \<Rightarrow> asm_lexer \<times> asm_token list" where
  "asm_loop l tokens =
     (case asm_iteration l tokens of (l', tokens', ended) \<Rightarrow>
        if ended then (l', tokens') else asm_loop l' tokens')"
  by pat_completeness auto
termination
  by (relation "measure (\<lambda>(l, ts). length (atext l) - apos l)")
    (simp, simp, metis (full_types) asm_iteration_less)

declare asm_loop.simps [simp del]

definition asm_tokenize ::
  "string \<Rightarrow> source_location \<Rightarrow> diagnostic_engine \<Rightarrow> diagnostic_engine \<times> asm_token list" where
  "asm_tokenize raw_text block_location e =
     (let (l, tokens) = asm_loop (AsmLexer raw_text block_location e) [] in (aengine l, tokens))"

end
