(* ===== verification/Asm_Parser.thy ===== *)
theory Asm_Parser
  imports Asm_Lexer
begin

text \<open>
  Inline assembly, part two: the parser of assembly bodies (\<^verbatim>\<open>asm_parser.cpp\<close>) and the statement it builds
  (\<^verbatim>\<open>ast.hpp\<close>). The token stream ends with \<open>AsmEof\<close>; a position past it, which the parser never reaches,
  reads as the end.
\<close>

section \<open>Statements\<close>

datatype ast_asm_operand =
  AsmRegisterOperand string nat source_location
| AsmImmediateOperand int source_location
| AsmVariableOperand string bool source_location

record ast_asm_instruction =
  mnemonic :: string
  operands :: "ast_asm_operand list"
  instr_location :: source_location

record ast_asm_stmt =
  instructions :: "ast_asm_instruction list"
  stmt_location :: source_location

section \<open>The cursor\<close>

record asm_cursor =
  ctokens :: "asm_token list"
  cpos :: nat
  cengine :: diagnostic_engine

definition asm_current :: "asm_cursor \<Rightarrow> asm_token" where
  "asm_current c = (if cpos c < length (ctokens c) then ctokens c ! cpos c
     else plain_asm_token AsmEof default_location)"

definition asm_check :: "asm_token_kind \<Rightarrow> asm_cursor \<Rightarrow> bool" where
  "asm_check k c = (asm_kind (asm_current c) = k)"

definition cursor_at_end :: "asm_cursor \<Rightarrow> bool" where
  "cursor_at_end c = (asm_kind (asm_current c) = AsmEof)"

definition cursor_advance :: "asm_cursor \<Rightarrow> asm_cursor" where
  "cursor_advance c = (if cursor_at_end c then c else c\<lparr>cpos := cpos c + 1\<rparr>)"

definition cursor_error :: "source_location \<Rightarrow> string \<Rightarrow> asm_cursor \<Rightarrow> asm_cursor" where
  "cursor_error loc msg c = c\<lparr>cengine := report_error (cengine c) ParserStage loc msg\<rparr>"

text \<open>Tokens left: what every loop of the parser decreases.\<close>

definition left :: "asm_cursor \<Rightarrow> nat" where
  "left c = length (ctokens c) - cpos c"

lemma left_advance [simp]: "\<not> cursor_at_end c \<Longrightarrow> left (cursor_advance c) < left c"
  by (auto simp: left_def cursor_advance_def cursor_at_end_def asm_current_def plain_asm_token_def split: if_splits)

lemma left_advance_le [simp]: "left (cursor_advance c) \<le> left c"
  by (auto simp: left_def cursor_advance_def)

lemma left_error [simp]: "left (cursor_error loc m c) = left c"
  by (simp add: left_def cursor_error_def)

lemma check_not_end: "asm_check k c \<Longrightarrow> k \<noteq> AsmEof \<Longrightarrow> \<not> cursor_at_end c"
  by (simp add: asm_check_def cursor_at_end_def)

function skip_newlines :: "asm_cursor \<Rightarrow> asm_cursor" where
  "skip_newlines c = (if asm_check AsmNewline c then skip_newlines (cursor_advance c) else c)"
  by pat_completeness auto
termination
  by (relation "measure left") (auto dest: check_not_end)

declare skip_newlines.simps [simp del]

function skip_to_newline :: "asm_cursor \<Rightarrow> asm_cursor" where
  "skip_to_newline c =
     (if \<not> cursor_at_end c \<and> \<not> asm_check AsmNewline c then skip_to_newline (cursor_advance c) else c)"
  by pat_completeness auto
termination
  by (relation "measure left") auto

declare skip_to_newline.simps [simp del]

function bracketed_span :: "nat \<Rightarrow> asm_cursor \<Rightarrow> asm_cursor" where
  "bracketed_span depth c =
     (if \<not> cursor_at_end c \<and> depth > 0 then
        if asm_check AsmLBracket c then bracketed_span (depth + 1) (cursor_advance c)
        else if asm_check AsmRBracket c then
          if depth - 1 = 0 then cursor_advance c else bracketed_span (depth - 1) (cursor_advance c)
        else bracketed_span depth (cursor_advance c)
      else c)"
  by pat_completeness auto
termination
  by (relation "measure (\<lambda>(d, c). left c)") auto

declare bracketed_span.simps [simp del]

definition skip_bracketed_span :: "asm_cursor \<Rightarrow> asm_cursor" where
  "skip_bracketed_span c = bracketed_span 1 (cursor_advance c)"

lemma skip_left_le:
  "left (skip_newlines c) \<le> left c" "left (skip_to_newline c) \<le> left c" "left (bracketed_span d c) \<le> left c"
proof -
  show "left (skip_newlines c) \<le> left c"
  proof (induction c rule: skip_newlines.induct)
    case (1 c)
    then show ?case using left_advance_le [of c] by (subst skip_newlines.simps) (auto simp del: left_advance_le)
  qed
  show "left (skip_to_newline c) \<le> left c"
  proof (induction c rule: skip_to_newline.induct)
    case (1 c)
    then show ?case using left_advance_le [of c] by (subst skip_to_newline.simps) (auto simp del: left_advance_le)
  qed
  show "left (bracketed_span d c) \<le> left c"
  proof (induction d c rule: bracketed_span.induct)
    case (1 d c)
    then show ?case using left_advance_le [of c] by (subst bracketed_span.simps) (auto simp del: left_advance_le)
  qed
qed

section \<open>Operands\<close>

definition parse_operand :: "asm_cursor \<Rightarrow> asm_cursor \<times> ast_asm_operand option" where
  "parse_operand c =
     (let tok = asm_current c; loc = asm_location tok in
      case asm_kind tok of
        AsmRegister \<Rightarrow> (cursor_advance c, Some (AsmRegisterOperand (asm_text tok) (width_bits tok) loc))
      | AsmImmediate \<Rightarrow> (cursor_advance c, Some (AsmImmediateOperand (int_value tok) loc))
      | AsmAddressOf \<Rightarrow> (cursor_advance c, Some (AsmVariableOperand (asm_text tok) True loc))
      | AsmIdentifier \<Rightarrow>
          (if is_unsupported_register (to_lower (asm_text tok))
           then (cursor_advance (cursor_error loc
                   (''register '' @ quoted (asm_text tok) @ '' is not supported in inline asm (v1)'') c), None)
           else (cursor_advance c, Some (AsmVariableOperand (asm_text tok) False loc)))
      | AsmLBracket \<Rightarrow>
          (skip_bracketed_span (cursor_error loc (''memory operands with displacement/scale syntax (e.g. ''
             @ quoted ''[rax+8]'' @ '') are not supported in inline asm (v1)'') c), None)
      | _ \<Rightarrow>
          (let c1 = cursor_error loc (''expected an operand (register, immediate, identifier, or ''
                      @ quoted ''&identifier'' @ '')'') c
           in (if \<not> asm_check AsmComma c1 \<and> \<not> asm_check AsmNewline c1 then cursor_advance c1 else c1, None)))"

lemma parse_operand_left: "left (fst (parse_operand c)) \<le> left c"
proof -
  have "left (skip_bracketed_span (cursor_error loc m c)) \<le> left c" for loc m
    using skip_left_le(3) [of 1 "cursor_advance (cursor_error loc m c)"] left_advance_le [of "cursor_error loc m c"]
    by (simp add: skip_bracketed_span_def)
  moreover have "left (cursor_advance (cursor_error loc m c)) \<le> left c" for loc m
    using left_advance_le [of "cursor_error loc m c"] by simp
  ultimately show ?thesis
    by (simp add: parse_operand_def Let_def split: asm_token_kind.split)
qed

function operand_list :: "asm_cursor \<Rightarrow> ast_asm_operand list \<Rightarrow> asm_cursor \<times> ast_asm_operand list" where
  "operand_list c ops =
     (let (c1, op) = parse_operand c;
          ops1 = (case op of Some op \<Rightarrow> ops @ [op] | None \<Rightarrow> ops)
      in if asm_check AsmComma c1 then operand_list (cursor_advance c1) ops1 else (c1, ops1))"
  by pat_completeness auto
termination
proof (relation "measure (\<lambda>(c, ops). left c)")
  fix c :: asm_cursor and ops x c1 op ops1
  assume a: "x = parse_operand c" "(c1, op) = x" "asm_check AsmComma c1"
  then have "left c1 \<le> left c" "left (cursor_advance c1) < left c1"
    using parse_operand_left [of c] check_not_end [OF a(3)] by (metis fst_conv, simp)
  then show "((cursor_advance c1, ops1), c, ops) \<in> measure (\<lambda>(c, ops). left c)" by simp
qed simp

declare operand_list.simps [simp del]

section \<open>Instructions\<close>

definition parse_instruction :: "asm_cursor \<Rightarrow> asm_cursor \<times> ast_asm_instruction option" where
  "parse_instruction c =
     (let mnem_tok = asm_current c in
      if asm_kind mnem_tok \<noteq> AsmIdentifier then
        (skip_to_newline (cursor_error (asm_location mnem_tok) ''expected an instruction mnemonic'' c), None)
      else
        let c1 = cursor_advance c;
            instr = \<lparr>mnemonic = to_lower (asm_text mnem_tok), operands = [], instr_location = asm_location mnem_tok\<rparr>
        in if asm_check AsmNewline c1 \<or> cursor_at_end c1 then (c1, Some instr)
           else
             let (c2, ops) = operand_list c1 [];
                 c3 = (if \<not> asm_check AsmNewline c2 \<and> \<not> cursor_at_end c2
                       then skip_to_newline (cursor_error (asm_location (asm_current c2))
                              (''expected '' @ quoted '','' @ '' or end of instruction'') c2)
                       else c2)
             in (c3, Some (instr\<lparr>operands := ops\<rparr>)))"

lemma operand_list_left: "left (fst (operand_list c ops)) \<le> left c"
proof (induction c ops rule: operand_list.induct)
  case (1 c ops)
  obtain c1 op where p: "parse_operand c = (c1, op)" by fastforce
  have "left c1 \<le> left c" using parse_operand_left [of c] p by simp
  then show ?case
    using 1 [OF p [symmetric] refl refl] left_advance_le [of c1]
    by (subst operand_list.simps) (auto simp: p Let_def simp del: left_advance_le)
qed

lemma skip_to_newline_less:
  assumes "\<not> cursor_at_end c" "\<not> asm_check AsmNewline c"
  shows "left (skip_to_newline c) < left c"
  using skip_left_le(2) [of "cursor_advance c"] left_advance [OF assms(1)] assms
  by (subst skip_to_newline.simps) (simp del: left_advance)

lemma asm_check_error [simp]: "asm_check k (cursor_error loc m c) = asm_check k c"
  "cursor_at_end (cursor_error loc m c) = cursor_at_end c"
  by (simp_all add: asm_check_def cursor_at_end_def cursor_error_def asm_current_def)

lemma parse_instruction_left:
  assumes "parse_instruction c = (c', r)" "\<not> cursor_at_end c"
  shows "left c' \<le> left c \<and> (asm_check AsmNewline c \<or> left c' < left c)"
proof (cases "asm_kind (asm_current c) = AsmIdentifier")
  case False
  have "left (skip_to_newline (cursor_error loc m c)) \<le> left c" for loc m
    using skip_left_le(2) [of "cursor_error loc m c"] by simp
  moreover have "left (skip_to_newline (cursor_error loc m c)) < left c" if "\<not> asm_check AsmNewline c" for loc m
    using skip_to_newline_less [of "cursor_error loc m c"] that assms(2) by simp
  ultimately show ?thesis using assms(1) False by (auto simp: parse_instruction_def)
next
  case True
  let ?c1 = "cursor_advance c"
  obtain c2 ops where o: "operand_list ?c1 [] = (c2, ops)" by fastforce
  have "left c2 \<le> left ?c1" using operand_list_left [of ?c1 "[]"] o by simp
  moreover have "left (skip_to_newline (cursor_error loc m c2)) \<le> left c2" for loc m
    using skip_left_le(2) [of "cursor_error loc m c2"] by simp
  moreover note left_advance [OF assms(2)]
  ultimately have "left c' < left c"
    using assms(1) True o by (auto simp: parse_instruction_def Let_def simp del: left_advance
        split: if_splits intro: le_less_trans order_trans)
  then show ?thesis by simp
qed

lemma skip_newlines_less: "asm_check AsmNewline c \<Longrightarrow> left (skip_newlines c) < left c"
  using skip_left_le(1) [of "cursor_advance c"] left_advance [of c]
  by (subst skip_newlines.simps) (auto dest: check_not_end simp del: left_advance)

lemma parse_instruction_less:
  assumes "parse_instruction c = (c1, r)" "\<not> cursor_at_end c"
  shows "left (skip_newlines c1) < left c"
proof (cases "left c1 < left c")
  case True
  then show ?thesis using skip_left_le(1) [of c1] by simp
next
  case False
  then have n: "asm_check AsmNewline c" using parse_instruction_left [OF assms] by blast
  then have "skip_to_newline (cursor_error loc m c) = cursor_error loc m c" for loc m
    by (subst skip_to_newline.simps) simp
  then obtain loc m where "c1 = cursor_error loc m c"
    using assms(1) n by (auto simp: parse_instruction_def asm_check_def Let_def)
  then show ?thesis using skip_newlines_less [of c1] n by simp
qed

section \<open>Bodies\<close>

function parse_loop :: "asm_cursor \<Rightarrow> ast_asm_instruction list \<Rightarrow> asm_cursor \<times> ast_asm_instruction list" where
  "parse_loop c instrs =
     (if cursor_at_end c then (c, instrs)
      else let (c1, instr) = parse_instruction c;
               instrs1 = (case instr of Some i \<Rightarrow> instrs @ [i] | None \<Rightarrow> instrs)
           in parse_loop (skip_newlines c1) instrs1)"
  by pat_completeness auto
termination
proof (relation "measure (\<lambda>(c, is). left c)")
  fix c instrs x c1 instr instrs1
  assume "\<not> cursor_at_end c" "x = parse_instruction c" "(c1, instr) = x"
  then show "((skip_newlines c1, instrs1), c, instrs) \<in> measure (\<lambda>(c, is). left c)"
    using parse_instruction_less [of c c1 instr] by simp
qed simp

declare parse_loop.simps [simp del]

definition asm_parse :: "asm_token list \<Rightarrow> diagnostic_engine \<Rightarrow> diagnostic_engine \<times> ast_asm_stmt" where
  "asm_parse tokens e =
     (let c = skip_newlines \<lparr>ctokens = tokens, cpos = 0, cengine = e\<rparr>;
          (c1, instrs) = parse_loop c []
      in (cengine c1, \<lparr>instructions = instrs, stmt_location = asm_location (hd tokens)\<rparr>))"

end
