(* ===== verification/Asm_Roundtrip.thy ===== *)
theory Asm_Roundtrip
  imports Asm_Parser
begin

text \<open>
  Inline assembly, part three: a body printed from instructions is tokenized and parsed back to them, and reports
  nothing. Locations are erased on both sides.
\<close>

section \<open>Printing\<close>

fun print_operand :: "ast_asm_operand \<Rightarrow> string" where
  "print_operand (AsmRegisterOperand n w loc) = n"
| "print_operand (AsmImmediateOperand v loc) = show_int v"
| "print_operand (AsmVariableOperand n addr loc) = (if addr then CHR ''&'' # n else n)"

definition print_instruction :: "ast_asm_instruction \<Rightarrow> string" where
  "print_instruction i = mnemonic i @ (if operands i = [] then [] else '' '' @ join '', '' (map print_operand (operands i)))
     @ [newline]"

definition print_body :: "ast_asm_instruction list \<Rightarrow> string" where
  "print_body instrs = concat (map print_instruction instrs)"

fun erase_operand :: "ast_asm_operand \<Rightarrow> ast_asm_operand" where
  "erase_operand (AsmRegisterOperand n w loc) = AsmRegisterOperand n w default_location"
| "erase_operand (AsmImmediateOperand v loc) = AsmImmediateOperand v default_location"
| "erase_operand (AsmVariableOperand n addr loc) = AsmVariableOperand n addr default_location"

definition erase_instruction :: "ast_asm_instruction \<Rightarrow> ast_asm_instruction" where
  "erase_instruction i = i\<lparr>operands := map erase_operand (operands i), instr_location := default_location\<rparr>"

definition erase_token :: "asm_token \<Rightarrow> asm_token" where
  "erase_token t = t\<lparr>asm_location := default_location\<rparr>"

section \<open>What can be written\<close>

definition word_text :: "string \<Rightarrow> bool" where
  "word_text w \<longleftrightarrow> w \<noteq> [] \<and> is_ident_start (hd w) \<and> list_all is_ident_continue w"

fun valid_operand :: "ast_asm_operand \<Rightarrow> bool" where
  "valid_operand (AsmRegisterOperand n w loc) \<longleftrightarrow> map_option (snd \<circ> snd) (lookup_register n) = Some w"
| "valid_operand (AsmImmediateOperand v loc) \<longleftrightarrow> \<bar>v\<bar> < 2 ^ 63"
| "valid_operand (AsmVariableOperand n addr loc) \<longleftrightarrow> word_text n
     \<and> (addr \<or> lookup_register (to_lower n) = None \<and> \<not> is_unsupported_register (to_lower n))"

definition valid_instruction :: "ast_asm_instruction \<Rightarrow> bool" where
  "valid_instruction i \<longleftrightarrow> word_text (mnemonic i) \<and> to_lower (mnemonic i) = mnemonic i
     \<and> lookup_register (mnemonic i) = None \<and> list_all valid_operand (operands i)"

section \<open>The characters ahead\<close>

definition asm_ahead :: "asm_lexer \<Rightarrow> string" where
  "asm_ahead l = drop (apos l) (atext l)"

lemma asm_ahead_end: "asm_at_end l \<longleftrightarrow> asm_ahead l = []"
  by (simp add: asm_ahead_def asm_at_end_def)

lemma asm_ahead_peek:
  assumes "asm_ahead l = c # r"
  shows "\<not> asm_at_end l" "asm_peek l = c" "asm_ahead (asm_advance l) = r"
    "asm_peek_next l = (case r of [] \<Rightarrow> CHR 0x00 | d # _ \<Rightarrow> d)"
proof -
  have p: "apos l < length (atext l)" using assms by (simp add: asm_ahead_def) (metis drop_all list.distinct(1) not_le)
  show n: "\<not> asm_at_end l" using p by (simp add: asm_at_end_def)
  have d: "drop (apos l) (atext l) = atext l ! apos l # drop (Suc (apos l)) (atext l)"
    using p by (simp add: Cons_nth_drop_Suc)
  show "asm_peek l = c" using n d assms by (simp add: asm_peek_def asm_ahead_def)
  show a: "asm_ahead (asm_advance l) = r" using d assms by (simp add: asm_ahead_def)
  show "asm_peek_next l = (case r of [] \<Rightarrow> CHR 0x00 | d # _ \<Rightarrow> d)"
    using a by (auto simp: asm_peek_next_def asm_ahead_def Cons_nth_drop_Suc [symmetric] not_le split: list.split)
qed

text \<open>The cursor has read \<open>w\<close>, up to \<open>r\<close>.\<close>

definition asm_read :: "asm_lexer \<Rightarrow> string \<Rightarrow> string \<Rightarrow> asm_lexer \<Rightarrow> bool" where
  "asm_read l w r l' \<longleftrightarrow> asm_ahead l = w @ r \<and> asm_ahead l' = r \<and> atext l' = atext l
     \<and> apos l' = apos l + length w \<and> aengine l' = aengine l"

lemma asm_read_substr: "asm_read l w r l' \<Longrightarrow> substr (atext l) (apos l) (apos l' - apos l) = w"
  by (simp add: asm_read_def substr_def asm_ahead_def)

lemma asm_read_advance: "asm_ahead l = c # r \<Longrightarrow> asm_read l [c] r (asm_advance l)"
  using asm_ahead_peek(3) [of l c r] by (simp add: asm_read_def)

lemma asm_read_trans: "asm_read l v (w @ r) l' \<Longrightarrow> asm_read l' w r l'' \<Longrightarrow> asm_read l (v @ w) r l''"
  by (simp add: asm_read_def)

lemma asm_read_while:
  assumes "asm_ahead l = w @ r" "list_all P w" "r = [] \<or> \<not> P (hd r)"
  shows "asm_read l w r (asm_advance_while P l)"
  using assms
proof (induction w arbitrary: l)
  case Nil
  then have "asm_advance_while P l = l"
    using asm_ahead_peek(2) [of l "hd r" "tl r"] by (subst asm_advance_while.simps) (auto simp: asm_ahead_end)
  then show ?case using Nil by (simp add: asm_read_def)
next
  case (Cons c w)
  have a: "asm_ahead l = c # w @ r" using Cons.prems(1) by simp
  note p = asm_ahead_peek [OF a]
  have "asm_read (asm_advance l) w r (asm_advance_while P (asm_advance l))"
    using Cons p by simp
  then have "asm_read l ([c] @ w) r (asm_advance_while P (asm_advance l))"
    using asm_read_advance [OF a] by (rule asm_read_trans [rotated])
  then show ?case using p Cons.prems(2) by (subst asm_advance_while.simps) simp
qed

section \<open>Single tokens\<close>

text \<open>One token was read: the cursor stands before \<open>r\<close>, nothing was reported, \<open>t\<close> was added but for its location.\<close>

definition asm_lexed :: "asm_lexer \<Rightarrow> asm_token list \<Rightarrow> asm_token \<Rightarrow> string \<Rightarrow> asm_lexer \<times> asm_token list \<Rightarrow> bool" where
  "asm_lexed l ts t r res \<longleftrightarrow> asm_ahead (fst res) = r \<and> aengine (fst res) = aengine l
     \<and> (\<exists>t'. snd res = ts @ [t'] \<and> erase_token t' = t)"

definition ends_word :: "string \<Rightarrow> bool" where
  "ends_word r \<longleftrightarrow> r = [] \<or> hd r \<in> {CHR '' '', CHR '','', newline}"

lemma ends_word_not:
  "ends_word r \<Longrightarrow> r = [] \<or> \<not> is_ident_continue (hd r)"
  "ends_word r \<Longrightarrow> r = [] \<or> \<not> is_digit (hd r)"
  by (auto simp: ends_word_def is_ident_continue_def is_alpha_numeric_def is_alpha_def is_digit_def)

definition word_token :: "string \<Rightarrow> asm_token" where
  "word_token w = (case lookup_register (to_lower w) of
     Some reg \<Rightarrow> (plain_asm_token AsmRegister default_location)\<lparr>asm_text := to_lower w, width_bits := snd (snd reg)\<rparr>
   | None \<Rightarrow> (plain_asm_token AsmIdentifier default_location)\<lparr>asm_text := w\<rparr>)"

lemma lex_word_lexes:
  assumes "asm_ahead l = w @ r" "word_text w" "ends_word r"
  shows "asm_lexed l ts (word_token w) r (lex_word l ts)"
proof -
  have "asm_read l w r (asm_advance_while is_ident_continue l)"
    using assms by (intro asm_read_while ends_word_not(1)) (simp_all add: word_text_def)
  note this asm_read_substr [OF this]
  then show ?thesis
    by (auto simp: asm_lexed_def lex_word_def Let_def word_token_def erase_token_def plain_asm_token_def asm_read_def
        split: option.split)
qed

definition operand_token :: "ast_asm_operand \<Rightarrow> asm_token" where
  "operand_token op = (case op of
     AsmRegisterOperand n w loc \<Rightarrow> (plain_asm_token AsmRegister default_location)\<lparr>asm_text := n, width_bits := w\<rparr>
   | AsmImmediateOperand v loc \<Rightarrow>
       (plain_asm_token AsmImmediate default_location)\<lparr>asm_text := show_int v, int_value := v\<rparr>
   | AsmVariableOperand n addr loc \<Rightarrow>
       (plain_asm_token (if addr then AsmAddressOf else AsmIdentifier) default_location)\<lparr>asm_text := n\<rparr>)"

lemma lex_address_of_lexes:
  assumes "asm_ahead l = CHR ''&'' # w @ r" "word_text w" "ends_word r"
  shows "asm_lexed l ts (operand_token (AsmVariableOperand w True loc)) r (lex_address_of l ts)"
proof -
  let ?l1 = "asm_advance l"
  have a: "asm_ahead ?l1 = w @ r" by (rule asm_ahead_peek(3) [OF assms(1)])
  have s: "\<not> asm_at_end ?l1" "is_ident_start (asm_peek ?l1)"
    using asm_ahead_peek(1,2) [of ?l1 "hd w" "tl w @ r"] a assms(2) by (simp_all add: word_text_def)
  have "asm_read ?l1 w r (asm_advance_while is_ident_continue ?l1)"
    using assms a by (intro asm_read_while ends_word_not(1)) (simp_all add: word_text_def)
  note this asm_read_substr [OF this]
  then show ?thesis using s
    by (auto simp: asm_lexed_def lex_address_of_def Let_def operand_token_def erase_token_def plain_asm_token_def
        asm_read_def)
qed

lemma show_nat_nonempty [simp]: "show_nat n \<noteq> []"
  unfolding show_nat_def by (subst show_base.simps) simp

lemma from_chars_decimal:
  "from_chars (show_nat n) 10 = (if n < 2 ^ 63 then Converted (int n) else OutOfRange)"
proof -
  have d: "is_digit c" if "c \<in> set (show_nat n)" for c
    using show_nat_digits [OF that] by (simp add: is_digit_def)
  have "foldl (\<lambda>a c. 10 * a + digit_value c) 0 (show_nat n) = decimal_value (show_nat n)"
    unfolding decimal_value_def by (rule foldl_cong) (auto simp: digit_value_def d)
  then show ?thesis by (simp add: from_chars_def)
qed

text \<open>A printed integer is scanned whole, and its magnitude converted.\<close>

lemma lex_number_scans:
  assumes "asm_ahead l = show_int v @ r" "ends_word r"
  obtains l3 where "asm_read l (show_int v) r l3"
    "asm_lex_number l ts = (case from_chars (show_nat (nat \<bar>v\<bar>)) 10 of
       OutOfRange \<Rightarrow> (asm_error (current_location l) ''integer immediate does not fit in 64 bits'' l3, ts)
     | NoDigits \<Rightarrow> (asm_error (current_location l) ''malformed integer immediate in asm block'' l3, ts)
     | Converted m \<Rightarrow> (l3, ts @ [(plain_asm_token AsmImmediate (current_location l))
         \<lparr>asm_text := show_int v, int_value := if v < 0 then - m else m\<rparr>]))"
proof -
  define n where "n = nat \<bar>v\<bar>"
  define l1 where "l1 = (if asm_peek l = CHR ''-'' then asm_advance l else l)"
  obtain d ds where ds: "show_nat n = d # ds"
    by (cases "show_nat n") simp_all
  have digits: "list_all is_digit (show_nat n)"
    using show_nat_digits [of _ n] by (fastforce simp: list_all_iff is_digit_def)
  then have dd: "is_digit d" "d \<noteq> CHR ''-''" by (auto simp: ds is_digit_def)
  have sgn: "asm_peek l = CHR ''-'' \<longleftrightarrow> v < 0"
    using assms(1) dd ds asm_ahead_peek(2) [of l d "ds @ r"] asm_ahead_peek(2) [of l "CHR ''-''" "show_nat n @ r"]
    by (cases "v < 0") (simp_all add: show_int_def n_def)
  have a1: "asm_ahead l1 = show_nat n @ r"
    using assms(1) sgn asm_ahead_peek(3) [of l "CHR ''-''" "show_nat n @ r"]
    by (auto simp: l1_def show_int_def n_def)
  have "asm_peek_next l1 = (case ds @ r of [] \<Rightarrow> CHR 0x00 | d # _ \<Rightarrow> d)"
    using asm_ahead_peek(4) [of l1 d "ds @ r"] a1 ds by simp
  then have nxt: "asm_peek_next l1 \<noteq> CHR ''x''" "asm_peek_next l1 \<noteq> CHR ''X''"
    using digits assms(2) by (cases ds; cases r; auto simp: ds is_digit_def ends_word_def)+
  let ?l3 = "asm_advance_while is_digit l1"
  have rd: "asm_read l1 (show_nat n) r ?l3"
    using a1 digits ends_word_not(2) [OF assms(2)] by (rule asm_read_while)
  have dot: "asm_peek ?l3 \<noteq> CHR ''.''"
    using rd assms(2) asm_ahead_peek(2) [of ?l3 "hd r" "tl r"]
    by (cases "r = []") (auto simp: asm_read_def ends_word_def asm_peek_def asm_ahead_end)
  have whole: "asm_read l (show_int v) r ?l3"
    using rd sgn assms(1) by (auto simp: asm_read_def l1_def show_int_def n_def)
  have l1: "atext l = atext l1" by (simp add: l1_def)
  have "asm_lex_number l ts = (case from_chars (show_nat (nat \<bar>v\<bar>)) 10 of
       OutOfRange \<Rightarrow> (asm_error (current_location l) ''integer immediate does not fit in 64 bits'' ?l3, ts)
     | NoDigits \<Rightarrow> (asm_error (current_location l) ''malformed integer immediate in asm block'' ?l3, ts)
     | Converted m \<Rightarrow> (?l3, ts @ [(plain_asm_token AsmImmediate (current_location l))
         \<lparr>asm_text := show_int v, int_value := if v < 0 then - m else m\<rparr>]))"
    unfolding asm_lex_number_def Let_def l1_def [symmetric]
    using nxt dot asm_read_substr [OF rd] asm_read_substr [OF whole] sgn
    by (simp add: l1 n_def cong: conversion.case_cong)
  with whole show thesis by (rule that)
qed

lemma lex_number_lexes:
  assumes "asm_ahead l = show_int v @ r" "\<bar>v\<bar> < 2 ^ 63" "ends_word r"
  shows "asm_lexed l ts (operand_token (AsmImmediateOperand v loc)) r (asm_lex_number l ts)"
proof -
  have "from_chars (show_nat (nat \<bar>v\<bar>)) 10 = Converted \<bar>v\<bar>"
    using assms(2) by (simp add: from_chars_decimal nat_less_iff)
  then show ?thesis
    by (rule_tac lex_number_scans [OF assms(1,3), of ts])
      (auto simp: asm_lexed_def operand_token_def erase_token_def plain_asm_token_def asm_read_def)
qed

section \<open>Runs of the loop\<close>

text \<open>Before \<open>text @ r\<close>, the loop reads \<open>text\<close> as the tokens \<open>es\<close> and goes on before \<open>r\<close>.\<close>

definition reads :: "string \<Rightarrow> asm_token list \<Rightarrow> string \<Rightarrow> bool" where
  "reads text es r \<longleftrightarrow> (\<forall>l ts. asm_ahead l = text @ r \<longrightarrow> (\<exists>l' ts'. asm_loop l ts = asm_loop l' (ts @ ts')
     \<and> map erase_token ts' = es \<and> asm_ahead l' = r \<and> aengine l' = aengine l))"

lemma reads_Nil [simp]: "reads [] [] r"
  by (auto simp: reads_def)

lemma reads_append:
  assumes "reads t1 e1 (t2 @ r)" "reads t2 e2 r"
  shows "reads (t1 @ t2) (e1 @ e2) r"
  unfolding reads_def
proof (intro allI impI)
  fix l ts
  assume "asm_ahead l = (t1 @ t2) @ r"
  then obtain l1 ts1 where 1: "asm_loop l ts = asm_loop l1 (ts @ ts1)" "map erase_token ts1 = e1"
      "asm_ahead l1 = t2 @ r" "aengine l1 = aengine l"
    using assms(1) unfolding reads_def append_assoc by blast
  then obtain l2 ts2 where "asm_loop l1 (ts @ ts1) = asm_loop l2 ((ts @ ts1) @ ts2)" "map erase_token ts2 = e2"
      "asm_ahead l2 = r" "aengine l2 = aengine l1"
    using assms(2) unfolding reads_def by blast
  then show "\<exists>l' ts'. asm_loop l ts = asm_loop l' (ts @ ts') \<and> map erase_token ts' = e1 @ e2 \<and> asm_ahead l' = r
      \<and> aengine l' = aengine l"
    using 1 by (intro exI [of _ l2] exI [of _ "ts1 @ ts2"]) simp
qed

definition starts_token :: "char \<Rightarrow> bool" where
  "starts_token c \<longleftrightarrow> c \<notin> {CHR '' '', CHR 0x09, carriage_return, CHR '';'', CHR ''#''}"

lemma skip_horizontal_none:
  assumes "asm_ahead l = [] \<or> starts_token (hd (asm_ahead l))"
  shows "skip_horizontal_ws_and_comment l = l"
  using assms asm_ahead_peek(2) [of l "hd (asm_ahead l)" "tl (asm_ahead l)"]
  by (subst skip_horizontal_ws_and_comment.simps) (auto simp: asm_ahead_end starts_token_def)

lemma skip_horizontal_blank:
  assumes "asm_ahead l = CHR '' '' # w" "w = [] \<or> starts_token (hd w)"
  shows "skip_horizontal_ws_and_comment l = asm_advance l"
  using asm_ahead_peek [OF assms(1)] assms(2) skip_horizontal_none [of "asm_advance l"]
  by (subst skip_horizontal_ws_and_comment.simps) simp

lemma reads_token:
  assumes lexes: "\<And>l ts. asm_ahead l = text @ r \<Longrightarrow> asm_lexed l ts t r (asm_lex_token l ts)"
    and pad: "pad = [] \<or> pad = '' ''"
    and start: "text \<noteq> []" "starts_token (hd text)" "hd text \<noteq> newline"
  shows "reads (pad @ text) [t] r"
  unfolding reads_def
proof (intro allI impI)
  fix l ts
  assume a: "asm_ahead l = (pad @ text) @ r"
  define l1 where "l1 = skip_horizontal_ws_and_comment l"
  have 1: "asm_ahead l1 = text @ r \<and> aengine l1 = aengine l"
    using pad
  proof
    assume "pad = []"
    then show ?thesis using a start skip_horizontal_none [of l] by (simp add: l1_def)
  next
    assume "pad = '' ''"
    then have b: "asm_ahead l = CHR '' '' # text @ r" using a by simp
    then show ?thesis using start skip_horizontal_blank [OF b] asm_ahead_peek(3) [OF b] by (simp add: l1_def)
  qed
  then have p: "\<not> asm_at_end l1" "asm_peek l1 \<noteq> newline"
    using asm_ahead_peek(1,2) [of l1 "hd text" "tl text @ r"] start by simp_all
  obtain l2 ts2 where x: "asm_lex_token l1 ts = (l2, ts2)" by fastforce
  have 2: "asm_lexed l1 ts t r (l2, ts2)" using lexes [of l1 ts] 1 x by simp
  have "asm_loop l ts = asm_loop l2 ts2"
    using p x by (subst asm_loop.simps) (simp add: asm_iteration_def l1_def [symmetric] Let_def)
  then show "\<exists>l' ts'. asm_loop l ts = asm_loop l' (ts @ ts') \<and> map erase_token ts' = [t] \<and> asm_ahead l' = r
      \<and> aengine l' = aengine l"
    using 1 2 by (intro exI [of _ l2] exI [of _ "[last ts2]"]) (auto simp: asm_lexed_def)
qed

lemma ident_start_facts:
  assumes "is_ident_start c"
  shows "starts_token c" "c \<noteq> newline" "c \<noteq> CHR ''&''" "c \<noteq> CHR '',''" "c \<noteq> CHR ''-''" "\<not> is_digit c"
  using assms by (auto simp: is_ident_start_def is_alpha_def is_digit_def starts_token_def)

lemma reads_word:
  assumes "word_text w" "ends_word r" "pad = [] \<or> pad = '' ''"
  shows "reads (pad @ w) [word_token w] r"
proof (rule reads_token)
  fix l ts
  assume a: "asm_ahead l = w @ r"
  have "is_ident_start (asm_peek l)"
    using asm_ahead_peek(2) [of l "hd w" "tl w @ r"] a assms(1) by (simp add: word_text_def)
  then show "asm_lexed l ts (word_token w) r (asm_lex_token l ts)"
    using lex_word_lexes [OF a assms(1,2)] by (simp add: asm_lex_token_def)
qed (use assms in \<open>auto simp: word_text_def dest: ident_start_facts\<close>)

definition comma_token :: asm_token where
  "comma_token = plain_asm_token AsmComma default_location"

definition newline_token :: asm_token where
  "newline_token = plain_asm_token AsmNewline default_location"

lemma reads_comma: "reads '','' [comma_token] r"
proof -
  have "reads ([] @ '','') [comma_token] r"
  proof (rule reads_token)
    fix l ts
    assume a: "asm_ahead l = '','' @ r"
    then have "asm_peek l = CHR '',''" "asm_ahead (asm_advance l) = r" using asm_ahead_peek(2,3) [of l "CHR '',''" r] by simp_all
    then show "asm_lexed l ts comma_token r (asm_lex_token l ts)"
      by (simp add: asm_lex_token_def is_ident_start_def is_alpha_def is_digit_def asm_single_def asm_lexed_def
          comma_token_def erase_token_def plain_asm_token_def)
  qed (simp_all add: starts_token_def)
  then show ?thesis by simp
qed

lemma reads_newline:
  assumes "r = [] \<or> is_ident_start (hd r)"
  shows "reads [newline] [newline_token] r"
  unfolding reads_def
proof (intro allI impI)
  fix l ts
  assume "asm_ahead l = [newline] @ r"
  then have a: "asm_ahead l = newline # r" by simp
  note p = asm_ahead_peek(1-3) [OF a]
  have s: "skip_horizontal_ws_and_comment l = l"
    using skip_horizontal_none [of l] a by (simp add: starts_token_def)
  have "newline_run (asm_advance l) = asm_advance l"
  proof (cases "r = []")
    case True
    then show ?thesis using p by (subst newline_run.simps) (simp add: asm_ahead_end)
  next
    case False
    then have "asm_peek (asm_advance l) \<noteq> newline"
      using asm_ahead_peek(2) [of "asm_advance l" "hd r" "tl r"] p assms by (auto dest: ident_start_facts)
    then show ?thesis
      using skip_horizontal_none [of "asm_advance l"] p assms False
      by (subst newline_run.simps) (auto dest: ident_start_facts)
  qed
  then have "newline_run l = asm_advance l" using p s by (subst newline_run.simps) simp
  then have "asm_loop l ts = asm_loop (asm_advance l) (ts @ [plain_asm_token AsmNewline (current_location l)])"
    using p s by (subst asm_loop.simps) (simp add: asm_iteration_def)
  then show "\<exists>l' ts'. asm_loop l ts = asm_loop l' (ts @ ts') \<and> map erase_token ts' = [newline_token]
      \<and> asm_ahead l' = r \<and> aengine l' = aengine l"
    using p by (intro exI [of _ "asm_advance l"] exI [of _ "[plain_asm_token AsmNewline (current_location l)]"])
      (simp add: newline_token_def erase_token_def plain_asm_token_def)
qed

section \<open>Instructions as tokens\<close>

lemma register_words: "list_all (\<lambda>(n, f, w). word_text n \<and> to_lower n = n) registers"
  by (simp add: registers_def word_text_def is_ident_start_def is_ident_continue_def is_alpha_numeric_def is_alpha_def
      is_digit_def to_lower_def lower_char_def)

lemma lookup_register_name: "lookup_register n = Some reg \<Longrightarrow> word_text n \<and> to_lower n = n"
  using register_words by (auto simp: lookup_register_def find_Some_iff list_all_length)

lemma reads_operand:
  assumes "valid_operand op" "ends_word r" "pad = [] \<or> pad = '' ''"
  shows "reads (pad @ print_operand op) [operand_token op] r"
proof (cases op)
  case (AsmRegisterOperand n w loc)
  then obtain reg where "lookup_register n = Some reg" "snd (snd reg) = w"
    using assms(1) by (auto simp: comp_def)
  then show ?thesis
    using reads_word [of n r pad] lookup_register_name [of n reg] assms AsmRegisterOperand
    by (simp add: word_token_def operand_token_def)
next
  case (AsmImmediateOperand v loc)
  obtain c cs where s: "show_int v = c # cs" by (cases "show_int v") (auto simp: show_int_def split: if_splits)
  obtain d ds where ds: "show_nat (nat \<bar>v\<bar>) = d # ds" by (cases "show_nat (nat \<bar>v\<bar>)") simp_all
  have d: "is_digit d" using show_nat_digits [of d "nat \<bar>v\<bar>"] by (simp add: ds is_digit_def)
  have c: "c = CHR ''-'' \<and> cs = d # ds \<or> c = d"
    using s ds by (auto simp: show_int_def split: if_splits)
  then have c': "starts_token c" "c \<noteq> newline" "\<not> is_ident_start c"
    using d by (auto simp: starts_token_def is_digit_def is_ident_start_def is_alpha_def)
  have "reads (pad @ show_int v) [operand_token op] r"
  proof (rule reads_token)
    fix l ts
    assume a: "asm_ahead l = show_int v @ r"
    have "asm_peek l = c" "c = CHR ''-'' \<longrightarrow> asm_peek_next l = d \<or> is_digit c"
      using asm_ahead_peek(2,4) [of l c "cs @ r"] a c d by (auto simp: s)
    then have "asm_lex_token l ts = asm_lex_number l ts"
      using c c' d by (auto simp: asm_lex_token_def Let_def)
    then show "asm_lexed l ts (operand_token op) r (asm_lex_token l ts)"
      using lex_number_lexes [OF a _ assms(2)] assms(1) AsmImmediateOperand by simp
  qed (use assms c' in \<open>simp_all add: s\<close>)
  then show ?thesis using AsmImmediateOperand by simp
next
  case (AsmVariableOperand n addr loc)
  show ?thesis
  proof (cases addr)
    case True
    have "reads (pad @ CHR ''&'' # n) [operand_token op] r"
    proof (rule reads_token)
      fix l ts
      assume a: "asm_ahead l = (CHR ''&'' # n) @ r"
      then show "asm_lexed l ts (operand_token op) r (asm_lex_token l ts)"
        using asm_ahead_peek(2) [of l "CHR ''&''" "n @ r"] lex_address_of_lexes [of l n r] assms AsmVariableOperand True
        by (simp add: asm_lex_token_def is_ident_start_def is_alpha_def is_digit_def)
    qed (use assms in \<open>simp_all add: starts_token_def\<close>)
    then show ?thesis using AsmVariableOperand True by simp
  next
    case False
    then show ?thesis using reads_word [of n r pad] assms AsmVariableOperand
      by (simp add: word_token_def operand_token_def)
  qed
qed

fun operand_tokens :: "ast_asm_operand list \<Rightarrow> asm_token list" where
  "operand_tokens [] = []"
| "operand_tokens [op] = [operand_token op]"
| "operand_tokens (op # op' # ops) = operand_token op # comma_token # operand_tokens (op' # ops)"

lemma reads_operands:
  assumes "list_all valid_operand ops" "ops \<noteq> []" "ends_word r"
  shows "reads ('' '' @ join '', '' (map print_operand ops)) (operand_tokens ops) r"
  using assms
proof (induction ops rule: operand_tokens.induct)
  case (2 op)
  then show ?case using reads_operand [of op r "'' ''"] by simp
next
  case (3 op op' ops)
  let ?t = "'' '' @ join '', '' (map print_operand (op' # ops))"
  have "reads ('' '' @ print_operand op) [operand_token op] ('','' @ ?t @ r)"
    using 3 by (intro reads_operand) (simp_all add: ends_word_def)
  moreover have "reads ('','' @ ?t) ([comma_token] @ operand_tokens (op' # ops)) r"
    using 3 by (intro reads_append reads_comma) simp_all
  ultimately have "reads (('' '' @ print_operand op) @ '','' @ ?t)
      ([operand_token op] @ [comma_token] @ operand_tokens (op' # ops)) r"
    by (intro reads_append [of _ _ "'','' @ ?t"]) simp_all
  then show ?case by simp
qed simp

definition instruction_tokens :: "ast_asm_instruction \<Rightarrow> asm_token list" where
  "instruction_tokens i = word_token (mnemonic i) # operand_tokens (operands i) @ [newline_token]"

lemma reads_instruction:
  assumes "valid_instruction i" "r = [] \<or> is_ident_start (hd r)"
  shows "reads (print_instruction i) (instruction_tokens i) r"
proof -
  define ot where "ot = (if operands i = [] then [] else '' '' @ join '', '' (map print_operand (operands i)))"
  have "reads ot (operand_tokens (operands i)) ([newline] @ r)"
    using reads_operands [of "operands i"] assms(1) by (auto simp: ot_def valid_instruction_def ends_word_def)
  then have o: "reads (ot @ [newline]) (operand_tokens (operands i) @ [newline_token]) r"
    using reads_newline [OF assms(2)] by (rule reads_append)
  have "ends_word ((ot @ [newline]) @ r)" by (simp add: ot_def ends_word_def)
  then have "reads ([] @ mnemonic i) [word_token (mnemonic i)] ((ot @ [newline]) @ r)"
    using assms(1) by (intro reads_word) (simp_all add: valid_instruction_def)
  from reads_append [OF this o] show ?thesis
    by (simp add: print_instruction_def instruction_tokens_def ot_def)
qed

lemma reads_body:
  "list_all valid_instruction instrs \<Longrightarrow> reads (print_body instrs) (concat (map instruction_tokens instrs)) []"
proof (induction instrs)
  case (Cons i instrs)
  have "print_body instrs = [] \<or> is_ident_start (hd (print_body instrs))"
    using Cons.prems by (cases instrs) (auto simp: print_body_def print_instruction_def valid_instruction_def word_text_def)
  then have "reads (print_instruction i) (instruction_tokens i) (print_body instrs @ [])"
    using Cons.prems by (intro reads_instruction) simp_all
  from reads_append [OF this] Cons show ?case by (simp add: print_body_def)
qed (simp add: print_body_def)

definition eof_token :: asm_token where
  "eof_token = plain_asm_token AsmEof default_location"

lemma tokenize_body:
  assumes "list_all valid_instruction instrs"
  obtains ts where "asm_tokenize (print_body instrs) loc e = (e, ts)"
    "map erase_token ts = concat (map instruction_tokens instrs) @ [eof_token]"
proof -
  let ?l = "AsmLexer (print_body instrs) loc e"
  have "asm_ahead ?l = print_body instrs @ []" by (simp add: asm_ahead_def AsmLexer_def)
  then obtain l' ts' where 1: "asm_loop ?l [] = asm_loop l' ([] @ ts')"
      "map erase_token ts' = concat (map instruction_tokens instrs)" "asm_ahead l' = []" "aengine l' = aengine ?l"
    using reads_body [OF assms] unfolding reads_def by blast
  have "skip_horizontal_ws_and_comment l' = l'" using skip_horizontal_none [of l'] 1(3) by simp
  then have "asm_loop l' ts' = (l', ts' @ [plain_asm_token AsmEof (current_location l')])"
    using 1(3) by (subst asm_loop.simps) (simp add: asm_iteration_def asm_ahead_end)
  then have "asm_tokenize (print_body instrs) loc e = (e, ts' @ [plain_asm_token AsmEof (current_location l')])"
    using 1 by (simp add: asm_tokenize_def AsmLexer_def)
  then show thesis
    using 1(2) that by (simp add: eof_token_def erase_token_def plain_asm_token_def)
qed

section \<open>Parsing the tokens back\<close>

definition cursor_ahead :: "asm_cursor \<Rightarrow> asm_token list" where
  "cursor_ahead c = drop (cpos c) (ctokens c)"

lemma cursor_ahead_current:
  assumes "cursor_ahead c = t # r"
  shows "asm_current c = t" "asm_kind t \<noteq> AsmEof \<Longrightarrow> cursor_ahead (cursor_advance c) = r"
proof -
  have p: "cpos c < length (ctokens c)"
    using assms by (simp add: cursor_ahead_def) (metis drop_all list.distinct(1) not_le)
  then have d: "drop (cpos c) (ctokens c) = ctokens c ! cpos c # drop (Suc (cpos c)) (ctokens c)"
    by (simp add: Cons_nth_drop_Suc)
  show 1: "asm_current c = t" using p d assms by (simp add: asm_current_def cursor_ahead_def)
  show "cursor_ahead (cursor_advance c) = r" if "asm_kind t \<noteq> AsmEof"
    using d assms that 1 by (simp add: cursor_advance_def cursor_at_end_def cursor_ahead_def)
qed

lemma cursor_advance_engine [simp]: "cengine (cursor_advance c) = cengine c"
  by (simp add: cursor_advance_def)

lemma erase_token_eq:
  assumes "erase_token t = u"
  shows "asm_kind t = asm_kind u" "asm_text t = asm_text u" "int_value t = int_value u" "width_bits t = width_bits u"
  using assms by (auto simp: erase_token_def)

lemma parse_operand_inverts:
  assumes a: "cursor_ahead c = t # r" and t: "erase_token t = operand_token op" and v: "valid_operand op"
  obtains op' where "parse_operand c = (cursor_advance c, Some op')" "erase_operand op' = erase_operand op"
    "cursor_ahead (cursor_advance c) = r"
proof -
  note f = erase_token_eq [OF t]
  have "asm_kind t \<noteq> AsmEof" using f by (simp add: operand_token_def plain_asm_token_def split: ast_asm_operand.splits)
  then have n: "cursor_ahead (cursor_advance c) = r" by (rule cursor_ahead_current(2) [OF a])
  have "\<exists>op'. parse_operand c = (cursor_advance c, Some op') \<and> erase_operand op' = erase_operand op"
    using cursor_ahead_current(1) [OF a] f v
    by (cases op) (auto simp: parse_operand_def operand_token_def plain_asm_token_def)
  then show thesis using that n by blast
qed

lemma operand_list_inverts:
  assumes "cursor_ahead c = ts @ t # r" "map erase_token ts = operand_tokens ops" "ops \<noteq> []"
    "list_all valid_operand ops" "asm_kind t = AsmNewline"
  shows "\<exists>c' ops'. operand_list c acc = (c', acc @ ops') \<and> map erase_operand ops' = map erase_operand ops
    \<and> cursor_ahead c' = t # r \<and> cengine c' = cengine c"
  using assms
proof (induction ops arbitrary: c ts acc rule: operand_tokens.induct)
  case (2 op)
  then obtain u where ts: "ts = [u]" "erase_token u = operand_token op" by auto
  then obtain op' where p: "parse_operand c = (cursor_advance c, Some op')" "erase_operand op' = erase_operand op"
      "cursor_ahead (cursor_advance c) = t # r"
    using parse_operand_inverts [of c u "t # r" op] 2 by auto
  have "\<not> asm_check AsmComma (cursor_advance c)"
    using cursor_ahead_current(1) [OF p(3)] 2 by (simp add: asm_check_def)
  then have "operand_list c acc = (cursor_advance c, acc @ [op'])"
    using p(1) by (subst operand_list.simps) simp
  then show ?case using p by (intro exI [of _ "cursor_advance c"] exI [of _ "[op']"]) simp
next
  case (3 op op' ops)
  then obtain u k ts' where ts: "ts = u # k # ts'" "erase_token u = operand_token op" "erase_token k = comma_token"
      "map erase_token ts' = operand_tokens (op' # ops)"
    by (auto simp: map_eq_Cons_conv)
  then obtain o1 where p: "parse_operand c = (cursor_advance c, Some o1)" "erase_operand o1 = erase_operand op"
      "cursor_ahead (cursor_advance c) = k # ts' @ t # r"
    using parse_operand_inverts [of c u "k # ts' @ t # r" op] 3 by auto
  let ?c2 = "cursor_advance (cursor_advance c)"
  have k: "asm_kind k = AsmComma" using erase_token_eq(1) [OF ts(3)] by (simp add: comma_token_def plain_asm_token_def)
  then have c2: "asm_check AsmComma (cursor_advance c)" "cursor_ahead ?c2 = ts' @ t # r"
    using cursor_ahead_current [OF p(3)] by (simp_all add: asm_check_def)
  obtain c' os where r: "operand_list ?c2 (acc @ [o1]) = (c', (acc @ [o1]) @ os)"
      "map erase_operand os = map erase_operand (op' # ops)" "cursor_ahead c' = t # r" "cengine c' = cengine ?c2"
    using 3(1) [OF c2(2) ts(4), of "acc @ [o1]"] 3 by auto
  have "operand_list c acc = (c', acc @ o1 # os)"
    using p(1) c2(1) r(1) by (subst operand_list.simps) simp
  then show ?case using p r by (intro exI [of _ c'] exI [of _ "o1 # os"]) simp
qed simp

lemma skip_newline_one:
  assumes "cursor_ahead c = t # u # r" "asm_kind t = AsmNewline" "asm_kind u \<noteq> AsmNewline"
  shows "skip_newlines c = cursor_advance c" "cursor_ahead (skip_newlines c) = u # r"
proof -
  have a: "cursor_ahead (cursor_advance c) = u # r" using cursor_ahead_current(2) [OF assms(1)] assms(2) by simp
  have "skip_newlines (cursor_advance c) = cursor_advance c"
    using cursor_ahead_current(1) [OF a] assms(3) by (subst skip_newlines.simps) (simp add: asm_check_def)
  then show "skip_newlines c = cursor_advance c"
    using cursor_ahead_current(1) [OF assms(1)] assms(2) by (subst skip_newlines.simps) (simp add: asm_check_def)
  then show "cursor_ahead (skip_newlines c) = u # r" using a by simp
qed

lemma parse_instruction_inverts:
  assumes a: "cursor_ahead c = ts @ u # r" and ts: "map erase_token ts = instruction_tokens i"
    and v: "valid_instruction i" and u: "asm_kind u \<noteq> AsmNewline"
  obtains c' i' where "\<not> cursor_at_end c" "parse_instruction c = (c', Some i')"
    "erase_instruction i' = erase_instruction i" "cursor_ahead (skip_newlines c') = u # r"
    "cengine (skip_newlines c') = cengine c"
proof -
  obtain m os t where t: "ts = m # os @ [t]" "erase_token m = word_token (mnemonic i)"
      "map erase_token os = operand_tokens (operands i)" "erase_token t = newline_token"
    using ts by (auto simp: instruction_tokens_def map_eq_Cons_conv map_eq_append_conv)
  have m: "asm_kind m = AsmIdentifier" "asm_text m = mnemonic i"
    using erase_token_eq(1,2) [OF t(2)] v by (simp_all add: word_token_def plain_asm_token_def valid_instruction_def)
  have n: "asm_kind t = AsmNewline"
    using erase_token_eq(1) [OF t(4)] by (simp add: newline_token_def plain_asm_token_def)
  let ?c1 = "cursor_advance c"
  have cur: "asm_current c = m" "cursor_ahead ?c1 = os @ t # u # r"
    using cursor_ahead_current [of c m "os @ t # u # r"] a t(1) m by simp_all
  let ?i = "\<lparr>mnemonic = mnemonic i, operands = [], instr_location = asm_location m\<rparr>"
  have lower: "to_lower (mnemonic i) = mnemonic i" using v by (simp add: valid_instruction_def)
  obtain c' ops' where p: "parse_instruction c = (c', Some (?i\<lparr>operands := ops'\<rparr>))" "cursor_ahead c' = t # u # r"
      "map erase_operand ops' = map erase_operand (operands i)" "cengine c' = cengine c"
  proof (cases "operands i = []")
    case True
    then have "os = []" using t(3) by simp
    then have "asm_current ?c1 = t" using cursor_ahead_current(1) [of ?c1 t] cur(2) by simp
    then have "parse_instruction c = (?c1, Some ?i)"
      using cur m n lower by (simp add: parse_instruction_def asm_check_def)
    then show thesis using that [of ?c1 "[]"] cur(2) \<open>os = []\<close> True by simp
  next
    case False
    have vo: "list_all valid_operand (operands i)" using v by (simp add: valid_instruction_def)
    obtain c2 ops' where o: "operand_list ?c1 [] = (c2, ops')" "map erase_operand ops' = map erase_operand (operands i)"
        "cursor_ahead c2 = t # u # r" "cengine c2 = cengine c"
      using operand_list_inverts [OF cur(2) t(3) False vo n, of "[]"] by auto
    obtain w ws where w: "os = w # ws" "erase_token w = operand_token (hd (operands i))"
      using t(3) False by (cases "operands i" rule: operand_tokens.cases) auto
    have "asm_current ?c1 = w" using cursor_ahead_current(1) [of ?c1 w] cur(2) w(1) by simp
    moreover have "asm_kind w \<noteq> AsmNewline" "asm_kind w \<noteq> AsmEof"
      using erase_token_eq(1) [OF w(2)] by (simp_all add: operand_token_def plain_asm_token_def split: ast_asm_operand.splits)
    moreover have "asm_current c2 = t" by (rule cursor_ahead_current(1) [OF o(3)])
    ultimately have "parse_instruction c = (c2, Some (?i\<lparr>operands := ops'\<rparr>))"
      using cur m n lower o(1) by (simp add: parse_instruction_def asm_check_def cursor_at_end_def)
    then show thesis using that o by blast
  qed
  have "\<not> cursor_at_end c" using cur(1) m by (simp add: cursor_at_end_def)
  moreover have "erase_instruction (?i\<lparr>operands := ops'\<rparr>) = erase_instruction i"
    using p(3) by (simp add: erase_instruction_def del: map_eq_conv)
  moreover note skip_newline_one [OF p(2) n u]
  ultimately show thesis using that [OF _ p(1)] p(4) by simp
qed

lemma parse_loop_inverts:
  assumes "cursor_ahead c = ts" "map erase_token ts = concat (map instruction_tokens instrs) @ [eof_token]"
    "list_all valid_instruction instrs"
  shows "\<exists>c' instrs'. parse_loop c acc = (c', acc @ instrs')
    \<and> map erase_instruction instrs' = map erase_instruction instrs \<and> cengine c' = cengine c"
  using assms
proof (induction instrs arbitrary: c ts acc)
  case Nil
  then obtain t where "ts = [t]" "erase_token t = eof_token" by auto
  then have "cursor_at_end c"
    using Nil cursor_ahead_current(1) [of c t "[]"] erase_token_eq(1) [of t eof_token]
    by (simp add: cursor_at_end_def eof_token_def plain_asm_token_def)
  then show ?case by (subst parse_loop.simps) simp
next
  case (Cons i instrs)
  then obtain ts1 ts2 where ts: "ts = ts1 @ ts2" "map erase_token ts1 = instruction_tokens i"
      "map erase_token ts2 = concat (map instruction_tokens instrs) @ [eof_token]"
    unfolding list.map concat.simps append_assoc by (metis map_eq_append_conv)
  then obtain u r where u: "ts2 = u # r" by (cases ts2) auto
  have "asm_kind u \<noteq> AsmNewline"
    using ts(3) u Cons.prems(3) erase_token_eq(1) [of u]
    by (cases instrs) (auto simp: instruction_tokens_def word_token_def eof_token_def plain_asm_token_def
        valid_instruction_def)
  then obtain c' i' where p: "\<not> cursor_at_end c" "parse_instruction c = (c', Some i')"
      "erase_instruction i' = erase_instruction i" "cursor_ahead (skip_newlines c') = u # r"
      "cengine (skip_newlines c') = cengine c"
    using parse_instruction_inverts [of c ts1 u r i] Cons.prems ts u by auto
  obtain c2 is2 where "parse_loop (skip_newlines c') (acc @ [i']) = (c2, (acc @ [i']) @ is2)"
      "map erase_instruction is2 = map erase_instruction instrs" "cengine c2 = cengine (skip_newlines c')"
    using Cons.IH [OF p(4), of "acc @ [i']"] ts(3) u Cons.prems(3) by auto
  moreover from this have "parse_loop c acc = (c2, acc @ i' # is2)"
    using p(1,2) by (subst parse_loop.simps) simp
  ultimately show ?case using p(3,5) by (intro exI [of _ c2] exI [of _ "i' # is2"]) simp
qed

lemma parse_inverts:
  assumes "map erase_token ts = concat (map instruction_tokens instrs) @ [eof_token]"
    "list_all valid_instruction instrs"
  obtains stmt where "asm_parse ts e = (e, stmt)"
    "map erase_instruction (instructions stmt) = map erase_instruction instrs"
proof -
  let ?c = "\<lparr>ctokens = ts, cpos = 0, cengine = e\<rparr>"
  have a: "cursor_ahead ?c = ts" by (simp add: cursor_ahead_def)
  obtain t r where t: "ts = t # r" using assms(1) by (cases ts) auto
  have "asm_kind t \<noteq> AsmNewline"
    using assms t erase_token_eq(1) [of t]
    by (cases instrs) (auto simp: instruction_tokens_def word_token_def eof_token_def plain_asm_token_def
        valid_instruction_def)
  then have "skip_newlines ?c = ?c"
    using cursor_ahead_current(1) [of ?c t r] a t by (subst skip_newlines.simps) (simp add: asm_check_def)
  then show thesis
    using parse_loop_inverts [OF a assms, of "[]"] that by (auto simp: asm_parse_def)
qed

section \<open>The round trip\<close>

definition assemble :: "string \<Rightarrow> source_location \<Rightarrow> diagnostic_engine \<Rightarrow> diagnostic_engine \<times> ast_asm_stmt" where
  "assemble text loc e = (let (e1, ts) = asm_tokenize text loc e in asm_parse ts e1)"

text \<open>
  C39: an assembly body printed from instructions with lower-case mnemonics, registers of the table, immediates whose
  magnitude fits in 63 bits and variables that are not register names is tokenized and parsed without a diagnostic,
  and the statement has exactly those instructions but for their locations.
\<close>

theorem asm_body_reads_back:
  assumes "list_all valid_instruction instrs"
  shows "fst (assemble (print_body instrs) loc e) = e \<and>
    map erase_instruction (instructions (snd (assemble (print_body instrs) loc e))) = map erase_instruction instrs"
proof -
  obtain ts where ts: "asm_tokenize (print_body instrs) loc e = (e, ts)"
      "map erase_token ts = concat (map instruction_tokens instrs) @ [eof_token]"
    using tokenize_body [OF assms] .
  obtain stmt where "asm_parse ts e = (e, stmt)"
      "map erase_instruction (instructions stmt) = map erase_instruction instrs"
    using parse_inverts [OF ts(2) assms] .
  then show ?thesis using ts(1) by (simp add: assemble_def del: map_eq_conv)
qed

definition sample_instructions :: "ast_asm_instruction list" where
  "sample_instructions = [
     \<lparr>mnemonic = ''mov'', operands = [AsmRegisterOperand ''rax'' 64 default_location, AsmImmediateOperand (-60) default_location],
      instr_location = default_location\<rparr>,
     \<lparr>mnemonic = ''lea'', operands = [AsmRegisterOperand ''r9d'' 32 default_location,
        AsmVariableOperand ''Buffer'' True default_location], instr_location = default_location\<rparr>,
     \<lparr>mnemonic = ''syscall'', operands = [], instr_location = default_location\<rparr>]"

theorem asm_body_reads_back_witness:
  "print_body sample_instructions = ''mov rax, -60'' @ newline # ''lea r9d, &Buffer'' @ newline # ''syscall'' @ [newline]
   \<and> list_all valid_instruction sample_instructions
   \<and> fst (assemble (print_body sample_instructions) default_location (DiagnosticEngine Map.empty False)) = (DiagnosticEngine Map.empty False)"
proof -
  have v: "list_all valid_instruction sample_instructions"
    by (simp add: sample_instructions_def valid_instruction_def word_text_def is_ident_start_def is_ident_continue_def
        is_alpha_numeric_def is_alpha_def is_digit_def to_lower_def lower_char_def lookup_register_def registers_def)
  moreover have "print_body sample_instructions
      = ''mov rax, -60'' @ newline # ''lea r9d, &Buffer'' @ newline # ''syscall'' @ [newline]"
    by code_simp
  ultimately show ?thesis using asm_body_reads_back [OF v] by blast
qed

text \<open>
  an immediate is rejected when its magnitude does not fit in 63 bits, the smallest 64-bit value
  \<^verbatim>\<open>-9223372036854775808\<close> included: the digits are converted before the sign is applied. The whole immediate is
  consumed, gives no token, and is reported at its first character.
\<close>

theorem immediate_out_of_range:
  assumes "asm_ahead l = show_int v @ r" "ends_word r" "2 ^ 63 \<le> \<bar>v\<bar>"
  shows "snd (asm_lex_number l ts) = ts \<and> asm_ahead (fst (asm_lex_number l ts)) = r
    \<and> aengine (fst (asm_lex_number l ts))
      = report_error (aengine l) LexerStage (current_location l) ''integer immediate does not fit in 64 bits''"
proof -
  have "from_chars (show_nat (nat \<bar>v\<bar>)) 10 = OutOfRange"
    using assms(3) by (simp add: from_chars_decimal nat_less_iff)
  then show ?thesis
    by (rule_tac lex_number_scans [OF assms(1,2), of ts])
      (auto simp: asm_read_def asm_ahead_def asm_error_def)
qed

theorem immediate_out_of_range_witness:
  "let l = AsmLexer (show_int (- (2 ^ 63))) default_location (DiagnosticEngine Map.empty False) in
     asm_ahead l = show_int (- (2 ^ 63)) @ [] \<and> snd (asm_lex_number l []) = []
     \<and> has_errors (aengine (fst (asm_lex_number l [])))"
proof -
  define l where "l = AsmLexer (show_int (- (2 ^ 63))) default_location (DiagnosticEngine Map.empty False)"
  have a: "asm_ahead l = show_int (- (2 ^ 63)) @ []" by (simp add: l_def asm_ahead_def AsmLexer_def)
  have "aengine l = DiagnosticEngine Map.empty False" by (simp add: l_def AsmLexer_def)
  then have "has_errors (report_error (aengine l) LexerStage loc m)" for loc m
    by (simp add: has_errors_def report_error_def report_def DiagnosticEngine_def has_reached_max_errors_def MAX_ERRORS_def
        Let_def)
  then show ?thesis
    using a immediate_out_of_range [OF a, of "[]"] unfolding l_def [symmetric] Let_def by (simp add: ends_word_def)
qed

end
