(* ===== verification/Elf_Writer.thy ===== *)
theory Elf_Writer
  imports Interfaces
begin

text \<open>
  The ELF64 relocatable-object writer (\<^verbatim>\<open>elf_writer.hpp\<close>, \<^verbatim>\<open>elf_writer.cpp\<close>): the object it takes, the
  string tables, the reordered symbol table, the relocation sections and the file itself.
\<close>

section \<open>The object\<close>

datatype elf_section = SecUndefined | SecText | SecData | SecRodata | SecBss

record elf_symbol =
  sy_name :: bytes
  sy_section :: elf_section
  sy_value :: u64
  sy_size :: u64
  is_global :: bool
  is_function :: bool

record elf_reloc =
  rel_in :: elf_section
  rel_offset :: u64
  rel_symbol :: nat
  rel_type :: u32
  rel_addend :: u64

record elf_object =
  text_bytes :: bytes
  data_bytes :: bytes
  rodata_bytes :: bytes
  bss_size :: u64
  text_align :: u64
  data_align :: u64
  rodata_align :: u64
  bss_align :: u64
  symbols :: "elf_symbol list"
  relocations :: "elf_reloc list"

fun section_index :: "elf_section \<Rightarrow> u16" where
  "section_index SecText = 1"
| "section_index SecData = 3"
| "section_index SecRodata = 5"
| "section_index SecBss = 7"
| "section_index SecUndefined = 0"

section \<open>Buffers and string tables\<close>

function pad_to :: "nat \<Rightarrow> bytes \<Rightarrow> bytes" where
  "pad_to align bs = (if align > 1 \<and> length bs mod align \<noteq> 0 then pad_to align (bs @ [0]) else bs)"
  by pat_completeness auto
termination
proof (relation "measure (\<lambda>(align, bs). (align - length bs mod align) mod align)")
  fix align :: nat and bs :: bytes
  assume a: "1 < align \<and> length bs mod align \<noteq> 0"
  define r where "r = length bs mod align"
  have r: "0 < r" "r < align" using a by (auto simp: r_def)
  have "Suc (length bs) mod align = (if Suc r = align then 0 else Suc r)"
    by (simp add: r_def mod_Suc)
  then show "((align, bs @ [0]), (align, bs)) \<in> measure (\<lambda>(align, bs). (align - length bs mod align) mod align)"
    using r by (auto simp: r_def [symmetric])
qed simp

declare pad_to.simps [simp del]

type_synonym string_table = bytes

definition StringTable :: string_table where
  "StringTable = [0]"

definition add_string :: "bytes \<Rightarrow> string_table \<Rightarrow> string_table \<times> u32" where
  "add_string s t = (t @ s @ [0], of_nat (length t))"

section \<open>Symbols and relocations\<close>

definition symbol_order :: "elf_symbol list \<Rightarrow> nat list" where
  "symbol_order syms = sort_key (\<lambda>i. is_global (syms ! i)) [0..<length syms]"

definition symbol_remap :: "elf_symbol list \<Rightarrow> nat list" where
  "symbol_remap syms =
     (let order = symbol_order syms
      in fold (\<lambda>i remap. remap[order ! i := i + 1]) [0..<length order] (replicate (length syms) 0))"

definition first_global :: "elf_symbol list \<Rightarrow> nat" where
  "first_global syms =
     (let order = symbol_order syms
      in case find_index (\<lambda>k. is_global (syms ! k)) order of Some i \<Rightarrow> i + 1 | None \<Rightarrow> length order + 1)"

definition symbol_info :: "elf_symbol \<Rightarrow> byte" where
  "symbol_info s =
     (let bnd = (if is_global s then 1 else 0) :: byte;
          typ = (if sy_section s = SecUndefined then 0 else if is_function s then 2 else 1) :: byte
      in push_bit 4 bnd OR typ)"

definition symbol_entry :: "elf_symbol \<Rightarrow> u32 \<Rightarrow> bytes" where
  "symbol_entry s name =
     le_bytes 4 name @ [symbol_info s, 0] @ le_bytes 2 (section_index (sy_section s))
     @ le_bytes 8 (sy_value s) @ le_bytes 8 (sy_size s)"

definition add_symbol :: "elf_symbol \<Rightarrow> string_table \<times> bytes \<Rightarrow> string_table \<times> bytes" where
  "add_symbol s st = (let (strtab, at) = add_string (sy_name s) (fst st)
     in (strtab, snd st @ symbol_entry s at))"

definition build_symtab :: "elf_symbol list \<Rightarrow> string_table \<times> bytes" where
  "build_symtab syms = fold (\<lambda>i. add_symbol (syms ! i)) (symbol_order syms) (StringTable, replicate 24 0)"

definition rela_entry :: "nat list \<Rightarrow> elf_reloc \<Rightarrow> bytes" where
  "rela_entry remap r =
     le_bytes 8 (rel_offset r)
     @ le_bytes 8 (push_bit 32 (of_nat (remap ! rel_symbol r)) OR ucast (rel_type r) :: u64)
     @ le_bytes 8 (rel_addend r)"

definition build_rela :: "elf_object \<Rightarrow> elf_section \<Rightarrow> bytes" where
  "build_rela ob s =
     concat (map (rela_entry (symbol_remap (symbols ob))) (filter (\<lambda>r. rel_in r = s) (relocations ob)))"

section \<open>The file\<close>

definition ascii :: "string \<Rightarrow> bytes" where
  "ascii s = map of_char s"

definition section_names :: "bytes list" where
  "section_names = map ascii
     [''.text'', ''.rela.text'', ''.data'', ''.rela.data'', ''.rodata'', ''.rela.rodata'', ''.bss'',
      ''.symtab'', ''.strtab'', ''.shstrtab'']"

text \<open>The section-name table with the offsets \<open>add\<close> returned, in order.\<close>

definition build_shstrtab :: "string_table \<times> u32 list" where
  "build_shstrtab = fold (\<lambda>s (t, ats). let (t', at) = add_string s t in (t', ats @ [at])) section_names
     (StringTable, [])"

definition elf_header :: bytes where
  "elf_header =
     [0x7f, 0x45, 0x4c, 0x46, 2, 1, 1, 0] @ replicate 8 0 @ le_bytes 2 (1 :: u16)
     @ le_bytes 2 (0x3E :: u16) @ le_bytes 4 (1 :: u32) @ le_bytes 8 (0 :: u64) @ le_bytes 8 (0 :: u64)
     @ le_bytes 8 (0 :: u64) @ le_bytes 4 (0 :: u32) @ le_bytes 2 (64 :: u16) @ le_bytes 2 (0 :: u16)
     @ le_bytes 2 (0 :: u16) @ le_bytes 2 (64 :: u16) @ le_bytes 2 (11 :: u16) @ le_bytes 2 (10 :: u16)"

type_synonym placed = "u64 \<times> u64"

definition place :: "bytes \<Rightarrow> u64 \<Rightarrow> bytes \<Rightarrow> bytes \<times> placed" where
  "place content align out =
     (let out1 = pad_to (unat align) out
      in (out1 @ content, (of_nat (length out1), of_nat (length content))))"

definition shdr :: "u32 \<Rightarrow> u32 \<Rightarrow> u64 \<Rightarrow> placed \<Rightarrow> u32 \<Rightarrow> u32 \<Rightarrow> u64 \<Rightarrow> u64 \<Rightarrow> bytes" where
  "shdr name type flags placed link info align entsize =
     le_bytes 4 name @ le_bytes 4 type @ le_bytes 8 flags @ le_bytes 8 (0 :: u64)
     @ le_bytes 8 (fst placed) @ le_bytes 8 (snd placed) @ le_bytes 4 link @ le_bytes 4 info
     @ le_bytes 8 align @ le_bytes 8 entsize"

definition patch_u64 :: "nat \<Rightarrow> u64 \<Rightarrow> bytes \<Rightarrow> bytes" where
  "patch_u64 at v bs = fold (\<lambda>i bs. bs[at + i := le_bytes 8 v ! i]) [0..<8] bs"

definition elf_write :: "elf_object \<Rightarrow> bytes" where
  "elf_write ob =
     (let (strtab, symtab) = build_symtab (symbols ob);
          (shstrtab, names) = build_shstrtab;
          (out, text) = place (text_bytes ob) (text_align ob) elf_header;
          (out, rt) = place (build_rela ob SecText) 8 out;
          (out, data) = place (data_bytes ob) (data_align ob) out;
          (out, rd) = place (build_rela ob SecData) 8 out;
          (out, rodata) = place (rodata_bytes ob) (rodata_align ob) out;
          (out, rr) = place (build_rela ob SecRodata) 8 out;
          out = pad_to (unat (bss_align ob)) out;
          bss = (of_nat (length out), bss_size ob);
          (out, symtab_placed) = place symtab 8 out;
          (out, strtab_placed) = place strtab 1 out;
          (out, shstrtab_placed) = place shstrtab 1 out;
          out = pad_to 8 out;
          shoff = length out;
          out = out
            @ shdr 0 0 0 (0, 0) 0 0 0 0
            @ shdr (names ! 0) 1 6 text 0 0 (text_align ob) 0
            @ shdr (names ! 1) 4 0 rt 8 1 8 24
            @ shdr (names ! 2) 1 3 data 0 0 (data_align ob) 0
            @ shdr (names ! 3) 4 0 rd 8 3 8 24
            @ shdr (names ! 4) 1 2 rodata 0 0 (rodata_align ob) 0
            @ shdr (names ! 5) 4 0 rr 8 5 8 24
            @ shdr (names ! 6) 8 3 bss 0 0 (bss_align ob) 0
            @ shdr (names ! 7) 2 0 symtab_placed 9 (of_nat (first_global (symbols ob))) 8 24
            @ shdr (names ! 8) 3 0 strtab_placed 0 0 1 0
            @ shdr (names ! 9) 3 0 shstrtab_placed 0 0 1 0
      in patch_u64 40 (of_nat shoff) out)"

end
