(* ===== verification/Elf_Reader.thy ===== *)
theory Elf_Reader
  imports Elf_Writer
begin

text \<open>
  A reader of ELF64 relocatable objects, as the format defines the fields, and the theorem that it
  recovers from a written file what the object said: section contents, symbols, and relocations with the
  symbols they refer to.
\<close>

section \<open>The reader\<close>

definition word_at :: "nat \<Rightarrow> nat \<Rightarrow> bytes \<Rightarrow> nat" where
  "word_at n off bs = le_nat (take n (drop off bs))"

definition sh_field :: "nat \<Rightarrow> nat \<Rightarrow> bytes \<Rightarrow> nat \<Rightarrow> nat" where
  "sh_field n off f k = word_at n (word_at 8 40 f + 64 * k + off) f"

definition sh_offset :: "bytes \<Rightarrow> nat \<Rightarrow> nat" where
  "sh_offset f k = sh_field 8 24 f k"

definition sh_size :: "bytes \<Rightarrow> nat \<Rightarrow> nat" where
  "sh_size f k = sh_field 8 32 f k"

definition sh_info :: "bytes \<Rightarrow> nat \<Rightarrow> nat" where
  "sh_info f k = sh_field 4 44 f k"

definition section_content :: "bytes \<Rightarrow> nat \<Rightarrow> bytes" where
  "section_content f k = take (sh_size f k) (drop (sh_offset f k) f)"

definition c_string :: "bytes \<Rightarrow> nat \<Rightarrow> bytes" where
  "c_string t at = takeWhile (\<lambda>b. b \<noteq> 0) (drop at t)"

definition chunk :: "nat \<Rightarrow> bytes \<Rightarrow> nat \<Rightarrow> bytes" where
  "chunk n bs i = take n (drop (n * i) bs)"

text \<open>A symbol as the table shows it: name, binding and type, section index, value and size.\<close>

type_synonym symbol_view = "bytes \<times> byte \<times> nat \<times> nat \<times> nat"

definition symbol_view :: "elf_symbol \<Rightarrow> symbol_view" where
  "symbol_view s = (sy_name s, symbol_info s, unat (section_index (sy_section s)), unat (sy_value s), unat (sy_size s))"

definition read_symbol :: "bytes \<Rightarrow> nat \<Rightarrow> symbol_view" where
  "read_symbol f j =
     (let e = chunk 24 (section_content f 8) j
      in (c_string (section_content f 9) (word_at 4 0 e), e ! 4, word_at 2 6 e, word_at 8 8 e, word_at 8 16 e))"

text \<open>The relocations of a section with the symbols they name.\<close>

definition read_relocs :: "bytes \<Rightarrow> nat \<Rightarrow> (nat \<times> symbol_view \<times> nat \<times> nat) list" where
  "read_relocs f k =
     (let c = section_content f k
      in map (\<lambda>i. let e = chunk 24 c i
           in (word_at 8 0 e, read_symbol f (word_at 4 12 e), word_at 4 8 e, word_at 8 16 e))
         [0..<length c div 24])"

definition reloc_view :: "elf_object \<Rightarrow> elf_reloc \<Rightarrow> nat \<times> symbol_view \<times> nat \<times> nat" where
  "reloc_view ob r =
     (unat (rel_offset r), symbol_view (symbols ob ! rel_symbol r), unat (rel_type r), unat (rel_addend r))"

section \<open>Equal-sized chunks\<close>

lemma chunk_concat:
  assumes "\<forall>x \<in> set xss. length x = n" "i < length xss"
  shows "chunk n (concat xss) i = xss ! i"
  using assms
proof (induction xss arbitrary: i)
  case (Cons x xss)
  then show ?case by (cases i) (simp_all add: chunk_def)
qed simp

lemma length_concat_chunks: "\<forall>x \<in> set xss. length x = n \<Longrightarrow> length (concat xss) = n * length xss"
  by (induction xss) simp_all

section \<open>Padding and patching\<close>

lemma pad_to_prefix: "\<exists>z. pad_to a bs = bs @ z"
proof (induction a bs rule: pad_to.induct)
  case (1 a bs)
  then show ?case by (subst pad_to.simps) auto
qed

lemma pad_to_aligned: "1 < a \<Longrightarrow> a dvd length (pad_to a bs)"
proof (induction a bs rule: pad_to.induct)
  case (1 a bs)
  then show ?case by (subst pad_to.simps) auto
qed

lemma patch_u64_eq:
  assumes "at + 8 \<le> length bs"
  shows "patch_u64 at v bs = take at bs @ le_bytes 8 v @ drop (at + 8) bs"
proof (rule nth_equalityI)
  show "length (patch_u64 at v bs) = length (take at bs @ le_bytes 8 v @ drop (at + 8) bs)"
    using assms by (simp add: patch_u64_def upt_rec)
next
  fix i assume "i < length (patch_u64 at v bs)"
  then have i: "i < length bs" by (simp add: patch_u64_def upt_rec)
  show "patch_u64 at v bs ! i = (take at bs @ le_bytes 8 v @ drop (at + 8) bs) ! i"
  proof (cases "at \<le> i \<and> i < at + 8")
    case True
    then obtain j where j: "i = at + j" "j < 8" by (metis le_add_diff_inverse nat_add_left_cancel_less)
    then have "j \<in> {0, 1, 2, 3, 4, 5, 6, 7}" by auto
    then show ?thesis
      using i j assms by (auto simp: patch_u64_def upt_rec nth_append nth_list_update numeral_nat)
  next
    case False
    then show ?thesis
      using i assms by (auto simp: patch_u64_def upt_rec nth_append nth_list_update)
  qed
qed

definition holds :: "bytes \<Rightarrow> nat \<Rightarrow> bytes \<Rightarrow> bool" where
  "holds f off c \<longleftrightarrow> off + length c \<le> length f \<and> take (length c) (drop off f) = c"

lemma holds_append: "holds f off c \<Longrightarrow> holds (f @ x) off c"
  by (simp add: holds_def)

lemma holds_end: "holds (f @ c) (length f) c"
  by (simp add: holds_def)

lemma holds_sub:
  assumes "holds f off (a @ c @ b)"
  shows "holds f (off + length a) c"
proof -
  have "drop (length a) (take (length (a @ c @ b)) (drop off f)) = c @ b"
    using assms by (simp add: holds_def)
  then have "take (length c) (take (length (c @ b)) (drop (length a) (drop off f))) = c"
    by (simp add: drop_take)
  then show ?thesis using assms by (simp add: holds_def add.commute)
qed

lemma holds_patch:
  assumes "holds f off c" "at + 8 \<le> off" 
  shows "holds (patch_u64 at v f) off c"
proof -
  have l: "at + 8 \<le> length f" using assms by (simp add: holds_def)
  have "drop off (patch_u64 at v f) = drop off f"
    using l assms(2) by (simp add: patch_u64_eq)
  moreover have "length (patch_u64 at v f) = length f" using l by (simp add: patch_u64_eq)
  ultimately show ?thesis using assms(1) by (simp add: holds_def)
qed

lemma holds_word: "holds f off c \<Longrightarrow> n = length c \<Longrightarrow> word_at n off f = le_nat c"
  by (simp add: holds_def word_at_def)

lemma place_holds:
  assumes "place c a out = (out', p)"
  shows "\<exists>off z. out' = (out @ z) @ c \<and> off = length (out @ z) \<and> p = (of_nat off, of_nat (length c))
    \<and> (1 < unat a \<longrightarrow> unat a dvd off)"
proof -
  obtain z where z: "pad_to (unat a) out = out @ z" using pad_to_prefix by blast
  show ?thesis
    using assms pad_to_aligned [of "unat a" out] by (auto simp: place_def z Let_def)
qed

section \<open>Symbol order\<close>

lemma symbol_order_perm: "set (symbol_order syms) = {..<length syms}" "distinct (symbol_order syms)"
  "length (symbol_order syms) = length syms"
  by (auto simp: symbol_order_def)

lemma remap_fold:
  assumes "distinct order" "set order \<subseteq> {..<length r}" "n \<le> length order" "p < n"
  shows "fold (\<lambda>i r. r[order ! i := i + 1]) [0..<n] r ! (order ! p) = p + 1"
  using assms
proof (induction n)
  case (Suc n)
  have "length (fold (\<lambda>i r. r[order ! i := i + 1]) [0..<n] r) = length r" for n
    by (induction n) simp_all
  moreover have "order ! n < length r" "order ! p < length r"
    using Suc.prems nth_mem [of n order] nth_mem [of p order]
    by (metis Suc_le_lessD less_le_trans lessThan_iff subsetD)+
  moreover have "order ! p = order ! n \<longleftrightarrow> p = n"
    using Suc.prems by (simp add: nth_eq_iff_index_eq)
  ultimately show ?case
    using Suc by (auto simp: nth_list_update less_Suc_eq)
qed simp

lemma symbol_remap_nth:
  "p < length syms \<Longrightarrow> symbol_remap syms ! (symbol_order syms ! p) = p + 1"
  using remap_fold [of "symbol_order syms" "replicate (length syms) 0" "length syms" p]
  by (simp add: symbol_remap_def symbol_order_perm Let_def)

lemma symbol_remap_obtain:
  assumes "i < length syms"
  obtains p where "p < length syms" "symbol_order syms ! p = i" "symbol_remap syms ! i = p + 1"
proof -
  have "i \<in> set (symbol_order syms)" using assms symbol_order_perm(1) by auto
  then obtain p where "p < length syms" "symbol_order syms ! p = i"
    by (auto simp: in_set_conv_nth symbol_order_perm(3))
  then show thesis using that symbol_remap_nth by metis
qed

lemma symbol_remap_inverse:
  assumes "i < length syms"
  shows "symbol_order syms ! (symbol_remap syms ! i - 1) = i" "symbol_remap syms ! i \<in> {1..length syms}"
  by (rule symbol_remap_obtain [OF assms]; simp)+

text \<open>The locals come first: the position of a symbol decides its binding.\<close>

lemma sorted_bool_split:
  assumes "sorted (map f xs)" "find_index f xs = Some m \<or> find_index f xs = None \<and> m = length xs" "p < length xs"
  shows "(f (xs ! p) :: bool) \<longleftrightarrow> m \<le> p"
proof (cases "find_index f xs")
  case None
  then have "\<forall>x \<in> set xs. \<not> f x" "m = length xs"
    using assms(2) find_index_None [of f xs] by simp_all
  then show ?thesis using assms(3) by simp
next
  case (Some k)
  then have k: "m = k" "k < length xs" "f (xs ! k)" "\<forall>j < k. \<not> f (xs ! j)"
    using assms(2) find_index_Some [OF Some] by auto
  have "f (xs ! k) \<le> f (xs ! p)" if "k \<le> p"
    using sorted_nth_mono [OF assms(1) that] assms(3) k(2) by simp
  then show ?thesis using k by (cases "k \<le> p") auto
qed

lemma order_global_iff:
  assumes "p < length syms"
  shows "is_global (syms ! (symbol_order syms ! p)) \<longleftrightarrow> first_global syms \<le> p + 1"
proof -
  let ?f = "\<lambda>i. is_global (syms ! i)"
  have "sorted (map ?f (symbol_order syms))" by (simp add: symbol_order_def)
  from sorted_bool_split [OF this, of "first_global syms - 1" p] show ?thesis
    using assms symbol_order_perm(3) [of syms]
    by (auto simp: first_global_def Let_def split: option.splits)
qed

lemma first_global_range: "1 \<le> first_global syms \<and> first_global syms \<le> length syms + 1"
proof (cases "find_index (\<lambda>k. is_global (syms ! k)) (symbol_order syms)")
  case (Some k)
  then show ?thesis using find_index_Some [OF Some] by (simp add: first_global_def symbol_order_perm(3))
qed (simp add: first_global_def symbol_order_perm(3))

section \<open>The symbol table\<close>

definition named :: "elf_symbol list \<Rightarrow> bytes" where
  "named ss = concat (map (\<lambda>s. sy_name s @ [0]) ss)"

definition name_offset :: "elf_symbol list \<Rightarrow> nat \<Rightarrow> nat" where
  "name_offset ss p = 1 + length (named (take p ss))"

lemma add_symbols:
  "fold add_symbol ss (StringTable, b) =
   (0 # named ss, b @ concat (map (\<lambda>p. symbol_entry (ss ! p) (of_nat (name_offset ss p))) [0..<length ss]))"
proof (induction ss rule: rev_induct)
  case (snoc s ss)
  have m: "map (\<lambda>p. symbol_entry ((ss @ [s]) ! p) (of_nat (name_offset (ss @ [s]) p))) [0..<length ss] =
      map (\<lambda>p. symbol_entry (ss ! p) (of_nat (name_offset ss p))) [0..<length ss]"
    by (simp add: nth_append name_offset_def)
  have n: "name_offset (ss @ [s]) (length ss) = Suc (length (named ss))" "named (ss @ [s]) = named ss @ sy_name s @ [0]"
    by (simp_all add: name_offset_def named_def)
  show ?case
    using snoc by (simp add: add_symbol_def add_string_def m n del: map_eq_conv)
qed (simp add: StringTable_def named_def)

lemma build_symtab_eq:
  fixes syms :: "elf_symbol list"
  defines "ss \<equiv> map ((!) syms) (symbol_order syms)"
  shows "build_symtab syms =
    (0 # named ss, concat (replicate 24 0 # map (\<lambda>p. symbol_entry (ss ! p) (of_nat (name_offset ss p))) [0..<length ss]))"
proof -
  have "build_symtab syms = fold add_symbol ss (StringTable, replicate 24 0)"
    by (simp add: build_symtab_def ss_def fold_map comp_def)
  then show ?thesis by (simp add: add_symbols)
qed

lemma length_symbol_entry [simp]: "length (symbol_entry s n) = 24"
  by (simp add: symbol_entry_def)

lemma c_string_named:
  assumes "p < length ss" "\<forall>s \<in> set ss. 0 \<notin> set (sy_name s)"
  shows "c_string (0 # named ss) (name_offset ss p) = sy_name (ss ! p)"
proof -
  have "named ss = named (take p ss) @ sy_name (ss ! p) @ [0] @ named (drop (Suc p) ss)"
    using id_take_nth_drop [OF assms(1)] by (metis (no_types, lifting) append_assoc concat.simps(2)
        concat_append list.simps(9) map_append named_def)
  moreover have "0 \<notin> set (sy_name (ss ! p))" using assms by simp
  ultimately show ?thesis
    by (simp add: c_string_def name_offset_def takeWhile_append)
qed

lemma symbol_entry_fields:
  assumes "e = symbol_entry s n"
  shows "word_at 4 0 e = unat n" "e ! 4 = symbol_info s" "word_at 2 6 e = unat (section_index (sy_section s))"
    "word_at 8 8 e = unat (sy_value s)" "word_at 8 16 e = unat (sy_size s)"
  using assms le_nat_word [of 2 "section_index (sy_section s)"]
  by (simp_all add: symbol_entry_def word_at_def le_nat_words nth_append)

section \<open>The layout of the file\<close>

fun place_all :: "(bytes \<times> u64) list \<Rightarrow> bytes \<Rightarrow> bytes \<times> placed list" where
  "place_all [] out = (out, [])"
| "place_all ((c, a) # items) out =
     (let (out1, p) = place c a out; (out2, ps) = place_all items out1 in (out2, p # ps))"

definition placed_ok :: "bytes \<Rightarrow> nat \<Rightarrow> bytes \<times> u64 \<Rightarrow> placed \<Rightarrow> bool" where
  "placed_ok out start item p \<longleftrightarrow>
     (\<exists>off. p = (of_nat off, of_nat (length (fst item))) \<and> holds out off (fst item) \<and> start \<le> off
        \<and> (1 < unat (snd item) \<longrightarrow> unat (snd item) dvd off))"

lemma placed_ok_weaken:
  "placed_ok out start item p \<Longrightarrow> start' \<le> start \<Longrightarrow> placed_ok (out @ z) start' item p"
  unfolding placed_ok_def using holds_append by fastforce

lemma place_all_ok:
  "place_all items out = (out', ps) \<Longrightarrow>
   (\<exists>z. out' = out @ z) \<and> list_all2 (placed_ok out' (length out)) items ps"
proof (induction items out arbitrary: out' ps rule: place_all.induct)
  case (2 c a items out)
  obtain out1 p where p: "place c a out = (out1, p)" by (cases "place c a out")
  obtain out2 qs where q: "place_all items out1 = (out2, qs)" by fastforce
  from place_holds [OF p] obtain z where z: "out1 = (out @ z) @ c"
    "p = (of_nat (length (out @ z)), of_nat (length c))" "1 < unat a \<longrightarrow> unat a dvd length (out @ z)" by auto
  note IH = "2.IH" [OF p [symmetric] refl q]
  then obtain z2 where z2: "out2 = out1 @ z2" by blast
  have "placed_ok out1 (length out) (c, a) p"
    unfolding placed_ok_def
    by (rule exI [of _ "length (out @ z)"]) (use z holds_end [of "out @ z" c] in simp)
  then have "placed_ok out2 (length out) (c, a) p" unfolding z2 by (rule placed_ok_weaken) simp
  moreover have "list_all2 (placed_ok out2 (length out)) items qs"
    using IH z(1) placed_ok_weaken [of out2 "length out1" _ _ "length out" "[]"]
    by (auto elim!: list_all2_mono)
  ultimately show ?case
    using "2.prems" p q z(1) z2 by auto
qed simp

definition elf_items :: "elf_object \<Rightarrow> (bytes \<times> u64) list" where
  "elf_items ob =
     [(text_bytes ob, text_align ob), (build_rela ob SecText, 8), (data_bytes ob, data_align ob),
      (build_rela ob SecData, 8), (rodata_bytes ob, rodata_align ob), (build_rela ob SecRodata, 8),
      ([], bss_align ob), (snd (build_symtab (symbols ob)), 8), (fst (build_symtab (symbols ob)), 1),
      (fst build_shstrtab, 1)]"

definition elf_headers :: "elf_object \<Rightarrow> placed list \<Rightarrow> bytes list" where
  "elf_headers ob ps =
     (let names = snd build_shstrtab in
      [shdr 0 0 0 (0, 0) 0 0 0 0,
       shdr (names ! 0) 1 6 (ps ! 0) 0 0 (text_align ob) 0,
       shdr (names ! 1) 4 0 (ps ! 1) 8 1 8 24,
       shdr (names ! 2) 1 3 (ps ! 2) 0 0 (data_align ob) 0,
       shdr (names ! 3) 4 0 (ps ! 3) 8 3 8 24,
       shdr (names ! 4) 1 2 (ps ! 4) 0 0 (rodata_align ob) 0,
       shdr (names ! 5) 4 0 (ps ! 5) 8 5 8 24,
       shdr (names ! 6) 8 3 (fst (ps ! 6), bss_size ob) 0 0 (bss_align ob) 0,
       shdr (names ! 7) 2 0 (ps ! 7) 9 (of_nat (first_global (symbols ob))) 8 24,
       shdr (names ! 8) 3 0 (ps ! 8) 0 0 1 0,
       shdr (names ! 9) 3 0 (ps ! 9) 0 0 1 0])"

lemma elf_write_eq:
  "elf_write ob =
     (let (out, ps) = place_all (elf_items ob) elf_header; out = pad_to 8 out
      in patch_u64 40 (of_nat (length out)) (out @ concat (elf_headers ob ps)))"
  by (simp add: elf_write_def elf_items_def elf_headers_def split_beta Let_def place_def [of "[]"])

lemma length_shdr [simp]: "length (shdr n t fl p l i a e) = 64"
  by (simp add: shdr_def)

lemma elf_headers_chunks: "\<forall>h \<in> set (elf_headers ob ps). length h = 64" "length (elf_headers ob ps) = 11"
  by (simp_all add: elf_headers_def Let_def)

lemma length_elf_header: "length elf_header = 64"
  by (simp add: elf_header_def)

text \<open>What a written file holds: the items where they were placed and the header of each section.\<close>

lemma elf_file_obtain:
  assumes "length (elf_write ob) < 2 ^ 32"
  obtains ps where "list_all2 (placed_ok (elf_write ob) 64) (elf_items ob) ps"
    "\<And>k. k < 11 \<Longrightarrow> holds (elf_write ob) (word_at 8 40 (elf_write ob) + 64 * k) (elf_headers ob ps ! k)"
proof -
  obtain out ps where pl: "place_all (elf_items ob) elf_header = (out, ps)" by fastforce
  define body where "body = pad_to 8 out"
  define raw where "raw = body @ concat (elf_headers ob ps)"
  obtain z where z: "body = out @ z" using pad_to_prefix body_def by blast
  have f: "elf_write ob = patch_u64 40 (of_nat (length body)) raw"
    by (simp add: elf_write_eq pl body_def raw_def Let_def)
  from place_all_ok [OF pl] obtain z' where z': "out = elf_header @ z'"
    and ok: "list_all2 (placed_ok out 64) (elf_items ob) ps" by (auto simp: length_elf_header)
  have len: "64 \<le> length body" "length body \<le> length raw" using z z' by (auto simp: length_elf_header raw_def)
  then have lf: "length (elf_write ob) = length raw" by (simp add: f patch_u64_eq)
  have w: "word_at 8 40 (elf_write ob) = length body"
  proof -
    have "holds (elf_write ob) 40 (le_bytes 8 (of_nat (length body) :: u64))"
      using len by (simp add: f patch_u64_eq holds_def)
    from holds_word [OF this] show ?thesis
      using len assms lf by (simp add: le_nat_words unat_of_nat)
  qed
  have keep: "holds (elf_write ob) off c" if "holds raw off c" "64 \<le> off" for off c
    unfolding f by (rule holds_patch [OF that(1)]) (use that(2) in simp)
  have "placed_ok (elf_write ob) 64 it p" if "placed_ok out 64 it p" for it p
    using placed_ok_weaken [OF that, of 64 "z @ concat (elf_headers ob ps)"] keep
    by (auto simp: placed_ok_def raw_def z)
  then have "list_all2 (placed_ok (elf_write ob) 64) (elf_items ob) ps"
    using ok by (auto elim!: list_all2_mono)
  moreover have "holds (elf_write ob) (word_at 8 40 (elf_write ob) + 64 * k) (elf_headers ob ps ! k)" if "k < 11" for k
    unfolding w
  proof (rule keep)
    have "take k (elf_headers ob ps) @ elf_headers ob ps ! k # drop (Suc k) (elf_headers ob ps) = elf_headers ob ps"
      using that by (simp add: id_take_nth_drop [symmetric] elf_headers_chunks)
    then have "concat (elf_headers ob ps) =
        concat (take k (elf_headers ob ps)) @ elf_headers ob ps ! k @ concat (drop (Suc k) (elf_headers ob ps))"
      by (metis concat.simps(2) concat_append)
    moreover have "length (concat (take k (elf_headers ob ps))) = 64 * k"
      using length_concat_chunks [of "take k (elf_headers ob ps)" 64] elf_headers_chunks that
      by (auto dest: in_set_takeD)
    moreover have "holds raw (length body) (concat (elf_headers ob ps))"
      unfolding raw_def by (rule holds_end)
    ultimately show "holds raw (length body + 64 * k) (elf_headers ob ps ! k)"
      using holds_sub by metis
  qed (use len in simp)
  ultimately show thesis by (rule that)
qed

lemma shdr_fields:
  assumes "holds f (word_at 8 40 f + 64 * k) (shdr n t fl p l i a e)"
  shows "sh_offset f k = unat (fst p)" "sh_size f k = unat (snd p)" "sh_info f k = unat i"
proof -
  let ?b = "word_at 8 40 f + 64 * k"
  have "holds f (?b + 24) (le_bytes 8 (fst p))" "holds f (?b + 32) (le_bytes 8 (snd p))" "holds f (?b + 44) (le_bytes 4 i)"
    using assms
      holds_sub [of f ?b "le_bytes 4 n @ le_bytes 4 t @ le_bytes 8 fl @ le_bytes 8 (0::u64)" "le_bytes 8 (fst p)"]
      holds_sub [of f ?b "le_bytes 4 n @ le_bytes 4 t @ le_bytes 8 fl @ le_bytes 8 (0::u64) @ le_bytes 8 (fst p)"
        "le_bytes 8 (snd p)"]
      holds_sub [of f ?b "le_bytes 4 n @ le_bytes 4 t @ le_bytes 8 fl @ le_bytes 8 (0::u64) @ le_bytes 8 (fst p)
        @ le_bytes 8 (snd p) @ le_bytes 4 l" "le_bytes 4 i"]
    by (simp_all add: shdr_def)
  then show "sh_offset f k = unat (fst p)" "sh_size f k = unat (snd p)" "sh_info f k = unat i"
    by (simp_all add: sh_offset_def sh_size_def sh_info_def sh_field_def le_nat_words holds_word)
qed

definition item_of :: "elf_object \<Rightarrow> nat \<Rightarrow> bytes" where
  "item_of ob k = fst (elf_items ob ! (k - 1))"

lemma section_reads_item:
  assumes len: "length (elf_write ob) < 2 ^ 32" and k: "k \<in> {1, 2, 3, 4, 5, 6, 8, 9, 10}"
  shows "section_content (elf_write ob) k = item_of ob k \<and>
    (1 < unat (snd (elf_items ob ! (k - 1))) \<longrightarrow> unat (snd (elf_items ob ! (k - 1))) dvd sh_offset (elf_write ob) k)"
proof -
  let ?f = "elf_write ob"
  obtain ps where ok: "list_all2 (placed_ok ?f 64) (elf_items ob) ps"
    and h: "\<And>k. k < 11 \<Longrightarrow> holds ?f (word_at 8 40 ?f + 64 * k) (elf_headers ob ps ! k)"
    using elf_file_obtain [OF len] by metis
  have it: "length (elf_items ob) = 10" by (simp add: elf_items_def)
  have "placed_ok ?f 64 (elf_items ob ! (k - 1)) (ps ! (k - 1))"
    using list_all2_nthD [OF ok, of "k - 1"] it k by auto
  then obtain off where off: "ps ! (k - 1) = (of_nat off, of_nat (length (item_of ob k)))" "holds ?f off (item_of ob k)"
    "1 < unat (snd (elf_items ob ! (k - 1))) \<longrightarrow> unat (snd (elf_items ob ! (k - 1))) dvd off"
    by (auto simp: placed_ok_def item_of_def)
  have "\<exists>n t fl l i a e. elf_headers ob ps ! k = shdr n t fl (ps ! (k - 1)) l i a e"
    using k by (elim insertE emptyE; simp add: elf_headers_def Let_def; blast)
  then obtain n t fl l i a e where hd: "elf_headers ob ps ! k = shdr n t fl (ps ! (k - 1)) l i a e" by blast
  have "k < 11" using k by auto
  from shdr_fields [OF h [OF this, unfolded hd]]
  have "sh_offset ?f k = unat (fst (ps ! (k - 1)))" "sh_size ?f k = unat (snd (ps ! (k - 1)))" by simp_all
  moreover have "off < 2 ^ 32" "length (item_of ob k) < 2 ^ 32" using off(2) len by (auto simp: holds_def)
  ultimately have "sh_offset ?f k = off" "sh_size ?f k = length (item_of ob k)"
    using off(1) by (simp_all add: unat_of_nat)
  then show ?thesis
    using off(2,3) by (simp add: section_content_def holds_def)
qed

section \<open>Reading back\<close>

lemma le_bytes_halves: "le_bytes 8 (w :: u64) = le_bytes 4 (ucast w :: u32) @ le_bytes 4 (ucast (drop_bit 32 w) :: u32)"
proof -
  have "ucast (drop_bit n (ucast v :: u32)) = (ucast (drop_bit n v) :: byte)" if "n \<le> 24" for n and v :: u64
    using that by (intro bit_word_eqI) (auto simp: bit_simps)
  moreover from this [of 0] have "(ucast (ucast v :: u32) :: byte) = ucast v" for v :: u64 by simp
  ultimately show ?thesis by (simp add: le_bytes_def upt_rec drop_bit_drop_bit)
qed

lemma reloc_info_halves:
  fixes t :: u32
  assumes "m < 2 ^ 32"
  shows "ucast (push_bit 32 (of_nat m) OR ucast t :: u64) = t"
    "unat (ucast (drop_bit 32 (push_bit 32 (of_nat m) OR ucast t :: u64)) :: u32) = m"
proof -
  show "ucast (push_bit 32 (of_nat m) OR ucast t :: u64) = t"
    by (intro bit_word_eqI) (auto simp: bit_simps)
  have "ucast (drop_bit 32 (push_bit 32 (of_nat m) OR ucast t :: u64)) = (of_nat m :: u32)"
    by (intro bit_word_eqI) (auto simp: bit_simps dest: bit_imp_le_length)
  then show "unat (ucast (drop_bit 32 (push_bit 32 (of_nat m) OR ucast t :: u64)) :: u32) = m"
    using assms by (simp add: unat_of_nat)
qed

lemma length_rela_entry [simp]: "length (rela_entry remap r) = 24"
  by (simp add: rela_entry_def)

lemma rela_entry_fields:
  assumes "e = rela_entry remap r" "remap ! rel_symbol r < 2 ^ 32"
  shows "word_at 8 0 e = unat (rel_offset r)" "word_at 4 12 e = remap ! rel_symbol r"
    "word_at 4 8 e = unat (rel_type r)" "word_at 8 16 e = unat (rel_addend r)"
  using assms(1) reloc_info_halves [OF assms(2), of "rel_type r"]
  by (simp_all add: rela_entry_def word_at_def le_bytes_halves [of "push_bit 32 _ OR _"] le_nat_words)

definition object_ok :: "elf_object \<Rightarrow> bool" where
  "object_ok ob \<longleftrightarrow> length (elf_write ob) < 2 ^ 32
     \<and> (\<forall>s \<in> set (symbols ob). 0 \<notin> set (sy_name s))
     \<and> (\<forall>r \<in> set (relocations ob). rel_symbol r < length (symbols ob))"

lemma read_symbol_written:
  assumes "object_ok ob" "p < length (symbols ob)"
  shows "read_symbol (elf_write ob) (p + 1) = symbol_view (symbols ob ! (symbol_order (symbols ob) ! p))"
proof -
  let ?f = "elf_write ob"
  define ss where "ss = map ((!) (symbols ob)) (symbol_order (symbols ob))"
  have len: "length ?f < 2 ^ 32" using assms(1) by (simp add: object_ok_def)
  have ss: "length ss = length (symbols ob)" "set ss \<subseteq> set (symbols ob)"
    by (auto simp: ss_def symbol_order_perm)
  have tab: "section_content ?f 8 = snd (build_symtab (symbols ob))" "section_content ?f 9 = fst (build_symtab (symbols ob))"
    using section_reads_item [OF len] by (simp_all add: item_of_def elf_items_def)
  have small: "name_offset ss p < 2 ^ 32"
  proof -
    have "name_offset ss p \<le> length (section_content ?f 9)"
      unfolding tab build_symtab_eq ss_def [symmetric]
      by (simp add: name_offset_def named_def)
        (metis append_take_drop_id concat_append le_add1 length_append map_append)
    also have "\<dots> \<le> length ?f" by (simp add: section_content_def)
    finally show ?thesis using len by simp
  qed
  have e: "chunk 24 (section_content ?f 8) (p + 1) = symbol_entry (ss ! p) (of_nat (name_offset ss p))"
    unfolding tab build_symtab_eq ss_def [symmetric] snd_conv
    using assms(2) ss(1) by (subst chunk_concat) auto
  have "c_string (section_content ?f 9) (name_offset ss p) = sy_name (ss ! p)"
    unfolding tab build_symtab_eq ss_def [symmetric] fst_conv
    using assms ss by (intro c_string_named) (auto simp: object_ok_def)
  moreover have "ss ! p = symbols ob ! (symbol_order (symbols ob) ! p)"
    using assms(2) symbol_order_perm(3) [of "symbols ob"] by (simp add: ss_def)
  ultimately show ?thesis
    using symbol_entry_fields [OF e] small by (simp add: read_symbol_def Let_def symbol_view_def unat_of_nat)
qed

lemma read_relocs_written:
  assumes ok: "object_ok ob" and k: "k \<in> {2, 4, 6}" "item_of ob k = build_rela ob sec"
  shows "read_relocs (elf_write ob) k = map (reloc_view ob) (filter (\<lambda>r. rel_in r = sec) (relocations ob))"
proof -
  let ?f = "elf_write ob" and ?rs = "filter (\<lambda>r. rel_in r = sec) (relocations ob)"
    and ?m = "symbol_remap (symbols ob)"
  have len: "length ?f < 2 ^ 32" using ok by (simp add: object_ok_def)
  have c: "section_content ?f k = concat (map (rela_entry ?m) ?rs)"
    using section_reads_item [OF len, of k] k by (auto simp: build_rela_def)
  have n: "length (section_content ?f k) = 24 * length ?rs"
    unfolding c by (subst length_concat_chunks [of _ 24]) auto
  have "length (section_content ?f 8) \<le> length ?f" by (simp add: section_content_def)
  moreover have "length (section_content ?f 8) = 24 * (length (symbols ob) + 1)"
    using section_reads_item [OF len, of 8]
    by (simp add: item_of_def elf_items_def build_symtab_eq symbol_order_perm(3) length_concat_chunks [of _ 24])
  ultimately have few: "length (symbols ob) < 2 ^ 32 - 1" using len by simp
  have view: "(let e = chunk 24 (section_content ?f k) i
      in (word_at 8 0 e, read_symbol ?f (word_at 4 12 e), word_at 4 8 e, word_at 8 16 e)) = reloc_view ob (?rs ! i)"
    if "i < length ?rs" for i
  proof -
    let ?r = "?rs ! i"
    have "?r \<in> set (relocations ob)" using nth_mem [OF that] by simp
    then obtain p where p: "p < length (symbols ob)" "symbol_order (symbols ob) ! p = rel_symbol ?r"
      "?m ! rel_symbol ?r = p + 1"
      using ok symbol_remap_obtain [of "rel_symbol ?r" "symbols ob"] by (auto simp: object_ok_def)
    have e: "chunk 24 (section_content ?f k) i = rela_entry ?m ?r"
      unfolding c using that by (subst chunk_concat) auto
    have "?m ! rel_symbol ?r < 2 ^ 32" using p few by simp
    from rela_entry_fields [OF e this] show ?thesis
      using p read_symbol_written [OF ok p(1)] by (simp add: Let_def reloc_view_def)
  qed
  show ?thesis
    unfolding read_relocs_def Let_def [of "section_content ?f k"] n
    by (rule nth_equalityI) (use view in simp_all)
qed

text \<open>
  C38: A written object file reads back: its text, data and read-only sections hold the bytes given, and
  the relocations read from each relocation section are those given for that section, in order, each
  naming through the reordered symbol table the symbol it was given with.
\<close>

theorem elf_file_reads_back:
  assumes "object_ok ob"
  shows "section_content (elf_write ob) 1 = text_bytes ob \<and> section_content (elf_write ob) 3 = data_bytes ob
    \<and> section_content (elf_write ob) 5 = rodata_bytes ob
    \<and> read_relocs (elf_write ob) 2 = map (reloc_view ob) (filter (\<lambda>r. rel_in r = SecText) (relocations ob))
    \<and> read_relocs (elf_write ob) 4 = map (reloc_view ob) (filter (\<lambda>r. rel_in r = SecData) (relocations ob))
    \<and> read_relocs (elf_write ob) 6 = map (reloc_view ob) (filter (\<lambda>r. rel_in r = SecRodata) (relocations ob))"
proof -
  have len: "length (elf_write ob) < 2 ^ 32" using assms by (simp add: object_ok_def)
  show ?thesis
    using section_reads_item [OF len] read_relocs_written [OF assms]
    by (simp add: item_of_def elf_items_def)
qed

definition small_object :: elf_object where
  "small_object = \<lparr>text_bytes = [0xe8, 0, 0, 0, 0, 0xc3], data_bytes = [], rodata_bytes = [1, 2], bss_size = 16,
     text_align = 16, data_align = 8, rodata_align = 8, bss_align = 8,
     symbols = [\<lparr>sy_name = [0x66], sy_section = SecUndefined, sy_value = 0, sy_size = 0, is_global = True, is_function = True\<rparr>,
       \<lparr>sy_name = [0x67], sy_section = SecText, sy_value = 0, sy_size = 6, is_global = False, is_function = True\<rparr>],
     relocations = [\<lparr>rel_in = SecText, rel_offset = 1, rel_symbol = 0, rel_type = 4, rel_addend = -4\<rparr>]\<rparr>"

text \<open>A bound on the size of a written file.\<close>

lemma length_pad_to: "length (pad_to a bs) \<le> length bs + a"
proof (cases "1 < a")
  case True
  have "length (pad_to a bs) \<le> length bs + (if length bs mod a = 0 then 0 else a - length bs mod a)"
    using True
  proof (induction a bs rule: pad_to.induct)
    case (1 a bs)
    define r where "r = length bs mod a"
    have r: "r < a" "Suc (length bs) mod a = (if Suc r = a then 0 else Suc r)"
      using 1 by (auto simp: r_def mod_Suc)
    show ?case
    proof (cases "r = 0")
      case True
      then show ?thesis by (subst pad_to.simps) (simp add: r_def)
    next
      case False
      then have "length (pad_to a bs) = length (pad_to a (bs @ [0]))"
        using "1.prems" by (subst pad_to.simps) (simp add: r_def)
      also have "\<dots> \<le> Suc (length bs) + (if Suc r = a then 0 else a - Suc r)"
        using 1 False r by (auto simp: r_def split: if_splits)
      finally show ?thesis using False r(1) by (auto simp: r_def [symmetric] split: if_splits)
    qed
  qed
  then show ?thesis by (auto split: if_splits)
qed (simp add: pad_to.simps)

lemma length_place_all:
  "length (fst (place_all items out)) \<le> length out + sum_list (map (\<lambda>(c, a). length c + unat a) items)"
proof (induction items out rule: place_all.induct)
  case (2 c a items out)
  show ?case
    using 2 [OF refl prod.collapse] length_pad_to [of "unat a" out]
    by (force simp: split_beta Let_def place_def)
qed simp

lemma length_elf_write:
  "length (elf_write ob) \<le> 776 + sum_list (map (\<lambda>(c, a). length c + unat a) (elf_items ob))"
proof -
  obtain out ps where pl: "place_all (elf_items ob) elf_header = (out, ps)" by fastforce
  have h: "length (concat (elf_headers ob ps)) = 704"
    using length_concat_chunks [OF elf_headers_chunks(1)] elf_headers_chunks(2) by simp
  have "64 \<le> length out" using place_all_ok [OF pl] by (auto simp: length_elf_header)
  moreover obtain z where "pad_to 8 out = out @ z" using pad_to_prefix by blast
  ultimately have "length (elf_write ob) = length (pad_to 8 out) + 704"
    using h by (simp add: elf_write_eq pl Let_def patch_u64_eq)
  then show ?thesis
    using length_pad_to [of 8 out] length_place_all [of "elf_items ob" elf_header] pl
    by (simp add: length_elf_header)
qed

lemma length_shstrtab: "length (fst build_shstrtab) = 87"
  by (simp add: build_shstrtab_def section_names_def ascii_def add_string_def StringTable_def)

lemma small_object_ok: "object_ok small_object"
proof -
  have "length (snd (build_symtab (symbols small_object))) = 72" "length (fst (build_symtab (symbols small_object))) = 5"
    by code_simp+
  moreover have "sum_list (map (\<lambda>(c, a). length c + unat a) (elf_items small_object)) \<le> 300"
    using calculation length_shstrtab by (simp add: elf_items_def build_rela_def small_object_def)
  ultimately show ?thesis
    using length_elf_write [of small_object] by (simp add: object_ok_def small_object_def)
qed

theorem elf_file_reads_back_witness:
  "read_relocs (elf_write small_object) 2 = [(1, ([0x66], 16, 0, 0, 0), 4, 2 ^ 64 - 4)]"
  using elf_file_reads_back [OF small_object_ok]
  by (simp add: small_object_def reloc_view_def symbol_view_def symbol_info_def)

text \<open>
  The symbol table of a written file lists every symbol once, locals first: entry \<open>j\<close> is a local symbol
  exactly when \<open>j\<close> lies below the index the table's header gives for the first global, and for every
  symbol of the object the entry the writer remaps it to reads back as that symbol.
\<close>

theorem elf_symbols_read_back:
  assumes "object_ok ob"
  shows "(\<forall>i < length (symbols ob). read_symbol (elf_write ob) (symbol_remap (symbols ob) ! i) = symbol_view (symbols ob ! i)
      \<and> (is_global (symbols ob ! i) \<longleftrightarrow> sh_info (elf_write ob) 8 \<le> symbol_remap (symbols ob) ! i))
    \<and> bij_betw (\<lambda>i. symbol_remap (symbols ob) ! i) {..<length (symbols ob)} {1..length (symbols ob)}"
proof -
  let ?f = "elf_write ob" and ?s = "symbols ob" and ?n = "length (symbols ob)"
  have len: "length ?f < 2 ^ 32" using assms by (simp add: object_ok_def)
  obtain ps where h: "\<And>k. k < 11 \<Longrightarrow> holds ?f (word_at 8 40 ?f + 64 * k) (elf_headers ob ps ! k)"
    using elf_file_obtain [OF len] by metis
  have "length (section_content ?f 8) \<le> length ?f" by (simp add: section_content_def)
  then have "?n < 2 ^ 32 - 1"
    using section_reads_item [OF len, of 8] len
    by (simp add: item_of_def elf_items_def build_symtab_eq symbol_order_perm(3) length_concat_chunks [of _ 24])
  then have info: "sh_info ?f 8 = first_global ?s"
    using shdr_fields(3) [of ?f 8] h [of 8] first_global_range [of ?s]
    by (simp add: elf_headers_def Let_def unat_of_nat)
  have sym: "read_symbol ?f (symbol_remap ?s ! i) = symbol_view (?s ! i)
      \<and> (is_global (?s ! i) \<longleftrightarrow> sh_info ?f 8 \<le> symbol_remap ?s ! i)" if i: "i < ?n" for i
  proof -
    obtain p where p: "p < ?n" "symbol_order ?s ! p = i" "symbol_remap ?s ! i = p + 1"
      using symbol_remap_obtain [OF i] .
    show ?thesis
      using read_symbol_written [OF assms p(1)] order_global_iff [OF p(1)] info p by simp
  qed
  have "bij_betw (\<lambda>i. symbol_remap ?s ! i) {..<?n} {1..?n}"
  proof (rule bij_betw_byWitness [where f' = "\<lambda>j. symbol_order ?s ! (j - 1)"])
    show "\<forall>i \<in> {..<?n}. symbol_order ?s ! (symbol_remap ?s ! i - 1) = i"
      using symbol_remap_inverse(1) by simp
    show "\<forall>j \<in> {1..?n}. symbol_remap ?s ! (symbol_order ?s ! (j - 1)) = j"
      using symbol_remap_nth [of _ ?s] by auto
    show "(\<lambda>i. symbol_remap ?s ! i) ` {..<?n} \<subseteq> {1..?n}"
      using symbol_remap_inverse(2) [of _ ?s] by (simp add: image_subset_iff)
    show "(\<lambda>j. symbol_order ?s ! (j - 1)) ` {1..?n} \<subseteq> {..<?n}"
    proof (rule image_subsetI)
      fix j assume "j \<in> {1..?n}"
      then have "symbol_order ?s ! (j - 1) \<in> set (symbol_order ?s)" by (intro nth_mem) (auto simp: symbol_order_perm(3))
      then show "symbol_order ?s ! (j - 1) \<in> {..<?n}" by (simp add: symbol_order_perm(1))
    qed
  qed
  then show ?thesis using sym by blast
qed

theorem elf_symbols_read_back_witness:
  "read_symbol (elf_write small_object) (symbol_remap (symbols small_object) ! 1) = ([0x67], 2, 1, 0, 6)"
proof -
  have "1 < length (symbols small_object)" by (simp add: small_object_def)
  moreover have "symbol_view (symbols small_object ! 1) = ([0x67], 2, 1, 0, 6)"
    by (simp add: small_object_def symbol_view_def symbol_info_def)
  ultimately show ?thesis using elf_symbols_read_back [OF small_object_ok] by metis
qed

end
