(* ===== verification/Mir.thy ===== *)
theory Mir
  imports Interfaces
begin

text \<open>
  The data model of Mirage IR (\<^verbatim>\<open>src/src/compiler/mir.hpp\<close> and the type, opcode and signature
  functions at the head of \<^verbatim>\<open>mir.cpp\<close>): scalar types, opcodes with their enumeration order,
  instructions, blocks, functions and modules as records, signature interning, and the per-opcode
  operand map that the passes and the register allocator share.
\<close>

subsection \<open>Scalar types\<close>

datatype ty = Ty_Void | Ty_I1 | Ty_I8 | Ty_I16 | Ty_I32 | Ty_I64 | Ty_F32 | Ty_F64 | Ty_Ptr

fun type_name :: "ty \<Rightarrow> string" where
  "type_name Ty_Void = ''void''"
| "type_name Ty_I1 = ''i1''"
| "type_name Ty_I8 = ''i8''"
| "type_name Ty_I16 = ''i16''"
| "type_name Ty_I32 = ''i32''"
| "type_name Ty_I64 = ''i64''"
| "type_name Ty_F32 = ''f32''"
| "type_name Ty_F64 = ''f64''"
| "type_name Ty_Ptr = ''ptr''"

fun type_bits :: "ty \<Rightarrow> nat \<Rightarrow> nat" where
  "type_bits Ty_Void pointer_bits = 0"
| "type_bits Ty_I1 pointer_bits = 1"
| "type_bits Ty_I8 pointer_bits = 8"
| "type_bits Ty_I16 pointer_bits = 16"
| "type_bits Ty_I32 pointer_bits = 32"
| "type_bits Ty_I64 pointer_bits = 64"
| "type_bits Ty_F32 pointer_bits = 32"
| "type_bits Ty_F64 pointer_bits = 64"
| "type_bits Ty_Ptr pointer_bits = pointer_bits"

definition is_float :: "ty \<Rightarrow> bool" where
  "is_float type \<longleftrightarrow> type = Ty_F32 \<or> type = Ty_F64"

definition is_integer :: "ty \<Rightarrow> bool" where
  "is_integer type \<longleftrightarrow>
     type = Ty_I1 \<or> type = Ty_I8 \<or> type = Ty_I16 \<or> type = Ty_I32 \<or> type = Ty_I64"

lemma integer_bits [bounds]:
  "is_integer type \<Longrightarrow> 1 \<le> type_bits type pb \<and> type_bits type pb \<le> 64"
  by (cases type) (auto simp: is_integer_def)

subsection \<open>Opcodes\<close>

datatype (plugins only: code size) op =
    Op_ConstInt | Op_ConstFloat | Op_ConstNull | Op_GlobalAddr | Op_SlotAddr | Op_StackAlloc |
  Op_FuncAddr | Op_Load | Op_Store | Op_MemCopy | Op_MemSet | Op_PtrAddConst | Op_PtrAdd |
  Op_Add | Op_Sub | Op_Mul | Op_SDiv | Op_UDiv | Op_SRem | Op_URem | Op_And | Op_Or | Op_Xor |
  Op_Shl | Op_LShr | Op_AShr | Op_Not | Op_Neg | Op_FAdd | Op_FSub | Op_FMul | Op_FDiv | Op_FRem
  | Op_FNeg | Op_ICmpEq | Op_ICmpNe | Op_ICmpSlt | Op_ICmpSle | Op_ICmpSgt | Op_ICmpSge |
  Op_ICmpUlt | Op_ICmpUle | Op_ICmpUgt | Op_ICmpUge | Op_FCmpOeq | Op_FCmpOne | Op_FCmpOlt |
  Op_FCmpOle | Op_FCmpOgt | Op_FCmpOge | Op_Trunc | Op_ZExt | Op_SExt | Op_FPTrunc | Op_FPExt |
  Op_FPToSI | Op_FPToUI | Op_SIToFP | Op_UIToFP | Op_PtrToInt | Op_IntToPtr | Op_Bitcast |
  Op_Select | Op_Asm | Op_Call | Op_CallIndirect | Op_Jump | Op_Branch | Op_Switch | Op_Return |
  Op_Unreachable

text \<open>The textual opcode names of the printed form.\<close>

fun op_name :: "op \<Rightarrow> string" where
  "op_name Op_ConstInt = ''const.int''"
| "op_name Op_ConstFloat = ''const.float''"
| "op_name Op_ConstNull = ''const.null''"
| "op_name Op_GlobalAddr = ''global.addr''"
| "op_name Op_SlotAddr = ''slot.addr''"
| "op_name Op_StackAlloc = ''stackalloc''"
| "op_name Op_FuncAddr = ''func.addr''"
| "op_name Op_Load = ''load''"
| "op_name Op_Store = ''store''"
| "op_name Op_MemCopy = ''mem.copy''"
| "op_name Op_MemSet = ''mem.set''"
| "op_name Op_PtrAddConst = ''ptr.add.const''"
| "op_name Op_PtrAdd = ''ptr.add''"
| "op_name Op_Add = ''add''"
| "op_name Op_Sub = ''sub''"
| "op_name Op_Mul = ''mul''"
| "op_name Op_SDiv = ''sdiv''"
| "op_name Op_UDiv = ''udiv''"
| "op_name Op_SRem = ''srem''"
| "op_name Op_URem = ''urem''"
| "op_name Op_And = ''and''"
| "op_name Op_Or = ''or''"
| "op_name Op_Xor = ''xor''"
| "op_name Op_Shl = ''shl''"
| "op_name Op_LShr = ''lshr''"
| "op_name Op_AShr = ''ashr''"
| "op_name Op_Not = ''not''"
| "op_name Op_Neg = ''neg''"
| "op_name Op_FAdd = ''fadd''"
| "op_name Op_FSub = ''fsub''"
| "op_name Op_FMul = ''fmul''"
| "op_name Op_FDiv = ''fdiv''"
| "op_name Op_FRem = ''frem''"
| "op_name Op_FNeg = ''fneg''"
| "op_name Op_ICmpEq = ''icmp.eq''"
| "op_name Op_ICmpNe = ''icmp.ne''"
| "op_name Op_ICmpSlt = ''icmp.slt''"
| "op_name Op_ICmpSle = ''icmp.sle''"
| "op_name Op_ICmpSgt = ''icmp.sgt''"
| "op_name Op_ICmpSge = ''icmp.sge''"
| "op_name Op_ICmpUlt = ''icmp.ult''"
| "op_name Op_ICmpUle = ''icmp.ule''"
| "op_name Op_ICmpUgt = ''icmp.ugt''"
| "op_name Op_ICmpUge = ''icmp.uge''"
| "op_name Op_FCmpOeq = ''fcmp.oeq''"
| "op_name Op_FCmpOne = ''fcmp.one''"
| "op_name Op_FCmpOlt = ''fcmp.olt''"
| "op_name Op_FCmpOle = ''fcmp.ole''"
| "op_name Op_FCmpOgt = ''fcmp.ogt''"
| "op_name Op_FCmpOge = ''fcmp.oge''"
| "op_name Op_Trunc = ''trunc''"
| "op_name Op_ZExt = ''zext''"
| "op_name Op_SExt = ''sext''"
| "op_name Op_FPTrunc = ''fptrunc''"
| "op_name Op_FPExt = ''fpext''"
| "op_name Op_FPToSI = ''fptosi''"
| "op_name Op_FPToUI = ''fptoui''"
| "op_name Op_SIToFP = ''sitofp''"
| "op_name Op_UIToFP = ''uitofp''"
| "op_name Op_PtrToInt = ''ptrtoint''"
| "op_name Op_IntToPtr = ''inttoptr''"
| "op_name Op_Bitcast = ''bitcast''"
| "op_name Op_Select = ''select''"
| "op_name Op_Asm = ''asm''"
| "op_name Op_Call = ''call''"
| "op_name Op_CallIndirect = ''call.indirect''"
| "op_name Op_Jump = ''jump''"
| "op_name Op_Branch = ''branch''"
| "op_name Op_Switch = ''switch''"
| "op_name Op_Return = ''return''"
| "op_name Op_Unreachable = ''unreachable''"

text \<open>
  The enumeration value of an opcode. The sources compare opcodes with \<^verbatim>\<open>>=\<close> and \<^verbatim>\<open><=\<close>, so the
  enumeration order is part of the model: \<open>op\<close> is a linear order by this index.
\<close>

fun op_index :: "op \<Rightarrow> nat" where
  "op_index Op_ConstInt = 0"
| "op_index Op_ConstFloat = 1"
| "op_index Op_ConstNull = 2"
| "op_index Op_GlobalAddr = 3"
| "op_index Op_SlotAddr = 4"
| "op_index Op_StackAlloc = 5"
| "op_index Op_FuncAddr = 6"
| "op_index Op_Load = 7"
| "op_index Op_Store = 8"
| "op_index Op_MemCopy = 9"
| "op_index Op_MemSet = 10"
| "op_index Op_PtrAddConst = 11"
| "op_index Op_PtrAdd = 12"
| "op_index Op_Add = 13"
| "op_index Op_Sub = 14"
| "op_index Op_Mul = 15"
| "op_index Op_SDiv = 16"
| "op_index Op_UDiv = 17"
| "op_index Op_SRem = 18"
| "op_index Op_URem = 19"
| "op_index Op_And = 20"
| "op_index Op_Or = 21"
| "op_index Op_Xor = 22"
| "op_index Op_Shl = 23"
| "op_index Op_LShr = 24"
| "op_index Op_AShr = 25"
| "op_index Op_Not = 26"
| "op_index Op_Neg = 27"
| "op_index Op_FAdd = 28"
| "op_index Op_FSub = 29"
| "op_index Op_FMul = 30"
| "op_index Op_FDiv = 31"
| "op_index Op_FRem = 32"
| "op_index Op_FNeg = 33"
| "op_index Op_ICmpEq = 34"
| "op_index Op_ICmpNe = 35"
| "op_index Op_ICmpSlt = 36"
| "op_index Op_ICmpSle = 37"
| "op_index Op_ICmpSgt = 38"
| "op_index Op_ICmpSge = 39"
| "op_index Op_ICmpUlt = 40"
| "op_index Op_ICmpUle = 41"
| "op_index Op_ICmpUgt = 42"
| "op_index Op_ICmpUge = 43"
| "op_index Op_FCmpOeq = 44"
| "op_index Op_FCmpOne = 45"
| "op_index Op_FCmpOlt = 46"
| "op_index Op_FCmpOle = 47"
| "op_index Op_FCmpOgt = 48"
| "op_index Op_FCmpOge = 49"
| "op_index Op_Trunc = 50"
| "op_index Op_ZExt = 51"
| "op_index Op_SExt = 52"
| "op_index Op_FPTrunc = 53"
| "op_index Op_FPExt = 54"
| "op_index Op_FPToSI = 55"
| "op_index Op_FPToUI = 56"
| "op_index Op_SIToFP = 57"
| "op_index Op_UIToFP = 58"
| "op_index Op_PtrToInt = 59"
| "op_index Op_IntToPtr = 60"
| "op_index Op_Bitcast = 61"
| "op_index Op_Select = 62"
| "op_index Op_Asm = 63"
| "op_index Op_Call = 64"
| "op_index Op_CallIndirect = 65"
| "op_index Op_Jump = 66"
| "op_index Op_Branch = 67"
| "op_index Op_Switch = 68"
| "op_index Op_Return = 69"
| "op_index Op_Unreachable = 70"

definition op_list :: "op list" where
  "op_list =
    [Op_ConstInt, Op_ConstFloat, Op_ConstNull, Op_GlobalAddr, Op_SlotAddr, Op_StackAlloc,
      Op_FuncAddr, Op_Load, Op_Store, Op_MemCopy, Op_MemSet, Op_PtrAddConst, Op_PtrAdd, Op_Add,
      Op_Sub, Op_Mul, Op_SDiv, Op_UDiv, Op_SRem, Op_URem, Op_And, Op_Or, Op_Xor, Op_Shl,
      Op_LShr, Op_AShr, Op_Not, Op_Neg, Op_FAdd, Op_FSub, Op_FMul, Op_FDiv, Op_FRem, Op_FNeg,
      Op_ICmpEq, Op_ICmpNe, Op_ICmpSlt, Op_ICmpSle, Op_ICmpSgt, Op_ICmpSge, Op_ICmpUlt,
      Op_ICmpUle, Op_ICmpUgt, Op_ICmpUge, Op_FCmpOeq, Op_FCmpOne, Op_FCmpOlt, Op_FCmpOle,
      Op_FCmpOgt, Op_FCmpOge, Op_Trunc, Op_ZExt, Op_SExt, Op_FPTrunc, Op_FPExt, Op_FPToSI,
      Op_FPToUI, Op_SIToFP, Op_UIToFP, Op_PtrToInt, Op_IntToPtr, Op_Bitcast, Op_Select, Op_Asm,
      Op_Call, Op_CallIndirect, Op_Jump, Op_Branch, Op_Switch, Op_Return, Op_Unreachable]"

lemma op_list_index: "op_list ! op_index x = x"
  by (cases x) (simp_all add: op_list_def)

lemma op_index_inj: "op_index x = op_index y \<Longrightarrow> x = y"
  using op_list_index by metis

instantiation op :: linorder
begin

definition less_eq_op :: "op \<Rightarrow> op \<Rightarrow> bool" where
  "less_eq_op x y \<longleftrightarrow> op_index x \<le> op_index y"

definition less_op :: "op \<Rightarrow> op \<Rightarrow> bool" where
  "less_op x y \<longleftrightarrow> op_index x < op_index y"

instance
  by standard (auto simp: less_eq_op_def less_op_def intro: op_index_inj)

end

lemmas op_order = less_eq_op_def less_op_def

definition is_terminator :: "op \<Rightarrow> bool" where
  "is_terminator x \<longleftrightarrow>
     x = Op_Jump \<or> x = Op_Branch \<or> x = Op_Switch \<or> x = Op_Return \<or> x = Op_Unreachable"

definition defines_value :: "op \<Rightarrow> bool" where
  "defines_value x \<longleftrightarrow>
     (if is_terminator x then False
      else x \<noteq> Op_Store \<and> x \<noteq> Op_MemCopy \<and> x \<noteq> Op_MemSet)"

definition is_comparison :: "op \<Rightarrow> bool" where
  "is_comparison x \<longleftrightarrow> (Op_ICmpEq \<le> x \<and> x \<le> Op_ICmpUge) \<or> (Op_FCmpOeq \<le> x \<and> x \<le> Op_FCmpOge)"

definition is_float_comparison :: "op \<Rightarrow> bool" where
  "is_float_comparison x \<longleftrightarrow> Op_FCmpOeq \<le> x \<and> x \<le> Op_FCmpOge"

definition is_int_binary :: "op \<Rightarrow> bool" where
  "is_int_binary x \<longleftrightarrow> Op_Add \<le> x \<and> x \<le> Op_AShr"

subsection \<open>Instructions, blocks and functions\<close>

abbreviation (input) NO_VALUE :: nat where
  "NO_VALUE \<equiv> UINT32_MAX"

abbreviation (input) NO_BLOCK :: nat where
  "NO_BLOCK \<equiv> UINT32_MAX"

type_synonym value_id = nat
type_synonym block_id = nat

text \<open>
  \<open>oper\<close> is the opcode field (\<^verbatim>\<open>Inst::op\<close>), \<open>opa\<close>, \<open>opb\<close>, \<open>opc\<close> the three operand fields; the
  immediate keeps its 64-bit pattern.
\<close>

record inst =
  oper :: op
  itype :: ty
  result :: value_id
  opa :: nat
  opb :: nat
  opc :: nat
  imm :: u64
  args :: "nat list"
  line :: nat
  column :: nat

definition default_inst :: inst where
  "default_inst = \<lparr>oper = Op_Unreachable, itype = Ty_Void, result = NO_VALUE, opa = NO_VALUE,
     opb = NO_VALUE, opc = NO_VALUE, imm = 0, args = [], line = 0, column = 0\<rparr>"

record value_def =
  vd_block :: block_id
  vd_index :: nat
  vd_type :: ty
  vd_is_param :: bool

record block =
  label :: string
  params :: "value_id list"
  insts :: "inst list"

record slot =
  slot_size :: nat
  slot_align :: nat
  slot_name :: string
  address_escapes :: bool

record signature =
  sig_params :: "ty list"
  sig_result :: ty
  is_variadic :: bool
  byval_sizes :: "nat list"
  byval_aligns :: "nat list"
  c_ret_words :: nat
  c_ret_sse0 :: bool
  c_ret_sse1 :: bool
  c_sret :: bool

definition default_signature :: signature where
  "default_signature = \<lparr>sig_params = [], sig_result = Ty_Void, is_variadic = False,
     byval_sizes = [], byval_aligns = [], c_ret_words = 0, c_ret_sse0 = False, c_ret_sse1 = False,
     c_sret = False\<rparr>"

datatype linkage = Internal | External

datatype call_conv = Conv_Mirage | Conv_C

record func =
  fname :: string
  flinkage :: linkage
  conv :: call_conv
  fsignature :: nat
  fparams :: "value_id list"
  blocks :: "block list"
  slots :: "slot list"
  vals :: "value_def list"
  has_body :: bool
  is_naked :: bool
  import_module :: string
  import_name :: string
  fsection :: string

datatype reloc_kind = FunctionAddr | GlobalAddr

record relocation =
  rkind :: reloc_kind
  roffset :: nat
  rtarget :: nat
  raddend :: int

record global =
  gname :: string
  glinkage :: linkage
  gsize :: nat
  galign :: nat
  is_constant :: bool
  ginit :: bytes
  relocations :: "relocation list"
  gsection :: string

datatype asm_operand_kind = Asm_Register | Asm_Immediate | Asm_Variable

record asm_operand =
  akind :: asm_operand_kind
  areg :: string
  width_bits :: nat
  aimm :: int
  arg_index :: nat

record asm_instruction =
  mnemonic :: string
  operands :: "asm_operand list"
  aline :: nat
  acolumn :: nat

record asm_block =
  instructions :: "asm_instruction list"
  clobbered_families :: "string list"
  clobbers_memory :: bool
  result_register :: string

record mir_module =
  mname :: string
  pointer_bits :: nat
  funcs :: "func list"
  globals :: "global list"
  signatures :: "signature list"
  asm_blocks :: "asm_block list"

subsection \<open>Signature interning\<close>

text \<open>The field-by-field comparison of \<^verbatim>\<open>Module::intern_signature\<close>, in its order.\<close>

definition same_signature :: "signature \<Rightarrow> signature \<Rightarrow> bool" where
  "same_signature existing sig \<longleftrightarrow>
     sig_result existing = sig_result sig \<and> is_variadic existing = is_variadic sig \<and>
     sig_params existing = sig_params sig \<and>
     byval_sizes existing = byval_sizes sig \<and>
     byval_aligns existing = byval_aligns sig \<and>
     c_ret_words existing = c_ret_words sig \<and>
     c_ret_sse0 existing = c_ret_sse0 sig \<and>
     c_ret_sse1 existing = c_ret_sse1 sig \<and>
     c_sret existing = c_sret sig"

definition intern_signature :: "mir_module \<Rightarrow> signature \<Rightarrow> mir_module \<times> nat" where
  "intern_signature m sig =
     (case find_index (\<lambda>existing. same_signature existing sig) (signatures m) of
        Some i \<Rightarrow> (m, i)
      | None \<Rightarrow> (m\<lparr>signatures := signatures m @ [sig]\<rparr>, length (signatures m)))"

lemma same_signature_eq: "same_signature x y \<longleftrightarrow> x = y"
  unfolding same_signature_def by (cases x; cases y) auto

interpretation signatures: interner "signatures :: mir_module \<Rightarrow> _" intern_signature
proof
  fix k :: signature and s :: mir_module
  show "k \<in> set (signatures s) \<Longrightarrow> fst (intern_signature s k) = s"
    by (auto simp: intern_signature_def find_index_None same_signature_eq split: option.split)
  show "k \<notin> set (signatures s) \<Longrightarrow> signatures (fst (intern_signature s k)) = signatures s @ [k]"
    using find_index_None [of "\<lambda>existing. existing = k" "signatures s"]
    by (auto simp: intern_signature_def same_signature_eq)
  show "snd (intern_signature s k) < length (signatures (fst (intern_signature s k))) \<and>
      signatures (fst (intern_signature s k)) ! snd (intern_signature s k) = k"
    by (auto simp: intern_signature_def same_signature_eq dest!: find_index_Some split: option.split)
qed

subsection \<open>The value operands of an instruction\<close>

text \<open>
  \<^verbatim>\<open>for_each_value_operand\<close> (passes) and \<^verbatim>\<open>for_each_use\<close> (register allocator) are the same switch over
  the opcode. \<open>operand_shape\<close> is the switch, \<open>value_operands\<close> lists what is visited, in order, and
  \<open>map_operands f\<close> is the visit that assigns \<open>f operand\<close> back to each visited field.
\<close>

datatype operand_shape =
  Shape_None | Shape_A | Shape_AB | Shape_ABC | Shape_Args | Shape_A_Args | Shape_A_OptB

definition operand_shape :: "op \<Rightarrow> operand_shape" where
  "operand_shape x =
     (if x \<in> {Op_ConstInt, Op_ConstFloat, Op_ConstNull, Op_GlobalAddr, Op_SlotAddr, Op_FuncAddr,
              Op_Unreachable} then Shape_None
      else if x \<in> {Op_Load, Op_PtrAddConst, Op_StackAlloc} then Shape_A
      else if x \<in> {Op_Store, Op_PtrAdd} then Shape_AB
      else if x \<in> {Op_MemCopy, Op_MemSet, Op_Select} then Shape_ABC
      else if x \<in> {Op_Call, Op_Asm} then Shape_Args
      else if x = Op_CallIndirect then Shape_A_Args
      else if x = Op_Jump then Shape_Args
      else if x = Op_Branch then Shape_A
      else if x = Op_Switch then Shape_A
      else if x = Op_Return then Shape_Args
      else Shape_A_OptB)"

definition value_operands :: "inst \<Rightarrow> value_id list" where
  "value_operands i =
     (case operand_shape (oper i) of
        Shape_None \<Rightarrow> []
      | Shape_A \<Rightarrow> [opa i]
      | Shape_AB \<Rightarrow> [opa i, opb i]
      | Shape_ABC \<Rightarrow> [opa i, opb i, opc i]
      | Shape_Args \<Rightarrow> args i
      | Shape_A_Args \<Rightarrow> opa i # args i
      | Shape_A_OptB \<Rightarrow> opa i # (if opb i \<noteq> NO_VALUE then [opb i] else []))"

definition map_operands :: "(value_id \<Rightarrow> value_id) \<Rightarrow> inst \<Rightarrow> inst" where
  "map_operands f i =
     (case operand_shape (oper i) of
        Shape_None \<Rightarrow> i
      | Shape_A \<Rightarrow> i\<lparr>opa := f (opa i)\<rparr>
      | Shape_AB \<Rightarrow> i\<lparr>opa := f (opa i), opb := f (opb i)\<rparr>
      | Shape_ABC \<Rightarrow> i\<lparr>opa := f (opa i), opb := f (opb i), opc := f (opc i)\<rparr>
      | Shape_Args \<Rightarrow> i\<lparr>args := map f (args i)\<rparr>
      | Shape_A_Args \<Rightarrow> i\<lparr>opa := f (opa i), args := map f (args i)\<rparr>
      | Shape_A_OptB \<Rightarrow> (if opb i \<noteq> NO_VALUE then i\<lparr>opa := f (opa i), opb := f (opb i)\<rparr>
                        else i\<lparr>opa := f (opa i)\<rparr>))"

lemma map_operands_oper [simp]: "oper (map_operands f i) = oper i"
  and map_operands_result [simp]: "result (map_operands f i) = result i"
  and map_operands_itype [simp]: "itype (map_operands f i) = itype i"
  and map_operands_imm [simp]: "imm (map_operands f i) = imm i"
  by (simp_all add: map_operands_def split: operand_shape.split)

lemma value_operands_map:
  assumes "\<And>x. x \<noteq> NO_VALUE \<Longrightarrow> f x \<noteq> NO_VALUE"
  shows "value_operands (map_operands f i) = map f (value_operands i)"
  using assms
  by (simp add: value_operands_def map_operands_def split: operand_shape.split)

lemma map_operands_cong:
  assumes "\<And>x. x \<in> set (value_operands i) \<Longrightarrow> f x = g x"
  shows "map_operands f i = map_operands g i"
  using assms
  by (auto simp: value_operands_def map_operands_def split: operand_shape.splits)

lemma map_operands_ident [simp]: "map_operands (\<lambda>x. x) i = i"
  by (simp add: map_operands_def split: operand_shape.split)

end
