(* ===== verification/Mir_Builder.thy ===== *)
theory Mir_Builder
  imports Mir
begin

text \<open>
  The MIR builder (\<^verbatim>\<open>mir::Builder\<close> of \<^verbatim>\<open>src/src/compiler/mir.hpp\<close> and \<^verbatim>\<open>mir.cpp\<close>): the state it keeps,
  one definition per method, and the invariant that ties every \<^verbatim>\<open>ValueDef\<close> to the instruction or
  block parameter it describes. Every method that changes the function keeps the invariant, so a
  function assembled by any sequence of builder calls gives each value exactly one definition.
\<close>

subsection \<open>State and methods\<close>

record builder =
  bmodule :: mir_module
  bfunction :: nat
  current :: block_id
  bline :: nat
  bcolumn :: nat

definition Builder :: "mir_module \<Rightarrow> nat \<Rightarrow> builder" where
  "Builder m function_index =
     \<lparr>bmodule = m, bfunction = function_index, current = NO_BLOCK, bline = 0, bcolumn = 0\<rparr>"

definition the_function :: "builder \<Rightarrow> func" where
  "the_function b = funcs (bmodule b) ! bfunction b"

definition set_function :: "func \<Rightarrow> builder \<Rightarrow> builder" where
  "set_function f b =
     b\<lparr>bmodule := (bmodule b)\<lparr>funcs := (funcs (bmodule b))[bfunction b := f]\<rparr>\<rparr>"

definition create_block :: "string \<Rightarrow> builder \<Rightarrow> builder \<times> block_id" where
  "create_block lab b =
     (let fn = the_function b;
          fn' = fn\<lparr>blocks := blocks fn @ [\<lparr>label = lab, params = [], insts = []\<rparr>]\<rparr>
      in (set_function fn' b, length (blocks fn') - 1))"

definition fn_new_value :: "ty \<Rightarrow> block_id \<Rightarrow> nat \<Rightarrow> bool \<Rightarrow> func \<Rightarrow> func \<times> value_id" where
  "fn_new_value type blk index is_param fn =
     (let fn' = fn\<lparr>vals := vals fn @
            [\<lparr>vd_block = blk, vd_index = index, vd_type = type, vd_is_param = is_param\<rparr>]\<rparr>
      in (fn', length (vals fn') - 1))"

definition fn_add_block_param :: "block_id \<Rightarrow> ty \<Rightarrow> func \<Rightarrow> func \<times> value_id" where
  "fn_add_block_param blk type fn =
     (let index = length (params (blocks fn ! blk));
          (fn', id) = fn_new_value type blk index True fn
      in (fn'\<lparr>blocks := (blocks fn')[blk := (blocks fn' ! blk)
                \<lparr>params := params (blocks fn' ! blk) @ [id]\<rparr>]\<rparr>, id))"

definition add_block_param :: "block_id \<Rightarrow> ty \<Rightarrow> builder \<Rightarrow> builder \<times> value_id" where
  "add_block_param blk type b =
     (let (fn', id) = fn_add_block_param blk type (the_function b) in (set_function fn' b, id))"

definition set_insert_point :: "block_id \<Rightarrow> builder \<Rightarrow> builder" where
  "set_insert_point blk b = b\<lparr>current := blk\<rparr>"

definition block_is_terminated :: "builder \<Rightarrow> bool" where
  "block_is_terminated b =
     (if current b = NO_BLOCK then True
      else let is = insts (blocks (the_function b) ! current b)
           in is \<noteq> [] \<and> is_terminator (oper (last is)))"

definition add_slot :: "nat \<Rightarrow> nat \<Rightarrow> string \<Rightarrow> builder \<Rightarrow> builder \<times> nat" where
  "add_slot sz align nm b =
     (let fn = the_function b;
          fn' = fn\<lparr>slots := slots fn @ [\<lparr>slot_size = sz, slot_align = max 1 align,
                                         slot_name = nm, address_escapes = False\<rparr>]\<rparr>
      in (set_function fn' b, length (slots fn') - 1))"

definition mark_slot_escaping :: "nat \<Rightarrow> builder \<Rightarrow> builder" where
  "mark_slot_escaping s b =
     (let fn = the_function b
      in set_function (fn\<lparr>slots := (slots fn)[s := (slots fn ! s)\<lparr>address_escapes := True\<rparr>]\<rparr>) b)"

definition set_location :: "nat \<Rightarrow> nat \<Rightarrow> builder \<Rightarrow> builder" where
  "set_location l c b = b\<lparr>bline := l, bcolumn := c\<rparr>"

definition fn_emit :: "block_id \<Rightarrow> inst \<Rightarrow> func \<Rightarrow> func \<times> value_id" where
  "fn_emit cur i fn =
     (let index = length (insts (blocks fn ! cur));
          (fn', res, i') =
            (if defines_value (oper i) \<and> itype i \<noteq> Ty_Void
             then let (fn1, r) = fn_new_value (itype i) cur index False fn
                  in (fn1, r, i\<lparr>result := r\<rparr>)
             else (fn, NO_VALUE, i))
      in (fn'\<lparr>blocks := (blocks fn')[cur := (blocks fn' ! cur)
                \<lparr>insts := insts (blocks fn' ! cur) @ [i']\<rparr>]\<rparr>, res))"

definition emit :: "inst \<Rightarrow> builder \<Rightarrow> builder \<times> value_id" where
  "emit i b =
     (let (fn', res) = fn_emit (current b) (i\<lparr>line := bline b, column := bcolumn b\<rparr>) (the_function b)
      in (set_function fn' b, res))"

subsection \<open>Instruction constructors\<close>

definition const_int :: "ty \<Rightarrow> u64 \<Rightarrow> builder \<Rightarrow> builder \<times> value_id" where
  "const_int type v = emit (default_inst\<lparr>oper := Op_ConstInt, itype := type, imm := v\<rparr>)"

text \<open>
  \<^verbatim>\<open>const_float\<close> stores the bit pattern of the value. The C++ conversions \<^verbatim>\<open>double\<close> to \<^verbatim>\<open>float\<close> and the
  two bit copies are the arguments \<open>f32_bits\<close> and \<open>f64_bits\<close>.
\<close>

definition const_float ::
  "('d \<Rightarrow> u32) \<Rightarrow> ('d \<Rightarrow> u64) \<Rightarrow> ty \<Rightarrow> 'd \<Rightarrow> builder \<Rightarrow> builder \<times> value_id" where
  "const_float f32_bits f64_bits type v =
     emit (default_inst\<lparr>oper := Op_ConstFloat, itype := type,
       imm := (if type = Ty_F32 then ucast (f32_bits v) else f64_bits v)\<rparr>)"

definition const_null :: "builder \<Rightarrow> builder \<times> value_id" where
  "const_null = emit (default_inst\<lparr>oper := Op_ConstNull, itype := Ty_Ptr\<rparr>)"

definition global_addr :: "nat \<Rightarrow> builder \<Rightarrow> builder \<times> value_id" where
  "global_addr g = emit (default_inst\<lparr>oper := Op_GlobalAddr, itype := Ty_Ptr, opa := g\<rparr>)"

definition slot_addr :: "nat \<Rightarrow> builder \<Rightarrow> builder \<times> value_id" where
  "slot_addr s = emit (default_inst\<lparr>oper := Op_SlotAddr, itype := Ty_Ptr, opa := s\<rparr>)"

definition func_addr :: "nat \<Rightarrow> builder \<Rightarrow> builder \<times> value_id" where
  "func_addr f = emit (default_inst\<lparr>oper := Op_FuncAddr, itype := Ty_Ptr, opa := f\<rparr>)"

definition load :: "ty \<Rightarrow> value_id \<Rightarrow> builder \<Rightarrow> builder \<times> value_id" where
  "load type address = emit (default_inst\<lparr>oper := Op_Load, itype := type, opa := address\<rparr>)"

definition store :: "value_id \<Rightarrow> value_id \<Rightarrow> builder \<Rightarrow> builder \<times> value_id" where
  "store address v =
     emit (default_inst\<lparr>oper := Op_Store, itype := Ty_Void, opa := address, opb := v\<rparr>)"

definition mem_copy :: "value_id \<Rightarrow> value_id \<Rightarrow> value_id \<Rightarrow> builder \<Rightarrow> builder \<times> value_id" where
  "mem_copy dst src n = emit (default_inst\<lparr>oper := Op_MemCopy, itype := Ty_Void,
     opa := dst, opb := src, opc := n\<rparr>)"

definition mem_set :: "value_id \<Rightarrow> value_id \<Rightarrow> value_id \<Rightarrow> builder \<Rightarrow> builder \<times> value_id" where
  "mem_set dst byt n = emit (default_inst\<lparr>oper := Op_MemSet, itype := Ty_Void,
     opa := dst, opb := byt, opc := n\<rparr>)"

definition ptr_add_const :: "value_id \<Rightarrow> u64 \<Rightarrow> builder \<Rightarrow> builder \<times> value_id" where
  "ptr_add_const base byte_offset b =
     (if byte_offset = 0 then (b, base)
      else emit (default_inst\<lparr>oper := Op_PtrAddConst, itype := Ty_Ptr, opa := base,
                   imm := byte_offset\<rparr>) b)"

definition ptr_add :: "value_id \<Rightarrow> value_id \<Rightarrow> builder \<Rightarrow> builder \<times> value_id" where
  "ptr_add base byte_offset =
     emit (default_inst\<lparr>oper := Op_PtrAdd, itype := Ty_Ptr, opa := base, opb := byte_offset\<rparr>)"

definition binary :: "op \<Rightarrow> ty \<Rightarrow> value_id \<Rightarrow> value_id \<Rightarrow> builder \<Rightarrow> builder \<times> value_id" where
  "binary x type lhs rhs = emit (default_inst\<lparr>oper := x, itype := type, opa := lhs, opb := rhs\<rparr>)"

definition unary :: "op \<Rightarrow> ty \<Rightarrow> value_id \<Rightarrow> builder \<Rightarrow> builder \<times> value_id" where
  "unary x type operand = emit (default_inst\<lparr>oper := x, itype := type, opa := operand\<rparr>)"

definition compare :: "op \<Rightarrow> value_id \<Rightarrow> value_id \<Rightarrow> builder \<Rightarrow> builder \<times> value_id" where
  "compare x lhs rhs = emit (default_inst\<lparr>oper := x, itype := Ty_I1, opa := lhs, opb := rhs\<rparr>)"

definition convert :: "op \<Rightarrow> ty \<Rightarrow> value_id \<Rightarrow> builder \<Rightarrow> builder \<times> value_id" where
  "convert x type operand = emit (default_inst\<lparr>oper := x, itype := type, opa := operand\<rparr>)"

definition select :: "value_id \<Rightarrow> value_id \<Rightarrow> value_id \<Rightarrow> ty \<Rightarrow> builder \<Rightarrow> builder \<times> value_id" where
  "select condition if_true if_false type =
     emit (default_inst\<lparr>oper := Op_Select, itype := type, opa := condition, opb := if_true,
             opc := if_false\<rparr>)"

definition stack_alloc :: "value_id \<Rightarrow> builder \<Rightarrow> builder \<times> value_id" where
  "stack_alloc n = emit (default_inst\<lparr>oper := Op_StackAlloc, itype := Ty_Ptr, opa := n\<rparr>)"

definition emit_asm :: "nat \<Rightarrow> ty \<Rightarrow> value_id list \<Rightarrow> builder \<Rightarrow> builder \<times> value_id" where
  "emit_asm blk result_type ops =
     emit (default_inst\<lparr>oper := Op_Asm, itype := result_type, opa := blk, args := ops\<rparr>)"

definition call :: "nat \<Rightarrow> ty \<Rightarrow> value_id list \<Rightarrow> builder \<Rightarrow> builder \<times> value_id" where
  "call callee result_type as =
     emit (default_inst\<lparr>oper := Op_Call, itype := result_type, opa := callee, args := as\<rparr>)"

definition call_indirect ::
  "value_id \<Rightarrow> nat \<Rightarrow> ty \<Rightarrow> value_id list \<Rightarrow> builder \<Rightarrow> builder \<times> value_id" where
  "call_indirect callee sig result_type as =
     emit (default_inst\<lparr>oper := Op_CallIndirect, itype := result_type, opa := callee, opb := sig,
             args := as\<rparr>)"

definition jump :: "block_id \<Rightarrow> value_id list \<Rightarrow> builder \<Rightarrow> builder \<times> value_id" where
  "jump target as = emit (default_inst\<lparr>oper := Op_Jump, itype := Ty_Void, opa := target, args := as\<rparr>)"

definition branch :: "value_id \<Rightarrow> block_id \<Rightarrow> block_id \<Rightarrow> builder \<Rightarrow> builder \<times> value_id" where
  "branch condition if_true if_false =
     emit (default_inst\<lparr>oper := Op_Branch, itype := Ty_Void, opa := condition, opb := if_true,
             opc := if_false\<rparr>)"

text \<open>Case values are truncated to 32 bits as they are flattened into the argument list.\<close>

definition switch_on :: "value_id \<Rightarrow> block_id \<Rightarrow> (u64 \<times> block_id) list \<Rightarrow> builder \<Rightarrow> builder \<times> value_id"
  where
  "switch_on scrutinee default_block cases =
     emit (default_inst\<lparr>oper := Op_Switch, itype := Ty_Void, opa := scrutinee, opb := default_block,
             args := concat (map (\<lambda>(v, blk). [unat (ucast v :: u32), blk]) cases)\<rparr>)"

definition ret :: "value_id \<Rightarrow> builder \<Rightarrow> builder \<times> value_id" where
  "ret v = emit (default_inst\<lparr>oper := Op_Return, itype := Ty_Void,
                   args := (if v \<noteq> NO_VALUE then [v] else [])\<rparr>)"

definition unreachable :: "builder \<Rightarrow> builder \<times> value_id" where
  "unreachable = emit (default_inst\<lparr>oper := Op_Unreachable, itype := Ty_Void\<rparr>)"

definition value_type :: "value_id \<Rightarrow> builder \<Rightarrow> ty" where
  "value_type v b =
     (let fn = the_function b in if v < length (vals fn) then vd_type (vals fn ! v) else Ty_Void)"

subsection \<open>Coherence: every value has exactly one definition\<close>

definition value_def_ok :: "func \<Rightarrow> value_id \<Rightarrow> bool" where
  "value_def_ok fn v \<longleftrightarrow>
     (let d = vals fn ! v; blk = blocks fn ! vd_block d
      in vd_block d < length (blocks fn) \<and>
         (if vd_is_param d then vd_index d < length (params blk) \<and> params blk ! vd_index d = v
          else vd_index d < length (insts blk) \<and> result (insts blk ! vd_index d) = v \<and>
               itype (insts blk ! vd_index d) = vd_type d \<and> vd_type d \<noteq> Ty_Void))"

definition result_ok :: "func \<Rightarrow> block_id \<Rightarrow> nat \<Rightarrow> bool" where
  "result_ok fn bi i \<longleftrightarrow>
     (let ins = insts (blocks fn ! bi) ! i
      in result ins = NO_VALUE \<or>
         (result ins < length (vals fn) \<and>
          vals fn ! result ins = \<lparr>vd_block = bi, vd_index = i, vd_type = itype ins,
                                   vd_is_param = False\<rparr>))"

definition param_ok :: "func \<Rightarrow> block_id \<Rightarrow> nat \<Rightarrow> bool" where
  "param_ok fn bi k \<longleftrightarrow>
     (let p = params (blocks fn ! bi) ! k
      in p < length (vals fn) \<and> vd_block (vals fn ! p) = bi \<and> vd_index (vals fn ! p) = k \<and>
         vd_is_param (vals fn ! p))"

definition coherent :: "func \<Rightarrow> bool" where
  "coherent fn \<longleftrightarrow>
     length (vals fn) \<le> NO_VALUE \<and>
     (\<forall>v < length (vals fn). value_def_ok fn v) \<and>
     (\<forall>bi < length (blocks fn). \<forall>i < length (insts (blocks fn ! bi)). result_ok fn bi i) \<and>
     (\<forall>bi < length (blocks fn). \<forall>k < length (params (blocks fn ! bi)). param_ok fn bi k)"

lemmas coherence = value_def_ok_def result_ok_def param_ok_def Let_def

text \<open>Adding a block, and appending to one block, keep what the other positions hold.\<close>

lemma coherent_add_block:
  assumes "coherent fn"
  shows "coherent (fn\<lparr>blocks := blocks fn @ [\<lparr>label = l, params = [], insts = []\<rparr>]\<rparr>)"
  using assms unfolding coherent_def
  by (auto simp: coherence nth_append less_Suc_eq split: if_splits)

lemma coherent_slots [simp]: "coherent (fn\<lparr>slots := ss\<rparr>) \<longleftrightarrow> coherent fn"
  by (simp add: coherent_def coherence)

lemma coherent_add_block_param:
  assumes c: "coherent fn" and bi: "bi < length (blocks fn)" and room: "length (vals fn) < NO_VALUE"
  shows "coherent (fst (fn_add_block_param bi type fn))"
proof -
  have old: "\<And>v. v < length (vals fn) \<Longrightarrow> value_def_ok fn v"
    "\<And>b i. b < length (blocks fn) \<Longrightarrow> i < length (insts (blocks fn ! b)) \<Longrightarrow> result_ok fn b i"
    "\<And>b k. b < length (blocks fn) \<Longrightarrow> k < length (params (blocks fn ! b)) \<Longrightarrow> param_ok fn b k"
    using c by (auto simp: coherent_def)
  let ?fn = "fst (fn_add_block_param bi type fn)"
  have "value_def_ok ?fn v" if "v < Suc (length (vals fn))" for v
    using that bi old(1) [of v]
    by (cases "v = length (vals fn)")
       (auto simp: coherence fn_add_block_param_def fn_new_value_def nth_append nth_list_update)
  moreover have "result_ok ?fn b i"
    if "b < length (blocks fn)" "i < length (insts (blocks fn ! b))" for b i
    using that bi old(2) [of b i]
    by (auto simp: coherence fn_add_block_param_def fn_new_value_def nth_append nth_list_update)
  moreover have "param_ok ?fn b k"
    if "b < length (blocks fn)" "k < length (params (blocks ?fn ! b))" for b k
    using that bi old(3) [of b k]
    by (auto simp: coherence fn_add_block_param_def fn_new_value_def nth_append nth_list_update
        less_Suc_eq split: if_splits)
  moreover have "length (blocks ?fn) = length (blocks fn)" "length (vals ?fn) = Suc (length (vals fn))"
    "\<And>b. b < length (blocks fn) \<Longrightarrow> insts (blocks ?fn ! b) = insts (blocks fn ! b)"
    using bi by (auto simp: fn_add_block_param_def fn_new_value_def nth_list_update)
  ultimately show ?thesis
    using room by (simp add: coherent_def)
qed

lemma coherent_emit:
  assumes c: "coherent fn" and bi: "bi < length (blocks fn)" and room: "length (vals fn) < NO_VALUE"
    and fresh: "result ins = NO_VALUE"
  shows "coherent (fst (fn_emit bi ins fn))"
proof -
  have old: "\<And>v. v < length (vals fn) \<Longrightarrow> value_def_ok fn v"
    "\<And>b i. b < length (blocks fn) \<Longrightarrow> i < length (insts (blocks fn ! b)) \<Longrightarrow> result_ok fn b i"
    "\<And>b k. b < length (blocks fn) \<Longrightarrow> k < length (params (blocks fn ! b)) \<Longrightarrow> param_ok fn b k"
    using c by (auto simp: coherent_def)
  let ?fn = "fst (fn_emit bi ins fn)"
  have "value_def_ok ?fn v" if "v < length (vals ?fn)" for v
    using that bi old(1) [of v]
    by (cases "v = length (vals fn)")
       (auto simp: coherence fn_emit_def fn_new_value_def nth_append nth_list_update split: if_splits)
  moreover have "result_ok ?fn b i"
    if "b < length (blocks fn)" "i < length (insts (blocks ?fn ! b))" for b i
    using that bi fresh old(2) [of b i]
    by (auto simp: coherence fn_emit_def fn_new_value_def nth_append nth_list_update
        less_Suc_eq split: if_splits)
  moreover have "param_ok ?fn b k"
    if "b < length (blocks fn)" "k < length (params (blocks fn ! b))" for b k
    using that bi old(3) [of b k]
    by (auto simp: coherence fn_emit_def fn_new_value_def nth_append nth_list_update split: if_splits)
  moreover have "length (blocks ?fn) = length (blocks fn)" "length (vals ?fn) \<le> NO_VALUE"
    "\<And>b. b < length (blocks fn) \<Longrightarrow> params (blocks ?fn ! b) = params (blocks fn ! b)"
    using room bi by (auto simp: fn_emit_def fn_new_value_def nth_list_update split: if_splits)
  ultimately show ?thesis
    by (simp add: coherent_def)
qed

text \<open>A coherent function defines a value at one place only.\<close>

lemma coherent_single_result:
  assumes "coherent fn" "b < length (blocks fn)" "b' < length (blocks fn)"
    and "i < length (insts (blocks fn ! b))" "i' < length (insts (blocks fn ! b'))"
    and "result (insts (blocks fn ! b) ! i) = v" "result (insts (blocks fn ! b') ! i') = v"
    and "v \<noteq> NO_VALUE"
  shows "b = b' \<and> i = i'"
proof -
  have "result_ok fn b i" "result_ok fn b' i'"
    using assms by (auto simp: coherent_def)
  then show ?thesis
    using assms by (auto simp: result_ok_def Let_def)
qed

subsection \<open>Builder runs\<close>

text \<open>
  A builder client (\<^verbatim>\<open>mirgen\<close>) is a sequence of method calls. The relation has one rule per method
  that changes the state; every instruction constructor is an \<open>emit\<close> of an instruction without a
  result. The guards are the calls' preconditions: the block exists, the insertion point is set, and
  the 32-bit value handles are not used up.
\<close>

inductive builder_step :: "builder \<Rightarrow> builder \<Rightarrow> bool" where
  step_create_block: "builder_step b (fst (create_block l b))"
| step_add_block_param:
    "blk < length (blocks (the_function b)) \<Longrightarrow> length (vals (the_function b)) < NO_VALUE \<Longrightarrow>
     builder_step b (fst (add_block_param blk type b))"
| step_set_insert_point: "builder_step b (set_insert_point blk b)"
| step_add_slot: "builder_step b (fst (add_slot sz align nm b))"
| step_mark_slot_escaping: "builder_step b (mark_slot_escaping s b)"
| step_set_location: "builder_step b (set_location l c b)"
| step_emit:
    "current b < length (blocks (the_function b)) \<Longrightarrow> length (vals (the_function b)) < NO_VALUE \<Longrightarrow>
     result ins = NO_VALUE \<Longrightarrow> builder_step b (fst (emit ins b))"

definition builder_ok :: "builder \<Rightarrow> bool" where
  "builder_ok b \<longleftrightarrow> bfunction b < length (funcs (bmodule b)) \<and> coherent (the_function b)"

lemma the_function_set [simp]:
  "bfunction b < length (funcs (bmodule b)) \<Longrightarrow> the_function (set_function f b) = f"
  by (simp add: the_function_def set_function_def)

lemma set_function_frame [simp]:
  "bfunction (set_function f b) = bfunction b"
  "length (funcs (bmodule (set_function f b))) = length (funcs (bmodule b))"
  "current (set_function f b) = current b"
  by (simp_all add: set_function_def)

lemma builder_ok_set:
  "builder_ok b \<Longrightarrow> coherent f \<Longrightarrow> builder_ok (set_function f b)"
  by (simp add: builder_ok_def)

lemma builder_step_ok: "builder_step b c \<Longrightarrow> builder_ok b \<Longrightarrow> builder_ok c"
proof (induction rule: builder_step.induct)
  case (step_create_block b l)
  then show ?case
    by (simp add: create_block_def Let_def builder_ok_set coherent_add_block builder_ok_def)
next
  case (step_add_block_param blk b type)
  then show ?case
    by (simp add: add_block_param_def case_prod_beta builder_ok_set coherent_add_block_param
        builder_ok_def)
next
  case (step_add_slot b sz align nm)
  then show ?case
    by (simp add: add_slot_def Let_def builder_ok_set builder_ok_def)
next
  case (step_mark_slot_escaping b s)
  then show ?case
    by (simp add: mark_slot_escaping_def Let_def builder_ok_set builder_ok_def)
next
  case (step_emit b ins)
  then show ?case
    by (simp add: emit_def case_prod_beta builder_ok_set coherent_emit builder_ok_def)
qed (simp_all add: builder_ok_def the_function_def set_insert_point_def set_location_def)

interpretation builder: invariant_system builder_step builder_ok
  by unfold_locales (rule builder_step_ok)

end
