(* ===== verification/Mir_Fold.thy ===== *)
theory Mir_Fold
  imports Mir "HOL-Library.Signed_Division"
begin

text \<open>
  Integer constant folding (\<^verbatim>\<open>normalize\<close>, \<^verbatim>\<open>fold_binary\<close>, \<^verbatim>\<open>fold_compare\<close> of
  \<^verbatim>\<open>src/src/compiler/mir_passes.cpp\<close>) on 64-bit words, and its equivalence with the arithmetic of
  \<open>n\<close>-bit two's complement integers.
\<close>

subsection \<open>The folding functions\<close>

definition normalize :: "u64 \<Rightarrow> ty \<Rightarrow> nat \<Rightarrow> bool \<Rightarrow> u64" where
  "normalize v type pb sign_extend =
     (let bits = type_bits type pb
      in if 64 \<le> bits then v
         else let mask = push_bit bits 1 - 1;
                  out = v AND mask
              in if sign_extend \<and> drop_bit (bits - 1) out AND 1 \<noteq> 0 then out OR NOT mask else out)"

definition INT64_MIN :: u64 where
  "INT64_MIN = push_bit 63 1"

definition fold_binary :: "op \<Rightarrow> ty \<Rightarrow> u64 \<Rightarrow> u64 \<Rightarrow> nat \<Rightarrow> u64 option" where
  "fold_binary x type raw_a raw_b pb =
     (let bits = type_bits type pb;
          ua = normalize raw_a type pb False;
          ub = normalize raw_b type pb False;
          sa = normalize raw_a type pb True;
          sb = normalize raw_b type pb True
      in if x = Op_Add then Some (normalize (ua + ub) type pb False)
         else if x = Op_Sub then Some (normalize (ua - ub) type pb False)
         else if x = Op_Mul then Some (normalize (ua * ub) type pb False)
         else if x = Op_UDiv then (if ub = 0 then None else Some (ua div ub))
         else if x = Op_URem then (if ub = 0 then None else Some (ua mod ub))
         else if x = Op_SDiv then
           (if sb = 0 \<or> (sa = INT64_MIN \<and> sb = -1) then None
            else Some (normalize (word_of_int (sint sa sdiv sint sb)) type pb False))
         else if x = Op_SRem then
           (if sb = 0 \<or> (sa = INT64_MIN \<and> sb = -1) then None
            else Some (normalize (word_of_int (sint sa smod sint sb)) type pb False))
         else if x = Op_And then Some (ua AND ub)
         else if x = Op_Or then Some (ua OR ub)
         else if x = Op_Xor then Some (ua XOR ub)
         else if x = Op_Shl then
           (if bits \<le> unat ub then None
            else Some (normalize (push_bit (unat ub) ua) type pb False))
         else if x = Op_LShr then
           (if bits \<le> unat ub then None else Some (drop_bit (unat ub) ua))
         else if x = Op_AShr then
           (if bits \<le> unat ub then None
            else Some (normalize (signed_drop_bit (unat sb) sa) type pb False))
         else None)"

definition fold_compare :: "op \<Rightarrow> ty \<Rightarrow> u64 \<Rightarrow> u64 \<Rightarrow> nat \<Rightarrow> u64 option" where
  "fold_compare x type raw_a raw_b pb =
     (let ua = normalize raw_a type pb False;
          ub = normalize raw_b type pb False;
          sa = normalize raw_a type pb True;
          sb = normalize raw_b type pb True
      in if x = Op_ICmpEq then Some (of_bool (ua = ub))
         else if x = Op_ICmpNe then Some (of_bool (ua \<noteq> ub))
         else if x = Op_ICmpUlt then Some (of_bool (ua < ub))
         else if x = Op_ICmpUle then Some (of_bool (ua \<le> ub))
         else if x = Op_ICmpUgt then Some (of_bool (ua > ub))
         else if x = Op_ICmpUge then Some (of_bool (ua \<ge> ub))
         else if x = Op_ICmpSlt then Some (of_bool (sint sa < sint sb))
         else if x = Op_ICmpSle then Some (of_bool (sint sa \<le> sint sb))
         else if x = Op_ICmpSgt then Some (of_bool (sint sa > sint sb))
         else if x = Op_ICmpSge then Some (of_bool (sint sa \<ge> sint sb))
         else None)"

subsection \<open>Reference arithmetic on \<open>n\<close>-bit integers\<close>

text \<open>
  The meaning of the integer opcodes on residues \<open>0 \<le> x < 2 ^ n\<close>; \<open>as_signed n x\<close> is the two's
  complement reading. Division by zero, a shift by the width or more, and the one quotient that
  does not fit 64 bits have no value.
\<close>

definition as_signed :: "nat \<Rightarrow> int \<Rightarrow> int" where
  "as_signed n x = (if 2 ^ (n - 1) \<le> x then x - 2 ^ n else x)"

definition int_binop :: "op \<Rightarrow> nat \<Rightarrow> int \<Rightarrow> int \<Rightarrow> int option" where
  "int_binop p n x y =
     (let sx = as_signed n x; sy = as_signed n y
      in if p = Op_Add then Some ((x + y) mod 2 ^ n)
         else if p = Op_Sub then Some ((x - y) mod 2 ^ n)
         else if p = Op_Mul then Some ((x * y) mod 2 ^ n)
         else if p = Op_UDiv then (if y = 0 then None else Some (x div y))
         else if p = Op_URem then (if y = 0 then None else Some (x mod y))
         else if p = Op_SDiv then
           (if y = 0 \<or> (sx = - (2 ^ 63) \<and> sy = -1) then None else Some ((sx sdiv sy) mod 2 ^ n))
         else if p = Op_SRem then
           (if y = 0 \<or> (sx = - (2 ^ 63) \<and> sy = -1) then None else Some ((sx smod sy) mod 2 ^ n))
         else if p = Op_And then Some (x AND y)
         else if p = Op_Or then Some (x OR y)
         else if p = Op_Xor then Some (x XOR y)
         else if p = Op_Shl then (if int n \<le> y then None else Some ((x * 2 ^ nat y) mod 2 ^ n))
         else if p = Op_LShr then (if int n \<le> y then None else Some (x div 2 ^ nat y))
         else if p = Op_AShr then (if int n \<le> y then None else Some ((sx div 2 ^ nat y) mod 2 ^ n))
         else None)"

definition int_compare :: "op \<Rightarrow> nat \<Rightarrow> int \<Rightarrow> int \<Rightarrow> bool option" where
  "int_compare p n x y =
     (let sx = as_signed n x; sy = as_signed n y
      in if p = Op_ICmpEq then Some (x = y)
         else if p = Op_ICmpNe then Some (x \<noteq> y)
         else if p = Op_ICmpUlt then Some (x < y)
         else if p = Op_ICmpUle then Some (x \<le> y)
         else if p = Op_ICmpUgt then Some (x > y)
         else if p = Op_ICmpUge then Some (x \<ge> y)
         else if p = Op_ICmpSlt then Some (sx < sy)
         else if p = Op_ICmpSle then Some (sx \<le> sy)
         else if p = Op_ICmpSgt then Some (sx > sy)
         else if p = Op_ICmpSge then Some (sx \<ge> sy)
         else None)"

subsection \<open>Normalization\<close>

lemma low_mask: "push_bit n 1 - 1 = (mask n :: 'a::len word)"
  by (simp add: mask_eq_exp_minus_1)

lemma normalize_unsigned: "normalize v type pb False = take_bit (type_bits type pb) v"
proof (cases "64 \<le> type_bits type pb")
  case True
  then show ?thesis
    by (simp add: normalize_def take_bit_word_eq_self)
next
  case False
  then show ?thesis
    by (simp add: normalize_def Let_def take_bit_eq_mask mask_eq_exp_minus_1)
qed

lemma uint_take_bit: "uint (take_bit n (v :: 'a::len word)) = uint v mod 2 ^ n"
  by (simp add: unsigned_take_bit_eq flip: take_bit_eq_mod)

lemma uint_normalize [bounds]:
  "uint (normalize v type pb False) = uint v mod 2 ^ type_bits type pb"
  by (simp add: normalize_unsigned uint_take_bit)

lemma sint_word_of_int:
  assumes "- (2 ^ 63) \<le> k" "k < 2 ^ 63"
  shows "sint (word_of_int k :: u64) = k"
  using assms by (simp add: sint_sbintrunc' signed_take_bit_int_eq_self)

lemma as_signed_range:
  assumes "1 \<le> n" "n \<le> 64" "0 \<le> x" "x < 2 ^ n"
  shows "- (2 ^ 63) \<le> as_signed n x \<and> as_signed n x < 2 ^ 63"
proof -
  obtain k where k: "n = Suc k" using assms(1) by (cases n) auto
  then have le: "(2::int) ^ k \<le> 2 ^ 63" using assms(2) by (intro power_increasing) auto
  have "x < 2 * 2 ^ k" using assms(4) k by simp
  with le assms(3) show ?thesis
    unfolding as_signed_def k by auto
qed

lemma or_high_mask: "take_bit n (v :: u64) OR NOT (mask n) = take_bit n v - 2 ^ n"
proof -
  have "take_bit n v + NOT (mask n) = take_bit n v OR NOT (mask n)"
    by (intro disjunctive_add) (auto simp: bit_take_bit_iff bit_not_iff bit_mask_iff)
  moreover have "NOT (mask n :: u64) = - (2 ^ n)"
    by (simp add: mask_eq_exp_minus_1 not_eq_complement)
  ultimately show ?thesis by simp
qed

lemma normalize_signed:
  assumes "1 \<le> type_bits type pb" "type_bits type pb \<le> 64"
  shows "normalize v type pb True =
    word_of_int (as_signed (type_bits type pb) (uint v mod 2 ^ type_bits type pb))"
proof (cases "type_bits type pb = 64")
  case True
  have "uint v mod 2 ^ 64 = uint v"
    using uint_bounded [of v] by (intro mod_pos_pos_trivial) simp_all
  moreover have "(18446744073709551616 :: u64) = 0" by simp
  ultimately show ?thesis
    using True by (simp add: normalize_def as_signed_def)
next
  case False
  define n where "n = type_bits type pb"
  have "1 \<le> n" using assms(1) by (simp add: n_def)
  then obtain k where k: "n = Suc k" by (cases n) simp_all
  have n64: "n < 64" using False assms(2) n_def by simp
  let ?u = "uint v mod 2 ^ n"
  have out: "take_bit n v = word_of_int ?u"
    by (metis uint_take_bit word_of_int_uint)
  have "drop_bit k (take_bit n v) AND 1 \<noteq> 0 \<longleftrightarrow> bit (take_bit n v) k"
    by (simp add: and_one_eq bit_iff_odd_drop_bit odd_iff_mod_2_eq_one)
  also have "\<dots> \<longleftrightarrow> bit ?u k"
    using n64 k bit_uint_iff [of "take_bit n v" k] by (simp only: uint_take_bit) simp
  also have "\<dots> \<longleftrightarrow> 2 ^ k \<le> ?u"
  proof -
    have less: "?u < 2 * 2 ^ k" using k pos_mod_bound [of "2 ^ n" "uint v"] by simp
    have "(2 ^ k + (?u - 2 ^ k)) div 2 ^ k = (?u - 2 ^ k) div 2 ^ k + 1" by (rule div_add_self1) simp
    then have one: "?u div 2 ^ k = 1" if "2 ^ k \<le> ?u"
      using that less div_pos_pos_trivial [of "?u - 2 ^ k" "2 ^ k"] by simp
    have zero: "?u div 2 ^ k = 0" if "\<not> 2 ^ k \<le> ?u"
      using that by (intro div_pos_pos_trivial) simp_all
    show ?thesis by (cases "2 ^ k \<le> ?u") (simp_all add: bit_iff_odd one zero)
  qed
  finally have top: "drop_bit (n - 1) (take_bit n v) AND 1 \<noteq> 0 \<longleftrightarrow> 2 ^ (n - 1) \<le> ?u"
    using k by simp
  have "normalize v type pb True =
    (if drop_bit (n - 1) (take_bit n v) AND 1 \<noteq> 0 then take_bit n v OR NOT (mask n) else take_bit n v)"
    using n64 by (simp add: normalize_def Let_def n_def take_bit_eq_mask mask_eq_exp_minus_1)
  also have "\<dots> = word_of_int (as_signed n ?u)"
    unfolding top or_high_mask by (simp add: as_signed_def out)
  finally show ?thesis by (simp add: n_def)
qed

lemma sint_normalize:
  assumes "1 \<le> type_bits type pb" "type_bits type pb \<le> 64"
  shows "sint (normalize v type pb True) =
    as_signed (type_bits type pb) (uint v mod 2 ^ type_bits type pb)"
  using assms as_signed_range [of "type_bits type pb" "uint v mod 2 ^ type_bits type pb"]
  by (simp add: normalize_signed sint_word_of_int)

subsection \<open>The folder computes \<open>n\<close>-bit arithmetic\<close>

lemma mod_pow_cancel: "n \<le> 64 \<Longrightarrow> (x :: int) mod 18446744073709551616 mod 2 ^ n = x mod 2 ^ n"
  using mod_mod_cancel [OF le_imp_power_dvd [of n 64 "2 :: int"], of x] by simp

lemma uint_normalize_sint:
  assumes "type_bits type pb \<le> 64"
  shows "uint (normalize w type pb False) = sint w mod 2 ^ type_bits type pb"
proof -
  have "uint w = sint w mod 18446744073709551616"
    by (simp add: uint_sint take_bit_eq_mod)
  with mod_pow_cancel [OF assms] show ?thesis by (simp add: uint_normalize)
qed

lemma small_shift:
  assumes "1 \<le> n" "0 \<le> y" "y < int n"
  shows "as_signed n y = y"
proof -
  obtain k where k: "n = Suc k" using assms(1) by (cases n) auto
  have "int (Suc k) \<le> 2 ^ k" by (induction k) auto
  with assms k show ?thesis by (simp add: as_signed_def)
qed

lemma as_signed_eq_0:
  assumes "1 \<le> n" "0 \<le> y" "y < 2 ^ n"
  shows "as_signed n y = 0 \<longleftrightarrow> y = 0"
proof -
  have "(0::int) < 2 ^ (n - 1)" by simp
  with assms show ?thesis by (auto simp: as_signed_def)
qed

lemma uint_wrap:
  fixes a b :: u64
  assumes "n \<le> 64"
  shows "uint (a + b) mod 2 ^ n = (uint a + uint b) mod 2 ^ n"
    and "uint (a - b) mod 2 ^ n = (uint a - uint b) mod 2 ^ n"
    and "uint (a * b) mod 2 ^ n = (uint a * uint b) mod 2 ^ n"
    and "uint (word_of_int k :: u64) mod 2 ^ n = k mod 2 ^ n"
  using mod_pow_cancel [OF assms]
  by (simp_all add: uint_word_ariths uint_word_of_int)

lemma uint_wrap_shl:
  fixes a :: u64
  assumes "n \<le> 64"
  shows "uint (push_bit m a) mod 2 ^ n = (uint a * 2 ^ m) mod 2 ^ n"
proof -
  have "uint (push_bit m a) = (uint a * 2 ^ m) mod 18446744073709551616"
    by (simp only: unsigned_push_bit_eq) (simp add: push_bit_eq_mult take_bit_eq_mod)
  with mod_pow_cancel [OF assms] show ?thesis by simp
qed

lemma word_eq_iff_sint: "(a :: u64) = b \<longleftrightarrow> sint a = sint b"
  using signed_word_eqI by blast

theorem fold_binary_correct:
  assumes "is_integer type"
  shows "map_option uint (fold_binary x type a b pb) =
    int_binop x (type_bits type pb) (uint a mod 2 ^ type_bits type pb) (uint b mod 2 ^ type_bits type pb)"
proof -
  define n where "n = type_bits type pb"
  have n: "1 \<le> type_bits type pb" "type_bits type pb \<le> 64"
    using integer_bits [OF assms(1)] by auto
  let ?x = "uint a mod 2 ^ n" and ?y = "uint b mod 2 ^ n"
  have r: "0 \<le> ?x" "?x < 2 ^ n" "0 \<le> ?y" "?y < 2 ^ n" by simp_all
  have ub: "normalize b type pb False = 0 \<longleftrightarrow> ?y = 0"
    by (simp add: word_uint_eq_iff uint_normalize n_def)
  have sb: "normalize b type pb True = 0 \<longleftrightarrow> ?y = 0"
    using sint_normalize [OF n] as_signed_eq_0 [OF _ r(3,4)] n n_def by (simp add: word_eq_iff_sint)
  have minus1: "normalize b type pb True = -1 \<longleftrightarrow> as_signed n ?y = -1"
    using sint_normalize [OF n] n_def by (simp add: word_eq_iff_sint)
  have min: "normalize a type pb True = INT64_MIN \<longleftrightarrow> as_signed n ?x = - (2 ^ 63)"
    using sint_normalize [OF n] n_def by (simp add: word_eq_iff_sint INT64_MIN_def)
  have sh: "type_bits type pb \<le> unat (normalize b type pb False) \<longleftrightarrow> int n \<le> ?y"
    by (simp add: unat_eq_nat_uint uint_normalize n_def le_nat_iff)
  have amount: "unat (normalize b type pb False) = nat ?y"
    by (simp add: unat_eq_nat_uint uint_normalize n_def)
  have samount: "unat (normalize b type pb True) = nat ?y" if "?y < int n"
  proof -
    have "as_signed n ?y = ?y" using small_shift [OF _ r(3) that] n n_def by simp
    then have "normalize b type pb True = word_of_int ?y"
      using normalize_signed [OF n] n_def by simp
    moreover have "?y < 2 ^ 64"
      using less_le_trans [OF r(4) power_increasing [of n 64 "2::int"]] n(2) n_def by simp
    ultimately show ?thesis by (simp add: unat_eq_nat_uint uint_word_of_int take_bit_int_eq_self)
  qed
  note un = uint_normalize [of _ type pb, folded n_def]
    and wrap = uint_wrap [OF n(2), folded n_def] uint_wrap_shl [OF n(2), folded n_def]
    and sn = sint_normalize [OF n, folded n_def]
  have lshr: "uint (drop_bit m w) = uint w div 2 ^ m" for m and w :: u64
    using uint_bounded [of w] by (simp only: unsigned_drop_bit_eq) (simp add: drop_bit_eq_div take_bit_int_eq_self)
  have ashr: "uint (normalize (signed_drop_bit m (normalize a type pb True)) type pb False) =
      (as_signed n ?x div 2 ^ m) mod 2 ^ n" for m
    by (simp only: uint_normalize_sint [OF n(2)] sint_signed_drop_bit_eq sn n_def [symmetric])
       (simp add: drop_bit_eq_div)
  show ?thesis
  proof (cases "x \<in> {Op_Add, Op_Sub, Op_Mul, Op_UDiv, Op_URem, Op_SDiv, Op_SRem, Op_And, Op_Or, Op_Xor}")
    case True
    then show ?thesis
      unfolding fold_binary_def int_binop_def Let_def n_def [symmetric]
      by (elim insertE emptyE)
         (simp_all add: un wrap sn ub sb min minus1 uint_div uint_mod unsigned_and_eq unsigned_or_eq
           unsigned_xor_eq)
  next
    case rest: False
    show ?thesis
    proof (cases "x \<in> {Op_Shl, Op_LShr, Op_AShr}")
      case True
      then consider "x = Op_Shl" | "x = Op_LShr" | "x = Op_AShr" by blast
      then show ?thesis
      proof cases
        case 1
        then show ?thesis
          by (simp add: fold_binary_def int_binop_def Let_def le_nat_iff sh n_def [symmetric] wrap un amount)
      next
        case 2
        then show ?thesis
          by (simp add: fold_binary_def int_binop_def Let_def le_nat_iff sh n_def [symmetric] un amount lshr)
      next
        case 3
        then show ?thesis
          by (simp add: fold_binary_def int_binop_def Let_def le_nat_iff sh n_def [symmetric] amount samount ashr)
      qed
    next
      case False
      with rest show ?thesis
        by (simp add: fold_binary_def int_binop_def Let_def)
    qed
  qed
qed

theorem fold_compare_correct:
  assumes "is_integer type"
  shows "fold_compare x type a b pb =
    map_option of_bool (int_compare x (type_bits type pb) (uint a mod 2 ^ type_bits type pb)
      (uint b mod 2 ^ type_bits type pb))"
proof -
  have n: "1 \<le> type_bits type pb" "type_bits type pb \<le> 64"
    using integer_bits [OF assms(1)] by auto
  show ?thesis
    unfolding fold_compare_def int_compare_def Let_def
    by (simp add: sint_normalize [OF n] word_uint_eq_iff word_less_def word_le_def uint_normalize)
qed

text \<open>A folded value is canonical: it fits the type's width.\<close>

lemma int_binop_range:
  assumes "int_binop p n x y = Some r" "0 \<le> x" "x < 2 ^ n" "0 \<le> y" "y < 2 ^ n"
  shows "0 \<le> r \<and> r < 2 ^ n"
proof -
  have div: "0 \<le> x div k \<and> x div k < 2 ^ n" if "0 \<le> k" for k
  proof (cases "k = 0")
    case False
    then have "x div k \<le> x div 1" using assms(2) that by (intro zdiv_mono2) simp_all
    with False show ?thesis using assms(2,3) that by (simp add: pos_imp_zdiv_nonneg_iff)
  qed (use assms in simp)
  have bitw: "0 \<le> f x y \<and> f x y < 2 ^ n" if "f = (AND) \<or> f = (OR) \<or> f = (XOR)" for f :: "int \<Rightarrow> int \<Rightarrow> int"
  proof -
    have "take_bit n x = x" "take_bit n y = y"
      using assms by (simp_all add: take_bit_int_eq_self)
    then have "take_bit n (f x y) = f x y"
      using that by (elim disjE) (simp_all add: take_bit_and take_bit_or take_bit_xor)
    then show ?thesis by (metis take_bit_int_less_exp take_bit_nonnegative)
  qed
  have m: "0 \<le> x mod y \<and> x mod y < 2 ^ n" if "y \<noteq> 0"
    using that assms less_trans [OF pos_mod_bound [of y x] assms(5)] by simp
  show ?thesis
    using assms(1,4) div [of y] div [of "2 ^ nat y"] m
      bitw [of "(AND)"] bitw [of "(OR)"] bitw [of "(XOR)"]
    by (auto simp: int_binop_def Let_def split: if_splits)
qed

end
