(* ===== verification/Mir_Verify.thy ===== *)
theory Mir_Verify
  imports Mir
begin

text \<open>
  The MIR verifier (\<^verbatim>\<open>mir::verify\<close>, \<^verbatim>\<open>src/src/compiler/mir.cpp\<close>): the checks with the diagnostics they
  append, in order, and a declarative typing of instructions, blocks, functions and modules. The
  verifier reports nothing exactly on the well-typed modules.
\<close>

subsection \<open>The checks\<close>

definition value_ok :: "func \<Rightarrow> nat \<Rightarrow> bool" where
  "value_ok fn v \<longleftrightarrow> v \<noteq> NO_VALUE \<and> v < length (vals fn)"

definition not_a_value :: "string \<Rightarrow> nat \<Rightarrow> string" where
  "not_a_value wher v =
     wher @ '': operand '' @ show_nat v @ '' is not a value defined in this function''"

definition check_operand :: "func \<Rightarrow> nat \<Rightarrow> string \<Rightarrow> string list" where
  "check_operand fn v wher = fails (\<not> value_ok fn v) (not_a_value wher v)"

definition check_operand_type :: "func \<Rightarrow> nat \<Rightarrow> ty \<Rightarrow> string \<Rightarrow> string list" where
  "check_operand_type fn v expected wher =
     (if \<not> value_ok fn v then [not_a_value wher v]
      else fails (vd_type (vals fn ! v) \<noteq> expected)
        (wher @ '': operand has type '' @ quoted (type_name (vd_type (vals fn ! v))) @
         '', expected '' @ quoted (type_name expected)))"

definition check_block_args :: "func \<Rightarrow> block_id \<Rightarrow> nat list \<Rightarrow> string \<Rightarrow> string list" where
  "check_block_args fn target as wher =
     (if length (blocks fn) \<le> target
      then [wher @ '': branch target '' @ show_nat target @ '' is out of range'']
      else let ps = params (blocks fn ! target)
        in if length ps \<noteq> length as
           then [wher @ '': target block '' @ quoted (label (blocks fn ! target)) @ '' takes '' @
                 show_nat (length ps) @ '' parameter(s) but '' @ show_nat (length as) @
                 '' argument(s) were passed'']
           else concat (map (\<lambda>k.
             if \<not> value_ok fn (as ! k)
             then [wher @ '': block argument '' @ show_nat k @
                   '' is not a value defined in this function'']
             else fails (vd_type (vals fn ! (as ! k)) \<noteq> vd_type (vals fn ! (ps ! k)))
               (wher @ '': block argument '' @ show_nat k @ '' has type '' @
                quoted (type_name (vd_type (vals fn ! (as ! k)))) @ '' but parameter is '' @
                quoted (type_name (vd_type (vals fn ! (ps ! k))))))
             [0..<length as]))"

definition check_asm :: "mir_module \<Rightarrow> func \<Rightarrow> inst \<Rightarrow> string \<Rightarrow> string list" where
  "check_asm m fn i site =
     (if length (asm_blocks m) \<le> opa i
      then [site @ '': asm block '' @ show_nat (opa i) @ '' does not exist'']
      else concat (map (\<lambda>arg. check_operand_type fn arg Ty_Ptr site) (args i)) @
           concat (map (\<lambda>ins. concat (map (\<lambda>operand.
             fails (akind operand = Asm_Variable \<and> length (args i) \<le> arg_index operand)
               (site @ '': asm operand references argument '' @ show_nat (arg_index operand) @
                '' of '' @ show_nat (length (args i))))
             (operands ins))) (instructions (asm_blocks m ! opa i))))"

definition check_call :: "mir_module \<Rightarrow> func \<Rightarrow> inst \<Rightarrow> string \<Rightarrow> string list" where
  "check_call m fn i site =
     (if length (funcs m) \<le> opa i
      then [site @ '': callee '' @ show_nat (opa i) @ '' does not exist'']
      else let callee = funcs m ! opa i
        in if length (signatures m) \<le> fsignature callee then []
           else let cs = signatures m ! fsignature callee
             in fails (\<not> is_variadic cs \<and> length (args i) \<noteq> length (sig_params cs))
                  (site @ '': '' @ quoted (fname callee) @ '' takes '' @
                   show_nat (length (sig_params cs)) @ '' argument(s), '' @
                   show_nat (length (args i)) @ '' passed'') @
                concat (map (\<lambda>k.
                  if k < length (sig_params cs)
                  then check_operand_type fn (args i ! k) (sig_params cs ! k) site
                  else check_operand fn (args i ! k) site) [0..<length (args i)]) @
                fails (itype i \<noteq> sig_result cs)
                  (site @ '': '' @ quoted (fname callee) @ '' returns '' @
                   quoted (type_name (sig_result cs)) @ '' but the call is typed '' @
                   quoted (type_name (itype i))))"

definition check_call_indirect :: "mir_module \<Rightarrow> func \<Rightarrow> inst \<Rightarrow> string \<Rightarrow> string list" where
  "check_call_indirect m fn i site =
     check_operand_type fn (opa i) Ty_Ptr site @
     (if length (signatures m) \<le> opb i
      then [site @ '': signature '' @ show_nat (opb i) @ '' does not exist'']
      else let ts = signatures m ! opb i
        in fails (\<not> is_variadic ts \<and> length (args i) \<noteq> length (sig_params ts))
             (site @ '': signature takes '' @ show_nat (length (sig_params ts)) @
              '' argument(s), '' @ show_nat (length (args i)) @ '' passed'') @
           concat (map (\<lambda>k. check_operand_type fn (args i ! k) (sig_params ts ! k) site)
             [0..<min (length (args i)) (length (sig_params ts))]))"

definition check_switch :: "func \<Rightarrow> inst \<Rightarrow> string \<Rightarrow> string list" where
  "check_switch fn i site =
     check_operand fn (opa i) site @ check_block_args fn (opb i) [] site @
     (if length (args i) mod 2 \<noteq> 0
      then [site @ '': case list is not (value, block) pairs'']
      else concat (map (\<lambda>t. check_block_args fn t [] site) (odds (args i))))"

definition check_return :: "func \<Rightarrow> signature \<Rightarrow> inst \<Rightarrow> string \<Rightarrow> string list" where
  "check_return fn sg i site =
     (if sig_result sg = Ty_Void
      then fails (args i \<noteq> []) (site @ '': function returns void but a value was returned'')
      else if length (args i) \<noteq> 1
      then [site @ '': function returns '' @ quoted (type_name (sig_result sg)) @ '' but '' @
            show_nat (length (args i)) @ '' value(s) were returned'']
      else check_operand_type fn (args i ! 0) (sig_result sg) site)"

definition check_comparison :: "func \<Rightarrow> inst \<Rightarrow> string \<Rightarrow> string list" where
  "check_comparison fn i site =
     fails (itype i \<noteq> Ty_I1) (site @ '': a comparison must produce '' @ quoted ''i1'') @
     check_operand fn (opa i) site @ check_operand fn (opb i) site @
     (if value_ok fn (opa i) \<and> value_ok fn (opb i)
      then let lhs = vd_type (vals fn ! opa i); rhs = vd_type (vals fn ! opb i)
        in if lhs \<noteq> rhs
           then [site @ '': operands have different types ('' @ quoted (type_name lhs) @ '' and '' @
                 quoted (type_name rhs) @ '')'']
           else fails (is_float_comparison (oper i) \<noteq> is_float lhs \<and> lhs \<noteq> Ty_Ptr)
             (site @ '': operand type '' @ quoted (type_name lhs) @
              '' does not match the comparison kind'')
      else [])"

text \<open>The \<^verbatim>\<open>default:\<close> arm: arithmetic, comparison and conversion.\<close>

definition check_arith :: "func \<Rightarrow> inst \<Rightarrow> string \<Rightarrow> string list" where
  "check_arith fn i site =
     (if is_comparison (oper i) then check_comparison fn i site
      else if is_int_binary (oper i)
      then check_operand_type fn (opa i) (itype i) site @
           check_operand_type fn (opb i) (itype i) site @
           fails (\<not> is_integer (itype i))
             (site @ '': integer operation on '' @ quoted (type_name (itype i)))
      else if oper i = Op_Not \<or> oper i = Op_Neg \<or> oper i = Op_FNeg
      then check_operand_type fn (opa i) (itype i) site
      else if Op_FAdd \<le> oper i \<and> oper i \<le> Op_FRem
      then check_operand_type fn (opa i) (itype i) site @
           check_operand_type fn (opb i) (itype i) site @
           fails (\<not> is_float (itype i))
             (site @ '': float operation on '' @ quoted (type_name (itype i)))
      else check_operand fn (opa i) site @
           fails (value_ok fn (opa i) \<and> vd_type (vals fn ! opa i) = itype i \<and> oper i \<noteq> Op_Bitcast)
             (site @ '': converts '' @ quoted (type_name (itype i)) @ '' to itself''))"

definition check_inst :: "mir_module \<Rightarrow> func \<Rightarrow> signature \<Rightarrow> inst \<Rightarrow> string \<Rightarrow> string list" where
  "check_inst m fn sg i wher =
     (let site = wher @ '': '' @ quoted (op_name (oper i)); x = oper i
      in if x = Op_ConstInt
         then fails (\<not> is_integer (itype i)) (site @ '': result must be an integer type'')
         else if x = Op_ConstFloat
         then fails (\<not> is_float (itype i)) (site @ '': result must be a float type'')
         else if x \<in> {Op_ConstNull, Op_SlotAddr, Op_GlobalAddr, Op_FuncAddr}
         then fails (itype i \<noteq> Ty_Ptr) (site @ '': result must be '' @ quoted ''ptr'') @
              fails (x = Op_SlotAddr \<and> length (slots fn) \<le> opa i)
                (site @ '': slot '' @ show_nat (opa i) @ '' does not exist'') @
              fails (x = Op_GlobalAddr \<and> length (globals m) \<le> opa i)
                (site @ '': global '' @ show_nat (opa i) @ '' does not exist'') @
              fails (x = Op_FuncAddr \<and> length (funcs m) \<le> opa i)
                (site @ '': function '' @ show_nat (opa i) @ '' does not exist'')
         else if x = Op_Load
         then check_operand_type fn (opa i) Ty_Ptr site @
              fails (itype i = Ty_Void) (site @ '': cannot load a void value'')
         else if x = Op_Store
         then check_operand_type fn (opa i) Ty_Ptr site @ check_operand fn (opb i) site
         else if x = Op_MemCopy
         then check_operand_type fn (opa i) Ty_Ptr site @ check_operand_type fn (opb i) Ty_Ptr site @
              check_operand fn (opc i) site
         else if x = Op_MemSet
         then check_operand_type fn (opa i) Ty_Ptr site @ check_operand fn (opb i) site @
              check_operand fn (opc i) site
         else if x = Op_PtrAddConst
         then check_operand_type fn (opa i) Ty_Ptr site @
              fails (itype i \<noteq> Ty_Ptr) (site @ '': result must be '' @ quoted ''ptr'')
         else if x = Op_PtrAdd
         then check_operand_type fn (opa i) Ty_Ptr site @ check_operand fn (opb i) site @
              fails (itype i \<noteq> Ty_Ptr) (site @ '': result must be '' @ quoted ''ptr'')
         else if x = Op_StackAlloc
         then check_operand fn (opa i) site @
              fails (itype i \<noteq> Ty_Ptr) (site @ '': result must be '' @ quoted ''ptr'')
         else if x = Op_Asm then check_asm m fn i site
         else if x = Op_Select
         then check_operand_type fn (opa i) Ty_I1 site @
              check_operand_type fn (opb i) (itype i) site @
              check_operand_type fn (opc i) (itype i) site
         else if x = Op_Call then check_call m fn i site
         else if x = Op_CallIndirect then check_call_indirect m fn i site
         else if x = Op_Jump then check_block_args fn (opa i) (args i) site
         else if x = Op_Branch
         then check_operand_type fn (opa i) Ty_I1 site @ check_block_args fn (opb i) [] site @
              check_block_args fn (opc i) [] site
         else if x = Op_Switch then check_switch fn i site
         else if x = Op_Return then check_return fn sg i site
         else if x = Op_Unreachable then []
         else check_arith fn i site)"

definition check_block :: "mir_module \<Rightarrow> func \<Rightarrow> signature \<Rightarrow> nat \<Rightarrow> string list" where
  "check_block m fn sg bi =
     (let blk = blocks fn ! bi; is = insts blk;
          wher = fname fn @ '':'' @ (if label blk = [] then ''block'' @ show_nat bi else label blk)
      in if is = []
         then [wher @ '': block has no instructions (every block must end in a terminator)'']
         else concat (map (\<lambda>ii. fails (is_terminator (oper (is ! ii)))
                (wher @ '': '' @ quoted (op_name (oper (is ! ii))) @ '' at instruction '' @
                 show_nat ii @ '' terminates the block but is not last'')) [0..<length is - 1]) @
              fails (\<not> is_terminator (oper (last is)))
                (wher @ '': block does not end in a terminator (ends in '' @
                 quoted (op_name (oper (last is))) @ '')'') @
              concat (map (\<lambda>i. check_inst m fn sg i wher) is))"

definition check_function :: "mir_module \<Rightarrow> func \<Rightarrow> string list" where
  "check_function m fn =
     (if \<not> has_body fn
      then fails (blocks fn \<noteq> [])
        (''function '' @ quoted (fname fn) @ '' is a declaration but has blocks'')
      else if blocks fn = []
      then [''function '' @ quoted (fname fn) @ '' has a body but no blocks'']
      else if length (signatures m) \<le> fsignature fn
      then [''function '' @ quoted (fname fn) @ '' references signature '' @
            show_nat (fsignature fn) @ '', which does not exist'']
      else concat (map (\<lambda>bi. check_block m fn (signatures m ! fsignature fn) bi)
             [0..<length (blocks fn)]))"

record verify_error =
  ve_function :: nat
  ve_message :: string

definition verify :: "mir_module \<Rightarrow> verify_error list" where
  "verify m = concat (map (\<lambda>k. map (\<lambda>msg. \<lparr>ve_function = k, ve_message = msg\<rparr>)
     (check_function m (funcs m ! k))) [0..<length (funcs m)])"

subsection \<open>Declarative typing\<close>

abbreviation typed :: "func \<Rightarrow> value_id \<Rightarrow> ty \<Rightarrow> bool" where
  "typed fn v t \<equiv> value_ok fn v \<and> vd_type (vals fn ! v) = t"

definition target_ok :: "func \<Rightarrow> block_id \<Rightarrow> value_id list \<Rightarrow> bool" where
  "target_ok fn target as \<longleftrightarrow>
     target < length (blocks fn) \<and>
     list_all2 (\<lambda>a p. typed fn a (vd_type (vals fn ! p))) as (params (blocks fn ! target))"

definition args_match :: "func \<Rightarrow> signature \<Rightarrow> value_id list \<Rightarrow> bool" where
  "args_match fn sg as \<longleftrightarrow>
     (is_variadic sg \<or> length as = length (sig_params sg)) \<and>
     list_all2 (typed fn) (take (length (sig_params sg)) as) (take (length as) (sig_params sg))"

definition conversions :: "op set" where
  "conversions = {Op_Trunc, Op_ZExt, Op_SExt, Op_FPTrunc, Op_FPExt, Op_FPToSI, Op_FPToUI, Op_SIToFP,
     Op_UIToFP, Op_PtrToInt, Op_IntToPtr, Op_Bitcast}"

inductive inst_wf :: "mir_module \<Rightarrow> func \<Rightarrow> signature \<Rightarrow> inst \<Rightarrow> bool"
  for m :: mir_module and fn :: func and sg :: signature
  where
  wf_const_int: "oper i = Op_ConstInt \<Longrightarrow> is_integer (itype i) \<Longrightarrow> inst_wf m fn sg i"
| wf_const_float: "oper i = Op_ConstFloat \<Longrightarrow> is_float (itype i) \<Longrightarrow> inst_wf m fn sg i"
| wf_const_null: "oper i = Op_ConstNull \<Longrightarrow> itype i = Ty_Ptr \<Longrightarrow> inst_wf m fn sg i"
| wf_slot_addr: "oper i = Op_SlotAddr \<Longrightarrow> itype i = Ty_Ptr \<Longrightarrow> opa i < length (slots fn) \<Longrightarrow>
    inst_wf m fn sg i"
| wf_global_addr: "oper i = Op_GlobalAddr \<Longrightarrow> itype i = Ty_Ptr \<Longrightarrow> opa i < length (globals m) \<Longrightarrow>
    inst_wf m fn sg i"
| wf_func_addr: "oper i = Op_FuncAddr \<Longrightarrow> itype i = Ty_Ptr \<Longrightarrow> opa i < length (funcs m) \<Longrightarrow>
    inst_wf m fn sg i"
| wf_load: "oper i = Op_Load \<Longrightarrow> typed fn (opa i) Ty_Ptr \<Longrightarrow> itype i \<noteq> Ty_Void \<Longrightarrow> inst_wf m fn sg i"
| wf_store: "oper i = Op_Store \<Longrightarrow> typed fn (opa i) Ty_Ptr \<Longrightarrow> value_ok fn (opb i) \<Longrightarrow>
    inst_wf m fn sg i"
| wf_mem_copy: "oper i = Op_MemCopy \<Longrightarrow> typed fn (opa i) Ty_Ptr \<Longrightarrow> typed fn (opb i) Ty_Ptr \<Longrightarrow>
    value_ok fn (opc i) \<Longrightarrow> inst_wf m fn sg i"
| wf_mem_set: "oper i = Op_MemSet \<Longrightarrow> typed fn (opa i) Ty_Ptr \<Longrightarrow> value_ok fn (opb i) \<Longrightarrow>
    value_ok fn (opc i) \<Longrightarrow> inst_wf m fn sg i"
| wf_ptr_add_const: "oper i = Op_PtrAddConst \<Longrightarrow> typed fn (opa i) Ty_Ptr \<Longrightarrow> itype i = Ty_Ptr \<Longrightarrow>
    inst_wf m fn sg i"
| wf_ptr_add: "oper i = Op_PtrAdd \<Longrightarrow> typed fn (opa i) Ty_Ptr \<Longrightarrow> value_ok fn (opb i) \<Longrightarrow>
    itype i = Ty_Ptr \<Longrightarrow> inst_wf m fn sg i"
| wf_stack_alloc: "oper i = Op_StackAlloc \<Longrightarrow> value_ok fn (opa i) \<Longrightarrow> itype i = Ty_Ptr \<Longrightarrow>
    inst_wf m fn sg i"
| wf_asm: "oper i = Op_Asm \<Longrightarrow> opa i < length (asm_blocks m) \<Longrightarrow> \<forall>a \<in> set (args i). typed fn a Ty_Ptr \<Longrightarrow>
    \<forall>ins \<in> set (instructions (asm_blocks m ! opa i)). \<forall>p \<in> set (operands ins).
      akind p = Asm_Variable \<longrightarrow> arg_index p < length (args i) \<Longrightarrow> inst_wf m fn sg i"
| wf_select: "oper i = Op_Select \<Longrightarrow> typed fn (opa i) Ty_I1 \<Longrightarrow> typed fn (opb i) (itype i) \<Longrightarrow>
    typed fn (opc i) (itype i) \<Longrightarrow> inst_wf m fn sg i"
| wf_call_unsigned: "oper i = Op_Call \<Longrightarrow> opa i < length (funcs m) \<Longrightarrow>
    length (signatures m) \<le> fsignature (funcs m ! opa i) \<Longrightarrow> inst_wf m fn sg i"
| wf_call: "oper i = Op_Call \<Longrightarrow> opa i < length (funcs m) \<Longrightarrow>
    fsignature (funcs m ! opa i) < length (signatures m) \<Longrightarrow>
    cs = signatures m ! fsignature (funcs m ! opa i) \<Longrightarrow> args_match fn cs (args i) \<Longrightarrow>
    \<forall>a \<in> set (args i). value_ok fn a \<Longrightarrow> itype i = sig_result cs \<Longrightarrow> inst_wf m fn sg i"
| wf_call_indirect: "oper i = Op_CallIndirect \<Longrightarrow> typed fn (opa i) Ty_Ptr \<Longrightarrow>
    opb i < length (signatures m) \<Longrightarrow> args_match fn (signatures m ! opb i) (args i) \<Longrightarrow>
    inst_wf m fn sg i"
| wf_jump: "oper i = Op_Jump \<Longrightarrow> target_ok fn (opa i) (args i) \<Longrightarrow> inst_wf m fn sg i"
| wf_branch: "oper i = Op_Branch \<Longrightarrow> typed fn (opa i) Ty_I1 \<Longrightarrow> target_ok fn (opb i) [] \<Longrightarrow>
    target_ok fn (opc i) [] \<Longrightarrow> inst_wf m fn sg i"
| wf_switch: "oper i = Op_Switch \<Longrightarrow> value_ok fn (opa i) \<Longrightarrow> target_ok fn (opb i) [] \<Longrightarrow>
    even (length (args i)) \<Longrightarrow> \<forall>t \<in> set (odds (args i)). target_ok fn t [] \<Longrightarrow> inst_wf m fn sg i"
| wf_return_void: "oper i = Op_Return \<Longrightarrow> sig_result sg = Ty_Void \<Longrightarrow> args i = [] \<Longrightarrow> inst_wf m fn sg i"
| wf_return: "oper i = Op_Return \<Longrightarrow> sig_result sg \<noteq> Ty_Void \<Longrightarrow> args i = [v] \<Longrightarrow>
    typed fn v (sig_result sg) \<Longrightarrow> inst_wf m fn sg i"
| wf_unreachable: "oper i = Op_Unreachable \<Longrightarrow> inst_wf m fn sg i"
| wf_icmp: "Op_ICmpEq \<le> oper i \<Longrightarrow> oper i \<le> Op_ICmpUge \<Longrightarrow> itype i = Ty_I1 \<Longrightarrow> typed fn (opa i) t \<Longrightarrow>
    typed fn (opb i) t \<Longrightarrow> \<not> is_float t \<Longrightarrow> inst_wf m fn sg i"
| wf_fcmp: "Op_FCmpOeq \<le> oper i \<Longrightarrow> oper i \<le> Op_FCmpOge \<Longrightarrow> itype i = Ty_I1 \<Longrightarrow> typed fn (opa i) t \<Longrightarrow>
    typed fn (opb i) t \<Longrightarrow> is_float t \<or> t = Ty_Ptr \<Longrightarrow> inst_wf m fn sg i"
| wf_int_binary: "Op_Add \<le> oper i \<Longrightarrow> oper i \<le> Op_AShr \<Longrightarrow> is_integer (itype i) \<Longrightarrow>
    typed fn (opa i) (itype i) \<Longrightarrow> typed fn (opb i) (itype i) \<Longrightarrow> inst_wf m fn sg i"
| wf_unary: "oper i \<in> {Op_Not, Op_Neg, Op_FNeg} \<Longrightarrow> typed fn (opa i) (itype i) \<Longrightarrow> inst_wf m fn sg i"
| wf_float_binary: "Op_FAdd \<le> oper i \<Longrightarrow> oper i \<le> Op_FRem \<Longrightarrow> is_float (itype i) \<Longrightarrow>
    typed fn (opa i) (itype i) \<Longrightarrow> typed fn (opb i) (itype i) \<Longrightarrow> inst_wf m fn sg i"
| wf_convert: "oper i \<in> conversions \<Longrightarrow> value_ok fn (opa i) \<Longrightarrow>
    oper i = Op_Bitcast \<or> vd_type (vals fn ! opa i) \<noteq> itype i \<Longrightarrow> inst_wf m fn sg i"

definition block_wf :: "mir_module \<Rightarrow> func \<Rightarrow> signature \<Rightarrow> block \<Rightarrow> bool" where
  "block_wf m fn sg blk \<longleftrightarrow>
     insts blk \<noteq> [] \<and> is_terminator (oper (last (insts blk))) \<and>
     (\<forall>i \<in> set (butlast (insts blk)). \<not> is_terminator (oper i)) \<and>
     (\<forall>i \<in> set (insts blk). inst_wf m fn sg i)"

definition function_wf :: "mir_module \<Rightarrow> func \<Rightarrow> bool" where
  "function_wf m fn \<longleftrightarrow>
     (if has_body fn
      then blocks fn \<noteq> [] \<and> fsignature fn < length (signatures m) \<and>
           (\<forall>blk \<in> set (blocks fn). block_wf m fn (signatures m ! fsignature fn) blk)
      else blocks fn = [])"

definition module_wf :: "mir_module \<Rightarrow> bool" where
  "module_wf m \<longleftrightarrow> (\<forall>fn \<in> set (funcs m). function_wf m fn)"

subsection \<open>The verifier decides the typing\<close>

lemma check_operand_Nil [simp]: "check_operand fn v w = [] \<longleftrightarrow> value_ok fn v"
  by (simp add: check_operand_def)

lemma check_operand_type_Nil [simp]: "check_operand_type fn v t w = [] \<longleftrightarrow> typed fn v t"
  by (auto simp: check_operand_type_def)

lemma check_block_args_Nil [simp]: "check_block_args fn t as w = [] \<longleftrightarrow> target_ok fn t as"
proof (cases "t < length (blocks fn) \<and> length (params (blocks fn ! t)) = length as")
  case True
  then show ?thesis
    by (simp add: check_block_args_def target_ok_def Let_def list_all2_conv_all_nth if_Nil_iff
        concat_map_upt_Nil del: concat_eq_Nil_conv) auto
next
  case False
  then show ?thesis
    by (auto simp: check_block_args_def target_ok_def Let_def list_all2_lengthD dest: list_all2_lengthD)
qed

lemma check_asm_Nil:
  "check_asm m fn i w = [] \<longleftrightarrow>
     opa i < length (asm_blocks m) \<and> (\<forall>a \<in> set (args i). typed fn a Ty_Ptr) \<and>
     (\<forall>ins \<in> set (instructions (asm_blocks m ! opa i)). \<forall>p \<in> set (operands ins).
        akind p = Asm_Variable \<longrightarrow> arg_index p < length (args i))"
  by (auto simp: check_asm_def not_le)

lemma args_match_nth:
  "args_match fn sg as \<longleftrightarrow>
     (is_variadic sg \<or> length as = length (sig_params sg)) \<and>
     (\<forall>k < min (length as) (length (sig_params sg)). typed fn (as ! k) (sig_params sg ! k))"
  by (auto simp: args_match_def list_all2_conv_all_nth)

lemma check_call_Nil:
  "check_call m fn i w = [] \<longleftrightarrow>
     opa i < length (funcs m) \<and>
     (let cs = signatures m ! fsignature (funcs m ! opa i)
      in fsignature (funcs m ! opa i) < length (signatures m) \<longrightarrow>
         args_match fn cs (args i) \<and> (\<forall>a \<in> set (args i). value_ok fn a) \<and> itype i = sig_result cs)"
proof (cases "opa i < length (funcs m) \<and> fsignature (funcs m ! opa i) < length (signatures m)")
  case True
  then show ?thesis
    by (simp add: check_call_def Let_def args_match_nth all_set_conv_all_nth if_Nil_iff
        concat_map_upt_Nil del: concat_eq_Nil_conv) auto
next
  case False
  then show ?thesis
    by (auto simp: check_call_def Let_def not_le)
qed

lemma check_call_indirect_Nil:
  "check_call_indirect m fn i w = [] \<longleftrightarrow>
     typed fn (opa i) Ty_Ptr \<and> opb i < length (signatures m) \<and>
     args_match fn (signatures m ! opb i) (args i)"
  by (simp add: check_call_indirect_def Let_def args_match_nth not_le if_Nil_iff
      concat_map_upt_Nil del: concat_eq_Nil_conv)

lemma check_switch_Nil:
  "check_switch fn i w = [] \<longleftrightarrow>
     value_ok fn (opa i) \<and> target_ok fn (opb i) [] \<and> even (length (args i)) \<and>
     (\<forall>t \<in> set (odds (args i)). target_ok fn t [])"
  by (auto simp: check_switch_def even_iff_mod_2_eq_zero)

lemma check_return_Nil:
  "check_return fn sg i w = [] \<longleftrightarrow>
     (if sig_result sg = Ty_Void then args i = [] else \<exists>v. args i = [v] \<and> typed fn v (sig_result sg))"
  by (auto simp: check_return_def length_Suc_conv)

lemma check_comparison_Nil:
  "check_comparison fn i w = [] \<longleftrightarrow>
     itype i = Ty_I1 \<and>
     (\<exists>t. typed fn (opa i) t \<and> typed fn (opb i) t \<and> (is_float_comparison (oper i) = is_float t \<or> t = Ty_Ptr))"
  by (auto simp: check_comparison_def Let_def)

definition special_ops :: "op set" where
  "special_ops = {Op_ConstInt, Op_ConstFloat, Op_ConstNull, Op_SlotAddr, Op_GlobalAddr, Op_FuncAddr,
     Op_Load, Op_Store, Op_MemCopy, Op_MemSet, Op_PtrAddConst, Op_PtrAdd, Op_StackAlloc, Op_Asm,
     Op_Select, Op_Call, Op_CallIndirect, Op_Jump, Op_Branch, Op_Switch, Op_Return, Op_Unreachable}"

text \<open>The opcodes that reach the \<^verbatim>\<open>default:\<close> arm, by group.\<close>

lemma default_ops:
  "x \<notin> special_ops \<longleftrightarrow>
     is_comparison x \<or> is_int_binary x \<or> x \<in> {Op_Not, Op_Neg, Op_FNeg} \<or>
     (Op_FAdd \<le> x \<and> x \<le> Op_FRem) \<or> x \<in> conversions"
  by (cases x) (simp_all add: special_ops_def conversions_def is_comparison_def is_int_binary_def
    op_order)

lemma default_disjoint:
  "is_comparison x \<Longrightarrow> \<not> is_int_binary x"
  "is_comparison x \<or> is_int_binary x \<Longrightarrow> x \<notin> {Op_Not, Op_Neg, Op_FNeg} \<and> x \<notin> conversions"
  "Op_FAdd \<le> x \<and> x \<le> Op_FRem \<Longrightarrow>
     \<not> is_comparison x \<and> \<not> is_int_binary x \<and> x \<notin> {Op_Not, Op_Neg, Op_FNeg} \<and> x \<notin> conversions"
  "x \<in> conversions \<Longrightarrow> x \<notin> {Op_Not, Op_Neg, Op_FNeg}"
  "Op_FCmpOeq \<le> x \<and> x \<le> Op_FCmpOge \<Longrightarrow> is_comparison x \<and> is_float_comparison x"
  "Op_ICmpEq \<le> x \<and> x \<le> Op_ICmpUge \<Longrightarrow> is_comparison x \<and> \<not> is_float_comparison x"
  "is_comparison x \<Longrightarrow> \<not> is_float_comparison x \<Longrightarrow> Op_ICmpEq \<le> x \<and> x \<le> Op_ICmpUge"
  by (auto simp: conversions_def is_comparison_def is_float_comparison_def is_int_binary_def op_order)

lemma check_arith_wf:
  assumes d: "oper i \<notin> special_ops" and c: "check_arith fn i w = []"
  shows "inst_wf m fn sg i"
proof -
  from d consider (cmp) "is_comparison (oper i)" | (bin) "is_int_binary (oper i)"
    | (un) "oper i \<in> {Op_Not, Op_Neg, Op_FNeg}" | (fl) "Op_FAdd \<le> oper i \<and> oper i \<le> Op_FRem"
    | (conv) "oper i \<in> conversions"
    by (auto simp: default_ops)
  then show ?thesis
  proof cases
    case cmp
    with c have k: "check_comparison fn i w = []" by (simp add: check_arith_def)
    show ?thesis
    proof (cases "is_float_comparison (oper i)")
      case True
      with k show ?thesis
        by (auto simp: check_comparison_Nil is_float_comparison_def intro: wf_fcmp)
    next
      case False
      with k cmp default_disjoint(7) [OF cmp] show ?thesis
        by (auto simp: check_comparison_Nil is_float_def intro: wf_icmp)
    qed
  next
    case bin
    then show ?thesis
      using c default_disjoint(1) [of "oper i"]
      by (intro wf_int_binary) (auto simp: check_arith_def is_int_binary_def split: if_splits)
  next
    case un
    then show ?thesis
      using c default_disjoint(2) [of "oper i"]
      by (intro wf_unary) (auto simp: check_arith_def split: if_splits)
  next
    case fl
    then show ?thesis
      using c default_disjoint(3) [of "oper i"]
      by (intro wf_float_binary) (auto simp: check_arith_def split: if_splits)
  next
    case conv
    then show ?thesis
      using c default_disjoint(2,3,4) [of "oper i"]
      by (intro wf_convert) (auto simp: check_arith_def split: if_splits)
  qed
qed

lemma wf_check_arith:
  assumes "inst_wf m fn sg i" and "oper i \<notin> special_ops"
  shows "check_arith fn i w = []"
  using assms
proof (cases rule: inst_wf.cases)
  case (wf_icmp t)
  then show ?thesis
    using default_disjoint(6) [of "oper i"]
    by (auto simp: check_arith_def check_comparison_Nil)
next
  case (wf_fcmp t)
  then show ?thesis
    using default_disjoint(5) [of "oper i"]
    by (auto simp: check_arith_def check_comparison_Nil)
next
  case wf_int_binary
  then show ?thesis
    using default_disjoint(1) [of "oper i"]
    by (auto simp: check_arith_def is_int_binary_def)
next
  case wf_unary
  then show ?thesis
    using default_disjoint(2) [of "oper i"]
    by (auto simp: check_arith_def)
next
  case wf_float_binary
  then show ?thesis
    using default_disjoint(3) [of "oper i"]
    by (auto simp: check_arith_def)
next
  case wf_convert
  then show ?thesis
    using default_disjoint(2,3,4) [of "oper i"]
    by (auto simp: check_arith_def)
qed (simp_all add: special_ops_def)

lemma range_not_special:
  "Op_ICmpEq \<le> x \<Longrightarrow> x \<le> Op_ICmpUge \<Longrightarrow> x \<notin> special_ops"
  "Op_FCmpOeq \<le> x \<Longrightarrow> x \<le> Op_FCmpOge \<Longrightarrow> x \<notin> special_ops"
  "Op_Add \<le> x \<Longrightarrow> x \<le> Op_AShr \<Longrightarrow> x \<notin> special_ops"
  "Op_FAdd \<le> x \<Longrightarrow> x \<le> Op_FRem \<Longrightarrow> x \<notin> special_ops"
  "x \<in> {Op_Not, Op_Neg, Op_FNeg} \<Longrightarrow> x \<notin> special_ops"
  "x \<in> conversions \<Longrightarrow> x \<notin> special_ops"
  by (auto simp: default_ops is_comparison_def is_int_binary_def)

lemmas check_parts =
  check_asm_Nil check_call_Nil check_call_indirect_Nil check_switch_Nil check_return_Nil

lemma check_special_wf:
  assumes "oper i \<in> special_ops" and "check_inst m fn sg i w = []"
  shows "inst_wf m fn sg i"
proof -
  consider "oper i = Op_Call" | "oper i \<noteq> Op_Call" by blast
  then show ?thesis
  proof cases
    case 1
    with assms(2) have "check_call m fn i (w @ '': '' @ quoted (op_name (oper i))) = []"
      by (simp add: check_inst_def Let_def)
    then show ?thesis
      using 1 by (cases "fsignature (funcs m ! opa i) < length (signatures m)")
        (auto simp: check_call_Nil Let_def intro: wf_call wf_call_unsigned)
  next
    case 2
    then show ?thesis
      using assms unfolding special_ops_def
      by (elim insertE emptyE)
         (auto simp: check_inst_def Let_def check_parts not_le intro: inst_wf.intros split: if_splits)
  qed
qed

lemma wf_check_special:
  assumes "inst_wf m fn sg i" and "oper i \<in> special_ops"
  shows "check_inst m fn sg i w = []"
  using assms
  by (cases rule: inst_wf.cases)
     (simp_all add: check_inst_def Let_def check_parts range_not_special)

theorem check_inst_Nil: "check_inst m fn sg i w = [] \<longleftrightarrow> inst_wf m fn sg i"
proof (cases "oper i \<in> special_ops")
  case True
  then show ?thesis
    using check_special_wf wf_check_special by blast
next
  case False
  then have "check_inst m fn sg i w = check_arith fn i (w @ '': '' @ quoted (op_name (oper i)))"
    by (simp add: check_inst_def special_ops_def Let_def)
  then show ?thesis
    using False check_arith_wf wf_check_arith by metis
qed

lemma butlast_all_nth:
  "(\<forall>x \<in> set (butlast xs). P x) \<longleftrightarrow> (\<forall>k < length xs - 1. P (xs ! k))"
  by (auto simp: all_set_conv_all_nth nth_butlast)

lemma check_block_Nil:
  "check_block m fn sg bi = [] \<longleftrightarrow> block_wf m fn sg (blocks fn ! bi)"
  by (simp add: check_block_def block_wf_def Let_def butlast_all_nth concat_map_upt_Nil check_inst_Nil
      if_Nil_iff del: concat_eq_Nil_conv) (auto simp: check_inst_Nil)

lemma check_function_Nil: "check_function m fn = [] \<longleftrightarrow> function_wf m fn"
  by (simp add: check_function_def function_wf_def not_le if_Nil_iff concat_map_upt_Nil
      check_block_Nil all_set_conv_all_nth del: concat_eq_Nil_conv)

lemma verify_Nil: "verify m = [] \<longleftrightarrow> module_wf m"
  by (simp add: verify_def module_wf_def concat_map_upt_Nil check_function_Nil all_set_conv_all_nth
      del: concat_eq_Nil_conv)

text \<open>Each error is tagged with the function whose check produced it.\<close>

lemma verify_tagged:
  "e \<in> set (verify m) \<longleftrightarrow>
     ve_function e < length (funcs m) \<and>
     ve_message e \<in> set (check_function m (funcs m ! ve_function e))"
  by (cases e) (auto simp: verify_def)

subsection \<open>What a verified function guarantees its consumers\<close>

text \<open>The successors of a block: the targets of its last instruction.\<close>

definition term_targets :: "inst \<Rightarrow> block_id list" where
  "term_targets i =
     (if oper i = Op_Jump then [opa i]
      else if oper i = Op_Branch then [opb i, opc i]
      else if oper i = Op_Switch then opb i # odds (args i)
      else [])"

lemma inst_wf_targets:
  assumes "inst_wf m fn sg i" and "t \<in> set (term_targets i)"
  shows "t < length (blocks fn)"
  using assms
  by (cases rule: inst_wf.cases)
     (auto simp: term_targets_def target_ok_def op_order conversions_def split: if_splits)

lemma inst_wf_jump_args:
  assumes "inst_wf m fn sg i" and "oper i = Op_Jump"
  shows "length (args i) = length (params (blocks fn ! opa i))"
  using assms
  by (cases rule: inst_wf.cases)
     (auto simp: target_ok_def op_order conversions_def dest: list_all2_lengthD)

lemma inst_wf_no_args:
  assumes "inst_wf m fn sg i" and "oper i \<in> {Op_Branch, Op_Switch}" and "t \<in> set (term_targets i)"
  shows "params (blocks fn ! t) = []"
  using assms
  by (cases rule: inst_wf.cases)
     (auto simp: term_targets_def target_ok_def op_order conversions_def split: if_splits)

end
