(* ===== verification/Mir_Peephole.thy ===== *)
theory Mir_Peephole
  imports Mir_Fold Mir_Verify "HOL-Library.Monad_Syntax"
begin

text \<open>
  The peephole pass (\<^verbatim>\<open>Peep\<close> and \<^verbatim>\<open>mir::peephole\<close> of \<^verbatim>\<open>src/src/compiler/mir_passes.cpp\<close>): constant
  folding, identity simplification, removal of trivial block parameters and of dead pure
  instructions, iterated for at most 16 rounds. The remap chain is followed by a loop that does not
  return on a cyclic chain; so every step that follows it has type \<open>option\<close>, with \<open>None\<close> for a pass
  that does not return.
\<close>

subsection \<open>State\<close>

record const_val =
  cv_is_int :: bool
  cv_is_null :: bool
  cv_value :: u64
  cv_type :: ty

record peephole_stats =
  folded :: nat
  simplified :: nat
  params_removed :: nat
  dead_removed :: nat

definition zero_stats :: peephole_stats where
  "zero_stats = \<lparr>folded = 0, simplified = 0, params_removed = 0, dead_removed = 0\<rparr>"

record peep =
  pfn :: func
  ppointer_bits :: nat
  pconsts :: "value_id \<Rightarrow> const_val option"
  remap :: "(value_id \<times> value_id) list"

text \<open>What a pass carries: the working state, the statistics and the \<^verbatim>\<open>changed\<close> flag.\<close>

type_synonym peep_state = "peep \<times> peephole_stats \<times> bool"

subsection \<open>Remap chains and constants\<close>

partial_function (option) resolve :: "(value_id \<times> value_id) list \<Rightarrow> value_id \<Rightarrow> value_id option" where
  "resolve r v = (case map_of r v of None \<Rightarrow> Some v | Some w \<Rightarrow> resolve r w)"

declare resolve.simps [code]

definition int_of :: "peep \<Rightarrow> value_id \<Rightarrow> u64 option option" where
  "int_of p v =
     do { w \<leftarrow> resolve (remap p) v;
          Some (case pconsts p w of
                  None \<Rightarrow> None
                | Some c \<Rightarrow> if cv_is_int c then Some (cv_value c) else None) }"

definition const_int_val :: "u64 \<Rightarrow> ty \<Rightarrow> const_val" where
  "const_int_val v t = \<lparr>cv_is_int = True, cv_is_null = False, cv_value = v, cv_type = t\<rparr>"

definition scan_const :: "inst \<Rightarrow> (value_id \<Rightarrow> const_val option) \<Rightarrow> (value_id \<Rightarrow> const_val option)" where
  "scan_const i cs =
     (if oper i = Op_ConstInt then cs(result i \<mapsto> const_int_val (imm i) (itype i))
      else if oper i = Op_ConstNull
      then cs(result i \<mapsto> \<lparr>cv_is_int = False, cv_is_null = True, cv_value = 0, cv_type = Ty_Ptr\<rparr>)
      else cs)"

definition all_insts :: "func \<Rightarrow> inst list" where
  "all_insts fn = concat (map insts (blocks fn))"

definition rescan_consts :: "peep \<Rightarrow> peep" where
  "rescan_consts p = p\<lparr>pconsts := fold scan_const (all_insts (pfn p)) Map.empty\<rparr>"

definition make_const_int :: "inst \<Rightarrow> ty \<Rightarrow> u64 \<Rightarrow> inst" where
  "make_const_int i type v =
     i\<lparr>oper := Op_ConstInt, itype := type, opa := NO_VALUE, opb := NO_VALUE, opc := NO_VALUE,
       imm := v, args := []\<rparr>"

subsection \<open>Constant folding and identities\<close>

text \<open>
  The three folding attempts on an instruction. The inner option is the constant the instruction
  folds to, with its type.
\<close>

definition fold_binary_inst :: "peep \<Rightarrow> inst \<Rightarrow> (ty \<times> u64) option option" where
  "fold_binary_inst p i =
     (if Op_Add \<le> oper i \<and> oper i \<le> Op_AShr \<and> is_integer (itype i)
      then do { a \<leftarrow> int_of p (opa i);
                b \<leftarrow> int_of p (opb i);
                Some (case (a, b) of
                        (Some x, Some y) \<Rightarrow>
                          map_option (Pair (itype i)) (fold_binary (oper i) (itype i) x y (ppointer_bits p))
                      | _ \<Rightarrow> None) }
      else Some None)"

definition fold_compare_inst :: "peep \<Rightarrow> inst \<Rightarrow> (ty \<times> u64) option option" where
  "fold_compare_inst p i =
     (if Op_ICmpEq \<le> oper i \<and> oper i \<le> Op_ICmpUge
      then do { a \<leftarrow> int_of p (opa i);
                b \<leftarrow> int_of p (opb i);
                w \<leftarrow> resolve (remap p) (opa i);
                let operand_type = vd_type (vals (pfn p) ! w) in
                Some (case (a, b) of
                        (Some x, Some y) \<Rightarrow>
                          if is_integer operand_type
                          then map_option (Pair Ty_I1)
                                 (fold_compare (oper i) operand_type x y (ppointer_bits p))
                          else None
                      | _ \<Rightarrow> None) }
      else Some None)"

definition fold_convert_inst :: "peep \<Rightarrow> inst \<Rightarrow> (ty \<times> u64) option option" where
  "fold_convert_inst p i =
     (if oper i = Op_Trunc \<or> oper i = Op_ZExt \<or> oper i = Op_SExt
      then do { a \<leftarrow> int_of p (opa i);
                case a of
                  None \<Rightarrow> Some None
                | Some x \<Rightarrow> do { w \<leftarrow> resolve (remap p) (opa i);
                    let from = vd_type (vals (pfn p) ! w) in
                    let v = normalize x from (ppointer_bits p) (oper i = Op_SExt) in
                    Some (Some (itype i, normalize v (itype i) (ppointer_bits p) False)) } }
      else Some None)"

definition try_fold :: "peep \<Rightarrow> inst \<Rightarrow> (ty \<times> u64) option option" where
  "try_fold p i =
     do { r \<leftarrow> fold_binary_inst p i;
          case r of Some c \<Rightarrow> Some (Some c) | None \<Rightarrow>
          do { r \<leftarrow> fold_compare_inst p i;
               case r of Some c \<Rightarrow> Some (Some c) | None \<Rightarrow> fold_convert_inst p i } }"

text \<open>The operand an instruction is an alias of, if any.\<close>

definition identity_of :: "peep \<Rightarrow> inst \<Rightarrow> value_id option option" where
  "identity_of p i =
     (if oper i \<in> {Op_Add, Op_Or, Op_Xor}
      then do { b \<leftarrow> int_of p (opb i);
                if b = Some 0 then Some (Some (opa i))
                else if oper i = Op_Add
                then do { a \<leftarrow> int_of p (opa i); Some (if a = Some 0 then Some (opb i) else None) }
                else Some None }
      else if oper i \<in> {Op_Sub, Op_Shl, Op_LShr, Op_AShr}
      then do { b \<leftarrow> int_of p (opb i); Some (if b = Some 0 then Some (opa i) else None) }
      else if oper i = Op_Mul
      then do { b \<leftarrow> int_of p (opb i);
                if b = Some 1 then Some (Some (opa i))
                else do { a \<leftarrow> int_of p (opa i); Some (if a = Some 1 then Some (opb i) else None) } }
      else if oper i = Op_PtrAdd
      then do { b \<leftarrow> int_of p (opb i); Some (if b = Some 0 then Some (opa i) else None) }
      else if oper i = Op_PtrAddConst
      then Some (if imm i = 0 then Some (opa i) else None)
      else Some None)"

definition fold_inst :: "inst \<Rightarrow> peep_state \<Rightarrow> (inst \<times> peep_state) option" where
  "fold_inst i s =
     (case s of (p, st, ch) \<Rightarrow>
      do { r \<leftarrow> try_fold p i;
           case r of
             Some (t, v) \<Rightarrow>
               Some (make_const_int i t v,
                     p\<lparr>pconsts := (pconsts p)(result i \<mapsto> const_int_val v t)\<rparr>,
                     st\<lparr>folded := folded st + 1\<rparr>, True)
           | None \<Rightarrow>
               do { survivor \<leftarrow> identity_of p i;
                    case survivor of
                      None \<Rightarrow> Some (i, p, st, ch)
                    | Some v \<Rightarrow>
                        do { w \<leftarrow> resolve (remap p) v;
                             Some (i, p\<lparr>remap := (result i, w) # remap p\<rparr>,
                                   st\<lparr>simplified := simplified st + 1\<rparr>, True) } } })"

fun fold_insts :: "inst list \<Rightarrow> peep_state \<Rightarrow> (inst list \<times> peep_state) option" where
  "fold_insts [] s = Some ([], s)"
| "fold_insts (i # is) s =
     do { (i', s') \<leftarrow> fold_inst i s;
          (is', s'') \<leftarrow> fold_insts is s';
          Some (i' # is', s'') }"

fun fold_blocks :: "block list \<Rightarrow> peep_state \<Rightarrow> (block list \<times> peep_state) option" where
  "fold_blocks [] s = Some ([], s)"
| "fold_blocks (b # bs) s =
     do { (is', s') \<leftarrow> fold_insts (insts b) s;
          (bs', s'') \<leftarrow> fold_blocks bs s';
          Some (b\<lparr>insts := is'\<rparr> # bs', s'') }"

subsection \<open>Applying the remap\<close>

definition resolved :: "(value_id \<times> value_id) list \<Rightarrow> value_id \<Rightarrow> value_id" where
  "resolved r v = (if v = NO_VALUE then v else case resolve r v of Some w \<Rightarrow> w | None \<Rightarrow> v)"

definition resolvable :: "(value_id \<times> value_id) list \<Rightarrow> inst \<Rightarrow> bool" where
  "resolvable r i \<longleftrightarrow> (\<forall>v \<in> set (value_operands i). v = NO_VALUE \<or> resolve r v \<noteq> None)"

definition map_insts :: "(inst \<Rightarrow> inst) \<Rightarrow> func \<Rightarrow> func" where
  "map_insts f fn = fn\<lparr>blocks := map (\<lambda>b. b\<lparr>insts := map f (insts b)\<rparr>) (blocks fn)\<rparr>"

definition apply_remap :: "peep \<Rightarrow> peep option" where
  "apply_remap p =
     (if remap p = [] then Some p
      else if \<forall>i \<in> set (all_insts (pfn p)). resolvable (remap p) i
      then Some (p\<lparr>pfn := map_insts (map_operands (resolved (remap p))) (pfn p), remap := []\<rparr>)
      else None)"

definition fold_and_simplify :: "peep \<Rightarrow> peephole_stats \<Rightarrow> peep_state option" where
  "fold_and_simplify p st =
     do { (bs, p', st', ch) \<leftarrow> fold_blocks (blocks (pfn p)) (rescan_consts p, st, False);
          let p'' = p'\<lparr>pfn := (pfn p')\<lparr>blocks := bs\<rparr>\<rparr> in
          if ch then do { q \<leftarrow> apply_remap p''; Some (q, st', True) }
          else Some (p'', st', False) }"

subsection \<open>Trivial block parameters\<close>

definition jump_preds :: "func \<Rightarrow> block_id \<Rightarrow> block_id list" where
  "jump_preds fn t =
     filter (\<lambda>b. insts (blocks fn ! b) \<noteq> [] \<and> oper (last (insts (blocks fn ! b))) = Op_Jump \<and>
                 opa (last (insts (blocks fn ! b))) = t) [0..<length (blocks fn)]"

definition used_values :: "func \<Rightarrow> value_id list" where
  "used_values fn = filter (\<lambda>v. v \<noteq> NO_VALUE) (concat (map value_operands (all_insts fn)))"

definition term_args :: "func \<Rightarrow> block_id \<Rightarrow> nat list" where
  "term_args fn b = args (last (insts (blocks fn ! b)))"

text \<open>The scan of one parameter's incoming arguments: whether they agree, and on which value.\<close>

fun param_scan :: "peep \<Rightarrow> nat \<Rightarrow> value_id \<Rightarrow> block_id list \<Rightarrow> value_id \<Rightarrow> (bool \<times> value_id) option" where
  "param_scan p k param [] uniq = Some (True, uniq)"
| "param_scan p k param (b # bs) uniq =
     (if length (term_args (pfn p) b) \<le> k then Some (False, uniq)
      else do { arg \<leftarrow> resolve (remap p) (term_args (pfn p) b ! k);
                if arg = param then param_scan p k param bs uniq
                else if uniq = NO_VALUE then param_scan p k param bs arg
                else if uniq \<noteq> arg then Some (False, uniq)
                else param_scan p k param bs uniq })"

definition erase_param :: "block_id \<Rightarrow> nat \<Rightarrow> func \<Rightarrow> func" where
  "erase_param b k fn =
     fn\<lparr>blocks := (blocks fn)[b := (blocks fn ! b)\<lparr>params := erase_at k (params (blocks fn ! b))\<rparr>]\<rparr>"

definition erase_arg :: "nat \<Rightarrow> block_id \<Rightarrow> func \<Rightarrow> func" where
  "erase_arg k b fn =
     (let is = insts (blocks fn ! b); t = last is
      in if k < length (args t)
         then fn\<lparr>blocks := (blocks fn)[b := (blocks fn ! b)
                   \<lparr>insts := butlast is @ [t\<lparr>args := erase_at k (args t)\<rparr>]\<rparr>]\<rparr>
         else fn)"

text \<open>
  The loop over one block's parameters. The list argument holds the parameters still to visit; the
  parameter at index \<open>k\<close> is its head, because a removal shifts the rest down by one.
\<close>

fun fold_params :: "block_id \<Rightarrow> block_id list \<Rightarrow> value_id list \<Rightarrow> nat \<Rightarrow> value_id list \<Rightarrow> peep_state \<Rightarrow>
    peep_state option" where
  "fold_params b preds used k [] s = Some s"
| "fold_params b preds used k (param # rest) (p, st, ch) =
     do { (trivial, uniq) \<leftarrow> param_scan p k param preds NO_VALUE;
          let unused = param \<notin> set used in
          if \<not> trivial \<or> (uniq = NO_VALUE \<and> \<not> unused)
          then fold_params b preds used (Suc k) rest (p, st, ch)
          else fold_params b preds used k rest
                 (p\<lparr>remap := (if unused then remap p else (param, uniq) # remap p),
                    pfn := fold (erase_arg k) preds (erase_param b k (pfn p))\<rparr>,
                  st\<lparr>params_removed := params_removed st + 1\<rparr>, True) }"

fun fold_params_blocks :: "(block_id \<Rightarrow> block_id list) \<Rightarrow> value_id list \<Rightarrow> block_id list \<Rightarrow> peep_state \<Rightarrow>
    peep_state option" where
  "fold_params_blocks preds used [] s = Some s"
| "fold_params_blocks preds used (b # bs) (p, st, ch) =
     (if params (blocks (pfn p) ! b) = [] \<or> preds b = []
      then fold_params_blocks preds used bs (p, st, ch)
      else do { s' \<leftarrow> fold_params b (preds b) used 0 (params (blocks (pfn p) ! b)) (p, st, ch);
                fold_params_blocks preds used bs s' })"

definition fold_trivial_params :: "peep \<Rightarrow> peephole_stats \<Rightarrow> peep_state option" where
  "fold_trivial_params p st =
     do { (p', st', ch) \<leftarrow> fold_params_blocks (jump_preds (pfn p)) (used_values (pfn p))
            [1..<length (blocks (pfn p))] (p, st, False);
          if ch then do { q \<leftarrow> apply_remap p'; Some (q, st', True) }
          else Some (p', st', False) }"

subsection \<open>Dead instructions\<close>

definition removable :: "value_id list \<Rightarrow> inst \<Rightarrow> bool" where
  "removable used i \<longleftrightarrow>
     (let pure = defines_value (oper i) \<and> oper i \<noteq> Op_Call \<and> oper i \<noteq> Op_CallIndirect
      in \<not> (\<not> pure \<or> result i = NO_VALUE \<or> result i \<in> set used))"

definition drop_insts :: "(inst \<Rightarrow> bool) \<Rightarrow> func \<Rightarrow> func" where
  "drop_insts P fn = fn\<lparr>blocks := map (\<lambda>b. b\<lparr>insts := filter (\<lambda>i. \<not> P i) (insts b)\<rparr>) (blocks fn)\<rparr>"

definition remove_dead :: "peep \<Rightarrow> peephole_stats \<Rightarrow> peep_state" where
  "remove_dead p st =
     (let used = used_values (pfn p); n = length (filter (removable used) (all_insts (pfn p)))
      in (p\<lparr>pfn := drop_insts (removable used) (pfn p)\<rparr>,
          st\<lparr>dead_removed := dead_removed st + n\<rparr>, 0 < n))"

subsection \<open>The pass\<close>

fun rounds :: "nat \<Rightarrow> peep \<Rightarrow> peephole_stats \<Rightarrow> (peep \<times> peephole_stats) option" where
  "rounds 0 p st = Some (p, st)"
| "rounds (Suc n) p st =
     do { (p1, st1, c1) \<leftarrow> fold_and_simplify p st;
          (p2, st2, c2) \<leftarrow> fold_trivial_params p1 st1;
          let (p3, st3, c3) = remove_dead p2 st2 in
          if \<not> (c1 \<or> c2 \<or> c3) then Some (p3, st3) else rounds n p3 st3 }"

text \<open>The final walk that writes every position back into the \<^verbatim>\<open>ValueDef\<close> table.\<close>

definition set_param_def :: "block_id \<Rightarrow> (nat \<times> value_id) \<Rightarrow> value_def list \<Rightarrow> value_def list" where
  "set_param_def b kv vs =
     (case kv of (k, v) \<Rightarrow> vs[v := (vs ! v)\<lparr>vd_block := b, vd_index := k, vd_is_param := True\<rparr>])"

definition set_inst_def :: "block_id \<Rightarrow> (nat \<times> inst) \<Rightarrow> value_def list \<Rightarrow> value_def list" where
  "set_inst_def b ki vs =
     (case ki of (k, i) \<Rightarrow>
        if result i \<noteq> NO_VALUE \<and> result i < length vs
        then vs[result i := (vs ! result i)\<lparr>vd_block := b, vd_index := k, vd_is_param := False\<rparr>]
        else vs)"

definition reindex_block :: "nat \<times> block \<Rightarrow> value_def list \<Rightarrow> value_def list" where
  "reindex_block bb vs =
     (case bb of (b, blk) \<Rightarrow>
        fold (set_inst_def b) (enumerate 0 (insts blk))
          (fold (set_param_def b) (enumerate 0 (params blk)) vs))"

definition reindex :: "func \<Rightarrow> func" where
  "reindex fn = fn\<lparr>vals := fold reindex_block (enumerate 0 (blocks fn)) (vals fn)\<rparr>"

definition peephole_function :: "nat \<Rightarrow> func \<Rightarrow> peephole_stats \<Rightarrow> (func \<times> peephole_stats) option" where
  "peephole_function pb fn st =
     (if \<not> has_body fn \<or> blocks fn = [] then Some (fn, st)
      else do { (p, st') \<leftarrow> rounds 16 \<lparr>pfn = fn, ppointer_bits = pb, pconsts = Map.empty, remap = []\<rparr> st;
                Some (reindex (pfn p), st') })"

fun peephole_functions :: "nat \<Rightarrow> func list \<Rightarrow> peephole_stats \<Rightarrow> (func list \<times> peephole_stats) option" where
  "peephole_functions pb [] st = Some ([], st)"
| "peephole_functions pb (f # fs) st =
     do { (f', st') \<leftarrow> peephole_function pb f st;
          (fs', st'') \<leftarrow> peephole_functions pb fs st';
          Some (f' # fs', st'') }"

definition peephole :: "mir_module \<Rightarrow> (mir_module \<times> peephole_stats) option" where
  "peephole m =
     do { (fs, st) \<leftarrow> peephole_functions (pointer_bits m) (funcs m) zero_stats;
          Some (m\<lparr>funcs := fs\<rparr>, st) }"

subsection \<open>Resolving a remap chain\<close>

text \<open>Whatever a chain returns is no longer remapped, and keeps every property the links keep.\<close>

lemma resolve_induct:
  assumes "resolve r v = Some w"
    and "\<And>v. map_of r v = None \<Longrightarrow> P v v"
    and "\<And>v u w. map_of r v = Some u \<Longrightarrow> P u w \<Longrightarrow> P v w"
  shows "P v w"
proof -
  have "r = r \<longrightarrow> P v w"
  proof (rule resolve.raw_induct [OF _ assms(1), of "\<lambda>r' v w. r' = r \<longrightarrow> P v w"])
    fix f r' v w
    assume IH: "\<And>r' v w. f r' v = Some w \<Longrightarrow> r' = r \<longrightarrow> P v w"
      and b: "(case map_of r' v of None \<Rightarrow> Some v | Some w \<Rightarrow> f r' w) = Some w"
    show "r' = r \<longrightarrow> P v w"
      using b IH assms(2,3) by (cases "map_of r' v") auto
  qed
  then show ?thesis by simp
qed

lemma resolve_terminal: "resolve r v = Some w \<Longrightarrow> map_of r w = None"
  by (erule resolve_induct)

lemma resolve_stop: "map_of r v = None \<Longrightarrow> resolve r v = Some v"
  by (subst resolve.simps) simp

lemma resolve_link: "map_of r v = Some u \<Longrightarrow> resolve r v = resolve r u"
  by (subst resolve.simps) simp

lemma resolve_Nil [simp]: "resolve [] v = Some v"
  by (simp add: resolve_stop)

definition remap_total :: "(value_id \<times> value_id) list \<Rightarrow> bool" where
  "remap_total r \<longleftrightarrow> (\<forall>v. \<exists>w. resolve r v = Some w)"

text \<open>A link to a resolved value other than its own key keeps every chain finite.\<close>

lemma remap_total_Cons:
  assumes t: "remap_total r" and w: "map_of r w = None" and k: "k \<noteq> w"
  shows "remap_total ((k, w) # r)"
proof -
  have end_w: "resolve ((k, w) # r) w = Some w"
    using w k by (simp add: resolve_stop)
  have "\<exists>x. resolve ((k, w) # r) v = Some x" if "resolve r v = Some u" for v u
    using that
  proof (rule resolve_induct)
    fix v assume "map_of r v = None"
    then show "\<exists>x. resolve ((k, w) # r) v = Some x"
      using end_w by (cases "v = k") (simp_all add: resolve_link [of _ k w] resolve_stop)
  next
    fix v y assume "map_of r v = Some y" "\<exists>x. resolve ((k, w) # r) y = Some x"
    then show "\<exists>x. resolve ((k, w) # r) v = Some x"
      using end_w by (cases "v = k") (simp_all add: resolve_link)
  qed
  then show ?thesis
    using t unfolding remap_total_def by metis
qed

lemma remap_total_Nil [simp]: "remap_total []"
  by (simp add: remap_total_def)

text \<open>A link of a value to itself never ends.\<close>

lemma resolve_self: "resolve ((k, k) # r) k = None"
proof -
  have "resolve ((k, k) # r) k \<noteq> Some w" for w
  proof
    assume "resolve ((k, k) # r) k = Some w"
    then have "w \<noteq> k" using resolve_terminal by fastforce
    moreover from \<open>resolve ((k, k) # r) k = Some w\<close> have "k = k \<longrightarrow> w = k"
      by (rule resolve_induct [where P = "\<lambda>v w. v = k \<longrightarrow> w = k"]) (auto split: if_splits)
    ultimately show False by simp
  qed
  then show ?thesis by (cases "resolve ((k, k) # r) k") auto
qed

end
