(* ===== verification/Mir_Promote.thy ===== *)
theory Mir_Promote
  imports Mir_Peephole
begin

text \<open>
  Slot promotion (\<^verbatim>\<open>promote_slots\<close> of \<^verbatim>\<open>mir_passes.cpp\<close>): stack slots whose address never escapes become values,
  with lazily built block parameters at joins and split edges where a branch cannot carry arguments. The search
  for reaching values may not return (a cycle of blocks with one predecessor each), nor may a remap chain, so the
  pass returns an option; an access past the end of a map with \<^verbatim>\<open>at\<close>, which throws, is \<open>None\<close> as well.
\<close>

subsection \<open>State\<close>

record promote_stats =
  slots_promoted :: nat
  params_added :: nat

definition store_size :: "ty \<Rightarrow> nat \<Rightarrow> nat" where
  "store_size type pb = (if type = Ty_I1 then 1 else type_bits type pb div 8)"

record prom =
  qfn :: func
  vars :: "nat \<rightharpoonup> ty"
  addr_values :: "value_id \<rightharpoonup> nat"
  preds :: "block_id list list"
  entry_def :: "nat \<times> block_id \<rightharpoonup> value_id"
  exit_def_memo :: "nat \<times> block_id \<rightharpoonup> value_id"
  last_store :: "nat \<times> block_id \<rightharpoonup> value_id"
  zero_consts :: "nat \<rightharpoonup> value_id"
  entry_prelude :: "inst list"
  added_params :: "block_id \<Rightarrow> nat list"
  edge_args :: "block_id \<times> block_id \<rightharpoonup> value_id list"
  qremap :: "(value_id \<times> value_id) list"

definition new_value :: "ty \<Rightarrow> block_id \<Rightarrow> nat \<Rightarrow> bool \<Rightarrow> prom \<Rightarrow> value_id \<times> prom" where
  "new_value type blk index is_param p =
     (length (vals (qfn p)),
      p\<lparr>qfn := (qfn p)\<lparr>vals := vals (qfn p) @
          [\<lparr>vd_block = blk, vd_index = index, vd_type = type, vd_is_param = is_param\<rparr>]\<rparr>\<rparr>)"

definition zero_inst :: "ty \<Rightarrow> value_id \<Rightarrow> inst" where
  "zero_inst type v = default_inst
     \<lparr>oper := if type = Ty_Ptr then Op_ConstNull else if is_float type then Op_ConstFloat else Op_ConstInt,
      itype := type, imm := 0, result := v\<rparr>"

definition zero_for :: "nat \<Rightarrow> ty \<Rightarrow> prom \<Rightarrow> value_id \<times> prom" where
  "zero_for slot type p =
     (case zero_consts p slot of
        Some v \<Rightarrow> (v, p)
      | None \<Rightarrow>
          let (v, p1) = new_value type 0 (length (entry_prelude p)) False p
          in (v, p1\<lparr>entry_prelude := entry_prelude p1 @ [zero_inst type v],
                    zero_consts := (zero_consts p1)(slot \<mapsto> v)\<rparr>))"

subsection \<open>Reaching values\<close>

definition join_param :: "nat \<Rightarrow> block_id \<Rightarrow> ty \<Rightarrow> prom \<Rightarrow> value_id \<times> prom" where
  "join_param slot blk type p =
     (let (v, p1) = new_value type blk (length (params (blocks (qfn p) ! blk))) True p;
          fn = qfn p1
      in (v, p1\<lparr>qfn := fn\<lparr>blocks := (blocks fn)[blk := (blocks fn ! blk)
                   \<lparr>params := params (blocks fn ! blk) @ [v]\<rparr>]\<rparr>,
                added_params := (added_params p1)(blk := added_params p1 blk @ [slot]),
                entry_def := (entry_def p1)((slot, blk) \<mapsto> v)\<rparr>))"

definition push_edge :: "block_id \<times> block_id \<Rightarrow> value_id \<Rightarrow> prom \<Rightarrow> prom" where
  "push_edge e v p = p\<lparr>edge_args := (edge_args p)
     (e \<mapsto> (case edge_args p e of Some as \<Rightarrow> as | None \<Rightarrow> []) @ [v])\<rparr>"

text \<open>
  \<^verbatim>\<open>get_entry\<close> and \<^verbatim>\<open>get_exit\<close> call each other, and the loop over a join's predecessors calls \<^verbatim>\<open>get_exit\<close>; the three are
  one recursive function on the kind of call. The value returned by the loop is not used.
\<close>

datatype reaching_call =
  Entry_Of nat block_id
| Exit_Of nat block_id
| Edges_Of nat block_id "block_id list"

partial_function (option) reaching :: "reaching_call \<Rightarrow> prom \<Rightarrow> (value_id \<times> prom) option" where
  "reaching c p =
     (case c of
        Entry_Of slot blk \<Rightarrow>
          (case entry_def p (slot, blk) of
             Some v \<Rightarrow> Some (v, p)
           | None \<Rightarrow>
               (case vars p slot of
                  None \<Rightarrow> None
                | Some type \<Rightarrow>
                    if preds p ! blk = [] then
                      let (v, p1) = zero_for slot type p
                      in Some (v, p1\<lparr>entry_def := (entry_def p1)((slot, blk) \<mapsto> v)\<rparr>)
                    else if length (preds p ! blk) = 1 then
                      Option.bind (reaching (Exit_Of slot (hd (preds p ! blk))) p)
                        (\<lambda>(v, p1). Some (v, p1\<lparr>entry_def := (entry_def p1)((slot, blk) \<mapsto> v)\<rparr>))
                    else
                      Option.bind (reaching (Edges_Of slot blk (preds p ! blk)) (snd (join_param slot blk type p)))
                        (\<lambda>(u, p1). Some (fst (join_param slot blk type p), p1))))
      | Exit_Of slot blk \<Rightarrow>
          (case exit_def_memo p (slot, blk) of
             Some v \<Rightarrow> Some (v, p)
           | None \<Rightarrow>
               (case last_store p (slot, blk) of
                  Some v \<Rightarrow> Some (v, p\<lparr>exit_def_memo := (exit_def_memo p)((slot, blk) \<mapsto> v)\<rparr>)
                | None \<Rightarrow>
                    Option.bind (reaching (Entry_Of slot blk) p)
                      (\<lambda>(v, p1). Some (v, p1\<lparr>exit_def_memo := (exit_def_memo p1)((slot, blk) \<mapsto> v)\<rparr>))))
      | Edges_Of slot blk ps \<Rightarrow>
          (case ps of
             [] \<Rightarrow> Some (0, p)
           | q # qs \<Rightarrow>
               Option.bind (reaching (Exit_Of slot q) p)
                 (\<lambda>(v, p1). reaching (Edges_Of slot blk qs) (push_edge (q, blk) v p1))))"

declare reaching.simps [code]

definition get_entry :: "nat \<Rightarrow> block_id \<Rightarrow> prom \<Rightarrow> (value_id \<times> prom) option" where
  "get_entry slot blk p = reaching (Entry_Of slot blk) p"

definition get_exit :: "nat \<Rightarrow> block_id \<Rightarrow> prom \<Rightarrow> (value_id \<times> prom) option" where
  "get_exit slot blk p = reaching (Exit_Of slot blk) p"

subsection \<open>Candidates\<close>

type_synonym candidates = "nat \<rightharpoonup> ty option"

definition start_candidates :: "func \<Rightarrow> candidates" where
  "start_candidates fn s =
     (if s < length (slots fn) \<and> \<not> address_escapes (slots fn ! s) then Some None else None)"

definition track_addr :: "candidates \<Rightarrow> inst \<Rightarrow> (value_id \<rightharpoonup> nat) \<Rightarrow> (value_id \<rightharpoonup> nat)" where
  "track_addr cand i addrs =
     (if oper i = Op_SlotAddr \<and> cand (opa i) \<noteq> None then addrs(result i \<mapsto> opa i) else addrs)"

definition addr_to_slot :: "func \<Rightarrow> value_id \<rightharpoonup> nat" where
  "addr_to_slot fn = fold (track_addr (start_candidates fn)) (all_insts fn) Map.empty"

definition disqualify :: "(value_id \<rightharpoonup> nat) \<Rightarrow> value_id \<Rightarrow> candidates \<Rightarrow> candidates" where
  "disqualify addrs v cand = (case addrs v of Some s \<Rightarrow> cand(s := None) | None \<Rightarrow> cand)"

definition note_access :: "nat \<Rightarrow> func \<Rightarrow> nat \<Rightarrow> ty \<Rightarrow> candidates \<Rightarrow> candidates" where
  "note_access pb fn slot type cand =
     (case cand slot of
        None \<Rightarrow> cand
      | Some t \<Rightarrow>
          let t' = (case t of None \<Rightarrow> type | Some u \<Rightarrow> u)
          in if t' \<noteq> type \<or> store_size type pb \<noteq> slot_size (slots fn ! slot)
             then cand(slot := None) else cand(slot \<mapsto> Some t'))"

definition scan_access :: "nat \<Rightarrow> func \<Rightarrow> (value_id \<rightharpoonup> nat) \<Rightarrow> inst \<Rightarrow> candidates \<Rightarrow> candidates" where
  "scan_access pb fn addrs i cand =
     (if oper i = Op_Load \<and> addrs (opa i) \<noteq> None
      then note_access pb fn (the (addrs (opa i))) (itype i) cand
      else if oper i = Op_Store \<and> addrs (opa i) \<noteq> None
      then note_access pb fn (the (addrs (opa i))) (vd_type (vals fn ! opb i)) (disqualify addrs (opb i) cand)
      else fold (disqualify addrs) (value_operands i) cand)"

definition candidates_of :: "nat \<Rightarrow> func \<Rightarrow> candidates" where
  "candidates_of pb fn = fold (scan_access pb fn (addr_to_slot fn)) (all_insts fn) (start_candidates fn)"

definition var_types :: "candidates \<Rightarrow> nat \<rightharpoonup> ty" where
  "var_types cand s = (case cand s of Some t \<Rightarrow> t | None \<Rightarrow> None)"

definition promoted_addrs :: "func \<Rightarrow> candidates \<Rightarrow> value_id \<rightharpoonup> nat" where
  "promoted_addrs fn cand v =
     (case addr_to_slot fn v of Some s \<Rightarrow> if cand s \<noteq> None then Some s else None | None \<Rightarrow> None)"

subsection \<open>Predecessors and last stores\<close>

definition block_targets :: "func \<Rightarrow> block_id \<Rightarrow> block_id list" where
  "block_targets fn b =
     (let is = insts (blocks fn ! b) in
      if is = [] then [] else
        let t = last is
        in filter (\<lambda>t. t < length (blocks fn))
             (if oper t = Op_Jump then [opa t]
              else if oper t = Op_Branch then [opb t, opc t]
              else if oper t = Op_Switch then opb t # odds (args t)
              else []))"

definition pred_lists :: "func \<Rightarrow> block_id list list" where
  "pred_lists fn =
     map (\<lambda>t. remdups_adj (sort (concat (map (\<lambda>b. replicate (count_list (block_targets fn b) t) b)
             [0..<length (blocks fn)]))))
       [0..<length (blocks fn)]"

definition note_store :: "(value_id \<rightharpoonup> nat) \<Rightarrow> (nat \<rightharpoonup> ty) \<Rightarrow> block_id \<Rightarrow> inst \<Rightarrow>
    (nat \<times> block_id \<rightharpoonup> value_id) \<Rightarrow> (nat \<times> block_id \<rightharpoonup> value_id)" where
  "note_store addrs vs b i ls =
     (if oper i = Op_Store then
        (case addrs (opa i) of
           Some s \<Rightarrow> if vs s \<noteq> None then ls((s, b) \<mapsto> opb i) else ls
         | None \<Rightarrow> ls)
      else ls)"

definition last_stores :: "(value_id \<rightharpoonup> nat) \<Rightarrow> (nat \<rightharpoonup> ty) \<Rightarrow> func \<Rightarrow> (nat \<times> block_id \<rightharpoonup> value_id)" where
  "last_stores addrs vs fn =
     fold (\<lambda>b. fold (note_store addrs vs b) (insts (blocks fn ! b))) [0..<length (blocks fn)] Map.empty"

subsection \<open>The walk\<close>

type_synonym walk = "(nat \<rightharpoonup> value_id) \<times> prom"

text \<open>One instruction: whether it dies, and the current values and state after it.\<close>

definition walk_inst :: "block_id \<Rightarrow> inst \<Rightarrow> walk \<Rightarrow> (bool \<times> walk) option" where
  "walk_inst b i w =
     (case w of (current, p) \<Rightarrow>
        if oper i = Op_SlotAddr \<and> addr_values p (result i) \<noteq> None then Some (True, current, p)
        else if oper i = Op_Load \<and> addr_values p (opa i) \<noteq> None then
          (let slot = the (addr_values p (opa i))
           in do { (v, p1) \<leftarrow> (case current slot of Some v \<Rightarrow> Some (v, p) | None \<Rightarrow> get_entry slot b p);
                   Some (True, current, p1\<lparr>qremap := (result i, v) # qremap p1\<rparr>) })
        else if oper i = Op_Store \<and> addr_values p (opa i) \<noteq> None then
          (let slot = the (addr_values p (opa i))
           in if vars p slot \<noteq> None
              then do { v \<leftarrow> resolve (qremap p) (opb i); Some (True, current(slot \<mapsto> v), p) }
              else Some (True, current, p))
        else Some (False, current, p))"

fun walk_insts :: "block_id \<Rightarrow> inst list \<Rightarrow> walk \<Rightarrow> (bool list \<times> walk) option" where
  "walk_insts b [] w = Some ([], w)"
| "walk_insts b (i # is) w =
     do { (d, w1) \<leftarrow> walk_inst b i w; (ds, w2) \<leftarrow> walk_insts b is w1; Some (d # ds, w2) }"

text \<open>The memoized last stores of a block are resolved after it was walked.\<close>

definition settle_stores :: "block_id \<Rightarrow> prom \<Rightarrow> prom option" where
  "settle_stores b p =
     (if \<forall>s < length (slots (qfn p)). case last_store p (s, b) of Some v \<Rightarrow> resolve (qremap p) v \<noteq> None | None \<Rightarrow> True
      then Some (p\<lparr>last_store := (\<lambda>(s, c). if c = b then Option.bind (last_store p (s, c)) (resolve (qremap p))
                                         else last_store p (s, c))\<rparr>)
      else None)"

fun walk_blocks :: "block_id list \<Rightarrow> prom \<Rightarrow> (bool list list \<times> prom) option" where
  "walk_blocks [] p = Some ([], p)"
| "walk_blocks (b # bs) p =
     do { (ds, current, p1) \<leftarrow> walk_insts b (insts (blocks (qfn p) ! b)) (Map.empty, p);
          p2 \<leftarrow> settle_stores b p1;
          (dss, p3) \<leftarrow> walk_blocks bs p2;
          Some (ds # dss, p3) }"

subsection \<open>Edges\<close>

text \<open>The keys of the edge map, in its order.\<close>

definition edge_keys :: "prom \<Rightarrow> (block_id \<times> block_id) list" where
  "edge_keys p = filter (\<lambda>e. edge_args p e \<noteq> None)
     (List.product [0..<length (blocks (qfn p))] [0..<length (blocks (qfn p))])"

definition set_last_inst :: "(inst \<Rightarrow> inst) \<Rightarrow> block \<Rightarrow> block" where
  "set_last_inst f b = b\<lparr>insts := butlast (insts b) @ [f (last (insts b))]\<rparr>"

definition redirect :: "block_id \<Rightarrow> block_id \<Rightarrow> block_id \<Rightarrow> block_id" where
  "redirect succ tramp t = (if t = succ then tramp else t)"

fun map_odds :: "('a \<Rightarrow> 'a) \<Rightarrow> 'a list \<Rightarrow> 'a list" where
  "map_odds f [] = []"
| "map_odds f [x] = [x]"
| "map_odds f (x # y # zs) = x # f y # map_odds f zs"

definition redirect_term :: "block_id \<Rightarrow> block_id \<Rightarrow> inst \<Rightarrow> inst" where
  "redirect_term succ tramp t =
     (if oper t = Op_Branch then t\<lparr>opb := redirect succ tramp (opb t), opc := redirect succ tramp (opc t)\<rparr>
      else if oper t = Op_Switch
      then t\<lparr>opb := redirect succ tramp (opb t), args := map_odds (redirect succ tramp) (args t)\<rparr>
      else t)"

text \<open>
  Every key of the edge map is visited once, so the trampoline of an edge is always made when the edge is placed.
\<close>

definition place_edge :: "(block_id \<times> block_id) \<times> value_id list \<Rightarrow> func \<Rightarrow> func" where
  "place_edge ea fn =
     (case ea of ((q, succ), as) \<Rightarrow>
        if oper (last (insts (blocks fn ! q))) = Op_Jump
        then fn\<lparr>blocks := (blocks fn)[q := set_last_inst (\<lambda>t. t\<lparr>args := args t @ as\<rparr>) (blocks fn ! q)]\<rparr>
        else
          let tramp = length (blocks fn);
              bs = blocks fn @ [\<lparr>label = label (blocks fn ! succ) @ ''.edge'', params = [],
                     insts = [default_inst\<lparr>oper := Op_Jump, opa := succ, args := as\<rparr>]\<rparr>]
          in fn\<lparr>blocks := bs[q := set_last_inst (redirect_term succ tramp) (bs ! q)]\<rparr>)"

subsection \<open>Clean-up\<close>

definition keep_alive :: "bool list \<Rightarrow> 'a list \<Rightarrow> 'a list" where
  "keep_alive ds xs = map snd (filter (\<lambda>(d, x). \<not> d) (zip ds xs))"

definition drop_dead :: "bool list list \<Rightarrow> func \<Rightarrow> func" where
  "drop_dead dss fn = fn\<lparr>blocks :=
     map (\<lambda>(b, blk). if b < length dss then blk\<lparr>insts := keep_alive (dss ! b) (insts blk)\<rparr> else blk)
       (enumerate 0 (blocks fn))\<rparr>"

definition splice_prelude :: "inst list \<Rightarrow> func \<Rightarrow> func" where
  "splice_prelude is fn = fn\<lparr>blocks := (blocks fn)[0 := (blocks fn ! 0)\<lparr>insts := is @ insts (blocks fn ! 0)\<rparr>]\<rparr>"

definition set_position :: "block_id \<Rightarrow> (nat \<times> inst) \<Rightarrow> value_def list \<Rightarrow> value_def list" where
  "set_position b ki vs =
     (case ki of (k, i) \<Rightarrow>
        if result i \<noteq> NO_VALUE \<and> result i < length vs
        then vs[result i := (vs ! result i)\<lparr>vd_block := b, vd_index := k\<rparr>]
        else vs)"

definition fix_positions :: "func \<Rightarrow> func" where
  "fix_positions fn = fn\<lparr>vals := fold (\<lambda>(b, blk). fold (set_position b) (enumerate 0 (insts blk)))
     (enumerate 0 (blocks fn)) (vals fn)\<rparr>"

definition slot_remap :: "candidates \<Rightarrow> func \<Rightarrow> nat \<rightharpoonup> nat" where
  "slot_remap cand fn s =
     (if s < length (slots fn) \<and> cand s = None then Some (length (filter (\<lambda>r. cand r = None) [0..<s])) else None)"

definition compact_slots :: "candidates \<Rightarrow> func \<Rightarrow> func option" where
  "compact_slots cand fn =
     (if \<forall>i \<in> set (all_insts fn). oper i = Op_SlotAddr \<longrightarrow> slot_remap cand fn (opa i) \<noteq> None
      then Some ((map_insts (\<lambda>i. if oper i = Op_SlotAddr then i\<lparr>opa := the (slot_remap cand fn (opa i))\<rparr> else i) fn)
             \<lparr>slots := map (\<lambda>s. slots fn ! s) (filter (\<lambda>s. cand s = None) [0..<length (slots fn)])\<rparr>)
      else None)"

subsection \<open>The pass\<close>

definition start_prom :: "candidates \<Rightarrow> func \<Rightarrow> prom" where
  "start_prom cand fn =
     (let vs = var_types cand; addrs = promoted_addrs fn cand in
      \<lparr>qfn = fn, vars = vs, addr_values = addrs, preds = pred_lists fn, entry_def = Map.empty,
       exit_def_memo = Map.empty, last_store = last_stores addrs vs fn, zero_consts = Map.empty,
       entry_prelude = [], added_params = (\<lambda>b. []), edge_args = Map.empty, qremap = []\<rparr>)"

definition rewrite_operands :: "(value_id \<times> value_id) list \<Rightarrow> func \<Rightarrow> func option" where
  "rewrite_operands r fn =
     (if \<forall>i \<in> set (all_insts fn). resolvable r i
      then Some (map_insts (map_operands (resolved r)) fn) else None)"

definition resolve_edges :: "prom \<Rightarrow> ((block_id \<times> block_id) \<times> value_id list) list option" where
  "resolve_edges p =
     (if \<forall>e \<in> set (edge_keys p). \<forall>a \<in> set (the (edge_args p e)). resolve (qremap p) a \<noteq> None
      then Some (map (\<lambda>e. (e, map (\<lambda>a. the (resolve (qremap p) a)) (the (edge_args p e)))) (edge_keys p))
      else None)"

definition promote_function :: "nat \<Rightarrow> func \<Rightarrow> promote_stats \<Rightarrow> (func \<times> promote_stats) option" where
  "promote_function pb fn st =
     (if \<not> has_body fn \<or> blocks fn = [] then Some (fn, st)
      else
        let cand = candidates_of pb fn; n = length (slots fn) in
        if \<forall>s < n. cand s = None then Some (fn, st)
        else do {
          (dead, p) \<leftarrow> walk_blocks [0..<length (blocks fn)] (start_prom cand fn);
          fn1 \<leftarrow> rewrite_operands (qremap p) (qfn p);
          edges \<leftarrow> resolve_edges p;
          let fn2 = fix_positions (splice_prelude (entry_prelude p) (drop_dead dead (fold place_edge edges fn1)));
          fn3 \<leftarrow> compact_slots cand fn2;
          Some (fn3, st\<lparr>slots_promoted := slots_promoted st + length (filter (\<lambda>s. cand s \<noteq> None) [0..<n]),
                        params_added := params_added st
                          + sum_list (map (\<lambda>b. length (added_params p b)) [0..<length (blocks fn)])\<rparr>) })"

fun promote_functions :: "nat \<Rightarrow> func list \<Rightarrow> promote_stats \<Rightarrow> (func list \<times> promote_stats) option" where
  "promote_functions pb [] st = Some ([], st)"
| "promote_functions pb (f # fs) st =
     do { (f', st') \<leftarrow> promote_function pb f st;
          (fs', st'') \<leftarrow> promote_functions pb fs st';
          Some (f' # fs', st'') }"

definition promote_slots :: "mir_module \<Rightarrow> (mir_module \<times> promote_stats) option" where
  "promote_slots m =
     do { (fs, st) \<leftarrow> promote_functions (pointer_bits m) (funcs m) \<lparr>slots_promoted = 0, params_added = 0\<rparr>;
          Some (m\<lparr>funcs := fs\<rparr>, st) }"

end
