(* ===== verification/Mir_Peephole_Wf.thy ===== *)
theory Mir_Peephole_Wf
  imports Mir_Peephole Mir_Builder
begin

text \<open>
  The peephole pass keeps a module well typed: whatever \<^verbatim>\<open>mir::verify\<close> accepts before the pass, it
  accepts after it. The typing of an instruction reads little of its surroundings (value types,
  block parameters, counts), so the proofs go through a congruence rule and one lemma per rewrite.
\<close>

subsection \<open>What the typing of an instruction depends on\<close>

definition same_context :: "func \<Rightarrow> func \<Rightarrow> bool" where
  "same_context fn fn' \<longleftrightarrow>
     map vd_type (vals fn) = map vd_type (vals fn') \<and>
     map params (blocks fn) = map params (blocks fn') \<and>
     length (slots fn) = length (slots fn')"

lemma same_context_typed:
  assumes "same_context fn fn'"
  shows "value_ok fn' v = value_ok fn v"
    and "value_ok fn v \<Longrightarrow> vd_type (vals fn' ! v) = vd_type (vals fn ! v)"
proof -
  have l: "length (vals fn) = length (vals fn')"
    using assms by (auto simp: same_context_def dest: map_eq_imp_length_eq)
  then show "value_ok fn' v = value_ok fn v"
    by (simp add: value_ok_def)
  show "vd_type (vals fn' ! v) = vd_type (vals fn ! v)" if "value_ok fn v"
    using that assms l unfolding same_context_def value_ok_def by (metis nth_map)
qed

text \<open>
  What the pass relies on beside the verifier's checks: every block parameter and every result names
  an entry of the value table with the type of the instruction (the builder's coherence gives this),
  and an integer conversion has an integer result, which \<^verbatim>\<open>verify\<close> does not check.
\<close>

definition ssa_typed :: "func \<Rightarrow> bool" where
  "ssa_typed fn \<longleftrightarrow>
     (\<forall>blk \<in> set (blocks fn). \<forall>p \<in> set (params blk). p < length (vals fn)) \<and>
     (\<forall>i \<in> set (all_insts fn). value_ok fn (result i) \<longrightarrow> vd_type (vals fn ! result i) = itype i) \<and>
     (\<forall>i \<in> set (all_insts fn). oper i \<in> {Op_Trunc, Op_ZExt, Op_SExt} \<longrightarrow> is_integer (itype i))"

lemma coherent_ssa_typed:
  assumes "coherent fn"
    and "\<forall>i \<in> set (all_insts fn). oper i \<in> {Op_Trunc, Op_ZExt, Op_SExt} \<longrightarrow> is_integer (itype i)"
  shows "ssa_typed fn"
  using assms unfolding ssa_typed_def coherent_def
  by (fastforce simp: all_insts_def in_set_conv_nth param_ok_def result_ok_def value_ok_def Let_def)

lemma same_context_target:
  assumes "same_context fn fn'" and "ssa_typed fn" and "target_ok fn t as"
  shows "target_ok fn' t as"
proof -
  have l: "length (blocks fn') = length (blocks fn)" "length (vals fn') = length (vals fn)"
    using assms(1) by (auto simp: same_context_def dest: map_eq_imp_length_eq)
  have t: "t < length (blocks fn)"
    using assms(3) by (simp add: target_ok_def)
  then have p: "params (blocks fn' ! t) = params (blocks fn ! t)"
    using assms(1) l unfolding same_context_def by (metis nth_map)
  have ty: "vd_type (vals fn' ! v) = vd_type (vals fn ! v)" if "v < length (vals fn)" for v
    using that assms(1) l unfolding same_context_def by (metis nth_map)
  have "\<forall>q \<in> set (params (blocks fn ! t)). q < length (vals fn)"
    using assms(2) t by (auto simp: ssa_typed_def)
  then show ?thesis
    using assms(3) t l
    by (auto simp: target_ok_def p list_all2_conv_all_nth value_ok_def ty)
qed

lemma same_context_args:
  "same_context fn fn' \<Longrightarrow> args_match fn sg as \<Longrightarrow> args_match fn' sg as"
  by (auto simp: args_match_nth same_context_typed)

lemma inst_wf_context:
  assumes "inst_wf m fn sg i" and c: "same_context fn fn'" and "ssa_typed fn"
  shows "inst_wf m fn' sg i"
proof -
  note ctx = same_context_typed [OF c] same_context_target [OF c assms(3)] same_context_args [OF c]
  have "length (slots fn') = length (slots fn)"
    using c by (simp add: same_context_def)
  from assms(1) this ctx show ?thesis
    by (induction rule: inst_wf.induct) (auto intro: inst_wf.intros)
qed

text \<open>The same for the module: only counts and the callees' signatures matter.\<close>

lemma inst_wf_module:
  assumes "inst_wf m fn sg i"
    and "map fsignature (funcs m') = map fsignature (funcs m)" "globals m' = globals m"
    and "signatures m' = signatures m" "asm_blocks m' = asm_blocks m"
  shows "inst_wf m' fn sg i"
proof -
  have l: "length (funcs m') = length (funcs m)"
    using assms(2) by (rule map_eq_imp_length_eq)
  then have f: "\<And>k. k < length (funcs m) \<Longrightarrow> fsignature (funcs m' ! k) = fsignature (funcs m ! k)"
    using assms(2) by (metis nth_map)
  from assms(1) l f assms(3-5) show ?thesis
    by (induction rule: inst_wf.induct) (auto intro: inst_wf.intros)
qed

subsection \<open>Rewriting operands to values of the same type\<close>

definition retypes :: "func \<Rightarrow> (value_id \<Rightarrow> value_id) \<Rightarrow> bool" where
  "retypes fn f \<longleftrightarrow>
     (\<forall>v. value_ok fn v \<longrightarrow> value_ok fn (f v) \<and> vd_type (vals fn ! f v) = vd_type (vals fn ! v))"

lemma shape_ranges:
  "Op_ICmpEq \<le> x \<Longrightarrow> x \<le> Op_ICmpUge \<Longrightarrow> operand_shape x = Shape_A_OptB"
  "Op_FCmpOeq \<le> x \<Longrightarrow> x \<le> Op_FCmpOge \<Longrightarrow> operand_shape x = Shape_A_OptB"
  "Op_Add \<le> x \<Longrightarrow> x \<le> Op_AShr \<Longrightarrow> operand_shape x = Shape_A_OptB"
  "Op_FAdd \<le> x \<Longrightarrow> x \<le> Op_FRem \<Longrightarrow> operand_shape x = Shape_A_OptB"
  "x \<in> {Op_Not, Op_Neg, Op_FNeg} \<Longrightarrow> operand_shape x = Shape_A_OptB"
  "x \<in> conversions \<Longrightarrow> operand_shape x = Shape_A_OptB"
  by (auto simp: operand_shape_def conversions_def op_order)

lemma retypes_value: "retypes fn f \<Longrightarrow> value_ok fn v \<Longrightarrow> value_ok fn (f v)"
  and retypes_type: "retypes fn f \<Longrightarrow> value_ok fn v \<Longrightarrow> vd_type (vals fn ! f v) = vd_type (vals fn ! v)"
  by (auto simp: retypes_def)

lemma retypes_target: "retypes fn f \<Longrightarrow> target_ok fn t as \<Longrightarrow> target_ok fn t (map f as)"
  by (auto simp: target_ok_def list_all2_conv_all_nth retypes_def)

lemma retypes_args: "retypes fn f \<Longrightarrow> args_match fn sg as \<Longrightarrow> args_match fn sg (map f as)"
  by (auto simp: args_match_nth retypes_def)

lemma value_ok_not_NO_VALUE: "value_ok fn v \<Longrightarrow> v \<noteq> NO_VALUE"
  and not_value_ok_NO_VALUE [simp]: "\<not> value_ok fn NO_VALUE"
  by (simp_all add: value_ok_def)

lemmas wf_rules =
  inst_wf.intros(1-16) inst_wf.wf_call [OF _ _ _ refl] inst_wf.wf_call_indirect inst_wf.wf_jump
  inst_wf.wf_branch inst_wf.wf_switch inst_wf.wf_return_void inst_wf.wf_unreachable

lemmas range_rules =
  inst_wf.wf_int_binary inst_wf.wf_unary inst_wf.wf_float_binary inst_wf.wf_convert

lemma inst_wf_map_operands:
  assumes "inst_wf m fn sg i" and "retypes fn f"
  shows "inst_wf m fn sg (map_operands f i)"
proof -
  note rt = retypes_value [OF assms(2)] retypes_type [OF assms(2)] retypes_target [OF assms(2)]
    retypes_args [OF assms(2)] map_operands_def value_ok_not_NO_VALUE [of fn] shape_ranges
  from assms(1) show ?thesis
  proof (cases rule: inst_wf.cases)
    case (wf_return v)
    then show ?thesis
      by (intro inst_wf.wf_return [of _ _ "f v"]) (simp_all add: rt operand_shape_def)
  next
    case (wf_icmp t)
    then show ?thesis by (intro inst_wf.wf_icmp [of _ _ t]) (simp_all add: rt)
  next
    case (wf_fcmp t)
    then show ?thesis by (intro inst_wf.wf_fcmp [of _ _ t]) (simp_all add: rt)
  next
    case wf_int_binary
    then show ?thesis by (intro inst_wf.wf_int_binary) (simp_all add: rt)
  next
    case wf_unary
    then show ?thesis by (intro inst_wf.wf_unary) (simp_all only: rt, simp_all add: rt)
  next
    case wf_float_binary
    then show ?thesis by (intro inst_wf.wf_float_binary) (simp_all add: rt)
  next
    case wf_convert
    then show ?thesis by (intro inst_wf.wf_convert) (simp_all add: rt)
  qed (rule wf_rules; simp add: rt operand_shape_def; fail)+
qed

subsection \<open>Folding keeps the typing\<close>

definition remap_ok :: "func \<Rightarrow> (value_id \<times> value_id) list \<Rightarrow> bool" where
  "remap_ok fn r \<longleftrightarrow>
     (\<forall>k w. map_of r k = Some w \<longrightarrow>
        value_ok fn w \<and> (value_ok fn k \<longrightarrow> vd_type (vals fn ! w) = vd_type (vals fn ! k)))"

lemma remap_ok_Nil [simp]: "remap_ok fn []"
  by (simp add: remap_ok_def)

lemma resolve_typed:
  assumes "resolve r v = Some w" and "remap_ok fn r"
  shows "value_ok fn v \<longrightarrow> value_ok fn w \<and> vd_type (vals fn ! w) = vd_type (vals fn ! v)"
  using assms(1) by (rule resolve_induct) (use assms(2) in \<open>auto simp: remap_ok_def\<close>)

lemma resolved_retypes: "remap_ok fn r \<Longrightarrow> retypes fn (resolved r)"
  by (auto simp: retypes_def resolved_def dest: resolve_typed split: option.split)

lemma fold_range_wf:
  "inst_wf m fn sg i \<Longrightarrow> Op_Add \<le> oper i \<Longrightarrow> oper i \<le> Op_AShr \<Longrightarrow>
     is_integer (itype i) \<and> typed fn (opa i) (itype i) \<and> typed fn (opb i) (itype i)"
  by (erule inst_wf.cases) (auto simp: op_order conversions_def)

lemma fold_compare_wf:
  "inst_wf m fn sg i \<Longrightarrow> Op_ICmpEq \<le> oper i \<Longrightarrow> oper i \<le> Op_ICmpUge \<Longrightarrow>
     itype i = Ty_I1 \<and> value_ok fn (opa i) \<and> typed fn (opb i) (vd_type (vals fn ! opa i))"
  by (erule inst_wf.cases) (auto simp: op_order conversions_def)

lemma ptr_add_wf:
  "inst_wf m fn sg i \<Longrightarrow> oper i = Op_PtrAdd \<or> oper i = Op_PtrAddConst \<Longrightarrow>
     itype i = Ty_Ptr \<and> typed fn (opa i) Ty_Ptr"
  by (erule inst_wf.cases) (auto simp: op_order conversions_def)

lemma convert_wf:
  "inst_wf m fn sg i \<Longrightarrow> oper i \<in> {Op_Trunc, Op_ZExt, Op_SExt} \<Longrightarrow> value_ok fn (opa i)"
  by (erule inst_wf.cases) (auto simp: op_order conversions_def)

lemma foldable_not_terminator:
  "Op_Add \<le> x \<and> x \<le> Op_AShr \<or> Op_ICmpEq \<le> x \<and> x \<le> Op_ICmpUge \<or> x \<in> {Op_Trunc, Op_ZExt, Op_SExt} \<Longrightarrow>
     \<not> is_terminator x"
  by (auto simp: is_terminator_def op_order)

text \<open>An attempt that folds does so at the instruction's own integer type.\<close>

lemma fold_binary_inst_Some:
  "fold_binary_inst p i = Some (Some (t, v)) \<Longrightarrow>
     Op_Add \<le> oper i \<and> oper i \<le> Op_AShr \<and> is_integer (itype i) \<and> t = itype i"
  by (auto simp: fold_binary_inst_def bind_eq_Some_conv split: if_splits option.splits)

lemma fold_compare_inst_Some:
  "fold_compare_inst p i = Some (Some (t, v)) \<Longrightarrow>
     Op_ICmpEq \<le> oper i \<and> oper i \<le> Op_ICmpUge \<and> t = Ty_I1"
  by (auto simp: fold_compare_inst_def Let_def bind_eq_Some_conv split: if_splits option.splits)

lemma fold_convert_inst_Some:
  "fold_convert_inst p i = Some (Some (t, v)) \<Longrightarrow> oper i \<in> {Op_Trunc, Op_ZExt, Op_SExt} \<and> t = itype i"
  by (auto simp: fold_convert_inst_def Let_def bind_eq_Some_conv split: if_splits option.splits)

lemma try_fold_cases:
  assumes "try_fold p i = Some (Some (t, v))"
  obtains "fold_binary_inst p i = Some (Some (t, v))" | "fold_compare_inst p i = Some (Some (t, v))"
    | "fold_convert_inst p i = Some (Some (t, v))"
  using assms by (auto simp: try_fold_def bind_eq_Some_conv split: option.splits)

lemma try_fold_type:
  assumes "try_fold p i = Some (Some (t, v))" and "inst_wf m fn sg i"
    and "oper i \<in> {Op_Trunc, Op_ZExt, Op_SExt} \<longrightarrow> is_integer (itype i)"
  shows "t = itype i \<and> is_integer t \<and> \<not> is_terminator (oper i)"
  using assms(1)
proof (cases rule: try_fold_cases)
  case 1
  then show ?thesis
    using fold_binary_inst_Some foldable_not_terminator by blast
next
  case 2
  then have "is_integer t" "t = itype i"
    using fold_compare_inst_Some fold_compare_wf [OF assms(2)] by (auto simp: is_integer_def)
  then show ?thesis
    using 2 fold_compare_inst_Some foldable_not_terminator by blast
next
  case 3
  then show ?thesis
    using fold_convert_inst_Some assms(3) foldable_not_terminator by blast
qed

lemma identity_typed:
  assumes "identity_of p i = Some (Some v)" and "inst_wf m fn sg i"
  shows "typed fn v (itype i)"
proof -
  from assms(1) have "(Op_Add \<le> oper i \<and> oper i \<le> Op_AShr \<and> v \<in> {opa i, opb i}) \<or>
      ((oper i = Op_PtrAdd \<or> oper i = Op_PtrAddConst) \<and> v = opa i)"
    by (auto simp: identity_of_def op_order bind_eq_Some_conv split: if_splits)
  then show ?thesis
    using fold_range_wf [OF assms(2)] ptr_add_wf [OF assms(2)] by auto
qed

definition folds_to :: "inst \<Rightarrow> inst \<Rightarrow> bool" where
  "folds_to i i' \<longleftrightarrow> i' = i \<or>
     (\<exists>v. i' = make_const_int i (itype i) v \<and> is_integer (itype i) \<and> \<not> is_terminator (oper i))"

lemma fold_inst_typed:
  assumes "fold_inst i (p, st, ch) = Some (i', p', st', ch')" and "inst_wf m fn sg i"
    and "oper i \<in> {Op_Trunc, Op_ZExt, Op_SExt} \<longrightarrow> is_integer (itype i)"
    and "value_ok fn (result i) \<longrightarrow> vd_type (vals fn ! result i) = itype i" and "remap_ok fn (remap p)"
  shows "folds_to i i' \<and> remap_ok fn (remap p') \<and> pfn p' = pfn p"
proof -
  from assms(1) consider
      (const) t v where "try_fold p i = Some (Some (t, v))" "i' = make_const_int i t v" "remap p' = remap p"
        "pfn p' = pfn p"
    | (same) "i' = i" "p' = p"
    | (aliased) v w where "identity_of p i = Some (Some v)" "resolve (remap p) v = Some w" "i' = i"
        "p' = p\<lparr>remap := (result i, w) # remap p\<rparr>"
    by (auto simp: fold_inst_def bind_eq_Some_conv split: option.splits)
  then show ?thesis
  proof cases
    case const
    with try_fold_type [OF const(1) assms(2,3)] assms(5) show ?thesis
      by (auto simp: folds_to_def)
  next
    case aliased
    then have "typed fn w (itype i)"
      using identity_typed [OF aliased(1) assms(2)] resolve_typed [OF aliased(2) assms(5)] by simp
    with aliased assms(4,5) show ?thesis
      by (auto simp: folds_to_def remap_ok_def)
  qed (use assms in \<open>simp add: folds_to_def\<close>)
qed

definition foldable :: "mir_module \<Rightarrow> func \<Rightarrow> signature \<Rightarrow> inst \<Rightarrow> bool" where
  "foldable m fn sg i \<longleftrightarrow>
     inst_wf m fn sg i \<and>
     (oper i \<in> {Op_Trunc, Op_ZExt, Op_SExt} \<longrightarrow> is_integer (itype i)) \<and>
     (value_ok fn (result i) \<longrightarrow> vd_type (vals fn ! result i) = itype i)"

lemma fold_insts_typed:
  assumes "fold_insts is (p, st, ch) = Some (is', p', st', ch')"
    and "\<forall>i \<in> set is. foldable m fn sg i" and "remap_ok fn (remap p)"
  shows "list_all2 folds_to is is' \<and> remap_ok fn (remap p') \<and> pfn p' = pfn p"
  using assms
proof (induction "is" arbitrary: p st ch is')
  case (Cons i "is")
  then obtain j p1 st1 ch1 js where
    j: "fold_inst i (p, st, ch) = Some (j, p1, st1, ch1)" and
    js: "fold_insts is (p1, st1, ch1) = Some (js, p', st', ch')" "is' = j # js"
    by (auto simp: bind_eq_Some_conv)
  have "folds_to i j \<and> remap_ok fn (remap p1) \<and> pfn p1 = pfn p"
    using fold_inst_typed [OF j, of m fn sg] Cons.prems by (simp add: foldable_def)
  then show ?case
    using Cons.IH [OF js(1)] Cons.prems js(2) by simp
qed simp

definition block_folds :: "block \<Rightarrow> block \<Rightarrow> bool" where
  "block_folds b b' \<longleftrightarrow> params b' = params b \<and> list_all2 folds_to (insts b) (insts b')"

lemma fold_blocks_typed:
  assumes "fold_blocks bs (p, st, ch) = Some (bs', p', st', ch')"
    and "\<forall>b \<in> set bs. \<forall>i \<in> set (insts b). foldable m fn sg i" and "remap_ok fn (remap p)"
  shows "list_all2 block_folds bs bs' \<and> remap_ok fn (remap p') \<and> pfn p' = pfn p"
  using assms
proof (induction bs arbitrary: p st ch bs')
  case (Cons b bs)
  then obtain js p1 st1 ch1 cs where
    js: "fold_insts (insts b) (p, st, ch) = Some (js, p1, st1, ch1)" and
    cs: "fold_blocks bs (p1, st1, ch1) = Some (cs, p', st', ch')" "bs' = b\<lparr>insts := js\<rparr> # cs"
    by (auto simp: bind_eq_Some_conv)
  have "list_all2 folds_to (insts b) js \<and> remap_ok fn (remap p1) \<and> pfn p1 = pfn p"
    using fold_insts_typed [OF js, of m fn sg] Cons.prems by simp
  then show ?case
    using Cons.IH [OF cs(1)] Cons.prems cs(2) by (simp add: block_folds_def)
qed simp

lemma folds_to_frame:
  assumes "folds_to i i'"
  shows "result i' = result i" "itype i' = itype i" "is_terminator (oper i') = is_terminator (oper i)"
    and "oper i' = oper i \<or> oper i' = Op_ConstInt"
    and "inst_wf m fn sg i \<Longrightarrow> inst_wf m fn sg i'"
proof -
  have c: "inst_wf m fn sg (make_const_int i (itype i) v)" if "is_integer (itype i)" for v
    using that by (intro inst_wf.wf_const_int) (simp_all add: make_const_int_def)
  show "result i' = result i" "itype i' = itype i" "is_terminator (oper i') = is_terminator (oper i)"
    and "oper i' = oper i \<or> oper i' = Op_ConstInt" and "inst_wf m fn sg i \<Longrightarrow> inst_wf m fn sg i'"
    using assms c by (auto simp: folds_to_def make_const_int_def is_terminator_def)
qed

lemma block_folds_wf:
  assumes "block_folds b b'" and "block_wf m fn sg b"
  shows "block_wf m fn sg b'"
proof -
  have l: "list_all2 folds_to (insts b) (insts b')" and n: "length (insts b') = length (insts b)"
    using assms(1) by (auto simp: block_folds_def dest: list_all2_lengthD)
  then have at: "folds_to (insts b ! k) (insts b' ! k)" if "k < length (insts b)" for k
    using that by (simp add: list_all2_nthD)
  note tm = folds_to_frame(3) [OF at] and wf = folds_to_frame(5) [OF at]
  have ne: "insts b \<noteq> []" using assms(2) by (simp add: block_wf_def)
  then have "insts b' \<noteq> []" using n by auto
  moreover have "is_terminator (oper (last (insts b')))"
    using tm [of "length (insts b) - 1"] ne \<open>insts b' \<noteq> []\<close> n assms(2)
    by (simp add: block_wf_def last_conv_nth)
  moreover have "\<forall>i \<in> set (butlast (insts b')). \<not> is_terminator (oper i)"
    using n assms(2) by (auto simp: block_wf_def butlast_all_nth tm)
  moreover have "\<forall>i \<in> set (insts b'). inst_wf m fn sg i"
    using n assms(2) by (auto simp: block_wf_def all_set_conv_all_nth wf)
  ultimately show ?thesis by (simp add: block_wf_def)
qed

subsection \<open>Rebuilding a function block by block\<close>

text \<open>A pass that keeps the context and each block's typing keeps the function's.\<close>

lemma block_wf_context:
  "block_wf m fn sg b \<Longrightarrow> same_context fn fn' \<Longrightarrow> ssa_typed fn \<Longrightarrow> block_wf m fn' sg b"
  by (auto simp: block_wf_def inst_wf_context)

lemma function_wf_rebuild:
  assumes "function_wf m fn" "same_context fn fn'" "ssa_typed fn"
    and "has_body fn' = has_body fn" "fsignature fn' = fsignature fn"
    and "\<And>sg. list_all2 (\<lambda>b b'. block_wf m fn sg b \<longrightarrow> block_wf m fn sg b') (blocks fn) (blocks fn')"
  shows "function_wf m fn'"
proof -
  have "length (blocks fn') = length (blocks fn)"
    using list_all2_lengthD [OF assms(6)] by simp
  then show ?thesis
    using assms(1,4,5,6) block_wf_context [OF _ assms(2,3)]
    by (auto simp: function_wf_def list_all2_conv_all_nth all_set_conv_all_nth)
qed

text \<open>The state every pass keeps: a typed function and a type-preserving remap.\<close>

definition peep_ok :: "mir_module \<Rightarrow> peep \<Rightarrow> bool" where
  "peep_ok m p \<longleftrightarrow> function_wf m (pfn p) \<and> ssa_typed (pfn p) \<and> has_body (pfn p) \<and> remap_ok (pfn p) (remap p)"

lemma in_all_insts: "i \<in> set (all_insts fn) \<longleftrightarrow> (\<exists>b \<in> set (blocks fn). i \<in> set (insts b))"
  by (simp add: all_insts_def)

lemma ssa_typed_rebuild:
  assumes "ssa_typed fn" "same_context fn fn'"
    and "\<And>b' i'. b' \<in> set (blocks fn') \<Longrightarrow> i' \<in> set (insts b') \<Longrightarrow>
      \<exists>i \<in> set (all_insts fn). result i' = result i \<and> itype i' = itype i \<and>
        (oper i' = oper i \<or> oper i' = Op_ConstInt)"
  shows "ssa_typed fn'"
proof -
  have l: "length (vals fn') = length (vals fn)"
    using assms(2) by (auto simp: same_context_def dest: map_eq_imp_length_eq)
  have "map params (blocks fn') = map params (blocks fn)"
    using assms(2) by (simp add: same_context_def)
  then have "params ` set (blocks fn') = params ` set (blocks fn)"
    by (metis list.set_map)
  then have "\<forall>b' \<in> set (blocks fn'). \<forall>q \<in> set (params b'). q < length (vals fn')"
    using assms(1) l unfolding ssa_typed_def by (metis (no_types, lifting) imageE imageI)
  moreover have "(value_ok fn' (result i') \<longrightarrow> vd_type (vals fn' ! result i') = itype i') \<and>
      (oper i' \<in> {Op_Trunc, Op_ZExt, Op_SExt} \<longrightarrow> is_integer (itype i'))" if "i' \<in> set (all_insts fn')" for i'
  proof -
    from that obtain b' where "b' \<in> set (blocks fn')" "i' \<in> set (insts b')"
      by (auto simp: in_all_insts)
    then obtain i where "i \<in> set (all_insts fn)" "result i' = result i" "itype i' = itype i"
      "oper i' = oper i \<or> oper i' = Op_ConstInt"
      using assms(3) by blast
    then show ?thesis
      using assms(1) same_context_typed [OF assms(2)] unfolding ssa_typed_def by auto
  qed
  ultimately show ?thesis
    by (simp add: ssa_typed_def)
qed

subsection \<open>The three passes keep the typing\<close>

lemma block_wf_map_operands:
  assumes "block_wf m fn sg b" and "retypes fn f"
  shows "block_wf m fn sg (b\<lparr>insts := map (map_operands f) (insts b)\<rparr>)"
  using assms inst_wf_map_operands
  by (auto simp: block_wf_def last_map simp flip: map_butlast)

lemma apply_remap_ok:
  assumes "peep_ok m p" and "apply_remap p = Some q"
  shows "peep_ok m q \<and> remap q = []"
proof (cases "remap p = []")
  case False
  let ?f = "map_operands (resolved (remap p))"
  from False assms(2) have q: "q = p\<lparr>pfn := map_insts ?f (pfn p), remap := []\<rparr>"
    by (simp add: apply_remap_def split: if_splits)
  have r: "retypes (pfn p) (resolved (remap p))"
    using assms(1) by (simp add: peep_ok_def resolved_retypes)
  have c: "same_context (pfn p) (map_insts ?f (pfn p))"
    by (simp add: same_context_def map_insts_def comp_def)
  have "function_wf m (map_insts ?f (pfn p))"
    using assms(1) c block_wf_map_operands [OF _ r]
    by (intro function_wf_rebuild [OF _ c]) (auto simp: peep_ok_def map_insts_def list_all2_conv_all_nth)
  moreover have "ssa_typed (map_insts ?f (pfn p))"
    using assms(1) by (intro ssa_typed_rebuild [OF _ c]) (force simp: peep_ok_def map_insts_def in_all_insts)+
  ultimately show ?thesis
    using assms(1) q by (simp add: peep_ok_def map_insts_def)
qed (use assms in \<open>simp add: apply_remap_def\<close>)

lemma peep_ok_foldable:
  assumes "peep_ok m p"
  shows "\<forall>b \<in> set (blocks (pfn p)). \<forall>i \<in> set (insts b).
    foldable m (pfn p) (signatures m ! fsignature (pfn p)) i"
  using assms
  by (auto simp: peep_ok_def function_wf_def block_wf_def foldable_def ssa_typed_def in_all_insts)

lemma list_all2_right: "list_all2 R xs ys \<Longrightarrow> y \<in> set ys \<Longrightarrow> \<exists>x \<in> set xs. R x y"
  by (induction rule: list_all2_induct) auto

lemma fold_step_ok:
  assumes "peep_ok m p" and "fold_blocks (blocks (pfn p)) (p, st, c) = Some (bs, p', st', c')"
  shows "peep_ok m (p'\<lparr>pfn := (pfn p')\<lparr>blocks := bs\<rparr>\<rparr>)"
proof -
  have f: "list_all2 block_folds (blocks (pfn p)) bs" "remap_ok (pfn p) (remap p')" "pfn p' = pfn p"
    using fold_blocks_typed [OF assms(2) peep_ok_foldable [OF assms(1)]] assms(1)
    by (auto simp: peep_ok_def)
  let ?fn = "(pfn p)\<lparr>blocks := bs\<rparr>"
  have "map params bs = map params (blocks (pfn p))"
    using f(1) by (auto simp: list_all2_conv_all_nth block_folds_def intro: nth_equalityI)
  then have c: "same_context (pfn p) ?fn"
    by (simp add: same_context_def)
  have "function_wf m ?fn"
    using assms(1) f(1) by (intro function_wf_rebuild [OF _ c])
      (auto simp: peep_ok_def block_folds_wf elim: list_all2_mono)
  moreover have "\<exists>i \<in> set (all_insts (pfn p)). result i' = result i \<and> itype i' = itype i \<and>
      (oper i' = oper i \<or> oper i' = Op_ConstInt)" if b': "b' \<in> set bs" "i' \<in> set (insts b')" for b' i'
  proof -
    obtain b where b: "b \<in> set (blocks (pfn p))" "list_all2 folds_to (insts b) (insts b')"
      using list_all2_right [OF f(1) b'(1)] by (auto simp: block_folds_def)
    then obtain i where "i \<in> set (insts b)" "folds_to i i'"
      using list_all2_right [OF _ b'(2)] by blast
    moreover from this(1) b(1) have "i \<in> set (all_insts (pfn p))"
      by (auto simp: in_all_insts)
    ultimately show ?thesis
      using folds_to_frame(1,2,4) [of i i'] by blast
  qed
  then have "ssa_typed ?fn"
    using assms(1) by (intro ssa_typed_rebuild [OF _ c]) (simp_all add: peep_ok_def)
  ultimately show ?thesis
    using assms(1) f same_context_typed [OF c] by (auto simp: peep_ok_def remap_ok_def)
qed

lemma fold_and_simplify_ok:
  assumes "peep_ok m p" and "fold_and_simplify p st = Some (q, st', c)"
  shows "peep_ok m q"
proof -
  from assms(2) obtain bs p' st1 c1 where
    f: "fold_blocks (blocks (pfn p)) (rescan_consts p, st, False) = Some (bs, p', st1, c1)"
    and q: "q = p'\<lparr>pfn := (pfn p')\<lparr>blocks := bs\<rparr>\<rparr> \<or>
      apply_remap (p'\<lparr>pfn := (pfn p')\<lparr>blocks := bs\<rparr>\<rparr>) = Some q"
    by (auto simp: fold_and_simplify_def Let_def bind_eq_Some_conv split: if_splits)
  have "peep_ok m (rescan_consts p)" "pfn (rescan_consts p) = pfn p"
    using assms(1) by (simp_all add: peep_ok_def rescan_consts_def)
  then have "peep_ok m (p'\<lparr>pfn := (pfn p')\<lparr>blocks := bs\<rparr>\<rparr>)"
    using fold_step_ok [of m "rescan_consts p"] f by simp
  then show ?thesis
    using q apply_remap_ok by blast
qed

lemma filter_keeps_last:
  "xs \<noteq> [] \<Longrightarrow> P (last xs) \<Longrightarrow> filter P xs = filter P (butlast xs) @ [last xs]"
  by (metis append_butlast_last_id filter.simps filter_append)

lemma block_wf_filter:
  assumes "block_wf m fn sg b" and "\<And>i. is_terminator (oper i) \<Longrightarrow> P i"
  shows "block_wf m fn sg (b\<lparr>insts := filter P (insts b)\<rparr>)"
  using assms filter_keeps_last [of "insts b" P]
  by (auto simp: block_wf_def dest: in_set_butlastD)

lemma removable_not_terminator: "removable used i \<Longrightarrow> \<not> is_terminator (oper i)"
  by (auto simp: removable_def defines_value_def)

lemma remove_dead_ok:
  assumes "peep_ok m p"
  shows "peep_ok m (fst (remove_dead p st))"
proof -
  let ?P = "removable (used_values (pfn p))"
  let ?fn = "drop_insts ?P (pfn p)"
  have c: "same_context (pfn p) ?fn"
    by (simp add: same_context_def drop_insts_def comp_def)
  have "function_wf m ?fn"
    using assms block_wf_filter [of m "pfn p" _ _ "\<lambda>i. \<not> ?P i"] removable_not_terminator
    by (intro function_wf_rebuild [OF _ c]) (auto simp: peep_ok_def drop_insts_def list_all2_conv_all_nth)
  moreover have "ssa_typed ?fn"
    using assms by (intro ssa_typed_rebuild [OF _ c]) (force simp: peep_ok_def drop_insts_def in_all_insts)+
  ultimately show ?thesis
    using assms same_context_typed [OF c]
    by (auto simp: peep_ok_def remove_dead_def Let_def remap_ok_def drop_insts_def)
qed

end
