(* ===== verification/Mir_Promote_Reach.thy ===== *)
theory Mir_Promote_Reach
  imports Mir_Promote Mir_Peephole_Wf
begin

text \<open>
  The reaching-value search of slot promotion: what one call of \<^verbatim>\<open>get_entry\<close> or \<^verbatim>\<open>get_exit\<close> adds to the function is
  typed, and every join gains as many parameters as each of its incoming edges gains arguments.
\<close>

subsection \<open>The state during the search\<close>

abbreviation vty :: "prom \<Rightarrow> value_id \<Rightarrow> ty" where
  "vty p v \<equiv> vd_type (vals (qfn p) ! v)"

definition good :: "prom \<Rightarrow> value_id \<Rightarrow> ty \<Rightarrow> bool" where
  "good p v t \<longleftrightarrow> v < length (vals (qfn p)) \<and> vty p v = t \<and> addr_values p v = None"

definition is_join :: "prom \<Rightarrow> block_id \<Rightarrow> bool" where
  "is_join p b \<longleftrightarrow> 2 \<le> length (preds p ! b)"

definition edge :: "prom \<Rightarrow> block_id \<times> block_id \<Rightarrow> value_id list" where
  "edge p e = (case edge_args p e of Some as \<Rightarrow> as | None \<Rightarrow> [])"

definition ptys :: "prom \<Rightarrow> block_id \<Rightarrow> ty list" where
  "ptys p b = map (vty p) (params (blocks (qfn p) ! b))"

definition etys :: "prom \<Rightarrow> block_id \<times> block_id \<Rightarrow> ty list" where
  "etys p e = map (vty p) (edge p e)"

definition static_ok :: "prom \<Rightarrow> bool" where
  "static_ok p \<longleftrightarrow>
     length (preds p) = length (blocks (qfn p)) \<and>
     (\<forall>b < length (blocks (qfn p)). distinct (preds p ! b) \<and> (\<forall>q \<in> set (preds p ! b). q < length (blocks (qfn p)))) \<and>
     (\<forall>s t. vars p s = Some t \<longrightarrow> t \<noteq> Ty_Void) \<and>
     (\<forall>v. addr_values p v \<noteq> None \<longrightarrow> v < length (vals (qfn p)))"

definition memo_typed :: "prom \<Rightarrow> (nat \<times> block_id \<rightharpoonup> value_id) \<Rightarrow> bool" where
  "memo_typed p m \<longleftrightarrow> (\<forall>s b v t. vars p s = Some t \<longrightarrow> m (s, b) = Some v \<longrightarrow> good p v t)"

definition memo_ok :: "prom \<Rightarrow> bool" where
  "memo_ok p \<longleftrightarrow> memo_typed p (entry_def p) \<and> memo_typed p (exit_def_memo p) \<and> memo_typed p (last_store p) \<and>
     memo_typed p (\<lambda>(s, b). zero_consts p s)"

definition clean :: "prom \<Rightarrow> value_id \<Rightarrow> bool" where
  "clean p v \<longleftrightarrow> v < length (vals (qfn p)) \<and> addr_values p v = None"

definition prelude_ok :: "prom \<Rightarrow> bool" where
  "prelude_ok p \<longleftrightarrow> (\<forall>i \<in> set (entry_prelude p). \<exists>t v. i = zero_inst t v \<and> t \<noteq> Ty_Void \<and> good p v t)"

definition params_ok :: "prom \<Rightarrow> bool" where
  "params_ok p \<longleftrightarrow> (\<forall>b < length (blocks (qfn p)). \<forall>v \<in> set (params (blocks (qfn p) ! b)). v < length (vals (qfn p)))"

definition edges_ok :: "prom \<Rightarrow> bool" where
  "edges_ok p \<longleftrightarrow> (\<forall>q b as. edge_args p (q, b) = Some as \<longrightarrow> b < length (blocks (qfn p)) \<and> q \<in> set (preds p ! b) \<and>
     is_join p b \<and> list_all (clean p) as)"

definition lists_ok :: "prom \<Rightarrow> bool" where
  "lists_ok p \<longleftrightarrow> prelude_ok p \<and> params_ok p \<and> edges_ok p"

definition prom_ok :: "prom \<Rightarrow> bool" where
  "prom_ok p \<longleftrightarrow> static_ok p \<and> memo_ok p \<and> lists_ok p"

subsection \<open>Extension\<close>

definition extends_block :: "block \<Rightarrow> block \<Rightarrow> bool" where
  "extends_block b b' \<longleftrightarrow> (\<exists>ps. b' = b\<lparr>params := params b @ ps\<rparr>)"

definition extends_func :: "func \<Rightarrow> func \<Rightarrow> bool" where
  "extends_func f f' \<longleftrightarrow> (\<exists>bs vs. f' = f\<lparr>blocks := bs, vals := vals f @ vs\<rparr> \<and> list_all2 extends_block (blocks f) bs)"

definition ext :: "prom \<Rightarrow> prom \<Rightarrow> bool" where
  "ext p p' \<longleftrightarrow> extends_func (qfn p) (qfn p') \<and> vars p' = vars p \<and> addr_values p' = addr_values p \<and> preds p' = preds p"

lemma extends_block_refl [simp]: "extends_block b b"
  unfolding extends_block_def by (intro exI [of _ "[]"]) simp

lemma extends_block_trans: "extends_block a b \<Longrightarrow> extends_block b c \<Longrightarrow> extends_block a c"
  by (auto simp: extends_block_def)

lemma extends_func_refl [simp]: "extends_func f f"
  unfolding extends_func_def by (intro exI [of _ "blocks f"] exI [of _ "[]"]) (simp add: list_all2_conv_all_nth)

lemma extends_func_trans:
  assumes "extends_func f g" "extends_func g h"
  shows "extends_func f h"
proof -
  obtain bs vs where g: "g = f\<lparr>blocks := bs, vals := vals f @ vs\<rparr>" "list_all2 extends_block (blocks f) bs"
    using assms(1) by (auto simp: extends_func_def)
  obtain cs us where h: "h = g\<lparr>blocks := cs, vals := vals g @ us\<rparr>" "list_all2 extends_block (blocks g) cs"
    using assms(2) by (auto simp: extends_func_def)
  have "list_all2 extends_block (blocks f) cs"
    using list_all2_trans [OF extends_block_trans g(2)] h(2) g(1) by simp
  then show ?thesis using g h unfolding extends_func_def
    by (intro exI [of _ cs] exI [of _ "vs @ us"]) simp
qed

lemma ext_refl [simp]: "ext p p"
  by (simp add: ext_def)

lemma ext_trans: "ext p q \<Longrightarrow> ext q r \<Longrightarrow> ext p r"
  by (auto simp: ext_def intro: extends_func_trans)

lemma extends_funcD:
  assumes "extends_func f f'"
  shows "length (blocks f') = length (blocks f)" "slots f' = slots f" "has_body f' = has_body f"
    "fsignature f' = fsignature f" "fparams f' = fparams f" "length (vals f) \<le> length (vals f')"
    "v < length (vals f) \<Longrightarrow> vals f' ! v = vals f ! v"
    "b < length (blocks f) \<Longrightarrow> insts (blocks f' ! b) = insts (blocks f ! b)"
    "b < length (blocks f) \<Longrightarrow> \<exists>ps. params (blocks f' ! b) = params (blocks f ! b) @ ps"
  using assms
  by (auto simp: extends_func_def extends_block_def list_all2_conv_all_nth nth_append)

lemma extD:
  assumes "ext p p'"
  shows "length (blocks (qfn p')) = length (blocks (qfn p))" "v < length (vals (qfn p)) \<Longrightarrow> vty p' v = vty p v"
    "length (vals (qfn p)) \<le> length (vals (qfn p'))" "vars p' = vars p" "addr_values p' = addr_values p"
    "preds p' = preds p" "slots (qfn p') = slots (qfn p)" "is_join p' b = is_join p b"
    "b < length (blocks (qfn p)) \<Longrightarrow> insts (blocks (qfn p') ! b) = insts (blocks (qfn p) ! b)"
  using assms extends_funcD [of "qfn p" "qfn p'"] by (auto simp: ext_def is_join_def)

lemma good_ext: "ext p p' \<Longrightarrow> good p v t \<Longrightarrow> good p' v t"
  using extD [of p p'] by (auto simp: good_def)

lemma static_ext: "ext p p' \<Longrightarrow> static_ok p \<Longrightarrow> static_ok p'"
  using extD [of p p'] by (auto simp: static_ok_def dest!: spec)

lemma memo_typed_ext: "ext p p' \<Longrightarrow> memo_typed p m \<Longrightarrow> memo_typed p' m"
  using extD(4) [of p p'] good_ext [of p p'] by (auto simp: memo_typed_def)

lemma memo_typed_upd: "memo_typed p m \<Longrightarrow> vars p s = Some t \<Longrightarrow> good p v t \<Longrightarrow> memo_typed p (m((s, b) \<mapsto> v))"
  by (auto simp: memo_typed_def)

lemma memo_typedD: "memo_typed p m \<Longrightarrow> m (s, b) = Some v \<Longrightarrow> vars p s = Some t \<Longrightarrow> good p v t"
  by (auto simp: memo_typed_def)

lemma memo_ok_ext:
  assumes "ext p p'" "memo_ok p"
  shows "memo_typed p' (entry_def p)" "memo_typed p' (exit_def_memo p)" "memo_typed p' (last_store p)"
    "memo_typed p' (\<lambda>(s, b). zero_consts p s)"
  using assms memo_typed_ext [OF assms(1)] by (simp_all add: memo_ok_def)

subsection \<open>Growth\<close>

definition grows :: "ty \<Rightarrow> (block_id \<times> block_id) set \<Rightarrow> prom \<Rightarrow> prom \<Rightarrow> bool" where
  "grows t X p p' \<longleftrightarrow> (\<exists>k. \<forall>b < length (blocks (qfn p)).
     ptys p' b = ptys p b @ replicate (k b) t \<and> (0 < k b \<longrightarrow> is_join p b) \<and>
     (\<forall>q \<in> set (preds p ! b). is_join p b \<longrightarrow>
        etys p' (q, b) = etys p (q, b) @ replicate (k b + (if (q, b) \<in> X then 1 else 0)) t))"

lemma grows_none: "grows t {} p p"
  unfolding grows_def by (rule exI [of _ "\<lambda>b. 0"]) simp

lemma grows_chain:
  assumes "ext p p1" "grows t X p p1" "grows t Y p1 p2" "X \<inter> Y = {}"
  shows "grows t (X \<union> Y) p p2"
proof -
  obtain k where k: "\<forall>b < length (blocks (qfn p)). ptys p1 b = ptys p b @ replicate (k b) t \<and>
      (0 < k b \<longrightarrow> is_join p b) \<and> (\<forall>q \<in> set (preds p ! b). is_join p b \<longrightarrow>
        etys p1 (q, b) = etys p (q, b) @ replicate (k b + (if (q, b) \<in> X then 1 else 0)) t)"
    using assms(2) by (auto simp: grows_def)
  obtain l where l: "\<forall>b < length (blocks (qfn p1)). ptys p2 b = ptys p1 b @ replicate (l b) t \<and>
      (0 < l b \<longrightarrow> is_join p1 b) \<and> (\<forall>q \<in> set (preds p1 ! b). is_join p1 b \<longrightarrow>
        etys p2 (q, b) = etys p1 (q, b) @ replicate (l b + (if (q, b) \<in> Y then 1 else 0)) t)"
    using assms(3) by (auto simp: grows_def)
  note e = extD(1,6,8) [OF assms(1)]
  show ?thesis unfolding grows_def
  proof (intro exI [of _ "\<lambda>b. k b + l b"] allI impI conjI ballI)
    fix b
    assume b: "b < length (blocks (qfn p))"
    show "ptys p2 b = ptys p b @ replicate (k b + l b) t"
      using k l b e by (simp add: replicate_add)
    show "is_join p b" if "0 < k b + l b" using k l b e that by fastforce
    fix q
    assume q: "q \<in> set (preds p ! b)" and j: "is_join p b"
    have "etys p2 (q, b) = (etys p (q, b) @ replicate (k b + (if (q, b) \<in> X then 1 else 0)) t)
        @ replicate (l b + (if (q, b) \<in> Y then 1 else 0)) t"
      using k l b e q j by simp
    moreover have "\<not> ((q, b) \<in> X \<and> (q, b) \<in> Y)" using assms(4) by blast
    ultimately show "etys p2 (q, b) = etys p (q, b) @ replicate (k b + l b + (if (q, b) \<in> X \<union> Y then 1 else 0)) t"
      by (auto simp flip: replicate_add simp: add.commute add.left_commute)
  qed
qed

text \<open>Steps that add neither parameters nor arguments.\<close>

lemma ptys_ext:
  assumes "ext p p'" "lists_ok p" "b < length (blocks (qfn p))" "params (blocks (qfn p') ! b) = params (blocks (qfn p) ! b) @ ps"
  shows "ptys p' b = ptys p b @ map (vty p') ps"
  using assms extD(2) [OF assms(1)] by (auto simp: ptys_def lists_ok_def params_ok_def)

lemma edge_clean: "edges_ok p \<Longrightarrow> v \<in> set (edge p e) \<Longrightarrow> clean p v"
  by (cases e; cases "edge_args p e") (auto simp: edges_ok_def edge_def list_all_iff)

lemma etys_ext:
  assumes "ext p p'" "lists_ok p" "edge p' e = edge p e @ as"
  shows "etys p' e = etys p e @ map (vty p') as"
proof -
  have "v < length (vals (qfn p))" if "v \<in> set (edge p e)" for v
    using edge_clean [of p v e] assms(2) that by (simp add: lists_ok_def clean_def)
  then show ?thesis using assms(3) extD(2) [OF assms(1)] by (simp add: etys_def)
qed

lemma grows_same:
  assumes "ext p p'" "lists_ok p" "edge_args p' = edge_args p" "map params (blocks (qfn p')) = map params (blocks (qfn p))"
  shows "grows t {} p p'"
proof -
  have "params (blocks (qfn p') ! b) = params (blocks (qfn p) ! b) @ []" if "b < length (blocks (qfn p))" for b
    using assms(4) that extD(1) [OF assms(1)] by (metis append_Nil2 nth_map)
  moreover have "edge p' e = edge p e @ []" for e using assms(3) by (simp add: edge_def)
  ultimately show ?thesis
    using ptys_ext [OF assms(1,2)] etys_ext [OF assms(1,2)] unfolding grows_def
    by (intro exI [of _ "\<lambda>b. 0"]) fastforce
qed

subsection \<open>The steps of the search\<close>

lemma ext_same_fn:
  "vars p' = vars p \<Longrightarrow> addr_values p' = addr_values p \<Longrightarrow> preds p' = preds p \<Longrightarrow> qfn p' = qfn p \<Longrightarrow> ext p p'"
  by (simp add: ext_def)

lemma new_value_ext:
  assumes "new_value type blk k par p = (v, p')"
  shows "ext p p'" "v = length (vals (qfn p))" "vals (qfn p') = vals (qfn p) @ [\<lparr>vd_block = blk, vd_index = k, vd_type = type,
      vd_is_param = par\<rparr>]" "blocks (qfn p') = blocks (qfn p)"
  using assms
  by (auto simp: new_value_def ext_def extends_func_def intro!: exI [of _ "blocks (qfn p)"] simp: list_all2_conv_all_nth)

lemma new_value_good:
  assumes "new_value type blk k par p = (v, p')" "static_ok p"
  shows "good p' v type"
  using new_value_ext [OF assms(1)] assms(2) extD(5) [OF new_value_ext(1) [OF assms(1)]]
  by (auto simp: good_def static_ok_def)

lemma clean_ext: "ext p p' \<Longrightarrow> clean p v \<Longrightarrow> clean p' v"
  using extD(3,5) [of p p'] by (auto simp: clean_def)

lemma good_clean: "good p v t \<Longrightarrow> clean p v"
  by (simp add: good_def clean_def)

lemma edges_ext:
  assumes "ext p p'" "edges_ok p" "edge_args p' = edge_args p"
  shows "edges_ok p'"
  using assms(2,3) extD(1,6,8) [OF assms(1)] clean_ext [OF assms(1)]
  by (auto simp: edges_ok_def list_all_iff)

lemma prelude_ext:
  assumes "ext p p'" "prelude_ok p"
    and "\<And>i. i \<in> set (entry_prelude p') \<Longrightarrow> i \<in> set (entry_prelude p) \<or> (\<exists>t v. i = zero_inst t v \<and> t \<noteq> Ty_Void \<and> good p' v t)"
  shows "prelude_ok p'"
  using assms(2) assms(3) good_ext [OF assms(1)] unfolding prelude_ok_def by blast

lemma params_ext:
  assumes "ext p p'" "params_ok p"
    and "\<And>b v. b < length (blocks (qfn p)) \<Longrightarrow> v \<in> set (params (blocks (qfn p') ! b)) \<Longrightarrow>
      v \<in> set (params (blocks (qfn p) ! b)) \<or> v < length (vals (qfn p'))"
  shows "params_ok p'"
  using assms(2) assms(3) extD(1,3) [OF assms(1)] unfolding params_ok_def by (metis order_less_le_trans)

lemma lists_ext:
  assumes "ext p p'" "lists_ok p"
    and "\<And>i. i \<in> set (entry_prelude p') \<Longrightarrow> i \<in> set (entry_prelude p) \<or> (\<exists>t v. i = zero_inst t v \<and> t \<noteq> Ty_Void \<and> good p' v t)"
    and "\<And>b v. b < length (blocks (qfn p)) \<Longrightarrow> v \<in> set (params (blocks (qfn p') ! b)) \<Longrightarrow>
      v \<in> set (params (blocks (qfn p) ! b)) \<or> v < length (vals (qfn p'))"
    and "edge_args p' = edge_args p"
  shows "lists_ok p'"
  using edges_ext [OF assms(1) _ assms(5)] prelude_ext [OF assms(1) _ assms(3)] params_ext [OF assms(1) _ assms(4)] assms(2)
  by (simp add: lists_ok_def)

text \<open>Where new values are defined: the prelude of constants and the block parameters.\<close>

definition homes :: "prom \<Rightarrow> value_id set" where
  "homes p = result ` set (entry_prelude p) \<union> (\<Union>b < length (blocks (qfn p)). set (params (blocks (qfn p) ! b)))"

definition homed :: "prom \<Rightarrow> prom \<Rightarrow> bool" where
  "homed p p' \<longleftrightarrow> homes p \<subseteq> homes p' \<and> {length (vals (qfn p))..<length (vals (qfn p'))} \<subseteq> homes p'"

lemma homed_same: "qfn p' = qfn p \<Longrightarrow> entry_prelude p' = entry_prelude p \<Longrightarrow> homed p p'"
  by (simp add: homed_def homes_def)

lemma homed_trans: "homed p p1 \<Longrightarrow> homed p1 p2 \<Longrightarrow> homed p p2"
  by (fastforce simp: homed_def not_le [symmetric])

definition stepped :: "ty \<Rightarrow> (block_id \<times> block_id) set \<Rightarrow> prom \<Rightarrow> prom \<Rightarrow> bool" where
  "stepped t X p p' \<longleftrightarrow> ext p p' \<and> prom_ok p' \<and> last_store p' = last_store p \<and> qremap p' = qremap p \<and> grows t X p p' \<and>
     homed p p'"

lemma stepped_refl: "prom_ok p \<Longrightarrow> stepped t {} p p"
  by (simp add: stepped_def grows_none homed_same)

lemma stepped_trans:
  "stepped t X p p1 \<Longrightarrow> stepped t Y p1 p2 \<Longrightarrow> X \<inter> Y = {} \<Longrightarrow> stepped t (X \<union> Y) p p2"
  by (auto simp: stepped_def intro: ext_trans grows_chain homed_trans)

lemma steppedD:
  assumes "stepped t X p p'"
  shows "ext p p'" "prom_ok p'" "last_store p' = last_store p" "qremap p' = qremap p"
  using assms by (simp_all add: stepped_def)

lemma memo_entry:
  assumes "prom_ok p" "vars p s = Some t" "good p v t"
  shows "stepped t {} p (p\<lparr>entry_def := (entry_def p)((s, b) \<mapsto> v)\<rparr>)"
proof -
  let ?p = "p\<lparr>entry_def := (entry_def p)((s, b) \<mapsto> v)\<rparr>"
  have e: "ext p ?p" by (simp add: ext_def)
  have "memo_ok ?p"
    using assms memo_ok_ext [OF e] memo_typed_upd [of ?p _ s t v b] good_ext [OF e] unfolding prom_ok_def memo_ok_def by simp
  moreover have "lists_ok ?p" using assms(1) by (intro lists_ext [OF e]) (auto simp: prom_ok_def)
  ultimately show ?thesis
    using assms(1) e static_ext [OF e] grows_same [OF e] by (simp add: stepped_def prom_ok_def homed_same)
qed

lemma memo_exit:
  assumes "prom_ok p" "vars p s = Some t" "good p v t"
  shows "stepped t {} p (p\<lparr>exit_def_memo := (exit_def_memo p)((s, b) \<mapsto> v)\<rparr>)"
proof -
  let ?p = "p\<lparr>exit_def_memo := (exit_def_memo p)((s, b) \<mapsto> v)\<rparr>"
  have e: "ext p ?p" by (simp add: ext_def)
  have "memo_ok ?p"
    using assms memo_ok_ext [OF e] memo_typed_upd [of ?p _ s t v b] good_ext [OF e] unfolding prom_ok_def memo_ok_def by simp
  moreover have "lists_ok ?p" using assms(1) by (intro lists_ext [OF e]) (auto simp: prom_ok_def)
  ultimately show ?thesis
    using assms(1) e static_ext [OF e] grows_same [OF e] by (simp add: stepped_def prom_ok_def homed_same)
qed

lemma memo_ext:
  assumes "ext p p'" "memo_ok p" "entry_def p' = entry_def p" "exit_def_memo p' = exit_def_memo p"
    "last_store p' = last_store p" "zero_consts p' = zero_consts p"
  shows "memo_ok p'"
  using assms memo_ok_ext [OF assms(1,2)] by (simp add: memo_ok_def)

lemma zero_for_step:
  assumes "prom_ok p" "vars p s = Some t" "zero_for s t p = (v, p')"
  shows "stepped t {} p p' \<and> good p' v t"
proof (cases "zero_consts p s")
  case (Some w)
  then show ?thesis
    using assms memo_typedD [of p "\<lambda>(s, b). zero_consts p s" s 0 v t]
    by (simp add: zero_for_def stepped_refl prom_ok_def memo_ok_def)
next
  case None
  obtain u p1 where n: "new_value t 0 (length (entry_prelude p)) False p = (u, p1)" by fastforce
  have g1: "good p1 u t" using new_value_good [OF n] assms(1) by (simp add: prom_ok_def)
  have v: "v = u" and p': "p' = p1\<lparr>entry_prelude := entry_prelude p1 @ [zero_inst t u],
      zero_consts := (zero_consts p1)(s \<mapsto> u)\<rparr>"
    using assms(3) None n by (auto simp: zero_for_def)
  have same: "entry_def p1 = entry_def p" "exit_def_memo p1 = exit_def_memo p" "last_store p1 = last_store p"
      "zero_consts p1 = zero_consts p" "entry_prelude p1 = entry_prelude p" "edge_args p1 = edge_args p" "qremap p1 = qremap p"
    using n by (auto simp: new_value_def)
  have e1: "ext p1 p'" by (simp add: p' ext_def)
  have e: "ext p p'" using new_value_ext(1) [OF n] e1 by (rule ext_trans)
  have g: "good p' u t" using good_ext [OF e1 g1] .
  have bl: "blocks (qfn p') = blocks (qfn p)" using new_value_ext(4) [OF n] by (simp add: p')
  have nv: "t \<noteq> Ty_Void" using assms(1,2) by (simp add: prom_ok_def static_ok_def)
  have "memo_typed p' (\<lambda>(r, b). if r = s then Some u else zero_consts p r)"
    using g assms(1,2) memo_ok_ext(4) [OF e] extD(4) [OF e] by (auto simp: memo_typed_def prom_ok_def)
  then have "memo_ok p'"
    using assms(1) memo_ok_ext [OF e] same by (simp add: memo_ok_def p' prom_ok_def fun_upd_def)
  moreover have "lists_ok p'"
    using assms(1) same g nv bl by (intro lists_ext [OF e]) (auto simp: prom_ok_def p')
  moreover have "grows t {} p p'"
    using assms(1) same bl by (intro grows_same [OF e]) (auto simp: prom_ok_def p')
  moreover have "homed p p'"
    using bl same new_value_ext(2,3) [OF n] by (auto simp: homed_def homes_def p' zero_inst_def less_Suc_eq)
  ultimately show ?thesis
    using e g assms(1) static_ext [OF e] same v by (simp add: stepped_def prom_ok_def p')
qed

lemma join_param_step:
  assumes "prom_ok p" "vars p s = Some t" "b < length (blocks (qfn p))" "is_join p b" "join_param s b t p = (v, p')"
  shows "ext p p'" "prom_ok p'" "good p' v t" "last_store p' = last_store p" "qremap p' = qremap p"
    "edge_args p' = edge_args p" "homed p p'" "c < length (blocks (qfn p)) \<Longrightarrow> ptys p' c = ptys p c @ (if c = b then [t] else [])"
proof -
  obtain u p1 where n: "new_value t b (length (params (blocks (qfn p) ! b))) True p = (u, p1)" by fastforce
  note ne = new_value_ext [OF n]
  have g1: "good p1 u t" using new_value_good [OF n] assms(1) by (simp add: prom_ok_def)
  define bs where "bs = (blocks (qfn p))[b := (blocks (qfn p) ! b)\<lparr>params := params (blocks (qfn p) ! b) @ [u]\<rparr>]"
  have v: "v = u" and p': "p' = p1\<lparr>qfn := (qfn p1)\<lparr>blocks := bs\<rparr>,
      added_params := (added_params p1)(b := added_params p1 b @ [s]), entry_def := (entry_def p1)((s, b) \<mapsto> u)\<rparr>"
    using assms(5) n by (auto simp: join_param_def bs_def ne(4))
  have same: "entry_def p1 = entry_def p" "exit_def_memo p1 = exit_def_memo p" "last_store p1 = last_store p"
      "zero_consts p1 = zero_consts p" "entry_prelude p1 = entry_prelude p" "edge_args p1 = edge_args p" "qremap p1 = qremap p"
    using n by (auto simp: new_value_def)
  have "list_all2 extends_block (blocks (qfn p)) bs"
    using assms(3) by (auto simp: bs_def list_all2_conv_all_nth nth_list_update extends_block_def
        simp del: block.update_convs intro: exI [of _ "[u]"] exI [of _ "[]"])
  then have e1: "ext p1 p'"
  proof -
    have "qfn p' = (qfn p1)\<lparr>blocks := bs, vals := vals (qfn p1) @ []\<rparr>" by (simp add: p')
    with \<open>list_all2 extends_block (blocks (qfn p)) bs\<close> show ?thesis
      unfolding ext_def extends_func_def ne(4) [symmetric]
      by (intro conjI exI [of _ bs] exI [of _ "[]"]) (simp_all add: p')
  qed
  show e: "ext p p'" using ne(1) e1 by (rule ext_trans)
  show g: "good p' v t" using good_ext [OF e1 g1] v by simp
  show "last_store p' = last_store p" "qremap p' = qremap p" "edge_args p' = edge_args p" by (simp_all add: p' same)
  have sub: "set (params (blocks (qfn p) ! c)) \<subseteq> set (params (bs ! c))" if "c < length (blocks (qfn p))" for c
    using that by (cases "c = b") (auto simp: bs_def)
  have "u \<in> set (params (bs ! b))" using assms(3) by (simp add: bs_def)
  moreover have l: "length bs = length (blocks (qfn p))" by (simp add: bs_def)
  ultimately have h: "u \<in> homes p'" using assms(3) unfolding homes_def p' by (simp, blast)
  have "homes p \<subseteq> homes p'" using sub same l by (simp add: homes_def p') blast
  then show "homed p p'" using h ne(2,3) by (auto simp: homed_def p' less_Suc_eq)
  have "memo_ok p'"
    using assms(1,2) memo_ok_ext [OF e] memo_typed_upd [of p' "entry_def p" s t u b] g v extD(4) [OF e] same
    by (simp add: memo_ok_def p' prom_ok_def)
  moreover have "lists_ok p'"
  proof (rule lists_ext [OF e])
    fix c x
    assume "c < length (blocks (qfn p))" "x \<in> set (params (blocks (qfn p') ! c))"
    then show "x \<in> set (params (blocks (qfn p) ! c)) \<or> x < length (vals (qfn p'))"
      using g v assms(3) by (auto simp: p' bs_def nth_list_update good_def split: if_splits)
  qed (use assms(1) same in \<open>simp_all add: prom_ok_def p'\<close>)
  ultimately show "prom_ok p'" using assms(1) static_ext [OF e] by (simp add: prom_ok_def)
  show "ptys p' c = ptys p c @ (if c = b then [t] else [])" if c: "c < length (blocks (qfn p))"
  proof -
    have "params (blocks (qfn p') ! c) = params (blocks (qfn p) ! c) @ (if c = b then [u] else [])"
      using assms(3) c by (simp add: p' bs_def nth_list_update)
    from ptys_ext [OF e _ c this] show ?thesis
      using assms(1) g v by (auto simp: prom_ok_def good_def)
  qed
qed

lemma push_edge_step:
  assumes "prom_ok p" "good p v t" "b < length (blocks (qfn p))" "q \<in> set (preds p ! b)" "is_join p b"
  shows "stepped t {(q, b)} p (push_edge (q, b) v p)"
proof -
  let ?p = "push_edge (q, b) v p"
  have e: "ext p ?p" by (simp add: push_edge_def ext_def)
  have "memo_ok ?p" using assms(1) by (intro memo_ext [OF e]) (simp_all add: prom_ok_def push_edge_def)
  moreover have "lists_ok ?p"
  proof -
    have k: "prelude_ok ?p" "params_ok ?p"
      using assms(1) prelude_ext [OF e] params_ext [OF e] by (simp_all add: prom_ok_def lists_ok_def push_edge_def)
    have "clean ?p v" using good_clean [OF assms(2)] clean_ext [OF e] by simp
    then have "edges_ok ?p"
      using assms(1,3-5) extD(1,6,8) [OF e] clean_ext [OF e]
      by (auto simp: edges_ok_def push_edge_def list_all_iff prom_ok_def lists_ok_def split: option.splits if_splits)
    with k show ?thesis by (simp add: lists_ok_def)
  qed
  moreover have "grows t {(q, b)} p ?p"
    unfolding grows_def
  proof (intro exI [of _ "\<lambda>b. 0"] allI impI conjI ballI)
    fix c r
    assume "c < length (blocks (qfn p))" "r \<in> set (preds p ! c)" "is_join p c"
    have "edge ?p (r, c) = edge p (r, c) @ (if (r, c) = (q, b) then [v] else [])"
      by (simp add: edge_def push_edge_def split: option.split)
    from etys_ext [OF e _ this]
    show "etys ?p (r, c) = etys p (r, c) @ replicate (0 + (if (r, c) \<in> {(q, b)} then 1 else 0)) t"
      using assms(1,2) by (auto simp: prom_ok_def good_def push_edge_def)
  qed (simp_all add: ptys_def push_edge_def)
  ultimately show ?thesis
    using assms(1) static_ext [OF e] e homed_same [of ?p p] by (simp add: stepped_def prom_ok_def push_edge_def)
qed

subsection \<open>The search\<close>

definition call_ok :: "ty \<Rightarrow> prom \<Rightarrow> reaching_call \<Rightarrow> bool" where
  "call_ok t p c = (case c of
     Entry_Of s b \<Rightarrow> vars p s = Some t \<and> b < length (blocks (qfn p))
   | Exit_Of s b \<Rightarrow> vars p s = Some t \<and> b < length (blocks (qfn p))
   | Edges_Of s b qs \<Rightarrow> vars p s = Some t \<and> b < length (blocks (qfn p)) \<and> is_join p b \<and> distinct qs \<and>
       set qs \<subseteq> set (preds p ! b))"

definition call_edges :: "reaching_call \<Rightarrow> (block_id \<times> block_id) set" where
  "call_edges c = (case c of Edges_Of s b qs \<Rightarrow> {(q, b) | q. q \<in> set qs} | _ \<Rightarrow> {})"

definition answer_ok :: "ty \<Rightarrow> reaching_call \<Rightarrow> prom \<Rightarrow> value_id \<times> prom \<Rightarrow> bool" where
  "answer_ok t c p r \<longleftrightarrow> stepped t (call_edges c) p (snd r) \<and> ((\<exists>s b qs. c = Edges_Of s b qs) \<or> good (snd r) (fst r) t)"

lemma call_ok_ext: "ext p p' \<Longrightarrow> call_ok t p c \<Longrightarrow> call_ok t p' c"
  using extD(1,4,6,8) [of p p'] by (auto simp: call_ok_def split: reaching_call.splits)

text \<open>The search as a big-step relation: one rule per way a call returns.\<close>

inductive reaches :: "reaching_call \<Rightarrow> prom \<Rightarrow> value_id \<times> prom \<Rightarrow> bool" where
  entry_memo: "entry_def p (s, b) = Some v \<Longrightarrow> reaches (Entry_Of s b) p (v, p)"
| entry_zero: "entry_def p (s, b) = None \<Longrightarrow> vars p s = Some t \<Longrightarrow> preds p ! b = [] \<Longrightarrow> zero_for s t p = (v, p1) \<Longrightarrow>
    reaches (Entry_Of s b) p (v, p1\<lparr>entry_def := (entry_def p1)((s, b) \<mapsto> v)\<rparr>)"
| entry_single: "entry_def p (s, b) = None \<Longrightarrow> vars p s = Some t \<Longrightarrow> preds p ! b = [q] \<Longrightarrow>
    reaches (Exit_Of s q) p (v, p1) \<Longrightarrow> reaches (Entry_Of s b) p (v, p1\<lparr>entry_def := (entry_def p1)((s, b) \<mapsto> v)\<rparr>)"
| entry_join: "entry_def p (s, b) = None \<Longrightarrow> vars p s = Some t \<Longrightarrow> is_join p b \<Longrightarrow> join_param s b t p = (v, p1) \<Longrightarrow>
    reaches (Edges_Of s b (preds p ! b)) p1 (u, p2) \<Longrightarrow> reaches (Entry_Of s b) p (v, p2)"
| exit_memo: "exit_def_memo p (s, b) = Some v \<Longrightarrow> reaches (Exit_Of s b) p (v, p)"
| exit_store: "exit_def_memo p (s, b) = None \<Longrightarrow> last_store p (s, b) = Some v \<Longrightarrow>
    reaches (Exit_Of s b) p (v, p\<lparr>exit_def_memo := (exit_def_memo p)((s, b) \<mapsto> v)\<rparr>)"
| exit_entry: "exit_def_memo p (s, b) = None \<Longrightarrow> last_store p (s, b) = None \<Longrightarrow> reaches (Entry_Of s b) p (v, p1) \<Longrightarrow>
    reaches (Exit_Of s b) p (v, p1\<lparr>exit_def_memo := (exit_def_memo p1)((s, b) \<mapsto> v)\<rparr>)"
| edges_done: "reaches (Edges_Of s b []) p (0, p)"
| edges_next: "reaches (Exit_Of s q) p (v, p1) \<Longrightarrow> reaches (Edges_Of s b qs) (push_edge (q, b) v p1) r \<Longrightarrow>
    reaches (Edges_Of s b (q # qs)) p r"

lemma length_one: "xs \<noteq> [] \<Longrightarrow> length xs = 1 \<Longrightarrow> xs = [hd xs]"
  by (cases xs) auto

lemma length_two: "xs \<noteq> [] \<Longrightarrow> length xs \<noteq> 1 \<Longrightarrow> 2 \<le> length xs"
  by (cases xs; cases "tl xs") auto

lemma reaching_reaches:
  assumes "reaching c p = Some r"
  shows "reaches c p r"
proof (rule reaching.raw_induct [OF _ assms])
  fix f c p r
  assume IH: "\<And>c p r. f c p = Some r \<Longrightarrow> reaches c p r"
    and body: "(case c of
        Entry_Of slot blk \<Rightarrow>
          (case entry_def p (slot, blk) of
             Some v \<Rightarrow> Some (v, p)
           | None \<Rightarrow>
               (case vars p slot of
                  None \<Rightarrow> None
                | Some type \<Rightarrow>
                    if preds p ! blk = [] then
                      let (v, p1) = zero_for slot type p
                      in Some (v, p1\<lparr>entry_def := (entry_def p1)((slot, blk) \<mapsto> v)\<rparr>)
                    else if length (preds p ! blk) = 1 then
                      Option.bind (f (Exit_Of slot (hd (preds p ! blk))) p)
                        (\<lambda>(v, p1). Some (v, p1\<lparr>entry_def := (entry_def p1)((slot, blk) \<mapsto> v)\<rparr>))
                    else
                      Option.bind (f (Edges_Of slot blk (preds p ! blk)) (snd (join_param slot blk type p)))
                        (\<lambda>(u, p1). Some (fst (join_param slot blk type p), p1))))
      | Exit_Of slot blk \<Rightarrow>
          (case exit_def_memo p (slot, blk) of
             Some v \<Rightarrow> Some (v, p)
           | None \<Rightarrow>
               (case last_store p (slot, blk) of
                  Some v \<Rightarrow> Some (v, p\<lparr>exit_def_memo := (exit_def_memo p)((slot, blk) \<mapsto> v)\<rparr>)
                | None \<Rightarrow>
                    Option.bind (f (Entry_Of slot blk) p)
                      (\<lambda>(v, p1). Some (v, p1\<lparr>exit_def_memo := (exit_def_memo p1)((slot, blk) \<mapsto> v)\<rparr>))))
      | Edges_Of slot blk ps \<Rightarrow>
          (case ps of
             [] \<Rightarrow> Some (0, p)
           | q # qs \<Rightarrow>
               Option.bind (f (Exit_Of slot q) p)
                 (\<lambda>(v, p1). f (Edges_Of slot blk qs) (push_edge (q, blk) v p1)))) = Some r"
  show "reaches c p r"
  proof (cases c)
    case (Entry_Of s b)
    show ?thesis
    proof (cases "entry_def p (s, b)")
      case None
      then obtain t where t: "vars p s = Some t" using body Entry_Of by (auto split: option.splits)
      consider "preds p ! b = []" | "preds p ! b \<noteq> []" "length (preds p ! b) = 1"
        | "preds p ! b \<noteq> []" "length (preds p ! b) \<noteq> 1" by blast
      then show ?thesis
      proof cases
        case 1
        then show ?thesis using body Entry_Of None t by (auto split: prod.splits intro: entry_zero)
      next
        case 2
        then obtain v p1 where "f (Exit_Of s (hd (preds p ! b))) p = Some (v, p1)"
            "r = (v, p1\<lparr>entry_def := (entry_def p1)((s, b) \<mapsto> v)\<rparr>)"
          using body Entry_Of None t by (auto simp: bind_eq_Some_conv)
        then show ?thesis using entry_single [OF None t length_one [OF 2]] IH Entry_Of by simp
      next
        case 3
        obtain v p1 where j: "join_param s b t p = (v, p1)" by fastforce
        then obtain u p2 where f: "f (Edges_Of s b (preds p ! b)) p1 = Some (u, p2)" "r = (v, p2)"
          using body Entry_Of None t 3 by (auto simp: bind_eq_Some_conv)
        have "is_join p b" using length_two [OF 3] by (simp add: is_join_def)
        from entry_join [OF None t this j IH [OF f(1)]] show ?thesis using f(2) Entry_Of by simp
      qed
    qed (use body Entry_Of in \<open>auto intro: entry_memo\<close>)
  next
    case (Exit_Of s b)
    show ?thesis
      using body Exit_Of IH by (auto simp: bind_eq_Some_conv split: option.splits intro: exit_memo exit_store exit_entry)
  next
    case (Edges_Of s b qs)
    show ?thesis
    proof (cases qs)
      case (Cons q qs')
      then obtain v p1 where "f (Exit_Of s q) p = Some (v, p1)" "f (Edges_Of s b qs') (push_edge (q, b) v p1) = Some r"
        using body Edges_Of by (auto simp: bind_eq_Some_conv)
      from edges_next [OF IH [OF this(1)] IH [OF this(2)]] show ?thesis using Edges_Of Cons by simp
    qed (use body Edges_Of in \<open>auto intro: edges_done\<close>)
  qed
qed

lemma reaches_reaching: "reaches c p r \<Longrightarrow> reaching c p = Some r"
  by (induction rule: reaches.induct) (subst reaching.simps, fastforce simp: is_join_def)+

lemma reaches_ok:
  assumes "reaches c p r" "call_ok t p c" "prom_ok p"
  shows "answer_ok t c p r"
  using assms
proof (induction arbitrary: t rule: reaches.induct)
  case (entry_memo p s b v)
  then have "memo_typed p (entry_def p)" "vars p s = Some t" by (simp_all add: prom_ok_def memo_ok_def call_ok_def)
  then have "good p v t" using entry_memo.hyps by (blast dest: memo_typedD)
  then show ?case using entry_memo.prems by (simp add: answer_ok_def call_edges_def stepped_refl)
next
  case (entry_zero p s b t' v p1)
  then have t: "t' = t" by (simp add: call_ok_def)
  have z: "stepped t {} p p1" "good p1 v t" using zero_for_step [of p s t v p1] entry_zero t by auto
  then have "stepped t {} p1 (p1\<lparr>entry_def := (entry_def p1)((s, b) \<mapsto> v)\<rparr>)"
    using entry_zero t extD(4) [OF steppedD(1) [OF z(1)]] by (intro memo_entry) (simp_all add: steppedD)
  from stepped_trans [OF z(1) this] z(2) show ?case by (simp add: answer_ok_def call_edges_def good_def)
next
  case (entry_single p s b t' q v p1)
  then have t: "vars p s = Some t" "b < length (blocks (qfn p))" by (auto simp: call_ok_def)
  have "q < length (blocks (qfn p))" using entry_single t by (auto simp: prom_ok_def static_ok_def)
  then have a: "stepped t {} p p1" "good p1 v t"
    using entry_single.IH [of t] entry_single.prems t by (simp_all add: call_ok_def answer_ok_def call_edges_def)
  then have "stepped t {} p1 (p1\<lparr>entry_def := (entry_def p1)((s, b) \<mapsto> v)\<rparr>)"
    using t extD(4) [OF steppedD(1) [OF a(1)]] by (intro memo_entry) (simp_all add: steppedD)
  from stepped_trans [OF a(1) this] a(2) show ?case by (simp add: answer_ok_def call_edges_def good_def)
next
  case (entry_join p s b t' v p1 u p2)
  then have t: "vars p s = Some t" "b < length (blocks (qfn p))" "t' = t" by (auto simp: call_ok_def)
  note j = join_param_step [OF entry_join.prems(2) t(1,2) entry_join.hyps(3)] entry_join.hyps(4) [unfolded t(3)]
  note j' = j(1-7) [OF j(9)]
  have pre: "distinct (preds p ! b)" using entry_join.prems t(2) by (simp add: prom_ok_def static_ok_def)
  have "call_ok t p1 (Edges_Of s b (preds p ! b))"
    using t entry_join.hyps(3) extD(1,4,6,8) [OF j'(1)] pre by (simp add: call_ok_def)
  then have s2: "stepped t {(q, b) | q. q \<in> set (preds p ! b)} p1 p2"
    using entry_join.IH j'(2) by (simp add: answer_ok_def call_edges_def)
  have e: "ext p p2" using ext_trans [OF j'(1) steppedD(1) [OF s2]] .
  have "grows t {} p p2"
  proof -
    obtain k where k: "\<forall>c < length (blocks (qfn p1)). ptys p2 c = ptys p1 c @ replicate (k c) t \<and>
        (0 < k c \<longrightarrow> is_join p1 c) \<and> (\<forall>q \<in> set (preds p1 ! c). is_join p1 c \<longrightarrow>
          etys p2 (q, c) = etys p1 (q, c) @ replicate (k c + (if (q, c) \<in> {(q, b) | q. q \<in> set (preds p ! b)} then 1 else 0)) t)"
      using s2 by (auto simp: stepped_def grows_def)
    have et: "etys p1 e = etys p e" for e
      using etys_ext [OF j'(1), of e "[]"] entry_join.prems(2) j'(6) by (simp add: prom_ok_def edge_def)
    note x = extD(1,6,8) [OF j'(1)]
    show ?thesis unfolding grows_def
    proof (intro exI [of _ "\<lambda>c. k c + (if c = b then 1 else 0)"] allI impI conjI ballI)
      fix c
      assume c: "c < length (blocks (qfn p))"
      show "ptys p2 c = ptys p c @ replicate (k c + (if c = b then 1 else 0)) t"
        using k c x j(8) [OF j(9) c] by (auto simp: replicate_append_same)
      show "is_join p c" if "0 < k c + (if c = b then 1 else 0)"
        using that k c x entry_join.hyps(3) by (auto split: if_splits)
      fix q
      assume "q \<in> set (preds p ! c)" "is_join p c"
      then show "etys p2 (q, c) = etys p (q, c) @ replicate (k c + (if c = b then 1 else 0) + (if (q, c) \<in> {} then 1 else 0)) t"
        using k c x et by auto
    qed
  qed
  then show ?case
    using e steppedD [OF s2] j' good_ext [OF steppedD(1) [OF s2] j'(3)] homed_trans [OF j'(7)] s2
    by (simp add: answer_ok_def stepped_def call_edges_def)
next
  case (exit_memo p s b v)
  then have "memo_typed p (exit_def_memo p)" "vars p s = Some t" by (simp_all add: prom_ok_def memo_ok_def call_ok_def)
  then have "good p v t" using exit_memo.hyps by (blast dest: memo_typedD)
  then show ?case using exit_memo.prems by (simp add: answer_ok_def call_edges_def stepped_refl)
next
  case (exit_store p s b v)
  then have t: "memo_typed p (last_store p)" "vars p s = Some t" by (simp_all add: prom_ok_def memo_ok_def call_ok_def)
  then have g: "good p v t" using exit_store.hyps by (blast dest: memo_typedD)
  then show ?case
    using memo_exit [OF exit_store.prems(2) t(2) g, of b] by (simp add: answer_ok_def call_edges_def good_def)
next
  case (exit_entry p s b v p1)
  then have t: "vars p s = Some t" by (simp add: call_ok_def)
  have a: "stepped t {} p p1" "good p1 v t"
    using exit_entry.IH [of t] exit_entry.prems by (simp_all add: call_ok_def answer_ok_def call_edges_def)
  then have "stepped t {} p1 (p1\<lparr>exit_def_memo := (exit_def_memo p1)((s, b) \<mapsto> v)\<rparr>)"
    using t extD(4) [OF steppedD(1) [OF a(1)]] by (intro memo_exit) (simp_all add: steppedD)
  from stepped_trans [OF a(1) this] a(2) show ?case by (simp add: answer_ok_def call_edges_def good_def)
next
  case (edges_done s b p)
  then show ?case by (simp add: answer_ok_def call_edges_def stepped_refl)
next
  case (edges_next s q p v p1 b qs r)
  then have t: "vars p s = Some t" "b < length (blocks (qfn p))" "is_join p b" "q \<in> set (preds p ! b)" "q \<notin> set qs" "distinct qs"
      "set qs \<subseteq> set (preds p ! b)"
    by (auto simp: call_ok_def)
  have "q < length (blocks (qfn p))" using edges_next.prems(2) t by (auto simp: prom_ok_def static_ok_def)
  then have a: "stepped t {} p p1" "good p1 v t"
    using edges_next.IH(1) [of t] edges_next.prems t by (simp_all add: call_ok_def answer_ok_def call_edges_def)
  note x = extD(1,4,6,8) [OF steppedD(1) [OF a(1)]]
  have s1: "stepped t {(q, b)} p1 (push_edge (q, b) v p1)"
    using a t x by (intro push_edge_step) (simp_all add: steppedD)
  note y = extD(1,4,6,8) [OF steppedD(1) [OF s1]]
  have s2: "stepped t {(q', b) | q'. q' \<in> set qs} (push_edge (q, b) v p1) (snd r)"
    using edges_next.IH(2) [of t] t x y steppedD(2) [OF s1] by (simp add: call_ok_def answer_ok_def call_edges_def)
  have "stepped t ({(q, b)} \<union> {(q', b) | q'. q' \<in> set qs}) p (snd r)"
    using stepped_trans [OF stepped_trans [OF a(1) s1] s2] t(5) by auto
  moreover have "{(q, b)} \<union> {(q', b) | q'. q' \<in> set qs} = call_edges (Edges_Of s b (q # qs))"
    by (auto simp: call_edges_def)
  ultimately show ?case by (simp add: answer_ok_def)
qed

text \<open>A reaching value has the type of its variable and is no address of a promoted slot; the state stays well formed.\<close>

lemma get_entry_ok:
  assumes "get_entry s b p = Some (v, p')" "prom_ok p" "vars p s = Some t" "b < length (blocks (qfn p))"
  shows "stepped t {} p p'" "good p' v t"
  using reaches_ok [OF reaching_reaches [OF assms(1) [unfolded get_entry_def]], of t] assms(2-)
  by (simp_all add: call_ok_def answer_ok_def call_edges_def)

end
