(* ===== verification/Mir_Promote_Walk.thy ===== *)
theory Mir_Promote_Walk
  imports Mir_Promote_Reach
begin

text \<open>
  Slot promotion up to the rewrite: which slots qualify, the state the walk starts from, and what the walk over all
  blocks establishes.
\<close>

subsection \<open>What the pass relies on\<close>

text \<open>
  Beside the verifier's checks: the value table is coherent, no value is void, slot addresses and loads have a
  result, stores have none.
\<close>

definition promotable :: "func \<Rightarrow> bool" where
  "promotable fn \<longleftrightarrow> coherent fn \<and> (\<forall>d \<in> set (vals fn). vd_type d \<noteq> Ty_Void) \<and>
     (\<forall>i \<in> set (all_insts fn). oper i \<in> {Op_SlotAddr, Op_Load} \<longrightarrow> result i \<noteq> NO_VALUE) \<and>
     (\<forall>i \<in> set (all_insts fn). oper i = Op_Store \<longrightarrow> result i = NO_VALUE)"

lemma in_all_insts_nth:
  "i \<in> set (all_insts fn) \<longleftrightarrow>
     (\<exists>b k. b < length (blocks fn) \<and> k < length (insts (blocks fn ! b)) \<and> i = insts (blocks fn ! b) ! k)"
  unfolding in_all_insts by (metis in_set_conv_nth)

lemma promotable_result:
  assumes "promotable fn" "i \<in> set (all_insts fn)" "oper i \<in> {Op_SlotAddr, Op_Load}"
  shows "result i < length (vals fn)" "vd_type (vals fn ! result i) = itype i"
proof -
  obtain b k where "b < length (blocks fn)" "k < length (insts (blocks fn ! b))" "i = insts (blocks fn ! b) ! k"
    using assms(2) by (auto simp: in_all_insts_nth)
  then have "result_ok fn b k" "result i \<noteq> NO_VALUE" "insts (blocks fn ! b) ! k = i"
    using assms by (auto simp: promotable_def coherent_def)
  then show "result i < length (vals fn)" "vd_type (vals fn ! result i) = itype i"
    by (auto simp: result_ok_def Let_def)
qed

lemma promotable_unique:
  assumes "promotable fn" "i \<in> set (all_insts fn)" "oper i \<in> {Op_SlotAddr, Op_Load}" "j \<in> set (all_insts fn)"
    "result j = result i"
  shows "j = i"
proof -
  have pos: "\<exists>b k. b < length (blocks fn) \<and> k < length (insts (blocks fn ! b)) \<and> x = insts (blocks fn ! b) ! k \<and>
      vd_block (vals fn ! result x) = b \<and> vd_index (vals fn ! result x) = k"
    if x0: "x \<in> set (all_insts fn)" "result x \<noteq> NO_VALUE" for x
  proof -
    obtain b k where x: "b < length (blocks fn)" "k < length (insts (blocks fn ! b))" "x = insts (blocks fn ! b) ! k"
      using x0(1) by (auto simp: in_all_insts_nth)
    then have "result_ok fn b k" using assms(1) by (auto simp: promotable_def coherent_def)
    then show ?thesis using x x0(2) by (auto simp: result_ok_def Let_def)
  qed
  have "result i \<noteq> NO_VALUE" using assms by (auto simp: promotable_def)
  then show ?thesis using pos [OF assms(2)] pos [OF assms(4)] assms(5) by auto
qed

subsection \<open>Qualified slots\<close>

lemma fold_track:
  assumes "fold (track_addr cand) is m v = Some s"
  shows "m v = Some s \<or> (\<exists>i \<in> set is. oper i = Op_SlotAddr \<and> result i = v \<and> opa i = s)"
  using assms
proof (induction "is" arbitrary: m)
  case (Cons i "is")
  from Cons.IH [of "track_addr cand i m"] Cons.prems show ?case
    by (auto simp: track_addr_def split: if_splits)
qed simp

lemma addr_to_slot_from:
  "addr_to_slot fn v = Some s \<Longrightarrow> \<exists>i \<in> set (all_insts fn). oper i = Op_SlotAddr \<and> result i = v \<and> opa i = s"
  using fold_track [of _ "all_insts fn" Map.empty v s] by (auto simp: addr_to_slot_def)

lemma fold_track_other:
  "\<forall>i \<in> set is. result i \<noteq> v \<Longrightarrow> fold (track_addr cand) is m v = m v"
  by (induction "is" arbitrary: m) (auto simp: track_addr_def)

lemma addr_to_slot_of:
  assumes "promotable fn" "i \<in> set (all_insts fn)" "oper i = Op_SlotAddr" "start_candidates fn (opa i) \<noteq> None"
  shows "addr_to_slot fn (result i) = Some (opa i)"
proof -
  obtain xs ys where l: "all_insts fn = xs @ i # ys" "i \<notin> set ys" using split_list_last [OF assms(2)] by blast
  have "\<forall>j \<in> set ys. result j \<noteq> result i"
    using promotable_unique [OF assms(1,2)] assms(3) l by auto
  then show ?thesis
    using assms(3,4) fold_track_other [of ys "result i"] unfolding addr_to_slot_def l(1) by (simp add: track_addr_def)
qed

text \<open>Scanning only disqualifies: types, once noted, stay or the slot is dropped.\<close>

definition narrows :: "candidates \<Rightarrow> candidates \<Rightarrow> bool" where
  "narrows c c' \<longleftrightarrow> (\<forall>s. c' s = None \<or> (c s \<noteq> None \<and> (\<forall>t. c s = Some (Some t) \<longrightarrow> c' s = Some (Some t))))"

lemma narrows_refl [simp]: "narrows c c"
  by (auto simp: narrows_def)

lemma narrows_trans: "narrows a b \<Longrightarrow> narrows b c \<Longrightarrow> narrows a c"
  unfolding narrows_def by (metis option.collapse)

lemma narrows_None: "narrows c c' \<Longrightarrow> c s = None \<Longrightarrow> c' s = None"
  by (auto simp: narrows_def)

lemma disqualify_narrows: "narrows c (disqualify addrs v c)"
  by (auto simp: disqualify_def narrows_def split: option.split)

lemma note_access_narrows: "narrows c (note_access pb fn s t c)"
  by (auto simp: note_access_def narrows_def Let_def split: option.split)

lemma fold_narrows: "(\<And>x c. narrows c (f x c)) \<Longrightarrow> narrows c (fold f xs c)"
  by (induction xs arbitrary: c) (auto intro: narrows_trans)

lemma scan_access_narrows: "narrows c (scan_access pb fn addrs i c)"
  using narrows_trans [OF disqualify_narrows note_access_narrows]
  by (auto simp: scan_access_def note_access_narrows intro: fold_narrows disqualify_narrows)

definition settled :: "func \<Rightarrow> (value_id \<rightharpoonup> nat) \<Rightarrow> inst \<Rightarrow> candidates \<Rightarrow> bool" where
  "settled fn addrs i c \<longleftrightarrow>
     (if oper i = Op_Load \<and> addrs (opa i) \<noteq> None
      then c (the (addrs (opa i))) \<in> {None, Some (Some (itype i))}
      else if oper i = Op_Store \<and> addrs (opa i) \<noteq> None
      then c (the (addrs (opa i))) \<in> {None, Some (Some (vd_type (vals fn ! opb i)))} \<and>
           (\<forall>s. addrs (opb i) = Some s \<longrightarrow> c s = None)
      else \<forall>v \<in> set (value_operands i). \<forall>s. addrs v = Some s \<longrightarrow> c s = None)"

lemma settled_narrows: "narrows c c' \<Longrightarrow> settled fn addrs i c \<Longrightarrow> settled fn addrs i c'"
proof -
  assume n: "narrows c c'" and i: "settled fn addrs i c"
  have none: "c' s = None" if "c s = None" for s using narrows_None [OF n that] .
  have typed: "c' s = None \<or> c' s = Some (Some t)" if "c s = None \<or> c s = Some (Some t)" for s t
    using that n by (auto simp: narrows_def)
  show ?thesis using i none typed unfolding settled_def by (auto split: if_splits)
qed

lemma fold_disqualify:
  "v \<in> set vs \<Longrightarrow> addrs v = Some s \<Longrightarrow> fold (disqualify addrs) vs c s = None"
proof (induction vs arbitrary: c)
  case (Cons w vs)
  show ?case
  proof (cases "v = w")
    case True
    have "disqualify addrs w c s = None" using True Cons.prems by (simp add: disqualify_def)
    then show ?thesis using narrows_None [OF fold_narrows [OF disqualify_narrows]] by simp
  qed (use Cons in simp)
qed simp

lemma scan_access_settles: "settled fn addrs i (scan_access pb fn addrs i c)"
proof -
  have "note_access pb fn s t c s \<in> {None, Some (Some t)}" for s t c
    by (auto simp: note_access_def Let_def split: option.split)
  moreover have "note_access pb fn s t (disqualify addrs v c) r = None" if "addrs v = Some r" for s t v r
    using that narrows_None [OF note_access_narrows] by (simp add: disqualify_def)
  ultimately show ?thesis
    using fold_disqualify [of _ "value_operands i" addrs] unfolding settled_def scan_access_def by auto
qed

lemma fold_settles:
  "i \<in> set is \<Longrightarrow> settled fn addrs i (fold (scan_access pb fn addrs) is c)"
proof (induction "is" arbitrary: c)
  case (Cons j "is")
  show ?case
  proof (cases "i = j")
    case True
    then show ?thesis
      using settled_narrows [OF fold_narrows [OF scan_access_narrows] scan_access_settles] by simp
  qed (use Cons in simp)
qed simp

lemma candidates_settled: "i \<in> set (all_insts fn) \<Longrightarrow> settled fn (addr_to_slot fn) i (candidates_of pb fn)"
  unfolding candidates_of_def by (rule fold_settles)

lemma candidates_start:
  assumes "candidates_of pb fn s \<noteq> None"
  shows "start_candidates fn s \<noteq> None"
proof -
  have "narrows (start_candidates fn) (candidates_of pb fn)"
    unfolding candidates_of_def by (rule fold_narrows) (rule scan_access_narrows)
  then show ?thesis using narrows_None assms by metis
qed

lemma candidates_range: "candidates_of pb fn s \<noteq> None \<Longrightarrow> s < length (slots fn)"
  using candidates_start [of pb fn s] by (auto simp: start_candidates_def split: if_splits)

text \<open>The types of qualified slots are those of loads and of stored values.\<close>

lemma note_access_types:
  "note_access pb fn s t c r = Some (Some u) \<Longrightarrow> c r = Some (Some u) \<or> u = t"
  by (auto simp: note_access_def Let_def split: option.splits if_splits)

lemma disqualify_types: "disqualify addrs v c r = Some x \<Longrightarrow> c r = Some x"
  by (auto simp: disqualify_def split: option.splits if_splits)

lemma fold_disqualify_types: "fold (disqualify addrs) vs c r = Some x \<Longrightarrow> c r = Some x"
  by (induction vs arbitrary: c) (auto dest: disqualify_types)

lemma scan_access_types:
  assumes "scan_access pb fn addrs i c r = Some (Some u)"
  shows "c r = Some (Some u) \<or> oper i = Op_Load \<and> u = itype i \<or> oper i = Op_Store \<and> u = vd_type (vals fn ! opb i)"
proof -
  consider "oper i = Op_Load" "addrs (opa i) \<noteq> None" | "oper i = Op_Store" "addrs (opa i) \<noteq> None"
    | "\<not> (oper i = Op_Load \<and> addrs (opa i) \<noteq> None)" "\<not> (oper i = Op_Store \<and> addrs (opa i) \<noteq> None)" by blast
  then show ?thesis
  proof cases
    case 1
    then show ?thesis using assms note_access_types [of pb fn _ "itype i" c r u] by (auto simp: scan_access_def)
  next
    case 2
    then have "scan_access pb fn addrs i c = note_access pb fn (the (addrs (opa i))) (vd_type (vals fn ! opb i))
        (disqualify addrs (opb i) c)"
      by (simp add: scan_access_def)
    then show ?thesis
      using assms 2(1) note_access_types [of pb fn _ "vd_type (vals fn ! opb i)" "disqualify addrs (opb i) c" r u]
        disqualify_types [of addrs "opb i" c r "Some u"] by auto
  next
    case 3
    then have "scan_access pb fn addrs i c = fold (disqualify addrs) (value_operands i) c"
      by (auto simp: scan_access_def)
    then show ?thesis using assms fold_disqualify_types [of addrs "value_operands i" c r] by simp
  qed
qed

lemma fold_scan_types:
  assumes "fold (scan_access pb fn addrs) is c r = Some (Some u)"
  shows "c r = Some (Some u) \<or> (\<exists>i \<in> set is. oper i = Op_Load \<and> u = itype i \<or>
    oper i = Op_Store \<and> u = vd_type (vals fn ! opb i))"
  using assms
proof (induction "is" arbitrary: c)
  case (Cons i "is")
  then show ?case using scan_access_types [of pb fn addrs i c r u] by fastforce
qed simp

lemma load_wf: "inst_wf m fn sg i \<Longrightarrow> oper i = Op_Load \<Longrightarrow> itype i \<noteq> Ty_Void"
  by (erule inst_wf.cases) (auto simp: op_order conversions_def)

lemma store_wf: "inst_wf m fn sg i \<Longrightarrow> oper i = Op_Store \<Longrightarrow> value_ok fn (opb i)"
  by (erule inst_wf.cases) (auto simp: op_order conversions_def)

definition insts_wf :: "mir_module \<Rightarrow> func \<Rightarrow> bool" where
  "insts_wf m fn \<longleftrightarrow> (\<forall>i \<in> set (all_insts fn). inst_wf m fn (signatures m ! fsignature fn) i)"

lemma function_insts_wf: "function_wf m fn \<Longrightarrow> has_body fn \<Longrightarrow> insts_wf m fn"
  by (auto simp: function_wf_def block_wf_def insts_wf_def in_all_insts)

lemma var_types_not_void:
  assumes "promotable fn" "insts_wf m fn" "var_types (candidates_of pb fn) s = Some t"
  shows "t \<noteq> Ty_Void"
proof -
  have "candidates_of pb fn s = Some (Some t)" using assms(3) by (auto simp: var_types_def split: option.splits)
  then obtain i where i: "i \<in> set (all_insts fn)"
      "oper i = Op_Load \<and> t = itype i \<or> oper i = Op_Store \<and> t = vd_type (vals fn ! opb i)"
    using fold_scan_types [of pb fn "addr_to_slot fn" "all_insts fn" "start_candidates fn" s t]
    by (auto simp: candidates_of_def start_candidates_def split: if_splits)
  from i(1) have wf: "inst_wf m fn (signatures m ! fsignature fn) i" using assms(2) by (simp add: insts_wf_def)
  have "vd_type (vals fn ! v) \<noteq> Ty_Void" if "value_ok fn v" for v
    using assms(1) that by (auto simp: promotable_def value_ok_def)
  note nv = this
  from i(2) show ?thesis
  proof
    assume "oper i = Op_Load \<and> t = itype i"
    then show ?thesis using load_wf [OF wf] by simp
  next
    assume "oper i = Op_Store \<and> t = vd_type (vals fn ! opb i)"
    then show ?thesis using store_wf [OF wf] nv [of "opb i"] by simp
  qed
qed

subsection \<open>The starting state\<close>

lemma promoted_addrs_iff:
  "promoted_addrs fn cand v = Some s \<longleftrightarrow> addr_to_slot fn v = Some s \<and> cand s \<noteq> None"
  by (auto simp: promoted_addrs_def split: option.splits)

lemma promoted_load:
  assumes "i \<in> set (all_insts fn)" "oper i = Op_Load" "promoted_addrs fn (candidates_of pb fn) (opa i) = Some s"
  shows "var_types (candidates_of pb fn) s = Some (itype i)"
  using candidates_settled [OF assms(1), of pb] assms(2,3)
  by (auto simp: settled_def promoted_addrs_iff var_types_def)

lemma promoted_store:
  assumes "i \<in> set (all_insts fn)" "oper i = Op_Store" "promoted_addrs fn (candidates_of pb fn) (opa i) = Some s"
  shows "var_types (candidates_of pb fn) s = Some (vd_type (vals fn ! opb i))"
    "promoted_addrs fn (candidates_of pb fn) (opb i) = None"
proof -
  have "settled fn (addr_to_slot fn) i (candidates_of pb fn)" by (rule candidates_settled [OF assms(1)])
  then have c: "candidates_of pb fn s = Some (Some (vd_type (vals fn ! opb i)))"
      "\<forall>r. addr_to_slot fn (opb i) = Some r \<longrightarrow> candidates_of pb fn r = None"
    using assms(2,3) by (auto simp: settled_def promoted_addrs_iff)
  show "var_types (candidates_of pb fn) s = Some (vd_type (vals fn ! opb i))" using c(1) by (simp add: var_types_def)
  show "promoted_addrs fn (candidates_of pb fn) (opb i) = None"
    using c(2) by (auto simp: promoted_addrs_def split: option.split)
qed

lemma fold_note_store:
  assumes "fold (note_store addrs vs b) is m k = Some v"
  shows "m k = Some v \<or> (\<exists>i \<in> set is. oper i = Op_Store \<and> addrs (opa i) = Some (fst k) \<and> opb i = v)"
  using assms
proof (induction "is" arbitrary: m)
  case (Cons i "is")
  from Cons.IH [of "note_store addrs vs b i m"] Cons.prems show ?case
    by (auto simp: note_store_def split: if_splits option.splits)
qed simp

lemma fold_last_stores:
  assumes "fold (\<lambda>b. fold (note_store addrs vs b) (insts (blocks fn ! b))) bs m k = Some v"
  shows "m k = Some v \<or> (\<exists>b \<in> set bs. \<exists>i \<in> set (insts (blocks fn ! b)). oper i = Op_Store \<and> addrs (opa i) = Some (fst k) \<and> opb i = v)"
  using assms
proof (induction bs arbitrary: m)
  case (Cons b bs)
  from Cons.IH [of "fold (note_store addrs vs b) (insts (blocks fn ! b)) m"] Cons.prems
  show ?case using fold_note_store [of addrs vs b "insts (blocks fn ! b)" m k v] by auto
qed simp

lemma last_stores_from:
  assumes "last_stores addrs vs fn (s, b) = Some v"
  shows "\<exists>i \<in> set (all_insts fn). oper i = Op_Store \<and> addrs (opa i) = Some s \<and> opb i = v"
proof -
  obtain c i where "c < length (blocks fn)" "i \<in> set (insts (blocks fn ! c))" "oper i = Op_Store" "addrs (opa i) = Some s"
      "opb i = v"
    using fold_last_stores [of addrs vs fn "[0..<length (blocks fn)]" Map.empty "(s, b)" v] assms
    by (auto simp: last_stores_def)
  then show ?thesis by (intro bexI [of _ i]) (auto simp: in_all_insts)
qed

lemma distinct_remdups_adj_sorted: "sorted (xs :: nat list) \<Longrightarrow> distinct (remdups_adj xs)"
  by (induction xs rule: remdups_adj.induct) (auto simp: less_le)

lemma pred_lists_nth:
  assumes "t < length (blocks fn)"
  shows "distinct (pred_lists fn ! t)" "set (pred_lists fn ! t) = {b. b < length (blocks fn) \<and> t \<in> set (block_targets fn b)}"
  using assms distinct_remdups_adj_sorted [OF sorted_sort]
  by (auto simp: pred_lists_def count_list_0_iff)

lemma start_prom_ok:
  assumes "promotable fn" "insts_wf m fn"
  shows "prom_ok (start_prom (candidates_of pb fn) fn)"
proof -
  let ?c = "candidates_of pb fn"
  let ?p = "start_prom ?c fn"
  have f: "qfn ?p = fn" "vars ?p = var_types ?c" "addr_values ?p = promoted_addrs fn ?c" "preds ?p = pred_lists fn"
      "entry_def ?p = Map.empty" "exit_def_memo ?p = Map.empty" "zero_consts ?p = Map.empty" "edge_args ?p = Map.empty"
      "entry_prelude ?p = []" "last_store ?p = last_stores (promoted_addrs fn ?c) (var_types ?c) fn"
    by (simp_all add: start_prom_def Let_def)
  have addr: "v < length (vals fn)" if "promoted_addrs fn ?c v = Some s" for v s
    using addr_to_slot_from [of fn v s] promotable_result(1) [OF assms(1)] that by (auto simp: promoted_addrs_iff)
  have "static_ok ?p"
    using pred_lists_nth [of _ fn] var_types_not_void [OF assms] addr
    by (auto simp: static_ok_def f) (simp add: pred_lists_def)
  moreover have "memo_typed ?p (last_store ?p)"
    unfolding memo_typed_def f
  proof (intro allI impI)
    fix s b v t
    assume t: "var_types ?c s = Some t" and v: "last_stores (promoted_addrs fn ?c) (var_types ?c) fn (s, b) = Some v"
    obtain i where i: "i \<in> set (all_insts fn)" "oper i = Op_Store" "promoted_addrs fn ?c (opa i) = Some s" "opb i = v"
      using last_stores_from [OF v] by blast
    have "value_ok fn v" using store_wf [of m fn _ i] i assms(2) by (auto simp: insts_wf_def)
    then show "good ?p v t" using promoted_store [OF i(1-3)] i(4) t by (auto simp: good_def f value_ok_def)
  qed
  then have "memo_ok ?p" by (simp add: memo_ok_def memo_typed_def f)
  moreover have "lists_ok ?p"
    using assms(1) by (auto simp: lists_ok_def prelude_ok_def params_ok_def edges_ok_def f promotable_def coherent_def
        param_ok_def Let_def in_set_conv_nth)
  ultimately show ?thesis by (simp add: prom_ok_def)
qed

subsection \<open>The walk\<close>

definition remap_good :: "prom \<Rightarrow> bool" where
  "remap_good p \<longleftrightarrow> (\<forall>(k, w) \<in> set (qremap p). k < length (vals (qfn p)) \<and> good p w (vty p k))"

text \<open>Every join has gained as many parameters as each incoming edge has gained arguments, of the same types.\<close>

definition balanced :: "func \<Rightarrow> prom \<Rightarrow> bool" where
  "balanced fn p \<longleftrightarrow> (\<forall>b < length (blocks fn). \<exists>A.
     ptys p b = map (\<lambda>v. vd_type (vals fn ! v)) (params (blocks fn ! b)) @ A \<and> (A \<noteq> [] \<longrightarrow> is_join p b) \<and>
     (\<forall>q \<in> set (preds p ! b). is_join p b \<longrightarrow> etys p (q, b) = A))"

definition walking :: "nat \<Rightarrow> func \<Rightarrow> prom \<Rightarrow> bool" where
  "walking pb fn p \<longleftrightarrow> prom_ok p \<and> extends_func fn (qfn p) \<and> vars p = var_types (candidates_of pb fn) \<and>
     addr_values p = promoted_addrs fn (candidates_of pb fn) \<and> preds p = pred_lists fn \<and> remap_good p \<and> balanced fn p \<and>
     {length (vals fn)..<length (vals (qfn p))} \<subseteq> homes p"

definition current_ok :: "prom \<Rightarrow> (nat \<rightharpoonup> value_id) \<Rightarrow> bool" where
  "current_ok p cur \<longleftrightarrow> (\<forall>s v t. cur s = Some v \<longrightarrow> vars p s = Some t \<longrightarrow> good p v t)"

definition promoted_access :: "(value_id \<rightharpoonup> nat) \<Rightarrow> op \<Rightarrow> inst \<Rightarrow> bool" where
  "promoted_access addrs x i \<longleftrightarrow> oper i = x \<and> addrs (opa i) \<noteq> None"

definition dies :: "(value_id \<rightharpoonup> nat) \<Rightarrow> inst \<Rightarrow> bool" where
  "dies addrs i \<longleftrightarrow> oper i = Op_SlotAddr \<and> addrs (result i) \<noteq> None \<or> promoted_access addrs Op_Load i \<or>
     promoted_access addrs Op_Store i"

definition load_results :: "(value_id \<rightharpoonup> nat) \<Rightarrow> inst list \<Rightarrow> value_id set" where
  "load_results addrs is = result ` {i \<in> set is. promoted_access addrs Op_Load i}"

lemma load_results_Nil [simp]: "load_results addrs [] = {}"
  by (simp add: load_results_def)

lemma load_results_append: "load_results addrs (is @ js) = load_results addrs is \<union> load_results addrs js"
  by (auto simp: load_results_def)

lemma load_results_Cons:
  "load_results addrs (i # is) = (if promoted_access addrs Op_Load i then {result i} else {}) \<union> load_results addrs is"
  by (auto simp: load_results_def)

lemma resolve_good:
  assumes "resolve (qremap p) v = Some w" "remap_good p" "good p v t"
  shows "good p w t"
proof -
  have "good p v t \<longrightarrow> good p w t"
    using assms(1)
  proof (rule resolve_induct)
    fix v u w
    assume "map_of (qremap p) v = Some u" and IH: "good p u t \<longrightarrow> good p w t"
    then have "good p u (vty p v)" using assms(2) by (auto simp: remap_good_def dest!: map_of_SomeD)
    then show "good p v t \<longrightarrow> good p w t" using IH by (auto simp: good_def)
  qed simp
  with assms(3) show ?thesis by simp
qed

lemma current_ext: "ext p p' \<Longrightarrow> current_ok p cur \<Longrightarrow> current_ok p' cur"
  using extD(4) [of p p'] good_ext [of p p'] by (simp add: current_ok_def)

lemma remap_ext:
  assumes "ext p p'" "remap_good p" "qremap p' = qremap p"
  shows "remap_good p'"
  using assms(2,3) extD(2,3) [OF assms(1)] good_ext [OF assms(1)] by (fastforce simp: remap_good_def)

lemma balanced_grows:
  assumes "balanced fn p" "grows t {} p p'" "ext p p'" "length (blocks (qfn p)) = length (blocks fn)"
  shows "balanced fn p'"
  unfolding balanced_def
proof (intro allI impI)
  fix b
  assume b: "b < length (blocks fn)"
  obtain A where A: "ptys p b = map (\<lambda>v. vd_type (vals fn ! v)) (params (blocks fn ! b)) @ A" "A \<noteq> [] \<longrightarrow> is_join p b"
      "\<forall>q \<in> set (preds p ! b). is_join p b \<longrightarrow> etys p (q, b) = A"
    using assms(1) b by (auto simp: balanced_def)
  obtain k where "ptys p' b = ptys p b @ replicate k t" "0 < k \<longrightarrow> is_join p b"
      "\<forall>q \<in> set (preds p ! b). is_join p b \<longrightarrow> etys p' (q, b) = etys p (q, b) @ replicate k t"
    using assms(2,4) b by (auto simp: grows_def)
  then show "\<exists>A. ptys p' b = map (\<lambda>v. vd_type (vals fn ! v)) (params (blocks fn ! b)) @ A \<and> (A \<noteq> [] \<longrightarrow> is_join p' b) \<and>
      (\<forall>q \<in> set (preds p' ! b). is_join p' b \<longrightarrow> etys p' (q, b) = A)"
    using A extD(6,8) [OF assms(3)] by (intro exI [of _ "A @ replicate k t"]) auto
qed

lemma walking_stepped:
  assumes "walking pb fn p" "stepped t {} p p'"
  shows "walking pb fn p'"
proof -
  have l: "length (blocks (qfn p)) = length (blocks fn)"
    using assms(1) extends_funcD(1) [of fn "qfn p"] by (simp add: walking_def)
  note d = steppedD [OF assms(2)]
  have "extends_func fn (qfn p')" using assms(1) d(1) extends_func_trans by (auto simp: walking_def ext_def)
  moreover have "balanced fn p'"
    using balanced_grows [OF _ _ d(1) l, of t] assms by (simp add: walking_def stepped_def)
  moreover have "{length (vals fn)..<length (vals (qfn p'))} \<subseteq> homes p'"
    using assms by (fastforce simp: walking_def stepped_def homed_def not_le [symmetric])
  ultimately show ?thesis
    using assms(1) d remap_ext [OF d(1)] extD(4-6) [OF d(1)] by (simp add: walking_def)
qed

lemma remap_push:
  assumes "walking pb fn p" "good p v (vty p k)" "k < length (vals (qfn p))"
  shows "walking pb fn (p\<lparr>qremap := (k, v) # qremap p\<rparr>)"
proof -
  let ?p = "p\<lparr>qremap := (k, v) # qremap p\<rparr>"
  have e: "ext p ?p" by (simp add: ext_def)
  have "prom_ok ?p"
    using assms(1) static_ext [OF e] memo_ext [OF e] lists_ext [OF e] by (simp add: walking_def prom_ok_def)
  moreover have "grows Ty_Void {} p ?p"
    using assms(1) by (intro grows_same [OF e]) (simp_all add: walking_def prom_ok_def)
  then have "balanced fn ?p"
    using assms(1) balanced_grows [OF _ _ e, of fn] extends_funcD(1) [of fn "qfn p"] by (simp add: walking_def)
  moreover have "remap_good ?p" using assms by (auto simp: walking_def remap_good_def good_def)
  ultimately show ?thesis using assms(1) by (simp add: walking_def homes_def)
qed

lemma walk_inst_ok:
  assumes w: "walk_inst b i (cur, p) = Some (d, cur', p')" and p: "walking pb fn p" "current_ok p cur"
    and i: "i \<in> set (all_insts fn)" "b < length (blocks fn)" and fn: "promotable fn" "insts_wf m fn"
  shows "walking pb fn p' \<and> ext p p' \<and> current_ok p' cur' \<and> last_store p' = last_store p \<and> d = dies (addr_values p) i \<and>
    fst ` set (qremap p') = fst ` set (qremap p) \<union> load_results (addr_values p) [i]"
proof -
  let ?a = "addr_values p"
  have vs: "vars p = var_types (candidates_of pb fn)" "?a = promoted_addrs fn (candidates_of pb fn)"
    using p(1) by (simp_all add: walking_def)
  have fe: "extends_func fn (qfn p)" and pok: "prom_ok p" and rg: "remap_good p" using p(1) by (simp_all add: walking_def)
  consider (slot) "oper i = Op_SlotAddr" "?a (result i) \<noteq> None"
    | (load) s where "oper i = Op_Load" "?a (opa i) = Some s"
    | (store) s where "oper i = Op_Store" "?a (opa i) = Some s"
    | (other) "\<not> dies ?a i"
    unfolding dies_def promoted_access_def by (metis option.exhaust)
  then show ?thesis
  proof cases
    case slot
    then show ?thesis using w p by (auto simp: walk_inst_def dies_def load_results_def promoted_access_def)
  next
    case load
    have t: "vars p s = Some (itype i)" using promoted_load [OF i(1) load(1)] load(2) vs by simp
    have res: "result i < length (vals fn)" "vd_type (vals fn ! result i) = itype i"
      using promotable_result [OF fn(1) i(1)] load(1) by simp_all
    obtain v p1 where v: "(case cur s of Some v \<Rightarrow> Some (v, p) | None \<Rightarrow> get_entry s b p) = Some (v, p1)"
        and r: "d = True" "cur' = cur" "p' = p1\<lparr>qremap := (result i, v) # qremap p1\<rparr>"
      using w load by (auto simp: walk_inst_def bind_eq_Some_conv)
    have 1: "stepped (itype i) {} p p1 \<and> good p1 v (itype i)"
    proof (cases "cur s")
      case (Some u)
      then show ?thesis using v p(2) t pok by (auto simp: current_ok_def stepped_refl)
    next
      case None
      then show ?thesis using get_entry_ok [of s b p v p1 "itype i"] v t pok i(2) extends_funcD(1) [OF fe] by simp
    qed
    then have w1: "walking pb fn p1" using walking_stepped [OF p(1)] by blast
    have e1: "ext p p1" and same: "last_store p1 = last_store p" "qremap p1 = qremap p" using steppedD 1 by blast+
    have fe1: "extends_func fn (qfn p1)" using w1 by (simp add: walking_def)
    have "vty p1 (result i) = itype i" "result i < length (vals (qfn p1))"
      using extends_funcD(6,7) [OF fe1] res by simp_all
    then have w': "walking pb fn p'" using remap_push [OF w1] 1 r(3) by simp
    have e': "ext p p'" using e1 by (simp add: r(3) ext_def)
    show ?thesis
      using w' e' current_ext [OF e' p(2)] r same load
      by (auto simp: dies_def promoted_access_def load_results_def)
  next
    case store
    have st: "vars p s = Some (vd_type (vals fn ! opb i))" "?a (opb i) = None"
      using promoted_store [OF i(1) store(1)] store(2) vs by simp_all
    have "value_ok fn (opb i)" using store_wf store(1) i(1) fn(2) by (auto simp: insts_wf_def)
    then have g: "good p (opb i) (vd_type (vals fn ! opb i))"
      using st(2) extends_funcD(6,7) [OF fe] by (auto simp: good_def value_ok_def)
    obtain v where v: "resolve (qremap p) (opb i) = Some v" and r: "d = True" "cur' = cur(s \<mapsto> v)" "p' = p"
      using w store st(1) by (auto simp: walk_inst_def bind_eq_Some_conv)
    have "current_ok p (cur(s \<mapsto> v))"
      using resolve_good [OF v rg g] p(2) st(1) by (auto simp: current_ok_def)
    then show ?thesis using p(1) r store by (auto simp: dies_def promoted_access_def load_results_def)
  next
    case other
    then have "\<not> (oper i = Op_SlotAddr \<and> ?a (result i) \<noteq> None)" "\<not> (oper i = Op_Load \<and> ?a (opa i) \<noteq> None)"
        "\<not> (oper i = Op_Store \<and> ?a (opa i) \<noteq> None)"
      by (auto simp: dies_def promoted_access_def)
    then have "d = False" "cur' = cur" "p' = p" using w by (auto simp: walk_inst_def)
    then show ?thesis using p other by (auto simp: dies_def load_results_def)
  qed
qed

lemma walk_insts_ok:
  assumes "walk_insts b is (cur, p) = Some (ds, cur', p')" "walking pb fn p" "current_ok p cur"
    "set is \<subseteq> set (all_insts fn)" "b < length (blocks fn)" "promotable fn" "insts_wf m fn"
  shows "walking pb fn p' \<and> ext p p' \<and> last_store p' = last_store p \<and> ds = map (dies (addr_values p)) is \<and>
    fst ` set (qremap p') = fst ` set (qremap p) \<union> load_results (addr_values p) is"
  using assms
proof (induction "is" arbitrary: cur p ds)
  case (Cons i "is")
  obtain d cur1 p1 where 1: "walk_inst b i (cur, p) = Some (d, cur1, p1)"
    using Cons.prems(1) by (auto simp: bind_eq_Some_conv)
  obtain ds' where 2: "walk_insts b is (cur1, p1) = Some (ds', cur', p')" "ds = d # ds'"
    using Cons.prems(1) 1 by (auto simp: bind_eq_Some_conv)
  have a: "walking pb fn p1 \<and> ext p p1 \<and> current_ok p1 cur1 \<and> last_store p1 = last_store p \<and> d = dies (addr_values p) i \<and>
      fst ` set (qremap p1) = fst ` set (qremap p) \<union> load_results (addr_values p) [i]"
    using walk_inst_ok [OF 1 Cons.prems(2,3) _ Cons.prems(5-7)] Cons.prems(4) by simp
  have sub: "set is \<subseteq> set (all_insts fn)" using Cons.prems(4) by simp
  have w1: "walking pb fn p1" "current_ok p1 cur1" using a by simp_all
  note b = Cons.IH [OF 2(1) w1 sub Cons.prems(5-7)]
  have e1: "ext p p1" using a by simp
  have e: "ext p p'" using ext_trans [OF e1] b by simp
  have "addr_values p1 = addr_values p" by (rule extD(5) [OF e1])
  then show ?case using a b e 2(2) load_results_Cons [of "addr_values p" i "is"] load_results_Cons [of "addr_values p" i "[]"]
    by (simp add: Un_assoc)
qed (simp add: load_results_def)

lemma settle_stores_ok:
  assumes "settle_stores b p = Some p'" "walking pb fn p"
  shows "walking pb fn p' \<and> ext p p' \<and> qremap p' = qremap p"
proof -
  have p': "p' = p\<lparr>last_store := (\<lambda>(s, c). if c = b then Option.bind (last_store p (s, c)) (resolve (qremap p)) else last_store p (s, c))\<rparr>"
    using assms(1) by (auto simp: settle_stores_def split: if_splits)
  then have e: "ext p p'" by (simp add: ext_def)
  have ok: "prom_ok p" "remap_good p" using assms(2) by (simp_all add: walking_def)
  have "memo_typed p (last_store p')"
    using ok resolve_good [OF _ ok(2)]
    by (auto simp: p' memo_typed_def prom_ok_def memo_ok_def bind_eq_Some_conv split: if_splits)
  then have "memo_ok p'"
    using ok(1) memo_typed_ext [OF e] memo_ok_ext [OF e] by (simp add: prom_ok_def memo_ok_def p')
  then have "prom_ok p'" using ok(1) static_ext [OF e] lists_ext [OF e] by (simp add: prom_ok_def p')
  moreover have "balanced fn p'"
  proof -
    have "balanced fn p" using assms(2) by (simp add: walking_def)
    then show ?thesis by (simp add: balanced_def p' ptys_def etys_def is_join_def edge_def)
  qed
  ultimately show ?thesis
    using assms(2) e remap_ext [OF e ok(2)] by (simp add: walking_def p' homes_def)
qed

lemma walk_blocks_ok:
  assumes "walk_blocks bs p = Some (dss, p')" "walking pb fn p" "set bs \<subseteq> {..<length (blocks fn)}" "promotable fn" "insts_wf m fn"
  shows "walking pb fn p' \<and> ext p p' \<and> dss = map (\<lambda>b. map (dies (addr_values p)) (insts (blocks fn ! b))) bs \<and>
    fst ` set (qremap p') = fst ` set (qremap p) \<union> load_results (addr_values p) (concat (map (\<lambda>b. insts (blocks fn ! b)) bs))"
  using assms
proof (induction bs arbitrary: p dss)
  case (Cons b bs)
  have fe: "extends_func fn (qfn p)" using Cons.prems(2) by (simp add: walking_def)
  have b: "b < length (blocks fn)" using Cons.prems(3) by simp
  have ins: "insts (blocks (qfn p) ! b) = insts (blocks fn ! b)" using extends_funcD(8) [OF fe b] .
  obtain ds cur p1 where 1: "walk_insts b (insts (blocks fn ! b)) (Map.empty, p) = Some (ds, cur, p1)"
    using Cons.prems(1) ins by (auto simp: bind_eq_Some_conv)
  obtain p2 where 2: "settle_stores b p1 = Some p2" using Cons.prems(1) ins 1 by (auto simp: bind_eq_Some_conv)
  obtain dss' where 3: "walk_blocks bs p2 = Some (dss', p')" "dss = ds # dss'"
    using Cons.prems(1) ins 1 2 by (auto simp: bind_eq_Some_conv)
  have sub: "set (insts (blocks fn ! b)) \<subseteq> set (all_insts fn)" 
    using b unfolding in_all_insts by (intro subsetI, unfold in_all_insts) (intro bexI [of _ "blocks fn ! b"], simp_all)
  have a: "walking pb fn p1 \<and> ext p p1 \<and> last_store p1 = last_store p \<and> ds = map (dies (addr_values p)) (insts (blocks fn ! b)) \<and>
      fst ` set (qremap p1) = fst ` set (qremap p) \<union> load_results (addr_values p) (insts (blocks fn ! b))"
    using walk_insts_ok [OF 1 Cons.prems(2) _ sub b Cons.prems(4,5)] by (simp add: current_ok_def)
  then have c: "walking pb fn p2 \<and> ext p1 p2 \<and> qremap p2 = qremap p1" using settle_stores_ok [OF 2] by blast
  have e2: "ext p p2" using a c ext_trans by blast
  have d: "walking pb fn p' \<and> ext p2 p' \<and> dss' = map (\<lambda>b. map (dies (addr_values p2)) (insts (blocks fn ! b))) bs \<and>
      fst ` set (qremap p') = fst ` set (qremap p2) \<union> load_results (addr_values p2) (concat (map (\<lambda>b. insts (blocks fn ! b)) bs))"
    using Cons.IH [OF 3(1)] c Cons.prems(3-5) by simp
  have e3: "ext p p'" using d e2 ext_trans by blast
  have "addr_values p2 = addr_values p" using extD(5) [OF e2] .
  then show ?case using a c d e3 3(2) by (simp add: load_results_append Un_assoc)
qed simp

lemma concat_map_nth: "concat (map (\<lambda>b. insts (blocks fn ! b)) [0..<length (blocks fn)]) = all_insts fn"
  unfolding all_insts_def by (rule arg_cong [of _ _ concat], rule nth_equalityI) simp_all

text \<open>What the whole walk establishes.\<close>

lemma walk_ok:
  assumes "walk_blocks [0..<length (blocks fn)] (start_prom (candidates_of pb fn) fn) = Some (dss, p)"
    and fn: "promotable fn" "insts_wf m fn"
  shows "walking pb fn p" "dss = map (\<lambda>b. map (dies (addr_values p)) (insts (blocks fn ! b))) [0..<length (blocks fn)]"
    "fst ` set (qremap p) = load_results (addr_values p) (all_insts fn)"
proof -
  let ?p = "start_prom (candidates_of pb fn) fn"
  have f: "qfn ?p = fn" "qremap ?p = []" "edge_args ?p = Map.empty" by (simp_all add: start_prom_def Let_def)
  have "balanced fn ?p"
    unfolding balanced_def by (simp add: ptys_def etys_def edge_def f)
  then have w: "walking pb fn ?p"
    using start_prom_ok [OF fn] by (simp add: walking_def remap_good_def f) (simp add: start_prom_def Let_def)
  note r = walk_blocks_ok [OF assms(1) w _ fn, unfolded set_upt atLeast0LessThan, OF subset_refl]
  have e: "ext ?p p" using r by simp
  show "walking pb fn p" "dss = map (\<lambda>b. map (dies (addr_values p)) (insts (blocks fn ! b))) [0..<length (blocks fn)]"
    "fst ` set (qremap p) = load_results (addr_values p) (all_insts fn)"
    using r extD(5) [OF e] concat_map_nth [of fn] by (simp_all add: f)
qed

end
