(* ===== verification/Mir_Promote_Edges.thy ===== *)
theory Mir_Promote_Edges
  imports Mir_Promote_Walk
begin

text \<open>
  Slot promotion, the edges: placing the collected arguments extends every jump to a join with them and moves every
  branch edge to a join over a trampoline block that passes them.
\<close>

subsection \<open>The collected arguments\<close>

lemma resolve_edges_nth:
  assumes "resolve_edges p = Some es"
  shows "map fst es = edge_keys p"
    "((q, b), as) \<in> set es \<Longrightarrow> list_all2 (\<lambda>a a'. resolve (qremap p) a = Some a') (edge p (q, b)) as"
proof -
  have es: "es = map (\<lambda>e. (e, map (\<lambda>a. the (resolve (qremap p) a)) (the (edge_args p e)))) (edge_keys p)"
    and ok: "\<forall>e \<in> set (edge_keys p). \<forall>a \<in> set (the (edge_args p e)). resolve (qremap p) a \<noteq> None"
    using assms by (auto simp: resolve_edges_def split: if_splits)
  show "map fst es = edge_keys p" by (simp add: es comp_def)
  show "list_all2 (\<lambda>a a'. resolve (qremap p) a = Some a') (edge p (q, b)) as" if "((q, b), as) \<in> set es"
  proof -
    have k: "(q, b) \<in> set (edge_keys p)" and as: "as = map (\<lambda>a. the (resolve (qremap p) a)) (the (edge_args p (q, b)))"
      using that by (auto simp: es)
    have "edge p (q, b) = the (edge_args p (q, b))" using k by (auto simp: edge_keys_def edge_def)
    then show ?thesis using ok k by (auto simp: as list_all2_conv_all_nth)
  qed
qed

lemma distinct_edge_keys: "distinct (edge_keys p)"
  by (simp add: edge_keys_def distinct_product)

lemma edge_keys_iff:
  assumes "edges_ok p" "static_ok p"
  shows "(q, b) \<in> set (edge_keys p) \<longleftrightarrow> edge_args p (q, b) \<noteq> None"
proof
  assume "edge_args p (q, b) \<noteq> None"
  then have "b < length (blocks (qfn p)) \<and> q \<in> set (preds p ! b)" using assms(1) by (auto simp: edges_ok_def)
  then have "b < length (blocks (qfn p)) \<and> q < length (blocks (qfn p))" using assms(2) by (auto simp: static_ok_def)
  then show "(q, b) \<in> set (edge_keys p)" using \<open>edge_args p (q, b) \<noteq> None\<close> by (simp add: edge_keys_def)
qed (simp add: edge_keys_def)

subsection \<open>Placing one edge\<close>

definition branching :: "inst \<Rightarrow> bool" where
  "branching t \<longleftrightarrow> oper t = Op_Branch \<or> oper t = Op_Switch"

lemma odds_map_odds: "odds (map_odds f xs) = map f (odds xs)"
  by (induction f xs rule: map_odds.induct) simp_all

lemma length_map_odds [simp]: "length (map_odds f xs) = length xs"
  by (induction f xs rule: map_odds.induct) simp_all

lemma redirect_term_fields [simp]:
  "oper (redirect_term s k t) = oper t" "opa (redirect_term s k t) = opa t" "itype (redirect_term s k t) = itype t"
  "result (redirect_term s k t) = result t" "length (args (redirect_term s k t)) = length (args t)"
  by (simp_all add: redirect_term_def)

lemma redirect_term_targets:
  assumes "branching t"
  shows "set (term_targets (redirect_term s k t)) \<subseteq> (set (term_targets t) - {s}) \<union> {k}"
  using assms by (auto simp: branching_def redirect_term_def term_targets_def redirect_def odds_map_odds)

text \<open>
  What has become of the function after the edges \<open>E\<close> were placed: \<open>n\<close> original blocks, whose last instructions carry
  the arguments or point at trampolines, and the trampolines.
\<close>

definition term_placed :: "((block_id \<times> block_id) \<times> value_id list) list \<Rightarrow> nat \<Rightarrow> nat \<Rightarrow> block_id \<Rightarrow> inst \<Rightarrow> inst \<Rightarrow> bool" where
  "term_placed E n l q t t' \<longleftrightarrow>
     oper t' = oper t \<and> opa t' = opa t \<and> itype t' = itype t \<and> result t' = result t \<and>
     (if oper t = Op_Jump then args t' = args t @ (case map_of E (q, opa t) of Some as \<Rightarrow> as | None \<Rightarrow> [])
      else if branching t
      then length (args t') = length (args t) \<and>
           set (term_targets t') \<subseteq> {x \<in> set (term_targets t). (q, x) \<notin> fst ` set E} \<union> {n..<l}
      else t' = t)"

definition trampoline :: "((block_id \<times> block_id) \<times> value_id list) list \<Rightarrow> func \<Rightarrow> block \<Rightarrow> bool" where
  "trampoline E fn b \<longleftrightarrow> params b = [] \<and> (\<exists>q s as. ((q, s), as) \<in> set E \<and> oper (last (insts (blocks fn ! q))) \<noteq> Op_Jump \<and>
     insts b = [default_inst\<lparr>oper := Op_Jump, opa := s, args := as\<rparr>])"

definition block_placed :: "func \<Rightarrow> ((block_id \<times> block_id) \<times> value_id list) list \<Rightarrow> nat \<Rightarrow> block_id \<Rightarrow> block \<Rightarrow> bool" where
  "block_placed fn E l q b \<longleftrightarrow> params b = params (blocks fn ! q) \<and>
     (\<exists>t'. insts b = butlast (insts (blocks fn ! q)) @ [t'] \<and>
        term_placed E (length (blocks fn)) l q (last (insts (blocks fn ! q))) t')"

definition placed :: "func \<Rightarrow> ((block_id \<times> block_id) \<times> value_id list) list \<Rightarrow> block list \<Rightarrow> bool" where
  "placed fn E bs \<longleftrightarrow> length (blocks fn) \<le> length bs \<and>
     (\<forall>q < length (blocks fn). block_placed fn E (length bs) q (bs ! q)) \<and>
     (\<forall>b. length (blocks fn) \<le> b \<longrightarrow> b < length bs \<longrightarrow> trampoline E fn (bs ! b))"

definition edge_from :: "func \<Rightarrow> (block_id \<times> block_id) \<times> 'a \<Rightarrow> bool" where
  "edge_from fn e \<longleftrightarrow> fst (fst e) < length (blocks fn) \<and> snd (fst e) < length (blocks fn) \<and>
     snd (fst e) \<in> set (term_targets (last (insts (blocks fn ! fst (fst e)))))"

lemma placed_Nil:
  assumes "\<forall>b \<in> set (blocks fn). insts b \<noteq> []"
  shows "placed fn [] (blocks fn)"
proof -
  have "block_placed fn [] (length (blocks fn)) q (blocks fn ! q)" if "q < length (blocks fn)" for q
    using assms that unfolding block_placed_def
    by (intro conjI exI [of _ "last (insts (blocks fn ! q))"]) (auto simp: term_placed_def)
  then show ?thesis by (simp add: placed_def)
qed

lemma term_placed_mono:
  assumes "term_placed E n l q t t'" "l \<le> l'" "q' \<noteq> q"
  shows "term_placed (E @ [((q', s), as)]) n l' q t t'"
proof -
  have "map_of (E @ [((q', s), as)]) (q, x) = map_of E (q, x)" for x
    using assms(3) by (simp add: map_add_def split: option.split)
  moreover have "(q, x) \<notin> fst ` set (E @ [((q', s), as)]) \<longleftrightarrow> (q, x) \<notin> fst ` set E" for x using assms(3) by auto
  moreover have "{n..<l} \<subseteq> {n..<l'}" using assms(2) by auto
  ultimately show ?thesis
    using assms(1) unfolding term_placed_def by (auto split: if_splits)
qed

lemma block_placed_mono:
  assumes "block_placed fn E l q b" "l \<le> l'" "q' \<noteq> q"
  shows "block_placed fn (E @ [((q', s), as)]) l' q b"
  using assms term_placed_mono [OF _ assms(2,3)] unfolding block_placed_def by blast

lemma trampoline_mono: "trampoline E fn b \<Longrightarrow> trampoline (E @ [e]) fn b"
  unfolding trampoline_def by fastforce

text \<open>Replacing the terminator of one block, and adding trampolines, is all that placing an edge does.\<close>

lemma placed_update:
  assumes p: "placed fn E bs" and q: "q < length (blocks fn)"
    and b: "block_placed fn (E @ [((q, s), as)]) (length bs + length ts) q b"
    and ts: "\<forall>t \<in> set ts. trampoline (E @ [((q, s), as)]) fn t"
  shows "placed fn (E @ [((q, s), as)]) ((bs @ ts)[q := b])"
proof -
  have l: "length (blocks fn) \<le> length bs" using p by (simp add: placed_def)
  have "block_placed fn (E @ [((q, s), as)]) (length bs + length ts) c ((bs @ ts)[q := b] ! c)"
    if "c < length (blocks fn)" for c
  proof (cases "c = q")
    case False
    have "block_placed fn E (length bs) c (bs ! c)" using p that by (simp add: placed_def)
    then show ?thesis using block_placed_mono [of fn E "length bs" c "bs ! c" _ q] False that l by (simp add: nth_append)
  qed (use b q l in simp)
  moreover have "trampoline (E @ [((q, s), as)]) fn ((bs @ ts)[q := b] ! c)"
    if "length (blocks fn) \<le> c" "c < length bs + length ts" for c
    using that q p ts trampoline_mono [of E fn "bs ! c"] by (auto simp: placed_def nth_append)
  ultimately show ?thesis using l by (simp add: placed_def)
qed

lemma place_edge_placed:
  assumes p: "placed fn E bs" and e: "edge_from fn ((q, s), as)" and new: "(q, s) \<notin> fst ` set E"
  obtains bs' where "place_edge ((q, s), as) (fn\<lparr>blocks := bs\<rparr>) = fn\<lparr>blocks := bs'\<rparr>" "placed fn (E @ [((q, s), as)]) bs'"
proof -
  let ?n = "length (blocks fn)" and ?l = "length bs" and ?E = "E @ [((q, s), as)]"
  have q: "q < ?n" "s < ?n" and tg: "s \<in> set (term_targets (last (insts (blocks fn ! q))))"
    using e by (simp_all add: edge_from_def)
  have l: "?n \<le> ?l" using p by (simp add: placed_def)
  let ?t = "last (insts (blocks fn ! q))"
  obtain t' where t': "insts (bs ! q) = butlast (insts (blocks fn ! q)) @ [t']" "term_placed E ?n ?l q ?t t'"
      "params (bs ! q) = params (blocks fn ! q)"
    using p q(1) by (auto simp: placed_def block_placed_def)
  show thesis
  proof (cases "oper t' = Op_Jump")
    case True
    then have j: "oper ?t = Op_Jump" "opa ?t = s"
      using t'(2) tg by (auto simp: term_placed_def term_targets_def)
    have none: "map_of E (q, s) = None" using new by (simp add: map_of_eq_None_iff)
    let ?b = "set_last_inst (\<lambda>t. t\<lparr>args := args t @ as\<rparr>) (bs ! q)"
    have "term_placed ?E ?n ?l q ?t (t'\<lparr>args := args t' @ as\<rparr>)"
      using t'(2) j none by (simp add: term_placed_def map_add_def)
    then have "block_placed fn ?E (?l + length []) q ?b"
      using t' by (auto simp: block_placed_def set_last_inst_def)
    then have "placed fn ?E ((bs @ [])[q := ?b])" using p q(1) by (intro placed_update) simp_all
    moreover have "place_edge ((q, s), as) (fn\<lparr>blocks := bs\<rparr>) = fn\<lparr>blocks := (bs @ [])[q := ?b]\<rparr>"
      using True t'(1) by (simp add: place_edge_def)
    ultimately show thesis using that by blast
  next
    case False
    then have br: "branching ?t" "branching t'" "oper ?t \<noteq> Op_Jump"
      using t'(2) tg by (auto simp: term_placed_def term_targets_def branching_def split: if_splits)
    define T where "T = \<lparr>label = label (bs ! s) @ ''.edge'', params = [],
        insts = [default_inst\<lparr>oper := Op_Jump, opa := s, args := as\<rparr>]\<rparr>"
    let ?b = "set_last_inst (redirect_term s ?l) (bs ! q)"
    have "set (term_targets (redirect_term s ?l t')) \<subseteq> {x \<in> set (term_targets ?t). (q, x) \<notin> fst ` set ?E} \<union> {?n..<Suc ?l}"
    proof -
      have sub: "set (term_targets t') \<subseteq> {x \<in> set (term_targets ?t). (q, x) \<notin> fst ` set E} \<union> {?n..<?l}"
        using t'(2) br(1,3) by (simp add: term_placed_def)
      have "fst ` set ?E = insert (q, s) (fst ` set E)" by simp
      then have "(set (term_targets t') - {s}) \<union> {?l} \<subseteq> {x \<in> set (term_targets ?t). (q, x) \<notin> fst ` set ?E} \<union> {?n..<Suc ?l}"
        using sub l by fastforce
      then show ?thesis using redirect_term_targets [OF br(2), of s ?l] by (rule order_trans [rotated])
    qed
    then have "term_placed ?E ?n (Suc ?l) q ?t (redirect_term s ?l t')"
      using t'(2) br(1,3) by (simp add: term_placed_def)
    then have "block_placed fn ?E (?l + length [T]) q ?b"
      using t' by (auto simp: block_placed_def set_last_inst_def)
    moreover have "trampoline ?E fn T" using br(3) by (auto simp: trampoline_def T_def)
    ultimately have "placed fn ?E ((bs @ [T])[q := ?b])" using p q(1) by (intro placed_update) simp_all
    moreover have "place_edge ((q, s), as) (fn\<lparr>blocks := bs\<rparr>) = fn\<lparr>blocks := (bs @ [T])[q := ?b]\<rparr>"
      using False t'(1) q l by (simp add: place_edge_def T_def Let_def nth_append)
    ultimately show thesis using that by blast
  qed
qed

lemma place_edges_placed:
  assumes "placed fn E bs" "\<forall>e \<in> set es. edge_from fn e" "distinct (map fst (E @ es))"
  obtains bs' where "fold place_edge es (fn\<lparr>blocks := bs\<rparr>) = fn\<lparr>blocks := bs'\<rparr>" "placed fn (E @ es) bs'"
  using assms
proof (induction es arbitrary: E bs thesis)
  case Nil
  then show ?case by simp
next
  case (Cons e es)
  obtain q s as where e: "e = ((q, s), as)" by (cases e) auto
  have "(q, s) \<notin> fst ` set E" using Cons.prems(4) e by auto
  then obtain bs1 where 1: "place_edge e (fn\<lparr>blocks := bs\<rparr>) = fn\<lparr>blocks := bs1\<rparr>" "placed fn (E @ [e]) bs1"
    using place_edge_placed [OF Cons.prems(2), of q s as] Cons.prems(3) e by auto
  show ?case
  proof (rule Cons.IH [OF _ 1(2)])
    show "thesis" if "fold place_edge es (fn\<lparr>blocks := bs1\<rparr>) = fn\<lparr>blocks := bs'\<rparr>" "placed fn ((E @ [e]) @ es) bs'" for bs'
      using Cons.prems(1) [of bs'] that 1(1) by simp
  qed (use Cons.prems in simp_all)
qed

end
