(* ===== verification/Mir_Promote_Wf.thy ===== *)
theory Mir_Promote_Wf
  imports Mir_Promote_Edges
begin

text \<open>
  Slot promotion, the result: what the blocks of a promoted function hold, that it is still well typed, and that every
  operand in it still has a definition.
\<close>

subsection \<open>The blocks of the result\<close>

lemma term_targets_map_operands: "term_targets (map_operands f t) = term_targets t"
  by (simp add: term_targets_def map_operands_def operand_shape_def)

lemma keep_alive_map: "keep_alive (map P xs) (map f xs) = map f (filter (\<lambda>x. \<not> P x) xs)"
  by (induction xs) (simp_all add: keep_alive_def)

lemma keep_alive_append:
  "length ds = length xs \<Longrightarrow> keep_alive (ds @ es) (xs @ ys) = keep_alive ds xs @ keep_alive es ys"
  by (simp add: keep_alive_def)

lemma fix_positions_types: "map vd_type (vals (fix_positions fn)) = map vd_type (vals fn)"
proof -
  have 1: "map vd_type (set_position b ki vs) = map vd_type vs" for b ki vs
    by (auto simp: set_position_def map_update intro!: nth_equalityI split: prod.split) (metis nth_list_update_eq nth_list_update_neq nth_map length_map)
  have 2: "map vd_type (fold (set_position b) kis vs) = map vd_type vs" for b kis vs
    by (induction kis arbitrary: vs) (simp_all add: 1)
  have "map vd_type (fold (\<lambda>(b, blk). fold (set_position b) (enumerate 0 (insts blk))) bbs vs) = map vd_type vs" for bbs vs
    by (induction bbs arbitrary: vs) (auto simp: 2)
  then show ?thesis by (simp add: fix_positions_def)
qed

definition compact_inst :: "candidates \<Rightarrow> func \<Rightarrow> inst \<Rightarrow> inst" where
  "compact_inst cand fn i = (if oper i = Op_SlotAddr then i\<lparr>opa := the (slot_remap cand fn (opa i))\<rparr> else i)"

lemma compact_slotsD:
  assumes "compact_slots cand fn = Some fn'"
  shows "fn' = fn\<lparr>blocks := map (\<lambda>b. b\<lparr>insts := map (compact_inst cand fn) (insts b)\<rparr>) (blocks fn),
      slots := map (\<lambda>s. slots fn ! s) (filter (\<lambda>s. cand s = None) [0..<length (slots fn)])\<rparr>"
    "i \<in> set (all_insts fn) \<Longrightarrow> oper i = Op_SlotAddr \<Longrightarrow> slot_remap cand fn (opa i) \<noteq> None"
proof -
  have all: "\<forall>i \<in> set (all_insts fn). oper i = Op_SlotAddr \<longrightarrow> slot_remap cand fn (opa i) \<noteq> None"
    using assms by (simp add: compact_slots_def split: if_splits)
  then show "i \<in> set (all_insts fn) \<Longrightarrow> oper i = Op_SlotAddr \<Longrightarrow> slot_remap cand fn (opa i) \<noteq> None" by blast
  show "fn' = fn\<lparr>blocks := map (\<lambda>b. b\<lparr>insts := map (compact_inst cand fn) (insts b)\<rparr>) (blocks fn),
      slots := map (\<lambda>s. slots fn ! s) (filter (\<lambda>s. cand s = None) [0..<length (slots fn)])\<rparr>"
    using assms all unfolding compact_slots_def map_insts_def compact_inst_def [abs_def] by simp
qed

text \<open>The result of promoting a function, block by block.\<close>

record promoted =
  pr_state :: prom
  pr_edges :: "((block_id \<times> block_id) \<times> value_id list) list"
  pr_blocks :: "block list"

definition before_compaction :: "func \<Rightarrow> promoted \<Rightarrow> block_id \<Rightarrow> inst list" where
  "before_compaction fn R b =
     (let p = pr_state R; is = insts (blocks fn ! b); f = map_operands (resolved (qremap p)) in
      (if b = 0 then entry_prelude p else []) @
      (if b < length (blocks fn)
       then map f (filter (\<lambda>i. \<not> dies (addr_values p) i) (butlast is)) @ [last (insts (pr_blocks R ! b))]
       else insts (pr_blocks R ! b)))"

definition promotes :: "nat \<Rightarrow> func \<Rightarrow> promoted \<Rightarrow> func \<Rightarrow> bool" where
  "promotes pb fn R fn' \<longleftrightarrow>
     (let p = pr_state R; bs = pr_blocks R; cand = candidates_of pb fn in
      walking pb fn p \<and> fst ` set (qremap p) = load_results (addr_values p) (all_insts fn) \<and>
      (\<forall>i \<in> set (all_insts (qfn p)). resolvable (qremap p) i) \<and>
      resolve_edges p = Some (pr_edges R) \<and>
      placed (map_insts (map_operands (resolved (qremap p))) (qfn p)) (pr_edges R) bs \<and>
      has_body fn' = has_body fn \<and> fsignature fn' = fsignature fn \<and> fparams fn' = fparams fn \<and>
      map vd_type (vals fn') = map vd_type (vals (qfn p)) \<and>
      slots fn' = map (\<lambda>s. slots fn ! s) (filter (\<lambda>s. cand s = None) [0..<length (slots fn)]) \<and>
      map params (blocks fn') = map params bs \<and>
      (\<forall>b < length bs. insts (blocks fn' ! b) = map (compact_inst cand fn) (before_compaction fn R b) \<and>
         (\<forall>i \<in> set (before_compaction fn R b). oper i = Op_SlotAddr \<longrightarrow> slot_remap cand fn (opa i) \<noteq> None)))"

lemma slot_remap_cong: "slots f = slots g \<Longrightarrow> slot_remap cand f = slot_remap cand g"
  by (rule ext) (simp add: slot_remap_def)

lemma compact_inst_cong: "slots f = slots g \<Longrightarrow> compact_inst cand f = compact_inst cand g"
  using slot_remap_cong [of f g cand] by (simp add: compact_inst_def fun_eq_iff)

lemma wf_blocks:
  assumes "function_wf m fn" "has_body fn" "b < length (blocks fn)"
  shows "insts (blocks fn ! b) \<noteq> []" "is_terminator (oper (last (insts (blocks fn ! b))))"
    "i \<in> set (butlast (insts (blocks fn ! b))) \<Longrightarrow> \<not> is_terminator (oper i)"
proof -
  have "blocks fn ! b \<in> set (blocks fn)" using assms(3) by (rule nth_mem)
  then have w: "block_wf m fn (signatures m ! fsignature fn) (blocks fn ! b)"
    using assms(1) unfolding function_wf_def if_P [OF assms(2)] by blast
  show "insts (blocks fn ! b) \<noteq> []" "is_terminator (oper (last (insts (blocks fn ! b))))"
    "i \<in> set (butlast (insts (blocks fn ! b))) \<Longrightarrow> \<not> is_terminator (oper i)"
    using w unfolding block_wf_def by blast+
qed

lemma zero_inst_oper: "oper (zero_inst t v) \<in> {Op_ConstNull, Op_ConstFloat, Op_ConstInt}"
  by (simp add: zero_inst_def)

text \<open>How the pass returns: at once, or with every step done.\<close>

lemma promote_functionD:
  assumes "promote_function pb fn st = Some (fn', st')"
  obtains "fn' = fn" | dss p es where "has_body fn" "blocks fn \<noteq> []"
    "walk_blocks [0..<length (blocks fn)] (start_prom (candidates_of pb fn) fn) = Some (dss, p)"
    "\<forall>i \<in> set (all_insts (qfn p)). resolvable (qremap p) i" "resolve_edges p = Some es"
    "compact_slots (candidates_of pb fn) (fix_positions (splice_prelude (entry_prelude p)
       (drop_dead dss (fold place_edge es (map_insts (map_operands (resolved (qremap p))) (qfn p)))))) = Some fn'"
proof (cases "\<not> has_body fn \<or> blocks fn = [] \<or> (\<forall>s < length (slots fn). candidates_of pb fn s = None)")
  case True
  then have "fn' = fn" using assms unfolding promote_function_def Let_def by (simp split: if_splits)
  then show thesis using that(1) by blast
next
  case False
  then have hb: "has_body fn" "blocks fn \<noteq> []" and nb: "\<not> (\<not> has_body fn \<or> blocks fn = [])"
    and nc: "\<not> (\<forall>s < length (slots fn). candidates_of pb fn s = None)" by blast+
  from assms obtain dss p fn1 es where "walk_blocks [0..<length (blocks fn)] (start_prom (candidates_of pb fn) fn) = Some (dss, p)"
      "rewrite_operands (qremap p) (qfn p) = Some fn1" "resolve_edges p = Some es"
      "compact_slots (candidates_of pb fn) (fix_positions (splice_prelude (entry_prelude p)
         (drop_dead dss (fold place_edge es fn1)))) = Some fn'"
    unfolding promote_function_def Let_def if_not_P [OF nb] if_not_P [OF nc] by (auto simp: bind_eq_Some_conv)
  then show thesis using that(2) [OF hb] by (simp add: rewrite_operands_def split: if_splits)
qed

lemma edges_from:
  assumes w: "walking pb fn p" and es: "resolve_edges p = Some es" and wf: "function_wf m fn" "has_body fn"
  shows "\<forall>e \<in> set es. edge_from (map_insts (map_operands (resolved (qremap p))) (qfn p)) e"
proof
  fix e
  assume e: "e \<in> set es"
  obtain q b as where e': "e = ((q, b), as)" by (cases e) auto
  have "fst e \<in> set (map fst es)" using e by simp
  then have k: "(q, b) \<in> set (edge_keys p)" using resolve_edges_nth(1) [OF es] e' by simp
  have ok: "edges_ok p" "static_ok p" and fe: "extends_func fn (qfn p)" and pr: "preds p = pred_lists fn"
    using w by (simp_all add: walking_def prom_ok_def lists_ok_def)
  have l: "length (blocks (qfn p)) = length (blocks fn)" by (rule extends_funcD(1) [OF fe])
  have qb: "b < length (blocks fn)" "q \<in> set (pred_lists fn ! b)"
    using k ok(1) l pr unfolding edge_keys_iff [OF ok] by (auto simp: edges_ok_def)
  then have q: "q < length (blocks fn)" and t: "b \<in> set (block_targets fn q)" using pred_lists_nth(2) [OF qb(1)] by auto
  have i: "insts (blocks (qfn p) ! q) = insts (blocks fn ! q)" by (rule extends_funcD(8) [OF fe q])
  have "b \<in> set (term_targets (last (insts (blocks fn ! q))))"
    using t by (auto simp: block_targets_def Let_def term_targets_def split: if_splits)
  then show "edge_from (map_insts (map_operands (resolved (qremap p))) (qfn p)) e"
    using q qb(1) l i wf_blocks(1) [OF wf q]
    by (simp add: e' edge_from_def map_insts_def last_map term_targets_map_operands)
qed

text \<open>The function before the slots are compacted.\<close>

definition cleaned :: "prom \<Rightarrow> bool list list \<Rightarrow> ((block_id \<times> block_id) \<times> value_id list) list \<Rightarrow> func" where
  "cleaned p dss es = fix_positions (splice_prelude (entry_prelude p)
     (drop_dead dss (fold place_edge es (map_insts (map_operands (resolved (qremap p))) (qfn p)))))"

lemma cleaned_shape:
  assumes wk: "walk_blocks [0..<length (blocks fn)] (start_prom (candidates_of pb fn) fn) = Some (dss, p)"
    and es: "resolve_edges p = Some es" and wf: "function_wf m fn" "has_body fn" and pm: "promotable fn"
  shows "slots (cleaned p dss es) = slots fn" "has_body (cleaned p dss es) = has_body fn"
    "fsignature (cleaned p dss es) = fsignature fn" "fparams (cleaned p dss es) = fparams fn"
    "map vd_type (vals (cleaned p dss es)) = map vd_type (vals (qfn p))"
    "\<exists>bs. placed (map_insts (map_operands (resolved (qremap p))) (qfn p)) es bs \<and> length (blocks (cleaned p dss es)) = length bs \<and>
       (\<forall>b < length bs. params (blocks (cleaned p dss es) ! b) = params (bs ! b) \<and>
          insts (blocks (cleaned p dss es) ! b) = before_compaction fn \<lparr>pr_state = p, pr_edges = es, pr_blocks = bs\<rparr> b)"
proof -
  define f where "f = map_operands (resolved (qremap p))"
  define fn1 where "fn1 = map_insts f (qfn p)"
  define fn2 where "fn2 = cleaned p dss es"
  have fn2: "fn2 = fix_positions (splice_prelude (entry_prelude p) (drop_dead dss (fold place_edge es fn1)))"
    by (simp add: fn2_def cleaned_def fn1_def f_def)
  have w: "walking pb fn p" and dss: "dss = map (\<lambda>b. map (dies (addr_values p)) (insts (blocks fn ! b))) [0..<length (blocks fn)]"
    using walk_ok [OF wk pm function_insts_wf [OF wf]] by simp_all
  have fe: "extends_func fn (qfn p)" using w by (simp add: walking_def)
  have l: "length (blocks fn1) = length (blocks fn)" using extends_funcD(1) [OF fe] by (simp add: fn1_def map_insts_def)
  have ins: "insts (blocks fn1 ! b) = map f (insts (blocks fn ! b))" if "b < length (blocks fn)" for b
    using extends_funcD(1,8) [OF fe] that by (simp add: fn1_def map_insts_def)
  have "\<forall>b \<in> set (blocks fn1). insts b \<noteq> []"
    using wf_blocks(1) [OF wf] ins l by (auto simp: all_set_conv_all_nth)
  then obtain bs where bs: "fold place_edge es fn1 = fn1\<lparr>blocks := bs\<rparr>" "placed fn1 es bs"
    using place_edges_placed [OF placed_Nil, of fn1 es] edges_from [OF w es wf] resolve_edges_nth(1) [OF es]
      distinct_edge_keys [of p] by (auto simp: fn1_def f_def)
  define R where "R = \<lparr>pr_state = p, pr_edges = es, pr_blocks = bs\<rparr>"
  have lb: "length (blocks fn) \<le> length bs" using bs(2) l by (simp add: placed_def)
  have sl: "slots fn2 = slots fn"
    using extends_funcD(2) [OF fe] by (simp add: fn2 fix_positions_def splice_prelude_def drop_dead_def bs(1))
      (simp add: fn1_def map_insts_def)
  have len2: "length (blocks fn2) = length bs"
    by (simp add: fn2 fix_positions_def splice_prelude_def drop_dead_def bs(1))
  have ldss: "length dss = length (blocks fn)" by (simp add: dss)
  have ins2: "insts (blocks fn2 ! b) = before_compaction fn R b" "params (blocks fn2 ! b) = params (bs ! b)" if b: "b < length bs" for b
  proof -
    have core: "insts (blocks (drop_dead dss (fn1\<lparr>blocks := bs\<rparr>)) ! b) =
        (if b < length (blocks fn) then map f (filter (\<lambda>i. \<not> dies (addr_values p) i) (butlast (insts (blocks fn ! b)))) @ [last (insts (bs ! b))]
         else insts (bs ! b))"
    proof (cases "b < length (blocks fn)")
      case True
      let ?I = "insts (blocks fn ! b)"
      have ne: "?I \<noteq> []" and tm: "is_terminator (oper (last ?I))" using wf_blocks [OF wf True] by simp_all
      obtain t' where t': "insts (bs ! b) = map f (butlast ?I) @ [t']"
        using bs(2) True l ins [OF True] by (auto simp: placed_def block_placed_def map_butlast)
      have "\<not> dies (addr_values p) (last ?I)"
        using tm by (auto simp: dies_def promoted_access_def is_terminator_def)
      then have "map (dies (addr_values p)) ?I = map (dies (addr_values p)) (butlast ?I) @ [False]"
        using arg_cong [OF append_butlast_last_id [OF ne], of "map (dies (addr_values p))"] by simp
      then have "dss ! b = map (dies (addr_values p)) (butlast ?I) @ [False]" using True by (simp add: dss)
      then have "keep_alive (dss ! b) (insts (bs ! b)) = map f (filter (\<lambda>i. \<not> dies (addr_values p) i) (butlast ?I)) @ [t']"
        by (simp add: t' keep_alive_append keep_alive_map) (simp add: keep_alive_def)
      then show ?thesis
        using True b ldss t' by (simp add: drop_dead_def nth_enumerate_eq)
    qed (use b ldss in \<open>simp add: drop_dead_def nth_enumerate_eq\<close>)
    have par: "params (blocks (drop_dead dss (fn1\<lparr>blocks := bs\<rparr>)) ! b) = params (bs ! b)"
      using b by (simp add: drop_dead_def nth_enumerate_eq)
    have len: "length (blocks (drop_dead dss (fn1\<lparr>blocks := bs\<rparr>))) = length bs" by (simp add: drop_dead_def)
    have b2: "blocks fn2 ! b = (if b = 0 then (blocks (drop_dead dss (fn1\<lparr>blocks := bs\<rparr>)) ! b)
        \<lparr>insts := entry_prelude p @ insts (blocks (drop_dead dss (fn1\<lparr>blocks := bs\<rparr>)) ! b)\<rparr>
        else blocks (drop_dead dss (fn1\<lparr>blocks := bs\<rparr>)) ! b)"
      using len b by (cases "b = 0") (simp_all add: fn2 fix_positions_def splice_prelude_def bs(1))
    show "insts (blocks fn2 ! b) = before_compaction fn R b" "params (blocks fn2 ! b) = params (bs ! b)"
      unfolding b2 before_compaction_def R_def Let_def using core par by (cases "b = 0"; simp add: f_def)+
  qed
  have fr: "has_body fn2 = has_body fn" "fsignature fn2 = fsignature fn" "fparams fn2 = fparams fn"
    using extends_funcD(3-5) [OF fe]
    by (simp_all add: fn2 fix_positions_def splice_prelude_def drop_dead_def bs(1)) (simp_all add: fn1_def map_insts_def)
  have vs: "map vd_type (vals fn2) = map vd_type (vals (qfn p))"
    unfolding fn2 fix_positions_types
    by (simp add: splice_prelude_def drop_dead_def bs(1)) (simp add: fn1_def map_insts_def)
  show "slots (cleaned p dss es) = slots fn" "has_body (cleaned p dss es) = has_body fn"
    "fsignature (cleaned p dss es) = fsignature fn" "fparams (cleaned p dss es) = fparams fn"
    "map vd_type (vals (cleaned p dss es)) = map vd_type (vals (qfn p))"
    using sl fr vs by (simp_all add: fn2_def)
  have "placed (map_insts (map_operands (resolved (qremap p))) (qfn p)) es bs" using bs(2) by (simp add: fn1_def f_def)
  then show "\<exists>bs. placed (map_insts (map_operands (resolved (qremap p))) (qfn p)) es bs \<and> length (blocks (cleaned p dss es)) = length bs \<and>
       (\<forall>b < length bs. params (blocks (cleaned p dss es) ! b) = params (bs ! b) \<and>
          insts (blocks (cleaned p dss es) ! b) = before_compaction fn \<lparr>pr_state = p, pr_edges = es, pr_blocks = bs\<rparr> b)"
    using len2 ins2 by (intro exI [of _ bs]) (simp add: fn2_def R_def)
qed

lemma promote_function_shape:
  assumes pf: "promote_function pb fn st = Some (fn', st')" and wf: "function_wf m fn" and pm: "promotable fn"
  shows "fn' = fn \<or> (has_body fn \<and> (\<exists>R. promotes pb fn R fn'))"
  using pf
proof (cases rule: promote_functionD)
  case (2 dss p es)
  note hb = 2(1,2) and wk = 2(3) and rw = 2(4) and es = 2(5)
  let ?c = "candidates_of pb fn" and ?fn = "cleaned p dss es"
  have cp: "compact_slots ?c ?fn = Some fn'" using 2(6) by (simp add: cleaned_def)
  have w: "walking pb fn p" and keys: "fst ` set (qremap p) = load_results (addr_values p) (all_insts fn)"
    using walk_ok [OF wk pm function_insts_wf [OF wf hb(1)]] by simp_all
  note c = cleaned_shape [OF wk es wf hb(1) pm]
  from c(6) obtain bs where bs: "placed (map_insts (map_operands (resolved (qremap p))) (qfn p)) es bs" "length (blocks ?fn) = length bs"
      "\<forall>b < length bs. params (blocks ?fn ! b) = params (bs ! b) \<and>
         insts (blocks ?fn ! b) = before_compaction fn \<lparr>pr_state = p, pr_edges = es, pr_blocks = bs\<rparr> b" by blast
  define R where "R = \<lparr>pr_state = p, pr_edges = es, pr_blocks = bs\<rparr>"
  have ins: "insts (blocks ?fn ! b) = before_compaction fn R b" "params (blocks ?fn ! b) = params (bs ! b)" if "b < length bs" for b
    using bs(3) that by (simp_all add: R_def)
  note cs = compact_slotsD [OF cp]
  have "i \<in> set (all_insts ?fn)" if "b < length bs" "i \<in> set (before_compaction fn R b)" for b i
    using that ins(1) bs(2) by (auto simp: in_all_insts intro!: bexI [of _ "blocks ?fn ! b"])
  then have at: "oper i = Op_SlotAddr \<longrightarrow> slot_remap ?c fn (opa i) \<noteq> None"
    if "b < length bs" "i \<in> set (before_compaction fn R b)" for b i
    using that cs(2) slot_remap_cong [OF c(1), of ?c] by auto
  have "blocks fn' = map (\<lambda>b. b\<lparr>insts := map (compact_inst ?c fn) (insts b)\<rparr>) (blocks ?fn)"
    using cs(1) compact_inst_cong [OF c(1), of ?c] by simp
  then have pa: "map params (blocks fn') = map params bs"
    and ci: "\<forall>b < length bs. insts (blocks fn' ! b) = map (compact_inst ?c fn) (before_compaction fn R b)"
    using ins bs(2) by (auto intro!: nth_equalityI)
  have "slots fn' = map (\<lambda>s. slots fn ! s) (filter (\<lambda>s. ?c s = None) [0..<length (slots fn)])"
      "has_body fn' = has_body fn" "fsignature fn' = fsignature fn" "fparams fn' = fparams fn"
      "map vd_type (vals fn') = map vd_type (vals (qfn p))"
    using cs(1) c(1-5) by simp_all
  then have "promotes pb fn R fn'"
    using w keys rw es bs(1) pa ci at unfolding promotes_def Let_def R_def promoted.simps by blast
  then show ?thesis using hb(1) by blast
qed simp

end
