(* ===== verification/Mir_Promote_Sound.thy ===== *)
theory Mir_Promote_Sound
  imports Mir_Promote_Wf
begin

text \<open>
  Slot promotion keeps a module well typed: the terminators of the result pass each block what its parameters want.
\<close>

subsection \<open>Types and parameters of the result\<close>

lemma target_ok_types:
  "target_ok fn b as \<longleftrightarrow> b < length (blocks fn) \<and> (\<forall>a \<in> set as. value_ok fn a) \<and>
     map (\<lambda>v. vd_type (vals fn ! v)) as = map (\<lambda>v. vd_type (vals fn ! v)) (params (blocks fn ! b))"
proof -
  have "list_all2 (\<lambda>a p. typed fn a (vd_type (vals fn ! p))) as ps \<longleftrightarrow>
      (\<forall>a \<in> set as. value_ok fn a) \<and> map (\<lambda>v. vd_type (vals fn ! v)) as = map (\<lambda>v. vd_type (vals fn ! v)) ps" for ps
    by (induction as arbitrary: ps) (auto simp: list_all2_Cons1 Cons_eq_map_conv)
  then show ?thesis by (auto simp: target_ok_def)
qed

lemma inst_wf_other:
  assumes "inst_wf m fn sg i" "oper i \<notin> {Op_Jump, Op_Branch, Op_Switch, Op_SlotAddr}"
    and v: "\<And>v. value_ok fn v \<Longrightarrow> value_ok fn' v \<and> vd_type (vals fn' ! v) = vd_type (vals fn ! v)"
  shows "inst_wf m fn' sg i"
proof -
  have "args_match fn sg as \<Longrightarrow> args_match fn' sg as" for sg as using v by (auto simp: args_match_nth)
  with assms(1,2) v show ?thesis
    by (induction rule: inst_wf.induct) (auto intro: inst_wf.intros)
qed

lemma promotesD:
  assumes "promotes pb fn R fn'"
  shows "walking pb fn (pr_state R)" "fst ` set (qremap (pr_state R)) = load_results (addr_values (pr_state R)) (all_insts fn)"
    "resolve_edges (pr_state R) = Some (pr_edges R)"
    "placed (map_insts (map_operands (resolved (qremap (pr_state R)))) (qfn (pr_state R))) (pr_edges R) (pr_blocks R)"
    "has_body fn' = has_body fn" "fsignature fn' = fsignature fn" "fparams fn' = fparams fn"
    "map vd_type (vals fn') = map vd_type (vals (qfn (pr_state R)))"
    "slots fn' = map (\<lambda>s. slots fn ! s) (filter (\<lambda>s. candidates_of pb fn s = None) [0..<length (slots fn)])"
    "length (blocks fn') = length (pr_blocks R)"
    "b < length (pr_blocks R) \<Longrightarrow> params (blocks fn' ! b) = params (pr_blocks R ! b)"
    "b < length (pr_blocks R) \<Longrightarrow> insts (blocks fn' ! b) = map (compact_inst (candidates_of pb fn) fn) (before_compaction fn R b)"
    "b < length (pr_blocks R) \<Longrightarrow> i \<in> set (before_compaction fn R b) \<Longrightarrow> oper i = Op_SlotAddr \<Longrightarrow>
       slot_remap (candidates_of pb fn) fn (opa i) \<noteq> None"
    "i \<in> set (all_insts (qfn (pr_state R))) \<Longrightarrow> resolvable (qremap (pr_state R)) i"
proof -
  have mp: "map params (blocks fn') = map params (pr_blocks R)" using assms by (simp add: promotes_def Let_def)
  then show l: "length (blocks fn') = length (pr_blocks R)" by (rule map_eq_imp_length_eq)
  show "b < length (pr_blocks R) \<Longrightarrow> params (blocks fn' ! b) = params (pr_blocks R ! b)" using mp l by (metis nth_map)
qed (use assms in \<open>simp_all add: promotes_def Let_def\<close>)

lemma promoted_types:
  assumes "promotes pb fn R fn'" "length (vals fn') \<le> NO_VALUE"
  shows "value_ok fn' v \<longleftrightarrow> v < length (vals (qfn (pr_state R)))"
    "v < length (vals (qfn (pr_state R))) \<Longrightarrow> vd_type (vals fn' ! v) = vty (pr_state R) v"
    "value_ok fn v \<Longrightarrow> value_ok fn' v \<and> vd_type (vals fn' ! v) = vd_type (vals fn ! v)"
    "retypes fn' (resolved (qremap (pr_state R)))"
proof -
  let ?p = "pr_state R"
  note d = promotesD [OF assms(1)]
  have l: "length (vals fn') = length (vals (qfn ?p))" using d(8) by (rule map_eq_imp_length_eq)
  show ok: "value_ok fn' v \<longleftrightarrow> v < length (vals (qfn ?p))" for v using l assms(2) by (auto simp: value_ok_def)
  show ty: "v < length (vals (qfn ?p)) \<Longrightarrow> vd_type (vals fn' ! v) = vty ?p v" for v using d(8) l by (metis nth_map)
  have fe: "extends_func fn (qfn ?p)" and rg: "remap_good ?p" using d(1) by (simp_all add: walking_def)
  show "value_ok fn v \<Longrightarrow> value_ok fn' v \<and> vd_type (vals fn' ! v) = vd_type (vals fn ! v)"
    using ok [of v] ty [of v] extends_funcD(6,7) [OF fe] by (auto simp: value_ok_def)
  have "remap_ok fn' (qremap ?p)"
    unfolding remap_ok_def
  proof (intro allI impI)
    fix k w
    assume "map_of (qremap ?p) k = Some w"
    then have "k < length (vals (qfn ?p))" "good ?p w (vty ?p k)" using rg by (auto simp: remap_good_def dest!: map_of_SomeD)
    then show "value_ok fn' w \<and> (value_ok fn' k \<longrightarrow> vd_type (vals fn' ! w) = vd_type (vals fn' ! k))"
      using ok ty by (auto simp: good_def)
  qed
  then show "retypes fn' (resolved (qremap ?p))" by (rule resolved_retypes)
qed

lemma edge_args_typed:
  assumes w: "walking pb fn p" and es: "resolve_edges p = Some es" "((q, b), as) \<in> set es"
  shows "map (vty p) as = etys p (q, b)" "\<forall>a \<in> set as. clean p a"
proof -
  have ok: "edges_ok p" and rg: "remap_good p" using w by (simp_all add: walking_def prom_ok_def lists_ok_def)
  have "list_all2 (\<lambda>a a'. resolve (qremap p) a = Some a') (edge p (q, b)) as" by (rule resolve_edges_nth(2) [OF es])
  then have "list_all2 (\<lambda>a a'. vty p a = vty p a' \<and> clean p a') (edge p (q, b)) as"
  proof (intro list_all2_all_nthI)
    fix k
    assume k: "k < length (edge p (q, b))"
      and all: "list_all2 (\<lambda>a a'. resolve (qremap p) a = Some a') (edge p (q, b)) as"
    let ?a = "edge p (q, b) ! k"
    have g: "good p ?a (vty p ?a)" using edge_clean [OF ok nth_mem [OF k]] by (simp add: good_def clean_def)
    have "resolve (qremap p) ?a = Some (as ! k)" using list_all2_nthD [OF all k] .
    from resolve_good [OF this rg g] show "vty p ?a = vty p (as ! k) \<and> clean p (as ! k)" by (auto simp: good_def clean_def)
  qed (auto dest: list_all2_lengthD)
  then show "map (vty p) as = etys p (q, b)" "\<forall>a \<in> set as. clean p a"
    by (auto simp: etys_def list_all2_conv_all_nth all_set_conv_all_nth intro: nth_equalityI)
qed

lemma join_types:
  assumes w: "walking pb fn p" and b: "b < length (blocks fn)" "q \<in> set (pred_lists fn ! b)"
  shows "ptys p b = map (\<lambda>v. vd_type (vals fn ! v)) (params (blocks fn ! b)) @ etys p (q, b)"
proof -
  have ok: "edges_ok p" and pr: "preds p = pred_lists fn" and bal: "balanced fn p"
    using w by (simp_all add: walking_def prom_ok_def lists_ok_def)
  obtain A where A: "ptys p b = map (\<lambda>v. vd_type (vals fn ! v)) (params (blocks fn ! b)) @ A" "A \<noteq> [] \<longrightarrow> is_join p b"
      "\<forall>q \<in> set (preds p ! b). is_join p b \<longrightarrow> etys p (q, b) = A"
    using bal b(1) by (auto simp: balanced_def)
  have "etys p (q, b) = A"
  proof (cases "is_join p b")
    case False
    then have "edge_args p (q, b) = None" using ok by (cases "edge_args p (q, b)") (auto simp: edges_ok_def)
    then show ?thesis using A(2) False by (auto simp: etys_def edge_def)
  qed (use A(3) b(2) pr in simp)
  then show ?thesis using A(1) by simp
qed

subsection \<open>Terminators\<close>

lemma last_wf:
  assumes "function_wf m fn" "has_body fn" "q < length (blocks fn)"
  shows "inst_wf m fn (signatures m ! fsignature fn) (last (insts (blocks fn ! q)))"
proof -
  have "last (insts (blocks fn ! q)) \<in> set (all_insts fn)"
    unfolding in_all_insts using assms(3) last_in_set [OF wf_blocks(1) [OF assms]] by (intro bexI [of _ "blocks fn ! q"]) simp_all
  then show ?thesis using function_insts_wf [OF assms(1,2)] by (simp add: insts_wf_def)
qed

lemma target_pred:
  assumes "function_wf m fn" "has_body fn" "q < length (blocks fn)" "b \<in> set (term_targets (last (insts (blocks fn ! q))))"
  shows "b < length (blocks fn)" "q \<in> set (pred_lists fn ! b)"
proof -
  have ne: "insts (blocks fn ! q) \<noteq> []" by (rule wf_blocks(1) [OF assms(1-3)])
  from inst_wf_targets [OF last_wf [OF assms(1-3)] assms(4)] show b: "b < length (blocks fn)" .
  then show "q \<in> set (pred_lists fn ! b)"
    using pred_lists_nth(2) [OF b] assms(3,4) ne by (auto simp: block_targets_def Let_def term_targets_def split: if_splits)
qed

lemma promoted_params:
  assumes P: "promotes pb fn R fn'" and room: "length (vals fn') \<le> NO_VALUE" and b: "b < length (blocks fn)"
  shows "b < length (blocks fn')" "map (\<lambda>v. vd_type (vals fn' ! v)) (params (blocks fn' ! b)) = ptys (pr_state R) b"
    "params (blocks fn' ! b) = params (blocks (qfn (pr_state R)) ! b)"
proof -
  let ?p = "pr_state R"
  note d = promotesD [OF P]
  have fe: "extends_func fn (qfn ?p)" and pk: "params_ok ?p" using d(1) by (simp_all add: walking_def prom_ok_def lists_ok_def)
  have l: "length (blocks (qfn ?p)) = length (blocks fn)" by (rule extends_funcD(1) [OF fe])
  have pl: "length (blocks fn) \<le> length (pr_blocks R)" "params (pr_blocks R ! b) = params (blocks (qfn ?p) ! b)"
    using d(4) l b by (auto simp: placed_def block_placed_def map_insts_def)
  show "b < length (blocks fn')" using pl(1) d(10) b by simp
  show ps: "params (blocks fn' ! b) = params (blocks (qfn ?p) ! b)" using pl d(11) b by simp
  show "map (\<lambda>v. vd_type (vals fn' ! v)) (params (blocks fn' ! b)) = ptys ?p b"
    unfolding ps using pk b l promoted_types(2) [OF P room] by (auto simp: ptys_def params_ok_def)
qed

lemma jump_target_ok:
  assumes P: "promotes pb fn R fn'" and room: "length (vals fn') \<le> NO_VALUE"
    and b: "b < length (blocks fn)" "q \<in> set (pred_lists fn ! b)" and as: "target_ok fn b as"
    and X: "map (vty (pr_state R)) X = etys (pr_state R) (q, b)" "\<forall>a \<in> set X. clean (pr_state R) a"
  shows "target_ok fn' b (map (resolved (qremap (pr_state R))) as @ X)"
proof -
  let ?p = "pr_state R" and ?f = "resolved (qremap (pr_state R))"
  note t = promoted_types [OF P room]
  have x: "\<forall>a \<in> set X. value_ok fn' a" "map (\<lambda>v. vd_type (vals fn' ! v)) X = etys ?p (q, b)"
    using X t(1,2) unfolding X(1) [symmetric] by (auto simp: clean_def)
  have v: "value_ok fn' (?f a) \<and> vd_type (vals fn' ! ?f a) = vd_type (vals fn ! a)" if "value_ok fn a" for a
    using t(3) [OF that] t(4) by (simp add: retypes_def)
  have "map (\<lambda>a. vd_type (vals fn' ! a)) (map ?f as) = map (\<lambda>a. vd_type (vals fn ! a)) as"
    using as v unfolding map_map comp_def by (intro map_cong) (auto simp: target_ok_types)
  then show ?thesis
    using promoted_params(1,2) [OF P room b(1)] join_types [OF promotesD(1) [OF P] b] as x v unfolding target_ok_types by auto
qed

lemma empty_target_ok:
  assumes P: "promotes pb fn R fn'" and room: "length (vals fn') \<le> NO_VALUE"
    and b: "b < length (blocks fn)" "q \<in> set (pred_lists fn ! b)" "params (blocks fn ! b) = []"
    and e: "(q, b) \<notin> fst ` set (pr_edges R)"
  shows "target_ok fn' b []"
proof -
  let ?p = "pr_state R"
  note d = promotesD [OF P]
  have ok: "edges_ok ?p" "static_ok ?p" using d(1) by (simp_all add: walking_def prom_ok_def lists_ok_def)
  have "(q, b) \<notin> set (edge_keys ?p)" using e resolve_edges_nth(1) [OF d(3)] by (metis list.set_map)
  then have "edge_args ?p (q, b) = None" using edge_keys_iff [OF ok] by blast
  then have "etys ?p (q, b) = []" by (simp add: etys_def edge_def)
  then have "ptys ?p b = []" using join_types [OF d(1) b(1,2)] b(3) by simp
  then show ?thesis using promoted_params(1,2) [OF P room b(1)] by (simp add: target_ok_types)
qed

lemma trampoline_target_ok:
  assumes P: "promotes pb fn R fn'" and "length (blocks fn) \<le> b" "b < length (blocks fn')"
  shows "target_ok fn' b []"
proof -
  note d = promotesD [OF P]
  have l: "length (blocks (qfn (pr_state R))) = length (blocks fn)"
    using d(1) extends_funcD(1) by (auto simp: walking_def)
  have "trampoline (pr_edges R) (map_insts (map_operands (resolved (qremap (pr_state R)))) (qfn (pr_state R))) (pr_blocks R ! b)"
    using d(4,10) assms(2,3) l by (simp add: placed_def map_insts_def)
  then show ?thesis using d(10,11) assms(3) by (simp add: target_ok_types trampoline_def)
qed

lemma map_operands_jump:
  "oper t = Op_Jump \<Longrightarrow> opa (map_operands f t) = opa t \<and> args (map_operands f t) = map f (args t)"
  by (simp add: map_operands_def operand_shape_def)

lemma map_operands_branch:
  "branching t \<Longrightarrow> opa (map_operands f t) = f (opa t) \<and> args (map_operands f t) = args t"
  by (auto simp: map_operands_def operand_shape_def branching_def)

lemma branching_targets_ok:
  assumes "oper t = Op_Branch \<or> oper t = Op_Switch"
    "\<And>x. x \<in> set (term_targets t) \<Longrightarrow> target_ok fn x []" "oper t = Op_Switch \<Longrightarrow> even (length (args t))" "value_ok fn (opa t)"
    "oper t = Op_Branch \<Longrightarrow> typed fn (opa t) Ty_I1"
  shows "inst_wf m fn sg t"
  using assms
  by (auto simp: term_targets_def intro: inst_wf.wf_branch inst_wf.wf_switch)

lemma branching_wf:
  assumes "inst_wf m fn sg t" "branching t"
  shows "value_ok fn (opa t)" "oper t = Op_Branch \<Longrightarrow> typed fn (opa t) Ty_I1" "oper t = Op_Switch \<Longrightarrow> even (length (args t))"
  using assms by (cases rule: inst_wf.cases; auto simp: branching_def op_order conversions_def)+

lemma jump_wf: "inst_wf m fn sg t \<Longrightarrow> oper t = Op_Jump \<Longrightarrow> target_ok fn (opa t) (args t)"
  by (erule inst_wf.cases) (auto simp: op_order conversions_def)

lemma promoted_term:
  assumes P: "promotes pb fn R fn'" and wf: "function_wf m fn" "has_body fn" and q: "q < length (blocks fn)"
  shows "term_placed (pr_edges R) (length (blocks fn)) (length (blocks fn')) q
      (map_operands (resolved (qremap (pr_state R))) (last (insts (blocks fn ! q)))) (last (insts (pr_blocks R ! q)))"
proof -
  let ?p = "pr_state R"
  note d = promotesD [OF P]
  have fe: "extends_func fn (qfn ?p)" using d(1) by (simp add: walking_def)
  have "last (insts (blocks (map_insts (map_operands (resolved (qremap ?p))) (qfn ?p)) ! q))
      = map_operands (resolved (qremap ?p)) (last (insts (blocks fn ! q)))"
    using extends_funcD(1,8) [OF fe] q wf_blocks(1) [OF wf q] by (simp add: map_insts_def last_map)
  then show ?thesis
    using d(4,10) q extends_funcD(1) [OF fe] by (auto simp: placed_def block_placed_def map_insts_def)
qed

lemma promoted_term_wf:
  assumes P: "promotes pb fn R fn'" and room: "length (vals fn') \<le> NO_VALUE"
    and wf: "function_wf m fn" "has_body fn" and q: "q < length (blocks fn)"
  shows "inst_wf m fn' (signatures m ! fsignature fn) (last (insts (pr_blocks R ! q)))"
    "oper (last (insts (pr_blocks R ! q))) = oper (last (insts (blocks fn ! q)))"
proof -
  let ?p = "pr_state R" and ?f = "resolved (qremap (pr_state R))" and ?t = "last (insts (blocks fn ! q))"
    and ?u = "last (insts (pr_blocks R ! q))"
  note d = promotesD [OF P] and ty = promoted_types [OF P room] and w = last_wf [OF wf q]
  note tp = promoted_term [OF P wf q]
  show op: "oper ?u = oper ?t" using tp by (simp add: term_placed_def)
  have f: "value_ok fn' (?f v) \<and> vd_type (vals fn' ! ?f v) = vd_type (vals fn ! v)" if "value_ok fn v" for v
    using ty(3) [OF that] ty(4) by (simp add: retypes_def)
  consider (jump) "oper ?t = Op_Jump" | (br) "branching ?t" | (other) "oper ?t \<notin> {Op_Jump, Op_Branch, Op_Switch}"
    by (auto simp: branching_def)
  then show "inst_wf m fn' (signatures m ! fsignature fn) ?u"
  proof cases
    case jump
    define X where "X = (case map_of (pr_edges R) (q, opa ?t) of Some as \<Rightarrow> as | None \<Rightarrow> [])"
    have u: "oper ?u = Op_Jump" "opa ?u = opa ?t" "args ?u = map ?f (args ?t) @ X"
      using tp jump map_operands_jump [OF jump, of ?f] by (simp_all add: term_placed_def X_def)
    have b: "opa ?t < length (blocks fn)" "q \<in> set (pred_lists fn ! opa ?t)"
      using target_pred [OF wf q, of "opa ?t"] jump by (simp_all add: term_targets_def)
    have "map (vty ?p) X = etys ?p (q, opa ?t) \<and> (\<forall>a \<in> set X. clean ?p a)"
    proof (cases "map_of (pr_edges R) (q, opa ?t)")
      case None
      have ok: "edges_ok ?p" "static_ok ?p" using d(1) by (simp_all add: walking_def prom_ok_def lists_ok_def)
      have "(q, opa ?t) \<notin> set (map fst (pr_edges R))" using None by (simp add: map_of_eq_None_iff)
      then have "edge_args ?p (q, opa ?t) = None" using edge_keys_iff [OF ok] resolve_edges_nth(1) [OF d(3)] by auto
      then show ?thesis using None by (simp add: X_def etys_def edge_def)
    next
      case (Some as)
      then show ?thesis using edge_args_typed [OF d(1,3) map_of_SomeD] by (simp add: X_def)
    qed
    then have "target_ok fn' (opa ?t) (map ?f (args ?t) @ X)"
      using jump_target_ok [OF P room b jump_wf [OF w jump]] by blast
    then show ?thesis using u by (intro inst_wf.wf_jump) simp_all
  next
    case br
    have u: "opa ?u = ?f (opa ?t)" "length (args ?u) = length (args ?t)"
        "set (term_targets ?u) \<subseteq> {x \<in> set (term_targets ?t). (q, x) \<notin> fst ` set (pr_edges R)} \<union> {length (blocks fn)..<length (blocks fn')}"
    proof -
      have "oper ?t \<noteq> Op_Jump" "branching (map_operands ?f ?t)" using br by (auto simp: branching_def)
      then show "opa ?u = ?f (opa ?t)" "length (args ?u) = length (args ?t)"
        "set (term_targets ?u) \<subseteq> {x \<in> set (term_targets ?t). (q, x) \<notin> fst ` set (pr_edges R)} \<union> {length (blocks fn)..<length (blocks fn')}"
        using tp map_operands_branch [OF br, of ?f] by (simp_all add: term_placed_def term_targets_map_operands)
    qed
    show ?thesis
    proof (rule branching_targets_ok)
      show "oper ?u = Op_Branch \<or> oper ?u = Op_Switch" using br op by (simp add: branching_def)
      show "target_ok fn' x []" if "x \<in> set (term_targets ?u)" for x
      proof (cases "x < length (blocks fn)")
        case True
        then have x: "x \<in> set (term_targets ?t)" "(q, x) \<notin> fst ` set (pr_edges R)" using that u(3) by auto
        have "params (blocks fn ! x) = []" using inst_wf_no_args [OF w _ x(1)] br by (simp add: branching_def)
        then show ?thesis using empty_target_ok [OF P room _ _ _ x(2)] target_pred [OF wf q x(1)] by blast
      next
        case False
        then have "x \<notin> set (term_targets ?t)" using target_pred(1) [OF wf q, of x] by blast
        then have "x \<in> {length (blocks fn)..<length (blocks fn')}" using that u(3) by blast
        then show ?thesis using trampoline_target_ok [OF P, of x] by simp
      qed
    qed (use branching_wf [OF w br] f u op br in \<open>auto simp: branching_def term_targets_def\<close>)
  next
    case other
    have "?u = map_operands ?f ?t" using tp other by (simp add: term_placed_def branching_def)
    moreover have "oper ?t \<noteq> Op_SlotAddr" using wf_blocks(2) [OF wf q] by (auto simp: is_terminator_def)
    ultimately show ?thesis
      using inst_wf_map_operands [OF inst_wf_other [OF w _ ty(3)] ty(4)] other by simp
  qed
qed

subsection \<open>Blocks\<close>

lemma slot_remap_bound:
  assumes "slot_remap cand fn s = Some k"
  shows "k < length (filter (\<lambda>s. cand s = None) [0..<length (slots fn)])"
proof -
  have s: "s < length (slots fn)" "cand s = None" "k = length (filter (\<lambda>r. cand r = None) [0..<s])"
    using assms by (auto simp: slot_remap_def split: if_splits)
  have "length (filter (\<lambda>r. cand r = None) [0..<s]) < length (filter (\<lambda>r. cand r = None) [0..<n])" if "s < n" for n
    using that s(2) by (induction n) (auto simp: less_Suc_eq)
  then show ?thesis using s(1,3) by simp
qed

lemma zero_inst_wf: "t \<noteq> Ty_Void \<Longrightarrow> inst_wf m fn sg (zero_inst t v)"
  by (cases t)
    (auto simp: zero_inst_def is_float_def is_integer_def intro: inst_wf.wf_const_int inst_wf.wf_const_float inst_wf.wf_const_null)

lemma zero_inst_fields [simp]: "result (zero_inst t v) = v" "itype (zero_inst t v) = t" "value_operands (zero_inst t v) = []"
  by (simp_all add: zero_inst_def value_operands_def operand_shape_def)

lemma compact_inst_fields [simp]:
  "oper (compact_inst cand fn i) = oper i" "result (compact_inst cand fn i) = result i" "itype (compact_inst cand fn i) = itype i"
  "oper i \<noteq> Op_SlotAddr \<Longrightarrow> compact_inst cand fn i = i"
  by (simp_all add: compact_inst_def)

lemma body_wf:
  assumes P: "promotes pb fn R fn'" and room: "length (vals fn') \<le> NO_VALUE"
    and i: "inst_wf m fn sg i" "\<not> is_terminator (oper i)"
    and s: "oper i = Op_SlotAddr \<Longrightarrow> slot_remap (candidates_of pb fn) fn (opa i) \<noteq> None"
  shows "inst_wf m fn' sg (compact_inst (candidates_of pb fn) fn (map_operands (resolved (qremap (pr_state R))) i))"
proof (cases "oper i = Op_SlotAddr")
  case True
  have "itype i = Ty_Ptr" using i(1) True by (cases rule: inst_wf.cases) (auto simp: op_order conversions_def)
  moreover have "map_operands (resolved (qremap (pr_state R))) i = i" using True by (simp add: map_operands_def operand_shape_def)
  moreover obtain k where "slot_remap (candidates_of pb fn) fn (opa i) = Some k" using s [OF True] by blast
  ultimately show ?thesis
    using True slot_remap_bound [of "candidates_of pb fn" fn "opa i" k] promotesD(9) [OF P]
    by (intro inst_wf.wf_slot_addr) (simp_all add: compact_inst_def)
next
  case False
  have "oper i \<notin> {Op_Jump, Op_Branch, Op_Switch, Op_SlotAddr}" using i(2) False by (auto simp: is_terminator_def)
  from inst_wf_map_operands [OF inst_wf_other [OF i(1) this promoted_types(3) [OF P room]] promoted_types(4) [OF P room]]
  show ?thesis using False by simp
qed

lemma prelude_inst:
  assumes "promotes pb fn R fn'" "i \<in> set (entry_prelude (pr_state R))"
  obtains t v where "i = zero_inst t v" "t \<noteq> Ty_Void" "good (pr_state R) v t"
  using promotesD(1) [OF assms(1)] assms(2) by (auto simp: walking_def prom_ok_def lists_ok_def prelude_ok_def)

lemma trampoline_jump:
  assumes P: "promotes pb fn R fn'" and wf: "function_wf m fn" "has_body fn"
    and b: "length (blocks fn) \<le> b" "b < length (blocks fn')"
  obtains q s as where "insts (pr_blocks R ! b) = [default_inst\<lparr>oper := Op_Jump, opa := s, args := as\<rparr>]"
    "((q, s), as) \<in> set (pr_edges R)" "s < length (blocks fn)" "q \<in> set (pred_lists fn ! s)" "params (blocks fn ! s) = []"
proof -
  let ?p = "pr_state R" and ?fn = "map_insts (map_operands (resolved (qremap (pr_state R)))) (qfn (pr_state R))"
  note d = promotesD [OF P]
  have fe: "extends_func fn (qfn ?p)" using d(1) by (simp add: walking_def)
  have l: "length (blocks ?fn) = length (blocks fn)" using extends_funcD(1) [OF fe] by (simp add: map_insts_def)
  have "trampoline (pr_edges R) ?fn (pr_blocks R ! b)" using d(4,10) b l by (simp add: placed_def)
  then obtain q s as where t: "((q, s), as) \<in> set (pr_edges R)" "oper (last (insts (blocks ?fn ! q))) \<noteq> Op_Jump"
      "insts (pr_blocks R ! b) = [default_inst\<lparr>oper := Op_Jump, opa := s, args := as\<rparr>]"
    by (auto simp: trampoline_def)
  have e: "q < length (blocks fn)" "s \<in> set (term_targets (last (insts (blocks ?fn ! q))))"
    using edges_from [OF d(1,3) wf] t(1) l by (auto simp: edge_from_def dest!: bspec)
  have la: "last (insts (blocks ?fn ! q)) = map_operands (resolved (qremap ?p)) (last (insts (blocks fn ! q)))"
    using extends_funcD(1,8) [OF fe] e(1) wf_blocks(1) [OF wf e(1)] by (simp add: map_insts_def last_map)
  have s: "s \<in> set (term_targets (last (insts (blocks fn ! q))))" using e(2) unfolding la term_targets_map_operands .
  moreover have "oper (last (insts (blocks fn ! q))) \<in> {Op_Branch, Op_Switch}"
    using t(2) s unfolding la by (auto simp: term_targets_def split: if_splits)
  ultimately have "params (blocks fn ! s) = []" using inst_wf_no_args [OF last_wf [OF wf e(1)]] by blast
  then show thesis using that t target_pred [OF wf e(1) s] by blast
qed

lemma promoted_block_wf:
  assumes P: "promotes pb fn R fn'" and room: "length (vals fn') \<le> NO_VALUE"
    and wf: "function_wf m fn" "has_body fn" and b: "b < length (blocks fn')"
  shows "block_wf m fn' (signatures m ! fsignature fn) (blocks fn' ! b)"
proof -
  let ?sg = "signatures m ! fsignature fn" and ?c = "compact_inst (candidates_of pb fn) fn" and ?p = "pr_state R"
  note d = promotesD [OF P]
  have bb: "b < length (pr_blocks R)" using b d(10) by simp
  define pre where "pre = (if b = 0 then entry_prelude ?p else [])"
  have prew: "inst_wf m fn' ?sg i \<and> \<not> is_terminator (oper i) \<and> ?c i = i" if i: "i \<in> set pre" for i
  proof -
    have "i \<in> set (entry_prelude ?p)" using i by (simp add: pre_def split: if_splits)
    then obtain t v where "i = zero_inst t v" "t \<noteq> Ty_Void" by (rule prelude_inst [OF P])
    then show ?thesis using zero_inst_wf [of t m fn' ?sg v] zero_inst_oper [of t v] by (auto simp: is_terminator_def)
  qed
  have map_pre: "map ?c pre = pre" using prew by (simp add: map_idI)
  show ?thesis
  proof (cases "b < length (blocks fn)")
    case True
    let ?g = "map_operands (resolved (qremap ?p))"
    let ?I = "filter (\<lambda>i. \<not> dies (addr_values ?p) i) (butlast (insts (blocks fn ! b)))" and ?u = "last (insts (pr_blocks R ! b))"
    have bc: "before_compaction fn R b = pre @ map ?g ?I @ [?u]" using True by (simp add: before_compaction_def pre_def Let_def)
    note u = promoted_term_wf [OF P room wf True]
    have ut: "is_terminator (oper ?u)" using u(2) wf_blocks(2) [OF wf True] by simp
    then have uc: "?c ?u = ?u" by (auto simp: compact_inst_def is_terminator_def)
    have ii: "insts (blocks fn' ! b) = pre @ map (\<lambda>i. ?c (?g i)) ?I @ [?u]"
      using d(12) [OF bb] bc map_pre uc by simp
    have body: "inst_wf m fn' ?sg (?c (?g i)) \<and> \<not> is_terminator (oper i)" if "i \<in> set ?I" for i
    proof -
      have i: "i \<in> set (butlast (insts (blocks fn ! b)))" using that by simp
      have "i \<in> set (all_insts fn)"
        unfolding in_all_insts using True in_set_butlastD [OF i] by (intro bexI [of _ "blocks fn ! b"]) simp_all
      then have w: "inst_wf m fn ?sg i" using function_insts_wf [OF wf] by (simp add: insts_wf_def)
      have nt: "\<not> is_terminator (oper i)" by (rule wf_blocks(3) [OF wf True i])
      have "slot_remap (candidates_of pb fn) fn (opa i) \<noteq> None" if s: "oper i = Op_SlotAddr"
      proof -
        have "?g i = i" using s by (simp add: map_operands_def operand_shape_def)
        then have "i \<in> set (before_compaction fn R b)" using \<open>i \<in> set ?I\<close> by (force simp: bc)
        then show ?thesis using d(13) [OF bb _ s] by blast
      qed
      from body_wf [OF P room w nt this] nt show ?thesis by blast
    qed
    show ?thesis unfolding block_wf_def ii using prew body u(1) ut by (auto simp: butlast_append)
  next
    case False
    then obtain q s as where t: "insts (pr_blocks R ! b) = [default_inst\<lparr>oper := Op_Jump, opa := s, args := as\<rparr>]"
        "((q, s), as) \<in> set (pr_edges R)" "s < length (blocks fn)" "q \<in> set (pred_lists fn ! s)" "params (blocks fn ! s) = []"
      using trampoline_jump [OF P wf _ b] by (metis not_le)
    have "0 < length (blocks fn)" using wf by (simp add: function_wf_def)
    then have "b \<noteq> 0" using False by (cases b) simp_all
    then have ii: "insts (blocks fn' ! b) = [default_inst\<lparr>oper := Op_Jump, opa := s, args := as\<rparr>]"
      using d(12) [OF bb] False t(1) by (simp add: before_compaction_def Let_def)
    have "target_ok fn s []" using t(3,5) by (simp add: target_ok_def)
    from jump_target_ok [OF P room t(3,4) this edge_args_typed [OF d(1,3) t(2)]]
    have "inst_wf m fn' ?sg (default_inst\<lparr>oper := Op_Jump, opa := s, args := as\<rparr>)" by (intro inst_wf.wf_jump) simp_all
    then show ?thesis unfolding block_wf_def ii by (simp add: is_terminator_def)
  qed
qed

lemma promoted_function_wf:
  assumes P: "promotes pb fn R fn'" and room: "length (vals fn') \<le> NO_VALUE" and wf: "function_wf m fn" "has_body fn"
  shows "function_wf m fn'"
proof -
  note d = promotesD [OF P]
  have "blocks fn \<noteq> []" "fsignature fn < length (signatures m)" using wf by (simp_all add: function_wf_def)
  moreover from this promoted_params(1) [OF P room, of 0] have "blocks fn' \<noteq> []" by auto
  moreover have "\<forall>blk \<in> set (blocks fn'). block_wf m fn' (signatures m ! fsignature fn') blk"
    using promoted_block_wf [OF P room wf] d(6) by (auto simp: all_set_conv_all_nth)
  ultimately show ?thesis using d(5,6) wf(2) by (simp add: function_wf_def)
qed

subsection \<open>Definitions\<close>

text \<open>
  Every operand of the result is defined in it: by an instruction, as a block parameter, or as one of the constants
  of the prelude.
\<close>

definition defined :: "func \<Rightarrow> value_id set" where
  "defined fn = result ` set (all_insts fn) \<union> (\<Union>b \<in> set (blocks fn). set (params b))"

definition uses_defined :: "func \<Rightarrow> bool" where
  "uses_defined fn \<longleftrightarrow> (\<forall>i \<in> set (all_insts fn). \<forall>v \<in> set (value_operands i). value_ok fn v \<longrightarrow> v \<in> defined fn)"

lemma coherent_defined:
  assumes "coherent fn" "v < length (vals fn)"
  shows "v \<in> defined fn"
proof -
  let ?d = "vals fn ! v"
  have d: "value_def_ok fn v" using assms by (simp add: coherent_def)
  then have b: "vd_block ?d < length (blocks fn)" by (simp add: value_def_ok_def Let_def)
  show ?thesis
  proof (cases "vd_is_param ?d")
    case True
    then have "v \<in> set (params (blocks fn ! vd_block ?d))"
      using d nth_mem [of "vd_index ?d" "params (blocks fn ! vd_block ?d)"] by (simp add: value_def_ok_def Let_def)
    then show ?thesis using b by (auto simp: defined_def intro!: bexI [of _ "blocks fn ! vd_block ?d"])
  next
    case False
    let ?i = "insts (blocks fn ! vd_block ?d) ! vd_index ?d"
    have "?i \<in> set (all_insts fn)" "result ?i = v"
      using d b False unfolding in_all_insts_nth by (auto simp: value_def_ok_def Let_def)
    then show ?thesis unfolding defined_def by (intro UnI1) (rule rev_image_eqI, assumption, rule sym)
  qed
qed

text \<open>A value that is neither a promoted load nor a promoted address survives.\<close>

lemma block_in_defined:
  "b < length (blocks fn) \<Longrightarrow> i \<in> set (insts (blocks fn ! b)) \<Longrightarrow> result i \<in> defined fn"
  "b < length (blocks fn) \<Longrightarrow> v \<in> set (params (blocks fn ! b)) \<Longrightarrow> v \<in> defined fn"
proof -
  assume b: "b < length (blocks fn)"
  { assume "i \<in> set (insts (blocks fn ! b))"
    then have "i \<in> set (all_insts fn)" unfolding in_all_insts using b by (intro bexI [of _ "blocks fn ! b"]) simp_all
    then show "result i \<in> defined fn" unfolding defined_def by (intro UnI1 imageI) }
  { assume "v \<in> set (params (blocks fn ! b))"
    then show "v \<in> defined fn" unfolding defined_def using nth_mem [OF b] by (intro UnI2) (rule UN_I) }
qed

lemma defined_cases:
  assumes "v \<in> defined fn"
  obtains (inst) b i where "b < length (blocks fn)" "i \<in> set (insts (blocks fn ! b))" "result i = v"
    | (param) b where "b < length (blocks fn)" "v \<in> set (params (blocks fn ! b))"
  using assms unfolding defined_def
proof
  assume "v \<in> result ` set (all_insts fn)"
  then obtain i where i: "v = result i" "i \<in> set (all_insts fn)" by (rule imageE)
  then obtain blk where "blk \<in> set (blocks fn)" "i \<in> set (insts blk)" unfolding in_all_insts by blast
  then show thesis using inst i(1) by (metis in_set_conv_nth)
next
  assume "v \<in> (\<Union>b \<in> set (blocks fn). set (params b))"
  then obtain blk where "blk \<in> set (blocks fn)" "v \<in> set (params blk)" by (rule UN_E)
  then show thesis using param by (metis in_set_conv_nth)
qed

lemma alive_result:
  assumes P: "promotes pb fn R fn'" and room: "length (vals fn') \<le> NO_VALUE" and wf: "function_wf m fn" "has_body fn"
    and b: "b < length (blocks fn)" and i: "i \<in> set (insts (blocks fn ! b))" "\<not> dies (addr_values (pr_state R)) i"
  shows "result i \<in> defined fn'"
proof -
  let ?p = "pr_state R" and ?I = "insts (blocks fn ! b)"
  note d = promotesD [OF P]
  have b': "b < length (blocks fn')" "b < length (pr_blocks R)" using promoted_params(1) [OF P room b] d(10) by simp_all
  have "\<exists>j \<in> set (before_compaction fn R b). result j = result i"
  proof (cases "i \<in> set (butlast ?I)")
    case True
    then show ?thesis using i(2) b by (auto simp: before_compaction_def Let_def intro!: bexI [of _ "map_operands (resolved (qremap ?p)) i"])
  next
    case False
    then have "i = last ?I" using i(1) wf_blocks(1) [OF wf b] by (metis append_butlast_last_id in_set_conv_decomp_last rotate1.simps(2) set_ConsD set_rotate1)
    then have "result (last (insts (pr_blocks R ! b))) = result i"
      using promoted_term [OF P wf b] by (simp add: term_placed_def)
    then show ?thesis using b by (auto simp: before_compaction_def Let_def)
  qed
  then show ?thesis
    using block_in_defined(1) [OF b'(1)] d(12) [OF b'(2)] by (metis compact_inst_fields(2) image_eqI list.set_map)
qed

lemma survives:
  assumes P: "promotes pb fn R fn'" and room: "length (vals fn') \<le> NO_VALUE" and wf: "function_wf m fn" "has_body fn"
    and pm: "promotable fn"
    and v: "v < length (vals (qfn (pr_state R)))" "addr_values (pr_state R) v = None" "v \<notin> fst ` set (qremap (pr_state R))"
  shows "v \<in> defined fn'"
proof (cases "v < length (vals fn)")
  case True
  let ?p = "pr_state R"
  note d = promotesD [OF P]
  have fe: "extends_func fn (qfn ?p)" using d(1) by (simp add: walking_def)
  have vn: "v \<noteq> NO_VALUE" using True pm by (auto simp: promotable_def coherent_def)
  have "v \<in> defined fn" using coherent_defined [OF _ True] pm by (simp add: promotable_def)
  then show ?thesis
  proof (cases rule: defined_cases)
    case (inst b i)
    have i: "i \<in> set (all_insts fn)" unfolding in_all_insts using inst by (intro bexI [of _ "blocks fn ! b"]) simp_all
    have "\<not> promoted_access (addr_values ?p) Op_Load i" using v(3) d(2) i inst(3) by (auto simp: load_results_def)
    moreover have "oper i \<noteq> Op_Store" using pm i inst(3) vn by (auto simp: promotable_def)
    ultimately have "\<not> dies (addr_values ?p) i" using v(2) inst(3) by (auto simp: dies_def promoted_access_def)
    from alive_result [OF P room wf inst(1,2) this] show ?thesis using inst(3) by simp
  next
    case (param b)
    then have "v \<in> set (params (blocks fn' ! b))"
      using promoted_params(3) [OF P room param(1)] extends_funcD(9) [OF fe param(1)] by auto
    then show ?thesis using block_in_defined(2) promoted_params(1) [OF P room param(1)] by blast
  qed
next
  case False
  let ?p = "pr_state R"
  note d = promotesD [OF P]
  have fe: "extends_func fn (qfn ?p)" using d(1) by (simp add: walking_def)
  have "v \<in> homes ?p" using False v(1) d(1) by (auto simp: walking_def)
  then consider (pre) i where "i \<in> set (entry_prelude ?p)" "result i = v"
    | (param) b where "b < length (blocks (qfn ?p))" "v \<in> set (params (blocks (qfn ?p) ! b))"
    by (auto simp: homes_def)
  then show ?thesis
  proof cases
    case pre
    have "0 < length (blocks fn)" using wf by (simp add: function_wf_def)
    then have b: "0 < length (blocks fn')" "0 < length (pr_blocks R)" using promoted_params(1) [OF P room, of 0] d(10) by linarith+
    have "i \<in> set (before_compaction fn R 0)" using pre(1) by (simp add: before_compaction_def Let_def)
    then have "compact_inst (candidates_of pb fn) fn i \<in> set (insts (blocks fn' ! 0))" using d(12) [OF b(2)] by simp
    from block_in_defined(1) [OF b(1) this] show ?thesis using pre(2) by simp
  next
    case param
    then have b: "b < length (blocks fn)" using extends_funcD(1) [OF fe] by simp
    have "v \<in> set (params (blocks fn' ! b))" using promoted_params(3) [OF P room b] param(2) by simp
    then show ?thesis by (rule block_in_defined(2) [OF promoted_params(1) [OF P room b]])
  qed
qed

lemma operand_unpromoted:
  assumes w: "walking pb fn p" and i: "i \<in> set (all_insts fn)" "\<not> dies (addr_values p) i" and v: "v \<in> set (value_operands i)"
  shows "addr_values p v = None"
proof -
  have a: "addr_values p = promoted_addrs fn (candidates_of pb fn)" using w by (simp add: walking_def)
  have "settled fn (addr_to_slot fn) i (candidates_of pb fn)" by (rule candidates_settled [OF i(1)])
  moreover have "candidates_of pb fn s = None" if "addr_to_slot fn (opa i) = Some s" "oper i \<in> {Op_Load, Op_Store}" for s
    using i(2) that promoted_addrs_iff [of fn "candidates_of pb fn" "opa i" s] unfolding a dies_def promoted_access_def by auto
  ultimately have "\<forall>s. addr_to_slot fn v = Some s \<longrightarrow> candidates_of pb fn s = None"
    using v unfolding settled_def by (auto simp: value_operands_def operand_shape_def split: if_splits)
  then show ?thesis unfolding a promoted_addrs_def by (auto split: option.split)
qed

lemma resolved_defined:
  assumes P: "promotes pb fn R fn'" and room: "length (vals fn') \<le> NO_VALUE" and wf: "function_wf m fn" "has_body fn"
    and pm: "promotable fn" and v: "resolve (qremap (pr_state R)) v = Some w" "value_ok fn' w" "addr_values (pr_state R) v = None"
  shows "w \<in> defined fn'"
proof -
  let ?p = "pr_state R"
  have rg: "remap_good ?p" using promotesD(1) [OF P] by (simp add: walking_def)
  have n: "map_of (qremap ?p) w = None" by (rule resolve_terminal [OF v(1)])
  have "good ?p w (vty ?p w)"
  proof (cases "map_of (qremap ?p) v")
    case None
    then have "w = v" using v(1) by (simp add: resolve_stop)
    then show ?thesis using v promoted_types(1) [OF P room] by (simp add: good_def)
  next
    case (Some u)
    then have "v < length (vals (qfn ?p))" using rg by (auto simp: remap_good_def dest!: map_of_SomeD)
    then have "good ?p v (vty ?p v)" using v(3) by (simp add: good_def)
    from resolve_good [OF v(1) rg this] show ?thesis by (simp add: good_def)
  qed
  moreover have "w \<notin> fst ` set (qremap ?p)" using n by (simp add: map_of_eq_None_iff)
  ultimately show ?thesis using survives [OF P room wf pm] by (simp add: good_def)
qed

lemma operand_defined:
  assumes P: "promotes pb fn R fn'" and room: "length (vals fn') \<le> NO_VALUE" and wf: "function_wf m fn" "has_body fn"
    and pm: "promotable fn" and i: "i \<in> set (all_insts fn)" "\<not> dies (addr_values (pr_state R)) i"
    and v: "v \<in> set (value_operands i)" "value_ok fn' (resolved (qremap (pr_state R)) v)"
  shows "resolved (qremap (pr_state R)) v \<in> defined fn'"
proof -
  let ?r = "qremap (pr_state R)"
  note d = promotesD [OF P]
  have fe: "extends_func fn (qfn (pr_state R))" using d(1) by (simp add: walking_def)
  have nv: "v \<noteq> NO_VALUE" using v(2) by (auto simp: resolved_def value_ok_def)
  have "i \<in> set (all_insts (qfn (pr_state R)))" using i(1) extends_funcD(1,8) [OF fe] unfolding in_all_insts_nth by metis
  from d(14) [OF this] obtain w where w: "resolve ?r v = Some w" using v(1) nv by (auto simp: resolvable_def)
  then have "resolved ?r v = w" using nv by (simp add: resolved_def)
  then show ?thesis using resolved_defined [OF P room wf pm w] v(2) operand_unpromoted [OF d(1) i v(1)] by simp
qed

lemma edge_arg_defined:
  assumes P: "promotes pb fn R fn'" and room: "length (vals fn') \<le> NO_VALUE" and wf: "function_wf m fn" "has_body fn"
    and pm: "promotable fn" and e: "((q, b), as) \<in> set (pr_edges R)" and a: "a \<in> set as"
  shows "a \<in> defined fn'"
proof -
  let ?p = "pr_state R"
  note d = promotesD [OF P]
  have ok: "edges_ok ?p" using d(1) by (simp add: walking_def prom_ok_def lists_ok_def)
  have "list_all2 (\<lambda>a a'. resolve (qremap ?p) a = Some a') (edge ?p (q, b)) as" by (rule resolve_edges_nth(2) [OF d(3) e])
  then obtain x where x: "x \<in> set (edge ?p (q, b))" "resolve (qremap ?p) x = Some a"
    using list_all2_right [OF _ a] by blast
  have "clean ?p a" using edge_args_typed(2) [OF d(1,3) e] a by blast
  then have "value_ok fn' a" using promoted_types(1) [OF P room] by (simp add: clean_def)
  moreover have "addr_values ?p x = None" using edge_clean [OF ok x(1)] by (simp add: clean_def)
  ultimately show ?thesis using resolved_defined [OF P room wf pm x(2)] by blast
qed

lemma value_operands_map_subset: "set (value_operands (map_operands f i)) \<subseteq> f ` set (value_operands i) \<union> {NO_VALUE} \<union> {f NO_VALUE}"
  by (auto simp: value_operands_def map_operands_def split: operand_shape.splits if_splits)

lemma mapped_operand_defined:
  assumes P: "promotes pb fn R fn'" and room: "length (vals fn') \<le> NO_VALUE" and wf: "function_wf m fn" "has_body fn"
    and pm: "promotable fn" and i: "i \<in> set (all_insts fn)" "\<not> dies (addr_values (pr_state R)) i"
    and v: "v \<in> set (value_operands (map_operands (resolved (qremap (pr_state R))) i))" "value_ok fn' v"
  shows "v \<in> defined fn'"
proof -
  have "resolved (qremap (pr_state R)) NO_VALUE = NO_VALUE" by (simp add: resolved_def)
  moreover have "v \<noteq> NO_VALUE" using v(2) by (simp add: value_ok_def)
  ultimately obtain u where "u \<in> set (value_operands i)" "v = resolved (qremap (pr_state R)) u"
    using v(1) value_operands_map_subset by fastforce
  then show ?thesis using operand_defined [OF P room wf pm i] v(2) by blast
qed

lemma terminator_operand:
  assumes "term_placed E n l q t u" "v \<in> set (value_operands u)"
  shows "v \<in> set (value_operands t) \<or> (\<exists>s as. map_of E (q, s) = Some as \<and> v \<in> set as)"
  using assms by (auto simp: term_placed_def value_operands_def operand_shape_def branching_def split: if_splits option.splits)

lemma promoted_uses_defined:
  assumes P: "promotes pb fn R fn'" and room: "length (vals fn') \<le> NO_VALUE" and wf: "function_wf m fn" "has_body fn"
    and pm: "promotable fn"
  shows "uses_defined fn'"
  unfolding uses_defined_def
proof (intro ballI impI)
  fix i v
  assume i: "i \<in> set (all_insts fn')" and v: "v \<in> set (value_operands i)" "value_ok fn' v"
  let ?p = "pr_state R" and ?g = "map_operands (resolved (qremap (pr_state R)))"
  note d = promotesD [OF P]
  obtain b where b: "b < length (blocks fn')" "i \<in> set (insts (blocks fn' ! b))"
    using i unfolding in_all_insts by (metis in_set_conv_nth)
  then have bb: "b < length (pr_blocks R)" using d(10) by simp
  obtain j where j: "j \<in> set (before_compaction fn R b)" "i = compact_inst (candidates_of pb fn) fn j"
    using b(2) d(12) [OF bb] by auto
  have "value_operands i = value_operands j"
    unfolding j(2) compact_inst_def by (simp add: value_operands_def operand_shape_def)
  then have vj: "v \<in> set (value_operands j)" using v(1) by simp
  show "v \<in> defined fn'"
  proof (cases "j \<in> set (entry_prelude ?p)")
    case True
    then obtain t w where "j = zero_inst t w" by (rule prelude_inst [OF P])
    then show ?thesis using vj by simp
  next
    case np: False
    show ?thesis
    proof (cases "b < length (blocks fn)")
      case True
      let ?I = "insts (blocks fn ! b)"
      have all: "x \<in> set (all_insts fn)" if "x \<in> set ?I" for x
        unfolding in_all_insts using True that by (intro bexI [of _ "blocks fn ! b"]) simp_all
      consider (body) x where "x \<in> set (butlast ?I)" "\<not> dies (addr_values ?p) x" "j = ?g x" | (tm) "j = last (insts (pr_blocks R ! b))"
        using j(1) np True by (auto simp: before_compaction_def Let_def split: if_splits)
      then show ?thesis
      proof cases
        case body
        then show ?thesis using mapped_operand_defined [OF P room wf pm all [OF in_set_butlastD]] vj v(2) by blast
      next
        case tm
        have t: "last ?I \<in> set ?I" using wf_blocks(1) [OF wf True] by simp
        have "\<not> dies (addr_values ?p) (last ?I)"
          using wf_blocks(2) [OF wf True] by (auto simp: dies_def promoted_access_def is_terminator_def)
        moreover have "v \<in> set (value_operands (?g (last ?I))) \<or> (\<exists>s as. map_of (pr_edges R) (b, s) = Some as \<and> v \<in> set as)"
          using terminator_operand [OF promoted_term [OF P wf True]] vj tm by blast
        ultimately show ?thesis
          using mapped_operand_defined [OF P room wf pm all [OF t]] edge_arg_defined [OF P room wf pm map_of_SomeD] v(2) by blast
      qed
    next
      case False
      then obtain q s as where t: "insts (pr_blocks R ! b) = [default_inst\<lparr>oper := Op_Jump, opa := s, args := as\<rparr>]"
          "((q, s), as) \<in> set (pr_edges R)"
        using trampoline_jump [OF P wf _ b(1)] by (metis not_le)
      have "j = default_inst\<lparr>oper := Op_Jump, opa := s, args := as\<rparr>"
        using j(1) np False t(1) by (auto simp: before_compaction_def Let_def split: if_splits)
      then have "v \<in> set as" using vj by (simp add: value_operands_def operand_shape_def)
      then show ?thesis by (rule edge_arg_defined [OF P room wf pm t(2)])
    qed
  qed
qed

subsection \<open>Results\<close>

text \<open>Every instruction of the result comes from the prelude, from the function, or is the jump of a trampoline.\<close>

lemma promoted_inst_cases:
  assumes P: "promotes pb fn R fn'" and wf: "function_wf m fn" "has_body fn" and i: "i \<in> set (all_insts fn')"
  obtains (pre) t v where "i = zero_inst t v" "good (pr_state R) v t"
    | (old) j where "j \<in> set (all_insts fn)" "oper i = oper j" "result i = result j" "itype i = itype j"
    | (jump) s as where "i = default_inst\<lparr>oper := Op_Jump, opa := s, args := as\<rparr>"
proof -
  note d = promotesD [OF P]
  obtain b where b: "b < length (blocks fn')" "i \<in> set (insts (blocks fn' ! b))"
    using i unfolding in_all_insts by (metis in_set_conv_nth)
  then have bb: "b < length (pr_blocks R)" using d(10) by simp
  obtain j where j: "j \<in> set (before_compaction fn R b)" "i = compact_inst (candidates_of pb fn) fn j"
    using b(2) d(12) [OF bb] by auto
  show thesis
  proof (cases "j \<in> set (entry_prelude (pr_state R))")
    case True
    then obtain t v where z: "j = zero_inst t v" "good (pr_state R) v t" by (rule prelude_inst [OF P])
    have "oper j \<noteq> Op_SlotAddr" using zero_inst_oper [of t v] z(1) by auto
    then show thesis using pre z j(2) by simp
  next
    case np: False
    show thesis
    proof (cases "b < length (blocks fn)")
      case True
      let ?I = "insts (blocks fn ! b)"
      have all: "x \<in> set (all_insts fn)" if "x \<in> set ?I" for x
        unfolding in_all_insts using True that by (intro bexI [of _ "blocks fn ! b"]) simp_all
      consider (body) x where "x \<in> set (butlast ?I)" "j = map_operands (resolved (qremap (pr_state R))) x"
        | (tm) "j = last (insts (pr_blocks R ! b))"
        using j(1) np True by (auto simp: before_compaction_def Let_def split: if_splits)
      then show thesis
      proof cases
        case body
        then show thesis using old [of x] all [OF in_set_butlastD] j(2) by simp
      next
        case tm
        have "last ?I \<in> set ?I" using wf_blocks(1) [OF wf True] by simp
        moreover have "oper j = oper (last ?I)" "result j = result (last ?I)" "itype j = itype (last ?I)"
          using promoted_term [OF P wf True] tm by (simp_all add: term_placed_def)
        ultimately show thesis using old [of "last ?I"] all j(2) by simp
      qed
    next
      case False
      then obtain q s as where t: "insts (pr_blocks R ! b) = [default_inst\<lparr>oper := Op_Jump, opa := s, args := as\<rparr>]"
        using trampoline_jump [OF P wf _ b(1)] by (metis not_le)
      have "j = default_inst\<lparr>oper := Op_Jump, opa := s, args := as\<rparr>"
        using j(1) np False t(1) by (auto simp: before_compaction_def Let_def split: if_splits)
      then show thesis using jump j(2) by simp
    qed
  qed
qed

lemma promoted_ssa_typed:
  assumes P: "promotes pb fn R fn'" and room: "length (vals fn') \<le> NO_VALUE" and wf: "function_wf m fn" "has_body fn"
    and pm: "promotable fn" and st: "ssa_typed fn"
  shows "ssa_typed fn'"
proof -
  let ?p = "pr_state R"
  note d = promotesD [OF P] and ty = promoted_types [OF P room]
  have l: "length (vals fn') = length (vals (qfn ?p))" using d(8) by (rule map_eq_imp_length_eq)
  have pk: "params_ok ?p" and fe: "extends_func fn (qfn ?p)" using d(1) by (simp_all add: walking_def prom_ok_def lists_ok_def)
  have "p < length (vals fn')" if b: "b < length (blocks fn')" "p \<in> set (params (blocks fn' ! b))" for b p
  proof (cases "b < length (blocks fn)")
    case True
    then show ?thesis using promoted_params(3) [OF P room True] pk b(2) l extends_funcD(1) [OF fe] by (auto simp: params_ok_def)
  next
    case False
    then have "target_ok fn' b []" using trampoline_target_ok [OF P] b(1) by simp
    then show ?thesis using b(2) by (simp add: target_ok_types)
  qed
  then have "\<forall>blk \<in> set (blocks fn'). \<forall>p \<in> set (params blk). p < length (vals fn')" by (metis in_set_conv_nth)
  moreover have "value_ok fn' (result i) \<longrightarrow> vd_type (vals fn' ! result i) = itype i" if "i \<in> set (all_insts fn')" for i
    using P wf that
  proof (cases rule: promoted_inst_cases)
    case (pre t v)
    then show ?thesis using ty(2) [of v] by (simp add: good_def)
  next
    case (old j)
    have "result j = NO_VALUE \<or> value_ok fn (result j)"
      using pm old(1) unfolding in_all_insts_nth by (auto simp: promotable_def coherent_def result_ok_def value_ok_def Let_def)
    then show ?thesis using old st ty(3) [of "result j"] by (auto simp: ssa_typed_def value_ok_def)
  next
    case jump
    then show ?thesis by (simp add: value_ok_def default_inst_def)
  qed
  moreover have "oper i \<in> {Op_Trunc, Op_ZExt, Op_SExt} \<longrightarrow> is_integer (itype i)" if "i \<in> set (all_insts fn')" for i
    using P wf that
  proof (cases rule: promoted_inst_cases)
    case (pre t v)
    then show ?thesis using zero_inst_oper [of t v] by auto
  next
    case (old j)
    then show ?thesis using st by (simp add: ssa_typed_def)
  qed simp
  ultimately show ?thesis by (simp add: ssa_typed_def)
qed

end
