(* ===== verification/Mir_Promote_Ends.thy ===== *)
theory Mir_Promote_Ends
  imports Mir_Promote_Wf
begin

text \<open>
  When slot promotion returns. The search for a reaching value goes from a block to its only predecessor, or opens a
  join and marks it before its predecessors are searched. It ends when only predecessors rise in some ranking of the
  blocks, as the depth in the dominator tree of reachable code gives. Chains of replaced loads end when a stored value
  is defined before its store.
\<close>

subsection \<open>Ranked functions\<close>

text \<open>\<open>before\<close> says that a value is defined before an instruction, \<open>upto\<close> that it is defined no later than in a block.\<close>

definition before :: "func \<Rightarrow> (block_id \<Rightarrow> nat) \<Rightarrow> value_id \<Rightarrow> block_id \<Rightarrow> nat \<Rightarrow> bool" where
  "before fn rank v b k \<longleftrightarrow>
     (let d = vals fn ! v in
      length (vals fn) \<le> v \<or> vd_is_param d \<or> rank (vd_block d) < rank b \<or> vd_block d = b \<and> vd_index d < k)"

definition upto_block :: "func \<Rightarrow> (block_id \<Rightarrow> nat) \<Rightarrow> value_id \<Rightarrow> block_id \<Rightarrow> bool" where
  "upto_block fn rank v b \<longleftrightarrow>
     (let d = vals fn ! v in
      length (vals fn) \<le> v \<or> vd_is_param d \<or> rank (vd_block d) < rank b \<or> vd_block d = b)"

definition dominator_ranked :: "func \<Rightarrow> (block_id \<Rightarrow> nat) \<Rightarrow> bool" where
  "dominator_ranked fn rank \<longleftrightarrow>
     (\<forall>b < length (blocks fn). \<forall>q \<in> set (pred_lists fn ! b). pred_lists fn ! b = [q] \<longrightarrow> rank q < rank b) \<and>
     (\<forall>b < length (blocks fn). \<forall>k < length (insts (blocks fn ! b)).
        let i = insts (blocks fn ! b) ! k in oper i = Op_Store \<longrightarrow> before fn rank (opb i) b k)"

lemma before_upto: "before fn rank v b k \<Longrightarrow> upto_block fn rank v b"
  by (auto simp: before_def upto_block_def Let_def)

lemma before_mono: "before fn rank v b k \<Longrightarrow> k \<le> l \<Longrightarrow> before fn rank v b l"
  by (auto simp: before_def Let_def)

lemma upto_before: "upto_block fn rank v q \<Longrightarrow> rank q < rank b \<Longrightarrow> before fn rank v b k"
  by (auto simp: before_def upto_block_def Let_def)

lemma fresh_before: "length (vals fn) \<le> v \<Longrightarrow> before fn rank v b k"
  by (simp add: before_def Let_def)

subsection \<open>The search ends\<close>

lemma zero_for_frame:
  assumes "zero_for s t p = (v, p1)"
  shows "entry_def p1 = entry_def p" "exit_def_memo p1 = exit_def_memo p" "last_store p1 = last_store p" "preds p1 = preds p"
    "length (vals (qfn p)) \<le> length (vals (qfn p1))"
    "zero_consts p s = Some v \<and> p1 = p \<or> v = length (vals (qfn p)) \<and> zero_consts p1 = (zero_consts p)(s \<mapsto> v)"
  using assms by (auto simp: zero_for_def new_value_def split: option.splits)

lemma join_param_frame:
  assumes "join_param s b t p = (v, p1)"
  shows "entry_def p1 = (entry_def p)((s, b) \<mapsto> v)" "exit_def_memo p1 = exit_def_memo p" "last_store p1 = last_store p"
    "preds p1 = preds p" "zero_consts p1 = zero_consts p" "v = length (vals (qfn p))"
    "length (vals (qfn p)) \<le> length (vals (qfn p1))"
  using assms by (auto simp: join_param_def new_value_def Let_def)

lemma push_edge_frame [simp]:
  "entry_def (push_edge e v p) = entry_def p" "exit_def_memo (push_edge e v p) = exit_def_memo p"
  "last_store (push_edge e v p) = last_store p" "preds (push_edge e v p) = preds p" "zero_consts (push_edge e v p) = zero_consts p"
  "qfn (push_edge e v p) = qfn p"
  by (simp_all add: push_edge_def)

lemma reaches_keeps_memo:
  assumes "reaches c p r"
  shows "dom (entry_def p) \<subseteq> dom (entry_def (snd r)) \<and> preds (snd r) = preds p"
  using assms
proof (induction rule: reaches.induct)
  case (entry_zero p s b t v p1)
  then show ?case using zero_for_frame(1,4) [of s t p v p1] by auto
next
  case (entry_join p s b t v p1 u p2)
  have "dom (entry_def p) \<subseteq> dom (entry_def p1)" "preds p1 = preds p"
    using join_param_frame(1,4) [OF entry_join.hyps(4)] by auto
  then show ?case using entry_join.IH by auto
qed auto

definition open_joins :: "nat \<Rightarrow> prom \<Rightarrow> block_id set" where
  "open_joins s p = {b. b < length (preds p) \<and> is_join p b \<and> entry_def p (s, b) = None}"

lemma open_joins_finite [simp]: "finite (open_joins s p)"
  by (simp add: open_joins_def)

lemma open_joins_mono:
  "dom (entry_def p) \<subseteq> dom (entry_def p') \<Longrightarrow> preds p' = preds p \<Longrightarrow> card (open_joins s p') \<le> card (open_joins s p)"
  by (rule card_mono) (auto simp: open_joins_def is_join_def dom_def)

definition call_slot :: "reaching_call \<Rightarrow> nat" where
  "call_slot c = (case c of Entry_Of s b \<Rightarrow> s | Exit_Of s b \<Rightarrow> s | Edges_Of s b qs \<Rightarrow> s)"

definition call_level :: "(block_id \<Rightarrow> nat) \<Rightarrow> nat \<Rightarrow> reaching_call \<Rightarrow> nat" where
  "call_level rank n c = (case c of Entry_Of s b \<Rightarrow> 2 * rank b | Exit_Of s b \<Rightarrow> 2 * rank b + 1 | Edges_Of s b qs \<Rightarrow> 2 * n + length qs)"

lemma reaches_total:
  fixes rank :: "block_id \<Rightarrow> nat"
  assumes rank: "\<And>b q. b < length ps \<Longrightarrow> ps ! b = [q] \<Longrightarrow> rank q < rank b" and n: "\<And>b. b < length ps \<Longrightarrow> rank b < n"
    and "prom_ok p" "call_ok t p c" "preds p = ps"
  shows "\<exists>r. reaches c p r"
  using assms(3-)
proof (induction "(c, p)" arbitrary: c p
    rule: wf_induct_rule [OF wf_measures, of "[\<lambda>(c, p). card (open_joins (call_slot c) p), \<lambda>(c, p). call_level rank n c]"])
  case (1 c p)
  have IH: "\<exists>r. reaches c' p' r" if "prom_ok p'" "call_ok t p' c'" "preds p' = ps"
      "card (open_joins (call_slot c') p') < card (open_joins (call_slot c) p) \<or>
       card (open_joins (call_slot c') p') \<le> card (open_joins (call_slot c) p) \<and> call_level rank n c' < call_level rank n c" for c' p'
    using 1(1) [of c' p'] that by (auto simp: le_less)
  have st: "static_ok p" "length (blocks (qfn p)) = length ps" using 1(2,4) by (auto simp: prom_ok_def static_ok_def)
  show ?case
  proof (cases c)
    case (Entry_Of s b)
    then have t: "vars p s = Some t" "b < length ps" using 1(3) st by (simp_all add: call_ok_def)
    consider (memo) v where "entry_def p (s, b) = Some v" | (zero) "entry_def p (s, b) = None" "preds p ! b = []"
      | (single) q where "entry_def p (s, b) = None" "preds p ! b = [q]" | (join) "entry_def p (s, b) = None" "is_join p b"
      unfolding is_join_def using length_one [of "preds p ! b"] length_two [of "preds p ! b"] by (metis option.exhaust)
    then show ?thesis
    proof cases
      case memo
      then show ?thesis using Entry_Of reaches.entry_memo by blast
    next
      case zero
      obtain v p1 where "zero_for s t p = (v, p1)" by fastforce
      from reaches.entry_zero [OF zero(1) t(1) zero(2) this] show ?thesis using Entry_Of by blast
    next
      case single
      have "q < length ps" using st t(2) single(2) by (auto simp: static_ok_def)
      then have "\<exists>r. reaches (Exit_Of s q) p r"
        using IH [of p "Exit_Of s q"] 1 Entry_Of t st rank [OF t(2)] single(2) by (simp add: call_ok_def call_slot_def call_level_def)
      then show ?thesis using reaches.entry_single [OF single(1) t(1) single(2)] Entry_Of by fastforce
    next
      case join
      obtain v p1 where j: "join_param s b t p = (v, p1)" by fastforce
      note jf = join_param_frame [OF j]
      have b: "b < length (blocks (qfn p))" using t(2) st(2) by simp
      note js = join_param_step(1,2) [OF 1(2) t(1) b join(2) j]
      have "open_joins s p1 \<subset> open_joins s p"
        using jf(1,4) join t(2) 1(4) by (auto simp: open_joins_def is_join_def)
      then have "card (open_joins s p1) < card (open_joins s p)" by (intro psubset_card_mono) simp_all
      moreover have "call_ok t p1 (Edges_Of s b (preds p ! b))"
        using t b join(2) extD(1,4,6,8) [OF js(1)] st(1) by (simp add: call_ok_def static_ok_def)
      ultimately obtain r where "reaches (Edges_Of s b (preds p ! b)) p1 r"
        using IH [of p1 "Edges_Of s b (preds p ! b)"] js(2) jf(4) 1(4) Entry_Of by (auto simp: call_slot_def)
      then show ?thesis using reaches.entry_join [OF join(1) t(1) join(2) j] Entry_Of by (cases r) blast
    qed
  next
    case (Exit_Of s b)
    then have t: "vars p s = Some t" "b < length ps" using 1(3) st by (simp_all add: call_ok_def)
    show ?thesis
    proof (cases "exit_def_memo p (s, b) = None \<and> last_store p (s, b) = None")
      case True
      have "\<exists>r. reaches (Entry_Of s b) p r"
        using IH [of p "Entry_Of s b"] 1 Exit_Of by (simp add: call_ok_def call_slot_def call_level_def)
      then show ?thesis using reaches.exit_entry [of p s b] True Exit_Of by fastforce
    next
      case False
      then show ?thesis using Exit_Of reaches.exit_memo [of p s b] reaches.exit_store [of p s b]
        by (cases "exit_def_memo p (s, b)"; cases "last_store p (s, b)") auto
    qed
  next
    case (Edges_Of s b qs)
    show ?thesis
    proof (cases qs)
      case (Cons q qs')
      have t: "vars p s = Some t" "b < length (blocks (qfn p))" "is_join p b" "q \<in> set (preds p ! b)" "distinct qs'" "q \<notin> set qs'"
          "set qs' \<subseteq> set (preds p ! b)"
        using 1(3) Edges_Of Cons by (simp_all add: call_ok_def)
      have q: "q < length ps" using st t(2,4) by (auto simp: static_ok_def)
      then have cq: "call_ok t p (Exit_Of s q)" using t(1) st(2) by (simp add: call_ok_def)
      obtain v p1 where e: "reaches (Exit_Of s q) p (v, p1)"
        using IH [OF 1(2) cq 1(4)] n [OF q] Edges_Of by (auto simp: call_slot_def call_level_def)
      have a: "stepped t {} p p1" "good p1 v t" using reaches_ok [OF e cq 1(2)] by (simp_all add: answer_ok_def call_edges_def)
      note x = extD(1,4,6,8) [OF steppedD(1) [OF a(1)]]
      have s1: "stepped t {(q, b)} p1 (push_edge (q, b) v p1)"
        using a t x by (intro push_edge_step) (simp_all add: steppedD)
      note y = extD(1,4,6,8) [OF steppedD(1) [OF s1]]
      have "card (open_joins s (push_edge (q, b) v p1)) \<le> card (open_joins s p)"
        using reaches_keeps_memo [OF e] by (intro open_joins_mono) simp_all
      then obtain r where "reaches (Edges_Of s b qs') (push_edge (q, b) v p1) r"
        using IH [of "push_edge (q, b) v p1" "Edges_Of s b qs'"] steppedD(2) [OF s1] t x y 1(4) Edges_Of Cons
        by (auto simp: call_ok_def call_slot_def call_level_def)
      then show ?thesis using reaches.edges_next [OF e] Edges_Of Cons by blast
    qed (use Edges_Of reaches.edges_done in blast)
  qed
qed

subsection \<open>Where reaching values are defined\<close>

definition timely :: "func \<Rightarrow> (block_id \<Rightarrow> nat) \<Rightarrow> prom \<Rightarrow> bool" where
  "timely fn rank p \<longleftrightarrow> length (vals fn) \<le> length (vals (qfn p)) \<and>
     (\<forall>s b v. entry_def p (s, b) = Some v \<longrightarrow> before fn rank v b 0) \<and>
     (\<forall>s b v. exit_def_memo p (s, b) = Some v \<longrightarrow> upto_block fn rank v b) \<and>
     (\<forall>s b v. last_store p (s, b) = Some v \<longrightarrow> upto_block fn rank v b) \<and>
     (\<forall>s v. zero_consts p s = Some v \<longrightarrow> length (vals fn) \<le> v)"

lemma timely_entry:
  "timely fn rank p \<Longrightarrow> before fn rank v b 0 \<Longrightarrow> timely fn rank (p\<lparr>entry_def := (entry_def p)((s, b) \<mapsto> v)\<rparr>)"
  by (auto simp: timely_def)

lemma timely_exit:
  "timely fn rank p \<Longrightarrow> upto_block fn rank v b \<Longrightarrow> timely fn rank (p\<lparr>exit_def_memo := (exit_def_memo p)((s, b) \<mapsto> v)\<rparr>)"
  by (auto simp: timely_def)

lemma timely_push [simp]: "timely fn rank (push_edge e v p) = timely fn rank p"
  by (simp add: timely_def)

lemma timely_zero:
  assumes "zero_for s t p = (v, p1)" "timely fn rank p"
  shows "timely fn rank p1" "length (vals fn) \<le> v"
  using zero_for_frame [OF assms(1)] assms(2) by (auto simp: timely_def split: if_splits)

lemma timely_join:
  assumes "join_param s b t p = (v, p1)" "timely fn rank p"
  shows "timely fn rank p1" "length (vals fn) \<le> v"
  using join_param_frame [OF assms(1)] assms(2) by (auto simp: timely_def intro: fresh_before)

text \<open>Every value the search adds is noted at an entry or as a zero, at most once per slot and block.\<close>

definition roomy :: "func \<Rightarrow> prom \<Rightarrow> bool" where
  "roomy fn p \<longleftrightarrow> (\<forall>s. vars p s \<noteq> None \<longrightarrow> s < length (slots fn)) \<and> length (blocks (qfn p)) = length (blocks fn) \<and>
     dom (entry_def p) \<subseteq> {..<length (slots fn)} \<times> {..<length (blocks fn)} \<and> dom (zero_consts p) \<subseteq> {..<length (slots fn)} \<and>
     length (vals (qfn p)) \<le> length (vals fn) + card (dom (entry_def p)) + card (dom (zero_consts p))"

lemma roomy_finite: "roomy fn p \<Longrightarrow> finite (dom (entry_def p)) \<and> finite (dom (zero_consts p))"
  using finite_subset [of "dom (entry_def p)" "{..<length (slots fn)} \<times> {..<length (blocks fn)}"]
    finite_subset [of "dom (zero_consts p)" "{..<length (slots fn)}"]
  by (simp add: roomy_def)

lemma roomy_bound:
  assumes "roomy fn p"
  shows "length (vals (qfn p)) \<le> length (vals fn) + length (slots fn) * (length (blocks fn) + 1)"
proof -
  have "card (dom (entry_def p)) \<le> length (slots fn) * length (blocks fn)"
    using assms card_mono [of "{..<length (slots fn)} \<times> {..<length (blocks fn)}" "dom (entry_def p)"] by (simp add: roomy_def)
  moreover have "card (dom (zero_consts p)) \<le> length (slots fn)"
    using assms card_mono [of "{..<length (slots fn)}" "dom (zero_consts p)"] by (simp add: roomy_def)
  ultimately show ?thesis using assms by (simp add: roomy_def)
qed

lemma roomy_entry:
  assumes "roomy fn p" "vars p s \<noteq> None" "b < length (blocks fn)"
  shows "roomy fn (p\<lparr>entry_def := (entry_def p)((s, b) \<mapsto> v)\<rparr>)"
  using assms roomy_finite [OF assms(1)] card_insert_le [of "dom (entry_def p)" "(s, b)"] by (auto simp: roomy_def)

lemma roomy_exit: "roomy fn (p\<lparr>exit_def_memo := e\<rparr>) = roomy fn p"
  by (simp add: roomy_def)

lemma roomy_push [simp]: "roomy fn (push_edge e v p) = roomy fn p"
  by (simp add: roomy_def push_edge_def)

lemma roomy_zero:
  assumes "zero_for s t p = (v, p1)" "roomy fn p" "vars p s \<noteq> None"
  shows "roomy fn p1"
proof (cases "zero_consts p s")
  case None
  then have p1: "vars p1 = vars p" "entry_def p1 = entry_def p" "zero_consts p1 = (zero_consts p)(s \<mapsto> v)"
      "blocks (qfn p1) = blocks (qfn p)" "length (vals (qfn p1)) = Suc (length (vals (qfn p)))"
    using assms(1) by (auto simp: zero_for_def new_value_def)
  moreover have "card (insert s (dom (zero_consts p))) = Suc (card (dom (zero_consts p)))"
    using None roomy_finite [OF assms(2)] by (intro card_insert_disjoint) auto
  ultimately show ?thesis using assms(2,3) by (auto simp: roomy_def)
qed (use assms in \<open>simp add: zero_for_def\<close>)

lemma roomy_join:
  assumes "join_param s b t p = (v, p1)" "roomy fn p" "vars p s \<noteq> None" "entry_def p (s, b) = None" "b < length (blocks fn)"
  shows "roomy fn p1"
proof -
  have p1: "vars p1 = vars p" "entry_def p1 = (entry_def p)((s, b) \<mapsto> v)" "zero_consts p1 = zero_consts p"
      "length (blocks (qfn p1)) = length (blocks (qfn p))" "length (vals (qfn p1)) = Suc (length (vals (qfn p)))"
    using assms(1) by (auto simp: join_param_def new_value_def Let_def)
  moreover have "card (insert (s, b) (dom (entry_def p))) = Suc (card (dom (entry_def p)))"
    using assms(4) roomy_finite [OF assms(2)] by (intro card_insert_disjoint) auto
  ultimately show ?thesis using assms(2,3,5) by (auto simp: roomy_def)
qed

lemma reaches_timely:
  assumes "reaches c p r" "\<And>b q. ps ! b = [q] \<Longrightarrow> b < length ps \<Longrightarrow> rank q < rank b" "preds p = ps" "timely fn rank p"
    "call_ok t p c" "prom_ok p" "roomy fn p"
  shows "timely fn rank (snd r) \<and> roomy fn (snd r) \<and> (case c of Entry_Of s b \<Rightarrow> before fn rank (fst r) b 0 | Exit_Of s b \<Rightarrow> upto_block fn rank (fst r) b
    | Edges_Of s b qs \<Rightarrow> True)"
  using assms
proof (induction rule: reaches.induct)
  case (entry_memo p s b v)
  then show ?case by (auto simp: timely_def)
next
  case (entry_zero p s b t v p1)
  note z = timely_zero [OF entry_zero.hyps(4) entry_zero.prems(3)]
  have "b < length (blocks fn)" using entry_zero.prems(4,6) by (simp add: call_ok_def roomy_def)
  moreover have "roomy fn p1" using roomy_zero [OF entry_zero.hyps(4) entry_zero.prems(6)] entry_zero.hyps(2) by simp
  moreover have "vars p1 = vars p" using entry_zero.hyps(4) by (auto simp: zero_for_def new_value_def split: option.splits)
  ultimately show ?case using z entry_zero.hyps(2) by (simp add: timely_entry fresh_before roomy_entry)
next
  case (entry_single p s b t' q v p1)
  have b: "b < length ps" "q < length (blocks (qfn p))" "vars p s = Some t"
    using entry_single.prems(2,4,5) entry_single.hyps(3) by (auto simp: prom_ok_def static_ok_def call_ok_def)
  have "rank q < rank b" using entry_single.prems(1,2) entry_single.hyps(3) b(1) by blast
  moreover have cq: "call_ok t p (Exit_Of s q)" using b by (simp add: call_ok_def)
  then have "timely fn rank p1 \<and> roomy fn p1 \<and> upto_block fn rank v q" using entry_single.IH entry_single.prems by simp
  moreover have "stepped t {} p p1"
    using reaches_ok [OF entry_single.hyps(4) cq entry_single.prems(5)] by (simp add: answer_ok_def call_edges_def)
  then have "vars p1 s \<noteq> None" using extD(4) [OF steppedD(1)] b(3) by simp
  moreover have "b < length (blocks fn)" using entry_single.prems(4,6) by (simp add: call_ok_def roomy_def)
  ultimately show ?case using upto_before [of fn rank v q b 0] by (simp add: timely_entry roomy_entry)
next
  case (entry_join p s b t' v p1 u p2)
  then have t: "vars p s = Some t" "b < length (blocks (qfn p))" "t' = t" by (auto simp: call_ok_def)
  note jp = entry_join.hyps(4) [unfolded t(3)]
  note js = join_param_step(1,2) [OF entry_join.prems(5) t(1,2) entry_join.hyps(3) jp]
  note jt = timely_join [OF jp entry_join.prems(3)]
  have "distinct (preds p ! b)" using entry_join.prems(5) t(2) by (simp add: prom_ok_def static_ok_def)
  then have "call_ok t p1 (Edges_Of s b (preds p ! b))"
    using t entry_join.hyps(3) extD(1,4,6,8) [OF js(1)] by (simp add: call_ok_def)
  moreover have "roomy fn p1"
    using roomy_join [OF jp entry_join.prems(6) _ entry_join.hyps(1)] t entry_join.prems(6) by (simp add: roomy_def)
  ultimately have "timely fn rank p2 \<and> roomy fn p2" using entry_join.IH entry_join.prems(1,2) js(2) jt(1) extD(6) [OF js(1)] by simp
  then show ?case using jt(2) by (simp add: fresh_before)
next
  case (exit_memo p s b v)
  then show ?case by (auto simp: timely_def)
next
  case (exit_store p s b v)
  then have "upto_block fn rank v b" by (auto simp: timely_def)
  then show ?case using exit_store.prems(3,6) by (simp add: timely_exit roomy_exit)
next
  case (exit_entry p s b v p1)
  then have "timely fn rank p1" "roomy fn p1" "before fn rank v b 0" by (simp_all add: call_ok_def)
  then show ?case by (simp add: timely_exit before_upto roomy_exit)
next
  case (edges_next s q p v p1 b qs r)
  then have t: "vars p s = Some t" "b < length (blocks (qfn p))" "is_join p b" "q \<in> set (preds p ! b)" "q \<notin> set qs" "distinct qs"
      "set qs \<subseteq> set (preds p ! b)"
    by (auto simp: call_ok_def)
  have "q < length (blocks (qfn p))" using edges_next.prems(5) t by (auto simp: prom_ok_def static_ok_def)
  then have cq: "call_ok t p (Exit_Of s q)" using t(1) by (simp add: call_ok_def)
  have a: "stepped t {} p p1" "good p1 v t"
    using reaches_ok [OF edges_next.hyps(1) cq edges_next.prems(5)] by (simp_all add: answer_ok_def call_edges_def)
  note x = extD(1,4,6,8) [OF steppedD(1) [OF a(1)]]
  have s1: "stepped t {(q, b)} p1 (push_edge (q, b) v p1)" using a t x by (intro push_edge_step) (simp_all add: steppedD)
  note y = extD(1,4,6,8) [OF steppedD(1) [OF s1]]
  have "timely fn rank p1 \<and> roomy fn p1" using edges_next.IH(1) edges_next.prems cq by simp
  then show ?case using edges_next.IH(2) edges_next.prems(1,2) steppedD(2) [OF s1] t x y by (simp add: call_ok_def)
qed simp

subsection \<open>Chains end\<close>

text \<open>Every link leads from a value of the function to one defined before it.\<close>

definition linked :: "func \<Rightarrow> (block_id \<Rightarrow> nat) \<Rightarrow> (value_id \<times> value_id) list \<Rightarrow> bool" where
  "linked fn rank r \<longleftrightarrow> (\<forall>(k, v) \<in> set r. k < length (vals fn) \<and> \<not> vd_is_param (vals fn ! k) \<and>
     before fn rank v (vd_block (vals fn ! k)) (vd_index (vals fn ! k)))"

lemma linkedD:
  assumes "linked fn rank r" "map_of r k = Some v"
  shows "k < length (vals fn)" "\<not> vd_is_param (vals fn ! k)" "before fn rank v (vd_block (vals fn ! k)) (vd_index (vals fn ! k))"
  using assms by (auto simp: linked_def dest!: map_of_SomeD)

lemma linked_total:
  assumes "linked fn rank r"
  shows "remap_total r"
  unfolding remap_total_def
proof
  fix v
  show "\<exists>w. resolve r v = Some w"
  proof (induction v rule: wf_induct_rule [OF wf_measures, of "[\<lambda>v. rank (vd_block (vals fn ! v)), \<lambda>v. vd_index (vals fn ! v)]"])
    case (1 v)
    show ?case
    proof (cases "map_of r v")
      case (Some u)
      show ?thesis
      proof (cases "map_of r u")
        case None
        then show ?thesis using Some by (simp add: resolve_link [of r v u] resolve_stop)
      next
        case (Some x)
        have "(u, v) \<in> measures [\<lambda>v. rank (vd_block (vals fn ! v)), \<lambda>v. vd_index (vals fn ! v)]"
          using linkedD [OF assms \<open>map_of r v = Some u\<close>] linkedD [OF assms Some] by (auto simp: before_def Let_def)
        then show ?thesis using 1 resolve_link [OF \<open>map_of r v = Some u\<close>] by simp
      qed
    qed (simp add: resolve_stop)
  qed
qed

lemma resolve_before:
  assumes "linked fn rank r" "resolve r v = Some w" "before fn rank v b k"
  shows "before fn rank w b k"
proof -
  have "before fn rank v b k \<longrightarrow> before fn rank w b k"
    using assms(2)
  proof (rule resolve_induct)
    fix v u w
    assume l: "map_of r v = Some u" and IH: "before fn rank u b k \<longrightarrow> before fn rank w b k"
    show "before fn rank v b k \<longrightarrow> before fn rank w b k"
      using IH linkedD [OF assms(1) l] by (auto simp: before_def Let_def)
  qed simp
  then show ?thesis using assms(3) by simp
qed

lemma resolve_upto:
  assumes "linked fn rank r" "resolve r v = Some w" "upto_block fn rank v b"
  shows "upto_block fn rank w b"
proof -
  have "upto_block fn rank v b \<longrightarrow> upto_block fn rank w b"
    using assms(2)
  proof (rule resolve_induct)
    fix v u w
    assume l: "map_of r v = Some u" and IH: "upto_block fn rank u b \<longrightarrow> upto_block fn rank w b"
    show "upto_block fn rank v b \<longrightarrow> upto_block fn rank w b"
      using IH linkedD [OF assms(1) l] by (auto simp: before_def upto_block_def Let_def)
  qed simp
  then show ?thesis using assms(3) by simp
qed

subsection \<open>The walk ends\<close>

text \<open>What the walk keeps beside \<^const>\<open>walking\<close>: reaching values are defined in time, and so are the targets of links.\<close>

definition steady :: "nat \<Rightarrow> func \<Rightarrow> (block_id \<Rightarrow> nat) \<Rightarrow> prom \<Rightarrow> bool" where
  "steady pb fn rank p \<longleftrightarrow> walking pb fn p \<and> timely fn rank p \<and> roomy fn p \<and> linked fn rank (qremap p)"

lemma get_entry_total:
  assumes "steady pb fn rank p" "dominator_ranked fn rank" "vars p s = Some t" "b < length (blocks fn)"
  obtains v p' where "get_entry s b p = Some (v, p')" "timely fn rank p'" "roomy fn p'" "before fn rank v b 0" "qremap p' = qremap p"
proof -
  have w: "prom_ok p" "preds p = pred_lists fn" "length (blocks (qfn p)) = length (blocks fn)" "timely fn rank p" "roomy fn p"
    using assms(1) extends_funcD(1) [of fn "qfn p"] by (simp_all add: steady_def walking_def)
  have l: "length (pred_lists fn) = length (blocks fn)" by (simp add: pred_lists_def)
  have rank: "rank q < rank c" if "pred_lists fn ! c = [q]" "c < length (pred_lists fn)" for c q
    using assms(2) that l by (auto simp: dominator_ranked_def)
  have n: "rank c < Suc (Max (rank ` {..<length (blocks fn)}))" if "c < length (pred_lists fn)" for c
    using that l by (simp add: le_imp_less_Suc)
  have ok: "call_ok t p (Entry_Of s b)" using assms(3,4) w(3) by (simp add: call_ok_def)
  from reaches_total [of "pred_lists fn" rank, OF rank n w(1) ok w(2)] obtain v p' where r: "reaches (Entry_Of s b) p (v, p')" by auto
  then have "get_entry s b p = Some (v, p')" by (simp add: get_entry_def reaches_reaching)
  moreover have "timely fn rank p'" "roomy fn p'" "before fn rank v b 0"
    using reaches_timely [OF r, of "pred_lists fn" rank, OF rank w(2,4) ok w(1,5)] by simp_all
  moreover have "qremap p' = qremap p" using reaches_ok [OF r ok w(1)] by (simp add: answer_ok_def stepped_def)
  ultimately show thesis by (rule that)
qed

definition current_before :: "func \<Rightarrow> (block_id \<Rightarrow> nat) \<Rightarrow> block_id \<Rightarrow> nat \<Rightarrow> (nat \<rightharpoonup> value_id) \<Rightarrow> bool" where
  "current_before fn rank b k cur \<longleftrightarrow> (\<forall>s v. cur s = Some v \<longrightarrow> before fn rank v b k)"

lemma current_later: "current_before fn rank b k cur \<Longrightarrow> current_before fn rank b (Suc k) cur"
  using before_mono [of fn rank _ b k "Suc k"] by (simp add: current_before_def)

lemma in_block_all_insts: "b < length (blocks fn) \<Longrightarrow> k < length (insts (blocks fn ! b)) \<Longrightarrow> insts (blocks fn ! b) ! k \<in> set (all_insts fn)"
  unfolding in_all_insts_nth by blast

lemma walk_inst_total:
  assumes p: "steady pb fn rank p" "current_before fn rank b k cur" and fn: "promotable fn" "insts_wf m fn" "dominator_ranked fn rank"
    and b: "b < length (blocks fn)" "k < length (insts (blocks fn ! b))" and i: "i = insts (blocks fn ! b) ! k"
  shows "\<exists>d cur' p'. walk_inst b i (cur, p) = Some (d, cur', p') \<and> timely fn rank p' \<and> roomy fn p' \<and> linked fn rank (qremap p') \<and>
    current_before fn rank b (Suc k) cur'"
proof -
  let ?a = "addr_values p"
  have w: "walking pb fn p" "timely fn rank p" "linked fn rank (qremap p)" "roomy fn p" using p(1) by (simp_all add: steady_def)
  have vs: "vars p = var_types (candidates_of pb fn)" "?a = promoted_addrs fn (candidates_of pb fn)"
    using w(1) by (simp_all add: walking_def)
  have ia: "i \<in> set (all_insts fn)" using in_block_all_insts [OF b] i by simp
  consider (load) s where "oper i = Op_Load" "?a (opa i) = Some s" | (store) s where "oper i = Op_Store" "?a (opa i) = Some s"
    | (other) "\<not> (oper i = Op_Load \<and> ?a (opa i) \<noteq> None)" "\<not> (oper i = Op_Store \<and> ?a (opa i) \<noteq> None)"
    by (metis option.exhaust)
  then show ?thesis
  proof cases
    case load
    have t: "vars p s = Some (itype i)" using promoted_load [OF ia load(1)] load(2) vs by simp
    obtain v p1 where v: "(case cur s of Some v \<Rightarrow> Some (v, p) | None \<Rightarrow> get_entry s b p) = Some (v, p1)"
        "timely fn rank p1" "before fn rank v b k" "roomy fn p1" "qremap p1 = qremap p"
    proof (cases "cur s")
      case None
      obtain v p1 where "get_entry s b p = Some (v, p1)" "timely fn rank p1" "roomy fn p1" "before fn rank v b 0" "qremap p1 = qremap p"
        by (rule get_entry_total [OF p(1) fn(3) t b(1)])
      then show thesis using that [of v p1] None before_mono [of fn rank v b 0 k] by simp
    next
      case (Some u)
      then show thesis using that [of u p] w(2,4) p(2) by (simp add: current_before_def)
    qed
    have "result_ok fn b k" using fn(1) b by (simp add: promotable_def coherent_def)
    moreover have "result i \<noteq> NO_VALUE" using fn(1) ia load(1) by (simp add: promotable_def)
    ultimately have d: "result i < length (vals fn)" "\<not> vd_is_param (vals fn ! result i)" "vd_block (vals fn ! result i) = b"
        "vd_index (vals fn ! result i) = k"
      using i by (auto simp: result_ok_def Let_def)
    have "linked fn rank ((result i, v) # qremap p1)" using w(3) v(3,5) d by (simp add: linked_def)
    moreover have "timely fn rank (p1\<lparr>qremap := (result i, v) # qremap p1\<rparr>)" "roomy fn (p1\<lparr>qremap := (result i, v) # qremap p1\<rparr>)"
      using v(2,4) by (simp_all add: timely_def roomy_def)
    moreover have "walk_inst b i (cur, p) = Some (True, cur, p1\<lparr>qremap := (result i, v) # qremap p1\<rparr>)"
      using load v(1) by (simp add: walk_inst_def)
    ultimately show ?thesis using current_later [OF p(2)] by auto
  next
    case store
    have "vars p s \<noteq> None" using promoted_store(1) [OF ia store(1)] store(2) vs by simp
    moreover obtain v where v: "resolve (qremap p) (opb i) = Some v" using linked_total [OF w(3)] by (auto simp: remap_total_def)
    ultimately have "walk_inst b i (cur, p) = Some (True, cur(s \<mapsto> v), p)" using store by (auto simp: walk_inst_def)
    moreover have "before fn rank (opb i) b k" using fn(3) b i store(1) by (simp add: dominator_ranked_def Let_def)
    then have "before fn rank v b (Suc k)" using before_mono [OF resolve_before [OF w(3) v]] by simp
    then have "current_before fn rank b (Suc k) (cur(s \<mapsto> v))" using current_later [OF p(2)] by (simp add: current_before_def)
    ultimately show ?thesis using w by auto
  next
    case other
    then have "\<exists>d. walk_inst b i (cur, p) = Some (d, cur, p)" by (auto simp: walk_inst_def)
    then show ?thesis using w current_later [OF p(2)] by auto
  qed
qed

lemma walk_insts_total:
  assumes "steady pb fn rank p" "current_before fn rank b k cur" "current_ok p cur" "promotable fn" "insts_wf m fn" "dominator_ranked fn rank"
    "b < length (blocks fn)" "is = drop k (insts (blocks fn ! b))"
  shows "\<exists>ds cur' p'. walk_insts b is (cur, p) = Some (ds, cur', p') \<and> steady pb fn rank p'"
  using assms
proof (induction "is" arbitrary: k cur p)
  case (Cons i "is")
  have k: "k < length (insts (blocks fn ! b))" using Cons.prems(8) by (metis drop_all list.distinct(1) not_le)
  then have i: "i = insts (blocks fn ! b) ! k" "is = drop (Suc k) (insts (blocks fn ! b))"
    using Cons.prems(8) Cons_nth_drop_Suc [OF k] by (metis list.inject)+
  obtain d cur1 p1 where 1: "walk_inst b i (cur, p) = Some (d, cur1, p1)" "timely fn rank p1" "roomy fn p1" "linked fn rank (qremap p1)"
      "current_before fn rank b (Suc k) cur1"
    using walk_inst_total [OF Cons.prems(1,2,4,5,6,7) k i(1)] by blast
  have "walking pb fn p" using Cons.prems(1) by (simp add: steady_def)
  from walk_inst_ok [OF 1(1) this Cons.prems(3) _ Cons.prems(7,4,5)] in_block_all_insts [OF Cons.prems(7) k] i(1)
  have "walking pb fn p1" "current_ok p1 cur1" by simp_all
  then obtain ds cur' p' where "walk_insts b is (cur1, p1) = Some (ds, cur', p')" "steady pb fn rank p'"
    using Cons.IH [of p1 "Suc k" cur1] 1 Cons.prems i(2) by (auto simp: steady_def)
  then show ?case using 1(1) by simp
qed simp

lemma settle_stores_total:
  assumes "steady pb fn rank p"
  obtains p' where "settle_stores b p = Some p'" "steady pb fn rank p'"
proof -
  have w: "walking pb fn p" "timely fn rank p" "linked fn rank (qremap p)" "roomy fn p" using assms by (simp_all add: steady_def)
  have tot: "resolve (qremap p) v \<noteq> None" for v using linked_total [OF w(3)] by (simp add: remap_total_def)
  let ?p = "p\<lparr>last_store := (\<lambda>(s, c). if c = b then Option.bind (last_store p (s, c)) (resolve (qremap p)) else last_store p (s, c))\<rparr>"
  have s: "settle_stores b p = Some ?p" using tot by (simp add: settle_stores_def split: option.split)
  have "\<forall>s c v. last_store ?p (s, c) = Some v \<longrightarrow> upto_block fn rank v c"
    using w(2) resolve_upto [OF w(3)] by (auto simp: timely_def bind_eq_Some_conv)
  then have "timely fn rank ?p" "roomy fn ?p" using w(2,4) by (simp_all add: timely_def roomy_def)
  moreover have "walking pb fn ?p" using settle_stores_ok [OF s w(1)] by blast
  ultimately have "steady pb fn rank ?p" using w(3) by (simp add: steady_def)
  then show thesis using that s by blast
qed

lemma walk_blocks_total:
  assumes "steady pb fn rank p" "set bs \<subseteq> {..<length (blocks fn)}" "promotable fn" "insts_wf m fn" "dominator_ranked fn rank"
  shows "\<exists>dss p'. walk_blocks bs p = Some (dss, p') \<and> steady pb fn rank p'"
  using assms
proof (induction bs arbitrary: p)
  case (Cons b bs)
  have b: "b < length (blocks fn)" using Cons.prems(2) by simp
  have "extends_func fn (qfn p)" using Cons.prems(1) by (simp add: steady_def walking_def)
  then have ins: "insts (blocks (qfn p) ! b) = insts (blocks fn ! b)" using extends_funcD(8) b by blast
  have c: "current_before fn rank b 0 Map.empty" "current_ok p Map.empty" by (simp_all add: current_before_def current_ok_def)
  obtain ds cur p1 where 1: "walk_insts b (insts (blocks fn ! b)) (Map.empty, p) = Some (ds, cur, p1)" "steady pb fn rank p1"
    using walk_insts_total [OF Cons.prems(1) c Cons.prems(3-5) b, of "insts (blocks fn ! b)"] by auto
  obtain p2 where 2: "settle_stores b p1 = Some p2" "steady pb fn rank p2" by (rule settle_stores_total [OF 1(2)])
  then show ?case using Cons.IH [OF 2(2)] Cons.prems 1 ins by auto
qed simp

subsection \<open>The pass ends\<close>

lemma fold_note_store_other: "snd k \<noteq> b \<Longrightarrow> fold (note_store addrs vs b) is ls k = ls k"
proof (induction "is" arbitrary: ls)
  case (Cons i "is")
  have "note_store addrs vs b i ls k = ls k" using Cons.prems by (cases k) (auto simp: note_store_def split: option.split)
  then show ?case using Cons by simp
qed simp

lemma fold_note_store_block:
  assumes "fold (note_store addrs vs b) is ls k = Some v"
  shows "ls k = Some v \<or> (\<exists>i \<in> set is. oper i = Op_Store \<and> opb i = v)"
  using fold_note_store [OF assms] by blast

lemma last_stores_in_block:
  assumes "last_stores addrs vs fn (s, b) = Some v"
  shows "b < length (blocks fn) \<and> (\<exists>i \<in> set (insts (blocks fn ! b)). oper i = Op_Store \<and> opb i = v)"
proof -
  have "fold (\<lambda>b. fold (note_store addrs vs b) (insts (blocks fn ! b))) bs ls (s, b) = Some v \<Longrightarrow>
      ls (s, b) = Some v \<or> b \<in> set bs \<and> (\<exists>i \<in> set (insts (blocks fn ! b)). oper i = Op_Store \<and> opb i = v)" for bs ls
  proof (induction bs arbitrary: ls)
    case (Cons c bs)
    from Cons.IH [of "fold (note_store addrs vs c) (insts (blocks fn ! c)) ls"] Cons.prems
    show ?case
      using fold_note_store_block [of addrs vs c "insts (blocks fn ! c)" ls "(s, b)" v] fold_note_store_other [of "(s, b)" c addrs vs]
      by (cases "c = b") auto
  qed simp
  from this [of "[0..<length (blocks fn)]" Map.empty] assms show ?thesis by (simp add: last_stores_def)
qed

lemma start_steady:
  assumes fn: "promotable fn" "insts_wf m fn" "dominator_ranked fn rank"
  shows "steady pb fn rank (start_prom (candidates_of pb fn) fn)"
proof -
  let ?c = "candidates_of pb fn"
  let ?p = "start_prom ?c fn"
  have f: "qfn ?p = fn" "vars ?p = var_types ?c" "entry_def ?p = Map.empty" "exit_def_memo ?p = Map.empty" "zero_consts ?p = Map.empty"
      "edge_args ?p = Map.empty" "qremap ?p = []" "last_store ?p = last_stores (promoted_addrs fn ?c) (var_types ?c) fn"
      "addr_values ?p = promoted_addrs fn ?c" "preds ?p = pred_lists fn"
    by (simp_all add: start_prom_def Let_def)
  have "balanced fn ?p" unfolding balanced_def by (simp add: ptys_def etys_def edge_def f)
  then have "walking pb fn ?p" using start_prom_ok [OF fn(1,2)] by (simp add: walking_def remap_good_def f)
  moreover have "upto_block fn rank v b" if s: "last_stores (promoted_addrs fn ?c) (var_types ?c) fn (s, b) = Some v" for s b v
  proof -
    obtain k where "b < length (blocks fn)" "k < length (insts (blocks fn ! b))" "oper (insts (blocks fn ! b) ! k) = Op_Store"
        "opb (insts (blocks fn ! b) ! k) = v"
      using last_stores_in_block [OF s] by (metis in_set_conv_nth)
    then have "before fn rank v b k" using fn(3) by (auto simp: dominator_ranked_def Let_def)
    then show ?thesis by (rule before_upto)
  qed
  then have "timely fn rank ?p" by (simp add: timely_def f)
  moreover have "roomy fn ?p" using candidates_range [of pb fn] by (auto simp: roomy_def f var_types_def split: option.splits)
  ultimately show ?thesis by (simp add: steady_def f linked_def)
qed

lemma compact_slots_total:
  assumes wk: "walk_blocks [0..<length (blocks fn)] (start_prom (candidates_of pb fn) fn) = Some (dss, p)"
    and es: "resolve_edges p = Some es" and wf: "function_wf m fn" "has_body fn" and pm: "promotable fn"
  shows "compact_slots (candidates_of pb fn) (cleaned p dss es) \<noteq> None"
proof -
  let ?c = "candidates_of pb fn" and ?fn = "cleaned p dss es"
  note c = cleaned_shape [OF wk es wf pm]
  from c(6) obtain bs where bs: "placed (map_insts (map_operands (resolved (qremap p))) (qfn p)) es bs" "length (blocks ?fn) = length bs"
      "\<forall>b < length bs. params (blocks ?fn ! b) = params (bs ! b) \<and>
         insts (blocks ?fn ! b) = before_compaction fn \<lparr>pr_state = p, pr_edges = es, pr_blocks = bs\<rparr> b" by blast
  have w: "walking pb fn p" by (rule walk_ok(1) [OF wk pm function_insts_wf [OF wf]])
  then have a: "addr_values p = promoted_addrs fn ?c" and fe: "extends_func fn (qfn p)"
    and pre: "prelude_ok p" by (simp_all add: walking_def prom_ok_def lists_ok_def)
  have keep: "slot_remap ?c fn (opa x) \<noteq> None" if x: "x \<in> set (all_insts fn)" "oper x = Op_SlotAddr" "\<not> dies (addr_values p) x" for x
  proof -
    have "inst_wf m fn (signatures m ! fsignature fn) x" using function_insts_wf [OF wf] x(1) by (simp add: insts_wf_def)
    then have "opa x < length (slots fn)" using x(2) by (cases rule: inst_wf.cases) (auto simp: op_order conversions_def)
    moreover have "?c (opa x) = None"
    proof (rule ccontr)
      assume n: "?c (opa x) \<noteq> None"
      from addr_to_slot_of [OF pm x(1,2) candidates_start [OF n]] have "addr_values p (result x) = Some (opa x)"
        using n a by (simp add: promoted_addrs_def)
      then show False using x(2,3) by (simp add: dies_def)
    qed
    ultimately show ?thesis by (simp add: slot_remap_def)
  qed
  have "slot_remap ?c fn (opa i) \<noteq> None" if i: "i \<in> set (all_insts ?fn)" "oper i = Op_SlotAddr" for i
  proof -
    obtain b where b: "b < length bs" "i \<in> set (before_compaction fn \<lparr>pr_state = p, pr_edges = es, pr_blocks = bs\<rparr> b)"
      using i(1) bs(2,3) unfolding in_all_insts by (metis in_set_conv_nth)
    have "i \<notin> set (entry_prelude p)"
    proof
      assume "i \<in> set (entry_prelude p)"
      then obtain t v where "i = zero_inst t v" using pre by (auto simp: prelude_ok_def)
      then show False using zero_inst_oper [of t v] i(2) by simp
    qed
    moreover have "oper i \<noteq> Op_SlotAddr" if "b < length (blocks fn)" "i = last (insts (bs ! b))"
    proof -
      have l: "length (blocks (qfn p)) = length (blocks fn)" by (rule extends_funcD(1) [OF fe])
      have "oper i = oper (last (insts (blocks fn ! b)))"
        using bs(1) that l extends_funcD(8) [OF fe that(1)] wf_blocks(1) [OF wf that(1)]
        by (auto simp: placed_def block_placed_def term_placed_def map_insts_def last_map)
      then show ?thesis using wf_blocks(2) [OF wf that(1)] by (auto simp: is_terminator_def)
    qed
    moreover have "oper i \<noteq> Op_SlotAddr" if "\<not> b < length (blocks fn)" "i \<in> set (insts (bs ! b))"
    proof -
      have "trampoline es (map_insts (map_operands (resolved (qremap p))) (qfn p)) (bs ! b)"
        using bs(1) that(1) b(1) extends_funcD(1) [OF fe] by (simp add: placed_def map_insts_def)
      then show ?thesis using that(2) by (auto simp: trampoline_def)
    qed
    ultimately obtain x where x: "b < length (blocks fn)" "x \<in> set (butlast (insts (blocks fn ! b)))" "\<not> dies (addr_values p) x"
        "i = map_operands (resolved (qremap p)) x"
      using b(2) i(2) by (auto simp: before_compaction_def Let_def split: if_splits)
    have o: "oper x = Op_SlotAddr" using i(2) x(4) by simp
    then have "i = x" unfolding x(4) by (simp add: map_operands_def operand_shape_def)
    moreover have "x \<in> set (all_insts fn)" unfolding in_all_insts using in_set_butlastD [OF x(2)] nth_mem [OF x(1)] by blast
    ultimately show ?thesis using keep o x(3) by simp
  qed
  then show ?thesis using slot_remap_cong [OF c(1), of ?c] by (simp add: compact_slots_def)
qed

lemma promote_function_total:
  assumes wf: "function_wf m fn" and fn: "promotable fn" "dominator_ranked fn rank"
  shows "\<exists>fn' st'. promote_function pb fn st = Some (fn', st') \<and>
    length (vals fn') \<le> length (vals fn) + length (slots fn) * (length (blocks fn) + 1)"
proof (cases "(\<not> has_body fn \<or> blocks fn = []) \<or> (\<forall>s < length (slots fn). candidates_of pb fn s = None)")
  case True
  then have "promote_function pb fn st = Some (fn, st)"
    by (cases "\<not> has_body fn \<or> blocks fn = []") (auto simp: promote_function_def Let_def)
  then show ?thesis by simp
next
  case False
  then have hb: "has_body fn" "blocks fn \<noteq> []" and nb: "\<not> (\<not> has_body fn \<or> blocks fn = [])"
    and nc: "\<not> (\<forall>s < length (slots fn). candidates_of pb fn s = None)" by blast+
  note iw = function_insts_wf [OF wf hb(1)]
  obtain dss p where wk: "walk_blocks [0..<length (blocks fn)] (start_prom (candidates_of pb fn) fn) = Some (dss, p)"
      and st: "steady pb fn rank p"
    using walk_blocks_total [OF start_steady [OF fn(1) iw fn(2)] _ fn(1) iw fn(2), of "[0..<length (blocks fn)]" pb]
    unfolding set_upt atLeast0LessThan by blast
  have tot: "resolve (qremap p) v \<noteq> None" for v using st linked_total [of fn rank "qremap p"] by (simp add: steady_def remap_total_def)
  obtain es where es: "resolve_edges p = Some es" using tot by (simp add: resolve_edges_def)
  have rw: "rewrite_operands (qremap p) (qfn p) = Some (map_insts (map_operands (resolved (qremap p))) (qfn p))"
    using tot by (simp add: rewrite_operands_def resolvable_def)
  obtain fn' where cp: "compact_slots (candidates_of pb fn) (cleaned p dss es) = Some fn'"
    using compact_slots_total [OF wk es wf hb(1) fn(1)] by blast
  have "length (vals fn') = length (vals (cleaned p dss es))" using compact_slotsD(1) [OF cp] by simp
  also have "\<dots> = length (vals (qfn p))" using cleaned_shape(5) [OF wk es wf hb(1) fn(1)] by (rule map_eq_imp_length_eq)
  finally have "length (vals fn') \<le> length (vals fn) + length (slots fn) * (length (blocks fn) + 1)"
    using st roomy_bound [of fn p] by (simp add: steady_def)
  moreover have "\<exists>st'. promote_function pb fn st = Some (fn', st')"
    unfolding promote_function_def Let_def if_not_P [OF nb] if_not_P [OF nc] using wk rw es cp by (simp add: cleaned_def)
  ultimately show ?thesis by blast
qed

end
