(* ===== verification/Mir_Example.thy ===== *)
theory Mir_Example
  imports Mir
begin

text \<open>
  A small module the witnesses of the MIR, pass and register-allocation properties are evaluated on:
  one function that adds two constants and returns the sum.
\<close>

definition demo_inst :: "op \<Rightarrow> ty \<Rightarrow> nat \<Rightarrow> nat \<Rightarrow> nat \<Rightarrow> nat list \<Rightarrow> inst" where
  "demo_inst x t r a b as = default_inst\<lparr>oper := x, itype := t, result := r, opa := a, opb := b, args := as\<rparr>"

definition demo_val :: "nat \<Rightarrow> value_def" where
  "demo_val k = \<lparr>vd_block = 0, vd_index = k, vd_type = Ty_I64, vd_is_param = False\<rparr>"

definition demo_insts :: "inst list" where
  "demo_insts =
     [demo_inst Op_ConstInt Ty_I64 0 NO_VALUE NO_VALUE [],
      demo_inst Op_ConstInt Ty_I64 1 NO_VALUE NO_VALUE [],
      demo_inst Op_Add Ty_I64 2 0 1 [],
      demo_inst Op_Return Ty_Void NO_VALUE NO_VALUE NO_VALUE [2]]"

definition demo_function :: func where
  "demo_function = \<lparr>fname = ''f'', flinkage = Internal, conv = Conv_Mirage, fsignature = 0, fparams = [],
     blocks = [\<lparr>label = ''entry'', params = [], insts = demo_insts\<rparr>], slots = [],
     vals = [demo_val 0, demo_val 1, demo_val 2],
     has_body = True, is_naked = False, import_module = [], import_name = [], fsection = []\<rparr>"

definition demo_module :: mir_module where
  "demo_module = \<lparr>mname = ''m'', pointer_bits = 64, funcs = [demo_function], globals = [],
     signatures = [default_signature\<lparr>sig_result := Ty_I64\<rparr>], asm_blocks = []\<rparr>"

lemmas demo_defs =
  demo_function_def demo_module_def demo_insts_def demo_inst_def demo_val_def default_inst_def

end
