(* ===== verification/Mir_Promote_Example.thy ===== *)
theory Mir_Promote_Example
  imports Mir_Promote Mir_Example Mir_Verify
begin

text \<open>A counting loop over one stack slot, as the front end emits it: the function the promotion properties are evaluated on.\<close>

definition loop_val :: "nat \<Rightarrow> nat \<Rightarrow> ty \<Rightarrow> value_def" where
  "loop_val b k t = \<lparr>vd_block = b, vd_index = k, vd_type = t, vd_is_param = False\<rparr>"

definition loop_blocks :: "block list" where
  "loop_blocks =
     [\<lparr>label = ''entry'', params = [], insts =
        [demo_inst Op_SlotAddr Ty_Ptr 0 0 NO_VALUE [],
         (demo_inst Op_ConstInt Ty_I64 1 NO_VALUE NO_VALUE [])\<lparr>imm := 10\<rparr>,
         demo_inst Op_Store Ty_Void NO_VALUE 0 1 [],
         demo_inst Op_Jump Ty_Void NO_VALUE 1 NO_VALUE []]\<rparr>,
      \<lparr>label = ''header'', params = [], insts =
        [demo_inst Op_Load Ty_I64 2 0 NO_VALUE [],
         demo_inst Op_ICmpSlt Ty_I1 3 2 1 [],
         (demo_inst Op_Branch Ty_Void NO_VALUE 3 2 [])\<lparr>opc := 3\<rparr>]\<rparr>,
      \<lparr>label = ''body'', params = [], insts =
        [demo_inst Op_Load Ty_I64 4 0 NO_VALUE [],
         demo_inst Op_Add Ty_I64 5 4 1 [],
         demo_inst Op_Store Ty_Void NO_VALUE 0 5 [],
         (demo_inst Op_Branch Ty_Void NO_VALUE 3 1 [])\<lparr>opc := 3\<rparr>]\<rparr>,
      \<lparr>label = ''exit'', params = [], insts =
        [demo_inst Op_Load Ty_I64 6 0 NO_VALUE [],
         demo_inst Op_Return Ty_Void NO_VALUE NO_VALUE NO_VALUE [6]]\<rparr>]"

definition loop_function :: func where
  "loop_function = demo_function\<lparr>blocks := loop_blocks,
     slots := [\<lparr>slot_size = 8, slot_align = 8, slot_name = ''x'', address_escapes = False\<rparr>],
     vals := [loop_val 0 0 Ty_Ptr, loop_val 0 1 Ty_I64, loop_val 1 0 Ty_I64, loop_val 1 1 Ty_I1, loop_val 2 0 Ty_I64,
              loop_val 2 1 Ty_I64, loop_val 3 0 Ty_I64]\<rparr>"

definition loop_module :: mir_module where
  "loop_module = demo_module\<lparr>funcs := [loop_function]\<rparr>"

text \<open>A function with an unreachable block that jumps to itself and loads a slot nobody stores.\<close>

definition cycle_function :: func where
  "cycle_function = demo_function\<lparr>
     blocks := [\<lparr>label = ''entry'', params = [], insts =
         [demo_inst Op_SlotAddr Ty_Ptr 0 0 NO_VALUE [], demo_inst Op_ConstInt Ty_I64 1 NO_VALUE NO_VALUE [],
          demo_inst Op_Return Ty_Void NO_VALUE NO_VALUE NO_VALUE [1]]\<rparr>,
       \<lparr>label = ''cycle'', params = [], insts =
         [demo_inst Op_Load Ty_I64 2 0 NO_VALUE [], demo_inst Op_Jump Ty_Void NO_VALUE 1 NO_VALUE []]\<rparr>],
     slots := [\<lparr>slot_size = 8, slot_align = 8, slot_name = ''x'', address_escapes = False\<rparr>],
     vals := [loop_val 0 0 Ty_Ptr, loop_val 0 1 Ty_I64, loop_val 1 0 Ty_I64]\<rparr>"

definition cycle_module :: mir_module where
  "cycle_module = demo_module\<lparr>funcs := [cycle_function]\<rparr>"

end
