(* ===== verification/Mir_Promote_Module.thy ===== *)
theory Mir_Promote_Module
  imports Mir_Promote_Sound Mir_Promote_Ends Mir_Promote_Example
begin

text \<open>
  Slot promotion over a whole module: it returns, the module it leaves passes the verifier, every operand of it is
  defined, and the slots that are gone are those counted. Without a ranking the search may not return.
\<close>

subsection \<open>Modules\<close>

lemma promote_functions_rel:
  "promote_functions pb fs st = Some (fs', st') \<Longrightarrow>
     list_all2 (\<lambda>f f'. \<exists>s s'. promote_function pb f s = Some (f', s')) fs fs'"
  by (induction fs arbitrary: st fs') (auto simp: bind_eq_Some_conv)

lemma promote_function_kept:
  assumes "promote_function pb fn st = Some (fn', st')" "function_wf m fn" "promotable fn" "length (vals fn') \<le> NO_VALUE"
  shows "function_wf m fn'" "uses_defined fn'" "fsignature fn' = fsignature fn"
proof -
  have ud: "uses_defined fn" using assms(3) coherent_defined by (auto simp: uses_defined_def value_ok_def promotable_def)
  from promote_function_shape [OF assms(1-3)] consider "fn' = fn" | R where "has_body fn" "promotes pb fn R fn'" by blast
  then show "function_wf m fn'" "uses_defined fn'" "fsignature fn' = fsignature fn"
    using assms ud by (cases, simp_all add: promoted_function_wf promoted_uses_defined promotesD(6))+
qed

lemma promote_module_kept:
  assumes "promote_slots m = Some (m', st)" "module_wf m" "\<forall>fn \<in> set (funcs m). promotable fn"
    "\<forall>fn \<in> set (funcs m'). length (vals fn) \<le> NO_VALUE"
  shows "module_wf m'" "\<forall>fn \<in> set (funcs m'). uses_defined fn"
proof -
  from assms(1) obtain fs where m': "m' = m\<lparr>funcs := fs\<rparr>" and
    r: "list_all2 (\<lambda>f f'. \<exists>s s'. promote_function (pointer_bits m) f s = Some (f', s')) (funcs m) fs"
    by (auto simp: promote_slots_def bind_eq_Some_conv dest: promote_functions_rel)
  have kept: "function_wf m fn' \<and> uses_defined fn'" if fn': "fn' \<in> set fs" for fn'
  proof -
    obtain fn s s' where "fn \<in> set (funcs m)" "promote_function (pointer_bits m) fn s = Some (fn', s')"
      using list_all2_right [OF r fn'] by blast
    moreover from this have "function_wf m fn" "promotable fn" "length (vals fn') \<le> NO_VALUE"
      using assms(2-4) fn' m' by (simp_all add: module_wf_def)
    ultimately show ?thesis using promote_function_kept(1,2) by blast
  qed
  then show "\<forall>fn \<in> set (funcs m'). uses_defined fn" by (simp add: m')
  have "map fsignature fs = map fsignature (funcs m)"
  proof (rule nth_equalityI)
    show l: "length (map fsignature fs) = length (map fsignature (funcs m))" using list_all2_lengthD [OF r] by simp
    fix k
    assume k: "k < length (map fsignature fs)"
    then obtain s s' where "promote_function (pointer_bits m) (funcs m ! k) s = Some (fs ! k, s')"
      using list_all2_nthD2 [OF r, of k] by auto
    moreover have "function_wf m (funcs m ! k)" "promotable (funcs m ! k)" "length (vals (fs ! k)) \<le> NO_VALUE"
      using assms(2-4) k l m' by (simp_all add: module_wf_def)
    ultimately have "fsignature (fs ! k) = fsignature (funcs m ! k)" by (rule promote_function_kept(3))
    then show "map fsignature fs ! k = map fsignature (funcs m) ! k" using k l by simp
  qed
  then have inst: "inst_wf m fn sg i \<Longrightarrow> inst_wf m' fn sg i" for fn sg i
    using inst_wf_module [of m fn sg i m'] by (simp add: m')
  have "function_wf m' fn'" if "fn' \<in> set fs" for fn'
    using kept [OF that] inst by (auto simp: function_wf_def block_wf_def m')
  then show "module_wf m'" by (simp add: module_wf_def m')
qed

lemma promote_functions_total:
  assumes "\<forall>fn \<in> set fs. function_wf m fn \<and> promotable fn \<and> (\<exists>rank. dominator_ranked fn rank) \<and>
      length (vals fn) + length (slots fn) * (length (blocks fn) + 1) \<le> n"
  shows "\<exists>fs' st'. promote_functions pb fs st = Some (fs', st') \<and> (\<forall>fn \<in> set fs'. length (vals fn) \<le> n)"
  using assms
proof (induction fs arbitrary: st)
  case (Cons f fs)
  then obtain rank where "function_wf m f" "promotable f" "dominator_ranked f rank"
      and n: "length (vals f) + length (slots f) * (length (blocks f) + 1) \<le> n" by auto
  from promote_function_total [OF this(1-3), of pb st] obtain f' st' where 1: "promote_function pb f st = Some (f', st')"
      "length (vals f') \<le> length (vals f) + length (slots f) * (length (blocks f) + 1)" by blast
  moreover obtain fs' st'' where "promote_functions pb fs st' = Some (fs', st'')" "\<forall>fn \<in> set fs'. length (vals fn) \<le> n"
    using Cons.IH [of st'] Cons.prems by auto
  ultimately show ?case using n by (intro exI [of _ "f' # fs'"]) simp
qed simp

subsection \<open>The counting loop\<close>

lemmas loop_defs = loop_module_def loop_function_def loop_blocks_def loop_val_def demo_defs

lemma loop_verified: "verify loop_module = []"
  by (simp add: verify_def check_function_def check_block_def check_inst_def check_arith_def check_return_def
      loop_defs default_inst_def is_terminator_def is_comparison_def is_int_binary_def is_integer_def check_operand_type_def value_ok_def
      UINT32_MAX_def op_order Let_def target_ok_def check_comparison_def is_float_comparison_def is_float_def)

lemma loop_promotable: "promotable loop_function"
  by (simp add: promotable_def coherent_def coherence loop_defs UINT32_MAX_def All_less_Suc2 all_insts_def)

lemma loop_preds: "pred_lists loop_function = [[], [0, 2], [1], [1, 2]]"
  by (simp add: pred_lists_def block_targets_def Let_def loop_defs upt_rec numeral_eq_Suc)

lemma loop_ranked: "dominator_ranked loop_function (\<lambda>b. b)"
  by (simp add: dominator_ranked_def loop_preds before_def Let_def All_less_Suc2) (simp add: loop_defs All_less_Suc2)

subsection \<open>A search that does not return\<close>

lemma cycle_diverges:
  assumes "preds p ! b = [b]" "entry_def p (s, b) = None" "exit_def_memo p (s, b) = None" "last_store p (s, b) = None"
  shows "get_entry s b p = None"
proof -
  have "reaches c p r \<Longrightarrow> preds p ! b = [b] \<Longrightarrow> entry_def p (s, b) = None \<Longrightarrow> exit_def_memo p (s, b) = None \<Longrightarrow>
      last_store p (s, b) = None \<Longrightarrow> c \<noteq> Entry_Of s b \<and> c \<noteq> Exit_Of s b" for c p r
    by (induction rule: reaches.induct) (auto simp: is_join_def)
  then have "\<not> reaches (Entry_Of s b) p r" for r using assms by blast
  then show ?thesis using reaching_reaches unfolding get_entry_def by (meson not_None_eq)
qed

lemmas cycle_defs = cycle_module_def cycle_function_def loop_val_def demo_defs

lemma cycle_verified: "verify cycle_module = []"
  by (simp add: verify_def check_function_def check_block_def check_inst_def check_return_def
      cycle_defs default_inst_def is_terminator_def is_comparison_def is_int_binary_def is_integer_def check_operand_type_def value_ok_def
      UINT32_MAX_def op_order Let_def target_ok_def)

lemma cycle_promotable: "promotable cycle_function"
  by (simp add: promotable_def coherent_def coherence cycle_defs UINT32_MAX_def All_less_Suc2 all_insts_def)

lemma cycle_addrs: "addr_to_slot cycle_function = [0 \<mapsto> 0]"
  by (simp add: addr_to_slot_def all_insts_def cycle_defs track_addr_def start_candidates_def)

lemma cycle_candidates: "candidates_of 64 cycle_function = [0 \<mapsto> Some Ty_I64]"
  unfolding candidates_of_def cycle_addrs
  by (simp add: all_insts_def scan_access_def note_access_def cycle_defs start_candidates_def store_size_def
      value_operands_def operand_shape_def disqualify_def fun_eq_iff)

lemma cycle_preds: "pred_lists cycle_function = [[], [1]]"
  by (simp add: pred_lists_def block_targets_def Let_def cycle_defs upt_rec numeral_eq_Suc)

lemma cycle_promote: "promote_slots cycle_module = None"
proof -
  let ?p = "start_prom [0 \<mapsto> Some Ty_I64] cycle_function"
  have a: "promoted_addrs cycle_function [0 \<mapsto> Some Ty_I64] = [0 \<mapsto> 0]"
    by (simp add: promoted_addrs_def cycle_addrs fun_eq_iff)
  have v: "var_types [0 \<mapsto> Some Ty_I64] = [0 \<mapsto> Ty_I64]" by (simp add: var_types_def fun_eq_iff)
  have ls: "last_stores [0 \<mapsto> 0] [0 \<mapsto> Ty_I64] cycle_function = Map.empty"
    by (simp add: last_stores_def note_store_def cycle_defs upt_rec numeral_eq_Suc)
  have p: "?p = \<lparr>qfn = cycle_function, vars = [0 \<mapsto> Ty_I64], addr_values = [0 \<mapsto> 0], preds = [[], [1]], entry_def = Map.empty,
      exit_def_memo = Map.empty, last_store = Map.empty, zero_consts = Map.empty, entry_prelude = [], added_params = (\<lambda>b. []),
      edge_args = Map.empty, qremap = []\<rparr>"
    by (simp add: start_prom_def Let_def a v ls cycle_preds)
  have g: "get_entry 0 1 ?p = None" by (rule cycle_diverges) (simp_all add: p)
  have i: "blocks cycle_function = [\<lparr>label = ''entry'', params = [], insts =
         [demo_inst Op_SlotAddr Ty_Ptr 0 0 NO_VALUE [], demo_inst Op_ConstInt Ty_I64 1 NO_VALUE NO_VALUE [],
          demo_inst Op_Return Ty_Void NO_VALUE NO_VALUE NO_VALUE [1]]\<rparr>,
       \<lparr>label = ''cycle'', params = [], insts =
         [demo_inst Op_Load Ty_I64 2 0 NO_VALUE [], demo_inst Op_Jump Ty_Void NO_VALUE 1 NO_VALUE []]\<rparr>]"
    by (simp add: cycle_function_def)
  have f: "oper (demo_inst x t r a b as) = x" "result (demo_inst x t r a b as) = r" "opa (demo_inst x t r a b as) = a" for x t r a b as
    by (simp_all add: demo_inst_def)
  have "settle_stores 0 ?p = Some (?p\<lparr>last_store := (\<lambda>_. None)\<rparr>)" by (simp add: settle_stores_def p fun_eq_iff)
  also have "?p\<lparr>last_store := (\<lambda>_. None)\<rparr> = ?p" by (simp add: p)
  finally have s: "settle_stores 0 ?p = Some ?p" .
  have q: "qfn ?p = cycle_function" "addr_values ?p = [0 \<mapsto> 0]" by (simp_all add: p)
  have "walk_blocks [0, 1] ?p = None"
    by (simp add: q i walk_inst_def f s g [unfolded One_nat_def])
  moreover have "[0..<length (blocks cycle_function)] = [0, 1]" by (simp add: i upt_rec)
  moreover have "\<not> (\<not> has_body cycle_function \<or> blocks cycle_function = [])" by (simp add: i) (simp add: cycle_defs)
  moreover have "\<not> (\<forall>s < length (slots cycle_function). [0 \<mapsto> Some Ty_I64] s = None)" by (simp add: cycle_function_def)
  ultimately have "promote_function 64 cycle_function st = None" for st
    unfolding promote_function_def Let_def cycle_candidates by (simp only: if_False bind.simps)
  then show ?thesis by (simp add: promote_slots_def cycle_module_def demo_module_def)
qed

subsection \<open>Properties\<close>

text \<open>
  C2: Slot promotion of a verified module returns, the result passes the verifier and every operand in it is
  defined, when functions are coherent as the builder leaves them, blocks with one predecessor come after it in
  some ranking (dominator depth, for reachable code), values are stored after their definition, and the values
  the pass may add still have ids.
\<close>

theorem promote_keeps_verified:
  assumes "verify m = []"
    and "\<forall>fn \<in> set (funcs m). promotable fn \<and> (\<exists>rank. dominator_ranked fn rank) \<and>
      length (vals fn) + length (slots fn) * (length (blocks fn) + 1) \<le> UINT32_MAX"
  shows "\<exists>m' st. promote_slots m = Some (m', st) \<and> verify m' = [] \<and> (\<forall>fn \<in> set (funcs m'). uses_defined fn)"
proof -
  have wf: "module_wf m" using assms(1) by (simp add: verify_Nil)
  then obtain fs st where p: "promote_functions (pointer_bits m) (funcs m) \<lparr>slots_promoted = 0, params_added = 0\<rparr> = Some (fs, st)"
      "\<forall>fn \<in> set fs. length (vals fn) \<le> UINT32_MAX"
    using promote_functions_total [of "funcs m" m UINT32_MAX "pointer_bits m" "\<lparr>slots_promoted = 0, params_added = 0\<rparr>"] assms(2)
    unfolding module_wf_def by blast
  then have r: "promote_slots m = Some (m\<lparr>funcs := fs\<rparr>, st)" by (simp add: promote_slots_def)
  then show ?thesis using promote_module_kept [OF r wf] assms(2) p(2) by (simp add: verify_Nil)
qed

theorem promote_keeps_verified_witness:
  "\<exists>m' st. promote_slots loop_module = Some (m', st) \<and> verify m' = [] \<and> (\<forall>fn \<in> set (funcs m'). uses_defined fn)"
proof (rule promote_keeps_verified [OF loop_verified])
  have "length (vals loop_function) + length (slots loop_function) * (length (blocks loop_function) + 1) \<le> UINT32_MAX"
    by (simp add: loop_defs UINT32_MAX_def)
  then show "\<forall>fn \<in> set (funcs loop_module). promotable fn \<and> (\<exists>rank. dominator_ranked fn rank) \<and>
      length (vals fn) + length (slots fn) * (length (blocks fn) + 1) \<le> UINT32_MAX"
    using loop_promotable loop_ranked by (auto simp: loop_module_def)
qed

text \<open>
  C20: On a verified module with an unreachable block that is its own only predecessor, slot promotion does not
  return: the search for the value a slot has on entry to that block never ends.
\<close>

theorem promote_may_diverge:
  "verify cycle_module = [] \<and> funcs cycle_module = [cycle_function] \<and> promotable cycle_function \<and>
   promote_slots cycle_module = None"
  using cycle_verified cycle_promotable cycle_promote by (simp add: cycle_module_def)

end
