(* ===== verification/Mir_Peephole_Params.thy ===== *)
theory Mir_Peephole_Params
  imports Mir_Peephole_Wf
begin

text \<open>
  The removal of trivial block parameters (\<^verbatim>\<open>Peep::fold_trivial_params\<close>): a parameter disappears
  together with its argument column in every jump, so the arities still agree; the pass as a whole
  keeps modules well typed; and following the remap chains it builds always ends.
\<close>

subsection \<open>Removing a parameter column\<close>

definition cut_arg :: "nat \<Rightarrow> block \<Rightarrow> block" where
  "cut_arg k blk =
     (let is = insts blk; t = last is
      in if k < length (args t) then blk\<lparr>insts := butlast is @ [t\<lparr>args := erase_at k (args t)\<rparr>]\<rparr> else blk)"

lemma erase_arg_nth:
  "c < length (blocks fn) \<Longrightarrow>
     erase_arg k c fn = fn\<lparr>blocks := (blocks fn)[c := cut_arg k (blocks fn ! c)]\<rparr>"
  by (cases fn) (simp add: erase_arg_def cut_arg_def Let_def)

lemma fold_erase_arg:
  assumes "distinct cs" and "\<forall>c \<in> set cs. c < length (blocks fn)"
  shows "\<exists>bs. fold (erase_arg k) cs fn = fn\<lparr>blocks := bs\<rparr> \<and> length bs = length (blocks fn) \<and>
    (\<forall>c < length bs. bs ! c = (if c \<in> set cs then cut_arg k (blocks fn ! c) else blocks fn ! c))"
  using assms
proof (induction cs arbitrary: fn)
  case Nil
  then show ?case by (intro exI [of _ "blocks fn"]) simp
next
  case (Cons c cs)
  let ?fn = "fn\<lparr>blocks := (blocks fn)[c := cut_arg k (blocks fn ! c)]\<rparr>"
  obtain bs where bs: "fold (erase_arg k) cs ?fn = ?fn\<lparr>blocks := bs\<rparr>" "length bs = length (blocks ?fn)"
    "\<forall>d < length bs. bs ! d = (if d \<in> set cs then cut_arg k (blocks ?fn ! d) else blocks ?fn ! d)"
    using Cons.IH [of ?fn] Cons.prems by auto
  then show ?case
    using Cons.prems by (intro exI [of _ bs]) (auto simp: erase_arg_nth nth_list_update)
qed

lemma jump_preds_iff:
  "c \<in> set (jump_preds fn t) \<longleftrightarrow>
     c < length (blocks fn) \<and> insts (blocks fn ! c) \<noteq> [] \<and>
     oper (last (insts (blocks fn ! c))) = Op_Jump \<and> opa (last (insts (blocks fn ! c))) = t"
  by (auto simp: jump_preds_def)

lemma distinct_jump_preds: "distinct (jump_preds fn t)"
  by (simp add: jump_preds_def)

text \<open>The whole removal, block by block.\<close>

definition erase_column :: "block_id \<Rightarrow> nat \<Rightarrow> func \<Rightarrow> func" where
  "erase_column b k fn = fold (erase_arg k) (jump_preds fn b) (erase_param b k fn)"

lemma cut_arg_params: "cut_arg k (blk\<lparr>params := ps\<rparr>) = (cut_arg k blk)\<lparr>params := ps\<rparr>"
  and params_cut_arg [simp]: "params (cut_arg k blk) = params blk"
  by (simp_all add: cut_arg_def Let_def)

lemma erase_column_blocks:
  assumes b: "b < length (blocks fn)"
  obtains bs where "erase_column b k fn = fn\<lparr>blocks := bs\<rparr>" "length bs = length (blocks fn)"
    "\<And>c. c < length bs \<Longrightarrow> params (bs ! c) =
       (if c = b then erase_at k (params (blocks fn ! b)) else params (blocks fn ! c))"
    "\<And>c. c < length bs \<Longrightarrow> insts (bs ! c) =
       (if c \<in> set (jump_preds fn b) then insts (cut_arg k (blocks fn ! c)) else insts (blocks fn ! c))"
proof -
  have "\<forall>c \<in> set (jump_preds fn b). c < length (blocks (erase_param b k fn))"
    by (simp add: jump_preds_iff erase_param_def)
  from fold_erase_arg [OF distinct_jump_preds this, of k] obtain bs where
    bs: "erase_column b k fn = (erase_param b k fn)\<lparr>blocks := bs\<rparr>" "length bs = length (blocks fn)"
    "\<forall>c < length bs. bs ! c = (if c \<in> set (jump_preds fn b) then cut_arg k (blocks (erase_param b k fn) ! c)
       else blocks (erase_param b k fn) ! c)"
    by (auto simp: erase_column_def erase_param_def)
  show ?thesis
    by (rule that [of bs]) (use bs b in \<open>auto simp: erase_param_def nth_list_update cut_arg_params\<close>)
qed

lemma target_ok_params:
  assumes "target_ok fn t as" "vals fn' = vals fn" "length (blocks fn') = length (blocks fn)"
    and "params (blocks fn' ! t) = params (blocks fn ! t)"
  shows "target_ok fn' t as"
  using assms by (simp add: target_ok_def value_ok_def)

lemma inst_wf_other_target:
  assumes "inst_wf m fn sg i" "vals fn' = vals fn" "slots fn' = slots fn"
    and "length (blocks fn') = length (blocks fn)"
    and "\<And>t. t \<in> set (term_targets i) \<Longrightarrow> params (blocks fn' ! t) = params (blocks fn ! t)"
  shows "inst_wf m fn' sg i"
proof -
  have v: "\<And>x. value_ok fn' x = value_ok fn x" "\<And>g as. args_match fn' g as = args_match fn g as"
    using assms(2) by (simp_all add: value_ok_def args_match_def)
  have t: "target_ok fn' t as" if "t \<in> set (term_targets i)" "target_ok fn t as" for t as
    using target_ok_params [OF that(2) assms(2,4) assms(5) [OF that(1)]] .
  from assms(1) show ?thesis
  proof (cases rule: inst_wf.cases)
    case wf_jump
    then show ?thesis using t by (intro inst_wf.wf_jump) (simp_all add: term_targets_def)
  next
    case wf_branch
    then show ?thesis using t v(1) assms(2) by (intro inst_wf.wf_branch) (simp_all add: term_targets_def)
  next
    case wf_switch
    then show ?thesis using t v(1) by (intro inst_wf.wf_switch) (simp_all add: term_targets_def)
  next
    case (wf_return w)
    then show ?thesis by (intro inst_wf.wf_return [of _ _ w]) (simp_all add: v assms(2))
  next
    case (wf_icmp w)
    then show ?thesis by (intro inst_wf.wf_icmp [of _ _ w]) (simp_all add: v assms(2))
  next
    case (wf_fcmp w)
    then show ?thesis by (intro inst_wf.wf_fcmp [of _ _ w]) (simp_all add: v assms(2))
  qed (rule wf_rules range_rules; simp add: v assms(2,3); fail)+
qed

lemma list_all2_erase_at: "list_all2 R xs ys \<Longrightarrow> list_all2 R (erase_at k xs) (erase_at k ys)"
  by (simp add: erase_at_def list_all2_appendI list_all2_takeI list_all2_dropI)

text \<open>A block with parameters is entered by the jumps the pass has listed and by nothing else.\<close>

lemma no_target_unless_jump:
  assumes "inst_wf m fn sg i" and "params (blocks fn ! b) \<noteq> []" and "oper i = Op_Jump \<longrightarrow> opa i \<noteq> b"
  shows "b \<notin> set (term_targets i)"
proof (cases "oper i \<in> {Op_Branch, Op_Switch}")
  case True
  then show ?thesis using inst_wf_no_args [OF assms(1)] assms(2) by blast
next
  case False
  then show ?thesis using assms(3) by (auto simp: term_targets_def)
qed

lemma erase_column_inst:
  assumes "inst_wf m fn sg i" "params (blocks fn ! b) \<noteq> []" "oper i = Op_Jump \<longrightarrow> opa i \<noteq> b"
    and "length bs = length (blocks fn)"
    and "\<And>c. c < length bs \<Longrightarrow> c \<noteq> b \<Longrightarrow> params (bs ! c) = params (blocks fn ! c)"
  shows "inst_wf m (fn\<lparr>blocks := bs\<rparr>) sg i"
proof (rule inst_wf_other_target [OF assms(1)])
  fix t assume "t \<in> set (term_targets i)"
  then show "params (blocks (fn\<lparr>blocks := bs\<rparr>) ! t) = params (blocks fn ! t)"
    using assms(4,5) inst_wf_targets [OF assms(1)] no_target_unless_jump [OF assms(1-3)]
    by (metis func.select_convs(6) func.surjective func.update_convs(6))
qed (use assms(4) in simp_all)

lemma erase_column_jump:
  assumes "inst_wf m fn sg t" "oper t = Op_Jump" "opa t = b" "length bs = length (blocks fn)"
    and "params (bs ! b) = erase_at k (params (blocks fn ! b))"
  shows "inst_wf m (fn\<lparr>blocks := bs\<rparr>) sg (t\<lparr>args := erase_at k (args t)\<rparr>)"
proof -
  have "target_ok fn b (args t)"
    using assms(1-3) by (cases rule: inst_wf.cases) (auto simp: op_order conversions_def)
  then have "target_ok (fn\<lparr>blocks := bs\<rparr>) b (erase_at k (args t))"
    using assms(4,5) by (simp add: target_ok_def value_ok_def list_all2_erase_at)
  then show ?thesis
    using assms(2,3) by (intro inst_wf.wf_jump) simp_all
qed

lemma erase_column_block:
  assumes wf: "block_wf m fn sg (blocks fn ! c)" and c: "c < length (blocks fn)"
    and b: "k < length (params (blocks fn ! b))"
    and bs: "length bs = length (blocks fn)"
      "\<And>c. c < length bs \<Longrightarrow> c \<noteq> b \<Longrightarrow> params (bs ! c) = params (blocks fn ! c)"
      "params (bs ! b) = erase_at k (params (blocks fn ! b))"
    and ni: "insts (bs ! c) =
      (if c \<in> set (jump_preds fn b) then insts (cut_arg k (blocks fn ! c)) else insts (blocks fn ! c))"
  shows "block_wf m (fn\<lparr>blocks := bs\<rparr>) sg (bs ! c)"
proof -
  let ?is = "insts (blocks fn ! c)"
  have ne: "params (blocks fn ! b) \<noteq> []" "?is \<noteq> []" "is_terminator (oper (last ?is))"
    "\<And>i. i \<in> set (butlast ?is) \<Longrightarrow> \<not> is_terminator (oper i)"
    "\<And>i. i \<in> set ?is \<Longrightarrow> inst_wf m fn sg i"
    using wf b by (auto simp: block_wf_def)
  note keep = erase_column_inst [OF _ ne(1) _ bs(1,2)]
  have front: "inst_wf m (fn\<lparr>blocks := bs\<rparr>) sg i" if "i \<in> set (butlast ?is)" for i
    using that ne(4,5) by (intro keep) (auto simp: is_terminator_def dest: in_set_butlastD)
  show ?thesis
  proof (cases "c \<in> set (jump_preds fn b)")
    case True
    then have j: "oper (last ?is) = Op_Jump" "opa (last ?is) = b"
      by (simp_all add: jump_preds_iff)
    have l: "inst_wf m fn sg (last ?is)" using ne by simp
    then have "k < length (args (last ?is))"
      using inst_wf_jump_args [OF l j(1)] j(2) b by simp
    with True ni have "insts (bs ! c) = butlast ?is @ [(last ?is)\<lparr>args := erase_at k (args (last ?is))\<rparr>]"
      by (simp add: cut_arg_def Let_def)
    then show ?thesis
      using front ne j erase_column_jump [OF l j bs(1,3)] by (auto simp: block_wf_def)
  next
    case False
    then have "\<not> (oper (last ?is) = Op_Jump \<and> opa (last ?is) = b)"
      using c ne(2) by (simp add: jump_preds_iff)
    then have "inst_wf m (fn\<lparr>blocks := bs\<rparr>) sg (last ?is)"
      using ne by (intro keep) auto
    with front have "\<forall>i \<in> set ?is. inst_wf m (fn\<lparr>blocks := bs\<rparr>) sg i"
      using ne(2) by (metis Un_iff append_butlast_last_id empty_iff insert_iff list.set(1,2) set_append)
    then show ?thesis
      using ni False ne by (simp add: block_wf_def)
  qed
qed

lemma cut_arg_insts:
  assumes "insts blk \<noteq> []"
  shows "insts (cut_arg k blk) \<noteq> []" "oper (last (insts (cut_arg k blk))) = oper (last (insts blk))"
    "opa (last (insts (cut_arg k blk))) = opa (last (insts blk))"
    "i' \<in> set (insts (cut_arg k blk)) \<Longrightarrow>
       \<exists>i \<in> set (insts blk). result i' = result i \<and> itype i' = itype i \<and> oper i' = oper i"
  using assms by (auto simp: cut_arg_def Let_def dest: in_set_butlastD split: if_splits)

lemma erase_column_frame:
  assumes "b < length (blocks fn)"
  shows "vals (erase_column b k fn) = vals fn" "slots (erase_column b k fn) = slots fn"
    "has_body (erase_column b k fn) = has_body fn" "fsignature (erase_column b k fn) = fsignature fn"
    "length (blocks (erase_column b k fn)) = length (blocks fn)"
    "params (blocks (erase_column b k fn) ! b) = erase_at k (params (blocks fn ! b))"
    "jump_preds (erase_column b k fn) = jump_preds fn"
proof -
  obtain bs where bs: "erase_column b k fn = fn\<lparr>blocks := bs\<rparr>" "length bs = length (blocks fn)"
    "\<And>c. c < length bs \<Longrightarrow> params (bs ! c) =
       (if c = b then erase_at k (params (blocks fn ! b)) else params (blocks fn ! c))"
    "\<And>c. c < length bs \<Longrightarrow> insts (bs ! c) =
       (if c \<in> set (jump_preds fn b) then insts (cut_arg k (blocks fn ! c)) else insts (blocks fn ! c))"
    using erase_column_blocks [OF assms] by blast
  then show "vals (erase_column b k fn) = vals fn" "slots (erase_column b k fn) = slots fn"
    "has_body (erase_column b k fn) = has_body fn" "fsignature (erase_column b k fn) = fsignature fn"
    "length (blocks (erase_column b k fn)) = length (blocks fn)"
    "params (blocks (erase_column b k fn) ! b) = erase_at k (params (blocks fn ! b))"
    using assms by simp_all
  show "jump_preds (erase_column b k fn) = jump_preds fn"
    unfolding jump_preds_def
    by (rule ext, rule filter_cong) (use bs cut_arg_insts in \<open>auto simp: jump_preds_iff\<close>)
qed

lemma erase_column_ok:
  assumes "function_wf m fn" "ssa_typed fn" "has_body fn"
    and b: "b < length (blocks fn)" "k < length (params (blocks fn ! b))"
  shows "function_wf m (erase_column b k fn)" "ssa_typed (erase_column b k fn)"
proof -
  obtain bs where bs: "erase_column b k fn = fn\<lparr>blocks := bs\<rparr>" "length bs = length (blocks fn)"
    "\<And>c. c < length bs \<Longrightarrow> params (bs ! c) =
       (if c = b then erase_at k (params (blocks fn ! b)) else params (blocks fn ! c))"
    "\<And>c. c < length bs \<Longrightarrow> insts (bs ! c) =
       (if c \<in> set (jump_preds fn b) then insts (cut_arg k (blocks fn ! c)) else insts (blocks fn ! c))"
    using erase_column_blocks [OF b(1)] by blast
  let ?sg = "signatures m ! fsignature fn"
  have wf: "block_wf m fn ?sg (blocks fn ! c)" if "c < length bs" for c
    using that assms(1,3) bs(2) by (simp add: function_wf_def)
  have "block_wf m (fn\<lparr>blocks := bs\<rparr>) ?sg (bs ! c)" if "c < length bs" for c
    using that b bs(2-4) by (intro erase_column_block [OF wf]) simp_all
  then show "function_wf m (erase_column b k fn)"
    using assms(1,3) bs(1,2) by (auto simp: function_wf_def all_set_conv_all_nth)
  have "set (params (bs ! c)) \<subseteq> set (params (blocks fn ! c))" if "c < length bs" for c
    using that bs(3) [of c] set_erase_at [of k "params (blocks fn ! b)"] by (auto split: if_splits)
  then have "q < length (vals fn)" if "c < length bs" "q \<in> set (params (bs ! c))" for c q
    using that assms(2) bs(2) nth_mem [of c "blocks fn"] unfolding ssa_typed_def by (metis subsetD)
  then have ps: "\<forall>blk \<in> set bs. \<forall>q \<in> set (params blk). q < length (vals fn)"
    by (metis in_set_conv_nth)
  have ni: "\<exists>i \<in> set (all_insts fn). result i' = result i \<and> itype i' = itype i \<and> oper i' = oper i"
    if "c < length bs" "i' \<in> set (insts (bs ! c))" for c i'
  proof -
    have "\<exists>i \<in> set (insts (blocks fn ! c)). result i' = result i \<and> itype i' = itype i \<and> oper i' = oper i"
      using that bs(4) [of c] cut_arg_insts(4) [of "blocks fn ! c" i' k]
      by (cases "c \<in> set (jump_preds fn b)") (auto simp: jump_preds_iff)
    moreover have "set (insts (blocks fn ! c)) \<subseteq> set (all_insts fn)"
      using that(1) bs(2) nth_mem [of c "blocks fn"] unfolding all_insts_def by fastforce
    ultimately show ?thesis by blast
  qed
  have "(value_ok fn (result i') \<longrightarrow> vd_type (vals fn ! result i') = itype i') \<and>
      (oper i' \<in> {Op_Trunc, Op_ZExt, Op_SExt} \<longrightarrow> is_integer (itype i'))"
    if "i' \<in> set (all_insts (fn\<lparr>blocks := bs\<rparr>))" for i'
  proof -
    from that obtain c where "c < length bs" "i' \<in> set (insts (bs ! c))"
      by (auto simp: in_all_insts in_set_conv_nth [of _ bs])
    with ni obtain i where "i \<in> set (all_insts fn)" "result i' = result i" "itype i' = itype i" "oper i' = oper i"
      by blast
    then show ?thesis
      using assms(2) by (simp add: ssa_typed_def)
  qed
  with ps show "ssa_typed (erase_column b k fn)"
    by (simp add: bs(1) ssa_typed_def value_ok_def)
qed

text \<open>The scan of a parameter's arguments yields a resolved value of the parameter's type.\<close>

lemma param_scan_unique:
  assumes "param_scan p k param cs u = Some (True, v)"
    and "\<And>c. c \<in> set cs \<Longrightarrow> k < length (term_args (pfn p) c) \<Longrightarrow> P (term_args (pfn p) c ! k)"
    and "\<And>a w. P a \<Longrightarrow> resolve (remap p) a = Some w \<Longrightarrow> P w"
    and "u = NO_VALUE \<or> P u \<and> u \<noteq> param \<and> map_of (remap p) u = None"
  shows "v = NO_VALUE \<or> P v \<and> v \<noteq> param \<and> map_of (remap p) v = None"
  using assms(1,2,4)
proof (induction cs arbitrary: u)
  case (Cons c cs)
  from Cons.prems(1) obtain a where k: "k < length (term_args (pfn p) c)"
    and a: "resolve (remap p) (term_args (pfn p) c ! k) = Some a"
    by (auto simp: bind_eq_Some_conv split: if_splits)
  have "P a" "map_of (remap p) a = None"
    using assms(3) [OF _ a] Cons.prems(2) k resolve_terminal [OF a] by simp_all
  then show ?case
    using Cons k a by (auto simp: bind_eq_Some_conv split: if_splits)
qed simp

lemma remap_ok_frame: "vals fn' = vals fn \<Longrightarrow> remap_ok fn' r = remap_ok fn r"
  by (simp add: remap_ok_def value_ok_def)

text \<open>In a typed function, every jump passes at column \<open>k\<close> a value of the parameter's type.\<close>

lemma jump_arg_typed:
  assumes "function_wf m fn" "has_body fn" "c \<in> set (jump_preds fn b)" "k < length (term_args fn c)"
  shows "typed fn (term_args fn c ! k) (vd_type (vals fn ! (params (blocks fn ! b) ! k)))"
proof -
  let ?t = "last (insts (blocks fn ! c))"
  have "inst_wf m fn (signatures m ! fsignature fn) ?t"
    using assms(1-3) last_in_set nth_mem unfolding function_wf_def block_wf_def jump_preds_iff by metis
  moreover have "oper ?t = Op_Jump" "opa ?t = b"
    using assms(3) by (simp_all add: jump_preds_iff)
  ultimately have "target_ok fn b (args ?t)"
    by (cases rule: inst_wf.cases) (auto simp: op_order conversions_def)
  then show ?thesis
    using assms(4) by (simp add: target_ok_def list_all2_conv_all_nth term_args_def)
qed

lemma erase_at_drop: "drop k xs = x # ys \<Longrightarrow> drop k (erase_at k xs) = ys"
  by (cases "k < length xs") (simp_all add: erase_at_def flip: Cons_nth_drop_Suc)

lemma param_scan_typed:
  assumes "peep_ok m p" and "preds = jump_preds (pfn p) b" and "params (blocks (pfn p) ! b) ! k = param"
    and "param_scan p k param preds NO_VALUE = Some (True, u)"
  shows "u = NO_VALUE \<or> typed (pfn p) u (vd_type (vals (pfn p) ! param)) \<and> u \<noteq> param \<and>
    map_of (remap p) u = None"
proof (rule param_scan_unique [OF assms(4)])
  show "typed (pfn p) (term_args (pfn p) c ! k) (vd_type (vals (pfn p) ! param))"
    if "c \<in> set preds" "k < length (term_args (pfn p) c)" for c
    using that jump_arg_typed [of m "pfn p" c b k] assms(1-3) by (simp add: peep_ok_def)
  show "typed (pfn p) w (vd_type (vals (pfn p) ! param))"
    if "typed (pfn p) a (vd_type (vals (pfn p) ! param))" "resolve (remap p) a = Some w" for a w
    using that resolve_typed [OF that(2), of "pfn p"] assms(1) by (simp add: peep_ok_def)
qed simp

lemma remap_ok_Cons:
  "remap_ok fn r \<Longrightarrow> typed fn w (vd_type (vals fn ! k)) \<Longrightarrow> remap_ok fn ((k, w) # r)"
  by (simp add: remap_ok_def)

lemma fold_params_ok:
  assumes "fold_params b preds used k rest (p, st, ch) = Some (p', st', ch')" and "peep_ok m p"
    and "preds = jump_preds (pfn p) b" "b < length (blocks (pfn p))"
    and "rest = drop k (params (blocks (pfn p) ! b))"
  shows "peep_ok m p' \<and> jump_preds (pfn p') = jump_preds (pfn p) \<and>
    length (blocks (pfn p')) = length (blocks (pfn p))"
  using assms
proof (induction rest arbitrary: p st ch k)
  case (Cons param rest)
  let ?fn = "pfn p"
  have k: "k < length (params (blocks ?fn ! b))" "params (blocks ?fn ! b) ! k = param"
    "rest = drop (Suc k) (params (blocks ?fn ! b))"
    using Cons.prems(5) by (metis drop_eq_Nil list.distinct(1) not_le,
      metis nth_via_drop, metis drop_Suc list.sel(3) tl_drop)
  obtain triv u where scan: "param_scan p k param preds NO_VALUE = Some (triv, u)"
    using Cons.prems(1) by (auto simp: bind_eq_Some_conv)
  show ?case
  proof (cases "\<not> triv \<or> (u = NO_VALUE \<and> \<not> param \<notin> set used)")
    case True
    then show ?thesis
      using Cons.IH [of "Suc k" p st ch] Cons.prems k(3) scan by simp
  next
    case False
    let ?q = "p\<lparr>remap := (if param \<notin> set used then remap p else (param, u) # remap p),
      pfn := fold (erase_arg k) preds (erase_param b k ?fn)\<rparr>"
    have f: "fold (erase_arg k) preds (erase_param b k ?fn) = erase_column b k ?fn"
      using Cons.prems(3) by (simp add: erase_column_def)
    have u: "u = NO_VALUE \<or> typed ?fn u (vd_type (vals ?fn ! param)) \<and> u \<noteq> param \<and>
        map_of (remap p) u = None"
      using scan False Cons.prems(2,3) k(2) by (intro param_scan_typed) simp_all
    note fr = erase_column_frame [OF Cons.prems(4), of k]
    have "remap_ok ?fn (remap ?q)"
      using Cons.prems(2) u False by (auto simp: peep_ok_def intro: remap_ok_Cons)
    then have "peep_ok m ?q"
      using Cons.prems(2,4) k(1) erase_column_ok [of m ?fn b k] fr
      by (simp add: f peep_ok_def remap_ok_frame [OF fr(1)])
    moreover have run: "fold_params b preds used k rest (?q, st\<lparr>params_removed := params_removed st + 1\<rparr>, True)
        = Some (p', st', ch')"
      using Cons.prems(1) scan False by (auto simp: Let_def)
    moreover have "rest = drop k (params (blocks (pfn ?q) ! b))"
      using fr(6) erase_at_drop [OF Cons.prems(5) [symmetric]] by (simp add: f)
    moreover have pq: "jump_preds (pfn ?q) = jump_preds ?fn" "length (blocks (pfn ?q)) = length (blocks ?fn)"
      using fr(5,7) by (simp_all add: f)
    moreover have "preds = jump_preds (pfn ?q) b"
      unfolding pq by (rule Cons.prems(3))
    ultimately show ?thesis
      using Cons.IH [OF run] Cons.prems(4) by simp
  qed
qed simp

lemma fold_params_blocks_ok:
  assumes "fold_params_blocks (jump_preds fn) used bs (p, st, ch) = Some (p', st', ch')" and "peep_ok m p"
    and "jump_preds (pfn p) = jump_preds fn" and "\<forall>b \<in> set bs. b < length (blocks (pfn p))"
  shows "peep_ok m p'"
  using assms
proof (induction bs arbitrary: p st ch)
  case (Cons b bs)
  show ?case
  proof (cases "params (blocks (pfn p) ! b) = [] \<or> jump_preds fn b = []")
    case False
    with Cons.prems(1) obtain p1 st1 ch1 where
      s: "fold_params b (jump_preds fn b) used 0 (params (blocks (pfn p) ! b)) (p, st, ch) = Some (p1, st1, ch1)"
      "fold_params_blocks (jump_preds fn) used bs (p1, st1, ch1) = Some (p', st', ch')"
      by (auto simp: bind_eq_Some_conv)
    have "peep_ok m p1 \<and> jump_preds (pfn p1) = jump_preds (pfn p) \<and>
        length (blocks (pfn p1)) = length (blocks (pfn p))"
      by (rule fold_params_ok [OF s(1)]) (use Cons.prems in simp_all)
    then show ?thesis
      using Cons.IH [OF s(2)] Cons.prems(3,4) by simp
  qed (use Cons in auto)
qed simp

lemma fold_trivial_params_ok:
  assumes "peep_ok m p" and "fold_trivial_params p st = Some (q, st', c)"
  shows "peep_ok m q"
proof -
  from assms(2) obtain p' st1 c1 where
    f: "fold_params_blocks (jump_preds (pfn p)) (used_values (pfn p)) [1..<length (blocks (pfn p))]
      (p, st, False) = Some (p', st1, c1)" and q: "q = p' \<or> apply_remap p' = Some q"
    by (auto simp: fold_trivial_params_def bind_eq_Some_conv split: if_splits)
  have "peep_ok m p'"
    using fold_params_blocks_ok [OF f assms(1)] by simp
  then show ?thesis
    using q apply_remap_ok by blast
qed

subsection \<open>The whole pass keeps the typing\<close>

text \<open>A round is a sequence of the three passes, each of which keeps the invariant.\<close>

inductive peep_pass :: "peep \<Rightarrow> peep \<Rightarrow> bool" where
  pass_fold: "fold_and_simplify p st = Some (q, st', c) \<Longrightarrow> peep_pass p q"
| pass_params: "fold_trivial_params p st = Some (q, st', c) \<Longrightarrow> peep_pass p q"
| pass_dead: "peep_pass p (fst (remove_dead p st))"

interpretation passes: invariant_system peep_pass "peep_ok m" for m
proof
  fix p q assume "peep_pass p q" "peep_ok m p"
  then show "peep_ok m q"
    by (induction rule: peep_pass.induct)
       (auto intro: fold_and_simplify_ok fold_trivial_params_ok remove_dead_ok)
qed

lemma rounds_passes: "rounds n p st = Some (q, st') \<Longrightarrow> peep_pass\<^sup>*\<^sup>* p q"
proof (induction n arbitrary: p st)
  case (Suc n)
  then obtain p1 st1 c1 p2 st2 c2 where
    1: "fold_and_simplify p st = Some (p1, st1, c1)" and
    2: "fold_trivial_params p1 st1 = Some (p2, st2, c2)"
    by (auto simp: bind_eq_Some_conv)
  define p3 where "p3 = fst (remove_dead p2 st2)"
  have "peep_pass p p1" "peep_pass p1 p2" "peep_pass p2 p3"
    using 1 2 by (auto simp: p3_def intro: peep_pass.intros)
  then have "peep_pass\<^sup>*\<^sup>* p p3"
    by (meson converse_rtranclp_into_rtranclp rtranclp.rtrancl_refl)
  moreover have "q = p3 \<or> peep_pass\<^sup>*\<^sup>* p3 q"
    using Suc.prems Suc.IH 1 2 by (auto simp: p3_def bind_eq_Some_conv case_prod_beta split: if_splits)
  ultimately show ?case by auto
qed simp

lemma rounds_ok: "rounds n p st = Some (q, st') \<Longrightarrow> peep_ok m p \<Longrightarrow> peep_ok m q"
  by (rule passes.run_inv [OF rounds_passes])

text \<open>Renumbering the value table leaves the types alone.\<close>

definition type_of_vals :: "value_def list \<Rightarrow> ty list" where
  "type_of_vals vs = map vd_type vs"

lemma type_of_vals_update:
  "vd_type d = vd_type (vs ! v) \<Longrightarrow> type_of_vals (vs[v := d]) = type_of_vals vs"
  by (cases "v < length vs") (simp_all add: type_of_vals_def map_update list_update_same_conv list_update_beyond)

lemma fold_keeps: "(\<And>x s. f (g x s) = f s) \<Longrightarrow> f (fold g xs s) = f s"
  by (induction xs arbitrary: s) simp_all

lemma reindex_types: "type_of_vals (vals (reindex fn)) = type_of_vals (vals fn)"
proof -
  have "type_of_vals (set_param_def b kv vs) = type_of_vals vs" for b kv vs
    by (cases kv) (simp add: set_param_def_def type_of_vals_update)
  moreover have "type_of_vals (set_inst_def b ki vs) = type_of_vals vs" for b ki vs
    by (cases ki) (simp add: set_inst_def_def type_of_vals_update)
  ultimately have "type_of_vals (reindex_block bb vs) = type_of_vals vs" for bb vs
    by (cases bb) (simp add: reindex_block_def fold_keeps [of type_of_vals])
  then show ?thesis
    by (simp add: reindex_def fold_keeps [of type_of_vals])
qed

lemma peephole_function_ok:
  assumes "peephole_function pb fn st = Some (fn', st')" and "function_wf m fn" and "ssa_typed fn"
  shows "function_wf m fn'"
proof (cases "\<not> has_body fn \<or> blocks fn = []")
  case False
  with assms(1) obtain p st1 where
    r: "rounds 16 \<lparr>pfn = fn, ppointer_bits = pb, pconsts = Map.empty, remap = []\<rparr> st = Some (p, st1)"
    and fn': "fn' = reindex (pfn p)"
    by (auto simp: peephole_function_def bind_eq_Some_conv)
  have ok: "peep_ok m p"
    using rounds_ok [OF r] assms(2,3) False by (simp add: peep_ok_def)
  have c: "same_context (pfn p) (reindex (pfn p))"
    using reindex_types [of "pfn p"] by (simp add: same_context_def type_of_vals_def reindex_def)
  have "function_wf m (reindex (pfn p))"
  proof (rule function_wf_rebuild [OF _ c])
    show "function_wf m (pfn p)" "ssa_typed (pfn p)"
      using ok by (simp_all add: peep_ok_def)
  qed (simp_all add: reindex_def list_all2_refl)
  then show ?thesis
    by (simp add: fn')
qed (use assms in \<open>simp add: peephole_function_def\<close>)

text \<open>No pass changes the function's signature, so callers stay well typed too.\<close>

lemma fold_inst_pfn: "fold_inst i (p, st, ch) = Some (i', p', st', ch') \<Longrightarrow> pfn p' = pfn p"
  by (auto simp: fold_inst_def bind_eq_Some_conv split: option.splits)

lemma fold_insts_pfn: "fold_insts is (p, st, ch) = Some (is', p', st', ch') \<Longrightarrow> pfn p' = pfn p"
  by (induction "is" arbitrary: p st ch is') (auto simp: bind_eq_Some_conv dest: fold_inst_pfn)

lemma fold_blocks_pfn: "fold_blocks bs (p, st, ch) = Some (bs', p', st', ch') \<Longrightarrow> pfn p' = pfn p"
  by (induction bs arbitrary: p st ch bs') (auto simp: bind_eq_Some_conv dest: fold_insts_pfn)

lemma apply_remap_sig: "apply_remap p = Some q \<Longrightarrow> fsignature (pfn q) = fsignature (pfn p)"
  by (auto simp: apply_remap_def map_insts_def split: if_splits)

lemma fold_and_simplify_sig:
  "fold_and_simplify p st = Some (q, st', c) \<Longrightarrow> fsignature (pfn q) = fsignature (pfn p)"
  by (auto simp: fold_and_simplify_def Let_def bind_eq_Some_conv rescan_consts_def
      dest!: fold_blocks_pfn apply_remap_sig split: if_splits)

lemma erase_sig: "fsignature (fold (erase_arg k) cs (erase_param b k fn)) = fsignature fn"
  by (subst fold_keeps [of fsignature]) (simp_all add: erase_arg_def erase_param_def Let_def)

lemma fold_params_sig:
  "fold_params b preds used k rest (p, st, ch) = Some (p', st', ch') \<Longrightarrow>
     fsignature (pfn p') = fsignature (pfn p)"
  by (induction rest arbitrary: p st ch k) (auto simp: bind_eq_Some_conv Let_def erase_sig split: if_splits)

lemma fold_params_blocks_sig:
  "fold_params_blocks preds used bs (p, st, ch) = Some (p', st', ch') \<Longrightarrow>
     fsignature (pfn p') = fsignature (pfn p)"
  by (induction bs arbitrary: p st ch) (auto simp: bind_eq_Some_conv dest: fold_params_sig split: if_splits)

lemma fold_trivial_params_sig:
  "fold_trivial_params p st = Some (q, st', c) \<Longrightarrow> fsignature (pfn q) = fsignature (pfn p)"
  by (auto simp: fold_trivial_params_def bind_eq_Some_conv dest!: fold_params_blocks_sig apply_remap_sig
      split: if_splits)

lemma rounds_sig: "rounds n p st = Some (q, st') \<Longrightarrow> fsignature (pfn q) = fsignature (pfn p)"
proof (induction n arbitrary: p st)
  case (Suc n)
  then show ?case
    by (auto simp: bind_eq_Some_conv remove_dead_def drop_insts_def Let_def
        dest!: fold_and_simplify_sig fold_trivial_params_sig split: if_splits)
qed simp

lemma peephole_function_sig:
  "peephole_function pb fn st = Some (fn', st') \<Longrightarrow> fsignature fn' = fsignature fn"
  by (auto simp: peephole_function_def reindex_def bind_eq_Some_conv dest: rounds_sig split: if_splits)

lemma peephole_functions_rel:
  "peephole_functions pb fs st = Some (fs', st') \<Longrightarrow>
     list_all2 (\<lambda>f f'. \<exists>s s'. peephole_function pb f s = Some (f', s')) fs fs'"
  by (induction fs arbitrary: st fs') (auto simp: bind_eq_Some_conv)

lemma peephole_module_wf:
  assumes "peephole m = Some (m', st)" and "module_wf m" and "\<forall>fn \<in> set (funcs m). ssa_typed fn"
  shows "module_wf m'"
proof -
  from assms(1) obtain fs where m': "m' = m\<lparr>funcs := fs\<rparr>" and
    r: "list_all2 (\<lambda>f f'. \<exists>s s'. peephole_function (pointer_bits m) f s = Some (f', s')) (funcs m) fs"
    by (auto simp: peephole_def bind_eq_Some_conv dest: peephole_functions_rel)
  have "map fsignature fs = map fsignature (funcs m)"
    using r by (induction rule: list_all2_induct) (auto dest: peephole_function_sig)
  then have inst: "inst_wf m fn sg i \<Longrightarrow> inst_wf m' fn sg i" for fn sg i
    using inst_wf_module [of m fn sg i m'] by (simp add: m')
  have "function_wf m' fn'" if fn': "fn' \<in> set fs" for fn'
  proof -
    obtain fn s s' where "fn \<in> set (funcs m)" "peephole_function (pointer_bits m) fn s = Some (fn', s')"
      using list_all2_right [OF r fn'] by blast
    then have "function_wf m fn'"
      using assms(2,3) by (auto simp: module_wf_def intro: peephole_function_ok)
    then show ?thesis
      using inst by (auto simp: function_wf_def block_wf_def m')
  qed
  then show ?thesis
    by (simp add: module_wf_def m')
qed

subsection \<open>The chains of the parameter pass end\<close>

lemma param_scan_total:
  assumes "remap_total (remap p)"
  shows "\<exists>t u. param_scan p k param cs u0 = Some (t, u)"
proof (induction cs arbitrary: u0)
  case (Cons c cs)
  obtain a where "resolve (remap p) (term_args (pfn p) c ! k) = Some a"
    using assms by (auto simp: remap_total_def)
  then show ?case
    using Cons.IH by (cases "length (term_args (pfn p) c) \<le> k") auto
qed auto

lemma fold_params_total:
  assumes "remap_total (remap p)"
  shows "\<exists>q st' ch'. fold_params b preds used k rest (p, st, ch) = Some (q, st', ch') \<and> remap_total (remap q)"
  using assms
proof (induction rest arbitrary: p st ch k)
  case (Cons param rest)
  obtain t u where scan: "param_scan p k param preds NO_VALUE = Some (t, u)"
    using param_scan_total [OF Cons.prems] by blast
  show ?case
  proof (cases "\<not> t \<or> (u = NO_VALUE \<and> \<not> param \<notin> set used)")
    case True
    then show ?thesis
      using Cons.IH [OF Cons.prems] scan by simp
  next
    case False
    let ?q = "p\<lparr>remap := (if param \<notin> set used then remap p else (param, u) # remap p),
      pfn := fold (erase_arg k) preds (erase_param b k (pfn p))\<rparr>"
    have "u = NO_VALUE \<or> u \<noteq> param \<and> map_of (remap p) u = None"
      using scan False param_scan_unique [of p k param preds NO_VALUE u "\<lambda>_. True"] by simp
    then have "remap_total (remap ?q)"
      using False Cons.prems remap_total_Cons [of "remap p" u param] by (cases "param \<in> set used") simp_all
    from Cons.IH [OF this] obtain q st' ch' where
      "fold_params b preds used k rest (?q, st\<lparr>params_removed := params_removed st + 1\<rparr>, True) = Some (q, st', ch')"
      "remap_total (remap q)" by blast
    moreover have "fold_params b preds used k (param # rest) (p, st, ch) =
        fold_params b preds used k rest (?q, st\<lparr>params_removed := params_removed st + 1\<rparr>, True)"
      using scan False by (auto simp: Let_def)
    ultimately show ?thesis by metis
  qed
qed simp

lemma fold_params_blocks_total:
  assumes "remap_total (remap p)"
  shows "\<exists>q st' ch'. fold_params_blocks preds used bs (p, st, ch) = Some (q, st', ch') \<and> remap_total (remap q)"
  using assms
proof (induction bs arbitrary: p st ch)
  case (Cons b bs)
  show ?case
  proof (cases "params (blocks (pfn p) ! b) = [] \<or> preds b = []")
    case False
    obtain q st1 ch1 where "fold_params b (preds b) used 0 (params (blocks (pfn p) ! b)) (p, st, ch) = Some (q, st1, ch1)"
      "remap_total (remap q)"
      using fold_params_total [OF Cons.prems] by blast
    then show ?thesis
      using False Cons.IH [of q st1 ch1] by auto
  qed (use Cons in auto)
qed simp

lemma apply_remap_total:
  assumes "remap_total (remap p)"
  shows "\<exists>q. apply_remap p = Some q \<and> remap q = []"
proof -
  have "resolvable (remap p) i" for i
    using assms by (force simp: resolvable_def remap_total_def)
  then show ?thesis
    by (simp add: apply_remap_def)
qed

text \<open>A parameter pass that changed nothing has recorded no link either.\<close>

lemma fold_params_unchanged:
  "fold_params b preds used k rest (p, st, ch) = Some (q, st', False) \<Longrightarrow> \<not> ch \<and> remap q = remap p"
  by (induction rest arbitrary: p st ch k) (auto simp: bind_eq_Some_conv Let_def split: if_splits)

lemma fold_params_blocks_unchanged:
  "fold_params_blocks preds used bs (p, st, ch) = Some (q, st', False) \<Longrightarrow> \<not> ch \<and> remap q = remap p"
proof (induction bs arbitrary: p st ch)
  case (Cons b bs)
  then show ?case
    by (fastforce simp: bind_eq_Some_conv dest: fold_params_unchanged split: if_splits)
qed simp

lemma fold_trivial_params_total:
  assumes "remap p = []"
  shows "\<exists>q st' c. fold_trivial_params p st = Some (q, st', c) \<and> remap q = []"
proof -
  obtain p' st' c where s: "fold_params_blocks (jump_preds (pfn p)) (used_values (pfn p))
      [1..<length (blocks (pfn p))] (p, st, False) = Some (p', st', c)" "remap_total (remap p')"
    using fold_params_blocks_total [of p] assms remap_total_Nil by metis
  show ?thesis
  proof (cases c)
    case True
    then show ?thesis
      using s apply_remap_total [OF s(2)] by (auto simp: fold_trivial_params_def)
  next
    case False
    then show ?thesis
      using s fold_params_blocks_unchanged [of _ _ _ p st False p' st'] assms
      by (auto simp: fold_trivial_params_def)
  qed
qed

subsection \<open>The chains of the folding pass end without cyclic definitions\<close>

text \<open>
  The identities link an instruction to one of its operands. When the values can be ranked so that
  every such operand ranks below the result, no chain is cyclic and the folding pass returns.
\<close>

definition ranked :: "(value_id \<Rightarrow> nat) \<Rightarrow> inst \<Rightarrow> bool" where
  "ranked rk i \<longleftrightarrow>
     (Op_Add \<le> oper i \<and> oper i \<le> Op_AShr \<longrightarrow> rk (opa i) < rk (result i) \<and> rk (opb i) < rk (result i)) \<and>
     (oper i = Op_PtrAdd \<or> oper i = Op_PtrAddConst \<longrightarrow> rk (opa i) < rk (result i))"

definition descends :: "(value_id \<Rightarrow> nat) \<Rightarrow> (value_id \<times> value_id) list \<Rightarrow> bool" where
  "descends rk r \<longleftrightarrow> (\<forall>k w. map_of r k = Some w \<longrightarrow> rk w < rk k)"

lemma descends_resolve:
  assumes "descends rk r"
  shows "\<exists>w. resolve r v = Some w \<and> rk w \<le> rk v"
proof (induction "rk v" arbitrary: v rule: less_induct)
  case less
  show ?case
  proof (cases "map_of r v")
    case (Some u)
    then have "rk u < rk v" using assms by (simp add: descends_def)
    then show ?thesis
      using less Some by (metis order.trans less_imp_le resolve_link)
  qed (simp add: resolve_stop)
qed

lemma descends_total: "descends rk r \<Longrightarrow> remap_total r"
  using descends_resolve by (metis remap_total_def)

lemma int_of_total: "descends rk (remap p) \<Longrightarrow> \<exists>c. int_of p v = Some c"
  using descends_resolve [of rk "remap p" v] by (auto simp: int_of_def)

lemma try_fold_total:
  assumes "descends rk (remap p)"
  shows "\<exists>c. try_fold p i = Some c"
proof -
  obtain a b w where "int_of p (opa i) = Some a" "int_of p (opb i) = Some b" "resolve (remap p) (opa i) = Some w"
    using int_of_total [OF assms] descends_resolve [OF assms] by metis
  then have "\<exists>c. fold_binary_inst p i = Some c" "\<exists>c. fold_compare_inst p i = Some c"
    "\<exists>c. fold_convert_inst p i = Some c"
    by (simp_all add: fold_binary_inst_def fold_compare_inst_def fold_convert_inst_def Let_def split: option.split)
  then show ?thesis
    by (auto simp: try_fold_def split: option.split)
qed

lemma identity_of_total:
  assumes "descends rk (remap p)"
  shows "\<exists>c. identity_of p i = Some c"
proof -
  obtain a b where "int_of p (opa i) = Some a" "int_of p (opb i) = Some b"
    using int_of_total [OF assms] by metis
  then show ?thesis
    by (auto simp: identity_of_def)
qed

lemma identity_ranked:
  assumes "identity_of p i = Some (Some v)" and "ranked rk i"
  shows "rk v < rk (result i)"
  using assms by (auto simp: identity_of_def ranked_def op_order bind_eq_Some_conv split: if_splits)

lemma fold_inst_total:
  assumes d: "descends rk (remap p)" and "ranked rk i"
  shows "\<exists>i' q st' ch'. fold_inst i (p, st, ch) = Some (i', q, st', ch') \<and> descends rk (remap q)"
proof -
  obtain c s where c: "try_fold p i = Some c" and s: "identity_of p i = Some s"
    using try_fold_total [OF d] identity_of_total [OF d] by metis
  show ?thesis
  proof (cases "c = None \<and> s \<noteq> None")
    case True
    then obtain v where v: "s = Some v" by auto
    obtain w where w: "resolve (remap p) v = Some w" "rk w \<le> rk v"
      using descends_resolve [OF d] by blast
    then have "descends rk ((result i, w) # remap p)"
      using d identity_ranked [OF s [unfolded v] assms(2)] by (auto simp: descends_def)
    then show ?thesis
      using True c s v w by (auto simp: fold_inst_def)
  next
    case False
    then show ?thesis
      using c s d by (cases c; cases s) (auto simp: fold_inst_def)
  qed
qed

lemma fold_insts_total:
  assumes "descends rk (remap p)" and "\<forall>i \<in> set is. ranked rk i"
  shows "\<exists>is' q st' ch'. fold_insts is (p, st, ch) = Some (is', q, st', ch') \<and> descends rk (remap q)"
  using assms
proof (induction "is" arbitrary: p st ch)
  case (Cons i "is")
  obtain i' q st1 ch1 where "fold_inst i (p, st, ch) = Some (i', q, st1, ch1)" "descends rk (remap q)"
    using fold_inst_total [OF Cons.prems(1)] Cons.prems(2) by (metis list.set_intros(1))
  then show ?case
    using Cons.IH [of q st1 ch1] Cons.prems(2) by auto
qed simp

lemma fold_blocks_total:
  assumes "descends rk (remap p)" and "\<forall>b \<in> set bs. \<forall>i \<in> set (insts b). ranked rk i"
  shows "\<exists>bs' q st' ch'. fold_blocks bs (p, st, ch) = Some (bs', q, st', ch') \<and> descends rk (remap q)"
  using assms
proof (induction bs arbitrary: p st ch)
  case (Cons b bs)
  obtain is' q st1 ch1 where "fold_insts (insts b) (p, st, ch) = Some (is', q, st1, ch1)" "descends rk (remap q)"
    using fold_insts_total [OF Cons.prems(1)] Cons.prems(2) by (metis list.set_intros(1))
  then show ?case
    using Cons.IH [of q st1 ch1] Cons.prems(2) by auto
qed simp

lemma fold_and_simplify_total:
  assumes "remap p = []" and "\<forall>i \<in> set (all_insts (pfn p)). ranked rk i"
  shows "\<exists>q st' c. fold_and_simplify p st = Some (q, st', c)"
proof -
  have "descends rk (remap (rescan_consts p))"
    using assms(1) by (simp add: descends_def rescan_consts_def)
  moreover have "\<forall>b \<in> set (blocks (pfn p)). \<forall>i \<in> set (insts b). ranked rk i"
    using assms(2) by (auto simp: in_all_insts)
  ultimately obtain bs q st' c where
    "fold_blocks (blocks (pfn p)) (rescan_consts p, st, False) = Some (bs, q, st', c)" "descends rk (remap q)"
    using fold_blocks_total by blast
  then show ?thesis
    using apply_remap_total [of "q\<lparr>pfn := (pfn q)\<lparr>blocks := bs\<rparr>\<rparr>"] descends_total
    by (auto simp: fold_and_simplify_def Let_def)
qed

end
