(* ===== verification/Mir_Peephole_Example.thy ===== *)
theory Mir_Peephole_Example
  imports Mir_Peephole_Params Mir_Builder Mir_Example
begin

text \<open>
  The peephole pass evaluated on the small module: the addition folds to a constant, the two
  operands become dead and are removed, and a second round finds nothing to do.
\<close>

definition demo_peep :: peep where
  "demo_peep = \<lparr>pfn = demo_function, ppointer_bits = 64, pconsts = Map.empty, remap = []\<rparr>"

definition demo_consts :: "value_id \<Rightarrow> const_val option" where
  "demo_consts = [0 \<mapsto> const_int_val 0 Ty_I64, 1 \<mapsto> const_int_val 0 Ty_I64]"

definition demo_sum :: inst where
  "demo_sum = make_const_int (demo_inst Op_Add Ty_I64 2 0 1 []) Ty_I64 0"

definition demo_folded :: func where
  "demo_folded = demo_function\<lparr>blocks := [\<lparr>label = ''entry'', params = [], insts =
     [demo_inst Op_ConstInt Ty_I64 0 NO_VALUE NO_VALUE [], demo_inst Op_ConstInt Ty_I64 1 NO_VALUE NO_VALUE [],
      demo_sum, demo_inst Op_Return Ty_Void NO_VALUE NO_VALUE NO_VALUE [2]]\<rparr>]\<rparr>"

definition demo_reduced :: func where
  "demo_reduced = demo_function\<lparr>blocks := [\<lparr>label = ''entry'', params = [], insts =
     [demo_sum, demo_inst Op_Return Ty_Void NO_VALUE NO_VALUE NO_VALUE [2]]\<rparr>]\<rparr>"

text \<open>A function with no blocks yet, one with a self-referential unreachable block, one with an assembly block.\<close>

definition empty_function :: func where
  "empty_function = demo_function\<lparr>blocks := [], vals := []\<rparr>"

definition spin_function :: func where
  "spin_function = demo_function\<lparr>
     blocks := [\<lparr>label = ''entry'', params = [], insts = [demo_inst Op_Return Ty_Void NO_VALUE NO_VALUE NO_VALUE []]\<rparr>,
       \<lparr>label = ''spin'', params = [], insts =
         [demo_inst Op_ConstInt Ty_I64 0 NO_VALUE NO_VALUE [], demo_inst Op_Add Ty_I64 1 1 0 [],
          demo_inst Op_Jump Ty_Void NO_VALUE 1 NO_VALUE []]\<rparr>],
     vals := [(demo_val 0)\<lparr>vd_block := 1\<rparr>, (demo_val 1)\<lparr>vd_block := 1\<rparr>]\<rparr>"

definition spin_module :: mir_module where
  "spin_module = demo_module\<lparr>funcs := [spin_function], signatures := [default_signature]\<rparr>"

definition asm_function :: func where
  "asm_function = demo_function\<lparr>
     blocks := [\<lparr>label = ''entry'', params = [], insts =
       [demo_inst Op_Asm Ty_I64 0 0 NO_VALUE [], demo_inst Op_Return Ty_Void NO_VALUE NO_VALUE NO_VALUE []]\<rparr>],
     vals := [demo_val 0]\<rparr>"

definition asm_module :: mir_module where
  "asm_module = demo_module\<lparr>funcs := [asm_function], signatures := [default_signature],
     asm_blocks := [\<lparr>instructions = [\<lparr>mnemonic = ''syscall'', operands = [], aline = 1, acolumn = 1\<rparr>],
       clobbered_families = [''rcx'', ''r11''], clobbers_memory = True, result_register = ''rax''\<rparr>]\<rparr>"

lemmas fold_attempts = fold_inst_def try_fold_def fold_binary_inst_def fold_compare_inst_def
  fold_convert_inst_def identity_of_def

lemma demo_rescan: "rescan_consts demo_peep = demo_peep\<lparr>pconsts := demo_consts\<rparr>"
  by (simp add: rescan_consts_def demo_peep_def demo_consts_def all_insts_def scan_const_def demo_defs)

lemma fold_inert:
  assumes "oper i \<in> {Op_ConstInt, Op_Return}"
  shows "fold_inst i (p, st, c) = Some (i, p, st, c)"
  using assms by (auto simp: fold_attempts op_order)

lemma demo_fold_add:
  "fold_inst (demo_inst Op_Add Ty_I64 2 0 1 []) (demo_peep\<lparr>pconsts := demo_consts\<rparr>, st, c) =
     Some (demo_sum, demo_peep\<lparr>pconsts := demo_consts(2 \<mapsto> const_int_val 0 Ty_I64)\<rparr>,
       st\<lparr>folded := folded st + 1\<rparr>, True)"
  by (simp add: fold_attempts demo_consts_def int_of_def resolve_stop demo_peep_def demo_sum_def
      const_int_val_def demo_inst_def op_order is_integer_def fold_binary_def normalize_def)

lemma demo_round_fold:
  "fold_and_simplify demo_peep st =
     Some (demo_peep\<lparr>pconsts := demo_consts(2 \<mapsto> const_int_val 0 Ty_I64), pfn := demo_folded\<rparr>,
       st\<lparr>folded := folded st + 1\<rparr>, True)"
proof -
  have b: "blocks (pfn demo_peep) = [\<lparr>label = ''entry'', params = [], insts = demo_insts\<rparr>]"
    by (simp add: demo_peep_def demo_function_def)
  have i: "oper (demo_inst x t r a b as) = x" for x t r a b as
    by (simp add: demo_inst_def)
  show ?thesis
    unfolding fold_and_simplify_def demo_rescan b fold_blocks.simps
    by (simp add: demo_insts_def fold_inert i demo_fold_add [unfolded One_nat_def] apply_remap_def Let_def)
       (simp add: demo_peep_def demo_folded_def)
qed

lemma no_params:
  assumes "length (blocks (pfn p)) = 1"
  shows "fold_trivial_params p st = Some (p, st, False)"
  using assms by (simp add: fold_trivial_params_def)

lemmas dead_defs = remove_dead_def used_values_def drop_insts_def removable_def all_insts_def
  value_operands_def operand_shape_def defines_value_def is_terminator_def Let_def demo_inst_def
  default_inst_def demo_sum_def make_const_int_def UINT32_MAX_def

lemma demo_round_dead:
  "pfn p = demo_folded \<Longrightarrow>
     remove_dead p st = (p\<lparr>pfn := demo_reduced\<rparr>, st\<lparr>dead_removed := dead_removed st + 2\<rparr>, True)"
  by (simp add: dead_defs demo_folded_def demo_reduced_def)

lemma demo_round_idle:
  assumes "pfn p = demo_reduced"
  shows "fold_and_simplify p st = Some (rescan_consts p, st, False)"
    and "remove_dead p st = (p, st, False)"
proof -
  have b: "blocks (pfn p) = [\<lparr>label = ''entry'', params = [], insts =
     [demo_sum, demo_inst Op_Return Ty_Void NO_VALUE NO_VALUE NO_VALUE [2]]\<rparr>]"
    by (simp add: assms demo_reduced_def)
  have i: "oper demo_sum = Op_ConstInt" "oper (demo_inst x t r a b as) = x" for x t r a b as
    by (simp_all add: demo_inst_def demo_sum_def make_const_int_def)
  show "fold_and_simplify p st = Some (rescan_consts p, st, False)"
    unfolding fold_and_simplify_def b fold_blocks.simps
    by (simp add: fold_inert i Let_def) (simp add: rescan_consts_def assms demo_reduced_def)
  show "remove_dead p st = (p, st, False)"
    using assms by (cases p) (simp add: dead_defs demo_reduced_def)
qed

lemma demo_rounds: "\<exists>q st'. rounds 16 demo_peep st = Some (q, st') \<and> pfn q = demo_reduced"
proof -
  have n: "rounds 16 = rounds (Suc (Suc 14))" by (simp add: numeral_eq_Suc)
  define p1 where "p1 = demo_peep\<lparr>pconsts := demo_consts(2 \<mapsto> const_int_val 0 Ty_I64), pfn := demo_folded\<rparr>"
  define p2 where "p2 = p1\<lparr>pfn := demo_reduced\<rparr>"
  have l: "length (blocks (pfn p1)) = 1" "pfn p1 = demo_folded" "pfn p2 = demo_reduced"
    "length (blocks (pfn (rescan_consts p2))) = 1" "pfn (rescan_consts p2) = demo_reduced"
    by (simp_all add: p1_def p2_def demo_folded_def demo_reduced_def rescan_consts_def)
  show ?thesis
    unfolding n rounds.simps
    by (simp add: demo_round_fold [folded p1_def] no_params [OF l(1)] demo_round_dead [OF l(2), folded p2_def]
        demo_round_idle(1) [OF l(3)] no_params [OF l(4)] demo_round_idle(2) [OF l(5)] l(5))
qed

lemma demo_peephole: "\<exists>m' st. peephole demo_module = Some (m', st) \<and> funcs m' = [reindex demo_reduced]"
proof -
  obtain q st where q: "rounds 16 demo_peep zero_stats = Some (q, st)" "pfn q = demo_reduced"
    using demo_rounds by blast
  then have "peephole_function 64 demo_function zero_stats = Some (reindex demo_reduced, st)"
    by (simp add: peephole_function_def demo_peep_def) (simp add: demo_function_def)
  then show ?thesis
    by (simp add: peephole_def demo_module_def)
qed

lemma demo_steps:
  "builder_step\<^sup>*\<^sup>* (Builder (demo_module\<lparr>funcs := [empty_function]\<rparr>) 0)
     (fst (const_int Ty_I64 7 (set_insert_point 0
       (fst (create_block ''entry'' (Builder (demo_module\<lparr>funcs := [empty_function]\<rparr>) 0))))))"
proof -
  let ?b = "Builder (demo_module\<lparr>funcs := [empty_function]\<rparr>) 0"
  let ?c = "fst (create_block ''entry'' ?b)"
  let ?d = "set_insert_point 0 ?c"
  have "builder_step ?b ?c" "builder_step ?c ?d"
    by (rule step_create_block, rule step_set_insert_point)
  moreover have "builder_step ?d (fst (const_int Ty_I64 7 ?d))"
    unfolding const_int_def
    by (rule step_emit)
       (simp_all add: Builder_def set_insert_point_def create_block_def Let_def the_function_def
         set_function_def empty_function_def default_inst_def UINT32_MAX_def)
  ultimately show ?thesis
    by (meson converse_rtranclp_into_rtranclp rtranclp.rtrancl_refl)
qed

lemma demo_verified: "verify demo_module = []"
  by (simp add: verify_def check_function_def check_block_def check_inst_def check_arith_def check_return_def
      demo_module_def demo_function_def demo_insts_def demo_inst_def demo_val_def default_inst_def
      is_terminator_def is_comparison_def is_int_binary_def is_integer_def check_operand_type_def value_ok_def
      UINT32_MAX_def op_order Let_def)

lemma demo_coherent: "coherent demo_function"
  by (simp add: coherent_def coherence demo_defs UINT32_MAX_def All_less_Suc2)

lemma spin_fold_add:
  "fold_inst (demo_inst Op_Add Ty_I64 (Suc 0) (Suc 0) 0 [])
     (demo_peep\<lparr>pfn := fn, pconsts := [0 \<mapsto> const_int_val 0 Ty_I64]\<rparr>, st, c) =
   Some (demo_inst Op_Add Ty_I64 (Suc 0) (Suc 0) 0 [],
     demo_peep\<lparr>pfn := fn, pconsts := [0 \<mapsto> const_int_val 0 Ty_I64], remap := [(Suc 0, Suc 0)]\<rparr>,
     st\<lparr>simplified := simplified st + 1\<rparr>, True)"
  by (simp add: fold_attempts int_of_def resolve_stop demo_peep_def const_int_val_def demo_inst_def op_order is_integer_def)

lemma spin_folds: "fold_and_simplify (demo_peep\<lparr>pfn := spin_function\<rparr>) st = None"
proof -
  have "\<not> resolvable [(Suc 0, Suc 0)] (demo_inst Op_Add Ty_I64 (Suc 0) (Suc 0) 0 [])"
    by (simp add: resolvable_def value_operands_def operand_shape_def demo_inst_def resolve_self UINT32_MAX_def)
  moreover have "rescan_consts (demo_peep\<lparr>pfn := spin_function\<rparr>) =
      demo_peep\<lparr>pfn := spin_function, pconsts := [0 \<mapsto> const_int_val 0 Ty_I64]\<rparr>"
    by (simp add: rescan_consts_def demo_peep_def all_insts_def scan_const_def spin_function_def demo_inst_def
        default_inst_def)
  moreover have "fold_inst (demo_inst Op_Jump t r a b as) (p, s, c) = Some (demo_inst Op_Jump t r a b as, p, s, c)"
    for t r a b as p s c
    by (simp add: fold_attempts demo_inst_def op_order)
  moreover have "oper (demo_inst x t r a b as) = x" for x t r a b as
    by (simp add: demo_inst_def)
  ultimately show ?thesis
    by (simp add: fold_and_simplify_def spin_function_def fold_inert spin_fold_add Let_def apply_remap_def
        all_insts_def)
qed

text \<open>
  A truncation to a float type, which the verifier accepts: the pass folds it to an integer constant of that type, the
  operand dies, and the second round finds nothing to do.
\<close>

definition trunc_inst :: inst where
  "trunc_inst = demo_inst Op_Trunc Ty_F32 1 0 NO_VALUE []"

definition trunc_function :: func where
  "trunc_function = demo_function\<lparr>
     blocks := [\<lparr>label = ''entry'', params = [], insts =
       [demo_inst Op_ConstInt Ty_I64 0 NO_VALUE NO_VALUE [], trunc_inst, demo_inst Op_Return Ty_Void NO_VALUE NO_VALUE NO_VALUE [1]]\<rparr>],
     vals := [demo_val 0, (demo_val 1)\<lparr>vd_type := Ty_F32\<rparr>]\<rparr>"

definition trunc_module :: mir_module where
  "trunc_module = demo_module\<lparr>funcs := [trunc_function], signatures := [default_signature\<lparr>sig_result := Ty_F32\<rparr>]\<rparr>"

definition trunc_const :: inst where
  "trunc_const = make_const_int trunc_inst Ty_F32 0"

definition trunc_reduced :: func where
  "trunc_reduced = trunc_function\<lparr>
     blocks := [\<lparr>label = ''entry'', params = [], insts = [trunc_const, demo_inst Op_Return Ty_Void NO_VALUE NO_VALUE NO_VALUE [1]]\<rparr>]\<rparr>"

lemma trunc_opers: "oper trunc_inst = Op_Trunc" "oper trunc_const = Op_ConstInt" "oper (demo_inst x t r a b as) = x"
  by (simp_all add: trunc_inst_def trunc_const_def demo_inst_def make_const_int_def)

lemma trunc_fold:
  "fold_inst trunc_inst (demo_peep\<lparr>pfn := trunc_function, pconsts := [0 \<mapsto> const_int_val 0 Ty_I64]\<rparr>, st, c) =
   Some (trunc_const, demo_peep\<lparr>pfn := trunc_function, pconsts := [0 \<mapsto> const_int_val 0 Ty_I64, 1 \<mapsto> const_int_val 0 Ty_F32]\<rparr>,
     st\<lparr>folded := folded st + 1\<rparr>, True)"
  by (simp add: fold_attempts int_of_def resolve_stop demo_peep_def const_int_val_def trunc_inst_def trunc_const_def demo_inst_def
      op_order is_integer_def normalize_def trunc_function_def demo_val_def)

definition trunc_folded :: func where
  "trunc_folded = trunc_function\<lparr>
     blocks := [\<lparr>label = ''entry'', params = [], insts =
       [demo_inst Op_ConstInt Ty_I64 0 NO_VALUE NO_VALUE [], trunc_const, demo_inst Op_Return Ty_Void NO_VALUE NO_VALUE NO_VALUE [1]]\<rparr>]\<rparr>"

lemma trunc_round_fold:
  "\<exists>q st'. fold_and_simplify (demo_peep\<lparr>pfn := trunc_function\<rparr>) st = Some (q, st', True) \<and> pfn q = trunc_folded"
proof -
  have c: "rescan_consts (demo_peep\<lparr>pfn := trunc_function\<rparr>) =
      demo_peep\<lparr>pfn := trunc_function, pconsts := [0 \<mapsto> const_int_val 0 Ty_I64]\<rparr>"
    by (simp add: rescan_consts_def demo_peep_def all_insts_def scan_const_def trunc_function_def trunc_inst_def demo_inst_def default_inst_def)
  have b: "blocks (pfn (demo_peep\<lparr>pfn := trunc_function\<rparr>)) = [\<lparr>label = ''entry'', params = [], insts =
       [demo_inst Op_ConstInt Ty_I64 0 NO_VALUE NO_VALUE [], trunc_inst, demo_inst Op_Return Ty_Void NO_VALUE NO_VALUE NO_VALUE [1]]\<rparr>]"
    by (simp add: trunc_function_def)
  show ?thesis
    unfolding fold_and_simplify_def c b fold_blocks.simps
    by (simp add: fold_inert trunc_opers trunc_fold [unfolded One_nat_def] apply_remap_def Let_def)
       (simp add: demo_peep_def trunc_folded_def)
qed

lemma trunc_round_dead:
  "pfn p = trunc_folded \<Longrightarrow> remove_dead p st = (p\<lparr>pfn := trunc_reduced\<rparr>, st\<lparr>dead_removed := dead_removed st + 1\<rparr>, True)"
  by (simp add: dead_defs trunc_folded_def trunc_reduced_def trunc_const_def trunc_inst_def)

lemma trunc_idle:
  assumes "pfn p = trunc_reduced"
  shows "fold_and_simplify p st = Some (rescan_consts p, st, False)"
    and "remove_dead p st = (p, st, False)"
proof -
  have b: "blocks (pfn p) = [\<lparr>label = ''entry'', params = [], insts = [trunc_const, demo_inst Op_Return Ty_Void NO_VALUE NO_VALUE NO_VALUE [1]]\<rparr>]"
    by (simp add: assms trunc_reduced_def)
  show "fold_and_simplify p st = Some (rescan_consts p, st, False)"
    unfolding fold_and_simplify_def b fold_blocks.simps
    by (simp add: fold_inert trunc_opers Let_def) (simp add: rescan_consts_def assms trunc_reduced_def)
  show "remove_dead p st = (p, st, False)"
    using assms by (cases p) (simp add: dead_defs trunc_reduced_def trunc_function_def trunc_const_def trunc_inst_def)
qed

lemma trunc_rounds: "\<exists>q st'. rounds 16 (demo_peep\<lparr>pfn := trunc_function\<rparr>) st = Some (q, st') \<and> pfn q = trunc_reduced"
proof -
  have n: "rounds 16 = rounds (Suc (Suc 14))" by (simp add: numeral_eq_Suc)
  obtain q st1 where f: "fold_and_simplify (demo_peep\<lparr>pfn := trunc_function\<rparr>) st = Some (q, st1, True)" "pfn q = trunc_folded"
    using trunc_round_fold by blast
  define p where "p = q\<lparr>pfn := trunc_reduced\<rparr>"
  have r: "pfn p = trunc_reduced" "length (blocks (pfn q)) = 1" using f(2) by (simp_all add: p_def trunc_folded_def)
  have l: "length (blocks (pfn (rescan_consts p))) = 1" "pfn (rescan_consts p) = trunc_reduced"
    using r(1) by (simp_all add: trunc_reduced_def rescan_consts_def)
  show ?thesis
    unfolding n rounds.simps
    by (simp add: f(1) no_params [OF r(2)] trunc_round_dead [OF f(2), folded p_def] trunc_idle(1) [OF r(1)] no_params [OF l(1)]
        trunc_idle(2) [OF l(2)] l(2))
qed

theorem peephole_breaks_float_conversion:
  "verify trunc_module = [] \<and> (\<exists>m' st. peephole trunc_module = Some (m', st) \<and> verify m' \<noteq> [])"
proof
  show "verify trunc_module = []"
    by (simp add: verify_def check_function_def check_block_def check_inst_def check_arith_def check_return_def
        trunc_module_def trunc_function_def trunc_inst_def demo_module_def demo_function_def demo_inst_def demo_val_def default_inst_def
        is_terminator_def is_comparison_def is_int_binary_def is_integer_def check_operand_type_def value_ok_def
        UINT32_MAX_def op_order Let_def)
  obtain q st where q: "rounds 16 (demo_peep\<lparr>pfn := trunc_function\<rparr>) zero_stats = Some (q, st)" "pfn q = trunc_reduced"
    using trunc_rounds by blast
  then have "peephole_function 64 trunc_function zero_stats = Some (reindex trunc_reduced, st)"
    by (simp add: peephole_function_def demo_peep_def) (simp add: trunc_function_def demo_function_def)
  then have p: "peephole trunc_module = Some (trunc_module\<lparr>funcs := [reindex trunc_reduced]\<rparr>, st)"
    by (simp add: peephole_def trunc_module_def demo_module_def)
  have "verify (trunc_module\<lparr>funcs := [reindex trunc_reduced]\<rparr>) \<noteq> []"
    by (simp add: verify_def check_function_def check_block_def check_inst_def trunc_module_def trunc_reduced_def trunc_function_def
        trunc_const_def trunc_inst_def make_const_int_def demo_module_def demo_function_def demo_inst_def default_inst_def
        is_terminator_def is_integer_def reindex_def Let_def)
  then show "\<exists>m' st. peephole trunc_module = Some (m', st) \<and> verify m' \<noteq> []" using p by blast
qed

end
