(* ===== verification/Mir_Pipeline.thy ===== *)
theory Mir_Pipeline
  imports Mir_Promote_Module Mir_Peephole_Example
begin

text \<open>
  The optimising passes as the driver runs them (\<^verbatim>\<open>main.cpp\<close>): promotion, then the peephole pass, then the verifier,
  whose first complaint ends the compilation with an internal error.
\<close>

definition run_passes :: "mir_module \<Rightarrow> (string + mir_module) option" where
  "run_passes m =
     do { (m1, _) \<leftarrow> promote_slots m;
          (m2, _) \<leftarrow> peephole m1;
          Some (case verify m2 of
                  [] \<Rightarrow> Inr m2
                | e # _ \<Rightarrow> Inl (''error: internal error: MIR passes produced malformed MIR: '' @ ve_message e)) }"

lemma promote_module_ssa:
  assumes p: "promote_slots m = Some (m', st)" and wf: "module_wf m" and fn: "\<forall>fn \<in> set (funcs m). promotable fn \<and> ssa_typed fn"
    and room: "\<forall>fn \<in> set (funcs m'). length (vals fn) \<le> NO_VALUE"
  shows "\<forall>fn \<in> set (funcs m'). ssa_typed fn"
proof
  fix fn'
  assume fn': "fn' \<in> set (funcs m')"
  from p obtain fs where m': "m' = m\<lparr>funcs := fs\<rparr>" and
    r: "list_all2 (\<lambda>f f'. \<exists>s s'. promote_function (pointer_bits m) f s = Some (f', s')) (funcs m) fs"
    by (auto simp: promote_slots_def bind_eq_Some_conv dest: promote_functions_rel)
  obtain fn s s' where f: "fn \<in> set (funcs m)" "promote_function (pointer_bits m) fn s = Some (fn', s')"
    using list_all2_right [OF r, of fn'] fn' m' by fastforce
  then have k: "function_wf m fn" "promotable fn" "ssa_typed fn" using wf fn by (simp_all add: module_wf_def)
  from promote_function_shape [OF f(2) k(1,2)] show "ssa_typed fn'"
    using promoted_ssa_typed [OF _ _ k(1) _ k(2,3)] room fn' k(3) by blast
qed

text \<open>
  C4: When the passes return on a module the verifier accepts, the verifier accepts their result, so the driver's
  internal-error branch is not taken. The functions are coherent as the builder leaves them, slot addresses and loads have
  results and stores none, blocks with one predecessor and stores admit a ranking, the ids slot promotion may need are
  left, and integer conversions have integer results.
\<close>

theorem passes_report_no_error:
  assumes "verify m = []" and "run_passes m = Some r"
    and "\<forall>fn \<in> set (funcs m). promotable fn \<and> (\<exists>rank. dominator_ranked fn rank) \<and>
      length (vals fn) + length (slots fn) * (length (blocks fn) + 1) \<le> UINT32_MAX \<and>
      (\<forall>i \<in> set (all_insts fn). oper i \<in> {Op_Trunc, Op_ZExt, Op_SExt} \<longrightarrow> is_integer (itype i))"
  shows "\<exists>m'. r = Inr m' \<and> verify m' = []"
proof -
  have wf: "module_wf m" using assms(1) by (simp add: verify_Nil)
  obtain m1 st m2 st' where p: "promote_slots m = Some (m1, st)" "peephole m1 = Some (m2, st')"
      and r: "r = (case verify m2 of [] \<Rightarrow> Inr m2 | e # _ \<Rightarrow> Inl (''error: internal error: MIR passes produced malformed MIR: '' @ ve_message e))"
    using assms(2) by (auto simp: run_passes_def bind_eq_Some_conv)
  obtain fs st'' where q: "promote_functions (pointer_bits m) (funcs m) \<lparr>slots_promoted = 0, params_added = 0\<rparr> = Some (fs, st'')"
      "\<forall>fn \<in> set fs. length (vals fn) \<le> UINT32_MAX"
    using promote_functions_total [of "funcs m" m UINT32_MAX "pointer_bits m" "\<lparr>slots_promoted = 0, params_added = 0\<rparr>"] assms(3) wf
    unfolding module_wf_def by blast
  have room: "\<forall>fn \<in> set (funcs m1). length (vals fn) \<le> NO_VALUE" using p(1) q by (auto simp: promote_slots_def)
  have fn: "\<forall>fn \<in> set (funcs m). promotable fn \<and> ssa_typed fn"
    using assms(3) coherent_ssa_typed by (simp add: promotable_def)
  have "module_wf m1" using promote_module_kept(1) [OF p(1) wf _ room] fn by blast
  from peephole_module_wf [OF p(2) this promote_module_ssa [OF p(1) wf fn room]]
  have "verify m2 = []" by (simp add: verify_Nil)
  then show ?thesis using r by simp
qed

theorem passes_report_no_error_witness: "\<exists>r m'. run_passes demo_module = Some r \<and> r = Inr m' \<and> verify m' = []"
proof -
  have p: "promote_slots demo_module = Some (demo_module, \<lparr>slots_promoted = 0, params_added = 0\<rparr>)"
    by (simp add: promote_slots_def promote_function_def demo_module_def) (simp add: demo_function_def)
  obtain m2 st where "peephole demo_module = Some (m2, st)" using demo_peephole by blast
  then obtain r where r: "run_passes demo_module = Some r" by (simp add: run_passes_def p)
  have "promotable demo_function"
    using demo_coherent by (simp add: promotable_def) (simp add: all_insts_def demo_defs)
  moreover have "pred_lists demo_function = [[]]" by (simp add: pred_lists_def block_targets_def Let_def demo_defs)
  then have "dominator_ranked demo_function (\<lambda>b. b)"
    by (simp add: dominator_ranked_def before_def Let_def All_less_Suc2) (simp add: demo_defs All_less_Suc2)
  moreover have "length (vals demo_function) + length (slots demo_function) * (length (blocks demo_function) + 1) \<le> UINT32_MAX"
    "\<forall>i \<in> set (all_insts demo_function). oper i \<in> {Op_Trunc, Op_ZExt, Op_SExt} \<longrightarrow> is_integer (itype i)"
    by (simp_all add: demo_defs UINT32_MAX_def all_insts_def)
  ultimately have "\<forall>fn \<in> set (funcs demo_module). promotable fn \<and> (\<exists>rank. dominator_ranked fn rank) \<and>
      length (vals fn) + length (slots fn) * (length (blocks fn) + 1) \<le> UINT32_MAX \<and>
      (\<forall>i \<in> set (all_insts fn). oper i \<in> {Op_Trunc, Op_ZExt, Op_SExt} \<longrightarrow> is_integer (itype i))"
    by (auto simp: demo_module_def)
  from passes_report_no_error [OF demo_verified r this] r show ?thesis by blast
qed

end
