(* ===== verification/Bitset.thy ===== *)
theory Bitset
  imports Prelude
begin

text \<open>
  The bit vectors of the register allocator's data-flow analysis (\<^verbatim>\<open>Bitset\<close> of
  \<^verbatim>\<open>src/src/compiler/x86_regalloc.cpp\<close>): 64-bit words, one definition per method, and their
  refinement of finite sets of natural numbers.
\<close>

type_synonym bitset = "u64 list"

definition bs_new :: "nat \<Rightarrow> bitset" where
  "bs_new bits = replicate ((bits + 63) div 64) 0"

definition bs_set :: "nat \<Rightarrow> bitset \<Rightarrow> bitset" where
  "bs_set i ws = ws[i div 64 := ws ! (i div 64) OR push_bit (i mod 64) 1]"

definition bs_clear :: "nat \<Rightarrow> bitset \<Rightarrow> bitset" where
  "bs_clear i ws = ws[i div 64 := ws ! (i div 64) AND NOT (push_bit (i mod 64) 1)]"

definition bs_test :: "nat \<Rightarrow> bitset \<Rightarrow> bool" where
  "bs_test i ws \<longleftrightarrow> drop_bit (i mod 64) (ws ! (i div 64)) AND 1 \<noteq> 0"

text \<open>\<^verbatim>\<open>merge\<close>: the united words and whether a word changed.\<close>

fun bs_merge :: "bitset \<Rightarrow> bitset \<Rightarrow> bitset \<times> bool" where
  "bs_merge (w # ws) (v # vs) =
     (let merged = w OR v; (rest, changed) = bs_merge ws vs
      in (merged # rest, merged \<noteq> w \<or> changed))"
| "bs_merge ws vs = (ws, False)"

text \<open>The transfer function's inner loop: \<^verbatim>\<open>in.words[w] |= live_out.words[w] & ~def.words[w]\<close>.\<close>

fun bs_transfer :: "bitset \<Rightarrow> bitset \<Rightarrow> bitset \<Rightarrow> bitset" where
  "bs_transfer (g # gs) (out # outs) (d # ds) = (g OR (out AND NOT d)) # bs_transfer gs outs ds"
| "bs_transfer gs outs ds = gs"

text \<open>
  \<^verbatim>\<open>for_each\<close>: the visited indices. The inner loop reads the lowest set bit (\<^verbatim>\<open>__builtin_ctzll\<close>) and
  clears it with \<^verbatim>\<open>bits &= bits - 1\<close>.
\<close>

definition ctz :: "u64 \<Rightarrow> nat" where
  "ctz bits = length (takeWhile (\<lambda>i. \<not> bit bits i) [0..<64])"

lemma and_pred_less: "(w :: 'a::len word) \<noteq> 0 \<Longrightarrow> unat (w AND (w - 1)) < unat w"
  using unat_minus_one [of w] unat_gt_0 [of w] word_and_le1 [of w "w - 1"]
  by (simp add: word_le_nat_alt)

function low_bits :: "u64 \<Rightarrow> nat list" where
  "low_bits bits = (if bits = 0 then [] else ctz bits # low_bits (bits AND (bits - 1)))"
  by auto
termination
  by (relation "measure unat") (simp_all add: and_pred_less)

declare low_bits.simps [simp del]

definition bs_elems :: "bitset \<Rightarrow> nat list" where
  "bs_elems ws = concat (map (\<lambda>w. map (\<lambda>b. w * 64 + b) (low_bits (ws ! w))) [0..<length ws])"

subsection \<open>Refinement of sets\<close>

definition bs_abs :: "bitset \<Rightarrow> nat set" where
  "bs_abs ws = {i. i < 64 * length ws \<and> bs_test i ws}"

lemma bs_test_bit: "bs_test i ws \<longleftrightarrow> bit (ws ! (i div 64)) (i mod 64)"
  by (simp add: bs_test_def bit_iff_odd_drop_bit and_one_eq odd_iff_mod_2_eq_one)

lemma in_bs_abs: "i \<in> bs_abs ws \<longleftrightarrow> i < 64 * length ws \<and> bit (ws ! (i div 64)) (i mod 64)"
  by (simp add: bs_abs_def bs_test_bit)

lemma index_div: "i < 64 * n \<Longrightarrow> i div 64 < (n :: nat)"
  by (simp add: less_mult_imp_div_less mult.commute)

lemma div_mod_unique: "i div 64 = j div 64 \<Longrightarrow> j mod 64 = i mod 64 \<Longrightarrow> j = (i :: nat)"
  by (metis div_mult_mod_eq)

lemma bs_abs_new: "bs_abs (bs_new n) = {}"
  by (auto simp: in_bs_abs bs_new_def index_div)

lemma length_bs_set [simp]: "length (bs_set i ws) = length ws"
  by (simp add: bs_set_def)

lemma bs_abs_set:
  assumes "i < 64 * length ws"
  shows "bs_abs (bs_set i ws) = insert i (bs_abs ws)"
proof -
  have i: "i div 64 < length ws" using assms by (rule index_div)
  then show ?thesis
    using assms
    by (auto simp: in_bs_abs bs_set_def nth_list_update bit_simps index_div
        intro: div_mod_unique split: if_splits)
qed

lemma bs_abs_clear:
  assumes "i < 64 * length ws"
  shows "bs_abs (bs_clear i ws) = bs_abs ws - {i}"
proof -
  have i: "i div 64 < length ws" using assms by (rule index_div)
  then show ?thesis
    using assms
    by (auto simp: in_bs_abs bs_clear_def nth_list_update bit_simps index_div
        intro: div_mod_unique split: if_splits)
qed

lemma bs_merge_words:
  assumes "length ws = length vs"
  shows "length (fst (bs_merge ws vs)) = length ws"
    "\<forall>k < length ws. fst (bs_merge ws vs) ! k = ws ! k OR vs ! k"
    "snd (bs_merge ws vs) \<longleftrightarrow> fst (bs_merge ws vs) \<noteq> ws"
  using assms
  by (induction ws vs rule: list_induct2)
     (auto simp: Let_def case_prod_beta nth_Cons split: nat.splits)

lemma bs_abs_merge:
  assumes "length ws = length vs"
  shows "bs_abs (fst (bs_merge ws vs)) = bs_abs ws \<union> bs_abs vs"
  using bs_merge_words(1,2) [OF assms] assms by (auto simp: in_bs_abs bit_or_iff index_div)

lemma bs_transfer_words:
  assumes "length gs = length outs" "length outs = length ds"
  shows "length (bs_transfer gs outs ds) = length gs"
    "\<forall>k < length gs. bs_transfer gs outs ds ! k = gs ! k OR (outs ! k AND NOT (ds ! k))"
  using assms
  by (induction gs outs ds rule: list_induct3) (auto simp: nth_Cons split: nat.splits)

lemma bs_abs_transfer:
  assumes "length gs = length outs" "length outs = length ds"
  shows "bs_abs (bs_transfer gs outs ds) = bs_abs gs \<union> (bs_abs outs - bs_abs ds)"
  using bs_transfer_words [OF assms] assms
  by (auto simp: in_bs_abs bit_simps index_div)

text \<open>Two equally long bit vectors that hold the same set are the same vector.\<close>

lemma bs_abs_inject:
  assumes "length ws = length vs"
  shows "bs_abs ws = bs_abs vs \<longleftrightarrow> ws = vs"
proof
  assume eq: "bs_abs ws = bs_abs vs"
  have "ws ! k = vs ! k" if "k < length ws" for k
  proof (rule bit_word_eqI)
    fix n assume "n < LENGTH(64)"
    then have "64 * k + n < 64 * length ws" "(64 * k + n) div 64 = k" "(64 * k + n) mod 64 = n"
      using that by auto
    moreover have "64 * k + n \<in> bs_abs ws \<longleftrightarrow> 64 * k + n \<in> bs_abs vs" by (simp add: eq)
    ultimately show "bit (ws ! k) n \<longleftrightarrow> bit (vs ! k) n"
      using assms by (simp add: in_bs_abs)
  qed
  with assms show "ws = vs" by (simp add: nth_equalityI)
qed simp

lemma bs_merge_changed:
  assumes "length ws = length vs"
  shows "snd (bs_merge ws vs) \<longleftrightarrow> \<not> bs_abs vs \<subseteq> bs_abs ws"
  using bs_merge_words [OF assms] bs_abs_merge [OF assms] bs_abs_inject [of "fst (bs_merge ws vs)" ws]
  by auto

lemma finite_bs_abs [simp]: "finite (bs_abs ws)"
  by (rule finite_subset [of _ "{..< 64 * length ws}"]) (auto simp: bs_abs_def)

subsection \<open>The enumeration of the members\<close>

lemma ctz_lowest:
  assumes "w \<noteq> 0"
  shows "bit w (ctz w) \<and> (\<forall>i < ctz w. \<not> bit w i)"
proof -
  have "\<exists>k. bit w k"
    using assms by (auto simp: bit_eq_iff)
  define n where "n = (LEAST i. bit w i)"
  have n: "bit w n" "\<And>i. i < n \<Longrightarrow> \<not> bit w i"
    using \<open>\<exists>k. bit w k\<close> not_less_Least unfolding n_def by (auto intro: LeastI)
  have "n < 64" using bit_imp_le_length [OF n(1)] by simp
  then have "[0..<64] = [0..<n] @ n # [Suc n..<64]"
    by (metis upt_conv_Cons upt_add_eq_append le_add_diff_inverse less_imp_le zero_le)
  then have "takeWhile (\<lambda>i. \<not> bit w i) [0..<64] = [0..<n]"
    using n by (simp add: takeWhile_append)
  then show ?thesis
    using n by (simp add: ctz_def)
qed

text \<open>\<^verbatim>\<open>bits & (bits - 1)\<close> clears the lowest set bit and nothing else.\<close>

lemma clear_lowest:
  fixes w :: u64
  assumes "bit w k" and "\<forall>i < k. \<not> bit w i"
  shows "bit (w AND (w - 1)) i \<longleftrightarrow> bit w i \<and> i \<noteq> k"
proof -
  define u where "u = w AND NOT (push_bit k 1)"
  have k: "k < 64" using bit_imp_le_length [OF assms(1)] by simp
  have u: "bit u n \<longleftrightarrow> bit w n \<and> n \<noteq> k" for n
    using k by (auto simp: u_def bit_simps dest: bit_imp_le_length)
  have "w = u OR push_bit k 1"
  proof (rule bit_word_eqI)
    show "bit w n \<longleftrightarrow> bit (u OR push_bit k 1) n" if "n < LENGTH(64)" for n
      using assms(1) u [of n] that by (cases "n = k") (simp_all add: bit_simps)
  qed
  also have "\<dots> = u + push_bit k 1"
    using u by (intro disjunctive_add [symmetric]) (auto simp: bit_simps)
  finally have "w - 1 = u + mask k"
    by (simp add: mask_eq_exp_minus_1)
  also have "\<dots> = u OR mask k"
    using u assms(2) by (intro disjunctive_add) (auto simp: bit_simps)
  finally show ?thesis
    using u assms(2) by (auto simp: bit_simps)
qed

lemma set_low_bits: "set (low_bits w) = {i. bit w i}"
proof (induction w rule: low_bits.induct)
  case (1 w)
  show ?case
  proof (cases "w = 0")
    case False
    note c = ctz_lowest [OF False]
    have "set (low_bits w) = insert (ctz w) {i. bit (w AND (w - 1)) i}"
      using 1 [OF False] False by (simp add: low_bits.simps [of w])
    also have "\<dots> = {i. bit w i}"
      using c clear_lowest [of w "ctz w"] by auto
    finally show ?thesis .
  qed (simp add: low_bits.simps)
qed

lemma set_bs_elems: "set (bs_elems ws) = bs_abs ws"
proof -
  have "i \<in> set (bs_elems ws) \<longleftrightarrow> (\<exists>k < length ws. \<exists>b. bit (ws ! k) b \<and> i = k * 64 + b)" for i
    by (auto simp: bs_elems_def set_low_bits)
  moreover have "(\<exists>k < length ws. \<exists>b. bit (ws ! k) b \<and> i = k * 64 + b) \<longleftrightarrow> i \<in> bs_abs ws" for i
  proof
    assume "\<exists>k < length ws. \<exists>b. bit (ws ! k) b \<and> i = k * 64 + b"
    then obtain k b where kb: "k < length ws" "bit (ws ! k) b" "i = k * 64 + b" by blast
    moreover from this(2) have "b < 64" by (auto dest: bit_imp_le_length)
    ultimately show "i \<in> bs_abs ws" by (simp add: in_bs_abs)
  next
    assume "i \<in> bs_abs ws"
    then show "\<exists>k < length ws. \<exists>b. bit (ws ! k) b \<and> i = k * 64 + b"
      by (intro exI [of _ "i div 64"] conjI exI [of _ "i mod 64"])
         (simp_all add: in_bs_abs index_div div_mult_mod_eq)
  qed
  ultimately show ?thesis by blast
qed

end
