(* ===== verification/X86_Regalloc.thy ===== *)
theory X86_Regalloc
  imports Mir Bitset "HOL-Library.While_Combinator" "HOL-Library.Product_Lexorder"
begin

text \<open>
  The linear-scan register allocator (\<^verbatim>\<open>src/src/compiler/x86_regalloc.hpp\<close> and \<^verbatim>\<open>x86_regalloc.cpp\<close>):
  block indexing, kill ranges, block-level liveness, intervals, the scan and the machine verifier.
  Instruction indices and positions are natural numbers; the sources keep them in 32 bits, which a
  function would need more than \<open>2 ^ 30\<close> instructions to exceed.
\<close>

subsection \<open>Registers and positions\<close>

type_synonym phys_reg = nat

abbreviation (input) FIRST_XMM :: phys_reg where "FIRST_XMM \<equiv> 16"
abbreviation (input) NO_PHYS :: phys_reg where "NO_PHYS \<equiv> 255"

definition is_xmm :: "phys_reg \<Rightarrow> bool" where
  "is_xmm reg \<longleftrightarrow> FIRST_XMM \<le> reg"

definition is_callee_saved :: "phys_reg \<Rightarrow> bool" where
  "is_callee_saved reg \<longleftrightarrow> reg = 3 \<or> (12 \<le> reg \<and> reg \<le> 15)"

datatype mode = Trivial | Linear

record assignment =
  spilled :: bool
  reg :: phys_reg
  save_around_calls :: bool
  spill_index :: nat
  save_index :: nat

definition default_assignment :: assignment where
  "default_assignment = \<lparr>spilled = True, reg = NO_PHYS, save_around_calls = False,
     spill_index = UINT32_MAX, save_index = UINT32_MAX\<rparr>"

definition pos_e :: "nat \<Rightarrow> nat" where "pos_e index = index * 4"
definition pos_u :: "nat \<Rightarrow> nat" where "pos_u index = index * 4 + 1"
definition pos_d :: "nat \<Rightarrow> nat" where "pos_d index = index * 4 + 2"
definition pos_l :: "nat \<Rightarrow> nat" where "pos_l index = index * 4 + 3"

lemmas positions = pos_e_def pos_u_def pos_d_def pos_l_def

record interval =
  ivalue :: value_id
  istart :: nat
  iend :: nat
  iv_float :: bool
  crosses_call :: bool

record ra_result =
  rvalues :: "assignment list"
  intervals :: "interval list"
  spill_area_count :: nat
  used_callee_saved :: u16
  errors :: "string list"

record kill_range =
  kfrom :: nat
  kto :: nat
  is_call_clobber :: bool

definition CALLER_SAVED_GPRS :: "phys_reg list" where
  "CALLER_SAVED_GPRS = [0, 1, 2, 6, 7, 8, 9, 10, 11]"

definition family_table :: "(string \<times> phys_reg) list" where
  "family_table =
     [(''rax'', 0), (''rcx'', 1), (''rdx'', 2), (''rbx'', 3), (''rsp'', 4), (''rbp'', 5), (''rsi'', 6),
      (''rdi'', 7), (''r8'', 8), (''r9'', 9), (''r10'', 10), (''r11'', 11), (''r12'', 12), (''r13'', 13),
      (''r14'', 14), (''r15'', 15)]"

definition family_reg :: "string \<Rightarrow> phys_reg" where
  "family_reg name = (case map_of family_table name of None \<Rightarrow> NO_PHYS | Some r \<Rightarrow> r)"

definition GPR_PREFER_SCRATCHY :: "phys_reg list" where
  "GPR_PREFER_SCRATCHY = [10, 11, 6, 7, 8, 9, 1, 2, 0, 3, 12, 13, 14, 15]"

definition GPR_PREFER_CALLEE :: "phys_reg list" where
  "GPR_PREFER_CALLEE = [3, 12, 13, 14, 15, 10, 11, 6, 7, 8, 9, 1, 2, 0]"

definition XMM_ORDER :: "phys_reg list" where
  "XMM_ORDER = map ((+) FIRST_XMM) [2, 3, 4, 5, 6, 7, 8, 9, 10, 11, 12, 13, 14, 15, 1, 0]"

definition is_call_like :: "op \<Rightarrow> bool" where
  "is_call_like x \<longleftrightarrow>
     x = Op_Call \<or> x = Op_CallIndirect \<or> x = Op_MemCopy \<or> x = Op_MemSet \<or> x = Op_FRem"

definition asm_family_table :: "(string \<times> string) list" where
  "asm_family_table =
     [(''rax'', ''rax''), (''eax'', ''rax''), (''ax'', ''rax''), (''al'', ''rax''),
      (''rcx'', ''rcx''), (''ecx'', ''rcx''), (''cx'', ''rcx''), (''cl'', ''rcx''),
      (''rdx'', ''rdx''), (''edx'', ''rdx''), (''dx'', ''rdx''), (''dl'', ''rdx''),
      (''rbx'', ''rbx''), (''ebx'', ''rbx''), (''bx'', ''rbx''), (''bl'', ''rbx''),
      (''rsi'', ''rsi''), (''esi'', ''rsi''), (''si'', ''rsi''), (''sil'', ''rsi''),
      (''rdi'', ''rdi''), (''edi'', ''rdi''), (''di'', ''rdi''), (''dil'', ''rdi''),
      (''r8'', ''r8''), (''r8d'', ''r8''), (''r9'', ''r9''), (''r9d'', ''r9''),
      (''r10'', ''r10''), (''r10d'', ''r10''), (''r11'', ''r11''), (''r11d'', ''r11''),
      (''r12'', ''r12''), (''r12d'', ''r12''), (''r13'', ''r13''), (''r13d'', ''r13''),
      (''r14'', ''r14''), (''r14d'', ''r14''), (''r15'', ''r15''), (''r15d'', ''r15'')]"

definition asm_result_family :: "string \<Rightarrow> string" where
  "asm_result_family r = (case map_of asm_family_table r of None \<Rightarrow> r | Some f \<Rightarrow> f)"

subsection \<open>Block spans and kill ranges\<close>

record span =
  first :: nat
  lst :: nat

text \<open>The last index of an empty first block wraps in the source; verified blocks are not empty.\<close>

fun index_from :: "nat \<Rightarrow> block list \<Rightarrow> span list" where
  "index_from index [] = []"
| "index_from index (b # bs) =
     \<lparr>first = index, lst = index + length (insts b) - 1\<rparr> # index_from (index + length (insts b)) bs"

definition index_blocks :: "func \<Rightarrow> span list" where
  "index_blocks fn = index_from 0 (blocks fn)"

definition instruction_count :: "func \<Rightarrow> nat" where
  "instruction_count fn = sum_list (map (\<lambda>b. length (insts b)) (blocks fn))"

text \<open>\<^verbatim>\<open>kills\<close> is an array of 32 lists, \<^verbatim>\<open>kill\<close> the append that ignores the reserved registers.\<close>

type_synonym kills = "kill_range list list"

definition kill :: "phys_reg \<Rightarrow> nat \<Rightarrow> nat \<Rightarrow> bool \<Rightarrow> kills \<Rightarrow> kills" where
  "kill r from to call_clobber ks =
     (if r = NO_PHYS \<or> r = 4 \<or> r = 5 then ks
      else ks[r := ks ! r @ [\<lparr>kfrom = from, kto = to, is_call_clobber = call_clobber\<rparr>]])"

definition kill_all :: "phys_reg list \<Rightarrow> nat \<Rightarrow> nat \<Rightarrow> bool \<Rightarrow> kills \<Rightarrow> kills" where
  "kill_all rs from to cc ks = fold (\<lambda>r. kill r from to cc) rs ks"

definition asm_named :: "asm_block \<Rightarrow> string list" where
  "asm_named blk = concat (map (\<lambda>ins. map areg (filter (\<lambda>p. akind p = Asm_Register) (operands ins)))
     (instructions blk))"

definition inst_kills :: "mir_module \<Rightarrow> inst \<Rightarrow> nat \<Rightarrow> kills \<Rightarrow> kills" where
  "inst_kills m i index ks =
     (let e = pos_e index; d = pos_d index; l = pos_l index; x = oper i
      in if x \<in> {Op_SDiv, Op_UDiv, Op_SRem, Op_URem} then kill_all [0, 2] e d False ks
         else if x \<in> {Op_Shl, Op_LShr, Op_AShr} then kill 1 e d False ks
         else if x = Op_StackAlloc then kill 0 e d False ks
         else if x = Op_Switch then kill_all [0, 1] e l False ks
         else if is_call_like x
         then kill_all (CALLER_SAVED_GPRS @ [FIRST_XMM..<FIRST_XMM + 16]) e d True ks
         else if x = Op_Asm
         then let blk = asm_blocks m ! opa i
              in kill_all (map family_reg (clobbered_families blk) @
                   (if result_register blk \<noteq> []
                    then [family_reg (asm_result_family (result_register blk))] else []) @
                   map (\<lambda>r. family_reg (asm_result_family r)) (asm_named blk)) e l False ks
         else ks)"

definition block_kills :: "mir_module \<Rightarrow> span \<times> block \<Rightarrow> kills \<Rightarrow> kills" where
  "block_kills m sb ks =
     (case sb of (s, b) \<Rightarrow> fold (\<lambda>(k, i). inst_kills m i k) (enumerate (first s) (insts b)) ks)"

definition build_kills :: "mir_module \<Rightarrow> func \<Rightarrow> kills" where
  "build_kills m fn =
     map (sort_key kfrom) (fold (block_kills m) (zip (index_blocks fn) (blocks fn)) (replicate 32 []))"

text \<open>The indices \<^verbatim>\<open>build_kills\<close> pushes on \<^verbatim>\<open>call_indices\<close>.\<close>

definition block_calls :: "span \<times> block \<Rightarrow> nat list" where
  "block_calls sb =
     (case sb of (s, b) \<Rightarrow> map fst (filter (\<lambda>(k, i). is_call_like (oper i)) (enumerate (first s) (insts b))))"

definition call_indices :: "func \<Rightarrow> nat list" where
  "call_indices fn = concat (map block_calls (zip (index_blocks fn) (blocks fn)))"

subsection \<open>Liveness\<close>

text \<open>The gen and def sets of a block, as the first loop of \<^verbatim>\<open>build_intervals\<close> fills them.\<close>

definition visit_use :: "value_id \<Rightarrow> bitset \<times> bitset \<Rightarrow> bitset \<times> bitset" where
  "visit_use v gd = (case gd of (g, d) \<Rightarrow> if \<not> bs_test v d then (bs_set v g, d) else (g, d))"

definition visit_inst :: "inst \<Rightarrow> bitset \<times> bitset \<Rightarrow> bitset \<times> bitset" where
  "visit_inst i gd =
     (case fold visit_use (value_operands i) gd of (g, d) \<Rightarrow>
        if result i \<noteq> NO_VALUE then (g, bs_set (result i) d) else (g, d))"

definition gen_def :: "nat \<Rightarrow> block \<Rightarrow> bitset \<times> bitset" where
  "gen_def n b = fold visit_inst (insts b) (bs_new n, fold bs_set (params b) (bs_new n))"

definition successors :: "block \<Rightarrow> block_id list" where
  "successors b =
     (if insts b = [] then []
      else let t = last (insts b)
        in if oper t = Op_Jump then [opa t]
           else if oper t = Op_Branch then [opb t, opc t]
           else if oper t = Op_Switch then opb t # odds (args t)
           else [])"

record liveness =
  live_in :: "bitset list"
  live_out :: "bitset list"

definition merge_succ :: "block_id \<Rightarrow> block_id \<Rightarrow> liveness \<times> bool \<Rightarrow> liveness \<times> bool" where
  "merge_succ b s lc =
     (case lc of (l, changed) \<Rightarrow>
        let (out, c) = bs_merge (live_out l ! b) (live_in l ! s)
        in (l\<lparr>live_out := (live_out l)[b := out]\<rparr>, changed \<or> c))"

definition live_block :: "(bitset \<times> bitset) list \<Rightarrow> block_id list list \<Rightarrow> block_id \<Rightarrow> liveness \<times> bool \<Rightarrow>
    liveness \<times> bool" where
  "live_block gd succs b lc =
     (let (l, changed) = fold (merge_succ b) (succs ! b) lc;
          inn = bs_transfer (fst (gd ! b)) (live_out l ! b) (snd (gd ! b));
          (inn', c) = bs_merge (live_in l ! b) inn
      in (l\<lparr>live_in := (live_in l)[b := inn']\<rparr>, changed \<or> c))"

text \<open>One turn of the \<^verbatim>\<open>while (changed)\<close> loop: the blocks from the last to the first.\<close>

definition live_round :: "(bitset \<times> bitset) list \<Rightarrow> block_id list list \<Rightarrow> liveness \<Rightarrow> liveness \<times> bool" where
  "live_round gd succs l = fold (live_block gd succs) (rev [0..<length gd]) (l, False)"

definition live_init :: "nat \<Rightarrow> nat \<Rightarrow> liveness" where
  "live_init n k = \<lparr>live_in = replicate k (bs_new n), live_out = replicate k (bs_new n)\<rparr>"

definition liveness :: "nat \<Rightarrow> (bitset \<times> bitset) list \<Rightarrow> block_id list list \<Rightarrow> liveness option" where
  "liveness n gd succs =
     map_option fst (while_option snd (\<lambda>(l, _). live_round gd succs l) (live_init n (length gd), True))"

subsection \<open>Intervals\<close>

type_synonym ranges = "nat list \<times> nat list"

definition extend_range :: "value_id \<Rightarrow> nat \<Rightarrow> ranges \<Rightarrow> ranges" where
  "extend_range v pos r =
     (case r of (start_of, end_of) \<Rightarrow>
        (start_of[v := min (start_of ! v) pos], end_of[v := max (end_of ! v) pos]))"

definition def_pos :: "inst \<Rightarrow> nat \<Rightarrow> nat" where
  "def_pos i index = (if is_call_like (oper i) \<or> oper i = Op_Asm then pos_l index else pos_u index)"

text \<open>
  The positions one instruction, one block and the whole function record, in the order the loops of
  \<^verbatim>\<open>build_intervals\<close> visit them; each entry is an argument pair of \<^verbatim>\<open>extend\<close>.
\<close>

definition inst_positions :: "func \<Rightarrow> nat \<times> inst \<Rightarrow> (value_id \<times> nat) list" where
  "inst_positions fn ki =
     (case ki of (index, i) \<Rightarrow>
        map (\<lambda>v. (v, pos_u index)) (value_operands i) @
        (if result i \<noteq> NO_VALUE then [(result i, def_pos i index)] else []) @
        (if oper i = Op_Jump then map (\<lambda>p. (p, pos_l index)) (params (blocks fn ! opa i)) else []))"

definition block_positions :: "func \<Rightarrow> (bitset \<times> bitset) list \<Rightarrow> liveness \<Rightarrow> block_id \<Rightarrow> (value_id \<times> nat) list"
  where
  "block_positions fn gd l b =
     (let blk = blocks fn ! b; s = index_blocks fn ! b;
          block_start = pos_e (first s); block_end = pos_l (lst s)
      in map (\<lambda>v. (v, block_start)) (bs_elems (live_in l ! b)) @
         concat (map (\<lambda>v. (if \<not> bs_test v (snd (gd ! b)) then [(v, block_start)] else []) @ [(v, block_end)])
           (bs_elems (live_out l ! b))) @
         map (\<lambda>p. (p, block_start)) (params blk) @
         concat (map (inst_positions fn) (enumerate (first s) (insts blk))))"

definition all_positions :: "func \<Rightarrow> (bitset \<times> bitset) list \<Rightarrow> liveness \<Rightarrow> (value_id \<times> nat) list" where
  "all_positions fn gd l = concat (map (block_positions fn gd l) [0..<length (blocks fn)])"

definition record_ranges :: "nat \<Rightarrow> (value_id \<times> nat) list \<Rightarrow> ranges" where
  "record_ranges n ps = fold (\<lambda>(v, pos). extend_range v pos) ps (replicate n UINT32_MAX, replicate n 0)"

definition crosses :: "interval \<Rightarrow> nat \<Rightarrow> bool" where
  "crosses iv index \<longleftrightarrow> istart iv < pos_u index \<and> iend iv > pos_l index"

definition make_interval :: "func \<Rightarrow> nat list \<Rightarrow> ranges \<Rightarrow> value_id \<Rightarrow> interval" where
  "make_interval fn calls r v =
     (let iv = \<lparr>ivalue = v, istart = fst r ! v, iend = snd r ! v,
                iv_float = is_float (vd_type (vals fn ! v)), crosses_call = False\<rparr>
      in iv\<lparr>crosses_call := list_ex (crosses iv) calls\<rparr>)"

definition build_intervals :: "func \<Rightarrow> interval list option" where
  "build_intervals fn =
     (let n = length (vals fn);
          gd = map (gen_def n) (blocks fn);
          succs = map successors (blocks fn)
      in map_option (\<lambda>l.
           let r = record_ranges n (all_positions fn gd l)
           in sort_key (\<lambda>iv. (istart iv, ivalue iv))
                (map (make_interval fn (call_indices fn) r)
                  (filter (\<lambda>v. fst r ! v \<noteq> UINT32_MAX) [0..<n])))
         (liveness n gd succs))"

subsection \<open>The scan\<close>

text \<open>\<open>None\<close> for a conflict, otherwise whether a save around calls is needed.\<close>

fun kill_scan :: "interval \<Rightarrow> phys_reg \<Rightarrow> kill_range list \<Rightarrow> bool \<Rightarrow> bool option" where
  "kill_scan iv r [] needs_save = Some needs_save"
| "kill_scan iv r (k # ks) needs_save =
     (if kfrom k > iend iv then Some needs_save
      else if kto k < istart iv then kill_scan iv r ks needs_save
      else if is_call_clobber k \<and> \<not> is_callee_saved r \<and> crosses iv (kfrom k div 4)
      then kill_scan iv r ks True
      else None)"

definition overlapping_kill_ok :: "kills \<Rightarrow> interval \<Rightarrow> phys_reg \<Rightarrow> bool option" where
  "overlapping_kill_ok ks iv r = kill_scan iv r (ks ! r) False"

record active =
  aend :: nat
  act_reg :: phys_reg

definition reg_order :: "interval \<Rightarrow> phys_reg list" where
  "reg_order iv =
     (if iv_float iv then XMM_ORDER
      else if crosses_call iv then GPR_PREFER_CALLEE
      else GPR_PREFER_SCRATCHY)"

text \<open>One pass over the preference order.\<close>

fun choose_reg :: "kills \<Rightarrow> interval \<Rightarrow> active list \<Rightarrow> nat \<Rightarrow> phys_reg list \<Rightarrow> (phys_reg \<times> bool) option" where
  "choose_reg ks iv act pass [] = None"
| "choose_reg ks iv act pass (r # rs) =
     (if list_ex (\<lambda>a. act_reg a = r) act then choose_reg ks iv act pass rs
      else case overlapping_kill_ok ks iv r of
          None \<Rightarrow> choose_reg ks iv act pass rs
        | Some needs_save \<Rightarrow>
            if needs_save \<and> pass = 0 then choose_reg ks iv act pass rs else Some (r, needs_save))"

definition pick_reg :: "kills \<Rightarrow> interval \<Rightarrow> active list \<Rightarrow> (phys_reg \<times> bool) option" where
  "pick_reg ks iv act =
     (case choose_reg ks iv act 0 (reg_order iv) of
        Some c \<Rightarrow> Some c
      | None \<Rightarrow> choose_reg ks iv act 1 (reg_order iv))"

record scan_state =
  svalues :: "assignment list"
  sareas :: nat
  scallee :: u16
  sactive :: "active list"

definition scan_init :: "nat \<Rightarrow> scan_state" where
  "scan_init n = \<lparr>svalues = replicate n default_assignment, sareas = 0, scallee = 0, sactive = []\<rparr>"

definition spill_step :: "interval \<Rightarrow> scan_state \<Rightarrow> scan_state" where
  "spill_step iv s =
     s\<lparr>svalues := (svalues s)[ivalue iv := (svalues s ! ivalue iv)
          \<lparr>spilled := True, spill_index := sareas s\<rparr>],
       sareas := sareas s + 1\<rparr>"

definition scan_step :: "kills \<Rightarrow> interval \<Rightarrow> scan_state \<Rightarrow> scan_state" where
  "scan_step ks iv s0 =
     (let s = s0\<lparr>sactive := filter (\<lambda>a. \<not> aend a < istart iv) (sactive s0)\<rparr>;
          a = svalues s ! ivalue iv
      in case pick_reg ks iv (sactive s) of
           None \<Rightarrow> spill_step iv s
         | Some (chosen, needs_save) \<Rightarrow>
             s\<lparr>svalues := (svalues s)[ivalue iv :=
                  (if needs_save
                   then a\<lparr>spilled := False, reg := chosen, save_around_calls := True, save_index := sareas s\<rparr>
                   else a\<lparr>spilled := False, reg := chosen\<rparr>)],
               sareas := (if needs_save then sareas s + 1 else sareas s),
               scallee := (if \<not> is_xmm chosen \<and> is_callee_saved chosen
                           then scallee s OR push_bit chosen 1 else scallee s),
               sactive := sactive s @ [\<lparr>aend = iend iv, act_reg = chosen\<rparr>]\<rparr>)"

definition scan :: "mode \<Rightarrow> nat \<Rightarrow> kills \<Rightarrow> interval list \<Rightarrow> scan_state" where
  "scan md n ks ivs =
     (case md of
        Trivial \<Rightarrow> fold spill_step ivs (scan_init n)
      | Linear \<Rightarrow> fold (scan_step ks) ivs (scan_init n))"

subsection \<open>The machine verifier\<close>

definition spill_errors :: "string \<Rightarrow> assignment list \<Rightarrow> interval list \<Rightarrow> string list" where
  "spill_errors nm vs ivs =
     concat (map (\<lambda>iv. fails (spilled (vs ! ivalue iv) \<and> spill_index (vs ! ivalue iv) = UINT32_MAX)
       (''value v'' @ show_nat (ivalue iv) @ '' spilled without a spill area in '' @ quoted nm)) ivs)"

definition show_range :: "interval \<Rightarrow> string" where
  "show_range iv = ''v'' @ show_nat (ivalue iv) @ '' ['' @ show_nat (istart iv) @ '','' @ show_nat (iend iv) @ '']''"

fun interference :: "string \<Rightarrow> phys_reg \<Rightarrow> interval list \<Rightarrow> string list" where
  "interference nm r (a # b # ivs) =
     fails (iend a \<ge> istart b)
       (''register interference in '' @ quoted nm @ '': '' @ show_range a @ '' and '' @ show_range b @
        '' both in r'' @ show_nat r) @ interference nm r (b # ivs)"
| "interference nm r ivs = []"

fun kill_errors :: "string \<Rightarrow> phys_reg \<Rightarrow> assignment \<Rightarrow> interval \<Rightarrow> kill_range list \<Rightarrow> string list" where
  "kill_errors nm r a iv [] = []"
| "kill_errors nm r a iv (k # ks) =
     (if kfrom k > iend iv then []
      else if kto k < istart iv then kill_errors nm r a iv ks
      else fails (\<not> (is_call_clobber k \<and> save_around_calls a \<and> crosses iv (kfrom k div 4)))
             (''kill-range violation in '' @ quoted nm @ '': '' @ show_range iv @ '' in r'' @ show_nat r @
              '' across ['' @ show_nat (kfrom k) @ '','' @ show_nat (kto k) @ '']'') @
           kill_errors nm r a iv ks)"

definition by_reg :: "assignment list \<Rightarrow> interval list \<Rightarrow> phys_reg \<Rightarrow> interval list" where
  "by_reg vs ivs r =
     sort_key istart (filter (\<lambda>iv. \<not> spilled (vs ! ivalue iv) \<and> reg (vs ! ivalue iv) = r) ivs)"

definition reg_errors :: "string \<Rightarrow> kills \<Rightarrow> assignment list \<Rightarrow> interval list \<Rightarrow> phys_reg \<Rightarrow> string list" where
  "reg_errors nm ks vs ivs r =
     interference nm r (by_reg vs ivs r) @
     concat (map (\<lambda>iv. kill_errors nm r (vs ! ivalue iv) iv (ks ! r)) (by_reg vs ivs r))"

definition verify_alloc :: "string \<Rightarrow> kills \<Rightarrow> assignment list \<Rightarrow> interval list \<Rightarrow> string list" where
  "verify_alloc nm ks vs ivs = spill_errors nm vs ivs @ concat (map (reg_errors nm ks vs ivs) [0..<32])"

definition allocate :: "mir_module \<Rightarrow> func \<Rightarrow> mode \<Rightarrow> ra_result option" where
  "allocate m fn md =
     map_option (\<lambda>ivs.
       let ks = build_kills m fn; s = scan md (length (vals fn)) ks ivs
       in \<lparr>rvalues = svalues s, intervals = ivs, spill_area_count = sareas s,
           used_callee_saved = scallee s,
           errors = (if md = Linear then verify_alloc (fname fn) ks (svalues s) ivs else [])\<rparr>)
     (build_intervals fn)"

end
