(* ===== verification/X86_Scan.thy ===== *)
theory X86_Scan
  imports X86_Regalloc "HOL-Library.Multiset"
begin

text \<open>
  Correctness of the linear scan: what a chosen register guarantees, the invariant of the scan over
  the intervals processed so far, and the consequence that the machine verifier has nothing to report.
\<close>

subsection \<open>Kill ranges\<close>

definition overlaps :: "interval \<Rightarrow> kill_range \<Rightarrow> bool" where
  "overlaps iv k \<longleftrightarrow> kfrom k \<le> iend iv \<and> istart iv \<le> kto k"

definition tolerated :: "interval \<Rightarrow> kill_range \<Rightarrow> bool" where
  "tolerated iv k \<longleftrightarrow> is_call_clobber k \<and> crosses iv (kfrom k div 4)"

lemma kill_scan_Some:
  assumes "kill_scan iv r ks ns = Some b" and "sorted (map kfrom ks)"
  shows "(\<forall>k \<in> set ks. overlaps iv k \<longrightarrow> tolerated iv k \<and> \<not> is_callee_saved r) \<and>
    (b \<longleftrightarrow> ns \<or> (\<exists>k \<in> set ks. overlaps iv k))"
  using assms
proof (induction ks arbitrary: ns)
  case (Cons k ks)
  show ?case
  proof (cases "kfrom k > iend iv")
    case True
    then have "\<forall>j \<in> set (k # ks). \<not> overlaps iv j"
      using Cons.prems(2) by (fastforce simp: overlaps_def)
    then show ?thesis
      using True Cons.prems(1) by simp
  next
    case False
    show ?thesis
    proof (cases "kto k < istart iv")
      case True
      then have "\<not> overlaps iv k" by (simp add: overlaps_def)
      then show ?thesis
        using Cons.IH [of ns] Cons.prems True \<open>\<not> kfrom k > iend iv\<close> by simp
    next
      case f2: False
      then have "overlaps iv k" using False by (simp add: overlaps_def)
      moreover from Cons.prems(1) False f2 have "tolerated iv k \<and> \<not> is_callee_saved r"
        "kill_scan iv r ks True = Some b"
        by (auto simp: tolerated_def split: if_splits)
      ultimately show ?thesis
        using Cons.IH [of True] Cons.prems(2) by simp
    qed
  qed
qed simp

lemma kill_scan_None:
  assumes "kill_scan iv r ks ns = None"
  shows "\<exists>k \<in> set ks. overlaps iv k \<and> \<not> (tolerated iv k \<and> \<not> is_callee_saved r)"
  using assms
  by (induction iv r ks ns rule: kill_scan.induct) (auto simp: overlaps_def tolerated_def split: if_splits)

lemma kill_errors_Nil:
  assumes "\<forall>k \<in> set ks. overlaps iv k \<longrightarrow> tolerated iv k \<and> save_around_calls a"
  shows "kill_errors nm r a iv ks = []"
  using assms by (induction ks) (auto simp: overlaps_def tolerated_def)

subsection \<open>The choice of a register\<close>

lemma choose_reg_Some:
  assumes "choose_reg ks iv act pass rs = Some (r, ns)"
  shows "r \<in> set rs \<and> (\<forall>a \<in> set act. act_reg a \<noteq> r) \<and> overlapping_kill_ok ks iv r = Some ns \<and>
    (pass = 0 \<longrightarrow> \<not> ns)"
  using assms
  by (induction rs) (auto simp: list_ex_iff split: if_splits option.splits)

lemma choose_reg_None:
  assumes "choose_reg ks iv act pass rs = None" and "r \<in> set rs"
  shows "(\<exists>a \<in> set act. act_reg a = r) \<or> overlapping_kill_ok ks iv r = None \<or>
    (pass = 0 \<and> overlapping_kill_ok ks iv r = Some True)"
  using assms
  by (induction rs) (auto simp: list_ex_iff split: if_splits option.splits)

lemma pick_reg_Some:
  assumes "pick_reg ks iv act = Some (r, ns)"
  shows "r \<in> set (reg_order iv) \<and> (\<forall>a \<in> set act. act_reg a \<noteq> r) \<and> overlapping_kill_ok ks iv r = Some ns"
proof -
  from assms obtain pass where "choose_reg ks iv act pass (reg_order iv) = Some (r, ns)"
    by (auto simp: pick_reg_def split: option.splits)
  from choose_reg_Some [OF this] show ?thesis by simp
qed

text \<open>A save around calls is only accepted when no free register goes without one.\<close>

lemma pick_reg_save:
  assumes "pick_reg ks iv act = Some (r, True)" and "r' \<in> set (reg_order iv)"
    and "\<forall>a \<in> set act. act_reg a \<noteq> r'"
  shows "overlapping_kill_ok ks iv r' \<noteq> Some False"
proof -
  have "choose_reg ks iv act 0 (reg_order iv) \<noteq> Some (r, True)"
    using choose_reg_Some [of ks iv act 0 "reg_order iv" r True] by auto
  then have "choose_reg ks iv act 0 (reg_order iv) = None"
    using assms(1) by (auto simp: pick_reg_def split: option.splits)
  from choose_reg_None [OF this assms(2)] assms(3) show ?thesis by auto
qed

lemma pick_reg_None:
  assumes "pick_reg ks iv act = None" and "r \<in> set (reg_order iv)"
  shows "(\<exists>a \<in> set act. act_reg a = r) \<or> overlapping_kill_ok ks iv r = None"
  using assms choose_reg_None [of ks iv act 1 "reg_order iv" r]
  by (auto simp: pick_reg_def split: option.splits)

lemma reg_order_regs:
  assumes "r \<in> set (reg_order iv)"
  shows "r < 32" "r \<noteq> 4" "r \<noteq> 5" "is_xmm r \<longleftrightarrow> iv_float iv"
  using assms
  by (auto simp: reg_order_def XMM_ORDER_def GPR_PREFER_CALLEE_def GPR_PREFER_SCRATCHY_def is_xmm_def
      split: if_splits)

subsection \<open>The invariant of the scan\<close>

definition assigned :: "scan_state \<Rightarrow> interval \<Rightarrow> assignment" where
  "assigned s iv = svalues s ! ivalue iv"

definition disjoint :: "interval \<Rightarrow> interval \<Rightarrow> bool" where
  "disjoint a b \<longleftrightarrow> iend a < istart b \<or> iend b < istart a"

definition area :: "assignment \<Rightarrow> nat option" where
  "area a = (if spilled a then Some (spill_index a)
             else if save_around_calls a then Some (save_index a) else None)"

definition placed :: "kills \<Rightarrow> assignment \<Rightarrow> interval \<Rightarrow> bool" where
  "placed ks a iv \<longleftrightarrow>
     spilled a \<or> (reg a \<in> set (reg_order iv) \<and> overlapping_kill_ok ks iv (reg a) = Some (save_around_calls a))"

text \<open>
  The parts of the invariant over the intervals processed so far: the untouched entries, the placed
  ones, interference freedom, the active list, the areas, and the callee-saved mask.
\<close>

definition inv_frame :: "nat \<Rightarrow> interval list \<Rightarrow> scan_state \<Rightarrow> bool" where
  "inv_frame n ivs s \<longleftrightarrow>
     length (svalues s) = n \<and>
     (\<forall>v < n. v \<notin> ivalue ` set ivs \<longrightarrow> svalues s ! v = default_assignment)"

definition inv_placed :: "kills \<Rightarrow> interval list \<Rightarrow> scan_state \<Rightarrow> bool" where
  "inv_placed ks ivs s \<longleftrightarrow> (\<forall>iv \<in> set ivs. placed ks (assigned s iv) iv)"

definition share :: "scan_state \<Rightarrow> interval \<Rightarrow> interval \<Rightarrow> bool" where
  "share s a b \<longleftrightarrow>
     \<not> spilled (assigned s a) \<and> \<not> spilled (assigned s b) \<and> reg (assigned s a) = reg (assigned s b)"

definition inv_disjoint :: "interval list \<Rightarrow> scan_state \<Rightarrow> bool" where
  "inv_disjoint ivs s \<longleftrightarrow> (\<forall>a \<in> set ivs. \<forall>b \<in> set ivs. a \<noteq> b \<and> share s a b \<longrightarrow> disjoint a b)"

definition covered :: "nat \<Rightarrow> scan_state \<Rightarrow> interval \<Rightarrow> bool" where
  "covered p s iv \<longleftrightarrow>
     spilled (assigned s iv) \<or> iend iv < p \<or>
     (\<exists>a \<in> set (sactive s). aend a = iend iv \<and> act_reg a = reg (assigned s iv))"

definition inv_active :: "nat \<Rightarrow> interval list \<Rightarrow> scan_state \<Rightarrow> bool" where
  "inv_active p ivs s \<longleftrightarrow> (\<forall>iv \<in> set ivs. covered p s iv)"

definition inv_areas :: "interval list \<Rightarrow> scan_state \<Rightarrow> bool" where
  "inv_areas ivs s \<longleftrightarrow>
     (\<forall>iv \<in> set ivs. \<forall>k. area (assigned s iv) = Some k \<longrightarrow> k < sareas s) \<and>
     (\<forall>a \<in> set ivs. \<forall>b \<in> set ivs. a \<noteq> b \<and> area (assigned s a) \<noteq> None \<longrightarrow>
        area (assigned s a) \<noteq> area (assigned s b)) \<and>
     sareas s \<le> length ivs"

definition inv_callee :: "interval list \<Rightarrow> scan_state \<Rightarrow> bool" where
  "inv_callee ivs s \<longleftrightarrow>
     (\<forall>r. bit (scallee s) r \<longleftrightarrow>
        (\<exists>iv \<in> set ivs. \<not> spilled (assigned s iv) \<and> reg (assigned s iv) = r \<and> is_callee_saved r))"

definition scan_inv :: "kills \<Rightarrow> nat \<Rightarrow> nat \<Rightarrow> interval list \<Rightarrow> scan_state \<Rightarrow> bool" where
  "scan_inv ks n p ivs s \<longleftrightarrow>
     inv_frame n ivs s \<and> inv_placed ks ivs s \<and> inv_disjoint ivs s \<and> inv_active p ivs s \<and>
     inv_areas ivs s \<and> inv_callee ivs s"

lemmas inv_defs =
  inv_frame_def inv_placed_def inv_disjoint_def inv_active_def inv_areas_def inv_callee_def

lemma scan_inv_init: "scan_inv ks n 0 [] (scan_init n)"
  by (simp add: scan_inv_def inv_defs scan_init_def)

text \<open>A step changes one entry of the assignment table, that of a value not seen before.\<close>

lemma scan_inv_extend:
  assumes inv: "scan_inv ks n p ivs s" and fresh: "ivalue iv \<notin> ivalue ` set ivs" "ivalue iv < n"
    and sv: "svalues s' = (svalues s)[ivalue iv := A]"
    and pl: "placed ks A iv"
    and dj: "\<And>jv. jv \<in> set ivs \<Longrightarrow> \<not> spilled A \<Longrightarrow> \<not> spilled (assigned s jv) \<Longrightarrow>
      reg (assigned s jv) = reg A \<Longrightarrow> iend jv < istart iv"
    and act: "\<And>jv. jv \<in> set ivs \<Longrightarrow> covered (istart iv) s' jv" "covered (istart iv) s' iv"
    and ar: "area A = None \<and> sareas s' = sareas s \<or> area A = Some (sareas s) \<and> sareas s' = Suc (sareas s)"
    and cs: "\<And>r. bit (scallee s') r \<longleftrightarrow> bit (scallee s) r \<or> (\<not> spilled A \<and> reg A = r \<and> is_callee_saved r)"
  shows "scan_inv ks n (istart iv) (ivs @ [iv]) s'"
proof -
  have n: "length (svalues s) = n"
    using inv by (simp add: scan_inv_def inv_frame_def)
  have old: "assigned s' jv = assigned s jv" if "jv \<in> set ivs" for jv
  proof -
    have "ivalue iv \<noteq> ivalue jv" using that fresh(1) by blast
    then show ?thesis using sv by (simp add: assigned_def)
  qed
  have new: "assigned s' iv = A"
    using fresh sv n by (simp add: assigned_def)
  have "inv_frame n (ivs @ [iv]) s'"
    using inv sv fresh by (auto simp: scan_inv_def inv_frame_def nth_list_update)
  moreover have "inv_placed ks (ivs @ [iv]) s'"
    using inv pl old new by (auto simp: scan_inv_def inv_placed_def)
  moreover have "inv_disjoint (ivs @ [iv]) s'"
    using inv dj old new by (auto simp: scan_inv_def inv_disjoint_def share_def disjoint_def)
  moreover have "inv_active (istart iv) (ivs @ [iv]) s'"
    using act by (auto simp: inv_active_def)
  moreover have "inv_areas (ivs @ [iv]) s'"
    using inv ar unfolding scan_inv_def inv_areas_def by (auto simp: old new dest: less_SucI)
  moreover have "inv_callee (ivs @ [iv]) s'"
    using inv cs by (auto simp: scan_inv_def inv_callee_def old new)
  ultimately show ?thesis
    by (simp add: scan_inv_def)
qed

lemma covered_expire:
  assumes "covered p s jv" "p \<le> q" and "svalues s' ! ivalue jv = svalues s ! ivalue jv"
    and "set (filter (\<lambda>a. \<not> aend a < q) (sactive s)) \<subseteq> set (sactive s')"
  shows "covered q s' jv"
  using assms by (fastforce simp: covered_def assigned_def)

lemma scan_step_inv:
  assumes inv: "scan_inv ks n p ivs s" and fresh: "ivalue iv \<notin> ivalue ` set ivs" "ivalue iv < n"
    and p: "p \<le> istart iv"
  shows "scan_inv ks n (istart iv) (ivs @ [iv]) (scan_step ks iv s)"
proof -
  let ?s = "s\<lparr>sactive := filter (\<lambda>a. \<not> aend a < istart iv) (sactive s)\<rparr>"
  have default: "svalues s ! ivalue iv = default_assignment" and n: "length (svalues s) = n"
    using inv fresh by (auto simp: scan_inv_def inv_frame_def)
  have ne: "ivalue iv \<noteq> ivalue jv" if "jv \<in> set ivs" for jv
    using that fresh(1) by blast
  have cov: "covered p s jv" if "jv \<in> set ivs" for jv
    using that inv by (simp add: scan_inv_def inv_active_def)
  show ?thesis
  proof (cases "pick_reg ks iv (sactive ?s)")
    case None
    then have step: "scan_step ks iv s = spill_step iv ?s"
      by (simp add: scan_step_def Let_def)
    show ?thesis unfolding step
    proof (rule scan_inv_extend [OF inv fresh])
      show "svalues (spill_step iv ?s) =
          (svalues s)[ivalue iv := default_assignment\<lparr>spilled := True, spill_index := sareas s\<rparr>]"
        by (simp add: spill_step_def default)
      show "covered (istart iv) (spill_step iv ?s) jv" if "jv \<in> set ivs" for jv
        by (rule covered_expire [OF cov [OF that] p]) (simp_all add: spill_step_def ne [OF that])
      show "covered (istart iv) (spill_step iv ?s) iv"
        using fresh n by (simp add: covered_def assigned_def spill_step_def)
    qed (simp_all add: placed_def area_def spill_step_def)
  next
    case (Some c)
    obtain r ns where c: "c = (r, ns)" by (cases c)
    note pick = pick_reg_Some [OF Some [unfolded c]]
    define A where "A = (if ns then default_assignment\<lparr>spilled := False, reg := r,
      save_around_calls := True, save_index := sareas s\<rparr> else default_assignment\<lparr>spilled := False, reg := r\<rparr>)"
    have A: "\<not> spilled A" "reg A = r" "save_around_calls A = ns" "area A = (if ns then Some (sareas s) else None)"
      by (simp_all add: A_def default_assignment_def area_def)
    let ?t = "scan_step ks iv s"
    have t: "svalues ?t = (svalues s)[ivalue iv := A]" "sareas ?t = (if ns then sareas s + 1 else sareas s)"
      "scallee ?t = (if \<not> is_xmm r \<and> is_callee_saved r then scallee s OR push_bit r 1 else scallee s)"
      "sactive ?t = sactive ?s @ [\<lparr>aend = iend iv, act_reg = r\<rparr>]"
      using Some by (simp_all add: scan_step_def Let_def c default A_def)
    show ?thesis
    proof (rule scan_inv_extend [OF inv fresh t(1)])
      show "placed ks A iv" using pick A by (simp add: placed_def)
      show "iend jv < istart iv" if "jv \<in> set ivs" "\<not> spilled (assigned s jv)" "reg (assigned s jv) = reg A" for jv
        using cov [OF that(1)] that(2,3) p A(2) pick by (fastforce simp: covered_def)
      show "covered (istart iv) ?t jv" if "jv \<in> set ivs" for jv
        by (rule covered_expire [OF cov [OF that] p]) (auto simp: t ne [OF that])
      show "covered (istart iv) ?t iv"
        using fresh n by (simp add: covered_def assigned_def t A)
      show "area A = None \<and> sareas ?t = sareas s \<or> area A = Some (sareas s) \<and> sareas ?t = Suc (sareas s)"
        by (simp add: A t)
      show "bit (scallee ?t) k \<longleftrightarrow> bit (scallee s) k \<or> (\<not> spilled A \<and> reg A = k \<and> is_callee_saved k)" for k
        using A by (auto simp: t bit_simps is_callee_saved_def is_xmm_def)
    qed
  qed
qed

lemma scan_fold_inv:
  assumes "scan_inv ks n p pre s" and "distinct (map ivalue (pre @ ivs))" and "\<forall>iv \<in> set ivs. ivalue iv < n"
    and "sorted (p # map istart ivs)"
  shows "\<exists>q. scan_inv ks n q (pre @ ivs) (fold (scan_step ks) ivs s)"
  using assms
proof (induction ivs arbitrary: pre p s)
  case (Cons iv ivs)
  have "scan_inv ks n (istart iv) (pre @ [iv]) (scan_step ks iv s)"
    using Cons.prems by (intro scan_step_inv) auto
  from Cons.IH [OF this] Cons.prems show ?case by auto
qed auto

lemma scan_linear_inv:
  assumes "distinct (map ivalue ivs)" "\<forall>iv \<in> set ivs. ivalue iv < n" "sorted (map istart ivs)"
  shows "\<exists>q. scan_inv ks n q ivs (scan Linear n ks ivs)"
  using scan_fold_inv [OF scan_inv_init, of ivs n ks] assms by (simp add: scan_def)

subsection \<open>The verifier after the scan\<close>

lemma interference_Nil:
  assumes "sorted (map istart ivs)" "distinct ivs" "\<forall>iv \<in> set ivs. istart iv \<le> iend iv"
    and "\<forall>a \<in> set ivs. \<forall>b \<in> set ivs. a \<noteq> b \<longrightarrow> disjoint a b"
  shows "interference nm r ivs = []"
  using assms
proof (induction nm r ivs rule: interference.induct)
  case (1 nm r a b ivs)
  then have "disjoint a b" "istart a \<le> istart b" "istart b \<le> iend b" by auto
  then have "\<not> iend a \<ge> istart b" by (auto simp: disjoint_def)
  with 1 show ?case by simp
qed simp_all

lemma set_by_reg:
  "iv \<in> set (by_reg vs ivs r) \<longleftrightarrow> iv \<in> set ivs \<and> \<not> spilled (vs ! ivalue iv) \<and> reg (vs ! ivalue iv) = r"
  by (auto simp: by_reg_def)

lemma verify_alloc_Nil:
  assumes inv: "scan_inv ks n q ivs s" and d: "distinct (map ivalue ivs)"
    and valid: "\<forall>iv \<in> set ivs. istart iv \<le> iend iv"
    and srt: "\<forall>r < 32. sorted (map kfrom (ks ! r))" and few: "length ivs \<le> UINT32_MAX"
  shows "verify_alloc nm ks (svalues s) ivs = []"
proof -
  have "spill_index (svalues s ! ivalue iv) \<noteq> UINT32_MAX"
    if iv: "iv \<in> set ivs" "spilled (svalues s ! ivalue iv)" for iv
  proof -
    have "area (assigned s iv) = Some (spill_index (svalues s ! ivalue iv))"
      using iv(2) by (simp add: area_def assigned_def)
    then have "spill_index (svalues s ! ivalue iv) < sareas s" "sareas s \<le> length ivs"
      using inv iv(1) by (auto simp: scan_inv_def inv_areas_def)
    then show ?thesis using few by simp
  qed
  then have sp: "spill_errors nm (svalues s) ivs = []"
    by (auto simp: spill_errors_def)
  have "reg_errors nm ks (svalues s) ivs r = []" if r: "r < 32" for r
  proof -
    let ?l = "by_reg (svalues s) ivs r"
    have "\<forall>a \<in> set ?l. \<forall>b \<in> set ?l. a \<noteq> b \<longrightarrow> disjoint a b"
      using inv by (auto simp: set_by_reg scan_inv_def inv_disjoint_def share_def assigned_def)
    moreover have "distinct ?l" "sorted (map istart ?l)"
      using d by (simp_all add: by_reg_def distinct_map)
    ultimately have i: "interference nm r ?l = []"
      using valid by (intro interference_Nil) (auto simp: set_by_reg)
    have "kill_errors nm r (svalues s ! ivalue iv) iv (ks ! r) = []" if iv: "iv \<in> set ?l" for iv
    proof -
      have "placed ks (assigned s iv) iv" "\<not> spilled (assigned s iv)" "reg (assigned s iv) = r"
        using iv inv by (auto simp: set_by_reg scan_inv_def inv_placed_def assigned_def)
      then have "kill_scan iv r (ks ! r) False = Some (save_around_calls (svalues s ! ivalue iv))"
        by (simp add: placed_def overlapping_kill_ok_def assigned_def)
      from kill_scan_Some [OF this] srt r show ?thesis
        by (intro kill_errors_Nil) auto
    qed
    with i show ?thesis by (simp add: reg_errors_def)
  qed
  with sp show ?thesis by (simp add: verify_alloc_def)
qed

subsection \<open>The intervals the scan is given\<close>

lemma length_record_ranges:
  "length (fst (fold (\<lambda>(v, pos). extend_range v pos) ps r)) = length (fst r)"
  "length (snd (fold (\<lambda>(v, pos). extend_range v pos) ps r)) = length (snd r)"
  by (induction ps arbitrary: r) (auto simp: extend_range_def split: prod.splits)

text \<open>Recording positions only widens a range, up to every recorded position.\<close>

lemma fold_extend_mono:
  assumes "v < length (fst r)" "v < length (snd r)"
  shows "fst (fold (\<lambda>(v, pos). extend_range v pos) ps r) ! v \<le> fst r ! v"
    "snd r ! v \<le> snd (fold (\<lambda>(v, pos). extend_range v pos) ps r) ! v"
proof -
  have "fst (fold (\<lambda>(v, pos). extend_range v pos) ps r) ! v \<le> fst r ! v \<and>
      snd r ! v \<le> snd (fold (\<lambda>(v, pos). extend_range v pos) ps r) ! v"
    using assms
  proof (induction ps arbitrary: r)
    case (Cons q ps)
    obtain w pos where q: "q = (w, pos)" by (cases q)
    have "fst (extend_range w pos r) ! v \<le> fst r ! v \<and> snd r ! v \<le> snd (extend_range w pos r) ! v"
      using Cons.prems by (cases r; cases "w = v") (auto simp: extend_range_def)
    moreover have "v < length (fst (extend_range w pos r))" "v < length (snd (extend_range w pos r))"
      using Cons.prems by (auto simp: extend_range_def split: prod.splits)
    ultimately show ?case
      using Cons.IH [of "extend_range w pos r"] by (simp add: q)
  qed simp
  then show "fst (fold (\<lambda>(v, pos). extend_range v pos) ps r) ! v \<le> fst r ! v"
    "snd r ! v \<le> snd (fold (\<lambda>(v, pos). extend_range v pos) ps r) ! v" by blast+
qed

lemma fold_extend_covers:
  assumes "(v, pos) \<in> set ps" "v < length (fst r)" "v < length (snd r)"
  shows "fst (fold (\<lambda>(v, pos). extend_range v pos) ps r) ! v \<le> pos"
    "pos \<le> snd (fold (\<lambda>(v, pos). extend_range v pos) ps r) ! v"
proof -
  from assms(1) obtain xs ys where ps: "ps = xs @ (v, pos) # ys" by (meson split_list)
  define r1 where "r1 = fold (\<lambda>(v, pos). extend_range v pos) xs r"
  have l: "v < length (fst r1)" "v < length (snd r1)"
    using assms(2,3) length_record_ranges [of xs r] by (simp_all add: r1_def)
  have e: "fst (extend_range v pos r1) ! v \<le> pos" "pos \<le> snd (extend_range v pos r1) ! v"
    "v < length (fst (extend_range v pos r1))" "v < length (snd (extend_range v pos r1))"
    using l by (auto simp: extend_range_def split: prod.splits)
  show "fst (fold (\<lambda>(v, pos). extend_range v pos) ps r) ! v \<le> pos"
    "pos \<le> snd (fold (\<lambda>(v, pos). extend_range v pos) ps r) ! v"
    using fold_extend_mono [OF e(3,4), of ys] e(1,2) by (simp_all add: ps r1_def)
qed

lemma record_ranges_covers:
  assumes "(v, pos) \<in> set ps" "v < n"
  shows "fst (record_ranges n ps) ! v \<le> pos \<and> pos \<le> snd (record_ranges n ps) ! v"
  using fold_extend_covers [OF assms(1), of "(replicate n UINT32_MAX, replicate n 0)"] assms(2)
  by (simp add: record_ranges_def)

text \<open>A value with no recorded position keeps the initial, absent range.\<close>

lemma fold_extend_absent:
  assumes "v \<notin> fst ` set ps"
  shows "fst (fold (\<lambda>(v, pos). extend_range v pos) ps r) ! v = fst r ! v"
  using assms by (induction ps arbitrary: r) (auto simp: extend_range_def split: prod.splits)

lemma record_ranges_valid:
  assumes "v < n" "fst (record_ranges n ps) ! v \<noteq> UINT32_MAX"
  shows "fst (record_ranges n ps) ! v \<le> snd (record_ranges n ps) ! v"
proof -
  have "v \<in> fst ` set ps"
    using assms fold_extend_absent [of v ps "(replicate n UINT32_MAX, replicate n 0)"]
    by (auto simp: record_ranges_def)
  then obtain pos where "(v, pos) \<in> set ps" by auto
  from record_ranges_covers [OF this assms(1)] show ?thesis by linarith
qed

lemma make_interval_simps [simp]:
  "ivalue (make_interval fn cs r v) = v" "istart (make_interval fn cs r v) = fst r ! v"
  "iend (make_interval fn cs r v) = snd r ! v"
  "iv_float (make_interval fn cs r v) = is_float (vd_type (vals fn ! v))"
  by (simp_all add: make_interval_def Let_def)

lemma build_intervals_ok:
  assumes "build_intervals fn = Some ivs"
  shows "distinct (map ivalue ivs)" "\<forall>iv \<in> set ivs. ivalue iv < length (vals fn)"
    "sorted (map istart ivs)" "\<forall>iv \<in> set ivs. istart iv \<le> iend iv" "length ivs \<le> length (vals fn)"
proof -
  let ?n = "length (vals fn)"
  from assms obtain ps where "ivs = sort_key (\<lambda>iv. (istart iv, ivalue iv))
      (map (make_interval fn (call_indices fn) (record_ranges ?n ps))
        (filter (\<lambda>v. fst (record_ranges ?n ps) ! v \<noteq> UINT32_MAX) [0..<?n]))"
    by (auto simp: build_intervals_def Let_def)
  define f where "f = make_interval fn (call_indices fn) (record_ranges ?n ps)"
  define vs where "vs = filter (\<lambda>v. fst (record_ranges ?n ps) ! v \<noteq> UINT32_MAX) [0..<?n]"
  have ivs: "ivs = sort_key (\<lambda>iv. (istart iv, ivalue iv)) (map f vs)"
    using \<open>ivs = _\<close> by (simp add: f_def vs_def)
  have "map ivalue (map f vs) = vs"
    by (simp add: f_def comp_def)
  moreover have "distinct vs" by (simp add: vs_def)
  moreover have "mset (map ivalue ivs) = mset (map ivalue (map f vs))"
    by (simp add: ivs image_mset.compositionality)
  ultimately show "distinct (map ivalue ivs)"
    by (metis mset_eq_imp_distinct_iff)
  show "\<forall>iv \<in> set ivs. ivalue iv < ?n"
    by (auto simp: ivs f_def vs_def)
  have "sorted (map (\<lambda>iv. (istart iv, ivalue iv)) ivs)"
    by (simp add: ivs)
  then have "sorted (map fst (map (\<lambda>iv. (istart iv, ivalue iv)) ivs))"
    unfolding sorted_iff_nth_mono by (fastforce simp: less_eq_prod_def)
  then show "sorted (map istart ivs)"
    by (simp add: comp_def)
  show "\<forall>iv \<in> set ivs. istart iv \<le> iend iv"
    using record_ranges_valid by (auto simp: ivs f_def vs_def)
  show "length ivs \<le> ?n"
    using length_filter_le [of "\<lambda>v. fst (record_ranges ?n ps) ! v \<noteq> UINT32_MAX" "[0..<?n]"]
    by (simp add: ivs vs_def)
qed

lemma length_kill [simp]: "length (kill r f t c ks) = length ks"
  by (simp add: kill_def)

lemma length_kill_all [simp]: "length (kill_all rs f t c ks) = length ks"
  unfolding kill_all_def by (induction rs arbitrary: ks) simp_all

lemma length_inst_kills [simp]: "length (inst_kills m i k ks) = length ks"
  by (simp add: inst_kills_def Let_def)

lemma length_block_kills [simp]: "length (block_kills m sb ks) = length ks"
proof -
  have "length (fold (\<lambda>(k, i). inst_kills m i k) kis ks) = length ks" for kis
    by (induction kis arbitrary: ks) auto
  then show ?thesis by (cases sb) (simp add: block_kills_def)
qed

lemma length_build_kills [simp]: "length (build_kills m fn) = 32"
proof -
  have "length (fold (block_kills m) sbs ks) = length ks" for sbs ks
    by (induction sbs arbitrary: ks) simp_all
  then show ?thesis by (simp add: build_kills_def)
qed

lemma build_kills_sorted: "r < 32 \<Longrightarrow> sorted (map kfrom (build_kills m fn ! r))"
  using length_build_kills [of m fn] by (simp add: build_kills_def)

text \<open>What the allocator returns is a scan of well-formed intervals.\<close>

lemma allocate_inv:
  assumes "allocate m fn Linear = Some res"
  obtains q s where "scan_inv (build_kills m fn) (length (vals fn)) q (intervals res) s"
    "rvalues res = svalues s" "spill_area_count res = sareas s" "used_callee_saved res = scallee s"
    "errors res = verify_alloc (fname fn) (build_kills m fn) (svalues s) (intervals res)"
    "build_intervals fn = Some (intervals res)"
proof -
  from assms obtain ivs where ivs: "build_intervals fn = Some ivs"
    and res: "res = (let s = scan Linear (length (vals fn)) (build_kills m fn) ivs
       in \<lparr>rvalues = svalues s, intervals = ivs, spill_area_count = sareas s, used_callee_saved = scallee s,
           errors = verify_alloc (fname fn) (build_kills m fn) (svalues s) ivs\<rparr>)"
    by (auto simp: allocate_def Let_def)
  obtain q where "scan_inv (build_kills m fn) (length (vals fn)) q ivs
      (scan Linear (length (vals fn)) (build_kills m fn) ivs)"
    using scan_linear_inv [OF build_intervals_ok(1-3) [OF ivs]] by blast
  then show thesis
    using that [of q "scan Linear (length (vals fn)) (build_kills m fn) ivs"] res ivs by (simp add: Let_def)
qed

end
