(* ===== verification/X86_Liveness.thy ===== *)
theory X86_Liveness
  imports X86_Regalloc
begin

text \<open>
  The liveness analysis of the register allocator: the iteration reaches a fixpoint, the fixpoint
  solves the data-flow equations, and a value used along some path of the control-flow graph before
  it is redefined is live at the start of that path.
\<close>

subsection \<open>Well-sized states and their order\<close>

definition live_ok :: "nat \<Rightarrow> nat \<Rightarrow> liveness \<Rightarrow> bool" where
  "live_ok w k l \<longleftrightarrow>
     length (live_in l) = k \<and> length (live_out l) = k \<and>
     (\<forall>b < k. length (live_in l ! b) = w \<and> length (live_out l ! b) = w)"

abbreviation ins :: "liveness \<Rightarrow> nat \<Rightarrow> nat set" where
  "ins l b \<equiv> bs_abs (live_in l ! b)"

abbreviation outs :: "liveness \<Rightarrow> nat \<Rightarrow> nat set" where
  "outs l b \<equiv> bs_abs (live_out l ! b)"

definition live_le :: "nat \<Rightarrow> liveness \<Rightarrow> liveness \<Rightarrow> bool" where
  "live_le k l l' \<longleftrightarrow> (\<forall>b < k. ins l b \<subseteq> ins l' b \<and> outs l b \<subseteq> outs l' b)"

lemma live_le_refl [simp]: "live_le k l l"
  by (simp add: live_le_def)

lemma live_le_trans: "live_le k l l' \<Longrightarrow> live_le k l' l'' \<Longrightarrow> live_le k l l''"
  unfolding live_le_def by blast

lemma live_le_antisym:
  assumes "live_ok w k l" "live_ok w k l'" "live_le k l l'" "live_le k l' l"
  shows "l' = l"
proof -
  have "live_in l' ! b = live_in l ! b \<and> live_out l' ! b = live_out l ! b" if "b < k" for b
    using assms that bs_abs_inject [of "live_in l' ! b" "live_in l ! b"]
      bs_abs_inject [of "live_out l' ! b" "live_out l ! b"]
    by (auto simp: live_ok_def live_le_def)
  then have "live_in l' = live_in l" "live_out l' = live_out l"
    using assms(1,2) by (auto simp: live_ok_def intro: nth_equalityI)
  then show ?thesis by (cases l; cases l') simp
qed

text \<open>The number of members, which every effective step increases.\<close>

definition members :: "nat \<Rightarrow> liveness \<Rightarrow> nat" where
  "members k l = (\<Sum>b < k. card (ins l b) + card (outs l b))"

lemma members_less:
  assumes "live_ok w k l" "live_ok w k l'" "live_le k l l'" "l' \<noteq> l"
  shows "members k l < members k l'"
proof -
  have "\<not> live_le k l' l"
    using live_le_antisym [OF assms(1-3)] assms(4) by blast
  then obtain b where b: "b < k" "\<not> (ins l' b \<subseteq> ins l b \<and> outs l' b \<subseteq> outs l b)"
    by (auto simp: live_le_def)
  have le: "card (ins l c) \<le> card (ins l' c)" "card (outs l c) \<le> card (outs l' c)" if "c < k" for c
    using that assms(3) by (simp_all add: live_le_def card_mono)
  have "ins l b \<subset> ins l' b \<or> outs l b \<subset> outs l' b"
    using b assms(3) by (auto simp: live_le_def)
  then have "card (ins l b) < card (ins l' b) \<or> card (outs l b) < card (outs l' b)"
    by (auto intro: psubset_card_mono)
  then have "card (ins l b) + card (outs l b) < card (ins l' b) + card (outs l' b)"
    using le [OF b(1)] by linarith
  then show ?thesis
    unfolding members_def using b(1) le by (intro sum_strict_mono_ex1) (auto intro: add_mono)
qed

lemma members_bound:
  assumes "live_ok w k l"
  shows "members k l \<le> k * (128 * w)"
proof -
  have "card (bs_abs ws) \<le> 64 * length ws" for ws
    using card_mono [of "{..< 64 * length ws}" "bs_abs ws"] by (auto simp: bs_abs_def)
  then have "card (ins l b) + card (outs l b) \<le> 128 * w" if "b < k" for b
    using that assms unfolding live_ok_def by (smt (verit, best) add_mono mult_2 mult.assoc numeral_Bit0 mult_2_right)
  then have "members k l \<le> (\<Sum>b < k. 128 * w)"
    unfolding members_def by (intro sum_mono) simp
  then show ?thesis by simp
qed

subsection \<open>Each step grows the state and reports whether it did\<close>

definition grows :: "nat \<Rightarrow> nat \<Rightarrow> liveness \<times> bool \<Rightarrow> liveness \<times> bool \<Rightarrow> bool" where
  "grows w k s s' \<longleftrightarrow>
     live_ok w k (fst s') \<and> live_le k (fst s) (fst s') \<and> (snd s' \<longleftrightarrow> snd s \<or> fst s' \<noteq> fst s)"

lemma grows_refl: "live_ok w k (fst s) \<Longrightarrow> grows w k s s"
  by (simp add: grows_def)

lemma grows_trans:
  assumes "live_ok w k (fst s)" "grows w k s s'" "grows w k s' s''"
  shows "grows w k s s''"
proof -
  have "fst s' = fst s" if "fst s'' = fst s"
    using assms that live_le_antisym [of w k "fst s" "fst s'"] by (auto simp: grows_def)
  then show ?thesis
    using assms live_le_trans [of k "fst s" "fst s'" "fst s''"] by (auto simp: grows_def)
qed

lemma fold_grows:
  assumes "\<And>x s. x \<in> set xs \<Longrightarrow> live_ok w k (fst s) \<Longrightarrow> grows w k s (f x s)" and "live_ok w k (fst s)"
  shows "grows w k s (fold f xs s)"
  using assms
proof (induction xs arbitrary: s)
  case (Cons x xs)
  have "grows w k s (f x s)" using Cons.prems by simp
  moreover from this have "grows w k (f x s) (fold f xs (f x s))"
    using Cons.prems by (intro Cons.IH) (auto simp: grows_def)
  ultimately show ?case
    using grows_trans Cons.prems(2) by fastforce
qed (simp add: grows_refl)

text \<open>A fold that ends unchanged was unchanged at every step.\<close>

lemma fold_unchanged:
  assumes "\<And>x s. x \<in> set xs \<Longrightarrow> live_ok w k (fst s) \<Longrightarrow> grows w k s (f x s)" and "live_ok w k l"
    and "\<not> snd (fold f xs (l, False))" and "x \<in> set xs"
  shows "f x (l, False) = (l, False)"
  using assms
proof (induction xs)
  case (Cons y ys)
  have y: "grows w k (l, False) (f y (l, False))" using Cons.prems by simp
  then have "grows w k (f y (l, False)) (fold f ys (f y (l, False)))"
    using Cons.prems(1) by (intro fold_grows) (auto simp: grows_def)
  then have "\<not> snd (f y (l, False))"
    using Cons.prems(3) by (auto simp: grows_def)
  with y have "f y (l, False) = (l, False)"
    by (cases "f y (l, False)") (auto simp: grows_def)
  then show ?case
    using Cons by auto
qed simp

text \<open>The sizes of the block-local sets and the range of the successors.\<close>

definition flow_ok :: "nat \<Rightarrow> (bitset \<times> bitset) list \<Rightarrow> block_id list list \<Rightarrow> bool" where
  "flow_ok w gd succs \<longleftrightarrow>
     length succs = length gd \<and>
     (\<forall>b < length gd. length (fst (gd ! b)) = w \<and> length (snd (gd ! b)) = w \<and>
        (\<forall>s \<in> set (succs ! b). s < length gd))"

lemma live_set_out:
  assumes "live_ok w k l" "b < k" "length out = w"
  shows "live_ok w k (l\<lparr>live_out := (live_out l)[b := out]\<rparr>)"
  using assms by (auto simp: live_ok_def nth_list_update)

lemma live_set_in:
  assumes "live_ok w k l" "b < k" "length inn = w"
  shows "live_ok w k (l\<lparr>live_in := (live_in l)[b := inn]\<rparr>)"
  using assms by (auto simp: live_ok_def nth_list_update)

lemma merge_succ_grows:
  assumes "live_ok w k (fst s)" "b < k" "t < k"
  shows "grows w k s (merge_succ b t s)"
proof -
  obtain l c where s: "s = (l, c)" by (cases s)
  let ?out = "live_out l ! b" and ?in = "live_in l ! t"
  have len: "length ?out = w" "length ?in = w" "b < length (live_out l)"
    using assms by (auto simp: s live_ok_def)
  note m = bs_merge_words [of ?out ?in] bs_abs_merge [of ?out ?in]
  have "(live_out l)[b := fst (bs_merge ?out ?in)] = live_out l \<longleftrightarrow> fst (bs_merge ?out ?in) = ?out"
    using len(3) by (metis list_update_id nth_list_update_eq)
  then have "l\<lparr>live_out := (live_out l)[b := fst (bs_merge ?out ?in)]\<rparr> \<noteq> l \<longleftrightarrow> snd (bs_merge ?out ?in)"
    using m(3) len by (cases l) simp
  moreover have "live_ok w k (l\<lparr>live_out := (live_out l)[b := fst (bs_merge ?out ?in)]\<rparr>)"
    using assms m(1) len by (intro live_set_out) (simp_all add: s)
  moreover have "live_le k l (l\<lparr>live_out := (live_out l)[b := fst (bs_merge ?out ?in)]\<rparr>)"
    using m(4) len by (auto simp: live_le_def nth_list_update)
  ultimately show ?thesis
    by (auto simp: grows_def merge_succ_def s case_prod_beta)
qed

definition live_finish :: "(bitset \<times> bitset) list \<Rightarrow> block_id \<Rightarrow> liveness \<times> bool \<Rightarrow> liveness \<times> bool" where
  "live_finish gd b s =
     (let (l, changed) = s;
          inn = bs_transfer (fst (gd ! b)) (live_out l ! b) (snd (gd ! b));
          (inn', c) = bs_merge (live_in l ! b) inn
      in (l\<lparr>live_in := (live_in l)[b := inn']\<rparr>, changed \<or> c))"

lemma live_block_split: "live_block gd succs b s = live_finish gd b (fold (merge_succ b) (succs ! b) s)"
  by (simp add: live_block_def live_finish_def Let_def case_prod_beta)

lemma live_finish_grows:
  assumes "live_ok w k (fst s)" "b < k" "length (fst (gd ! b)) = w" "length (snd (gd ! b)) = w"
  shows "grows w k s (live_finish gd b s)"
proof -
  obtain l c where s: "s = (l, c)" by (cases s)
  let ?new = "bs_transfer (fst (gd ! b)) (live_out l ! b) (snd (gd ! b))" and ?in = "live_in l ! b"
  have len: "length ?in = w" "length ?new = w" "b < length (live_in l)"
    using assms by (auto simp: s live_ok_def bs_transfer_words)
  note m = bs_merge_words [of ?in ?new] bs_abs_merge [of ?in ?new]
  have "(live_in l)[b := fst (bs_merge ?in ?new)] = live_in l \<longleftrightarrow> fst (bs_merge ?in ?new) = ?in"
    using len(3) by (metis list_update_id nth_list_update_eq)
  then have "l\<lparr>live_in := (live_in l)[b := fst (bs_merge ?in ?new)]\<rparr> \<noteq> l \<longleftrightarrow> snd (bs_merge ?in ?new)"
    using m(3) len by (cases l) simp
  moreover have "live_ok w k (l\<lparr>live_in := (live_in l)[b := fst (bs_merge ?in ?new)]\<rparr>)"
    using assms m(1) len by (intro live_set_in) (simp_all add: s)
  moreover have "live_le k l (l\<lparr>live_in := (live_in l)[b := fst (bs_merge ?in ?new)]\<rparr>)"
    using m(4) len by (auto simp: live_le_def nth_list_update)
  ultimately show ?thesis
    by (auto simp: grows_def live_finish_def s case_prod_beta)
qed

lemma live_block_grows:
  assumes f: "flow_ok w gd succs" and "live_ok w (length gd) (fst s)" "b < length gd"
  shows "grows w (length gd) s (live_block gd succs b s)"
proof -
  have succs: "\<And>t. t \<in> set (succs ! b) \<Longrightarrow> t < length gd" "length (fst (gd ! b)) = w" "length (snd (gd ! b)) = w"
    using f assms(3) by (auto simp: flow_ok_def)
  have 1: "grows w (length gd) s (fold (merge_succ b) (succs ! b) s)"
    using succs(1) assms(2,3) by (intro fold_grows merge_succ_grows) auto
  then have "grows w (length gd) (fold (merge_succ b) (succs ! b) s) (live_block gd succs b s)"
    unfolding live_block_split using succs assms(3) by (intro live_finish_grows) (auto simp: grows_def)
  with 1 show ?thesis
    using grows_trans assms(2) by blast
qed

lemma live_round_grows:
  assumes "flow_ok w gd succs" "live_ok w (length gd) l"
  shows "grows w (length gd) (l, False) (live_round gd succs l)"
  unfolding live_round_def
  using assms by (intro fold_grows live_block_grows) auto

subsection \<open>The fixpoint\<close>

definition closed_flow :: "(bitset \<times> bitset) list \<Rightarrow> block_id list list \<Rightarrow> liveness \<Rightarrow> bool" where
  "closed_flow gd succs l \<longleftrightarrow>
     (\<forall>b < length gd. (\<forall>t \<in> set (succs ! b). ins l t \<subseteq> outs l b) \<and>
        bs_abs (fst (gd ! b)) \<union> (outs l b - bs_abs (snd (gd ! b))) \<subseteq> ins l b)"

lemma merge_unchanged:
  assumes "merge_succ b t (l, False) = (l, False)" "length (live_out l ! b) = length (live_in l ! t)"
  shows "ins l t \<subseteq> outs l b"
  using assms bs_merge_changed [OF assms(2)] by (auto simp: merge_succ_def case_prod_beta)

lemma finish_unchanged:
  assumes "live_finish gd b (l, False) = (l, False)"
    and "length (fst (gd ! b)) = length (live_out l ! b)" "length (live_out l ! b) = length (snd (gd ! b))"
    and "length (live_in l ! b) = length (live_out l ! b)"
  shows "bs_abs (fst (gd ! b)) \<union> (outs l b - bs_abs (snd (gd ! b))) \<subseteq> ins l b"
proof -
  let ?new = "bs_transfer (fst (gd ! b)) (live_out l ! b) (snd (gd ! b))"
  have "length (live_in l ! b) = length ?new"
    using assms(2-4) by (simp add: bs_transfer_words)
  then show ?thesis
    using assms(1) bs_merge_changed [of "live_in l ! b" ?new] bs_abs_transfer [OF assms(2,3)]
    by (auto simp: live_finish_def case_prod_beta)
qed

lemma round_unchanged_closed:
  assumes f: "flow_ok w gd succs" and l: "live_ok w (length gd) l" and u: "\<not> snd (live_round gd succs l)"
  shows "closed_flow gd succs l"
  unfolding closed_flow_def
proof (intro allI impI)
  fix b assume b: "b < length gd"
  have sizes: "length (live_out l ! b) = w" "length (live_in l ! b) = w" "length (fst (gd ! b)) = w"
    "length (snd (gd ! b)) = w"
    using f l b by (simp_all add: flow_ok_def live_ok_def)
  have succ: "t < length gd" "length (live_in l ! t) = w" if "t \<in> set (succs ! b)" for t
    using f l b that by (auto simp: flow_ok_def live_ok_def)
  have blk: "live_block gd succs b (l, False) = (l, False)"
    using u b by (intro fold_unchanged [OF live_block_grows [OF f] l]) (auto simp: live_round_def)
  let ?s = "fold (merge_succ b) (succs ! b) (l, False)"
  have g: "grows w (length gd) (l, False) ?s"
    using succ l b by (intro fold_grows merge_succ_grows) auto
  then have "grows w (length gd) ?s (l, False)"
    using live_finish_grows [of w "length gd" ?s b gd] sizes b blk
    by (simp add: live_block_split grows_def)
  then have "\<not> snd ?s" "fst ?s = l"
    using g live_le_antisym [of w "length gd" l "fst ?s"] l by (auto simp: grows_def)
  then have s: "?s = (l, False)" by (cases ?s) simp
  have "merge_succ b t (l, False) = (l, False)" if "t \<in> set (succs ! b)" for t
    using that succ l b s
    by (intro fold_unchanged [where xs = "succs ! b" and w = w and k = "length gd"] merge_succ_grows) auto
  then have "\<forall>t \<in> set (succs ! b). ins l t \<subseteq> outs l b"
    using merge_unchanged sizes succ by auto
  moreover have "bs_abs (fst (gd ! b)) \<union> (outs l b - bs_abs (snd (gd ! b))) \<subseteq> ins l b"
    using blk s sizes by (intro finish_unchanged) (simp_all add: live_block_split)
  ultimately show "(\<forall>t \<in> set (succs ! b). ins l t \<subseteq> outs l b) \<and>
      bs_abs (fst (gd ! b)) \<union> (outs l b - bs_abs (snd (gd ! b))) \<subseteq> ins l b" ..
qed

text \<open>
  A value is exposed at a block when some path from the block's start uses it before redefining it.
\<close>

inductive exposed :: "(bitset \<times> bitset) list \<Rightarrow> block_id list list \<Rightarrow> value_id \<Rightarrow> block_id \<Rightarrow> bool"
  for gd :: "(bitset \<times> bitset) list" and succs :: "block_id list list" and v :: value_id
  where
  exposed_use: "v \<in> bs_abs (fst (gd ! b)) \<Longrightarrow> exposed gd succs v b"
| exposed_step: "v \<notin> bs_abs (snd (gd ! b)) \<Longrightarrow> t \<in> set (succs ! b) \<Longrightarrow> exposed gd succs v t \<Longrightarrow>
    exposed gd succs v b"

lemma closed_succ: "closed_flow gd succs l \<Longrightarrow> b < length gd \<Longrightarrow> t \<in> set (succs ! b) \<Longrightarrow> ins l t \<subseteq> outs l b"
  by (simp add: closed_flow_def)

lemma closed_block:
  "closed_flow gd succs l \<Longrightarrow> b < length gd \<Longrightarrow>
     bs_abs (fst (gd ! b)) \<subseteq> ins l b \<and> outs l b - bs_abs (snd (gd ! b)) \<subseteq> ins l b"
  by (simp add: closed_flow_def)

lemma closed_flow_exposed:
  assumes "exposed gd succs v b" "closed_flow gd succs l" "flow_ok w gd succs" "b < length gd"
  shows "v \<in> ins l b"
  using assms
proof (induction rule: exposed.induct)
  case (exposed_step b t)
  then have "t < length gd" by (auto simp: flow_ok_def)
  with exposed_step have "v \<in> ins l t" by simp
  with closed_succ [of gd succs l b t] closed_block [of gd succs l b] exposed_step show ?case by blast
qed (use closed_block in blast)

text \<open>Conversely the iteration never adds a value that is not exposed.\<close>

definition only_exposed :: "nat \<Rightarrow> (bitset \<times> bitset) list \<Rightarrow> block_id list list \<Rightarrow> liveness \<Rightarrow> bool" where
  "only_exposed w gd succs l \<longleftrightarrow>
     live_ok w (length gd) l \<and>
     (\<forall>b < length gd. (\<forall>v \<in> ins l b. exposed gd succs v b) \<and>
        (\<forall>v \<in> outs l b. \<exists>t \<in> set (succs ! b). exposed gd succs v t))"

lemma merge_only_exposed:
  assumes f: "flow_ok w gd succs" and b: "b < length gd" and t: "t \<in> set (succs ! b)"
    and s: "only_exposed w gd succs (fst s)"
  shows "only_exposed w gd succs (fst (merge_succ b t s))"
proof -
  obtain l c where sl: "s = (l, c)" by (cases s)
  have tk: "t < length gd" using f b t by (auto simp: flow_ok_def)
  have ok: "live_ok w (length gd) l" using s by (simp add: sl only_exposed_def)
  then have len: "length (live_out l ! b) = length (live_in l ! t)" "b < length (live_out l)"
    using b tk by (auto simp: live_ok_def)
  have "live_ok w (length gd) (fst (merge_succ b t s))"
    using merge_succ_grows [of w "length gd" s b t] ok b tk by (simp add: sl grows_def)
  moreover have "fst (merge_succ b t s) =
      l\<lparr>live_out := (live_out l)[b := fst (bs_merge (live_out l ! b) (live_in l ! t))]\<rparr>"
    by (simp add: sl merge_succ_def case_prod_beta)
  ultimately show ?thesis
    using s t tk bs_abs_merge [OF len(1)] len(2)
    by (auto simp: sl only_exposed_def nth_list_update split: if_splits)
qed

lemma finish_only_exposed:
  assumes f: "flow_ok w gd succs" and b: "b < length gd" and s: "only_exposed w gd succs (fst s)"
  shows "only_exposed w gd succs (fst (live_finish gd b s))"
proof -
  obtain l c where sl: "s = (l, c)" by (cases s)
  let ?new = "bs_transfer (fst (gd ! b)) (live_out l ! b) (snd (gd ! b))"
  have ok: "live_ok w (length gd) l" using s by (simp add: sl only_exposed_def)
  then have len: "length (fst (gd ! b)) = length (live_out l ! b)" "length (live_out l ! b) = length (snd (gd ! b))"
    "length (live_in l ! b) = length ?new" "b < length (live_in l)"
    using b f by (auto simp: live_ok_def flow_ok_def bs_transfer_words)
  have "live_ok w (length gd) (fst (live_finish gd b s))"
    using live_finish_grows [of w "length gd" s b gd] ok b f by (simp add: sl grows_def flow_ok_def)
  moreover have "fst (live_finish gd b s) = l\<lparr>live_in := (live_in l)[b := fst (bs_merge (live_in l ! b) ?new)]\<rparr>"
    by (simp add: sl live_finish_def Let_def case_prod_beta)
  moreover have "exposed gd succs v b" if "v \<in> bs_abs ?new" for v
  proof -
    have "v \<in> outs l b \<Longrightarrow> \<exists>t \<in> set (succs ! b). exposed gd succs v t"
      using s b by (simp add: sl only_exposed_def)
    moreover have "v \<in> bs_abs (fst (gd ! b)) \<or> (v \<in> outs l b \<and> v \<notin> bs_abs (snd (gd ! b)))"
      using that bs_abs_transfer [OF len(1,2)] by blast
    ultimately show ?thesis
      using exposed_use exposed_step by metis
  qed
  ultimately show ?thesis
    using s bs_abs_merge [OF len(3)] len(4)
    by (auto simp: sl only_exposed_def nth_list_update split: if_splits)
qed

lemma round_only_exposed:
  assumes f: "flow_ok w gd succs" and "only_exposed w gd succs l"
  shows "only_exposed w gd succs (fst (live_round gd succs l))"
proof -
  have "only_exposed w gd succs (fst (live_block gd succs b s))"
    if "b < length gd" "only_exposed w gd succs (fst s)" for b s
  proof -
    have "only_exposed w gd succs (fst (fold (merge_succ b) (succs ! b) s))"
      by (rule fold_invariant [where Q = "\<lambda>t. t \<in> set (succs ! b)" and P = "\<lambda>s. only_exposed w gd succs (fst s)"])
         (use that merge_only_exposed [OF f that(1)] in auto)
    then show ?thesis
      using finish_only_exposed [OF f that(1)] by (simp add: live_block_split)
  qed
  then show ?thesis
    unfolding live_round_def using assms(2)
    by (intro fold_invariant [where Q = "\<lambda>b. b < length gd" and P = "\<lambda>s. only_exposed w gd succs (fst s)"]) auto
qed

lemma live_init_ok: "live_ok ((n + 63) div 64) k (live_init n k)"
  by (simp add: live_ok_def live_init_def bs_new_def)

lemma live_init_exposed: "only_exposed ((n + 63) div 64) gd succs (live_init n (length gd))"
  using live_init_ok [of n "length gd"] by (simp add: only_exposed_def live_init_def bs_abs_new)

lemma liveness_returns:
  assumes "flow_ok ((n + 63) div 64) gd succs"
  shows "\<exists>l. liveness n gd succs = Some l \<and> live_ok ((n + 63) div 64) (length gd) l \<and>
    closed_flow gd succs l \<and> only_exposed ((n + 63) div 64) gd succs l"
proof -
  define w k where wk: "w = (n + 63) div 64" "k = length gd"
  define P where "P = (\<lambda>s :: liveness \<times> bool. only_exposed w gd succs (fst s) \<and>
    (\<not> snd s \<longrightarrow> closed_flow gd succs (fst s)))"
  define f where "f = (\<lambda>s :: liveness \<times> bool. 2 * (k * (128 * w) - members k (fst s)) + of_bool (snd s))"
  let ?c = "\<lambda>(l, _ :: bool). live_round gd succs l" and ?s = "(live_init n (length gd), True)"
  have step: "P (?c s) \<and> f (?c s) < f s" if "P s" "snd s" for s
  proof -
    have o: "only_exposed w gd succs (fst s)" and ok: "live_ok w k (fst s)"
      using that(1) by (simp_all add: P_def only_exposed_def wk)
    have g: "grows w k (fst s, False) (live_round gd succs (fst s))"
      using live_round_grows assms ok wk by blast
    have "P (?c s)"
      using round_only_exposed [of w, OF _ o] round_unchanged_closed [of w gd succs "fst s"] assms ok g wk
      by (auto simp: P_def case_prod_beta grows_def)
    moreover have "f (?c s) < f s"
    proof (cases "snd (live_round gd succs (fst s))")
      case True
      then have "members k (fst s) < members k (fst (live_round gd succs (fst s)))"
        using g members_less [OF ok] by (auto simp: grows_def)
      moreover have "members k (fst (live_round gd succs (fst s))) \<le> k * (128 * w)"
        using g members_bound by (auto simp: grows_def)
      ultimately show ?thesis
        using that(2) True by (simp add: f_def case_prod_beta)
    next
      case False
      then show ?thesis
        using that(2) g by (simp add: f_def case_prod_beta grows_def)
    qed
    ultimately show ?thesis ..
  qed
  have init: "P ?s" using live_init_exposed [of n gd succs] by (simp add: P_def wk)
  obtain s where s: "while_option snd ?c ?s = Some s"
    using measure_while_option_Some [of P snd ?c f, OF step init] by blast
  have "P s"
    using while_option_rule [where P = P, OF _ s init] step by blast
  moreover have "\<not> snd s" using while_option_stop [OF s] .
  ultimately show ?thesis
    using s by (simp add: liveness_def P_def only_exposed_def wk)
qed

lemma liveness_exact:
  assumes "flow_ok ((n + 63) div 64) gd succs" "liveness n gd succs = Some l" "b < length gd"
  shows "v \<in> ins l b \<longleftrightarrow> exposed gd succs v b"
    and "v \<in> outs l b \<longleftrightarrow> (\<exists>t \<in> set (succs ! b). exposed gd succs v t)"
proof -
  have c: "closed_flow gd succs l" "only_exposed ((n + 63) div 64) gd succs l"
    using liveness_returns [OF assms(1)] assms(2) by auto
  show i: "v \<in> ins l b \<longleftrightarrow> exposed gd succs v b"
    using c closed_flow_exposed [OF _ c(1) assms(1,3)] assms(3) by (auto simp: only_exposed_def)
  have "v \<in> outs l b" if "t \<in> set (succs ! b)" "exposed gd succs v t" for t
  proof -
    have "t < length gd" using assms(1,3) that(1) by (auto simp: flow_ok_def)
    then have "v \<in> ins l t" using closed_flow_exposed [OF that(2) c(1) assms(1)] by simp
    then show ?thesis using closed_succ [OF c(1) assms(3) that(1)] by blast
  qed
  then show "v \<in> outs l b \<longleftrightarrow> (\<exists>t \<in> set (succs ! b). exposed gd succs v t)"
    using c(2) assms(3) by (auto simp: only_exposed_def)
qed

end
