(* ===== verification/X86_Alloc.thy ===== *)
theory X86_Alloc
  imports X86_Scan X86_Liveness Mir_Example
begin

text \<open>
  The allocator as a whole: a path-based reading of liveness at every program point, the coverage of
  each such point by the value's interval, and the correctness of the register assignment for
  values that are live together.
\<close>

subsection \<open>Block-local uses and definitions\<close>

definition results :: "inst \<Rightarrow> value_id set" where
  "results i = (if result i \<noteq> NO_VALUE then {result i} else {})"

definition defs :: "inst list \<Rightarrow> value_id set" where
  "defs is = (\<Union>i \<in> set is. results i)"

text \<open>The values a code sequence reads before defining them, given those already defined.\<close>

fun upward :: "value_id set \<Rightarrow> inst list \<Rightarrow> value_id set" where
  "upward D [] = {}"
| "upward D (i # is) = (set (value_operands i) - D) \<union> upward (D \<union> results i) is"

lemma upward_minus: "upward D is = upward {} is - D"
proof (induction "is" arbitrary: D)
  case (Cons i "is")
  show ?case
    using Cons.IH [of "D \<union> results i"] Cons.IH [of "results i"] by auto
qed simp

lemma upward_append: "upward D (xs @ ys) = upward D xs \<union> upward (D \<union> defs xs) ys"
  by (induction xs arbitrary: D) (auto simp: defs_def Un_assoc)

lemma upward_use: "v \<in> upward D is \<Longrightarrow> \<exists>j < length is. v \<in> set (value_operands (is ! j))"
proof (induction "is" arbitrary: D)
  case (Cons i "is")
  show ?case
  proof (cases "v \<in> set (value_operands i)")
    case False
    with Cons obtain j where "j < length is" "v \<in> set (value_operands (is ! j))" by auto
    then show ?thesis by (intro exI [of _ "Suc j"]) simp
  qed (intro exI [of _ 0], simp)
qed simp

definition in_range :: "nat \<Rightarrow> block \<Rightarrow> bool" where
  "in_range n b \<longleftrightarrow>
     (\<forall>p \<in> set (params b). p < n) \<and>
     (\<forall>i \<in> set (insts b). (\<forall>v \<in> set (value_operands i). v < n) \<and> (result i = NO_VALUE \<or> result i < n))"

lemma fold_bs_set:
  assumes "\<forall>v \<in> set vs. v < 64 * length ws"
  shows "bs_abs (fold bs_set vs ws) = bs_abs ws \<union> set vs \<and> length (fold bs_set vs ws) = length ws"
  using assms by (induction vs arbitrary: ws) (auto simp: bs_abs_set)

lemma fold_visit_use:
  assumes "\<forall>v \<in> set vs. v < 64 * length g" "length g = length d"
  shows "\<exists>g'. fold visit_use vs (g, d) = (g', d) \<and> length g' = length g \<and>
    bs_abs g' = bs_abs g \<union> (set vs - bs_abs d)"
  using assms
proof (induction vs arbitrary: g)
  case (Cons v vs)
  have t: "bs_test v d \<longleftrightarrow> v \<in> bs_abs d" using Cons.prems by (simp add: bs_abs_def)
  define g1 where "g1 = (if bs_test v d then g else bs_set v g)"
  have g1: "visit_use v (g, d) = (g1, d)" "length g1 = length g" "bs_abs g1 = bs_abs g \<union> ({v} - bs_abs d)"
    using Cons.prems t by (auto simp: g1_def visit_use_def bs_abs_set)
  obtain g' where "fold visit_use vs (g1, d) = (g', d)" "length g' = length g1" "bs_abs g' = bs_abs g1 \<union> (set vs - bs_abs d)"
    using Cons.IH [of g1] Cons.prems g1(2) by auto
  with g1 show ?case by auto
qed simp

lemma visit_insts:
  assumes "length g = w" "length d = w"
    and "\<forall>i \<in> set is. (\<forall>v \<in> set (value_operands i). v < 64 * w) \<and> (result i = NO_VALUE \<or> result i < 64 * w)"
  shows "\<exists>g' d'. fold visit_inst is (g, d) = (g', d') \<and> length g' = w \<and> length d' = w \<and>
    bs_abs g' = bs_abs g \<union> upward (bs_abs d) is \<and> bs_abs d' = bs_abs d \<union> defs is"
  using assms
proof (induction "is" arbitrary: g d)
  case (Cons i "is")
  obtain g1 where g1: "fold visit_use (value_operands i) (g, d) = (g1, d)" "length g1 = w"
    "bs_abs g1 = bs_abs g \<union> (set (value_operands i) - bs_abs d)"
    using fold_visit_use [of "value_operands i" g d] Cons.prems by auto
  define d1 where "d1 = (if result i \<noteq> NO_VALUE then bs_set (result i) d else d)"
  have d1: "length d1 = w" "bs_abs d1 = bs_abs d \<union> results i"
    using Cons.prems by (auto simp: d1_def results_def bs_abs_set)
  have "visit_inst i (g, d) = (g1, d1)"
    using g1 by (simp add: visit_inst_def d1_def)
  moreover obtain g' d' where "fold visit_inst is (g1, d1) = (g', d')" "length g' = w" "length d' = w"
    "bs_abs g' = bs_abs g1 \<union> upward (bs_abs d1) is" "bs_abs d' = bs_abs d1 \<union> defs is"
    using Cons.IH [of g1 d1] g1(2) d1(1) Cons.prems(3) by auto
  ultimately show ?case
    using g1 d1 by (auto simp: defs_def)
qed (auto simp: defs_def)

lemma words_bound: "v < n \<Longrightarrow> v < 64 * ((n + 63) div (64 :: nat))"
proof -
  assume "v < n"
  moreover have "n + 63 = 64 * ((n + 63) div 64) + (n + 63) mod 64" by simp
  moreover have "(n + 63) mod 64 < 64" by simp
  ultimately show ?thesis by linarith
qed

lemma length_bs_new [simp]: "length (bs_new n) = (n + 63) div 64"
  by (simp add: bs_new_def)

lemma gen_def_sets:
  assumes "in_range n b"
  shows "bs_abs (fst (gen_def n b)) = upward (set (params b)) (insts b)"
    "bs_abs (snd (gen_def n b)) = set (params b) \<union> defs (insts b)"
    "length (fst (gen_def n b)) = (n + 63) div 64" "length (snd (gen_def n b)) = (n + 63) div 64"
proof -
  let ?w = "(n + 63) div 64"
  have "\<forall>p \<in> set (params b). p < 64 * length (bs_new n)"
    using assms words_bound by (auto simp: in_range_def)
  from fold_bs_set [OF this] have d: "bs_abs (fold bs_set (params b) (bs_new n)) = set (params b)"
    "length (fold bs_set (params b) (bs_new n)) = ?w"
    by (simp_all add: bs_abs_new)
  have "\<forall>i \<in> set (insts b). (\<forall>v \<in> set (value_operands i). v < 64 * ?w) \<and> (result i = NO_VALUE \<or> result i < 64 * ?w)"
    using assms words_bound unfolding in_range_def by blast
  from visit_insts [OF _ d(2) this, of "bs_new n"] show
    "bs_abs (fst (gen_def n b)) = upward (set (params b)) (insts b)"
    "bs_abs (snd (gen_def n b)) = set (params b) \<union> defs (insts b)"
    "length (fst (gen_def n b)) = ?w" "length (snd (gen_def n b)) = ?w"
    using d(1) by (auto simp: gen_def_def bs_abs_new)
qed

subsection \<open>Liveness at a program point\<close>

text \<open>
  \<open>live_from fn v b\<close>: some path from the start of block \<open>b\<close> reads \<open>v\<close> before it is defined again.
  \<open>live_at fn b k v\<close>: the same from just before instruction \<open>k\<close> of block \<open>b\<close>.
\<close>

inductive live_from :: "func \<Rightarrow> value_id \<Rightarrow> block_id \<Rightarrow> bool" for fn :: func and v :: value_id where
  live_here: "v \<in> upward (set (params (blocks fn ! b))) (insts (blocks fn ! b)) \<Longrightarrow> live_from fn v b"
| live_later: "v \<notin> set (params (blocks fn ! b)) \<union> defs (insts (blocks fn ! b)) \<Longrightarrow>
    t \<in> set (successors (blocks fn ! b)) \<Longrightarrow> live_from fn v t \<Longrightarrow> live_from fn v b"

definition live_at :: "func \<Rightarrow> block_id \<Rightarrow> nat \<Rightarrow> value_id \<Rightarrow> bool" where
  "live_at fn b k v \<longleftrightarrow>
     (let rest = drop k (insts (blocks fn ! b))
      in v \<in> upward {} rest \<or>
         (v \<notin> defs rest \<and> (\<exists>t \<in> set (successors (blocks fn ! b)). live_from fn v t)))"

text \<open>What the allocator relies on: handles in range, no empty block, positions that fit 32 bits.\<close>

definition alloc_ready :: "func \<Rightarrow> bool" where
  "alloc_ready fn \<longleftrightarrow>
     length (vals fn) \<le> NO_VALUE \<and> 4 * instruction_count fn \<le> UINT32_MAX \<and>
     (\<forall>b \<in> set (blocks fn). in_range (length (vals fn)) b \<and> insts b \<noteq> [] \<and>
        (\<forall>t \<in> set (successors b). t < length (blocks fn)))"

lemma alloc_ready_block:
  assumes "alloc_ready fn" "b < length (blocks fn)"
  shows "in_range (length (vals fn)) (blocks fn ! b)" "insts (blocks fn ! b) \<noteq> []"
    "\<And>t. t \<in> set (successors (blocks fn ! b)) \<Longrightarrow> t < length (blocks fn)"
  using assms nth_mem [OF assms(2)] unfolding alloc_ready_def by blast+

abbreviation gds :: "func \<Rightarrow> (bitset \<times> bitset) list" where
  "gds fn \<equiv> map (gen_def (length (vals fn))) (blocks fn)"

abbreviation succ_lists :: "func \<Rightarrow> block_id list list" where
  "succ_lists fn \<equiv> map successors (blocks fn)"

lemma alloc_ready_flow:
  assumes "alloc_ready fn"
  shows "flow_ok ((length (vals fn) + 63) div 64) (gds fn) (succ_lists fn)"
  using assms by (auto simp: flow_ok_def alloc_ready_def gen_def_sets)

lemma exposed_live_from:
  assumes r: "alloc_ready fn" and b: "b < length (blocks fn)"
  shows "exposed (gds fn) (succ_lists fn) v b \<longleftrightarrow> live_from fn v b"
proof -
  have sets: "bs_abs (fst (gds fn ! c)) = upward (set (params (blocks fn ! c))) (insts (blocks fn ! c))"
    "bs_abs (snd (gds fn ! c)) = set (params (blocks fn ! c)) \<union> defs (insts (blocks fn ! c))"
    "succ_lists fn ! c = successors (blocks fn ! c)" "\<And>t. t \<in> set (successors (blocks fn ! c)) \<Longrightarrow> t < length (blocks fn)"
    if "c < length (blocks fn)" for c
    using that alloc_ready_block [OF r that] by (simp_all add: gen_def_sets)
  show ?thesis
  proof
    assume "exposed (gds fn) (succ_lists fn) v b"
    then show "live_from fn v b"
      using b
    proof (induction rule: exposed.induct)
      case (exposed_use c)
      then show ?case using sets by (auto intro: live_here)
    next
      case (exposed_step c t)
      then show ?case using sets [of c] by (auto intro: live_later)
    qed
  next
    assume "live_from fn v b"
    then show "exposed (gds fn) (succ_lists fn) v b"
      using b
    proof (induction rule: live_from.induct)
      case (live_here c)
      then show ?case using sets by (intro exposed_use) simp
    next
      case (live_later c t)
      then show ?case using sets [of c] exposed_step [of v "gds fn" c t "succ_lists fn"] by simp
    qed
  qed
qed

lemma liveness_live_from:
  assumes r: "alloc_ready fn" and l: "liveness (length (vals fn)) (gds fn) (succ_lists fn) = Some l"
    and b: "b < length (blocks fn)"
  shows "v \<in> ins l b \<longleftrightarrow> live_from fn v b"
    and "v \<in> outs l b \<longleftrightarrow> (\<exists>t \<in> set (successors (blocks fn ! b)). live_from fn v t)"
proof -
  note e = liveness_exact [OF alloc_ready_flow [OF r] l, of b v]
  have t: "\<And>t. t \<in> set (successors (blocks fn ! b)) \<Longrightarrow> t < length (blocks fn)"
    using r b by (auto simp: alloc_ready_def)
  show "v \<in> ins l b \<longleftrightarrow> live_from fn v b"
    using e(1) b exposed_live_from [OF r b] by simp
  show "v \<in> outs l b \<longleftrightarrow> (\<exists>t \<in> set (successors (blocks fn ! b)). live_from fn v t)"
    using e(2) b t exposed_live_from [OF r] by auto
qed

lemma build_intervals_liveness:
  assumes "alloc_ready fn"
  shows "\<exists>l ivs. liveness (length (vals fn)) (gds fn) (succ_lists fn) = Some l \<and> build_intervals fn = Some ivs"
  using liveness_returns [OF alloc_ready_flow [OF assms]] by (auto simp: build_intervals_def Let_def)

subsection \<open>Spans\<close>

lemma length_index_from [simp]: "length (index_from n bs) = length bs"
  by (induction n bs rule: index_from.induct) simp_all

lemma index_from_nth:
  "b < length bs \<Longrightarrow> first (index_from n bs ! b) = n + sum_list (map (\<lambda>c. length (insts c)) (take b bs)) \<and>
     lst (index_from n bs ! b) = first (index_from n bs ! b) + length (insts (bs ! b)) - 1"
  by (induction n bs arbitrary: b rule: index_from.induct) (auto simp: nth_Cons' take_Cons' )

abbreviation block_first :: "func \<Rightarrow> block_id \<Rightarrow> nat" where
  "block_first fn b \<equiv> first (index_blocks fn ! b)"

lemma block_bounds:
  assumes "b < length (blocks fn)"
  shows "lst (index_blocks fn ! b) = block_first fn b + length (insts (blocks fn ! b)) - 1"
    "block_first fn b + length (insts (blocks fn ! b)) \<le> instruction_count fn"
proof -
  show "lst (index_blocks fn ! b) = block_first fn b + length (insts (blocks fn ! b)) - 1"
    using index_from_nth [OF assms, of 0] by (simp add: index_blocks_def)
  let ?f = "\<lambda>c. length (insts c)"
  have "sum_list (map ?f (blocks fn)) = sum_list (map ?f (take b (blocks fn))) + sum_list (map ?f (drop b (blocks fn)))"
    by (metis append_take_drop_id map_append sum_list_append)
  also have "drop b (blocks fn) = (blocks fn ! b) # drop (Suc b) (blocks fn)"
    using assms by (simp add: Cons_nth_drop_Suc)
  finally show "block_first fn b + length (insts (blocks fn ! b)) \<le> instruction_count fn"
    using index_from_nth [OF assms, of 0] by (simp add: index_blocks_def instruction_count_def)
qed

subsection \<open>Intervals cover the live points\<close>

text \<open>Every position the function records lies in the value's interval, which therefore exists.\<close>

lemma recorded_covered:
  assumes "build_intervals fn = Some ivs"
    and "liveness (length (vals fn)) (gds fn) (succ_lists fn) = Some l"
    and "(v, pos) \<in> set (all_positions fn (gds fn) l)" "v < length (vals fn)" "pos < UINT32_MAX"
  shows "\<exists>iv \<in> set ivs. ivalue iv = v \<and> istart iv \<le> pos \<and> pos \<le> iend iv"
proof -
  define r where "r = record_ranges (length (vals fn)) (all_positions fn (gds fn) l)"
  have c: "fst r ! v \<le> pos \<and> pos \<le> snd r ! v"
    using record_ranges_covers [OF assms(3,4)] by (simp add: r_def)
  moreover have "make_interval fn (call_indices fn) r v \<in> set ivs"
    using assms(1,2,4,5) c by (auto simp: build_intervals_def Let_def r_def)
  ultimately show ?thesis
    by (intro bexI [of _ "make_interval fn (call_indices fn) r v"]) simp_all
qed

lemma interval_unique:
  assumes "build_intervals fn = Some ivs" "a \<in> set ivs" "b \<in> set ivs" "ivalue a = ivalue b"
  shows "a = b"
  using build_intervals_ok(1) [OF assms(1)] assms(2-4) by (simp add: distinct_map inj_on_def)

text \<open>The recorded positions, by origin.\<close>

lemma in_block_positions:
  assumes "b < length (blocks fn)" "vp \<in> set (block_positions fn gd l b)"
  shows "vp \<in> set (all_positions fn gd l)"
  using assms by (auto simp: all_positions_def)

lemma position_live_in:
  assumes "b < length (blocks fn)" "v \<in> ins l b"
  shows "(v, pos_e (block_first fn b)) \<in> set (all_positions fn gd l)"
  by (rule in_block_positions [OF assms(1)])
     (use assms(2) in \<open>simp add: block_positions_def Let_def set_bs_elems image_iff\<close>)

lemma position_live_out:
  assumes "b < length (blocks fn)" "v \<in> outs l b"
  shows "(v, pos_l (lst (index_blocks fn ! b))) \<in> set (all_positions fn gd l)"
  by (rule in_block_positions [OF assms(1)])
     (use assms(2) in \<open>auto simp: block_positions_def Let_def set_bs_elems\<close>)

lemma position_param:
  assumes "b < length (blocks fn)" "v \<in> set (params (blocks fn ! b))"
  shows "(v, pos_e (block_first fn b)) \<in> set (all_positions fn gd l)"
  by (rule in_block_positions [OF assms(1)]) (use assms(2) in \<open>auto simp: block_positions_def Let_def\<close>)

lemma position_inst:
  assumes "b < length (blocks fn)" "j < length (insts (blocks fn ! b))"
    and "vp \<in> set (inst_positions fn (block_first fn b + j, insts (blocks fn ! b) ! j))"
  shows "vp \<in> set (all_positions fn gd l)"
proof (rule in_block_positions [OF assms(1)])
  have "(block_first fn b + j, insts (blocks fn ! b) ! j) \<in>
      set (enumerate (block_first fn b) (insts (blocks fn ! b)))"
    using assms(2) by (simp add: in_set_enumerate_eq)
  then show "vp \<in> set (block_positions fn gd l b)"
    using assms(3) by (fastforce simp: block_positions_def Let_def)
qed

lemma position_use:
  assumes "b < length (blocks fn)" "j < length (insts (blocks fn ! b))"
    and "v \<in> set (value_operands (insts (blocks fn ! b) ! j))"
  shows "(v, pos_u (block_first fn b + j)) \<in> set (all_positions fn gd l)"
  by (rule position_inst [OF assms(1,2)]) (use assms(3) in \<open>simp add: inst_positions_def\<close>)

lemma position_def:
  assumes "b < length (blocks fn)" "j < length (insts (blocks fn ! b))"
    and "v \<in> results (insts (blocks fn ! b) ! j)"
  shows "(v, def_pos (insts (blocks fn ! b) ! j) (block_first fn b + j)) \<in> set (all_positions fn gd l)"
  by (rule position_inst [OF assms(1,2)])
     (use assms(3) in \<open>simp add: inst_positions_def results_def split: if_splits\<close>)

lemma defs_nth: "v \<in> defs is \<longleftrightarrow> (\<exists>j < length is. v \<in> results (is ! j))"
  unfolding defs_def by (metis UN_E UN_I in_set_conv_nth)

text \<open>Before instruction \<open>k\<close> a live value has a recorded position at or below, and one at or above.\<close>

lemma live_at_above:
  assumes r: "alloc_ready fn" and l: "liveness (length (vals fn)) (gds fn) (succ_lists fn) = Some l"
    and b: "b < length (blocks fn)" "k < length (insts (blocks fn ! b))" and v: "live_at fn b k v"
  shows "\<exists>pos \<ge> pos_e (block_first fn b + k). pos < UINT32_MAX \<and> (v, pos) \<in> set (all_positions fn (gds fn) l)"
proof -
  let ?is = "insts (blocks fn ! b)"
  have bound: "block_first fn b + length ?is \<le> instruction_count fn" "4 * instruction_count fn \<le> UINT32_MAX"
    using block_bounds(2) [OF b(1)] r by (simp_all add: alloc_ready_def)
  from v consider "v \<in> upward {} (drop k ?is)" | "v \<in> outs l b"
    using liveness_live_from(2) [OF r l b(1)] by (auto simp: live_at_def Let_def)
  then show ?thesis
  proof cases
    case 1
    then obtain j where j: "j < length (drop k ?is)" "v \<in> set (value_operands (drop k ?is ! j))"
      using upward_use by blast
    then have "(v, pos_u (block_first fn b + (k + j))) \<in> set (all_positions fn (gds fn) l)"
      using b by (intro position_use) simp_all
    then show ?thesis
      using j(1) bound by (intro exI [of _ "pos_u (block_first fn b + (k + j))"]) (simp add: positions)
  next
    case 2
    have "(v, pos_l (lst (index_blocks fn ! b))) \<in> set (all_positions fn (gds fn) l)"
      by (rule position_live_out [OF b(1) 2])
    then show ?thesis
      using b bound block_bounds(1) [OF b(1)]
      by (intro exI [of _ "pos_l (lst (index_blocks fn ! b))"]) (auto simp: positions)
  qed
qed

lemma live_at_below:
  assumes r: "alloc_ready fn" and l: "liveness (length (vals fn)) (gds fn) (succ_lists fn) = Some l"
    and b: "b < length (blocks fn)" "k < length (insts (blocks fn ! b))" and v: "live_at fn b k v"
  shows "\<exists>pos \<le> pos_e (block_first fn b + k). (v, pos) \<in> set (all_positions fn (gds fn) l)"
proof -
  let ?blk = "blocks fn ! b" and ?is = "insts (blocks fn ! b)"
  consider "v \<in> set (params ?blk)" | "v \<in> defs (take k ?is)"
    | (through) "v \<notin> set (params ?blk) \<union> defs (take k ?is)" by blast
  then show ?thesis
  proof cases
    case 1
    then show ?thesis
      using position_param [OF b(1)] by (intro exI [of _ "pos_e (block_first fn b)"]) (simp add: positions)
  next
    case 2
    then obtain j where j: "j < k" "v \<in> results (?is ! j)"
      using b(2) by (auto simp: defs_nth)
    then have "(v, def_pos (?is ! j) (block_first fn b + j)) \<in> set (all_positions fn (gds fn) l)"
      using b by (intro position_def) simp_all
    then show ?thesis
      using j(1) by (intro exI [of _ "def_pos (?is ! j) (block_first fn b + j)"]) (simp add: def_pos_def positions)
  next
    case through
    have split: "?is = take k ?is @ drop k ?is" by simp
    have "live_from fn v b"
    proof (cases "v \<in> upward {} (drop k ?is)")
      case True
      then have "v \<in> upward (set (params ?blk) \<union> defs (take k ?is)) (drop k ?is)"
        using through upward_minus by blast
      then have "v \<in> upward (set (params ?blk)) ?is"
        using upward_append [of "set (params ?blk)" "take k ?is" "drop k ?is"] split by simp
      then show ?thesis by (rule live_here)
    next
      case False
      then have "v \<notin> defs (drop k ?is)" "\<exists>t \<in> set (successors ?blk). live_from fn v t"
        using v by (auto simp: live_at_def Let_def)
      moreover have "defs ?is = defs (take k ?is) \<union> defs (drop k ?is)"
        by (metis UN_Un defs_def set_append split)
      ultimately show ?thesis using through by (auto intro: live_later)
    qed
    then have "v \<in> ins l b" using liveness_live_from(1) [OF r l b(1)] by simp
    then show ?thesis
      using position_live_in [OF b(1)] by (intro exI [of _ "pos_e (block_first fn b)"]) (simp add: positions)
  qed
qed

lemma live_value_range:
  assumes r: "alloc_ready fn" and v: "live_from fn v b" and b: "b < length (blocks fn)"
  shows "v < length (vals fn)"
  using v b
proof (induction rule: live_from.induct)
  case (live_here b)
  then obtain j where "j < length (insts (blocks fn ! b))" "v \<in> set (value_operands (insts (blocks fn ! b) ! j))"
    using upward_use by blast
  then show ?case
    using alloc_ready_block(1) [OF r live_here(2)] by (auto simp: in_range_def)
next
  case (live_later b t)
  then show ?case using alloc_ready_block(3) [OF r] by blast
qed

lemma live_at_value_range:
  assumes r: "alloc_ready fn" and b: "b < length (blocks fn)" and v: "live_at fn b k v"
  shows "v < length (vals fn)"
proof (cases "v \<in> upward {} (drop k (insts (blocks fn ! b)))")
  case True
  then obtain j where j: "j < length (drop k (insts (blocks fn ! b)))"
    "v \<in> set (value_operands (drop k (insts (blocks fn ! b)) ! j))"
    using upward_use by blast
  then have "v \<in> set (value_operands (insts (blocks fn ! b) ! (k + j)))" "k + j < length (insts (blocks fn ! b))"
    by simp_all
  then show ?thesis
    using alloc_ready_block(1) [OF r b] nth_mem unfolding in_range_def by metis
next
  case False
  then show ?thesis
    using v live_value_range [OF r] alloc_ready_block(3) [OF r b] by (auto simp: live_at_def Let_def)
qed

lemma live_at_covered:
  assumes r: "alloc_ready fn" and ivs: "build_intervals fn = Some ivs"
    and b: "b < length (blocks fn)" "k < length (insts (blocks fn ! b))" and v: "live_at fn b k v"
  shows "\<exists>iv \<in> set ivs. ivalue iv = v \<and> istart iv \<le> pos_e (block_first fn b + k) \<and>
    pos_e (block_first fn b + k) \<le> iend iv"
proof -
  obtain l where l: "liveness (length (vals fn)) (gds fn) (succ_lists fn) = Some l"
    using build_intervals_liveness [OF r] by blast
  note vr = live_at_value_range [OF r b(1) v]
  obtain p q where p: "p \<le> pos_e (block_first fn b + k)" "(v, p) \<in> set (all_positions fn (gds fn) l)"
    and q: "pos_e (block_first fn b + k) \<le> q" "q < UINT32_MAX" "(v, q) \<in> set (all_positions fn (gds fn) l)"
    using live_at_below [OF r l b v] live_at_above [OF r l b v] by blast
  obtain i j where "i \<in> set ivs" "ivalue i = v" "istart i \<le> p" "j \<in> set ivs" "ivalue j = v" "q \<le> iend j"
    using recorded_covered [OF ivs l p(2) vr] recorded_covered [OF ivs l q(3) vr q(2)] p(1) q(1,2)
    by (meson le_less_trans le_trans)
  then show ?thesis
    using interval_unique [OF ivs, of i j] p(1) q(1) by (intro bexI [of _ i]) auto
qed

subsection \<open>Properties of the allocation\<close>

lemma demo_ready: "alloc_ready demo_function"
  by (simp add: alloc_ready_def in_range_def demo_defs instruction_count_def successors_def
      value_operands_def operand_shape_def UINT32_MAX_def)

lemma demo_allocates: "\<exists>res. allocate demo_module demo_function md = Some res"
  using build_intervals_liveness [OF demo_ready] by (auto simp: allocate_def)

text \<open>
  C15: On a function whose handles are in range the allocator returns: the liveness iteration reaches
  its fixpoint, in either mode.
\<close>

theorem allocate_returns:
  assumes "alloc_ready fn"
  shows "\<exists>res. allocate m fn md = Some res"
  using build_intervals_liveness [OF assms] by (auto simp: allocate_def)

theorem allocate_returns_witness: "\<exists>res. allocate demo_module demo_function Linear = Some res"
  using allocate_returns [OF demo_ready] by blast

text \<open>
  C14: The liveness sets the analysis returns are exact: a value is in a block's live-in set if and
  only if some path from the block's start reads it before redefining it.
\<close>

theorem liveness_is_path_liveness:
  assumes "alloc_ready fn" and "b < length (blocks fn)"
    and "liveness (length (vals fn)) (map (gen_def (length (vals fn))) (blocks fn))
           (map successors (blocks fn)) = Some l"
  shows "v \<in> bs_abs (live_in l ! b) \<longleftrightarrow> live_from fn v b"
  using liveness_live_from(1) [OF assms(1,3,2)] .

theorem liveness_is_path_liveness_witness:
  "\<exists>l. liveness (length (vals demo_function)) (map (gen_def (length (vals demo_function))) (blocks demo_function))
      (map successors (blocks demo_function)) = Some l \<and>
     (0 \<in> bs_abs (live_in l ! 0) \<longleftrightarrow> live_from demo_function 0 0)"
proof -
  have "0 < length (blocks demo_function)" by (simp add: demo_defs)
  then show ?thesis
    using build_intervals_liveness [OF demo_ready] liveness_is_path_liveness [OF demo_ready] by blast
qed

text \<open>
  C1: Values that are live at the same program point and both kept in registers are kept in different
  registers.
\<close>

theorem live_values_do_not_share:
  assumes "alloc_ready fn" and "allocate m fn Linear = Some res"
    and "b < length (blocks fn)" "k < length (insts (blocks fn ! b))"
    and "live_at fn b k v" "live_at fn b k w" "v \<noteq> w"
  shows "spilled (rvalues res ! v) \<or> spilled (rvalues res ! w) \<or> reg (rvalues res ! v) \<noteq> reg (rvalues res ! w)"
proof -
  obtain q s where inv: "scan_inv (build_kills m fn) (length (vals fn)) q (intervals res) s"
    and s: "rvalues res = svalues s" and ivs: "build_intervals fn = Some (intervals res)"
    using allocate_inv [OF assms(2)] by blast
  let ?p = "pos_e (block_first fn b + k)"
  obtain i j where i: "i \<in> set (intervals res)" "ivalue i = v" "istart i \<le> ?p" "?p \<le> iend i"
    and j: "j \<in> set (intervals res)" "ivalue j = w" "istart j \<le> ?p" "?p \<le> iend j"
    using live_at_covered [OF assms(1) ivs assms(3,4)] assms(5,6) by blast
  have "\<not> disjoint i j" "i \<noteq> j"
    using i j assms(7) by (auto simp: disjoint_def)
  then have "\<not> share s i j"
    using inv i(1) j(1) by (auto simp: scan_inv_def inv_disjoint_def)
  then show ?thesis
    using i(2) j(2) s by (auto simp: share_def assigned_def)
qed

lemma demo_live: "live_at demo_function 0 2 0 \<and> live_at demo_function 0 2 1"
  by (simp add: live_at_def demo_defs value_operands_def operand_shape_def results_def UINT32_MAX_def)

theorem live_values_do_not_share_witness:
  "\<exists>res. allocate demo_module demo_function Linear = Some res \<and>
     (spilled (rvalues res ! 0) \<or> spilled (rvalues res ! 1) \<or> reg (rvalues res ! 0) \<noteq> reg (rvalues res ! 1))"
proof -
  obtain res where r: "allocate demo_module demo_function Linear = Some res"
    using demo_allocates by blast
  have "0 < length (blocks demo_function)" "2 < length (insts (blocks demo_function ! 0))"
    by (simp_all add: demo_defs)
  then show ?thesis
    using live_values_do_not_share [OF demo_ready r, of 0 2 0 1] demo_live r by auto
qed

text \<open>
  C13: An interval kept in a register overlaps a range in which an instruction template owns that
  register only at calls it is live across, and then it has a save area.
\<close>

theorem kill_ranges_respected:
  assumes "allocate m fn Linear = Some res"
  shows "\<forall>iv \<in> set (intervals res). \<not> spilled (rvalues res ! ivalue iv) \<longrightarrow>
    (\<forall>k \<in> set (build_kills m fn ! reg (rvalues res ! ivalue iv)). kfrom k \<le> iend iv \<and> istart iv \<le> kto k \<longrightarrow>
       is_call_clobber k \<and> crosses iv (kfrom k div 4) \<and> save_around_calls (rvalues res ! ivalue iv) \<and>
       \<not> is_callee_saved (reg (rvalues res ! ivalue iv)))"
proof (intro ballI impI)
  fix iv :: interval and k :: kill_range
  let ?a = "rvalues res ! ivalue iv"
  assume h: "iv \<in> set (intervals res)" "\<not> spilled ?a" "k \<in> set (build_kills m fn ! reg ?a)"
    "kfrom k \<le> iend iv \<and> istart iv \<le> kto k"
  obtain q s where inv: "scan_inv (build_kills m fn) (length (vals fn)) q (intervals res) s"
    and s: "rvalues res = svalues s"
    using allocate_inv [OF assms(1)] by blast
  then have "placed (build_kills m fn) ?a iv"
    using h(1) by (simp add: scan_inv_def inv_placed_def assigned_def)
  then have "reg ?a < 32" "kill_scan iv (reg ?a) (build_kills m fn ! reg ?a) False = Some (save_around_calls ?a)"
    using h(2) reg_order_regs(1) by (auto simp: placed_def overlapping_kill_ok_def)
  from kill_scan_Some [OF this(2) build_kills_sorted [OF this(1)]] h(3,4)
  show "is_call_clobber k \<and> crosses iv (kfrom k div 4) \<and> save_around_calls ?a \<and> \<not> is_callee_saved (reg ?a)"
    by (auto simp: overlaps_def tolerated_def)
qed

theorem kill_ranges_respected_witness:
  "\<exists>res. allocate demo_module demo_function Linear = Some res \<and>
     (\<forall>iv \<in> set (intervals res). \<not> spilled (rvalues res ! ivalue iv) \<longrightarrow>
       (\<forall>k \<in> set (build_kills demo_module demo_function ! reg (rvalues res ! ivalue iv)).
          kfrom k \<le> iend iv \<and> istart iv \<le> kto k \<longrightarrow> is_call_clobber k))"
  using demo_allocates [of Linear] kill_ranges_respected by blast

text \<open>
  C12: The machine verifier finds nothing after a linear scan, whatever the function; the entries of
  \<^verbatim>\<open>Result::errors\<close> that abort the compilation are never produced.
\<close>

theorem linear_scan_verifies:
  assumes "allocate m fn Linear = Some res" and "length (vals fn) \<le> UINT32_MAX"
  shows "errors res = []"
proof -
  obtain q s where inv: "scan_inv (build_kills m fn) (length (vals fn)) q (intervals res) s"
    and s: "errors res = verify_alloc (fname fn) (build_kills m fn) (svalues s) (intervals res)"
      "build_intervals fn = Some (intervals res)"
    using allocate_inv [OF assms(1)] by blast
  note ok = build_intervals_ok [OF s(2)]
  show ?thesis
    unfolding s(1) using ok(5) assms(2) build_kills_sorted
    by (intro verify_alloc_Nil [OF inv ok(1,4)]) auto
qed

theorem linear_scan_verifies_witness:
  "\<exists>res. allocate demo_module demo_function Linear = Some res \<and> errors res = []"
proof -
  have "length (vals demo_function) \<le> UINT32_MAX" by (simp add: demo_defs UINT32_MAX_def)
  then show ?thesis
    using demo_allocates [of Linear] linear_scan_verifies by blast
qed

text \<open>
  C16: Every value with an interval has a home: a spill area of its own below the area count, or a
  register of its class that is neither \<^verbatim>\<open>rsp\<close> nor \<^verbatim>\<open>rbp\<close>; a save area, where one is needed, is
  also its own; and the prologue mask has the bit of a register exactly when the register is callee-saved and some value
  resides in it.
\<close>

theorem every_value_is_placed:
  assumes "allocate m fn Linear = Some res" and "iv \<in> set (intervals res)"
  shows "let a = rvalues res ! ivalue iv in
    (\<not> spilled a \<longrightarrow> reg a < 32 \<and> reg a \<noteq> 4 \<and> reg a \<noteq> 5 \<and> (is_xmm (reg a) \<longleftrightarrow> iv_float iv)) \<and>
    (\<forall>n. area a = Some n \<longrightarrow> n < spill_area_count res \<and>
       (\<forall>jv \<in> set (intervals res). jv \<noteq> iv \<longrightarrow> area (rvalues res ! ivalue jv) \<noteq> Some n)) \<and>
    (\<forall>r. bit (used_callee_saved res) r \<longleftrightarrow> is_callee_saved r \<and> (\<exists>jv \<in> set (intervals res).
       \<not> spilled (rvalues res ! ivalue jv) \<and> reg (rvalues res ! ivalue jv) = r))"
proof -
  obtain q s where inv: "scan_inv (build_kills m fn) (length (vals fn)) q (intervals res) s"
    and s: "rvalues res = svalues s" "spill_area_count res = sareas s" "used_callee_saved res = scallee s"
    using allocate_inv [OF assms(1)] by blast
  have "placed (build_kills m fn) (rvalues res ! ivalue iv) iv"
    using inv assms(2) s by (simp add: scan_inv_def inv_placed_def assigned_def)
  then have regs: "\<not> spilled (rvalues res ! ivalue iv) \<Longrightarrow> reg (rvalues res ! ivalue iv) \<in> set (reg_order iv)"
    by (simp add: placed_def)
  have callee: "bit (used_callee_saved res) r \<longleftrightarrow> (\<exists>jv \<in> set (intervals res).
      \<not> spilled (rvalues res ! ivalue jv) \<and> reg (rvalues res ! ivalue jv) = r \<and> is_callee_saved r)" for r
    using inv s by (simp add: scan_inv_def inv_callee_def assigned_def)
  then have mask: "bit (used_callee_saved res) r \<longleftrightarrow> is_callee_saved r \<and> (\<exists>jv \<in> set (intervals res).
      \<not> spilled (rvalues res ! ivalue jv) \<and> reg (rvalues res ! ivalue jv) = r)" for r by blast
  have areas: "area (rvalues res ! ivalue iv) = Some n \<Longrightarrow> n < spill_area_count res"
    "area (rvalues res ! ivalue iv) = Some n \<Longrightarrow> jv \<in> set (intervals res) \<Longrightarrow> jv \<noteq> iv \<Longrightarrow>
       area (rvalues res ! ivalue jv) \<noteq> Some n" for n jv
    using inv s assms(2) unfolding scan_inv_def inv_areas_def assigned_def by (metis, metis option.distinct(1))
  show ?thesis
    unfolding Let_def
  proof (intro conjI impI allI)
    show "reg (rvalues res ! ivalue iv) < 32" "reg (rvalues res ! ivalue iv) \<noteq> 4" "reg (rvalues res ! ivalue iv) \<noteq> 5"
      "is_xmm (reg (rvalues res ! ivalue iv)) \<longleftrightarrow> iv_float iv" if "\<not> spilled (rvalues res ! ivalue iv)"
      using regs [OF that] reg_order_regs [of _ iv] by blast+
  qed (use areas mask in blast)+
qed

theorem every_value_is_placed_witness:
  "\<exists>res. allocate demo_module demo_function Linear = Some res \<and>
     (\<exists>iv \<in> set (intervals res). ivalue iv = 0 \<and>
        (spilled (rvalues res ! 0) \<or> (reg (rvalues res ! 0) < 32 \<and> reg (rvalues res ! 0) \<noteq> 4)))"
proof -
  obtain res where r: "allocate demo_module demo_function Linear = Some res"
    using demo_allocates by blast
  have "0 < length (blocks demo_function)" "2 < length (insts (blocks demo_function ! 0))"
    by (simp_all add: demo_defs)
  then obtain iv where iv: "iv \<in> set (intervals res)" "ivalue iv = 0"
    using live_at_covered [OF demo_ready, of "intervals res" 0 2 0] demo_live allocate_inv [OF r] by blast
  then show ?thesis
    using every_value_is_placed [OF r iv(1)] r by (auto simp: Let_def)
qed

end
