(* ===== verification/X86_Encoder.thy ===== *)
theory X86_Encoder
  imports Interfaces
begin

text \<open>
  The x86-64 instruction encoder (\<^verbatim>\<open>src/src/compiler/x86_encoder.hpp\<close> and \<^verbatim>\<open>.cpp\<close>): the code buffer
  with its labels, pending jumps and relocations, and one definition per method. Displacements and
  32-bit immediates are 32-bit words, \<^verbatim>\<open>mov_ri\<close> takes a 64-bit word; sizes cast to \<^verbatim>\<open>uint32_t\<close> are
  reduced modulo \<open>2 ^ 32\<close>. The assertion of \<^verbatim>\<open>resolve_labels\<close> is the result \<open>None\<close>.
\<close>

subsection \<open>Operands\<close>

datatype (plugins only: code size) greg =
  RAX | RCX | RDX | RBX | RSP | RBP | RSI | RDI | R8 | R9 | R10 | R11 | R12 | R13 | R14 | R15

primrec reg_code :: "greg \<Rightarrow> byte" where
  "reg_code RAX = 0" | "reg_code RCX = 1" | "reg_code RDX = 2" | "reg_code RBX = 3"
| "reg_code RSP = 4" | "reg_code RBP = 5" | "reg_code RSI = 6" | "reg_code RDI = 7"
| "reg_code R8 = 8" | "reg_code R9 = 9" | "reg_code R10 = 10" | "reg_code R11 = 11"
| "reg_code R12 = 12" | "reg_code R13 = 13" | "reg_code R14 = 14" | "reg_code R15 = 15"

datatype (plugins only: code size) xreg =
    XMM0 | XMM1 | XMM2 | XMM3 | XMM4 | XMM5 | XMM6 | XMM7 | XMM8 | XMM9 | XMM10 | XMM11 | XMM12
  | XMM13 | XMM14 | XMM15

primrec xreg_code :: "xreg \<Rightarrow> byte" where
  "xreg_code XMM0 = 0" | "xreg_code XMM1 = 1" | "xreg_code XMM2 = 2" | "xreg_code XMM3 = 3"
| "xreg_code XMM4 = 4" | "xreg_code XMM5 = 5" | "xreg_code XMM6 = 6" | "xreg_code XMM7 = 7"
| "xreg_code XMM8 = 8" | "xreg_code XMM9 = 9" | "xreg_code XMM10 = 10" | "xreg_code XMM11 = 11"
| "xreg_code XMM12 = 12" | "xreg_code XMM13 = 13" | "xreg_code XMM14 = 14" | "xreg_code XMM15 = 15"

datatype width = W8 | W16 | W32 | W64

datatype (plugins only: code size) cond =
  Cond_E | Cond_NE | Cond_L | Cond_LE | Cond_G | Cond_GE | Cond_B | Cond_BE | Cond_A | Cond_AE |
  Cond_P | Cond_NP

primrec cond_code :: "cond \<Rightarrow> byte" where
  "cond_code Cond_E = 0x4" | "cond_code Cond_NE = 0x5" | "cond_code Cond_L = 0xC"
| "cond_code Cond_LE = 0xE" | "cond_code Cond_G = 0xF" | "cond_code Cond_GE = 0xD"
| "cond_code Cond_B = 0x2" | "cond_code Cond_BE = 0x6" | "cond_code Cond_A = 0x7"
| "cond_code Cond_AE = 0x3" | "cond_code Cond_P = 0xA" | "cond_code Cond_NP = 0xB"

datatype alu = Alu_Add | Alu_Or | Alu_And | Alu_Sub | Alu_Xor | Alu_Cmp

primrec alu_code :: "alu \<Rightarrow> byte" where
  "alu_code Alu_Add = 0" | "alu_code Alu_Or = 1" | "alu_code Alu_And = 4"
| "alu_code Alu_Sub = 5" | "alu_code Alu_Xor = 6" | "alu_code Alu_Cmp = 7"

subsection \<open>The encoder\<close>

datatype x86_reloc_kind = Call32 | Rip32

record x86_reloc =
  xr_kind :: x86_reloc_kind
  xr_offset :: nat
  xr_symbol :: nat
  xr_addend :: int

record pending_jump =
  patch_offset :: nat
  jump_target :: nat

record encoder =
  e_code :: bytes
  e_relocations :: "x86_reloc list"
  e_labels :: "nat list"
  e_pending :: "pending_jump list"

definition empty_encoder :: encoder where
  "empty_encoder = \<lparr> e_code = [], e_relocations = [], e_labels = [], e_pending = [] \<rparr>"

definition code_size :: "encoder \<Rightarrow> nat" where
  "code_size e = length (e_code e) mod 2 ^ 32"

definition low3 :: "byte \<Rightarrow> byte" where
  "low3 r = r AND 7"

definition ext :: "byte \<Rightarrow> bool" where
  "ext r \<longleftrightarrow> r AND 8 \<noteq> 0"

definition needs_byte_rex :: "byte \<Rightarrow> bool" where
  "needs_byte_rex r \<longleftrightarrow> 4 \<le> r \<and> r \<le> 7"

definition byt :: "byte \<Rightarrow> encoder \<Rightarrow> encoder" where
  "byt b e = e\<lparr> e_code := e_code e @ [b] \<rparr>"

definition imm32 :: "u32 \<Rightarrow> encoder \<Rightarrow> encoder" where
  "imm32 v e = fold byt (le_bytes 4 v) e"

definition imm64 :: "u64 \<Rightarrow> encoder \<Rightarrow> encoder" where
  "imm64 v e = fold byt (le_bytes 8 v) e"

definition rex_prefix :: "bool \<Rightarrow> byte \<Rightarrow> byte \<Rightarrow> byte \<Rightarrow> byte" where
  "rex_prefix w r m x =
     (((0x40 OR (if w then 0x08 else 0)) OR (if ext r then 0x04 else 0)) OR
       (if ext x then 0x02 else 0)) OR (if ext m then 0x01 else 0)"

definition rex :: "bool \<Rightarrow> byte \<Rightarrow> byte \<Rightarrow> bool \<Rightarrow> byte \<Rightarrow> encoder \<Rightarrow> encoder" where
  "rex w r m force x e =
     (let prefix = rex_prefix w r m x
      in if prefix \<noteq> 0x40 \<or> force then byt prefix e else e)"

definition modrm_reg :: "byte \<Rightarrow> byte \<Rightarrow> encoder \<Rightarrow> encoder" where
  "modrm_reg r m e = byt ((0xC0 OR push_bit 3 (low3 r)) OR low3 m) e"

definition modrm_mem :: "byte \<Rightarrow> greg \<Rightarrow> u32 \<Rightarrow> encoder \<Rightarrow> encoder" where
  "modrm_mem r base disp e =
     (let base_bits = reg_code base;
          e = byt ((0x80 OR push_bit 3 (low3 r)) OR low3 base_bits) e;
          e = (if low3 base_bits = 4 then byt 0x24 e else e)
      in imm32 disp e)"

subsection \<open>Labels\<close>

definition make_label :: "encoder \<Rightarrow> encoder \<times> nat" where
  "make_label e = (e\<lparr> e_labels := e_labels e @ [UINT32_MAX] \<rparr>, length (e_labels e))"

definition bind_label :: "nat \<Rightarrow> encoder \<Rightarrow> encoder" where
  "bind_label l e = e\<lparr> e_labels := (e_labels e)[l := code_size e] \<rparr>"

definition label_offset :: "encoder \<Rightarrow> nat \<Rightarrow> nat" where
  "label_offset e l = e_labels e ! l"

definition patch32 :: "nat \<Rightarrow> u32 \<Rightarrow> bytes \<Rightarrow> bytes" where
  "patch32 p v bs = fold (\<lambda>i bs. bs[p + i := le_bytes 4 v ! i]) [0..<4] bs"

definition jump_rel :: "nat \<Rightarrow> nat \<Rightarrow> u32" where
  "jump_rel target p = of_nat target - (of_nat p + 4)"

fun patch_jumps :: "nat list \<Rightarrow> pending_jump list \<Rightarrow> bytes \<Rightarrow> bytes option" where
  "patch_jumps labels [] bs = Some bs"
| "patch_jumps labels (j # js) bs =
     (let target = labels ! jump_target j
      in if target = UINT32_MAX then None
         else patch_jumps labels js (patch32 (patch_offset j) (jump_rel target (patch_offset j)) bs))"

definition resolve_labels :: "encoder \<Rightarrow> encoder option" where
  "resolve_labels e =
     map_option (\<lambda>bs. e\<lparr> e_code := bs, e_pending := [] \<rparr>)
       (patch_jumps (e_labels e) (e_pending e) (e_code e))"

subsection \<open>Shared parts of the emitters\<close>

definition put_x86_reloc :: "x86_reloc_kind \<Rightarrow> nat \<Rightarrow> int \<Rightarrow> encoder \<Rightarrow> encoder" where
  "put_x86_reloc kind symbol addend e = e\<lparr> e_relocations := e_relocations e @
     [\<lparr> xr_kind = kind, xr_offset = code_size e, xr_symbol = symbol, xr_addend = addend \<rparr>] \<rparr>"

definition put_pending :: "nat \<Rightarrow> encoder \<Rightarrow> encoder" where
  "put_pending target e = e\<lparr> e_pending := e_pending e @
     [\<lparr> patch_offset = code_size e, jump_target = target \<rparr>] \<rparr>"

text \<open>The immediate of the \<^verbatim>\<open>0x80\<close>/\<^verbatim>\<open>0x81\<close> and \<^verbatim>\<open>0xC6\<close>/\<^verbatim>\<open>0xC7\<close> forms, by operand width.\<close>

definition enc_imm :: "width \<Rightarrow> u32 \<Rightarrow> encoder \<Rightarrow> encoder" where
  "enc_imm w imm e =
     (if w = W8 then byt (ucast imm) e
      else if w = W16 then byt (ucast (drop_bit 8 imm)) (byt (ucast imm) e)
      else imm32 imm e)"

definition unary_opcode :: "byte \<Rightarrow> width \<Rightarrow> byte" where
  "unary_opcode slot w =
     (if slot \<le> 1 then if w = W8 then 0xFE else 0xFF else if w = W8 then 0xF6 else 0xF7)"

subsection \<open>Moves\<close>

definition mov_ri :: "greg \<Rightarrow> u64 \<Rightarrow> encoder \<Rightarrow> encoder" where
  "mov_ri dst imm e =
     (let d = reg_code dst
      in if 0 \<le> sint imm \<and> sint imm \<le> 0x7FFFFFFF then
           imm32 (ucast imm) (byt (0xB8 OR low3 d) (rex False 0 d False 0 e))
         else imm64 imm (byt (0xB8 OR low3 d) (rex True 0 d False 0 e)))"

definition mov_rr :: "width \<Rightarrow> greg \<Rightarrow> greg \<Rightarrow> encoder \<Rightarrow> encoder" where
  "mov_rr w dst src e =
     (let d = reg_code dst;
          s = reg_code src;
          e = (if w = W16 then byt 0x66 e else e);
          e = rex (w = W64) s d (w = W8 \<and> (needs_byte_rex s \<or> needs_byte_rex d)) 0 e;
          e = byt (if w = W8 then 0x88 else 0x89) e
      in modrm_reg s d e)"

definition enc_load :: "width \<Rightarrow> greg \<Rightarrow> greg \<Rightarrow> u32 \<Rightarrow> encoder \<Rightarrow> encoder" where
  "enc_load w dst base disp e =
     (let d = reg_code dst;
          e = (if w = W16 then byt 0x66 e else e);
          e = rex (w = W64) d (reg_code base) (w = W8 \<and> needs_byte_rex d) 0 e;
          e = byt (if w = W8 then 0x8A else 0x8B) e
      in modrm_mem d base disp e)"

definition enc_store :: "width \<Rightarrow> greg \<Rightarrow> u32 \<Rightarrow> greg \<Rightarrow> encoder \<Rightarrow> encoder" where
  "enc_store w base disp src e =
     (let s = reg_code src;
          e = (if w = W16 then byt 0x66 e else e);
          e = rex (w = W64) s (reg_code base) (w = W8 \<and> needs_byte_rex s) 0 e;
          e = byt (if w = W8 then 0x88 else 0x89) e
      in modrm_mem s base disp e)"

definition movzx :: "width \<Rightarrow> greg \<Rightarrow> greg \<Rightarrow> encoder \<Rightarrow> encoder" where
  "movzx from dst src e =
     (let d = reg_code dst; s = reg_code src
      in if from = W32 then
           (let e = rex False s d False 0 e;
                e = byt 0x89 e
            in modrm_reg s d e)
         else
           (let e = rex True d s (from = W8 \<and> needs_byte_rex s) 0 e;
                e = byt 0x0F e;
                e = byt (if from = W8 then 0xB6 else 0xB7) e
            in modrm_reg d s e))"

definition movsx :: "width \<Rightarrow> greg \<Rightarrow> greg \<Rightarrow> encoder \<Rightarrow> encoder" where
  "movsx from dst src e =
     (let d = reg_code dst;
          s = reg_code src;
          e = rex True d s (from = W8 \<and> needs_byte_rex s) 0 e;
          e = (if from = W32 then byt 0x63 e else byt (if from = W8 then 0xBE else 0xBF) (byt 0x0F e))
      in modrm_reg d s e)"

definition lea :: "greg \<Rightarrow> greg \<Rightarrow> u32 \<Rightarrow> encoder \<Rightarrow> encoder" where
  "lea dst base disp e =
     (let d = reg_code dst;
          e = rex True d (reg_code base) False 0 e;
          e = byt 0x8D e
      in modrm_mem d base disp e)"

definition lea_rip :: "greg \<Rightarrow> nat \<Rightarrow> int \<Rightarrow> encoder \<Rightarrow> encoder" where
  "lea_rip dst symbol addend e =
     (let d = reg_code dst;
          e = rex True d 5 False 0 e;
          e = byt 0x8D e;
          e = byt ((0x00 OR push_bit 3 (low3 d)) OR 0x05) e;
          e = put_x86_reloc Rip32 symbol addend e
      in imm32 0 e)"

subsection \<open>Integer arithmetic\<close>

definition alu_rr :: "alu \<Rightarrow> width \<Rightarrow> greg \<Rightarrow> greg \<Rightarrow> encoder \<Rightarrow> encoder" where
  "alu_rr op w dst src e =
     (let d = reg_code dst;
          s = reg_code src;
          e = (if w = W16 then byt 0x66 e else e);
          e = rex (w = W64) s d (w = W8 \<and> (needs_byte_rex s \<or> needs_byte_rex d)) 0 e;
          e = byt (alu_code op * 8 OR (if w = W8 then 0x00 else 0x01)) e
      in modrm_reg s d e)"

definition alu_ri :: "alu \<Rightarrow> width \<Rightarrow> greg \<Rightarrow> u32 \<Rightarrow> encoder \<Rightarrow> encoder" where
  "alu_ri op w dst imm e =
     (let d = reg_code dst;
          e = (if w = W16 then byt 0x66 e else e);
          e = rex (w = W64) 0 d (w = W8 \<and> needs_byte_rex d) 0 e;
          e = byt (if w = W8 then 0x80 else 0x81) e;
          e = modrm_reg (alu_code op) d e
      in enc_imm w imm e)"

definition imul_rr :: "greg \<Rightarrow> greg \<Rightarrow> encoder \<Rightarrow> encoder" where
  "imul_rr dst src e =
     (let d = reg_code dst;
          s = reg_code src;
          e = rex True d s False 0 e;
          e = byt 0x0F e;
          e = byt 0xAF e
      in modrm_reg d s e)"

definition cqo :: "encoder \<Rightarrow> encoder" where
  "cqo e =
     (let e = byt 0x48 e
      in byt 0x99 e)"

definition zero_r :: "greg \<Rightarrow> encoder \<Rightarrow> encoder" where
  "zero_r reg e =
     (let r = reg_code reg;
          e = rex False r r False 0 e;
          e = byt 0x31 e
      in modrm_reg r r e)"

definition div_r :: "greg \<Rightarrow> encoder \<Rightarrow> encoder" where
  "div_r src e =
     (let s = reg_code src;
          e = rex True 0 s False 0 e;
          e = byt 0xF7 e
      in modrm_reg 6 s e)"

definition idiv_r :: "greg \<Rightarrow> encoder \<Rightarrow> encoder" where
  "idiv_r src e =
     (let s = reg_code src;
          e = rex True 0 s False 0 e;
          e = byt 0xF7 e
      in modrm_reg 7 s e)"

definition neg_r :: "width \<Rightarrow> greg \<Rightarrow> encoder \<Rightarrow> encoder" where
  "neg_r w reg e =
     (let r = reg_code reg;
          e = rex (w = W64) 0 r False 0 e;
          e = byt 0xF7 e
      in modrm_reg 3 r e)"

definition not_r :: "width \<Rightarrow> greg \<Rightarrow> encoder \<Rightarrow> encoder" where
  "not_r w reg e =
     (let r = reg_code reg;
          e = rex (w = W64) 0 r False 0 e;
          e = byt 0xF7 e
      in modrm_reg 2 r e)"

definition shl_cl :: "width \<Rightarrow> greg \<Rightarrow> encoder \<Rightarrow> encoder" where
  "shl_cl w reg e =
     (let r = reg_code reg;
          e = rex (w = W64) 0 r False 0 e;
          e = byt 0xD3 e
      in modrm_reg 4 r e)"

definition shr_cl :: "width \<Rightarrow> greg \<Rightarrow> encoder \<Rightarrow> encoder" where
  "shr_cl w reg e =
     (let r = reg_code reg;
          e = rex (w = W64) 0 r False 0 e;
          e = byt 0xD3 e
      in modrm_reg 5 r e)"

definition sar_cl :: "width \<Rightarrow> greg \<Rightarrow> encoder \<Rightarrow> encoder" where
  "sar_cl w reg e =
     (let r = reg_code reg;
          e = rex (w = W64) 0 r False 0 e;
          e = byt 0xD3 e
      in modrm_reg 7 r e)"

definition test_rr :: "width \<Rightarrow> greg \<Rightarrow> greg \<Rightarrow> encoder \<Rightarrow> encoder" where
  "test_rr w a b e =
     (let ra = reg_code a;
          rb = reg_code b;
          e = rex (w = W64) rb ra (w = W8 \<and> (needs_byte_rex ra \<or> needs_byte_rex rb)) 0 e;
          e = byt (if w = W8 then 0x84 else 0x85) e
      in modrm_reg rb ra e)"

definition setcc :: "cond \<Rightarrow> greg \<Rightarrow> encoder \<Rightarrow> encoder" where
  "setcc cond dst8 e =
     (let d = reg_code dst8;
          e = rex False 0 d (needs_byte_rex d) 0 e;
          e = byt 0x0F e;
          e = byt (0x90 OR cond_code cond) e
      in modrm_reg 0 d e)"

subsection \<open>SSE scalar float\<close>

definition movss_load :: "xreg \<Rightarrow> greg \<Rightarrow> u32 \<Rightarrow> encoder \<Rightarrow> encoder" where
  "movss_load dst base disp e =
     (let e = byt 0xF3 e;
          e = rex False (xreg_code dst) (reg_code base) False 0 e;
          e = byt 0x0F e;
          e = byt 0x10 e
      in modrm_mem (xreg_code dst) base disp e)"

definition movss_store :: "greg \<Rightarrow> u32 \<Rightarrow> xreg \<Rightarrow> encoder \<Rightarrow> encoder" where
  "movss_store base disp src e =
     (let e = byt 0xF3 e;
          e = rex False (xreg_code src) (reg_code base) False 0 e;
          e = byt 0x0F e;
          e = byt 0x11 e
      in modrm_mem (xreg_code src) base disp e)"

definition movsd_load :: "xreg \<Rightarrow> greg \<Rightarrow> u32 \<Rightarrow> encoder \<Rightarrow> encoder" where
  "movsd_load dst base disp e =
     (let e = byt 0xF2 e;
          e = rex False (xreg_code dst) (reg_code base) False 0 e;
          e = byt 0x0F e;
          e = byt 0x10 e
      in modrm_mem (xreg_code dst) base disp e)"

definition movsd_store :: "greg \<Rightarrow> u32 \<Rightarrow> xreg \<Rightarrow> encoder \<Rightarrow> encoder" where
  "movsd_store base disp src e =
     (let e = byt 0xF2 e;
          e = rex False (xreg_code src) (reg_code base) False 0 e;
          e = byt 0x0F e;
          e = byt 0x11 e
      in modrm_mem (xreg_code src) base disp e)"

definition sse_arith :: "byte \<Rightarrow> bool \<Rightarrow> xreg \<Rightarrow> xreg \<Rightarrow> encoder \<Rightarrow> encoder" where
  "sse_arith opcode is_double dst src e =
     (let e = byt (if is_double then 0xF2 else 0xF3) e;
          e = rex False (xreg_code dst) (xreg_code src) False 0 e;
          e = byt 0x0F e;
          e = byt opcode e
      in modrm_reg (xreg_code dst) (xreg_code src) e)"

definition movaps :: "xreg \<Rightarrow> xreg \<Rightarrow> encoder \<Rightarrow> encoder" where
  "movaps dst src e =
     (let e = rex False (xreg_code dst) (xreg_code src) False 0 e;
          e = byt 0x0F e;
          e = byt 0x28 e
      in modrm_reg (xreg_code dst) (xreg_code src) e)"

definition ucomis :: "bool \<Rightarrow> xreg \<Rightarrow> xreg \<Rightarrow> encoder \<Rightarrow> encoder" where
  "ucomis is_double a b e =
     (let e = (if is_double then byt 0x66 e else e);
          e = rex False (xreg_code a) (xreg_code b) False 0 e;
          e = byt 0x0F e;
          e = byt 0x2E e
      in modrm_reg (xreg_code a) (xreg_code b) e)"

definition cvt_i2f :: "bool \<Rightarrow> width \<Rightarrow> xreg \<Rightarrow> greg \<Rightarrow> encoder \<Rightarrow> encoder" where
  "cvt_i2f to_double from dst src e =
     (let e = byt (if to_double then 0xF2 else 0xF3) e;
          e = rex (from = W64) (xreg_code dst) (reg_code src) False 0 e;
          e = byt 0x0F e;
          e = byt 0x2A e
      in modrm_reg (xreg_code dst) (reg_code src) e)"

definition cvt_f2i :: "bool \<Rightarrow> width \<Rightarrow> greg \<Rightarrow> xreg \<Rightarrow> encoder \<Rightarrow> encoder" where
  "cvt_f2i from_double to dst src e =
     (let e = byt (if from_double then 0xF2 else 0xF3) e;
          e = rex (to = W64) (reg_code dst) (xreg_code src) False 0 e;
          e = byt 0x0F e;
          e = byt 0x2C e
      in modrm_reg (reg_code dst) (xreg_code src) e)"

definition cvt_f2f :: "bool \<Rightarrow> xreg \<Rightarrow> xreg \<Rightarrow> encoder \<Rightarrow> encoder" where
  "cvt_f2f to_double dst src e =
     (let e = byt (if to_double then 0xF3 else 0xF2) e;
          e = rex False (xreg_code dst) (xreg_code src) False 0 e;
          e = byt 0x0F e;
          e = byt 0x5A e
      in modrm_reg (xreg_code dst) (xreg_code src) e)"

definition mov_r_x :: "xreg \<Rightarrow> greg \<Rightarrow> encoder \<Rightarrow> encoder" where
  "mov_r_x dst src e =
     (let e = byt 0x66 e;
          e = rex True (xreg_code dst) (reg_code src) False 0 e;
          e = byt 0x0F e;
          e = byt 0x6E e
      in modrm_reg (xreg_code dst) (reg_code src) e)"

definition mov_x_r :: "greg \<Rightarrow> xreg \<Rightarrow> encoder \<Rightarrow> encoder" where
  "mov_x_r dst src e =
     (let e = byt 0x66 e;
          e = rex True (xreg_code src) (reg_code dst) False 0 e;
          e = byt 0x0F e;
          e = byt 0x7E e
      in modrm_reg (xreg_code src) (reg_code dst) e)"

subsection \<open>Control flow\<close>

definition enc_jmp :: "nat \<Rightarrow> encoder \<Rightarrow> encoder" where
  "enc_jmp target e =
     (let e = byt 0xE9 e;
          e = put_pending target e
      in imm32 0 e)"

definition jcc :: "cond \<Rightarrow> nat \<Rightarrow> encoder \<Rightarrow> encoder" where
  "jcc cond target e =
     (let e = byt 0x0F e;
          e = byt (0x80 OR cond_code cond) e;
          e = put_pending target e
      in imm32 0 e)"

definition call_sym :: "nat \<Rightarrow> encoder \<Rightarrow> encoder" where
  "call_sym symbol e =
     (let e = byt 0xE8 e;
          e = put_x86_reloc Call32 symbol (- 4) e
      in imm32 0 e)"

definition call_r :: "greg \<Rightarrow> encoder \<Rightarrow> encoder" where
  "call_r target e =
     (let t = reg_code target;
          e = rex False 0 t False 0 e;
          e = byt 0xFF e
      in modrm_reg 2 t e)"

definition enc_ret :: "encoder \<Rightarrow> encoder" where
  "enc_ret e =
     byt 0xC3 e"

definition push_r :: "greg \<Rightarrow> encoder \<Rightarrow> encoder" where
  "push_r reg e =
     (let r = reg_code reg;
          e = rex False 0 r False 0 e
      in byt (0x50 OR low3 r) e)"

definition pop_r :: "greg \<Rightarrow> encoder \<Rightarrow> encoder" where
  "pop_r reg e =
     (let r = reg_code reg;
          e = rex False 0 r False 0 e
      in byt (0x58 OR low3 r) e)"

definition sub_rsp :: "u32 \<Rightarrow> encoder \<Rightarrow> encoder" where
  "sub_rsp n e =
     alu_ri Alu_Sub W64 RSP n e"

definition add_rsp :: "u32 \<Rightarrow> encoder \<Rightarrow> encoder" where
  "add_rsp n e =
     alu_ri Alu_Add W64 RSP n e"

definition ud2 :: "encoder \<Rightarrow> encoder" where
  "ud2 e =
     (let e = byt 0x0F e
      in byt 0x0B e)"

subsection \<open>Inline assembly\<close>

definition enc_nop :: "encoder \<Rightarrow> encoder" where
  "enc_nop e =
     byt 0x90 e"

definition enc_syscall :: "encoder \<Rightarrow> encoder" where
  "enc_syscall e =
     (let e = byt 0x0F e
      in byt 0x05 e)"

definition enc_cpuid :: "encoder \<Rightarrow> encoder" where
  "enc_cpuid e =
     (let e = byt 0x0F e
      in byt 0xA2 e)"

definition alu_rm :: "alu \<Rightarrow> width \<Rightarrow> greg \<Rightarrow> greg \<Rightarrow> u32 \<Rightarrow> encoder \<Rightarrow> encoder" where
  "alu_rm op w dst base disp e =
     (let d = reg_code dst;
          e = (if w = W16 then byt 0x66 e else e);
          e = rex (w = W64) d (reg_code base) (w = W8 \<and> needs_byte_rex d) 0 e;
          e = byt (alu_code op * 8 OR (if w = W8 then 0x02 else 0x03)) e
      in modrm_mem d base disp e)"

definition alu_mr :: "alu \<Rightarrow> width \<Rightarrow> greg \<Rightarrow> u32 \<Rightarrow> greg \<Rightarrow> encoder \<Rightarrow> encoder" where
  "alu_mr op w base disp src e =
     (let s = reg_code src;
          e = (if w = W16 then byt 0x66 e else e);
          e = rex (w = W64) s (reg_code base) (w = W8 \<and> needs_byte_rex s) 0 e;
          e = byt (alu_code op * 8 OR (if w = W8 then 0x00 else 0x01)) e
      in modrm_mem s base disp e)"

definition alu_mi :: "alu \<Rightarrow> width \<Rightarrow> greg \<Rightarrow> u32 \<Rightarrow> u32 \<Rightarrow> encoder \<Rightarrow> encoder" where
  "alu_mi op w base disp imm e =
     (let e = (if w = W16 then byt 0x66 e else e);
          e = rex (w = W64) 0 (reg_code base) False 0 e;
          e = byt (if w = W8 then 0x80 else 0x81) e;
          e = modrm_mem (alu_code op) base disp e
      in enc_imm w imm e)"

definition mov_mi :: "width \<Rightarrow> greg \<Rightarrow> u32 \<Rightarrow> u32 \<Rightarrow> encoder \<Rightarrow> encoder" where
  "mov_mi w base disp imm e =
     (let e = (if w = W16 then byt 0x66 e else e);
          e = rex (w = W64) 0 (reg_code base) False 0 e;
          e = byt (if w = W8 then 0xC6 else 0xC7) e;
          e = modrm_mem 0 base disp e
      in enc_imm w imm e)"

definition movzx_m :: "width \<Rightarrow> greg \<Rightarrow> greg \<Rightarrow> u32 \<Rightarrow> encoder \<Rightarrow> encoder" where
  "movzx_m from dst base disp e =
     (let d = reg_code dst
      in if from = W32 \<or> from = W64 then
           (let e = rex False d (reg_code base) False 0 e;
                e = byt 0x8B e
            in modrm_mem d base disp e)
         else
           (let e = rex True d (reg_code base) False 0 e;
                e = byt 0x0F e;
                e = byt (if from = W8 then 0xB6 else 0xB7) e
            in modrm_mem d base disp e))"

definition unary_m :: "byte \<Rightarrow> width \<Rightarrow> greg \<Rightarrow> u32 \<Rightarrow> encoder \<Rightarrow> encoder" where
  "unary_m slot w base disp e =
     (let e = (if w = W16 then byt 0x66 e else e);
          e = rex (w = W64) 0 (reg_code base) False 0 e;
          e = byt (unary_opcode slot w) e
      in modrm_mem slot base disp e)"

definition unary_r :: "byte \<Rightarrow> width \<Rightarrow> greg \<Rightarrow> encoder \<Rightarrow> encoder" where
  "unary_r slot w reg e =
     (let r = reg_code reg;
          e = (if w = W16 then byt 0x66 e else e);
          e = rex (w = W64) 0 r (w = W8 \<and> needs_byte_rex r) 0 e;
          e = byt (unary_opcode slot w) e
      in modrm_reg slot r e)"

subsection \<open>Spilled operands\<close>

definition div_m :: "greg \<Rightarrow> u32 \<Rightarrow> encoder \<Rightarrow> encoder" where
  "div_m base disp e =
     (let e = rex True 0 (reg_code base) False 0 e;
          e = byt 0xF7 e
      in modrm_mem 6 base disp e)"

definition idiv_m :: "greg \<Rightarrow> u32 \<Rightarrow> encoder \<Rightarrow> encoder" where
  "idiv_m base disp e =
     (let e = rex True 0 (reg_code base) False 0 e;
          e = byt 0xF7 e
      in modrm_mem 7 base disp e)"

definition imul_rm :: "greg \<Rightarrow> greg \<Rightarrow> u32 \<Rightarrow> encoder \<Rightarrow> encoder" where
  "imul_rm dst base disp e =
     (let d = reg_code dst;
          e = rex True d (reg_code base) False 0 e;
          e = byt 0x0F e;
          e = byt 0xAF e
      in modrm_mem d base disp e)"

definition sse_arith_m :: "byte \<Rightarrow> bool \<Rightarrow> xreg \<Rightarrow> greg \<Rightarrow> u32 \<Rightarrow> encoder \<Rightarrow> encoder" where
  "sse_arith_m opcode is_double dst base disp e =
     (let e = byt (if is_double then 0xF2 else 0xF3) e;
          e = rex False (xreg_code dst) (reg_code base) False 0 e;
          e = byt 0x0F e;
          e = byt opcode e
      in modrm_mem (xreg_code dst) base disp e)"

definition ucomis_m :: "bool \<Rightarrow> xreg \<Rightarrow> greg \<Rightarrow> u32 \<Rightarrow> encoder \<Rightarrow> encoder" where
  "ucomis_m is_double a base disp e =
     (let e = (if is_double then byt 0x66 e else e);
          e = rex False (xreg_code a) (reg_code base) False 0 e;
          e = byt 0x0F e;
          e = byt 0x2E e
      in modrm_mem (xreg_code a) base disp e)"

definition push_m :: "greg \<Rightarrow> u32 \<Rightarrow> encoder \<Rightarrow> encoder" where
  "push_m base disp e =
     (let e = rex False 0 (reg_code base) False 0 e;
          e = byt 0xFF e
      in modrm_mem 6 base disp e)"

definition pop_m :: "greg \<Rightarrow> u32 \<Rightarrow> encoder \<Rightarrow> encoder" where
  "pop_m base disp e =
     (let e = rex False 0 (reg_code base) False 0 e;
          e = byt 0x8F e
      in modrm_mem 0 base disp e)"

subsection \<open>Method calls as data\<close>

datatype (plugins only: code size) move_call =
    X_mov_ri greg u64
  | X_mov_rr width greg greg
  | X_load width greg greg u32
  | X_store width greg u32 greg
  | X_movzx width greg greg
  | X_movsx width greg greg
  | X_lea greg greg u32
  | X_lea_rip greg nat int

primrec move_step :: "move_call \<Rightarrow> encoder \<Rightarrow> encoder" where
  "move_step (X_mov_ri dst imm) = mov_ri dst imm"
| "move_step (X_mov_rr w dst src) = mov_rr w dst src"
| "move_step (X_load w dst base disp) = enc_load w dst base disp"
| "move_step (X_store w base disp src) = enc_store w base disp src"
| "move_step (X_movzx from dst src) = movzx from dst src"
| "move_step (X_movsx from dst src) = movsx from dst src"
| "move_step (X_lea dst base disp) = lea dst base disp"
| "move_step (X_lea_rip dst symbol addend) = lea_rip dst symbol addend"

datatype (plugins only: code size) arith_call =
    X_alu_rr alu width greg greg
  | X_alu_ri alu width greg u32
  | X_imul_rr greg greg
  | X_cqo
  | X_zero_r greg
  | X_div_r greg
  | X_idiv_r greg
  | X_neg_r width greg
  | X_not_r width greg
  | X_shl_cl width greg
  | X_shr_cl width greg
  | X_sar_cl width greg
  | X_test_rr width greg greg
  | X_setcc cond greg

primrec arith_step :: "arith_call \<Rightarrow> encoder \<Rightarrow> encoder" where
  "arith_step (X_alu_rr op w dst src) = alu_rr op w dst src"
| "arith_step (X_alu_ri op w dst imm) = alu_ri op w dst imm"
| "arith_step (X_imul_rr dst src) = imul_rr dst src"
| "arith_step X_cqo = cqo"
| "arith_step (X_zero_r reg) = zero_r reg"
| "arith_step (X_div_r src) = div_r src"
| "arith_step (X_idiv_r src) = idiv_r src"
| "arith_step (X_neg_r w reg) = neg_r w reg"
| "arith_step (X_not_r w reg) = not_r w reg"
| "arith_step (X_shl_cl w reg) = shl_cl w reg"
| "arith_step (X_shr_cl w reg) = shr_cl w reg"
| "arith_step (X_sar_cl w reg) = sar_cl w reg"
| "arith_step (X_test_rr w a b) = test_rr w a b"
| "arith_step (X_setcc cond dst8) = setcc cond dst8"

datatype (plugins only: code size) sse_call =
    X_movss_load xreg greg u32
  | X_movss_store greg u32 xreg
  | X_movsd_load xreg greg u32
  | X_movsd_store greg u32 xreg
  | X_sse_arith byte bool xreg xreg
  | X_movaps xreg xreg
  | X_ucomis bool xreg xreg
  | X_cvt_i2f bool width xreg greg
  | X_cvt_f2i bool width greg xreg
  | X_cvt_f2f bool xreg xreg
  | X_mov_r_x xreg greg
  | X_mov_x_r greg xreg

primrec sse_step :: "sse_call \<Rightarrow> encoder \<Rightarrow> encoder" where
  "sse_step (X_movss_load dst base disp) = movss_load dst base disp"
| "sse_step (X_movss_store base disp src) = movss_store base disp src"
| "sse_step (X_movsd_load dst base disp) = movsd_load dst base disp"
| "sse_step (X_movsd_store base disp src) = movsd_store base disp src"
| "sse_step (X_sse_arith opcode is_double dst src) = sse_arith opcode is_double dst src"
| "sse_step (X_movaps dst src) = movaps dst src"
| "sse_step (X_ucomis is_double a b) = ucomis is_double a b"
| "sse_step (X_cvt_i2f to_double from dst src) = cvt_i2f to_double from dst src"
| "sse_step (X_cvt_f2i from_double to dst src) = cvt_f2i from_double to dst src"
| "sse_step (X_cvt_f2f to_double dst src) = cvt_f2f to_double dst src"
| "sse_step (X_mov_r_x dst src) = mov_r_x dst src"
| "sse_step (X_mov_x_r dst src) = mov_x_r dst src"

datatype (plugins only: code size) flow_call =
    X_jmp nat
  | X_jcc cond nat
  | X_call_sym nat
  | X_call_r greg
  | X_ret
  | X_push_r greg
  | X_pop_r greg
  | X_sub_rsp u32
  | X_add_rsp u32
  | X_ud2

primrec flow_step :: "flow_call \<Rightarrow> encoder \<Rightarrow> encoder" where
  "flow_step (X_jmp target) = enc_jmp target"
| "flow_step (X_jcc cond target) = jcc cond target"
| "flow_step (X_call_sym symbol) = call_sym symbol"
| "flow_step (X_call_r target) = call_r target"
| "flow_step X_ret = enc_ret"
| "flow_step (X_push_r reg) = push_r reg"
| "flow_step (X_pop_r reg) = pop_r reg"
| "flow_step (X_sub_rsp n) = sub_rsp n"
| "flow_step (X_add_rsp n) = add_rsp n"
| "flow_step X_ud2 = ud2"

datatype (plugins only: code size) asm_call =
    X_nop
  | X_syscall
  | X_cpuid
  | X_alu_rm alu width greg greg u32
  | X_alu_mr alu width greg u32 greg
  | X_alu_mi alu width greg u32 u32
  | X_mov_mi width greg u32 u32
  | X_movzx_m width greg greg u32
  | X_unary_m byte width greg u32
  | X_unary_r byte width greg

primrec asm_step :: "asm_call \<Rightarrow> encoder \<Rightarrow> encoder" where
  "asm_step X_nop = enc_nop"
| "asm_step X_syscall = enc_syscall"
| "asm_step X_cpuid = enc_cpuid"
| "asm_step (X_alu_rm op w dst base disp) = alu_rm op w dst base disp"
| "asm_step (X_alu_mr op w base disp src) = alu_mr op w base disp src"
| "asm_step (X_alu_mi op w base disp imm) = alu_mi op w base disp imm"
| "asm_step (X_mov_mi w base disp imm) = mov_mi w base disp imm"
| "asm_step (X_movzx_m from dst base disp) = movzx_m from dst base disp"
| "asm_step (X_unary_m slot w base disp) = unary_m slot w base disp"
| "asm_step (X_unary_r slot w reg) = unary_r slot w reg"

datatype (plugins only: code size) memop_call =
    X_div_m greg u32
  | X_idiv_m greg u32
  | X_imul_rm greg greg u32
  | X_sse_arith_m byte bool xreg greg u32
  | X_ucomis_m bool xreg greg u32
  | X_push_m greg u32
  | X_pop_m greg u32

primrec memop_step :: "memop_call \<Rightarrow> encoder \<Rightarrow> encoder" where
  "memop_step (X_div_m base disp) = div_m base disp"
| "memop_step (X_idiv_m base disp) = idiv_m base disp"
| "memop_step (X_imul_rm dst base disp) = imul_rm dst base disp"
| "memop_step (X_sse_arith_m opcode is_double dst base disp) = sse_arith_m opcode is_double dst base disp"
| "memop_step (X_ucomis_m is_double a base disp) = ucomis_m is_double a base disp"
| "memop_step (X_push_m base disp) = push_m base disp"
| "memop_step (X_pop_m base disp) = pop_m base disp"

datatype x86_call =
    Move move_call | Arith arith_call | Sse sse_call | Flow flow_call | Asm asm_call | Memop memop_call

primrec x86_step :: "x86_call \<Rightarrow> encoder \<Rightarrow> encoder" where
  "x86_step (Move c) = move_step c"
| "x86_step (Arith c) = arith_step c"
| "x86_step (Sse c) = sse_step c"
| "x86_step (Flow c) = flow_step c"
| "x86_step (Asm c) = asm_step c"
| "x86_step (Memop c) = memop_step c"

lemmas x86_method_defs =
  mov_ri_def mov_rr_def enc_load_def enc_store_def movzx_def movsx_def lea_def lea_rip_def
  alu_rr_def alu_ri_def imul_rr_def cqo_def zero_r_def div_r_def idiv_r_def neg_r_def not_r_def
  shl_cl_def shr_cl_def sar_cl_def test_rr_def setcc_def movss_load_def movss_store_def
  movsd_load_def movsd_store_def sse_arith_def movaps_def ucomis_def cvt_i2f_def cvt_f2i_def
  cvt_f2f_def mov_r_x_def mov_x_r_def enc_jmp_def jcc_def call_sym_def call_r_def enc_ret_def
  push_r_def pop_r_def sub_rsp_def add_rsp_def ud2_def enc_nop_def enc_syscall_def enc_cpuid_def
  alu_rm_def alu_mr_def alu_mi_def mov_mi_def movzx_m_def unary_m_def unary_r_def div_m_def
  idiv_m_def imul_rm_def sse_arith_m_def ucomis_m_def push_m_def pop_m_def

end
