(* ===== verification/X86_Disasm.thy ===== *)
theory X86_Disasm
  imports X86_Encoder
begin

text \<open>
  A disassembler for the part of the x86-64 instruction set the encoder emits, written from the
  opcode maps of the architecture manual, and the proof that each emitter writes the one instruction
  it is named for. Prefixes, REX bits, ModRM and SIB are decoded generically; a byte register coded 4
  to 7 without a REX prefix is one of the legacy high-byte registers.
\<close>

subsection \<open>The disassembler\<close>

text \<open>
  A memory operand carries the width of the access; the operand of \<^verbatim>\<open>lea\<close>, which does not access memory, is an address.
\<close>

datatype operand =
    O_Gpr width nat | O_High nat | O_Xmm nat | O_Mem width nat nat | O_Rip width nat
  | O_Addr nat nat | O_Rip_Addr nat | O_Imm nat | O_Rel nat | O_CL

type_synonym minst = "string \<times> operand list"

datatype rm_operand = RM_Reg nat | RM_Mem nat nat | RM_Rip nat

record dctx =
  c_legacy :: "byte option"
  c_rex :: bool
  c_w :: bool
  c_r :: bool
  c_b :: bool

definition ctx0 :: "byte option \<Rightarrow> dctx" where
  "ctx0 l = \<lparr> c_legacy = l, c_rex = False, c_w = False, c_r = False, c_b = False \<rparr>"

definition dec_legacy :: "bytes \<Rightarrow> byte option \<times> bytes" where
  "dec_legacy bs =
     (case bs of [] \<Rightarrow> (None, [])
      | b # r \<Rightarrow> if b = 0x66 \<or> b = 0xF2 \<or> b = 0xF3 then (Some b, r) else (None, bs))"

definition dec_rex :: "byte option \<Rightarrow> bytes \<Rightarrow> dctx \<times> bytes" where
  "dec_rex l bs =
     (case bs of [] \<Rightarrow> (ctx0 l, [])
      | b # r \<Rightarrow>
          if b AND 0xF0 = 0x40
          then (\<lparr> c_legacy = l, c_rex = True, c_w = b AND 8 \<noteq> 0, c_r = b AND 4 \<noteq> 0, c_b = b AND 1 \<noteq> 0 \<rparr>, r)
          else (ctx0 l, bs))"

definition dec_disp :: "(nat \<Rightarrow> rm_operand) \<Rightarrow> bytes \<Rightarrow> (rm_operand \<times> bytes) option" where
  "dec_disp f bs = do { (d, bs) \<leftarrow> dec_bytes 4 bs; Some (f (le_nat d), bs) }"

definition high_bit :: "bool \<Rightarrow> nat" where
  "high_bit b = (if b then 8 else 0)"

text \<open>The \<^verbatim>\<open>/digit\<close> field, the register it selects, and the operand of the r/m field.\<close>

definition dec_modrm :: "dctx \<Rightarrow> bytes \<Rightarrow> ((nat \<times> nat \<times> rm_operand) \<times> bytes) option" where
  "dec_modrm c bs =
     (case bs of [] \<Rightarrow> None
      | m # bs \<Rightarrow>
          let mode = unat m div 64; digit = unat m div 8 mod 8; rm = unat m mod 8
          in do { (p, bs) \<leftarrow>
                    (if mode = 3 then Some (RM_Reg (rm + high_bit (c_b c)), bs)
                     else if mode = 2 \<and> rm = 4 then
                       do { bs \<leftarrow> dec_byte 0x24 bs; dec_disp (RM_Mem (4 + high_bit (c_b c))) bs }
                     else if mode = 2 then dec_disp (RM_Mem (rm + high_bit (c_b c))) bs
                     else if mode = 0 \<and> rm = 5 then dec_disp RM_Rip bs
                     else None);
                  Some ((digit, digit + high_bit (c_r c), p), bs) })"

definition vwidth :: "dctx \<Rightarrow> width" where
  "vwidth c = (if c_w c then W64 else if c_legacy c = Some 0x66 then W16 else W32)"

definition gpr :: "dctx \<Rightarrow> width \<Rightarrow> nat \<Rightarrow> operand" where
  "gpr c w n = (if w = W8 \<and> \<not> c_rex c \<and> 4 \<le> n \<and> n < 8 then O_High n else O_Gpr w n)"

fun rm_gpr :: "dctx \<Rightarrow> width \<Rightarrow> rm_operand \<Rightarrow> operand" where
  "rm_gpr c w (RM_Reg n) = gpr c w n"
| "rm_gpr c w (RM_Mem b d) = O_Mem w b d"
| "rm_gpr c w (RM_Rip d) = O_Rip w d"

text \<open>A scalar in an SSE register, or in memory at the width of the scalar.\<close>

fun rm_xmm :: "width \<Rightarrow> rm_operand \<Rightarrow> operand" where
  "rm_xmm w (RM_Reg n) = O_Xmm n"
| "rm_xmm w (RM_Mem b d) = O_Mem w b d"
| "rm_xmm w (RM_Rip d) = O_Rip w d"

fun rm_addr :: "rm_operand \<Rightarrow> operand option" where
  "rm_addr (RM_Reg n) = None"
| "rm_addr (RM_Mem b d) = Some (O_Addr b d)"
| "rm_addr (RM_Rip d) = Some (O_Rip_Addr d)"

fun rm_xreg :: "rm_operand \<Rightarrow> operand option" where
  "rm_xreg (RM_Reg n) = Some (O_Xmm n)"
| "rm_xreg _ = None"

definition dec_imm :: "nat \<Rightarrow> (nat \<Rightarrow> operand) \<Rightarrow> string \<Rightarrow> operand list \<Rightarrow> bytes \<Rightarrow> (minst \<times> bytes) option" where
  "dec_imm n f mn ops bs = do { (v, bs) \<leftarrow> dec_bytes n bs; Some ((mn, ops @ [f (le_nat v)]), bs) }"

definition alu_name :: "nat \<Rightarrow> string option" where
  "alu_name k =
     (if k = 0 then Some ''add'' else if k = 1 then Some ''or'' else if k = 4 then Some ''and''
      else if k = 5 then Some ''sub'' else if k = 6 then Some ''xor'' else if k = 7 then Some ''cmp''
      else None)"

definition shift_name :: "nat \<Rightarrow> string option" where
  "shift_name k = (if k = 4 then Some ''shl'' else if k = 5 then Some ''shr'' else if k = 7 then Some ''sar'' else None)"

definition unary_name :: "nat \<Rightarrow> string option" where
  "unary_name k = (if k = 2 then Some ''not'' else if k = 3 then Some ''neg'' else if k = 6 then Some ''div''
     else if k = 7 then Some ''idiv'' else None)"

definition incdec_name :: "nat \<Rightarrow> string option" where
  "incdec_name k = (if k = 0 then Some ''inc'' else if k = 1 then Some ''dec'' else None)"

definition cond_name :: "nat \<Rightarrow> string option" where
  "cond_name k =
     (if k = 2 then Some ''b'' else if k = 3 then Some ''ae'' else if k = 4 then Some ''e''
      else if k = 5 then Some ''ne'' else if k = 6 then Some ''be'' else if k = 7 then Some ''a''
      else if k = 10 then Some ''p'' else if k = 11 then Some ''np'' else if k = 12 then Some ''l''
      else if k = 13 then Some ''ge'' else if k = 14 then Some ''le'' else if k = 15 then Some ''g''
      else None)"

definition imm_bytes :: "width \<Rightarrow> nat" where
  "imm_bytes w = (case w of W8 \<Rightarrow> 1 | W16 \<Rightarrow> 2 | _ \<Rightarrow> 4)"

definition disasm_1 :: "dctx \<Rightarrow> nat \<Rightarrow> bytes \<Rightarrow> (minst \<times> bytes) option" where
  "disasm_1 c k bs =
     (if 0x50 \<le> k \<and> k < 0x58 then Some ((''push'', [O_Gpr W64 (k - 0x50 + high_bit (c_b c))]), bs)
      else if 0x58 \<le> k \<and> k < 0x60 then Some ((''pop'', [O_Gpr W64 (k - 0x58 + high_bit (c_b c))]), bs)
      else if 0xB8 \<le> k \<and> k < 0xC0 then
        (let w = if c_w c then W64 else W32
         in dec_imm (if c_w c then 8 else 4) O_Imm ''mov'' [O_Gpr w (k - 0xB8 + high_bit (c_b c))] bs)
      else if k = 0x90 then Some ((''nop'', []), bs)
      else if k = 0x99 then if c_w c then Some ((''cqo'', []), bs) else None
      else if k = 0xC3 then Some ((''ret'', []), bs)
      else if k = 0xE8 then dec_imm 4 O_Rel ''call'' [] bs
      else if k = 0xE9 then dec_imm 4 O_Rel ''jmp'' [] bs
      else
        do { ((digit, n, p), bs) \<leftarrow> dec_modrm c bs;
             (let w = if even k then W8 else vwidth c; r = gpr c w n; m = rm_gpr c w p
              in if k < 0x40 \<and> k mod 8 < 4 then
                   do { nm \<leftarrow> alu_name (k div 8); Some ((nm, if k mod 8 < 2 then [m, r] else [r, m]), bs) }
                 else if k = 0x63 then Some ((''movsxd'', [gpr c (vwidth c) n, rm_gpr c W32 p]), bs)
                 else if k = 0x80 \<or> k = 0x81 then
                   do { nm \<leftarrow> alu_name digit; dec_imm (imm_bytes w) O_Imm nm [m] bs }
                 else if k = 0x84 \<or> k = 0x85 then Some ((''test'', [m, r]), bs)
                 else if k = 0x88 \<or> k = 0x89 then Some ((''mov'', [m, r]), bs)
                 else if k = 0x8A \<or> k = 0x8B then Some ((''mov'', [r, m]), bs)
                 else if k = 0x8D then do { a \<leftarrow> rm_addr p; Some ((''lea'', [r, a]), bs) }
                 else if k = 0x8F \<and> digit = 0 then Some ((''pop'', [rm_gpr c W64 p]), bs)
                 else if (k = 0xC6 \<or> k = 0xC7) \<and> digit = 0 then dec_imm (imm_bytes w) O_Imm ''mov'' [m] bs
                 else if k = 0xD3 then do { nm \<leftarrow> shift_name digit; Some ((nm, [m, O_CL]), bs) }
                 else if k = 0xF6 \<or> k = 0xF7 then do { nm \<leftarrow> unary_name digit; Some ((nm, [m]), bs) }
                 else if k = 0xFF \<and> digit = 2 then Some ((''call'', [rm_gpr c W64 p]), bs)
                 else if k = 0xFF \<and> digit = 6 then Some ((''push'', [rm_gpr c W64 p]), bs)
                 else if k = 0xFE \<or> k = 0xFF then do { nm \<leftarrow> incdec_name digit; Some ((nm, [m]), bs) }
                 else None) })"

definition scalar :: "dctx \<Rightarrow> (string \<times> width) option" where
  "scalar c = (if c_legacy c = Some 0xF3 then Some (''ss'', W32) else if c_legacy c = Some 0xF2 then Some (''sd'', W64) else None)"

definition sse_name :: "nat \<Rightarrow> string option" where
  "sse_name k = (if k = 0x58 then Some ''add'' else if k = 0x59 then Some ''mul''
     else if k = 0x5C then Some ''sub'' else if k = 0x5E then Some ''div'' else None)"

definition disasm_0f :: "dctx \<Rightarrow> nat \<Rightarrow> bytes \<Rightarrow> (minst \<times> bytes) option" where
  "disasm_0f c k bs =
     (if k = 0x05 then Some ((''syscall'', []), bs)
      else if k = 0x0B then Some ((''ud2'', []), bs)
      else if k = 0xA2 then Some ((''cpuid'', []), bs)
      else if 0x80 \<le> k \<and> k < 0x90 then
        do { nm \<leftarrow> cond_name (k - 0x80); dec_imm 4 O_Rel (CHR ''j'' # nm) [] bs }
      else
        do { ((digit, n, p), bs) \<leftarrow> dec_modrm c bs;
             (let v = vwidth c; iw = if c_w c then W64 else W32
              in if 0x90 \<le> k \<and> k < 0xA0 then
                   do { nm \<leftarrow> cond_name (k - 0x90); Some ((''set'' @ nm, [rm_gpr c W8 p]), bs) }
                 else if k = 0xAF then Some ((''imul'', [gpr c v n, rm_gpr c v p]), bs)
                 else if k = 0xB6 then Some ((''movzx'', [gpr c v n, rm_gpr c W8 p]), bs)
                 else if k = 0xB7 then Some ((''movzx'', [gpr c v n, rm_gpr c W16 p]), bs)
                 else if k = 0xBE then Some ((''movsx'', [gpr c v n, rm_gpr c W8 p]), bs)
                 else if k = 0xBF then Some ((''movsx'', [gpr c v n, rm_gpr c W16 p]), bs)
                 else if k = 0x28 then if c_legacy c = None then do { x \<leftarrow> rm_xreg p; Some ((''movaps'', [O_Xmm n, x]), bs) } else None
                 else if k = 0x2E then
                   if c_legacy c = None then Some ((''ucomiss'', [O_Xmm n, rm_xmm W32 p]), bs)
                   else if c_legacy c = Some 0x66 then Some ((''ucomisd'', [O_Xmm n, rm_xmm W64 p]), bs)
                   else None
                 else if k = 0x6E then
                   if c_legacy c = Some 0x66 \<and> c_w c then Some ((''movq'', [O_Xmm n, rm_gpr c W64 p]), bs) else None
                 else if k = 0x7E then
                   if c_legacy c = Some 0x66 \<and> c_w c then Some ((''movq'', [rm_gpr c W64 p, O_Xmm n]), bs) else None
                 else
                   do { (sx, sw) \<leftarrow> scalar c;
                        if k = 0x10 then Some ((''mov'' @ sx, [O_Xmm n, rm_xmm sw p]), bs)
                        else if k = 0x11 then Some ((''mov'' @ sx, [rm_xmm sw p, O_Xmm n]), bs)
                        else if k = 0x2A then Some ((''cvtsi2'' @ sx, [O_Xmm n, rm_gpr c iw p]), bs)
                        else if k = 0x2C then Some ((''cvtt'' @ sx @ ''2si'', [gpr c iw n, rm_xmm sw p]), bs)
                        else if k = 0x5A then
                          Some ((if sx = ''ss'' then ''cvtss2sd'' else ''cvtsd2ss'', [O_Xmm n, rm_xmm sw p]), bs)
                        else do { nm \<leftarrow> sse_name k; Some ((nm @ sx, [O_Xmm n, rm_xmm sw p]), bs) } }) })"

definition disasm_op :: "dctx \<Rightarrow> bytes \<Rightarrow> (minst \<times> bytes) option" where
  "disasm_op c bs =
     (case bs of [] \<Rightarrow> None
      | b # r \<Rightarrow>
          if b = 0x0F then (case r of [] \<Rightarrow> None | b' # r' \<Rightarrow> disasm_0f c (unat b') r')
          else disasm_1 c (unat b) r)"

definition disasm :: "bytes \<Rightarrow> (minst \<times> bytes) option" where
  "disasm bs =
     (let (l, bs) = dec_legacy bs; (c, bs) = dec_rex l bs in disasm_op c bs)"

subsection \<open>The instruction behind each method\<close>

definition G :: "width \<Rightarrow> greg \<Rightarrow> operand" where
  "G w r = O_Gpr w (unat (reg_code r))"

definition X :: "xreg \<Rightarrow> operand" where
  "X r = O_Xmm (unat (xreg_code r))"

definition M :: "width \<Rightarrow> greg \<Rightarrow> u32 \<Rightarrow> operand" where
  "M w base disp = O_Mem w (unat (reg_code base)) (unat disp)"

definition imm_of :: "width \<Rightarrow> u32 \<Rightarrow> operand" where
  "imm_of w imm = O_Imm (case w of W8 \<Rightarrow> unat imm mod 2 ^ 8 | W16 \<Rightarrow> unat imm mod 2 ^ 16 | _ \<Rightarrow> unat imm)"

primrec alu_mnemonic :: "alu \<Rightarrow> string" where
  "alu_mnemonic Alu_Add = ''add''" | "alu_mnemonic Alu_Or = ''or''" | "alu_mnemonic Alu_And = ''and''"
| "alu_mnemonic Alu_Sub = ''sub''" | "alu_mnemonic Alu_Xor = ''xor''" | "alu_mnemonic Alu_Cmp = ''cmp''"

primrec cond_mnemonic :: "cond \<Rightarrow> string" where
  "cond_mnemonic Cond_E = ''e''" | "cond_mnemonic Cond_NE = ''ne''" | "cond_mnemonic Cond_L = ''l''"
| "cond_mnemonic Cond_LE = ''le''" | "cond_mnemonic Cond_G = ''g''" | "cond_mnemonic Cond_GE = ''ge''"
| "cond_mnemonic Cond_B = ''b''" | "cond_mnemonic Cond_BE = ''be''" | "cond_mnemonic Cond_A = ''a''"
| "cond_mnemonic Cond_AE = ''ae''" | "cond_mnemonic Cond_P = ''p''" | "cond_mnemonic Cond_NP = ''np''"

definition scalar_suffix :: "bool \<Rightarrow> string" where
  "scalar_suffix is_double = (if is_double then ''sd'' else ''ss'')"

definition scalar_width :: "bool \<Rightarrow> width" where
  "scalar_width is_double = (if is_double then W64 else W32)"

definition sse_mnemonic :: "byte \<Rightarrow> string" where
  "sse_mnemonic k = (if k = 0x58 then ''add'' else if k = 0x59 then ''mul'' else if k = 0x5C then ''sub'' else ''div'')"

definition unary_mnemonic :: "byte \<Rightarrow> string" where
  "unary_mnemonic k = (if k = 0 then ''inc'' else if k = 1 then ''dec'' else if k = 2 then ''not'' else ''neg'')"

primrec move_inst :: "move_call \<Rightarrow> minst" where
  "move_inst (X_mov_ri dst imm) =
     (''mov'', [G (if unat imm < 2 ^ 31 then W32 else W64) dst, O_Imm (unat imm)])"
| "move_inst (X_mov_rr w dst src) = (''mov'', [G w dst, G w src])"
| "move_inst (X_load w dst base disp) = (''mov'', [G w dst, M w base disp])"
| "move_inst (X_store w base disp src) = (''mov'', [M w base disp, G w src])"
| "move_inst (X_movzx from dst src) =
     (if from = W32 then (''mov'', [G W32 dst, G W32 src]) else (''movzx'', [G W64 dst, G from src]))"
| "move_inst (X_movsx from dst src) =
     (if from = W32 then ''movsxd'' else ''movsx'', [G W64 dst, G from src])"
| "move_inst (X_lea dst base disp) = (''lea'', [G W64 dst, O_Addr (unat (reg_code base)) (unat disp)])"
| "move_inst (X_lea_rip dst symbol addend) = (''lea'', [G W64 dst, O_Rip_Addr 0])"

primrec arith_inst :: "arith_call \<Rightarrow> minst" where
  "arith_inst (X_alu_rr op w dst src) = (alu_mnemonic op, [G w dst, G w src])"
| "arith_inst (X_alu_ri op w dst imm) = (alu_mnemonic op, [G w dst, imm_of w imm])"
| "arith_inst (X_imul_rr dst src) = (''imul'', [G W64 dst, G W64 src])"
| "arith_inst X_cqo = (''cqo'', [])"
| "arith_inst (X_zero_r reg) = (''xor'', [G W32 reg, G W32 reg])"
| "arith_inst (X_div_r src) = (''div'', [G W64 src])"
| "arith_inst (X_idiv_r src) = (''idiv'', [G W64 src])"
| "arith_inst (X_neg_r w reg) = (''neg'', [G w reg])"
| "arith_inst (X_not_r w reg) = (''not'', [G w reg])"
| "arith_inst (X_shl_cl w reg) = (''shl'', [G w reg, O_CL])"
| "arith_inst (X_shr_cl w reg) = (''shr'', [G w reg, O_CL])"
| "arith_inst (X_sar_cl w reg) = (''sar'', [G w reg, O_CL])"
| "arith_inst (X_test_rr w a b) = (''test'', [G w a, G w b])"
| "arith_inst (X_setcc cond dst8) = (''set'' @ cond_mnemonic cond, [G W8 dst8])"

primrec sse_inst :: "sse_call \<Rightarrow> minst" where
  "sse_inst (X_movss_load dst base disp) = (''movss'', [X dst, M W32 base disp])"
| "sse_inst (X_movss_store base disp src) = (''movss'', [M W32 base disp, X src])"
| "sse_inst (X_movsd_load dst base disp) = (''movsd'', [X dst, M W64 base disp])"
| "sse_inst (X_movsd_store base disp src) = (''movsd'', [M W64 base disp, X src])"
| "sse_inst (X_sse_arith opcode is_double dst src) =
     (sse_mnemonic opcode @ scalar_suffix is_double, [X dst, X src])"
| "sse_inst (X_movaps dst src) = (''movaps'', [X dst, X src])"
| "sse_inst (X_ucomis is_double a b) = (''ucomi'' @ scalar_suffix is_double, [X a, X b])"
| "sse_inst (X_cvt_i2f to_double from dst src) =
     (''cvtsi2'' @ scalar_suffix to_double, [X dst, G from src])"
| "sse_inst (X_cvt_f2i from_double to dst src) =
     (''cvtt'' @ scalar_suffix from_double @ ''2si'', [G to dst, X src])"
| "sse_inst (X_cvt_f2f to_double dst src) =
     (if to_double then ''cvtss2sd'' else ''cvtsd2ss'', [X dst, X src])"
| "sse_inst (X_mov_r_x dst src) = (''movq'', [X dst, G W64 src])"
| "sse_inst (X_mov_x_r dst src) = (''movq'', [G W64 dst, X src])"

primrec flow_inst :: "flow_call \<Rightarrow> minst" where
  "flow_inst (X_jmp target) = (''jmp'', [O_Rel 0])"
| "flow_inst (X_jcc cond target) = (CHR ''j'' # cond_mnemonic cond, [O_Rel 0])"
| "flow_inst (X_call_sym symbol) = (''call'', [O_Rel 0])"
| "flow_inst (X_call_r target) = (''call'', [G W64 target])"
| "flow_inst X_ret = (''ret'', [])"
| "flow_inst (X_push_r reg) = (''push'', [G W64 reg])"
| "flow_inst (X_pop_r reg) = (''pop'', [G W64 reg])"
| "flow_inst (X_sub_rsp n) = (''sub'', [G W64 RSP, O_Imm (unat n)])"
| "flow_inst (X_add_rsp n) = (''add'', [G W64 RSP, O_Imm (unat n)])"
| "flow_inst X_ud2 = (''ud2'', [])"

primrec asm_inst :: "asm_call \<Rightarrow> minst" where
  "asm_inst X_nop = (''nop'', [])"
| "asm_inst X_syscall = (''syscall'', [])"
| "asm_inst X_cpuid = (''cpuid'', [])"
| "asm_inst (X_alu_rm op w dst base disp) = (alu_mnemonic op, [G w dst, M w base disp])"
| "asm_inst (X_alu_mr op w base disp src) = (alu_mnemonic op, [M w base disp, G w src])"
| "asm_inst (X_alu_mi op w base disp imm) = (alu_mnemonic op, [M w base disp, imm_of w imm])"
| "asm_inst (X_mov_mi w base disp imm) = (''mov'', [M w base disp, imm_of w imm])"
| "asm_inst (X_movzx_m from dst base disp) =
     (if from = W32 then (''mov'', [G W32 dst, M W32 base disp]) else (''movzx'', [G W64 dst, M from base disp]))"
| "asm_inst (X_unary_m slot w base disp) = (unary_mnemonic slot, [M w base disp])"
| "asm_inst (X_unary_r slot w reg) = (unary_mnemonic slot, [G w reg])"

primrec memop_inst :: "memop_call \<Rightarrow> minst" where
  "memop_inst (X_div_m base disp) = (''div'', [M W64 base disp])"
| "memop_inst (X_idiv_m base disp) = (''idiv'', [M W64 base disp])"
| "memop_inst (X_imul_rm dst base disp) = (''imul'', [G W64 dst, M W64 base disp])"
| "memop_inst (X_sse_arith_m opcode is_double dst base disp) =
     (sse_mnemonic opcode @ scalar_suffix is_double, [X dst, M (scalar_width is_double) base disp])"
| "memop_inst (X_ucomis_m is_double a base disp) = (''ucomi'' @ scalar_suffix is_double, [X a, M (scalar_width is_double) base disp])"
| "memop_inst (X_push_m base disp) = (''push'', [M W64 base disp])"
| "memop_inst (X_pop_m base disp) = (''pop'', [M W64 base disp])"

primrec x86_inst :: "x86_call \<Rightarrow> minst" where
  "x86_inst (Move c) = move_inst c"
| "x86_inst (Arith c) = arith_inst c"
| "x86_inst (Sse c) = sse_inst c"
| "x86_inst (Flow c) = flow_inst c"
| "x86_inst (Asm c) = asm_inst c"
| "x86_inst (Memop c) = memop_inst c"

text \<open>
  The arguments the methods are defined for: source widths, SSE opcodes and unary slots of their tables. The methods
  that only look for 64 bits (\<^verbatim>\<open>neg_r\<close>, \<^verbatim>\<open>not_r\<close>, the shifts, the conversions) have no byte or word form, \<^verbatim>\<open>test_rr\<close> has no
  word form, and \<^verbatim>\<open>movzx_m\<close> no 64-bit source.
\<close>

definition wide :: "width \<Rightarrow> bool" where
  "wide w \<longleftrightarrow> w = W32 \<or> w = W64"

fun x86_args_ok :: "x86_call \<Rightarrow> bool" where
  "x86_args_ok (Move (X_movzx from dst src)) \<longleftrightarrow> from \<noteq> W64"
| "x86_args_ok (Move (X_movsx from dst src)) \<longleftrightarrow> from \<noteq> W64"
| "x86_args_ok (Arith (X_neg_r w reg)) \<longleftrightarrow> wide w"
| "x86_args_ok (Arith (X_not_r w reg)) \<longleftrightarrow> wide w"
| "x86_args_ok (Arith (X_shl_cl w reg)) \<longleftrightarrow> wide w"
| "x86_args_ok (Arith (X_shr_cl w reg)) \<longleftrightarrow> wide w"
| "x86_args_ok (Arith (X_sar_cl w reg)) \<longleftrightarrow> wide w"
| "x86_args_ok (Arith (X_test_rr w a b)) \<longleftrightarrow> w \<noteq> W16"
| "x86_args_ok (Sse (X_sse_arith opcode is_double dst src)) \<longleftrightarrow> opcode \<in> {0x58, 0x59, 0x5C, 0x5E}"
| "x86_args_ok (Sse (X_cvt_i2f to_double from dst src)) \<longleftrightarrow> wide from"
| "x86_args_ok (Sse (X_cvt_f2i from_double to dst src)) \<longleftrightarrow> wide to"
| "x86_args_ok (Asm (X_movzx_m from dst base disp)) \<longleftrightarrow> from \<noteq> W64"
| "x86_args_ok (Asm (X_unary_m slot w base disp)) \<longleftrightarrow> slot \<in> {0, 1, 2, 3}"
| "x86_args_ok (Asm (X_unary_r slot w reg)) \<longleftrightarrow> slot \<in> {0, 1, 2, 3}"
| "x86_args_ok (Memop (X_sse_arith_m opcode is_double dst base disp)) \<longleftrightarrow> opcode \<in> {0x58, 0x59, 0x5C, 0x5E}"
| "x86_args_ok _ \<longleftrightarrow> True"

end
