(* ===== verification/X86_Encoding.thy ===== *)
theory X86_Encoding
  imports X86_Disasm
begin

text \<open>
  The emitters of the x86-64 encoder, disassembled: prefix, REX, ModRM and SIB bytes decode to the
  operands they were built from, and every method writes exactly one instruction.
\<close>

subsection \<open>Bytes appended\<close>

definition rex_bytes :: "bool \<Rightarrow> byte \<Rightarrow> byte \<Rightarrow> bool \<Rightarrow> bytes" where
  "rex_bytes w r m force =
     (if rex_prefix w r m 0 \<noteq> 0x40 \<or> force then [rex_prefix w r m 0] else [])"

definition reg_byte :: "byte \<Rightarrow> byte \<Rightarrow> byte" where
  "reg_byte r m = (0xC0 OR push_bit 3 (low3 r)) OR low3 m"

definition mem_bytes :: "byte \<Rightarrow> greg \<Rightarrow> u32 \<Rightarrow> bytes" where
  "mem_bytes r base disp =
     ((0x80 OR push_bit 3 (low3 r)) OR low3 (reg_code base)) #
     (if low3 (reg_code base) = 4 then [0x24] else []) @ le_bytes 4 disp"

definition imm_field :: "width \<Rightarrow> u32 \<Rightarrow> bytes" where
  "imm_field w imm = le_bytes (imm_bytes w) imm"

lemma e_code_if [simp]: "e_code (if c then a else b) = (if c then e_code a else e_code b)"
  by simp

lemma e_code_byt [simp]: "e_code (byt b e) = e_code e @ [b]"
  by (simp add: byt_def)

lemma e_code_fold [simp]: "e_code (fold byt bs e) = e_code e @ bs"
  by (induction bs arbitrary: e) simp_all

lemma e_code_simps [simp]:
  "e_code (imm32 v e) = e_code e @ le_bytes 4 v"
  "e_code (imm64 x e) = e_code e @ le_bytes 8 x"
  "e_code (rex w r m f 0 e) = e_code e @ rex_bytes w r m f"
  "e_code (modrm_reg r m e) = e_code e @ [reg_byte r m]"
  "e_code (modrm_mem r base disp e) = e_code e @ mem_bytes r base disp"
  "e_code (put_x86_reloc k s a e) = e_code e"
  "e_code (put_pending l e) = e_code e"
  "e_code empty_encoder = []"
  by (simp_all add: imm32_def imm64_def rex_def rex_bytes_def modrm_reg_def reg_byte_def modrm_mem_def
      mem_bytes_def put_x86_reloc_def put_pending_def empty_encoder_def Let_def)

lemma e_code_imm [simp]: "e_code (enc_imm w imm e) = e_code e @ imm_field w imm"
  by (cases w) (auto simp: enc_imm_def imm_field_def imm_bytes_def le_bytes_Suc numeral_2_eq_2)

definition method_bytes :: "x86_call \<Rightarrow> bytes" where
  "method_bytes call = e_code (x86_step call empty_encoder)"

lemma move_step_code: "e_code (move_step c e) = e_code e @ e_code (move_step c empty_encoder)"
  by (cases c) (simp_all add: x86_method_defs Let_def)

lemma arith_step_code: "e_code (arith_step c e) = e_code e @ e_code (arith_step c empty_encoder)"
  by (cases c) (simp_all add: x86_method_defs Let_def)

lemma sse_step_code: "e_code (sse_step c e) = e_code e @ e_code (sse_step c empty_encoder)"
  by (cases c) (simp_all add: x86_method_defs Let_def)

lemma flow_step_code: "e_code (flow_step c e) = e_code e @ e_code (flow_step c empty_encoder)"
  by (cases c) (simp_all add: x86_method_defs Let_def)

lemma asm_step_code: "e_code (asm_step c e) = e_code e @ e_code (asm_step c empty_encoder)"
  by (cases c) (simp_all add: x86_method_defs Let_def)

lemma memop_step_code: "e_code (memop_step c e) = e_code e @ e_code (memop_step c empty_encoder)"
  by (cases c) (simp_all add: x86_method_defs Let_def)

lemma x86_step_code: "e_code (x86_step call e) = e_code e @ method_bytes call"
  unfolding method_bytes_def
  by (cases call)
    (simp_all only: x86_step.simps move_step_code [of _ e] arith_step_code [of _ e] sse_step_code [of _ e]
      flow_step_code [of _ e] asm_step_code [of _ e] memop_step_code [of _ e])

subsection \<open>Register fields\<close>

lemma reg_code_less: "unat (reg_code r) < 16" "unat (xreg_code x) < 16"
  by (cases r; simp) (cases x; simp)

lemma low3_ext: "unat r < 16 \<Longrightarrow> unat (low3 r) + high_bit (ext r) = unat r"
proof -
  assume "unat r < 16"
  then obtain k where "r = of_nat k" "k < 16" using that [of "unat r"] by simp
  moreover have "\<forall>k \<in> set [0..<16]. unat (low3 (of_nat k)) + high_bit (ext (of_nat k)) = unat (of_nat k :: byte)"
    by (simp add: upt_rec low3_def ext_def high_bit_def)
  ultimately show ?thesis by simp
qed

lemma unat_low3: "unat (low3 r) = unat r mod 8"
proof -
  have "low3 r = take_bit 3 r" by (simp add: low3_def take_bit_eq_mask mask_eq_exp_minus_1)
  then show ?thesis by (simp add: take_bit_eq_mod unat_mod_distrib)
qed

lemma low3_cases: "\<exists>k \<in> set [0..<8]. low3 r = of_nat k"
proof -
  have "low3 r = of_nat (unat (low3 r))" "unat (low3 r) \<in> set [0..<8]"
    by (simp, simp add: unat_low3)
  then show ?thesis by blast
qed

lemma modrm_fields:
  "unat ((0xC0 OR push_bit 3 (low3 r)) OR low3 m) = 192 + 8 * unat (low3 r) + unat (low3 m)"
  "unat ((0x80 OR push_bit 3 (low3 r)) OR low3 m) = 128 + 8 * unat (low3 r) + unat (low3 m)"
  "unat ((0x00 OR push_bit 3 (low3 r)) OR 0x05) = 8 * unat (low3 r) + 5"
proof -
  have *: "\<forall>i \<in> set [0..<8]. \<forall>j \<in> set [0..<8].
      unat ((0xC0 OR push_bit 3 (of_nat i :: byte)) OR of_nat j) = 192 + 8 * i + j \<and>
      unat ((0x80 OR push_bit 3 (of_nat i :: byte)) OR of_nat j) = 128 + 8 * i + j \<and>
      unat ((0x00 OR push_bit 3 (of_nat i :: byte)) OR 0x05) = 8 * i + 5"
    by (simp add: upt_rec)
  obtain i j where ij: "i \<in> set [0..<8]" "j \<in> set [0..<8]" "low3 r = of_nat i" "low3 m = of_nat j"
    using low3_cases by metis
  then have "unat (low3 r) = i" "unat (low3 m) = j" by (simp_all add: unat_of_nat)
  then show "unat ((0xC0 OR push_bit 3 (low3 r)) OR low3 m) = 192 + 8 * unat (low3 r) + unat (low3 m)"
    "unat ((0x80 OR push_bit 3 (low3 r)) OR low3 m) = 128 + 8 * unat (low3 r) + unat (low3 m)"
    "unat ((0x00 OR push_bit 3 (low3 r)) OR 0x05) = 8 * unat (low3 r) + 5"
    using * ij by simp_all
qed

lemma opcode_fields:
  "unat (0xB8 OR low3 r) = 0xB8 + unat (low3 r)" "unat (0x50 OR low3 r) = 0x50 + unat (low3 r)"
  "unat (0x58 OR low3 r) = 0x58 + unat (low3 r)"
proof -
  have *: "\<forall>i \<in> set [0..<8]. unat (0xB8 OR (of_nat i :: byte)) = 0xB8 + i \<and>
      unat (0x50 OR (of_nat i :: byte)) = 0x50 + i \<and> unat (0x58 OR (of_nat i :: byte)) = 0x58 + i"
    by (simp add: upt_rec)
  obtain i where i: "i \<in> set [0..<8]" "low3 r = of_nat i" using low3_cases by metis
  then have "unat (low3 r) = i" by (simp add: unat_of_nat)
  then show "unat (0xB8 OR low3 r) = 0xB8 + unat (low3 r)" "unat (0x50 OR low3 r) = 0x50 + unat (low3 r)"
    "unat (0x58 OR low3 r) = 0x58 + unat (low3 r)"
    using * i by simp_all
qed

subsection \<open>Prefixes and ModRM\<close>

definition rex_ctx :: "byte option \<Rightarrow> bool \<Rightarrow> byte \<Rightarrow> byte \<Rightarrow> bool \<Rightarrow> dctx" where
  "rex_ctx l w r m force =
     \<lparr> c_legacy = l, c_rex = (w \<or> ext r \<or> ext m \<or> force), c_w = w, c_r = ext r, c_b = ext m \<rparr>"

lemma rex_ctx_simps [simp]:
  "c_legacy (rex_ctx l w r m f) = l" "c_rex (rex_ctx l w r m f) \<longleftrightarrow> w \<or> ext r \<or> ext m \<or> f"
  "c_w (rex_ctx l w r m f) = w" "c_r (rex_ctx l w r m f) = ext r" "c_b (rex_ctx l w r m f) = ext m"
  by (simp_all add: rex_ctx_def)

definition plain :: "byte \<Rightarrow> bool" where
  "plain b \<longleftrightarrow> b \<noteq> 0x66 \<and> b \<noteq> 0xF2 \<and> b \<noteq> 0xF3 \<and> b AND 0xF0 \<noteq> 0x40"

lemma ext_0 [simp]: "\<not> ext 0"
  by (simp add: ext_def)

lemma dec_rex_bytes:
  "plain b \<Longrightarrow> dec_rex l (rex_bytes w r m f @ b # bs) = (rex_ctx l w r m f, b # bs)"
  by (cases w; cases "ext r"; cases "ext m"; cases f)
    (simp_all add: dec_rex_def rex_bytes_def rex_prefix_def plain_def rex_ctx_def ctx0_def)

lemma dec_legacy_bytes:
  "plain b \<Longrightarrow> dec_legacy (rex_bytes w r m f @ b # bs) = (None, rex_bytes w r m f @ b # bs)"
  by (cases w; cases "ext r"; cases "ext m"; cases f)
    (simp_all add: dec_legacy_def rex_bytes_def rex_prefix_def plain_def)

lemma disasm_rex:
  "plain b \<Longrightarrow> disasm (rex_bytes w r m f @ b # bs) = disasm_op (rex_ctx None w r m f) (b # bs)"
  "plain b \<Longrightarrow> p \<in> {0x66, 0xF2, 0xF3} \<Longrightarrow>
   disasm (p # rex_bytes w r m f @ b # bs) = disasm_op (rex_ctx (Some p) w r m f) (b # bs)"
  by (auto simp: disasm_def dec_legacy_bytes dec_rex_bytes) (simp_all add: dec_legacy_def dec_rex_bytes)

lemma disasm_plain: "plain b \<Longrightarrow> disasm (b # bs) = disasm_op (ctx0 None) (b # bs)"
  by (simp add: disasm_def dec_legacy_def dec_rex_def plain_def)

lemma field_arith:
  assumes "i < 8" "j < (8::nat)"
  shows "(192 + 8 * i + j) div 64 = 3" "(192 + 8 * i + j) div 8 mod 8 = i" "(192 + 8 * i + j) mod 8 = j"
    "(128 + 8 * i + j) div 64 = 2" "(128 + 8 * i + j) div 8 mod 8 = i" "(128 + 8 * i + j) mod 8 = j"
    "(8 * i + 5) div 64 = 0" "(8 * i + 5) div 8 mod 8 = i" "(8 * i + 5) mod 8 = 5"
proof -
  have *: "\<forall>i \<in> set [0..<8]. \<forall>j \<in> set [0..<8].
      (192 + 8 * i + j) div 64 = 3 \<and> (192 + 8 * i + j) div 8 mod 8 = i \<and> (192 + 8 * i + j) mod 8 = j \<and>
      (128 + 8 * i + j) div 64 = 2 \<and> (128 + 8 * i + j) div 8 mod 8 = i \<and> (128 + 8 * i + j) mod 8 = j \<and>
      (8 * i + 5) div 64 = 0 \<and> (8 * i + 5) div 8 mod 8 = i \<and> (8 * i + 5) mod 8 = 5"
    by (simp add: upt_rec)
  have "i \<in> set [0..<8]" "j \<in> set [0..<8]" using assms by simp_all
  with * show "(192 + 8 * i + j) div 64 = 3" "(192 + 8 * i + j) div 8 mod 8 = i" "(192 + 8 * i + j) mod 8 = j"
    "(128 + 8 * i + j) div 64 = 2" "(128 + 8 * i + j) div 8 mod 8 = i" "(128 + 8 * i + j) mod 8 = j"
    "(8 * i + 5) div 64 = 0" "(8 * i + 5) div 8 mod 8 = i" "(8 * i + 5) mod 8 = 5"
    by blast+
qed

lemma low3_less: "unat (low3 r) < 8"
  by (simp add: unat_low3)

lemma dec_modrm_reg [codec]:
  assumes "unat r < 16" "unat m < 16" "c_r c = ext r" "c_b c = ext m"
  shows "dec_modrm c (reg_byte r m # bs) = Some ((unat (low3 r), unat r, RM_Reg (unat m)), bs)"
  using low3_ext [OF assms(1)] low3_ext [OF assms(2)]
  by (simp add: dec_modrm_def reg_byte_def Let_def modrm_fields field_arith low3_less assms(3,4))

lemma dec_modrm_mem [codec]:
  assumes "unat r < 16" "c_r c = ext r" "c_b c = ext (reg_code base)"
  shows "dec_modrm c (mem_bytes r base disp @ bs) =
    Some ((unat (low3 r), unat r, RM_Mem (unat (reg_code base)) (unat disp)), bs)"
proof (cases "low3 (reg_code base) = 4")
  case True
  then show ?thesis
    using low3_ext [OF assms(1)] low3_ext [OF reg_code_less(1), of base] field_arith [OF low3_less [of r], of 4]
      modrm_fields(2) [of r "reg_code base"]
    by (simp add: dec_modrm_def mem_bytes_def Let_def dec_disp_def dec_bytes_append dec_byte_Cons
        le_nat_words assms(2,3))
next
  case False
  then have "unat (low3 (reg_code base)) \<noteq> 4" using word_of_nat_eq_iff [of "unat (low3 (reg_code base))" 4] by (metis of_nat_numeral of_nat_unat ucast_id)
  then show ?thesis
    using low3_ext [OF assms(1)] low3_ext [OF reg_code_less(1), of base] False
    by (simp add: dec_modrm_def mem_bytes_def Let_def dec_disp_def dec_bytes_append modrm_fields
        field_arith low3_less le_nat_words assms(2,3))
qed

lemma dec_modrm_rip [codec]:
  assumes "unat r < 16" "c_r c = ext r"
  shows "dec_modrm c (((0x00 OR push_bit 3 (low3 r)) OR 0x05) # le_bytes 4 (disp :: u32) @ bs) =
    Some ((unat (low3 r), unat r, RM_Rip (unat disp)), bs)"
  using low3_ext [OF assms(1)] modrm_fields(3) [of r] field_arith(7-9) [OF low3_less [of r], of 0]
  by (simp add: dec_modrm_def Let_def dec_disp_def dec_bytes_append le_nat_words assms(2))

subsection \<open>One instruction per method\<close>

lemma needs_byte_rex_unat: "needs_byte_rex r \<longleftrightarrow> 4 \<le> unat r \<and> unat r < 8"
  by (auto simp: needs_byte_rex_def word_le_nat_alt)

lemma vwidth_rex [simp]:
  "vwidth (rex_ctx l w r m f) = (if w then W64 else if l = Some 0x66 then W16 else W32)"
  by (simp add: vwidth_def)

lemma plain_opcodes [simp]:
  "plain 0x0F" "plain 0x31" "plain 0x63" "plain 0x80" "plain 0x81" "plain 0x84" "plain 0x85"
  "plain 0x88" "plain 0x89" "plain 0x8A" "plain 0x8B" "plain 0x8D" "plain 0x8F" "plain 0xC6"
  "plain 0xC7" "plain 0xD3" "plain 0xF6" "plain 0xF7" "plain 0xFE" "plain 0xFF" "plain 0xC3"
  "plain 0xE8" "plain 0xE9" "plain 0x90" "plain 0x99"
  by (simp_all add: plain_def)

lemma low3_digits [simp]: "low3 0 = 0" "low3 1 = 1" "low3 2 = 2" "low3 3 = 3" "low3 4 = 4" "low3 5 = 5" "low3 6 = 6" "low3 7 = 7"
  by (simp_all add: low3_def)

lemma ext_digits [simp]: "\<not> ext 1" "\<not> ext 2" "\<not> ext 3" "\<not> ext 4" "\<not> ext 5" "\<not> ext 6" "\<not> ext 7"
  by (simp_all add: ext_def)

lemmas disasm_simps =
  disasm_rex disasm_op_def disasm_1_def disasm_0f_def dec_modrm_reg dec_modrm_mem dec_modrm_rip
  reg_code_less needs_byte_rex_unat G_def X_def M_def

lemma plain_alu [simp]:
  "plain (alu_code op * 8 OR 0)" "plain (alu_code op * 8 OR 1)" "plain (alu_code op * 8 OR 2)"
  "plain (alu_code op * 8 OR 3)" "plain (alu_code op * 8)"
  by (cases op; simp add: plain_def)+

lemma dec_field [codec]:
  "dec_imm 4 f mn ops (le_bytes 4 (v :: u32) @ bs) = Some ((mn, ops @ [f (unat v)]), bs)"
  "dec_imm 8 f mn ops (le_bytes 8 (x :: u64) @ bs) = Some ((mn, ops @ [f (unat x)]), bs)"
  by (simp_all add: dec_imm_def dec_bytes_append le_nat_words)

lemma dec_imm_field [codec]:
  "dec_imm (imm_bytes w) O_Imm mn ops (imm_field w imm @ bs) = Some ((mn, ops @ [imm_of w imm]), bs)"
  by (cases w) (auto simp: dec_imm_def imm_field_def imm_bytes_def imm_of_def dec_bytes_append
      le_nat_le_bytes le_nat_words)

lemmas decode_simps = disasm_simps dec_field dec_imm_field gpr_def Let_def

lemma sint_small: "0 \<le> sint (x :: u64) \<and> sint x \<le> 0x7FFFFFFF \<longleftrightarrow> unat x < 2 ^ 31"
proof -
  have nn: "0 \<le> uint x" by (rule unsigned_greater_eq)
  have e: "unat x < 2 ^ 31 \<longleftrightarrow> uint x < 2 ^ 31"
    using nat_less_iff [OF nn, of "2 ^ 31"] by simp
  have u: "uint x = sint x" if "0 \<le> sint x \<and> sint x \<le> 0x7FFFFFFF"
    using that by (simp add: uint_sint take_bit_eq_mod)
  have s: "sint x = uint x" if "uint x < 2 ^ 31"
    using that unfolding sint_uint
    by (intro signed_take_bit_int_eq_self order_trans [OF _ nn]) simp_all
  show ?thesis unfolding e
  proof
    assume a: "0 \<le> sint x \<and> sint x \<le> 0x7FFFFFFF"
    then show "uint x < 2 ^ 31" unfolding u [OF a] by simp
  next
    assume a: "uint x < 2 ^ 31"
    then show "0 \<le> sint x \<and> sint x \<le> 0x7FFFFFFF" unfolding s [OF a] using nn by simp
  qed
qed

lemma ucast_small: "unat (x :: u64) < 2 ^ 31 \<Longrightarrow> unat (ucast x :: u32) = unat x"
  by (simp add: unsigned_ucast_eq take_bit_eq_mod)

lemma plain_embedded [simp]:
  "plain (0xB8 OR low3 r)" "plain (0x50 OR low3 r)" "plain (0x58 OR low3 r)"
proof -
  have *: "\<forall>i \<in> set [0..<8]. plain (0xB8 OR (of_nat i :: byte)) \<and> plain (0x50 OR (of_nat i :: byte)) \<and>
      plain (0x58 OR (of_nat i :: byte))"
    by (simp add: upt_rec plain_def)
  obtain i where "i \<in> set [0..<8]" "low3 r = of_nat i" using low3_cases by metis
  with * show "plain (0xB8 OR low3 r)" "plain (0x50 OR low3 r)" "plain (0x58 OR low3 r)" by simp_all
qed

lemma embedded_not_0f [simp]:
  "0xB8 OR low3 r \<noteq> 0x0F" "0x50 OR low3 r \<noteq> 0x0F" "0x58 OR low3 r \<noteq> 0x0F"
  by (rule notI, drule arg_cong [of _ _ unat], simp add: opcode_fields)+


lemma move_decodes:
  assumes "x86_args_ok (Move c)"
  shows "disasm (e_code (move_step c empty_encoder) @ r) = Some (move_inst c, r)"
proof (cases c)
  case (X_mov_ri dst imm)
  have "unat (low3 (reg_code dst)) + high_bit (ext (reg_code dst)) = unat (reg_code dst)"
    by (rule low3_ext [OF reg_code_less(1)])
  then show ?thesis
    using X_mov_ri sint_small [of imm] low3_less [of "reg_code dst"] opcode_fields [of "reg_code dst"] ucast_small [of imm]
    by (simp add: mov_ri_def decode_simps)
next
  case (X_mov_rr w dst src)
  then show ?thesis by (cases w) (auto simp: mov_rr_def decode_simps)
next
  case (X_load w dst base disp)
  then show ?thesis by (cases w) (auto simp: enc_load_def decode_simps)
next
  case (X_store w base disp src)
  then show ?thesis by (cases w) (auto simp: enc_store_def decode_simps)
next
  case (X_movzx fw dst src)
  then show ?thesis using assms by (cases fw) (auto simp: movzx_def decode_simps)
next
  case (X_movsx fw dst src)
  then show ?thesis using assms by (cases fw) (auto simp: movsx_def decode_simps)
next
  case (X_lea dst base disp)
  then show ?thesis by (simp add: lea_def decode_simps)
next
  case (X_lea_rip dst symbol addend)
  then show ?thesis
    using dec_modrm_rip [of "reg_code dst" "rex_ctx None True (reg_code dst) 5 False" 0 r]
    by (simp add: lea_rip_def decode_simps)
qed

lemma arith_decodes:
  assumes "x86_args_ok (Arith c)"
  shows "disasm (e_code (arith_step c empty_encoder) @ r) = Some (arith_inst c, r)"
proof (cases c)
  case (X_alu_rr op w dst src)
  then show ?thesis by (cases w; cases op) (auto simp: alu_rr_def decode_simps alu_name_def plain_def)
next
  case (X_alu_ri op w dst imm)
  then show ?thesis
    using dec_imm_field [of w]
    by (cases w; cases op) (auto simp: alu_ri_def decode_simps alu_name_def imm_bytes_def)
next
  case (X_test_rr w a b)
  then show ?thesis using assms by (cases w) (auto simp: test_rr_def decode_simps)
next
  case (X_setcc cond dst8)
  then show ?thesis by (cases cond) (auto simp: setcc_def decode_simps cond_name_def)
next
  case X_cqo
  then show ?thesis by (simp add: cqo_def disasm_def dec_legacy_def dec_rex_def disasm_op_def disasm_1_def)
qed (use assms in \<open>auto simp: x86_method_defs decode_simps wide_def unary_name_def shift_name_def alu_name_def\<close>)

lemma sse_decodes:
  assumes "x86_args_ok (Sse c)"
  shows "disasm (e_code (sse_step c empty_encoder) @ r) = Some (sse_inst c, r)"
  using assms
  by (cases c)
    (auto simp: x86_method_defs decode_simps wide_def scalar_def scalar_suffix_def scalar_width_def sse_name_def sse_mnemonic_def)

lemma flow_decodes: "disasm (e_code (flow_step c empty_encoder) @ r) = Some (flow_inst c, r)"
proof (cases c)
  case (X_jcc cond target)
  then show ?thesis by (cases cond) (simp_all add: jcc_def disasm_plain decode_simps cond_name_def)
next
  case (X_push_r reg)
  then show ?thesis
    using low3_ext [OF reg_code_less(1), of reg] low3_less [of "reg_code reg"]
    by (simp add: push_r_def decode_simps opcode_fields)
next
  case (X_pop_r reg)
  then show ?thesis
    using low3_ext [OF reg_code_less(1), of reg] low3_less [of "reg_code reg"]
    by (simp add: pop_r_def decode_simps opcode_fields)
next
  case (X_sub_rsp n)
  then show ?thesis
    using arith_decodes [of "X_alu_ri Alu_Sub W64 RSP n" r] by (simp add: sub_rsp_def imm_of_def)
next
  case (X_add_rsp n)
  then show ?thesis
    using arith_decodes [of "X_alu_ri Alu_Add W64 RSP n" r] by (simp add: add_rsp_def imm_of_def)
qed (simp_all add: x86_method_defs disasm_plain decode_simps)

lemma asm_decodes:
  assumes "x86_args_ok (Asm c)"
  shows "disasm (e_code (asm_step c empty_encoder) @ r) = Some (asm_inst c, r)"
proof (cases c)
  case (X_alu_rm op w dst base disp)
  then show ?thesis by (cases w; cases op) (auto simp: alu_rm_def decode_simps alu_name_def plain_def)
next
  case (X_alu_mr op w base disp src)
  then show ?thesis by (cases w; cases op) (auto simp: alu_mr_def decode_simps alu_name_def plain_def)
next
  case (X_alu_mi op w base disp imm)
  then show ?thesis
    using dec_imm_field [of w]
    by (cases w; cases op) (auto simp: alu_mi_def decode_simps alu_name_def imm_bytes_def)
next
  case (X_mov_mi w base disp imm)
  then show ?thesis
    using dec_imm_field [of w] by (cases w) (auto simp: mov_mi_def decode_simps imm_bytes_def)
next
  case (X_movzx_m fw dst base disp)
  then show ?thesis using assms by (cases fw) (auto simp: movzx_m_def decode_simps)
next
  case (X_unary_m slot w base disp)
  then show ?thesis
    using assms
    by (cases w) (auto simp: unary_m_def unary_opcode_def word_le_nat_alt decode_simps incdec_name_def unary_name_def unary_mnemonic_def)
next
  case (X_unary_r slot w reg)
  then show ?thesis
    using assms
    by (cases w) (auto simp: unary_r_def unary_opcode_def word_le_nat_alt decode_simps incdec_name_def unary_name_def unary_mnemonic_def)
qed (simp_all add: x86_method_defs disasm_plain decode_simps)

lemma memop_decodes:
  assumes "x86_args_ok (Memop c)"
  shows "disasm (e_code (memop_step c empty_encoder) @ r) = Some (memop_inst c, r)"
  using assms
  by (cases c)
    (auto simp: x86_method_defs decode_simps unary_name_def scalar_def scalar_suffix_def scalar_width_def sse_name_def sse_mnemonic_def)

lemma method_decodes [codec]:
  "x86_args_ok call \<Longrightarrow> disasm (method_bytes call @ r) = Some (x86_inst call, r)"
  by (cases call)
    (simp_all add: method_bytes_def move_decodes arith_decodes sse_decodes flow_decodes asm_decodes
      memop_decodes del: x86_args_ok.simps)

lemma run_code: "e_code (fold x86_step calls e) = e_code e @ concat (map method_bytes calls)"
  by (induction calls arbitrary: e) (simp_all add: x86_step_code)

text \<open>
  C28: Every method of the encoder writes the instruction it is named for: disassembling the code of
  any sequence of calls gives back, in order, the mnemonic, operand widths, the full four-bit register
  numbers, base and displacement of memory operands and the immediates, with nothing left over. In
  particular byte operations on spl, bpl, sil and dil never turn into ah, ch, dh or bh, and rsp and
  r12 bases get their SIB byte. The widths are those the caller asks for, of registers and of memory accesses; the calls
  are restricted to the widths the methods have a form for.
\<close>

theorem x86_stream_disassembles:
  assumes "list_all x86_args_ok calls"
  shows "dec_list disasm (length calls) (e_code (fold x86_step calls empty_encoder)) =
    Some (map x86_inst calls, [])"
proof -
  have "dec_list disasm (length calls) (concat (map method_bytes calls) @ []) = Some (map x86_inst calls, [])"
    using assms by (induction calls) (simp_all add: method_decodes del: append_Nil2)
  then show ?thesis by (simp add: run_code)
qed

theorem x86_stream_disassembles_witness:
  "dec_list disasm (Suc (Suc (Suc 0)))
     (e_code (fold x86_step
        [Move (X_load W8 RSI R12 16), Arith (X_alu_ri Alu_Xor W8 RSI 1), Sse (X_mov_x_r R9 XMM11)] empty_encoder)) =
   Some ([(''mov'', [O_Gpr W8 6, O_Mem W8 12 16]), (''xor'', [O_Gpr W8 6, O_Imm 1]),
          (''movq'', [O_Gpr W64 9, O_Xmm 11])], [])"
  using x86_stream_disassembles
    [of "[Move (X_load W8 RSI R12 16), Arith (X_alu_ri Alu_Xor W8 RSI 1), Sse (X_mov_x_r R9 XMM11)]"]
  by (simp add: G_def M_def X_def imm_of_def del: dec_list.simps)

text \<open>
  The 16-bit form of \<^verbatim>\<open>test_rr\<close> lacks the operand-size prefix the other register-register
  emitters write: its bytes are the 32-bit test, so the flags also depend on the upper halves.
\<close>

theorem test_rr_word_is_dword:
  "disasm (e_code (test_rr W16 a b empty_encoder)) = Some ((''test'', [G W32 a, G W32 b]), [])"
proof -
  have "test_rr W16 a b = test_rr W32 a b" by (rule ext) (simp add: test_rr_def)
  then show ?thesis using arith_decodes [of "X_test_rr W32 a b" "[]"] by simp
qed

text \<open>
  A \<^verbatim>\<open>movzx\<close> from a 64-bit memory operand, which the inline assembly path passes on unchecked, reads four bytes.
\<close>

theorem movzx_m_qword_is_dword:
  "disasm (e_code (movzx_m W64 dst base disp empty_encoder)) = Some ((''mov'', [G W32 dst, M W32 base disp]), [])"
proof -
  have "movzx_m W64 dst base disp = movzx_m W32 dst base disp" by (rule ext) (simp add: movzx_m_def)
  then show ?thesis using asm_decodes [of "X_movzx_m W32 dst base disp" "[]"] by simp
qed

end
