(* ===== verification/X86_Labels.thy ===== *)
theory X86_Labels
  imports X86_Encoding
begin

text \<open>
  Labels and relocations of the x86-64 encoder: the invariant every sequence of emitter calls, label
  creations and bindings keeps, and the correctness of \<^verbatim>\<open>resolve_labels\<close>.
\<close>

subsection \<open>Pending jumps and relocations of the emitters\<close>

lemma keeps_byt [simp]:
  "e_pending (byt b e) = e_pending e" "e_labels (byt b e) = e_labels e" "e_relocations (byt b e) = e_relocations e"
  by (simp_all add: byt_def)

lemma keeps_fold [simp]:
  "e_pending (fold byt bs e) = e_pending e" "e_labels (fold byt bs e) = e_labels e"
  "e_relocations (fold byt bs e) = e_relocations e"
  by (induction bs arbitrary: e) simp_all

lemma keeps_parts [simp]:
  "e_pending (imm32 v e) = e_pending e" "e_labels (imm32 v e) = e_labels e"
  "e_relocations (imm32 v e) = e_relocations e"
  "e_pending (imm64 x e) = e_pending e" "e_labels (imm64 x e) = e_labels e"
  "e_relocations (imm64 x e) = e_relocations e"
  "e_pending (rex w r m f i e) = e_pending e" "e_labels (rex w r m f i e) = e_labels e"
  "e_relocations (rex w r m f i e) = e_relocations e"
  "e_pending (modrm_reg r m e) = e_pending e" "e_labels (modrm_reg r m e) = e_labels e"
  "e_relocations (modrm_reg r m e) = e_relocations e"
  by (simp_all add: imm32_def imm64_def rex_def modrm_reg_def Let_def)

lemma keeps_mem [simp]:
  "e_pending (modrm_mem r b d e) = e_pending e" "e_labels (modrm_mem r b d e) = e_labels e"
  "e_relocations (modrm_mem r b d e) = e_relocations e"
  "e_pending (enc_imm w v e) = e_pending e" "e_labels (enc_imm w v e) = e_labels e"
  "e_relocations (enc_imm w v e) = e_relocations e"
  by (simp_all add: modrm_mem_def enc_imm_def Let_def)

lemma put_parts [simp]:
  "e_pending (put_x86_reloc k s a e) = e_pending e" "e_labels (put_x86_reloc k s a e) = e_labels e"
  "e_relocations (put_x86_reloc k s a e) = e_relocations e @
     [\<lparr> xr_kind = k, xr_offset = code_size e, xr_symbol = s, xr_addend = a \<rparr>]"
  "e_relocations (put_pending l e) = e_relocations e" "e_labels (put_pending l e) = e_labels e"
  "e_pending (put_pending l e) = e_pending e @ [\<lparr> patch_offset = code_size e, jump_target = l \<rparr>]"
  by (simp_all add: put_x86_reloc_def put_pending_def)

lemma keeps_if [simp]:
  "e_pending (if c then a else b) = (if c then e_pending a else e_pending b)"
  "e_labels (if c then a else b) = (if c then e_labels a else e_labels b)"
  "e_relocations (if c then a else b) = (if c then e_relocations a else e_relocations b)"
  by simp_all

fun call_target :: "x86_call \<Rightarrow> nat option" where
  "call_target (Flow (X_jmp l)) = Some l"
| "call_target (Flow (X_jcc cond l)) = Some l"
| "call_target call = None"

lemma step_labels: "e_labels (x86_step call e) = e_labels e"
proof (cases call)
  case (Move c) then show ?thesis by (cases c) (simp_all add: x86_method_defs Let_def)
next
  case (Arith c) then show ?thesis by (cases c) (simp_all add: x86_method_defs Let_def)
next
  case (Sse c) then show ?thesis by (cases c) (simp_all add: x86_method_defs Let_def)
next
  case (Flow c) then show ?thesis by (cases c) (simp_all add: x86_method_defs Let_def)
next
  case (Asm c) then show ?thesis by (cases c) (simp_all add: x86_method_defs Let_def)
next
  case (Memop c) then show ?thesis by (cases c) (simp_all add: x86_method_defs Let_def)
qed

lemma step_pending:
  "e_pending (x86_step call e) = e_pending e @
     (case call_target call of None \<Rightarrow> []
      | Some l \<Rightarrow> [\<lparr> patch_offset = (length (e_code (x86_step call e)) - 4) mod 2 ^ 32, jump_target = l \<rparr>])"
proof (cases call)
  case (Move c) then show ?thesis by (cases c) (simp_all add: x86_method_defs Let_def)
next
  case (Arith c) then show ?thesis by (cases c) (simp_all add: x86_method_defs Let_def)
next
  case (Sse c) then show ?thesis by (cases c) (simp_all add: x86_method_defs Let_def)
next
  case (Flow c) then show ?thesis by (cases c) (simp_all add: x86_method_defs Let_def code_size_def)
next
  case (Asm c) then show ?thesis by (cases c) (simp_all add: x86_method_defs Let_def)
next
  case (Memop c) then show ?thesis by (cases c) (simp_all add: x86_method_defs Let_def)
qed

lemma target_length: "call_target call \<noteq> None \<Longrightarrow> 4 < length (method_bytes call)"
  by (cases call rule: call_target.cases) (simp_all add: method_bytes_def x86_method_defs Let_def)

subsection \<open>The invariant\<close>

definition encoder_ok :: "encoder \<Rightarrow> bool" where
  "encoder_ok e \<longleftrightarrow>
     length (e_code e) < 2 ^ 31 \<and>
     list_all (\<lambda>j. patch_offset j + 4 \<le> length (e_code e) \<and> jump_target j < length (e_labels e)) (e_pending e) \<and>
     sorted_wrt (\<lambda>i j. patch_offset i + 4 \<le> patch_offset j) (e_pending e) \<and>
     list_all (\<lambda>l. l = UINT32_MAX \<or> l \<le> length (e_code e)) (e_labels e)"

text \<open>
  The encoder's clients: emitter calls that jump to existing labels, new labels, and binding an
  existing label, while the code stays below 2 GiB.
\<close>

inductive encoder_step :: "encoder \<Rightarrow> encoder \<Rightarrow> bool" where
  enc_emit: "length (e_code (x86_step call e)) < 2 ^ 31 \<Longrightarrow>
    (case call_target call of None \<Rightarrow> True | Some l \<Rightarrow> l < length (e_labels e)) \<Longrightarrow>
    encoder_step e (x86_step call e)"
| enc_make: "encoder_step e (fst (make_label e))"
| enc_bind: "l < length (e_labels e) \<Longrightarrow> encoder_step e (bind_label l e)"

lemma emit_ok:
  assumes ok: "encoder_ok e" and size: "length (e_code (x86_step call e)) < 2 ^ 31"
    and target: "case call_target call of None \<Rightarrow> True | Some l \<Rightarrow> l < length (e_labels e)"
  shows "encoder_ok (x86_step call e)"
proof -
  have len: "length (e_code e) \<le> length (e_code (x86_step call e))"
    by (simp add: x86_step_code)
  have new: "length (e_code e) \<le> length (e_code (x86_step call e)) - 4" "4 \<le> length (e_code (x86_step call e))"
    if "call_target call = Some l" for l
    using target_length [of call] that by (simp_all add: x86_step_code)
  show ?thesis
  proof (cases "call_target call")
    case None
    then show ?thesis
      using ok len size by (auto simp: encoder_ok_def step_pending step_labels list_all_iff intro: le_trans)
  next
    case (Some l)
    then show ?thesis
      using ok len size new [OF Some] target
      by (auto simp: encoder_ok_def step_pending step_labels list_all_iff sorted_wrt_append intro: le_trans)
  qed
qed

lemma make_ok: "encoder_ok e \<Longrightarrow> encoder_ok (fst (make_label e))"
  by (auto simp: encoder_ok_def make_label_def list_all_iff)

lemma bind_ok: "encoder_ok e \<Longrightarrow> encoder_ok (bind_label l e)"
  by (auto simp: encoder_ok_def bind_label_def code_size_def list_all_iff dest!: set_update_subset_insert [THEN subsetD])

interpretation encoders: invariant_system encoder_step encoder_ok
  by unfold_locales (auto elim!: encoder_step.cases intro: emit_ok make_ok bind_ok)

subsection \<open>Resolving\<close>

text \<open>The four-byte field at an offset, read as the signed displacement of a jump.\<close>

definition rel_at :: "bytes \<Rightarrow> nat \<Rightarrow> int" where
  "rel_at bs p = sint (word_of_nat (le_nat (take 4 (drop p bs))) :: u32)"

lemma patch32_splice:
  assumes "p + 4 \<le> length bs"
  shows "patch32 p v bs = take p bs @ le_bytes 4 v @ drop (p + 4) bs"
proof -
  have upd: "fold (\<lambda>i bs. bs[p + i := xs ! i]) [k..<length xs] bs =
      take (p + k) bs @ drop k xs @ drop (p + length xs) bs"
    if "p + length xs \<le> length bs" "k \<le> length xs" for xs k and bs :: bytes
    using that(2,1)
  proof (induction k arbitrary: bs rule: inc_induct)
    case base
    then show ?case by simp
  next
    case (step k)
    let ?bs = "bs[p + k := xs ! k]"
    have t: "take (p + Suc k) ?bs = take (p + k) bs @ [xs ! k]"
      using step.hyps step.prems by (simp add: take_Suc_conv_app_nth)
    have "fold (\<lambda>i bs. bs[p + i := xs ! i]) [k..<length xs] bs =
        fold (\<lambda>i bs. bs[p + i := xs ! i]) [Suc k..<length xs] ?bs"
      using step.hyps by (simp add: upt_conv_Cons)
    also have "\<dots> = take (p + Suc k) ?bs @ drop (Suc k) xs @ drop (p + length xs) ?bs"
      using step.IH [of ?bs] step.prems by simp
    also have "\<dots> = take (p + k) bs @ drop k xs @ drop (p + length xs) bs"
      using step.hyps t by (simp add: Cons_nth_drop_Suc)
    finally show ?case by simp
  qed
  show ?thesis
    using upd [of "le_bytes 4 v" bs 0] assms by (simp add: patch32_def)
qed

lemma length_patch32 [simp]: "length (patch32 p v bs) = length bs"
  by (simp add: patch32_def numeral_eq_Suc)

lemma rel_at_patch32:
  "p + 4 \<le> length bs \<Longrightarrow> rel_at (patch32 p v bs) p = sint v"
  by (simp add: rel_at_def patch32_splice le_nat_words)

lemma window_patch32:
  assumes "p + 4 \<le> length bs" "q + 4 \<le> p \<or> p + 4 \<le> q"
  shows "take 4 (drop q (patch32 p v bs)) = take 4 (drop q bs)"
  using assms by (auto simp: patch32_splice drop_take min_def)

lemma jump_rel_sint:
  assumes "t < 2 ^ 31" "p + 4 < 2 ^ 31"
  shows "sint (jump_rel t p) = int t - (int p + 4)"
proof -
  have e: "jump_rel t p = word_of_int (int t - (int p + 4))"
    by (simp add: jump_rel_def)
  show ?thesis
    unfolding e sint_sbintrunc' using assms by (intro signed_take_bit_int_eq_self) simp_all
qed

text \<open>Patching jumps at disjoint sites: every one reaches its label, everything else is untouched.\<close>

lemma patch_jumps_correct:
  assumes "sorted_wrt (\<lambda>i j. patch_offset i + 4 \<le> patch_offset j) js"
    and "list_all (\<lambda>j. patch_offset j + 4 \<le> length bs \<and> labels ! jump_target j < 2 ^ 31) js"
    and "length bs < 2 ^ 31"
  shows "\<exists>bs'. patch_jumps labels js bs = Some bs' \<and> length bs' = length bs \<and>
    list_all (\<lambda>j. int (patch_offset j) + 4 + rel_at bs' (patch_offset j) = int (labels ! jump_target j)) js \<and>
    (\<forall>k < length bs. list_all (\<lambda>j. k < patch_offset j \<or> patch_offset j + 4 \<le> k) js \<longrightarrow> bs' ! k = bs ! k) \<and>
    (\<forall>q. list_all (\<lambda>j. q + 4 \<le> patch_offset j) js \<longrightarrow> take 4 (drop q bs') = take 4 (drop q bs))"
  using assms
proof (induction js arbitrary: bs)
  case (Cons j js)
  let ?p = "patch_offset j" and ?t = "labels ! jump_target j"
  let ?bs = "patch32 ?p (jump_rel ?t ?p) bs"
  have j: "?p + 4 \<le> length bs" "?t < 2 ^ 31" and after: "list_all (\<lambda>i. ?p + 4 \<le> patch_offset i) js"
    using Cons.prems by (simp_all add: list_all_iff)
  have "?t \<noteq> UINT32_MAX" using j(2) by (auto simp: UINT32_MAX_def)
  obtain bs' where bs': "patch_jumps labels js ?bs = Some bs'" "length bs' = length bs"
    "list_all (\<lambda>j. int (patch_offset j) + 4 + rel_at bs' (patch_offset j) = int (labels ! jump_target j)) js"
    "\<forall>k < length bs. list_all (\<lambda>j. k < patch_offset j \<or> patch_offset j + 4 \<le> k) js \<longrightarrow> bs' ! k = ?bs ! k"
    "\<forall>q. list_all (\<lambda>j. q + 4 \<le> patch_offset j) js \<longrightarrow> take 4 (drop q bs') = take 4 (drop q ?bs)"
    using Cons.IH [of ?bs] Cons.prems by auto
  have "rel_at bs' ?p = int ?t - (int ?p + 4)"
    using bs'(5) after rel_at_patch32 [OF j(1), of "jump_rel ?t ?p"] jump_rel_sint [of ?t ?p] j Cons.prems(3)
    by (simp add: rel_at_def)
  moreover have "?bs ! k = bs ! k" if "k < length bs" "k < ?p \<or> ?p + 4 \<le> k" for k
    using that j(1) by (auto simp: patch32_splice nth_append)
  moreover have "take 4 (drop q ?bs) = take 4 (drop q bs)" if "q + 4 \<le> ?p" for q
    using window_patch32 [OF j(1)] that by simp
  ultimately show ?case
    using bs' \<open>?t \<noteq> UINT32_MAX\<close> by (auto simp: list_all_iff Let_def)
qed simp

text \<open>
  C29: Resolving labels: after any sequence of emitter calls, label creations and bindings from the
  empty encoder, if every label some jump names has been bound, \<^verbatim>\<open>resolve_labels\<close> succeeds, keeps the
  size of the code, leaves no pending jump, and the displacement of every recorded jump, counted from
  the end of its field, lands on the offset its label was bound to; bytes outside the recorded fields
  do not change.
\<close>

theorem resolve_labels_correct:
  assumes "encoder_step\<^sup>*\<^sup>* empty_encoder e"
    and "\<forall>j \<in> set (e_pending e). label_offset e (jump_target j) \<noteq> UINT32_MAX"
  shows "\<exists>e'. resolve_labels e = Some e' \<and> e_pending e' = [] \<and> length (e_code e') = length (e_code e) \<and>
    (\<forall>j \<in> set (e_pending e).
       int (patch_offset j) + 4 + rel_at (e_code e') (patch_offset j) = int (label_offset e (jump_target j))) \<and>
    (\<forall>k < length (e_code e). (\<forall>j \<in> set (e_pending e). k < patch_offset j \<or> patch_offset j + 4 \<le> k) \<longrightarrow>
       e_code e' ! k = e_code e ! k)"
proof -
  have "encoder_ok empty_encoder" by (simp add: encoder_ok_def empty_encoder_def)
  then have ok: "encoder_ok e" using encoders.run_inv [OF assms(1)] by blast
  have "label_offset e (jump_target j) < 2 ^ 31" if "j \<in> set (e_pending e)" for j
  proof -
    have "label_offset e (jump_target j) \<in> set (e_labels e)"
      using ok that by (simp add: encoder_ok_def list_all_iff label_offset_def)
    then show ?thesis using ok assms(2) that by (auto simp: encoder_ok_def list_all_iff)
  qed
  then show ?thesis
    using ok patch_jumps_correct [of "e_pending e" "e_code e" "e_labels e"]
    by (auto simp: resolve_labels_def encoder_ok_def label_offset_def list_all_iff)
qed

definition skip_nop :: encoder where
  "skip_nop = bind_label 0 (x86_step (Asm X_nop) (x86_step (Flow (X_jmp 0)) (fst (make_label empty_encoder))))"

lemma skip_nop_steps: "encoder_step\<^sup>*\<^sup>* empty_encoder skip_nop"
proof -
  let ?a = "fst (make_label empty_encoder)"
  let ?b = "x86_step (Flow (X_jmp 0)) ?a"
  let ?c = "x86_step (Asm X_nop) ?b"
  have "encoder_step empty_encoder ?a" by (rule enc_make)
  moreover have "encoder_step ?a ?b"
    by (rule enc_emit) (simp_all add: make_label_def empty_encoder_def enc_jmp_def Let_def)
  moreover have "encoder_step ?b ?c"
    by (rule enc_emit) (simp_all add: make_label_def empty_encoder_def enc_jmp_def enc_nop_def Let_def)
  moreover have "encoder_step ?c skip_nop"
    unfolding skip_nop_def
    by (rule enc_bind) (simp add: make_label_def empty_encoder_def enc_jmp_def enc_nop_def Let_def)
  ultimately show ?thesis by (meson converse_rtranclp_into_rtranclp rtranclp.rtrancl_refl)
qed

theorem resolve_labels_correct_witness:
  "\<exists>e'. resolve_labels skip_nop = Some e' \<and> length (e_code e') = 6 \<and> rel_at (e_code e') 1 = 1"
proof -
  have p: "e_pending skip_nop = [\<lparr> patch_offset = 1, jump_target = 0 \<rparr>]" "e_labels skip_nop = [6]"
    "length (e_code skip_nop) = 6"
    by (simp_all add: skip_nop_def bind_label_def make_label_def empty_encoder_def enc_jmp_def enc_nop_def
        Let_def code_size_def)
  then have "\<forall>j \<in> set (e_pending skip_nop). label_offset skip_nop (jump_target j) \<noteq> UINT32_MAX"
    by (simp add: label_offset_def UINT32_MAX_def)
  from resolve_labels_correct [OF skip_nop_steps this] show ?thesis
    by (auto simp: p label_offset_def)
qed

end
