(* ===== verification/Wasm_Leb.thy ===== *)
theory Wasm_Leb
  imports Interfaces
begin

text \<open>
  The integer, name and section encodings of the WebAssembly binary format (the unnamed namespace of
  \<^verbatim>\<open>src/src/compiler/wasm_encoder.cpp\<close>), with the decoders the format prescribes. The arguments are
  unbounded here; the sources pass 32- and 64-bit values, and the loops only shift to the right. The
  decoders \<open>dec_u\<close> and \<open>dec_s\<close> carry the bit width of the format's \<^verbatim>\<open>uN\<close> and \<^verbatim>\<open>sN\<close> grammars, which
  bounds the number of bytes and the value.
\<close>

subsection \<open>The encoders\<close>

fun uleb :: "nat \<Rightarrow> bytes" where
  "uleb v =
     (let byt = of_nat (v mod 128); v' = v div 128
      in if v' \<noteq> 0 then (byt OR 0x80) # uleb v' else [byt])"

declare uleb.simps [simp del]

function sleb :: "int \<Rightarrow> bytes" where
  "sleb v =
     (let byt = word_of_int (v mod 128); v' = v div 128
      in if (v' = 0 \<and> byt AND 0x40 = 0) \<or> (v' = -1 \<and> byt AND 0x40 \<noteq> 0) then [byt]
         else (byt OR 0x80) # sleb v')"
  by auto

definition bytes_of :: "string \<Rightarrow> bytes" where
  "bytes_of text = map of_char text"

definition name :: "string \<Rightarrow> bytes" where
  "name text = uleb (length text) @ bytes_of text"

fun leb_padded :: "nat \<Rightarrow> int \<Rightarrow> bytes" where
  "leb_padded 0 v = [word_of_int (v mod 128)]"
| "leb_padded (Suc n) v = (word_of_int (v mod 128) OR 0x80) # leb_padded n (v div 128)"

definition uleb_padded :: "nat \<Rightarrow> bytes" where
  "uleb_padded v = leb_padded 4 (int v)"

definition sleb_padded :: "int \<Rightarrow> bytes" where
  "sleb_padded v = leb_padded 4 v"

definition emit_section :: "byte \<Rightarrow> bytes \<Rightarrow> bytes" where
  "emit_section sid payload = (if payload = [] then [] else sid # uleb (length payload) @ payload)"

text \<open>A counted sequence: the size, then the elements, the shape of every table of the format.\<close>

definition vec :: "('a \<Rightarrow> bytes) \<Rightarrow> 'a list \<Rightarrow> bytes" where
  "vec enc xs = uleb (length xs) @ concat (map enc xs)"

subsection \<open>The decoders of the format\<close>

fun dec_u :: "nat \<Rightarrow> bytes \<Rightarrow> (nat \<times> bytes) option" where
  "dec_u N [] = None"
| "dec_u N (b # bs) =
     (if unat b < 128 then if unat b < 2 ^ N then Some (unat b, bs) else None
      else if 7 < N then map_option (\<lambda>(m, r). (128 * m + (unat b - 128), r)) (dec_u (N - 7) bs)
      else None)"

fun dec_s :: "nat \<Rightarrow> bytes \<Rightarrow> (int \<times> bytes) option" where
  "dec_s N [] = None"
| "dec_s N (b # bs) =
     (let n = uint b
      in if n < 64 then if n < 2 ^ (N - 1) then Some (n, bs) else None
         else if n < 128 then if 128 - 2 ^ (N - 1) \<le> n then Some (n - 128, bs) else None
         else if 7 < N then map_option (\<lambda>(m, r). (128 * m + (n - 128), r)) (dec_s (N - 7) bs)
         else None)"

definition dec_name :: "bytes \<Rightarrow> (string \<times> bytes) option" where
  "dec_name bs = do { (n, bs) \<leftarrow> dec_u 32 bs; (s, bs) \<leftarrow> dec_bytes n bs; Some (map (\<lambda>b. char_of (unat b)) s, bs) }"

definition dec_vec :: "(bytes \<Rightarrow> ('a \<times> bytes) option) \<Rightarrow> bytes \<Rightarrow> ('a list \<times> bytes) option" where
  "dec_vec dec bs = do { (n, bs) \<leftarrow> dec_u 32 bs; dec_list dec n bs }"

text \<open>A decoder that must consume its input, and one behind a byte count.\<close>

definition dec_all :: "(bytes \<Rightarrow> ('a \<times> bytes) option) \<Rightarrow> bytes \<Rightarrow> 'a option" where
  "dec_all dec bs = (case dec bs of Some (x, []) \<Rightarrow> Some x | _ \<Rightarrow> None)"

definition dec_sized :: "(bytes \<Rightarrow> 'a option) \<Rightarrow> bytes \<Rightarrow> ('a \<times> bytes) option" where
  "dec_sized dec bs =
     do { (n, bs) \<leftarrow> dec_u 32 bs; (body, bs) \<leftarrow> dec_bytes n bs; x \<leftarrow> dec body; Some (x, bs) }"

subsection \<open>Bytes of seven bits\<close>

lemma bit_seven_bit: "n < 8 \<Longrightarrow> bit (of_nat x :: byte) n \<longleftrightarrow> bit x n"
  by transfer (simp add: bit_take_bit_iff bit_of_nat_iff_bit)

lemma seven_bit_or: "x < 128 \<Longrightarrow> unat ((of_nat x :: byte) OR 0x80) = x + 128"
proof -
  assume x: "x < 128"
  have "\<not> bit (of_nat x :: byte) 7"
    using x by (simp add: bit_seven_bit bit_iff_odd [of x])
  then have "(of_nat x :: byte) OR 0x80 = of_nat x + 0x80"
    using bit_exp_iff [of 7, where 'a = byte]
    by (intro disjunctive_add [symmetric]) (auto simp: bit_simps)
  also have "unat \<dots> = x + 128"
    using x by (simp add: unat_word_ariths unat_of_nat)
  finally show ?thesis .
qed

lemma unat_seven_bit: "x < 128 \<Longrightarrow> unat (of_nat x :: byte) = x"
  by (simp add: unat_of_nat)

lemma word_of_int_mod: "(word_of_int (v mod 128) :: byte) = of_nat (nat (v mod 128))"
  by simp

lemma seven_bit_sign: "x < 128 \<Longrightarrow> (of_nat x :: byte) AND 0x40 = 0 \<longleftrightarrow> x < 64"
proof -
  assume x: "x < 128"
  have "(of_nat x :: byte) AND 0x40 = 0 \<longleftrightarrow> \<not> bit (of_nat x :: byte) 6"
    by (simp add: bit_iff_and_push_bit_not_eq_0 push_bit_eq_mult)
  also have "\<dots> \<longleftrightarrow> \<not> odd (x div 64)"
    by (simp add: bit_seven_bit bit_iff_odd [of x])
  also have "\<dots> \<longleftrightarrow> x < 64"
  proof (cases "x < 64")
    case False
    then have "x div 64 = 1" using x by linarith
    then show ?thesis using False by simp
  qed simp
  finally show ?thesis .
qed

lemma low_bits [simp]:
  "unat (of_nat (v mod 128) :: byte) = v mod 128"
  "unat ((of_nat (v mod 128) :: byte) OR 0x80) = v mod 128 + 128"
  by (simp_all add: unat_seven_bit seven_bit_or)

lemma low_bits_int [simp]:
  "uint (word_of_int (v mod 128) :: byte) = v mod 128"
  "uint ((word_of_int (v mod 128) :: byte) OR 0x80) = v mod 128 + 128"
proof -
  let ?x = "nat (v mod 128)"
  have x: "?x < 128" "int ?x = v mod 128" by (simp_all add: nat_less_iff)
  have w: "(word_of_int (v mod 128) :: byte) = of_nat ?x" by simp
  show "uint (word_of_int (v mod 128) :: byte) = v mod 128"
    unfolding w uint_nat using unat_seven_bit [OF x(1)] x(2) by simp
  show "uint ((word_of_int (v mod 128) :: byte) OR 0x80) = v mod 128 + 128"
    unfolding w uint_nat using seven_bit_or [OF x(1)] x(2) by simp
qed

lemma low_bits_sign: "(word_of_int (v mod 128) :: byte) AND 0x40 = 0 \<longleftrightarrow> v mod 128 < 64"
  using seven_bit_sign [of "nat (v mod 128)"] unfolding word_of_int_mod by (simp add: nat_less_iff)

termination sleb
proof (relation "measure (\<lambda>v. nat (if 0 \<le> v then v else - v - 1))", goal_cases)
  case (2 v byt v')
  have ne: "v \<noteq> 0" "v \<noteq> - 1"
    using 2 low_bits_sign [of v] by auto
  show ?case
  proof (cases "0 \<le> v")
    case True
    then have "v div 128 < v" "0 \<le> v div 128" using ne by auto
    then show ?thesis using 2(2) True by simp
  next
    case False
    then have "v < v div 128" "v div 128 < 0" using ne by linarith+
    then show ?thesis using 2(2) False by (simp only: in_measure) simp
  qed
qed simp

declare sleb.simps [simp del]

subsection \<open>Decoding inverts encoding\<close>

lemma dec_u_last:
  "dec_u N (of_nat (v mod 128) # r) = (if v mod 128 < 2 ^ N then Some (v mod 128, r) else None)"
  by simp

lemma dec_u_more:
  "7 < N \<Longrightarrow> dec_u N ((of_nat (v mod 128) OR 0x80) # bs) =
     map_option (\<lambda>(m, r). (128 * m + v mod 128, r)) (dec_u (N - 7) bs)"
  by simp

lemma dec_s_last:
  "dec_s N (word_of_int (v mod 128) # r) =
     (if v mod 128 < 64 then if v mod 128 < 2 ^ (N - 1) then Some (v mod 128, r) else None
      else if 128 - 2 ^ (N - 1) \<le> v mod 128 then Some (v mod 128 - 128, r) else None)"
  by (simp add: Let_def)

lemma dec_s_more:
  "7 < N \<Longrightarrow> dec_s N ((word_of_int (v mod 128) OR 0x80) # bs) =
     map_option (\<lambda>(m, r). (128 * m + v mod 128, r)) (dec_s (N - 7) bs)"
proof -
  have "\<not> v mod 128 + 128 < 64" "\<not> v mod 128 + 128 < 128"
    using pos_mod_sign [of 128 v] by linarith+
  then show "7 < N \<Longrightarrow> ?thesis" by (simp add: Let_def)
qed

lemma sleb_stop:
  "v div 128 = 0 \<and> v mod 128 < 64 \<or> v div 128 = - 1 \<and> \<not> v mod 128 < 64 \<Longrightarrow>
   sleb v = [word_of_int (v mod 128)]"
  unfolding sleb.simps [of v] Let_def low_bits_sign by (rule if_P) blast

lemma sleb_continue:
  "\<not> (v div 128 = 0 \<and> v mod 128 < 64 \<or> v div 128 = - 1 \<and> \<not> v mod 128 < 64) \<Longrightarrow>
   sleb v = (word_of_int (v mod 128) OR 0x80) # sleb (v div 128)"
  unfolding sleb.simps [of v] Let_def low_bits_sign by (rule if_not_P) blast

lemma dec_u_uleb [codec]: "v < 2 ^ N \<Longrightarrow> dec_u N (uleb v @ r) = Some (v, r)"
proof (induction v arbitrary: N rule: uleb.induct)
  case (1 v)
  show ?case
  proof (cases "v div 128 = 0")
    case True
    then have "v mod 128 = v" "uleb v = [of_nat (v mod 128)]"
      by (auto simp: uleb.simps [of v] Let_def)
    then show ?thesis using 1(2) dec_u_last [of N v r] by simp
  next
    case False
    have N: "7 < N"
    proof (rule ccontr)
      assume "\<not> 7 < N"
      then have "(2::nat) ^ N \<le> 2 ^ 7" by (intro power_increasing) auto
      then show False using False 1(2) by simp
    qed
    then have "(2::nat) ^ N = 2 ^ (N - 7) * 128"
      using power_add [of "2::nat" "N - 7" 7] by simp
    then have "v div 128 < 2 ^ (N - 7)"
      using 1(2) by (simp add: less_mult_imp_div_less)
    then have "dec_u (N - 7) (uleb (v div 128) @ r) = Some (v div 128, r)"
      using False by (intro 1(1)) simp_all
    then show ?thesis using False dec_u_more [OF N] by (simp add: uleb.simps [of v] Let_def)
  qed
qed

lemma dec_s_sleb [codec]:
  "0 < N \<Longrightarrow> - (2 ^ (N - 1)) \<le> v \<Longrightarrow> v < 2 ^ (N - 1) \<Longrightarrow> dec_s N (sleb v @ r) = Some (v, r)"
proof (induction v arbitrary: N rule: sleb.induct)
  case (1 v)
  have v: "v = 128 * (v div 128) + v mod 128" by simp
  consider (zero) "v div 128 = 0" "v mod 128 < 64" | (neg) "v div 128 = - 1" "\<not> v mod 128 < 64"
    | (more) "\<not> (v div 128 = 0 \<and> v mod 128 < 64 \<or> v div 128 = - 1 \<and> \<not> v mod 128 < 64)"
    by blast
  then show ?case
  proof cases
    case zero
    then have "v mod 128 = v" by auto
    then show ?thesis using 1(4) zero(2) dec_s_last [of N v r] sleb_stop [of v] zero(1) by simp
  next
    case neg
    then have "v mod 128 - 128 = v" using v by linarith
    moreover from this have "128 - 2 ^ (N - 1) \<le> v mod 128" using 1(3) by linarith
    ultimately show ?thesis using neg dec_s_last [of N v r] sleb_stop [of v] by simp
  next
    case more
    have big: "v < - 64 \<or> 64 \<le> v"
    proof (rule ccontr)
      assume *: "\<not> ?thesis"
      then have "v div 128 = 0 \<or> v div 128 = - 1" by linarith
      then show False using more * v by (elim disjE) linarith+
    qed
    have N: "7 < N"
    proof (rule ccontr)
      assume "\<not> 7 < N"
      then have "(2::int) ^ (N - 1) \<le> 2 ^ 6" by (intro power_increasing) auto
      then show False using big 1(3,4) by simp
    qed
    then have "(2::int) ^ (N - 1) = 2 ^ (N - 7 - 1) * 128"
      using power_add [of "2::int" "N - 7 - 1" 7] by simp
    then have "- (2 ^ (N - 7 - 1)) \<le> v div 128" "v div 128 < 2 ^ (N - 7 - 1)"
      using 1(3,4) by linarith+
    then have "dec_s (N - 7) (sleb (v div 128) @ r) = Some (v div 128, r)"
      using N by (intro 1(1) [OF refl refl, unfolded low_bits_sign, OF more]) simp_all
    then show ?thesis unfolding sleb_continue [OF more] append_Cons dec_s_more [OF N] by simp
  qed
qed

lemma dec_s_padded:
  assumes "- (2 ^ (7 * n + k)) \<le> v" "v < 2 ^ (7 * n + k)" "k < 7"
  shows "dec_s (7 * n + k + 1) (leb_padded n v @ r) = Some (v, r)"
  using assms
proof (induction n arbitrary: v)
  case 0
  have k: "(2::int) ^ k \<le> 2 ^ 6" using 0(3) by (intro power_increasing) auto
  have v: "v = 128 * (v div 128) + v mod 128" by simp
  show ?case
  proof (cases "0 \<le> v")
    case True
    then have "v mod 128 = v" using 0 k by simp
    then show ?thesis using 0 k dec_s_last [of "k + 1" v r] by simp
  next
    case False
    then have "v div 128 = - 1" using 0 k by simp
    then have "v mod 128 - 128 = v" using v by linarith
    then show ?thesis using 0 False k dec_s_last [of "k + 1" v r] by simp
  qed
next
  case (Suc n)
  have "- (2 ^ (7 * n + k)) \<le> v div 128" "v div 128 < 2 ^ (7 * n + k)"
    using Suc(2,3) by (simp_all add: power_add)
  then have "dec_s (7 * n + k + 1) (leb_padded n (v div 128) @ r) = Some (v div 128, r)"
    using Suc by blast
  then show ?case
    using dec_s_more [of "7 * Suc n + k + 1" v "leb_padded n (v div 128) @ r"] by simp
qed

lemma low_bits_nat: "(word_of_int (int v mod 128) :: byte) = of_nat (v mod 128)"
  by (metis of_int_of_nat_eq of_nat_mod of_nat_numeral)

lemma dec_u_padded:
  assumes "v < 2 ^ (7 * n + k)" "k \<le> 7" "0 < k"
  shows "dec_u (7 * n + k) (leb_padded n (int v) @ r) = Some (v, r)"
  using assms
proof (induction n arbitrary: v)
  case 0
  have k: "(2::nat) ^ k \<le> 2 ^ 7" using 0(2) by (intro power_increasing) auto
  then have "v mod 128 = v" using 0 by simp
  then show ?case using 0 dec_u_last [of k v r] by (simp add: low_bits_nat)
next
  case (Suc n)
  have "v div 128 < 2 ^ (7 * n + k)"
    using Suc(2) by (simp add: power_add less_mult_imp_div_less ac_simps)
  then have "dec_u (7 * n + k) (leb_padded n (int (v div 128)) @ r) = Some (v div 128, r)"
    using Suc by blast
  then show ?case
    using dec_u_more [of "7 * Suc n + k" v "leb_padded n (int v div 128) @ r"] Suc(4)
    by (simp add: zdiv_int low_bits_nat del: dec_u.simps)
qed

lemma dec_uleb_padded [codec]: "v < 2 ^ 32 \<Longrightarrow> dec_u 32 (uleb_padded v @ r) = Some (v, r)"
  using dec_u_padded [of v 4 4 r] by (simp add: uleb_padded_def)

lemma dec_sleb_padded [codec]:
  "- (2 ^ 31) \<le> v \<Longrightarrow> v < 2 ^ 31 \<Longrightarrow> dec_s 32 (sleb_padded v @ r) = Some (v, r)"
  using dec_s_padded [of 4 3 v r] by (simp add: sleb_padded_def)

lemma length_leb_padded [simp]: "length (leb_padded n v) = Suc n"
  by (induction n arbitrary: v) simp_all

lemma length_padded [simp]: "length (uleb_padded v) = 5" "length (sleb_padded w) = 5"
  by (simp_all add: uleb_padded_def sleb_padded_def)

lemma uleb_not_Nil [simp]: "uleb v \<noteq> []"
  by (simp add: uleb.simps [of v] Let_def)

lemma sleb_not_Nil [simp]: "sleb v \<noteq> []"
  by (simp add: sleb.simps [of v] Let_def)

text \<open>The encoders as codecs of the format's integer types.\<close>

interpretation u32: codec uleb "dec_u 32" "\<lambda>v. v < 2 ^ 32"
  by unfold_locales (rule dec_u_uleb)

interpretation u64: codec uleb "dec_u 64" "\<lambda>v. v < 2 ^ 64"
  by unfold_locales (rule dec_u_uleb)

interpretation s32: codec sleb "dec_s 32" "\<lambda>v. - (2 ^ 31) \<le> v \<and> v < 2 ^ 31"
  by unfold_locales (rule dec_s_sleb; simp)

interpretation s64: codec sleb "dec_s 64" "\<lambda>v. - (2 ^ 63) \<le> v \<and> v < 2 ^ 63"
  by unfold_locales (rule dec_s_sleb; simp)

interpretation pu32: codec uleb_padded "dec_u 32" "\<lambda>v. v < 2 ^ 32"
  by unfold_locales (rule dec_uleb_padded)

interpretation ps32: codec sleb_padded "dec_s 32" "\<lambda>v. - (2 ^ 31) \<le> v \<and> v < 2 ^ 31"
  by unfold_locales (rule dec_sleb_padded; simp)

lemmas leb_codecs [codec] = u32.dec_enc u64.dec_enc s32.dec_enc s64.dec_enc

subsection \<open>Sizes\<close>

text \<open>The encoders stay within the number of bytes the format allows for each width.\<close>

lemma uleb_length: "v < 2 ^ (7 * n) \<Longrightarrow> 0 < n \<Longrightarrow> length (uleb v) \<le> n"
proof (induction v arbitrary: n rule: uleb.induct)
  case (1 v)
  show ?case
  proof (cases "v div 128 = 0")
    case False
    then obtain m where m: "n = Suc m" "0 < m"
      using 1(2,3) by (cases n; cases "n = 1") auto
    then have "v div 128 < 2 ^ (7 * m)"
      using 1(2) by (simp add: power_add less_mult_imp_div_less ac_simps)
    then show ?thesis using 1(1) False m by (simp add: uleb.simps [of v] Let_def)
  qed (use 1 in \<open>simp add: uleb.simps [of v] Let_def\<close>)
qed

lemma sleb_length:
  "- (2 ^ (7 * n - 1)) \<le> v \<Longrightarrow> v < 2 ^ (7 * n - 1) \<Longrightarrow> 0 < n \<Longrightarrow> length (sleb v) \<le> n"
proof (induction v arbitrary: n rule: sleb.induct)
  case (1 v)
  let ?stop = "v div 128 = 0 \<and> v mod 128 < 64 \<or> v div 128 = - 1 \<and> \<not> v mod 128 < 64"
  have v: "v = 128 * (v div 128) + v mod 128" by simp
  show ?case
  proof (cases ?stop)
    case True
    then show ?thesis using 1(4) by (simp add: sleb_stop)
  next
    case False
    have "n \<noteq> 1"
    proof
      assume "n = 1"
      then have *: "- 64 \<le> v" "v < 64" using 1(2,3) by simp_all
      then have "v div 128 = 0 \<or> v div 128 = - 1" by linarith
      then show False using False * v by (elim disjE) linarith+
    qed
    then obtain m where m: "n = Suc m" "0 < m" using 1(4) by (cases n) auto
    then have "7 * n - 1 = 7 * m - 1 + 7" by simp
    then have "(2::int) ^ (7 * n - 1) = 2 ^ (7 * m - 1) * 128" by (simp add: power_add)
    then have "- (2 ^ (7 * m - 1)) \<le> v div 128" "v div 128 < 2 ^ (7 * m - 1)"
      using 1(2,3) by linarith+
    then show ?thesis
      using 1(1) [OF refl refl, unfolded low_bits_sign, OF False, of m] m
      by (simp add: sleb_continue [OF False])
  qed
qed

lemma uleb_u32_length [bounds]: "v < 2 ^ 32 \<Longrightarrow> length (uleb v) \<le> 5"
  by (rule uleb_length) simp_all

lemma sleb_s32_length [bounds]: "- (2 ^ 31) \<le> v \<Longrightarrow> v < 2 ^ 31 \<Longrightarrow> length (sleb v) \<le> 5"
  by (rule sleb_length) simp_all

subsection \<open>Names, counted sequences and sections\<close>

lemma length_bytes_of [simp]: "length (bytes_of s) = length s"
  by (simp add: bytes_of_def)

lemma char_of_byte_of: "char_of (unat (of_char c :: byte)) = c"
proof -
  have "unat (of_char c :: byte) = of_char c mod 256"
    using unat_of_nat [of "of_char c", where 'a = 8] by (simp add: of_nat_of_char)
  then show ?thesis by simp
qed

lemma bytes_of_inverse [codec]: "map (\<lambda>b. char_of (unat b)) (bytes_of s) = s"
  by (induction s) (simp_all add: bytes_of_def char_of_byte_of)

interpretation names: codec name dec_name "\<lambda>s. length s < 2 ^ 32"
  by unfold_locales
    (simp add: name_def dec_name_def dec_u_uleb dec_bytes_append bytes_of_inverse)

lemma name_not_Nil [simp]: "name s \<noteq> []"
  by (simp add: name_def)

lemma dec_vec_vec:
  assumes "\<And>x r. x \<in> set xs \<Longrightarrow> dec (enc x @ r) = Some (x, r)" "length xs < 2 ^ 32"
  shows "dec_vec dec (vec enc xs @ r) = Some (xs, r)"
proof -
  have "codec enc dec (\<lambda>x. x \<in> set xs)" by unfold_locales (rule assms(1))
  from codec.dec_list_enc [OF this, of xs r] show ?thesis
    using assms(2) by (simp add: dec_vec_def vec_def dec_u_uleb)
qed

lemma length_vec:
  assumes "\<And>x. x \<in> set xs \<Longrightarrow> enc x \<noteq> []"
  shows "length xs < length (vec enc xs)"
proof -
  have "length xs \<le> length (concat (map enc xs))"
    using assms
  proof (induction xs)
    case (Cons a xs)
    then have "0 < length (enc a)" "length xs \<le> length (concat (map enc xs))" by simp_all
    then show ?case by (simp del: length_greater_0_conv)
  qed simp
  moreover have "0 < length (uleb (length xs))" by simp
  ultimately show ?thesis unfolding vec_def length_append by linarith
qed

lemma element_length: "x \<in> set xs \<Longrightarrow> length (enc x) < length (vec enc xs)"
proof -
  assume "x \<in> set xs"
  then have "length (enc x) \<le> length (concat (map enc xs))" by (induction xs) auto
  moreover have "0 < length (uleb (length xs))" by simp
  ultimately show ?thesis unfolding vec_def length_append by linarith
qed

lemma vec_not_Nil [simp]: "vec enc xs \<noteq> []"
  by (simp add: vec_def)

lemma dec_all_Some: "dec (bs @ []) = Some (x, []) \<Longrightarrow> dec_all dec bs = Some x"
  by (simp add: dec_all_def)

lemma dec_sized_append [codec]:
  "length body < 2 ^ 32 \<Longrightarrow> dec body = Some x \<Longrightarrow>
   dec_sized dec (uleb (length body) @ body @ r) = Some (x, r)"
  by (simp add: dec_sized_def dec_u_uleb dec_bytes_append)

text \<open>A decoder of integers reads at least one byte.\<close>

lemma dec_u_shorter: "dec_u N bs = Some (v, r) \<Longrightarrow> length r < length bs"
  by (induction N bs arbitrary: v rule: dec_u.induct) (auto split: if_splits intro: less_SucI)

text \<open>The section list of a module after its magic number and version.\<close>

function dec_sections :: "bytes \<Rightarrow> (byte \<times> bytes) list option" where
  "dec_sections [] = Some []"
| "dec_sections (sid # bs) =
     (case dec_u 32 bs of None \<Rightarrow> None
      | Some (n, r) \<Rightarrow>
          if length r < n then None
          else map_option ((#) (sid, take n r)) (dec_sections (drop n r)))"
  by pat_completeness auto

termination dec_sections
  by (relation "measure length") (auto dest: dec_u_shorter)

definition emit_sections :: "(byte \<times> bytes) list \<Rightarrow> bytes" where
  "emit_sections secs = concat (map (\<lambda>(sid, payload). emit_section sid payload) secs)"

lemma dec_emit_section:
  "length payload < 2 ^ 32 \<Longrightarrow>
   dec_sections (emit_section sid payload @ r) =
     (if payload = [] then dec_sections r
      else map_option ((#) (sid, payload)) (dec_sections r))"
  by (simp add: emit_section_def dec_u_uleb)

lemma dec_emit_sections [codec]:
  "\<forall>(sid, payload) \<in> set secs. length payload < 2 ^ 32 \<Longrightarrow>
   dec_sections (emit_sections secs) = Some (filter (\<lambda>(sid, payload). payload \<noteq> []) secs)"
  by (induction secs) (auto simp: emit_sections_def dec_emit_section)

lemma payload_length: "length payload \<le> length (emit_section sid payload)"
  by (simp add: emit_section_def)

end
