(* ===== verification/Wasm_Code.thy ===== *)
theory Wasm_Code
  imports Wasm_Leb
begin

text \<open>
  The instruction stream builder of \<^verbatim>\<open>src/src/compiler/wasm_encoder.cpp\<close> (class \<^verbatim>\<open>Code\<close>): the byte
  buffer with its relocations and one definition per method. Sizes cast to \<^verbatim>\<open>uint32_t\<close> are reduced
  modulo \<open>2 ^ 32\<close>. The second half decodes instruction streams by the binary grammar of the core
  specification and states where relocations point.
\<close>

subsection \<open>Types\<close>

datatype val_type = VT_I32 | VT_I64 | VT_F32 | VT_F64 | VT_Funcref

fun val_type_code :: "val_type \<Rightarrow> byte" where
  "val_type_code VT_I32 = 0x7F"
| "val_type_code VT_I64 = 0x7E"
| "val_type_code VT_F32 = 0x7D"
| "val_type_code VT_F64 = 0x7C"
| "val_type_code VT_Funcref = 0x70"

record func_type =
  ft_params :: "val_type list"
  ft_results :: "val_type list"

definition FUNCTION_INDEX_LEB :: byte where "FUNCTION_INDEX_LEB = 0"
definition TABLE_INDEX_SLEB :: byte where "TABLE_INDEX_SLEB = 1"
definition TABLE_INDEX_I32 :: byte where "TABLE_INDEX_I32 = 2"
definition MEMORY_ADDR_LEB :: byte where "MEMORY_ADDR_LEB = 3"
definition MEMORY_ADDR_SLEB :: byte where "MEMORY_ADDR_SLEB = 4"
definition MEMORY_ADDR_I32 :: byte where "MEMORY_ADDR_I32 = 5"
definition TYPE_INDEX_LEB :: byte where "TYPE_INDEX_LEB = 6"
definition GLOBAL_INDEX_LEB :: byte where "GLOBAL_INDEX_LEB = 7"

lemmas reloc_kinds =
  FUNCTION_INDEX_LEB_def TABLE_INDEX_SLEB_def TABLE_INDEX_I32_def MEMORY_ADDR_LEB_def
  MEMORY_ADDR_SLEB_def MEMORY_ADDR_I32_def TYPE_INDEX_LEB_def GLOBAL_INDEX_LEB_def

record reloc =
  rl_type :: byte
  rl_offset :: nat
  rl_index :: nat
  rl_addend :: int

record code =
  code_bytes :: bytes
  code_relocs :: "reloc list"

definition empty_code :: code where
  "empty_code = \<lparr> code_bytes = [], code_relocs = [] \<rparr>"

definition u32_of :: "nat \<Rightarrow> nat" where
  "u32_of n = n mod 2 ^ 32"

lemma u32_of_id [simp]: "n < 2 ^ 32 \<Longrightarrow> u32_of n = n"
  by (simp add: u32_of_def)

definition put :: "bytes \<Rightarrow> code \<Rightarrow> code" where
  "put bs c = c\<lparr> code_bytes := code_bytes c @ bs \<rparr>"

definition put_reloc :: "byte \<Rightarrow> nat \<Rightarrow> int \<Rightarrow> code \<Rightarrow> code" where
  "put_reloc kind symbol addend c = c\<lparr> code_relocs := code_relocs c @
     [\<lparr> rl_type = kind, rl_offset = u32_of (length (code_bytes c)), rl_index = symbol,
        rl_addend = addend \<rparr>] \<rparr>"

subsection \<open>The methods of Code\<close>

definition code_op :: "byte \<Rightarrow> code \<Rightarrow> code" where
  "code_op opcode c = put [opcode] c"

definition code_op_fc :: "nat \<Rightarrow> code \<Rightarrow> code" where
  "code_op_fc sub c = put (uleb sub) (put [0xFC] c)"

definition unreachable_op :: "code \<Rightarrow> code" where
  "unreachable_op c = code_op 0x00 c"

definition block_void :: "code \<Rightarrow> code" where
  "block_void c = put [0x40] (code_op 0x02 c)"

definition loop_void :: "code \<Rightarrow> code" where
  "loop_void c = put [0x40] (code_op 0x03 c)"

definition if_void :: "code \<Rightarrow> code" where
  "if_void c = put [0x40] (code_op 0x04 c)"

definition else_op :: "code \<Rightarrow> code" where
  "else_op c = code_op 0x05 c"

definition end_op :: "code \<Rightarrow> code" where
  "end_op c = code_op 0x0B c"

definition br :: "nat \<Rightarrow> code \<Rightarrow> code" where
  "br depth c = put (uleb depth) (code_op 0x0C c)"

definition br_if :: "nat \<Rightarrow> code \<Rightarrow> code" where
  "br_if depth c = put (uleb depth) (code_op 0x0D c)"

definition br_table :: "nat list \<Rightarrow> nat \<Rightarrow> code \<Rightarrow> code" where
  "br_table depths default_depth c =
     put (uleb default_depth)
       (fold (\<lambda>depth. put (uleb depth)) depths (put (uleb (length depths)) (code_op 0x0E c)))"

definition return_op :: "code \<Rightarrow> code" where
  "return_op c = code_op 0x0F c"

definition wasm_call :: "nat \<Rightarrow> code \<Rightarrow> code" where
  "wasm_call function_index c = put (uleb function_index) (code_op 0x10 c)"

definition wasm_call_indirect :: "nat \<Rightarrow> code \<Rightarrow> code" where
  "wasm_call_indirect type_index c = put [0x00] (put (uleb type_index) (code_op 0x11 c))"

definition drop_op :: "code \<Rightarrow> code" where
  "drop_op c = code_op 0x1A c"

definition select_op :: "code \<Rightarrow> code" where
  "select_op c = code_op 0x1B c"

definition local_get :: "nat \<Rightarrow> code \<Rightarrow> code" where
  "local_get index c = put (uleb index) (code_op 0x20 c)"

definition local_set :: "nat \<Rightarrow> code \<Rightarrow> code" where
  "local_set index c = put (uleb index) (code_op 0x21 c)"

definition local_tee :: "nat \<Rightarrow> code \<Rightarrow> code" where
  "local_tee index c = put (uleb index) (code_op 0x22 c)"

definition global_get :: "nat \<Rightarrow> code \<Rightarrow> code" where
  "global_get index c = put (uleb index) (code_op 0x23 c)"

definition global_set :: "nat \<Rightarrow> code \<Rightarrow> code" where
  "global_set index c = put (uleb index) (code_op 0x24 c)"

definition load_opcode :: "val_type \<Rightarrow> nat \<Rightarrow> bool \<Rightarrow> byte" where
  "load_opcode type bits sign_extend =
     (if type = VT_I32 then
        if bits = 8 then if sign_extend then 0x2C else 0x2D
        else if bits = 16 then if sign_extend then 0x2E else 0x2F
        else 0x28
      else if type = VT_I64 then
        if bits = 8 then if sign_extend then 0x30 else 0x31
        else if bits = 16 then if sign_extend then 0x32 else 0x33
        else if bits = 32 then if sign_extend then 0x34 else 0x35
        else 0x29
      else if type = VT_F32 then 0x2A
      else 0x2B)"

definition wasm_load :: "val_type \<Rightarrow> nat \<Rightarrow> bool \<Rightarrow> nat \<Rightarrow> nat \<Rightarrow> code \<Rightarrow> code" where
  "wasm_load type bits sign_extend align_log2 offset c =
     put (uleb offset) (put (uleb align_log2) (code_op (load_opcode type bits sign_extend) c))"

definition store_opcode :: "val_type \<Rightarrow> nat \<Rightarrow> byte" where
  "store_opcode type bits =
     (if type = VT_I32 then if bits = 8 then 0x3A else if bits = 16 then 0x3B else 0x36
      else if type = VT_I64 then
        if bits = 8 then 0x3C else if bits = 16 then 0x3D else if bits = 32 then 0x3E else 0x37
      else if type = VT_F32 then 0x38
      else 0x39)"

definition wasm_store :: "val_type \<Rightarrow> nat \<Rightarrow> nat \<Rightarrow> nat \<Rightarrow> code \<Rightarrow> code" where
  "wasm_store type bits align_log2 offset c =
     put (uleb offset) (put (uleb align_log2) (code_op (store_opcode type bits) c))"

definition memory_copy :: "code \<Rightarrow> code" where
  "memory_copy c = put [0x00] (put [0x00] (code_op_fc 10 c))"

definition memory_fill :: "code \<Rightarrow> code" where
  "memory_fill c = put [0x00] (code_op_fc 11 c)"

definition i32_const :: "int \<Rightarrow> code \<Rightarrow> code" where
  "i32_const value c = put (sleb value) (code_op 0x41 c)"

definition i64_const :: "int \<Rightarrow> code \<Rightarrow> code" where
  "i64_const value c = put (sleb value) (code_op 0x42 c)"

definition f32_const_bits :: "u32 \<Rightarrow> code \<Rightarrow> code" where
  "f32_const_bits bits c = put (le_bytes 4 bits) (code_op 0x43 c)"

definition f64_const_bits :: "u64 \<Rightarrow> code \<Rightarrow> code" where
  "f64_const_bits bits c = put (le_bytes 8 bits) (code_op 0x44 c)"

definition call_reloc :: "nat \<Rightarrow> nat \<Rightarrow> code \<Rightarrow> code" where
  "call_reloc function_index symbol c =
     put (uleb_padded function_index) (put_reloc FUNCTION_INDEX_LEB symbol 0 (code_op 0x10 c))"

definition i32_const_table :: "nat \<Rightarrow> code \<Rightarrow> code" where
  "i32_const_table symbol c =
     put (sleb_padded 0) (put_reloc TABLE_INDEX_SLEB symbol 0 (code_op 0x41 c))"

definition i32_const_memory :: "nat \<Rightarrow> int \<Rightarrow> code \<Rightarrow> code" where
  "i32_const_memory symbol addend c =
     put (sleb_padded 0) (put_reloc MEMORY_ADDR_SLEB symbol addend (code_op 0x41 c))"

definition global_get_reloc :: "nat \<Rightarrow> nat \<Rightarrow> code \<Rightarrow> code" where
  "global_get_reloc global_index symbol c =
     put (uleb_padded global_index) (put_reloc GLOBAL_INDEX_LEB symbol 0 (code_op 0x23 c))"

definition global_set_reloc :: "nat \<Rightarrow> nat \<Rightarrow> code \<Rightarrow> code" where
  "global_set_reloc global_index symbol c =
     put (uleb_padded global_index) (put_reloc GLOBAL_INDEX_LEB symbol 0 (code_op 0x24 c))"

definition call_indirect_reloc :: "nat \<Rightarrow> code \<Rightarrow> code" where
  "call_indirect_reloc type_index c =
     put [0x00] (put (uleb_padded type_index)
       (put_reloc TYPE_INDEX_LEB type_index 0 (code_op 0x11 c)))"

text \<open>\<^verbatim>\<open>entry.offset += base\<close>, on \<^verbatim>\<open>uint32_t\<close>.\<close>

definition rebase :: "nat \<Rightarrow> reloc \<Rightarrow> reloc" where
  "rebase base r = r\<lparr> rl_offset := u32_of (rl_offset r + base) \<rparr>"

definition code_append :: "code \<Rightarrow> code \<Rightarrow> code" where
  "code_append other c =
     \<lparr> code_bytes = code_bytes c @ code_bytes other,
       code_relocs = code_relocs c @ map (rebase (u32_of (length (code_bytes c)))) (code_relocs other) \<rparr>"

subsection \<open>Method calls as data\<close>

datatype (plugins only: code size) code_call =
    C_op byte | C_op_fc nat | C_unreachable_op | C_block_void | C_loop_void | C_if_void | C_else_op
  | C_end | C_br nat | C_br_if nat | C_br_table "nat list" nat | C_return_op | C_call nat
  | C_call_indirect nat | C_drop | C_select_op | C_local_get nat | C_local_set nat
  | C_local_tee nat | C_global_get nat | C_global_set nat | C_load val_type nat bool nat nat
  | C_store val_type nat nat nat | C_memory_copy | C_memory_fill | C_i32_const int
  | C_i64_const int | C_f32_const_bits u32 | C_f64_const_bits u64 | C_call_reloc nat nat
  | C_i32_const_table nat | C_i32_const_memory nat int | C_global_get_reloc nat nat
  | C_global_set_reloc nat nat | C_call_indirect_reloc nat

primrec code_step :: "code_call \<Rightarrow> code \<Rightarrow> code" where
  "code_step (C_op opcode) = code_op opcode"
| "code_step (C_op_fc sub) = code_op_fc sub"
| "code_step C_unreachable_op = unreachable_op"
| "code_step C_block_void = block_void"
| "code_step C_loop_void = loop_void"
| "code_step C_if_void = if_void"
| "code_step C_else_op = else_op"
| "code_step C_end = end_op"
| "code_step (C_br d) = br d"
| "code_step (C_br_if d) = br_if d"
| "code_step (C_br_table ds d) = br_table ds d"
| "code_step C_return_op = return_op"
| "code_step (C_call f) = wasm_call f"
| "code_step (C_call_indirect t) = wasm_call_indirect t"
| "code_step C_drop = drop_op"
| "code_step C_select_op = select_op"
| "code_step (C_local_get i) = local_get i"
| "code_step (C_local_set i) = local_set i"
| "code_step (C_local_tee i) = local_tee i"
| "code_step (C_global_get i) = global_get i"
| "code_step (C_global_set i) = global_set i"
| "code_step (C_load t b s a p) = wasm_load t b s a p"
| "code_step (C_store t b a p) = wasm_store t b a p"
| "code_step C_memory_copy = memory_copy"
| "code_step C_memory_fill = memory_fill"
| "code_step (C_i32_const v) = i32_const v"
| "code_step (C_i64_const v) = i64_const v"
| "code_step (C_f32_const_bits b) = f32_const_bits b"
| "code_step (C_f64_const_bits b) = f64_const_bits b"
| "code_step (C_call_reloc f s) = call_reloc f s"
| "code_step (C_i32_const_table s) = i32_const_table s"
| "code_step (C_i32_const_memory s a) = i32_const_memory s a"
| "code_step (C_global_get_reloc g s) = global_get_reloc g s"
| "code_step (C_global_set_reloc g s) = global_set_reloc g s"
| "code_step (C_call_indirect_reloc t) = call_indirect_reloc t"

lemmas code_method_defs =
  code_op_def code_op_fc_def unreachable_op_def block_void_def loop_void_def if_void_def
  else_op_def end_op_def br_def br_if_def br_table_def return_op_def wasm_call_def
  wasm_call_indirect_def drop_op_def select_op_def local_get_def local_set_def local_tee_def
  global_get_def global_set_def wasm_load_def wasm_store_def memory_copy_def memory_fill_def
  i32_const_def i64_const_def f32_const_bits_def f64_const_bits_def call_reloc_def
  i32_const_table_def i32_const_memory_def global_get_reloc_def global_set_reloc_def
  call_indirect_reloc_def

subsection \<open>Instructions of the binary format\<close>

text \<open>
  The instructions by the opcode table of the core specification. A load or store carries its value
  type and, for the narrow forms, the width (and signedness) in memory; \<open>I_Num\<close> is one of the
  operand-less numeric instructions \<^verbatim>\<open>0x45\<close> to \<^verbatim>\<open>0xC4\<close>, \<open>I_TruncSat\<close> a saturating truncation.
\<close>

datatype (plugins only: code size) instr =
    I_Unreachable | I_Block | I_Loop | I_If | I_Else | I_End | I_Br nat | I_BrIf nat
  | I_BrTable "nat list" nat | I_Return | I_Call nat | I_CallIndirect nat | I_Drop | I_Select
  | I_LocalGet nat | I_LocalSet nat | I_LocalTee nat | I_GlobalGet nat | I_GlobalSet nat
  | I_Load val_type "(nat \<times> bool) option" nat nat | I_Store val_type "nat option" nat nat
  | I_MemoryCopy | I_MemoryFill | I_I32Const int | I_I64Const int | I_F32Const nat
  | I_F64Const nat | I_Num byte | I_TruncSat nat

definition dec_index :: "(nat \<Rightarrow> instr) \<Rightarrow> bytes \<Rightarrow> (instr \<times> bytes) option" where
  "dec_index f bs = do { (n, bs) \<leftarrow> dec_u 32 bs; Some (f n, bs) }"

definition dec_memarg :: "(nat \<Rightarrow> nat \<Rightarrow> instr) \<Rightarrow> bytes \<Rightarrow> (instr \<times> bytes) option" where
  "dec_memarg f bs = do { (a, bs) \<leftarrow> dec_u 32 bs; (p, bs) \<leftarrow> dec_u 32 bs; Some (f a p, bs) }"

definition dec_block :: "instr \<Rightarrow> bytes \<Rightarrow> (instr \<times> bytes) option" where
  "dec_block i bs = do { bs \<leftarrow> dec_byte 0x40 bs; Some (i, bs) }"

definition dec_br_table :: "bytes \<Rightarrow> (instr \<times> bytes) option" where
  "dec_br_table bs =
     do { (ds, bs) \<leftarrow> dec_vec (dec_u 32) bs; (d, bs) \<leftarrow> dec_u 32 bs; Some (I_BrTable ds d, bs) }"

definition dec_prefixed :: "bytes \<Rightarrow> (instr \<times> bytes) option" where
  "dec_prefixed bs =
     do { (n, bs) \<leftarrow> dec_u 32 bs;
          if n < 8 then Some (I_TruncSat n, bs)
          else if n = 10 then do { bs \<leftarrow> dec_byte 0 bs; bs \<leftarrow> dec_byte 0 bs; Some (I_MemoryCopy, bs) }
          else if n = 11 then do { bs \<leftarrow> dec_byte 0 bs; Some (I_MemoryFill, bs) }
          else None }"

definition dec_const :: "nat \<Rightarrow> (int \<Rightarrow> instr) \<Rightarrow> bytes \<Rightarrow> (instr \<times> bytes) option" where
  "dec_const N f bs = do { (v, bs) \<leftarrow> dec_s N bs; Some (f v, bs) }"

definition dec_float :: "nat \<Rightarrow> (nat \<Rightarrow> instr) \<Rightarrow> bytes \<Rightarrow> (instr \<times> bytes) option" where
  "dec_float n f bs = do { (b, bs) \<leftarrow> dec_bytes n bs; Some (f (le_nat b), bs) }"

text \<open>The loads \<^verbatim>\<open>0x28\<close> to \<^verbatim>\<open>0x35\<close> and the stores \<^verbatim>\<open>0x36\<close> to \<^verbatim>\<open>0x3E\<close>, in opcode order.\<close>

definition load_table :: "(val_type \<times> (nat \<times> bool) option) list" where
  "load_table =
     [(VT_I32, None), (VT_I64, None), (VT_F32, None), (VT_F64, None),
      (VT_I32, Some (8, True)), (VT_I32, Some (8, False)),
      (VT_I32, Some (16, True)), (VT_I32, Some (16, False)),
      (VT_I64, Some (8, True)), (VT_I64, Some (8, False)),
      (VT_I64, Some (16, True)), (VT_I64, Some (16, False)),
      (VT_I64, Some (32, True)), (VT_I64, Some (32, False))]"

definition store_table :: "(val_type \<times> nat option) list" where
  "store_table =
     [(VT_I32, None), (VT_I64, None), (VT_F32, None), (VT_F64, None), (VT_I32, Some 8),
      (VT_I32, Some 16), (VT_I64, Some 8), (VT_I64, Some 16), (VT_I64, Some 32)]"

definition dec_memory :: "nat \<Rightarrow> bytes \<Rightarrow> (instr \<times> bytes) option" where
  "dec_memory k bs =
     (if k < 0x36 then dec_memarg (case load_table ! (k - 0x28) of (t, w) \<Rightarrow> I_Load t w) bs
      else dec_memarg (case store_table ! (k - 0x36) of (t, w) \<Rightarrow> I_Store t w) bs)"

fun dec_instr :: "bytes \<Rightarrow> (instr \<times> bytes) option" where
  "dec_instr [] = None"
| "dec_instr (b # bs) =
     (let k = unat b
      in if 0x45 \<le> k \<and> k \<le> 0xC4 then Some (I_Num b, bs)
         else if 0x28 \<le> k \<and> k \<le> 0x3E then dec_memory k bs
         else if k = 0x00 then Some (I_Unreachable, bs)
         else if k = 0x02 then dec_block I_Block bs
         else if k = 0x03 then dec_block I_Loop bs
         else if k = 0x04 then dec_block I_If bs
         else if k = 0x05 then Some (I_Else, bs)
         else if k = 0x0B then Some (I_End, bs)
         else if k = 0x0C then dec_index I_Br bs
         else if k = 0x0D then dec_index I_BrIf bs
         else if k = 0x0E then dec_br_table bs
         else if k = 0x0F then Some (I_Return, bs)
         else if k = 0x10 then dec_index I_Call bs
         else if k = 0x11 then
           do { (i, bs) \<leftarrow> dec_index I_CallIndirect bs; bs \<leftarrow> dec_byte 0 bs; Some (i, bs) }
         else if k = 0x1A then Some (I_Drop, bs)
         else if k = 0x1B then Some (I_Select, bs)
         else if k = 0x20 then dec_index I_LocalGet bs
         else if k = 0x21 then dec_index I_LocalSet bs
         else if k = 0x22 then dec_index I_LocalTee bs
         else if k = 0x23 then dec_index I_GlobalGet bs
         else if k = 0x24 then dec_index I_GlobalSet bs
         else if k = 0x41 then dec_const 32 I_I32Const bs
         else if k = 0x42 then dec_const 64 I_I64Const bs
         else if k = 0x43 then dec_float 4 I_F32Const bs
         else if k = 0x44 then dec_float 8 I_F64Const bs
         else if k = 0xFC then dec_prefixed bs
         else None)"

text \<open>The instruction each method stands for, and the arguments it takes.\<close>

definition narrow :: "val_type \<Rightarrow> nat \<Rightarrow> nat option" where
  "narrow t b =
     (if t = VT_I32 \<and> b \<in> {8, 16} \<or> t = VT_I64 \<and> b \<in> {8, 16, 32} then Some b else None)"

primrec instr_of :: "code_call \<Rightarrow> instr" where
  "instr_of (C_op opcode) = I_Num opcode"
| "instr_of (C_op_fc sub) = I_TruncSat sub"
| "instr_of C_unreachable_op = I_Unreachable"
| "instr_of C_block_void = I_Block"
| "instr_of C_loop_void = I_Loop"
| "instr_of C_if_void = I_If"
| "instr_of C_else_op = I_Else"
| "instr_of C_end = I_End"
| "instr_of (C_br d) = I_Br d"
| "instr_of (C_br_if d) = I_BrIf d"
| "instr_of (C_br_table ds d) = I_BrTable ds d"
| "instr_of C_return_op = I_Return"
| "instr_of (C_call f) = I_Call f"
| "instr_of (C_call_indirect t) = I_CallIndirect t"
| "instr_of C_drop = I_Drop"
| "instr_of C_select_op = I_Select"
| "instr_of (C_local_get i) = I_LocalGet i"
| "instr_of (C_local_set i) = I_LocalSet i"
| "instr_of (C_local_tee i) = I_LocalTee i"
| "instr_of (C_global_get i) = I_GlobalGet i"
| "instr_of (C_global_set i) = I_GlobalSet i"
| "instr_of (C_load t b s a p) = I_Load t (map_option (\<lambda>w. (w, s)) (narrow t b)) a p"
| "instr_of (C_store t b a p) = I_Store t (narrow t b) a p"
| "instr_of C_memory_copy = I_MemoryCopy"
| "instr_of C_memory_fill = I_MemoryFill"
| "instr_of (C_i32_const v) = I_I32Const v"
| "instr_of (C_i64_const v) = I_I64Const v"
| "instr_of (C_f32_const_bits b) = I_F32Const (unat b)"
| "instr_of (C_f64_const_bits b) = I_F64Const (unat b)"
| "instr_of (C_call_reloc f s) = I_Call f"
| "instr_of (C_i32_const_table s) = I_I32Const 0"
| "instr_of (C_i32_const_memory s a) = I_I32Const 0"
| "instr_of (C_global_get_reloc g s) = I_GlobalGet g"
| "instr_of (C_global_set_reloc g s) = I_GlobalSet g"
| "instr_of (C_call_indirect_reloc t) = I_CallIndirect t"

text \<open>
  Arguments as the parameter types have them: \<^verbatim>\<open>uint32_t\<close> indices, \<^verbatim>\<open>int32_t\<close> and \<^verbatim>\<open>int64_t\<close> constants,
  the opcodes of \<^verbatim>\<open>namespace op\<close>; a memory access of a number type.
\<close>

primrec call_args_ok :: "code_call \<Rightarrow> bool" where
  "call_args_ok (C_op opcode) = (0x45 \<le> unat opcode \<and> unat opcode \<le> 0xC4)"
| "call_args_ok (C_op_fc sub) = (sub < 8)"
| "call_args_ok C_unreachable_op = True"
| "call_args_ok C_block_void = True"
| "call_args_ok C_loop_void = True"
| "call_args_ok C_if_void = True"
| "call_args_ok C_else_op = True"
| "call_args_ok C_end = True"
| "call_args_ok (C_br d) = (d < 2 ^ 32)"
| "call_args_ok (C_br_if d) = (d < 2 ^ 32)"
| "call_args_ok (C_br_table ds d) =
     (length ds < 2 ^ 32 \<and> list_all (\<lambda>n. n < 2 ^ 32) ds \<and> d < 2 ^ 32)"
| "call_args_ok C_return_op = True"
| "call_args_ok (C_call f) = (f < 2 ^ 32)"
| "call_args_ok (C_call_indirect t) = (t < 2 ^ 32)"
| "call_args_ok C_drop = True"
| "call_args_ok C_select_op = True"
| "call_args_ok (C_local_get i) = (i < 2 ^ 32)"
| "call_args_ok (C_local_set i) = (i < 2 ^ 32)"
| "call_args_ok (C_local_tee i) = (i < 2 ^ 32)"
| "call_args_ok (C_global_get i) = (i < 2 ^ 32)"
| "call_args_ok (C_global_set i) = (i < 2 ^ 32)"
| "call_args_ok (C_load t b s a p) = (t \<noteq> VT_Funcref \<and> a < 2 ^ 32 \<and> p < 2 ^ 32)"
| "call_args_ok (C_store t b a p) = (t \<noteq> VT_Funcref \<and> a < 2 ^ 32 \<and> p < 2 ^ 32)"
| "call_args_ok C_memory_copy = True"
| "call_args_ok C_memory_fill = True"
| "call_args_ok (C_i32_const v) = (- (2 ^ 31) \<le> v \<and> v < 2 ^ 31)"
| "call_args_ok (C_i64_const v) = (- (2 ^ 63) \<le> v \<and> v < 2 ^ 63)"
| "call_args_ok (C_f32_const_bits b) = True"
| "call_args_ok (C_f64_const_bits b) = True"
| "call_args_ok (C_call_reloc f s) = (f < 2 ^ 32 \<and> s < 2 ^ 32)"
| "call_args_ok (C_i32_const_table s) = (s < 2 ^ 32)"
| "call_args_ok (C_i32_const_memory s a) = (s < 2 ^ 32)"
| "call_args_ok (C_global_get_reloc g s) = (g < 2 ^ 32 \<and> s < 2 ^ 32)"
| "call_args_ok (C_global_set_reloc g s) = (g < 2 ^ 32 \<and> s < 2 ^ 32)"
| "call_args_ok (C_call_indirect_reloc t) = (t < 2 ^ 32)"

subsection \<open>Every method appends one instruction\<close>

lemma put_simps [simp]:
  "code_bytes (put bs c) = code_bytes c @ bs" "code_relocs (put bs c) = code_relocs c"
  by (simp_all add: put_def)

lemma put_reloc_simps [simp]:
  "code_bytes (put_reloc k s a c) = code_bytes c"
  "code_relocs (put_reloc k s a c) = code_relocs c @
     [\<lparr> rl_type = k, rl_offset = u32_of (length (code_bytes c)), rl_index = s, rl_addend = a \<rparr>]"
  by (simp_all add: put_reloc_def)

lemma empty_code_simps [simp]: "code_bytes empty_code = []" "code_relocs empty_code = []"
  by (simp_all add: empty_code_def)

lemma fold_put [simp]:
  "code_bytes (fold (\<lambda>d. put (uleb d)) ds c) = code_bytes c @ concat (map uleb ds)"
  "code_relocs (fold (\<lambda>d. put (uleb d)) ds c) = code_relocs c"
  by (induction ds arbitrary: c) simp_all

definition emitted :: "code_call \<Rightarrow> bytes" where
  "emitted call = code_bytes (code_step call empty_code)"

lemma code_step_bytes: "code_bytes (code_step call c) = code_bytes c @ emitted call"
  by (cases call) (simp_all add: emitted_def code_method_defs)

lemma run_bytes:
  "code_bytes (fold code_step calls c) = code_bytes c @ concat (map emitted calls)"
  by (induction calls arbitrary: c) (simp_all add: code_step_bytes)

lemma dec_load [codec]:
  "t \<noteq> VT_Funcref \<Longrightarrow>
   dec_instr (load_opcode t b s # bs) =
     dec_memarg (I_Load t (map_option (\<lambda>w. (w, s)) (narrow t b))) bs"
  by (cases t) (auto simp: load_opcode_def narrow_def dec_memory_def load_table_def)

lemma dec_store [codec]:
  "t \<noteq> VT_Funcref \<Longrightarrow>
   dec_instr (store_opcode t b # bs) = dec_memarg (I_Store t (narrow t b)) bs"
  by (cases t) (auto simp: store_opcode_def narrow_def dec_memory_def store_table_def)

lemma dec_memarg_uleb [codec]:
  "a < 2 ^ 32 \<Longrightarrow> p < 2 ^ 32 \<Longrightarrow> dec_memarg f (uleb a @ uleb p @ r) = Some (f a p, r)"
  by (simp add: dec_memarg_def dec_u_uleb)

lemma dec_br_table_uleb [codec]:
  assumes "length ds < 2 ^ 32" "list_all (\<lambda>n. n < 2 ^ 32) ds" "d < 2 ^ 32"
  shows "dec_br_table (uleb (length ds) @ concat (map uleb ds) @ uleb d @ r) = Some (I_BrTable ds d, r)"
proof -
  have "dec_vec (dec_u 32) (vec uleb ds @ uleb d @ r) = Some (ds, uleb d @ r)"
    using assms(1,2) by (intro dec_vec_vec u32.dec_enc) (auto simp: list_all_iff)
  then show ?thesis
    using assms(3) by (simp add: dec_br_table_def vec_def dec_u_uleb)
qed

lemma dec_emitted [codec]:
  "call_args_ok call \<Longrightarrow> dec_instr (emitted call @ r) = Some (instr_of call, r)"
proof (cases call)
  case (C_load t b s a p)
  then show "call_args_ok call \<Longrightarrow> ?thesis"
    by (simp add: emitted_def code_method_defs dec_load dec_memarg_uleb del: dec_instr.simps)
next
  case (C_store t b a p)
  then show "call_args_ok call \<Longrightarrow> ?thesis"
    by (simp add: emitted_def code_method_defs dec_store dec_memarg_uleb del: dec_instr.simps)
qed (simp_all add: emitted_def code_method_defs codec dec_block_def dec_index_def dec_prefixed_def
  dec_const_def dec_float_def Let_def)

lemma dec_stream:
  "list_all call_args_ok calls \<Longrightarrow>
   dec_list dec_instr (length calls) (concat (map emitted calls) @ r) = Some (map instr_of calls, r)"
  by (induction calls) (simp_all add: dec_emitted del: dec_instr.simps)

text \<open>
  C27: Every method of Code appends exactly one instruction: for arguments in the range of their
  parameter types, the byte stream of any sequence of method calls decodes, by the binary grammar,
  to exactly the instructions the calls stand for, in order and with nothing left over.
\<close>

theorem code_stream_decodes:
  assumes "list_all call_args_ok calls"
  shows "dec_list dec_instr (length calls) (code_bytes (fold code_step calls empty_code)) =
    Some (map instr_of calls, [])"
  using dec_stream [OF assms, of "[]"] by (simp add: run_bytes)

theorem code_stream_decodes_witness:
  "dec_list dec_instr (Suc (Suc (Suc (Suc 0))))
     (code_bytes (fold code_step
        [C_local_get 300, C_i64_const (- 5), C_load VT_I64 16 True 1 8, C_br_table [1, 0] 2] empty_code)) =
   Some ([I_LocalGet 300, I_I64Const (- 5), I_Load VT_I64 (Some (16, True)) 1 8, I_BrTable [1, 0] 2], [])"
  using code_stream_decodes
    [of "[C_local_get 300, C_i64_const (- 5), C_load VT_I64 16 True 1 8, C_br_table [1, 0] 2]"]
  by (simp add: narrow_def del: dec_list.simps)

subsection \<open>Relocation sites\<close>

text \<open>
  A relocation site is the five-byte padded immediate the linker patches in place: four bytes with
  the continuation bit, then one without, right behind the opcode of an instruction that takes an
  immediate of the relocation's kind.
\<close>

definition padded_at :: "bytes \<Rightarrow> nat \<Rightarrow> bool" where
  "padded_at bs p \<longleftrightarrow> p + 5 \<le> length bs \<and>
     list_all (\<lambda>b. 128 \<le> unat b) (take 4 (drop p bs)) \<and> unat (bs ! (p + 4)) < 128"

definition site_opcodes :: "byte \<Rightarrow> byte list" where
  "site_opcodes kind =
     (if kind = FUNCTION_INDEX_LEB then [0x10]
      else if kind = TABLE_INDEX_SLEB \<or> kind = MEMORY_ADDR_SLEB then [0x41]
      else if kind = TYPE_INDEX_LEB then [0x11]
      else if kind = GLOBAL_INDEX_LEB then [0x23, 0x24]
      else [])"

definition reloc_site :: "bytes \<Rightarrow> reloc \<Rightarrow> bool" where
  "reloc_site bs r \<longleftrightarrow> padded_at bs (rl_offset r) \<and> 0 < rl_offset r \<and>
     bs ! (rl_offset r - 1) \<in> set (site_opcodes (rl_type r))"

definition code_sites :: "code \<Rightarrow> bool" where
  "code_sites c \<longleftrightarrow> list_all (reloc_site (code_bytes c)) (code_relocs c)"

lemma padded_at_append:
  "padded_at bs p \<Longrightarrow> padded_at (pre @ bs @ post) (length pre + p)"
  by (auto simp: padded_at_def nth_append add.assoc)

lemma reloc_site_append:
  assumes "reloc_site bs r"
  shows "reloc_site (pre @ bs @ post) (r\<lparr> rl_offset := length pre + rl_offset r \<rparr>)"
proof -
  have "0 < rl_offset r" "rl_offset r - 1 < length bs"
    using assms by (auto simp: reloc_site_def padded_at_def)
  then have "(pre @ bs @ post) ! (length pre + rl_offset r - 1) = bs ! (rl_offset r - 1)"
    by (auto simp: nth_append)
  then show ?thesis
    using assms padded_at_append [of bs "rl_offset r" pre post] by (simp add: reloc_site_def)
qed

lemma reloc_site_extend: "reloc_site bs r \<Longrightarrow> reloc_site (bs @ post) r"
  using reloc_site_append [of bs r "[]" post] by simp

lemma code_sites_put: "code_sites c \<Longrightarrow> code_sites (put bs c)"
  by (auto simp: code_sites_def list_all_iff intro: reloc_site_extend)

lemma continuation_bit:
  "unat (word_of_int (v mod 128) :: byte) < 128"
  "128 \<le> unat ((word_of_int (v mod 128) :: byte) OR 0x80)"
proof -
  have x: "nat (v mod 128) < 128" by (simp add: nat_less_iff)
  then show "unat (word_of_int (v mod 128) :: byte) < 128"
    "128 \<le> unat ((word_of_int (v mod 128) :: byte) OR 0x80)"
    unfolding word_of_int_mod using unat_seven_bit [OF x] seven_bit_or [OF x] by linarith+
qed

lemma leb_padded_shape:
  "list_all (\<lambda>b. 128 \<le> unat b) (take n (leb_padded n v)) \<and> unat (leb_padded n v ! n) < 128"
  by (induction n arbitrary: v) (simp_all add: continuation_bit)

lemma padded_at_end:
  "bs = leb_padded 4 v \<Longrightarrow> padded_at (pre @ bs) (length pre)"
  using leb_padded_shape [of 4 v] by (simp add: padded_at_def nth_append)

lemma code_sites_fold: "code_sites c \<Longrightarrow> code_sites (fold (\<lambda>d. put (f d)) ds c)"
  by (induction ds arbitrary: c) (simp_all add: code_sites_put)

lemma code_sites_reloc:
  assumes "code_sites c" "bs = leb_padded 4 v" "opcode \<in> set (site_opcodes kind)"
    and "length (code_bytes c) < 2 ^ 32 - 1"
  shows "code_sites (put bs (put_reloc kind s a (put [opcode] c)))"
proof -
  have "padded_at (code_bytes c @ opcode # bs) (Suc (length (code_bytes c)))"
    using padded_at_end [OF assms(2), of "code_bytes c @ [opcode]"] by simp
  moreover have "u32_of (Suc (length (code_bytes c))) = Suc (length (code_bytes c))"
    using assms(4) by simp
  ultimately show ?thesis
    using assms(1,3)
    by (auto simp: code_sites_def list_all_iff reloc_site_def [of _ "\<lparr>rl_type = _, rl_offset = _, rl_index = _, rl_addend = _\<rparr>"]
        intro: reloc_site_extend)
qed

lemma code_sites_step:
  assumes "code_sites c" "length (code_bytes c) < 2 ^ 32 - 1"
  shows "code_sites (code_step call c)"
  using assms
  by (cases call)
    (simp_all add: code_method_defs code_sites_put code_sites_fold code_sites_reloc [OF _ refl] uleb_padded_def
      sleb_padded_def site_opcodes_def reloc_kinds)

lemma code_sites_append:
  assumes "code_sites c" "code_sites other"
    and "length (code_bytes c) + length (code_bytes other) < 2 ^ 32"
  shows "code_sites (code_append other c)"
proof -
  let ?n = "length (code_bytes c)"
  have "reloc_site (code_bytes c @ code_bytes other) (rebase (u32_of ?n) r)"
    if "r \<in> set (code_relocs other)" for r
  proof -
    have site: "reloc_site (code_bytes other) r"
      using assms(2) that by (simp add: code_sites_def list_all_iff)
    then have "rl_offset r + ?n < 2 ^ 32"
      using assms(3) by (simp add: reloc_site_def padded_at_def)
    then have "rebase (u32_of ?n) r = r\<lparr> rl_offset := ?n + rl_offset r \<rparr>"
      by (simp add: rebase_def add.commute)
    then show ?thesis
      using reloc_site_append [OF site, of "code_bytes c" "[]"] by simp
  qed
  then show ?thesis
    using assms(1) by (auto simp: code_sites_def code_append_def list_all_iff intro: reloc_site_extend)
qed

text \<open>Streams grow by method calls and by appending other streams, within 32 bits.\<close>

inductive code_grows :: "code \<Rightarrow> code \<Rightarrow> bool" where
  grow_call: "length (code_bytes c) < 2 ^ 32 - 1 \<Longrightarrow> code_grows c (code_step call c)"
| grow_append: "code_sites other \<Longrightarrow> length (code_bytes c) + length (code_bytes other) < 2 ^ 32 \<Longrightarrow>
    code_grows c (code_append other c)"

interpretation streams: invariant_system code_grows code_sites
  by unfold_locales (auto elim!: code_grows.cases intro: code_sites_step code_sites_append)

lemma run_grows:
  "length (code_bytes (fold code_step calls c)) < 2 ^ 32 - 1 \<Longrightarrow> code_grows\<^sup>*\<^sup>* c (fold code_step calls c)"
proof (induction calls arbitrary: c)
  case (Cons call calls)
  then have "code_grows\<^sup>*\<^sup>* (code_step call c) (fold code_step calls (code_step call c))" by simp
  moreover have "code_grows c (code_step call c)"
    using Cons.prems by (intro grow_call) (simp add: run_bytes code_step_bytes)
  ultimately show ?case by simp
qed simp

text \<open>
  However a stream grows - by method calls and by appending other streams, as long as its size
  stays within 32 bits - each recorded relocation keeps pointing at a relocation site: a five-byte
  padded immediate right behind an opcode of the relocation's kind.
\<close>

theorem stream_relocations_are_sites:
  assumes "code_grows\<^sup>*\<^sup>* empty_code c"
  shows "list_all (reloc_site (code_bytes c)) (code_relocs c)"
  using streams.run_inv [OF assms] by (simp add: code_sites_def)

theorem stream_relocations_are_sites_witness:
  "list_all (reloc_site (code_bytes (fold code_step [C_call_reloc 3 0, C_drop] empty_code)))
     (code_relocs (fold code_step [C_call_reloc 3 0, C_drop] empty_code))"
  by (rule stream_relocations_are_sites, rule run_grows) (simp add: code_method_defs)

subsection \<open>Patching a site\<close>

text \<open>What a linker does with a site: it overwrites the five bytes with another padded value.\<close>

definition patch_site :: "bytes \<Rightarrow> nat \<Rightarrow> nat \<Rightarrow> bytes" where
  "patch_site bs p v = take p bs @ uleb_padded v @ drop (p + 5) bs"

fun retargeted :: "nat \<Rightarrow> code_call \<Rightarrow> instr" where
  "retargeted v (C_call_reloc f s) = I_Call v"
| "retargeted v (C_i32_const_table s) = I_I32Const (int v)"
| "retargeted v (C_i32_const_memory s a) = I_I32Const (int v)"
| "retargeted v (C_global_get_reloc g s) = I_GlobalGet v"
| "retargeted v (C_global_set_reloc g s) = I_GlobalSet v"
| "retargeted v (C_call_indirect_reloc t) = I_CallIndirect v"
| "retargeted v call = instr_of call"

definition relocatable :: "code_call \<Rightarrow> bool" where
  "relocatable call \<longleftrightarrow> code_relocs (code_step call empty_code) \<noteq> []"

lemma sleb_padded_int: "sleb_padded (int v) = uleb_padded v"
  by (simp add: sleb_padded_def uleb_padded_def)

lemma dec_padded_int: "v < 2 ^ 31 \<Longrightarrow> dec_s 32 (uleb_padded v @ r) = Some (int v, r)"
  using dec_sleb_padded [of "int v" r] by (simp add: sleb_padded_int)

lemma patch_relocatable:
  assumes "relocatable call" "v < 2 ^ 31"
  shows "\<exists>opcode tail. emitted call = opcode # tail \<and> 5 \<le> length tail \<and>
    (\<forall>r. dec_instr (opcode # uleb_padded v @ drop 5 tail @ r) = Some (retargeted v call, r))"
  using assms
  by (cases call)
    (simp_all add: relocatable_def emitted_def code_method_defs codec dec_padded_int dec_index_def
      dec_const_def Let_def)

lemma patch_middle:
  "5 \<le> length tail \<Longrightarrow>
   patch_site (xs @ (b # tail) @ ys) (length xs + 1) v = xs @ (b # uleb_padded v @ drop 5 tail) @ ys"
  by (simp add: patch_site_def)

lemma relocatable_offset:
  assumes "relocatable call" "length (code_bytes c) + 1 < 2 ^ 32"
  shows "rl_offset (last (code_relocs (code_step call c))) = length (code_bytes c) + 1"
  using assms by (cases call) (simp_all add: relocatable_def code_method_defs)

lemma dec_list_append:
  "dec_list dec m bs = Some (xs, r) \<Longrightarrow> dec_list dec n r = Some (ys, q) \<Longrightarrow>
   dec_list dec (m + n) bs = Some (xs @ ys, q)"
  by (induction dec m bs arbitrary: xs rule: dec_list.induct)
    (auto split: option.splits)

text \<open>
  C26: A relocation addresses its instruction: after any stream of in-range method calls, overwriting
  the five bytes at the offset that a relocatable call recorded with another padded value yields a
  stream that decodes to the same instructions, except that this one call's immediate is the new
  value.
\<close>

theorem patched_stream_decodes:
  assumes ok: "list_all call_args_ok (pre @ call # post)" and call: "relocatable call"
    and v: "v < 2 ^ 31" and size: "length (code_bytes (fold code_step (pre @ call # post) empty_code)) < 2 ^ 32"
  shows "dec_list dec_instr (Suc (length pre + length post))
      (patch_site (code_bytes (fold code_step (pre @ call # post) empty_code))
        (rl_offset (last (code_relocs (fold code_step (pre @ [call]) empty_code)))) v) =
    Some (map instr_of pre @ retargeted v call # map instr_of post, [])"
proof -
  let ?pre = "concat (map emitted pre)" and ?post = "concat (map emitted post)"
  obtain opcode tail where e: "emitted call = opcode # tail" "5 \<le> length tail"
    and d: "\<And>r. dec_instr (opcode # uleb_padded v @ drop 5 tail @ r) = Some (retargeted v call, r)"
    using patch_relocatable [OF call v] by blast
  have off: "rl_offset (last (code_relocs (fold code_step (pre @ [call]) empty_code))) = length ?pre + 1"
    using relocatable_offset [OF call, of "fold code_step pre empty_code"] size e
    by (simp add: run_bytes code_step_bytes)
  have "patch_site (?pre @ emitted call @ ?post) (length ?pre + 1) v =
    ?pre @ (opcode # uleb_padded v @ drop 5 tail @ ?post)"
    using patch_middle [OF e(2)] e(1) by simp
  moreover have "dec_list dec_instr (Suc (length post))
      (opcode # uleb_padded v @ drop 5 tail @ ?post) = Some (retargeted v call # map instr_of post, [])"
    using ok dec_stream [of post "[]"] by (simp add: d del: dec_instr.simps)
  then have "dec_list dec_instr (length pre + Suc (length post))
      (?pre @ (opcode # uleb_padded v @ drop 5 tail @ ?post)) =
      Some (map instr_of pre @ retargeted v call # map instr_of post, [])"
    using ok by (intro dec_list_append [OF dec_stream]) simp_all
  ultimately show ?thesis by (simp only: off run_bytes) simp
qed

theorem patched_stream_decodes_witness:
  "dec_list dec_instr (Suc (Suc (Suc 0)))
     (patch_site (code_bytes (fold code_step [C_local_get 0, C_call_reloc 7 1, C_drop] empty_code))
       (Suc (Suc (Suc 0))) 99) =
   Some ([I_LocalGet 0, I_Call 99, I_Drop], [])"
  using patched_stream_decodes [of "[C_local_get 0]" "C_call_reloc 7 1" "[C_drop]" 99]
  by (simp add: relocatable_def code_method_defs uleb.simps Let_def del: dec_list.simps)

end
