(* ===== verification/Wasm_Module.thy ===== *)
theory Wasm_Module
  imports Wasm_Code
begin

text \<open>
  The module container of \<^verbatim>\<open>src/src/compiler/wasm_encoder.cpp\<close> (struct \<^verbatim>\<open>Module\<close>): type interning and
  \<^verbatim>\<open>serialize\<close>, one definition per section. Counts and indices are natural numbers.
\<close>

subsection \<open>The module and its parts\<close>

record wasm_import =
  im_module :: string
  im_name :: string
  im_type :: nat

record wasm_global =
  wg_type :: val_type
  wg_mutable :: bool
  wg_init :: int

datatype export_kind = EK_Function | EK_Table | EK_Memory | EK_Global

fun export_kind_code :: "export_kind \<Rightarrow> byte" where
  "export_kind_code EK_Function = 0"
| "export_kind_code EK_Table = 1"
| "export_kind_code EK_Memory = 2"
| "export_kind_code EK_Global = 3"

record wasm_export =
  ex_name :: string
  ex_kind :: export_kind
  ex_index :: nat

record data_segment =
  ds_offset :: nat
  ds_bytes :: bytes

record wasm_function =
  wf_type :: nat
  wf_locals :: "val_type list"
  wf_body :: code

record wasm_module =
  wm_types :: "func_type list"
  wm_imports :: "wasm_import list"
  wm_functions :: "wasm_function list"
  wm_table_size :: nat
  wm_table_elements :: "nat list"
  wm_memory_min_pages :: nat
  wm_globals :: "wasm_global list"
  wm_exports :: "wasm_export list"
  wm_data :: "data_segment list"

subsection \<open>Type interning\<close>

definition intern_in :: "func_type list \<Rightarrow> func_type \<Rightarrow> func_type list \<times> nat" where
  "intern_in types type =
     (case find_index (\<lambda>t. t = type) types of
        Some i \<Rightarrow> (types, i)
      | None \<Rightarrow> (types @ [type], length types))"

definition intern_type :: "wasm_module \<Rightarrow> func_type \<Rightarrow> wasm_module \<times> nat" where
  "intern_type m type =
     (let (types, i) = intern_in (wm_types m) type in (m\<lparr> wm_types := types \<rparr>, i))"

lemma intern_in_cases:
  "type \<in> set types \<Longrightarrow> \<exists>i < length types. types ! i = type \<and> intern_in types type = (types, i)"
  "type \<notin> set types \<Longrightarrow> intern_in types type = (types @ [type], length types)"
  by (auto simp: intern_in_def find_index_None split: option.splits dest: find_index_Some)

interpretation wasm_types: interner wm_types intern_type
proof
  fix m k
  show "fst (intern_type m k) = m" if "k \<in> set (wm_types m)"
    using intern_in_cases(1) [OF that] by (auto simp: intern_type_def)
  show "wm_types (fst (intern_type m k)) = wm_types m @ [k]" if "k \<notin> set (wm_types m)"
    using intern_in_cases(2) [OF that] by (simp add: intern_type_def)
  show "snd (intern_type m k) < length (wm_types (fst (intern_type m k))) \<and>
    wm_types (fst (intern_type m k)) ! snd (intern_type m k) = k"
    using intern_in_cases [of k "wm_types m"]
    by (cases "k \<in> set (wm_types m)") (auto simp: intern_type_def)
qed

subsection \<open>Serialization\<close>

definition wasm_header :: bytes where
  "wasm_header = [0x00, 0x61, 0x73, 0x6D, 0x01, 0x00, 0x00, 0x00]"

definition enc_val_types :: "val_type list \<Rightarrow> bytes" where
  "enc_val_types = vec (\<lambda>t. [val_type_code t])"

definition enc_func_type :: "func_type \<Rightarrow> bytes" where
  "enc_func_type t = 0x60 # enc_val_types (ft_params t) @ enc_val_types (ft_results t)"

definition types_payload :: "func_type list \<Rightarrow> bytes" where
  "types_payload types = vec enc_func_type types"

definition enc_import :: "wasm_import \<Rightarrow> bytes" where
  "enc_import i = name (im_module i) @ name (im_name i) @ [0x00] @ uleb (im_type i)"

definition imports_payload :: "wasm_import list \<Rightarrow> bytes" where
  "imports_payload imports = vec enc_import imports"

definition functions_payload :: "wasm_function list \<Rightarrow> bytes" where
  "functions_payload functions = vec uleb (map wf_type functions)"

definition table_payload :: "nat \<Rightarrow> bytes" where
  "table_payload table_size = uleb 1 @ [val_type_code VT_Funcref, 0x00] @ uleb table_size"

definition memory_payload :: "nat \<Rightarrow> bytes" where
  "memory_payload pages = uleb 1 @ [0x00] @ uleb pages"

text \<open>\<^verbatim>\<open>static_cast<int32_t>\<close> of a wider integer.\<close>

definition to_s32 :: "int \<Rightarrow> int" where
  "to_s32 v = signed_take_bit 31 v"

definition enc_global :: "wasm_global \<Rightarrow> bytes" where
  "enc_global g =
     [val_type_code (wg_type g), if wg_mutable g then 0x01 else 0x00] @
     (if wg_type g = VT_I64 then 0x42 # sleb (wg_init g) else 0x41 # sleb (to_s32 (wg_init g))) @
     [0x0B]"

definition globals_payload :: "wasm_global list \<Rightarrow> bytes" where
  "globals_payload globals = vec enc_global globals"

definition enc_export :: "wasm_export \<Rightarrow> bytes" where
  "enc_export e = name (ex_name e) @ [export_kind_code (ex_kind e)] @ uleb (ex_index e)"

definition exports_payload :: "wasm_export list \<Rightarrow> bytes" where
  "exports_payload exports = vec enc_export exports"

definition elements_payload :: "nat list \<Rightarrow> bytes" where
  "elements_payload elements = uleb 1 @ [0x00, 0x41] @ sleb 1 @ [0x0B] @ vec uleb elements"

text \<open>Run-length-compressed local declarations.\<close>

definition add_run :: "(val_type \<times> nat) list \<Rightarrow> val_type \<Rightarrow> (val_type \<times> nat) list" where
  "add_run runs t =
     (if runs \<noteq> [] \<and> fst (last runs) = t
      then butlast runs @ [(t, u32_of (snd (last runs) + 1))]
      else runs @ [(t, 1)])"

definition local_runs :: "val_type list \<Rightarrow> (val_type \<times> nat) list" where
  "local_runs locals = foldl add_run [] locals"

definition enc_run :: "val_type \<times> nat \<Rightarrow> bytes" where
  "enc_run r = uleb (snd r) @ [val_type_code (fst r)]"

definition locals_bytes :: "val_type list \<Rightarrow> bytes" where
  "locals_bytes locals = vec enc_run (local_runs locals)"

definition function_body :: "wasm_function \<Rightarrow> bytes" where
  "function_body f = locals_bytes (wf_locals f) @ code_bytes (wf_body f) @ [0x0B]"

definition enc_function :: "wasm_function \<Rightarrow> bytes" where
  "enc_function f = uleb (length (function_body f)) @ function_body f"

definition code_payload :: "wasm_function list \<Rightarrow> bytes" where
  "code_payload functions = vec enc_function functions"

definition enc_data :: "data_segment \<Rightarrow> bytes" where
  "enc_data d =
     [0x00, 0x41] @ sleb (to_s32 (int (ds_offset d))) @ [0x0B] @
     uleb (length (ds_bytes d)) @ ds_bytes d"

definition data_payload :: "data_segment list \<Rightarrow> bytes" where
  "data_payload data = vec enc_data data"

definition serialize :: "wasm_module \<Rightarrow> bytes" where
  "serialize m =
     wasm_header @
     emit_section 1 (types_payload (wm_types m)) @
     (if wm_imports m \<noteq> [] then emit_section 2 (imports_payload (wm_imports m)) else []) @
     (if wm_functions m \<noteq> [] then emit_section 3 (functions_payload (wm_functions m)) else []) @
     (if wm_table_size m > 0 then emit_section 4 (table_payload (wm_table_size m)) else []) @
     (if wm_memory_min_pages m > 0
      then emit_section 5 (memory_payload (wm_memory_min_pages m)) else []) @
     (if wm_globals m \<noteq> [] then emit_section 6 (globals_payload (wm_globals m)) else []) @
     (if wm_exports m \<noteq> [] then emit_section 7 (exports_payload (wm_exports m)) else []) @
     (if wm_table_elements m \<noteq> []
      then emit_section 9 (elements_payload (wm_table_elements m)) else []) @
     (if wm_functions m \<noteq> [] then emit_section 10 (code_payload (wm_functions m)) else []) @
     (if wm_data m \<noteq> [] then emit_section 11 (data_payload (wm_data m)) else [])"

end
