(* ===== verification/Wasm_Decode.thy ===== *)
theory Wasm_Decode
  imports Wasm_Module
begin

text \<open>
  A decoder of WebAssembly modules written from the binary grammar of the core specification, for the
  sections the encoder uses, and the proof that it inverts \<open>serialize\<close>.
\<close>

subsection \<open>The decoder of the format\<close>

definition dec_val_type :: "bytes \<Rightarrow> (val_type \<times> bytes) option" where
  "dec_val_type bs =
     (case bs of [] \<Rightarrow> None
      | b # r \<Rightarrow>
          if b = 0x7F then Some (VT_I32, r) else if b = 0x7E then Some (VT_I64, r) else if b = 0x7D then Some (VT_F32, r)
          else if b = 0x7C then Some (VT_F64, r) else if b = 0x70 then Some (VT_Funcref, r) else None)"

definition dec_func_type :: "bytes \<Rightarrow> (func_type \<times> bytes) option" where
  "dec_func_type bs =
     do { bs \<leftarrow> dec_byte 0x60 bs; (ps, bs) \<leftarrow> dec_vec dec_val_type bs;
          (rs, bs) \<leftarrow> dec_vec dec_val_type bs;
          Some (\<lparr> ft_params = ps, ft_results = rs \<rparr>, bs) }"

definition dec_import :: "bytes \<Rightarrow> (wasm_import \<times> bytes) option" where
  "dec_import bs =
     do { (m, bs) \<leftarrow> dec_name bs; (n, bs) \<leftarrow> dec_name bs; bs \<leftarrow> dec_byte 0 bs;
          (t, bs) \<leftarrow> dec_u 32 bs;
          Some (\<lparr> im_module = m, im_name = n, im_type = t \<rparr>, bs) }"

definition dec_table :: "bytes \<Rightarrow> (nat \<times> bytes) option" where
  "dec_table bs =
     do { bs \<leftarrow> dec_byte 1 bs; bs \<leftarrow> dec_byte 0x70 bs; bs \<leftarrow> dec_byte 0 bs; dec_u 32 bs }"

definition dec_memory_type :: "bytes \<Rightarrow> (nat \<times> bytes) option" where
  "dec_memory_type bs = do { bs \<leftarrow> dec_byte 1 bs; bs \<leftarrow> dec_byte 0 bs; dec_u 32 bs }"

definition dec_bool :: "bytes \<Rightarrow> (bool \<times> bytes) option" where
  "dec_bool bs =
     (case bs of [] \<Rightarrow> None
      | b # r \<Rightarrow> if b = 0 then Some (False, r) else if b = 1 then Some (True, r) else None)"

text \<open>A constant expression of the given type: one constant instruction and the end marker.\<close>

definition dec_const_expr :: "val_type \<Rightarrow> bytes \<Rightarrow> (int \<times> bytes) option" where
  "dec_const_expr t bs =
     do { (v, bs) \<leftarrow> (case t of
            VT_I32 \<Rightarrow> do { bs \<leftarrow> dec_byte 0x41 bs; dec_s 32 bs }
          | VT_I64 \<Rightarrow> do { bs \<leftarrow> dec_byte 0x42 bs; dec_s 64 bs }
          | _ \<Rightarrow> None);
          bs \<leftarrow> dec_byte 0x0B bs; Some (v, bs) }"

definition dec_global :: "bytes \<Rightarrow> (wasm_global \<times> bytes) option" where
  "dec_global bs =
     do { (t, bs) \<leftarrow> dec_val_type bs; (m, bs) \<leftarrow> dec_bool bs; (v, bs) \<leftarrow> dec_const_expr t bs;
          Some (\<lparr> wg_type = t, wg_mutable = m, wg_init = v \<rparr>, bs) }"

definition dec_export_kind :: "bytes \<Rightarrow> (export_kind \<times> bytes) option" where
  "dec_export_kind bs =
     (case bs of [] \<Rightarrow> None
      | b # r \<Rightarrow>
          if b = 0x00 then Some (EK_Function, r) else if b = 0x01 then Some (EK_Table, r)
          else if b = 0x02 then Some (EK_Memory, r) else if b = 0x03 then Some (EK_Global, r) else None)"

definition dec_export :: "bytes \<Rightarrow> (wasm_export \<times> bytes) option" where
  "dec_export bs =
     do { (n, bs) \<leftarrow> dec_name bs; (k, bs) \<leftarrow> dec_export_kind bs; (i, bs) \<leftarrow> dec_u 32 bs;
          Some (\<lparr> ex_name = n, ex_kind = k, ex_index = i \<rparr>, bs) }"

definition dec_elements :: "bytes \<Rightarrow> (nat list \<times> bytes) option" where
  "dec_elements bs =
     do { bs \<leftarrow> dec_byte 1 bs; bs \<leftarrow> dec_byte 0 bs; (v, bs) \<leftarrow> dec_const_expr VT_I32 bs;
          if v = 1 then dec_vec (dec_u 32) bs else None }"

definition dec_run :: "bytes \<Rightarrow> ((val_type \<times> nat) \<times> bytes) option" where
  "dec_run bs = do { (n, bs) \<leftarrow> dec_u 32 bs; (t, bs) \<leftarrow> dec_val_type bs; Some ((t, n), bs) }"

definition expand_runs :: "(val_type \<times> nat) list \<Rightarrow> val_type list" where
  "expand_runs runs = concat (map (\<lambda>(t, n). replicate n t) runs)"

definition dec_body :: "bytes \<Rightarrow> (val_type list \<times> bytes) option" where
  "dec_body bs =
     do { (runs, bs) \<leftarrow> dec_vec dec_run bs;
          if bs \<noteq> [] \<and> last bs = 0x0B then Some (expand_runs runs, butlast bs) else None }"

definition dec_data :: "bytes \<Rightarrow> (data_segment \<times> bytes) option" where
  "dec_data bs =
     do { bs \<leftarrow> dec_byte 0 bs; (v, bs) \<leftarrow> dec_const_expr VT_I32 bs; (n, bs) \<leftarrow> dec_u 32 bs;
          (p, bs) \<leftarrow> dec_bytes n bs;
          Some (\<lparr> ds_offset = nat (v mod 2 ^ 32), ds_bytes = p \<rparr>, bs) }"

text \<open>A section's contents, or a default when the module does not have the section.\<close>

definition dec_sec ::
  "byte \<Rightarrow> 'a \<Rightarrow> (bytes \<Rightarrow> ('a \<times> bytes) option) \<Rightarrow> (byte \<times> bytes) list \<Rightarrow> 'a option" where
  "dec_sec sid d dec secs =
     (case map_of secs sid of None \<Rightarrow> Some d | Some p \<Rightarrow> dec_all dec p)"

definition dec_header :: "bytes \<Rightarrow> bytes option" where
  "dec_header bs = (if take 8 bs = [0x00, 0x61, 0x73, 0x6D, 0x01, 0x00, 0x00, 0x00] then Some (drop 8 bs) else None)"

fun ascending :: "nat list \<Rightarrow> bool" where
  "ascending (a # b # r) \<longleftrightarrow> a < b \<and> ascending (b # r)"
| "ascending _ \<longleftrightarrow> True"

definition make_function :: "nat \<Rightarrow> val_type list \<times> bytes \<Rightarrow> wasm_function" where
  "make_function t b =
     \<lparr> wf_type = t, wf_locals = fst b, wf_body = \<lparr> code_bytes = snd b, code_relocs = [] \<rparr> \<rparr>"

definition require :: "bool \<Rightarrow> unit option" where
  "require c = (if c then Some () else None)"

definition dec_module :: "bytes \<Rightarrow> wasm_module option" where
  "dec_module bs =
     do { bs \<leftarrow> dec_header bs;
          secs \<leftarrow> dec_sections bs;
          require (ascending (map (unat \<circ> fst) secs));
          types \<leftarrow> dec_sec 1 [] (dec_vec dec_func_type) secs;
          imports \<leftarrow> dec_sec 2 [] (dec_vec dec_import) secs;
          indices \<leftarrow> dec_sec 3 [] (dec_vec (dec_u 32)) secs;
          table \<leftarrow> dec_sec 4 0 dec_table secs;
          memory \<leftarrow> dec_sec 5 0 dec_memory_type secs;
          globals \<leftarrow> dec_sec 6 [] (dec_vec dec_global) secs;
          exports \<leftarrow> dec_sec 7 [] (dec_vec dec_export) secs;
          elements \<leftarrow> dec_sec 9 [] dec_elements secs;
          bodies \<leftarrow> dec_sec 10 [] (dec_vec (dec_sized dec_body)) secs;
          datas \<leftarrow> dec_sec 11 [] (dec_vec dec_data) secs;
          require (length indices = length bodies);
          Some \<lparr> wm_types = types, wm_imports = imports,
                 wm_functions = map2 make_function indices bodies, wm_table_size = table,
                 wm_table_elements = elements, wm_memory_min_pages = memory,
                 wm_globals = globals, wm_exports = exports, wm_data = datas \<rparr> }"

text \<open>The ranges of the C++ types, initializers of integer type, and a binary below 4 GiB.\<close>

definition global_ok :: "wasm_global \<Rightarrow> bool" where
  "global_ok g \<longleftrightarrow>
     wg_type g = VT_I32 \<and> - (2 ^ 31) \<le> wg_init g \<and> wg_init g < 2 ^ 31 \<or>
     wg_type g = VT_I64 \<and> - (2 ^ 63) \<le> wg_init g \<and> wg_init g < 2 ^ 63"

definition function_ok :: "wasm_function \<Rightarrow> bool" where
  "function_ok f \<longleftrightarrow> wf_type f < 2 ^ 32 \<and> length (wf_locals f) < 2 ^ 32"

definition module_ok :: "wasm_module \<Rightarrow> bool" where
  "module_ok m \<longleftrightarrow>
     list_all (\<lambda>i. im_type i < 2 ^ 32) (wm_imports m) \<and>
     list_all function_ok (wm_functions m) \<and>
     wm_table_size m < 2 ^ 32 \<and> list_all (\<lambda>i. i < 2 ^ 32) (wm_table_elements m) \<and>
     wm_memory_min_pages m < 2 ^ 32 \<and> list_all global_ok (wm_globals m) \<and>
     list_all (\<lambda>e. ex_index e < 2 ^ 32) (wm_exports m) \<and>
     list_all (\<lambda>d. ds_offset d < 2 ^ 32) (wm_data m) \<and>
     length (serialize m) < 2 ^ 32"

text \<open>A module as the binary holds it: the relocations of the bodies are not part of it.\<close>

definition without_relocs :: "wasm_module \<Rightarrow> wasm_module" where
  "without_relocs m = m\<lparr> wm_functions := map (\<lambda>f. f\<lparr> wf_body := (wf_body f)\<lparr> code_relocs := [] \<rparr> \<rparr>) (wm_functions m) \<rparr>"

subsection \<open>Decoding inverts encoding, part by part\<close>

lemma bind_prod [simp]: "Some (x, y) \<bind> (\<lambda>(a, b). f a b) = f x y"
  by simp

lemma vec_section:
  assumes "\<And>x r. x \<in> set xs \<Longrightarrow> length (enc x) < 2 ^ 32 \<Longrightarrow> dec (enc x @ r) = Some (x, r)"
    and "\<And>x. x \<in> set xs \<Longrightarrow> enc x \<noteq> []" and "length (vec enc xs) < 2 ^ 32"
  shows "dec_vec dec (vec enc xs @ r) = Some (xs, r)"
proof (rule dec_vec_vec)
  show "dec (enc x @ r) = Some (x, r)" if "x \<in> set xs" for x r
    using assms(1) [OF that] element_length [OF that, of enc] assms(3) by simp
  show "length xs < 2 ^ 32"
    using length_vec [of xs enc] assms(2,3) by simp
qed

lemma dec_val_type_code [codec]: "dec_val_type (val_type_code t # r) = Some (t, r)"
  by (cases t) (simp_all add: dec_val_type_def)

lemma dec_val_types [codec]:
  "length (enc_val_types ts) < 2 ^ 32 \<Longrightarrow> dec_vec dec_val_type (enc_val_types ts @ r) = Some (ts, r)"
  unfolding enc_val_types_def by (rule vec_section) (simp_all add: dec_val_type_code)

lemma dec_enc_func_type [codec]:
  "length (enc_func_type t) < 2 ^ 32 \<Longrightarrow> dec_func_type (enc_func_type t @ r) = Some (t, r)"
  by (simp add: enc_func_type_def dec_func_type_def dec_byte_Cons dec_val_types)

lemma length_name: "length s < length (name s)"
  by (simp add: name_def)

lemma dec_name_name [codec]: "length (name s) < 2 ^ 32 \<Longrightarrow> dec_name (name s @ r) = Some (s, r)"
  using names.dec_enc [of s r] length_name [of s] by simp

lemma dec_enc_import [codec]:
  "im_type i < 2 ^ 32 \<Longrightarrow> length (enc_import i) < 2 ^ 32 \<Longrightarrow> dec_import (enc_import i @ r) = Some (i, r)"
  by (simp add: enc_import_def dec_import_def dec_byte_Cons dec_name_name dec_u_uleb)

lemma uleb_1 [simp]: "uleb 1 = [1]" "uleb (Suc 0) = [1]"
  by (simp_all add: uleb.simps Let_def)

lemma dec_table_payload [codec]:
  "n < 2 ^ 32 \<Longrightarrow> dec_table (table_payload n @ r) = Some (n, r)"
  by (simp add: table_payload_def dec_table_def dec_byte_Cons dec_u_uleb)

lemma dec_memory_payload [codec]:
  "n < 2 ^ 32 \<Longrightarrow> dec_memory_type (memory_payload n @ r) = Some (n, r)"
  by (simp add: memory_payload_def dec_memory_type_def dec_byte_Cons dec_u_uleb)

lemma to_s32_range: "- (2 ^ 31) \<le> to_s32 v" "to_s32 v < 2 ^ 31"
  unfolding to_s32_def by (rule signed_take_bit_int_greater_eq_minus_exp signed_take_bit_int_less_exp)+

lemma to_s32_id: "- (2 ^ 31) \<le> v \<Longrightarrow> v < 2 ^ 31 \<Longrightarrow> to_s32 v = v"
  unfolding to_s32_def by (rule signed_take_bit_int_eq_self)

lemma to_s32_mod: "to_s32 v mod 2 ^ 32 = v mod 2 ^ 32"
  using take_bit_signed_take_bit [of 32 31 v] by (simp add: to_s32_def take_bit_eq_mod)

lemma dec_const_exprs [codec]:
  "- (2 ^ 31) \<le> v \<Longrightarrow> v < 2 ^ 31 \<Longrightarrow> dec_const_expr VT_I32 (0x41 # sleb v @ 0x0B # r) = Some (v, r)"
  "- (2 ^ 63) \<le> w \<Longrightarrow> w < 2 ^ 63 \<Longrightarrow> dec_const_expr VT_I64 (0x42 # sleb w @ 0x0B # r) = Some (w, r)"
  by (simp_all add: dec_const_expr_def dec_byte_Cons dec_s_sleb)

lemma dec_enc_global [codec]: "global_ok g \<Longrightarrow> dec_global (enc_global g @ r) = Some (g, r)"
  by (auto simp: global_ok_def dec_global_def enc_global_def dec_val_type_code dec_bool_def
      dec_const_exprs to_s32_id)

lemma dec_export_kind_code [codec]: "dec_export_kind (export_kind_code k # r) = Some (k, r)"
  by (cases k) (simp_all add: dec_export_kind_def)

lemma dec_enc_export [codec]:
  "ex_index e < 2 ^ 32 \<Longrightarrow> length (enc_export e) < 2 ^ 32 \<Longrightarrow> dec_export (enc_export e @ r) = Some (e, r)"
  by (simp add: enc_export_def dec_export_def dec_name_name dec_export_kind_code dec_u_uleb)

lemma dec_elements_payload [codec]:
  assumes "list_all (\<lambda>i. i < 2 ^ 32) es" "length (elements_payload es) < 2 ^ 32"
  shows "dec_elements (elements_payload es @ r) = Some (es, r)"
proof -
  have "dec_vec (dec_u 32) (vec uleb es @ r) = Some (es, r)"
    using assms by (intro vec_section u32.dec_enc) (auto simp: list_all_iff elements_payload_def)
  then show ?thesis
    using dec_const_exprs(1) [of 1 "vec uleb es @ r"]
    by (simp add: dec_elements_def elements_payload_def dec_byte_Cons to_s32_id)
qed

lemma dec_enc_data [codec]:
  assumes "ds_offset d < 2 ^ 32" "length (enc_data d) < 2 ^ 32"
  shows "dec_data (enc_data d @ r) = Some (d, r)"
proof -
  have "nat (to_s32 (int (ds_offset d)) mod 2 ^ 32) = ds_offset d"
    unfolding to_s32_mod using assms(1) by simp
  then show ?thesis
    using assms(2) to_s32_range [of "int (ds_offset d)"]
    by (simp add: dec_data_def enc_data_def dec_byte_Cons dec_const_exprs dec_u_uleb dec_bytes_append)
qed

subsection \<open>Function bodies\<close>

lemma expand_runs_append [simp]: "expand_runs (r @ s) = expand_runs r @ expand_runs s"
  by (simp add: expand_runs_def)

lemma expand_add_run:
  assumes "\<forall>(t, n) \<in> set runs. n < 2 ^ 32 - 1"
  shows "expand_runs (add_run runs t) = expand_runs runs @ [t]"
proof (cases "runs \<noteq> [] \<and> fst (last runs) = t")
  case True
  define n where "n = snd (last runs)"
  have l: "runs = butlast runs @ [(t, n)]"
    using True by (metis append_butlast_last_id n_def prod.collapse)
  then have "n < 2 ^ 32 - 1"
    using assms by (metis (mono_tags, lifting) case_prodD in_set_conv_decomp)
  then have "expand_runs (add_run runs t) = expand_runs (butlast runs) @ replicate (n + 1) t"
    using True by (simp add: add_run_def n_def expand_runs_def)
  also have "\<dots> = expand_runs (butlast runs @ [(t, n)]) @ [t]"
    by (simp add: expand_runs_def replicate_append_same)
  finally show ?thesis using l by simp
next
  case False
  then show ?thesis by (auto simp: add_run_def expand_runs_def)
qed

lemma add_run_bound:
  assumes "\<forall>(t, n) \<in> set runs. n \<le> k" "k < 2 ^ 32 - 1"
  shows "\<forall>(t, n) \<in> set (add_run runs t). n \<le> Suc k"
proof (cases "runs \<noteq> [] \<and> fst (last runs) = t")
  case True
  then have "snd (last runs) \<le> k"
    using assms(1) by (metis (mono_tags, lifting) case_prodD last_in_set prod.collapse)
  then show ?thesis
    using assms True by (fastforce simp: add_run_def dest: in_set_butlastD)
qed (use assms in \<open>auto simp: add_run_def\<close>)

lemma runs_expand:
  assumes "length locals < 2 ^ 32"
  shows "expand_runs (local_runs locals) = locals \<and>
    (\<forall>(t, n) \<in> set (local_runs locals). n \<le> length locals)"
  using assms
proof (induction locals rule: rev_induct)
  case (snoc t ts)
  then have IH: "expand_runs (local_runs ts) = ts" "\<forall>(t, n) \<in> set (local_runs ts). n \<le> length ts"
    by simp_all
  have "length ts < 2 ^ 32 - 1" using snoc.prems by simp
  then show ?case
    using expand_add_run [of "local_runs ts" t] add_run_bound [OF IH(2), of t] IH
    by (fastforce simp: local_runs_def)
qed (simp add: local_runs_def expand_runs_def)

lemma dec_function_body [codec]:
  assumes "length (wf_locals f) < 2 ^ 32" "length (function_body f) < 2 ^ 32"
  shows "dec_body (function_body f) = Some (wf_locals f, code_bytes (wf_body f))"
proof -
  note runs = runs_expand [OF assms(1)]
  have "dec_vec dec_run (vec enc_run (local_runs (wf_locals f)) @ r) = Some (local_runs (wf_locals f), r)" for r
  proof (rule vec_section)
    fix x r
    assume "x \<in> set (local_runs (wf_locals f))"
    then have "snd x < 2 ^ 32" using runs assms(1) by fastforce
    then show "dec_run (enc_run x @ r) = Some (x, r)"
      by (cases x) (simp add: dec_run_def enc_run_def dec_u_uleb dec_val_type_code)
  next
    show "length (vec enc_run (local_runs (wf_locals f))) < 2 ^ 32"
      using assms(2) by (simp add: function_body_def locals_bytes_def)
  qed (simp add: enc_run_def)
  then show ?thesis
    using runs by (simp add: dec_body_def function_body_def locals_bytes_def)
qed

subsection \<open>The module\<close>

definition module_sections :: "wasm_module \<Rightarrow> (byte \<times> bytes) list" where
  "module_sections m =
     [(1, types_payload (wm_types m)),
      (2, if wm_imports m \<noteq> [] then imports_payload (wm_imports m) else []),
      (3, if wm_functions m \<noteq> [] then functions_payload (wm_functions m) else []),
      (4, if wm_table_size m > 0 then table_payload (wm_table_size m) else []),
      (5, if wm_memory_min_pages m > 0 then memory_payload (wm_memory_min_pages m) else []),
      (6, if wm_globals m \<noteq> [] then globals_payload (wm_globals m) else []),
      (7, if wm_exports m \<noteq> [] then exports_payload (wm_exports m) else []),
      (9, if wm_table_elements m \<noteq> [] then elements_payload (wm_table_elements m) else []),
      (10, if wm_functions m \<noteq> [] then code_payload (wm_functions m) else []),
      (11, if wm_data m \<noteq> [] then data_payload (wm_data m) else [])]"

lemma emit_section_if: "(if c then emit_section i p else []) = emit_section i (if c then p else [])"
  by (simp add: emit_section_def)

lemma serialize_sections: "serialize m = wasm_header @ emit_sections (module_sections m)"
  by (simp add: serialize_def module_sections_def emit_sections_def emit_section_if)

lemma section_length:
  "(i, p) \<in> set secs \<Longrightarrow> length p \<le> length (emit_sections secs)"
proof (induction secs)
  case (Cons a secs)
  then show ?case
    using payload_length [of p i] by (auto simp: emit_sections_def intro: trans_le_add1 trans_le_add2)
qed simp

lemma ascending_filter: "sorted_wrt (<) (map f xs) \<Longrightarrow> ascending (map f (filter P xs))"
proof -
  have "ascending ys" if "sorted_wrt (<) ys" for ys :: "nat list"
    using that by (induction ys rule: ascending.induct) auto
  then show "sorted_wrt (<) (map f xs) \<Longrightarrow> ascending (map f (filter P xs))"
    by (simp add: sorted_wrt_map sorted_wrt_filter)
qed

lemma dec_sec_present:
  assumes "distinct (map fst secs)" "(i, p) \<in> set secs"
    and "p = [] \<Longrightarrow> x = d" "p \<noteq> [] \<Longrightarrow> dec (p @ []) = Some (x, [])"
  shows "dec_sec i d dec (filter (\<lambda>(sid, payload). payload \<noteq> []) secs) = Some x"
proof (cases "p = []")
  case True
  have "(i, q) \<notin> set (filter (\<lambda>(sid, payload). payload \<noteq> []) secs)" for q
    using assms(1,2) True by (auto dest: eq_key_imp_eq_value)
  then have "map_of (filter (\<lambda>(sid, payload). payload \<noteq> []) secs) i = None"
    by (metis map_of_SomeD not_None_eq)
  then show ?thesis using assms(3) True by (simp add: dec_sec_def)
next
  case False
  have "map_of (filter (\<lambda>(sid, payload). payload \<noteq> []) secs) i = Some p"
    using assms(1,2) False by (intro map_of_is_SomeI) (auto simp: distinct_map_filter)
  then show ?thesis using assms(4) False by (simp add: dec_sec_def dec_all_def)
qed

lemma module_sections_ids:
  "distinct (map fst (module_sections m))" "sorted_wrt (<) (map (unat \<circ> fst) (module_sections m))"
  by (simp_all add: module_sections_def)

lemma without_relocs_functions:
  "map2 make_function (map wf_type fs) (map (\<lambda>f. (wf_locals f, code_bytes (wf_body f))) fs) =
   map (\<lambda>f. f\<lparr> wf_body := (wf_body f)\<lparr> code_relocs := [] \<rparr> \<rparr>) fs"
  by (induction fs) (simp_all add: make_function_def)

lemma vec_payload_empty [simp]: "(if xs \<noteq> [] then vec e xs else []) = [] \<longleftrightarrow> xs = []"
  by simp

lemma dec_enc_function [codec]:
  assumes "function_ok f" "length (enc_function f) < 2 ^ 32"
  shows "dec_sized dec_body (enc_function f @ r) = Some ((wf_locals f, code_bytes (wf_body f)), r)"
  using assms dec_function_body [of f]
  by (simp add: enc_function_def function_ok_def dec_sized_append)

lemma dec_code_payload [codec]:
  assumes "list_all function_ok fs" "length (code_payload fs) < 2 ^ 32"
  shows "dec_vec (dec_sized dec_body) (code_payload fs @ r) =
    Some (map (\<lambda>f. (wf_locals f, code_bytes (wf_body f))) fs, r)"
proof -
  have n: "length fs < 2 ^ 32"
    using length_vec [of fs enc_function] assms(2) by (simp add: code_payload_def enc_function_def)
  have "dec_sized dec_body (enc_function f @ r) = Some ((wf_locals f, code_bytes (wf_body f)), r)"
    if "f \<in> set fs" for f r
    using that assms element_length [of f fs enc_function]
    by (intro dec_enc_function) (auto simp: list_all_iff code_payload_def)
  then have "dec_list (dec_sized dec_body) (length fs) (concat (map enc_function fs) @ r) =
    Some (map (\<lambda>f. (wf_locals f, code_bytes (wf_body f))) fs, r)"
    by (induction fs) simp_all
  then show ?thesis using n by (simp add: code_payload_def vec_def dec_vec_def dec_u_uleb)
qed

text \<open>The non-empty sections of a module and what each of them decodes to.\<close>

definition present :: "wasm_module \<Rightarrow> (byte \<times> bytes) list" where
  "present m = filter (\<lambda>(sid, payload). payload \<noteq> []) (module_sections m)"

lemmas present_section = dec_sec_present [OF module_sections_ids(1), folded present_def]

lemma module_section_length:
  "module_ok m \<Longrightarrow> (i, p) \<in> set (module_sections m) \<Longrightarrow> length p < 2 ^ 32"
  using section_length [of i p "module_sections m"]
  by (simp add: module_ok_def serialize_sections)

lemma present_vec:
  assumes "module_ok m" "(i, if xs \<noteq> [] then vec enc xs else []) \<in> set (module_sections m)"
    and "\<And>x r. x \<in> set xs \<Longrightarrow> length (enc x) < 2 ^ 32 \<Longrightarrow> dec (enc x @ r) = Some (x, r)"
    and "\<And>x. x \<in> set xs \<Longrightarrow> enc x \<noteq> []"
  shows "dec_sec i [] (dec_vec dec) (present m) = Some xs"
proof (rule present_section [OF assms(2)])
  assume "(if xs \<noteq> [] then vec enc xs else []) \<noteq> []"
  then have ne: "xs \<noteq> []" by simp
  then have "length (vec enc xs) < 2 ^ 32"
    using module_section_length [OF assms(1,2)] by simp
  then show "dec_vec dec ((if xs \<noteq> [] then vec enc xs else []) @ []) = Some (xs, [])"
    using ne vec_section [of xs enc dec "[]"] assms(3,4) by simp
qed (simp split: if_splits)

lemma enc_not_Nil [simp]:
  "enc_func_type t \<noteq> []" "enc_import i \<noteq> []" "enc_global g \<noteq> []" "enc_export e \<noteq> []"
  "enc_data d \<noteq> []" "elements_payload es \<noteq> []" "table_payload n \<noteq> []" "memory_payload n \<noteq> []"
  "code_payload fs \<noteq> []"
  by (simp_all add: enc_func_type_def enc_import_def enc_global_def enc_export_def enc_data_def
      elements_payload_def table_payload_def memory_payload_def code_payload_def)

lemma present_types: "module_ok m \<Longrightarrow> dec_sec 1 [] (dec_vec dec_func_type) (present m) = Some (wm_types m)"
  using module_section_length [of m 1 "types_payload (wm_types m)"]
    vec_section [of "wm_types m" enc_func_type dec_func_type "[]"]
  by (intro present_section [of _ "types_payload (wm_types m)"])
    (simp_all add: module_sections_def types_payload_def dec_enc_func_type)

lemma present_imports: "module_ok m \<Longrightarrow> dec_sec 2 [] (dec_vec dec_import) (present m) = Some (wm_imports m)"
  by (rule present_vec [where enc = enc_import])
    (auto simp: module_sections_def imports_payload_def module_ok_def list_all_iff dec_enc_import)

lemma present_indices:
  "module_ok m \<Longrightarrow> dec_sec 3 [] (dec_vec (dec_u 32)) (present m) = Some (map wf_type (wm_functions m))"
  by (rule present_vec [where enc = uleb])
    (auto simp: module_sections_def functions_payload_def module_ok_def function_ok_def
      list_all_iff dec_u_uleb)

lemma present_globals: "module_ok m \<Longrightarrow> dec_sec 6 [] (dec_vec dec_global) (present m) = Some (wm_globals m)"
  by (rule present_vec [where enc = enc_global])
    (auto simp: module_sections_def globals_payload_def module_ok_def list_all_iff dec_enc_global)

lemma present_exports: "module_ok m \<Longrightarrow> dec_sec 7 [] (dec_vec dec_export) (present m) = Some (wm_exports m)"
  by (rule present_vec [where enc = enc_export])
    (auto simp: module_sections_def exports_payload_def module_ok_def list_all_iff dec_enc_export)

lemma present_data: "module_ok m \<Longrightarrow> dec_sec 11 [] (dec_vec dec_data) (present m) = Some (wm_data m)"
  by (rule present_vec [where enc = enc_data])
    (auto simp: module_sections_def data_payload_def module_ok_def list_all_iff dec_enc_data)

lemma present_table: "module_ok m \<Longrightarrow> dec_sec 4 0 dec_table (present m) = Some (wm_table_size m)"
  by (rule present_section [of _ "if wm_table_size m > 0 then table_payload (wm_table_size m) else []"])
    (auto simp: module_sections_def module_ok_def dec_table_payload [of _ "[]", simplified]
      split: if_splits)

lemma present_memory: "module_ok m \<Longrightarrow> dec_sec 5 0 dec_memory_type (present m) = Some (wm_memory_min_pages m)"
  by (rule present_section
      [of _ "if wm_memory_min_pages m > 0 then memory_payload (wm_memory_min_pages m) else []"])
    (auto simp: module_sections_def module_ok_def dec_memory_payload [of _ "[]", simplified]
      split: if_splits)

lemma present_elements: "module_ok m \<Longrightarrow> dec_sec 9 [] dec_elements (present m) = Some (wm_table_elements m)"
  using module_section_length [of m 9 "elements_payload (wm_table_elements m)"]
  by (intro present_section
      [of _ "if wm_table_elements m \<noteq> [] then elements_payload (wm_table_elements m) else []"])
    (auto simp: module_sections_def module_ok_def dec_elements_payload [of _ "[]", simplified]
      split: if_splits)

lemma present_bodies:
  "module_ok m \<Longrightarrow> dec_sec 10 [] (dec_vec (dec_sized dec_body)) (present m) =
     Some (map (\<lambda>f. (wf_locals f, code_bytes (wf_body f))) (wm_functions m))"
  using module_section_length [of m 10 "code_payload (wm_functions m)"]
  by (intro present_section [of _ "if wm_functions m \<noteq> [] then code_payload (wm_functions m) else []"])
    (auto simp: module_sections_def module_ok_def dec_code_payload [of _ "[]", simplified]
      split: if_splits)

lemma dec_serialized_sections:
  assumes "module_ok m"
  shows "dec_header (serialize m) = Some (emit_sections (module_sections m))"
    and "dec_sections (emit_sections (module_sections m)) = Some (present m)"
    and "ascending (map (unat \<circ> fst) (present m))"
proof -
  show "dec_header (serialize m) = Some (emit_sections (module_sections m))"
    by (simp add: dec_header_def serialize_sections wasm_header_def)
  show "dec_sections (emit_sections (module_sections m)) = Some (present m)"
    unfolding present_def using module_section_length [OF assms] by (intro dec_emit_sections) auto
  show "ascending (map (unat \<circ> fst) (present m))"
    unfolding present_def by (rule ascending_filter [OF module_sections_ids(2)])
qed

text \<open>
  C24: Decoding inverts serialization: for a module whose fields are in the range of their types and
  whose binary is below 4 GiB, the decoder of the WebAssembly binary format accepts the serialized
  bytes - magic number, version, sections in ascending order with exact sizes - and returns the
  module itself, up to the relocations, which a final module does not carry.
\<close>

theorem module_roundtrip:
  assumes "module_ok m"
  shows "dec_module (serialize m) = Some (without_relocs m)"
  using dec_serialized_sections [OF assms]
  by (simp add: dec_module_def require_def present_types present_imports present_indices
      present_table present_memory present_globals present_exports present_elements present_bodies
      present_data assms without_relocs_functions without_relocs_def)

definition answer_module :: wasm_module where
  "answer_module =
     \<lparr> wm_types = [\<lparr> ft_params = [VT_I32], ft_results = [VT_I64] \<rparr>],
       wm_imports = [\<lparr> im_module = ''env'', im_name = ''f'', im_type = 0 \<rparr>],
       wm_functions =
         [\<lparr> wf_type = 0, wf_locals = [VT_I32, VT_I32, VT_F64],
            wf_body = fold code_step [C_local_get 0, C_drop, C_i64_const 42] empty_code \<rparr>],
       wm_table_size = 2, wm_table_elements = [1], wm_memory_min_pages = 1,
       wm_globals = [\<lparr> wg_type = VT_I32, wg_mutable = True, wg_init = - 7 \<rparr>],
       wm_exports = [\<lparr> ex_name = ''main'', ex_kind = EK_Function, ex_index = 1 \<rparr>],
       wm_data = [\<lparr> ds_offset = 16, ds_bytes = [1, 2, 3] \<rparr>] \<rparr>"

lemma leb_small: "v < 128 \<Longrightarrow> uleb v = [of_nat v]" "0 \<le> w \<Longrightarrow> w < 64 \<Longrightarrow> sleb w = [word_of_int w]"
  using sleb_stop [of w] by (simp_all add: uleb.simps [of v] Let_def)

lemma answer_module_ok: "module_ok answer_module"
proof -
  have "sleb (- 7) = [0x79]" by (simp add: sleb_stop)
  then show ?thesis
    by (simp add: answer_module_def module_ok_def function_ok_def global_ok_def serialize_def
        emit_section_def types_payload_def imports_payload_def functions_payload_def table_payload_def
        memory_payload_def globals_payload_def exports_payload_def elements_payload_def
        code_payload_def data_payload_def enc_func_type_def enc_import_def enc_global_def
        enc_export_def enc_data_def enc_function_def function_body_def locals_bytes_def
        local_runs_def add_run_def enc_run_def enc_val_types_def vec_def name_def leb_small
        wasm_header_def to_s32_id code_method_defs)
qed

theorem module_roundtrip_witness:
  "dec_module (serialize answer_module) = Some answer_module"
  using module_roundtrip [OF answer_module_ok]
  by (simp add: without_relocs_def answer_module_def code_method_defs put_def empty_code_def)

end
