(* ===== verification/Wasm_Object.thy ===== *)
theory Wasm_Object
  imports Wasm_Decode
begin

text \<open>
  Relocatable WebAssembly objects (struct \<^verbatim>\<open>ObjectModule\<close> of
  \<^verbatim>\<open>src/src/compiler/wasm_encoder.cpp\<close>): type interning, the sections of \<^verbatim>\<open>serialize\<close> with the
  section ordinals and the rebased relocations it tracks, the linking section, and the relocation
  sections. The theorems relate what a reader of the object finds: the relocation sections name the
  right section and every entry points at the bytes its producer recorded it for.
\<close>

subsection \<open>The object and its parts\<close>

record object_function_symbol =
  fs_name :: string
  fs_index :: nat
  fs_defined :: bool
  fs_exported :: bool

record object_data_symbol =
  dsy_name :: string
  dsy_segment :: nat
  dsy_offset :: nat
  dsy_size :: nat

record object_segment =
  os_name :: string
  os_align_log2 :: nat
  os_bytes :: bytes
  os_relocs :: "reloc list"

record object_module =
  om_types :: "func_type list"
  om_imports :: "wasm_import list"
  om_functions :: "wasm_function list"
  om_import_stack_pointer :: bool
  om_table_elements :: "nat list"
  om_segments :: "object_segment list"
  om_function_symbols :: "object_function_symbol list"
  om_data_symbols :: "object_data_symbol list"

definition object_intern_type :: "object_module \<Rightarrow> func_type \<Rightarrow> object_module \<times> nat" where
  "object_intern_type m type =
     (let (types, i) = intern_in (om_types m) type in (m\<lparr> om_types := types \<rparr>, i))"

interpretation object_types: interner om_types object_intern_type
proof
  fix m k
  show "fst (object_intern_type m k) = m" if "k \<in> set (om_types m)"
    using intern_in_cases(1) [OF that] by (auto simp: object_intern_type_def)
  show "om_types (fst (object_intern_type m k)) = om_types m @ [k]" if "k \<notin> set (om_types m)"
    using intern_in_cases(2) [OF that] by (simp add: object_intern_type_def)
  show "snd (object_intern_type m k) < length (om_types (fst (object_intern_type m k))) \<and>
    om_types (fst (object_intern_type m k)) ! snd (object_intern_type m k) = k"
    using intern_in_cases [of k "om_types m"]
    by (cases "k \<in> set (om_types m)") (auto simp: object_intern_type_def)
qed

subsection \<open>Serialization\<close>

text \<open>The lambda \<^verbatim>\<open>emit_section\<close>: it appends the section and returns the ordinal it had.\<close>

definition object_emit :: "byte \<Rightarrow> bytes \<Rightarrow> bytes \<times> nat \<Rightarrow> (bytes \<times> nat) \<times> nat" where
  "object_emit sid payload st =
     (case st of (out, ordinal) \<Rightarrow> ((out @ emit_section sid payload, ordinal + 1), ordinal))"

definition object_imports_payload :: "object_module \<Rightarrow> bytes" where
  "object_imports_payload m =
     uleb (2 + length (om_imports m) + (if om_import_stack_pointer m then 1 else 0)) @
     name ''env'' @ name ''__linear_memory'' @ [0x02, 0x00] @ uleb 1 @
     concat (map enc_import (om_imports m)) @
     name ''env'' @ name ''__indirect_function_table'' @ [0x01, val_type_code VT_Funcref, 0x00] @
     uleb (length (om_table_elements m) + 1) @
     (if om_import_stack_pointer m
      then name ''env'' @ name ''__stack_pointer'' @ [0x03, val_type_code VT_I32, 0x01] else [])"

definition add_object_function ::
  "bytes \<times> reloc list \<Rightarrow> wasm_function \<Rightarrow> bytes \<times> reloc list" where
  "add_object_function st f =
     (case st of (payload, code_relocs') \<Rightarrow>
        let code_start = u32_of (length (locals_bytes (wf_locals f)));
            body = locals_bytes (wf_locals f) @ code_bytes (wf_body f) @ [0x0B];
            size_field = uleb (length body);
            body_base = u32_of (u32_of (length payload) + u32_of (length size_field) + code_start)
        in (payload @ size_field @ body,
            code_relocs' @ map (rebase body_base) (code_relocs (wf_body f))))"

definition object_code :: "wasm_function list \<Rightarrow> bytes \<times> reloc list" where
  "object_code functions =
     foldl add_object_function (uleb (length functions), []) functions"

definition add_object_segment ::
  "bytes \<times> reloc list \<Rightarrow> object_segment \<Rightarrow> bytes \<times> reloc list" where
  "add_object_segment st s =
     (case st of (payload, data_relocs) \<Rightarrow>
        let payload = payload @ [0x00, 0x41] @ sleb 0 @ [0x0B] @ uleb (length (os_bytes s));
            base = u32_of (length payload)
        in (payload @ os_bytes s, data_relocs @ map (rebase base) (os_relocs s)))"

definition object_data :: "object_segment list \<Rightarrow> bytes \<times> reloc list" where
  "object_data segments =
     foldl add_object_segment (uleb (length segments), []) segments"

definition function_symbol_flags :: "object_function_symbol \<Rightarrow> nat" where
  "function_symbol_flags s =
     (0 OR (if \<not> fs_defined s then 0x10 else 0)) OR (if fs_exported s then 0x20 else 0)"

definition enc_function_symbol :: "object_function_symbol \<Rightarrow> bytes" where
  "enc_function_symbol s =
     [0x00] @ uleb (function_symbol_flags s) @ uleb (fs_index s) @
     (if fs_defined s then name (fs_name s) else [])"

definition enc_data_symbol :: "object_data_symbol \<Rightarrow> bytes" where
  "enc_data_symbol s =
     [0x01] @ uleb 0 @ name (dsy_name s) @ uleb (dsy_segment s) @ uleb (dsy_offset s) @
     uleb (dsy_size s)"

definition symbol_table :: "object_module \<Rightarrow> bytes" where
  "symbol_table m =
     uleb (length (om_function_symbols m) + length (om_data_symbols m) +
       (if om_import_stack_pointer m then 1 else 0)) @
     concat (map enc_function_symbol (om_function_symbols m)) @
     concat (map enc_data_symbol (om_data_symbols m)) @
     (if om_import_stack_pointer m then [0x02] @ uleb 0x10 @ uleb 0 else [])"

definition enc_segment_info :: "object_segment \<Rightarrow> bytes" where
  "enc_segment_info s = name (os_name s) @ uleb (os_align_log2 s) @ uleb 0"

definition linking_payload :: "object_module \<Rightarrow> bytes" where
  "linking_payload m =
     name ''linking'' @ uleb 2 @
     [0x08] @ uleb (length (symbol_table m)) @ symbol_table m @
     (if om_segments m \<noteq> []
      then let info = vec enc_segment_info (om_segments m) in [0x05] @ uleb (length info) @ info
      else [])"

definition memory_kind :: "byte \<Rightarrow> bool" where
  "memory_kind k \<longleftrightarrow> k = MEMORY_ADDR_LEB \<or> k = MEMORY_ADDR_SLEB \<or> k = MEMORY_ADDR_I32"

definition enc_reloc :: "reloc \<Rightarrow> bytes" where
  "enc_reloc r =
     [rl_type r] @ uleb (rl_offset r) @ uleb (rl_index r) @
     (if memory_kind (rl_type r) then sleb (rl_addend r) else [])"

definition emit_relocs ::
  "string \<Rightarrow> int \<Rightarrow> reloc list \<Rightarrow> bytes \<times> nat \<Rightarrow> bytes \<times> nat" where
  "emit_relocs section_name target entries st =
     (if target < 0 \<or> entries = [] then st
      else fst (object_emit 0
             (name section_name @ uleb (nat target) @ vec enc_reloc entries) st))"

definition object_serialize :: "object_module \<Rightarrow> bytes" where
  "object_serialize m =
     (let st = (wasm_header, 0);
          (st, _) = object_emit 1 (types_payload (om_types m)) st;
          (st, _) = object_emit 2 (object_imports_payload m) st;
          st = (if om_functions m \<noteq> []
                then fst (object_emit 3 (functions_payload (om_functions m)) st) else st);
          st = (if om_table_elements m \<noteq> []
                then fst (object_emit 9 (elements_payload (om_table_elements m)) st) else st);
          st = (if om_segments m \<noteq> []
                then fst (object_emit 12 (uleb (length (om_segments m))) st) else st);
          (st, code_ordinal, code_relocs') =
            (if om_functions m \<noteq> []
             then let (payload, relocs) = object_code (om_functions m);
                      (st, ordinal) = object_emit 10 payload st
                  in (st, int ordinal, relocs)
             else (st, -1, []));
          (st, data_ordinal, data_relocs) =
            (if om_segments m \<noteq> []
             then let (payload, relocs) = object_data (om_segments m);
                      (st, ordinal) = object_emit 11 payload st
                  in (st, int ordinal, relocs)
             else (st, -1, []));
          (st, _) = object_emit 0 (linking_payload m) st;
          st = emit_relocs ''reloc.CODE'' code_ordinal code_relocs' st;
          st = emit_relocs ''reloc.DATA'' data_ordinal data_relocs st
      in fst st)"

subsection \<open>The sections of an object\<close>

definition code_ordinal :: "object_module \<Rightarrow> nat" where
  "code_ordinal m = 2 + (if om_functions m \<noteq> [] then 1 else 0) +
     (if om_table_elements m \<noteq> [] then 1 else 0) + (if om_segments m \<noteq> [] then 1 else 0)"

definition data_ordinal :: "object_module \<Rightarrow> nat" where
  "data_ordinal m = code_ordinal m + (if om_functions m \<noteq> [] then 1 else 0)"

definition reloc_section :: "bool \<Rightarrow> string \<Rightarrow> nat \<Rightarrow> reloc list \<Rightarrow> (byte \<times> bytes) list" where
  "reloc_section c nm target entries =
     (if c \<and> entries \<noteq> [] then [(0, name nm @ uleb target @ vec enc_reloc entries)] else [])"

definition front_sections :: "object_module \<Rightarrow> (byte \<times> bytes) list" where
  "front_sections m =
     [(1, types_payload (om_types m)), (2, object_imports_payload m)] @
     (if om_functions m \<noteq> [] then [(3, functions_payload (om_functions m))] else []) @
     (if om_table_elements m \<noteq> [] then [(9, elements_payload (om_table_elements m))] else []) @
     (if om_segments m \<noteq> [] then [(12, uleb (length (om_segments m)))] else [])"

definition object_sections :: "object_module \<Rightarrow> (byte \<times> bytes) list" where
  "object_sections m =
     front_sections m @
     (if om_functions m \<noteq> [] then [(10, fst (object_code (om_functions m)))] else []) @
     (if om_segments m \<noteq> [] then [(11, fst (object_data (om_segments m)))] else []) @
     [(0, linking_payload m)] @
     reloc_section (om_functions m \<noteq> []) ''reloc.CODE'' (code_ordinal m)
       (snd (object_code (om_functions m))) @
     reloc_section (om_segments m \<noteq> []) ''reloc.DATA'' (data_ordinal m)
       (snd (object_data (om_segments m)))"

lemma emit_sections_append [simp]:
  "emit_sections (xs @ ys) = emit_sections xs @ emit_sections ys"
  "emit_sections [] = []" "emit_sections ((i, p) # ys) = emit_section i p @ emit_sections ys"
  by (simp_all add: emit_sections_def)

lemma object_serialize_sections:
  "object_serialize m = wasm_header @ emit_sections (object_sections m)"
proof -
  obtain cp cr dp dr where "object_code (om_functions m) = (cp, cr)" "object_data (om_segments m) = (dp, dr)"
    by fastforce
  then show ?thesis
    by (simp add: object_serialize_def object_sections_def front_sections_def object_emit_def
        emit_relocs_def reloc_section_def code_ordinal_def data_ordinal_def numeral_eq_Suc)
qed

lemma front_length: "length (front_sections m) = code_ordinal m"
  by (simp add: front_sections_def code_ordinal_def)

lemma code_section_at:
  "om_functions m \<noteq> [] \<Longrightarrow>
   object_sections m ! code_ordinal m = (10, fst (object_code (om_functions m)))"
  by (simp add: object_sections_def nth_append front_length)

lemma data_section_at:
  "om_segments m \<noteq> [] \<Longrightarrow>
   object_sections m ! data_ordinal m = (11, fst (object_data (om_segments m)))"
  by (simp add: object_sections_def data_ordinal_def nth_append front_length)

subsection \<open>Where relocations land\<close>

lemma add_object_function_bytes:
  "fst (add_object_function st f) = fst st @ enc_function f"
  by (simp add: add_object_function_def enc_function_def function_body_def Let_def split: prod.splits)

lemma object_code_fold_bytes:
  "fst (foldl add_object_function st fs) = fst st @ concat (map enc_function fs)"
  by (induction fs arbitrary: st) (simp_all add: add_object_function_bytes)

lemma object_code_payload: "fst (object_code fs) = code_payload fs"
  by (simp add: object_code_def object_code_fold_bytes code_payload_def vec_def)

lemma add_object_function_sites:
  assumes "list_all (reloc_site (fst st)) (snd st)" "code_sites (wf_body f)"
    and "length (fst (add_object_function st f)) < 2 ^ 32"
  shows "list_all (reloc_site (fst (add_object_function st f))) (snd (add_object_function st f))"
proof -
  obtain p rs where st: "st = (p, rs)" by (cases st)
  define pre where "pre = p @ uleb (length (function_body f)) @ locals_bytes (wf_locals f)"
  have out: "fst (add_object_function st f) = pre @ code_bytes (wf_body f) @ [0x0B]"
    by (simp add: add_object_function_bytes st pre_def enc_function_def function_body_def)
  have small: "length pre + length (code_bytes (wf_body f)) < 2 ^ 32"
    using assms(3) unfolding out by simp
  then have base: "u32_of (u32_of (length p) + u32_of (length (uleb (length (function_body f)))) +
    u32_of (length (locals_bytes (wf_locals f)))) = length pre"
    by (simp add: pre_def)
  have "reloc_site (pre @ code_bytes (wf_body f) @ [0x0B]) (rebase (length pre) r)"
    if "r \<in> set (code_relocs (wf_body f))" for r
  proof -
    have site: "reloc_site (code_bytes (wf_body f)) r"
      using assms(2) that by (simp add: code_sites_def list_all_iff)
    then have "rebase (length pre) r = r\<lparr> rl_offset := length pre + rl_offset r \<rparr>"
      using small by (simp add: rebase_def reloc_site_def padded_at_def add.commute)
    then show ?thesis using reloc_site_append [OF site] by simp
  qed
  moreover have "snd (add_object_function st f) = rs @ map (rebase (length pre)) (code_relocs (wf_body f))"
    using base by (simp add: add_object_function_def st Let_def function_body_def)
  moreover have "reloc_site (pre @ code_bytes (wf_body f) @ [0x0B]) r" if "r \<in> set rs" for r
    using assms(1) that reloc_site_extend [of p r] by (simp add: st list_all_iff pre_def)
  ultimately show ?thesis unfolding out by (auto simp: list_all_iff)
qed

lemma object_code_sites:
  assumes "list_all (\<lambda>f. code_sites (wf_body f)) fs" "length (code_payload fs) < 2 ^ 32"
  shows "list_all (reloc_site (code_payload fs)) (snd (object_code fs))"
proof -
  have "list_all (reloc_site (fst (foldl add_object_function st fs))) (snd (foldl add_object_function st fs))"
    if "list_all (reloc_site (fst st)) (snd st)" "list_all (\<lambda>f. code_sites (wf_body f)) fs"
      "length (fst (foldl add_object_function st fs)) < 2 ^ 32" for st
    using that
  proof (induction fs arbitrary: st)
    case (Cons f fs)
    have "length (fst (add_object_function st f)) < 2 ^ 32"
      using Cons.prems(3) by (simp add: object_code_fold_bytes)
    then show ?case
      using Cons add_object_function_sites [of st f] by simp
  qed simp
  from this [of "(uleb (length fs), [])"] show ?thesis
    using assms object_code_payload [of fs] by (simp add: object_code_def)
qed

text \<open>
  Data relocations patch the four bytes at their offset. \<open>windows\<close> lists, per segment and in order,
  the bytes each relocation was recorded for.
\<close>

definition window :: "bytes \<Rightarrow> reloc \<Rightarrow> bytes" where
  "window bs r = take 4 (drop (rl_offset r) bs)"

definition windows :: "object_segment list \<Rightarrow> bytes list" where
  "windows segments = concat (map (\<lambda>s. map (window (os_bytes s)) (os_relocs s)) segments)"

definition segment_ok :: "object_segment \<Rightarrow> bool" where
  "segment_ok s \<longleftrightarrow> list_all (\<lambda>r. rl_offset r + 4 \<le> length (os_bytes s)) (os_relocs s)"

definition segment_prefix :: "object_segment \<Rightarrow> bytes" where
  "segment_prefix s = [0x00, 0x41] @ sleb 0 @ [0x0B] @ uleb (length (os_bytes s))"

lemma window_append:
  "rl_offset r + 4 \<le> length bs \<Longrightarrow> window (bs @ post) r = window bs r"
  "rl_offset r + 4 \<le> length bs \<Longrightarrow>
   window (pre @ bs @ post) (r\<lparr> rl_offset := length pre + rl_offset r \<rparr>) = window bs r"
  by (simp_all add: window_def)

lemma add_object_segment_bytes:
  "fst (add_object_segment st s) = fst st @ segment_prefix s @ os_bytes s"
  by (simp add: add_object_segment_def segment_prefix_def Let_def split: prod.splits)

lemma object_data_fold_bytes:
  "fst (foldl add_object_segment st ss) = fst st @ concat (map (\<lambda>s. segment_prefix s @ os_bytes s) ss)"
  by (induction ss arbitrary: st) (simp_all add: add_object_segment_bytes)

lemma add_object_segment_windows:
  assumes "list_all (\<lambda>r. rl_offset r + 4 \<le> length (fst st)) (snd st)" "segment_ok s"
    and "length (fst (add_object_segment st s)) < 2 ^ 32"
  shows "list_all (\<lambda>r. rl_offset r + 4 \<le> length (fst (add_object_segment st s))) (snd (add_object_segment st s)) \<and>
    map (window (fst (add_object_segment st s))) (snd (add_object_segment st s)) =
      map (window (fst st)) (snd st) @ map (window (os_bytes s)) (os_relocs s)"
proof -
  obtain p rs where st: "st = (p, rs)" by (cases st)
  define pre where "pre = p @ segment_prefix s"
  have out: "fst (add_object_segment st s) = pre @ os_bytes s"
    by (simp add: add_object_segment_bytes st pre_def)
  have small: "length pre + length (os_bytes s) < 2 ^ 32" using assms(3) unfolding out by simp
  have "snd (add_object_segment st s) = rs @ map (rebase (u32_of (length pre))) (os_relocs s)"
    by (simp add: add_object_segment_def st Let_def pre_def segment_prefix_def)
  moreover have "map (rebase (u32_of (length pre))) (os_relocs s) =
      map (\<lambda>r. r\<lparr> rl_offset := length pre + rl_offset r \<rparr>) (os_relocs s)"
    using assms(2) small by (intro map_cong refl)
      (auto simp: segment_ok_def list_all_iff rebase_def add.commute u32_of_def)
  ultimately show ?thesis
    unfolding out using assms(1,2) window_append(1) [of _ p] window_append(2) [of _ "os_bytes s" pre "[]"]
    by (auto simp: st pre_def segment_ok_def list_all_iff)
qed

lemma object_data_windows:
  assumes "list_all segment_ok ss" "length (fst (object_data ss)) < 2 ^ 32"
  shows "list_all (\<lambda>r. rl_offset r + 4 \<le> length (fst (object_data ss))) (snd (object_data ss)) \<and>
    map (window (fst (object_data ss))) (snd (object_data ss)) = windows ss"
proof -
  have "list_all (\<lambda>r. rl_offset r + 4 \<le> length (fst (foldl add_object_segment st ss)))
        (snd (foldl add_object_segment st ss)) \<and>
      map (window (fst (foldl add_object_segment st ss))) (snd (foldl add_object_segment st ss)) =
        map (window (fst st)) (snd st) @ windows ss"
    if "list_all (\<lambda>r. rl_offset r + 4 \<le> length (fst st)) (snd st)" "list_all segment_ok ss"
      "length (fst (foldl add_object_segment st ss)) < 2 ^ 32" for st
    using that
  proof (induction ss arbitrary: st)
    case (Cons s ss)
    have "length (fst (add_object_segment st s)) < 2 ^ 32"
      using Cons.prems(3) by (simp add: object_data_fold_bytes)
    then show ?case
      using Cons add_object_segment_windows [of st s] by (simp add: windows_def)
  qed (simp add: windows_def)
  from this [of "(uleb (length ss), [])"] show ?thesis
    using assms by (simp add: object_data_def)
qed

subsection \<open>Reading an object\<close>

definition dec_reloc :: "bytes \<Rightarrow> (reloc \<times> bytes) option" where
  "dec_reloc bs =
     (case bs of [] \<Rightarrow> None
      | k # bs \<Rightarrow>
          do { (p, bs) \<leftarrow> dec_u 32 bs; (i, bs) \<leftarrow> dec_u 32 bs;
               (a, bs) \<leftarrow> (if memory_kind k then dec_s 32 bs else Some (0, bs));
               Some (\<lparr> rl_type = k, rl_offset = p, rl_index = i, rl_addend = a \<rparr>, bs) })"

definition custom_body :: "string \<Rightarrow> byte \<times> bytes \<Rightarrow> bytes option" where
  "custom_body nm s =
     (if fst s = 0 then
        (case dec_name (snd s) of Some (n, r) \<Rightarrow> if n = nm then Some r else None | None \<Rightarrow> None)
      else None)"

text \<open>
  The relocations of a named custom section with the section they apply to: the decoder looks the
  section up by the ordinal the entry carries, counting every section of the object.
\<close>

definition read_relocs :: "string \<Rightarrow> bytes \<Rightarrow> ((byte \<times> bytes) \<times> reloc list) option" where
  "read_relocs nm bs =
     do { bs \<leftarrow> dec_header bs;
          secs \<leftarrow> dec_sections bs;
          s \<leftarrow> find (\<lambda>s. custom_body nm s \<noteq> None) secs;
          r \<leftarrow> custom_body nm s;
          (t, r) \<leftarrow> dec_u 32 r;
          rs \<leftarrow> dec_all (dec_vec dec_reloc) r;
          require (t < length secs);
          Some (secs ! t, rs) }"

text \<open>What producers hand to \<^verbatim>\<open>serialize\<close>: relocations recorded at sites, fields within 32 bits.\<close>

definition reloc_ok :: "reloc \<Rightarrow> bool" where
  "reloc_ok r \<longleftrightarrow> rl_index r < 2 ^ 32 \<and>
     (if memory_kind (rl_type r) then - (2 ^ 31) \<le> rl_addend r \<and> rl_addend r < 2 ^ 31
      else rl_addend r = 0)"

definition object_ok :: "object_module \<Rightarrow> bool" where
  "object_ok m \<longleftrightarrow>
     list_all (\<lambda>f. code_sites (wf_body f) \<and> list_all reloc_ok (code_relocs (wf_body f))) (om_functions m) \<and>
     list_all (\<lambda>s. segment_ok s \<and> list_all reloc_ok (os_relocs s)) (om_segments m) \<and>
     length (object_serialize m) < 2 ^ 32"

lemma dec_enc_reloc [codec]:
  "reloc_ok r \<Longrightarrow> rl_offset r < 2 ^ 32 \<Longrightarrow> dec_reloc (enc_reloc r @ q) = Some (r, q)"
  by (cases "memory_kind (rl_type r)")
    (simp_all add: reloc_ok_def dec_reloc_def enc_reloc_def dec_u_uleb dec_s_sleb)

lemma object_section_length:
  "object_ok m \<Longrightarrow> (i, p) \<in> set (object_sections m) \<Longrightarrow> length p < 2 ^ 32"
  using section_length [of i p "object_sections m"]
  by (simp add: object_ok_def object_serialize_sections)

lemma object_sections_not_Nil: "list_all (\<lambda>(i, p). p \<noteq> []) (object_sections m)"
  by (simp add: object_sections_def front_sections_def reloc_section_def types_payload_def
      object_imports_payload_def functions_payload_def object_code_payload linking_payload_def
      object_data_def object_data_fold_bytes)

lemma dec_object_sections:
  assumes "object_ok m"
  shows "dec_header (object_serialize m) = Some (emit_sections (object_sections m))"
    and "dec_sections (emit_sections (object_sections m)) = Some (object_sections m)"
proof -
  show "dec_header (object_serialize m) = Some (emit_sections (object_sections m))"
    by (simp add: dec_header_def object_serialize_sections wasm_header_def)
  have "filter (\<lambda>(sid, payload). payload \<noteq> []) (object_sections m) = object_sections m"
    using object_sections_not_Nil [of m] by (auto simp: list_all_iff intro!: filter_True)
  then show "dec_sections (emit_sections (object_sections m)) = Some (object_sections m)"
    using dec_emit_sections [of "object_sections m"] object_section_length [OF assms] by auto
qed

lemma find_append: "find P (xs @ ys) = (case find P xs of None \<Rightarrow> find P ys | Some x \<Rightarrow> Some x)"
  by (induction xs) auto

lemma custom_body_simps [simp]:
  "length s < 2 ^ 32 \<Longrightarrow> custom_body nm (0, name s @ r) = (if s = nm then Some r else None)"
  "i \<noteq> 0 \<Longrightarrow> custom_body nm (i, p) = None"
  using names.dec_enc [of s r] by (simp_all add: custom_body_def)

lemma find_front [simp]: "find (\<lambda>s. \<exists>y. custom_body nm s = Some y) (front_sections m) = None"
  by (simp add: front_sections_def)

lemma custom_linking [simp]: "nm \<noteq> ''linking'' \<Longrightarrow> custom_body nm (0, linking_payload m) = None"
  by (simp add: linking_payload_def)

lemma find_reloc_sections:
  assumes "object_ok m"
  shows "om_functions m \<noteq> [] \<Longrightarrow> snd (object_code (om_functions m)) \<noteq> [] \<Longrightarrow>
      find (\<lambda>s. custom_body ''reloc.CODE'' s \<noteq> None) (object_sections m) =
        Some (0, name ''reloc.CODE'' @ uleb (code_ordinal m) @ vec enc_reloc (snd (object_code (om_functions m))))"
    and "om_segments m \<noteq> [] \<Longrightarrow> snd (object_data (om_segments m)) \<noteq> [] \<Longrightarrow>
      find (\<lambda>s. custom_body ''reloc.DATA'' s \<noteq> None) (object_sections m) =
        Some (0, name ''reloc.DATA'' @ uleb (data_ordinal m) @ vec enc_reloc (snd (object_data (om_segments m))))"
  by (simp_all add: object_sections_def reloc_section_def find_append)

lemma enc_reloc_not_Nil [simp]: "enc_reloc r \<noteq> []"
  by (simp add: enc_reloc_def)

lemma dec_relocs:
  assumes "\<And>r. r \<in> set rs \<Longrightarrow> reloc_ok r \<and> rl_offset r < 2 ^ 32" "length (vec enc_reloc rs) < 2 ^ 32"
  shows "dec_all (dec_vec dec_reloc) (vec enc_reloc rs) = Some rs"
  using vec_section [of rs enc_reloc dec_reloc "[]"] assms by (simp add: dec_all_def dec_enc_reloc)

lemma rebase_ok: "reloc_ok r \<Longrightarrow> reloc_ok (rebase k r)"
  by (cases "memory_kind (rl_type r)") (simp_all add: reloc_ok_def rebase_def)

lemma rebase_offset: "rl_offset (rebase k r) < 2 ^ 32"
  by (simp add: rebase_def u32_of_def)

lemma rebased_fold_ok:
  assumes "\<And>st x. \<exists>k. snd (add st x) = snd st @ map (rebase k) (rs x)"
    and "list_all (\<lambda>x. list_all reloc_ok (rs x)) xs"
    and "\<forall>r \<in> set (snd st). reloc_ok r \<and> rl_offset r < 2 ^ 32"
  shows "\<forall>r \<in> set (snd (foldl add st xs)). reloc_ok r \<and> rl_offset r < 2 ^ 32"
  using assms(2,3)
proof (induction xs arbitrary: st)
  case (Cons x xs)
  obtain k where "snd (add st x) = snd st @ map (rebase k) (rs x)" using assms(1) by blast
  then have "\<forall>r \<in> set (snd (add st x)). reloc_ok r \<and> rl_offset r < 2 ^ 32"
    using Cons.prems rebase_offset by (simp add: list_all_iff rebase_ok ball_Un)
  then show ?case using Cons.IH [of "add st x"] Cons.prems(1) by simp
qed simp

lemma object_code_relocs_ok:
  assumes "list_all (\<lambda>f. list_all reloc_ok (code_relocs (wf_body f))) fs" "r \<in> set (snd (object_code fs))"
  shows "reloc_ok r \<and> rl_offset r < 2 ^ 32"
proof -
  have "\<exists>k. snd (add_object_function st f) = snd st @ map (rebase k) (code_relocs (wf_body f))" for st f
    by (cases st) (auto simp: add_object_function_def Let_def)
  from rebased_fold_ok [OF this assms(1), of "(uleb (length fs), [])"] show ?thesis
    using assms(2) by (simp add: object_code_def)
qed

lemma object_data_relocs_ok:
  assumes "list_all (\<lambda>s. list_all reloc_ok (os_relocs s)) ss" "r \<in> set (snd (object_data ss))"
  shows "reloc_ok r \<and> rl_offset r < 2 ^ 32"
proof -
  have "\<exists>k. snd (add_object_segment st s) = snd st @ map (rebase k) (os_relocs s)" for st s
    by (cases st) (auto simp: add_object_segment_def Let_def)
  from rebased_fold_ok [OF this assms(1), of "(uleb (length ss), [])"] show ?thesis
    using assms(2) by (simp add: object_data_def)
qed

lemma ordinals_small:
  "code_ordinal m < 2 ^ 32" "data_ordinal m < 2 ^ 32"
  "om_functions m \<noteq> [] \<Longrightarrow> code_ordinal m < length (object_sections m)"
  "om_segments m \<noteq> [] \<Longrightarrow> data_ordinal m < length (object_sections m)"
  by (auto simp: code_ordinal_def data_ordinal_def object_sections_def front_sections_def)

lemma read_relocs_at:
  assumes "object_ok m"
    and "find (\<lambda>s. custom_body nm s \<noteq> None) (object_sections m) = Some (0, name nm @ uleb t @ vec enc_reloc rs)"
    and "t < 2 ^ 32" "t < length (object_sections m)" "length nm < 2 ^ 32"
    and "\<And>r. r \<in> set rs \<Longrightarrow> reloc_ok r \<and> rl_offset r < 2 ^ 32"
  shows "read_relocs nm (object_serialize m) = Some (object_sections m ! t, rs)"
proof -
  have "(0, name nm @ uleb t @ vec enc_reloc rs) \<in> set (object_sections m)"
    using assms(2) by (auto simp: find_Some_iff in_set_conv_nth)
  then have "length (vec enc_reloc rs) < 2 ^ 32"
    using object_section_length [OF assms(1)] by fastforce
  then show ?thesis
    using dec_object_sections [OF assms(1)] assms(2-5) dec_relocs [OF assms(6)]
    by (simp add: read_relocs_def require_def dec_u_uleb)
qed

text \<open>
  C25: Reading an object back: when a function body of a well-formed object carries a relocation, the
  \<^verbatim>\<open>reloc.CODE\<close> section names the code section by its ordinal among all sections, and each entry's
  offset into that section's payload is a relocation site - a five-byte padded immediate behind an
  opcode of the entry's kind.
\<close>

theorem object_code_relocations:
  assumes "object_ok m" "om_functions m \<noteq> []" "snd (object_code (om_functions m)) \<noteq> []"
  shows "\<exists>payload relocs. read_relocs ''reloc.CODE'' (object_serialize m) = Some ((10, payload), relocs) \<and>
    payload = code_payload (om_functions m) \<and> list_all (reloc_site payload) relocs"
proof -
  let ?fs = "om_functions m"
  have "(10, code_payload ?fs) \<in> set (object_sections m)"
    using assms(2) by (simp add: object_sections_def object_code_payload)
  then have "length (code_payload ?fs) < 2 ^ 32"
    using object_section_length [OF assms(1)] by blast
  moreover have "list_all (\<lambda>f. code_sites (wf_body f)) ?fs"
    "list_all (\<lambda>f. list_all reloc_ok (code_relocs (wf_body f))) ?fs"
    using assms(1) by (simp_all add: object_ok_def list_all_iff)
  ultimately show ?thesis
    using read_relocs_at [OF assms(1) find_reloc_sections(1) [OF assms]] ordinals_small assms(2)
      object_code_relocs_ok object_code_sites code_section_at [OF assms(2)]
    by (simp add: object_code_payload)
qed

text \<open>
  The data relocations of a well-formed object come back against the data section, one per
  relocation of the segments in order, and the four bytes at each entry's offset in the section
  payload are the four bytes at the offset the producer recorded inside its segment.
\<close>

theorem object_data_relocations:
  assumes "object_ok m" "om_segments m \<noteq> []" "snd (object_data (om_segments m)) \<noteq> []"
  shows "\<exists>payload relocs. read_relocs ''reloc.DATA'' (object_serialize m) = Some ((11, payload), relocs) \<and>
    list_all (\<lambda>r. rl_offset r + 4 \<le> length payload) relocs \<and>
    map (window payload) relocs = windows (om_segments m)"
proof -
  let ?ss = "om_segments m"
  have "(11, fst (object_data ?ss)) \<in> set (object_sections m)"
    using assms(2) by (simp add: object_sections_def)
  then have "length (fst (object_data ?ss)) < 2 ^ 32"
    using object_section_length [OF assms(1)] by blast
  moreover have "list_all segment_ok ?ss" "list_all (\<lambda>s. list_all reloc_ok (os_relocs s)) ?ss"
    using assms(1) by (simp_all add: object_ok_def list_all_iff)
  ultimately show ?thesis
    using read_relocs_at [OF assms(1) find_reloc_sections(2) [OF assms]] ordinals_small assms(2)
      object_data_relocs_ok object_data_windows [of ?ss] data_section_at [OF assms(2)]
    by simp
qed

definition linked_object :: object_module where
  "linked_object =
     \<lparr> om_types = [\<lparr> ft_params = [], ft_results = [VT_I32] \<rparr>], om_imports = [],
       om_functions =
         [\<lparr> wf_type = 0, wf_locals = [VT_I32],
            wf_body = fold code_step [C_local_get 0, C_call_reloc 0 0, C_i32_const_memory 1 4] empty_code \<rparr>],
       om_import_stack_pointer = True, om_table_elements = [],
       om_segments =
         [\<lparr> os_name = ''.data.x'', os_align_log2 = 2, os_bytes = [9, 1, 2, 3, 4],
            os_relocs = [\<lparr> rl_type = MEMORY_ADDR_I32, rl_offset = 1, rl_index = 1, rl_addend = 0 \<rparr>] \<rparr>],
       om_function_symbols = [\<lparr> fs_name = ''f'', fs_index = 0, fs_defined = True, fs_exported = False \<rparr>],
       om_data_symbols = [\<lparr> dsy_name = ''x'', dsy_segment = 0, dsy_offset = 0, dsy_size = 5 \<rparr>] \<rparr>"

lemma linked_object_ok:
  "object_ok linked_object"
  "om_functions linked_object \<noteq> []" "snd (object_code (om_functions linked_object)) \<noteq> []"
  "om_segments linked_object \<noteq> []" "snd (object_data (om_segments linked_object)) \<noteq> []"
proof -
  have sites: "code_sites (fold code_step [C_local_get 0, C_call_reloc 0 0, C_i32_const_memory 1 4] empty_code)"
    by (rule streams.run_inv [OF run_grows]) (simp_all add: code_sites_def code_method_defs leb_small)
  have "length (object_serialize linked_object) < 2 ^ 32"
    by (simp add: linked_object_def object_serialize_sections object_sections_def front_sections_def
        reloc_section_def emit_section_def code_ordinal_def data_ordinal_def types_payload_def
        object_imports_payload_def functions_payload_def object_code_def add_object_function_def
        object_data_def add_object_segment_def linking_payload_def symbol_table_def
        enc_function_symbol_def function_symbol_flags_def enc_data_symbol_def enc_segment_info_def
        enc_reloc_def memory_kind_def reloc_kinds enc_func_type_def enc_val_types_def vec_def name_def
        locals_bytes_def local_runs_def add_run_def enc_run_def leb_small rebase_def code_method_defs
        wasm_header_def)
  then show "object_ok linked_object"
    using sites
    by (simp add: linked_object_def object_ok_def segment_ok_def reloc_ok_def memory_kind_def
        reloc_kinds code_method_defs)
qed (simp_all add: linked_object_def object_code_def add_object_function_def object_data_def
      add_object_segment_def code_method_defs Let_def)

theorem object_code_relocations_witness:
  "\<exists>payload relocs. read_relocs ''reloc.CODE'' (object_serialize linked_object) = Some ((10, payload), relocs) \<and>
     payload = code_payload (om_functions linked_object) \<and> list_all (reloc_site payload) relocs"
  by (rule object_code_relocations) (fact linked_object_ok)+

theorem object_data_relocations_witness:
  "\<exists>payload relocs. read_relocs ''reloc.DATA'' (object_serialize linked_object) = Some ((11, payload), relocs) \<and>
     list_all (\<lambda>r. rl_offset r + 4 \<le> length payload) relocs \<and>
     map (window payload) relocs = [[1, 2, 3, 4]]"
proof -
  have "windows (om_segments linked_object) = [[1, 2, 3, 4]]"
    by (simp add: windows_def window_def linked_object_def)
  then show ?thesis using object_data_relocations [OF linked_object_ok(1,4,5)] by simp
qed

subsection \<open>The symbol table\<close>

text \<open>Symbols as the linking convention reads them; an undefined function is named by its import.\<close>

datatype symbol =
    Sym_Function (sym_undefined: bool) (sym_exported: bool) (sym_index: nat) (sym_name: "string option")
  | Sym_Data string nat nat nat
  | Sym_Global bool nat

definition dec_symbol :: "bytes \<Rightarrow> (symbol \<times> bytes) option" where
  "dec_symbol bs =
     (case bs of [] \<Rightarrow> None
      | k # bs \<Rightarrow>
          do { (flags, bs) \<leftarrow> dec_u 32 bs;
               if k = 0 then
                 do { (i, bs) \<leftarrow> dec_u 32 bs;
                      if flags AND 0x10 \<noteq> 0
                      then Some (Sym_Function True (flags AND 0x20 \<noteq> 0) i None, bs)
                      else do { (n, bs) \<leftarrow> dec_name bs;
                                Some (Sym_Function False (flags AND 0x20 \<noteq> 0) i (Some n), bs) } }
               else if k = 1 then
                 do { (n, bs) \<leftarrow> dec_name bs; (s, bs) \<leftarrow> dec_u 32 bs; (p, bs) \<leftarrow> dec_u 32 bs;
                      (z, bs) \<leftarrow> dec_u 32 bs; Some (Sym_Data n s p z, bs) }
               else if k = 2 then
                 do { (i, bs) \<leftarrow> dec_u 32 bs; Some (Sym_Global (flags AND 0x10 \<noteq> 0) i, bs) }
               else None })"

definition symbols_of :: "object_module \<Rightarrow> symbol list" where
  "symbols_of m =
     map (\<lambda>s. Sym_Function (\<not> fs_defined s) (fs_exported s) (fs_index s)
            (if fs_defined s then Some (fs_name s) else None)) (om_function_symbols m) @
     map (\<lambda>s. Sym_Data (dsy_name s) (dsy_segment s) (dsy_offset s) (dsy_size s)) (om_data_symbols m) @
     (if om_import_stack_pointer m then [Sym_Global True 0] else [])"

definition symbols_ok :: "object_module \<Rightarrow> bool" where
  "symbols_ok m \<longleftrightarrow>
     list_all (\<lambda>s. fs_index s < 2 ^ 32) (om_function_symbols m) \<and>
     list_all (\<lambda>s. dsy_segment s < 2 ^ 32 \<and> dsy_offset s < 2 ^ 32 \<and> dsy_size s < 2 ^ 32)
       (om_data_symbols m) \<and>
     length (symbol_table m) < 2 ^ 32"

lemma dec_function_symbol [codec]:
  assumes "fs_index s < 2 ^ 32" "length (enc_function_symbol s) < 2 ^ 32"
  shows "dec_symbol (enc_function_symbol s @ r) =
    Some (Sym_Function (\<not> fs_defined s) (fs_exported s) (fs_index s)
      (if fs_defined s then Some (fs_name s) else None), r)"
  using assms
  by (cases "fs_defined s"; cases "fs_exported s")
    (simp_all add: enc_function_symbol_def dec_symbol_def function_symbol_flags_def dec_u_uleb dec_name_name)

lemma dec_data_symbol [codec]:
  assumes "dsy_segment s < 2 ^ 32" "dsy_offset s < 2 ^ 32" "dsy_size s < 2 ^ 32"
    and "length (enc_data_symbol s) < 2 ^ 32"
  shows "dec_symbol (enc_data_symbol s @ r) =
    Some (Sym_Data (dsy_name s) (dsy_segment s) (dsy_offset s) (dsy_size s), r)"
  using assms by (simp add: enc_data_symbol_def dec_symbol_def dec_u_uleb dec_name_name)

lemma dec_list_map:
  "(\<And>x r. x \<in> set xs \<Longrightarrow> dec (enc x @ r) = Some (f x, r)) \<Longrightarrow>
   dec_list dec (length xs) (concat (map enc xs) @ r) = Some (map f xs, r)"
  by (induction xs) simp_all

lemma concat_length: "x \<in> set xs \<Longrightarrow> length (enc x) \<le> length (concat (map enc xs))"
  by (induction xs) auto

lemma concat_count: "(\<And>x. enc x \<noteq> []) \<Longrightarrow> length xs \<le> length (concat (map enc xs))"
proof (induction xs)
  case (Cons x xs)
  then have "0 < length (enc x)" "length xs \<le> length (concat (map enc xs))" by simp_all
  then show ?case by (simp del: length_greater_0_conv)
qed simp

text \<open>
  The symbol table of the linking section decodes to the function symbols in order, then the
  data symbols, then - when the object imports it - the stack pointer: the symbol numbering that
  relocation entries refer to.
\<close>

theorem symbol_table_order:
  assumes "symbols_ok m"
  shows "dec_vec dec_symbol (symbol_table m) = Some (symbols_of m, [])"
proof -
  let ?fs = "om_function_symbols m" and ?ds = "om_data_symbols m"
  let ?tail = "if om_import_stack_pointer m then [0x02] @ uleb 0x10 @ uleb 0 else []"
  have len: "length (concat (map enc_function_symbol ?fs)) + length (concat (map enc_data_symbol ?ds)) < 2 ^ 32"
    using assms by (simp add: symbols_ok_def symbol_table_def)
  have f: "dec_list dec_symbol (length ?fs) (concat (map enc_function_symbol ?fs) @ r) =
      Some (map (\<lambda>s. Sym_Function (\<not> fs_defined s) (fs_exported s) (fs_index s)
        (if fs_defined s then Some (fs_name s) else None)) ?fs, r)" for r
    using assms len concat_length [of _ ?fs enc_function_symbol]
    by (intro dec_list_map dec_function_symbol) (fastforce simp: symbols_ok_def list_all_iff)+
  have d: "dec_list dec_symbol (length ?ds) (concat (map enc_data_symbol ?ds) @ r) =
      Some (map (\<lambda>s. Sym_Data (dsy_name s) (dsy_segment s) (dsy_offset s) (dsy_size s)) ?ds, r)" for r
    using assms len concat_length [of _ ?ds enc_data_symbol]
    by (intro dec_list_map dec_data_symbol) (fastforce simp: symbols_ok_def list_all_iff)+
  have t: "dec_list dec_symbol (if om_import_stack_pointer m then 1 else 0) ?tail =
      Some (if om_import_stack_pointer m then [Sym_Global True 0] else [], [])"
    using dec_u_uleb [of 0 32 "[]"] by (simp add: dec_symbol_def dec_u_uleb)
  have "dec_list dec_symbol (length ?fs + (length ?ds + (if om_import_stack_pointer m then 1 else 0)))
      (concat (map enc_function_symbol ?fs) @ concat (map enc_data_symbol ?ds) @ ?tail) =
      Some (symbols_of m, [])"
    unfolding symbols_of_def by (rule dec_list_append [OF f dec_list_append [OF d t]])
  moreover have "length ?fs + length ?ds + (if om_import_stack_pointer m then 1 else 0) < 2 ^ 32"
    using assms concat_count [of enc_function_symbol ?fs] concat_count [of enc_data_symbol ?ds]
    by (simp add: symbols_ok_def symbol_table_def enc_function_symbol_def enc_data_symbol_def
        split: if_splits)
  ultimately show ?thesis
    by (simp add: dec_vec_def symbol_table_def dec_u_uleb add.assoc)
qed

theorem symbol_table_order_witness:
  "dec_vec dec_symbol (symbol_table linked_object) =
     Some ([Sym_Function False False 0 (Some ''f''), Sym_Data ''x'' 0 0 5, Sym_Global True 0], [])"
  using symbol_table_order [of linked_object]
  by (simp add: linked_object_def symbols_ok_def symbols_of_def symbol_table_def enc_function_symbol_def
      function_symbol_flags_def enc_data_symbol_def name_def leb_small)

end
