(* ===== verification/Lsp_Uri.thy ===== *)
theory Lsp_Uri
  imports Prelude
begin

text \<open>
  File URIs of the language server (\<^verbatim>\<open>lsp/uri.cpp\<close>): percent-coding, and the two conversions between the paths the
  analyser keys documents by and the URIs a client sends. A \<open>char\<close> is a byte.
\<close>

subsection \<open>Definitions\<close>

abbreviation (input) FILE_SCHEME :: string where
  "FILE_SCHEME \<equiv> ''file://''"

abbreviation (input) LOCALHOST :: string where
  "LOCALHOST \<equiv> ''localhost''"

definition char_code :: "char \<Rightarrow> nat" where
  "char_code c = of_char c"

definition lower_ascii :: "char \<Rightarrow> char" where
  "lower_ascii c = (if char_code CHR ''A'' \<le> char_code c \<and> char_code c \<le> char_code CHR ''Z'' then char_of (char_code c - char_code CHR ''A'' + char_code CHR ''a'') else c)"

definition iequals_ascii :: "string \<Rightarrow> string \<Rightarrow> bool" where
  "iequals_ascii a b \<longleftrightarrow> length a = length b \<and> (\<forall>i < length a. lower_ascii (a ! i) = lower_ascii (b ! i))"

definition hex_digit :: "char \<Rightarrow> int" where
  "hex_digit c =
     (if char_code CHR ''0'' \<le> char_code c \<and> char_code c \<le> char_code CHR ''9'' then int (char_code c) - int (char_code CHR ''0'')
      else if char_code CHR ''a'' \<le> char_code c \<and> char_code c \<le> char_code CHR ''f'' then int (char_code c) - int (char_code CHR ''a'') + 10
      else if char_code CHR ''A'' \<le> char_code c \<and> char_code c \<le> char_code CHR ''F'' then int (char_code c) - int (char_code CHR ''A'') + 10
      else -1)"

fun percent_decode :: "string \<Rightarrow> string" where
  "percent_decode (c # h # l # cs) =
     (if c = CHR ''%'' \<and> 0 \<le> hex_digit h \<and> 0 \<le> hex_digit l
      then char_of (nat (push_bit 4 (hex_digit h) OR hex_digit l)) # percent_decode cs
      else c # percent_decode (h # l # cs))"
| "percent_decode cs = cs"

definition hex_char :: "nat \<Rightarrow> char" where
  "hex_char d = ''0123456789ABCDEF'' ! d"

definition escape :: "char \<Rightarrow> string" where
  "escape c = [CHR ''%'', hex_char (drop_bit 4 (char_code c)), hex_char (char_code c AND 15)]"

definition encode_char :: "char \<Rightarrow> string" where
  "encode_char c = (if c \<in> {CHR ''%'', CHR '' '', CHR ''#'', CHR ''?''} \<or> 128 \<le> char_code c then escape c else [c])"

definition percent_encode :: "string \<Rightarrow> string" where
  "percent_encode s = concat (map encode_char s)"

text \<open>An empty path marks a URI the server does not handle.\<close>

definition uri_to_path :: "string \<Rightarrow> string" where
  "uri_to_path uri =
     (if length uri < length FILE_SCHEME \<or> \<not> iequals_ascii (take (length FILE_SCHEME) uri) FILE_SCHEME then []
      else
        let rest = drop (length FILE_SCHEME) uri;
            rest = (if length LOCALHOST < length rest \<and> rest ! length LOCALHOST = CHR ''/'' \<and>
                       iequals_ascii (take (length LOCALHOST) rest) LOCALHOST
                    then drop (length LOCALHOST) rest else rest)
        in if rest = [] \<or> hd rest \<noteq> CHR ''/'' then [] else percent_decode rest)"

definition path_to_uri :: "string \<Rightarrow> string" where
  "path_to_uri path = FILE_SCHEME @ percent_encode path"

subsection \<open>Percent-coding\<close>

lemma code_bound: "char_code c < 256"
  by (simp add: char_code_def)

lemma char_of_code [simp]: "char_of (char_code c) = c"
  by (simp add: char_code_def)

lemma hex_chars: "\<forall>d \<in> set [0..<16]. hex_digit (hex_char d) = int d \<and> char_code (hex_char d) \<in> {48..57} \<union> {65..70}"
  by code_simp

lemma hex_digit_char: "d < 16 \<Longrightarrow> hex_digit (hex_char d) = int d"
  and hex_char_code: "d < 16 \<Longrightarrow> char_code (hex_char d) \<in> {48..57} \<union> {65..70}"
  using hex_chars by simp_all

lemma nibbles: "char_code c = 16 * drop_bit 4 (char_code c) + (char_code c AND 15)" "drop_bit 4 (char_code c) < 16" "(char_code c AND 15) < 16"
proof -
  have "x AND 15 = take_bit 4 x" for x :: nat by (simp add: take_bit_eq_mask mask_eq_exp_minus_1)
  then have m: "x AND 15 = x mod 16" for x :: nat by (simp add: take_bit_eq_mod)
  have d: "drop_bit 4 x = x div 16" for x :: nat by (simp add: drop_bit_eq_div)
  show "char_code c = 16 * drop_bit 4 (char_code c) + (char_code c AND 15)" by (simp add: m d)
  show "drop_bit 4 (char_code c) < 16" using code_bound [of c] by (simp add: d)
  show "(char_code c AND 15) < 16" by (simp add: m)
qed

lemma join_nibbles: "l < 16 \<Longrightarrow> nat (push_bit 4 (int h) OR int l) = 16 * h + l"
proof -
  assume "l < 16"
  then have "take_bit 4 (int l) = int l" by (simp add: take_bit_eq_mod)
  then have "push_bit 4 (int h) OR int l = concat_bit 4 (int l) (int h)" by (simp add: concat_bit_def or.commute)
  also have "\<dots> = int l + push_bit 4 (int h)" by (simp add: concat_bit_eq \<open>take_bit 4 (int l) = int l\<close>)
  also have "\<dots> = int (16 * h + l)" by (simp add: push_bit_eq_mult)
  finally show ?thesis by simp
qed

lemma decode_escape: "percent_decode (escape c @ cs) = c # percent_decode cs"
proof -
  have "hex_digit (hex_char (drop_bit 4 (char_code c))) = int (drop_bit 4 (char_code c))" "hex_digit (hex_char (char_code c AND 15)) = int (char_code c AND 15)"
    using nibbles(2,3) [of c] by (simp_all add: hex_digit_char)
  moreover have "nat (push_bit 4 (int (drop_bit 4 (char_code c))) OR int (char_code c AND 15)) = char_code c"
    using join_nibbles [OF nibbles(3)] nibbles(1) [of c] by simp
  ultimately show ?thesis by (simp add: escape_def)
qed

lemma decode_plain: "c \<noteq> CHR ''%'' \<Longrightarrow> percent_decode (c # cs) = c # percent_decode cs"
  by (cases cs; cases "tl cs") (auto split: list.splits)

lemma decode_encode_char: "percent_decode (encode_char c @ cs) = c # percent_decode cs"
  by (simp add: encode_char_def decode_escape decode_plain)

lemma percent_roundtrip: "percent_decode (percent_encode s) = s"
  unfolding percent_encode_def by (induction s) (simp_all add: decode_encode_char)

lemma encoded_chars:
  assumes "c \<in> set (percent_encode s)"
  shows "char_code c < 128 \<and> c \<notin> {CHR '' '', CHR ''#'', CHR ''?''}"
proof -
  obtain x where x: "c \<in> set (encode_char x)" using assms by (auto simp: percent_encode_def)
  show ?thesis
  proof (cases "encode_char x = [x]")
    case True
    then show ?thesis using x by (auto simp: encode_char_def escape_def split: if_splits)
  next
    case False
    then have "encode_char x = escape x" by (auto simp: encode_char_def split: if_splits)
    then have "c = CHR ''%'' \<or> char_code c \<in> {48..57} \<union> {65..70}"
      using x hex_char_code nibbles(2,3) [of x] by (auto simp: escape_def)
    then show ?thesis by (auto simp: char_code_def)
  qed
qed

lemma uri_to_path_of_uri: "uri_to_path (path_to_uri (CHR ''/'' # path)) = CHR ''/'' # path"
proof -
  have e: "percent_encode (CHR ''/'' # path) = CHR ''/'' # percent_encode path"
    by (simp add: percent_encode_def encode_char_def char_code_def)
  have l: "\<not> iequals_ascii (CHR ''/'' # xs) LOCALHOST" for xs
    by (auto simp: iequals_ascii_def lower_ascii_def char_code_def dest: spec [of _ 0])
  have "iequals_ascii FILE_SCHEME FILE_SCHEME" by (simp add: iequals_ascii_def)
  then show "uri_to_path (path_to_uri (CHR ''/'' # path)) = CHR ''/'' # path"
    using percent_roundtrip [of path] l unfolding uri_to_path_def path_to_uri_def e
    by (simp add: decode_plain Let_def)
qed

text \<open>
  The URI of a path is ASCII without blanks, hashes and question marks; reading the URI of an absolute path
  gives the path back.
\<close>

theorem uri_reads_back:
  "(\<forall>c \<in> set (path_to_uri path). char_code c < 128 \<and> c \<notin> {CHR '' '', CHR ''#'', CHR ''?''}) \<and>
   uri_to_path (path_to_uri (CHR ''/'' # path)) = CHR ''/'' # path"
proof
  have "\<forall>c \<in> set FILE_SCHEME. char_code c < 128 \<and> c \<notin> {CHR '' '', CHR ''#'', CHR ''?''}" by (simp add: char_code_def)
  then show "\<forall>c \<in> set (path_to_uri path). char_code c < 128 \<and> c \<notin> {CHR '' '', CHR ''#'', CHR ''?''}"
    using encoded_chars by (auto simp: path_to_uri_def)
  show "uri_to_path (path_to_uri (CHR ''/'' # path)) = CHR ''/'' # path" by (rule uri_to_path_of_uri)
qed

theorem uri_reads_back_witness: "uri_to_path (path_to_uri ''/a b/100%.mir'') = ''/a b/100%.mir''"
  using uri_reads_back [of "''a b/100%.mir''"] by simp

end
