(* ===== verification/Lsp_Transport.thy ===== *)
theory Lsp_Transport
  imports Lsp_Uri Diagnostics
begin

text \<open>
  Message framing of the language server (\<^verbatim>\<open>lsp/transport.cpp\<close>). The input stream is the string still to be read;
  reading a message gives its body and the rest of the stream, or the reason it is refused. The notes the server
  writes to its error stream are the constructors of \<open>refusal\<close>; the note on a skipped header line is dropped.
\<close>

subsection \<open>Definitions\<close>

definition MAX_CONTENT_LENGTH :: nat where
  "MAX_CONTENT_LENGTH = 64 * 1024 * 1024"

definition MAX_HEADER_LINE :: nat where
  "MAX_HEADER_LINE = 8 * 1024"

datatype refusal =
  Stream_Closed
| Header_Too_Long
| Malformed_Length string
| Length_Over_Limit nat
| No_Length
| Body_Truncated

abbreviation CR :: char where "CR \<equiv> carriage_return"
abbreviation LF :: char where "LF \<equiv> newline"
abbreviation HT :: char where "HT \<equiv> CHR 0x09"

definition header_name :: "string \<Rightarrow> string" where
  "header_name s = map lower_ascii s"

definition trim :: "string \<Rightarrow> string" where
  "trim s = rev (dropWhile (\<lambda>c. c \<in> {CHR '' '', HT}) (rev (dropWhile (\<lambda>c. c \<in> {CHR '' '', HT}) s)))"

fun read_line_from :: "string \<Rightarrow> string \<Rightarrow> refusal + (string \<times> string)" where
  "read_line_from ln [] = (if ln = [] then Inl Stream_Closed else Inr (strip_cr ln, []))"
| "read_line_from ln (c # cs) =
     (if c = LF then Inr (strip_cr ln, cs)
      else if MAX_HEADER_LINE \<le> length ln then Inl Header_Too_Long
      else read_line_from (ln @ [c]) cs)"

definition read_line :: "string \<Rightarrow> refusal + (string \<times> string)" where
  "read_line s = read_line_from [] s"

text \<open>
  \<^verbatim>\<open>std::stoul\<close> in base ten: white space, a sign, at least one digit, the longest run of digits; what follows is ignored, a
  negative number is taken modulo \<open>2 ^ 64\<close>, and a number that does not fit throws.
\<close>

definition is_space :: "char \<Rightarrow> bool" where
  "is_space c \<longleftrightarrow> c = CHR '' '' \<or> 9 \<le> char_code c \<and> char_code c \<le> 13"

definition is_decimal :: "char \<Rightarrow> bool" where
  "is_decimal c \<longleftrightarrow> 48 \<le> char_code c \<and> char_code c < 58"

definition stoul :: "string \<Rightarrow> nat option" where
  "stoul s =
     (let t = dropWhile is_space s;
          negative = (t \<noteq> [] \<and> hd t = CHR ''-'');
          u = (if t \<noteq> [] \<and> hd t \<in> {CHR ''-'', CHR ''+''} then tl t else t);
          ds = takeWhile is_decimal u;
          n = decimal_value ds
      in if ds = [] \<or> 2 ^ 64 \<le> n then None
         else Some (if negative then (2 ^ 64 - n) mod 2 ^ 64 else n))"

text \<open>One header line: the content length so far, after the line.\<close>

definition header_line :: "string \<Rightarrow> nat option \<Rightarrow> refusal + nat option" where
  "header_line ln clen =
     (if CHR '':'' \<notin> set ln then Inr clen
      else
        let name = header_name (takeWhile (\<lambda>c. c \<noteq> CHR '':'') ln);
            value = trim (tl (dropWhile (\<lambda>c. c \<noteq> CHR '':'') ln))
        in if name = ''content-length'' then
             (case stoul value of
                None \<Rightarrow> Inl (Malformed_Length value)
              | Some n \<Rightarrow> if MAX_CONTENT_LENGTH < n then Inl (Length_Over_Limit n) else Inr (Some n))
           else Inr clen)"

lemma read_line_from_shorter: "read_line_from ln s = Inr (l, r) \<Longrightarrow> length r < length s + length ln"
proof (induction ln s rule: read_line_from.induct)
  case (2 ln c cs)
  then show ?case by (auto split: if_splits)
qed (auto split: if_splits)

lemma read_line_shorter: "read_line s = Inr (l, r) \<Longrightarrow> length r < length s"
  using read_line_from_shorter [of "[]" s l r] by (simp add: read_line_def)

function read_headers :: "nat option \<Rightarrow> string \<Rightarrow> refusal + (nat option \<times> string)" where
  "read_headers clen s =
     (case read_line s of
        Inl e \<Rightarrow> Inl e
      | Inr (ln, r) \<Rightarrow>
          if ln = [] then Inr (clen, r)
          else (case header_line ln clen of Inl e \<Rightarrow> Inl e | Inr clen' \<Rightarrow> read_headers clen' r))"
  by auto
termination
  by (relation "measure (\<lambda>(clen, s). length s)") (auto simp: read_line_shorter)

declare read_headers.simps [simp del]

definition read_body :: "nat \<Rightarrow> string \<Rightarrow> refusal + (string \<times> string)" where
  "read_body n s = (if length s < n then Inl Body_Truncated else Inr (take n s, drop n s))"

definition read_message :: "string \<Rightarrow> refusal + (string \<times> string)" where
  "read_message s =
     (case read_headers None s of
        Inl e \<Rightarrow> Inl e
      | Inr (None, r) \<Rightarrow> Inl No_Length
      | Inr (Some n, r) \<Rightarrow> read_body n r)"

definition write_message :: "string \<Rightarrow> string" where
  "write_message body = ''Content-Length: '' @ show_nat (length body) @ [CR, LF, CR, LF] @ body"

subsection \<open>Frames read back\<close>

text \<open>A header line the reader passes over.\<close>

definition ignored_header :: "string \<Rightarrow> bool" where
  "ignored_header h \<longleftrightarrow> h \<noteq> [] \<and> LF \<notin> set h \<and> length h < MAX_HEADER_LINE \<and>
     (CHR '':'' \<in> set h \<longrightarrow> header_name (takeWhile (\<lambda>c. c \<noteq> CHR '':'') h) \<noteq> ''content-length'')"

lemma read_line_from_crlf:
  "LF \<notin> set h \<Longrightarrow> length ln + length h < MAX_HEADER_LINE \<Longrightarrow> read_line_from ln (h @ CR # LF # r) = Inr (ln @ h, r)"
proof (induction h arbitrary: ln)
  case (Cons c h)
  then show ?case using Cons.IH [of "ln @ [c]"] by auto
qed (simp add: strip_cr_def)

lemma read_line_crlf: "LF \<notin> set h \<Longrightarrow> length h < MAX_HEADER_LINE \<Longrightarrow> read_line (h @ CR # LF # r) = Inr (h, r)"
  using read_line_from_crlf [of h "[]" r] by (simp add: read_line_def)

lemma read_headers_step:
  assumes "LF \<notin> set h" "length h < MAX_HEADER_LINE" "h \<noteq> []"
  shows "read_headers clen (h @ CR # LF # r) = (case header_line h clen of Inl e \<Rightarrow> Inl e | Inr clen' \<Rightarrow> read_headers clen' r)"
  by (subst read_headers.simps) (simp add: read_line_crlf [OF assms(1,2)] assms(3))

lemma read_headers_ignored:
  "list_all ignored_header hs \<Longrightarrow> read_headers clen (concat (map (\<lambda>h. h @ [CR, LF]) hs) @ r) = read_headers clen r"
proof (induction hs)
  case (Cons h hs)
  then have h: "LF \<notin> set h" "length h < MAX_HEADER_LINE" "h \<noteq> []" by (simp_all add: ignored_header_def)
  have "header_line h clen = Inr clen" using Cons.prems by (auto simp: header_line_def ignored_header_def Let_def)
  then show ?case using read_headers_step [OF h, of clen "concat (map (\<lambda>h. h @ [CR, LF]) hs) @ r"] Cons by simp
qed simp

lemma show_nat_length: "n < 10 ^ k \<Longrightarrow> 0 < k \<Longrightarrow> length (show_nat n) \<le> k"
  unfolding show_nat_def
proof (induction k arbitrary: n)
  case (Suc k)
  show ?case
  proof (cases "n < 10")
    case True
    then show ?thesis by (subst show_base.simps) simp
  next
    case False
    then have "0 < k" using Suc.prems by (cases k) auto
    moreover have "n div 10 < 10 ^ k" using Suc.prems(1) by (simp add: less_mult_imp_div_less mult.commute)
    ultimately show ?thesis using Suc.IH [of "n div 10"] False by (subst show_base.simps) simp
  qed
qed simp

lemma show_nat_not_Nil: "show_nat n \<noteq> []"
  unfolding show_nat_def by (subst show_base.simps) simp

lemma show_nat_decimal: "c \<in> set (show_nat n) \<Longrightarrow> is_decimal c"
  using show_nat_digits [of c n] by (simp add: is_decimal_def char_code_def)

lemma stoul_show_nat:
  assumes "n < 2 ^ 64"
  shows "stoul (show_nat n) = Some n"
proof -
  have d: "is_decimal (hd (show_nat n))" by (rule show_nat_decimal [OF hd_in_set [OF show_nat_not_Nil]])
  then have "\<not> is_space (hd (show_nat n))" "hd (show_nat n) \<notin> {CHR ''-'', CHR ''+''}"
    by (auto simp: is_space_def is_decimal_def char_code_def)
  moreover from this have "dropWhile is_space (show_nat n) = show_nat n" by (cases "show_nat n") simp_all
  moreover have "takeWhile is_decimal (show_nat n) = show_nat n" using show_nat_decimal by (simp add: takeWhile_eq_all_conv)
  ultimately show ?thesis using assms show_nat_not_Nil by (simp add: stoul_def Let_def del: takeWhile_eq_all_conv)
qed

lemma trim_show_nat: "trim (CHR '' '' # show_nat n) = show_nat n"
proof -
  let ?b = "\<lambda>c. c \<in> {CHR '' '', HT}"
  have "\<not> ?b c" if "c \<in> set (show_nat n)" for c
    using show_nat_decimal [OF that] by (auto simp: is_decimal_def char_code_def)
  then have "dropWhile ?b (show_nat n) = show_nat n" "dropWhile ?b (rev (show_nat n)) = rev (show_nat n)"
    using show_nat_not_Nil [of n] by (simp_all add: dropWhile_eq_self_iff hd_rev)
  then show ?thesis by (simp add: trim_def)
qed

lemma header_line_length:
  assumes "n < 2 ^ 64"
  shows "header_line (''Content-Length: '' @ show_nat n) clen = (if MAX_CONTENT_LENGTH < n then Inl (Length_Over_Limit n) else Inr (Some n))"
proof -
  have "header_name ''Content-Length'' = ''content-length''" by code_simp
  then show ?thesis using trim_show_nat [of n] stoul_show_nat [OF assms] by (simp add: header_line_def)
qed

text \<open>
  A written message is read back with the rest of the stream, whatever other header lines come before its
  own, if the body is within the limit; a longer body is refused before it is read.
\<close>

theorem frame_reads_back:
  assumes "list_all ignored_header hs" and "length body < 2 ^ 64"
  shows "read_message (concat (map (\<lambda>h. h @ [CR, LF]) hs) @ write_message body @ rest) =
    (if MAX_CONTENT_LENGTH < length body then Inl (Length_Over_Limit (length body)) else Inr (body, rest))"
proof -
  let ?h = "''Content-Length: '' @ show_nat (length body)"
  have d: "LF \<notin> set (show_nat (length body))"
    using show_nat_decimal [of LF] by (auto simp: is_decimal_def char_code_def)
  have "length body < 10 ^ 20" using assms(2) by simp
  then have "length (show_nat (length body)) \<le> 20" by (rule show_nat_length) simp
  then have h: "LF \<notin> set ?h" "length ?h < MAX_HEADER_LINE" "?h \<noteq> []" using d by (simp_all add: MAX_HEADER_LINE_def)
  have e: "read_headers clen (CR # LF # r) = Inr (clen, r)" for clen r
    using read_line_crlf [of "[]" r] by (subst read_headers.simps) (simp add: MAX_HEADER_LINE_def)
  have "read_headers None (concat (map (\<lambda>h. h @ [CR, LF]) hs) @ write_message body @ rest)
      = read_headers None (?h @ CR # LF # CR # LF # body @ rest)"
    using read_headers_ignored [OF assms(1)] by (simp add: write_message_def)
  also have "\<dots> = (if MAX_CONTENT_LENGTH < length body then Inl (Length_Over_Limit (length body)) else Inr (Some (length body), body @ rest))"
    unfolding read_headers_step [OF h] header_line_length [OF assms(2)] by (simp add: e)
  finally show ?thesis by (simp add: read_message_def read_body_def)
qed

theorem frame_reads_back_witness:
  "read_message (''Content-Type: json'' @ [CR, LF] @ write_message ''{}'' @ ''X'') = Inr (''{}'', ''X'')"
  using frame_reads_back [of "[''Content-Type: json'']" "''{}''" "''X''"]
  by (simp add: ignored_header_def MAX_HEADER_LINE_def MAX_CONTENT_LENGTH_def header_name_def)

lemma read_line_from_split: "read_line_from ln s = Inr (l, r) \<Longrightarrow> \<exists>p. s = p @ r"
proof (induction ln s rule: read_line_from.induct)
  case (2 ln c cs)
  then show ?case by (auto split: if_splits intro: exI [of _ "[c]"] exI [of _ "c # p" for p])
qed (auto split: if_splits)

lemma header_line_bound:
  assumes "header_line ln clen = Inr clen'"
  shows "clen' = clen \<or> (\<exists>n. clen' = Some n \<and> n \<le> MAX_CONTENT_LENGTH)"
proof -
  define v where "v = trim (tl (dropWhile (\<lambda>c. c \<noteq> CHR '':'') ln))"
  define nm where "nm = header_name (takeWhile (\<lambda>c. c \<noteq> CHR '':'') ln)"
  have "header_line ln clen = (if CHR '':'' \<notin> set ln then Inr clen
      else if nm = ''content-length'' then
        (case stoul v of None \<Rightarrow> Inl (Malformed_Length v)
         | Some n \<Rightarrow> if MAX_CONTENT_LENGTH < n then Inl (Length_Over_Limit n) else Inr (Some n))
      else Inr clen)"
    by (simp only: header_line_def Let_def v_def nm_def)
  with assms have "clen' = clen \<or> (case stoul v of None \<Rightarrow> False | Some n \<Rightarrow> clen' = Some n \<and> n \<le> MAX_CONTENT_LENGTH)"
    by (simp split: if_splits option.splits)
  then show ?thesis by (auto split: option.splits)
qed

lemma read_headers_split:
  "read_headers clen s = Inr (clen', r) \<Longrightarrow> \<forall>n. clen = Some n \<longrightarrow> n \<le> MAX_CONTENT_LENGTH \<Longrightarrow>
     (\<exists>p. s = p @ r) \<and> (\<forall>n. clen' = Some n \<longrightarrow> n \<le> MAX_CONTENT_LENGTH)"
proof (induction clen s rule: read_headers.induct)
  case (1 clen s)
  note eq = "1.prems"(1) [unfolded read_headers.simps [of clen s]]
  obtain ln r1 where l: "read_line s = Inr (ln, r1)" using eq by (cases "read_line s") auto
  obtain p where p: "s = p @ r1" using read_line_from_split [OF l [unfolded read_line_def]] by blast
  show ?case
  proof (cases "ln = []")
    case True
    then have "clen' = clen" "r = r1" using eq l by simp_all
    then show ?thesis using "1.prems"(2) p by blast
  next
    case False
    obtain clen1 where h: "header_line ln clen = Inr clen1" "read_headers clen1 r1 = Inr (clen', r)"
      using eq l False by (cases "header_line ln clen") auto
    have "\<forall>n. clen1 = Some n \<longrightarrow> n \<le> MAX_CONTENT_LENGTH"
      using header_line_bound [OF h(1)] "1.prems"(2) by auto
    then obtain q where "r1 = q @ r" "\<forall>n. clen' = Some n \<longrightarrow> n \<le> MAX_CONTENT_LENGTH" using "1.IH" [OF l refl False h] by blast
    then show ?thesis using p by (intro conjI exI [of _ "p @ q"]) simp_all
  qed
qed

text \<open>
  C23: Whatever the client sends, a message that is accepted has a body within the limit and is a piece of the
  stream; what follows it is left for the next read.
\<close>

theorem accepted_message_bounds:
  assumes "read_message s = Inr (body, rest)"
  shows "length body \<le> MAX_CONTENT_LENGTH \<and> (\<exists>header. s = header @ body @ rest)"
proof -
  obtain n r where h: "read_headers None s = Inr (Some n, r)" "read_body n r = Inr (body, rest)"
    using assms by (auto simp: read_message_def split: sum.splits option.splits prod.splits)
  obtain p where "s = p @ r" "n \<le> MAX_CONTENT_LENGTH" using read_headers_split [OF h(1)] by auto
  moreover have "body = take n r" "rest = drop n r" "n \<le> length r" using h(2) by (simp_all add: read_body_def split: if_splits)
  ultimately show ?thesis by (intro conjI exI [of _ p]) simp_all
qed

theorem accepted_message_bounds_witness:
  "\<exists>header. write_message ''{}'' = header @ ''{}'' @ []"
  using accepted_message_bounds [of "write_message ''{}''" "''{}''" "[]"] frame_reads_back [of "[]" "''{}''" "[]"]
  by (simp add: MAX_CONTENT_LENGTH_def)

end
