(* ===== verification/Lsp_Documents.thy ===== *)
theory Lsp_Documents
  imports Lsp_Uri Diagnostics "HOL-Library.AList" "HOL-Library.List_Lexorder" "HOL-Library.Char_ord"
begin

text \<open>
  The document store of the language server (\<^verbatim>\<open>lsp/analysis.cpp\<close>, class \<^verbatim>\<open>DocumentStore\<close>): the open buffers, the
  cached analyses keyed by module directory, the index from every directory of a cached import closure to the
  analyses that cover it, and the files with published diagnostics.

  The compiler pipeline behind \<^verbatim>\<open>analyse\<close> and the file system are the parameter \<open>front_end\<close>: an analysis reads the
  files on disk and the open buffers, and either throws (\<open>None\<close>) or gives a result with the directories of its
  import closure, its diagnostics and the source texts it saw. Unordered maps are association lists in their
  iteration order; ordered sets are sorted lists.
\<close>

subsection \<open>Data\<close>

type_synonym file_texts = "string \<rightharpoonup> string"

record 'r front_end =
  analyse :: "file_texts \<Rightarrow> string \<Rightarrow> file_texts \<Rightarrow> 'r option"
  modules_of :: "'r \<Rightarrow> string list"
  diagnostics_of :: "'r \<Rightarrow> diagnostic list"
  sources_of :: "'r \<Rightarrow> source_manager"
  canonicalize :: "string \<Rightarrow> string"

record 'r cached_bundle =
  bundle_result :: 'r
  last_access :: nat

record 'r document_store =
  open_texts :: "(string \<times> string) list"
  module_results :: "(string \<times> 'r cached_bundle) list"
  bundle_of_dir :: "(string \<times> string list) list"
  last_published :: "string list"
  access_clock :: nat

datatype store_error = Out_Of_Range | Analysis_Threw | Dangling_Reference

definition MAX_CACHED_MODULES :: nat where
  "MAX_CACHED_MODULES = 32"

definition DocumentStore :: "'r document_store" where
  "DocumentStore = \<lparr>open_texts = [], module_results = [], bundle_of_dir = [], last_published = [], access_clock = 0\<rparr>"

text \<open>\<^verbatim>\<open>std::filesystem::path::parent_path\<close> on POSIX paths.\<close>

definition parent_path :: "string \<Rightarrow> string" where
  "parent_path p =
     (if list_all (\<lambda>c. c = CHR ''/'') p then p
      else let up = rev (dropWhile (\<lambda>c. c \<noteq> CHR ''/'') (rev p));
               stem = rev (dropWhile (\<lambda>c. c = CHR ''/'') (rev up))
           in if up \<noteq> [] \<and> stem = [] then ''/'' else stem)"

text \<open>The pre-increment of the 64-bit clock.\<close>

definition tick :: "'r document_store \<Rightarrow> nat" where
  "tick st = (access_clock st + 1) mod 2 ^ 64"

subsection \<open>The index\<close>

definition index_dir :: "string \<Rightarrow> string \<Rightarrow> (string \<times> string list) list \<Rightarrow> (string \<times> string list) list" where
  "index_dir key dir m = AList.update dir (insort_insert key (case map_of m dir of None \<Rightarrow> [] | Some ks \<Rightarrow> ks)) m"

definition unindex_dir :: "string \<Rightarrow> string \<Rightarrow> (string \<times> string list) list \<Rightarrow> (string \<times> string list) list" where
  "unindex_dir key dir m =
     (case map_of m dir of None \<Rightarrow> m
      | Some ks \<Rightarrow> let ks' = removeAll key ks in if ks' = [] then AList.delete dir m else AList.update dir ks' m)"

definition index_bundle :: "'r front_end \<Rightarrow> string \<Rightarrow> 'r document_store \<Rightarrow> 'r document_store" where
  "index_bundle fe key st =
     (case map_of (module_results st) key of None \<Rightarrow> st
      | Some b \<Rightarrow> st\<lparr>bundle_of_dir := fold (index_dir key) (modules_of fe (bundle_result b)) (bundle_of_dir st)\<rparr>)"

definition unindex_bundle :: "'r front_end \<Rightarrow> string \<Rightarrow> 'r document_store \<Rightarrow> 'r document_store" where
  "unindex_bundle fe key st =
     (case map_of (module_results st) key of None \<Rightarrow> st
      | Some b \<Rightarrow> st\<lparr>bundle_of_dir := fold (unindex_dir key) (modules_of fe (bundle_result b)) (bundle_of_dir st)\<rparr>)"

text \<open>The pair of calls every eviction makes.\<close>

definition erase_bundle :: "'r front_end \<Rightarrow> string \<Rightarrow> 'r document_store \<Rightarrow> 'r document_store" where
  "erase_bundle fe key st =
     (let st = unindex_bundle fe key st in st\<lparr>module_results := AList.delete key (module_results st)\<rparr>)"

definition invalidate :: "'r front_end \<Rightarrow> string \<Rightarrow> 'r document_store \<Rightarrow> 'r document_store" where
  "invalidate fe canonical_path st =
     (case map_of (bundle_of_dir st) (parent_path canonical_path) of None \<Rightarrow> st
      | Some keys \<Rightarrow> fold (erase_bundle fe) keys st)"

definition open_dirs :: "'r document_store \<Rightarrow> string list" where
  "open_dirs st = map (\<lambda>(path, _). parent_path path) (open_texts st)"

definition evict_unreferenced_bundles :: "'r front_end \<Rightarrow> 'r document_store \<Rightarrow> 'r document_store" where
  "evict_unreferenced_bundles fe st =
     (let dirs = open_dirs st in
      fold (\<lambda>(key, b) st. if list_ex (\<lambda>dir. dir \<in> set (modules_of fe (bundle_result b))) dirs then st
        else erase_bundle fe key st) (module_results st) st)"

definition oldest_bundle :: "(string \<times> 'r cached_bundle) list \<Rightarrow> string \<times> 'r cached_bundle" where
  "oldest_bundle rs = fold (\<lambda>it oldest. if last_access (snd it) < last_access (snd oldest) then it else oldest) rs (hd rs)"

definition evict_lru_if_over_capacity :: "'r front_end \<Rightarrow> 'r document_store \<Rightarrow> 'r document_store" where
  "evict_lru_if_over_capacity fe st =
     (if length (module_results st) \<le> MAX_CACHED_MODULES then st
      else erase_bundle fe (fst (oldest_bundle (module_results st))) st)"

subsection \<open>Operations\<close>

definition open_document :: "'r front_end \<Rightarrow> string \<Rightarrow> string \<Rightarrow> 'r document_store \<Rightarrow> 'r document_store" where
  "open_document fe path content st = invalidate fe path (st\<lparr>open_texts := AList.update path content (open_texts st)\<rparr>)"

definition update_document :: "'r front_end \<Rightarrow> string \<Rightarrow> string \<Rightarrow> 'r document_store \<Rightarrow> 'r document_store" where
  "update_document fe path content st = invalidate fe path (st\<lparr>open_texts := AList.update path content (open_texts st)\<rparr>)"

definition close_document :: "'r front_end \<Rightarrow> string \<Rightarrow> 'r document_store \<Rightarrow> 'r document_store" where
  "close_document fe path st =
     evict_unreferenced_bundles fe (invalidate fe path (st\<lparr>open_texts := AList.delete path (open_texts st)\<rparr>))"

definition prune_stale_diag_tracking :: "'r document_store \<Rightarrow> 'r document_store" where
  "prune_stale_diag_tracking st =
     st\<lparr>last_published := filter (\<lambda>f. map_of (bundle_of_dir st) (parent_path f) \<noteq> None \<or> parent_path f \<in> set (open_dirs st))
          (last_published st)\<rparr>"

definition invalidate_external :: "'r front_end \<Rightarrow> string \<Rightarrow> 'r document_store \<Rightarrow> 'r document_store" where
  "invalidate_external fe path st = invalidate fe path st"

definition open_paths :: "'r document_store \<Rightarrow> string list" where
  "open_paths st = map fst (open_texts st)"

definition text_of :: "'r document_store \<Rightarrow> string \<Rightarrow> string option" where
  "text_of st path = map_of (open_texts st) path"

definition analyse_uncached :: "'r front_end \<Rightarrow> file_texts \<Rightarrow> string \<Rightarrow> 'r document_store \<Rightarrow> 'r option" where
  "analyse_uncached fe disk dir st = analyse fe disk dir (map_of (open_texts st))"

text \<open>
  The reference that \<^verbatim>\<open>ensure_analysed\<close> returns is the key of the bundle it points into; reading through it when the
  bundle is gone would be undefined, and is \<open>Dangling_Reference\<close> in the callers below.
\<close>

definition ensure_analysed ::
  "'r front_end \<Rightarrow> file_texts \<Rightarrow> string \<Rightarrow> 'r document_store \<Rightarrow> (store_error + string) \<times> 'r document_store" where
  "ensure_analysed fe disk path st =
     (let dir = canonicalize fe (parent_path path) in
      case map_of (bundle_of_dir st) dir of
        Some (key # _) \<Rightarrow>
          (case map_of (module_results st) key of None \<Rightarrow> (Inl Out_Of_Range, st)
           | Some b \<Rightarrow> (Inr key, st\<lparr>access_clock := tick st,
               module_results := AList.update key (b\<lparr>last_access := tick st\<rparr>) (module_results st)\<rparr>))
      | _ \<Rightarrow>
          let st = unindex_bundle fe dir st in
          (case analyse fe disk dir (map_of (open_texts st)) of None \<Rightarrow> (Inl Analysis_Threw, st)
           | Some r \<Rightarrow>
              let st = st\<lparr>access_clock := tick st,
                    module_results := AList.update dir \<lparr>bundle_result = r, last_access = tick st\<rparr> (module_results st)\<rparr>
              in (Inr dir, evict_lru_if_over_capacity fe (index_bundle fe dir st))))"

definition files_that_became_clean ::
  "string list \<Rightarrow> string list \<Rightarrow> 'r document_store \<Rightarrow> string list \<times> 'r document_store" where
  "files_that_became_clean closure_dirs current_nonempty st =
     (let clean = (\<lambda>f. parent_path f \<in> set closure_dirs \<and> f \<notin> set current_nonempty)
      in (filter clean (last_published st),
          st\<lparr>last_published := fold insort_insert current_nonempty (filter (\<lambda>f. \<not> clean f) (last_published st))\<rparr>))"

subsection \<open>What the index holds\<close>

definition keys_at :: "(string \<times> string list) list \<Rightarrow> string \<Rightarrow> string set" where
  "keys_at m dir = (case map_of m dir of None \<Rightarrow> {} | Some ks \<Rightarrow> set ks)"

definition no_empty_entry :: "(string \<times> string list) list \<Rightarrow> bool" where
  "no_empty_entry m \<longleftrightarrow> (\<forall>dir. map_of m dir \<noteq> Some [])"

lemma insort_insert_not_Nil: "insort_insert k ks \<noteq> []"
  by (cases ks) (auto simp: insort_insert_key_def)

lemma keys_at_index_dir: "keys_at (index_dir k d m) d' = (if d' = d then insert k (keys_at m d) else keys_at m d')"
  by (auto simp: keys_at_def index_dir_def update_conv' set_insort_insert split: option.splits)

lemma no_empty_index_dir: "no_empty_entry m \<Longrightarrow> no_empty_entry (index_dir k d m)"
  by (auto simp: no_empty_entry_def index_dir_def update_conv' insort_insert_not_Nil)

lemma keys_at_unindex_dir: "keys_at (unindex_dir k d m) d' = (if d' = d then keys_at m d - {k} else keys_at m d')"
  by (auto simp: keys_at_def unindex_dir_def update_conv' delete_conv' Let_def split: option.splits) (metis empty_iff Diff_iff insertE set_empty set_removeAll)

lemma no_empty_unindex_dir: "no_empty_entry m \<Longrightarrow> no_empty_entry (unindex_dir k d m)"
  by (auto simp: no_empty_entry_def unindex_dir_def update_conv' delete_conv' Let_def split: option.splits)

lemma keys_at_index:
  "keys_at (fold (index_dir k) ds m) d = (if d \<in> set ds then insert k (keys_at m d) else keys_at m d)"
  by (induction ds arbitrary: m) (auto simp: keys_at_index_dir)

lemma keys_at_unindex:
  "keys_at (fold (unindex_dir k) ds m) d = (if d \<in> set ds then keys_at m d - {k} else keys_at m d)"
  by (induction ds arbitrary: m) (auto simp: keys_at_unindex_dir)

lemma no_empty_folds:
  "no_empty_entry m \<Longrightarrow> no_empty_entry (fold (index_dir k) ds m)"
  "no_empty_entry m \<Longrightarrow> no_empty_entry (fold (unindex_dir k) ds m)"
  by (induction ds arbitrary: m) (simp_all add: no_empty_index_dir no_empty_unindex_dir)

abbreviation indexed :: "'r document_store \<Rightarrow> string \<Rightarrow> string set" where
  "indexed st \<equiv> keys_at (bundle_of_dir st)"

abbreviation bundle_at :: "'r document_store \<Rightarrow> string \<Rightarrow> 'r cached_bundle option" where
  "bundle_at st \<equiv> map_of (module_results st)"

text \<open>
  The index only names bundles that are cached and cover the directory, and a bundle it names anywhere it names for
  its whole closure.
\<close>

definition index_ok :: "'r front_end \<Rightarrow> 'r document_store \<Rightarrow> bool" where
  "index_ok fe st \<longleftrightarrow> no_empty_entry (bundle_of_dir st) \<and> distinct (map fst (module_results st)) \<and>
     (\<forall>k d. k \<in> indexed st d \<longrightarrow>
        (\<exists>b. bundle_at st k = Some b \<and> d \<in> set (modules_of fe (bundle_result b)) \<and>
           (\<forall>d' \<in> set (modules_of fe (bundle_result b)). k \<in> indexed st d')))"

lemma index_okD:
  assumes "index_ok fe st" "k \<in> indexed st d"
  obtains b where "bundle_at st k = Some b" "d \<in> set (modules_of fe (bundle_result b))"
    "\<And>d'. d' \<in> set (modules_of fe (bundle_result b)) \<Longrightarrow> k \<in> indexed st d'"
  using assms unfolding index_ok_def by blast

lemma unindex_bundle_fields [simp]:
  "open_texts (unindex_bundle fe k st) = open_texts st" "module_results (unindex_bundle fe k st) = module_results st"
  "last_published (unindex_bundle fe k st) = last_published st" "access_clock (unindex_bundle fe k st) = access_clock st"
  by (simp_all add: unindex_bundle_def split: option.splits)

lemma indexed_unindex_bundle:
  assumes "index_ok fe st"
  shows "indexed (unindex_bundle fe k st) d = indexed st d - {k}"
proof (cases "bundle_at st k")
  case None
  then have "k \<notin> indexed st d" using index_okD [OF assms, of k d] by auto
  then show ?thesis using None by (simp add: unindex_bundle_def)
next
  case (Some b)
  have "k \<notin> indexed st d" if "d \<notin> set (modules_of fe (bundle_result b))"
    using index_okD [OF assms, of k d] that Some by auto
  then show ?thesis using Some by (auto simp: unindex_bundle_def keys_at_unindex)
qed

lemma index_ok_unindex:
  assumes "index_ok fe st"
  shows "index_ok fe (unindex_bundle fe k st)"
proof -
  have "no_empty_entry (bundle_of_dir (unindex_bundle fe k st))"
    using assms by (auto simp: index_ok_def unindex_bundle_def no_empty_folds split: option.splits)
  then show ?thesis using assms unfolding index_ok_def indexed_unindex_bundle [OF assms] unindex_bundle_fields by blast
qed

lemma erase_bundle_fields [simp]:
  "open_texts (erase_bundle fe k st) = open_texts st" "last_published (erase_bundle fe k st) = last_published st"
  "access_clock (erase_bundle fe k st) = access_clock st"
  "module_results (erase_bundle fe k st) = AList.delete k (module_results st)"
  "bundle_of_dir (erase_bundle fe k st) = bundle_of_dir (unindex_bundle fe k st)"
  by (simp_all add: erase_bundle_def Let_def)

text \<open>Everything an eviction does: it takes bundles away, and those that stay keep their place in the index.\<close>

definition shrinks :: "'r document_store \<Rightarrow> 'r document_store \<Rightarrow> bool" where
  "shrinks st st' \<longleftrightarrow> open_texts st' = open_texts st \<and> last_published st' = last_published st \<and>
     access_clock st' = access_clock st \<and> length (module_results st') \<le> length (module_results st) \<and>
     bundle_at st' \<subseteq>\<^sub>m bundle_at st \<and> (\<forall>d. indexed st' d \<subseteq> indexed st d)"

lemma shrinks_refl: "shrinks st st"
  by (simp add: shrinks_def)

lemma shrinks_trans: "shrinks a b \<Longrightarrow> shrinks b c \<Longrightarrow> shrinks a c"
  unfolding shrinks_def by (auto intro: map_le_trans order_trans)

lemma erase_bundle_shrinks:
  assumes "index_ok fe st"
  shows "index_ok fe (erase_bundle fe k st)" "shrinks st (erase_bundle fe k st)"
    "indexed (erase_bundle fe k st) d = indexed st d - {k}"
proof -
  note un = index_ok_unindex [OF assms, of k] and ix = indexed_unindex_bundle [OF assms]
  show i: "indexed (erase_bundle fe k st) d = indexed st d - {k}" for d by (simp add: ix)
  show "index_ok fe (erase_bundle fe k st)"
    unfolding index_ok_def
  proof (intro conjI allI impI)
    show "no_empty_entry (bundle_of_dir (erase_bundle fe k st))" using un by (simp add: index_ok_def)
    show "distinct (map fst (module_results (erase_bundle fe k st)))" using assms by (simp add: index_ok_def distinct_delete)
    fix k' d assume k': "k' \<in> indexed (erase_bundle fe k st) d"
    then have "k' \<in> indexed st d" "k' \<noteq> k" unfolding i by simp_all
    then show "\<exists>b. bundle_at (erase_bundle fe k st) k' = Some b \<and> d \<in> set (modules_of fe (bundle_result b)) \<and>
        (\<forall>d'\<in>set (modules_of fe (bundle_result b)). k' \<in> indexed (erase_bundle fe k st) d')"
      using index_okD [OF assms, of k' d] unfolding i by (metis Diff_iff erase_bundle_fields(4) map_of_delete singletonD)
  qed
  show "shrinks st (erase_bundle fe k st)"
    by (auto simp: shrinks_def ix length_delete_le delete_conv' map_le_def)
qed

lemma fold_shrinks:
  assumes step: "\<And>x st. index_ok fe st \<Longrightarrow> index_ok fe (f x st) \<and> shrinks st (f x st)"
  shows "index_ok fe st \<Longrightarrow> index_ok fe (fold f xs st) \<and> shrinks st (fold f xs st)"
proof (induction xs arbitrary: st)
  case (Cons x xs)
  then have "index_ok fe (f x st)" "shrinks st (f x st)" using step by blast+
  with Cons.IH [of "f x st"] show ?case using shrinks_trans [of st "f x st" "fold f xs (f x st)"] by simp
qed (simp add: shrinks_refl)

lemma erase_bundles_shrinks:
  assumes "index_ok fe st"
  shows "index_ok fe (fold (erase_bundle fe) ks st) \<and> shrinks st (fold (erase_bundle fe) ks st)"
    "indexed (fold (erase_bundle fe) ks st) d = indexed st d - set ks"
proof -
  show "index_ok fe (fold (erase_bundle fe) ks st) \<and> shrinks st (fold (erase_bundle fe) ks st)"
    using erase_bundle_shrinks by (intro fold_shrinks [OF _ assms]) blast
  show "indexed (fold (erase_bundle fe) ks st) d = indexed st d - set ks"
    using assms
  proof (induction ks arbitrary: st)
    case (Cons k ks)
    have "indexed (fold (erase_bundle fe) ks (erase_bundle fe k st)) d = indexed (erase_bundle fe k st) d - set ks"
      by (rule Cons.IH) (rule erase_bundle_shrinks(1) [OF Cons.prems])
    then show ?case unfolding erase_bundle_shrinks(3) [OF Cons.prems] by auto
  qed simp
qed

lemma invalidate_shrinks:
  assumes "index_ok fe st"
  shows "index_ok fe (invalidate fe p st)" "shrinks st (invalidate fe p st)" "indexed (invalidate fe p st) (parent_path p) = {}"
proof -
  have "index_ok fe (invalidate fe p st) \<and> shrinks st (invalidate fe p st) \<and> indexed (invalidate fe p st) (parent_path p) = {}"
  proof (cases "map_of (bundle_of_dir st) (parent_path p)")
    case None
    then show ?thesis using assms by (simp add: invalidate_def shrinks_refl keys_at_def)
  next
    case (Some ks)
    then have "indexed st (parent_path p) - set ks = {}" by (simp add: keys_at_def)
    then show ?thesis using erase_bundles_shrinks [OF assms] Some by (simp add: invalidate_def)
  qed
  then show "index_ok fe (invalidate fe p st)" "shrinks st (invalidate fe p st)" "indexed (invalidate fe p st) (parent_path p) = {}"
    by blast+
qed

lemma evict_unreferenced_shrinks:
  assumes "index_ok fe st"
  shows "index_ok fe (evict_unreferenced_bundles fe st) \<and> shrinks st (evict_unreferenced_bundles fe st)"
  unfolding evict_unreferenced_bundles_def Let_def
  by (rule fold_shrinks [OF _ assms]) (auto simp: shrinks_refl erase_bundle_shrinks(1,2) split: prod.split)

lemma oldest_bundle_least:
  assumes "rs \<noteq> []"
  shows "oldest_bundle rs \<in> set rs" "x \<in> set rs \<Longrightarrow> last_access (snd (oldest_bundle rs)) \<le> last_access (snd x)"
proof -
  define f where "f = (\<lambda>(it :: string \<times> 'a cached_bundle) o'. if last_access (snd it) < last_access (snd o') then it else o')"
  have "fold f ys y \<in> insert y (set ys) \<and> (\<forall>x \<in> insert y (set ys). last_access (snd (fold f ys y)) \<le> last_access (snd x))" for ys y
  proof (induction ys arbitrary: y)
    case (Cons z ys)
    have "f z y \<in> {z, y}" "last_access (snd (f z y)) \<le> last_access (snd z)" "last_access (snd (f z y)) \<le> last_access (snd y)"
      by (simp_all add: f_def)
    then show ?case using Cons.IH [of "f z y"] by auto
  qed simp
  from this [of rs "hd rs"] show "oldest_bundle rs \<in> set rs" "x \<in> set rs \<Longrightarrow> last_access (snd (oldest_bundle rs)) \<le> last_access (snd x)"
    using assms unfolding oldest_bundle_def f_def by auto
qed

lemma evict_lru_shrinks:
  assumes "index_ok fe st"
  shows "index_ok fe (evict_lru_if_over_capacity fe st)" "shrinks st (evict_lru_if_over_capacity fe st)"
  using assms erase_bundle_shrinks(1,2) [OF assms] by (auto simp: evict_lru_if_over_capacity_def shrinks_refl)

lemma index_bundle_fields [simp]:
  "open_texts (index_bundle fe k st) = open_texts st" "module_results (index_bundle fe k st) = module_results st"
  "last_published (index_bundle fe k st) = last_published st" "access_clock (index_bundle fe k st) = access_clock st"
  by (simp_all add: index_bundle_def split: option.splits)

lemma index_new_bundle:
  assumes ok: "index_ok fe st" and new: "\<And>d. key \<notin> indexed st d" and b: "bundle_at st key = Some b"
  shows "index_ok fe (index_bundle fe key st)"
    "indexed (index_bundle fe key st) d = (if d \<in> set (modules_of fe (bundle_result b)) then insert key (indexed st d) else indexed st d)"
proof -
  have i: "indexed (index_bundle fe key st) d =
      (if d \<in> set (modules_of fe (bundle_result b)) then insert key (indexed st d) else indexed st d)" for d
    using b by (simp add: index_bundle_def keys_at_index)
  then show "indexed (index_bundle fe key st) d =
      (if d \<in> set (modules_of fe (bundle_result b)) then insert key (indexed st d) else indexed st d)" .
  have "no_empty_entry (bundle_of_dir (index_bundle fe key st))"
    using ok b by (simp add: index_ok_def index_bundle_def no_empty_folds)
  moreover have "\<exists>b. bundle_at st k = Some b \<and> d \<in> set (modules_of fe (bundle_result b)) \<and>
      (\<forall>d'\<in>set (modules_of fe (bundle_result b)). k \<in> indexed (index_bundle fe key st) d')"
    if k: "k \<in> indexed (index_bundle fe key st) d" for k d
  proof (cases "k = key")
    case True
    then have "d \<in> set (modules_of fe (bundle_result b))" using k new i by (auto split: if_splits)
    then show ?thesis using True b i by auto
  next
    case False
    then have "k \<in> indexed st d" using k i by (auto split: if_splits)
    then show ?thesis using index_okD [OF ok] i by (metis insertI2)
  qed
  ultimately show "index_ok fe (index_bundle fe key st)" using ok unfolding index_ok_def index_bundle_fields by blast
qed

definition store_ok :: "'r front_end \<Rightarrow> 'r document_store \<Rightarrow> bool" where
  "store_ok fe st \<longleftrightarrow> index_ok fe st \<and> length (module_results st) \<le> MAX_CACHED_MODULES \<and>
     (\<forall>k b. bundle_at st k = Some b \<longrightarrow> last_access b \<le> access_clock st)"

lemma shrinks_ok: "store_ok fe st \<Longrightarrow> index_ok fe st' \<Longrightarrow> shrinks st st' \<Longrightarrow> store_ok fe st'"
  by (auto simp: store_ok_def shrinks_def map_le_def dom_def)

lemma shrinks_bundle: "shrinks st st' \<Longrightarrow> bundle_at st' k = Some b \<Longrightarrow> bundle_at st k = Some b"
  by (auto simp: shrinks_def map_le_def dom_def)

text \<open>
  A result is current when the analysis gave it on files and buffers that agree with the present ones wherever its import
  closure reaches. Nothing is assumed of the analysis itself.
\<close>

definition current_result :: "'r front_end \<Rightarrow> file_texts \<Rightarrow> file_texts \<Rightarrow> string \<Rightarrow> 'r \<Rightarrow> bool" where
  "current_result fe disk texts key r \<longleftrightarrow> (\<exists>disk0 texts0. analyse fe disk0 key texts0 = Some r \<and>
     (\<forall>p. parent_path p \<in> set (modules_of fe r) \<longrightarrow> disk0 p = disk p \<and> texts0 p = texts p))"

lemma current_now: "analyse fe disk key texts = Some r \<Longrightarrow> current_result fe disk texts key r"
  unfolding current_result_def by blast

lemma current_change:
  assumes "current_result fe disk texts key r" "\<And>p. parent_path p \<in> set (modules_of fe r) \<Longrightarrow> disk' p = disk p \<and> texts' p = texts p"
  shows "current_result fe disk' texts' key r"
  using assms unfolding current_result_def by metis

definition fresh :: "'r front_end \<Rightarrow> file_texts \<Rightarrow> 'r document_store \<Rightarrow> bool" where
  "fresh fe disk st \<longleftrightarrow> (\<forall>k d b. k \<in> indexed st d \<longrightarrow> bundle_at st k = Some b \<longrightarrow>
     current_result fe disk (map_of (open_texts st)) k (bundle_result b))"

lemma shrinks_fresh: "fresh fe disk st \<Longrightarrow> shrinks st st' \<Longrightarrow> fresh fe disk st'"
  unfolding fresh_def shrinks_def by (metis (no_types, lifting) domI map_le_def subsetD)

text \<open>A change at one path, followed by the invalidation of its directory, keeps every remaining analysis fresh.\<close>

lemma invalidate_fresh:
  assumes f: "fresh fe disk st0" and ok: "index_ok fe st0"
    and st: "module_results st = module_results st0" "bundle_of_dir st = bundle_of_dir st0"
    and texts: "\<And>q. q \<noteq> p \<Longrightarrow> disk' q = disk q \<and> map_of (open_texts st) q = map_of (open_texts st0) q"
  shows "index_ok fe st" "fresh fe disk' (invalidate fe p st)"
proof -
  show ok': "index_ok fe st" using ok unfolding index_ok_def st .
  note inv = invalidate_shrinks [OF ok', of p]
  have o: "open_texts (invalidate fe p st) = open_texts st" using inv(2) by (simp add: shrinks_def)
  show "fresh fe disk' (invalidate fe p st)"
    unfolding fresh_def
  proof (intro allI impI)
    fix k d b assume k: "k \<in> indexed (invalidate fe p st) d" and b: "bundle_at (invalidate fe p st) k = Some b"
    have "k \<in> indexed st0 d" "bundle_at st0 k = Some b" using k shrinks_bundle [OF inv(2) b] inv(2) st by (auto simp: shrinks_def)
    then have a: "current_result fe disk (map_of (open_texts st0)) k (bundle_result b)" using f unfolding fresh_def by blast
    have "parent_path p \<notin> set (modules_of fe (bundle_result b))"
      using index_okD [OF inv(1) k] b inv(3) by (metis empty_iff option.inject)
    then show "current_result fe disk' (map_of (open_texts (invalidate fe p st))) k (bundle_result b)"
      unfolding o by (intro current_change [OF a]) (metis texts)
  qed
qed

subsection \<open>Analysis on demand\<close>

lemma evict_lru_keeps_newest:
  assumes ok: "index_ok fe st" and len: "length (module_results st) \<le> Suc MAX_CACHED_MODULES"
    and new: "bundle_at st key = Some b" and older: "\<And>k b'. k \<noteq> key \<Longrightarrow> bundle_at st k = Some b' \<Longrightarrow> last_access b' < last_access b"
  shows "bundle_at (evict_lru_if_over_capacity fe st) key = Some b"
    "length (module_results (evict_lru_if_over_capacity fe st)) \<le> MAX_CACHED_MODULES"
proof -
  let ?rs = "module_results st"
  have dist: "distinct (map fst ?rs)" using ok by (simp add: index_ok_def)
  have "bundle_at (evict_lru_if_over_capacity fe st) key = Some b \<and> length (module_results (evict_lru_if_over_capacity fe st)) \<le> MAX_CACHED_MODULES"
  proof (cases "length ?rs \<le> MAX_CACHED_MODULES")
    case True
    then show ?thesis using new by (simp add: evict_lru_if_over_capacity_def)
  next
    case False
    then have two: "2 \<le> length ?rs" by (simp add: MAX_CACHED_MODULES_def)
    then have ne: "?rs \<noteq> []" by auto
    define o' where "o' = oldest_bundle ?rs"
    have o: "o' \<in> set ?rs" "\<And>x. x \<in> set ?rs \<Longrightarrow> last_access (snd o') \<le> last_access (snd x)"
      using oldest_bundle_least [OF ne] unfolding o'_def by simp_all
    have at: "bundle_at st (fst x) = Some (snd x)" if "x \<in> set ?rs" for x
      using that dist by (metis map_of_eq_Some_iff prod.collapse)
    obtain y z zs where rs: "?rs = y # z # zs" using two by (cases ?rs; cases "tl ?rs") auto
    then have "fst y \<noteq> fst z" using dist by simp
    then obtain x where x: "x \<in> set ?rs" "fst x \<noteq> key" using rs by (metis list.set_intros)
    have "fst o' \<noteq> key"
    proof
      assume "fst o' = key"
      then have "last_access (snd o') = last_access b" using at [OF o(1)] new by simp
      then show False using o(2) [OF x(1)] older [OF x(2) at [OF x(1)]] by simp
    qed
    moreover have "length (AList.delete (fst o') ?rs) < length ?rs"
      unfolding AList.delete_eq using o(1) by (auto intro: length_filter_less)
    ultimately show ?thesis using False len new by (simp add: evict_lru_if_over_capacity_def o'_def)
  qed
  then show "bundle_at (evict_lru_if_over_capacity fe st) key = Some b"
    "length (module_results (evict_lru_if_over_capacity fe st)) \<le> MAX_CACHED_MODULES" by blast+
qed

text \<open>The two paths of \<^verbatim>\<open>ensure_analysed\<close> that return.\<close>

lemma ensure_hit:
  assumes ok: "store_ok fe st" and clock: "access_clock st + 1 < 2 ^ 64"
    and key: "map_of (bundle_of_dir st) (canonicalize fe (parent_path path)) = Some (key # ks)"
  obtains b where "bundle_at st key = Some b" "canonicalize fe (parent_path path) \<in> set (modules_of fe (bundle_result b))"
    "ensure_analysed fe disk path st = (Inr key, st\<lparr>access_clock := access_clock st + 1,
       module_results := AList.update key (b\<lparr>last_access := access_clock st + 1\<rparr>) (module_results st)\<rparr>)"
proof -
  have "key \<in> indexed st (canonicalize fe (parent_path path))" using key by (simp add: keys_at_def)
  then obtain b where "bundle_at st key = Some b" "canonicalize fe (parent_path path) \<in> set (modules_of fe (bundle_result b))"
    using index_okD ok unfolding store_ok_def by metis
  then show thesis using key clock by (intro that [of b]) (simp_all add: ensure_analysed_def tick_def)
qed

lemma touched_bundle:
  assumes ok: "store_ok fe st" and b: "bundle_at st key = Some b"
    and st': "st' = st\<lparr>access_clock := access_clock st + 1,
       module_results := AList.update key (b\<lparr>last_access := access_clock st + 1\<rparr>) (module_results st)\<rparr>"
  shows "store_ok fe st'" "fresh fe disk st \<Longrightarrow> fresh fe disk st'"
proof -
  have k: "key \<in> fst ` set (module_results st)" using b by (metis map_of_eq_None_iff option.distinct(1))
  have "map fst (module_results st') = map fst (module_results st)"
    using k by (simp add: st' update_keys)
  then have len: "length (module_results st') = length (module_results st)" by (metis length_map)
  have at: "bundle_at st' k = (if k = key then Some (b\<lparr>last_access := access_clock st + 1\<rparr>) else bundle_at st k)" for k
    by (simp add: st' update_conv')
  have ix: "indexed st' = indexed st" by (simp add: st')
  have same: "bundle_at st' k = Some b' \<Longrightarrow> \<exists>b0. bundle_at st k = Some b0 \<and> bundle_result b' = bundle_result b0" for k b'
    using b by (auto simp: at split: if_splits)
  have "index_ok fe st'"
    unfolding index_ok_def ix
  proof (intro conjI allI impI)
    show "no_empty_entry (bundle_of_dir st')" "distinct (map fst (module_results st'))"
      using ok by (simp_all add: store_ok_def index_ok_def st' distinct_update)
    fix k d assume "k \<in> indexed st d"
    then obtain b0 where "bundle_at st k = Some b0" "d \<in> set (modules_of fe (bundle_result b0))"
      "\<And>d'. d' \<in> set (modules_of fe (bundle_result b0)) \<Longrightarrow> k \<in> indexed st d'"
      using index_okD ok unfolding store_ok_def by metis
    then show "\<exists>b. bundle_at st' k = Some b \<and> d \<in> set (modules_of fe (bundle_result b)) \<and>
        (\<forall>d'\<in>set (modules_of fe (bundle_result b)). k \<in> indexed st d')"
      using b unfolding at by (cases "k = key") simp_all
  qed
  then show "store_ok fe st'" using ok unfolding store_ok_def len at by (auto simp: st' split: if_splits intro: le_SucI)
  show "fresh fe disk st'" if "fresh fe disk st"
    unfolding fresh_def ix
  proof (intro allI impI)
    fix k d b' assume "k \<in> indexed st d" "bundle_at st' k = Some b'"
    then obtain b0 where "bundle_at st k = Some b0" "bundle_result b' = bundle_result b0" using same by blast
    then show "current_result fe disk (map_of (open_texts st')) k (bundle_result b')"
      using that \<open>k \<in> indexed st d\<close> unfolding fresh_def by (simp add: st') blast
  qed
qed

lemma length_alist_update: "length (AList.update k v xs) \<le> Suc (length xs)"
  by (induction xs) auto

lemma inserted_bundle:
  assumes ok: "store_ok fe st" and new: "\<And>d. dir \<notin> indexed st d"
    and st': "st' = evict_lru_if_over_capacity fe (index_bundle fe dir (st\<lparr>access_clock := access_clock st + 1,
       module_results := AList.update dir \<lparr>bundle_result = r, last_access = access_clock st + 1\<rparr> (module_results st)\<rparr>))"
  shows "store_ok fe st'" "bundle_at st' dir = Some \<lparr>bundle_result = r, last_access = access_clock st + 1\<rparr>"
    "open_texts st' = open_texts st" "last_published st' = last_published st" "access_clock st' = access_clock st + 1"
    "fresh fe disk st \<Longrightarrow> analyse fe disk dir (map_of (open_texts st)) = Some r \<Longrightarrow> fresh fe disk st'"
proof -
  define b where "b = \<lparr>bundle_result = r, last_access = access_clock st + 1\<rparr>"
  define st1 where "st1 = st\<lparr>access_clock := access_clock st + 1, module_results := AList.update dir b (module_results st)\<rparr>"
  define st2 where "st2 = index_bundle fe dir st1"
  have at1: "bundle_at st1 k = (if k = dir then Some b else bundle_at st k)" for k by (simp add: st1_def update_conv')
  have ix1: "indexed st1 = indexed st" by (simp add: st1_def)
  have "index_ok fe st1"
    unfolding index_ok_def ix1
  proof (intro conjI allI impI)
    show "no_empty_entry (bundle_of_dir st1)" "distinct (map fst (module_results st1))"
      using ok by (simp_all add: store_ok_def index_ok_def st1_def distinct_update)
    fix k d assume k: "k \<in> indexed st d"
    then have "k \<noteq> dir" using new by blast
    then show "\<exists>b. bundle_at st1 k = Some b \<and> d \<in> set (modules_of fe (bundle_result b)) \<and>
        (\<forall>d'\<in>set (modules_of fe (bundle_result b)). k \<in> indexed st d')"
      using index_okD [of fe st k d] k ok unfolding store_ok_def at1 by (metis (no_types, lifting))
  qed
  note idx = index_new_bundle [OF this, of dir b]
  have ok2: "index_ok fe st2" and ix2: "\<And>d. indexed st2 d = (if d \<in> set (modules_of fe r) then insert dir (indexed st d) else indexed st d)"
    using idx new by (simp_all add: ix1 at1 st2_def b_def)
  have at2: "bundle_at st2 k = (if k = dir then Some b else bundle_at st k)" for k by (simp add: st2_def at1)
  have len2: "length (module_results st2) \<le> Suc MAX_CACHED_MODULES"
  proof -
    have "length (module_results st2) \<le> Suc (length (module_results st))" by (simp add: st2_def st1_def length_alist_update)
    then show ?thesis using ok by (simp add: store_ok_def)
  qed
  have e: "st' = evict_lru_if_over_capacity fe st2" by (simp add: st' st2_def st1_def b_def)
  have sh: "index_ok fe st'" "shrinks st2 st'" using evict_lru_shrinks [OF ok2] by (simp_all add: e)
  have older: "last_access b' < last_access b" if "k \<noteq> dir" "bundle_at st2 k = Some b'" for k b'
    using ok that by (auto simp: at2 b_def store_ok_def le_imp_less_Suc)
  note lru = evict_lru_keeps_newest [OF ok2 len2, of dir b, OF _ older, folded e]
  show b': "bundle_at st' dir = Some \<lparr>bundle_result = r, last_access = access_clock st + 1\<rparr>"
    using lru(1) by (simp add: at2 b_def)
  show f: "open_texts st' = open_texts st" "last_published st' = last_published st" "access_clock st' = access_clock st + 1"
    using sh(2) by (simp_all add: shrinks_def st2_def st1_def)
  have "last_access b0 \<le> access_clock st + 1" if "bundle_at st' k = Some b0" for k b0
    using shrinks_bundle [OF sh(2) that] ok by (auto simp: at2 b_def store_ok_def intro: le_SucI split: if_splits)
  then show "store_ok fe st'" using sh(1) lru(2) f(3) by (simp add: store_ok_def at2)
  show "fresh fe disk st'" if fr: "fresh fe disk st" and r: "analyse fe disk dir (map_of (open_texts st)) = Some r"
  proof (rule shrinks_fresh [OF _ sh(2)])
    have o2: "open_texts st2 = open_texts st" by (simp add: st2_def st1_def)
    show "fresh fe disk st2"
      unfolding fresh_def o2
    proof (intro allI impI)
      fix k d b0 assume "k \<in> indexed st2 d" "bundle_at st2 k = Some b0"
      then show "current_result fe disk (map_of (open_texts st)) k (bundle_result b0)"
        using current_now [OF r] fr [unfolded fresh_def, rule_format, of k d b0] by (cases "k = dir") (auto simp: ix2 at2 b_def split: if_splits)
    qed
  qed
qed

lemma no_key_after_unindex:
  assumes "store_ok fe st"
  shows "store_ok fe (unindex_bundle fe dir st)" "dir \<notin> indexed (unindex_bundle fe dir st) d"
    "fresh fe disk st \<Longrightarrow> fresh fe disk (unindex_bundle fe dir st)"
proof -
  have ok: "index_ok fe st" using assms by (simp add: store_ok_def)
  show "store_ok fe (unindex_bundle fe dir st)" using assms index_ok_unindex [OF ok, of dir] by (simp add: store_ok_def)
  show "dir \<notin> indexed (unindex_bundle fe dir st) d" by (simp add: indexed_unindex_bundle [OF ok])
  show "fresh fe disk st \<Longrightarrow> fresh fe disk (unindex_bundle fe dir st)"
    unfolding fresh_def indexed_unindex_bundle [OF ok] unindex_bundle_fields by blast
qed

text \<open>What a caller of \<^verbatim>\<open>ensure_analysed\<close> may rely on.\<close>

definition ensured :: "'r front_end \<Rightarrow> file_texts \<Rightarrow> string \<Rightarrow> 'r document_store \<Rightarrow> store_error + string \<Rightarrow> 'r document_store \<Rightarrow> bool" where
  "ensured fe disk path st res st' \<longleftrightarrow>
     store_ok fe st' \<and> open_texts st' = open_texts st \<and> last_published st' = last_published st \<and>
     access_clock st' \<le> access_clock st + 1 \<and> (fresh fe disk st \<longrightarrow> fresh fe disk st') \<and>
     (case res of Inl e \<Rightarrow> e = Analysis_Threw \<and> access_clock st' = access_clock st \<and> analyse fe disk (canonicalize fe (parent_path path)) (map_of (open_texts st)) = None
      | Inr key \<Rightarrow> (\<exists>b. bundle_at st' key = Some b \<and>
          (key = canonicalize fe (parent_path path) \<or> canonicalize fe (parent_path path) \<in> set (modules_of fe (bundle_result b))) \<and>
          (fresh fe disk st \<longrightarrow> current_result fe disk (map_of (open_texts st)) key (bundle_result b))))"

lemma ensure_analysed_ensured:
  assumes ok: "store_ok fe st" and clock: "access_clock st + 1 < 2 ^ 64"
    and res: "ensure_analysed fe disk path st = (res, st')"
  shows "ensured fe disk path st res st'"
proof -
  define dir where "dir = canonicalize fe (parent_path path)"
  show ?thesis
  proof (cases "\<exists>key ks. map_of (bundle_of_dir st) dir = Some (key # ks)")
    case True
    then obtain key ks where hit: "map_of (bundle_of_dir st) dir = Some (key # ks)" by blast
    obtain b where b: "bundle_at st key = Some b" "dir \<in> set (modules_of fe (bundle_result b))" and
      e: "ensure_analysed fe disk path st = (Inr key, st\<lparr>access_clock := access_clock st + 1,
         module_results := AList.update key (b\<lparr>last_access := access_clock st + 1\<rparr>) (module_results st)\<rparr>)"
      using ensure_hit [OF ok clock hit [unfolded dir_def], folded dir_def] by blast
    have st': "res = Inr key" "st' = st\<lparr>access_clock := access_clock st + 1,
         module_results := AList.update key (b\<lparr>last_access := access_clock st + 1\<rparr>) (module_results st)\<rparr>"
      using res e by simp_all
    have "key \<in> indexed st dir" using hit by (simp add: keys_at_def)
    then have "fresh fe disk st \<longrightarrow> current_result fe disk (map_of (open_texts st)) key (bundle_result b)"
      using b(1) unfolding fresh_def by blast
    then show ?thesis
      using touched_bundle [OF ok b(1) st'(2)] b(2) unfolding ensured_def dir_def [symmetric] st'(1) by (simp add: st'(2) update_conv')
  next
    case False
    define st1 where "st1 = unindex_bundle fe dir st"
    note un = no_key_after_unindex [where dir = dir, OF ok, folded st1_def]
    have f: "open_texts st1 = open_texts st" "access_clock st1 = access_clock st" "last_published st1 = last_published st"
      by (simp_all add: st1_def)
    have miss: "ensure_analysed fe disk path st =
      (case analyse fe disk dir (map_of (open_texts st)) of None \<Rightarrow> (Inl Analysis_Threw, st1)
       | Some r \<Rightarrow> (Inr dir, evict_lru_if_over_capacity fe (index_bundle fe dir (st1\<lparr>access_clock := access_clock st1 + 1,
           module_results := AList.update dir \<lparr>bundle_result = r, last_access = access_clock st1 + 1\<rparr> (module_results st1)\<rparr>))))"
      using False clock f unfolding ensure_analysed_def dir_def [symmetric] Let_def st1_def [symmetric] tick_def
      by (auto split: option.split list.split)
    show ?thesis
    proof (cases "analyse fe disk dir (map_of (open_texts st))")
      case None
      then show ?thesis using miss res un f unfolding ensured_def dir_def [symmetric] by auto
    next
      case (Some r)
      then have st': "res = Inr dir" "st' = evict_lru_if_over_capacity fe (index_bundle fe dir (st1\<lparr>access_clock := access_clock st1 + 1,
           module_results := AList.update dir \<lparr>bundle_result = r, last_access = access_clock st1 + 1\<rparr> (module_results st1)\<rparr>))"
        using miss res by simp_all
      show ?thesis
        using inserted_bundle [OF un(1,2) st'(2)] un(3) Some current_now [OF Some] f unfolding ensured_def dir_def [symmetric] st'(1) by simp
    qed
  qed
qed

subsection \<open>Sessions\<close>

text \<open>
  The calls the worker makes, in any order. A file that changes outside the editor changes on disk and is reported
  to the store.
\<close>

datatype store_op =
    Op_Open string string
  | Op_Update string string
  | Op_Close string
  | Op_External string "string option"
  | Op_Ensure string
  | Op_Became_Clean "string list" "string list"
  | Op_Prune

fun exec_op :: "'r front_end \<Rightarrow> store_op \<Rightarrow> file_texts \<times> 'r document_store \<Rightarrow> file_texts \<times> 'r document_store" where
  "exec_op fe (Op_Open p t) (disk, st) = (disk, open_document fe p t st)"
| "exec_op fe (Op_Update p t) (disk, st) = (disk, update_document fe p t st)"
| "exec_op fe (Op_Close p) (disk, st) = (disk, close_document fe p st)"
| "exec_op fe (Op_External p c) (disk, st) = (disk(p := c), invalidate_external fe p st)"
| "exec_op fe (Op_Ensure p) (disk, st) = (disk, snd (ensure_analysed fe disk p st))"
| "exec_op fe (Op_Became_Clean dirs fs) (disk, st) = (disk, snd (files_that_became_clean dirs fs st))"
| "exec_op fe Op_Prune (disk, st) = (disk, prune_stale_diag_tracking st)"

definition run_ops :: "'r front_end \<Rightarrow> store_op list \<Rightarrow> file_texts \<Rightarrow> file_texts \<times> 'r document_store" where
  "run_ops fe ops disk = fold (exec_op fe) ops (disk, DocumentStore)"

lemma same_cache:
  assumes "module_results st' = module_results st" "bundle_of_dir st' = bundle_of_dir st" "access_clock st' = access_clock st"
  shows "store_ok fe st' = store_ok fe st" "open_texts st' = open_texts st \<Longrightarrow> fresh fe disk st' = fresh fe disk st"
  unfolding store_ok_def index_ok_def fresh_def assms by simp_all

lemma invalidate_ok:
  assumes "store_ok fe st"
  shows "store_ok fe (invalidate fe p st)" "access_clock (invalidate fe p st) = access_clock st"
  using assms invalidate_shrinks(1,2) [of fe st p] shrinks_ok [OF assms] by (simp_all add: store_ok_def shrinks_def)

lemma edit_keeps:
  assumes ok: "store_ok fe st0" and st: "module_results st = module_results st0" "bundle_of_dir st = bundle_of_dir st0"
      "access_clock st = access_clock st0"
    and texts: "\<And>q. q \<noteq> p \<Longrightarrow> disk' q = disk q \<and> map_of (open_texts st) q = map_of (open_texts st0) q"
  shows "store_ok fe (invalidate fe p st)" "access_clock (invalidate fe p st) = access_clock st0"
    "fresh fe disk st0 \<Longrightarrow> fresh fe disk' (invalidate fe p st)"
proof -
  have "store_ok fe st" using ok same_cache(1) [OF st] by simp
  from invalidate_ok [OF this, of p] st(3)
  show "store_ok fe (invalidate fe p st)" "access_clock (invalidate fe p st) = access_clock st0" by simp_all
  show "fresh fe disk st0 \<Longrightarrow> fresh fe disk' (invalidate fe p st)"
    using invalidate_fresh(2) [OF _ _ st(1,2) texts] ok by (simp add: store_ok_def)
qed

lemma exec_op_keeps:
  assumes ok: "store_ok fe st" and clock: "access_clock st + 1 < 2 ^ 64" and e: "exec_op fe op (disk, st) = (disk', st')"
  shows "store_ok fe st' \<and> access_clock st' \<le> access_clock st + 1 \<and> (fresh fe disk st \<longrightarrow> fresh fe disk' st')"
proof (cases op)
  case (Op_Open p t)
  then show ?thesis using e edit_keeps [of fe st "st\<lparr>open_texts := AList.update p t (open_texts st)\<rparr>" p disk' disk] ok
    by (auto simp: open_document_def update_conv')
next
  case (Op_Update p t)
  then show ?thesis using e edit_keeps [of fe st "st\<lparr>open_texts := AList.update p t (open_texts st)\<rparr>" p disk' disk] ok
    by (auto simp: update_document_def update_conv')
next
  case (Op_Close p)
  define st1 where "st1 = invalidate fe p (st\<lparr>open_texts := AList.delete p (open_texts st)\<rparr>)"
  have 1: "store_ok fe st1" "access_clock st1 = access_clock st" "fresh fe disk st \<Longrightarrow> fresh fe disk st1"
    using edit_keeps [of fe st "st\<lparr>open_texts := AList.delete p (open_texts st)\<rparr>" p disk disk] ok by (simp_all add: st1_def delete_conv')
  have st': "st' = evict_unreferenced_bundles fe st1" "disk' = disk" using e Op_Close by (simp_all add: close_document_def st1_def)
  have sh: "index_ok fe st'" "shrinks st1 st'"
    using 1(1) evict_unreferenced_shrinks [of fe st1] unfolding st'(1) by (simp_all add: store_ok_def)
  have "store_ok fe st'" by (rule shrinks_ok [OF 1(1) sh])
  moreover have "access_clock st' = access_clock st" using sh(2) 1(2) by (simp add: shrinks_def)
  ultimately show ?thesis using shrinks_fresh [OF 1(3) sh(2)] st'(2) by simp
next
  case (Op_External p c)
  then show ?thesis using e edit_keeps [of fe st st p disk' disk] ok by (auto simp: invalidate_external_def)
next
  case (Op_Ensure p)
  then have "ensured fe disk p st (fst (ensure_analysed fe disk p st)) st'" "disk' = disk"
    using e by (auto intro!: ensure_analysed_ensured [OF ok clock])
  then show ?thesis by (simp add: ensured_def)
next
  case (Op_Became_Clean dirs fs)
  then show ?thesis using e ok same_cache [of st' st] by (auto simp: files_that_became_clean_def Let_def)
next
  case Op_Prune
  then show ?thesis using e ok same_cache [of st' st] by (auto simp: prune_stale_diag_tracking_def)
qed

lemma empty_store: "store_ok fe DocumentStore" "fresh fe disk DocumentStore" "access_clock DocumentStore = 0"
  by (simp_all add: store_ok_def index_ok_def fresh_def DocumentStore_def keys_at_def no_empty_entry_def)

lemma run_ops_keeps:
  assumes "length ops < 2 ^ 64" "run_ops fe ops disk = (disk', st)"
  shows "store_ok fe st \<and> access_clock st \<le> length ops \<and> fresh fe disk' st"
  using assms
proof (induction ops arbitrary: disk' st rule: rev_induct)
  case Nil
  then show ?case by (simp add: run_ops_def empty_store)
next
  case (snoc op ops)
  obtain d1 st1 where r: "run_ops fe ops disk = (d1, st1)" by fastforce
  then have e: "exec_op fe op (d1, st1) = (disk', st)" using snoc.prems(2) by (simp add: run_ops_def)
  have IH: "store_ok fe st1 \<and> access_clock st1 \<le> length ops \<and> fresh fe d1 st1"
    using snoc.IH [OF _ r] snoc.prems(1) by simp
  then have "access_clock st1 + 1 < 2 ^ 64" using snoc.prems(1) by simp
  then show ?case using exec_op_keeps [OF _ _ e] IH by auto
qed

text \<open>
  C8: After any session of store operations the index and the cache agree, at most 32 analyses are cached, and a
  lookup never fails on the index: the reference it returns points into the cache, at an analysis that covers the
  directory asked for (also right after the eviction that makes room for it).
\<close>

theorem ensure_analysed_is_safe:
  assumes "length ops + 1 < 2 ^ 64" "run_ops fe ops disk = (disk', st)" "ensure_analysed fe disk' path st = (res, st')"
  shows "length (module_results st') \<le> MAX_CACHED_MODULES \<and> index_ok fe st' \<and> res \<noteq> Inl Out_Of_Range \<and>
    (\<forall>key. res = Inr key \<longrightarrow> (\<exists>b. map_of (module_results st') key = Some b \<and>
       (key = canonicalize fe (parent_path path) \<or> canonicalize fe (parent_path path) \<in> set (modules_of fe (bundle_result b)))))"
proof -
  have run: "store_ok fe st" "access_clock st \<le> length ops" using run_ops_keeps [OF _ assms(2)] assms(1) by simp_all
  then have "ensured fe disk' path st res st'" using assms(1) by (intro ensure_analysed_ensured [OF _ _ assms(3)]) simp_all
  then show ?thesis by (auto simp: ensured_def store_ok_def split: sum.splits)
qed

text \<open>
  C7: The cache never serves an analysis of other sources: whatever was edited, closed or changed on disk before, the
  result that is returned covers the directory asked for, and the analysis gave it on files and buffers that agree with
  the present ones in every directory of its import closure.
\<close>

theorem ensure_analysed_is_current:
  assumes "length ops + 1 < 2 ^ 64" "run_ops fe ops disk = (disk', st)" "ensure_analysed fe disk' path st = (Inr key, st')"
  shows "\<exists>b disk0 texts0. map_of (module_results st') key = Some b \<and>
    (key = canonicalize fe (parent_path path) \<or> canonicalize fe (parent_path path) \<in> set (modules_of fe (bundle_result b))) \<and>
    analyse fe disk0 key texts0 = Some (bundle_result b) \<and>
    (\<forall>p. parent_path p \<in> set (modules_of fe (bundle_result b)) \<longrightarrow> disk0 p = disk' p \<and> texts0 p = map_of (open_texts st') p)"
proof -
  have run: "store_ok fe st" "access_clock st \<le> length ops" "fresh fe disk' st"
    using run_ops_keeps [OF _ assms(2)] assms(1) by simp_all
  then have "ensured fe disk' path st (Inr key) st'" using assms(1) by (intro ensure_analysed_ensured [OF _ _ assms(3)]) simp_all
  then show ?thesis using run(3) unfolding ensured_def current_result_def by auto
qed

text \<open>
  Outside the closure nothing is invalidated: when no cached closure reaches the directory of a file that changes, the
  store is as before and the next lookup serves the result it served before the change. An import that did not resolve
  is such a case, since a directory that does not exist is in no closure.
\<close>

lemma change_outside_closures:
  assumes "store_ok fe st" "indexed st (parent_path p) = {}"
  shows "exec_op fe (Op_External p c) (disk, st) = (disk(p := c), st)"
proof -
  have "no_empty_entry (bundle_of_dir st)" using assms(1) by (simp add: store_ok_def index_ok_def)
  then have "map_of (bundle_of_dir st) (parent_path p) = None"
    using assms(2) by (cases "map_of (bundle_of_dir st) (parent_path p)") (auto simp: keys_at_def no_empty_entry_def)
  then show ?thesis by (simp add: invalidate_external_def invalidate_def)
qed

lemma served_unchanged:
  assumes "store_ok fe st" "indexed st (parent_path p) = {}" "k \<in> indexed st (canonicalize fe (parent_path path))"
  shows "ensure_analysed fe (disk(p := c)) path (snd (exec_op fe (Op_External p c) (disk, st))) = ensure_analysed fe disk path st"
proof -
  obtain key ks where "map_of (bundle_of_dir st) (canonicalize fe (parent_path path)) = Some (key # ks)"
    using assms(3) by (auto simp: keys_at_def split: option.splits) (metis list.set_cases)
  then show ?thesis unfolding change_outside_closures [OF assms(1,2)] by (simp add: ensure_analysed_def)
qed

subsection \<open>A small front end\<close>

text \<open>
  Two modules \<^verbatim>\<open>/a\<close> and \<^verbatim>\<open>/b\<close>, the first importing the second. An analysis sees the text of \<^verbatim>\<open>/b/b.mir\<close> and reports an error
  in it when it reads \<^verbatim>\<open>bad\<close>; a text \<^verbatim>\<open>boom\<close> makes it throw.
\<close>

definition b_file :: string where
  "b_file = ''/b/b.mir''"

definition b_error :: diagnostic where
  "b_error = \<lparr>level = Error, stage = SemaStage, location = \<lparr>filename = b_file, line = 1, column = 1, offset = 0, len = 3\<rparr>,
     message = ''bad''\<rparr>"

definition two_modules :: "string option front_end" where
  "two_modules = \<lparr>
     analyse = (\<lambda>disk dir texts. let t = (case texts b_file of Some t \<Rightarrow> Some t | None \<Rightarrow> disk b_file)
        in if t = Some ''boom'' then None else Some t),
     modules_of = (\<lambda>r. [''/a'', ''/b'']),
     diagnostics_of = (\<lambda>r. if r = Some ''bad'' then [b_error] else []),
     sources_of = (\<lambda>r. [b_file \<mapsto> the r]),
     canonicalize = (\<lambda>p. p)\<rparr>"

definition small_session :: "store_op list" where
  "small_session = [Op_Open ''/a/a.mir'' ''x'', Op_Ensure ''/a/a.mir'', Op_Open b_file ''good'']"

definition disk_bad :: file_texts where
  "disk_bad = [b_file \<mapsto> ''bad'']"

lemma two_modules_fields:
  "analyse two_modules disk dir texts = (let t = (case texts b_file of Some t \<Rightarrow> Some t | None \<Rightarrow> disk b_file)
     in if t = Some ''boom'' then None else Some t)"
  "modules_of two_modules r = [''/a'', ''/b'']" "diagnostics_of two_modules r = (if r = Some ''bad'' then [b_error] else [])"
  "sources_of two_modules r = [b_file \<mapsto> the r]" "canonicalize two_modules p = p"
  by (simp_all add: two_modules_def)

lemma small_dirs: "parent_path b_file = ''/b''" "parent_path ''/a/a.mir'' = ''/a''" "b_file \<noteq> ''/a/a.mir''" "''/a/a.mir'' \<noteq> b_file" "b_file \<noteq> []"
  by (simp_all add: parent_path_def b_file_def Let_def)

lemmas store_eval = open_document_def update_document_def close_document_def invalidate_external_def ensure_analysed_def
  invalidate_def index_bundle_def index_dir_def unindex_bundle_def unindex_dir_def erase_bundle_def open_dirs_def
  evict_lru_if_over_capacity_def evict_unreferenced_bundles_def MAX_CACHED_MODULES_def tick_def Let_def insort_insert_key_def
  two_modules_fields small_dirs

definition session_store :: "string option document_store" where
  "session_store = \<lparr>open_texts = [(''/a/a.mir'', ''x''), (b_file, ''good'')], module_results = [], bundle_of_dir = [],
     last_published = [], access_clock = 1\<rparr>"

lemma small_session_run: "run_ops two_modules small_session disk_bad = (disk_bad, session_store)"
  by (simp add: small_session_def run_ops_def DocumentStore_def session_store_def disk_bad_def store_eval)

definition small_store :: "string option document_store" where
  "small_store = snd (ensure_analysed two_modules disk_bad b_file session_store)"

lemma small_session_ensure: "ensure_analysed two_modules disk_bad b_file session_store = (Inr ''/b'', small_store)"
  by (simp add: small_store_def session_store_def store_eval)

theorem ensure_analysed_is_safe_witness:
  "\<exists>b. map_of (module_results small_store) ''/b'' = Some b \<and>
     (''/b'' = canonicalize two_modules (parent_path b_file) \<or> canonicalize two_modules (parent_path b_file) \<in> set (modules_of two_modules (bundle_result b)))"
  using ensure_analysed_is_safe [OF _ small_session_run small_session_ensure] by (simp add: small_session_def)

theorem ensure_analysed_is_current_witness:
  "\<exists>b disk0 texts0. map_of (module_results small_store) ''/b'' = Some b \<and>
    analyse two_modules disk0 ''/b'' texts0 = Some (bundle_result b) \<and>
    disk0 b_file = disk_bad b_file \<and> texts0 b_file = map_of (open_texts small_store) b_file"
proof -
  have "parent_path b_file \<in> set (modules_of two_modules r)" for r
    by (simp add: b_file_def parent_path_def Let_def two_modules_def)
  then show ?thesis
    using ensure_analysed_is_current [OF _ small_session_run small_session_ensure] by (simp add: small_session_def) blast
qed

end
