(* ===== verification/Lsp_Position.thy ===== *)
theory Lsp_Position
  imports Lsp_Uri Diagnostics
begin

text \<open>
  Column conversion of the language server (\<^verbatim>\<open>lsp/position_encoding.cpp\<close>): the compiler counts bytes, the protocol
  UTF-16 code units. The specification side is the encoding of code points in UTF-8 and UTF-16.
\<close>

subsection \<open>Definitions\<close>

record utf8_step =
  step_bytes :: nat
  step_units :: nat

definition step_at :: "char \<Rightarrow> utf8_step" where
  "step_at ch =
     (let c = char_code ch in
      if c < 128 then \<lparr>step_bytes = 1, step_units = 1\<rparr>
      else if c AND 224 = 192 then \<lparr>step_bytes = 2, step_units = 1\<rparr>
      else if c AND 240 = 224 then \<lparr>step_bytes = 3, step_units = 1\<rparr>
      else if c AND 248 = 240 then \<lparr>step_bytes = 4, step_units = 2\<rparr>
      else \<lparr>step_bytes = 1, step_units = 1\<rparr>)"

lemma step_bytes_pos [simp]: "0 < step_bytes (step_at c)"
  by (simp add: step_at_def Let_def)

text \<open>Both loops walk over whole sequences, until the units or the bytes reach the column.\<close>

function units_walk :: "string \<Rightarrow> nat \<Rightarrow> nat \<Rightarrow> nat \<Rightarrow> nat \<times> nat" where
  "units_walk ln utf16_col units i =
     (if i < length ln \<and> units < utf16_col
      then units_walk ln utf16_col (units + step_units (step_at (ln ! i))) (i + step_bytes (step_at (ln ! i)))
      else (units, i))"
  by auto
termination
  by (relation "measure (\<lambda>(ln, col, units, i). length ln - i)") (auto intro!: diff_less_mono2)

function bytes_walk :: "string \<Rightarrow> nat \<Rightarrow> nat \<Rightarrow> nat \<Rightarrow> nat \<times> nat" where
  "bytes_walk ln byte_col units i =
     (if i < length ln \<and> i < byte_col
      then bytes_walk ln byte_col (units + step_units (step_at (ln ! i))) (i + step_bytes (step_at (ln ! i)))
      else (units, i))"
  by auto
termination
  by (relation "measure (\<lambda>(ln, col, units, i). length ln - i)") (auto intro!: diff_less_mono2)

declare units_walk.simps [simp del] bytes_walk.simps [simp del]

definition utf16_to_byte_column :: "string \<Rightarrow> nat \<Rightarrow> nat" where
  "utf16_to_byte_column ln utf16_col =
     (case units_walk ln utf16_col 0 0 of (units, i) \<Rightarrow>
        let i = (if length ln < i then length ln else i)
        in if units < utf16_col then (i + (utf16_col - units)) mod 2 ^ 64 else i)"

definition byte_to_utf16_column :: "string \<Rightarrow> nat \<Rightarrow> nat" where
  "byte_to_utf16_column ln byte_col =
     (case bytes_walk ln byte_col 0 0 of (units, i) \<Rightarrow>
        if i < byte_col then (units + (byte_col - i)) mod 2 ^ 64 else units)"

function line_scan :: "string \<Rightarrow> nat \<Rightarrow> nat \<Rightarrow> nat \<Rightarrow> nat \<Rightarrow> string" where
  "line_scan text n current start i =
     (if i \<le> length text then
        if i = length text \<or> text ! i = newline then
          if current = n then
            let e = (if start < i \<and> text ! (i - 1) = carriage_return then i - 1 else i)
            in substr text start (e - start)
          else if i = length text then []
          else line_scan text n (current + 1) (Suc i) (Suc i)
        else line_scan text n current start (Suc i)
      else [])"
  by auto
termination
  by (relation "measure (\<lambda>(text, n, current, start, i). Suc (length text) - i)") auto

declare line_scan.simps [simp del]

definition line_from_text :: "string \<Rightarrow> nat \<Rightarrow> string" where
  "line_from_text text n = (if n = 0 then [] else line_scan text n 1 0 0)"

subsection \<open>Code points\<close>

text \<open>UTF-8 as in RFC 3629, and the number of UTF-16 code units of a code point.\<close>

definition utf8 :: "nat \<Rightarrow> string" where
  "utf8 cp =
     (if cp < 128 then [char_of cp]
      else if cp < 2048 then [char_of (192 + cp div 64), char_of (128 + cp mod 64)]
      else if cp < 65536
      then [char_of (224 + cp div 4096), char_of (128 + cp div 64 mod 64), char_of (128 + cp mod 64)]
      else [char_of (240 + cp div 262144), char_of (128 + cp div 4096 mod 64), char_of (128 + cp div 64 mod 64),
            char_of (128 + cp mod 64)])"

definition utf16_units :: "nat \<Rightarrow> nat" where
  "utf16_units cp = (if cp < 65536 then 1 else 2)"

definition code_point :: "nat \<Rightarrow> bool" where
  "code_point cp \<longleftrightarrow> cp < 1114112"

lemma and_high_bits:
  fixes n :: nat
  assumes "n < 256"
  shows "n AND 224 = 32 * (n div 32)" "n AND 240 = 16 * (n div 16)" "n AND 248 = 8 * (n div 8)"
proof -
  have half: "m AND (2 * k) = 2 * (m div 2 AND k)" for m k :: nat
    by (subst and_nat_rec) simp
  have low: "m AND 7 = m mod 8" "m AND 15 = m mod 16" "m AND 31 = m mod 32" for m :: nat
    using take_bit_eq_mask [of 3 m] take_bit_eq_mask [of 4 m] take_bit_eq_mask [of 5 m]
    by (simp_all add: mask_eq_exp_minus_1 take_bit_eq_mod)
  show "n AND 224 = 32 * (n div 32)"
    using assms half [of n 112] half [of "n div 2" 56] half [of "n div 4" 28] half [of "n div 8" 14] half [of "n div 16" 7]
    by (simp add: low div_mult2_eq [symmetric])
  show "n AND 240 = 16 * (n div 16)"
    using assms half [of n 120] half [of "n div 2" 60] half [of "n div 4" 30] half [of "n div 8" 15]
    by (simp add: low div_mult2_eq [symmetric])
  show "n AND 248 = 8 * (n div 8)"
    using assms half [of n 124] half [of "n div 2" 62] half [of "n div 4" 31]
    by (simp add: low div_mult2_eq [symmetric])
qed

lemma step_at_char:
  fixes n :: nat
  assumes "n < 256"
  shows "step_at (char_of n) =
    (if n < 128 then \<lparr>step_bytes = 1, step_units = 1\<rparr> else if 192 \<le> n \<and> n < 224 then \<lparr>step_bytes = 2, step_units = 1\<rparr>
     else if 224 \<le> n \<and> n < 240 then \<lparr>step_bytes = 3, step_units = 1\<rparr>
     else if 240 \<le> n \<and> n < 248 then \<lparr>step_bytes = 4, step_units = 2\<rparr> else \<lparr>step_bytes = 1, step_units = 1\<rparr>)"
proof -
  have "n AND 224 = 192 \<longleftrightarrow> 192 \<le> n \<and> n < 224" "n AND 240 = 224 \<longleftrightarrow> 224 \<le> n \<and> n < 240"
    "n AND 248 = 240 \<longleftrightarrow> 240 \<le> n \<and> n < 248"
    unfolding and_high_bits [OF assms] by auto
  moreover have "char_code (char_of n) = n" using assms by (simp add: char_code_def)
  ultimately show ?thesis by (simp add: step_at_def Let_def)
qed

lemma step_utf8:
  assumes "code_point cp"
  shows "utf8 cp \<noteq> []" "step_bytes (step_at (hd (utf8 cp))) = length (utf8 cp)" "step_units (step_at (hd (utf8 cp))) = utf16_units cp"
proof -
  show "utf8 cp \<noteq> []" by (simp add: utf8_def)
  have "step_bytes (step_at (hd (utf8 cp))) = length (utf8 cp) \<and> step_units (step_at (hd (utf8 cp))) = utf16_units cp"
  proof (cases "cp < 128")
    case True
    then show ?thesis by (simp add: utf8_def utf16_units_def step_at_char)
  next
    case ge: False
    show ?thesis
    proof (cases "cp < 2048")
      case True
      then have "cp div 64 < 32" by simp
      then show ?thesis using True ge by (simp add: utf8_def utf16_units_def step_at_char)
    next
      case ge2: False
      show ?thesis
      proof (cases "cp < 65536")
        case True
        then have "cp div 4096 < 16" by simp
        then show ?thesis using True ge2 by (simp add: utf8_def utf16_units_def step_at_char)
      next
        case False
        have "cp div 262144 < 8" using assms by (simp add: code_point_def)
        then show ?thesis using False by (simp add: utf8_def utf16_units_def step_at_char)
      qed
    qed
  qed
  then show "step_bytes (step_at (hd (utf8 cp))) = length (utf8 cp)" "step_units (step_at (hd (utf8 cp))) = utf16_units cp" by simp_all
qed

definition text_bytes :: "nat list \<Rightarrow> string" where
  "text_bytes cps = concat (map utf8 cps)"

definition text_units :: "nat list \<Rightarrow> nat" where
  "text_units cps = sum_list (map utf16_units cps)"

lemma text_bytes_simps [simp]: "text_bytes [] = []" "text_bytes (c # cs) = utf8 c @ text_bytes cs" "text_bytes (xs @ ys) = text_bytes xs @ text_bytes ys"
  by (simp_all add: text_bytes_def)

lemma text_units_simps [simp]: "text_units [] = 0" "text_units (c # cs) = utf16_units c + text_units cs" "text_units (xs @ ys) = text_units xs + text_units ys"
  by (simp_all add: text_units_def)

lemma utf16_units_pos [simp]: "0 < utf16_units c"
  by (simp add: utf16_units_def)

lemma step_in_text:
  assumes "code_point c"
  shows "step_at ((pre @ utf8 c @ post) ! length pre) = \<lparr>step_bytes = length (utf8 c), step_units = utf16_units c\<rparr>"
proof -
  have "(pre @ utf8 c @ post) ! length pre = hd (utf8 c)" using step_utf8(1) [OF assms] by (simp add: nth_append hd_conv_nth)
  then show ?thesis using step_utf8(2,3) [OF assms] by simp
qed

text \<open>A walk that has not reached its column goes over whole characters.\<close>

lemma units_walk_text:
  assumes "list_all code_point xs" "u + text_units xs \<le> col"
  shows "units_walk (pre @ text_bytes xs @ post) col u (length pre) =
    units_walk (pre @ text_bytes xs @ post) col (u + text_units xs) (length pre + length (text_bytes xs))"
  using assms
proof (induction xs arbitrary: pre u)
  case (Cons c cs)
  let ?l = "pre @ utf8 c @ text_bytes cs @ post"
  have c: "code_point c" and lt: "u < col" using Cons.prems utf16_units_pos [of c] by (simp, simp del: utf16_units_pos)
  have "units_walk ?l col u (length pre) = units_walk ?l col (u + utf16_units c) (length (pre @ utf8 c))"
    using lt step_utf8(1) [OF c] step_in_text [OF c, of pre "text_bytes cs @ post"]
    by (subst units_walk.simps) simp
  also have "\<dots> = units_walk ?l col (u + utf16_units c + text_units cs) (length (pre @ utf8 c) + length (text_bytes cs))"
    using Cons.IH [of "u + utf16_units c" "pre @ utf8 c"] Cons.prems by simp
  finally show ?case by (simp add: add.assoc)
qed simp

lemma bytes_walk_text:
  assumes "list_all code_point xs" "length pre + length (text_bytes xs) \<le> col"
  shows "bytes_walk (pre @ text_bytes xs @ post) col u (length pre) =
    bytes_walk (pre @ text_bytes xs @ post) col (u + text_units xs) (length pre + length (text_bytes xs))"
  using assms
proof (induction xs arbitrary: pre u)
  case (Cons c cs)
  let ?l = "pre @ utf8 c @ text_bytes cs @ post"
  have c: "code_point c" using Cons.prems by simp
  have lt: "length pre < col" using Cons.prems step_utf8(1) [OF c] by (cases "utf8 c") simp_all
  have "bytes_walk ?l col u (length pre) = bytes_walk ?l col (u + utf16_units c) (length (pre @ utf8 c))"
    using lt step_utf8(1) [OF c] step_in_text [OF c, of pre "text_bytes cs @ post"]
    by (subst bytes_walk.simps) simp
  also have "\<dots> = bytes_walk ?l col (u + utf16_units c + text_units cs) (length (pre @ utf8 c) + length (text_bytes cs))"
    using Cons.IH [of "pre @ utf8 c" "u + utf16_units c"] Cons.prems by simp
  finally show ?case by (simp add: add.assoc)
qed simp

lemma walks_of_prefix:
  assumes "list_all code_point cps"
  shows "text_units (take k cps) \<le> col \<Longrightarrow>
      units_walk (text_bytes cps) col 0 0 = units_walk (text_bytes cps) col (text_units (take k cps)) (length (text_bytes (take k cps)))"
    and "length (text_bytes (take k cps)) \<le> col \<Longrightarrow>
      bytes_walk (text_bytes cps) col 0 0 = bytes_walk (text_bytes cps) col (text_units (take k cps)) (length (text_bytes (take k cps)))"
proof -
  have t: "list_all code_point (take k cps)" using assms by (simp add: list_all_iff) (meson in_set_takeD)
  have e: "text_bytes cps = text_bytes (take k cps) @ text_bytes (drop k cps)"
    by (simp flip: text_bytes_simps(3))
  show "text_units (take k cps) \<le> col \<Longrightarrow>
      units_walk (text_bytes cps) col 0 0 = units_walk (text_bytes cps) col (text_units (take k cps)) (length (text_bytes (take k cps)))"
    using units_walk_text [OF t, of 0 col "[]" "text_bytes (drop k cps)"] by (simp add: e)
  show "length (text_bytes (take k cps)) \<le> col \<Longrightarrow>
      bytes_walk (text_bytes cps) col 0 0 = bytes_walk (text_bytes cps) col (text_units (take k cps)) (length (text_bytes (take k cps)))"
    using bytes_walk_text [OF t, of "[]" col "text_bytes (drop k cps)" 0] by (simp add: e)
qed

lemma length_text_bytes_take: "length (text_bytes (take k cps)) \<le> length (text_bytes cps)"
  by (metis append_take_drop_id le_add1 length_append text_bytes_simps(3))

lemma columns_at_boundary:
  assumes "list_all code_point cps" "k \<le> length cps"
  shows "byte_to_utf16_column (text_bytes cps) (length (text_bytes (take k cps))) = text_units (take k cps)"
    and "utf16_to_byte_column (text_bytes cps) (text_units (take k cps)) = length (text_bytes (take k cps))"
proof -
  show "byte_to_utf16_column (text_bytes cps) (length (text_bytes (take k cps))) = text_units (take k cps)"
    unfolding byte_to_utf16_column_def walks_of_prefix(2) [OF assms(1) order_refl] by (subst bytes_walk.simps) simp
  show "utf16_to_byte_column (text_bytes cps) (text_units (take k cps)) = length (text_bytes (take k cps))"
    unfolding utf16_to_byte_column_def walks_of_prefix(1) [OF assms(1) order_refl] using length_text_bytes_take [of k cps]
    by (subst units_walk.simps) simp
qed

text \<open>
  C22: On a line of well-formed UTF-8 the two conversions are exact and inverse to each other at every character
  boundary: the byte column in front of the k-th character is the length of the UTF-8 encoding of the first k
  characters, its wire column the length of their UTF-16 encoding.
\<close>

theorem columns_convert:
  assumes "list_all code_point cps" "k \<le> length cps"
  shows "byte_to_utf16_column (text_bytes cps) (length (text_bytes (take k cps))) = text_units (take k cps) \<and>
    utf16_to_byte_column (text_bytes cps) (text_units (take k cps)) = length (text_bytes (take k cps))"
  using columns_at_boundary [OF assms] by blast

lemma length_utf8: "length (utf8 cp) = (if cp < 128 then 1 else if cp < 2048 then 2 else if cp < 65536 then 3 else 4)"
  by (simp add: utf8_def)

definition grin :: "nat list" where
  "grin = [97, 233, 128512, 98]"

theorem columns_convert_witness:
  "byte_to_utf16_column (text_bytes grin) 7 = 4 \<and> utf16_to_byte_column (text_bytes grin) 4 = 7"
proof -
  have "list_all code_point grin" "3 \<le> length grin" by (simp_all add: grin_def code_point_def)
  moreover have "length (text_bytes (take 3 grin)) = 7" "text_units (take 3 grin) = 4"
    by (simp_all add: grin_def length_utf8 utf16_units_def)
  ultimately show ?thesis using columns_convert [of grin 3] by simp
qed

text \<open>
  Whatever wire column the client sends inside a well-formed line, the byte column it becomes is a character
  boundary: a column between the two halves of a surrogate pair moves past the pair. Past the end of the line every
  further unit counts as one byte.
\<close>

theorem byte_column_on_boundary:
  assumes "list_all code_point cps"
  shows "col \<le> text_units cps \<Longrightarrow> \<exists>k \<le> length cps. utf16_to_byte_column (text_bytes cps) col = length (text_bytes (take k cps)) \<and>
      col \<le> text_units (take k cps) \<and> text_units (take k cps) \<le> col + 1"
    and "length (text_bytes cps) + d < 2 ^ 64 \<Longrightarrow>
      utf16_to_byte_column (text_bytes cps) (text_units cps + d) = length (text_bytes cps) + d"
proof -
  show "\<exists>k \<le> length cps. utf16_to_byte_column (text_bytes cps) col = length (text_bytes (take k cps)) \<and>
      col \<le> text_units (take k cps) \<and> text_units (take k cps) \<le> col + 1" if col: "col \<le> text_units cps"
  proof -
    define k where "k = (LEAST k. col \<le> text_units (take k cps))"
    have reach: "col \<le> text_units (take k cps)" unfolding k_def by (rule LeastI [of _ "length cps"]) (simp add: col)
    have "k \<le> length cps" unfolding k_def by (rule Least_le) (simp add: col)
    show ?thesis
    proof (cases k)
      case 0
      then have "col = text_units (take 0 cps)" using reach by simp
      then show ?thesis using columns_at_boundary(2) [OF assms, of 0] by (intro exI [of _ 0]) simp
    next
      case (Suc j)
      then have below: "text_units (take j cps) < col" using not_less_Least [of j "\<lambda>k. col \<le> text_units (take k cps)"] by (simp add: k_def)
      have j: "j < length cps" using Suc \<open>k \<le> length cps\<close> by simp
      have t: "take k cps = take j cps @ [cps ! j]" using Suc j by (simp add: take_Suc_conv_app_nth)
      have c: "code_point (cps ! j)" using assms j by (simp add: list_all_length)
      have e: "text_bytes cps = text_bytes (take j cps) @ utf8 (cps ! j) @ text_bytes (drop k cps)"
        using id_take_nth_drop [OF j] Suc by (metis text_bytes_simps(2,3))
      have "units_walk (text_bytes cps) col (text_units (take j cps)) (length (text_bytes (take j cps)))
          = (text_units (take k cps), length (text_bytes (take k cps)))"
        using below reach step_in_text [OF c, of "text_bytes (take j cps)" "text_bytes (drop k cps)"] step_utf8(1) [OF c]
        by (subst units_walk.simps) (simp add: e t units_walk.simps [of _ col "text_units (take j cps) + utf16_units (cps ! j)"])
      then have "utf16_to_byte_column (text_bytes cps) col = length (text_bytes (take k cps))"
        using walks_of_prefix(1) [OF assms, of j col] below reach length_text_bytes_take [of k cps]
        by (simp add: utf16_to_byte_column_def)
      moreover have "text_units (take k cps) \<le> col + 1" using below by (simp add: t utf16_units_def)
      ultimately show ?thesis using reach \<open>k \<le> length cps\<close> by blast
    qed
  qed
  show "utf16_to_byte_column (text_bytes cps) (text_units cps + d) = length (text_bytes cps) + d" if "length (text_bytes cps) + d < 2 ^ 64"
    using walks_of_prefix(1) [OF assms, of "length cps" "text_units cps + d"] that
    by (simp add: utf16_to_byte_column_def) (subst units_walk.simps, simp add: Let_def)
qed

theorem byte_column_on_boundary_witness:
  "\<exists>k \<le> length grin. utf16_to_byte_column (text_bytes grin) 3 = length (text_bytes (take k grin)) \<and>
      3 \<le> text_units (take k grin) \<and> text_units (take k grin) \<le> 4"
proof -
  have "list_all code_point grin" "3 \<le> text_units grin" by (simp_all add: grin_def code_point_def utf16_units_def)
  from byte_column_on_boundary(1) [OF this] show ?thesis by simp
qed

subsection \<open>Lines\<close>

lemma split_lines_at_newline:
  "newline \<notin> set l \<Longrightarrow> split_lines (l @ newline # r) = l # split_lines r" "newline \<notin> set l \<Longrightarrow> split_lines l = [l]"
  by (induction l) auto

lemma line_scan_split:
  fixes src :: string
  assumes "start \<le> i" "i \<le> length src" "newline \<notin> set (take (i - start) (drop start src))" "current \<le> n"
  shows "line_scan src n current start i =
    (if n - current < length (split_lines (drop start src)) then strip_cr (split_lines (drop start src) ! (n - current)) else [])"
  using assms
proof (induction src n current start i rule: line_scan.induct)
  case (1 src n current start i)
  define l where "l = take (i - start) (drop start src)"
  have d: "drop start src = l @ drop i src" using "1.prems"(1) by (simp add: l_def) (metis append_take_drop_id drop_drop le_add_diff_inverse2)
  have l: "newline \<notin> set l" "length l = i - start" using "1.prems" by (simp_all add: l_def)
  have strip: "substr src start ((if start < i \<and> src ! (i - 1) = carriage_return then i - 1 else i) - start) = strip_cr l"
    if "takeWhile (\<lambda>c. c \<noteq> newline) (drop start src) = l"
    using stripped_line [of i start "\<lambda>c. c \<noteq> newline" src] that l(2) "1.prems"(1,2) by simp
  have tw: "takeWhile (\<lambda>c. c \<noteq> newline) l = l" using l(1) by (auto simp: takeWhile_eq_all_conv)
  show ?case
  proof (cases "i = length src \<or> src ! i = newline")
    case stop: True
    have whole: "takeWhile (\<lambda>c. c \<noteq> newline) (drop start src) = l"
      using stop tw "1.prems"(2) by (cases "i = length src") (simp_all add: d takeWhile_append Cons_nth_drop_Suc [symmetric])
    show ?thesis
    proof (cases "current = n")
      case True
      then show ?thesis using stop strip [OF whole] "1.prems"(2) split_lines_hd [of "drop start src"] whole
        by (subst line_scan.simps) (simp add: Let_def)
    next
      case ne: False
      show ?thesis
      proof (cases "i = length src")
        case True
        then have "split_lines (drop start src) = [l]" using split_lines_at_newline(2) [OF l(1)] d by simp
        then show ?thesis using True ne "1.prems"(4) by (subst line_scan.simps) simp
      next
        case False
        then have i: "i < length src" "src ! i = newline" using stop "1.prems"(2) by simp_all
        have s: "split_lines (drop start src) = l # split_lines (drop (Suc i) src)"
          using split_lines_at_newline(1) [OF l(1)] i d by (simp add: Cons_nth_drop_Suc [symmetric])
        have "line_scan src n current start i = line_scan src n (current + 1) (Suc i) (Suc i)"
          using i ne by (subst line_scan.simps) simp
        moreover have "\<dots> = (if n - (current + 1) < length (split_lines (drop (Suc i) src))
            then strip_cr (split_lines (drop (Suc i) src) ! (n - (current + 1))) else [])"
          using "1.IH"(1) [OF "1.prems"(2) stop ne False] i ne "1.prems"(4) by simp
        moreover have "n - current = Suc (n - (current + 1))" using ne "1.prems"(4) by simp
        ultimately show ?thesis by (simp add: s)
      qed
    qed
  next
    case False
    then have i: "i < length src" "src ! i \<noteq> newline" using "1.prems"(2) by simp_all
    have "take (Suc i - start) (drop start src) = l @ [src ! i]"
      using i "1.prems"(1) by (simp add: l_def Suc_diff_le take_Suc_conv_app_nth)
    then have "newline \<notin> set (take (Suc i - start) (drop start src))" using l(1) i(2) by simp
    moreover have "line_scan src n current start i = line_scan src n current start (Suc i)"
      using i by (subst line_scan.simps) simp
    ultimately show ?thesis using "1.IH"(2) [OF "1.prems"(2) False] i "1.prems"(1,4) by simp
  qed
qed

text \<open>
  The server's own line lookup in an open buffer gives the same line as the compiler's lookup in its source
  manager, so a column is converted against the text that was analysed.
\<close>

theorem line_from_text_is_source_line:
  assumes "sm fname = Some text" "length text < 2 ^ 32 - 1" "0 < n"
  shows "line_from_text text n = get_source_line sm fname n"
  using line_scan_split [of 0 0 "text" 1 n] get_source_line_is_line [of sm fname "text" n, OF assms(1,3,2)] assms(3)
  by (simp add: line_from_text_def) (metis One_nat_def Suc_pred not_less_eq_eq not_le)

theorem line_from_text_is_source_line_witness:
  "line_from_text two_lines 2 = get_source_line [''f'' \<mapsto> two_lines] ''f'' 2"
  using line_from_text_is_source_line [of "[''f'' \<mapsto> two_lines]" "''f''" two_lines 2] by (simp add: two_lines_def)

end
