(* ===== verification/Lsp_Worker.thy ===== *)
theory Lsp_Worker
  imports Lsp_Documents Lsp_Position
begin

text \<open>
  The analysis worker of the language server (class \<^verbatim>\<open>Worker\<close> of \<^verbatim>\<open>lsp/server.cpp\<close>) and the diagnostics it
  publishes (\<^verbatim>\<open>handlers/diagnostics.cpp\<close>, \<^verbatim>\<open>handlers/locations.hpp\<close>): the tasks that notifications queue, the
  debounced republishing, and the conversion of positions on the way out. Diagnostics are records with the fields of
  the JSON object the code builds; the notifications sent so far are a log. Times are those of the steady clock, in
  milliseconds.
\<close>

subsection \<open>Diagnostics on the wire\<close>

record position =
  pos_line :: nat
  pos_character :: nat

record lsp_diagnostic =
  range_start :: position
  range_end :: position
  severity :: nat
  stage_code :: string
  text_message :: string

definition to_zero_based :: "nat \<Rightarrow> nat" where
  "to_zero_based one_based = (if one_based = 0 then 0 else one_based - 1)"

definition range_json :: "nat \<Rightarrow> nat \<Rightarrow> nat \<Rightarrow> position \<times> position" where
  "range_json ln col n =
     (let start_character = to_zero_based col
      in (\<lparr>pos_line = to_zero_based ln, pos_character = start_character\<rparr>,
          \<lparr>pos_line = to_zero_based ln, pos_character = start_character + max n 1\<rparr>))"

fun stage_name :: "diagnostic_stage \<Rightarrow> string" where
  "stage_name LexerStage = ''lexer''"
| "stage_name ParserStage = ''parser''"
| "stage_name SemaStage = ''sema''"
| "stage_name CodegenStage = ''codegen''"

definition to_lsp_diagnostic :: "diagnostic \<Rightarrow> lsp_diagnostic" where
  "to_lsp_diagnostic d =
     (let r = range_json (line (location d)) (column (location d)) (len (location d))
      in \<lparr>range_start = fst r, range_end = snd r, severity = (if level d = Error then 1 else 2),
          stage_code = stage_name (stage d), text_message = message d\<rparr>)"

type_synonym grouped = "(string \<times> lsp_diagnostic list) list"

definition push_diagnostic :: "diagnostic \<Rightarrow> grouped \<Rightarrow> grouped" where
  "push_diagnostic d g =
     (if filename (location d) = [] then g
      else AList.update (filename (location d))
        ((case map_of g (filename (location d)) of None \<Rightarrow> [] | Some ds \<Rightarrow> ds) @ [to_lsp_diagnostic d]) g)"

definition group_diagnostics_by_file :: "diagnostic list \<Rightarrow> grouped" where
  "group_diagnostics_by_file ds = fold push_diagnostic ds []"

text \<open>The walk of \<^verbatim>\<open>positions_to_utf16\<close> over a diagnostic reaches the two positions of its range.\<close>

definition position_to_utf16 :: "(nat \<Rightarrow> string) \<Rightarrow> position \<Rightarrow> position" where
  "position_to_utf16 line_of p = p\<lparr>pos_character := byte_to_utf16_column (line_of (pos_line p + 1)) (pos_character p)\<rparr>"

definition positions_to_utf16 :: "(string \<Rightarrow> nat \<Rightarrow> string) \<Rightarrow> string \<Rightarrow> lsp_diagnostic \<Rightarrow> lsp_diagnostic" where
  "positions_to_utf16 line_of file d =
     d\<lparr>range_start := position_to_utf16 (line_of file) (range_start d), range_end := position_to_utf16 (line_of file) (range_end d)\<rparr>"

definition make_line_lookup :: "'r front_end \<Rightarrow> file_texts \<Rightarrow> 'r \<Rightarrow> 'r document_store \<Rightarrow> string \<Rightarrow> nat \<Rightarrow> string" where
  "make_line_lookup fe disk r documents file ln =
     (let view = get_source_line (sources_of fe r) file ln in
      if view \<noteq> [] then view
      else case text_of documents file of Some t \<Rightarrow> line_from_text t ln
        | None \<Rightarrow> line_from_text (case disk file of None \<Rightarrow> [] | Some t \<Rightarrow> t) ln)"

subsection \<open>The worker\<close>

record 'r worker =
  documents :: "'r document_store"
  workspace_root :: string
  utf16_positions :: bool
  pending_diag_deadlines :: "(string \<times> nat) list"
  publications :: "(string \<times> lsp_diagnostic list) list"

definition DIAGNOSTICS_DEBOUNCE :: nat where
  "DIAGNOSTICS_DEBOUNCE = 200"

definition new_worker :: "'r worker" where
  "new_worker = \<lparr>documents = DocumentStore, workspace_root = [], utf16_positions = True,
     pending_diag_deadlines = [], publications = []\<rparr>"

definition convert_diagnostics :: "'r front_end \<Rightarrow> file_texts \<Rightarrow> 'r \<Rightarrow> 'r worker \<Rightarrow> string \<Rightarrow> lsp_diagnostic list \<Rightarrow> lsp_diagnostic list" where
  "convert_diagnostics fe disk r w file ds =
     (if utf16_positions w then map (positions_to_utf16 (make_line_lookup fe disk r (documents w)) file) ds else ds)"

definition schedule_diagnostics :: "nat \<Rightarrow> string \<Rightarrow> 'r worker \<Rightarrow> 'r worker" where
  "schedule_diagnostics now path w =
     w\<lparr>pending_diag_deadlines := AList.update path (now + DIAGNOSTICS_DEBOUNCE) (pending_diag_deadlines w)\<rparr>"

definition ensure_file :: "string \<Rightarrow> grouped \<Rightarrow> grouped" where
  "ensure_file f g = (case map_of g f of None \<Rightarrow> AList.update f [] g | Some _ \<Rightarrow> g)"

definition nonempty_files :: "grouped \<Rightarrow> string list" where
  "nonempty_files g = sort (map fst (filter (\<lambda>(_, ds). ds \<noteq> []) g))"

text \<open>A task that throws leaves the state it reached; the second component is the exception.\<close>

definition do_publish_diagnostics :: "'r front_end \<Rightarrow> file_texts \<Rightarrow> string \<Rightarrow> 'r worker \<Rightarrow> 'r worker \<times> store_error option" where
  "do_publish_diagnostics fe disk path w =
     (case ensure_analysed fe disk path (documents w) of
        (Inl e, st) \<Rightarrow> (w\<lparr>documents := st\<rparr>, Some e)
      | (Inr key, st) \<Rightarrow>
          (case map_of (module_results st) key of None \<Rightarrow> (w\<lparr>documents := st\<rparr>, Some Dangling_Reference)
           | Some b \<Rightarrow>
               let r = bundle_result b;
                   grouped = ensure_file path (group_diagnostics_by_file (diagnostics_of fe r));
                   (stale, st) = files_that_became_clean (modules_of fe r) (nonempty_files grouped) st;
                   grouped = fold ensure_file stale grouped;
                   w = w\<lparr>documents := st\<rparr>
               in (w\<lparr>publications := publications w @
                     map (\<lambda>(file, ds). (path_to_uri file, convert_diagnostics fe disk r w file ds)) grouped\<rparr>, None)))"

definition publish_diagnostics_now :: "'r front_end \<Rightarrow> file_texts \<Rightarrow> string \<Rightarrow> 'r worker \<Rightarrow> 'r worker \<times> store_error option" where
  "publish_diagnostics_now fe disk path w =
     do_publish_diagnostics fe disk path (w\<lparr>pending_diag_deadlines := AList.delete path (pending_diag_deadlines w)\<rparr>)"

text \<open>The sweep erases a due entry before it publishes; an exception leaves the rest for the next sweep.\<close>

fun sweep_entries :: "'r front_end \<Rightarrow> file_texts \<Rightarrow> nat \<Rightarrow> (string \<times> nat) list \<Rightarrow> 'r worker \<Rightarrow> 'r worker \<times> store_error option" where
  "sweep_entries fe disk now [] w = (w, None)"
| "sweep_entries fe disk now ((path, deadline) # es) w =
     (if deadline \<le> now then
        (case do_publish_diagnostics fe disk path (w\<lparr>pending_diag_deadlines := AList.delete path (pending_diag_deadlines w)\<rparr>) of
           (w, Some e) \<Rightarrow> (w, Some e)
         | (w, None) \<Rightarrow> sweep_entries fe disk now es w)
      else sweep_entries fe disk now es w)"

definition sweep_due_diagnostics :: "'r front_end \<Rightarrow> file_texts \<Rightarrow> nat \<Rightarrow> 'r worker \<Rightarrow> 'r worker \<times> store_error option" where
  "sweep_due_diagnostics fe disk now w = sweep_entries fe disk now (pending_diag_deadlines w) w"

fun closure_diagnostics ::
  "'r front_end \<Rightarrow> file_texts \<Rightarrow> string \<Rightarrow> string list \<Rightarrow> 'r worker \<Rightarrow> 'r worker \<times> (store_error + lsp_diagnostic list)" where
  "closure_diagnostics fe disk path [] w = (w, Inr [])"
| "closure_diagnostics fe disk path (open_path # ps) w =
     (case ensure_analysed fe disk open_path (documents w) of
        (Inl e, st) \<Rightarrow> (w\<lparr>documents := st\<rparr>, Inl e)
      | (Inr key, st) \<Rightarrow>
          (case map_of (module_results st) key of None \<Rightarrow> (w\<lparr>documents := st\<rparr>, Inl Dangling_Reference)
           | Some b \<Rightarrow>
               (case map_of (group_diagnostics_by_file (diagnostics_of fe (bundle_result b))) path of
                  Some (d # ds) \<Rightarrow> (w\<lparr>documents := st\<rparr>,
                    Inr (convert_diagnostics fe disk (bundle_result b) (w\<lparr>documents := st\<rparr>) path (d # ds)))
                | _ \<Rightarrow> closure_diagnostics fe disk path ps (w\<lparr>documents := st\<rparr>))))"

definition closure_diagnostics_for :: "'r front_end \<Rightarrow> file_texts \<Rightarrow> string \<Rightarrow> 'r worker \<Rightarrow> 'r worker \<times> (store_error + lsp_diagnostic list)" where
  "closure_diagnostics_for fe disk path w = closure_diagnostics fe disk path (open_paths (documents w)) w"

subsection \<open>Tasks\<close>

definition did_open :: "'r front_end \<Rightarrow> file_texts \<Rightarrow> string \<Rightarrow> string \<Rightarrow> 'r worker \<Rightarrow> 'r worker \<times> store_error option" where
  "did_open fe disk path content w =
     publish_diagnostics_now fe disk path (w\<lparr>documents := open_document fe path content (documents w)\<rparr>)"

definition did_change :: "'r front_end \<Rightarrow> nat \<Rightarrow> string \<Rightarrow> string \<Rightarrow> 'r worker \<Rightarrow> 'r worker" where
  "did_change fe now path content w =
     schedule_diagnostics now path (w\<lparr>documents := update_document fe path content (documents w)\<rparr>)"

definition did_change_watched_files :: "'r front_end \<Rightarrow> nat \<Rightarrow> string list \<Rightarrow> 'r worker \<Rightarrow> 'r worker" where
  "did_change_watched_files fe now changed w =
     (let w = w\<lparr>documents := fold (invalidate_external fe) changed (documents w)\<rparr>
      in fold (schedule_diagnostics now) (open_paths (documents w)) w)"

definition did_close :: "'r front_end \<Rightarrow> file_texts \<Rightarrow> string \<Rightarrow> string \<Rightarrow> 'r worker \<Rightarrow> 'r worker \<times> store_error option" where
  "did_close fe disk path uri w =
     (case closure_diagnostics_for fe disk path (w\<lparr>documents := close_document fe path (documents w)\<rparr>) of
        (w, Inl e) \<Rightarrow> (w, Some e)
      | (w, Inr ds) \<Rightarrow>
          (w\<lparr>publications := publications w @ [(uri, ds)], documents := prune_stale_diag_tracking (documents w)\<rparr>, None))"

subsection \<open>Grouping\<close>

text \<open>The diagnostics of one file, in the order they were reported, and what a map of the code holds under a key.\<close>

definition file_diagnostics :: "diagnostic list \<Rightarrow> string \<Rightarrow> lsp_diagnostic list" where
  "file_diagnostics ds f = (if f = [] then [] else map to_lsp_diagnostic (filter (\<lambda>d. filename (location d) = f) ds))"

definition lookup_list :: "(string \<times> 'a list) list \<Rightarrow> string \<Rightarrow> 'a list" where
  "lookup_list m k = (case map_of m k of None \<Rightarrow> [] | Some xs \<Rightarrow> xs)"

lemma push_diagnostic_lookup:
  "lookup_list (push_diagnostic d g) f =
     (if filename (location d) = f \<and> f \<noteq> [] then lookup_list g f @ [to_lsp_diagnostic d] else lookup_list g f)"
  by (auto simp: push_diagnostic_def lookup_list_def update_conv')

lemma push_diagnostic_distinct: "distinct (map fst g) \<Longrightarrow> distinct (map fst (push_diagnostic d g))"
  by (simp add: push_diagnostic_def distinct_update)

lemma group_diagnostics:
  "lookup_list (group_diagnostics_by_file ds) f = file_diagnostics ds f" "distinct (map fst (group_diagnostics_by_file ds))"
proof -
  have "lookup_list (fold push_diagnostic ds g) f = lookup_list g f @ file_diagnostics ds f" for g
    by (induction ds arbitrary: g) (auto simp: push_diagnostic_lookup file_diagnostics_def)
  then show "lookup_list (group_diagnostics_by_file ds) f = file_diagnostics ds f"
    by (simp add: group_diagnostics_by_file_def) (simp add: lookup_list_def)
  have "distinct (map fst g) \<Longrightarrow> distinct (map fst (fold push_diagnostic ds g))" for g
    by (induction ds arbitrary: g) (simp_all add: push_diagnostic_distinct)
  then show "distinct (map fst (group_diagnostics_by_file ds))" by (simp add: group_diagnostics_by_file_def)
qed

lemma ensure_file:
  "lookup_list (ensure_file f g) k = lookup_list g k" "map_of (ensure_file f g) k = None \<longleftrightarrow> map_of g k = None \<and> k \<noteq> f"
  "distinct (map fst g) \<Longrightarrow> distinct (map fst (ensure_file f g))"
  by (auto simp: ensure_file_def lookup_list_def update_conv' distinct_update split: option.splits)

lemma ensure_files:
  "lookup_list (fold ensure_file fs g) k = lookup_list g k"
  "map_of (fold ensure_file fs g) k = None \<longleftrightarrow> map_of g k = None \<and> k \<notin> set fs"
  "distinct (map fst g) \<Longrightarrow> distinct (map fst (fold ensure_file fs g))"
  by (induction fs arbitrary: g) (auto simp: ensure_file)

lemma nonempty_files:
  assumes "distinct (map fst g)"
  shows "set (nonempty_files g) = {f. lookup_list g f \<noteq> []}"
proof -
  have "f \<in> set (nonempty_files g) \<longleftrightarrow> lookup_list g f \<noteq> []" for f
  proof -
    have "f \<in> set (nonempty_files g) \<longleftrightarrow> (\<exists>ds. (f, ds) \<in> set g \<and> ds \<noteq> [])" by (force simp: nonempty_files_def)
    also have "\<dots> \<longleftrightarrow> (\<exists>ds. map_of g f = Some ds \<and> ds \<noteq> [])" using assms by (metis map_of_eq_Some_iff)
    also have "\<dots> \<longleftrightarrow> lookup_list g f \<noteq> []" by (auto simp: lookup_list_def split: option.splits)
    finally show ?thesis .
  qed
  then show ?thesis by blast
qed

subsection \<open>What the client shows\<close>

definition shown :: "(string \<times> lsp_diagnostic list) list \<Rightarrow> string \<Rightarrow> lsp_diagnostic list" where
  "shown log uri = lookup_list (rev log) uri"

lemma path_to_uri_inj: "path_to_uri a = path_to_uri b \<longleftrightarrow> a = b"
  by (metis path_to_uri_def percent_roundtrip same_append_eq)

lemma shown_append:
  assumes "distinct (map fst g)"
  shows "shown (log @ map (\<lambda>(file, ds). (path_to_uri file, c file ds)) g) (path_to_uri f) =
    (case map_of g f of None \<Rightarrow> shown log (path_to_uri f) | Some ds \<Rightarrow> c f ds)"
proof -
  have "map_of (rev (map (\<lambda>(file, ds). (path_to_uri file, c file ds)) g)) (path_to_uri f) = map_option (c f) (map_of g f)"
  proof -
    have e: "map fst (map (\<lambda>(file, ds). (path_to_uri file, c file ds)) g) = map path_to_uri (map fst g)" by (induction g) auto
    have "distinct (map fst (map (\<lambda>(file, ds). (path_to_uri file, c file ds)) g))"
      using assms by (simp add: e distinct_map [of path_to_uri] inj_on_def path_to_uri_inj del: map_map)
    then have "map_of (rev (map (\<lambda>(file, ds). (path_to_uri file, c file ds)) g)) = map_of (map (\<lambda>(file, ds). (path_to_uri file, c file ds)) g)"
      by (subst map_of_inject_set) (simp_all add: rev_map [symmetric])
    moreover have "map_of (map (\<lambda>(file, ds). (path_to_uri file, c file ds)) g) (path_to_uri f) = map_option (c f) (map_of g f)"
      by (induction g) (auto simp: path_to_uri_inj)
    ultimately show ?thesis by simp
  qed
  then show ?thesis by (auto simp: shown_def lookup_list_def map_add_def split: option.splits)
qed

lemma convert_empty [simp]: "convert_diagnostics fe disk r w f [] = []" "convert_diagnostics fe disk r w f ds = [] \<longleftrightarrow> ds = []"
  by (simp_all add: convert_diagnostics_def)

text \<open>Every file the client shows diagnostics for is tracked, so that it can be cleared.\<close>

definition tracked :: "'r worker \<Rightarrow> bool" where
  "tracked w \<longleftrightarrow> (\<forall>f. shown (publications w) (path_to_uri f) \<noteq> [] \<longrightarrow> f \<in> set (last_published (documents w)))"

lemma files_that_became_clean:
  assumes "files_that_became_clean dirs cur st = (stale, st')"
  shows "set stale = {f \<in> set (last_published st). parent_path f \<in> set dirs \<and> f \<notin> set cur}"
    "set (last_published st') = (set (last_published st) - set stale) \<union> set cur"
    "open_texts st' = open_texts st" "module_results st' = module_results st" "bundle_of_dir st' = bundle_of_dir st"
    "access_clock st' = access_clock st"
proof -
  have "set (fold insort_insert xs ys) = set ys \<union> set xs" for xs ys :: "string list"
    by (induction xs arbitrary: ys) (auto simp: set_insort_insert)
  then show "set (last_published st') = (set (last_published st) - set stale) \<union> set cur"
    using assms by (auto simp: files_that_became_clean_def Let_def)
qed (use assms in \<open>auto simp: files_that_became_clean_def Let_def\<close>)

definition publication_round ::
  "'r front_end \<Rightarrow> file_texts \<Rightarrow> string \<Rightarrow> 'r worker \<Rightarrow> 'r worker \<Rightarrow> string \<Rightarrow> 'r cached_bundle \<Rightarrow> grouped \<Rightarrow> bool" where
  "publication_round fe disk path w w' key b g \<longleftrightarrow>
     map_of (module_results (documents w')) key = Some b \<and>
     (key = canonicalize fe (parent_path path) \<or> canonicalize fe (parent_path path) \<in> set (modules_of fe (bundle_result b))) \<and>
     store_ok fe (documents w') \<and> access_clock (documents w') \<le> access_clock (documents w) + 1 \<and>
     distinct (map fst g) \<and> (\<forall>f. lookup_list g f = file_diagnostics (diagnostics_of fe (bundle_result b)) f) \<and> map_of g path \<noteq> None \<and>
     (\<forall>f \<in> set (last_published (documents w)). parent_path f \<in> set (modules_of fe (bundle_result b)) \<longrightarrow> map_of g f \<noteq> None) \<and>
     publications w' = publications w @ map (\<lambda>(file, ds). (path_to_uri file, convert_diagnostics fe disk (bundle_result b) w' file ds)) g \<and>
     (\<forall>f. f \<in> set (last_published (documents w')) \<longleftrightarrow>
        lookup_list g f \<noteq> [] \<or> f \<in> set (last_published (documents w)) \<and> parent_path f \<notin> set (modules_of fe (bundle_result b)))"

text \<open>One publication round that returns, in terms of the analysis it publishes.\<close>

lemma publish_round:
  assumes ok: "store_ok fe (documents w)" and clock: "access_clock (documents w) + 1 < 2 ^ 64"
    and pub: "do_publish_diagnostics fe disk path w = (w', None)"
  obtains key b g where "publication_round fe disk path w w' key b g"
proof -
  obtain res st where en: "ensure_analysed fe disk path (documents w) = (res, st)" by fastforce
  note ens = ensure_analysed_ensured [OF ok clock en]
  then obtain key where key: "res = Inr key" using pub en by (cases res) (auto simp: do_publish_diagnostics_def)
  obtain b where b: "bundle_at st key = Some b" and
    cov: "key = canonicalize fe (parent_path path) \<or> canonicalize fe (parent_path path) \<in> set (modules_of fe (bundle_result b))"
    using ens key by (auto simp: ensured_def)
  define g0 where "g0 = ensure_file path (group_diagnostics_by_file (diagnostics_of fe (bundle_result b)))"
  obtain stale st' where cl: "files_that_became_clean (modules_of fe (bundle_result b)) (nonempty_files g0) st = (stale, st')" by fastforce
  note cl' = files_that_became_clean [OF cl]
  define g where "g = fold ensure_file stale g0"
  have g0: "distinct (map fst g0)" "\<And>f. lookup_list g0 f = file_diagnostics (diagnostics_of fe (bundle_result b)) f"
    by (simp_all add: g0_def ensure_file group_diagnostics)
  have w': "w' = w\<lparr>documents := st', publications := publications w @
      map (\<lambda>(file, ds). (path_to_uri file, convert_diagnostics fe disk (bundle_result b) (w\<lparr>documents := st'\<rparr>) file ds)) g\<rparr>"
    using pub en key b cl unfolding g_def by (simp add: do_publish_diagnostics_def g0_def Let_def)
  have lp: "last_published st = last_published (documents w)" using ens by (simp add: ensured_def)
  have "publication_round fe disk path w w' key b g"
    unfolding publication_round_def
  proof (intro conjI allI ballI impI)
    show "bundle_at (documents w') key = Some b" using b cl'(4) by (simp add: w')
    show "key = canonicalize fe (parent_path path) \<or> canonicalize fe (parent_path path) \<in> set (modules_of fe (bundle_result b))" by (rule cov)
    show "store_ok fe (documents w')" "access_clock (documents w') \<le> access_clock (documents w) + 1"
      using ens same_cache(1) [OF cl'(4,5,6)] cl'(6) by (simp_all add: w' ensured_def)
    show "distinct (map fst g)" "\<And>f. lookup_list g f = file_diagnostics (diagnostics_of fe (bundle_result b)) f"
      using g0 by (simp_all add: g_def ensure_files)
    show "map_of g path \<noteq> None" by (simp add: g_def ensure_files g0_def ensure_file)
    have ne: "f \<in> set (nonempty_files g0) \<longleftrightarrow> lookup_list g f \<noteq> []" for f
      using nonempty_files [OF g0(1)] by (simp add: g_def ensure_files)
    show "map_of g f \<noteq> None" if "f \<in> set (last_published (documents w))" "parent_path f \<in> set (modules_of fe (bundle_result b))" for f
    proof (cases "f \<in> set stale")
      case True
      then show ?thesis by (simp add: g_def ensure_files)
    next
      case False
      then have "f \<in> set (nonempty_files g0)" using that cl'(1) lp by auto
      then show ?thesis using ne by (auto simp: lookup_list_def split: option.splits)
    qed
    show "publications w' = publications w @ map (\<lambda>(file, ds). (path_to_uri file, convert_diagnostics fe disk (bundle_result b) w' file ds)) g"
      unfolding w' by (auto simp: convert_diagnostics_def)
    show "f \<in> set (last_published (documents w')) \<longleftrightarrow> lookup_list g f \<noteq> [] \<or> f \<in> set (last_published (documents w)) \<and> parent_path f \<notin> set (modules_of fe (bundle_result b))" for f
      using cl'(1,2) lp ne by (auto simp: w')
  qed
  then show thesis by (rule that)
qed

lemma publication_round_shows:
  assumes "publication_round fe disk path w w' key b g" "tracked w"
  shows "f = path \<or> parent_path f \<in> set (modules_of fe (bundle_result b)) \<Longrightarrow>
      shown (publications w') (path_to_uri f) = convert_diagnostics fe disk (bundle_result b) w' f (file_diagnostics (diagnostics_of fe (bundle_result b)) f)"
    and "tracked w'" and "length (publications w) < length (publications w')"
proof -
  have g: "distinct (map fst g)" "\<And>f. lookup_list g f = file_diagnostics (diagnostics_of fe (bundle_result b)) f" "map_of g path \<noteq> None"
      "\<And>f. f \<in> set (last_published (documents w)) \<Longrightarrow> parent_path f \<in> set (modules_of fe (bundle_result b)) \<Longrightarrow> map_of g f \<noteq> None"
    and p: "publications w' = publications w @ map (\<lambda>(file, ds). (path_to_uri file, convert_diagnostics fe disk (bundle_result b) w' file ds)) g"
    and t: "\<And>f. f \<in> set (last_published (documents w')) \<longleftrightarrow> lookup_list g f \<noteq> [] \<or> f \<in> set (last_published (documents w)) \<and> parent_path f \<notin> set (modules_of fe (bundle_result b))"
    using assms(1) unfolding publication_round_def by blast+
  have sh: "shown (publications w') (path_to_uri f) = (if map_of g f = None then shown (publications w) (path_to_uri f)
      else convert_diagnostics fe disk (bundle_result b) w' f (lookup_list g f))" for f
    unfolding p shown_append [OF g(1)] by (auto simp: lookup_list_def split: option.splits)
  have none: "map_of g f = None \<Longrightarrow> lookup_list g f = []" for f by (simp add: lookup_list_def)
  show "shown (publications w') (path_to_uri f) = convert_diagnostics fe disk (bundle_result b) w' f (file_diagnostics (diagnostics_of fe (bundle_result b)) f)"
    if "f = path \<or> parent_path f \<in> set (modules_of fe (bundle_result b))"
  proof (cases "map_of g f = None")
    case True
    then have "f \<notin> set (last_published (documents w))" using that g(3,4) by blast
    then have "shown (publications w) (path_to_uri f) = []" using assms(2) unfolding tracked_def by blast
    then show ?thesis using True sh none [OF True] by (simp flip: g(2))
  next
    case False
    then show ?thesis unfolding sh by (simp only: if_False g(2))
  qed
  show "tracked w'"
    unfolding tracked_def
  proof (intro allI impI)
    fix f assume "shown (publications w') (path_to_uri f) \<noteq> []"
    then show "f \<in> set (last_published (documents w'))"
      using assms(2) g(4) [of f] t [of f] none [of f] unfolding sh tracked_def by (cases "map_of g f = None") auto
  qed
  have "g \<noteq> []" using g(3) by auto
  then show "length (publications w) < length (publications w')" unfolding p by simp
qed

subsection \<open>Sessions without closed documents\<close>

text \<open>
  What the worker does for the notifications of a session: documents are opened and edited, files change on disk and are
  reported, requests analyse, and the sweep republishes. An exception leaves the state it reached.
\<close>

datatype worker_event =
    Ev_Open string string
  | Ev_Change nat string string
  | Ev_Disk string "string option"
  | Ev_Watched nat "string list"
  | Ev_Request string
  | Ev_Sweep nat

fun exec_event :: "'r front_end \<Rightarrow> worker_event \<Rightarrow> file_texts \<times> 'r worker \<Rightarrow> file_texts \<times> 'r worker" where
  "exec_event fe (Ev_Open path t) (disk, w) = (disk, fst (did_open fe disk path t w))"
| "exec_event fe (Ev_Change now path t) (disk, w) = (disk, did_change fe now path t w)"
| "exec_event fe (Ev_Disk path c) (disk, w) = (disk(path := c), w)"
| "exec_event fe (Ev_Watched now paths) (disk, w) = (disk, did_change_watched_files fe now paths w)"
| "exec_event fe (Ev_Request path) (disk, w) = (disk, w\<lparr>documents := snd (ensure_analysed fe disk path (documents w))\<rparr>)"
| "exec_event fe (Ev_Sweep now) (disk, w) = (disk, fst (sweep_due_diagnostics fe disk now w))"

definition run_events :: "'r front_end \<Rightarrow> worker_event list \<Rightarrow> file_texts \<Rightarrow> file_texts \<times> 'r worker" where
  "run_events fe evs disk = fold (exec_event fe) evs (disk, new_worker)"

text \<open>The clock has not passed the number of notifications sent and requests served.\<close>

definition worker_ok :: "'r front_end \<Rightarrow> nat \<Rightarrow> 'r worker \<Rightarrow> bool" where
  "worker_ok fe n w \<longleftrightarrow> store_ok fe (documents w) \<and> tracked w \<and> access_clock (documents w) \<le> length (publications w) + n"

lemma worker_ok_mono: "worker_ok fe n w \<Longrightarrow> n \<le> m \<Longrightarrow> worker_ok fe m w"
  by (simp add: worker_ok_def)

lemma worker_ok_documents:
  assumes "worker_ok fe n w" "store_ok fe st" "last_published st = last_published (documents w)" "access_clock st \<le> access_clock (documents w)"
  shows "worker_ok fe n (w\<lparr>documents := st\<rparr>)"
  using assms by (auto simp: worker_ok_def tracked_def)

lemma worker_ok_deadlines [simp]: "worker_ok fe n (w\<lparr>pending_diag_deadlines := ds\<rparr>) = worker_ok fe n w"
  by (simp add: worker_ok_def tracked_def)

lemma publish_keeps:
  assumes ok: "worker_ok fe n w" and room: "length (publications w) + n + 1 < 2 ^ 64"
    and pub: "do_publish_diagnostics fe disk path w = (w', e)"
  shows "worker_ok fe n w' \<and> length (publications w) \<le> length (publications w')"
proof -
  have st: "store_ok fe (documents w)" "access_clock (documents w) + 1 < 2 ^ 64" using ok room by (simp_all add: worker_ok_def)
  show ?thesis
  proof (cases e)
    case None
    obtain key b g where r: "publication_round fe disk path w w' key b g" using publish_round [OF st] pub None by blast
    have "tracked w'" "length (publications w) < length (publications w')"
      using publication_round_shows(2,3) [OF r] ok by (simp_all add: worker_ok_def)
    moreover have "store_ok fe (documents w')" "access_clock (documents w') \<le> access_clock (documents w) + 1"
      using r by (simp_all add: publication_round_def)
    ultimately show ?thesis using ok by (simp add: worker_ok_def)
  next
    case (Some er)
    obtain res st' where en: "ensure_analysed fe disk path (documents w) = (res, st')" by fastforce
    note ens = ensure_analysed_ensured [OF st en]
    obtain er' where "res = Inl er'" "w' = w\<lparr>documents := st'\<rparr>"
      using pub en Some ens by (auto simp: do_publish_diagnostics_def ensured_def Let_def split: sum.splits option.splits prod.splits)
    then show ?thesis using ens worker_ok_documents [OF ok, of st'] by (simp add: ensured_def)
  qed
qed

lemma publish_mono: "length (publications w) \<le> length (publications (fst (do_publish_diagnostics fe disk p w)))"
  by (auto simp: do_publish_diagnostics_def Let_def split: sum.splits option.splits prod.splits)

lemma sweep_mono: "length (publications w) \<le> length (publications (fst (sweep_entries fe disk now es w)))"
proof (induction es arbitrary: w)
  case (Cons x es)
  obtain p d where x: "x = (p, d)" by fastforce
  obtain w1 e1 where w1: "do_publish_diagnostics fe disk p (w\<lparr>pending_diag_deadlines := AList.delete p (pending_diag_deadlines w)\<rparr>) = (w1, e1)" by fastforce
  have "length (publications w) \<le> length (publications w1)" using publish_mono [of "w\<lparr>pending_diag_deadlines := AList.delete p (pending_diag_deadlines w)\<rparr>" fe disk p] w1 by simp
  then show ?case using Cons.IH [of w1] Cons.IH [of w] w1 x by (auto split: option.splits intro: order_trans)
qed simp

lemma sweep_keeps:
  assumes "worker_ok fe n w" "sweep_entries fe disk now es w = (w', e)" "length (publications w') + n + 1 < 2 ^ 64"
  shows "worker_ok fe n w'"
  using assms
proof (induction es arbitrary: w)
  case (Cons x es)
  obtain p d where x: "x = (p, d)" by fastforce
  show ?case
  proof (cases "d \<le> now")
    case False
    then show ?thesis using Cons x by simp
  next
    case True
    obtain w1 e1 where w1: "do_publish_diagnostics fe disk p (w\<lparr>pending_diag_deadlines := AList.delete p (pending_diag_deadlines w)\<rparr>) = (w1, e1)" by fastforce
    have "length (publications w) \<le> length (publications w')" using sweep_mono [of w fe disk now "x # es"] Cons.prems(2) by simp
    then have "worker_ok fe n w1" using publish_keeps [OF _ _ w1, of n] Cons.prems(1,3) by simp
    then show ?thesis using Cons.IH [of w1] Cons.prems x True w1 by (cases e1) auto
  qed
qed simp

lemma invalidate_worker:
  assumes "worker_ok fe n w" "module_results st = module_results (documents w)" "bundle_of_dir st = bundle_of_dir (documents w)"
    "access_clock st = access_clock (documents w)" "last_published st = last_published (documents w)"
  shows "worker_ok fe n (w\<lparr>documents := invalidate fe p st\<rparr>)"
proof -
  have ok: "store_ok fe st" using assms(1) same_cache(1) [OF assms(2,3,4)] by (simp add: worker_ok_def)
  then have "last_published (invalidate fe p st) = last_published st"
    using invalidate_shrinks(2) [of fe st p] by (simp add: store_ok_def shrinks_def)
  then show ?thesis using invalidate_ok [OF ok, of p] assms(4,5) by (intro worker_ok_documents [OF assms(1)]) simp_all
qed

lemma watched_keeps:
  assumes "worker_ok fe n w"
  shows "worker_ok fe n (did_change_watched_files fe now ps w)" "publications (did_change_watched_files fe now ps w) = publications w"
proof -
  have "worker_ok fe n (w\<lparr>documents := fold (invalidate_external fe) ps (documents w)\<rparr>)"
    using assms
  proof (induction ps arbitrary: w)
    case (Cons p ps)
    have "worker_ok fe n (w\<lparr>documents := invalidate fe p (documents w)\<rparr>)" by (rule invalidate_worker [OF Cons.prems]) simp_all
    from Cons.IH [OF this] show ?case by (simp add: invalidate_external_def)
  qed simp
  moreover have "worker_ok fe n (fold (schedule_diagnostics now) qs v) = worker_ok fe n v"
    "publications (fold (schedule_diagnostics now) qs v) = publications v" for qs v
    by (induction qs arbitrary: v) (simp_all add: schedule_diagnostics_def)
  ultimately show "worker_ok fe n (did_change_watched_files fe now ps w)" "publications (did_change_watched_files fe now ps w) = publications w"
    by (simp_all add: did_change_watched_files_def Let_def)
qed

lemma event_mono:
  assumes "exec_event fe ev (disk, w) = (disk', w')"
  shows "length (publications w) \<le> length (publications w')"
proof -
  have sched: "publications (fold (schedule_diagnostics now) qs v) = publications v" for now qs and v :: "'a worker"
    by (induction qs arbitrary: v) (simp_all add: schedule_diagnostics_def)
  show ?thesis
  proof (cases ev)
    case (Ev_Open p t)
    then show ?thesis
      using assms publish_mono [of "w\<lparr>documents := open_document fe p t (documents w), pending_diag_deadlines := AList.delete p (pending_diag_deadlines w)\<rparr>" fe disk p]
      by (auto simp: did_open_def publish_diagnostics_now_def)
  next
    case (Ev_Sweep now)
    then show ?thesis using assms sweep_mono [of w fe disk now "pending_diag_deadlines w"] by (auto simp: sweep_due_diagnostics_def)
  qed (use assms in \<open>auto simp: did_change_def did_change_watched_files_def schedule_diagnostics_def sched Let_def\<close>)
qed

lemma event_keeps:
  assumes ok: "worker_ok fe n w" and e: "exec_event fe ev (disk, w) = (disk', w')" and room: "length (publications w') + n + 1 < 2 ^ 64"
  shows "worker_ok fe (Suc n) w' \<and> length (publications w) \<le> length (publications w')"
proof (cases ev)
  case (Ev_Open p t)
  define w1 where "w1 = w\<lparr>documents := open_document fe p t (documents w), pending_diag_deadlines := AList.delete p (pending_diag_deadlines w)\<rparr>"
  have "worker_ok fe n (w\<lparr>documents := open_document fe p t (documents w)\<rparr>)"
    unfolding open_document_def by (rule invalidate_worker [OF ok]) simp_all
  then have w1: "worker_ok fe n w1" "publications w1 = publications w" by (simp_all add: w1_def worker_ok_def tracked_def)
  obtain er where pub: "do_publish_diagnostics fe disk p w1 = (w', er)"
    using e Ev_Open by (cases "do_publish_diagnostics fe disk p w1") (auto simp: did_open_def publish_diagnostics_now_def w1_def)
  have "length (publications w1) \<le> length (publications w')" using publish_mono [of w1 fe disk p] pub by simp
  then show ?thesis using publish_keeps [OF w1(1) _ pub] room w1(2) worker_ok_mono [of fe n w' "Suc n"] by simp
next
  case (Ev_Change now p t)
  have "worker_ok fe n (w\<lparr>documents := update_document fe p t (documents w)\<rparr>)"
    unfolding update_document_def by (rule invalidate_worker [OF ok]) simp_all
  then show ?thesis using e Ev_Change worker_ok_mono [of fe n w' "Suc n"] by (auto simp: did_change_def schedule_diagnostics_def)
next
  case (Ev_Disk p c)
  then show ?thesis using e ok worker_ok_mono [of fe n w' "Suc n"] by simp
next
  case (Ev_Watched now ps)
  then show ?thesis using e watched_keeps [OF ok, of now ps] worker_ok_mono [of fe n w' "Suc n"] by auto
next
  case (Ev_Request p)
  obtain res st where en: "ensure_analysed fe disk p (documents w) = (res, st)" by fastforce
  have w': "w' = w\<lparr>documents := st\<rparr>" using e Ev_Request en by simp
  have "ensured fe disk p (documents w) res st" using ok room by (intro ensure_analysed_ensured [OF _ _ en]) (simp_all add: worker_ok_def w')
  then show ?thesis using ok by (auto simp: w' worker_ok_def ensured_def tracked_def)
next
  case (Ev_Sweep now)
  then obtain er where "sweep_entries fe disk now (pending_diag_deadlines w) w = (w', er)"
    using e by (cases "sweep_entries fe disk now (pending_diag_deadlines w) w") (simp add: sweep_due_diagnostics_def)
  then show ?thesis
    using sweep_keeps [OF ok _ room] sweep_mono [of w fe disk now "pending_diag_deadlines w"] worker_ok_mono [of fe n w' "Suc n"] by auto
qed

lemma new_worker_ok: "worker_ok fe 0 new_worker"
  by (simp add: worker_ok_def new_worker_def tracked_def shown_def lookup_list_def empty_store)

lemma run_events_keeps:
  assumes "run_events fe evs disk = (disk', w)" "length (publications w) + length evs < 2 ^ 64"
  shows "worker_ok fe (length evs) w"
  using assms
proof (induction evs arbitrary: disk' w rule: rev_induct)
  case Nil
  then show ?case using new_worker_ok by (simp add: run_events_def)
next
  case (snoc ev evs)
  obtain d1 w1 where r: "run_events fe evs disk = (d1, w1)" by fastforce
  then have e: "exec_event fe ev (d1, w1) = (disk', w)" using snoc.prems(1) by (simp add: run_events_def)
  have mono: "length (publications w1) \<le> length (publications w)" by (rule event_mono [OF e])
  then have "worker_ok fe (length evs) w1" using snoc.IH [OF r] snoc.prems(2) by simp
  then show ?case using event_keeps [OF _ e] snoc.prems(2) by simp
qed


definition first_open :: "string option worker" where
  "first_open = fst (did_open two_modules disk_bad ''/a/a.mir'' ''x'' new_worker)"

lemmas worker_eval = did_open_def did_close_def did_change_watched_files_def publish_diagnostics_now_def do_publish_diagnostics_def
  sweep_due_diagnostics_def closure_diagnostics_for_def schedule_diagnostics_def files_that_became_clean_def ensure_file_def
  nonempty_files_def group_diagnostics_by_file_def push_diagnostic_def prune_stale_diag_tracking_def open_paths_def DIAGNOSTICS_DEBOUNCE_def

definition small_worker :: "(string \<times> string) list \<Rightarrow> (string \<times> string option cached_bundle) list \<Rightarrow> (string \<times> string list) list \<Rightarrow>
    string list \<Rightarrow> nat \<Rightarrow> (string \<times> lsp_diagnostic list) list \<Rightarrow> string option worker" where
  "small_worker texts results index tracked_files clock log =
     \<lparr>documents = \<lparr>open_texts = texts, module_results = results, bundle_of_dir = index, last_published = tracked_files, access_clock = clock\<rparr>,
      workspace_root = [], utf16_positions = True, pending_diag_deadlines = [], publications = log\<rparr>"

lemma first_open_state:
  "\<exists>log. length log = 2 \<and> first_open = small_worker [(''/a/a.mir'', ''x'')] [(''/a'', \<lparr>bundle_result = Some ''bad'', last_access = 1\<rparr>)]
     [(''/a'', [''/a'']), (''/b'', [''/a''])] [b_file] 1 log"
  by (simp add: first_open_def new_worker_def DocumentStore_def disk_bad_def worker_eval store_eval b_error_def small_worker_def)

text \<open>The document \<^verbatim>\<open>/a/a.mir\<close> is open, the error in \<^verbatim>\<open>/b/b.mir\<close> is shown, then fixed on disk and reported; the next round clears it.\<close>

definition disk_good :: file_texts where
  "disk_good = disk_bad(b_file \<mapsto> ''good'')"

definition fixed_events :: "worker_event list" where
  "fixed_events = [Ev_Open ''/a/a.mir'' ''x'', Ev_Disk b_file (Some ''good''), Ev_Watched 0 [b_file]]"

definition before_round :: "string option worker" where
  "before_round = did_change_watched_files two_modules 0 [b_file] first_open"

lemma fixed_events_run: "run_events two_modules fixed_events disk_bad = (disk_good, before_round)"
  by (simp add: run_events_def fixed_events_def before_round_def first_open_def disk_good_def)

definition after_round :: "string option worker" where
  "after_round = fst (do_publish_diagnostics two_modules disk_good ''/a/a.mir'' before_round)"

lemma fixed_round:
  "do_publish_diagnostics two_modules disk_good ''/a/a.mir'' before_round = (after_round, None)" "length (publications before_round) = 2"
  "map_of (module_results (documents after_round)) = [''/a'' \<mapsto> \<lparr>bundle_result = Some ''good'', last_access = Suc (Suc 0)\<rparr>]"
proof -
  obtain log where l: "length log = 2" and e: "first_open = small_worker [(''/a/a.mir'', ''x'')] [(''/a'', \<lparr>bundle_result = Some ''bad'', last_access = 1\<rparr>)]
     [(''/a'', [''/a'']), (''/b'', [''/a''])] [b_file] 1 log" using first_open_state by blast
  show "do_publish_diagnostics two_modules disk_good ''/a/a.mir'' before_round = (after_round, None)" "length (publications before_round) = 2"
    "map_of (module_results (documents after_round)) = [''/a'' \<mapsto> \<lparr>bundle_result = Some ''good'', last_access = Suc (Suc 0)\<rparr>]"
    using l by (simp_all add: after_round_def before_round_def e small_worker_def worker_eval store_eval disk_good_def)
qed


subsection \<open>Diagnostics that are never cleared\<close>

text \<open>
  The file \<^verbatim>\<open>/b/b.mir\<close> has an error on disk, is opened with the error fixed, closed without saving, and later fixed on
  disk. Closing it shows the error of the file on disk again, without tracking it; the republication after the fix
  finds nothing tracked to clear.
\<close>

definition opened :: "string option worker" where
  "opened = fst (did_open two_modules disk_bad b_file ''good'' first_open)"

definition reclosed :: "string option worker" where
  "reclosed = fst (did_close two_modules disk_bad b_file (path_to_uri b_file) opened)"

definition repaired :: "string option worker" where
  "repaired = fst (sweep_due_diagnostics two_modules disk_good 200 (did_change_watched_files two_modules 0 [b_file] reclosed))"

lemma opened_state:
  "\<exists>log. opened = small_worker [(''/a/a.mir'', ''x''), (b_file, ''good'')] [(''/b'', \<lparr>bundle_result = Some ''good'', last_access = 2\<rparr>)]
     [(''/a'', [''/b'']), (''/b'', [''/b''])] [] 2 log"
proof -
  obtain log where e: "first_open = small_worker [(''/a/a.mir'', ''x'')] [(''/a'', \<lparr>bundle_result = Some ''bad'', last_access = 1\<rparr>)]
     [(''/a'', [''/a'']), (''/b'', [''/a''])] [b_file] 1 log" using first_open_state by blast
  show ?thesis by (simp add: opened_def e small_worker_def worker_eval store_eval) auto
qed

lemma reclosed_state:
  "\<exists>log d ds. reclosed = small_worker [(''/a/a.mir'', ''x'')] [(''/a'', \<lparr>bundle_result = Some ''bad'', last_access = 3\<rparr>)]
     [(''/a'', [''/a'']), (''/b'', [''/a''])] [] 3 (log @ [(path_to_uri b_file, d # ds)])"
proof -
  obtain log where e: "opened = small_worker [(''/a/a.mir'', ''x''), (b_file, ''good'')] [(''/b'', \<lparr>bundle_result = Some ''good'', last_access = 2\<rparr>)]
     [(''/a'', [''/b'']), (''/b'', [''/b''])] [] 2 log" using opened_state by blast
  show ?thesis
    by (simp add: reclosed_def e small_worker_def worker_eval store_eval disk_bad_def b_error_def convert_diagnostics_def)
qed

lemma repaired_state:
  "\<exists>log d ds. repaired = small_worker [(''/a/a.mir'', ''x'')] [(''/a'', \<lparr>bundle_result = Some ''good'', last_access = 4\<rparr>)]
     [(''/a'', [''/a'']), (''/b'', [''/a''])] [] 4 (log @ [(path_to_uri b_file, d # ds), (path_to_uri ''/a/a.mir'', [])])"
proof -
  obtain log d ds where e: "reclosed = small_worker [(''/a/a.mir'', ''x'')] [(''/a'', \<lparr>bundle_result = Some ''bad'', last_access = 3\<rparr>)]
     [(''/a'', [''/a'']), (''/b'', [''/a''])] [] 3 (log @ [(path_to_uri b_file, d # ds)])" using reclosed_state by blast
  show ?thesis by (simp add: repaired_def e small_worker_def worker_eval store_eval disk_good_def)
qed

text \<open>
  Then a file keeps an error on screen that no analysis reports: after the close and the external fix nothing is
  scheduled, the current analysis of the remaining document has no diagnostics, and the client still shows one for the
  closed file, which is not tracked.
\<close>

theorem closed_file_stays_marked:
  "shown (publications repaired) (path_to_uri b_file) \<noteq> [] \<and> pending_diag_deadlines repaired = [] \<and>
   analyse two_modules disk_good ''/a'' (map_of (open_texts (documents repaired))) = Some (Some ''good'') \<and>
   diagnostics_of two_modules (Some ''good'') = [] \<and> b_file \<notin> set (last_published (documents repaired))"
proof -
  obtain log d ds where e: "repaired = small_worker [(''/a/a.mir'', ''x'')] [(''/a'', \<lparr>bundle_result = Some ''good'', last_access = 4\<rparr>)]
     [(''/a'', [''/a'']), (''/b'', [''/a''])] [] 4 (log @ [(path_to_uri b_file, d # ds), (path_to_uri ''/a/a.mir'', [])])"
    using repaired_state by blast
  show ?thesis by (simp add: e small_worker_def shown_def lookup_list_def path_to_uri_inj store_eval disk_good_def)
qed

text \<open>
  Closing the last document that reaches a file prunes the tracking of the file, not what the client shows. When the
  document is opened again after the file was fixed, the file is in the analysed closure and clean, and is not cleared.
\<close>

definition all_closed :: "string option worker" where
  "all_closed = fst (did_close two_modules disk_bad ''/a/a.mir'' (path_to_uri ''/a/a.mir'') first_open)"

definition reopened :: "string option worker" where
  "reopened = fst (did_open two_modules disk_good ''/a/a.mir'' ''x'' all_closed)"

theorem pruned_file_stays_marked:
  "shown (publications first_open) (path_to_uri b_file) \<noteq> [] \<and>
   shown (publications reopened) (path_to_uri b_file) = shown (publications first_open) (path_to_uri b_file) \<and>
   map_of (module_results (documents reopened)) ''/a'' = Some \<lparr>bundle_result = Some ''good'', last_access = Suc (Suc 0)\<rparr> \<and>
   diagnostics_of two_modules (Some ''good'') = []"
proof -
  have shown1: "shown (publications first_open) (path_to_uri b_file) \<noteq> []"
    by (simp add: first_open_def new_worker_def DocumentStore_def disk_bad_def worker_eval store_eval b_error_def
        shown_def lookup_list_def path_to_uri_inj convert_diagnostics_def)
  obtain log where e: "first_open = small_worker [(''/a/a.mir'', ''x'')] [(''/a'', \<lparr>bundle_result = Some ''bad'', last_access = 1\<rparr>)]
     [(''/a'', [''/a'']), (''/b'', [''/a''])] [b_file] 1 log" using first_open_state by blast
  have c: "all_closed = small_worker [] [] [] [] 1 (log @ [(path_to_uri ''/a/a.mir'', [])])"
    by (simp add: all_closed_def e small_worker_def worker_eval store_eval)
  have r: "reopened = small_worker [(''/a/a.mir'', ''x'')] [(''/a'', \<lparr>bundle_result = Some ''good'', last_access = Suc (Suc 0)\<rparr>)]
     [(''/a'', [''/a'']), (''/b'', [''/a''])] [] (Suc (Suc 0)) (log @ [(path_to_uri ''/a/a.mir'', []), (path_to_uri ''/a/a.mir'', [])])"
    by (simp add: reopened_def c small_worker_def worker_eval store_eval disk_good_def)
  show ?thesis using shown1 by (simp add: e r small_worker_def shown_def lookup_list_def path_to_uri_inj store_eval)
qed

end
