(* ===== verification/Lsp_Server.thy ===== *)
theory Lsp_Server
  imports Lsp_Worker "HOL-Library.Multiset"
begin

text \<open>
  The language server (\<^verbatim>\<open>lsp/server.cpp\<close>, \<^verbatim>\<open>lsp/task_queue.hpp\<close>): the thread that reads messages and the analysis worker, as a
  transition system over their shared state: the task queue, the cancellation flags, the completed requests, and the
  traffic on the wire. A label names the thread that moves next, so every interleaving is a list of labels.

  The JSON library is not modelled: a message is a record of what the code reads out of it, with \<open>None\<close> where the
  access throws (a change list that is not an array is the empty list: the code ignores both). An id is its dumped text (\<^verbatim>\<open>id_key_of\<close>), which is never empty and parses back. The request handlers are
  the parameter \<open>answer\<close>, which may throw. The dispatch of one message is one step, as is the body of a notification:
  the other thread sees their effects only through the queue and the wire.
\<close>

subsection \<open>Messages\<close>

datatype method_field = No_Method | Method_Not_String | Method string

text \<open>
  The parameters of \<^verbatim>\<open>initialize\<close>: whether \<^verbatim>\<open>dynamicRegistration\<close> is set (\<open>None\<close> when it is not a boolean), the entries of
  \<^verbatim>\<open>positionEncodings\<close>, the URI of the first workspace folder, and the two older spellings of the root.
\<close>

record init_params =
  dynamic_registration :: "bool option"
  position_encodings :: "string option list"
  folder_uri :: "string option"
  root_uri :: "string option"
  root_path :: "string option"

record 'p rpc_message =
  msg_method :: method_field
  msg_id :: "string option"
  uri_param :: "string option"
  text_param :: "string option"
  changes_param :: "string option list option"
  watched_param :: "string option option list option"
  cancel_param :: "string option"
  client_params :: "init_params option"
  request_params :: "'p option"

datatype 'j out_message =
    Initialize_Response string bool
  | Response string "'j option"
  | Error_Response string int
  | Server_Request string

datatype ('p, 'j) event = Received "'p rpc_message" | Sent "'j out_message"

definition INVALID_REQUEST :: int where "INVALID_REQUEST = -32600"
definition METHOD_NOT_FOUND :: int where "METHOD_NOT_FOUND = -32601"
definition INTERNAL_ERROR :: int where "INTERNAL_ERROR = -32603"
definition SERVER_NOT_INITIALIZED :: int where "SERVER_NOT_INITIALIZED = -32002"
definition REQUEST_CANCELLED :: int where "REQUEST_CANCELLED = -32800"

subsection \<open>State\<close>

datatype lifecycle_state = Uninitialized | Running

datatype 'p task_body =
    Open_Body string string
  | Change_Body string string
  | Watched_Body "string list"
  | Close_Body string string
  | Request_Body string string 'p

record 'p task =
  cancelled :: "nat option"
  run_body :: "'p task_body"
  id_key :: string

datatype main_phase = Draining | Reading | Returned int

datatype ('p, 'j) worker_phase =
    Looping
  | Polling
  | Popped "'p task"
  | Checking "'p task"
  | Computing "'p task"
  | Computed "'p task" 'j
  | Marking string
  | Stopped
  | Terminated

record ('r, 'p, 'j) server =
  lifecycle :: lifecycle_state
  shutdown_received :: bool
  supports_watch_registration :: bool
  in_flight :: "(string \<times> nat) list"
  flags :: "bool list"
  queue :: "'p task list"
  done_requests :: "string list"
  worker_state :: "'r worker"
  wire :: "('p, 'j) event list"
  main_phase :: main_phase
  worker_phase :: "('p, 'j) worker_phase"

definition MAX_PENDING :: nat where
  "MAX_PENDING = 4096"

definition queue_full :: "'p task list \<Rightarrow> bool" where
  "queue_full q \<longleftrightarrow> MAX_PENDING \<le> length q"

definition new_server :: "('r, 'p, 'j) server" where
  "new_server = \<lparr>lifecycle = Uninitialized, shutdown_received = False, supports_watch_registration = False, in_flight = [], flags = [],
     queue = [], done_requests = [], worker_state = new_worker, wire = [], main_phase = Draining, worker_phase = Looping\<rparr>"

subsection \<open>The reading thread\<close>

definition send :: "'j out_message \<Rightarrow> ('r, 'p, 'j) server \<Rightarrow> ('r, 'p, 'j) server" where
  "send msg s = s\<lparr>wire := wire s @ [Sent msg]\<rparr>"

definition push :: "'p task \<Rightarrow> ('r, 'p, 'j) server \<Rightarrow> ('r, 'p, 'j) server" where
  "push t s = s\<lparr>queue := queue s @ [t]\<rparr>"

text \<open>A missing id is read as null.\<close>

definition id_text :: "'p rpc_message \<Rightarrow> string" where
  "id_text m = (case msg_id m of None \<Rightarrow> ''null'' | Some i \<Rightarrow> i)"

definition canonical_path_of :: "'r front_end \<Rightarrow> string \<Rightarrow> string" where
  "canonical_path_of fe uri = (let path = uri_to_path uri in if path = [] then [] else canonicalize fe path)"

text \<open>A handler gives the state it reached and whether it threw.\<close>

type_synonym ('r, 'p, 'j) handler = "('r, 'p, 'j) server \<times> bool"

definition uri_root :: "'r front_end \<Rightarrow> string option \<Rightarrow> string" where
  "uri_root fe uri = (case uri of None \<Rightarrow> [] | Some u \<Rightarrow> canonical_path_of fe u)"

definition client_root :: "'r front_end \<Rightarrow> init_params \<Rightarrow> string" where
  "client_root fe p =
     (let root = uri_root fe (folder_uri p);
          root = (if root = [] then uri_root fe (root_uri p) else root)
      in if root = [] then (case root_path p of None \<Rightarrow> [] | Some r \<Rightarrow> r) else root)"

definition handle_initialize :: "'r front_end \<Rightarrow> 'p rpc_message \<Rightarrow> ('r, 'p, 'j) server \<Rightarrow> ('r, 'p, 'j) handler" where
  "handle_initialize fe m s =
     (if lifecycle s = Running then (send (Error_Response (id_text m) INVALID_REQUEST) s, False)
      else
        let s = s\<lparr>lifecycle := Running\<rparr> in
        case client_params m of
          None \<Rightarrow> (send (Initialize_Response (id_text m) False) (s\<lparr>worker_state := (worker_state s)\<lparr>utf16_positions := True\<rparr>\<rparr>), False)
        | Some p \<Rightarrow>
            (case dynamic_registration p of None \<Rightarrow> (s, True)
             | Some watch \<Rightarrow>
                 let utf8 = Some ''utf-8'' \<in> set (position_encodings p) in
                 (send (Initialize_Response (id_text m) utf8)
                    (s\<lparr>supports_watch_registration := watch,
                       worker_state := (worker_state s)\<lparr>workspace_root := client_root fe p, utf16_positions := \<not> utf8\<rparr>\<rparr>), False)))"

definition handle_initialized :: "('r, 'p, 'j) server \<Rightarrow> ('r, 'p, 'j) handler" where
  "handle_initialized s = (if supports_watch_registration s then (send (Server_Request ''client/registerCapability'') s, False) else (s, False))"

definition handle_shutdown :: "'p rpc_message \<Rightarrow> ('r, 'p, 'j) server \<Rightarrow> ('r, 'p, 'j) handler" where
  "handle_shutdown m s = (send (Response (id_text m) None) (s\<lparr>shutdown_received := True\<rparr>), False)"

definition handle_exit :: "('r, 'p, 'j) server \<Rightarrow> ('r, 'p, 'j) handler" where
  "handle_exit s = (s\<lparr>main_phase := Returned (if shutdown_received s then 0 else 1)\<rparr>, False)"

definition handle_cancel :: "'p rpc_message \<Rightarrow> ('r, 'p, 'j) server \<Rightarrow> ('r, 'p, 'j) handler" where
  "handle_cancel m s =
     (case cancel_param m of None \<Rightarrow> (s, True)
      | Some key \<Rightarrow>
          (case map_of (in_flight s) key of None \<Rightarrow> (s, False) | Some a \<Rightarrow> (s\<lparr>flags := (flags s)[a := True]\<rparr>, False)))"

definition handle_did_open :: "'r front_end \<Rightarrow> 'p rpc_message \<Rightarrow> ('r, 'p, 'j) server \<Rightarrow> ('r, 'p, 'j) handler" where
  "handle_did_open fe m s =
     (case uri_param m of None \<Rightarrow> (s, True)
      | Some uri \<Rightarrow>
          let path = canonical_path_of fe uri in
          if path = [] then (s, False)
          else case text_param m of None \<Rightarrow> (s, True)
            | Some t \<Rightarrow> (push \<lparr>cancelled = None, run_body = Open_Body path t, id_key = []\<rparr> s, False))"

definition handle_did_change :: "'r front_end \<Rightarrow> 'p rpc_message \<Rightarrow> ('r, 'p, 'j) server \<Rightarrow> ('r, 'p, 'j) handler" where
  "handle_did_change fe m s =
     (case uri_param m of None \<Rightarrow> (s, True)
      | Some uri \<Rightarrow>
          let path = canonical_path_of fe uri in
          if path = [] then (s, False)
          else case changes_param m of None \<Rightarrow> (s, True)
            | Some changes \<Rightarrow>
                if changes = [] then (s, False)
                else case last changes of None \<Rightarrow> (s, True)
                  | Some t \<Rightarrow> (push \<lparr>cancelled = None, run_body = Change_Body path t, id_key = []\<rparr> s, False))"

definition changed_paths :: "'r front_end \<Rightarrow> string option option list \<Rightarrow> string list" where
  "changed_paths fe changes = filter (\<lambda>p. p \<noteq> []) (map (\<lambda>u. canonical_path_of fe (the (the u))) (filter (\<lambda>u. u \<noteq> None) changes))"

definition handle_watched :: "'r front_end \<Rightarrow> 'p rpc_message \<Rightarrow> ('r, 'p, 'j) server \<Rightarrow> ('r, 'p, 'j) handler" where
  "handle_watched fe m s =
     (case watched_param m of None \<Rightarrow> (s, True)
      | Some changes \<Rightarrow>
          if Some None \<in> set changes then (s, True)
          else if changed_paths fe changes = [] then (s, False)
          else (push \<lparr>cancelled = None, run_body = Watched_Body (changed_paths fe changes), id_key = []\<rparr> s, False))"

definition handle_did_close :: "'r front_end \<Rightarrow> 'p rpc_message \<Rightarrow> ('r, 'p, 'j) server \<Rightarrow> ('r, 'p, 'j) handler" where
  "handle_did_close fe m s =
     (case uri_param m of None \<Rightarrow> (s, True)
      | Some uri \<Rightarrow>
          let path = canonical_path_of fe uri in
          if path = [] then (s, False)
          else (push \<lparr>cancelled = None, run_body = Close_Body path uri, id_key = []\<rparr> s, False))"

definition enqueue_cancellable_request ::
  "'r front_end \<Rightarrow> string \<Rightarrow> 'p rpc_message \<Rightarrow> ('r, 'p, 'j) server \<Rightarrow> ('r, 'p, 'j) handler" where
  "enqueue_cancellable_request fe meth m s =
     (case uri_param m of None \<Rightarrow> (s, True)
      | Some uri \<Rightarrow>
          let path = canonical_path_of fe uri; key = id_text m in
          if path = [] then (send (Response key None) s, False)
          else
            let a = length (flags s); s = s\<lparr>flags := flags s @ [False]\<rparr> in
            (case request_params m of None \<Rightarrow> (s, True)
             | Some p \<Rightarrow>
                 let s = s\<lparr>in_flight := AList.update key a (in_flight s)\<rparr> in
                 if queue_full (queue s)
                 then (send (Error_Response key INTERNAL_ERROR) (s\<lparr>in_flight := AList.delete key (in_flight s)\<rparr>), False)
                 else (push \<lparr>cancelled = Some a, run_body = Request_Body meth path p, id_key = key\<rparr> s, False)))"

definition request_methods :: "string list" where
  "request_methods = [''textDocument/hover'', ''textDocument/definition'', ''textDocument/completion'', ''textDocument/references'',
     ''textDocument/inlayHint'']"

definition handle :: "'r front_end \<Rightarrow> string \<Rightarrow> 'p rpc_message \<Rightarrow> ('r, 'p, 'j) server \<Rightarrow> ('r, 'p, 'j) handler" where
  "handle fe meth m s =
     (if meth = ''initialize'' then handle_initialize fe m s
      else if meth = ''initialized'' then handle_initialized s
      else if meth = ''shutdown'' then handle_shutdown m s
      else if meth = ''exit'' then handle_exit s
      else if meth = ''$/cancelRequest'' then handle_cancel m s
      else if meth = ''textDocument/didOpen'' then handle_did_open fe m s
      else if meth = ''textDocument/didChange'' then handle_did_change fe m s
      else if meth = ''workspace/didChangeWatchedFiles'' then handle_watched fe m s
      else if meth = ''textDocument/didClose'' then handle_did_close fe m s
      else if meth \<in> set request_methods then enqueue_cancellable_request fe meth m s
      else (case msg_id m of None \<Rightarrow> (s, False) | Some i \<Rightarrow> (send (Error_Response i METHOD_NOT_FOUND) s, False)))"

definition reject :: "'p rpc_message \<Rightarrow> int \<Rightarrow> ('r, 'p, 'j) server \<Rightarrow> ('r, 'p, 'j) server" where
  "reject m err s = (case msg_id m of None \<Rightarrow> s | Some i \<Rightarrow> send (Error_Response i err) s)"

definition dispatch :: "'r front_end \<Rightarrow> 'p rpc_message \<Rightarrow> ('r, 'p, 'j) server \<Rightarrow> ('r, 'p, 'j) server" where
  "dispatch fe m s =
     (case msg_method m of
        Method_Not_String \<Rightarrow> reject m INVALID_REQUEST s
      | No_Method \<Rightarrow> s
      | Method meth \<Rightarrow>
          if meth = [] then s
          else if lifecycle s = Uninitialized \<and> meth \<noteq> ''initialize'' \<and> meth \<noteq> ''exit'' then reject m SERVER_NOT_INITIALIZED s
          else if shutdown_received s \<and> meth \<noteq> ''exit'' then reject m INVALID_REQUEST s
          else case handle fe meth m s of (s, threw) \<Rightarrow> if threw then reject m INTERNAL_ERROR s else s)"

subsection \<open>The worker thread\<close>

type_synonym ('r, 'p, 'j) answer = "string \<Rightarrow> string \<Rightarrow> 'p \<Rightarrow> file_texts \<Rightarrow> 'r worker \<Rightarrow> 'r worker \<times> 'j option"

definition cancel_requested :: "'p task \<Rightarrow> ('r, 'p, 'j) server \<Rightarrow> bool" where
  "cancel_requested t s = (case cancelled t of None \<Rightarrow> False | Some a \<Rightarrow> flags s ! a)"

text \<open>The bodies of notifications; an exception is logged and the worker goes on.\<close>

fun run_notification :: "'r front_end \<Rightarrow> file_texts \<Rightarrow> nat \<Rightarrow> 'p task_body \<Rightarrow> 'r worker \<Rightarrow> 'r worker" where
  "run_notification fe disk now (Open_Body path t) w = fst (did_open fe disk path t w)"
| "run_notification fe disk now (Change_Body path t) w = did_change fe now path t w"
| "run_notification fe disk now (Watched_Body paths) w = did_change_watched_files fe now paths w"
| "run_notification fe disk now (Close_Body path uri) w = fst (did_close fe disk path uri w)"
| "run_notification fe disk now (Request_Body meth path p) w = w"

definition finish :: "'j out_message \<Rightarrow> string \<Rightarrow> ('r, 'p, 'j) server \<Rightarrow> ('r, 'p, 'j) server" where
  "finish msg key s = (send msg s)\<lparr>worker_phase := Marking key\<rparr>"

definition stop_requested :: "('r, 'p, 'j) server \<Rightarrow> bool" where
  "stop_requested s = (case main_phase s of Returned _ \<Rightarrow> True | _ \<Rightarrow> False)"

definition begin_task :: "'r front_end \<Rightarrow> file_texts \<Rightarrow> nat \<Rightarrow> 'p task \<Rightarrow> ('r, 'p, 'j) server \<Rightarrow> ('r, 'p, 'j) server" where
  "begin_task fe disk now t s =
     (if cancel_requested t s then
        if id_key t = [] then s\<lparr>worker_phase := Looping\<rparr>
        else finish (Error_Response (id_key t) REQUEST_CANCELLED) (id_key t) s
      else case cancelled t of Some _ \<Rightarrow> s\<lparr>worker_phase := Checking t\<rparr>
        | None \<Rightarrow> s\<lparr>worker_state := run_notification fe disk now (run_body t) (worker_state s), worker_phase := Looping\<rparr>)"

definition check_task :: "'p task \<Rightarrow> ('r, 'p, 'j) server \<Rightarrow> ('r, 'p, 'j) server" where
  "check_task t s =
     (if cancel_requested t s then finish (Error_Response (id_key t) REQUEST_CANCELLED) (id_key t) s
      else s\<lparr>worker_phase := Computing t\<rparr>)"

definition compute_task :: "('r, 'p, 'j) answer \<Rightarrow> file_texts \<Rightarrow> 'p task \<Rightarrow> ('r, 'p, 'j) server \<Rightarrow> ('r, 'p, 'j) server" where
  "compute_task ans disk t s =
     (case run_body t of
        Request_Body meth path p \<Rightarrow>
          (case ans meth path p disk (worker_state s) of
             (w, None) \<Rightarrow> finish (Error_Response (id_key t) INTERNAL_ERROR) (id_key t) (s\<lparr>worker_state := w\<rparr>)
           | (w, Some j) \<Rightarrow> s\<lparr>worker_state := w, worker_phase := Computed t j\<rparr>)
      | _ \<Rightarrow> s\<lparr>worker_phase := Looping\<rparr>)"

definition finish_task :: "'p task \<Rightarrow> 'j \<Rightarrow> ('r, 'p, 'j) server \<Rightarrow> ('r, 'p, 'j) server" where
  "finish_task t j s =
     (if cancel_requested t s then finish (Error_Response (id_key t) REQUEST_CANCELLED) (id_key t) s
      else finish (Response (id_key t) (Some j)) (id_key t) s)"

definition worker_step :: "'r front_end \<Rightarrow> ('r, 'p, 'j) answer \<Rightarrow> file_texts \<Rightarrow> nat \<Rightarrow> ('r, 'p, 'j) server \<Rightarrow> ('r, 'p, 'j) server" where
  "worker_step fe ans disk now s =
     (case worker_phase s of
        Looping \<Rightarrow>
          if stop_requested s then s\<lparr>worker_phase := Stopped\<rparr>
          else (case sweep_due_diagnostics fe disk now (worker_state s) of
                  (w, Some _) \<Rightarrow> s\<lparr>worker_state := w, worker_phase := Terminated\<rparr>
                | (w, None) \<Rightarrow> s\<lparr>worker_state := w, worker_phase := Polling\<rparr>)
      | Polling \<Rightarrow>
          (case queue s of
             [] \<Rightarrow> s\<lparr>worker_phase := (if stop_requested s then Stopped else Looping)\<rparr>
           | t # q \<Rightarrow> s\<lparr>queue := q, worker_phase := (if stop_requested s then Stopped else Popped t)\<rparr>)
      | Popped t \<Rightarrow> begin_task fe disk now t s
      | Checking t \<Rightarrow> check_task t s
      | Computing t \<Rightarrow> compute_task ans disk t s
      | Computed t j \<Rightarrow> finish_task t j s
      | Marking key \<Rightarrow> s\<lparr>done_requests := done_requests s @ [key], worker_phase := Looping\<rparr>
      | Stopped \<Rightarrow> s
      | Terminated \<Rightarrow> s)"

subsection \<open>Transitions\<close>

text \<open>
  \<open>Recv None\<close> is the end of the input, \<open>Garbled\<close> a message that does not parse. After \<^verbatim>\<open>std::terminate\<close> on the worker
  thread no thread moves.
\<close>

datatype 'p label = Drain | Recv "'p rpc_message option" | Garbled | Work file_texts nat

fun drain :: "string list \<Rightarrow> (string \<times> nat) list \<Rightarrow> (string \<times> nat) list" where
  "drain [] m = m"
| "drain (k # ks) m = drain ks (AList.delete k m)"

definition step :: "'r front_end \<Rightarrow> ('r, 'p, 'j) answer \<Rightarrow> 'p label \<Rightarrow> ('r, 'p, 'j) server \<Rightarrow> ('r, 'p, 'j) server" where
  "step fe ans l s =
     (if worker_phase s = Terminated then s
      else case l of
        Drain \<Rightarrow>
          if main_phase s = Draining
          then s\<lparr>in_flight := drain (done_requests s) (in_flight s), done_requests := [], main_phase := Reading\<rparr> else s
      | Recv None \<Rightarrow>
          if main_phase s = Reading then s\<lparr>main_phase := Returned (if shutdown_received s then 0 else 1)\<rparr> else s
      | Recv (Some m) \<Rightarrow>
          if main_phase s = Reading then dispatch fe m (s\<lparr>wire := wire s @ [Received m], main_phase := Draining\<rparr>) else s
      | Garbled \<Rightarrow> if main_phase s = Reading then s\<lparr>main_phase := Draining\<rparr> else s
      | Work disk now \<Rightarrow> worker_step fe ans disk now s)"

definition run :: "'r front_end \<Rightarrow> ('r, 'p, 'j) answer \<Rightarrow> 'p label list \<Rightarrow> ('r, 'p, 'j) server" where
  "run fe ans ls = fold (step fe ans) ls new_server"

subsection \<open>Requests and answers\<close>

text \<open>
  The protocol: notifications carry no id, requests do. \<open>due\<close> is the id a message wants an answer for; a message without
  a method is the client's answer to the server.
\<close>

definition notification_methods :: "string list" where
  "notification_methods = [''initialized'', ''exit'', ''$/cancelRequest'', ''textDocument/didOpen'', ''textDocument/didChange'',
     ''workspace/didChangeWatchedFiles'', ''textDocument/didClose'']"

definition proper :: "'p rpc_message \<Rightarrow> bool" where
  "proper m \<longleftrightarrow> msg_id m \<noteq> Some [] \<and>
     (case msg_method m of
        Method meth \<Rightarrow> (meth \<in> set notification_methods \<longrightarrow> msg_id m = None) \<and>
          (meth \<in> set ([''initialize'', ''shutdown''] @ request_methods) \<longrightarrow> msg_id m \<noteq> None)
      | _ \<Rightarrow> True)"

definition due :: "'p rpc_message \<Rightarrow> string multiset" where
  "due m = (if msg_method m \<in> {No_Method, Method []} then {#} else case msg_id m of None \<Rightarrow> {#} | Some i \<Rightarrow> {#i#})"

fun answered :: "('p, 'j) event \<Rightarrow> string multiset" where
  "answered (Sent (Initialize_Response i u)) = {#i#}"
| "answered (Sent (Response i j)) = {#i#}"
| "answered (Sent (Error_Response i c)) = {#i#}"
| "answered _ = {#}"

fun requested :: "('p, 'j) event \<Rightarrow> string multiset" where
  "requested (Received m) = due m"
| "requested _ = {#}"

definition answers :: "('p, 'j) event list \<Rightarrow> string multiset" where
  "answers es = sum_list (map answered es)"

definition requests :: "('p, 'j) event list \<Rightarrow> string multiset" where
  "requests es = sum_list (map requested es)"

definition task_ids :: "'p task \<Rightarrow> string multiset" where
  "task_ids t = (if cancelled t = None then {#} else {#id_key t#})"

fun phase_task :: "('p, 'j) worker_phase \<Rightarrow> 'p task option" where
  "phase_task (Popped t) = Some t"
| "phase_task (Checking t) = Some t"
| "phase_task (Computing t) = Some t"
| "phase_task (Computed t j) = Some t"
| "phase_task _ = None"

definition pending :: "('r, 'p, 'j) server \<Rightarrow> string multiset" where
  "pending s = (case phase_task (worker_phase s) of None \<Rightarrow> {#} | Some t \<Rightarrow> task_ids t) + sum_list (map task_ids (queue s))"

text \<open>A task is a request with an id and a flag, or a notification with neither.\<close>

definition task_ok :: "nat \<Rightarrow> 'p task \<Rightarrow> bool" where
  "task_ok n t \<longleftrightarrow> (case cancelled t of
       None \<Rightarrow> id_key t = [] \<and> (\<forall>meth path p. run_body t \<noteq> Request_Body meth path p)
     | Some a \<Rightarrow> a < n \<and> id_key t \<noteq> [] \<and> (\<exists>meth path p. run_body t = Request_Body meth path p))"

fun past_check :: "('p, 'j) worker_phase \<Rightarrow> bool" where
  "past_check (Checking t) \<longleftrightarrow> cancelled t \<noteq> None"
| "past_check (Computing t) \<longleftrightarrow> cancelled t \<noteq> None"
| "past_check (Computed t j) \<longleftrightarrow> cancelled t \<noteq> None"
| "past_check _ \<longleftrightarrow> True"

definition tasks_ok :: "('r, 'p, 'j) server \<Rightarrow> bool" where
  "tasks_ok s \<longleftrightarrow> (\<forall>t \<in> set (queue s) \<union> set_option (phase_task (worker_phase s)). task_ok (length (flags s)) t) \<and>
     past_check (worker_phase s) \<and> (\<forall>(k, a) \<in> set (in_flight s). a < length (flags s))"

text \<open>Everything asked is answered or on its way, and everything on its way can be cancelled or is already done.\<close>

definition tracked_ids :: "('r, 'p, 'j) server \<Rightarrow> string set" where
  "tracked_ids s = set_mset (pending s) \<union> set (done_requests s) \<union> (case worker_phase s of Marking k \<Rightarrow> {k} | _ \<Rightarrow> {})"

definition account :: "('r, 'p, 'j) server \<Rightarrow> string multiset" where
  "account s = answers (wire s) + pending s"

definition server_ok :: "('r, 'p, 'j) server \<Rightarrow> bool" where
  "server_ok s \<longleftrightarrow> tasks_ok s \<and> account s \<subseteq># requests (wire s) \<and>
     (\<not> stop_requested s \<longrightarrow> account s = requests (wire s) \<and> fst ` set (in_flight s) \<subseteq> tracked_ids s)"

lemmas wire_simps = answers_def requests_def

lemma send_fields [simp]:
  "queue (send msg s) = queue s" "worker_phase (send msg s) = worker_phase s" "flags (send msg s) = flags s"
  "in_flight (send msg s) = in_flight s" "done_requests (send msg s) = done_requests s" "main_phase (send msg s) = main_phase s"
  "wire (send msg s) = wire s @ [Sent msg]"
  by (simp_all add: send_def)

lemma push_fields [simp]:
  "queue (push t s) = queue s @ [t]" "worker_phase (push t s) = worker_phase s" "flags (push t s) = flags s"
  "in_flight (push t s) = in_flight s" "done_requests (push t s) = done_requests s" "main_phase (push t s) = main_phase s"
  "wire (push t s) = wire s"
  by (simp_all add: push_def)

text \<open>What a piece of the dispatch may do to the books: \<open>ids\<close> is what it answers or accepts.\<close>

definition handled :: "string multiset \<Rightarrow> ('r, 'p, 'j) server \<Rightarrow> ('r, 'p, 'j) server \<Rightarrow> bool" where
  "handled ids s s' \<longleftrightarrow> account s' = account s + ids \<and> requests (wire s') = requests (wire s) \<and>
     worker_phase s' = worker_phase s \<and> done_requests s' = done_requests s \<and> (tasks_ok s \<longrightarrow> tasks_ok s') \<and>
     set_mset (pending s) \<subseteq> set_mset (pending s') \<and>
     fst ` set (in_flight s') \<subseteq> fst ` set (in_flight s) \<union> set_mset (pending s')"

lemma handled_trans: "handled a s s1 \<Longrightarrow> handled b s1 s2 \<Longrightarrow> handled (a + b) s s2"
proof -
  assume h: "handled a s s1" "handled b s1 s2"
  have "set_mset (pending s) \<subseteq> set_mset (pending s2)" using h unfolding handled_def by (auto simp only: dest: subsetD)
  moreover have "fst ` set (in_flight s2) \<subseteq> fst ` set (in_flight s) \<union> set_mset (pending s2)"
  proof -
    have "fst ` set (in_flight s2) \<subseteq> fst ` set (in_flight s1) \<union> set_mset (pending s2)"
      "fst ` set (in_flight s1) \<subseteq> fst ` set (in_flight s) \<union> set_mset (pending s1)" "set_mset (pending s1) \<subseteq> set_mset (pending s2)"
      using h by (simp_all only: handled_def)
    then show ?thesis by blast
  qed
  ultimately show ?thesis using h unfolding handled_def by (simp add: ac_simps)
qed

lemma handled_fields:
  assumes "queue s' = queue s" "worker_phase s' = worker_phase s" "in_flight s' = in_flight s" "done_requests s' = done_requests s"
    "wire s' = wire s" "length (flags s) \<le> length (flags s')"
  shows "handled {#} s s'"
proof -
  have "task_ok (length (flags s)) t \<Longrightarrow> task_ok (length (flags s')) t" for t
    using assms(6) by (auto simp: task_ok_def split: option.splits)
  moreover have "(k, a) \<in> set (in_flight s) \<Longrightarrow> a < length (flags s) \<Longrightarrow> a < length (flags s')" for k a using assms(6) by simp
  ultimately have "tasks_ok s \<longrightarrow> tasks_ok s'" unfolding tasks_ok_def assms by blast
  then show ?thesis by (simp add: handled_def account_def pending_def assms)
qed

lemma handled_refl: "handled {#} s s"
  by (rule handled_fields) simp_all

lemma handled_send:
  fixes s :: "('r, 'p, 'j) server"
  shows "handled (answered (Sent msg :: ('p, 'j) event)) s (send msg s)"
  by (simp add: handled_def account_def pending_def wire_simps tasks_ok_def)

lemma handled_push:
  assumes "task_ok (length (flags s)) t"
  shows "handled (task_ids t) s (push t s)"
  using assms by (auto simp: handled_def account_def pending_def tasks_ok_def ac_simps)

lemma notification_ok: "(\<forall>meth path p. b \<noteq> Request_Body meth path p) \<Longrightarrow> handled {#} s (push \<lparr>cancelled = None, run_body = b, id_key = []\<rparr> s)"
  using handled_push [of s "\<lparr>cancelled = None, run_body = b, id_key = []\<rparr>"] by (simp add: task_ok_def task_ids_def)

lemma handled_accept:
  assumes "key \<noteq> []" "a < length (flags s)"
  shows "handled {#key#} s (push \<lparr>cancelled = Some a, run_body = Request_Body meth path p, id_key = key\<rparr> (s\<lparr>in_flight := AList.update key a (in_flight s)\<rparr>))"
proof -
  have "set (AList.update key a m) \<subseteq> insert (key, a) (set m)" for m :: "(string \<times> nat) list" by (induction m) auto
  then have f: "(k, b) \<in> set (AList.update key a (in_flight s)) \<Longrightarrow> (k, b) = (key, a) \<or> (k, b) \<in> set (in_flight s)" for k b by blast
  have b: "\<forall>(k, b) \<in> set (AList.update key a (in_flight s)). b < length (flags s)" if "\<forall>(k, b) \<in> set (in_flight s). b < length (flags s)"
    using that assms(2) f by fast
  have t: "task_ok (length (flags s)) \<lparr>cancelled = Some a, run_body = Request_Body meth path p, id_key = key\<rparr>"
    using assms by (simp add: task_ok_def)
  show ?thesis
    using b t by (auto simp: handled_def account_def pending_def tasks_ok_def task_ids_def dom_update ac_simps)
qed

lemma handled_full:
  "handled {#key#} s (send (Error_Response key e) (s\<lparr>in_flight := AList.delete key (AList.update key a (in_flight s))\<rparr>))"
proof -
  have "set (AList.delete key (in_flight s)) \<subseteq> set (in_flight s)" by (auto simp: AList.delete_eq)
  then show ?thesis
    by (auto simp: handled_def account_def pending_def wire_simps tasks_ok_def delete_update_same)
qed

definition ids_of :: "'p rpc_message \<Rightarrow> string multiset" where
  "ids_of m = (case msg_id m of None \<Rightarrow> {#} | Some i \<Rightarrow> {#i#})"

lemma handled_reject: "handled (ids_of m) s (reject m err s)"
  using handled_send [of "Error_Response (the (msg_id m)) err" s] by (cases "msg_id m") (simp_all add: reject_def ids_of_def handled_refl)

lemma enqueue_handled:
  assumes "msg_id m = Some i" "i \<noteq> []" "enqueue_cancellable_request fe meth m s = (s', threw)"
  shows "handled (if threw then {#} else {#i#}) s s'"
proof (cases "uri_param m")
  case None
  then show ?thesis using assms handled_refl by (simp add: enqueue_cancellable_request_def)
next
  case (Some uri)
  define path where "path = canonical_path_of fe uri"
  define s1 where "s1 = s\<lparr>flags := flags s @ [False]\<rparr>"
  have s1: "handled {#} s s1" by (rule handled_fields) (simp_all add: s1_def)
  have i: "id_text m = i" using assms(1) by (simp add: id_text_def)
  show ?thesis
  proof (cases "path = []")
    case True
    then show ?thesis using assms(3) Some handled_send [of "Response i None" s]
      by (simp add: enqueue_cancellable_request_def path_def i)
  next
    case False
    note e = assms(3) [unfolded enqueue_cancellable_request_def Some, simplified, folded path_def, unfolded Let_def i, simplified False if_False, folded s1_def]
    show ?thesis
    proof (cases "request_params m")
      case None
      then show ?thesis using e False s1 by (simp add: s1_def)
    next
      case (Some p)
      define s2 where "s2 = s1\<lparr>in_flight := AList.update i (length (flags s)) (in_flight s1)\<rparr>"
      show ?thesis
      proof (cases "queue_full (queue s)")
        case True
        have "s' = send (Error_Response i INTERNAL_ERROR) (s1\<lparr>in_flight := AList.delete i (AList.update i (length (flags s)) (in_flight s1))\<rparr>)" "\<not> threw"
          using e False Some True by (simp_all add: s1_def)
        then show ?thesis using handled_trans [OF s1 handled_full [of i s1]] by simp
      next
        case nf: False
        have "s' = push \<lparr>cancelled = Some (length (flags s)), run_body = Request_Body meth path p, id_key = i\<rparr>
            (s1\<lparr>in_flight := AList.update i (length (flags s)) (in_flight s1)\<rparr>)" "\<not> threw"
          using e False Some nf by (simp_all add: s1_def)
        then show ?thesis using handled_trans [OF s1 handled_accept [OF assms(2)]] by (simp add: s1_def)
      qed
    qed
  qed
qed

lemma handle_handled:
  assumes p: "proper m" "msg_method m = Method meth" and e: "handle fe meth m s = (s', threw)"
  shows "handled (if threw then {#} else ids_of m) s s'"
proof (cases "meth \<in> set notification_methods")
  case True
  then have n: "msg_id m = None" using p by (simp add: proper_def)
  have same: "handled {#} s (s\<lparr>main_phase := x\<rparr>)" "handled {#} s (s\<lparr>flags := (flags s)[a := b]\<rparr>)" for x a b
    by (rule handled_fields, simp_all)+
  have req: "handled {#} s (send (Server_Request r) s)" for r using handled_send [of "Server_Request r" s] by simp
  have "handled {#} s s'"
    using True e
    by (auto simp: notification_methods_def handle_def handle_initialized_def handle_exit_def handle_cancel_def handle_did_open_def
        handle_did_change_def handle_watched_def handle_did_close_def Let_def handled_refl same req notification_ok
        split: if_splits option.splits)
  then show ?thesis by (simp add: ids_of_def n)
next
  case False
  show ?thesis
  proof (cases "meth \<in> set ([''initialize'', ''shutdown''] @ request_methods)")
    case True
    then obtain i where i: "msg_id m = Some i" "i \<noteq> []" using p by (auto simp: proper_def)
    then have t: "id_text m = i" "ids_of m = {#i#}" by (simp_all add: id_text_def ids_of_def)
    have reply: "handled {#i#} s (send (Initialize_Response i u) s1)" "handled {#i#} s (send (Response i j) s1)"
      "handled {#i#} s (send (Error_Response i c) s1)" if "handled {#} s s1" for u j c s1
      using handled_trans [OF that handled_send [of "Initialize_Response i u"]] handled_trans [OF that handled_send [of "Response i j"]] handled_trans [OF that handled_send [of "Error_Response i c"]] by simp_all
    consider "meth = ''initialize''" | "meth = ''shutdown''" | "meth \<in> set request_methods" using True by auto
    then show ?thesis
    proof cases
      case 1
      have run: "handled {#} s (s\<lparr>lifecycle := Running\<rparr>)"
        "handled {#} s (s\<lparr>lifecycle := Running, supports_watch_registration := wt, worker_state := w\<rparr>)"
        "handled {#} s (s\<lparr>lifecycle := Running, worker_state := w\<rparr>)" for wt w
        by (rule handled_fields, simp_all)+
      show ?thesis using e 1 run reply [OF handled_refl] reply [OF run(2)] reply [OF run(3)] t
        by (auto simp: handle_def handle_initialize_def Let_def split: if_splits option.splits)
    next
      case 2
      have "handled {#} s (s\<lparr>shutdown_received := True\<rparr>)" by (rule handled_fields) simp_all
      then show ?thesis using e 2 reply t by (auto simp: handle_def handle_shutdown_def)
    next
      case 3
      then have "enqueue_cancellable_request fe meth m s = (s', threw)" using e by (auto simp: handle_def request_methods_def)
      from enqueue_handled [OF i this] show ?thesis using t by (cases threw) simp_all
    qed
  next
    case unknown: False
    then have "(case msg_id m of None \<Rightarrow> (s, False) | Some i \<Rightarrow> (send (Error_Response i METHOD_NOT_FOUND) s, False)) = (s', threw)"
      using e False by (auto simp: handle_def notification_methods_def)
    then have "s' = reject m METHOD_NOT_FOUND s" "\<not> threw" by (auto simp: reject_def split: option.splits)
    then show ?thesis using handled_reject by simp
  qed
qed

lemma dispatch_handled:
  assumes "proper m"
  shows "handled (due m) s (dispatch fe m s)"
proof (cases "msg_method m")
  case (Method meth)
  show ?thesis
  proof (cases "meth = []")
    case False
    then have d: "due m = ids_of m" using Method by (simp add: due_def ids_of_def)
    obtain s' threw where e: "handle fe meth m s = (s', threw)" by fastforce
    have "handled (ids_of m) s (if threw then reject m INTERNAL_ERROR s' else s')"
      using handle_handled [OF assms Method e] handled_trans [OF _ handled_reject [of m s' INTERNAL_ERROR], of "{#}" s] by auto
    then show ?thesis using Method False e handled_reject unfolding d dispatch_def by auto
  qed (use Method in \<open>simp add: dispatch_def due_def handled_refl\<close>)
qed (use handled_reject in \<open>auto simp: dispatch_def due_def ids_of_def handled_refl\<close>)

text \<open>What a step of the worker does to the books: ids only move from pending to answered, or to completed.\<close>

definition worked :: "('r, 'p, 'j) server \<Rightarrow> ('r, 'p, 'j) server \<Rightarrow> bool" where
  "worked s s' \<longleftrightarrow> account s' \<subseteq># account s \<and> (\<not> stop_requested s \<longrightarrow> account s' = account s \<and> tracked_ids s \<subseteq> tracked_ids s') \<and>
     requests (wire s') = requests (wire s) \<and> main_phase s' = main_phase s \<and> in_flight s' = in_flight s \<and> tasks_ok s'"

lemma worked_ok: "server_ok s \<Longrightarrow> worked s s' \<Longrightarrow> server_ok s'"
  unfolding server_ok_def worked_def stop_requested_def by (auto intro: subset_mset.order_trans)

lemma finish_worked:
  fixes msg :: "'j out_message"
  assumes "tasks_ok s" "phase_task (worker_phase s) = Some t" "cancelled t \<noteq> None" "answered (Sent msg :: ('p, 'j) event) = {#id_key t#}"
  shows "worked (s :: ('r, 'p, 'j) server) (finish msg (id_key t) s)"
proof -
  have "\<not> (\<exists>k. worker_phase s = Marking k)" using assms(2) by auto
  then show ?thesis using assms
    by (auto simp: worked_def finish_def account_def pending_def wire_simps task_ids_def tracked_ids_def tasks_ok_def split: worker_phase.splits)
qed

lemma phase_worked:
  assumes "tasks_ok s" "phase_task (worker_phase s) = phase_task (worker_phase s')" "past_check (worker_phase s')"
    "\<forall>k. worker_phase s \<noteq> Marking k" "queue s' = queue s" "in_flight s' = in_flight s" "done_requests s' = done_requests s"
    "wire s' = wire s" "flags s' = flags s" "main_phase s' = main_phase s"
  shows "worked s s'"
  using assms by (auto simp: worked_def account_def pending_def tracked_ids_def tasks_ok_def split: worker_phase.splits)

lemma worker_step_worked:
  assumes ok: "tasks_ok s"
  shows "worked s (worker_step fe ans disk now s)"
proof (cases "worker_phase s")
  case Looping
  then show ?thesis
    by (auto simp: worker_step_def intro!: phase_worked [OF ok] split: prod.splits option.splits)
next
  case Polling
  show ?thesis
  proof (cases "queue s")
    case Nil
    then show ?thesis using Polling by (auto simp: worker_step_def intro!: phase_worked [OF ok])
  next
    case (Cons t q)
    then show ?thesis using Polling ok
      by (auto simp: worker_step_def worked_def account_def pending_def tracked_ids_def tasks_ok_def)
  qed
next
  case (Popped t)
  have t: "task_ok (length (flags s)) t" using ok Popped by (simp add: tasks_ok_def)
  show ?thesis
  proof (cases "cancelled t")
    case None
    then have "worker_step fe ans disk now s = s\<lparr>worker_state := run_notification fe disk now (run_body t) (worker_state s), worker_phase := Looping\<rparr>"
      using Popped by (simp add: worker_step_def begin_task_def cancel_requested_def)
    then show ?thesis using None ok Popped by (auto simp: worked_def account_def pending_def task_ids_def tracked_ids_def tasks_ok_def)
  next
    case (Some a)
    then have "id_key t \<noteq> []" using t by (simp add: task_ok_def)
    then show ?thesis using Some Popped ok finish_worked [OF ok, of t "Error_Response (id_key t) REQUEST_CANCELLED"]
      by (auto simp: worker_step_def begin_task_def intro!: phase_worked [OF ok])
  qed
next
  case (Checking t)
  then have c: "cancelled t \<noteq> None" using ok by (simp add: tasks_ok_def)
  then show ?thesis using Checking finish_worked [OF ok _ c, of "Error_Response (id_key t) REQUEST_CANCELLED"]
    by (auto simp: worker_step_def check_task_def intro!: phase_worked [OF ok])
next
  case (Computing t)
  then have c: "cancelled t \<noteq> None" "task_ok (length (flags s)) t" using ok by (simp_all add: tasks_ok_def)
  then obtain meth path p where b: "run_body t = Request_Body meth path p" by (auto simp: task_ok_def split: option.splits)
  obtain w j where a: "ans meth path p disk (worker_state s) = (w, j)" by fastforce
  show ?thesis
  proof (cases j)
    case None
    have "worked s (s\<lparr>worker_state := w\<rparr>)" using Computing by (intro phase_worked [OF ok]) (simp_all add: c(1))
    then have "tasks_ok (s\<lparr>worker_state := w\<rparr>)" by (simp add: worked_def)
    from finish_worked [OF this _ c(1), of "Error_Response (id_key t) INTERNAL_ERROR"]
    have "worked (s\<lparr>worker_state := w\<rparr>) (worker_step fe ans disk now s)" using Computing b a None by (simp add: worker_step_def compute_task_def)
    then show ?thesis by (simp add: worked_def account_def pending_def tracked_ids_def stop_requested_def)
  next
    case (Some j')
    then show ?thesis using Computing b a c(1) by (auto simp: worker_step_def compute_task_def intro!: phase_worked [OF ok])
  qed
next
  case (Computed t j)
  then have c: "cancelled t \<noteq> None" using ok by (simp add: tasks_ok_def)
  then show ?thesis using Computed finish_worked [OF ok _ c, of "Error_Response (id_key t) REQUEST_CANCELLED"]
      finish_worked [OF ok _ c, of "Response (id_key t) (Some j)"]
    by (simp add: worker_step_def finish_task_def)
next
  case (Marking k)
  then show ?thesis using ok by (auto simp: worker_step_def worked_def account_def pending_def tracked_ids_def tasks_ok_def)
qed (auto simp: worker_step_def intro!: phase_worked [OF ok])

subsection \<open>Sessions\<close>

definition proper_label :: "'p label \<Rightarrow> bool" where
  "proper_label l = (case l of Recv (Some m) \<Rightarrow> proper m | _ \<Rightarrow> True)"

inductive moves :: "'r front_end \<Rightarrow> ('r, 'p, 'j) answer \<Rightarrow> ('r, 'p, 'j) server \<Rightarrow> ('r, 'p, 'j) server \<Rightarrow> bool"
  for fe :: "'r front_end" and ans :: "('r, 'p, 'j) answer" where
  "proper_label l \<Longrightarrow> moves fe ans s (step fe ans l s)"

inductive_cases movesE: "moves fe ans s s'"

lemma drain_keys: "fst ` set (drain ks m) = fst ` set m - set ks" "set (drain ks m) \<subseteq> set m"
proof -
  show "set (drain ks m) \<subseteq> set m"
    by (induction ks m rule: drain.induct) (auto simp: AList.delete_eq)
  show "fst ` set (drain ks m) = fst ` set m - set ks"
    by (induction ks m rule: drain.induct) (auto simp: AList.delete_eq image_iff)
qed

lemma stop_not: "\<not> stop_requested s \<longleftrightarrow> main_phase s = Draining \<or> main_phase s = Reading"
  by (auto simp: stop_requested_def split: main_phase.splits)

lemma drain_ok:
  assumes "server_ok s" "main_phase s = Draining"
  shows "server_ok (s\<lparr>in_flight := drain (done_requests s) (in_flight s), done_requests := [], main_phase := Reading\<rparr>)"
proof -
  have "fst ` set (in_flight s) \<subseteq> tracked_ids s" using assms by (simp add: server_ok_def stop_not)
  then have "fst ` set (drain (done_requests s) (in_flight s)) \<subseteq>
      set_mset (pending s) \<union> (case worker_phase s of Marking k \<Rightarrow> {k} | _ \<Rightarrow> {})"
    unfolding drain_keys(1) tracked_ids_def by blast
  moreover have "\<forall>(k, a) \<in> set (drain (done_requests s) (in_flight s)). a < length (flags s)"
    using assms(1) drain_keys(2) [of "done_requests s" "in_flight s"] unfolding server_ok_def tasks_ok_def by blast
  ultimately show ?thesis using assms
    by (simp add: server_ok_def account_def pending_def tracked_ids_def tasks_ok_def stop_not)
qed

lemma receive_ok:
  assumes "server_ok s" "main_phase s = Reading" "proper m"
  shows "server_ok (dispatch fe m (s\<lparr>wire := wire s @ [Received m], main_phase := Draining\<rparr>))"
proof -
  define s0 where "s0 = s\<lparr>wire := wire s @ [Received m], main_phase := Draining\<rparr>"
  have s0: "account s0 = account s" "requests (wire s0) = requests (wire s) + due m" "tasks_ok s0" "tracked_ids s0 = tracked_ids s" "in_flight s0 = in_flight s"
    using assms(1) by (simp_all add: s0_def account_def pending_def wire_simps tracked_ids_def tasks_ok_def server_ok_def)
  have eq: "account s = requests (wire s)" "fst ` set (in_flight s) \<subseteq> tracked_ids s" using assms(1,2) by (simp_all add: server_ok_def stop_not)
  define s' where "s' = dispatch fe m s0"
  have h: "handled (due m) s0 s'" unfolding s'_def by (rule dispatch_handled [OF assms(3)])
  have "account s' = requests (wire s')" "tasks_ok s'" using h s0 eq by (simp_all add: handled_def)
  moreover have "fst ` set (in_flight s') \<subseteq> tracked_ids s'"
  proof -
    have m: "tracked_ids s0 \<subseteq> tracked_ids s'" using h unfolding handled_def tracked_ids_def by (intro Un_mono) simp_all
    have f: "fst ` set (in_flight s') \<subseteq> fst ` set (in_flight s0) \<union> set_mset (pending s')" using h by (simp only: handled_def)
    have "fst ` set (in_flight s0) \<subseteq> tracked_ids s'" using eq(2) m unfolding s0(4,5) by (rule order_trans)
    moreover have "set_mset (pending s') \<subseteq> tracked_ids s'" unfolding tracked_ids_def by (simp add: Un_assoc)
    ultimately show ?thesis using f by (meson Un_least order_trans)
  qed
  ultimately show ?thesis by (simp add: server_ok_def s'_def s0_def)
qed

lemma step_ok:
  assumes "server_ok s" "proper_label l"
  shows "server_ok (step fe ans l s)"
proof (cases "worker_phase s = Terminated")
  case False
  show ?thesis
  proof (cases l)
    case Drain
    then show ?thesis using assms(1) False drain_ok [OF assms(1)] by (simp add: step_def)
  next
    case (Recv mo)
    have end_ok: "server_ok (s\<lparr>main_phase := Returned c\<rparr>)" for c
      using assms(1) by (simp add: server_ok_def account_def pending_def tasks_ok_def stop_requested_def)
    show ?thesis
    proof (cases mo)
      case None
      then show ?thesis using assms(1) False Recv end_ok by (simp add: step_def)
    next
      case (Some m)
      then show ?thesis using assms False Recv receive_ok by (auto simp: step_def proper_label_def)
    qed
  next
    case Garbled
    have "server_ok (s\<lparr>main_phase := Draining\<rparr>)" if "main_phase s = Reading"
      using assms(1) that by (simp add: server_ok_def account_def pending_def tasks_ok_def tracked_ids_def stop_not)
    then show ?thesis using assms(1) False Garbled by (simp add: step_def)
  next
    case (Work disk now)
    have "tasks_ok s" using assms(1) by (simp add: server_ok_def)
    then show ?thesis using worked_ok [OF assms(1) worker_step_worked] False Work by (simp add: step_def)
  qed
qed (use assms in \<open>simp add: step_def\<close>)

interpretation session: invariant_system "moves fe ans" server_ok for fe ans
  by unfold_locales (auto elim!: movesE intro: step_ok)

lemma new_server_ok: "server_ok new_server"
  by (simp add: server_ok_def new_server_def tasks_ok_def account_def pending_def wire_simps)

lemma run_moves: "list_all proper_label ls \<Longrightarrow> (moves fe ans)\<^sup>*\<^sup>* s (fold (step fe ans) ls s)"
proof (induction ls arbitrary: s)
  case (Cons l ls)
  then have "moves fe ans s (step fe ans l s)" by (simp add: moves.intros)
  then show ?case using Cons.IH [of "step fe ans l s"] Cons.prems by (simp add: converse_rtranclp_into_rtranclp)
qed simp

lemma run_ok: "list_all proper_label ls \<Longrightarrow> server_ok (run fe ans ls)"
  unfolding run_def by (rule session.run_inv [OF run_moves new_server_ok])

text \<open>
  C5: In every interleaving of the two threads, each request the client sends is answered at most once and nothing else
  is answered; until the server is told to stop, a request without an answer is queued or being worked on.
\<close>

theorem requests_answered_once:
  assumes "list_all proper_label ls" "s = run fe ans ls"
  shows "answers (wire s) + pending s \<subseteq># requests (wire s) \<and>
    (\<not> stop_requested s \<longrightarrow> answers (wire s) + pending s = requests (wire s))"
  using run_ok [OF assms(1), of fe ans] assms(2) by (simp add: server_ok_def account_def)

text \<open>
  C21: The table of cancellable requests does not leak: whatever was cancelled, failed or rejected, once no request is
  waiting or being worked on, reading the completed ones leaves the table empty.
\<close>

theorem in_flight_empties:
  assumes "list_all proper_label ls" "s = run fe ans ls" "main_phase s = Draining" "worker_phase s \<in> {Looping, Polling}" "pending s = {#}"
  shows "in_flight (step fe ans Drain s) = []"
proof -
  have "fst ` set (in_flight s) \<subseteq> tracked_ids s" using run_ok [OF assms(1), of fe ans] assms(2,3) by (simp add: server_ok_def stop_not)
  also have "\<dots> = set (done_requests s)" using assms(4,5) by (auto simp: tracked_ids_def)
  finally have "fst ` set (drain (done_requests s) (in_flight s)) = {}" unfolding drain_keys(1) by blast
  then have "drain (done_requests s) (in_flight s) = []" by simp
  moreover have "worker_phase s \<noteq> Terminated" using assms(4) by auto
  ultimately show ?thesis using assms(3) by (simp add: step_def)
qed

subsection \<open>Progress\<close>

fun phase_effort :: "('p, 'j) worker_phase \<Rightarrow> nat" where
  "phase_effort (Popped t) = 6"
| "phase_effort (Checking t) = 5"
| "phase_effort (Computing t) = 4"
| "phase_effort (Computed t j) = 3"
| "phase_effort (Marking k) = 2"
| "phase_effort Looping = 1"
| "phase_effort _ = 0"

definition effort :: "('r, 'p, 'j) server \<Rightarrow> nat" where
  "effort s = 8 * length (queue s) + phase_effort (worker_phase s)"

definition idle :: "('r, 'p, 'j) server \<Rightarrow> bool" where
  "idle s \<longleftrightarrow> queue s = [] \<and> phase_task (worker_phase s) = None"

lemma finish_effort: "effort (finish msg k s) = 8 * length (queue s) + 2"
  by (simp add: effort_def finish_def)

lemma work_progress:
  assumes "\<not> stop_requested s" "worker_phase s \<noteq> Terminated" "worker_phase s \<noteq> Stopped" "\<not> idle s"
  shows "effort (worker_step fe ans disk now s) < effort s"
proof (cases "worker_phase s")
  case (Popped t)
  then show ?thesis
    by (auto simp: worker_step_def begin_task_def finish_effort) (auto simp: effort_def split: option.splits)
next
  case (Checking t)
  then show ?thesis by (auto simp: worker_step_def check_task_def finish_effort) (auto simp: effort_def)
next
  case (Computing t)
  then show ?thesis
    by (auto simp: worker_step_def compute_task_def finish_effort split: task_body.split prod.split option.split)
      (auto simp: effort_def)
next
  case (Computed t j)
  then show ?thesis by (simp add: worker_step_def finish_task_def finish_effort) (simp add: effort_def)
qed (use assms in \<open>auto simp: worker_step_def effort_def idle_def neq_Nil_conv split: prod.split option.split\<close>)

definition stop_ok :: "('r, 'p, 'j) server \<Rightarrow> bool" where
  "stop_ok s \<longleftrightarrow> (worker_phase s = Stopped \<longrightarrow> stop_requested s)"

lemma worker_step_main [simp]: "main_phase (worker_step fe ans disk now s) = main_phase s"
  by (auto simp: worker_step_def begin_task_def check_task_def compute_task_def finish_task_def finish_def
      split: worker_phase.splits prod.splits option.splits list.splits task_body.splits)

lemma worker_step_stop_ok:
  assumes "stop_ok s"
  shows "stop_ok (worker_step fe ans disk now s)"
proof -
  have "worker_phase (worker_step fe ans disk now s) = Stopped \<Longrightarrow> worker_phase s = Stopped \<or> stop_requested s"
    by (auto simp: worker_step_def begin_task_def check_task_def compute_task_def finish_task_def finish_def
        split: worker_phase.splits prod.splits option.splits list.splits task_body.splits if_splits)
  then show ?thesis using assms worker_step_main [of fe ans disk now s] by (auto simp: stop_ok_def stop_requested_def)
qed

lemma step_stop_ok:
  assumes "stop_ok s" "proper_label l"
  shows "stop_ok (step fe ans l s)"
proof (cases l)
  case (Recv mo)
  show ?thesis
  proof (cases "mo = None \<or> main_phase s \<noteq> Reading \<or> worker_phase s = Terminated")
    case True
    then show ?thesis using assms Recv by (cases mo) (auto simp: step_def stop_ok_def stop_requested_def)
  next
    case False
    then obtain m where m: "mo = Some m" "main_phase s = Reading" "worker_phase s \<noteq> Terminated" by auto
    then have "worker_phase s \<noteq> Stopped" using assms(1) by (simp add: stop_ok_def stop_requested_def)
    moreover have "proper m" using assms(2) Recv m by (simp add: proper_label_def)
    note dispatch_handled [OF this, of "s\<lparr>wire := wire s @ [Received m], main_phase := Draining\<rparr>" fe]
    then have "worker_phase (step fe ans l s) = worker_phase s" using Recv m by (simp add: step_def handled_def)
    ultimately show ?thesis by (simp add: stop_ok_def)
  qed
next
  case (Work disk now)
  then show ?thesis using assms(1) worker_step_stop_ok [OF assms(1)] by (simp add: step_def)
qed (use assms in \<open>auto simp: step_def stop_ok_def stop_requested_def\<close>)

lemma run_stop_ok: "list_all proper_label ls \<Longrightarrow> stop_ok (run fe ans ls)"
proof -
  have "list_all proper_label ls \<Longrightarrow> stop_ok s \<Longrightarrow> stop_ok (fold (step fe ans) ls s)" for s
    by (induction ls arbitrary: s) (simp_all add: step_stop_ok)
  then show "list_all proper_label ls \<Longrightarrow> stop_ok (run fe ans ls)" by (simp add: run_def stop_ok_def new_server_def)
qed

definition work_labels :: "(nat \<Rightarrow> file_texts \<times> nat) \<Rightarrow> nat \<Rightarrow> nat \<Rightarrow> 'p label list" where
  "work_labels env k n = map (\<lambda>i. Work (fst (env i)) (snd (env i))) [k..<k + n]"

lemma work_labels_Suc: "work_labels env k (Suc n) = Work (fst (env k)) (snd (env k)) # work_labels env (Suc k) n"
  by (simp add: work_labels_def upt_conv_Cons del: upt_Suc)

lemma work_labels_proper: "list_all proper_label (work_labels env k n)"
  by (simp add: work_labels_def list_all_iff proper_label_def)

lemma worker_gets_idle:
  assumes "stop_ok s" "\<not> stop_requested s"
  shows "\<exists>n \<le> effort s. worker_phase (fold (step fe ans) (work_labels env k n) s) = Terminated \<or> idle (fold (step fe ans) (work_labels env k n) s)"
  using assms
proof (induction "effort s" arbitrary: s k rule: less_induct)
  case less
  show ?case
  proof (cases "worker_phase s = Terminated \<or> idle s")
    case True
    then show ?thesis by (intro exI [of _ 0]) (auto simp: work_labels_def)
  next
    case False
    define s' where "s' = worker_step fe ans (fst (env k)) (snd (env k)) s"
    have "worker_phase s \<noteq> Stopped" using less.prems by (simp add: stop_ok_def)
    then have e: "effort s' < effort s" unfolding s'_def using False less.prems by (intro work_progress) simp_all
    have "stop_ok s'" "\<not> stop_requested s'"
      using less.prems worker_step_stop_ok [OF less.prems(1)] by (simp_all add: s'_def stop_requested_def)
    then obtain n where n: "n \<le> effort s'" "worker_phase (fold (step fe ans) (work_labels env (Suc k) n) s') = Terminated \<or>
        idle (fold (step fe ans) (work_labels env (Suc k) n) s')" using less.hyps [OF e] by blast
    moreover have "step fe ans (Work (fst (env k)) (snd (env k))) s = s'" using False by (simp add: step_def s'_def)
    ultimately show ?thesis using e by (intro exI [of _ "Suc n"]) (simp add: work_labels_Suc)
  qed
qed

text \<open>
  C6: Every request is eventually answered: whatever the session so far, and whatever the files and the clock do, after at
  most eight worker steps per queued task (and six more) either the process has been terminated by an exception in the
  debounced republishing, or every request received has exactly one answer.
\<close>

theorem requests_eventually_answered:
  assumes "list_all proper_label ls" "\<not> stop_requested (run fe ans ls)"
  shows "\<exists>n \<le> 8 * length (queue (run fe ans ls)) + 6. let s = run fe ans (ls @ work_labels env 0 n)
    in worker_phase s = Terminated \<or> answers (wire s) = requests (wire s)"
proof -
  have le: "effort (run fe ans ls) \<le> 8 * length (queue (run fe ans ls)) + 6"
    by (cases "worker_phase (run fe ans ls)") (simp_all add: effort_def)
  obtain n where n: "n \<le> effort (run fe ans ls)" and
    s: "worker_phase (run fe ans (ls @ work_labels env 0 n)) = Terminated \<or> idle (run fe ans (ls @ work_labels env 0 n))"
    using worker_gets_idle [OF run_stop_ok [OF assms(1)] assms(2)] unfolding run_def fold_append comp_apply by blast
  define s' where "s' = run fe ans (ls @ work_labels env 0 n)"
  have p: "list_all proper_label (ls @ work_labels env 0 n)" using assms(1) work_labels_proper by simp
  have "main_phase (fold (step fe ans) (work_labels env k n) s) = main_phase s" for k n s
    by (induction n arbitrary: s k) (simp add: work_labels_def, simp add: work_labels_Suc step_def worker_step_main)
  then have "\<not> stop_requested s'" using assms(2) by (simp add: s'_def run_def stop_requested_def)
  then have "answers (wire s') + pending s' = requests (wire s')"
    using run_ok [OF p, of fe ans] by (simp add: s'_def server_ok_def account_def)
  moreover have "idle s' \<Longrightarrow> pending s' = {#}" by (simp add: idle_def pending_def)
  ultimately show ?thesis using n le s unfolding Let_def s'_def [symmetric] by (intro exI [of _ n]) (auto simp: s'_def)
qed

subsection \<open>Example sessions\<close>

definition message_with :: "string \<Rightarrow> string option \<Rightarrow> unit rpc_message" where
  "message_with meth i = \<lparr>msg_method = Method meth, msg_id = i, uri_param = None, text_param = None, changes_param = None,
     watched_param = None, cancel_param = None, client_params = None, request_params = None\<rparr>"

definition initialize_message :: "unit rpc_message" where
  "initialize_message = (message_with ''initialize'' (Some ''0''))\<lparr>client_params := Some \<lparr>dynamic_registration = Some False,
     position_encodings = [Some ''utf-16''], folder_uri = None, root_uri = None, root_path = None\<rparr>\<rparr>"

definition hover_message :: "unit rpc_message" where
  "hover_message = (message_with ''textDocument/hover'' (Some ''1''))\<lparr>uri_param := Some ''file:///a/a.mir'', request_params := Some ()\<rparr>"

definition boom_message :: "unit rpc_message" where
  "boom_message = (message_with ''textDocument/didChange'' None)\<lparr>uri_param := Some ''file:///b/b.mir'', changes_param := Some [Some ''boom'']\<rparr>"

definition cancel_message :: "unit rpc_message" where
  "cancel_message = (message_with ''$/cancelRequest'' None)\<lparr>cancel_param := Some ''1''\<rparr>"

definition quiet :: "(string option, unit, unit) answer" where
  "quiet = (\<lambda>meth path p disk w. (w, Some ()))"

abbreviation receive :: "unit rpc_message \<Rightarrow> unit label list" where
  "receive m \<equiv> [Drain, Recv (Some m)]"

abbreviation works :: "nat \<Rightarrow> unit label list" where
  "works n \<equiv> replicate n (Work Map.empty 0)"

lemmas message_defs = message_with_def initialize_message_def hover_message_def boom_message_def cancel_message_def

lemma messages_proper: "proper initialize_message" "proper hover_message" "proper boom_message" "proper cancel_message"
  by (simp_all add: proper_def message_defs notification_methods_def request_methods_def)

lemma example_paths:
  "canonical_path_of two_modules ''file:///a/a.mir'' = ''/a/a.mir''" "canonical_path_of two_modules ''file:///b/b.mir'' = b_file"
proof -
  have "path_to_uri ''/a/a.mir'' = ''file:///a/a.mir''" "path_to_uri ''/b/b.mir'' = ''file:///b/b.mir''"
    by (simp_all add: path_to_uri_def percent_encode_def encode_char_def char_code_def)
  then have "uri_to_path ''file:///a/a.mir'' = ''/a/a.mir''" "uri_to_path ''file:///b/b.mir'' = ''/b/b.mir''"
    using uri_to_path_of_uri [of "''a/a.mir''"] uri_to_path_of_uri [of "''b/b.mir''"] by simp_all
  then show "canonical_path_of two_modules ''file:///a/a.mir'' = ''/a/a.mir''" "canonical_path_of two_modules ''file:///b/b.mir'' = b_file"
    by (simp_all add: canonical_path_of_def two_modules_fields b_file_def Let_def)
qed

lemmas server_eval = step_def worker_step_def begin_task_def check_task_def compute_task_def finish_task_def finish_def send_def push_def
  dispatch_def handle_def handle_initialize_def client_root_def uri_root_def handle_did_change_def handle_cancel_def enqueue_cancellable_request_def queue_full_def
  MAX_PENDING_def id_text_def request_methods_def stop_requested_def cancel_requested_def example_paths message_defs quiet_def Let_def
  sweep_due_diagnostics_def

definition after_hover :: "(string option, unit, unit) server" where
  "after_hover = \<lparr>lifecycle = Running, shutdown_received = False, supports_watch_registration = False, in_flight = [(''1'', 0)], flags = [False],
     queue = [\<lparr>cancelled = Some 0, run_body = Request_Body ''textDocument/hover'' ''/a/a.mir'' (), id_key = ''1''\<rparr>], done_requests = [],
     worker_state = new_worker, wire = [Received initialize_message, Sent (Initialize_Response ''0'' False), Received hover_message],
     main_phase = Draining, worker_phase = Looping\<rparr>"

definition hover_session :: "unit label list" where
  "hover_session = receive initialize_message @ receive hover_message"

lemma hover_session_run: "run two_modules quiet hover_session = after_hover"
  by (simp add: hover_session_def run_def new_server_def new_worker_def after_hover_def server_eval)

lemma hover_session_proper: "list_all proper_label hover_session"
  by (simp add: hover_session_def proper_label_def messages_proper)

theorem requests_answered_once_witness:
  "answers (wire after_hover) + pending after_hover = requests (wire after_hover) \<and> pending after_hover = {#''1''#}"
  using requests_answered_once [OF hover_session_proper hover_session_run [symmetric]]
  by (simp add: stop_requested_def after_hover_def pending_def task_ids_def)

definition answered_session :: "unit label list" where
  "answered_session = hover_session @ works 7"

definition after_answer :: "(string option, unit, unit) server" where
  "after_answer = after_hover\<lparr>queue := [], done_requests := [''1''], wire := wire after_hover @ [Sent (Response ''1'' (Some ()))]\<rparr>"

lemma answered_session_run: "run two_modules quiet answered_session = after_answer"
proof -
  have "fold (step two_modules quiet) (works 7) after_hover = after_answer"
    by (simp add: after_answer_def after_hover_def new_worker_def numeral_eq_Suc server_eval)
  then show ?thesis using hover_session_run by (simp add: answered_session_def run_def)
qed

theorem in_flight_empties_witness: "in_flight (step two_modules quiet Drain after_answer) = []"
proof -
  have "list_all proper_label answered_session" using hover_session_proper by (simp add: answered_session_def proper_label_def list_all_iff)
  then show ?thesis
    by (rule in_flight_empties [OF _ answered_session_run [symmetric]]) (simp_all add: after_answer_def after_hover_def pending_def)
qed

theorem requests_eventually_answered_witness:
  "\<exists>n \<le> 14. let s = run two_modules quiet (hover_session @ work_labels (\<lambda>_. (Map.empty, 0)) 0 n)
     in worker_phase s = Terminated \<or> answers (wire s) = requests (wire s)"
proof -
  have "\<not> stop_requested (run two_modules quiet hover_session)" by (simp add: hover_session_run after_hover_def stop_requested_def)
  moreover have "length (queue (run two_modules quiet hover_session)) = 1" by (simp add: hover_session_run after_hover_def)
  ultimately show ?thesis
    using requests_eventually_answered [OF hover_session_proper, of two_modules quiet "\<lambda>_. (Map.empty, 0)"] by simp
qed

subsection \<open>Two sessions that go wrong\<close>

lemma run_append: "run fe ans (ls @ ls') = fold (step fe ans) ls' (run fe ans ls)"
  by (simp add: run_def)

text \<open>
  An edit after which the analysis throws, then a hover request. The edit only schedules its republication; when the
  deadline has passed, the sweep at the top of the worker loop runs it outside the handler that guards the tasks.
\<close>

definition fatal_session :: "unit label list" where
  "fatal_session = receive initialize_message @ receive boom_message @ works 3 @ receive hover_message @ [Work Map.empty 200]"

definition after_boom :: "(string option, unit, unit) server" where
  "after_boom = \<lparr>lifecycle = Running, shutdown_received = False, supports_watch_registration = False, in_flight = [], flags = [],
     queue = [], done_requests = [],
     worker_state = new_worker\<lparr>documents := DocumentStore\<lparr>open_texts := [(b_file, ''boom'')]\<rparr>, pending_diag_deadlines := [(b_file, 200)]\<rparr>,
     wire = [Received initialize_message, Sent (Initialize_Response ''0'' False), Received boom_message],
     main_phase = Draining, worker_phase = Looping\<rparr>"

definition after_init :: "(string option, unit, unit) server" where
  "after_init = \<lparr>lifecycle = Running, shutdown_received = False, supports_watch_registration = False, in_flight = [], flags = [],
     queue = [], done_requests = [], worker_state = new_worker, wire = [Received initialize_message, Sent (Initialize_Response ''0'' False)],
     main_phase = Draining, worker_phase = Looping\<rparr>"

lemma after_init_run: "run two_modules quiet (receive initialize_message) = after_init"
  by (simp add: run_def new_server_def new_worker_def after_init_def server_eval)

definition boom_task :: "unit task" where
  "boom_task = \<lparr>cancelled = None, run_body = Change_Body b_file ''boom'', id_key = []\<rparr>"

lemma boom_received:
  "fold (step two_modules quiet) (receive boom_message) after_init =
     after_init\<lparr>queue := [boom_task], wire := wire after_init @ [Received boom_message]\<rparr>"
  by (simp add: after_init_def boom_task_def server_eval small_dirs)

lemma boom_worked:
  "fold (step two_modules quiet) (works 3) (after_init\<lparr>queue := [boom_task], wire := wire after_init @ [Received boom_message]\<rparr>) = after_boom"
proof -
  have 1: "step two_modules quiet (Work Map.empty 0) s = s\<lparr>worker_phase := Polling\<rparr>"
    if "worker_phase s = Looping" "main_phase s = Draining" "pending_diag_deadlines (worker_state s) = []" for s
    using that by (simp add: step_def worker_step_def stop_requested_def sweep_due_diagnostics_def)
  have 2: "step two_modules quiet (Work Map.empty 0) s = s\<lparr>queue := q, worker_phase := Popped t\<rparr>"
    if "worker_phase s = Polling" "main_phase s = Draining" "queue s = t # q" for s t q
    using that by (simp add: step_def worker_step_def stop_requested_def)
  have 3: "step two_modules quiet (Work Map.empty 0) s =
      s\<lparr>worker_state := did_change two_modules 0 b_file ''boom'' (worker_state s), worker_phase := Looping\<rparr>"
    if "worker_phase s = Popped boom_task" for s
    using that by (simp add: step_def worker_step_def begin_task_def cancel_requested_def boom_task_def)
  show ?thesis
    by (simp add: numeral_3_eq_3 1 2 3 after_init_def new_worker_def)
      (simp add: after_boom_def new_worker_def did_change_def update_document_def invalidate_def DocumentStore_def
        schedule_diagnostics_def DIAGNOSTICS_DEBOUNCE_def)
qed

lemma after_boom_run: "run two_modules quiet (receive initialize_message @ receive boom_message @ works 3) = after_boom"
  by (simp only: run_append after_init_run fold_append comp_apply boom_received boom_worked)

lemma fatal_end:
  "worker_phase (fold (step two_modules quiet) (receive hover_message @ [Work Map.empty 200]) after_boom) = Terminated"
  "pending (fold (step two_modules quiet) (receive hover_message @ [Work Map.empty 200]) after_boom) = {#''1''#}"
  by (simp_all add: after_boom_def new_worker_def DocumentStore_def server_eval do_publish_diagnostics_def store_eval pending_def task_ids_def)

lemma terminated_stays:
  assumes "worker_phase s = Terminated"
  shows "fold (step fe ans) ls s = s"
proof -
  have "step fe ans l s = s" for l using assms by (simp add: step_def)
  then show ?thesis by (induction ls) simp_all
qed

text \<open>
  The exception then ends the whole server: nothing moves any more, and a request that was accepted is never answered.
\<close>

theorem sweep_exception_ends_server:
  "worker_phase (run two_modules quiet fatal_session) = Terminated \<and> pending (run two_modules quiet fatal_session) = {#''1''#} \<and>
   (\<forall>ls. run two_modules quiet (fatal_session @ ls) = run two_modules quiet fatal_session)"
proof -
  define s where "s = run two_modules quiet fatal_session"
  have "s = fold (step two_modules quiet) (receive hover_message @ [Work Map.empty 200]) after_boom"
    unfolding after_boom_run [symmetric] s_def fatal_session_def run_append [symmetric] by simp
  then have s: "worker_phase s = Terminated" "pending s = {#''1''#}" using fatal_end by simp_all
  moreover have "run two_modules quiet (fatal_session @ ls) = s" for ls
    using terminated_stays [OF s(1), of two_modules quiet ls] by (simp add: s_def run_def)
  ultimately show ?thesis unfolding s_def [symmetric] by blast
qed

text \<open>
  The answer to a request is sent before the request is marked as done. A client that uses the id again after it has
  the answer can get its new request into the table before the mark; the next reading of the completed requests then
  removes the entry of the new one.
\<close>

definition reuse_session :: "unit label list" where
  "reuse_session = hover_session @ works 6 @ receive hover_message @ works 1 @ receive cancel_message"

lemma reuse_prefix:
  "fold (step two_modules quiet) (works 6) after_hover =
     after_hover\<lparr>queue := [], worker_phase := Marking ''1'', wire := wire after_hover @ [Sent (Response ''1'' (Some ()))]\<rparr>"
  by (simp add: after_hover_def new_worker_def numeral_eq_Suc server_eval)

text \<open>
  A cancellation can be lost: in this session the client uses an id again only after the answer to its first use was
  sent, the second request is still waiting when it is cancelled, and no flag is set.
\<close>

theorem cancellation_can_be_lost:
  "let s = run two_modules quiet reuse_session
   in answers (wire s) = {#''0'', ''1''#} \<and> pending s = {#''1''#} \<and> last (wire s) = Received cancel_message \<and>
      in_flight s = [] \<and> flags s = [False, False]"
proof -
  have "run two_modules quiet reuse_session = fold (step two_modules quiet) (receive hover_message @ works 1 @ receive cancel_message)
      (after_hover\<lparr>queue := [], worker_phase := Marking ''1'', wire := wire after_hover @ [Sent (Response ''1'' (Some ()))]\<rparr>)"
    by (simp only: reuse_session_def run_append hover_session_run fold_append comp_apply reuse_prefix)
  then show ?thesis
    by (simp add: after_hover_def server_eval answers_def pending_def task_ids_def)
qed

end
