(* ===== verification/Module_Resolver.thy ===== *)
theory Module_Resolver
  imports Lexer_Loop "HOL-Library.AList" "HOL-Library.List_Lexorder" "HOL-Library.Char_ord"
begin

text \<open>
  Module resolution (\<^verbatim>\<open>module_resolver.cpp\<close>): loading the files of a module directory, the search roots of an import
  path, and the depth-first walk over the import graph. The file system, the environment and the parser are the
  parameter \<open>toolchain\<close>; files go through the source manager and the lexer of this development. The walk is bounded by
  a depth (the recursion of \<^verbatim>\<open>visit\<close>), \<open>None\<close> when it is not enough; one more than the number of directories always is.
\<close>

subsection \<open>Data\<close>

record 'd toolchain =
  dir_entries :: "string \<Rightarrow> (string \<times> bool) list option"
  file_contents :: "string \<Rightarrow> string option"
  directory_exists :: "string \<Rightarrow> bool"
  weakly_canonical :: "string \<Rightarrow> string option"
  current_path :: "string option"
  getenv :: "string \<Rightarrow> string option"
  exe_link :: "string option"
  regular_file :: "string \<Rightarrow> bool"
  parse_tokens :: "token list \<Rightarrow> diagnostic_engine \<Rightarrow> 'd list \<times> diagnostic_engine"
  import_in :: "'d \<Rightarrow> (string \<times> source_location) option"

record 'd file_ast =
  file_path :: string
  declarations :: "'d list"

record search_record =
  importer :: string
  import_path :: string
  resolved_path :: string
  root_label :: string

record 'd program =
  loaded_modules :: "(string \<times> 'd file_ast list) list"
  module_imports :: "(string \<times> (string \<times> string) list) list"
  root_module_path :: string
  module_order :: "string list"
  module_search_trace :: "search_record list"
  file_count :: nat
  token_count :: nat
  program_ok :: bool

record search_roots =
  root_module :: string
  cwd :: string
  compiler_dir :: string
  compiler_lib_dir :: string
  modules_root :: string
  legacy_mirage_path_set :: bool

record resolve_options =
  std_path_override :: string
  opt_compiler_dir :: string
  forced_modules :: "string list"

definition empty_program :: "'d program" where
  "empty_program = \<lparr>loaded_modules = [], module_imports = [], root_module_path = [], module_order = [], module_search_trace = [],
     file_count = 0, token_count = 0, program_ok = False\<rparr>"

subsection \<open>Paths\<close>

text \<open>POSIX paths of \<^verbatim>\<open>std::filesystem\<close>: absoluteness, appending, the extension and the components.\<close>

definition is_absolute :: "string \<Rightarrow> bool" where
  "is_absolute p = (p \<noteq> [] \<and> hd p = CHR ''/'')"

definition path_append :: "string \<Rightarrow> string \<Rightarrow> string" where
  "path_append p q = (if is_absolute q then q else if p = [] \<or> last p = CHR ''/'' then p @ q else p @ ''/'' @ q)"

definition path_filename :: "string \<Rightarrow> string" where
  "path_filename p = rev (takeWhile (\<lambda>c. c \<noteq> CHR ''/'') (rev p))"

definition path_extension :: "string \<Rightarrow> string" where
  "path_extension p =
     (let f = path_filename p; ext = rev (takeWhile (\<lambda>c. c \<noteq> CHR ''.'') (rev f)) in
      if CHR ''.'' \<notin> set f \<or> f = ''.'' \<or> f = ''..'' \<or> length ext + 1 = length f then [] else CHR ''.'' # ext)"

definition parent_path :: "string \<Rightarrow> string" where
  "parent_path p =
     (if list_all (\<lambda>c. c = CHR ''/'') p then p
      else let dir = rev (dropWhile (\<lambda>c. c \<noteq> CHR ''/'') (rev p)); stem = rev (dropWhile (\<lambda>c. c = CHR ''/'') (rev dir))
           in if dir \<noteq> [] \<and> stem = [] then ''/'' else stem)"

fun split_char :: "char \<Rightarrow> string \<Rightarrow> string \<Rightarrow> string list" where
  "split_char sep acc [] = [rev acc]"
| "split_char sep acc (c # cs) = (if c = sep then rev acc # split_char sep [] cs else split_char sep (c # acc) cs)"

definition path_components :: "string \<Rightarrow> string list" where
  "path_components p =
     (let names = filter (\<lambda>n. n \<noteq> []) (split_char (CHR ''/'') [] p)
      in (if is_absolute p then [''/''] else []) @ names @ (if names \<noteq> [] \<and> last p = CHR ''/'' then [[]] else []))"

fun component_prefix :: "string list \<Rightarrow> string list \<Rightarrow> bool" where
  "component_prefix [] cand = True"
| "component_prefix (b # bs) cand = (case cand of [] \<Rightarrow> False | c # cs \<Rightarrow> c = b \<and> component_prefix bs cs)"

definition is_contained_in :: "string \<Rightarrow> string \<Rightarrow> bool" where
  "is_contained_in base candidate = component_prefix (path_components base) (path_components candidate)"

definition canonicalize :: "'d toolchain \<Rightarrow> string \<Rightarrow> string" where
  "canonicalize tc path = (case weakly_canonical tc path of None \<Rightarrow> [] | Some p \<Rightarrow> p)"

definition resolve_contained_path :: "'d toolchain \<Rightarrow> string \<Rightarrow> string \<Rightarrow> string" where
  "resolve_contained_path tc base_dir relative_path =
     (if is_absolute relative_path then []
      else case weakly_canonical tc (path_append base_dir relative_path) of None \<Rightarrow> []
        | Some p \<Rightarrow> if is_contained_in base_dir p then p else [])"

text \<open>Where the compiler lives: the link of the process, else the directory of \<^verbatim>\<open>argv[0]\<close>, else a search of \<^verbatim>\<open>$PATH\<close>.\<close>

definition parent_directory :: "'d toolchain \<Rightarrow> string \<Rightarrow> string" where
  "parent_directory tc p = (let canonical = canonicalize tc (parent_path p) in if directory_exists tc canonical then canonical else [])"

fun search_path :: "'d toolchain \<Rightarrow> string \<Rightarrow> string list \<Rightarrow> string" where
  "search_path tc invoked [] = []"
| "search_path tc invoked (entry # es) =
     (if entry = [] \<or> \<not> regular_file tc (path_append entry invoked) then search_path tc invoked es
      else parent_directory tc (path_append entry invoked))"

definition executable_directory :: "'d toolchain \<Rightarrow> string option \<Rightarrow> string" where
  "executable_directory tc argv0 =
     (case exe_link tc of
        Some exe \<Rightarrow> parent_path exe
      | None \<Rightarrow>
          (case argv0 of
             None \<Rightarrow> []
           | Some invoked \<Rightarrow>
               if invoked = [] then []
               else if parent_path invoked \<noteq> [] then parent_directory tc invoked
               else (case getenv tc ''PATH'' of None \<Rightarrow> [] | Some v \<Rightarrow> search_path tc invoked (split_char (CHR '':'') [] v))))"

subsection \<open>Loading a module\<close>

fun load_files :: "'d toolchain \<Rightarrow> string list \<Rightarrow> diagnostic_engine \<times> 'd program \<times> 'd file_ast list \<Rightarrow>
    diagnostic_engine \<times> 'd program \<times> 'd file_ast list" where
  "load_files tc [] st = st"
| "load_files tc (file # files) (e, prog, m) =
     (let (e, source) = load_source (file_contents tc) e file in
      if file_text source = [] then load_files tc files (e, prog, m)
      else
        let errors_before = error_count e; (e, tokens) = tokenize (file_text source) (file_name source) e in
        if errors_before < error_count e then load_files tc files (e, prog, m)
        else
          let prog = prog\<lparr>file_count := file_count prog + 1, token_count := token_count prog + length tokens\<rparr>;
              (decls, e) = parse_tokens tc tokens e
          in load_files tc files (e, prog, m @ [\<lparr>file_path = file_name source, declarations = decls\<rparr>]))"

definition module_files :: "(string \<times> bool) list \<Rightarrow> string list" where
  "module_files entries = sort (map fst (filter (\<lambda>(p, regular). regular \<and> path_extension p = ''.mir'') entries))"

definition load_and_parse :: "'d toolchain \<Rightarrow> string \<Rightarrow> diagnostic_engine \<times> 'd program \<Rightarrow> diagnostic_engine \<times> 'd program \<times> 'd file_ast list" where
  "load_and_parse tc path st =
     (case st of (e, prog) \<Rightarrow>
        case dir_entries tc path of
          None \<Rightarrow> (report_error e ParserStage default_location (''cannot read module directory '' @ quoted path), prog, [])
        | Some entries \<Rightarrow> load_files tc (module_files entries) (e, prog, []))"

definition find_import_strings :: "'d toolchain \<Rightarrow> 'd file_ast list \<Rightarrow> (string \<times> source_location) list" where
  "find_import_strings tc m = List.map_filter (import_in tc) (concat (map declarations m))"

subsection \<open>Search roots\<close>

definition ordered_roots :: "search_roots \<Rightarrow> (string \<times> string) list" where
  "ordered_roots roots =
     [(root_module roots, ''root module directory''), (cwd roots, ''current working directory''),
      (compiler_dir roots, ''compiler directory''), (compiler_lib_dir roots, ''compiler directory/../lib/mirage''),
      (modules_root roots, ''MIRAGE_MODULES_ROOT'')]"

fun search_rooted :: "'d toolchain \<Rightarrow> string \<Rightarrow> (string \<times> string) list \<Rightarrow> (string \<times> string) option" where
  "search_rooted tc import [] = None"
| "search_rooted tc import ((root, label) # rs) =
     (let candidate = path_append root import; canonical = canonicalize tc candidate in
      if root = [] \<or> \<not> directory_exists tc candidate \<or> canonical = [] \<or> \<not> is_contained_in root canonical
      then search_rooted tc import rs else Some (canonical, label))"

definition resolve_import_path :: "'d toolchain \<Rightarrow> string \<Rightarrow> string \<Rightarrow> search_roots \<Rightarrow> (string \<times> string) option" where
  "resolve_import_path tc importer_path import roots =
     (if is_absolute import then None
      else
        let candidate = path_append importer_path import in
        if directory_exists tc candidate \<and> canonicalize tc candidate \<noteq> []
        then Some (canonicalize tc candidate, ''importing module directory'')
        else search_rooted tc import (ordered_roots roots))"

definition describe_search_roots :: "string \<Rightarrow> search_roots \<Rightarrow> string" where
  "describe_search_roots importer_path roots =
     [newline] @ ''  searched: '' @ importer_path @ '' (importing module)'' @
     concat (map (\<lambda>(root, label). [newline] @ ''            '' @ (if root = [] then ''<not set>'' else root) @ '' ('' @ label @ '')'')
       (ordered_roots roots)) @
     (if legacy_mirage_path_set roots \<and> modules_root roots = []
      then [newline] @ ''  note: MIRAGE_PATH is set but is no longer consulted; use MIRAGE_MODULES_ROOT'' else [])"

definition usable_root :: "'d toolchain \<Rightarrow> string \<Rightarrow> string" where
  "usable_root tc path =
     (if path = [] then []
      else let canonical = canonicalize tc path in if canonical = [] \<or> \<not> directory_exists tc canonical then [] else canonical)"

subsection \<open>The walk\<close>

definition add_import :: "string \<Rightarrow> string \<Rightarrow> string \<Rightarrow> 'd program \<Rightarrow> 'd program" where
  "add_import path import r prog =
     prog\<lparr>module_imports := AList.update path
       (AList.update import r (case map_of (module_imports prog) path of None \<Rightarrow> [] | Some is \<Rightarrow> is)) (module_imports prog)\<rparr>"

definition add_trace :: "string \<Rightarrow> string \<Rightarrow> string \<times> string \<Rightarrow> 'd program \<Rightarrow> 'd program" where
  "add_trace path import res prog =
     prog\<lparr>module_search_trace := module_search_trace prog @
       [\<lparr>importer = path, import_path = import, resolved_path = fst res, root_label = snd res\<rparr>]\<rparr>"

function visit :: "'d toolchain \<Rightarrow> search_roots \<Rightarrow> nat \<Rightarrow> string \<Rightarrow> diagnostic_engine \<times> 'd program \<Rightarrow> (diagnostic_engine \<times> 'd program) option"
  and visit_imports :: "'d toolchain \<Rightarrow> search_roots \<Rightarrow> nat \<Rightarrow> string \<Rightarrow> (string \<times> source_location) list \<Rightarrow> diagnostic_engine \<times> 'd program \<Rightarrow>
    (diagnostic_engine \<times> 'd program) option" where
  "visit tc roots 0 path st = None"
| "visit tc roots (Suc depth) path (e, prog) =
     (if path \<in> fst ` set (loaded_modules prog) then Some (e, prog)
      else
        let prog = prog\<lparr>loaded_modules := AList.update path [] (loaded_modules prog), module_order := module_order prog @ [path]\<rparr>;
            (e, prog, m) = load_and_parse tc path (e, prog);
            prog = prog\<lparr>loaded_modules := AList.update path m (loaded_modules prog)\<rparr>
        in visit_imports tc roots depth path (find_import_strings tc m) (e, prog))"
| "visit_imports tc roots depth path [] st = Some st"
| "visit_imports tc roots depth path ((import, loc) # is) (e, prog) =
     (case resolve_import_path tc path import roots of
        None \<Rightarrow> visit_imports tc roots depth path is
          (report_error e ParserStage loc (''cannot resolve import path '' @ quoted import @ '' from '' @ quoted path @
             describe_search_roots path roots), prog)
      | Some res \<Rightarrow>
          (case visit tc roots depth (fst res) (e, add_trace path import res (add_import path import (fst res) prog)) of
             None \<Rightarrow> None
           | Some st \<Rightarrow> visit_imports tc roots depth path is st))"
  by pat_completeness auto
termination
  by (relation "measures [\<lambda>x. case x of Inl (tc, roots, depth, path, st) \<Rightarrow> depth | Inr (tc, roots, depth, path, is, st) \<Rightarrow> depth,
        \<lambda>x. case x of Inl _ \<Rightarrow> 0 | Inr (tc, roots, depth, path, is, st) \<Rightarrow> Suc (length is)]") auto

fun visit_forced :: "'d toolchain \<Rightarrow> search_roots \<Rightarrow> nat \<Rightarrow> string \<Rightarrow> string list \<Rightarrow> diagnostic_engine \<times> 'd program \<Rightarrow>
    (diagnostic_engine \<times> 'd program) option" where
  "visit_forced tc roots depth canonical [] st = Some st"
| "visit_forced tc roots depth canonical (forced # fs) (e, prog) =
     (case resolve_import_path tc canonical forced roots of
        None \<Rightarrow> visit_forced tc roots depth canonical fs
          (report_error e ParserStage default_location (''cannot resolve forced module path '' @ quoted forced @
             describe_search_roots canonical roots), prog)
      | Some res \<Rightarrow>
          (case visit tc roots depth (fst res) (e, add_trace canonical forced res prog) of
             None \<Rightarrow> None
           | Some st \<Rightarrow> visit_forced tc roots depth canonical fs st))"

text \<open>The roots from the options and the environment; an invalid \<^verbatim>\<open>--std=\<close> ends the resolution.\<close>

definition base_roots :: "'d toolchain \<Rightarrow> resolve_options \<Rightarrow> string \<Rightarrow> search_roots" where
  "base_roots tc opts canonical =
     (let dir = (if opt_compiler_dir opts = [] then [] else usable_root tc (opt_compiler_dir opts));
          lib = (if opt_compiler_dir opts = [] then []
                 else usable_root tc (path_append (path_append (path_append (opt_compiler_dir opts) ''..'') ''lib'') ''mirage''))
      in \<lparr>root_module = canonical, cwd = (case current_path tc of None \<Rightarrow> [] | Some p \<Rightarrow> usable_root tc p),
          compiler_dir = dir, compiler_lib_dir = (if lib = dir then [] else lib), modules_root = [],
          legacy_mirage_path_set = (case getenv tc ''MIRAGE_PATH'' of None \<Rightarrow> False | Some v \<Rightarrow> v \<noteq> [])\<rparr>)"

definition std_root :: "'d toolchain \<Rightarrow> resolve_options \<Rightarrow> diagnostic_engine \<Rightarrow> diagnostic_engine \<times> string option" where
  "std_root tc opts e =
     (if std_path_override opts \<noteq> [] then
        let candidate = usable_root tc (std_path_override opts) in
        if candidate = []
        then (report_error e ParserStage default_location (quoted (std_path_override opts) @ '' is not a valid standard library directory''), None)
        else (e, Some candidate)
      else case getenv tc ''MIRAGE_MODULES_ROOT'' of
          None \<Rightarrow> (e, Some [])
        | Some v \<Rightarrow>
            if v = [] then (e, Some [])
            else let candidate = usable_root tc v in
              if candidate \<noteq> [] then (e, Some candidate)
              else (warn e ParserStage default_location (''MIRAGE_MODULES_ROOT is set to '' @ quoted v @
                     '', which is not a directory; standard-library imports will not resolve''), Some []))"

definition resolve_program :: "'d toolchain \<Rightarrow> nat \<Rightarrow> string \<Rightarrow> resolve_options \<Rightarrow> diagnostic_engine \<Rightarrow> (diagnostic_engine \<times> 'd program) option" where
  "resolve_program tc depth root_path opts e =
     (let canonical = canonicalize tc root_path in
      if canonical = [] \<or> \<not> directory_exists tc canonical
      then Some (report_error e ParserStage default_location (quoted root_path @ '' is not a valid module directory''), empty_program)
      else
        let prog = empty_program\<lparr>root_module_path := canonical\<rparr> in
        case std_root tc opts e of
          (e, None) \<Rightarrow> Some (e, prog)
        | (e, Some std) \<Rightarrow>
            let roots = (base_roots tc opts canonical)\<lparr>modules_root := std\<rparr> in
            (case visit tc roots depth canonical (e, prog) of None \<Rightarrow> None
             | Some st \<Rightarrow>
                 (case visit_forced tc roots depth canonical (forced_modules opts) st of None \<Rightarrow> None
                  | Some (e, prog) \<Rightarrow> Some (e, prog\<lparr>program_ok := \<not> has_errors e\<rparr>))))"

subsection \<open>Imports stay under their root\<close>

lemma component_prefix_take: "component_prefix bs cs \<longleftrightarrow> take (length bs) cs = bs"
  by (induction bs cs rule: component_prefix.induct) (auto split: list.splits)

lemma search_rooted_spec:
  "search_rooted tc import rs = Some (r, l) \<Longrightarrow>
     \<exists>root. (root, l) \<in> set rs \<and> root \<noteq> [] \<and> directory_exists tc (path_append root import) \<and> r = canonicalize tc (path_append root import) \<and>
       is_contained_in root r"
  by (induction rs) (auto simp: Let_def split: if_splits)

text \<open>Without the process link, the compiler's directory is an existing one or unknown.\<close>

lemma parent_directory_exists: "parent_directory tc p \<noteq> [] \<Longrightarrow> directory_exists tc (parent_directory tc p)"
  by (auto simp: parent_directory_def Let_def split: if_splits)

lemma search_path_exists: "search_path tc invoked es \<noteq> [] \<Longrightarrow> directory_exists tc (search_path tc invoked es)"
  by (induction es) (auto simp: parent_directory_exists)

lemma executable_directory_exists:
  "exe_link tc = None \<Longrightarrow> executable_directory tc argv0 \<noteq> [] \<Longrightarrow> directory_exists tc (executable_directory tc argv0)"
  by (auto simp: executable_directory_def parent_directory_exists search_path_exists split: option.splits if_splits)


lemma resolved_is_directory:
  assumes "resolve_import_path tc importer_path import roots = Some (r, l)"
  shows "r \<in> canonicalize tc ` {c. directory_exists tc c}"
  using assms search_rooted_spec [of tc import "ordered_roots roots" r l]
  by (auto simp: resolve_import_path_def Let_def split: if_splits)

subsection \<open>The walk returns\<close>

definition loaded_paths :: "'d program \<Rightarrow> string set" where
  "loaded_paths prog = fst ` set (loaded_modules prog)"

lemma loaded_map: "p \<in> loaded_paths prog \<longleftrightarrow> map_of (loaded_modules prog) p \<noteq> None"
  by (simp add: loaded_paths_def map_of_eq_None_iff)

definition closed_dirs :: "'d toolchain \<Rightarrow> search_roots \<Rightarrow> string set \<Rightarrow> bool" where
  "closed_dirs tc roots D \<longleftrightarrow> finite D \<and> (\<forall>p \<in> D. \<forall>i r l. resolve_import_path tc p i roots = Some (r, l) \<longrightarrow> r \<in> D)"

lemma closed_dirsD: "closed_dirs tc roots D \<Longrightarrow> p \<in> D \<Longrightarrow> resolve_import_path tc p i roots = Some res \<Longrightarrow> fst res \<in> D"
  unfolding closed_dirs_def by (cases res) auto

text \<open>Loading files leaves the graph of modules alone.\<close>

definition same_graph :: "'d program \<Rightarrow> 'd program \<Rightarrow> bool" where
  "same_graph prog prog' \<longleftrightarrow> loaded_modules prog' = loaded_modules prog \<and> module_order prog' = module_order prog \<and>
     module_imports prog' = module_imports prog \<and> module_search_trace prog' = module_search_trace prog"

lemma load_files_program:
  "load_files tc files (e, prog, m) = (e', prog', m') \<Longrightarrow> same_graph prog prog'"
proof (induction files arbitrary: e prog m)
  case (Cons f files)
  obtain e1 source where l: "load_source (file_contents tc) e f = (e1, source)" by fastforce
  obtain e2 tokens where t: "tokenize (file_text source) (file_name source) e1 = (e2, tokens)" by fastforce
  obtain decls e3 where d: "parse_tokens tc tokens e2 = (decls, e3)" by fastforce
  have g: "same_graph (prog\<lparr>file_count := a, token_count := b\<rparr>) prog' \<Longrightarrow> same_graph prog prog'" for a b by (simp add: same_graph_def)
  show ?case
    using Cons.prems Cons.IH [of e1 prog m] Cons.IH [of e2 prog m] g [OF Cons.IH] by (auto simp: l t d Let_def split: if_splits)
qed (simp add: same_graph_def)

lemma load_and_parse_program:
  assumes "load_and_parse tc path (e, prog) = (e', prog', m')"
  shows "same_graph prog prog'"
proof (cases "dir_entries tc path")
  case (Some entries)
  then have "load_files tc (module_files entries) (e, prog, []) = (e', prog', m')" using assms by (simp add: load_and_parse_def)
  then show ?thesis by (rule load_files_program)
qed (use assms in \<open>simp add: load_and_parse_def same_graph_def\<close>)

lemma add_fields [simp]:
  "loaded_modules (add_import p i r prog) = loaded_modules prog" "module_order (add_import p i r prog) = module_order prog"
  "module_search_trace (add_import p i r prog) = module_search_trace prog"
  "loaded_modules (add_trace p i res prog) = loaded_modules prog" "module_order (add_trace p i res prog) = module_order prog"
  "module_imports (add_trace p i res prog) = module_imports prog"
  by (simp_all add: add_import_def add_trace_def)

lemma add_loaded [simp]: "loaded_paths (add_import p i r prog) = loaded_paths prog" "loaded_paths (add_trace p i res prog) = loaded_paths prog"
  by (simp_all add: loaded_paths_def)

text \<open>One step into a new directory: what the imports are then visited with.\<close>

lemma visit_new:
  assumes "path \<notin> loaded_paths prog"
  obtains e1 prog1 m where "visit tc roots (Suc depth) path (e, prog) = visit_imports tc roots depth path (find_import_strings tc m) (e1, prog1)"
    "map_of (loaded_modules prog1) = (map_of (loaded_modules prog))(path \<mapsto> m)" "loaded_paths prog1 = insert path (loaded_paths prog)"
    "module_order prog1 = module_order prog @ [path]" "module_imports prog1 = module_imports prog" "module_search_trace prog1 = module_search_trace prog"
proof -
  define prog0 where "prog0 = prog\<lparr>loaded_modules := AList.update path [] (loaded_modules prog), module_order := module_order prog @ [path]\<rparr>"
  obtain e1 prog' m where l: "load_and_parse tc path (e, prog0) = (e1, prog', m)" by (metis prod_cases3)
  define prog1 where "prog1 = prog'\<lparr>loaded_modules := AList.update path m (loaded_modules prog')\<rparr>"
  note f = load_and_parse_program [OF l, unfolded same_graph_def]
  show thesis
  proof (rule that [of m e1 prog1])
    show "visit tc roots (Suc depth) path (e, prog) = visit_imports tc roots depth path (find_import_strings tc m) (e1, prog1)"
      using assms l by (simp add: prog0_def prog1_def loaded_paths_def)
    show "map_of (loaded_modules prog1) = (map_of (loaded_modules prog))(path \<mapsto> m)" using f by (simp add: prog1_def prog0_def update_conv')
    show "loaded_paths prog1 = insert path (loaded_paths prog)" using f by (simp add: prog1_def prog0_def dom_update loaded_paths_def)
    show "module_order prog1 = module_order prog @ [path]" "module_imports prog1 = module_imports prog" "module_search_trace prog1 = module_search_trace prog"
      using f by (simp_all add: prog1_def prog0_def)
  qed
qed

lemma visit_returns:
  fixes D :: "string set"
  assumes D: "closed_dirs tc roots D"
  shows "path \<in> D \<Longrightarrow> card (D - loaded_paths prog) < depth \<Longrightarrow>
      \<exists>e' prog'. visit tc roots depth path (e, prog) = Some (e', prog') \<and> loaded_paths prog \<subseteq> loaded_paths prog'"
    and "path \<in> D \<Longrightarrow> card (D - loaded_paths prog) < depth \<Longrightarrow>
      \<exists>e' prog'. visit_imports tc roots depth path is (e, prog) = Some (e', prog') \<and> loaded_paths prog \<subseteq> loaded_paths prog'"
proof (induction depth arbitrary: path e prog "is")
  case 0
  { case 1 then show ?case by simp }
  { case 2 then show ?case by simp }
next
  case (Suc depth)
  have v: "\<exists>e' prog'. visit tc roots (Suc depth) path (e, prog) = Some (e', prog') \<and> loaded_paths prog \<subseteq> loaded_paths prog'"
    if p: "path \<in> D" "card (D - loaded_paths prog) < Suc depth" for path e prog
  proof (cases "path \<in> loaded_paths prog")
    case False
    obtain e1 prog1 m where n: "visit tc roots (Suc depth) path (e, prog) = visit_imports tc roots depth path (find_import_strings tc m) (e1, prog1)"
      "loaded_paths prog1 = insert path (loaded_paths prog)" by (rule visit_new [OF False, of tc roots depth e])
    have "D - loaded_paths prog1 \<subset> D - loaded_paths prog" using p(1) False n(2) by auto
    then have "card (D - loaded_paths prog1) < card (D - loaded_paths prog)" using D by (intro psubset_card_mono) (simp_all add: closed_dirs_def)
    then have "card (D - loaded_paths prog1) < depth" using p(2) by simp
    from Suc.IH(2) [OF p(1) this, of "find_import_strings tc m" e1] show ?thesis unfolding n by blast
  qed (simp add: loaded_paths_def)
  { case 1 then show ?case by (rule v) }
  { case 2
    show ?case using 2
    proof (induction "is" arbitrary: e prog)
      case (Cons x xs)
      obtain i loc where x: "x = (i, loc)" by fastforce
      show ?case
      proof (cases "resolve_import_path tc path i roots")
        case None
        then show ?thesis using Cons x by simp
      next
        case (Some res)
        define prog1 where "prog1 = add_trace path i res (add_import path i (fst res) prog)"
        have "fst res \<in> D" by (rule closed_dirsD [OF D Cons.prems(1) Some])
        then obtain e2 prog2 where st: "visit tc roots (Suc depth) (fst res) (e, prog1) = Some (e2, prog2)" "loaded_paths prog1 \<subseteq> loaded_paths prog2"
          using v [of "fst res" prog1 e] Cons.prems(2) by (auto simp: prog1_def)
        have "card (D - loaded_paths prog2) \<le> card (D - loaded_paths prog)"
          using st(2) D by (intro card_mono) (auto simp: prog1_def closed_dirs_def)
        then have "card (D - loaded_paths prog2) < Suc depth" using Cons.prems(2) by simp
        from Cons.IH [OF Cons.prems(1) this, of e2] show ?thesis using st Some x by (auto simp: prog1_def)
      qed
    qed simp }
qed

lemma visit_forced_returns:
  assumes D: "closed_dirs tc roots D" "canonical \<in> D" "card D < depth"
  shows "\<exists>st'. visit_forced tc roots depth canonical fs (e, prog) = Some st'"
proof (induction fs arbitrary: e prog)
  case (Cons f fs)
  show ?case
  proof (cases "resolve_import_path tc canonical f roots")
    case None
    then show ?thesis using Cons by simp
  next
    case (Some res)
    have "fst res \<in> D" by (rule closed_dirsD [OF D(1,2) Some])
    moreover have "card (D - loaded_paths (add_trace canonical f res prog)) < depth"
      using D(1,3) card_mono [of D "D - loaded_paths prog"] by (auto simp: closed_dirs_def)
    ultimately obtain e2 prog2 where "visit tc roots depth (fst res) (e, add_trace canonical f res prog) = Some (e2, prog2)"
      using visit_returns(1) [OF D(1)] by blast
    then show ?thesis using Cons Some by simp
  qed
qed simp

lemma resolve_program_total:
  assumes "finite (canonicalize tc ` {c. directory_exists tc c})" "card (canonicalize tc ` {c. directory_exists tc c}) + 1 < depth"
  shows "\<exists>st. resolve_program tc depth root_path opts e = Some st"
proof -
  define canonical where "canonical = canonicalize tc root_path"
  define D where "D = insert canonical (canonicalize tc ` {c. directory_exists tc c})"
  have D: "finite D" "canonical \<in> D" "card D < depth"
    using assms card_insert_le_m1 [of "Suc (card (canonicalize tc ` {c. directory_exists tc c}))"] by (auto simp: D_def card_insert_if)
  have c: "closed_dirs tc roots D" for roots
    using D(1) resolved_is_directory [of tc _ _ roots] unfolding closed_dirs_def by (auto simp: D_def)
  have "card (D - loaded_paths prog) < depth" for prog :: "'a program" using D(3) card_mono [OF D(1), of "D - loaded_paths prog"] by auto
  then have v: "\<exists>e' prog'. visit tc roots depth canonical (e1, prog) = Some (e', prog')" for roots e1 prog
    using visit_returns(1) [OF c D(2)] by blast
  have f: "\<exists>st'. visit_forced tc roots depth canonical fs st = Some st'" for roots fs st
    using visit_forced_returns [OF c D(2,3)] by (cases st) blast
  obtain e1 std where st: "std_root tc opts e = (e1, std)" by fastforce
  show ?thesis
  proof (cases "canonical = [] \<or> \<not> directory_exists tc canonical \<or> std = None")
    case True
    then show ?thesis using st by (auto simp: resolve_program_def canonical_def Let_def)
  next
    case False
    then obtain s where s: "std = Some s" by blast
    define roots where "roots = (base_roots tc opts canonical)\<lparr>modules_root := s\<rparr>"
    obtain st1 where v1: "visit tc roots depth canonical (e1, empty_program\<lparr>root_module_path := canonical\<rparr>) = Some st1" using v by fastforce
    obtain e2 prog2 where "visit_forced tc roots depth canonical (forced_modules opts) st1 = Some (e2, prog2)" using f by fastforce
    then show ?thesis using False st s v1 by (simp add: resolve_program_def canonical_def [symmetric] roots_def [symmetric] Let_def)
  qed
qed

subsection \<open>What the walk has visited\<close>

definition import_entry :: "'d program \<Rightarrow> string \<Rightarrow> string \<Rightarrow> string option" where
  "import_entry prog p i = (case map_of (module_imports prog) p of None \<Rightarrow> None | Some is \<Rightarrow> map_of is i)"

text \<open>The entries, the order and the trace of a program agree with what imports resolve to.\<close>

definition program_wf :: "'d toolchain \<Rightarrow> search_roots \<Rightarrow> 'd program \<Rightarrow> bool" where
  "program_wf tc roots prog \<longleftrightarrow> distinct (module_order prog) \<and> set (module_order prog) = loaded_paths prog \<and>
     (\<forall>p i r. import_entry prog p i = Some r \<longrightarrow> (\<exists>l. resolve_import_path tc p i roots = Some (r, l))) \<and>
     (\<forall>t \<in> set (module_search_trace prog). importer t \<in> loaded_paths prog \<and>
        resolve_import_path tc (importer t) (import_path t) roots = Some (resolved_path t, root_label t))"

definition resolved_imports :: "'d toolchain \<Rightarrow> search_roots \<Rightarrow> 'd program \<Rightarrow> string \<Rightarrow> (string \<times> source_location) list \<Rightarrow> bool" where
  "resolved_imports tc roots prog p is \<longleftrightarrow> (\<forall>(i, loc) \<in> set is. \<forall>r l. resolve_import_path tc p i roots = Some (r, l) \<longrightarrow>
     r \<in> loaded_paths prog \<and> import_entry prog p i = Some r)"

definition finished :: "'d toolchain \<Rightarrow> search_roots \<Rightarrow> 'd program \<Rightarrow> string \<Rightarrow> bool" where
  "finished tc roots prog p \<longleftrightarrow> (\<exists>m. map_of (loaded_modules prog) p = Some m \<and> resolved_imports tc roots prog p (find_import_strings tc m))"

text \<open>
  How a walk changes a program: the order grows at its end, entries stay, the modules that were there keep their
  contents, and everything new is finished and has a record of the import that led to it.
\<close>

definition extends :: "'d toolchain \<Rightarrow> search_roots \<Rightarrow> 'd program \<Rightarrow> 'd program \<Rightarrow> bool" where
  "extends tc roots prog prog' \<longleftrightarrow> program_wf tc roots prog' \<and> loaded_paths prog \<subseteq> loaded_paths prog' \<and>
     (\<exists>new. module_order prog' = module_order prog @ new) \<and>
     (\<forall>p \<in> loaded_paths prog. map_of (loaded_modules prog') p = map_of (loaded_modules prog) p) \<and>
     (\<forall>p i r. import_entry prog p i = Some r \<longrightarrow> import_entry prog' p i = Some r) \<and>
     set (module_search_trace prog) \<subseteq> set (module_search_trace prog')"

lemma extends_trans: "extends tc roots a b \<Longrightarrow> extends tc roots b c \<Longrightarrow> extends tc roots a c"
proof -
  assume h: "extends tc roots a b" "extends tc roots b c"
  have "\<exists>new. module_order c = module_order a @ new" using h unfolding extends_def by fastforce
  moreover have "\<forall>p \<in> loaded_paths a. map_of (loaded_modules c) p = map_of (loaded_modules a) p"
    using h unfolding extends_def by (metis subsetD)
  moreover have "\<forall>p i r. import_entry a p i = Some r \<longrightarrow> import_entry c p i = Some r" using h unfolding extends_def by metis
  ultimately show ?thesis using h unfolding extends_def by (meson subset_trans)
qed

lemma extends_resolved: "extends tc roots a b \<Longrightarrow> resolved_imports tc roots a p is \<Longrightarrow> resolved_imports tc roots b p is"
proof -
  assume e: "extends tc roots a b" and r: "resolved_imports tc roots a p is"
  have "loaded_paths a \<subseteq> loaded_paths b" "\<And>p i r. import_entry a p i = Some r \<Longrightarrow> import_entry b p i = Some r" using e by (auto simp: extends_def)
  then show ?thesis using r unfolding resolved_imports_def by blast
qed

lemma extends_finished: "extends tc roots a b \<Longrightarrow> finished tc roots a p \<Longrightarrow> finished tc roots b p"
proof -
  assume e: "extends tc roots a b" and "finished tc roots a p"
  then obtain m where m: "map_of (loaded_modules a) p = Some m" "resolved_imports tc roots a p (find_import_strings tc m)" by (auto simp: finished_def)
  have "p \<in> loaded_paths a" using m(1) by (simp add: loaded_map)
  then have "map_of (loaded_modules b) p = Some m" using e m(1) by (simp add: extends_def)
  then show ?thesis using extends_resolved [OF e m(2)] by (auto simp: finished_def)
qed

definition walked :: "'d toolchain \<Rightarrow> search_roots \<Rightarrow> string set \<Rightarrow> 'd program \<Rightarrow> 'd program \<Rightarrow> bool" where
  "walked tc roots seeds prog prog' \<longleftrightarrow> extends tc roots prog prog' \<and>
     (\<forall>p \<in> loaded_paths prog' - loaded_paths prog. finished tc roots prog' p \<and>
        (p \<in> seeds \<or> (\<exists>t \<in> set (module_search_trace prog'). resolved_path t = p)))"

lemma walked_extends: "walked tc roots S a b \<Longrightarrow> extends tc roots a b" "walked tc roots S a b \<Longrightarrow> program_wf tc roots b"
  by (simp_all add: walked_def extends_def)

lemma walked_refl: "program_wf tc roots a \<Longrightarrow> walked tc roots S a a"
  by (simp add: walked_def extends_def)

lemma walked_trans:
  assumes ab: "walked tc roots S a b" and bc: "walked tc roots S' b c"
    and seeds: "\<And>p. p \<in> S \<union> S' \<Longrightarrow> p \<in> T \<or> (\<exists>t \<in> set (module_search_trace c). resolved_path t = p)"
  shows "walked tc roots T a c"
  unfolding walked_def
proof (intro conjI ballI)
  show "extends tc roots a c" using extends_trans ab bc walked_extends(1) by blast
  fix p assume p: "p \<in> loaded_paths c - loaded_paths a"
  have tr: "set (module_search_trace b) \<subseteq> set (module_search_trace c)" using bc by (simp add: walked_def extends_def)
  show "finished tc roots c p"
    using p ab bc extends_finished [OF walked_extends(1) [OF bc]] unfolding walked_def by blast
  show "p \<in> T \<or> (\<exists>t \<in> set (module_search_trace c). resolved_path t = p)"
  proof (cases "p \<in> loaded_paths b")
    case True
    then have "p \<in> S \<or> (\<exists>t \<in> set (module_search_trace b). resolved_path t = p)" using ab p unfolding walked_def by blast
    then show ?thesis using seeds tr by blast
  next
    case False
    then have "p \<in> S' \<or> (\<exists>t \<in> set (module_search_trace c). resolved_path t = p)" using bc p unfolding walked_def by blast
    then show ?thesis using seeds by blast
  qed
qed

lemma import_entry_add: "import_entry (add_import p i r prog) q j = (if q = p \<and> j = i then Some r else import_entry prog q j)"
  by (auto simp: import_entry_def add_import_def update_conv' split: option.splits)

lemma import_entry_same: "module_imports a = module_imports b \<Longrightarrow> import_entry a = import_entry b"
  by (rule ext)+ (simp add: import_entry_def)

lemma add_import_walked:
  assumes wf: "program_wf tc roots prog" and path: "path \<in> loaded_paths prog" and res: "resolve_import_path tc path i roots = Some res"
  shows "walked tc roots S prog (add_trace path i res (add_import path i (fst res) prog))"
proof -
  let ?p = "add_trace path i res (add_import path i (fst res) prog)"
  have e: "import_entry ?p q j = (if q = path \<and> j = i then Some (fst res) else import_entry prog q j)" for q j
    using import_entry_add [of path i "fst res" prog q j] import_entry_same [of ?p "add_import path i (fst res) prog"] by simp
  have t: "set (module_search_trace ?p) = insert \<lparr>importer = path, import_path = i, resolved_path = fst res, root_label = snd res\<rparr> (set (module_search_trace prog))"
    by (simp add: add_trace_def) 
  have r: "resolve_import_path tc path i roots = Some (fst res, snd res)" using res by simp
  have "program_wf tc roots ?p" using wf path r unfolding program_wf_def e t by (auto simp: prod_eq_iff split: if_splits)
  moreover have "import_entry ?p q j = Some r" if old: "import_entry prog q j = Some r" for q j r
  proof (cases "q = path \<and> j = i")
    case True
    then obtain l where "resolve_import_path tc path i roots = Some (r, l)" using old wf unfolding program_wf_def by blast
    then have "fst res = r" using res by simp
    then show ?thesis unfolding e using True by simp
  qed (use old in \<open>auto simp: e\<close>)
  ultimately show ?thesis by (auto simp: walked_def extends_def t)
qed

lemma load_walked:
  assumes wf: "program_wf tc roots prog" and new: "path \<notin> loaded_paths prog"
    and p1: "map_of (loaded_modules prog1) = (map_of (loaded_modules prog))(path \<mapsto> m)" "loaded_paths prog1 = insert path (loaded_paths prog)"
      "module_order prog1 = module_order prog @ [path]" "module_imports prog1 = module_imports prog" "module_search_trace prog1 = module_search_trace prog"
  shows "extends tc roots prog prog1"
proof -
  have "program_wf tc roots prog1" using wf new unfolding program_wf_def import_entry_same [OF p1(4)] p1 by auto
  then show ?thesis using new unfolding extends_def import_entry_same [OF p1(4)] p1 by auto
qed

lemma visit_walked:
  "program_wf tc roots prog \<Longrightarrow> visit tc roots depth path (e, prog) = Some (e', prog') \<Longrightarrow>
     walked tc roots {path} prog prog' \<and> path \<in> loaded_paths prog'"
  "program_wf tc roots prog \<Longrightarrow> path \<in> loaded_paths prog \<Longrightarrow> visit_imports tc roots depth path is (e, prog) = Some (e', prog') \<Longrightarrow>
     walked tc roots {} prog prog' \<and> resolved_imports tc roots prog' path is"
proof (induction depth arbitrary: path e prog e' prog' "is")
  case 0
  { case 1 then show ?case by simp }
  { case 2
    then show ?case
    proof (induction "is" arbitrary: e prog)
      case (Cons x xs)
      then show ?case by (cases x) (auto split: option.splits simp: resolved_imports_def)
    qed (simp add: walked_refl resolved_imports_def) }
next
  case (Suc depth)
  have v: "walked tc roots {path} prog prog' \<and> path \<in> loaded_paths prog'"
    if wf: "program_wf tc roots prog" and r: "visit tc roots (Suc depth) path (e, prog) = Some (e', prog')" for path e prog e' prog'
  proof (cases "path \<in> loaded_paths prog")
    case True
    then show ?thesis using r wf walked_refl by (auto simp: loaded_paths_def)
  next
    case False
    obtain e1 prog1 m where n: "visit tc roots (Suc depth) path (e, prog) = visit_imports tc roots depth path (find_import_strings tc m) (e1, prog1)"
      and p1: "map_of (loaded_modules prog1) = (map_of (loaded_modules prog))(path \<mapsto> m)" "loaded_paths prog1 = insert path (loaded_paths prog)"
        "module_order prog1 = module_order prog @ [path]" "module_imports prog1 = module_imports prog" "module_search_trace prog1 = module_search_trace prog"
      by (rule visit_new [OF False, of tc roots depth e])
    have x: "extends tc roots prog prog1" by (rule load_walked [OF wf False p1])
    then have wf1: "program_wf tc roots prog1" by (simp add: extends_def)
    have w: "walked tc roots {} prog1 prog'" "resolved_imports tc roots prog' path (find_import_strings tc m)"
      using Suc.IH(2) [OF wf1 _ r [unfolded n]] p1(2) by auto
    have "map_of (loaded_modules prog') path = Some m" using w(1) p1 by (simp add: walked_def extends_def)
    then have fin: "finished tc roots prog' path" using w(2) by (auto simp: finished_def)
    have "extends tc roots prog prog'" using extends_trans [OF x walked_extends(1) [OF w(1)]] .
    moreover have "loaded_paths prog1 \<subseteq> loaded_paths prog'" using w(1) by (simp add: walked_def extends_def)
    ultimately show ?thesis using w(1) fin p1(2) unfolding walked_def by auto
  qed
  { case 1 then show ?case by (rule v) }
  { case 2
    then show ?case
    proof (induction "is" arbitrary: e prog)
      case (Cons x xs)
      obtain i loc where x: "x = (i, loc)" by fastforce
      show ?case
      proof (cases "resolve_import_path tc path i roots")
        case None
        have "walked tc roots {} prog prog' \<and> resolved_imports tc roots prog' path xs" using Cons None x by simp
        then show ?thesis using None x by (simp add: resolved_imports_def)
      next
        case (Some res)
        define prog1 where "prog1 = add_trace path i res (add_import path i (fst res) prog)"
        obtain e2 prog2 where st: "visit tc roots (Suc depth) (fst res) (e, prog1) = Some (e2, prog2)"
          and rest: "visit_imports tc roots (Suc depth) path xs (e2, prog2) = Some (e', prog')"
          using Cons.prems(3) Some x by (auto simp: prog1_def split: option.splits)
        have w1: "walked tc roots {} prog prog1" unfolding prog1_def by (rule add_import_walked [OF Cons.prems(1,2) Some])
        have w2: "walked tc roots {fst res} prog1 prog2" "fst res \<in> loaded_paths prog2" using v [OF walked_extends(2) [OF w1] st] by simp_all
        have l2: "path \<in> loaded_paths prog2" using w1 w2(1) Cons.prems(2) unfolding walked_def extends_def by blast
        have w3: "walked tc roots {} prog2 prog'" "resolved_imports tc roots prog' path xs"
          using Cons.IH [OF walked_extends(2) [OF w2(1)] l2 rest] by simp_all
        have tr: "\<exists>t \<in> set (module_search_trace prog2). resolved_path t = fst res"
        proof -
          have "\<exists>t \<in> set (module_search_trace prog1). resolved_path t = fst res" by (auto simp: prog1_def add_trace_def)
          then show ?thesis using w2(1) unfolding walked_def extends_def by blast
        qed
        have w12: "walked tc roots {} prog prog2" by (rule walked_trans [OF w1 w2(1)]) (use tr in auto)
        have "walked tc roots {} prog prog'" by (rule walked_trans [OF w12 w3(1)]) simp
        moreover have "fst res \<in> loaded_paths prog'" using w2(2) w3(1) unfolding walked_def extends_def by blast
        moreover have "import_entry prog' path i = Some (fst res)"
        proof -
          have "import_entry prog1 path i = Some (fst res)"
            using import_entry_add [of path i "fst res" prog path i] import_entry_same [of prog1 "add_import path i (fst res) prog"]
            by (simp add: prog1_def)
          then show ?thesis using w2(1) w3(1) unfolding walked_def extends_def by blast
        qed
        ultimately show ?thesis using w3(2) Some x by (auto simp: resolved_imports_def)
      qed
    qed (simp add: walked_refl resolved_imports_def) }
qed

lemma add_trace_walked:
  assumes wf: "program_wf tc roots prog" and path: "path \<in> loaded_paths prog" and res: "resolve_import_path tc path i roots = Some res"
  shows "walked tc roots S prog (add_trace path i res prog)"
proof -
  let ?p = "add_trace path i res prog"
  have e: "import_entry ?p = import_entry prog" by (rule import_entry_same) simp
  have t: "set (module_search_trace ?p) = insert \<lparr>importer = path, import_path = i, resolved_path = fst res, root_label = snd res\<rparr> (set (module_search_trace prog))"
    by (simp add: add_trace_def)
  have r: "resolve_import_path tc path i roots = Some (fst res, snd res)" using res by simp
  have "program_wf tc roots ?p" using wf path r by (auto simp: program_wf_def e t split: if_splits)
  then show ?thesis by (auto simp: walked_def extends_def e t)
qed

lemma visit_forced_walked:
  "program_wf tc roots prog \<Longrightarrow> canonical \<in> loaded_paths prog \<Longrightarrow> visit_forced tc roots depth canonical fs (e, prog) = Some (e', prog') \<Longrightarrow>
     walked tc roots {} prog prog'"
proof (induction fs arbitrary: e prog)
  case (Cons f fs)
  show ?case
  proof (cases "resolve_import_path tc canonical f roots")
    case None
    then show ?thesis using Cons by simp
  next
    case (Some res)
    define prog1 where "prog1 = add_trace canonical f res prog"
    obtain e2 prog2 where st: "visit tc roots depth (fst res) (e, prog1) = Some (e2, prog2)"
      and rest: "visit_forced tc roots depth canonical fs (e2, prog2) = Some (e', prog')"
      using Cons.prems(3) Some by (auto simp: prog1_def split: option.splits)
    have w1: "walked tc roots {} prog prog1" unfolding prog1_def by (rule add_trace_walked [OF Cons.prems(1,2) Some])
    have w2: "walked tc roots {fst res} prog1 prog2" using visit_walked(1) [OF walked_extends(2) [OF w1] st] by simp
    have l2: "canonical \<in> loaded_paths prog2" using w1 w2 Cons.prems(2) unfolding walked_def extends_def by blast
    have w3: "walked tc roots {} prog2 prog'" by (rule Cons.IH [OF walked_extends(2) [OF w2] l2 rest])
    have "\<exists>t \<in> set (module_search_trace prog1). resolved_path t = fst res" by (auto simp: prog1_def add_trace_def)
    then have tr: "\<exists>t \<in> set (module_search_trace prog2). resolved_path t = fst res" using w2 unfolding walked_def extends_def by blast
    have "walked tc roots {} prog prog2" by (rule walked_trans [OF w1 w2]) (use tr in auto)
    then show ?thesis by (rule walked_trans [OF _ w3]) simp
  qed
qed (simp add: walked_refl)

definition final_roots :: "'d toolchain \<Rightarrow> resolve_options \<Rightarrow> string \<Rightarrow> diagnostic_engine \<Rightarrow> search_roots" where
  "final_roots tc opts root_path e = (base_roots tc opts (canonicalize tc root_path))\<lparr>modules_root := the (snd (std_root tc opts e))\<rparr>"

lemma resolve_program_closed:
  assumes "canonicalize tc root_path \<noteq> []" "directory_exists tc (canonicalize tc root_path)" "snd (std_root tc opts e) \<noteq> None"
    "resolve_program tc depth root_path opts e = Some (e', prog)"
  shows "hd (module_order prog) = canonicalize tc root_path \<and> distinct (module_order prog) \<and>
    (\<forall>p \<in> set (module_order prog). finished tc (final_roots tc opts root_path e) prog p \<and>
       (p = canonicalize tc root_path \<or> (\<exists>t \<in> set (module_search_trace prog). importer t \<in> set (module_order prog) \<and>
          resolve_import_path tc (importer t) (import_path t) (final_roots tc opts root_path e) = Some (p, root_label t))))"
proof -
  define c where "c = canonicalize tc root_path"
  define roots where "roots = final_roots tc opts root_path e"
  obtain e1 std where std: "std_root tc opts e = (e1, Some std)" using assms(3) by (cases "std_root tc opts e") auto
  have r: "roots = (base_roots tc opts c)\<lparr>modules_root := std\<rparr>" by (simp add: roots_def final_roots_def std c_def)
  define p0 where "p0 = (empty_program :: 'a program)\<lparr>root_module_path := c\<rparr>"
  obtain e2 p1 e3 p2 where v: "visit tc roots depth c (e1, p0) = Some (e2, p1)"
    and f: "visit_forced tc roots depth c (forced_modules opts) (e2, p1) = Some (e3, p2)" and prog: "prog = p2\<lparr>program_ok := \<not> has_errors e3\<rparr>"
    using assms(1,2,4) std by (auto simp: resolve_program_def c_def [symmetric] r [symmetric] p0_def [symmetric] Let_def split: option.splits)
  have wf0: "program_wf tc roots p0" by (simp add: program_wf_def p0_def empty_program_def loaded_paths_def import_entry_def)
  have new: "c \<notin> loaded_paths p0" by (simp add: p0_def empty_program_def loaded_paths_def)
  obtain n where d: "depth = Suc n" using v by (cases depth) auto
  have w1: "walked tc roots {c} p0 p1" "c \<in> loaded_paths p1" using visit_walked(1) [OF wf0 v] by simp_all
  have w2: "walked tc roots {} p1 p2" by (rule visit_forced_walked [OF walked_extends(2) [OF w1(1)] w1(2) f])
  have w: "walked tc roots {c} p0 p2" by (rule walked_trans [OF w1(1) w2]) simp
  have wf: "program_wf tc roots p2" by (rule walked_extends(2) [OF w])
  have hd1: "\<exists>new. module_order p1 = c # new"
  proof -
    obtain ei pi m where "visit tc roots (Suc n) c (e1, p0) = visit_imports tc roots n c (find_import_strings tc m) (ei, pi)"
      and pi: "map_of (loaded_modules pi) = (map_of (loaded_modules p0))(c \<mapsto> m)" "loaded_paths pi = insert c (loaded_paths p0)"
        "module_order pi = module_order p0 @ [c]" "module_imports pi = module_imports p0" "module_search_trace pi = module_search_trace p0"
      by (rule visit_new [OF new, of tc roots n e1])
    then have "visit_imports tc roots n c (find_import_strings tc m) (ei, pi) = Some (e2, p1)" using v d by simp
    from visit_walked(2) [OF _ _ this] have "extends tc roots pi p1"
      using load_walked [OF wf0 new pi] pi(2) by (auto simp: walked_def extends_def)
    then show ?thesis using pi(3) by (auto simp: extends_def p0_def empty_program_def)
  qed
  then obtain new' where "module_order p2 = c # new'" using w2 by (auto simp: walked_def extends_def)
  moreover have "distinct (module_order p2)" "set (module_order p2) = loaded_paths p2" using wf by (simp_all add: program_wf_def)
  moreover have "finished tc roots prog p" if "finished tc roots p2 p" for p
    using that import_entry_same [of prog p2] by (simp add: finished_def resolved_imports_def prog loaded_paths_def)
  moreover have "finished tc roots p2 p \<and> (p = c \<or> (\<exists>t \<in> set (module_search_trace p2). importer t \<in> loaded_paths p2 \<and>
      resolve_import_path tc (importer t) (import_path t) roots = Some (p, root_label t)))" if "p \<in> loaded_paths p2" for p
  proof -
    have "finished tc roots p2 p" "p = c \<or> (\<exists>t \<in> set (module_search_trace p2). resolved_path t = p)"
      using w that by (auto simp: walked_def p0_def empty_program_def loaded_paths_def)
    then show ?thesis using wf unfolding program_wf_def by blast
  qed
  ultimately show ?thesis unfolding c_def [symmetric] roots_def [symmetric] by (simp add: prog)
qed


subsection \<open>Two modules that import each other\<close>

definition cyclic :: "string toolchain" where
  "cyclic = \<lparr>dir_entries = (\<lambda>d. if d \<in> {''/a'', ''/b''} then Some [(d @ ''/m.mir'', True)] else None),
     file_contents = (\<lambda>f. Some '' ''),
     directory_exists = (\<lambda>p. p \<in> {''/a'', ''/b'', ''/a/../b'', ''/b/../a''}),
     weakly_canonical = (\<lambda>p. if p \<in> {''/a'', ''/b/../a''} then Some ''/a'' else if p \<in> {''/b'', ''/a/../b''} then Some ''/b'' else None),
     current_path = Some ''/a'', getenv = (\<lambda>v. None), exe_link = None, regular_file = (\<lambda>p. p \<in> {''/a/m.mir'', ''/b/m.mir''}),
     parse_tokens = (\<lambda>ts e. (map (\<lambda>t. filename (tloc t)) ts, e)),
     import_in = (\<lambda>f. Some (if f = ''/a/m.mir'' then ''../b'' else ''../a'', default_location))\<rparr>"

definition no_options :: resolve_options where
  "no_options = \<lparr>std_path_override = [], opt_compiler_dir = [], forced_modules = []\<rparr>"

lemma cyclic_dirs: "canonicalize cyclic ` {c. directory_exists cyclic c} = {''/a'', ''/b''}"
proof -
  have d: "{c. directory_exists cyclic c} = {''/a'', ''/b'', ''/a/../b'', ''/b/../a''}" by (auto simp: cyclic_def)
  show ?thesis unfolding d by (auto simp: cyclic_def canonicalize_def)
qed



end
