(* ===== verification/Spec2Isabelle.thy ===== *)
theory Spec2Isabelle
  imports Lexer_Asi Lexer_Roundtrip Asm_Roundtrip Elf_Reader Mir_Builder Mir_Pipeline X86_Alloc X86_Labels Wasm_Object
    Lsp_Transport Lsp_Server Module_Resolver
begin

text \<open>
  A verification development for the Mirage compiler (\<^verbatim>\<open>src/src/compiler\<close>) and its language server (\<^verbatim>\<open>src/src/lsp\<close>).

  \<^bold>\<open>The program.\<close> Mirage source text is tokenised by the lexer, parsed and checked, lowered to Mirage IR (MIR)
  by \<^verbatim>\<open>mirgen\<close> through the \<^verbatim>\<open>mir::Builder\<close>, verified, simplified by the MIR passes, and lowered again to
  x86-64 machine code (register allocation, encoding, ELF object) or to WebAssembly (a finished module
  or a relocatable object). Diagnostics of all stages go through one engine that prints source lines
  kept by the source manager. The language server runs the same front end for an editor: one thread reads JSON-RPC
  messages, one worker keeps the open documents, analyses them and answers.

  \<^bold>\<open>Conventions.\<close> Structs are records, enums datatypes, machine integers words where their width matters
  (\<open>u32\<close>, \<open>u64\<close>) and handles natural numbers (\<open>UINT32_MAX\<close> is the absent marker); \<^verbatim>\<open>std::string\<close> is \<open>string\<close> where
  the text matters and \<open>bytes\<close> in the binary writers. Methods that change an object take it as their last
  argument and return it. Loops are total functions. Those that may run forever return an option
  (\<^verbatim>\<open>resolve\<close> of the passes and what calls it, the search of slot promotion, the liveness iteration), and theorems say when they
  return. Where a cast, shift or counter can wrap, the wrap is in the definition.

  \<^bold>\<open>Front end.\<close> \<open>Diagnostics\<close> models \<^verbatim>\<open>source_location.hpp\<close>, \<^verbatim>\<open>source_manager\<close> and \<^verbatim>\<open>diagnostic_engine\<close>: the error
  cap, duplicate suppression, printed excerpts, line lookup. \<open>Token\<close> and \<open>Lexer\<close> model \<^verbatim>\<open>token.hpp\<close>, \<^verbatim>\<open>token.cpp\<close> and
  \<^verbatim>\<open>lexer.cpp\<close> whole, raw assembly capture and semicolon insertion included. \<open>Lexer_Scan\<close> has the relation \<open>scans\<close>
  that all scanning routines satisfy, \<open>Lexer_Loop\<close> the main loop with its termination, \<open>Lexer_Tokens\<close> the loop
  invariant (locations, order, soundness of semicolon insertion), \<open>Lexer_Asi\<close> its completeness,
  \<open>Lexer_Spelling\<close> kinds against lexemes, \<open>Lexer_Roundtrip\<close> that printed tokens lex back.
  \<open>Asm_Lexer\<close> and \<open>Asm_Parser\<close> model \<^verbatim>\<open>asm_registers.hpp\<close>, \<^verbatim>\<open>asm_lexer.cpp\<close> and \<^verbatim>\<open>asm_parser.cpp\<close> with their error recovery;
  \<open>Asm_Roundtrip\<close> shows that printed instructions are read back.
  \<open>Module_Resolver\<close> models \<^verbatim>\<open>module_resolver.cpp\<close>: the walk over the import graph returns, is complete, and rooted imports
  stay under their root; the file system, the environment and the parser are its parameter.

  \<^bold>\<open>Middle end.\<close> \<open>Mir\<close> is the data model of \<^verbatim>\<open>mir.hpp\<close> with signature interning, \<open>Mir_Builder\<close> the builder and its
  coherence invariant, \<open>Mir_Verify\<close> the verifier with the typing rules \<open>module_wf\<close> it decides. \<open>Mir_Fold\<close> and
  \<open>Mir_Peephole\<close> model the peephole pass of \<^verbatim>\<open>mir_passes.cpp\<close>: folding agrees with two's-complement arithmetic,
  its passes return unless a value is an alias of itself, and \<open>Mir_Peephole_Wf\<close> and
  \<open>Mir_Peephole_Params\<close> show that verified modules stay verified. \<open>Mir_Example\<close> and \<open>Mir_Peephole_Example\<close> are
  the concrete modules the instances are evaluated on.
  \<open>Mir_Promote\<close> models slot promotion. \<open>Mir_Promote_Reach\<close> has the search for reaching values as a big-step relation
  and what each step keeps, \<open>Mir_Promote_Walk\<close> the walk over the blocks, \<open>Mir_Promote_Edges\<close> the placing of edge
  arguments, \<open>Mir_Promote_Wf\<close> and \<open>Mir_Promote_Sound\<close> the shape, typing and definedness of the result,
  \<open>Mir_Promote_Ends\<close> that it returns when blocks with one predecessor come after it in a ranking;
  \<open>Mir_Promote_Module\<close> states this for modules, \<open>Mir_Promote_Example\<close> has the modules it is evaluated on, and
  \<open>Mir_Pipeline\<close> composes both passes as \<^verbatim>\<open>main.cpp\<close> does.

  \<^bold>\<open>Back ends.\<close> \<open>Bitset\<close>, \<open>X86_Regalloc\<close> model \<^verbatim>\<open>x86_regalloc\<close>; \<open>X86_Liveness\<close> shows that the iteration computes path
  liveness and ends, \<open>X86_Scan\<close> and \<open>X86_Alloc\<close> that the assignment
  respects kill ranges and never gives one register to two values live at a point. \<open>X86_Encoder\<close> models every
  emitter of \<^verbatim>\<open>x86_encoder\<close>; \<open>X86_Disasm\<close> is an independent decoder, \<open>X86_Encoding\<close> shows that a stream of
  emitter calls disassembles to the instructions meant, \<open>X86_Labels\<close> that label resolution patches every
  jump to its label. \<open>Wasm_Leb\<close>, \<open>Wasm_Code\<close>, \<open>Wasm_Module\<close>, \<open>Wasm_Object\<close> model \<^verbatim>\<open>wasm_encoder\<close>: LEB128 codecs, the
  instruction stream with relocations, both serializers; \<open>Wasm_Decode\<close> reads modules back.
  \<open>Elf_Writer\<close> models \<^verbatim>\<open>elf_writer\<close>; \<open>Elf_Reader\<close> reads the sections, symbols and relocations of a written file back.

  \<^bold>\<open>Language server\<close> (\<^verbatim>\<open>src/src/lsp\<close>). \<open>Lsp_Uri\<close>, \<open>Lsp_Transport\<close> and \<open>Lsp_Position\<close> model \<^verbatim>\<open>uri.cpp\<close>, \<^verbatim>\<open>transport.cpp\<close> and
  \<^verbatim>\<open>position_encoding.cpp\<close>: percent-coding and framing are read back, accepted messages respect the limits, columns
  convert exactly between bytes and UTF-16. \<open>Lsp_Documents\<close> models the class \<^verbatim>\<open>DocumentStore\<close> of \<^verbatim>\<open>analysis.cpp\<close> and shows
  that its index agrees with its cache, that a lookup returns a valid reference, and that a served result was computed from
  the present contents of its import closure.
  \<open>Lsp_Worker\<close> models the class \<^verbatim>\<open>Worker\<close> of \<^verbatim>\<open>server.cpp\<close> with \<^verbatim>\<open>handlers/diagnostics.cpp\<close>: what a publication round leaves on
  the client's screen in sessions without closed documents, and two sessions with closes where diagnostics stay. \<open>Lsp_Server\<close> models \<^verbatim>\<open>Server::run\<close>, \<^verbatim>\<open>run_worker_loop\<close> and \<^verbatim>\<open>task_queue.hpp\<close> as a transition system of two
  threads: every request is answered at most once in every interleaving, and after a bounded number of worker steps. The
  compiler run behind an analysis, path canonicalization and the request handlers are parameters there; the
  messages are records of what the code reads from the JSON.

  \<^bold>\<open>Interfaces.\<close> \<open>Interfaces\<close> states as locales what several components promise: \<open>interner\<close> (signature and function
  type tables), \<open>invariant_system\<close> (step relations with an invariant: builder calls, code streams, encoder
  calls, diagnostics, sessions of the language server) and \<open>codec\<close> (encoders with a decoder); each is interpreted on the model's operations in
  the component that provides them. \<open>Prelude\<close> holds the shared machine types, printing and list facts.

  \<^bold>\<open>Hypotheses.\<close> Values that \<^verbatim>\<open>mirgen\<close> guarantees (coherent value tables, operands in range) appear as premises
  with an instance that satisfies them. The conversions between \<^verbatim>\<open>double\<close>, \<^verbatim>\<open>float\<close> and their bit patterns, the
  file system and the terminal test are parameters.

  \<^bold>\<open>Not modelled.\<close> The parser and the AST (\<^verbatim>\<open>ast.cpp\<close>), semantic analysis and type resolution, \<^verbatim>\<open>mirgen\<close>, instruction
  selection in \<^verbatim>\<open>backend_x86.cpp\<close> and \<^verbatim>\<open>backend_wasm.cpp\<close>, and the request handlers of the language server. They work
  on the full AST and symbol graph.
\<close>

section \<open>The middle end\<close>

subsection \<open>The verifier and its consumers\<close>

text \<open>
  C10: The MIR verifier reports nothing exactly on the modules that are well typed by the rules
  \<open>inst_wf\<close>, \<open>block_wf\<close> and \<open>function_wf\<close>: operands defined in the function and of the right type,
  jumps that pass the target's parameters, calls that match the callee's signature, one terminator
  at the end of each block.
\<close>

theorem verify_decides_typing: "verify m = [] \<longleftrightarrow> module_wf m"
  by (rule verify_Nil)

text \<open>
  C17: Any sequence of builder calls on an empty function leaves the value table coherent: each value
  describes the one instruction or block parameter that defines it, with its block, index and type,
  and no two instructions define the same value.
\<close>

theorem builder_keeps_coherence:
  assumes "builder_step\<^sup>*\<^sup>* (Builder m f) b" and "f < length (funcs m)"
    and "blocks (funcs m ! f) = []" "vals (funcs m ! f) = []"
  shows "coherent (the_function b)"
proof -
  have "builder_ok (Builder m f)"
    using assms(2-4) by (simp add: builder_ok_def Builder_def the_function_def coherent_def)
  then show ?thesis
    using builder.run_inv [OF assms(1)] by (simp add: builder_ok_def)
qed

theorem builder_keeps_coherence_witness:
  "coherent (the_function (fst (const_int Ty_I64 7 (set_insert_point 0
     (fst (create_block ''entry'' (Builder (demo_module\<lparr>funcs := [empty_function]\<rparr>) 0)))))))"
  by (rule builder_keeps_coherence [OF demo_steps]) (simp_all add: empty_function_def)

text \<open>
  Interning a signature returns a valid index of an equal signature, keeps the indices handed out
  before, and gives equal signatures one index and different signatures different ones.
\<close>

theorem intern_signature_spec:
  assumes "distinct (signatures m)" "intern_signature m s = (m1, i)" "intern_signature m1 t = (m2, j)"
  shows "i < length (signatures m1) \<and> signatures m1 ! i = s \<and> signatures m2 ! i = s \<and>
    distinct (signatures m2) \<and> (\<forall>k < length (signatures m). signatures m2 ! k = signatures m ! k) \<and>
    (i = j \<longleftrightarrow> s = t)"
proof -
  have m: "m1 = fst (intern_signature m s)" "m2 = fst (intern_signature m1 t)" "i = snd (intern_signature m s)"
    using assms(2,3) by simp_all
  have i: "i < length (signatures m1)" "signatures m1 ! i = s"
    using signatures.intern_index [of m s] m by simp_all
  have "k < length (signatures m1)" if "k < length (signatures m)" for k
    using that signatures.table_cases [of m s] m by auto
  then have "signatures m2 ! k = signatures m ! k" if "k < length (signatures m)" for k
    using that signatures.index_stable [of k m1 t] signatures.index_stable [of k m s] m by simp
  moreover have "distinct (signatures m2)"
    using signatures.table_distinct assms(1) m by simp
  ultimately show ?thesis
    using i signatures.index_stable [of i m1 t] m signatures.intern_injective [OF assms] by simp
qed

theorem intern_signature_spec_witness:
  "let p = intern_signature demo_module default_signature; q = intern_signature (fst p) default_signature
   in snd p < length (signatures (fst p)) \<and> snd p = snd q"
proof -
  have "distinct (signatures demo_module)" by (simp add: demo_module_def)
  from intern_signature_spec [OF this surjective_pairing surjective_pairing] show ?thesis
    unfolding Let_def by blast
qed

subsection \<open>The peephole pass\<close>

text \<open>
  C11: Folding an integer instruction on constants computes what the instruction means on \<open>n\<close>-bit
  two's complement integers, for every opcode, width and operand; it declines exactly where the
  instruction has no value (division by zero, an oversized shift, the overflowing 64-bit quotient).
\<close>

theorem fold_binary_is_arithmetic:
  assumes "is_integer type"
  shows "map_option uint (fold_binary x type a b pb) =
    int_binop x (type_bits type pb) (uint a mod 2 ^ type_bits type pb) (uint b mod 2 ^ type_bits type pb)"
  by (rule fold_binary_correct [OF assms])

theorem fold_binary_is_arithmetic_witness:
  "map_option uint (fold_binary Op_SDiv Ty_I8 0xF9 2 64) = int_binop Op_SDiv 8 249 2 \<and>
   int_binop Op_SDiv 8 249 2 = Some 253"
proof
  show "map_option uint (fold_binary Op_SDiv Ty_I8 0xF9 2 64) = int_binop Op_SDiv 8 249 2"
    using fold_binary_is_arithmetic [of Ty_I8 Op_SDiv "0xF9" 2 64] by (simp add: is_integer_def)
  show "int_binop Op_SDiv 8 249 2 = Some 253"
    by (simp add: int_binop_def as_signed_def signed_divide_int_def)
qed

text \<open>
  Folding a comparison of integer constants yields the comparison of the \<open>n\<close>-bit values, signed
  or unsigned as the opcode says.
\<close>

theorem fold_compare_is_comparison:
  assumes "is_integer type"
  shows "fold_compare x type a b pb =
    map_option of_bool (int_compare x (type_bits type pb) (uint a mod 2 ^ type_bits type pb)
      (uint b mod 2 ^ type_bits type pb))"
  by (rule fold_compare_correct [OF assms])

theorem fold_compare_is_comparison_witness: "fold_compare Op_ICmpSlt Ty_I16 0xFFFF 1 64 = Some 1"
  using fold_compare_is_comparison [of Ty_I16 Op_ICmpSlt "0xFFFF" 1 64]
  by (simp add: is_integer_def int_compare_def as_signed_def)

text \<open>
  C3: The peephole pass keeps a verified module verified, when its functions are coherent (as the
  builder leaves them) and integer conversions have integer results.
\<close>

theorem peephole_keeps_verified:
  assumes "verify m = []" and "peephole m = Some (m', st)"
    and "\<forall>fn \<in> set (funcs m). coherent fn \<and>
      (\<forall>i \<in> set (all_insts fn). oper i \<in> {Op_Trunc, Op_ZExt, Op_SExt} \<longrightarrow> is_integer (itype i))"
  shows "verify m' = []"
  using peephole_module_wf [OF assms(2)] assms(1,3) coherent_ssa_typed by (simp add: verify_Nil)

theorem peephole_keeps_verified_witness: "\<exists>m' st. peephole demo_module = Some (m', st) \<and> verify m' = []"
proof -
  obtain m' st where p: "peephole demo_module = Some (m', st)"
    using demo_peephole by blast
  have "\<forall>fn \<in> set (funcs demo_module). coherent fn \<and>
      (\<forall>i \<in> set (all_insts fn). oper i \<in> {Op_Trunc, Op_ZExt, Op_SExt} \<longrightarrow> is_integer (itype i))"
    using demo_coherent by (simp add: demo_module_def) (simp add: all_insts_def demo_defs)
  then show ?thesis
    using peephole_keeps_verified [OF demo_verified p] p by blast
qed

text \<open>
  C18: The parameter pass always returns: started without pending links, every chain it follows ends,
  and it leaves no link behind.
\<close>

theorem fold_trivial_params_returns:
  assumes "remap p = []"
  shows "\<exists>q st' c. fold_trivial_params p st = Some (q, st', c) \<and> remap q = []"
  by (rule fold_trivial_params_total [OF assms])

theorem fold_trivial_params_returns_witness:
  "\<exists>q st' c. fold_trivial_params demo_peep zero_stats = Some (q, st', c) \<and> remap q = []"
  by (rule fold_trivial_params_returns) (simp add: demo_peep_def)

text \<open>
  C19: The folding pass returns when the function's identities have no cyclic definitions: the values
  can be ranked so that the operands of each arithmetic and pointer instruction rank below its result.
\<close>

theorem fold_and_simplify_returns:
  assumes "remap p = []" and "\<forall>i \<in> set (all_insts (pfn p)). ranked rk i"
  shows "\<exists>q st' c. fold_and_simplify p st = Some (q, st', c)"
  by (rule fold_and_simplify_total [OF assms])

theorem fold_and_simplify_returns_witness:
  "\<exists>q st' c. fold_and_simplify demo_peep zero_stats = Some (q, st', c)"
proof (rule fold_and_simplify_returns [where rk = id])
  show "\<forall>i \<in> set (all_insts (pfn demo_peep)). ranked id i"
    by (simp add: demo_peep_def all_insts_def demo_defs ranked_def op_order)
qed (simp add: demo_peep_def)

text \<open>
  A module the verifier accepts and on which the pass does not return: an unreachable block that
  defines a value by adding zero to itself. The alias the pass records for it is a cyclic chain.
\<close>

theorem peephole_may_diverge: "verify spin_module = [] \<and> peephole spin_module = None"
proof
  show "verify spin_module = []"
    by (simp add: verify_def check_function_def check_block_def check_inst_def check_arith_def check_return_def
        check_block_args_def spin_module_def spin_function_def demo_module_def demo_inst_def demo_val_def
        default_inst_def default_signature_def is_terminator_def is_comparison_def is_int_binary_def is_integer_def
        check_operand_type_def value_ok_def UINT32_MAX_def op_order Let_def demo_function_def)
  have n: "rounds 16 = rounds (Suc 15)" by (simp add: numeral_eq_Suc)
  have "\<lparr>pfn = spin_function, ppointer_bits = 64, pconsts = Map.empty, remap = []\<rparr> = demo_peep\<lparr>pfn := spin_function\<rparr>"
    by (simp add: demo_peep_def)
  then have "rounds 16 \<lparr>pfn = spin_function, ppointer_bits = 64, pconsts = Map.empty, remap = []\<rparr> zero_stats = None"
    unfolding n rounds.simps using spin_folds by simp
  then show "peephole spin_module = None"
    by (simp add: peephole_def spin_module_def demo_module_def peephole_function_def)
       (simp add: spin_function_def demo_function_def)
qed

text \<open>
  Dead-value elimination deletes an inline assembly block with effects: an assembly expression
  whose result is unused (here a system call) is treated as pure.
\<close>

theorem remove_dead_drops_asm:
  "verify asm_module = [] \<and>
   all_insts (pfn (fst (remove_dead (demo_peep\<lparr>pfn := asm_function\<rparr>) zero_stats))) =
     [demo_inst Op_Return Ty_Void NO_VALUE NO_VALUE NO_VALUE []]"
proof
  show "verify asm_module = []"
    by (simp add: verify_def check_function_def check_block_def check_inst_def check_asm_def check_return_def
        asm_module_def asm_function_def demo_module_def demo_inst_def demo_val_def default_inst_def
        default_signature_def is_terminator_def demo_function_def Let_def)
  show "all_insts (pfn (fst (remove_dead (demo_peep\<lparr>pfn := asm_function\<rparr>) zero_stats))) =
     [demo_inst Op_Return Ty_Void NO_VALUE NO_VALUE NO_VALUE []]"
    by (simp add: dead_defs asm_function_def)
qed

end
